(* ===== verification/Prelude.thy ===== *)
theory Prelude
  imports Main "HOL-Library.Word"
begin

text \<open>
  What every component shares: the machine integer types of the Rust sources with their
  saturating arithmetic, the error monad that models the \<open>?\<close> operator, a stable
  insertion into a list by a position test (\<open>Iterator::position\<close> and \<open>Vec::insert\<close>),
  and the theorem collections that carry the component proofs.
\<close>

named_theorems clock_simps \<open>saturating clock arithmetic, read in nat\<close>
named_theorems res_simps \<open>inversion of the error monad\<close>

type_synonym u8 = "8 word"
type_synonym u16 = "16 word"
type_synonym u32 = "32 word"
type_synonym u64 = "64 word"

subsection \<open>Saturating arithmetic: \<open>saturating_add\<close> and \<open>saturating_sub\<close>\<close>

definition sat_add :: "'a::len word \<Rightarrow> 'a word \<Rightarrow> 'a word" where
  "sat_add a b = (if unat a + unat b < 2 ^ LENGTH('a) then a + b else - 1)"

definition sat_sub :: "'a::len word \<Rightarrow> 'a word \<Rightarrow> 'a word" where
  "sat_sub a b = (if a < b then 0 else a - b)"

lemma unat_sat_add [clock_simps]:
  "unat (sat_add a b) = min (unat a + unat b) (2 ^ LENGTH('a) - 1)" for a b :: "'a::len word"
  by (auto simp: sat_add_def unat_word_ariths unsigned_minus_1_eq_mask mask_eq_exp_minus_1 min_def)

lemma unat_sat_sub [clock_simps]: "unat (sat_sub a b) = unat a - unat b"
  by (auto simp: sat_sub_def unat_sub word_less_nat_alt word_le_nat_alt)

lemma sat_add_ge: "a \<le> sat_add a b"
  by (simp add: word_le_nat_alt unat_sat_add) (metis Suc_pred less_Suc_eq_le unsigned_less zero_less_numeral zero_less_power)

lemma sat_add_mono: "a \<le> b \<Longrightarrow> sat_add a d \<le> sat_add b d"
  by (simp add: word_le_nat_alt unat_sat_add)

lemma sat_sub_self [simp]: "sat_sub a a = 0"
  by (simp add: sat_sub_def)

subsection \<open>The error monad: \<open>Result\<close> and the \<open>?\<close> operator\<close>

fun bind_res :: "'e + 'a \<Rightarrow> ('a \<Rightarrow> 'e + 'b) \<Rightarrow> 'e + 'b" where
  "bind_res (Inl e) f = Inl e"
| "bind_res (Inr a) f = f a"

lemma bind_res_assoc: "bind_res (bind_res m f) g = bind_res m (\<lambda>a. bind_res (f a) g)"
  by (cases m) simp_all

lemma bind_res_Inr [res_simps]:
  "bind_res m f = Inr b \<longleftrightarrow> (\<exists>a. m = Inr a \<and> f a = Inr b)"
  by (cases m) simp_all

lemma bind_res_Inl [res_simps]:
  "bind_res m f = Inl e \<longleftrightarrow> m = Inl e \<or> (\<exists>a. m = Inr a \<and> f a = Inl e)"
  by (cases m) simp_all

lemma bind_res_cong [fundef_cong]:
  "m = m' \<Longrightarrow> (\<And>a. m' = Inr a \<Longrightarrow> f a = f' a) \<Longrightarrow> bind_res m f = bind_res m' f'"
  by (cases m') simp_all

subsection \<open>Lists: first position, removal and insertion at a position\<close>

text \<open>\<open>position p xs\<close> is \<open>xs.iter().position(p)\<close>.\<close>

fun position :: "('a \<Rightarrow> bool) \<Rightarrow> 'a list \<Rightarrow> nat option" where
  "position p [] = None"
| "position p (x # xs) = (if p x then Some 0 else map_option Suc (position p xs))"

definition remove_at :: "nat \<Rightarrow> 'a list \<Rightarrow> 'a list" where
  "remove_at i xs = take i xs @ drop (Suc i) xs"

definition insert_at :: "nat \<Rightarrow> 'a \<Rightarrow> 'a list \<Rightarrow> 'a list" where
  "insert_at i x xs = take i xs @ x # drop i xs"

lemma position_None [simp]: "position p xs = None \<longleftrightarrow> (\<forall>x\<in>set xs. \<not> p x)"
  by (induction xs) auto

lemma position_Some:
  "position p xs = Some i \<Longrightarrow> i < length xs \<and> p (xs ! i) \<and> (\<forall>j<i. \<not> p (xs ! j))"
proof (induction xs arbitrary: i)
  case (Cons x xs)
  then show ?case by (auto split: if_splits simp: nth_Cons split: nat.splits)
qed simp

lemma length_insert_at [simp]: "i \<le> length xs \<Longrightarrow> length (insert_at i x xs) = Suc (length xs)"
  by (simp add: insert_at_def)

lemma length_remove_at [simp]: "i < length xs \<Longrightarrow> length (remove_at i xs) = length xs - 1"
  by (simp add: remove_at_def)

lemma insert_at_not_Nil [simp]: "insert_at i x xs \<noteq> []"
  by (simp add: insert_at_def)

lemma set_insert_at [simp]: "set (insert_at i x xs) = insert x (set xs)"
proof -
  have "set xs = set (take i xs) \<union> set (drop i xs)"
    by (metis append_take_drop_id set_append)
  then show ?thesis by (auto simp: insert_at_def)
qed

lemma set_remove_at_subset: "set (remove_at i xs) \<subseteq> set xs"
  by (auto simp: remove_at_def dest: in_set_takeD in_set_dropD)

lemma map_insert_at: "map f (insert_at i x xs) = insert_at i (f x) (map f xs)"
  by (simp add: insert_at_def take_map drop_map)

lemma map_remove_at: "map f (remove_at i xs) = remove_at i (map f xs)"
  by (simp add: remove_at_def take_map drop_map)

lemma distinct_insert_at [simp]:
  "distinct (insert_at i x xs) \<longleftrightarrow> x \<notin> set xs \<and> distinct xs"
proof -
  have "distinct (insert_at i x xs) \<longleftrightarrow>
      x \<notin> set (take i xs @ drop i xs) \<and> distinct (take i xs @ drop i xs)"
    unfolding insert_at_def distinct_append set_append by auto
  then show ?thesis by (simp only: append_take_drop_id)
qed

lemma distinct_remove_at: "distinct xs \<Longrightarrow> distinct (remove_at i xs)"
proof (cases "i < length xs")
  case True
  assume "distinct xs"
  with True have "distinct (take i xs @ xs ! i # drop (Suc i) xs)"
    by (simp add: id_take_nth_drop [symmetric])
  then show ?thesis by (simp add: remove_at_def)
qed (simp add: remove_at_def)

lemma remove_at_nth_notin:
  assumes "distinct xs" and "i < length xs"
  shows "xs ! i \<notin> set (remove_at i xs)"
proof -
  have "distinct (take i xs @ xs ! i # drop (Suc i) xs)"
    using assms by (simp add: id_take_nth_drop [symmetric])
  then show ?thesis by (simp add: remove_at_def)
qed

lemma set_remove_at:
  assumes "distinct xs" and "i < length xs"
  shows "set (remove_at i xs) = set xs - {xs ! i}"
proof -
  have "xs = take i xs @ xs ! i # drop (Suc i) xs"
    using assms(2) by (rule id_take_nth_drop)
  then have "set xs = set (remove_at i xs) \<union> {xs ! i}"
    by (metis (no_types, lifting) Un_insert_right list.simps(15) remove_at_def set_append sup_bot.right_neutral)
  with remove_at_nth_notin [OF assms] show ?thesis by auto
qed

text \<open>Insertion before the first smaller key keeps a descending list descending, and is stable.\<close>

lemma insert_before_smaller:
  fixes f :: "'a \<Rightarrow> 'k::linorder"
  assumes "sorted_wrt (\<ge>) (map f q)"
  shows "insert_at (case position (\<lambda>y. f y < n) q of Some i \<Rightarrow> i | None \<Rightarrow> length q) x q =
    filter (\<lambda>y. n \<le> f y) q @ x # filter (\<lambda>y. f y < n) q"
  using assms
proof (induction q)
  case (Cons y q)
  show ?case
  proof (cases "f y < n")
    case True
    with Cons.prems have "\<forall>z\<in>set q. f z < n" by auto
    then show ?thesis using True by (auto simp: insert_at_def not_le filter_empty_conv filter_id_conv)
  next
    case False
    then show ?thesis using Cons
      by (auto simp: insert_at_def not_less split: option.splits dest!: position_Some)
        (meson leD nth_mem)
  qed
qed (simp add: insert_at_def)

lemma sorted_wrt_remove_at:
  assumes "sorted_wrt P xs"
  shows "sorted_wrt P (remove_at i xs)"
proof (cases "i < length xs")
  case True
  have "sorted_wrt P (take i xs @ xs ! i # drop (Suc i) xs)"
    using assms True by (simp add: id_take_nth_drop [symmetric])
  then show ?thesis by (simp add: remove_at_def sorted_wrt_append)
qed (use assms in \<open>simp add: remove_at_def\<close>)

subsection \<open>Runs of a step function that reports events\<close>

fun run_steps :: "('s \<Rightarrow> 'x \<Rightarrow> 's \<times> 't list) \<Rightarrow> 's \<Rightarrow> 'x list \<Rightarrow> 's \<times> 't list" where
  "run_steps step s [] = (s, [])"
| "run_steps step s (x # xs) =
     (let (s1, ts) = step s x; (s2, us) = run_steps step s1 xs in (s2, ts @ us))"

lemma run_steps_append:
  "run_steps step s (xs @ ys) =
     (let (s1, ts) = run_steps step s xs; (s2, us) = run_steps step s1 ys in (s2, ts @ us))"
  by (induction xs arbitrary: s) (simp_all add: Let_def case_prod_beta)

lemma run_steps_inv:
  assumes step: "\<And>s x. I s \<Longrightarrow> I (fst (step s x))" and "I s"
  shows "I (fst (run_steps step s xs))"
  using assms(2) by (induction xs arbitrary: s) (simp_all add: Let_def case_prod_beta step)

end
