(* ===== verification/Lease_Types.thy ===== *)
theory Lease_Types
  imports Prelude
begin

text \<open>
  The vocabulary of the lease arbitration (\<open>crates/agent-lease\<close>): the injected
  millisecond clock (\<open>clock.rs\<close>), the priority ladder, parties, holders and waiters
  (\<open>party.rs\<close>), the timers (\<open>policy.rs\<close>), the transitions with their release
  obligation (\<open>transition.rs\<close>) and the refusals (\<open>error.rs\<close>). Identities and labels
  are opaque strings; every time stamp and every duration is a 64 bit word whose
  arithmetic saturates, as in the source.
\<close>

subsection \<open>The clock (\<open>clock.rs\<close>)\<close>

type_synonym millis = u64
type_synonym lease_instant = u64

definition plus_millis :: "lease_instant \<Rightarrow> millis \<Rightarrow> lease_instant" where
  "plus_millis t d = sat_add t d"

definition since :: "lease_instant \<Rightarrow> lease_instant \<Rightarrow> millis" where
  "since t earlier = sat_sub t earlier"

definition reached :: "lease_instant \<Rightarrow> lease_instant \<Rightarrow> bool" where
  "reached t deadline \<longleftrightarrow> deadline \<le> t"

lemma unat_plus_millis [clock_simps]:
  "unat (plus_millis t d) = min (unat t + unat d) (2 ^ 64 - 1)"
  by (simp add: plus_millis_def unat_sat_add)

lemma unat_since [clock_simps]: "unat (since t e) = unat t - unat e"
  by (simp add: since_def unat_sat_sub)

lemma reached_nat [clock_simps]: "reached t d \<longleftrightarrow> unat d \<le> unat t"
  by (simp add: reached_def word_le_nat_alt)

lemma reached_mono: "reached t d \<Longrightarrow> t \<le> t' \<Longrightarrow> reached t' d"
  by (simp add: reached_def)

lemma since_less_iff [clock_simps]: "since t e < d \<longleftrightarrow> unat t - unat e < unat d"
  by (simp add: word_less_nat_alt unat_since)

lemma since_ge_iff [clock_simps]: "d \<le> since t e \<longleftrightarrow> unat d \<le> unat t - unat e"
  by (simp add: word_le_nat_alt unat_since)

text \<open>
  Where a duration is positive and the clock is not at the very top of its range, "the
  elapsed time is at least \<open>d\<close>" and "the deadline \<open>e.plus(d)\<close> is reached" agree. At the
  top of the range the saturated deadline is reached early, and a zero duration is
  elapsed even on a clock that went backwards, so both side conditions are needed.
\<close>

lemma elapsed_iff_reached:
  "0 < d \<Longrightarrow> t < - 1 \<Longrightarrow> d \<le> since t e \<longleftrightarrow> reached t (plus_millis e d)"
proof -
  assume d: "0 < d" and t: "t < - 1"
  have "unat t < 2 ^ 64 - 1"
    using t by (simp add: word_less_nat_alt unsigned_minus_1_eq_mask mask_eq_exp_minus_1)
  moreover have "0 < unat d" using d by (simp add: word_less_nat_alt)
  ultimately show ?thesis by (simp add: clock_simps) linarith
qed

subsection \<open>Who is asking (\<open>party.rs\<close>)\<close>

datatype holder_kind = Admin | Owner | Human | Agent

fun default_priority :: "holder_kind \<Rightarrow> u16" where
  "default_priority Admin = 900"
| "default_priority Owner = 200"
| "default_priority Human = 100"
| "default_priority Agent = 50"

fun is_person :: "holder_kind \<Rightarrow> bool" where
  "is_person Admin = True"
| "is_person Owner = True"
| "is_person Human = True"
| "is_person Agent = False"

text \<open>The derived \<open>Ord\<close>: variants in declaration order.\<close>

instantiation holder_kind :: linorder
begin

fun rank_holder_kind :: "holder_kind \<Rightarrow> nat" where
  "rank_holder_kind Admin = 0"
| "rank_holder_kind Owner = 1"
| "rank_holder_kind Human = 2"
| "rank_holder_kind Agent = 3"

definition less_eq_holder_kind :: "holder_kind \<Rightarrow> holder_kind \<Rightarrow> bool" where
  "less_eq_holder_kind a b \<longleftrightarrow> rank_holder_kind a \<le> rank_holder_kind b"

definition less_holder_kind :: "holder_kind \<Rightarrow> holder_kind \<Rightarrow> bool" where
  "less_holder_kind a b \<longleftrightarrow> rank_holder_kind a < rank_holder_kind b"

instance
proof
  fix a b :: holder_kind
  assume "a \<le> b" and "b \<le> a"
  then show "a = b" by (cases a; cases b) (simp_all add: less_eq_holder_kind_def)
qed (auto simp: less_eq_holder_kind_def less_holder_kind_def)

end

lemma person_iff_above_agent: "is_person k \<longleftrightarrow> k < Agent"
  by (cases k) (simp_all add: less_holder_kind_def)

type_synonym party_id = string
type_synonym limb_id = string
type_synonym lease_id = u64

record party =
  p_id :: party_id
  p_kind :: holder_kind
  p_label :: string
  p_priority :: u16

definition party_new :: "party_id \<Rightarrow> holder_kind \<Rightarrow> string \<Rightarrow> party" where
  "party_new i k l = \<lparr>p_id = i, p_kind = k, p_label = l, p_priority = default_priority k\<rparr>"

definition with_priority :: "party \<Rightarrow> u16 \<Rightarrow> party" where
  "with_priority p n = p\<lparr>p_priority := n\<rparr>"

record holder =
  h_lease_id :: lease_id
  h_party :: party
  h_granted_at :: lease_instant
  h_last_intent_at :: lease_instant
  h_last_renew_at :: lease_instant
  h_connected :: bool
  h_grace_until :: "lease_instant option"

definition last_activity :: "holder \<Rightarrow> lease_instant" where
  "last_activity h = max (h_last_intent_at h) (h_last_renew_at h)"

record waiter =
  w_party :: party
  w_queued_at :: lease_instant
  w_first_asked_at :: lease_instant
  w_reason :: "string option"

abbreviation w_id :: "waiter \<Rightarrow> party_id" where
  "w_id w \<equiv> p_id (w_party w)"

subsection \<open>Modes and timers (\<open>policy.rs\<close>)\<close>

datatype lease_mode = Exclusive | Shared

record lease_policy =
  lease_ttl_ms :: millis
  idle_revoke_ms :: millis
  person_idle_ms :: millis
  contended_idle_ms :: millis
  disconnect_grace_ms :: millis
  queue_ttl_ms :: millis
  max_queue_depth :: nat
  min_hold_ms :: millis
  agent_preempt_grace_ms :: millis
  force_release_backoff_ms :: millis

definition default_policy :: lease_policy where
  "default_policy = \<lparr>lease_ttl_ms = 60000, idle_revoke_ms = 30000, person_idle_ms = 20000,
     contended_idle_ms = 8000, disconnect_grace_ms = 10000, queue_ttl_ms = 15000,
     max_queue_depth = 8, min_hold_ms = 3000, agent_preempt_grace_ms = 2000,
     force_release_backoff_ms = 20000\<rparr>"

record lease_config =
  cfg_mode :: lease_mode
  cfg_policy :: lease_policy

subsection \<open>What a change is, as data (\<open>transition.rs\<close>)\<close>

datatype lease_phase = Unheld | Held | HeldGrace | PreemptPending | HandingOver

datatype release_obligation = NotRequired | Required

datatype departure_cause =
    Released | Preempted | Expired | IdleRevoked | DisconnectGraceElapsed
  | YieldedToWaiter | ForceReleasedCause

record departure =
  d_party :: party
  d_lease_id :: lease_id
  d_cause :: departure_cause
  d_held_for_ms :: millis

datatype lease_outcome =
    Unchanged
  | Granted lease_id party
  | Renewed lease_id
  | Queued nat
  | PreemptionStarted lease_instant party
  | WaitCancelled
  | PreemptionAbandoned
  | UnheldOutcome
  | HandoverComplete lease_id

record lease_transition =
  t_limb :: limb_id
  t_at :: lease_instant
  t_from :: lease_phase
  t_to :: lease_phase
  t_outcome :: lease_outcome
  t_release :: release_obligation
  t_departed :: "departure option"
  t_expired_waiters :: "waiter list"
  t_queue_depth :: nat

definition must_release :: "lease_transition \<Rightarrow> bool" where
  "must_release t \<longleftrightarrow> t_release t = Required"

definition transition_changed :: "lease_transition \<Rightarrow> bool" where
  "transition_changed t \<longleftrightarrow>
     t_from t \<noteq> t_to t \<or> t_outcome t \<noteq> Unchanged \<or> t_expired_waiters t \<noteq> []"

datatype fencing = Allowed | ReleaseOnly

record lease_view =
  v_limb :: limb_id
  v_mode :: lease_mode
  v_phase :: lease_phase
  v_holder_kind :: "holder_kind option"
  v_holder_label :: "string option"
  v_you_hold :: bool
  v_queue_depth :: nat
  v_queue_position :: "nat option"

record holder_status =
  hs_id :: party_id
  hs_kind :: holder_kind
  hs_label :: string
  hs_since :: lease_instant
  hs_held_for_ms :: millis
  hs_idle_for_ms :: millis

record waiter_status =
  ws_id :: party_id
  ws_kind :: holder_kind
  ws_label :: string
  ws_waiting_ms :: millis
  ws_reason :: "string option"

record lease_status =
  s_limb :: limb_id
  s_phase :: lease_phase
  s_holder :: "holder_status option"
  s_queue :: "waiter_status list"
  s_preempting :: "waiter_status option"
  s_changes_in_ms :: "millis option"
  s_refused_for_ms :: "millis option"

definition held_by :: "lease_status \<Rightarrow> party_id \<Rightarrow> bool" where
  "held_by s i = (case s_holder s of None \<Rightarrow> False | Some h \<Rightarrow> hs_id h = i)"

definition dispatching :: "lease_status \<Rightarrow> party_id \<Rightarrow> bool" where
  "dispatching s i \<longleftrightarrow> held_by s i \<and> s_phase s = Held"

definition position_of :: "lease_status \<Rightarrow> party_id \<Rightarrow> nat option" where
  "position_of s i = position (\<lambda>w. ws_id w = i) (s_queue s)"

definition status_person_holds :: "lease_status \<Rightarrow> bool" where
  "status_person_holds s \<longleftrightarrow>
     (case s_holder s of None \<Rightarrow> False | Some h \<Rightarrow> is_person (hs_kind h)) \<or>
     (case s_preempting s of None \<Rightarrow> False | Some w \<Rightarrow> is_person (ws_kind w))"

subsection \<open>Refusals (\<open>error.rs\<close>)\<close>

datatype lease_error =
    SharedModeUnavailable
  | HeldBy holder_kind string
  | QueueFull nat
  | MinHoldNotElapsed millis
  | ForceReleased millis
  | Muted millis
  | NotNow millis

end
