(* ===== verification/Lease.thy ===== *)
theory Lease
  imports Lease_Types
begin

text \<open>
  The lease itself (\<open>crates/agent-lease/src/lease.rs\<close>): the record of one limb's
  arbitration and every method of it. A \<open>&mut self\<close> method takes the lease and returns
  the new one with its result; \<open>acquire\<close> returns the new lease next to a sum, because the
  source may have cleared the panic backoff before it refuses.
\<close>

subsection \<open>Requests and state\<close>

record acquire_request =
  r_party :: party
  r_reason :: "string option"
  r_queue :: bool

definition request_new :: "party \<Rightarrow> acquire_request" where
  "request_new p = \<lparr>r_party = p, r_reason = None, r_queue = True\<rparr>"

definition request_reason :: "acquire_request \<Rightarrow> string \<Rightarrow> acquire_request" where
  "request_reason r s = r\<lparr>r_reason := Some s\<rparr>"

definition no_queue :: "acquire_request \<Rightarrow> acquire_request" where
  "no_queue r = r\<lparr>r_queue := False\<rparr>"

record pending =
  pd_waiter :: waiter
  pd_deadline :: lease_instant

abbreviation pd_id :: "pending \<Rightarrow> party_id" where
  "pd_id p \<equiv> w_id (pd_waiter p)"

record lease =
  l_limb :: limb_id
  l_mode :: lease_mode
  l_policy :: lease_policy
  l_phase :: lease_phase
  l_holder :: "holder option"
  l_pending :: "pending option"
  l_queue :: "waiter list"
  l_next_lease_id :: u64
  l_force_release_until :: "lease_instant option"
  l_contended_since :: "lease_instant option"

definition exclusive :: "limb_id \<Rightarrow> lease" where
  "exclusive limb =
     \<lparr>l_limb = limb, l_mode = Exclusive, l_policy = default_policy, l_phase = Unheld,
      l_holder = None, l_pending = None, l_queue = [], l_next_lease_id = 1,
      l_force_release_until = None, l_contended_since = None\<rparr>"

definition lease_new :: "limb_id \<Rightarrow> lease_config \<Rightarrow> lease_error + lease" where
  "lease_new limb config =
     (if cfg_mode config = Shared then Inl SharedModeUnavailable
      else Inr \<lparr>l_limb = limb, l_mode = cfg_mode config, l_policy = cfg_policy config,
        l_phase = Unheld, l_holder = None, l_pending = None, l_queue = [],
        l_next_lease_id = 1, l_force_release_until = None, l_contended_since = None\<rparr>)"

subsection \<open>Reading the lease\<close>

definition holder_is :: "lease \<Rightarrow> party_id \<Rightarrow> bool" where
  "holder_is l i = (case l_holder l of None \<Rightarrow> False | Some h \<Rightarrow> p_id (h_party h) = i)"

definition queue_depth :: "lease \<Rightarrow> nat" where
  "queue_depth l = length (l_queue l)"

definition queue_position :: "lease \<Rightarrow> party_id \<Rightarrow> nat option" where
  "queue_position l i = position (\<lambda>w. w_id w = i) (l_queue l)"

definition view_for :: "lease \<Rightarrow> party_id \<Rightarrow> lease_view" where
  "view_for l i =
     \<lparr>v_limb = l_limb l, v_mode = l_mode l, v_phase = l_phase l,
      v_holder_kind = map_option (\<lambda>h. p_kind (h_party h)) (l_holder l),
      v_holder_label = map_option (\<lambda>h. p_label (h_party h)) (l_holder l),
      v_you_hold = holder_is l i,
      v_queue_depth = length (l_queue l),
      v_queue_position = queue_position l i\<rparr>"

definition fence :: "lease \<Rightarrow> party_id \<Rightarrow> fencing" where
  "fence l i = (if holder_is l i \<and> l_phase l = Held then Allowed else ReleaseOnly)"

subsection \<open>The private steps: drafts, departures, grants, settlements\<close>

definition draft ::
  "lease \<Rightarrow> lease_instant \<Rightarrow> lease_phase \<Rightarrow> lease_outcome \<Rightarrow> release_obligation \<Rightarrow> lease_transition"
where
  "draft l at from outcome release =
     \<lparr>t_limb = l_limb l, t_at = at, t_from = from, t_to = l_phase l, t_outcome = outcome,
      t_release = release, t_departed = None, t_expired_waiters = [],
      t_queue_depth = length (l_queue l)\<rparr>"

definition take_holder ::
  "lease \<Rightarrow> lease_instant \<Rightarrow> departure_cause \<Rightarrow> lease \<times> departure option" where
  "take_holder l now cause =
     (case l_holder l of
        None \<Rightarrow> (l, None)
      | Some h \<Rightarrow> (l\<lparr>l_holder := None\<rparr>,
          Some \<lparr>d_party = h_party h, d_lease_id = h_lease_id h, d_cause = cause,
                d_held_for_ms = since now (h_granted_at h)\<rparr>))"

definition grant ::
  "lease \<Rightarrow> party \<Rightarrow> lease_instant \<Rightarrow> lease_phase \<Rightarrow> lease \<times> lease_transition" where
  "grant l p now from =
     (let lease_id = l_next_lease_id l;
          l' = l\<lparr>l_next_lease_id := lease_id + 1,
                 l_holder := Some \<lparr>h_lease_id = lease_id, h_party = p, h_granted_at = now,
                   h_last_intent_at = now, h_last_renew_at = now, h_connected = True,
                   h_grace_until = None\<rparr>,
                 l_contended_since := (if l_queue l \<noteq> [] then Some now else None),
                 l_phase := HandingOver\<rparr>
      in (l', draft l' now from (Granted lease_id p) Required))"

definition settle ::
  "lease \<Rightarrow> lease_instant \<Rightarrow> lease_phase \<Rightarrow> departure option \<Rightarrow> lease \<times> lease_transition" where
  "settle l now from departed =
     (let (successor, l1) =
            (case l_pending l of
               Some p \<Rightarrow> (Some (w_party (pd_waiter p)), l\<lparr>l_pending := None\<rparr>)
             | None \<Rightarrow>
                 (case l_queue l of
                    [] \<Rightarrow> (None, l)
                  | w # ws \<Rightarrow> (Some (w_party w), l\<lparr>l_queue := ws\<rparr>)));
          (l2, t) =
            (case successor of
               Some p \<Rightarrow> grant l1 p now from
             | None \<Rightarrow>
                 (let l' = l1\<lparr>l_phase := Unheld\<rparr>
                  in (l', draft l' now from UnheldOutcome Required)))
      in (l2, t\<lparr>t_departed := departed\<rparr>))"

definition take_over ::
  "lease \<Rightarrow> party \<Rightarrow> lease_instant \<Rightarrow> lease_phase \<Rightarrow> lease \<times> lease_transition" where
  "take_over l p now from =
     (let (l1, departed) = take_holder l now Preempted;
          (l2, t) = grant (l1\<lparr>l_pending := None\<rparr>) p now from
      in (l2, t\<lparr>t_departed := departed\<rparr>))"

subsection \<open>Asking for control\<close>

definition queue_or_refuse ::
  "lease \<Rightarrow> acquire_request \<Rightarrow> lease_instant \<Rightarrow> lease_phase \<Rightarrow> lease_error \<Rightarrow>
   lease \<times> (lease_error + lease_transition)" where
  "queue_or_refuse l r now from refusal =
     (if \<not> r_queue r then (l, Inl refusal)
      else if max_queue_depth (l_policy l) \<le> length (l_queue l)
        then (l, Inl (QueueFull (length (l_queue l))))
      else
        let pos = (case position (\<lambda>w. p_priority (w_party w) < p_priority (r_party r)) (l_queue l)
                   of Some i \<Rightarrow> i | None \<Rightarrow> length (l_queue l));
            l' = l\<lparr>l_queue := insert_at pos \<lparr>w_party = r_party r, w_queued_at = now,
                       w_first_asked_at = now, w_reason = r_reason r\<rparr> (l_queue l),
                   l_contended_since :=
                     (if l_contended_since l = None then Some now else l_contended_since l)\<rparr>
        in (l', Inr (draft l' now from (Queued pos) NotRequired)))"

definition contest ::
  "lease \<Rightarrow> acquire_request \<Rightarrow> lease_instant \<Rightarrow> lease_phase \<Rightarrow>
   lease \<times> (lease_error + lease_transition)" where
  "contest l r now from =
     (case l_holder l of
        None \<Rightarrow> (let (l', t) = grant l (r_party r) now from in (l', Inr t))
      | Some h \<Rightarrow>
          let held = HeldBy (p_kind (h_party h)) (p_label (h_party h));
              floor_lifted = (is_person (p_kind (r_party r)) \<and> p_kind (h_party h) = Agent);
              held_for = since now (h_granted_at h)
          in if p_priority (r_party r) \<le> p_priority (h_party h)
               then queue_or_refuse l r now from held
             else if l_phase l = PreemptPending \<or> l_phase l = HandingOver
               then queue_or_refuse l r now from held
             else if \<not> floor_lifted \<and> held_for < min_hold_ms (l_policy l)
               then queue_or_refuse l r now from
                      (MinHoldNotElapsed (min_hold_ms (l_policy l) - held_for))
             else if \<not> h_connected h
               then (let (l', t) = take_over l (r_party r) now from in (l', Inr t))
             else
               let deadline = plus_millis now (agent_preempt_grace_ms (l_policy l));
                   l' = l\<lparr>l_pending := Some \<lparr>pd_waiter = \<lparr>w_party = r_party r, w_queued_at = now,
                                w_first_asked_at = now, w_reason = r_reason r\<rparr>,
                              pd_deadline = deadline\<rparr>,
                          l_phase := PreemptPending\<rparr>
               in (l', Inr (draft l' now from (PreemptionStarted deadline (r_party r)) Required)))"

text \<open>
  The tests of \<open>acquire\<close> in the source's order, one definition per test: the panic backoff
  (\<open>acquire\<close>), the holder asking again (\<open>acquire_open\<close>), the party a preemption is
  running for (\<open>acquire_pending\<close>), a party already in the queue (\<open>acquire_queued\<close>), and
  then the grant or the contest.
\<close>

definition acquire_queued ::
  "lease \<Rightarrow> acquire_request \<Rightarrow> lease_instant \<Rightarrow> lease_phase \<Rightarrow>
   lease \<times> (lease_error + lease_transition)" where
  "acquire_queued l r now from =
     (case queue_position l (p_id (r_party r)) of
        Some pos \<Rightarrow>
          (let w = (l_queue l ! pos)\<lparr>w_queued_at := now\<rparr>;
               w' = (if r_reason r \<noteq> None then w\<lparr>w_reason := r_reason r\<rparr> else w);
               l' = l\<lparr>l_queue := (l_queue l)[pos := w']\<rparr>
           in (l', Inr (draft l' now from (Queued pos) NotRequired)))
      | None \<Rightarrow>
          if l_phase l = Unheld then (let (l', t) = grant l (r_party r) now from in (l', Inr t))
          else contest l r now from)"

definition acquire_pending ::
  "lease \<Rightarrow> acquire_request \<Rightarrow> lease_instant \<Rightarrow> lease_phase \<Rightarrow>
   lease \<times> (lease_error + lease_transition)" where
  "acquire_pending l r now from =
     (case l_pending l of
        Some p \<Rightarrow>
          if pd_id p = p_id (r_party r) then
            (l, Inr (draft l now from
               (PreemptionStarted (pd_deadline p) (w_party (pd_waiter p))) NotRequired))
          else acquire_queued l r now from
      | None \<Rightarrow> acquire_queued l r now from)"

definition acquire_open ::
  "lease \<Rightarrow> acquire_request \<Rightarrow> lease_instant \<Rightarrow> lease_phase \<Rightarrow>
   lease \<times> (lease_error + lease_transition)" where
  "acquire_open l r now from =
     (case l_holder l of
        Some h \<Rightarrow>
          if p_id (h_party h) = p_id (r_party r) then
            (let l' = l\<lparr>l_holder := Some (h\<lparr>h_last_renew_at := now\<rparr>)\<rparr>
             in (l', Inr (draft l' now from (Renewed (h_lease_id h)) NotRequired)))
          else acquire_pending l r now from
      | None \<Rightarrow> acquire_pending l r now from)"

definition acquire ::
  "lease \<Rightarrow> acquire_request \<Rightarrow> lease_instant \<Rightarrow> lease \<times> (lease_error + lease_transition)" where
  "acquire l r now =
     (case l_force_release_until l of
        Some until \<Rightarrow>
          if \<not> reached now until then (l, Inl (ForceReleased (since until now)))
          else acquire_open (l\<lparr>l_force_release_until := None\<rparr>) r now (l_phase l)
      | None \<Rightarrow> acquire_open l r now (l_phase l))"

subsection \<open>Letting go, the queue, and the panic chord\<close>

definition release ::
  "lease \<Rightarrow> party_id \<Rightarrow> lease_id \<Rightarrow> lease_instant \<Rightarrow> lease \<times> lease_transition" where
  "release l i lid now =
     (let is_current = (case l_holder l of None \<Rightarrow> False
                        | Some h \<Rightarrow> p_id (h_party h) = i \<and> h_lease_id h = lid)
      in if \<not> is_current then (l, draft l now (l_phase l) Unchanged NotRequired)
         else let (l1, departed) = take_holder l now Released
              in settle l1 now (l_phase l) departed)"

definition promote :: "lease \<Rightarrow> party_id \<Rightarrow> lease \<times> bool" where
  "promote l i =
     (case queue_position l i of
        Some pos \<Rightarrow>
          (l\<lparr>l_queue := insert_at 0 (l_queue l ! pos) (remove_at pos (l_queue l))\<rparr>, True)
      | None \<Rightarrow> (l, False))"

definition cancel_wait ::
  "lease \<Rightarrow> party_id \<Rightarrow> lease_instant \<Rightarrow> lease \<times> lease_transition" where
  "cancel_wait l i now =
     (if (case l_pending l of None \<Rightarrow> False | Some p \<Rightarrow> pd_id p = i) then
        (let connected = (case l_holder l of None \<Rightarrow> False | Some h \<Rightarrow> h_connected h);
             l' = l\<lparr>l_pending := None, l_phase := (if connected then Held else HeldGrace)\<rparr>
         in (l', draft l' now (l_phase l) PreemptionAbandoned Required))
      else
        (case queue_position l i of
           Some pos \<Rightarrow>
             (let l1 = l\<lparr>l_queue := remove_at pos (l_queue l)\<rparr>;
                  l' = (if l_queue l1 = [] then l1\<lparr>l_contended_since := None\<rparr> else l1)
              in (l', draft l' now (l_phase l) WaitCancelled NotRequired))
         | None \<Rightarrow> (l, draft l now (l_phase l) Unchanged NotRequired)))"

definition force_release :: "lease \<Rightarrow> lease_instant \<Rightarrow> lease \<times> lease_transition" where
  "force_release l now =
     (let (l1, departed) = take_holder l now ForceReleasedCause;
          dropped = (case l_pending l1 of None \<Rightarrow> [] | Some p \<Rightarrow> [pd_waiter p]) @ l_queue l1;
          l' = l1\<lparr>l_pending := None, l_queue := [], l_contended_since := None,
                  l_phase := Unheld,
                  l_force_release_until :=
                    Some (plus_millis now (force_release_backoff_ms (l_policy l1)))\<rparr>
      in (l', (draft l' now (l_phase l) UnheldOutcome Required)
                \<lparr>t_departed := departed, t_expired_waiters := dropped\<rparr>))"

definition confirm_release :: "lease \<Rightarrow> lease_instant \<Rightarrow> lease \<times> lease_transition" where
  "confirm_release l now =
     (if l_phase l \<noteq> HandingOver then (l, draft l now (l_phase l) Unchanged NotRequired)
      else
        let l1 = l\<lparr>l_phase := Held\<rparr>;
            (l', lid) =
              (case l_holder l1 of
                 None \<Rightarrow> (l1, 0)
               | Some h \<Rightarrow>
                   (l1\<lparr>l_holder := Some (h\<lparr>h_last_intent_at := now, h_last_renew_at := now\<rparr>)\<rparr>,
                    h_lease_id h))
        in (l', draft l' now (l_phase l) (HandoverComplete lid) NotRequired))"

definition set_connected ::
  "lease \<Rightarrow> party_id \<Rightarrow> bool \<Rightarrow> lease_instant \<Rightarrow> lease \<times> lease_transition" where
  "set_connected l i connected now =
     (case l_holder l of
        None \<Rightarrow> (l, draft l now (l_phase l) Unchanged NotRequired)
      | Some h \<Rightarrow>
          if p_id (h_party h) \<noteq> i \<or> h_connected h = connected then
            (l, draft l now (l_phase l) Unchanged NotRequired)
          else
            let grace_until = (if connected then None
                  else Some (plus_millis now (disconnect_grace_ms (l_policy l))));
                phase = (case (l_phase l, connected) of
                    (Held, False) \<Rightarrow> HeldGrace
                  | (HeldGrace, True) \<Rightarrow> Held
                  | (phase, _) \<Rightarrow> phase);
                l' = l\<lparr>l_holder := Some (h\<lparr>h_connected := connected, h_grace_until := grace_until\<rparr>),
                       l_phase := phase\<rparr>
            in (l', draft l' now (l_phase l) Unchanged Required))"

definition note_intent :: "lease \<Rightarrow> party_id \<Rightarrow> lease_instant \<Rightarrow> lease" where
  "note_intent l i now =
     (case l_holder l of
        Some h \<Rightarrow> if p_id (h_party h) = i
                  then l\<lparr>l_holder := Some (h\<lparr>h_last_intent_at := now\<rparr>)\<rparr> else l
      | None \<Rightarrow> l)"

definition renew :: "lease \<Rightarrow> party_id \<Rightarrow> lease_instant \<Rightarrow> lease" where
  "renew l i now =
     (case l_holder l of
        Some h \<Rightarrow> if p_id (h_party h) = i
                  then l\<lparr>l_holder := Some (h\<lparr>h_last_renew_at := now\<rparr>)\<rparr> else l
      | None \<Rightarrow> l)"

subsection \<open>The whole of time: \<open>tick\<close>\<close>

definition idle_limit :: "lease \<Rightarrow> holder \<Rightarrow> millis" where
  "idle_limit l h = (if is_person (p_kind (h_party h)) then person_idle_ms (l_policy l)
                     else idle_revoke_ms (l_policy l))"

definition contended_deadline :: "lease \<Rightarrow> holder \<Rightarrow> lease_instant option" where
  "contended_deadline l h =
     (if is_person (p_kind (h_party h)) \<or> l_queue l = [] then None
      else (case l_contended_since l of
              None \<Rightarrow> None
            | Some s \<Rightarrow>
                (let quiet_from = max (h_last_intent_at h) s;
                     deadline = plus_millis quiet_from (contended_idle_ms (l_policy l))
                 in Some (max deadline
                            (plus_millis (h_granted_at h) (min_hold_ms (l_policy l)))))))"

text \<open>Why a dispatching holder loses the lease now, if it does: the \<open>cause\<close> of the \<open>Held\<close> arm.\<close>

definition held_cause :: "lease \<Rightarrow> holder \<Rightarrow> lease_instant \<Rightarrow> departure_cause option" where
  "held_cause l h now =
     (if lease_ttl_ms (l_policy l) \<le> since now (last_activity h) then Some Expired
      else if idle_limit l h \<le> since now (h_last_intent_at h) then Some IdleRevoked
      else if (case contended_deadline l h of None \<Rightarrow> False | Some d \<Rightarrow> reached now d)
        then Some YieldedToWaiter
      else None)"

definition tick_holder :: "lease \<Rightarrow> lease_instant \<Rightarrow> lease_phase \<Rightarrow> lease \<times> lease_transition" where
  "tick_holder l now from =
     (let unchanged = (l, draft l now from Unchanged NotRequired);
          depart = (\<lambda>cause. let (l1, departed) = take_holder l now cause
                            in settle l1 now from departed)
      in case l_phase l of
           PreemptPending \<Rightarrow>
             (case l_pending l of
                Some p \<Rightarrow> if reached now (pd_deadline p) then depart Preempted else unchanged
              | None \<Rightarrow> unchanged)
         | HeldGrace \<Rightarrow>
             (case l_holder l of
                None \<Rightarrow> unchanged
              | Some h \<Rightarrow>
                  (case h_grace_until h of
                     Some d \<Rightarrow> if reached now d then depart DisconnectGraceElapsed else unchanged
                   | None \<Rightarrow> unchanged))
         | Held \<Rightarrow>
             (case l_holder l of
                None \<Rightarrow> unchanged
              | Some h \<Rightarrow>
                  (case held_cause l h now of Some c \<Rightarrow> depart c | None \<Rightarrow> unchanged))
         | Unheld \<Rightarrow> unchanged
         | HandingOver \<Rightarrow> unchanged)"

definition waiter_expired :: "lease_policy \<Rightarrow> lease_instant \<Rightarrow> waiter \<Rightarrow> bool" where
  "waiter_expired pol now w \<longleftrightarrow> queue_ttl_ms pol \<le> since now (w_queued_at w)"

text \<open>What \<open>tick\<close> does before it looks at the holder: the backoff and the dead waiters.\<close>

definition sweep :: "lease \<Rightarrow> lease_instant \<Rightarrow> lease" where
  "sweep l now =
     (let l1 = (case l_force_release_until l of
                  Some until \<Rightarrow> if reached now until then l\<lparr>l_force_release_until := None\<rparr> else l
                | None \<Rightarrow> l);
          l2 = l1\<lparr>l_queue := filter (\<lambda>w. \<not> waiter_expired (l_policy l) now w) (l_queue l1)\<rparr>
      in if l_queue l2 = [] then l2\<lparr>l_contended_since := None\<rparr> else l2)"

definition tick :: "lease \<Rightarrow> lease_instant \<Rightarrow> lease \<times> lease_transition" where
  "tick l now =
     (let expired = filter (waiter_expired (l_policy l) now) (l_queue l);
          (l', t) = tick_holder (sweep l now) now (l_phase l)
      in (l', t\<lparr>t_expired_waiters := expired, t_queue_depth := length (l_queue l')\<rparr>))"

subsection \<open>The status report\<close>

definition waiter_status_at :: "lease_instant \<Rightarrow> waiter \<Rightarrow> waiter_status" where
  "waiter_status_at now w =
     \<lparr>ws_id = w_id w, ws_kind = p_kind (w_party w), ws_label = p_label (w_party w),
      ws_waiting_ms = since now (w_first_asked_at w), ws_reason = w_reason w\<rparr>"

definition changes_at :: "lease \<Rightarrow> lease_instant option" where
  "changes_at l =
     (case (l_phase l, l_holder l) of
        (PreemptPending, _) \<Rightarrow> map_option pd_deadline (l_pending l)
      | (HeldGrace, Some h) \<Rightarrow> h_grace_until h
      | (Held, Some h) \<Rightarrow>
          (let expiry = plus_millis (last_activity h) (lease_ttl_ms (l_policy l));
               idle = plus_millis (h_last_intent_at h) (idle_limit l h);
               at = min expiry idle
           in Some (case contended_deadline l h of Some c \<Rightarrow> min at c | None \<Rightarrow> at))
      | _ \<Rightarrow> None)"

definition status :: "lease \<Rightarrow> lease_instant \<Rightarrow> lease_status" where
  "status l now =
     \<lparr>s_limb = l_limb l, s_phase = l_phase l,
      s_holder = map_option (\<lambda>h. \<lparr>hs_id = p_id (h_party h), hs_kind = p_kind (h_party h),
          hs_label = p_label (h_party h), hs_since = h_granted_at h,
          hs_held_for_ms = since now (h_granted_at h),
          hs_idle_for_ms = since now (h_last_intent_at h)\<rparr>) (l_holder l),
      s_queue = map (waiter_status_at now) (l_queue l),
      s_preempting = map_option (\<lambda>p. waiter_status_at now (pd_waiter p)) (l_pending l),
      s_changes_in_ms = map_option (\<lambda>at. since at now) (changes_at l),
      s_refused_for_ms = (case l_force_release_until l of
          Some until \<Rightarrow> if reached now until then None else Some (since until now)
        | None \<Rightarrow> None)\<rparr>"

subsection \<open>Every method as one step\<close>

datatype lease_op =
    OpAcquire acquire_request
  | OpRelease party_id lease_id
  | OpPromote party_id
  | OpCancelWait party_id
  | OpForceRelease
  | OpConfirmRelease
  | OpSetConnected party_id bool
  | OpNoteIntent party_id
  | OpRenew party_id
  | OpTick

text \<open>A step returns the transition of the call, where the call makes one.\<close>

fun lease_step :: "lease \<Rightarrow> lease_op \<Rightarrow> lease_instant \<Rightarrow> lease \<times> lease_transition option" where
  "lease_step l (OpAcquire r) now =
     (case acquire l r now of (l', Inr t) \<Rightarrow> (l', Some t) | (l', Inl _) \<Rightarrow> (l', None))"
| "lease_step l (OpRelease i lid) now = map_prod id Some (release l i lid now)"
| "lease_step l (OpPromote i) now = (fst (promote l i), None)"
| "lease_step l (OpCancelWait i) now = map_prod id Some (cancel_wait l i now)"
| "lease_step l OpForceRelease now = map_prod id Some (force_release l now)"
| "lease_step l OpConfirmRelease now = map_prod id Some (confirm_release l now)"
| "lease_step l (OpSetConnected i c) now = map_prod id Some (set_connected l i c now)"
| "lease_step l (OpNoteIntent i) now = (note_intent l i now, None)"
| "lease_step l (OpRenew i) now = (renew l i now, None)"
| "lease_step l OpTick now = map_prod id Some (tick l now)"

definition step_transitions :: "lease \<Rightarrow> lease_op \<times> lease_instant \<Rightarrow> lease \<times> lease_transition list" where
  "step_transitions l x =
     (case lease_step l (fst x) (snd x) of (l', None) \<Rightarrow> (l', []) | (l', Some t) \<Rightarrow> (l', [t]))"

definition lease_run ::
  "lease \<Rightarrow> (lease_op \<times> lease_instant) list \<Rightarrow> lease \<times> lease_transition list" where
  "lease_run = run_steps step_transitions"

lemma fst_step_transitions [simp]: "fst (step_transitions l x) = fst (lease_step l (fst x) (snd x))"
  by (simp add: step_transitions_def case_prod_beta split: option.split)

text \<open>The facts that evaluate a call on a concrete lease.\<close>

lemmas lease_eval =
  lease_run_def step_transitions_def exclusive_def request_new_def no_queue_def
  acquire_def acquire_open_def acquire_pending_def acquire_queued_def queue_position_def
  contest_def queue_or_refuse_def take_over_def grant_def settle_def take_holder_def draft_def
  release_def promote_def cancel_wait_def force_release_def confirm_release_def set_connected_def
  note_intent_def renew_def tick_def sweep_def tick_holder_def held_cause_def idle_limit_def
  contended_deadline_def waiter_expired_def last_activity_def insert_at_def remove_at_def
  plus_millis_def since_def reached_def sat_add_def sat_sub_def fence_def holder_is_def
  default_policy_def party_new_def Let_def

end
