(* ===== verification/Lease_Invariant.thy ===== *)
theory Lease_Invariant
  imports Lease
begin

text \<open>
  The well-formedness of a lease and its preservation by every method of
  \<open>crates/agent-lease/src/lease.rs\<close>: the phase agrees with the holder and the pending
  preemption, nobody queues for a free limb, the contention clock runs exactly while
  somebody waits, the queue respects its cap, and no party holds two roles at once.
\<close>

subsection \<open>Roles and well-formedness\<close>

definition holder_ids :: "lease \<Rightarrow> party_id list" where
  "holder_ids l = (case l_holder l of None \<Rightarrow> [] | Some h \<Rightarrow> [p_id (h_party h)])"

definition pending_ids :: "lease \<Rightarrow> party_id list" where
  "pending_ids l = (case l_pending l of None \<Rightarrow> [] | Some p \<Rightarrow> [pd_id p])"

definition queue_ids :: "lease \<Rightarrow> party_id list" where
  "queue_ids l = map w_id (l_queue l)"

definition roles :: "lease \<Rightarrow> party_id list" where
  "roles l = holder_ids l @ pending_ids l @ queue_ids l"

definition queue_wf :: "lease \<Rightarrow> bool" where
  "queue_wf l \<longleftrightarrow> length (l_queue l) \<le> max_queue_depth (l_policy l) \<and>
     (l_contended_since l = None \<longleftrightarrow> l_queue l = [])"

definition grace_wf :: "lease \<Rightarrow> bool" where
  "grace_wf l \<longleftrightarrow> (case l_holder l of None \<Rightarrow> True
     | Some h \<Rightarrow> (h_connected h \<longleftrightarrow> h_grace_until h = None) \<and>
                (l_phase l = HeldGrace \<longrightarrow> \<not> h_connected h))"

definition phase_wf :: "lease \<Rightarrow> bool" where
  "phase_wf l \<longleftrightarrow> (l_phase l = Unheld \<longleftrightarrow> l_holder l = None) \<and>
     (l_phase l = PreemptPending \<longleftrightarrow> l_pending l \<noteq> None) \<and>
     (l_holder l = None \<longrightarrow> l_queue l = [])"

definition lease_wf :: "lease \<Rightarrow> bool" where
  "lease_wf l \<longleftrightarrow> phase_wf l \<and> grace_wf l \<and> queue_wf l \<and> distinct (roles l)"

lemmas wf_defs = lease_wf_def phase_wf_def grace_wf_def queue_wf_def
lemmas role_defs = roles_def holder_ids_def pending_ids_def queue_ids_def

named_theorems wf_intros \<open>preservation of well-formedness, per method\<close>

lemma wf_holder_iff: "lease_wf l \<Longrightarrow> l_phase l = Unheld \<longleftrightarrow> l_holder l = None"
  by (simp add: wf_defs)

lemma wf_pending_iff: "lease_wf l \<Longrightarrow> l_phase l = PreemptPending \<longleftrightarrow> l_pending l \<noteq> None"
  by (simp add: wf_defs)

lemma lease_wf_exclusive: "lease_wf (exclusive limb)"
  by (simp add: wf_defs role_defs exclusive_def)

lemma lease_wf_new: "lease_new limb c = Inr l \<Longrightarrow> lease_wf l"
  by (auto simp: lease_new_def wf_defs role_defs split: if_splits)

subsection \<open>Grants and settlements\<close>

text \<open>A state in which the holder has been taken out and a successor may be chosen.\<close>

definition vacant :: "lease \<Rightarrow> bool" where
  "vacant l \<longleftrightarrow> l_holder l = None \<and> queue_wf l \<and> distinct (roles l)"

lemma vacant_take_holder: "lease_wf l \<Longrightarrow> vacant (fst (take_holder l now c))"
  by (auto simp: vacant_def wf_defs role_defs take_holder_def split: option.splits)

lemma grant_wf:
  assumes "l_pending l = None" and "p_id p \<notin> set (queue_ids l)"
    and "distinct (queue_ids l)" and "length (l_queue l) \<le> max_queue_depth (l_policy l)"
  shows "lease_wf (fst (grant l p now from))"
  using assms by (auto simp: wf_defs role_defs grant_def Let_def)

lemma settle_wf [wf_intros]: "vacant l \<Longrightarrow> lease_wf (fst (settle l now from d))"
  by (auto simp: vacant_def settle_def grant_def wf_defs role_defs Let_def
      split: option.splits list.splits)

lemma take_settle_wf [wf_intros]:
  "lease_wf l \<Longrightarrow> lease_wf (fst (settle (fst (take_holder l now c)) now' from d))"
  by (rule settle_wf [OF vacant_take_holder])

lemma take_over_wf:
  assumes "lease_wf l" and "p_id p \<notin> set (queue_ids l)"
  shows "lease_wf (fst (take_over l p now from))"
proof -
  let ?l1 = "fst (take_holder l now Preempted)\<lparr>l_pending := None\<rparr>"
  have "l_pending ?l1 = None" and "queue_ids ?l1 = queue_ids l"
    and "l_queue ?l1 = l_queue l" and "l_policy ?l1 = l_policy l"
    by (simp_all add: take_holder_def queue_ids_def split: option.splits)
  then have "lease_wf (fst (grant ?l1 p now from))"
    using assms by (intro grant_wf) (auto simp: wf_defs roles_def)
  then show ?thesis by (simp add: take_over_def case_prod_beta)
qed

subsection \<open>Asking\<close>

lemma enqueue_wf:
  assumes "lease_wf l" and "l_holder l \<noteq> None" and "w_id w \<notin> set (roles l)"
    and "pos \<le> length (l_queue l)" and "length (l_queue l) < max_queue_depth (l_policy l)"
    and "c \<noteq> None"
  shows "lease_wf (l\<lparr>l_queue := insert_at pos w (l_queue l), l_contended_since := c\<rparr>)"
proof -
  obtain h where h: "l_holder l = Some h" using assms(2) by auto
  show ?thesis
    using assms(1,3-6) h
    by (cases "l_pending l") (auto simp: wf_defs role_defs map_insert_at)
qed

lemma queue_or_refuse_wf [wf_intros]:
  assumes "lease_wf l" and "l_holder l \<noteq> None" and "p_id (r_party r) \<notin> set (roles l)"
  shows "lease_wf (fst (queue_or_refuse l r now from e))"
proof -
  have "(case position p (l_queue l) of Some i \<Rightarrow> i | None \<Rightarrow> length (l_queue l)) \<le> length (l_queue l)"
    for p by (auto split: option.splits dest: position_Some)
  then show ?thesis
    using assms by (simp add: queue_or_refuse_def Let_def enqueue_wf)
qed

lemma contest_wf [wf_intros]:
  assumes "lease_wf l" and "l_phase l \<noteq> Unheld" and "p_id (r_party r) \<notin> set (roles l)"
  shows "lease_wf (fst (contest l r now from))"
proof -
  obtain h where h: "l_holder l = Some h" using assms(1,2) by (auto simp: wf_defs)
  have q: "lease_wf (fst (queue_or_refuse l r now from e))" for e
    using assms h by (intro queue_or_refuse_wf) auto
  have t: "lease_wf (fst (take_over l (r_party r) now from))"
    using assms by (intro take_over_wf) (auto simp: roles_def)
  show ?thesis
    using assms q t h
    by (auto simp: contest_def Let_def case_prod_beta) (auto simp: wf_defs role_defs)
qed

lemma queue_position_None: "queue_position l i = None \<longleftrightarrow> i \<notin> set (queue_ids l)"
  by (auto simp: queue_position_def queue_ids_def)

lemma queue_position_Some:
  "queue_position l i = Some pos \<Longrightarrow> pos < length (l_queue l) \<and> w_id (l_queue l ! pos) = i"
  by (auto simp: queue_position_def dest: position_Some)

lemma acquire_queued_wf:
  assumes wf: "lease_wf l" and "p_id (r_party r) \<notin> set (holder_ids l @ pending_ids l)"
  shows "lease_wf (fst (acquire_queued l r now from))"
proof (cases "queue_position l (p_id (r_party r))")
  case None
  then have new: "p_id (r_party r) \<notin> set (roles l)"
    using assms(2) by (auto simp: roles_def queue_position_None)
  show ?thesis
  proof (cases "l_phase l = Unheld")
    case True
    then have "lease_wf (fst (grant l (r_party r) now from))"
      using wf new by (intro grant_wf) (auto simp: wf_defs roles_def)
    then show ?thesis using None True by (simp add: acquire_queued_def case_prod_beta)
  next
    case False
    then show ?thesis using None wf new by (simp add: acquire_queued_def contest_wf)
  qed
next
  case (Some pos)
  then have pos: "pos < length (l_queue l)" by (simp add: queue_position_Some)
  have ids: "map w_id ((l_queue l)[pos := w]) = map w_id (l_queue l)"
    if "w_party w = w_party (l_queue l ! pos)" for w
    using pos that by (simp add: map_update) (metis list_update_id nth_map)
  show ?thesis
    using wf Some by (auto simp: acquire_queued_def wf_defs role_defs Let_def ids)
qed

lemma acquire_pending_wf:
  "lease_wf l \<Longrightarrow> p_id (r_party r) \<notin> set (holder_ids l) \<Longrightarrow>
   lease_wf (fst (acquire_pending l r now from))"
  using acquire_queued_wf [of l r now "from"]
  by (auto simp: acquire_pending_def pending_ids_def split: option.splits)

lemma acquire_open_wf:
  assumes "lease_wf l"
  shows "lease_wf (fst (acquire_open l r now from))"
proof (cases "p_id (r_party r) \<in> set (holder_ids l)")
  case True
  then show ?thesis
    using assms by (auto simp: acquire_open_def holder_ids_def Let_def split: option.splits)
      (auto simp: wf_defs role_defs)
next
  case False
  then show ?thesis
    using acquire_pending_wf [OF assms False]
    by (auto simp: acquire_open_def holder_ids_def split: option.splits)
qed

lemma lease_wf_backoff: "lease_wf (l\<lparr>l_force_release_until := u\<rparr>) \<longleftrightarrow> lease_wf l"
  by (cases "l_holder l") (simp_all add: wf_defs role_defs)

lemma acquire_wf [wf_intros]: "lease_wf l \<Longrightarrow> lease_wf (fst (acquire l r now))"
  by (auto simp: acquire_def lease_wf_backoff acquire_open_wf split: option.splits)

subsection \<open>Letting go, the queue, the panic chord, the handover\<close>

lemma release_wf [wf_intros]: "lease_wf l \<Longrightarrow> lease_wf (fst (release l i lid now))"
  by (simp add: release_def Let_def case_prod_beta take_settle_wf)

lemma promote_wf [wf_intros]: "lease_wf l \<Longrightarrow> lease_wf (fst (promote l i))"
proof (cases "queue_position l i")
  case (Some pos)
  assume wf: "lease_wf l"
  let ?q = "insert_at 0 (l_queue l ! pos) (remove_at pos (l_queue l))"
  have pos: "pos < length (l_queue l)" using Some by (simp add: queue_position_Some)
  have d: "distinct (map w_id (l_queue l))" using wf by (simp add: wf_defs role_defs)
  have ids: "map w_id ?q = insert_at 0 (map w_id (l_queue l) ! pos) (remove_at pos (map w_id (l_queue l)))"
    using pos by (simp add: map_insert_at map_remove_at)
  have "set (map w_id ?q) = set (map w_id (l_queue l))" and "distinct (map w_id ?q)"
    unfolding ids using d pos
    by (auto simp: set_remove_at remove_at_nth_notin distinct_remove_at)
  moreover have "length ?q = length (l_queue l)" using pos by simp
  ultimately show ?thesis
    using wf Some pos by (auto simp: promote_def wf_defs role_defs)
qed (simp add: promote_def)

lemma cancel_wait_wf [wf_intros]: "lease_wf l \<Longrightarrow> lease_wf (fst (cancel_wait l i now))"
proof -
  assume wf: "lease_wf l"
  have rm: "set (map w_id (remove_at pos q)) \<subseteq> set (map w_id q)" for pos and q :: "waiter list"
    by (auto dest: set_remove_at_subset [THEN subsetD])
  have rd: "distinct (map w_id q) \<Longrightarrow> distinct (map w_id (remove_at pos q))"
    for pos and q :: "waiter list"
    by (simp add: map_remove_at distinct_remove_at)
  have rl: "length (remove_at pos q) \<le> length q" for pos and q :: "waiter list"
    by (simp add: remove_at_def)
  show ?thesis
  proof (cases "case l_pending l of None \<Rightarrow> False | Some p \<Rightarrow> pd_id p = i")
    case True
    then show ?thesis
      using wf by (auto simp: cancel_wait_def wf_defs role_defs Let_def split: option.splits)
  next
    case False
    show ?thesis
    proof (cases "queue_position l i")
      case (Some pos)
      then have pos: "pos < length (l_queue l)" by (simp add: queue_position_Some)
      let ?l1 = "l\<lparr>l_queue := remove_at pos (l_queue l)\<rparr>"
      have "distinct (roles ?l1)"
        using wf rm [of pos "l_queue l"] rd [of "l_queue l" pos]
        by (auto simp: wf_defs role_defs)
      then show ?thesis
        using wf False Some pos rl [of pos "l_queue l"]
        by (auto simp: cancel_wait_def wf_defs role_defs Let_def)
    qed (use wf False in \<open>simp add: cancel_wait_def\<close>)
  qed
qed

lemma force_release_wf [wf_intros]: "lease_wf (fst (force_release l now))"
  by (auto simp: force_release_def take_holder_def wf_defs role_defs Let_def split: option.splits)

lemma confirm_release_wf [wf_intros]: "lease_wf l \<Longrightarrow> lease_wf (fst (confirm_release l now))"
  by (auto simp: confirm_release_def wf_defs role_defs Let_def split: option.splits)

lemma set_connected_wf [wf_intros]: "lease_wf l \<Longrightarrow> lease_wf (fst (set_connected l i c now))"
  by (cases "l_phase l"; cases c)
    (auto simp: set_connected_def wf_defs role_defs Let_def split: option.splits)

lemma note_intent_wf [wf_intros]: "lease_wf l \<Longrightarrow> lease_wf (note_intent l i now)"
  by (auto simp: note_intent_def wf_defs role_defs split: option.splits)

lemma renew_wf [wf_intros]: "lease_wf l \<Longrightarrow> lease_wf (renew l i now)"
  by (auto simp: renew_def wf_defs role_defs split: option.splits)

subsection \<open>Time\<close>

lemma distinct_filter_ids: "distinct (map w_id q) \<Longrightarrow> distinct (map w_id (filter P q))"
  by (rule distinct_map_filter)

lemma sweep_wf: "lease_wf l \<Longrightarrow> lease_wf (sweep l now)"
  by (auto simp: sweep_def wf_defs role_defs Let_def distinct_filter_ids
      intro: order_trans [OF length_filter_le] split: option.splits)

lemma tick_holder_wf: "lease_wf l \<Longrightarrow> lease_wf (fst (tick_holder l now from))"
  by (simp add: tick_holder_def Let_def case_prod_beta take_settle_wf
      split: lease_phase.split option.split)

lemma tick_wf [wf_intros]: "lease_wf l \<Longrightarrow> lease_wf (fst (tick l now))"
  using tick_holder_wf [OF sweep_wf] by (simp add: tick_def case_prod_beta)

subsection \<open>Every step, every run\<close>

lemma lease_step_wf: "lease_wf l \<Longrightarrow> lease_wf (fst (lease_step l opn now))"
proof (cases opn)
  case (OpAcquire r)
  assume "lease_wf l"
  then have "lease_wf (fst (acquire l r now))" by (rule acquire_wf)
  with OpAcquire show ?thesis by (auto split: prod.split sum.split)
qed (simp_all add: wf_intros)

lemma lease_run_wf: "lease_wf l \<Longrightarrow> lease_wf (fst (lease_run l ops))"
  unfolding lease_run_def by (rule run_steps_inv [where I = lease_wf]) (simp_all add: lease_step_wf)

end
