(* ===== verification/Lease_Safety.thy ===== *)
theory Lease_Safety
  imports Lease_Invariant
begin

text \<open>
  The safety contract of the lease (ruling R11 of \<open>crates/agent-lease/src/lib.rs\<close>): the
  party whose intents are dispatched never changes without a release obligation in the
  caller's hands. The contract is stated once as a locale over any arbiter that reports its
  transitions, and interpreted on the lease here and on the board of leases in theory Board.
\<close>

subsection \<open>Who dispatches\<close>

definition dispatcher :: "lease \<Rightarrow> party_id option" where
  "dispatcher l = (if l_phase l = Held then map_option (\<lambda>h. p_id (h_party h)) (l_holder l) else None)"

lemma fence_dispatcher: "fence l i = Allowed \<longleftrightarrow> dispatcher l = Some i"
  by (auto simp: fence_def dispatcher_def holder_is_def split: option.splits)

lemma fence_other: "fence l i = ReleaseOnly \<longleftrightarrow> dispatcher l \<noteq> Some i"
  using fence_dispatcher [of l i] by (cases "fence l i") auto

text \<open>Calls that leave the holder's identity and the phase alone leave the dispatcher alone.\<close>

lemma dispatcher_cong:
  "l_phase l' = l_phase l \<Longrightarrow>
   map_option (\<lambda>h. p_id (h_party h)) (l_holder l') = map_option (\<lambda>h. p_id (h_party h)) (l_holder l) \<Longrightarrow>
   dispatcher l' = dispatcher l"
  by (simp add: dispatcher_def)

subsection \<open>Which steps owe a release\<close>

lemma draft_simps [simp]:
  "t_release (draft l at f oc r) = r" "t_outcome (draft l at f oc r) = oc"
  "t_from (draft l at f oc r) = f" "t_to (draft l at f oc r) = l_phase l"
  "t_departed (draft l at f oc r) = None" "t_expired_waiters (draft l at f oc r) = []"
  "t_limb (draft l at f oc r) = l_limb l" "t_at (draft l at f oc r) = at"
  "t_queue_depth (draft l at f oc r) = length (l_queue l)"
  by (simp_all add: draft_def)

lemma grant_required [simp]: "t_release (snd (grant l p now f)) = Required"
  by (simp add: grant_def Let_def)

lemma settle_required [simp]: "t_release (snd (settle l now f d)) = Required"
  by (auto simp: settle_def Let_def case_prod_beta split: option.splits list.splits)

lemma take_over_required [simp]: "t_release (snd (take_over l p now f)) = Required"
  by (simp add: take_over_def case_prod_beta)

definition quiet_or_owes :: "lease \<Rightarrow> lease \<times> lease_transition \<Rightarrow> bool" where
  "quiet_or_owes l r \<longleftrightarrow> dispatcher (fst r) = dispatcher l \<or> t_release (snd r) = Required"

definition ask_quiet_or_owes :: "lease \<Rightarrow> lease \<times> (lease_error + lease_transition) \<Rightarrow> bool" where
  "ask_quiet_or_owes l r \<longleftrightarrow> dispatcher (fst r) = dispatcher l \<or>
     (\<exists>t. snd r = Inr t \<and> t_release t = Required)"

lemma queue_or_refuse_quiet: "dispatcher (fst (queue_or_refuse l r now f e)) = dispatcher l"
  by (simp add: queue_or_refuse_def Let_def dispatcher_def)

lemma contest_quiet: "ask_quiet_or_owes l (contest l r now f)"
  by (simp add: contest_def Let_def case_prod_beta ask_quiet_or_owes_def queue_or_refuse_quiet
      split: option.split)

lemma acquire_queued_quiet: "ask_quiet_or_owes l (acquire_queued l r now f)"
  using contest_quiet [of l r now f]
  by (simp add: acquire_queued_def Let_def case_prod_beta ask_quiet_or_owes_def split: option.split)
    (simp add: dispatcher_def)

lemma acquire_open_quiet: "ask_quiet_or_owes l (acquire_open l r now f)"
proof -
  have p: "ask_quiet_or_owes l (acquire_pending l r now f)"
    using acquire_queued_quiet [of l r now f]
    by (simp add: acquire_pending_def ask_quiet_or_owes_def split: option.split)
  show ?thesis
    using p by (simp add: acquire_open_def ask_quiet_or_owes_def Let_def split: option.split)
      (simp add: dispatcher_def)
qed

lemma dispatcher_backoff [simp]: "dispatcher (l\<lparr>l_force_release_until := u\<rparr>) = dispatcher l"
  by (simp add: dispatcher_def)

lemma acquire_quiet: "ask_quiet_or_owes l (acquire l r now)"
  using acquire_open_quiet [of l r now "l_phase l"]
    acquire_open_quiet [of "l\<lparr>l_force_release_until := None\<rparr>" r now "l_phase l"]
  by (simp add: acquire_def ask_quiet_or_owes_def split: option.split)

lemma release_quiet: "quiet_or_owes l (release l i lid now)"
  by (simp add: release_def quiet_or_owes_def Let_def case_prod_beta)

lemma cancel_wait_quiet: "quiet_or_owes l (cancel_wait l i now)"
  by (simp add: cancel_wait_def quiet_or_owes_def Let_def split: option.split)
    (simp add: dispatcher_def)

lemma force_release_quiet: "quiet_or_owes l (force_release l now)"
  by (simp add: force_release_def quiet_or_owes_def Let_def case_prod_beta)

lemma set_connected_quiet: "quiet_or_owes l (set_connected l i c now)"
  by (simp add: set_connected_def quiet_or_owes_def Let_def split: option.split)

lemma sweep_frame [simp]:
  "l_phase (sweep l now) = l_phase l" "l_holder (sweep l now) = l_holder l"
  "l_pending (sweep l now) = l_pending l" "l_policy (sweep l now) = l_policy l"
  "l_next_lease_id (sweep l now) = l_next_lease_id l" "l_limb (sweep l now) = l_limb l"
  "l_mode (sweep l now) = l_mode l"
  "l_queue (sweep l now) = filter (\<lambda>w. \<not> waiter_expired (l_policy l) now w) (l_queue l)"
  by (simp_all add: sweep_def Let_def split: option.split)

lemma tick_quiet: "quiet_or_owes l (tick l now)"
  by (simp add: tick_def tick_holder_def quiet_or_owes_def Let_def case_prod_beta
      split: lease_phase.split option.split) (simp add: dispatcher_def)

definition handover_complete :: "lease_transition \<Rightarrow> bool" where
  "handover_complete t \<longleftrightarrow> (case t_outcome t of HandoverComplete _ \<Rightarrow> True | _ \<Rightarrow> False)"

lemma confirm_release_dispatcher:
  "l_phase l \<noteq> HandingOver \<Longrightarrow> confirm_release l now = (l, draft l now (l_phase l) Unchanged NotRequired)"
  by (simp add: confirm_release_def)

lemma dispatcher_no_transition [simp]:
  "dispatcher (note_intent l i now) = dispatcher l"
  "dispatcher (renew l i now) = dispatcher l"
  "dispatcher (fst (promote l i)) = dispatcher l"
  by (simp_all add: note_intent_def renew_def promote_def dispatcher_def split: option.split)

lemma confirm_release_quiet:
  "confirm_release l now = (l', t) \<Longrightarrow> dispatcher l' \<noteq> dispatcher l \<Longrightarrow>
   l_phase l = HandingOver \<and> handover_complete t"
  by (auto simp: confirm_release_def Let_def handover_complete_def case_prod_beta split: if_splits)

text \<open>One step: either the dispatcher stays, or a release is owed, or an owed release was confirmed.\<close>

lemma step_dispatcher:
  assumes "step_transitions l x = (l', ts)" and "dispatcher l' \<noteq> dispatcher l"
  shows "(\<exists>t\<in>set ts. must_release t) \<or> (l_phase l = HandingOver \<and> (\<exists>t\<in>set ts. handover_complete t))"
proof -
  obtain opn now where x: "x = (opn, now)" by (cases x)
  have quiet: ?thesis if "quiet_or_owes l r" and "lease_step l opn now = map_prod id Some r" for r
    using that assms by (cases r) (auto simp: step_transitions_def x quiet_or_owes_def must_release_def)
  show ?thesis
  proof (cases opn)
    case (OpAcquire r)
    then show ?thesis
      using assms acquire_quiet [of l r now]
      by (auto simp: step_transitions_def x ask_quiet_or_owes_def must_release_def
          split: prod.splits sum.splits)
  next
    case (OpRelease i lid)
    then show ?thesis using quiet [OF release_quiet] by simp
  next
    case (OpCancelWait i)
    then show ?thesis using quiet [OF cancel_wait_quiet] by simp
  next
    case OpForceRelease
    then show ?thesis using quiet [OF force_release_quiet] by simp
  next
    case OpConfirmRelease
    then show ?thesis
      using assms
      by (cases "confirm_release l now") (auto simp: step_transitions_def x dest: confirm_release_quiet)
  next
    case (OpSetConnected i c)
    then show ?thesis using quiet [OF set_connected_quiet] by simp
  next
    case OpTick
    then show ?thesis using quiet [OF tick_quiet] by simp
  qed (use assms in \<open>auto simp: step_transitions_def x\<close>)
qed


subsection \<open>Entering the handover\<close>

lemma settle_phase: "l_phase (fst (settle l now f d)) = HandingOver \<or> l_phase (fst (settle l now f d)) = Unheld"
  by (auto simp: settle_def grant_def Let_def case_prod_beta split: option.splits list.splits)

definition ask_enters_owing :: "lease \<Rightarrow> lease \<times> (lease_error + lease_transition) \<Rightarrow> bool" where
  "ask_enters_owing l r \<longleftrightarrow> l_phase (fst r) = l_phase l \<or>
     (\<exists>t. snd r = Inr t \<and> t_release t = Required)"

lemma acquire_enters_owing: "ask_enters_owing l (acquire l r now)"
proof -
  have q: "l_phase (fst (queue_or_refuse l r now f e)) = l_phase l" for l f e
    by (simp add: queue_or_refuse_def Let_def)
  have c: "ask_enters_owing l (contest l r now f)" for l f
    by (simp add: contest_def Let_def case_prod_beta ask_enters_owing_def q split: option.split)
  have a: "ask_enters_owing l (acquire_queued l r now f)" for l f
    using c [of l f]
    by (simp add: acquire_queued_def Let_def case_prod_beta ask_enters_owing_def split: option.split)
  have p: "ask_enters_owing l (acquire_pending l r now f)" for l f
    using a [of l f] by (simp add: acquire_pending_def ask_enters_owing_def split: option.split)
  have oq: "ask_enters_owing l (acquire_open l r now f)" for l f
    using p [of l f] by (simp add: acquire_open_def ask_enters_owing_def Let_def split: option.split)
  show ?thesis
    using oq [of l "l_phase l"] oq [of "l\<lparr>l_force_release_until := None\<rparr>" "l_phase l"]
    by (simp add: acquire_def ask_enters_owing_def split: option.split)
qed

definition enters_owing :: "lease \<Rightarrow> lease \<times> lease_transition \<Rightarrow> bool" where
  "enters_owing l r \<longleftrightarrow> l_phase (fst r) = HandingOver \<longrightarrow> l_phase l = HandingOver \<or> t_release (snd r) = Required"

lemma enters_owing_simps:
  "enters_owing l (release l i lid now)"
  "enters_owing l (cancel_wait l i now)"
  "enters_owing l (force_release l now)"
  "enters_owing l (confirm_release l now)"
  "enters_owing l (tick l now)"
  by (simp_all add: enters_owing_def release_def cancel_wait_def force_release_def
      confirm_release_def tick_def tick_holder_def Let_def case_prod_beta
      split: option.split lease_phase.split)

lemma set_connected_enters_owing: "enters_owing l (set_connected l i c now)"
  by (simp add: enters_owing_def set_connected_def Let_def split: option.split)

lemma step_enters_handover:
  assumes "step_transitions l x = (l', ts)" and "l_phase l' = HandingOver" and "l_phase l \<noteq> HandingOver"
  shows "\<exists>t\<in>set ts. must_release t"
proof -
  obtain opn now where x: "x = (opn, now)" by (cases x)
  have owing: ?thesis if "enters_owing l r" and "lease_step l opn now = map_prod id Some r" for r
    using that assms by (cases r) (auto simp: step_transitions_def x enters_owing_def must_release_def)
  show ?thesis
  proof (cases opn)
    case (OpAcquire r)
    then show ?thesis
      using assms acquire_enters_owing [of l r now]
      by (auto simp: step_transitions_def x ask_enters_owing_def must_release_def
          split: prod.splits sum.splits)
  next
    case (OpRelease i lid)
    then show ?thesis using owing [OF enters_owing_simps(1)] by simp
  next
    case (OpCancelWait i)
    then show ?thesis using owing [OF enters_owing_simps(2)] by simp
  next
    case OpForceRelease
    then show ?thesis using owing [OF enters_owing_simps(3)] by simp
  next
    case OpConfirmRelease
    then show ?thesis using owing [OF enters_owing_simps(4)] by simp
  next
    case (OpSetConnected i c)
    then show ?thesis using owing [OF set_connected_enters_owing] by simp
  next
    case OpTick
    then show ?thesis using owing [OF enters_owing_simps(5)] by simp
  qed (use assms in \<open>auto simp: step_transitions_def x promote_def note_intent_def renew_def
         split: option.splits if_splits\<close>)
qed

subsection \<open>The contract of an arbiter\<close>

text \<open>
  What a caller that forwards input relies on: \<open>disp\<close> is the party whose input goes through,
  \<open>owes\<close> marks a report that obliges the caller to release held input, and \<open>waiting\<close> is a
  handover whose release has been owed but not confirmed. The laws: nobody loses or gains
  dispatch, and no handover begins, without an obligation, except that a confirmation may end
  a handover that is already waiting.
\<close>

locale arbiter =
  fixes step :: "'s \<Rightarrow> 'x \<Rightarrow> 's \<times> 't list"
    and disp :: "'s \<Rightarrow> 'p option"
    and owes :: "'t \<Rightarrow> bool"
    and waiting :: "'s \<Rightarrow> bool"
  assumes waiting_fenced: "waiting s \<Longrightarrow> disp s = None"
    and moves: "step s x = (s', ts) \<Longrightarrow> disp s' \<noteq> disp s \<Longrightarrow> (\<exists>t\<in>set ts. owes t) \<or> waiting s"
    and enters: "step s x = (s', ts) \<Longrightarrow> waiting s' \<Longrightarrow> \<not> waiting s \<Longrightarrow> \<exists>t\<in>set ts. owes t"
begin

lemma run_moves:
  "run_steps step s xs = (s', ts) \<Longrightarrow> \<not> waiting s \<Longrightarrow> disp s' \<noteq> disp s \<Longrightarrow> \<exists>t\<in>set ts. owes t"
proof (induction xs arbitrary: s s' ts)
  case (Cons x xs)
  obtain s1 us where s1: "step s x = (s1, us)" by (cases "step s x")
  obtain s2 vs where s2: "run_steps step s1 xs = (s2, vs)" by (cases "run_steps step s1 xs")
  have eq: "s' = s2" "ts = us @ vs" using Cons.prems(1) s1 s2 by simp_all
  show ?case
  proof (cases "waiting s1 \<or> disp s1 \<noteq> disp s")
    case True
    then have "\<exists>t\<in>set us. owes t" using enters [OF s1] moves [OF s1] Cons.prems(2) by blast
    then show ?thesis by (auto simp: eq)
  next
    case False
    then have "\<exists>t\<in>set vs. owes t" using Cons.IH [OF s2] Cons.prems(3) by (simp add: eq)
    then show ?thesis by (auto simp: eq)
  qed
qed simp

lemma run_handover:
  assumes "run_steps step s xs = (s', ts)" and "disp s = Some p" and "disp s' = Some q" and "p \<noteq> q"
  shows "\<exists>t\<in>set ts. owes t"
  using run_moves [OF assms(1)] waiting_fenced [of s] assms(2-4) by auto

end

interpretation lease_arbiter: arbiter step_transitions dispatcher must_release
  "\<lambda>l. l_phase l = HandingOver"
proof
  show "dispatcher l = None" if "l_phase l = HandingOver" for l
    using that by (simp add: dispatcher_def)
  show "(\<exists>t\<in>set ts. must_release t) \<or> l_phase l = HandingOver"
    if "step_transitions l x = (l', ts)" and "dispatcher l' \<noteq> dispatcher l" for l x l' ts
    using step_dispatcher [OF that] by blast
  show "\<exists>t\<in>set ts. must_release t"
    if "step_transitions l x = (l', ts)" and "l_phase l' = HandingOver" and "l_phase l \<noteq> HandingOver"
    for l x l' ts
    using that by (rule step_enters_handover)
qed

end
