(* ===== verification/Lease_Arbitration.thy ===== *)
theory Lease_Arbitration
  imports Lease_Safety
begin

text \<open>
  What the arbitration rules of \<open>lease.rs\<close> achieve: when a request takes the wheel and
  when it cannot, how long a preemption can last, what the panic chord guarantees, that
  lease ids are fresh, that the reported deadline is the real one, and the order of the
  queue. The properties themselves are in theory Lease_Properties.
\<close>

subsection \<open>Preemption\<close>

definition backoff_over :: "lease \<Rightarrow> lease_instant \<Rightarrow> bool" where
  "backoff_over l now = (case l_force_release_until l of None \<Rightarrow> True | Some u \<Rightarrow> reached now u)"

lemma acquire_backoff_over:
  "backoff_over l now \<Longrightarrow>
   acquire l r now = acquire_open (l\<lparr>l_force_release_until := None\<rparr>) r now (l_phase l)"
  by (auto simp: acquire_def backoff_over_def split: option.splits intro: arg_cong)

lemma acquire_open_contest:
  assumes "p_id (r_party r) \<notin> set (roles l)" and "l_phase l \<noteq> Unheld"
  shows "acquire_open l r now f = contest l r now f"
proof -
  have "queue_position l (p_id (r_party r)) = None"
    using assms(1) by (simp add: queue_position_None roles_def)
  then show ?thesis
    using assms by (cases "l_holder l"; cases "l_pending l")
      (auto simp: acquire_open_def acquire_pending_def acquire_queued_def role_defs)
qed

lemma acquire_contest:
  assumes "backoff_over l now" and "p_id (r_party r) \<notin> set (roles l)" and "l_phase l \<noteq> Unheld"
  shows "acquire l r now = contest (l\<lparr>l_force_release_until := None\<rparr>) r now (l_phase l)"
  using assms by (simp add: acquire_backoff_over acquire_open_contest role_defs)

definition may_preempt :: "lease \<Rightarrow> holder \<Rightarrow> party \<Rightarrow> lease_instant \<Rightarrow> bool" where
  "may_preempt l h p now \<longleftrightarrow> p_priority (h_party h) < p_priority p \<and>
     ((is_person (p_kind p) \<and> p_kind (h_party h) = Agent) \<or>
      min_hold_ms (l_policy l) \<le> since now (h_granted_at h))"

lemma contest_preempts:
  assumes "l_holder l = Some h" and "l_phase l = Held" and "h_connected h"
    and "may_preempt l h (r_party r) now"
  shows "contest l r now f =
     (let deadline = plus_millis now (agent_preempt_grace_ms (l_policy l));
          l' = l\<lparr>l_pending := Some \<lparr>pd_waiter = \<lparr>w_party = r_party r, w_queued_at = now,
                   w_first_asked_at = now, w_reason = r_reason r\<rparr>, pd_deadline = deadline\<rparr>,
                 l_phase := PreemptPending\<rparr>
      in (l', Inr (draft l' now f (PreemptionStarted deadline (r_party r)) Required)))"
  using assms by (auto simp: contest_def may_preempt_def Let_def not_le not_less)

subsection \<open>While a preemption is pending\<close>

lemma queue_or_refuse_frame [simp]:
  "l_holder (fst (queue_or_refuse l r now f e)) = l_holder l"
  "l_phase (fst (queue_or_refuse l r now f e)) = l_phase l"
  "l_pending (fst (queue_or_refuse l r now f e)) = l_pending l"
  "l_next_lease_id (fst (queue_or_refuse l r now f e)) = l_next_lease_id l"
  "l_policy (fst (queue_or_refuse l r now f e)) = l_policy l"
  by (simp_all add: queue_or_refuse_def Let_def)

lemma settle_pending:
  "l_pending l = Some p \<Longrightarrow>
   l_phase (fst (settle l now f d)) = HandingOver \<and> holder_is (fst (settle l now f d)) (pd_id p)"
  by (simp add: settle_def grant_def holder_is_def Let_def)

definition succeeded :: "lease \<Rightarrow> pending \<Rightarrow> bool" where
  "succeeded l p \<longleftrightarrow> l_phase l = HandingOver \<and> holder_is l (pd_id p)"

definition awaiting :: "lease \<Rightarrow> pending \<Rightarrow> bool" where
  "awaiting l p \<longleftrightarrow> l_phase l = PreemptPending \<and> l_pending l = Some p"

lemma acquire_awaiting:
  assumes "lease_wf l" and "awaiting l p"
  shows "awaiting (fst (acquire l r now)) p"
proof -
  obtain h where h: "l_holder l = Some h" using assms by (auto simp: wf_defs awaiting_def)
  have c: "awaiting (fst (contest l' r now f)) p" if "awaiting l' p" "l_holder l' = Some h" for l' f
    using that by (simp add: awaiting_def contest_def Let_def)
  have a: "awaiting (fst (acquire_open l' r now f)) p"
    if "awaiting l' p" "l_holder l' = Some h" for l' f
    using that c [OF that]
    by (auto simp: acquire_open_def acquire_pending_def acquire_queued_def Let_def awaiting_def
        split: option.split)
  show ?thesis
    using a [of l] a [of "l\<lparr>l_force_release_until := None\<rparr>"] assms h
    by (auto simp: acquire_def awaiting_def split: option.split)
qed

lemma awaiting_step:
  assumes "lease_wf l" and "awaiting l p"
    and "opn \<noteq> OpCancelWait (pd_id p)" and "opn \<noteq> OpForceRelease"
  shows "awaiting (fst (lease_step l opn now)) p \<or> succeeded (fst (lease_step l opn now)) p"
proof -
  have s: "succeeded (fst (settle (fst (take_holder l t c)) t' f d)) p" for t t' c f d
    using assms(2) settle_pending [of "fst (take_holder l t c)" p]
    by (auto simp: awaiting_def succeeded_def take_holder_def split: option.splits)
  have sw: "succeeded (fst (settle (fst (take_holder (sweep l t'') t c)) t' f d)) p" for t t' t'' c f d
    using assms(2) settle_pending [of "fst (take_holder (sweep l t'') t c)" p]
    by (auto simp: awaiting_def succeeded_def take_holder_def split: option.splits)
  show ?thesis
  proof (cases opn)
    case (OpAcquire r)
    then show ?thesis using acquire_awaiting [OF assms(1,2), of r now]
      by (auto split: prod.split sum.split)
  next
    case (OpRelease i lid)
    then show ?thesis using assms(2) s
      by (simp add: release_def Let_def case_prod_beta)
  next
    case (OpCancelWait i)
    then show ?thesis using assms(2,3)
      by (auto simp: cancel_wait_def awaiting_def Let_def split: option.split)
  next
    case OpTick
    have "awaiting (sweep l now) p" using assms(2) by (simp add: awaiting_def)
    then show ?thesis using OpTick sw assms(2)
      by (simp add: tick_def tick_holder_def awaiting_def Let_def case_prod_beta)
  next
    case (OpSetConnected i c)
    then show ?thesis using assms(2)
      by (auto simp: set_connected_def awaiting_def Let_def split: option.split)
  qed (use assms in \<open>auto simp: awaiting_def promote_def confirm_release_def note_intent_def
         renew_def split: option.split\<close>)
qed

lemma tick_deadline:
  assumes "awaiting l p" and "reached now (pd_deadline p)"
  shows "succeeded (fst (tick l now)) p"
  using assms settle_pending [of "fst (take_holder (sweep l now) now Preempted)" p]
  by (simp add: tick_def tick_holder_def awaiting_def succeeded_def Let_def case_prod_beta
      take_holder_def split: option.split)

text \<open>Along a run that neither withdraws the request nor pulls the chord, the requester is served.\<close>

lemma awaiting_run:
  assumes "lease_wf l" and "awaiting l p"
    and "\<forall>x\<in>set xs. fst x \<noteq> OpCancelWait (pd_id p) \<and> fst x \<noteq> OpForceRelease"
  shows "awaiting (fst (lease_run l xs)) p \<or> (\<exists>k\<le>length xs. succeeded (fst (lease_run l (take k xs))) p)"
  using assms
proof (induction xs arbitrary: l)
  case (Cons x xs)
  let ?l1 = "fst (lease_step l (fst x) (snd x))"
  have run: "fst (lease_run l (x # ys)) = fst (lease_run ?l1 ys)" for ys
    by (simp add: lease_run_def Let_def case_prod_beta)
  have wf: "lease_wf ?l1" using Cons.prems(1) by (rule lease_step_wf)
  consider "awaiting ?l1 p" | "succeeded ?l1 p"
    using awaiting_step [OF Cons.prems(1,2)] Cons.prems(3) by auto
  then show ?case
  proof cases
    case 1
    then consider "awaiting (fst (lease_run ?l1 xs)) p"
      | k where "k \<le> length xs" "succeeded (fst (lease_run ?l1 (take k xs))) p"
      using Cons.IH [OF wf] Cons.prems(3) by auto
    then show ?thesis
    proof cases
      case 2
      then have "succeeded (fst (lease_run l (take (Suc k) (x # xs)))) p" by (simp add: run)
      then show ?thesis using 2(1) by (metis Suc_le_mono length_Cons)
    qed (simp add: run)
  next
    case 2
    then have "succeeded (fst (lease_run l (take 1 (x # xs)))) p"
      by (simp add: run) (simp add: lease_run_def)
    then show ?thesis by (metis One_nat_def Suc_le_mono le0 length_Cons)
  qed
qed (simp add: lease_run_def)


subsection \<open>No stealing between equals\<close>

text \<open>The grant a holder drives under: who and by which lease id.\<close>

definition tenure :: "lease \<Rightarrow> (party_id \<times> lease_id) option" where
  "tenure l = map_option (\<lambda>h. (p_id (h_party h), h_lease_id h)) (l_holder l)"

lemma contest_no_steal:
  assumes "l_holder l = Some h"
    and "p_priority (r_party r) \<le> p_priority (h_party h) \<or>
         (\<not> (is_person (p_kind (r_party r)) \<and> p_kind (h_party h) = Agent) \<and>
          since now (h_granted_at h) < min_hold_ms (l_policy l))"
  shows "l_holder (fst (contest l r now f)) = l_holder l \<and>
         l_phase (fst (contest l r now f)) = l_phase l"
  using assms by (auto simp: contest_def Let_def)

lemma acquire_no_steal:
  assumes "lease_wf l" and h: "l_holder l = Some h"
    and weak: "p_priority (r_party r) \<le> p_priority (h_party h) \<or>
         (\<not> (is_person (p_kind (r_party r)) \<and> p_kind (h_party h) = Agent) \<and>
          since now (h_granted_at h) < min_hold_ms (l_policy l))"
  shows "tenure (fst (acquire l r now)) = tenure l \<and> l_phase (fst (acquire l r now)) = l_phase l"
proof -
  have ph: "l_phase l \<noteq> Unheld" using assms by (auto simp: wf_defs)
  have o: "tenure (fst (acquire_open l' r now f)) = tenure l' \<and>
           l_phase (fst (acquire_open l' r now f)) = l_phase l'"
    if "l_holder l' = Some h" "l_phase l' \<noteq> Unheld" "l_policy l' = l_policy l" for l' f
    using that weak contest_no_steal [of l' h r now f]
    by (auto simp: acquire_open_def acquire_pending_def acquire_queued_def tenure_def Let_def
        split: option.split)
  show ?thesis
    using o [of l "l_phase l"] o [of "l\<lparr>l_force_release_until := None\<rparr>" "l_phase l"] h ph
    by (auto simp: acquire_def tenure_def split: option.split)
qed

subsection \<open>The panic chord\<close>

definition silenced :: "lease \<Rightarrow> lease_instant \<Rightarrow> bool" where
  "silenced l u \<longleftrightarrow> lease_wf l \<and> l_phase l = Unheld \<and>
     (\<exists>u'. l_force_release_until l = Some u' \<and> u \<le> u')"

lemma silenced_empty:
  "silenced l u \<Longrightarrow> l_holder l = None \<and> l_queue l = [] \<and> l_pending l = None \<and> l_contended_since l = None"
  by (auto simp: silenced_def wf_defs)

lemma force_release_silences:
  "silenced (fst (force_release l now)) (plus_millis now (force_release_backoff_ms (l_policy l)))"
  using force_release_wf [of l now]
  by (auto simp: silenced_def force_release_def take_holder_def Let_def split: option.splits)

lemma silenced_step:
  assumes s: "silenced l u" and "t0 \<le> now" and "now < u"
    and u: "u = plus_millis t0 (force_release_backoff_ms (l_policy l))"
  shows "silenced (fst (lease_step l opn now)) u \<and>
         l_policy (fst (lease_step l opn now)) = l_policy l"
proof -
  obtain u' where u': "l_force_release_until l = Some u'" "u \<le> u'" using s by (auto simp: silenced_def)
  then have nr: "\<not> reached now u'" using assms(3) by (simp add: reached_def)
  note e = silenced_empty [OF s]
  have ph: "l_phase l = Unheld" using s by (simp add: silenced_def)
  have same: "fst (lease_step l opn now) = l" if "opn \<noteq> OpForceRelease"
    using that u'(1) nr e ph
    by (cases opn) (auto simp: acquire_def release_def promote_def queue_position_def cancel_wait_def
        confirm_release_def set_connected_def note_intent_def renew_def tick_def tick_holder_def
        sweep_def Let_def)
  show ?thesis
  proof (cases "opn = OpForceRelease")
    case True
    have "u \<le> plus_millis now (force_release_backoff_ms (l_policy l))"
      using assms(2) by (simp add: u plus_millis_def sat_add_mono)
    then show ?thesis
      using True force_release_silences [of l now]
      by (auto simp: silenced_def force_release_def take_holder_def Let_def split: option.splits)
  next
    case False
    then show ?thesis using same s by simp
  qed
qed

lemma silenced_run:
  assumes "silenced l u" and "\<forall>x\<in>set xs. t0 \<le> snd x \<and> snd x < u"
    and "u = plus_millis t0 (force_release_backoff_ms (l_policy l))"
  shows "silenced (fst (lease_run l xs)) u"
  using assms
proof (induction xs arbitrary: l)
  case (Cons x xs)
  have "silenced (fst (lease_step l (fst x) (snd x))) u \<and>
        l_policy (fst (lease_step l (fst x) (snd x))) = l_policy l"
    using Cons.prems silenced_step [of l u t0 "snd x" "fst x"] by simp
  then show ?case
    using Cons.IH [of "fst (lease_step l (fst x) (snd x))"] Cons.prems(2,3)
    by (simp add: lease_run_def Let_def case_prod_beta)
qed (simp add: lease_run_def)

lemma silenced_refuses:
  "silenced l u \<Longrightarrow> now < u \<Longrightarrow> \<exists>d. acquire l r now = (l, Inl (ForceReleased d)) \<and> 0 < d"
  by (auto simp: silenced_def acquire_def reached_def since_def sat_sub_def word_less_nat_alt
      word_le_nat_alt unat_sub)

subsection \<open>The reported deadline\<close>

definition limits_positive :: "lease_policy \<Rightarrow> bool" where
  "limits_positive pol \<longleftrightarrow> 0 < lease_ttl_ms pol \<and> 0 < idle_revoke_ms pol \<and> 0 < person_idle_ms pol"

lemma held_cause_iff:
  assumes "limits_positive (l_policy l)" and "t < - 1"
  shows "held_cause l h t \<noteq> None \<longleftrightarrow>
    reached t (plus_millis (last_activity h) (lease_ttl_ms (l_policy l))) \<or>
    reached t (plus_millis (h_last_intent_at h) (idle_limit l h)) \<or>
    (\<exists>d. contended_deadline l h = Some d \<and> reached t d)"
  using assms by (simp add: held_cause_def limits_positive_def idle_limit_def elapsed_iff_reached
      split: option.split)

lemma reached_min: "reached t (min a b) \<longleftrightarrow> reached t a \<or> reached t b"
  by (auto simp: reached_def min_def)

lemma changes_at_held:
  assumes "l_phase l = Held" and "l_holder l = Some h" and "limits_positive (l_policy l)" and "t < - 1"
    and "changes_at l = Some at"
  shows "held_cause l h t \<noteq> None \<longleftrightarrow> reached t at"
  using assms(1,2,5) held_cause_iff [OF assms(3,4), of h]
  by (auto simp: changes_at_def Let_def reached_min split: option.splits)

lemma settle_departed [simp]: "t_departed (snd (settle l now f d)) = d"
  by (simp add: settle_def Let_def case_prod_beta)

lemma take_holder_departs: "l_holder l = Some h \<Longrightarrow> snd (take_holder l now c) \<noteq> None"
  by (simp add: take_holder_def)

lemma tick_holder_departs:
  assumes "lease_wf l" and "limits_positive (l_policy l)" and "t < - 1" and "changes_at l = Some at"
  shows "t_departed (snd (tick_holder l t f)) \<noteq> None \<longleftrightarrow> reached t at"
proof (cases "l_phase l")
  case Held
  then obtain h where h: "l_holder l = Some h" using assms(1) by (auto simp: wf_defs)
  show ?thesis
    using changes_at_held [OF Held h assms(2-4)] Held h
    by (auto simp: tick_holder_def Let_def case_prod_beta take_holder_def split: option.splits)
next
  case PreemptPending
  then show ?thesis using assms
    by (auto simp: tick_holder_def changes_at_def Let_def case_prod_beta take_holder_def wf_defs
        split: option.splits)
next
  case HeldGrace
  then show ?thesis using assms
    by (auto simp: tick_holder_def changes_at_def Let_def case_prod_beta take_holder_def wf_defs
        split: option.splits)
qed (use assms in \<open>auto simp: changes_at_def\<close>)

lemma sweep_fresh:
  assumes "\<forall>w\<in>set (l_queue l). \<not> waiter_expired (l_policy l) t w" and "lease_wf l"
  shows "\<exists>u. sweep l t = l\<lparr>l_force_release_until := u\<rparr>"
proof -
  have "filter (\<lambda>w. \<not> waiter_expired (l_policy l) t w) (l_queue l) = l_queue l"
    using assms(1) by simp
  then have "sweep l t = l\<lparr>l_force_release_until := l_force_release_until (sweep l t)\<rparr>"
    using assms(2) by (cases l) (auto simp: sweep_def lease_wf_def queue_wf_def Let_def split: option.split)
  then show ?thesis by blast
qed

lemma changes_at_backoff [simp]: "changes_at (l\<lparr>l_force_release_until := u\<rparr>) = changes_at l"
  by (simp add: changes_at_def contended_deadline_def idle_limit_def split: lease_phase.split option.split)

lemma tick_departs:
  assumes "lease_wf l" and "limits_positive (l_policy l)" and "t < - 1" and "changes_at l = Some at"
    and "\<forall>w\<in>set (l_queue l). \<not> waiter_expired (l_policy l) t w"
  shows "t_departed (snd (tick l t)) \<noteq> None \<longleftrightarrow> reached t at"
proof -
  obtain u where u: "sweep l t = l\<lparr>l_force_release_until := u\<rparr>" using sweep_fresh assms(5,1) by blast
  have "lease_wf (l\<lparr>l_force_release_until := u\<rparr>)" using assms(1) by (simp add: lease_wf_backoff)
  then show ?thesis
    using tick_holder_departs [of "l\<lparr>l_force_release_until := u\<rparr>" t at "l_phase l"] assms(2-4)
    by (simp add: tick_def u case_prod_beta)
qed


subsection \<open>Lease ids\<close>

definition minted :: "lease_transition \<Rightarrow> lease_id list" where
  "minted t = (case t_outcome t of Granted i _ \<Rightarrow> [i] | _ \<Rightarrow> [])"

definition minted_all :: "lease_transition list \<Rightarrow> lease_id list" where
  "minted_all ts = concat (map minted ts)"

text \<open>
  What one step does to the counter and to the tenure: either nothing is minted and the
  holder, if there is one, drives under the same id as before, or exactly the counter's
  value is minted and the new holder drives under it.
\<close>

definition mints :: "lease \<Rightarrow> lease \<Rightarrow> lease_id list \<Rightarrow> bool" where
  "mints l l' is \<longleftrightarrow>
     (is = [] \<and> l_next_lease_id l' = l_next_lease_id l \<and>
      (\<forall>h'. l_holder l' = Some h' \<longrightarrow> (\<exists>h. l_holder l = Some h \<and> h_lease_id h' = h_lease_id h))) \<or>
     (is = [l_next_lease_id l] \<and> l_next_lease_id l' = l_next_lease_id l + 1 \<and>
      (\<exists>h'. l_holder l' = Some h' \<and> h_lease_id h' = l_next_lease_id l))"

lemma minted_draft [simp]: "minted (draft l at f oc r) = (case oc of Granted i _ \<Rightarrow> [i] | _ \<Rightarrow> [])"
  by (simp add: minted_def)

lemma minted_departed [simp]: "minted (t\<lparr>t_departed := d\<rparr>) = minted t"
  "minted (t\<lparr>t_expired_waiters := e\<rparr>) = minted t" "minted (t\<lparr>t_queue_depth := n\<rparr>) = minted t"
  by (simp_all add: minted_def)

definition mints_from :: "lease \<Rightarrow> lease \<times> lease_transition \<Rightarrow> bool" where
  "mints_from l r \<longleftrightarrow> mints l (fst r) (minted (snd r))"

lemma mints_quiet:
  "l_next_lease_id l' = l_next_lease_id l \<Longrightarrow>
   map_option h_lease_id (l_holder l') = map_option h_lease_id (l_holder l) \<Longrightarrow> mints l l' []"
  by (cases "l_holder l") (auto simp: mints_def)

lemma grant_mints: "l_next_lease_id l1 = l_next_lease_id l \<Longrightarrow> mints_from l (grant l1 p now f)"
  by (simp add: mints_from_def mints_def grant_def Let_def)

lemma settle_mints:
  assumes "l_next_lease_id l1 = l_next_lease_id l" and "l_holder l1 = None"
  shows "mints_from l (settle l1 now f d)"
  using assms by (auto simp: settle_def Let_def case_prod_beta mints_from_def mints_def grant_def
      split: option.split list.split)

lemma take_settle_mints: "l_next_lease_id l1 = l_next_lease_id l \<Longrightarrow>
  mints_from l (settle (fst (take_holder l1 now c)) now' f d)"
  by (rule settle_mints) (simp_all add: take_holder_def split: option.split)

definition ask_mints :: "lease \<Rightarrow> lease \<times> (lease_error + lease_transition) \<Rightarrow> bool" where
  "ask_mints l r \<longleftrightarrow> mints l (fst r) (case snd r of Inl _ \<Rightarrow> [] | Inr t \<Rightarrow> minted t)"

lemma queue_or_refuse_mints: "ask_mints l (queue_or_refuse l r now f e)"
  by (simp add: ask_mints_def queue_or_refuse_def Let_def mints_quiet)

lemma take_over_mints: "mints_from l (take_over l p now f)"
proof -
  have "mints_from l (grant ((fst (take_holder l now Preempted))\<lparr>l_pending := None\<rparr>) p now f)"
    by (rule grant_mints) (simp add: take_holder_def split: option.split)
  then show ?thesis by (simp add: take_over_def mints_from_def case_prod_beta)
qed

lemma contest_mints: "ask_mints l (contest l r now f)"
  using grant_mints [of l l "r_party r" now f] take_over_mints [of l "r_party r" now f]
    queue_or_refuse_mints [of l r now f]
  by (auto simp: contest_def Let_def case_prod_beta ask_mints_def mints_from_def
      intro: mints_quiet split: option.split)

lemma acquire_open_mints: "ask_mints l (acquire_open l r now f)"
  using grant_mints [of l l "r_party r" now f] contest_mints [of l r now f]
  by (auto simp: acquire_open_def acquire_pending_def acquire_queued_def Let_def case_prod_beta
      ask_mints_def mints_from_def intro: mints_quiet split: option.split)

lemma acquire_mints: "ask_mints l (acquire l r now)"
  using acquire_open_mints [of l r now "l_phase l"]
    acquire_open_mints [of "l\<lparr>l_force_release_until := None\<rparr>" r now "l_phase l"]
  by (auto simp: acquire_def ask_mints_def mints_def split: option.split)

lemma method_mints:
  "mints_from l (release l i lid now)" "mints_from l (cancel_wait l i now)"
  "mints_from l (confirm_release l now)" "mints_from l (set_connected l i c now)"
  "mints_from l (force_release l now)"
  using take_settle_mints [of l l now Released]
  by (auto simp: release_def cancel_wait_def confirm_release_def set_connected_def
      force_release_def take_holder_def mints_from_def mints_def Let_def case_prod_beta split: option.split)

lemma tick_mints: "mints_from l (tick l now)"
  using take_settle_mints [of "sweep l now" l now]
  by (auto simp: tick_def tick_holder_def mints_from_def Let_def case_prod_beta
      intro: mints_quiet split: option.split lease_phase.split)

lemma step_mints: "step_transitions l x = (l', ts) \<Longrightarrow> mints l l' (minted_all ts)"
proof -
  assume st: "step_transitions l x = (l', ts)"
  obtain opn now where x: "x = (opn, now)" by (cases x)
  have q: ?thesis if "mints_from l r" and "lease_step l opn now = map_prod id Some r" for r
    using that st by (cases r) (auto simp: step_transitions_def x mints_from_def minted_all_def)
  have n: ?thesis if "lease_step l opn now = (l1, None)" and "mints l l1 []" for l1
    using that st by (auto simp: step_transitions_def x minted_all_def)
  show ?thesis
  proof (cases opn)
    case (OpAcquire r)
    then show ?thesis
      using st acquire_mints [of l r now]
      by (auto simp: step_transitions_def x ask_mints_def minted_all_def split: prod.splits sum.splits)
  next
    case (OpRelease i lid)
    then show ?thesis using q [OF method_mints(1)] by simp
  next
    case (OpPromote i)
    have "mints l (fst (promote l i)) []" by (rule mints_quiet) (simp_all add: promote_def split: option.split)
    then show ?thesis using n OpPromote by simp
  next
    case (OpCancelWait i)
    then show ?thesis using q [OF method_mints(2)] by simp
  next
    case OpForceRelease
    then show ?thesis using q [OF method_mints(5)] by simp
  next
    case OpConfirmRelease
    then show ?thesis using q [OF method_mints(3)] by simp
  next
    case (OpSetConnected i c)
    then show ?thesis using q [OF method_mints(4)] by simp
  next
    case (OpNoteIntent i)
    have "mints l (note_intent l i now) []" by (rule mints_quiet) (simp_all add: note_intent_def split: option.split)
    then show ?thesis using n OpNoteIntent by simp
  next
    case (OpRenew i)
    have "mints l (renew l i now) []" by (rule mints_quiet) (simp_all add: renew_def split: option.split)
    then show ?thesis using n OpRenew by simp
  next
    case OpTick
    then show ?thesis using q [OF tick_mints] by simp
  qed
qed

text \<open>Along a run: the ids rise from the counter, and the holder drives under the last one.\<close>

definition ids_from :: "lease \<Rightarrow> lease \<Rightarrow> lease_id list \<Rightarrow> bool" where
  "ids_from l l' is \<longleftrightarrow>
     is = map (\<lambda>k. l_next_lease_id l + of_nat k) [0..<length is] \<and>
     l_next_lease_id l' = l_next_lease_id l + of_nat (length is) \<and>
     (is \<noteq> [] \<longrightarrow> (\<forall>h'. l_holder l' = Some h' \<longrightarrow> h_lease_id h' = last is))"

lemma run_ids: "lease_run l xs = (l', ts) \<Longrightarrow> ids_from l l' (minted_all ts) \<and> length (minted_all ts) \<le> length xs"
proof (induction xs arbitrary: l' ts rule: rev_induct)
  case (snoc x xs)
  obtain l1 us where r1: "lease_run l xs = (l1, us)" by (cases "lease_run l xs")
  obtain l2 vs where r2: "step_transitions l1 x = (l2, vs)" by (cases "step_transitions l1 x")
  have eq: "l' = l2" "ts = us @ vs"
    using snoc.prems r1 r2 by (simp_all add: lease_run_def run_steps_append)
  have ih: "ids_from l l1 (minted_all us)" "length (minted_all us) \<le> length xs"
    using snoc.IH [OF r1] by simp_all
  have m: "minted_all ts = minted_all us @ minted_all vs" by (simp add: eq minted_all_def)
  from step_mints [OF r2] show ?case
    unfolding mints_def eq(1)
  proof
    assume "minted_all vs = [l_next_lease_id l1] \<and> l_next_lease_id l2 = l_next_lease_id l1 + 1 \<and>
      (\<exists>h'. l_holder l2 = Some h' \<and> h_lease_id h' = l_next_lease_id l1)"
    then show "ids_from l l2 (minted_all ts) \<and> length (minted_all ts) \<le> length (xs @ [x])"
      using ih by (auto simp: m ids_from_def)
  next
    assume "minted_all vs = [] \<and> l_next_lease_id l2 = l_next_lease_id l1 \<and>
      (\<forall>h'. l_holder l2 = Some h' \<longrightarrow> (\<exists>h. l_holder l1 = Some h \<and> h_lease_id h' = h_lease_id h))"
    then show "ids_from l l2 (minted_all ts) \<and> length (minted_all ts) \<le> length (xs @ [x])"
      using ih by (fastforce simp: m ids_from_def)
  qed
qed (simp add: lease_run_def ids_from_def minted_all_def)

lemma ids_distinct:
  assumes "is = map (\<lambda>k. n + of_nat k) [0..<length is]" and "length is \<le> 2 ^ 64"
  shows "distinct (is :: lease_id list)"
proof -
  have "inj_on (\<lambda>k. n + (of_nat k :: lease_id)) {0..<length is}"
  proof (rule inj_onI)
    fix a b assume "a \<in> {0..<length is}" "b \<in> {0..<length is}" "n + of_nat a = n + (of_nat b :: lease_id)"
    then have eq: "unat (of_nat a :: lease_id) = unat (of_nat b :: lease_id)"
      and "a < 2 ^ LENGTH(64)" and "b < 2 ^ LENGTH(64)" using assms(2) by simp_all
    from this(2,3) have "unat (of_nat a :: lease_id) = a" and "unat (of_nat b :: lease_id) = b"
      by (simp_all add: unsigned_of_nat take_bit_nat_eq_self)
    with eq show "a = b" by simp
  qed
  then have "distinct (map (\<lambda>k. n + (of_nat k :: lease_id)) [0..<length is])"
    by (simp add: distinct_map)
  with assms(1) show ?thesis by metis
qed


subsection \<open>The order of the queue\<close>

definition priority_of :: "waiter \<Rightarrow> u16" where
  "priority_of w = p_priority (w_party w)"

definition queue_ordered :: "lease \<Rightarrow> bool" where
  "queue_ordered l \<longleftrightarrow> sorted_wrt (\<ge>) (map priority_of (l_queue l))"

lemma queue_or_refuse_queue:
  assumes "queue_ordered l" and "queue_or_refuse l r now f e = (l', Inr t)"
  shows "\<exists>w. w_party w = r_party r \<and> w_queued_at w = now \<and>
    l_queue l' = filter (\<lambda>x. p_priority (r_party r) \<le> priority_of x) (l_queue l) @
      w # filter (\<lambda>x. priority_of x < p_priority (r_party r)) (l_queue l)"
proof -
  have "\<exists>w. l_queue l' = insert_at (case position (\<lambda>y. priority_of y < p_priority (r_party r)) (l_queue l)
          of Some i \<Rightarrow> i | None \<Rightarrow> length (l_queue l)) w (l_queue l) \<and>
        w_party w = r_party r \<and> w_queued_at w = now"
    using assms(2) by (auto simp: queue_or_refuse_def Let_def priority_of_def split: if_splits)
  then show ?thesis using insert_before_smaller [of priority_of "l_queue l"] assms(1)
    by (metis queue_ordered_def)
qed

lemma ordered_insert:
  "sorted_wrt (\<ge>) (map priority_of q) \<Longrightarrow>
   sorted_wrt (\<ge>) (map priority_of (filter (\<lambda>x. priority_of w \<le> priority_of x) q @
     w # filter (\<lambda>x. priority_of x < priority_of w) q))"
  by (auto simp: sorted_wrt_append sorted_wrt_map intro: sorted_wrt_filter)

lemma queue_or_refuse_ordered:
  assumes "queue_ordered l"
  shows "queue_ordered (fst (queue_or_refuse l r now f e))"
proof (cases "queue_or_refuse l r now f e")
  case (Pair l' res)
  show ?thesis
  proof (cases res)
    case (Inl e')
    then show ?thesis using Pair assms by (auto simp: queue_or_refuse_def Let_def split: if_splits)
  next
    case (Inr t)
    then obtain w where w: "w_party w = r_party r"
      "l_queue l' = filter (\<lambda>x. p_priority (r_party r) \<le> priority_of x) (l_queue l) @
        w # filter (\<lambda>x. priority_of x < p_priority (r_party r)) (l_queue l)"
      using queue_or_refuse_queue assms Pair by blast
    then have "p_priority (r_party r) = priority_of w" by (simp add: priority_of_def)
    then show ?thesis using w(2) Pair assms ordered_insert [of "l_queue l" w]
      by (simp add: queue_ordered_def)
  qed
qed

lemma settle_ordered: "queue_ordered l \<Longrightarrow> queue_ordered (fst (settle l now f d))"
  by (auto simp: settle_def grant_def queue_ordered_def Let_def split: option.splits list.splits)

lemma take_holder_queue [simp]: "l_queue (fst (take_holder l now c)) = l_queue l"
  by (simp add: take_holder_def split: option.split)

lemma acquire_ordered:
  assumes "queue_ordered l"
  shows "queue_ordered (fst (acquire l r now))"
proof -
  have c: "queue_ordered (fst (contest l' r now f))" if "queue_ordered l'" for l' f
    using that queue_or_refuse_ordered [OF that]
    by (auto simp: contest_def Let_def case_prod_beta take_over_def split: option.split)
      (simp_all add: grant_def queue_ordered_def Let_def)
  have upd: "map priority_of (q[pos := w]) = map priority_of q" if "w_party w = w_party (q ! pos)"
    for q pos w using that by (cases "pos < length q") (simp_all add: map_update priority_of_def list_update_beyond list_update_same_conv)
  have o: "queue_ordered (fst (acquire_open l' r now f))" if "queue_ordered l'" for l' f
    using that c [OF that]
    by (auto simp: acquire_open_def acquire_pending_def acquire_queued_def Let_def case_prod_beta
        queue_ordered_def upd grant_def split: option.split)
  show ?thesis
    using o [of l] o [of "l\<lparr>l_force_release_until := None\<rparr>"] assms
    by (auto simp: acquire_def queue_ordered_def split: option.split)
qed

lemma step_ordered:
  assumes "queue_ordered l" and "\<And>i. opn \<noteq> OpPromote i"
  shows "queue_ordered (fst (lease_step l opn now))"
proof (cases opn)
  case (OpAcquire r)
  then show ?thesis using acquire_ordered [OF assms(1), of r now] by (auto split: prod.split sum.split)
next
  case (OpRelease i lid)
  have "queue_ordered (fst (take_holder l now Released))" using assms(1) by (simp add: queue_ordered_def)
  then show ?thesis using OpRelease assms(1) settle_ordered by (simp add: release_def Let_def case_prod_beta)
next
  case (OpCancelWait i)
  have "sorted_wrt (\<ge>) (map priority_of (remove_at pos (l_queue l)))" for pos
    using assms(1) by (simp add: map_remove_at sorted_wrt_remove_at queue_ordered_def)
  then show ?thesis using OpCancelWait assms(1)
    by (auto simp: cancel_wait_def Let_def queue_ordered_def split: option.split)
next
  case OpTick
  have "queue_ordered (sweep l now)"
    using assms(1) by (simp add: queue_ordered_def sorted_wrt_map sorted_wrt_filter)
  then have "queue_ordered (fst (take_holder (sweep l now) now c))" "queue_ordered (sweep l now)" for c
    by (simp_all add: queue_ordered_def)
  then show ?thesis using OpTick settle_ordered
    by (auto simp: tick_def tick_holder_def Let_def case_prod_beta split: lease_phase.split option.split)
next
  case (OpPromote i)
  then show ?thesis using assms(2) by simp
qed (use assms(1) in \<open>auto simp: force_release_def confirm_release_def set_connected_def note_intent_def
      renew_def queue_ordered_def Let_def case_prod_beta split: option.split\<close>)

lemma run_ordered:
  "queue_ordered l \<Longrightarrow> \<forall>x\<in>set xs. \<forall>i. fst x \<noteq> OpPromote i \<Longrightarrow> queue_ordered (fst (lease_run l xs))"
  by (induction xs arbitrary: l) (simp_all add: lease_run_def Let_def case_prod_beta step_ordered)

end
