(* ===== verification/Lease_Properties.thy ===== *)
theory Lease_Properties
  imports Lease_Arbitration
begin

text \<open>
  The properties of one lease (\<open>crates/agent-lease/src/lease.rs\<close>), each with the witness
  that its hypotheses can hold. The sample run used by the witnesses is an agent that takes a
  free machine and a person who asks for it.
\<close>

subsection \<open>Reachable leases\<close>

inductive lease_reachable :: "limb_id \<Rightarrow> lease_config \<Rightarrow> lease \<Rightarrow> bool" for limb c where
  fresh: "lease_new limb c = Inr l \<Longrightarrow> lease_reachable limb c l"
| call: "lease_reachable limb c l \<Longrightarrow> lease_reachable limb c (fst (lease_step l opn now))"

inductive_simps shared_reachable: "lease_reachable limb \<lparr>cfg_mode = Shared, cfg_policy = p\<rparr> l"

lemma reachable_run: "lease_reachable limb c l \<Longrightarrow> lease_reachable limb c (fst (lease_run l xs))"
  by (induction xs arbitrary: l)
    (simp_all add: lease_run_def Let_def case_prod_beta lease_reachable.call)

subsection \<open>Samples\<close>

definition sample_agent :: party where
  "sample_agent = party_new ''grant-1'' Agent ''nightly run''"

definition sample_person :: party where
  "sample_person = party_new ''window-1'' Human ''Ada''"

definition sample_config :: lease_config where
  "sample_config = \<lparr>cfg_mode = Exclusive, cfg_policy = default_policy\<rparr>"

definition sample_held :: lease where
  "sample_held = fst (lease_run (exclusive ''desk'')
     [(OpAcquire (request_new sample_agent), 0), (OpConfirmRelease, 0)])"

definition sample_contested :: lease where
  "sample_contested = fst (lease_run sample_held [(OpAcquire (request_new sample_person), 1000)])"

lemma sample_held_eval:
  "sample_held = (exclusive ''desk'')\<lparr>l_phase := Held, l_next_lease_id := 2,
     l_holder := Some \<lparr>h_lease_id = 1, h_party = sample_agent, h_granted_at = 0,
       h_last_intent_at = 0, h_last_renew_at = 0, h_connected = True, h_grace_until = None\<rparr>\<rparr>"
  by (simp add: sample_held_def lease_eval)

lemma sample_contested_eval:
  "sample_contested = sample_held\<lparr>l_phase := PreemptPending,
     l_pending := Some \<lparr>pd_waiter = \<lparr>w_party = sample_person, w_queued_at = 1000,
       w_first_asked_at = 1000, w_reason = None\<rparr>, pd_deadline = 3000\<rparr>\<rparr>"
  by (simp add: sample_contested_def sample_held_eval lease_eval sample_agent_def sample_person_def)

lemmas sample_eval = sample_contested_eval sample_held_eval sample_agent_def sample_person_def lease_eval

lemma sample_wf: "lease_wf sample_held" "lease_wf sample_contested"
  by (simp_all add: sample_contested_def sample_held_def lease_run_wf lease_wf_exclusive)

subsection \<open>The invariant\<close>

text \<open>
  C1. Every lease that the methods can produce from a fresh one is well formed: it is \<open>Unheld\<close>
  exactly when there is no holder and \<open>PreemptPending\<close> exactly when a preemption is pending, a free
  limb has no queue, the queue respects its cap, the contention clock runs exactly while somebody
  waits, and no party is at once holder, pending and queued, or queued twice. A holder has a
  grace deadline exactly while its transport is down, and in the phase \<open>HeldGrace\<close> its transport
  is down, so that phase never lacks a deadline. The converse does not hold and is not claimed: a holder
  whose transport is down may be in another phase (one whose transport drops during its handover is confirmed into \<open>Held\<close>),
  and \<open>set_connected\<close> sets the deadline in every phase, where the comment on \<open>grace_until\<close> in \<open>party.rs\<close>
  says it is set only in \<open>HeldGrace\<close>.
\<close>

theorem reachable_lease_wf: "lease_reachable limb c l \<Longrightarrow> lease_wf l"
proof (induction rule: lease_reachable.induct)
  case (fresh l)
  then show ?case by (rule lease_wf_new)
next
  case (call l opn now)
  then show ?case by (blast intro: lease_step_wf)
qed

theorem reachable_lease_wf_witness:
  "lease_reachable ''desk'' sample_config sample_contested \<and> lease_wf sample_contested"
proof -
  have "lease_new ''desk'' sample_config = Inr (exclusive ''desk'')"
    by (simp add: lease_new_def sample_config_def exclusive_def)
  then have "lease_reachable ''desk'' sample_config sample_contested"
    unfolding sample_contested_def sample_held_def
    by (intro reachable_run lease_reachable.fresh)
  then show ?thesis using reachable_lease_wf by blast
qed

subsection \<open>R11\<close>

text \<open>
  C2. No party starts to dispatch behind the caller's back: across any run of calls that does
  not begin in the middle of a handover, if a party may dispatch at the end and could not at
  the beginning, then some transition handed to the caller during the run carried the
  obligation to release held input. Taking over from another party is the special case.
\<close>

theorem no_silent_handover:
  assumes "lease_run l ops = (l', ts)" and "l_phase l \<noteq> HandingOver"
    and "fence l q = ReleaseOnly" and "fence l' q = Allowed"
  shows "\<exists>t\<in>set ts. must_release t"
  using lease_arbiter.run_moves [of l ops l' ts] assms
  by (simp add: lease_run_def fence_dispatcher fence_other)

theorem no_silent_handover_witness:
  "\<exists>t\<in>set (snd (lease_run sample_held [(OpAcquire (request_new sample_person), 1000), (OpTick, 3000),
      (OpConfirmRelease, 3000)])). must_release t"
proof -
  let ?ops = "[(OpAcquire (request_new sample_person), 1000), (OpTick, 3000), (OpConfirmRelease, 3000)]"
  have "l_phase sample_held \<noteq> HandingOver" by (simp add: sample_held_eval)
  moreover have "fence sample_held ''window-1'' = ReleaseOnly"
    by (simp add: sample_eval)
  moreover have "fence (fst (lease_run sample_held ?ops)) ''window-1'' = Allowed"
    by (simp add: sample_eval)
  ultimately show ?thesis
    using no_silent_handover [of sample_held ?ops _ _ "''window-1''"] by (metis prod.collapse)
qed

subsection \<open>A person takes the wheel\<close>

text \<open>
  C3. A person who asks for a machine that an agent holds stops the agent with that one call. This is for a lease
  in phase \<open>Held\<close> whose agent is connected and of lower priority than the person (as the default priorities
  are; \<open>with_priority\<close> can give an agent a higher one), a person who is not yet the holder, pending or
  queued, and a time at which no backoff of the panic chord runs. After the call nobody may dispatch, the agent is still the
  holder, and the transition announces the deadline \<open>agent_preempt_grace_ms\<close> from now and owes a
  release. The minimum hold does not protect an agent from a person.
\<close>

theorem person_preempts_agent:
  assumes "l_phase l = Held" and "l_holder l = Some h" and "h_connected h"
    and "p_kind (h_party h) = Agent" and "is_person (p_kind (r_party r))"
    and "p_priority (h_party h) < p_priority (r_party r)"
    and "p_id (r_party r) \<notin> set (roles l)" and "backoff_over l now"
  shows "\<exists>l' t. acquire l r now = (l', Inr t) \<and> (\<forall>i. fence l' i = ReleaseOnly) \<and>
    l_holder l' = l_holder l \<and> must_release t \<and>
    t_outcome t = PreemptionStarted (plus_millis now (agent_preempt_grace_ms (l_policy l))) (r_party r)"
proof -
  let ?m = "l\<lparr>l_force_release_until := None\<rparr>"
  have "acquire l r now = contest ?m r now (l_phase l)"
    using assms by (intro acquire_contest) simp_all
  moreover have "may_preempt ?m h (r_party r) now" using assms by (simp add: may_preempt_def)
  ultimately show ?thesis
    using contest_preempts [of ?m h r now "l_phase l"] assms
    by (simp add: Let_def fence_other dispatcher_def must_release_def)
qed

theorem person_preempts_agent_witness:
  "\<exists>l' t. acquire sample_held (request_new sample_person) 1000 = (l', Inr t) \<and>
    (\<forall>i. fence l' i = ReleaseOnly) \<and> must_release t"
  using person_preempts_agent [of sample_held _ "request_new sample_person" 1000]
  by (auto simp: sample_eval role_defs backoff_over_def)

text \<open>
  C4. A preemption always ends: if a tick comes at or after its deadline, then at some point
  up to that tick the requester has been chosen, and one confirmation of the release lets it
  dispatch. No sequence of other calls, by the holder or by anybody else, prevents it, except
  the requester's own withdrawal and the panic chord.
\<close>

theorem preemption_served:
  assumes "lease_wf l" and "l_phase l = PreemptPending" and "l_pending l = Some p"
    and "\<forall>x\<in>set ops. fst x \<noteq> OpCancelWait (pd_id p) \<and> fst x \<noteq> OpForceRelease"
    and "reached now (pd_deadline p)"
  shows "\<exists>k\<le>Suc (length ops). \<forall>t. let m = fst (lease_run l (take k (ops @ [(OpTick, now)])))
     in fence (fst (confirm_release m t)) (pd_id p) = Allowed"
proof -
  have ok: "\<forall>t. fence (fst (confirm_release m t)) (pd_id p) = Allowed" if "succeeded m p" for m
    using that by (auto simp: succeeded_def confirm_release_def fence_def holder_is_def Let_def
        split: option.splits)
  have "awaiting l p" using assms(2,3) by (simp add: awaiting_def)
  then consider "awaiting (fst (lease_run l ops)) p"
    | k where "k \<le> length ops" "succeeded (fst (lease_run l (take k ops))) p"
    using awaiting_run [OF assms(1) _ assms(4)] by blast
  then show ?thesis
  proof cases
    case 1
    have "succeeded (fst (lease_run l (ops @ [(OpTick, now)]))) p"
      using tick_deadline [OF 1 assms(5)]
      by (simp add: lease_run_def run_steps_append Let_def case_prod_beta)
    then show ?thesis using ok by (intro exI [of _ "Suc (length ops)"]) simp
  next
    case 2
    then show ?thesis using ok by (intro exI [of _ k]) simp
  qed
qed

theorem preemption_served_witness:
  "\<exists>k\<le>2. \<forall>t. let m = fst (lease_run sample_contested
       (take k [(OpAcquire (request_new sample_agent), 2000), (OpTick, 3000)]))
     in fence (fst (confirm_release m t)) ''window-1'' = Allowed"
  using preemption_served [OF sample_wf(2), of _ "[(OpAcquire (request_new sample_agent), 2000)]" 3000]
  by (simp add: sample_contested_eval sample_person_def party_new_def reached_def numeral_2_eq_2)

subsection \<open>No stealing\<close>

text \<open>
  C5. A request never takes a lease from a holder of equal or higher priority, and never from
  any holder inside its minimum hold, unless the requester is a person and the holder an
  agent: the holder, its lease id and the phase are the same after the call. (Two panes of
  the same rank cannot trade the wheel on every click.)
\<close>

theorem no_steal:
  assumes "lease_wf l" and "l_holder l = Some h"
    and "p_priority (r_party r) \<le> p_priority (h_party h) \<or>
         (\<not> (is_person (p_kind (r_party r)) \<and> p_kind (h_party h) = Agent) \<and>
          since now (h_granted_at h) < min_hold_ms (l_policy l))"
  shows "tenure (fst (acquire l r now)) = tenure l \<and> l_phase (fst (acquire l r now)) = l_phase l"
  using assms by (rule acquire_no_steal)

theorem no_steal_witness:
  "tenure (fst (acquire sample_held (request_new (party_new ''grant-2'' Agent ''other'')) 500000)) =
   tenure sample_held"
  using no_steal [OF sample_wf(1), of _ "request_new (party_new ''grant-2'' Agent ''other'')" 500000]
  by (simp add: sample_held_eval sample_agent_def request_new_def party_new_def)

subsection \<open>The panic chord\<close>

text \<open>
  C6. After a force release at \<open>t0\<close>, no sequence of calls made from \<open>t0\<close> on and before the
  backoff ends, of whatever kind and by whomever, lets anybody hold or dispatch: the limb
  stays unheld with an empty queue and every request is refused with a positive time to wait.
\<close>

theorem panic_chord:
  assumes "u = plus_millis t0 (force_release_backoff_ms (l_policy l))"
    and "\<forall>x\<in>set ops. t0 \<le> snd x \<and> snd x < u" and "t0 \<le> now \<and> now < u"
    and m_def: "m = fst (lease_run (fst (force_release l t0)) ops)"
  shows "l_phase m = Unheld \<and> l_queue m = [] \<and> fence m i = ReleaseOnly \<and>
    (\<exists>d. acquire m r now = (m, Inl (ForceReleased d)) \<and> 0 < d)"
proof (intro conjI)
  have p: "l_policy (fst (force_release l t0)) = l_policy l"
    by (simp add: force_release_def take_holder_def Let_def split: option.split)
  then have s: "silenced m u"
    unfolding m_def using force_release_silences [of l t0] assms(1,2) by (intro silenced_run) simp_all
  show "l_phase m = Unheld" using s by (simp add: silenced_def)
  show "l_queue m = []" using silenced_empty [OF s] by simp
  show "fence m i = ReleaseOnly" using s by (simp add: silenced_def fence_def)
  show "\<exists>d. acquire m r now = (m, Inl (ForceReleased d)) \<and> 0 < d"
    using silenced_refuses [OF s] assms(3) by simp
qed

theorem panic_chord_witness:
  "\<exists>d. acquire (fst (lease_run (fst (force_release sample_held 100)) [(OpTick, 20000)]))
      (request_new sample_agent) 20050 =
     (fst (lease_run (fst (force_release sample_held 100)) [(OpTick, 20000)]), Inl (ForceReleased d)) \<and> 0 < d"
  using panic_chord [of 20100 100 sample_held "[(OpTick, 20000)]" 20050 _ "''pane-1''" "request_new sample_agent"]
  by (simp add: sample_held_eval exclusive_def default_policy_def plus_millis_def sat_add_def)

subsection \<open>Lease ids\<close>

text \<open>
  Lease ids are minted afresh: over any run of at most \<open>2 ^ 64\<close> calls the granted ids are
  the counter's consecutive values, all different, and if anybody holds at the end it holds
  under the last id granted. So a release that quotes an earlier grant of the run changes
  nothing, whoever sends it.
\<close>

theorem lease_ids_fresh:
  assumes "lease_run l ops = (l', ts)" and "length ops \<le> 2 ^ 64"
  shows "distinct (minted_all ts) \<and>
    (\<forall>lid\<in>set (butlast (minted_all ts)).
       release l' i lid now = (l', draft l' now (l_phase l') Unchanged NotRequired))"
proof (intro conjI ballI)
  from run_ids [OF assms(1)]
  have ids: "ids_from l l' (minted_all ts)" and len: "length (minted_all ts) \<le> 2 ^ 64"
    using assms(2) by simp_all
  show d: "distinct (minted_all ts)"
    using ids len by (intro ids_distinct [of _ "l_next_lease_id l"]) (simp_all add: ids_from_def)
  fix lid assume lid: "lid \<in> set (butlast (minted_all ts))"
  then have ne: "minted_all ts \<noteq> []" by auto
  then have "minted_all ts = butlast (minted_all ts) @ [last (minted_all ts)]" by simp
  with d lid have "lid \<noteq> last (minted_all ts)"
    by (metis distinct_append disjoint_insert(1) list.set(2))
  then have "l_holder l' = Some h \<Longrightarrow> h_lease_id h \<noteq> lid" for h
    using ids ne by (auto simp: ids_from_def)
  then show "release l' i lid now = (l', draft l' now (l_phase l') Unchanged NotRequired)"
    by (auto simp: release_def Let_def split: option.split)
qed

theorem lease_ids_fresh_witness:
  "distinct (minted_all (snd (lease_run (exclusive ''desk'')
     [(OpAcquire (request_new sample_agent), 0), (OpForceRelease, 5)])))"
  using lease_ids_fresh [OF prod.collapse [symmetric]] by simp

subsection \<open>The reported deadline is the real one\<close>

text \<open>
  What the status report says about the future is what happens: if it reports that the
  lease changes hands by itself in \<open>d > 0\<close> milliseconds and no waiter runs out of its queue
  time first, then a tick at time \<open>t\<close> takes the lease from its holder exactly when \<open>d\<close>
  milliseconds have passed. It is never taken earlier, and never later than the first tick
  from then on. (The clock must be below its top value, and the limits positive.)
\<close>

theorem status_deadline_exact:
  assumes "lease_wf l" and "limits_positive (l_policy l)" and "t < - 1"
    and "s_changes_in_ms (status l now) = Some d" and "0 < d"
    and "\<forall>w\<in>set (l_queue l). \<not> waiter_expired (l_policy l) t w"
  shows "t_departed (snd (tick l t)) \<noteq> None \<longleftrightarrow> unat now + unat d \<le> unat t"
proof -
  obtain at where at: "changes_at l = Some at" "d = since at now"
    using assms(4) by (auto simp: status_def)
  have "unat at = unat now + unat d"
    using at(2) assms(5) by (simp add: clock_simps word_less_nat_alt)
  then show ?thesis
    using tick_departs [OF assms(1-3) at(1) assms(6)] by (simp add: reached_nat)
qed

theorem status_deadline_exact_witness:
  "t_departed (snd (tick sample_held 29999)) = None \<and> t_departed (snd (tick sample_held 30000)) \<noteq> None"
proof -
  have d: "s_changes_in_ms (status sample_held 10000) = Some 20000"
    by (simp add: sample_eval status_def changes_at_def)
  have p: "limits_positive (l_policy sample_held)" by (simp add: sample_eval limits_positive_def)
  have q: "\<forall>w\<in>set (l_queue sample_held). \<not> waiter_expired (l_policy sample_held) t w" for t
    by (simp add: sample_eval)
  show ?thesis
    using status_deadline_exact [OF sample_wf(1) p _ d _ q, of 29999]
      status_deadline_exact [OF sample_wf(1) p _ d _ q, of 30000] by simp
qed

subsection \<open>The order of the queue\<close>

lemma queued_ask_contest:
  assumes "acquire l r now = (l', Inr t)" and "t_outcome t = Queued k"
    and "p_id (r_party r) \<notin> set (queue_ids l)"
  shows "\<exists>m f e. l_queue m = l_queue l \<and> queue_or_refuse m r now f e = (l', Inr t)"
proof -
  have "queue_position m (p_id (r_party r)) = None" if "l_queue m = l_queue l" for m
    using assms(3) that by (fastforce simp: queue_position_def queue_ids_def image_iff)
  moreover have "?thesis" if "queue_or_refuse m r now f e = (l', Inr t)" and "l_queue m = l_queue l" for m f e
    using that by blast
  ultimately show ?thesis
    using assms(1,2)
    by (auto simp: acquire_def acquire_open_def acquire_pending_def acquire_queued_def contest_def
        grant_def take_over_def take_holder_def draft_def Let_def split: option.splits if_splits prod.splits)
qed

lemma queued_ask_place:
  assumes "queue_ordered l" and "acquire l r now = (l', Inr t) \<and> t_outcome t = Queued k \<and>
    p_id (r_party r) \<notin> set (queue_ids l)"
  shows "\<exists>w. w_party w = r_party r \<and> l_queue l' =
    filter (\<lambda>x. p_priority (r_party r) \<le> priority_of x) (l_queue l) @
    w # filter (\<lambda>x. priority_of x < p_priority (r_party r)) (l_queue l)"
proof -
  obtain m f e where m: "l_queue m = l_queue l" and q: "queue_or_refuse m r now f e = (l', Inr t)"
    using queued_ask_contest assms(2) by blast
  have "queue_ordered m" using assms(1) m by (simp add: queue_ordered_def)
  from queue_or_refuse_queue [OF this q] show ?thesis unfolding m by blast
qed

text \<open>
  The queue is served by priority and first come first served within a priority: as long
  as nobody is promoted by hand, the waiters of a lease stand in descending priority after
  every run, and a request that is queued goes behind everyone of at least its own priority
  and before everyone below it, with the others' order unchanged.
\<close>

theorem queue_priority_fifo:
  assumes "lease_new limb c = Inr l0" and "\<forall>x\<in>set ops. \<forall>i. fst x \<noteq> OpPromote i"
    and "l = fst (lease_run l0 ops)"
  shows "sorted_wrt (\<ge>) (map (\<lambda>w. p_priority (w_party w)) (l_queue l)) \<and>
    (\<forall>r now l' t k. acquire l r now = (l', Inr t) \<and> t_outcome t = Queued k \<and>
        p_id (r_party r) \<notin> set (queue_ids l) \<longrightarrow>
      (\<exists>w. w_party w = r_party r \<and> l_queue l' =
        filter (\<lambda>x. p_priority (r_party r) \<le> p_priority (w_party x)) (l_queue l) @
        w # filter (\<lambda>x. p_priority (w_party x) < p_priority (r_party r)) (l_queue l)))"
proof (intro conjI allI impI)
  have "queue_ordered l0" using assms(1) by (auto simp: lease_new_def queue_ordered_def split: if_splits)
  then have o: "queue_ordered l" using run_ordered assms(2,3) by simp
  then show "sorted_wrt (\<ge>) (map (\<lambda>w. p_priority (w_party w)) (l_queue l))"
    by (simp add: queue_ordered_def priority_of_def [abs_def])
  fix r now l' t k
  assume a: "acquire l r now = (l', Inr t) \<and> t_outcome t = Queued k \<and> p_id (r_party r) \<notin> set (queue_ids l)"
  then show "\<exists>w. w_party w = r_party r \<and> l_queue l' =
      filter (\<lambda>x. p_priority (r_party r) \<le> p_priority (w_party x)) (l_queue l) @
      w # filter (\<lambda>x. p_priority (w_party x) < p_priority (r_party r)) (l_queue l)"
    using queued_ask_place [OF o] unfolding priority_of_def by blast
qed

theorem queue_priority_fifo_witness:
  "sorted_wrt (\<ge>) (map (\<lambda>w. p_priority (w_party w)) (l_queue (fst (lease_run (exclusive ''desk'')
     [(OpAcquire (request_new sample_person), 0), (OpAcquire (request_new sample_agent), 1)]))))"
proof -
  have "lease_new ''desk'' sample_config = Inr (exclusive ''desk'')"
    by (simp add: lease_new_def sample_config_def exclusive_def)
  from queue_priority_fifo [OF this, of "[(OpAcquire (request_new sample_person), 0),
      (OpAcquire (request_new sample_agent), 1)]"]
  show ?thesis by simp
qed

subsection \<open>A transport that drops during a handover\<close>

text \<open>
  C7. What the code does when the transport of a chosen holder drops before its handover is
  confirmed: the call that reports the drop leaves the phase at \<open>HandingOver\<close>, the
  confirmation then makes the disconnected party the dispatching one, and from there the
  disconnect grace is never applied, because \<open>tick\<close> looks at it only in \<open>HeldGrace\<close>: a tick
  after the end of the grace keeps the holder as long as the idle and expiry limits allow.
  (The comment on \<open>set_connected\<close> says that such a holder does not keep dispatch.)
\<close>

theorem disconnect_in_handover_dispatches:
  assumes "l_phase l = HandingOver" and "l_holder l = Some h" and "h_connected h"
    and "l' = fst (confirm_release (fst (set_connected l (p_id (h_party h)) False t1)) t2)"
  shows "fence l' (p_id (h_party h)) = Allowed \<and>
    (\<exists>h'. l_holder l' = Some h' \<and> \<not> h_connected h' \<and>
       h_grace_until h' = Some (plus_millis t1 (disconnect_grace_ms (l_policy l))) \<and>
       (held_cause (sweep l' t3) h' t3 = None \<longrightarrow> fence (fst (tick l' t3)) (p_id (h_party h)) = Allowed))"
  using assms by (auto simp: set_connected_def confirm_release_def fence_def holder_is_def Let_def
      tick_def tick_holder_def split: option.splits)

theorem disconnect_in_handover_dispatches_witness:
  "fence (fst (tick (fst (confirm_release (fst (set_connected
      (fst (acquire (exclusive ''desk'') (request_new sample_agent) 0)) ''grant-1'' False 1)) 2)) 20000))
     ''grant-1'' = Allowed"
proof -
  let ?l = "fst (acquire (exclusive ''desk'') (request_new sample_agent) 0)"
  let ?h = "\<lparr>h_lease_id = 1, h_party = sample_agent, h_granted_at = 0, h_last_intent_at = 0,
       h_last_renew_at = 0, h_connected = True, h_grace_until = None\<rparr>"
  have l: "l_phase ?l = HandingOver" "l_holder ?l = Some ?h" by (simp_all add: lease_eval)
  have i: "p_id (h_party ?h) = ''grant-1''" by (simp add: sample_agent_def party_new_def)
  show ?thesis
    using disconnect_in_handover_dispatches [OF l _ refl, of 1 2 20000]
    unfolding i by (auto simp: sample_eval)
qed

end
