(* ===== verification/Board.thy ===== *)
theory Board
  imports Ordered_Map Lease_Arbitration
begin

text \<open>
  The board of leases (\<open>crates/agent-lease/src/board.rs\<close>): one lease per session, ticked and
  handed over in one step, with the person's mute and "not now" answers. Every method takes
  the board and returns the new one with its answer; \<open>lease_at\<close> and \<open>put_lease\<close> are the
  two halves of \<open>Board::lease\<close>, which inserts a fresh lease for a session without one.
\<close>

subsection \<open>State and answers\<close>

record answer =
  a_transitions :: "lease_transition list"
  a_status :: lease_status
  a_refusal :: "lease_error option"

definition answer_changed :: "answer \<Rightarrow> bool" where
  "answer_changed a \<longleftrightarrow> (\<exists>t\<in>set (a_transitions a). transition_changed t)"

definition not_now_ms :: millis where
  "not_now_ms = 60000"

datatype mute_until = MuteAt lease_instant | MutePersonIdle

record request =
  q_key :: string
  q_party :: party_id
  q_label :: string
  q_reason :: "string option"
  q_waiting_ms :: millis
  q_frees_in_ms :: "millis option"

record board =
  b_policy :: lease_policy
  b_leases :: "(string, lease) btree"
  b_mute :: "mute_until option"
  b_declined :: "(string \<times> party_id, lease_instant) btree"

definition board_new :: "lease_policy \<Rightarrow> board" where
  "board_new pol = \<lparr>b_policy = pol, b_leases = [], b_mute = None, b_declined = []\<rparr>"

definition lease_at :: "board \<Rightarrow> string \<Rightarrow> lease" where
  "lease_at b key =
     (case bt_get (b_leases b) key of
        Some l \<Rightarrow> l
      | None \<Rightarrow>
          (case lease_new key \<lparr>cfg_mode = Exclusive, cfg_policy = b_policy b\<rparr> of
             Inr l \<Rightarrow> l | Inl _ \<Rightarrow> exclusive key))"

definition put_lease :: "board \<Rightarrow> string \<Rightarrow> lease \<Rightarrow> board" where
  "put_lease b key l = b\<lparr>b_leases := bt_insert key l (b_leases b)\<rparr>"

definition board_contains :: "board \<Rightarrow> string \<Rightarrow> bool" where
  "board_contains b key \<longleftrightarrow> bt_get (b_leases b) key \<noteq> None"

definition board_remove :: "board \<Rightarrow> string \<Rightarrow> board" where
  "board_remove b key = b\<lparr>b_leases := bt_remove key (b_leases b)\<rparr>"

definition peek :: "board \<Rightarrow> string \<Rightarrow> lease_instant \<Rightarrow> lease_status option" where
  "peek b key now = map_option (\<lambda>l. status l now) (bt_get (b_leases b) key)"

subsection \<open>Ticking and confirming inside a call\<close>

definition confirm_into ::
  "lease \<Rightarrow> lease_instant \<Rightarrow> lease_transition list \<Rightarrow> lease \<times> lease_transition list" where
  "confirm_into l now out =
     (if l_phase l = HandingOver
      then (let (l', t) = confirm_release l now in (l', out @ [t]))
      else (l, out))"

definition tick_into ::
  "lease \<Rightarrow> lease_instant \<Rightarrow> lease_transition list \<Rightarrow> lease \<times> lease_transition list" where
  "tick_into l now out =
     (let (l1, ticked) = tick l now;
          out1 = (if transition_changed ticked \<or> must_release ticked then out @ [ticked] else out)
      in confirm_into l1 now out1)"

definition held_error :: "lease \<Rightarrow> lease_error" where
  "held_error l =
     (case l_holder l of
        Some h \<Rightarrow> HeldBy (p_kind (h_party h)) (p_label (h_party h))
      | None \<Rightarrow> ForceReleased (case s_refused_for_ms (status l 0) of Some d \<Rightarrow> d | None \<Rightarrow> 0))"

subsection \<open>The mute and the "not now"\<close>

definition person_holds :: "board \<Rightarrow> string \<Rightarrow> lease_instant \<Rightarrow> bool" where
  "person_holds b key now =
     (case peek b key now of None \<Rightarrow> False | Some s \<Rightarrow> status_person_holds s)"

definition person_holds_any :: "board \<Rightarrow> lease_instant \<Rightarrow> bool" where
  "person_holds_any b now \<longleftrightarrow>
     (\<exists>e\<in>set (b_leases b). status_person_holds (status (snd e) now))"

definition muted :: "board \<Rightarrow> lease_instant \<Rightarrow> mute_until option" where
  "muted b now =
     (case b_mute b of
        None \<Rightarrow> None
      | Some (MuteAt u) \<Rightarrow> if reached now u then None else Some (MuteAt u)
      | Some MutePersonIdle \<Rightarrow> if person_holds_any b now then Some MutePersonIdle else None)"

definition mute_left :: "board \<Rightarrow> string \<Rightarrow> lease_instant \<Rightarrow> millis option" where
  "mute_left b key now =
     (case muted b now of
        None \<Rightarrow> None
      | Some (MuteAt u) \<Rightarrow> Some (since u now)
      | Some MutePersonIdle \<Rightarrow>
          Some (case Option.bind (peek b key now) s_changes_in_ms of
                  Some d \<Rightarrow> d | None \<Rightarrow> person_idle_ms (b_policy b)))"

definition not_now_left :: "board \<Rightarrow> string \<Rightarrow> party_id \<Rightarrow> lease_instant \<Rightarrow> millis option" where
  "not_now_left b key i now =
     (case bt_get (b_declined b) (key, i) of
        None \<Rightarrow> None
      | Some u \<Rightarrow> if reached now u then None else Some (since u now))"

text \<open>
  The rows the person is shown: per session a person uses, its waiting agents, then sorted by
  waiting time, longest first, and by key. The sort is stable, as \<open>sort_by\<close> is; the longest
  wait first is the smallest complement \<open>- 1 - waiting_ms\<close> of a 64 bit word.
\<close>

definition requests_of :: "lease_instant \<Rightarrow> string \<times> lease \<Rightarrow> request list" where
  "requests_of now e =
     (let s = status (snd e) now in
      if status_person_holds s then
        map (\<lambda>w. \<lparr>q_key = fst e, q_party = ws_id w, q_label = ws_label w, q_reason = ws_reason w,
                  q_waiting_ms = ws_waiting_ms w, q_frees_in_ms = s_changes_in_ms s\<rparr>)
            (filter (\<lambda>w. \<not> is_person (ws_kind w)) (s_queue s))
      else [])"

definition requests :: "board \<Rightarrow> lease_instant \<Rightarrow> request list" where
  "requests b now =
     sort_key (\<lambda>q. (- 1 - q_waiting_ms q, q_key q)) (concat (map (requests_of now) (b_leases b)))"

definition not_now :: "board \<Rightarrow> string \<Rightarrow> party_id \<Rightarrow> lease_instant \<Rightarrow> board \<times> answer" where
  "not_now b key i now =
     (let b1 = b\<lparr>b_declined := bt_insert (key, i) (plus_millis now not_now_ms) (b_declined b)\<rparr>;
          (l1, ts) = tick_into (lease_at b1 key) now [];
          (l2, t) = cancel_wait l1 i now
      in (put_lease b1 key l2,
          \<lparr>a_transitions = ts @ [t], a_status = status l2 now,
           a_refusal = Some (NotNow not_now_ms)\<rparr>))"

fun not_now_each ::
  "board \<Rightarrow> lease_instant \<Rightarrow> (string \<times> party_id) list \<Rightarrow> board \<times> (string \<times> answer) list" where
  "not_now_each b now [] = (b, [])"
| "not_now_each b now ((key, i) # rest) =
     (let (b1, a) = not_now b key i now; (b2, out) = not_now_each b1 now rest
      in (b2, (key, a) # out))"

definition not_now_all :: "board \<Rightarrow> lease_instant \<Rightarrow> board \<times> (string \<times> answer) list" where
  "not_now_all b now = not_now_each b now (map (\<lambda>q. (q_key q, q_party q)) (requests b now))"

fun drop_each ::
  "board \<Rightarrow> lease_instant \<Rightarrow> (string \<times> party_id) list \<Rightarrow> board \<times> (string \<times> answer) list" where
  "drop_each b now [] = (b, [])"
| "drop_each b now ((key, i) # rest) =
     (let (l1, t) = cancel_wait (lease_at b key) i now;
          (b2, out) = drop_each (put_lease b key l1) now rest
      in (b2, (key, \<lparr>a_transitions = [t], a_status = status l1 now, a_refusal = None\<rparr>) # out))"

definition drop_requests :: "board \<Rightarrow> lease_instant \<Rightarrow> board \<times> (string \<times> answer) list" where
  "drop_requests b now = drop_each b now (map (\<lambda>q. (q_key q, q_party q)) (requests b now))"

definition mute :: "board \<Rightarrow> mute_until \<Rightarrow> lease_instant \<Rightarrow> board \<times> (string \<times> answer) list" where
  "mute b until now = drop_requests (b\<lparr>b_mute := Some until\<rparr>) now"

definition unmute :: "board \<Rightarrow> board" where
  "unmute b = b\<lparr>b_mute := None\<rparr>"


subsection \<open>Asking, releasing, giving way\<close>

definition keys :: "board \<Rightarrow> string list" where
  "keys b = bt_keys (b_leases b)"

definition board_status :: "board \<Rightarrow> string \<Rightarrow> lease_instant \<Rightarrow> board \<times> answer" where
  "board_status b key now =
     (let (l, ts) = tick_into (lease_at b key) now []
      in (put_lease b key l, \<lparr>a_transitions = ts, a_status = status l now, a_refusal = None\<rparr>))"

definition yield_to ::
  "board \<Rightarrow> string \<Rightarrow> party_id \<Rightarrow> party_id \<Rightarrow> lease_instant \<Rightarrow> board \<times> answer" where
  "yield_to b key i person now =
     (let (l1, ts1) = tick_into (lease_at b key) now [];
          (l2, promoted) = promote l1 i
      in if \<not> promoted then
           (put_lease b key l2,
            \<lparr>a_transitions = ts1, a_status = status l2 now,
             a_refusal = Some (HeldBy Human ''nobody is waiting under that name'')\<rparr>)
         else
           let (l3, t) = cancel_wait l2 person now;
               ts2 = ts1 @ [t];
               (l4, ts3) =
                 (case l_holder l3 of
                    Some h \<Rightarrow>
                      if p_id (h_party h) = person
                      then (let (l', t') = release l3 person (h_lease_id h) now in (l', ts2 @ [t']))
                      else (l3, ts2)
                  | None \<Rightarrow> (l3, ts2));
               (l5, ts4) = confirm_into l4 now ts3
           in (put_lease b key l5,
               \<lparr>a_transitions = ts4, a_status = status l5 now, a_refusal = None\<rparr>))"

text \<open>What answers for the person while a request would only disturb them: the mute, then "not now".\<close>

definition gate :: "board \<Rightarrow> string \<Rightarrow> party \<Rightarrow> lease_instant \<Rightarrow> lease_error option" where
  "gate b key p now =
     (if \<not> is_person (p_kind p) \<and> person_holds b key now then
        (case mute_left b key now of
           Some d \<Rightarrow> Some (Muted d)
         | None \<Rightarrow> map_option NotNow (not_now_left b key (p_id p) now))
      else None)"

definition ask ::
  "board \<Rightarrow> string \<Rightarrow> party \<Rightarrow> string option \<Rightarrow> lease_instant \<Rightarrow> board \<times> answer" where
  "ask b key p reason now =
     (let (l1, ts1) = tick_into (lease_at b key) now [];
          b1 = put_lease b key l1
      in case gate b1 key p now of
           Some refusal \<Rightarrow>
             (let (l2, t) = cancel_wait l1 (p_id p) now
              in (put_lease b1 key l2,
                  \<lparr>a_transitions = ts1 @ [t], a_status = status l2 now, a_refusal = Some refusal\<rparr>))
         | None \<Rightarrow>
             (case acquire l1 ((request_new p)\<lparr>r_reason := reason\<rparr>) now of
                (l2, Inr t) \<Rightarrow>
                  (let (l3, ts2) = confirm_into l2 now (ts1 @ [t])
                   in (put_lease b1 key l3,
                       \<lparr>a_transitions = ts2, a_status = status l3 now, a_refusal = None\<rparr>))
              | (l2, Inl e) \<Rightarrow>
                  (put_lease b1 key l2,
                   \<lparr>a_transitions = ts1, a_status = status l2 now, a_refusal = Some e\<rparr>)))"

definition board_release :: "board \<Rightarrow> string \<Rightarrow> party_id \<Rightarrow> lease_instant \<Rightarrow> board \<times> answer" where
  "board_release b key i now =
     (let (l1, ts1) = tick_into (lease_at b key) now [];
          (l2, ts2) =
            (case l_holder l1 of
               Some h \<Rightarrow>
                 if p_id (h_party h) = i
                 then (let (l', t') = release l1 i (h_lease_id h) now in (l', ts1 @ [t']))
                 else (l1, ts1)
             | None \<Rightarrow> (l1, ts1));
          (l3, t) = cancel_wait l2 i now;
          (l4, ts3) = confirm_into l3 now (ts2 @ [t])
      in (put_lease b key l4,
          \<lparr>a_transitions = ts3, a_status = status l4 now, a_refusal = None\<rparr>))"

subsection \<open>Input\<close>

text \<open>The second half of \<open>input\<close>: the fence decides, and allowed input moves the idle clock.\<close>

definition input_fenced ::
  "board \<Rightarrow> string \<Rightarrow> party \<Rightarrow> lease_instant \<Rightarrow> lease \<Rightarrow> lease_transition list \<Rightarrow> board \<times> answer" where
  "input_fenced b key p now l ts =
     (let (l', refusal) =
            (if fence l (p_id p) = Allowed then (note_intent l (p_id p) now, None)
             else (l, Some (held_error l)))
      in (put_lease b key l',
          \<lparr>a_transitions = ts, a_status = status l' now, a_refusal = refusal\<rparr>))"

definition board_input :: "board \<Rightarrow> string \<Rightarrow> party \<Rightarrow> lease_instant \<Rightarrow> board \<times> answer" where
  "board_input b key p now =
     (let (l1, ts1) = tick_into (lease_at b key) now []
      in if l_phase l1 = Unheld then
           (case acquire l1 (no_queue (request_new p)) now of
              (l2, Inr t) \<Rightarrow>
                (let (l3, ts2) = confirm_into l2 now (ts1 @ [t])
                 in input_fenced b key p now l3 ts2)
            | (l2, Inl e) \<Rightarrow>
                (put_lease b key l2,
                 \<lparr>a_transitions = ts1, a_status = status l2 now, a_refusal = Some e\<rparr>))
         else input_fenced b key p now l1 ts1)"

definition person_input :: "board \<Rightarrow> string \<Rightarrow> party \<Rightarrow> lease_instant \<Rightarrow> board \<times> answer" where
  "person_input b key p now =
     (let (l1, ts1) = tick_into (lease_at b key) now [];
          (l2, ts2) =
            (case acquire l1 (no_queue (request_new p)) now of
               (l', Inr t) \<Rightarrow> confirm_into l' now (ts1 @ [t])
             | (l', Inl e) \<Rightarrow> (l', ts1));
          l3 = note_intent l2 (p_id p) now
      in (put_lease b key l3,
          \<lparr>a_transitions = ts2, a_status = status l3 now, a_refusal = None\<rparr>))"

subsection \<open>A party that went away, and time\<close>

fun release_each ::
  "board \<Rightarrow> party_id \<Rightarrow> lease_instant \<Rightarrow> string list \<Rightarrow> board \<times> (string \<times> answer) list" where
  "release_each b i now [] = (b, [])"
| "release_each b i now (key # rest) =
     (let (b1, a) = board_release b key i now; (b2, out) = release_each b1 i now rest
      in (b2, if answer_changed a then (key, a) # out else out))"

definition forget_party :: "board \<Rightarrow> party_id \<Rightarrow> lease_instant \<Rightarrow> board \<times> (string \<times> answer) list" where
  "forget_party b i now = release_each b i now (keys b)"

definition tick_row :: "lease_instant \<Rightarrow> string \<times> lease \<Rightarrow> (string \<times> answer) list" where
  "tick_row now e =
     (let (l, ts) = tick_into (snd e) now []
      in if (\<exists>t\<in>set ts. transition_changed t)
         then [(fst e, \<lparr>a_transitions = ts, a_status = status l now, a_refusal = None\<rparr>)]
         else [])"

definition tick_all :: "board \<Rightarrow> lease_instant \<Rightarrow> board \<times> (string \<times> answer) list" where
  "tick_all b now =
     (let b1 = b\<lparr>b_declined := bt_retain (\<lambda>k until. \<not> reached now until) (b_declined b),
                b_leases := map (\<lambda>(key, l). (key, fst (tick_into l now []))) (b_leases b)\<rparr>;
          b2 = (if muted b1 now = None then b1\<lparr>b_mute := None\<rparr> else b1)
      in (b2, concat (map (tick_row now) (b_leases b))))"

subsection \<open>Every method as one step\<close>

datatype board_op =
    BdStatus string
  | BdAsk string party "string option"
  | BdRelease string party_id
  | BdInput string party
  | BdPersonInput string party
  | BdYield string party_id party_id
  | BdNotNow string party_id
  | BdNotNowAll
  | BdMute mute_until
  | BdUnmute
  | BdForget party_id
  | BdTickAll

definition one :: "string \<Rightarrow> board \<times> answer \<Rightarrow> board \<times> (string \<times> answer) list" where
  "one key r = (fst r, [(key, snd r)])"

fun board_step :: "board \<Rightarrow> board_op \<Rightarrow> lease_instant \<Rightarrow> board \<times> (string \<times> answer) list" where
  "board_step b (BdStatus key) now = one key (board_status b key now)"
| "board_step b (BdAsk key p reason) now = one key (ask b key p reason now)"
| "board_step b (BdRelease key i) now = one key (board_release b key i now)"
| "board_step b (BdInput key p) now = one key (board_input b key p now)"
| "board_step b (BdPersonInput key p) now = one key (person_input b key p now)"
| "board_step b (BdYield key i person) now = one key (yield_to b key i person now)"
| "board_step b (BdNotNow key i) now = one key (not_now b key i now)"
| "board_step b BdNotNowAll now = not_now_all b now"
| "board_step b (BdMute until) now = mute b until now"
| "board_step b BdUnmute now = (unmute b, [])"
| "board_step b (BdForget i) now = forget_party b i now"
| "board_step b BdTickAll now = tick_all b now"

text \<open>The transitions of one session among the answers of a call.\<close>

definition reports_of :: "string \<Rightarrow> (string \<times> answer) list \<Rightarrow> lease_transition list" where
  "reports_of key out = concat (map (\<lambda>(k, a). if k = key then a_transitions a else []) out)"

end
