(* ===== verification/Board_Invariant.thy ===== *)
theory Board_Invariant
  imports Board
begin

text \<open>
  What the board keeps of its sessions (\<open>crates/agent-lease/src/board.rs\<close>). The board
  confirms a handover in the call that starts it and never reports a transport as down, so
  between calls no lease is handing over or in its disconnect grace; each lease runs on the
  board's timers under the name of its session. Each call moves the dispatcher of a session
  only with a report that obliges the caller to release held input.
\<close>

subsection \<open>What a method of the lease leaves alone\<close>

definition connected :: "lease \<Rightarrow> bool" where
  "connected l \<longleftrightarrow> (case l_holder l of None \<Rightarrow> True | Some h \<Rightarrow> h_connected h)"

definition framed :: "lease \<Rightarrow> lease \<Rightarrow> bool" where
  "framed l l' \<longleftrightarrow> l_policy l' = l_policy l \<and> l_limb l' = l_limb l \<and> l_mode l' = l_mode l \<and>
     (connected l \<longrightarrow> connected l') \<and> (lease_wf l \<longrightarrow> lease_wf l')"

lemma framed_refl [simp]: "framed l l"
  by (simp add: framed_def)

lemma framed_trans: "framed l l1 \<Longrightarrow> framed l1 l2 \<Longrightarrow> framed l l2"
  by (simp add: framed_def)

named_theorems frames \<open>methods that leave policy, name and connection alone\<close>

lemma grant_frame: "l_policy (fst (grant l p now f)) = l_policy l \<and> l_limb (fst (grant l p now f)) = l_limb l \<and>
    l_mode (fst (grant l p now f)) = l_mode l \<and> connected (fst (grant l p now f))"
  by (simp add: grant_def Let_def connected_def)

lemma settle_frame: "l_holder l = None \<Longrightarrow>
    l_policy (fst (settle l now f d)) = l_policy l \<and> l_limb (fst (settle l now f d)) = l_limb l \<and>
    l_mode (fst (settle l now f d)) = l_mode l \<and> connected (fst (settle l now f d))"
  by (auto simp: settle_def grant_def Let_def connected_def split: option.splits list.splits)

lemma take_holder_frame [simp]:
  "l_policy (fst (take_holder l now c)) = l_policy l" "l_limb (fst (take_holder l now c)) = l_limb l"
  "l_mode (fst (take_holder l now c)) = l_mode l" "l_holder (fst (take_holder l now c)) = None"
  by (simp_all add: take_holder_def split: option.split)

lemma take_settle_framed:
  "framed l (fst (settle (fst (take_holder l now c)) now' f d))"
  using settle_frame [of "fst (take_holder l now c)" now' f d]
  by (simp add: framed_def take_settle_wf)

lemma take_over_frame: "l_policy (fst (take_over l p now f)) = l_policy l \<and>
    l_limb (fst (take_over l p now f)) = l_limb l \<and> l_mode (fst (take_over l p now f)) = l_mode l \<and>
    connected (fst (take_over l p now f))"
  using grant_frame [of "fst (take_holder l now Preempted)\<lparr>l_pending := None\<rparr>" p now f]
  by (simp add: take_over_def case_prod_beta)

definition same_frame :: "lease \<Rightarrow> lease \<Rightarrow> bool" where
  "same_frame l l' \<longleftrightarrow> l_policy l' = l_policy l \<and> l_limb l' = l_limb l \<and> l_mode l' = l_mode l \<and>
     (connected l \<longrightarrow> connected l')"

lemma framedI: "same_frame l l' \<Longrightarrow> (lease_wf l \<Longrightarrow> lease_wf l') \<Longrightarrow> framed l l'"
  by (simp add: framed_def same_frame_def)

lemma queue_or_refuse_same: "same_frame l (fst (queue_or_refuse l r now f e))"
  by (simp add: same_frame_def queue_or_refuse_def Let_def connected_def)

lemma contest_same: "same_frame l (fst (contest l r now f))"
  using queue_or_refuse_same [of l r now f] take_over_frame [of l "r_party r" now f]
    grant_frame [of l "r_party r" now f]
  by (simp add: contest_def Let_def case_prod_beta split: option.split)
    (auto simp: same_frame_def connected_def)

lemma acquire_queued_same: "same_frame l (fst (acquire_queued l r now f))"
  using contest_same [of l r now f] grant_frame [of l "r_party r" now f]
  by (simp add: acquire_queued_def Let_def case_prod_beta split: option.split)
    (auto simp: same_frame_def connected_def)

lemma acquire_open_same: "same_frame l (fst (acquire_open l r now f))"
  using acquire_queued_same [of l r now f]
  by (auto simp: acquire_open_def acquire_pending_def Let_def same_frame_def connected_def
      split: option.splits)

lemma acquire_framed [frames]: "framed l (fst (acquire l r now))"
proof (rule framedI [OF _ acquire_wf])
  let ?m = "l\<lparr>l_force_release_until := None\<rparr>"
  have "same_frame l (fst (acquire_open ?m r now (l_phase l)))"
    using acquire_open_same [of ?m r now "l_phase l"] by (simp add: same_frame_def connected_def)
  then show "same_frame l (fst (acquire l r now))"
    using acquire_open_same [of l r now "l_phase l"]
    by (simp add: acquire_def split: option.split) (simp add: same_frame_def)
qed

lemma release_framed [frames]: "framed l (fst (release l i lid now))"
  using take_settle_framed [of l now Released now "l_phase l"]
  by (simp add: release_def Let_def case_prod_beta)

lemma cancel_wait_framed [frames]: "framed l (fst (cancel_wait l i now))"
  by (rule framedI [OF _ cancel_wait_wf])
    (auto simp: same_frame_def cancel_wait_def Let_def connected_def split: option.splits)

lemma confirm_release_framed [frames]: "framed l (fst (confirm_release l now))"
  by (rule framedI [OF _ confirm_release_wf])
    (auto simp: same_frame_def confirm_release_def Let_def connected_def split: option.splits)

lemma promote_framed [frames]: "framed l (fst (promote l i))"
  by (rule framedI [OF _ promote_wf])
    (auto simp: same_frame_def promote_def connected_def split: option.splits)

lemma note_intent_framed [frames]: "framed l (note_intent l i now)"
  by (rule framedI [OF _ note_intent_wf])
    (auto simp: same_frame_def note_intent_def connected_def split: option.splits)

lemma sweep_framed [frames]: "framed l (sweep l now)"
  by (rule framedI [OF _ sweep_wf]) (auto simp: same_frame_def connected_def)

lemma tick_holder_framed: "framed l (fst (tick_holder l now f))"
  by (auto simp: tick_holder_def Let_def case_prod_beta take_settle_framed
      split: lease_phase.split option.split)

lemma tick_framed [frames]: "framed l (fst (tick l now))"
  by (simp add: tick_def case_prod_beta framed_trans [OF sweep_framed tick_holder_framed])

lemma confirm_into_framed [frames]: "framed l (fst (confirm_into l now out))"
  using confirm_release_framed [of l now] by (simp add: confirm_into_def case_prod_beta)

lemma tick_into_framed [frames]: "framed l (fst (tick_into l now out))"
  by (auto simp: tick_into_def Let_def case_prod_beta intro: framed_trans tick_framed confirm_into_framed)

subsection \<open>No call ends in the middle of a handover\<close>

lemma confirm_into_settles: "l_phase (fst (confirm_into l now out)) \<noteq> HandingOver"
  by (auto simp: confirm_into_def confirm_release_def Let_def case_prod_beta split: option.splits)

lemma tick_into_settles: "l_phase (fst (tick_into l now out)) \<noteq> HandingOver"
  by (simp add: tick_into_def Let_def case_prod_beta confirm_into_settles)

lemma cancel_wait_settles:
  "l_phase l \<noteq> HandingOver \<Longrightarrow> l_phase (fst (cancel_wait l i now)) \<noteq> HandingOver"
  by (auto simp: cancel_wait_def Let_def split: option.splits)

lemma note_intent_phase [simp]: "l_phase (note_intent l i now) = l_phase l"
  by (simp add: note_intent_def split: option.split)

lemma promote_phase [simp]: "l_phase (fst (promote l i)) = l_phase l"
  by (simp add: promote_def split: option.split)

lemma acquire_refused_phase: "acquire l r now = (l', Inl e) \<Longrightarrow> l_phase l' = l_phase l"
  using acquire_enters_owing [of l r now] by (simp add: ask_enters_owing_def)

subsection \<open>No call moves the dispatcher without saying so\<close>

text \<open>
  A loud transition is one the board always passes on and that owes a release. \<open>reach l ts l'\<close>
  says that the methods that led from \<open>l\<close> to \<open>l'\<close> with the reports \<open>ts\<close> keep the frame and
  report loudly whenever the dispatcher moves or a handover begins.
\<close>

definition loud :: "lease_transition \<Rightarrow> bool" where
  "loud t \<longleftrightarrow> must_release t \<and> transition_changed t"

definition tracked :: "lease \<Rightarrow> lease_transition list \<Rightarrow> lease \<Rightarrow> bool" where
  "tracked l ts l' \<longleftrightarrow> l_phase l = HandingOver \<or> (\<exists>t\<in>set ts. loud t) \<or>
     (dispatcher l' = dispatcher l \<and> l_phase l' \<noteq> HandingOver)"

definition reach :: "lease \<Rightarrow> lease_transition list \<Rightarrow> lease \<Rightarrow> bool" where
  "reach l ts l' \<longleftrightarrow> framed l l' \<and> tracked l ts l'"

lemma reach_trans: "reach l ts l1 \<Longrightarrow> reach l1 us l2 \<Longrightarrow> reach l (ts @ us) l2"
  by (auto simp: reach_def tracked_def intro: framed_trans)

lemma reach_refl [simp]: "reach l [] l"
  by (auto simp: reach_def tracked_def)

lemma reach_silent: "framed l l' \<Longrightarrow> dispatcher l' = dispatcher l \<Longrightarrow> l_phase l' = l_phase l \<Longrightarrow> reach l [] l'"
  by (auto simp: reach_def tracked_def)

lemma settle_loud: "loud (snd (settle l now f d)\<lparr>t_expired_waiters := e, t_queue_depth := n\<rparr>)"
  "loud (snd (settle l now f d))"
  by (auto simp: loud_def must_release_def transition_changed_def settle_def grant_def Let_def
      split: option.splits list.splits)

lemma grant_loud: "loud (snd (grant l p now f))"
  by (simp add: loud_def must_release_def transition_changed_def grant_def Let_def)

lemma take_over_loud: "loud (snd (take_over l p now f))"
  by (simp add: loud_def must_release_def transition_changed_def take_over_def grant_def Let_def case_prod_beta)

definition ask_tracked :: "lease \<Rightarrow> lease \<times> (lease_error + lease_transition) \<Rightarrow> bool" where
  "ask_tracked l r \<longleftrightarrow> (dispatcher (fst r) = dispatcher l \<and> l_phase (fst r) = l_phase l) \<or>
     (\<exists>t. snd r = Inr t \<and> loud t)"

lemma queue_or_refuse_tracked: "ask_tracked l (queue_or_refuse l r now f e)"
  by (simp add: ask_tracked_def queue_or_refuse_quiet queue_or_refuse_def Let_def dispatcher_def)

lemma contest_tracked: "ask_tracked l (contest l r now f)"
  using queue_or_refuse_tracked [of l r now f]
  by (auto simp: contest_def Let_def case_prod_beta ask_tracked_def grant_loud take_over_loud
      split: option.split)
    (simp_all add: loud_def must_release_def transition_changed_def)

lemma acquire_queued_tracked: "ask_tracked l (acquire_queued l r now f)"
  using contest_tracked [of l r now f]
  by (auto simp: acquire_queued_def Let_def case_prod_beta ask_tracked_def grant_loud dispatcher_def
      split: option.split)

lemma acquire_open_tracked: "ask_tracked l (acquire_open l r now f)"
  using acquire_queued_tracked [of l r now f]
  by (simp add: acquire_open_def acquire_pending_def Let_def split: option.split)
    (simp add: ask_tracked_def dispatcher_def)

lemma acquire_tracked: "ask_tracked l (acquire l r now)"
  using acquire_open_tracked [of l r now "l_phase l"]
    acquire_open_tracked [of "l\<lparr>l_force_release_until := None\<rparr>" r now "l_phase l"]
  by (simp add: acquire_def ask_tracked_def split: option.split)

lemma acquire_reach_ok: "acquire l r now = (l', Inr t) \<Longrightarrow> reach l [t] l'"
  using acquire_tracked [of l r now] acquire_framed [of l r now]
  by (auto simp: reach_def tracked_def ask_tracked_def)

lemma acquire_reach_refused: "acquire l r now = (l', Inl e) \<Longrightarrow> reach l [] l'"
  using acquire_tracked [of l r now] acquire_framed [of l r now]
  by (auto simp: reach_def tracked_def ask_tracked_def)

lemma release_reach: "reach l [snd (release l i lid now)] (fst (release l i lid now))"
  using release_framed [of l i lid now] settle_loud(2)
  by (auto simp: reach_def tracked_def release_def Let_def case_prod_beta)

lemma cancel_wait_reach: "reach l [snd (cancel_wait l i now)] (fst (cancel_wait l i now))"
  using cancel_wait_framed [of l i now]
  by (auto simp: reach_def tracked_def cancel_wait_def Let_def loud_def must_release_def
      transition_changed_def dispatcher_def split: option.split)

lemma confirm_release_reach: "l_phase l = HandingOver \<Longrightarrow>
    reach l [snd (confirm_release l now)] (fst (confirm_release l now))"
  using confirm_release_framed [of l now] by (simp add: reach_def tracked_def)

lemma tick_loud_or_quiet:
  "loud (snd (tick l now)) \<or> (dispatcher (fst (tick l now)) = dispatcher l \<and> l_phase (fst (tick l now)) = l_phase l)"
  by (simp add: tick_def tick_holder_def Let_def case_prod_beta settle_loud
      split: lease_phase.split option.split) (simp add: dispatcher_def)

lemma confirm_into_reach: "\<exists>us. snd (confirm_into l now out) = out @ us \<and> reach l us (fst (confirm_into l now out))"
  using confirm_release_reach [of l now] by (simp add: confirm_into_def case_prod_beta)

lemma confirm_reach:
  "reach l0 out l \<Longrightarrow> reach l0 (snd (confirm_into l now out)) (fst (confirm_into l now out))"
  using confirm_into_reach [of l now out] by (auto intro: reach_trans)

lemma tick_into_reach: "reach l (snd (tick_into l now [])) (fst (tick_into l now []))"
proof -
  let ?t = "snd (tick l now)" and ?l = "fst (tick l now)"
  have "reach l (if transition_changed ?t \<or> must_release ?t then [?t] else []) ?l"
    using tick_loud_or_quiet [of l now] tick_framed [of l now]
    by (auto simp: reach_def tracked_def loud_def)
  from confirm_reach [OF this, of now] show ?thesis
    unfolding tick_into_def Let_def case_prod_beta fst_conv snd_conv append_Nil .
qed

subsection \<open>One call on one session\<close>

text \<open>
  \<open>calls b key ts b'\<close>: the board \<open>b'\<close> is \<open>b\<close> with the lease of \<open>key\<close> moved by methods of the
  lease that reported \<open>ts\<close>, and with no handover left open.
\<close>

definition calls :: "board \<Rightarrow> string \<Rightarrow> lease_transition list \<Rightarrow> board \<Rightarrow> bool" where
  "calls b key ts b' \<longleftrightarrow> (\<exists>l'. b' = put_lease b key l' \<and> reach (lease_at b key) ts l' \<and>
     l_phase l' \<noteq> HandingOver)"

lemma put_lease_twice [simp]: "put_lease (put_lease b key l) key l' = put_lease b key l'"
proof -
  have "bt_insert key l' (bt_insert key l m) = bt_insert key l' m" for m
    by (induction key l m rule: bt_insert.induct) auto
  then show ?thesis by (simp add: put_lease_def)
qed

lemma lease_at_put [simp]:
  "lease_at (put_lease b key l) key' = (if key' = key then l else lease_at b key')"
  by (simp add: lease_at_def put_lease_def bt_get_insert split: option.split)

lemma put_lease_frame [simp]:
  "b_policy (put_lease b key l) = b_policy b" "b_mute (put_lease b key l) = b_mute b"
  "b_declined (put_lease b key l) = b_declined b"
  by (simp_all add: put_lease_def)

lemma callsI: "reach (lease_at b key) ts l' \<Longrightarrow> l_phase l' \<noteq> HandingOver \<Longrightarrow> calls b key ts (put_lease b key l')"
  by (auto simp: calls_def)

lemma callsI_settled:
  "reach (lease_at b key) ts l' \<Longrightarrow> calls b key (snd (confirm_into l' now ts)) (put_lease b key (fst (confirm_into l' now ts)))"
  by (rule callsI) (simp_all add: confirm_reach confirm_into_settles)

lemma ticked_settled: "l_phase (fst (tick_into (lease_at b key) now [])) \<noteq> HandingOver"
  by (rule tick_into_settles)

lemma ticked_cancel_calls:
  assumes "reach (lease_at b key) ts l" and "l_phase l \<noteq> HandingOver"
  shows "calls b key (ts @ [snd (cancel_wait l i now)]) (put_lease b key (fst (cancel_wait l i now)))"
  using assms by (intro callsI reach_trans [OF _ cancel_wait_reach] cancel_wait_settles)

lemma status_calls: "calls b key (a_transitions (snd (board_status b key now))) (fst (board_status b key now))"
  by (simp add: board_status_def Let_def case_prod_beta callsI tick_into_reach tick_into_settles)

lemma input_fenced_calls:
  "reach (lease_at b key) ts l \<Longrightarrow> l_phase l \<noteq> HandingOver \<Longrightarrow>
   calls b key ts (fst (input_fenced b key p now l ts)) \<and>
   a_transitions (snd (input_fenced b key p now l ts)) = ts"
  using reach_trans [OF _ reach_silent [OF note_intent_framed], of "lease_at b key" ts l "p_id p" now]
  by (simp add: input_fenced_def callsI)

lemma acquired_reach:
  "reach l0 ts l \<Longrightarrow> acquire l r now = (l', Inr t) \<Longrightarrow> reach l0 (ts @ [t]) l'"
  by (rule reach_trans [OF _ acquire_reach_ok])

lemma refused_reach:
  "reach l0 ts l \<Longrightarrow> acquire l r now = (l', Inl e) \<Longrightarrow> reach l0 ts l'"
  using reach_trans [OF _ acquire_reach_refused] by fastforce

lemma input_calls: "calls b key (a_transitions (snd (board_input b key p now))) (fst (board_input b key p now))"
proof -
  obtain l1 ts1 where l1: "tick_into (lease_at b key) now [] = (l1, ts1)" by fastforce
  note r1 = tick_into_reach [of "lease_at b key" now, unfolded l1, simplified]
    and s1 = tick_into_settles [of "lease_at b key" now "[]", unfolded l1, simplified]
  obtain l2 o2 where l2: "acquire l1 (no_queue (request_new p)) now = (l2, o2)" by fastforce
  show ?thesis
  proof (cases o2)
    case (Inl e)
    then have "reach (lease_at b key) ts1 l2" and "l_phase l2 = l_phase l1"
      using l2 refused_reach [OF r1] acquire_refused_phase by simp_all
    then show ?thesis
      using s1 l2 Inl input_fenced_calls [OF r1 s1, of p now] by (simp add: board_input_def l1 callsI)
  next
    case (Inr t)
    let ?c = "confirm_into l2 now (ts1 @ [t])"
    have "reach (lease_at b key) (snd ?c) (fst ?c)"
      using acquired_reach [OF r1] l2 Inr by (intro confirm_reach) simp
    then show ?thesis
      using r1 s1 l2 Inr input_fenced_calls [OF _ confirm_into_settles, of b key "snd ?c" l2 now "ts1 @ [t]" p now]
        input_fenced_calls [OF r1 s1, of p now]
      by (simp add: board_input_def l1 case_prod_beta)
  qed
qed

lemma person_input_calls:
  "calls b key (a_transitions (snd (person_input b key p now))) (fst (person_input b key p now))"
proof -
  obtain l1 ts1 where l1: "tick_into (lease_at b key) now [] = (l1, ts1)" by fastforce
  note r1 = tick_into_reach [of "lease_at b key" now, unfolded l1, simplified]
    and s1 = tick_into_settles [of "lease_at b key" now "[]", unfolded l1, simplified]
  obtain l2 o2 where l2: "acquire l1 (no_queue (request_new p)) now = (l2, o2)" by fastforce
  have note_ok: "calls b key ts (put_lease b key (note_intent l (p_id p) now))"
    if "reach (lease_at b key) ts l" and "l_phase l \<noteq> HandingOver" for ts l
    using that reach_trans [OF that(1) reach_silent [OF note_intent_framed], of "p_id p" now]
    by (simp add: callsI)
  show ?thesis
  proof (cases o2)
    case (Inl e)
    then have "reach (lease_at b key) ts1 l2" and "l_phase l2 = l_phase l1"
      using l2 refused_reach [OF r1] acquire_refused_phase by simp_all
    then show ?thesis using s1 l2 Inl by (simp add: person_input_def l1 note_ok Let_def)
  next
    case (Inr t)
    let ?c = "confirm_into l2 now (ts1 @ [t])"
    have "reach (lease_at b key) (snd ?c) (fst ?c)"
      using acquired_reach [OF r1] l2 Inr by (intro confirm_reach) simp
    then show ?thesis
      using l2 Inr note_ok [OF _ confirm_into_settles, of "snd ?c" l2 now "ts1 @ [t]"]
      by (simp add: person_input_def l1 case_prod_beta Let_def)
  qed
qed

lemma ask_calls: "calls b key (a_transitions (snd (ask b key p reason now))) (fst (ask b key p reason now))"
proof -
  obtain l1 ts1 where l1: "tick_into (lease_at b key) now [] = (l1, ts1)" by fastforce
  note r1 = tick_into_reach [of "lease_at b key" now, unfolded l1, simplified]
    and s1 = tick_into_settles [of "lease_at b key" now "[]", unfolded l1, simplified]
  obtain l2 o2 where l2: "acquire l1 ((request_new p)\<lparr>r_reason := reason\<rparr>) now = (l2, o2)" by fastforce
  show ?thesis
  proof (cases "gate (put_lease b key l1) key p now")
    case (Some e)
    then show ?thesis
      using ticked_cancel_calls [OF r1 s1, of "p_id p" now]
      by (simp add: ask_def l1 Let_def case_prod_beta)
  next
    case gate: None
    show ?thesis
    proof (cases o2)
      case (Inl e)
      then have "reach (lease_at b key) ts1 l2" and "l_phase l2 = l_phase l1"
        using l2 refused_reach [OF r1] acquire_refused_phase by simp_all
      then show ?thesis using s1 l2 Inl gate by (simp add: ask_def l1 callsI Let_def)
    next
      case (Inr t)
      have "reach (lease_at b key) (ts1 @ [t]) l2" using acquired_reach [OF r1] l2 Inr by simp
      then show ?thesis
        using l2 Inr gate by (simp add: ask_def l1 case_prod_beta Let_def callsI_settled)
    qed
  qed
qed

text \<open>Letting go where the party holds: the middle of \<open>release\<close> and of \<open>yield_to\<close>.\<close>

definition let_go :: "lease \<Rightarrow> party_id \<Rightarrow> lease_instant \<Rightarrow> lease_transition list \<Rightarrow> lease \<times> lease_transition list" where
  "let_go l i now ts =
     (case l_holder l of
        Some h \<Rightarrow> if p_id (h_party h) = i
                  then (let (l', t') = release l i (h_lease_id h) now in (l', ts @ [t']))
                  else (l, ts)
      | None \<Rightarrow> (l, ts))"

lemma let_go_reach: "reach l0 ts l \<Longrightarrow> reach l0 (snd (let_go l i now ts)) (fst (let_go l i now ts))"
  by (auto simp: let_go_def case_prod_beta Let_def intro: reach_trans release_reach split: option.split)

lemma board_release_let_go:
  "board_release b key i now =
     (let (l1, ts1) = tick_into (lease_at b key) now [];
          (l2, ts2) = let_go l1 i now ts1;
          (l3, t) = cancel_wait l2 i now;
          (l4, ts3) = confirm_into l3 now (ts2 @ [t])
      in (put_lease b key l4, \<lparr>a_transitions = ts3, a_status = status l4 now, a_refusal = None\<rparr>))"
  by (simp add: board_release_def let_go_def)

lemma release_calls:
  "calls b key (a_transitions (snd (board_release b key i now))) (fst (board_release b key i now))"
proof -
  obtain l1 ts1 where l1: "tick_into (lease_at b key) now [] = (l1, ts1)" by fastforce
  have "reach (lease_at b key) ts1 l1" using tick_into_reach [of "lease_at b key" now] by (simp add: l1)
  from callsI_settled [OF reach_trans [OF let_go_reach [OF this] cancel_wait_reach]]
  show ?thesis by (simp add: board_release_let_go l1 case_prod_beta Let_def)
qed

lemma yield_to_let_go:
  "yield_to b key i person now =
     (let (l1, ts1) = tick_into (lease_at b key) now [];
          (l2, promoted) = promote l1 i
      in if \<not> promoted then
           (put_lease b key l2,
            \<lparr>a_transitions = ts1, a_status = status l2 now,
             a_refusal = Some (HeldBy Human ''nobody is waiting under that name'')\<rparr>)
         else
           let (l3, t) = cancel_wait l2 person now;
               (l4, ts3) = let_go l3 person now (ts1 @ [t]);
               (l5, ts4) = confirm_into l4 now ts3
           in (put_lease b key l5, \<lparr>a_transitions = ts4, a_status = status l5 now, a_refusal = None\<rparr>))"
  by (simp only: yield_to_def let_go_def Let_def)

lemma yield_calls:
  "calls b key (a_transitions (snd (yield_to b key i person now))) (fst (yield_to b key i person now))"
proof -
  obtain l1 ts1 where l1: "tick_into (lease_at b key) now [] = (l1, ts1)" by fastforce
  obtain l2 ok where l2: "promote l1 i = (l2, ok)" by fastforce
  have "reach (lease_at b key) ts1 l1" and s: "l_phase l1 \<noteq> HandingOver"
    using tick_into_reach [of "lease_at b key" now] tick_into_settles [of "lease_at b key" now "[]"]
    by (simp_all add: l1)
  then have r2: "reach (lease_at b key) ts1 l2"
    using reach_trans [OF _ reach_silent [OF promote_framed], of "lease_at b key" ts1 l1 i]
      promote_phase [of l1 i] dispatcher_no_transition(3) [of l1 i] by (simp add: l2)
  from callsI_settled [OF let_go_reach [OF reach_trans [OF r2 cancel_wait_reach]]]
  show ?thesis
    using r2 s promote_phase [of l1 i]
    by (simp add: yield_to_let_go l1 l2 case_prod_beta Let_def callsI)
qed

subsection \<open>What a board keeps\<close>

definition session_ok :: "lease_policy \<Rightarrow> string \<Rightarrow> lease \<Rightarrow> bool" where
  "session_ok pol key l \<longleftrightarrow> lease_wf l \<and> connected l \<and> l_phase l \<noteq> HandingOver \<and>
     l_policy l = pol \<and> l_limb l = key \<and> l_mode l = Exclusive"

definition board_wf :: "board \<Rightarrow> bool" where
  "board_wf b \<longleftrightarrow> bt_wf (b_leases b) \<and> bt_wf (b_declined b) \<and>
     (\<forall>key l. bt_get (b_leases b) key = Some l \<longrightarrow> session_ok (b_policy b) key l)"

lemma session_ok_connected: "session_ok pol key l \<Longrightarrow> l_phase l \<in> {Unheld, Held, PreemptPending}"
  by (cases "l_phase l"; cases "l_holder l") (auto simp: session_ok_def connected_def wf_defs)

lemma board_wf_new: "board_wf (board_new pol)"
  by (simp add: board_wf_def board_new_def bt_get_def)

lemma lease_at_ok: "board_wf b \<Longrightarrow> session_ok (b_policy b) key (lease_at b key)"
proof (cases "bt_get (b_leases b) key")
  case None
  then show ?thesis
    by (simp add: lease_at_def lease_new_def session_ok_def connected_def wf_defs role_defs)
next
  case (Some l)
  assume "board_wf b"
  with Some show ?thesis by (simp add: board_wf_def lease_at_def)
qed

lemma put_lease_wf:
  "board_wf b \<Longrightarrow> session_ok (b_policy b) key l \<Longrightarrow> board_wf (put_lease b key l)"
  by (auto simp: board_wf_def put_lease_def bt_get_insert bt_wf_insert)

lemma reach_ok: "session_ok pol key l \<Longrightarrow> reach l ts l' \<Longrightarrow> l_phase l' \<noteq> HandingOver \<Longrightarrow> session_ok pol key l'"
  by (simp add: session_ok_def reach_def framed_def)

lemma calls_wf: "board_wf b \<Longrightarrow> calls b key ts b' \<Longrightarrow> board_wf b'"
  by (auto simp: calls_def intro!: put_lease_wf reach_ok [OF lease_at_ok])

text \<open>The declined map and the mute may change in the same call.\<close>

lemma lease_at_answers [simp]:
  "lease_at (b\<lparr>b_declined := d\<rparr>) key = lease_at b key" "lease_at (b\<lparr>b_mute := m\<rparr>) key = lease_at b key"
  by (simp_all add: lease_at_def split: option.split)

lemma board_wf_answers [simp]:
  "board_wf b \<Longrightarrow> bt_wf d \<Longrightarrow> board_wf (b\<lparr>b_declined := d\<rparr>)"
  "board_wf (b\<lparr>b_mute := m\<rparr>) \<longleftrightarrow> board_wf b"
  by (simp_all add: board_wf_def)

lemma not_now_calls:
  "calls (b\<lparr>b_declined := bt_insert (key, i) (plus_millis now not_now_ms) (b_declined b)\<rparr>) key
     (a_transitions (snd (not_now b key i now))) (fst (not_now b key i now))"
proof -
  let ?b = "b\<lparr>b_declined := bt_insert (key, i) (plus_millis now not_now_ms) (b_declined b)\<rparr>"
  obtain l1 ts1 where l1: "tick_into (lease_at ?b key) now [] = (l1, ts1)" by fastforce
  have "reach (lease_at ?b key) ts1 l1" and "l_phase l1 \<noteq> HandingOver"
    using tick_into_reach [of "lease_at ?b key" now] tick_into_settles [of "lease_at ?b key" now "[]"] l1
    by simp_all
  from ticked_cancel_calls [OF this] show ?thesis
    using l1 by (simp add: not_now_def case_prod_beta Let_def)
qed

lemma not_now_wf: "board_wf b \<Longrightarrow> board_wf (fst (not_now b key i now))"
  by (rule calls_wf [OF board_wf_answers(1) not_now_calls]) (auto simp: board_wf_def bt_wf_insert)

lemma pairs_induct: "P [] \<Longrightarrow> (\<And>k i xs. P xs \<Longrightarrow> P ((k, i) # xs)) \<Longrightarrow> P xs"
  by (induction xs) auto

lemma not_now_each_wf: "board_wf b \<Longrightarrow> board_wf (fst (not_now_each b now xs))"
  by (induction xs arbitrary: b rule: pairs_induct) (simp_all add: Let_def case_prod_beta not_now_wf)

lemma cancel_calls:
  "session_ok pol key (lease_at b key) \<Longrightarrow>
   calls b key [snd (cancel_wait (lease_at b key) i now)] (put_lease b key (fst (cancel_wait (lease_at b key) i now)))"
  using ticked_cancel_calls [OF reach_refl, of b key i now] by (simp add: session_ok_def)

lemma drop_each_wf: "board_wf b \<Longrightarrow> board_wf (fst (drop_each b now xs))"
  by (induction xs arbitrary: b rule: pairs_induct)
    (simp_all add: Let_def case_prod_beta calls_wf [OF _ cancel_calls [OF lease_at_ok]])

lemma release_each_wf: "board_wf b \<Longrightarrow> board_wf (fst (release_each b i now ks))"
  by (induction ks arbitrary: b)
    (simp_all add: Let_def case_prod_beta calls_wf [OF _ release_calls])

lemma tick_all_wf: "board_wf b \<Longrightarrow> board_wf (fst (tick_all b now))"
proof -
  assume wf: "board_wf b"
  let ?d = "bt_retain (\<lambda>k until. \<not> reached now until) (b_declined b)"
  let ?ls = "map (\<lambda>(k, v). (k, fst (tick_into v now []))) (b_leases b)"
  have get: "bt_get ?ls k = map_option (\<lambda>v. fst (tick_into v now [])) (bt_get (b_leases b) k)" for k
    using bt_get_map [of "\<lambda>_ v. fst (tick_into v now [])"] .
  have "bt_wf ?ls" using wf bt_wf_map [of "\<lambda>_ v. fst (tick_into v now [])" "b_leases b"]
    by (simp add: board_wf_def)
  moreover have "bt_wf ?d" using wf by (simp add: board_wf_def bt_retain_def bt_wf_filter)
  moreover have "session_ok (b_policy b) k l" if k: "bt_get ?ls k = Some l" for k l
  proof -
    obtain l0 where l0: "bt_get (b_leases b) k = Some l0" and l: "l = fst (tick_into l0 now [])"
      using k by (auto simp: get)
    have "session_ok (b_policy b) k l0" using wf l0 by (simp add: board_wf_def)
    then show ?thesis unfolding l by (rule reach_ok [OF _ tick_into_reach tick_into_settles])
  qed
  ultimately have "board_wf (b\<lparr>b_declined := ?d, b_leases := ?ls\<rparr>)" by (simp add: board_wf_def)
  then show ?thesis by (simp add: tick_all_def Let_def)
qed

lemma board_step_wf: "board_wf b \<Longrightarrow> board_wf (fst (board_step b opn now))"
  by (cases opn)
    (simp_all add: one_def not_now_wf not_now_all_def not_now_each_wf mute_def drop_requests_def
      drop_each_wf unmute_def forget_party_def release_each_wf tick_all_wf
      calls_wf [OF _ status_calls] calls_wf [OF _ ask_calls] calls_wf [OF _ release_calls]
      calls_wf [OF _ input_calls] calls_wf [OF _ person_input_calls] calls_wf [OF _ yield_calls])

lemma board_remove_wf: "board_wf b \<Longrightarrow> board_wf (board_remove b key)"
  by (auto simp: board_wf_def board_remove_def bt_get_remove bt_wf_filter bt_remove_def split: if_splits)
    (auto simp: bt_get_remove [unfolded bt_remove_def] split: if_splits)

end
