(* ===== verification/Board_Moves.thy ===== *)
theory Board_Moves
  imports Board_Invariant
begin

text \<open>
  The board as an arbiter of each of its sessions, and the lemmas behind its properties: what
  one ask, one input, one release and one "not now" leave behind, over the lease they touch
  and over runs of calls.
\<close>

subsection \<open>The reports of one session\<close>

definition session_moves :: "board \<Rightarrow> string \<Rightarrow> lease_transition list \<Rightarrow> board \<Rightarrow> bool" where
  "session_moves b key ts b' \<longleftrightarrow> tracked (lease_at b key) ts (lease_at b' key)"

lemma tracked_trans: "tracked l ts l1 \<Longrightarrow> tracked l1 us l2 \<Longrightarrow> tracked l (ts @ us) l2"
  by (auto simp: tracked_def)

lemma tracked_refl [simp]: "tracked l [] l"
  by (auto simp: tracked_def)

lemma tracked_more: "tracked l ts l' \<Longrightarrow> {t \<in> set ts. loud t} \<subseteq> set us \<Longrightarrow> tracked l us l'"
  by (auto simp: tracked_def)

lemma reports_of_simps [simp]:
  "reports_of key [] = []"
  "reports_of key ((k, a) # out) = (if k = key then a_transitions a else []) @ reports_of key out"
  by (simp_all add: reports_of_def)

lemma calls_moves: "calls b k ts b' \<Longrightarrow> session_moves b key (if k = key then ts else []) b'"
  by (auto simp: calls_def session_moves_def reach_def)

lemma one_moves:
  "calls b k (a_transitions (snd r)) (fst r) \<Longrightarrow>
   session_moves b key (reports_of key (snd (one k r))) (fst (one k r))"
  using calls_moves [of b k "a_transitions (snd r)" "fst r" key] by (simp add: one_def)

lemma not_now_moves:
  "session_moves b key (if k = key then a_transitions (snd (not_now b k i now)) else []) (fst (not_now b k i now))"
proof -
  let ?b = "b\<lparr>b_declined := bt_insert (k, i) (plus_millis now not_now_ms) (b_declined b)\<rparr>"
  have "session_moves ?b key (if k = key then a_transitions (snd (not_now b k i now)) else [])
      (fst (not_now b k i now))"
    by (rule calls_moves [OF not_now_calls])
  then show ?thesis by (simp add: session_moves_def)
qed

lemma not_now_each_moves:
  "session_moves b key (reports_of key (snd (not_now_each b now xs))) (fst (not_now_each b now xs))"
proof (induction xs arbitrary: b rule: pairs_induct)
  case (2 k i xs)
  from tracked_trans [OF not_now_moves [of b key k i now, unfolded session_moves_def]
      2 [of "fst (not_now b k i now)", unfolded session_moves_def]]
  show ?case by (cases "k = key") (simp_all add: session_moves_def Let_def case_prod_beta)
qed (simp add: session_moves_def)

lemma cancel_moves:
  "session_moves b key (if k = key then [snd (cancel_wait (lease_at b k) i now)] else [])
     (put_lease b k (fst (cancel_wait (lease_at b k) i now)))"
  using cancel_wait_reach [of "lease_at b k" i now] by (simp add: session_moves_def reach_def)

lemma drop_each_moves:
  "session_moves b key (reports_of key (snd (drop_each b now xs))) (fst (drop_each b now xs))"
proof (induction xs arbitrary: b rule: pairs_induct)
  case (2 k i xs)
  from tracked_trans [OF cancel_moves [of b key k i now, unfolded session_moves_def]
      2 [of "put_lease b k (fst (cancel_wait (lease_at b k) i now))", unfolded session_moves_def]]
  show ?case by (cases "k = key") (simp_all add: session_moves_def Let_def case_prod_beta)
qed (simp add: session_moves_def)

lemma unchanged_quiet: "\<not> answer_changed a \<Longrightarrow> t \<in> set (a_transitions a) \<Longrightarrow> \<not> loud t"
  by (auto simp: answer_changed_def loud_def)

lemma release_each_moves:
  "session_moves b key (reports_of key (snd (release_each b i now ks))) (fst (release_each b i now ks))"
proof (induction ks arbitrary: b)
  case (Cons k ks)
  let ?r = "board_release b k i now"
  have one: "tracked (lease_at b key) (if k = key then a_transitions (snd ?r) else []) (lease_at (fst ?r) key)"
    using calls_moves [OF release_calls] by (simp add: session_moves_def)
  have "tracked (lease_at b key) (if k = key \<and> answer_changed (snd ?r) then a_transitions (snd ?r) else [])
      (lease_at (fst ?r) key)"
    by (rule tracked_more [OF one]) (use unchanged_quiet in auto)
  from tracked_trans [OF this Cons [of "fst ?r", unfolded session_moves_def]]
  show ?case by (auto simp: session_moves_def Let_def case_prod_beta)
qed (simp add: session_moves_def)

lemma lease_at_tick_all:
  "lease_at (fst (tick_all b now)) key =
     (if bt_get (b_leases b) key = None then lease_at b key
      else fst (tick_into (lease_at b key) now []))"
proof -
  have "bt_get (map (\<lambda>(k, v). (k, fst (tick_into v now []))) m) key =
      map_option (\<lambda>v. fst (tick_into v now [])) (bt_get m key)" for m :: "(string, lease) btree"
    using bt_get_map [of "\<lambda>_ v. fst (tick_into v now [])"] .
  then show ?thesis
    by (simp add: tick_all_def Let_def) (auto simp: lease_at_def split: option.split)
qed

lemma tick_all_moves:
  "session_moves b key (reports_of key (snd (tick_all b now))) (fst (tick_all b now))"
proof (cases "bt_get (b_leases b) key")
  case None
  have "tracked l ts l" if "l_phase l \<noteq> HandingOver" for l ts using that by (simp add: tracked_def)
  moreover have "l_phase (lease_at b key) \<noteq> HandingOver"
    using None by (simp add: lease_at_def lease_new_def)
  ultimately show ?thesis using None by (simp add: session_moves_def lease_at_tick_all)
next
  case (Some l)
  let ?ts = "snd (tick_into l now [])"
  have mem: "(key, l) \<in> set (b_leases b)" using Some by (simp add: bt_get_def map_of_SomeD)
  have at: "lease_at b key = l" using Some by (simp add: lease_at_def)
  have "{t \<in> set ?ts. loud t} \<subseteq> set (reports_of key (snd (tick_all b now)))"
  proof
    fix t assume t: "t \<in> {t \<in> set ?ts. loud t}"
    then have "\<exists>a. (key, a) \<in> set (tick_row now (key, l)) \<and> t \<in> set (a_transitions a)"
      by (auto simp: tick_row_def Let_def case_prod_beta loud_def)
    then show "t \<in> set (reports_of key (snd (tick_all b now)))"
      using mem by (force simp: tick_all_def Let_def reports_of_def)
  qed
  then show ?thesis
    using tick_into_reach [of l now] Some
    by (auto simp: session_moves_def lease_at_tick_all at reach_def intro: tracked_more)
qed

lemma unmute_moves: "session_moves b key [] (unmute b)"
  by (simp add: session_moves_def unmute_def)

definition board_reports :: "string \<Rightarrow> board \<Rightarrow> board_op \<times> lease_instant \<Rightarrow> board \<times> lease_transition list" where
  "board_reports key b x = (let (b', out) = board_step b (fst x) (snd x) in (b', reports_of key out))"

lemma board_step_moves:
  "session_moves b key (snd (board_reports key b x)) (fst (board_reports key b x))"
proof -
  have mute: "session_moves b key (reports_of key (snd (mute b u now))) (fst (mute b u now))" for u now
    using drop_each_moves [of "b\<lparr>b_mute := Some u\<rparr>" key now]
    by (simp add: mute_def drop_requests_def session_moves_def)
  have nn: "session_moves b key (reports_of key (snd (one k (not_now b k i now)))) (fst (one k (not_now b k i now)))"
    for k i now using not_now_moves [of b key k i now] by (simp add: one_def)
  show ?thesis
    by (cases x; cases "fst x")
      (simp_all add: board_reports_def case_prod_beta Let_def one_moves status_calls ask_calls release_calls
        input_calls person_input_calls yield_calls nn not_now_all_def not_now_each_moves mute
        forget_party_def release_each_moves tick_all_moves unmute_moves)
qed

interpretation board_arbiter: arbiter "board_reports key" "\<lambda>b. dispatcher (lease_at b key)" must_release
  "\<lambda>b. l_phase (lease_at b key) = HandingOver" for key
proof
  show "dispatcher (lease_at b key) = None" if "l_phase (lease_at b key) = HandingOver" for b
    using that by (simp add: dispatcher_def)
  show "(\<exists>t\<in>set ts. must_release t) \<or> l_phase (lease_at b key) = HandingOver"
    if "board_reports key b x = (b', ts)" and "dispatcher (lease_at b' key) \<noteq> dispatcher (lease_at b key)"
    for b x b' ts
    using board_step_moves [of b key x] that by (auto simp: session_moves_def tracked_def loud_def)
  show "\<exists>t\<in>set ts. must_release t"
    if "board_reports key b x = (b', ts)" and "l_phase (lease_at b' key) = HandingOver"
      and "l_phase (lease_at b key) \<noteq> HandingOver" for b x b' ts
    using board_step_moves [of b key x] that by (auto simp: session_moves_def tracked_def loud_def)
qed

subsection \<open>Input on a free machine\<close>

lemma acquire_free:
  assumes "lease_wf l" and "l_phase l = Unheld"
  shows "acquire l r now =
    (case l_force_release_until l of
       Some u \<Rightarrow> if \<not> reached now u then (l, Inl (ForceReleased (since u now)))
                 else map_prod id Inr (grant (l\<lparr>l_force_release_until := None\<rparr>) (r_party r) now Unheld)
     | None \<Rightarrow> map_prod id Inr (grant l (r_party r) now Unheld))"
proof -
  have "l_holder l = None" "l_pending l = None" "l_queue l = []"
    using assms by (simp_all add: wf_defs)
  then show ?thesis
    using assms(2) by (auto simp: acquire_def acquire_open_def acquire_pending_def acquire_queued_def
        queue_position_def case_prod_beta map_prod_def split: option.split)
qed

lemma grant_confirmed:
  "fence (fst (confirm_into (fst (grant l p now f)) now out)) (p_id p) = Allowed"
  by (simp add: grant_def confirm_into_def confirm_release_def fence_def holder_is_def Let_def)

lemma fence_note_intent [simp]: "fence (note_intent l i now) j = fence l j"
  by (simp add: fence_def holder_is_def note_intent_def split: option.split)

lemma input_fenced_gate:
  "input_fenced b key p now l ts = (b', a) \<Longrightarrow>
   (a_refusal a = None \<longleftrightarrow> fence (lease_at b' key) (p_id p) = Allowed) \<and>
   (a_refusal a \<noteq> None \<longrightarrow> lease_at b' key = l)"
  by (auto simp: input_fenced_def split: if_splits)

lemma fence_unheld: "l_phase l = Unheld \<Longrightarrow> fence l i = ReleaseOnly"
  by (simp add: fence_def)

lemma input_gate_lease:
  assumes "session_ok pol key (lease_at b key)" and "board_input b key p now = (b', a)"
  shows "(a_refusal a = None \<longleftrightarrow> fence (lease_at b' key) (p_id p) = Allowed) \<and>
    (a_refusal a \<noteq> None \<longrightarrow> lease_at b' key = fst (tick_into (lease_at b key) now []))"
proof -
  obtain l1 ts1 where l1: "tick_into (lease_at b key) now [] = (l1, ts1)" by fastforce
  have wf: "lease_wf l1"
    using reach_ok [OF assms(1) tick_into_reach tick_into_settles, of now] by (simp add: l1 session_ok_def)
  show ?thesis
  proof (cases "l_phase l1 = Unheld")
    case False
    then show ?thesis using assms(2) input_fenced_gate [of b key p now l1 ts1 b' a]
      by (cases "a_refusal a") (auto simp: board_input_def l1)
  next
    case True
    obtain l2 o2 where l2: "acquire l1 (no_queue (request_new p)) now = (l2, o2)" by fastforce
    have rp: "r_party (no_queue (request_new p)) = p" by (simp add: no_queue_def request_new_def)
    show ?thesis
    proof (cases o2)
      case (Inl e)
      then have "l2 = l1" using l2 acquire_free [OF wf True, of "no_queue (request_new p)" now]
        by (auto simp: map_prod_def case_prod_beta split: option.splits if_splits)
      then show ?thesis using assms(2) True l2 Inl by (auto simp: board_input_def l1 fence_unheld)
    next
      case (Inr t)
      then obtain m where m: "grant m p now Unheld = (l2, t)"
        using l2 acquire_free [OF wf True, of "no_queue (request_new p)" now]
        by (cases "l_force_release_until l1") (auto simp: rp map_prod_def case_prod_beta prod_eq_iff split: if_splits)
      let ?c = "confirm_into l2 now (ts1 @ [t])"
      have allowed: "fence (fst ?c) (p_id p) = Allowed"
        using grant_confirmed [of m p now Unheld "ts1 @ [t]"] by (simp add: m)
      show ?thesis
        using assms(2) True l2 Inr allowed
        by (auto simp: board_input_def l1 input_fenced_def case_prod_beta)
    qed
  qed
qed

subsection \<open>Leaving every role\<close>

lemma settle_roles: "set (roles (fst (settle l now f d))) \<subseteq> set (holder_ids l) \<union> set (pending_ids l) \<union> set (queue_ids l)"
  by (auto simp: settle_def grant_def Let_def role_defs split: option.splits list.splits)

lemma confirm_release_roles [simp]: "roles (fst (confirm_release l now)) = roles l"
  by (simp add: confirm_release_def Let_def role_defs split: option.split)

lemma confirm_into_roles [simp]: "roles (fst (confirm_into l now out)) = roles l"
  by (simp add: confirm_into_def case_prod_beta)

lemma take_holder_roles:
  "l_holder l = Some h \<Longrightarrow> distinct (roles l) \<Longrightarrow>
   p_id (h_party h) \<notin> set (roles (fst (settle (fst (take_holder l now c)) now f d)))"
  using settle_roles [of "fst (take_holder l now c)" now f d]
  by (auto simp: take_holder_def role_defs)

lemma let_go_gone:
  assumes "lease_wf l"
  shows "i \<notin> set (holder_ids (fst (let_go l i now ts)))"
proof (cases "l_holder l")
  case (Some h)
  have d: "distinct (roles l)" using assms by (simp add: wf_defs)
  have "p_id (h_party h) \<notin> set (holder_ids (fst (release l (p_id (h_party h)) (h_lease_id h) now)))"
    using take_holder_roles [OF Some d] Some by (simp add: release_def Let_def case_prod_beta roles_def)
  then show ?thesis
    using Some by (auto simp: let_go_def Let_def case_prod_beta) (simp add: holder_ids_def)
qed (simp add: let_go_def holder_ids_def)

lemma let_go_wf: "lease_wf l \<Longrightarrow> lease_wf (fst (let_go l i now ts))"
  by (simp add: let_go_def Let_def case_prod_beta release_wf split: option.split)

lemma cancel_wait_gone:
  assumes "lease_wf l"
  shows "i \<notin> set (pending_ids (fst (cancel_wait l i now))) \<union> set (queue_ids (fst (cancel_wait l i now)))"
    and "l_holder (fst (cancel_wait l i now)) = l_holder l"
proof -
  have d: "distinct (queue_ids l)" and pq: "set (pending_ids l) \<inter> set (queue_ids l) = {}"
    using assms by (auto simp: wf_defs roles_def)
  show "i \<notin> set (pending_ids (fst (cancel_wait l i now))) \<union> set (queue_ids (fst (cancel_wait l i now)))"
  proof (cases "i \<in> set (pending_ids l)")
    case True
    then show ?thesis using pq by (auto simp: cancel_wait_def pending_ids_def queue_ids_def Let_def split: option.splits)
  next
    case np: False
    show ?thesis
    proof (cases "queue_position l i")
      case None
      then show ?thesis using np queue_position_None [of l i]
        by (auto simp: cancel_wait_def pending_ids_def queue_ids_def split: option.splits)
    next
      case (Some pos)
      then have "pos < length (queue_ids l)" and "queue_ids l ! pos = i"
        using queue_position_Some [OF Some] by (simp_all add: queue_ids_def)
      then have "i \<notin> set (remove_at pos (queue_ids l))" using remove_at_nth_notin [OF d] by metis
      then have "i \<notin> set (map w_id (remove_at pos (l_queue l)))" by (simp add: queue_ids_def map_remove_at)
      then show ?thesis using np Some
        by (auto simp: cancel_wait_def pending_ids_def queue_ids_def Let_def split: option.splits)
    qed
  qed
  show "l_holder (fst (cancel_wait l i now)) = l_holder l"
    by (simp add: cancel_wait_def Let_def split: option.split)
qed

lemma board_release_gone:
  assumes "session_ok pol key (lease_at b key)"
  shows "i \<notin> set (roles (lease_at (fst (board_release b key i now)) key))"
proof -
  obtain l1 ts1 where l1: "tick_into (lease_at b key) now [] = (l1, ts1)" by fastforce
  have wf: "lease_wf l1"
    using reach_ok [OF assms(1) tick_into_reach tick_into_settles, of now] by (simp add: l1 session_ok_def)
  let ?l2 = "fst (let_go l1 i now ts1)"
  have "i \<notin> set (roles (fst (cancel_wait ?l2 i now)))"
    using cancel_wait_gone [OF let_go_wf [OF wf]] let_go_gone [OF wf, of i now ts1]
    by (auto simp: roles_def holder_ids_def)
  then show ?thesis by (simp add: board_release_let_go l1 case_prod_beta Let_def)
qed

lemma board_release_other: "key' \<noteq> key \<Longrightarrow> lease_at (fst (board_release b key i now)) key' = lease_at b key'"
  using release_calls [of b key i now] by (auto simp: calls_def)

lemma release_each_gone:
  assumes "board_wf b" and "key \<in> set ks \<or> i \<notin> set (roles (lease_at b key))"
  shows "i \<notin> set (roles (lease_at (fst (release_each b i now ks)) key))"
  using assms
proof (induction ks arbitrary: b)
  case (Cons k ks)
  let ?b = "fst (board_release b k i now)"
  have wf: "board_wf ?b" using Cons.prems(1) release_calls by (rule calls_wf)
  have "key \<in> set ks \<or> i \<notin> set (roles (lease_at ?b key))"
    using Cons.prems board_release_gone [OF lease_at_ok] board_release_other [of key k b i now]
    by (cases "key = k") auto
  from Cons.IH [OF wf this] show ?case by (simp add: Let_def case_prod_beta)
qed simp

lemma release_each_keys:
  "bt_get (b_leases (fst (release_each b i now ks))) key = None \<longleftrightarrow> bt_get (b_leases b) key = None \<and> key \<notin> set ks"
proof (induction ks arbitrary: b)
  case (Cons k ks)
  obtain l where "fst (board_release b k i now) = put_lease b k l"
    using release_calls [of b k i now] by (auto simp: calls_def)
  then show ?case using Cons [of "put_lease b k l"]
    by (auto simp: Let_def case_prod_beta put_lease_def bt_get_insert)
qed simp

subsection \<open>Requests to a person who does not want them\<close>

lemma quiet_ask_lease:
  assumes "session_ok pol key (lease_at b key)"
    and "gate (fst (board_status b key now)) key p now = Some e"
    and "ask b key p reason now = (b', a)"
  shows "a_refusal a = Some e \<and>
    p_id p \<notin> set (pending_ids (lease_at b' key)) \<union> set (queue_ids (lease_at b' key)) \<and>
    l_holder (lease_at b' key) = l_holder (lease_at (fst (board_status b key now)) key)"
proof -
  obtain l1 ts1 where l1: "tick_into (lease_at b key) now [] = (l1, ts1)" by fastforce
  have wf: "lease_wf l1"
    using reach_ok [OF assms(1) tick_into_reach tick_into_settles, of now] by (simp add: l1 session_ok_def)
  have "gate (put_lease b key l1) key p now = Some e"
    using assms(2) by (simp add: board_status_def l1)
  then show ?thesis
    using assms(3) cancel_wait_gone [OF wf, of "p_id p" now]
    by (auto simp: ask_def board_status_def l1 Let_def case_prod_beta)
qed

lemma gate_not_now:
  assumes "\<not> is_person (p_kind p)" and "person_holds b key now"
    and "bt_get (b_declined b) (key, p_id p) = Some u" and "\<not> reached now u"
  shows "gate b key p now = (case mute_left b key now of
      Some d \<Rightarrow> Some (Muted d) | None \<Rightarrow> Some (NotNow (since u now)))"
  using assms by (simp add: gate_def not_now_left_def split: option.split)

lemma gate_muted:
  "\<not> is_person (p_kind p) \<Longrightarrow> person_holds b key now \<Longrightarrow> mute_left b key now = Some d \<Longrightarrow>
   gate b key p now = Some (Muted d)"
  by (simp add: gate_def)

text \<open>"Not now" is remembered until at least \<open>u\<close> by every call made before \<open>u\<close>.\<close>

definition declined_until :: "board \<Rightarrow> string \<times> party_id \<Rightarrow> lease_instant \<Rightarrow> bool" where
  "declined_until b k u \<longleftrightarrow> bt_wf (b_declined b) \<and>
     (case bt_get (b_declined b) k of None \<Rightarrow> False | Some u' \<Rightarrow> u \<le> u')"

lemma calls_declined: "calls b key ts b' \<Longrightarrow> b_declined b' = b_declined b"
  by (auto simp: calls_def)

lemma not_now_declined:
  "b_declined (fst (not_now b key i now)) = bt_insert (key, i) (plus_millis now not_now_ms) (b_declined b)"
  using calls_declined [OF not_now_calls, of b key i now] by simp

lemma plus_millis_mono: "t \<le> t' \<Longrightarrow> plus_millis t d \<le> plus_millis t' d"
  by (simp add: plus_millis_def sat_add_mono)

lemma not_now_keeps:
  "declined_until b k (plus_millis t0 not_now_ms) \<Longrightarrow> t0 \<le> now \<Longrightarrow>
   declined_until (fst (not_now b key i now)) k (plus_millis t0 not_now_ms)"
  by (auto simp: declined_until_def not_now_declined bt_get_insert bt_wf_insert plus_millis_mono)

lemma not_now_each_keeps:
  "declined_until b k (plus_millis t0 not_now_ms) \<Longrightarrow> t0 \<le> now \<Longrightarrow>
   declined_until (fst (not_now_each b now xs)) k (plus_millis t0 not_now_ms)"
  by (induction xs arbitrary: b rule: pairs_induct) (simp_all add: Let_def case_prod_beta not_now_keeps)

lemma each_declined:
  "b_declined (fst (drop_each b now xs)) = b_declined b"
  "b_declined (fst (release_each b i now ks)) = b_declined b"
proof -
  show "b_declined (fst (drop_each b now xs)) = b_declined b"
    by (induction xs arbitrary: b rule: pairs_induct) (simp_all add: Let_def case_prod_beta)
  show "b_declined (fst (release_each b i now ks)) = b_declined b"
    by (induction ks arbitrary: b)
      (simp_all add: Let_def case_prod_beta calls_declined [OF release_calls])
qed

lemma tick_all_keeps:
  "declined_until b k u \<Longrightarrow> now < u \<Longrightarrow> declined_until (fst (tick_all b now)) k u"
  by (auto simp: tick_all_def Let_def declined_until_def bt_get_retain reached_def bt_wf_retain
      split: option.splits)

lemma board_step_declined:
  assumes "declined_until b k (plus_millis t0 not_now_ms)" and "t0 \<le> now" and "now < plus_millis t0 not_now_ms"
  shows "declined_until (fst (board_step b opn now)) k (plus_millis t0 not_now_ms)"
proof -
  have same: "declined_until b' k (plus_millis t0 not_now_ms)" if "b_declined b' = b_declined b" for b'
    using assms(1) that by (simp add: declined_until_def)
  show ?thesis
    using assms
    by (cases opn)
      (simp_all add: one_def not_now_keeps not_now_all_def not_now_each_keeps tick_all_keeps same mute_def
        drop_requests_def forget_party_def each_declined unmute_def calls_declined [OF status_calls]
        calls_declined [OF ask_calls] calls_declined [OF release_calls] calls_declined [OF input_calls]
        calls_declined [OF person_input_calls] calls_declined [OF yield_calls])
qed

definition board_run :: "board \<Rightarrow> (board_op \<times> lease_instant) list \<Rightarrow> board" where
  "board_run b xs = foldl (\<lambda>b x. fst (board_step b (fst x) (snd x))) b xs"

lemma board_run_simps [simp]:
  "board_run b [] = b" "board_run b (x # xs) = board_run (fst (board_step b (fst x) (snd x))) xs"
  by (simp_all add: board_run_def)

lemma board_run_declined:
  "declined_until b k (plus_millis t0 not_now_ms) \<Longrightarrow>
   list_all (\<lambda>x. t0 \<le> snd x \<and> snd x < plus_millis t0 not_now_ms) xs \<Longrightarrow>
   declined_until (board_run b xs) k (plus_millis t0 not_now_ms)"
  by (induction xs arbitrary: b) (simp_all add: board_step_declined)

lemma board_run_wf: "board_wf b \<Longrightarrow> board_wf (board_run b xs)"
  by (induction xs arbitrary: b) (simp_all add: board_step_wf)

subsection \<open>Giving the machine away\<close>

lemma promote_head:
  assumes "i \<in> set (queue_ids l)"
  obtains l2 w ws where "promote l i = (l2, True)" and "l_queue l2 = w # ws" and "w_id w = i"
    and "l_holder l2 = l_holder l" and "l_pending l2 = l_pending l" and "queue_position l i \<noteq> None"
proof -
  obtain pos where pos: "queue_position l i = Some pos"
    using assms queue_position_None [of l i] by (cases "queue_position l i") auto
  show ?thesis
    by (rule that [of "fst (promote l i)" "l_queue l ! pos" "remove_at pos (l_queue l)"])
      (use pos queue_position_Some [OF pos] in \<open>simp_all add: promote_def insert_at_def\<close>)
qed

lemma settle_head:
  "l_pending l = None \<Longrightarrow> l_queue l = w # ws \<Longrightarrow>
   fst (settle l now f d) = fst (grant (l\<lparr>l_queue := ws\<rparr>) (w_party w) now f)"
  by (simp add: settle_def case_prod_beta)

lemma yield_lease:
  assumes "session_ok pol key (lease_at b key)" and "fst (board_status b key now) = b1"
    and "l_holder (lease_at b1 key) = Some h" and "p_id (h_party h) = person"
    and "l_pending (lease_at b1 key) = None" and "i \<in> set (queue_ids (lease_at b1 key))"
    and "yield_to b key i person now = (b', a)"
  shows "a_refusal a = None \<and> fence (lease_at b' key) i = Allowed"
proof -
  obtain l1 ts1 where l1: "tick_into (lease_at b key) now [] = (l1, ts1)" by fastforce
  have b1: "lease_at b1 key = l1" using assms(2) by (auto simp: board_status_def l1)
  have wf: "lease_wf l1"
    using reach_ok [OF assms(1) tick_into_reach tick_into_settles, of now] by (simp add: l1 session_ok_def)
  have h: "l_holder l1 = Some h" and pd: "l_pending l1 = None" and q: "i \<in> set (queue_ids l1)"
    using assms(3,5,6) by (simp_all add: b1)
  obtain l2 w ws where l2: "promote l1 i = (l2, True)" "l_queue l2 = w # ws" "w_id w = i"
      "l_holder l2 = Some h" "l_pending l2 = None"
    by (rule promote_head [OF q]) (use h pd in auto)
  have wf2: "lease_wf l2" using promote_wf [OF wf, of i] by (simp add: l2)
  then have "person \<notin> set (queue_ids l2)" using l2(4) assms(4) by (auto simp: wf_defs role_defs)
  then have cancel: "fst (cancel_wait l2 person now) = l2"
    using l2(5) queue_position_None [of l2 person] by (simp add: cancel_wait_def)
  let ?l4 = "fst (let_go l2 person now (ts1 @ [snd (cancel_wait l2 person now)]))"
  have "?l4 = fst (grant (l2\<lparr>l_holder := None, l_queue := ws\<rparr>) (w_party w) now (l_phase l2))"
    using l2 assms(4) by (simp add: let_go_def release_def take_holder_def Let_def case_prod_beta settle_head)
  then have "fence (fst (confirm_into ?l4 now ts)) i = Allowed" for ts
    using grant_confirmed [of _ "w_party w"] l2(3) by simp
  then show ?thesis
    using assms(7) cancel by (auto simp: yield_to_let_go l1 l2 case_prod_beta Let_def)
qed

end
