(* ===== verification/Board_Properties.thy ===== *)
theory Board_Properties
  imports Board_Moves
begin

text \<open>
  The properties of the board of leases (\<open>crates/agent-lease/src/board.rs\<close>), each with the
  witness that its hypotheses can hold. The sample board has one session that a person uses
  and one agent waiting for it.
\<close>

subsection \<open>Reachable boards and samples\<close>

inductive board_reachable :: "lease_policy \<Rightarrow> board \<Rightarrow> bool" for pol where
  start: "board_reachable pol (board_new pol)"
| call: "board_reachable pol b \<Longrightarrow> board_reachable pol (fst (board_step b opn now))"
| ended: "board_reachable pol b \<Longrightarrow> board_reachable pol (board_remove b key)"

definition ada :: party where
  "ada = party_new ''window-1'' Human ''Ada''"

definition bot :: party where
  "bot = party_new ''grant-1'' Agent ''nightly run''"

definition used_board :: board where
  "used_board = board_run (board_new default_policy) [(BdPersonInput ''desk'' ada, 1000)]"

definition queued_board :: board where
  "queued_board = board_run used_board [(BdAsk ''desk'' bot None, 2000)]"

lemmas board_eval = board_run_def one_def person_input_def ask_def board_input_def lease_at_def
  put_lease_def board_new_def bt_get_def tick_into_def confirm_into_def lease_new_def lease_eval
  board_status_def gate_def person_holds_def peek_def status_def status_person_holds_def changes_at_def
  mute_left_def muted_def person_holds_any_def not_now_left_def not_now_def not_now_ms_def
  input_fenced_def must_release_def transition_changed_def

definition used_lease :: lease where
  "used_lease = (exclusive ''desk'')\<lparr>l_phase := Held, l_next_lease_id := 2,
     l_holder := Some \<lparr>h_lease_id = 1, h_party = ada, h_granted_at = 1000,
       h_last_intent_at = 1000, h_last_renew_at = 1000, h_connected = True, h_grace_until = None\<rparr>\<rparr>"

definition queued_lease :: lease where
  "queued_lease = used_lease\<lparr>l_queue := [\<lparr>w_party = bot, w_queued_at = 2000,
     w_first_asked_at = 2000, w_reason = None\<rparr>], l_contended_since := Some 2000\<rparr>"

lemma used_board_eval: "used_board = put_lease (board_new default_policy) ''desk'' used_lease"
  by (simp add: used_board_def used_lease_def board_eval ada_def)

lemma queued_board_eval: "queued_board = put_lease (board_new default_policy) ''desk'' queued_lease"
  by (simp add: queued_board_def used_board_eval used_lease_def queued_lease_def board_eval ada_def bot_def)

lemma used_board_wf: "board_wf used_board"
  unfolding used_board_def by (rule board_run_wf [OF board_wf_new])

lemma queued_board_wf: "board_wf queued_board"
  unfolding queued_board_def by (rule board_run_wf [OF used_board_wf])

subsection \<open>The board as a whole\<close>

text \<open>
  C8. Every board that calls and ended sessions can produce from an empty one is well formed:
  its maps are ordered, and each lease is a well formed lease of the board's own timers under
  the name of its session, held by a party whose transport is up, and never caught between a
  handover and its confirmation.
\<close>

theorem reachable_board_wf: "board_reachable pol b \<Longrightarrow> board_wf b"
  by (induction rule: board_reachable.induct) (simp_all add: board_wf_new board_step_wf board_remove_wf)

theorem reachable_board_wf_witness:
  "board_reachable default_policy (fst (board_step (board_new default_policy) (BdPersonInput ''desk'' ada) 1000))
   \<and> board_wf (fst (board_step (board_new default_policy) (BdPersonInput ''desk'' ada) 1000))"
  using reachable_board_wf [OF board_reachable.call [OF board_reachable.start]]
    board_reachable.call [OF board_reachable.start] by blast

text \<open>
  On every session of every board that was reached by calls, no party comes to dispatch
  in a run of calls unless some transition reported for that session in the run owed the
  caller a release of held input. The board confirms handovers itself, so its callers need no
  side condition on the phase.
\<close>

theorem board_no_silent_handover:
  assumes "board_wf b" and "run_steps (board_reports key) b ops = (b', ts)"
    and "fence (lease_at b key) q = ReleaseOnly" and "fence (lease_at b' key) q = Allowed"
  shows "\<exists>t\<in>set ts. must_release t"
proof -
  have "l_phase (lease_at b key) \<noteq> HandingOver" using lease_at_ok [OF assms(1)] by (simp add: session_ok_def)
  then show ?thesis
    using board_arbiter.run_moves [OF assms(2)] assms(3,4) by (auto simp: fence_dispatcher fence_other)
qed

theorem board_no_silent_handover_witness:
  "\<exists>t\<in>set (snd (run_steps (board_reports ''desk'') (board_new default_policy) [(BdPersonInput ''desk'' ada, 1000)])).
     must_release t"
proof -
  let ?r = "run_steps (board_reports ''desk'') (board_new default_policy) [(BdPersonInput ''desk'' ada, 1000)]"
  have "fst ?r = used_board"
    by (simp add: used_board_def board_run_def board_reports_def case_prod_beta Let_def)
  moreover have "fence (lease_at used_board ''desk'') ''window-1'' = Allowed"
    by (simp add: used_board_eval used_lease_def fence_def holder_is_def ada_def party_new_def exclusive_def)
  moreover have "fence (lease_at (board_new default_policy) ''desk'') ''window-1'' = ReleaseOnly"
    by (simp add: lease_at_def board_new_def bt_get_def lease_new_def fence_def)
  ultimately show ?thesis
    using board_no_silent_handover [OF board_wf_new prod.collapse [symmetric], where q = "''window-1''"]
    by metis
qed

text \<open>
  C9. The answer to an agent's input is exactly the fence: it is let through if and only if
  the session, as the call leaves it, dispatches that party's intents; and a refused input has
  changed nothing beyond what the passing of time had already done to the session.
\<close>

theorem board_input_gate:
  assumes "board_wf b" and "board_input b key p now = (b', a)"
  shows "(a_refusal a = None \<longleftrightarrow> fence (lease_at b' key) (p_id p) = Allowed) \<and>
    (a_refusal a \<noteq> None \<longrightarrow> lease_at b' key = lease_at (fst (board_status b key now)) key)"
  using input_gate_lease [OF lease_at_ok [OF assms(1)] assms(2)]
  by (cases "a_refusal a") (auto simp: board_status_def case_prod_beta)

theorem board_input_gate_witness:
  "a_refusal (snd (board_input used_board ''desk'' bot 2000)) \<noteq> None"
proof -
  have "fence (lease_at (fst (board_input used_board ''desk'' bot 2000)) ''desk'') ''grant-1'' = ReleaseOnly"
    by (simp add: used_board_eval used_lease_def board_eval ada_def bot_def)
  then show ?thesis
    using board_input_gate [OF used_board_wf, of "''desk''" bot 2000 "fst (board_input used_board ''desk'' bot 2000)"
        "snd (board_input used_board ''desk'' bot 2000)"]
    by (simp add: bot_def party_new_def)
qed

subsection \<open>A person is not disturbed\<close>

text \<open>
  While a person uses a session and has muted requests, an agent's ask is refused as
  muted, the agent is left neither in the queue nor as the party a preemption is running for,
  and the person's hold is untouched.
\<close>

theorem muted_ask_refused:
  assumes "board_wf b" and "b1 = fst (board_status b key now)" and "\<not> is_person (p_kind p)"
    and "person_holds b1 key now" and "muted b1 now \<noteq> None" and "ask b key p reason now = (b', a)"
  shows "(\<exists>d. a_refusal a = Some (Muted d)) \<and>
    p_id p \<notin> set (pending_ids (lease_at b' key)) \<union> set (queue_ids (lease_at b' key)) \<and>
    l_holder (lease_at b' key) = l_holder (lease_at b1 key)"
proof -
  obtain d where "mute_left b1 key now = Some d"
    using assms(5) by (cases "muted b1 now"; cases "the (muted b1 now)") (auto simp: mute_left_def)
  then have "gate b1 key p now = Some (Muted d)" using assms(3,4) by (rule gate_muted [rotated 2])
  then show ?thesis
    using quiet_ask_lease [OF lease_at_ok [OF assms(1)], of key now p "Muted d" reason b' a] assms(2,6)
    by simp
qed

definition muted_board :: board where
  "muted_board = used_board\<lparr>b_mute := Some (MuteAt 50000)\<rparr>"

theorem muted_ask_refused_witness:
  "\<exists>d. a_refusal (snd (ask muted_board ''desk'' bot None 2000)) = Some (Muted d)"
proof -
  let ?b1 = "fst (board_status muted_board ''desk'' 2000)"
  have "board_wf muted_board" by (simp add: muted_board_def used_board_wf)
  moreover have "\<not> is_person (p_kind bot)" by (simp add: bot_def party_new_def)
  moreover have "person_holds ?b1 ''desk'' 2000" and "muted ?b1 2000 \<noteq> None"
    by (simp_all add: muted_board_def used_board_eval used_lease_def board_eval ada_def)
  ultimately show ?thesis
    using muted_ask_refused [of muted_board ?b1 "''desk''" 2000 bot None] by (metis prod.collapse)
qed

text \<open>
  After "not now" at \<open>t0\<close>, and whatever calls are made in between, that agent's asks on
  that session are refused as muted or as "not now" for the whole of the next minute, for as
  long as a person uses the session, and leave it out of the queue.
\<close>

theorem not_now_silences:
  assumes "board_wf b" and "b1 = board_run (fst (not_now b key (p_id p) t0)) ops"
    and "list_all (\<lambda>x. t0 \<le> snd x \<and> snd x < plus_millis t0 not_now_ms) ops"
    and "now < plus_millis t0 not_now_ms" and "\<not> is_person (p_kind p)"
    and "person_holds (fst (board_status b1 key now)) key now" and "ask b1 key p reason now = (b', a)"
  shows "(\<exists>d. a_refusal a = Some (Muted d) \<or> a_refusal a = Some (NotNow d)) \<and>
    p_id p \<notin> set (queue_ids (lease_at b' key))"
proof -
  let ?u = "plus_millis t0 not_now_ms" and ?s = "fst (board_status b1 key now)"
  have "declined_until (fst (not_now b key (p_id p) t0)) (key, p_id p) ?u"
    using assms(1) by (simp add: declined_until_def not_now_declined bt_get_insert bt_wf_insert board_wf_def)
  then have "declined_until b1 (key, p_id p) ?u" using assms(2,3) by (simp add: board_run_declined)
  then obtain u where u: "bt_get (b_declined ?s) (key, p_id p) = Some u" and "?u \<le> u"
    by (auto simp: declined_until_def calls_declined [OF status_calls] split: option.splits)
  then have "\<not> reached now u" using assms(4) by (simp add: reached_def)
  then obtain e where e: "gate ?s key p now = Some e" and "\<exists>d. e = Muted d \<or> e = NotNow d"
    using gate_not_now [OF assms(5,6) u] by (cases "mute_left ?s key now") auto
  moreover have "board_wf b1" using assms(1,2) by (simp add: board_run_wf not_now_wf)
  ultimately show ?thesis using quiet_ask_lease [OF lease_at_ok e assms(7)] by auto
qed

theorem not_now_silences_witness:
  "p_id bot \<notin> set (queue_ids (lease_at (fst (ask (fst (not_now queued_board ''desk'' (p_id bot) 3000))
     ''desk'' bot None 4000)) ''desk''))"
proof -
  let ?b1 = "fst (not_now queued_board ''desk'' (p_id bot) 3000)"
  have "person_holds (fst (board_status ?b1 ''desk'' 4000)) ''desk'' 4000"
    by (simp add: queued_board_eval queued_lease_def used_lease_def board_eval ada_def bot_def)
  moreover have "(4000 :: u64) < plus_millis 3000 not_now_ms"
    by (simp add: plus_millis_def sat_add_def not_now_ms_def)
  moreover have "\<not> is_person (p_kind bot)" by (simp add: bot_def party_new_def)
  moreover obtain b' a where r: "ask ?b1 ''desk'' bot None 4000 = (b', a)" by fastforce
  ultimately have "p_id bot \<notin> set (queue_ids (lease_at b' ''desk''))"
    using not_now_silences [OF queued_board_wf, where ops = "[]", of ?b1 "''desk''" bot 3000 4000 None b' a]
    by (simp only: board_run_simps list.pred_inject simp_thms)
  then show ?thesis unfolding r fst_conv .
qed

subsection \<open>Going away and giving way\<close>

text \<open>
  A party that went away is gone everywhere: after \<open>forget_party\<close> it holds no session,
  waits for none, and no preemption runs in its name, on any session of the board, and no
  session was added or dropped.
\<close>

theorem forget_party_clears:
  assumes "board_wf b" and "forget_party b i now = (b', out)"
  shows "(\<forall>key l. bt_get (b_leases b') key = Some l \<longrightarrow> i \<notin> set (roles l)) \<and>
    (\<forall>key. bt_get (b_leases b') key = None \<longleftrightarrow> bt_get (b_leases b) key = None)"
proof -
  have b': "b' = fst (release_each b i now (keys b))" using assms(2) by (simp add: forget_party_def)
  have same: "bt_get (b_leases b') key = None \<longleftrightarrow> bt_get (b_leases b) key = None" for key
    using release_each_keys [of b i now "keys b" key]
    by (auto simp: b' keys_def bt_keys_def bt_get_def map_of_eq_None_iff)
  moreover have "i \<notin> set (roles l)" if l: "bt_get (b_leases b') key = Some l" for key l
  proof -
    have "bt_get (b_leases b) key \<noteq> None" using same [of key] l by simp
    then have "key \<in> set (keys b)" by (simp add: keys_def bt_keys_def bt_get_def map_of_eq_None_iff)
    then have "i \<notin> set (roles (lease_at b' key))" unfolding b' by (intro release_each_gone [OF assms(1)]) simp
    then show ?thesis using l by (simp add: lease_at_def)
  qed
  ultimately show ?thesis by blast
qed

theorem forget_party_clears_witness:
  "bt_get (b_leases (fst (forget_party queued_board ''window-1'' 3000))) ''office'' = None"
  using forget_party_clears [OF queued_board_wf, of "''window-1''" 3000 "fst (forget_party queued_board ''window-1'' 3000)"
      "snd (forget_party queued_board ''window-1'' 3000)"]
  by (simp add: queued_board_eval put_lease_def board_new_def bt_get_def)

text \<open>
  When the holder of a session lets a waiting agent have it, the agent drives it when the
  call returns, whatever its place in the queue was.
\<close>

theorem yield_to_grants:
  assumes "board_wf b" and "fst (board_status b key now) = b1"
    and "l_holder (lease_at b1 key) = Some h" and "p_id (h_party h) = person"
    and "l_pending (lease_at b1 key) = None" and "i \<in> set (queue_ids (lease_at b1 key))"
    and "yield_to b key i person now = (b', a)"
  shows "a_refusal a = None \<and> fence (lease_at b' key) i = Allowed"
  using assms by (intro yield_lease [OF lease_at_ok]) simp_all

theorem yield_to_grants_witness:
  "fence (lease_at (fst (yield_to queued_board ''desk'' ''grant-1'' ''window-1'' 3000)) ''desk'') ''grant-1'' = Allowed"
proof -
  let ?b1 = "fst (board_status queued_board ''desk'' 3000)"
  have l: "lease_at ?b1 ''desk'' = queued_lease"
    by (simp add: queued_board_eval queued_lease_def used_lease_def board_eval ada_def bot_def)
  show ?thesis
    using yield_to_grants [OF queued_board_wf, of "''desk''" 3000 ?b1 _ "''window-1''" "''grant-1''"
        "fst (yield_to queued_board ''desk'' ''grant-1'' ''window-1'' 3000)"
        "snd (yield_to queued_board ''desk'' ''grant-1'' ''window-1'' 3000)"]
    by (simp add: l) (simp add: queued_lease_def used_lease_def queue_ids_def ada_def bot_def party_new_def
        exclusive_def)
qed

end
