(* ===== verification/Byte_Order.thy ===== *)
theory Byte_Order
  imports Prelude
begin

text \<open>
  Byte strings, and machine integers as byte strings: \<open>to_le_bytes\<close>, \<open>to_be_bytes\<close> and their
  inverses of Rust's integer types, which every parser of the workspace rests on.
\<close>

type_synonym bytes = "u8 list"

subsection \<open>Bytes of integers\<close>

fun nat_to_le :: "nat \<Rightarrow> nat \<Rightarrow> bytes" where
  "nat_to_le 0 v = []"
| "nat_to_le (Suc n) v = of_nat (v mod 256) # nat_to_le n (v div 256)"

fun nat_of_le :: "bytes \<Rightarrow> nat" where
  "nat_of_le [] = 0"
| "nat_of_le (b # bs) = unat b + 256 * nat_of_le bs"

definition to_le_bytes :: "'a::len word \<Rightarrow> bytes" where
  "to_le_bytes v = nat_to_le (LENGTH('a) div 8) (unat v)"

definition to_be_bytes :: "'a::len word \<Rightarrow> bytes" where
  "to_be_bytes v = rev (to_le_bytes v)"

definition from_le_bytes :: "bytes \<Rightarrow> 'a::len word" where
  "from_le_bytes bs = of_nat (nat_of_le bs)"

definition from_be_bytes :: "bytes \<Rightarrow> 'a::len word" where
  "from_be_bytes bs = from_le_bytes (rev bs)"

lemma length_nat_to_le [simp]: "length (nat_to_le n v) = n"
  by (induction n arbitrary: v) simp_all

lemma length_to_bytes [simp]:
  "length (to_le_bytes (v :: 'a::len word)) = LENGTH('a) div 8"
  "length (to_be_bytes (v :: 'a::len word)) = LENGTH('a) div 8"
  by (simp_all add: to_le_bytes_def to_be_bytes_def)

lemma unat_byte [simp]: "unat (of_nat (v mod 256) :: u8) = v mod 256"
  by (simp add: unsigned_of_nat take_bit_eq_mod)

lemma nat_of_to_le: "nat_of_le (nat_to_le n v) = v mod 256 ^ n"
proof (induction n arbitrary: v)
  case (Suc n)
  then show ?case by (simp add: mod_mult2_eq [symmetric]) (metis mod_mult2_eq add.commute)
qed simp

lemma nat_of_le_bound: "nat_of_le bs < 256 ^ length bs"
proof (induction bs)
  case (Cons b bs)
  have "unat b < 256" using unsigned_less [of b] by simp
  with Cons show ?case by simp
qed simp

lemma nat_to_of_le: "nat_to_le (length bs) (nat_of_le bs) = bs"
proof (induction bs)
  case (Cons b bs)
  have b: "unat b < 256" using unsigned_less [of b] by simp
  then have "(unat b + 256 * nat_of_le bs) mod 256 = unat b" by simp
  with Cons b show ?case by simp
qed simp

lemma word_bytes:
  "8 dvd LENGTH('a::len) \<Longrightarrow> 256 ^ (LENGTH('a) div 8) = (2 :: nat) ^ LENGTH('a)"
proof (erule dvdE)
  fix k assume "LENGTH('a) = 8 * k"
  then show ?thesis by (simp add: power_mult)
qed

lemma from_to_le_bytes [simp]:
  "8 dvd LENGTH('a::len) \<Longrightarrow> from_le_bytes (to_le_bytes v) = (v :: 'a word)"
  using unsigned_less [of v] by (simp add: from_le_bytes_def to_le_bytes_def nat_of_to_le word_bytes)

lemma from_to_be_bytes [simp]:
  "8 dvd LENGTH('a::len) \<Longrightarrow> from_be_bytes (to_be_bytes v) = (v :: 'a word)"
  by (simp add: from_be_bytes_def to_be_bytes_def)

lemma to_from_le_bytes:
  "8 dvd LENGTH('a::len) \<Longrightarrow> length bs = LENGTH('a) div 8 \<Longrightarrow>
   to_le_bytes (from_le_bytes bs :: 'a word) = bs"
  using nat_of_le_bound [of bs] nat_to_of_le [of bs]
  by (simp add: from_le_bytes_def to_le_bytes_def word_bytes unsigned_of_nat take_bit_nat_eq_self)

end
