(* ===== verification/Wire.thy ===== *)
theory Wire
  imports Byte_Order
begin

text \<open>
  The wire layer of \<open>crates/rdp-pdu\<close>: the one error type (\<open>io/error.rs\<close>), and the bounds
  checked cursor \<open>Reader\<close> (\<open>io/reader.rs\<close>); the writer is in theory Wire. A decoder is
  a function from the reader to an error or to a value with the advanced reader. A \<open>usize\<close> is
  a natural number with the 64 bit bound written out where the source checks it; integers on
  the wire are machine words. The contract between the two sides is the locale \<open>codec\<close>.
\<close>

subsection \<open>Errors (\<open>io/error.rs\<close>)\<close>

datatype pdu_error =
    Truncated string nat nat nat
  | InvalidField string string nat nat
  | LengthMismatch string nat nat nat
  | CapExceeded string nat nat string nat
  | Unsupported string string nat nat
  | Asn1Tag string u8 u8 nat
  | EncodeErr string string

subsection \<open>The reader (\<open>io/reader.rs\<close>)\<close>

record reader =
  rd_buf :: bytes
  rd_pos :: nat
  rd_base :: nat

type_synonym 'a rd = "reader \<Rightarrow> pdu_error + 'a \<times> reader"

definition rret :: "'a \<Rightarrow> 'a rd" where
  "rret a r = Inr (a, r)"

definition rfail :: "pdu_error \<Rightarrow> 'a rd" where
  "rfail e r = Inl e"

definition rbind :: "'a rd \<Rightarrow> ('a \<Rightarrow> 'b rd) \<Rightarrow> 'b rd" where
  "rbind m f r = bind_res (m r) (\<lambda>(a, r'). f a r')"

definition rmap :: "('a \<Rightarrow> 'b) \<Rightarrow> 'a rd \<Rightarrow> 'b rd" where
  "rmap f m = rbind m (\<lambda>a. rret (f a))"

definition reader_new :: "bytes \<Rightarrow> reader" where
  "reader_new buf = \<lparr>rd_buf = buf, rd_pos = 0, rd_base = 0\<rparr>"

definition reader_sub :: "bytes \<Rightarrow> nat \<Rightarrow> reader" where
  "reader_sub buf base = \<lparr>rd_buf = buf, rd_pos = 0, rd_base = base\<rparr>"

definition remaining :: "reader \<Rightarrow> nat" where
  "remaining r = length (rd_buf r) - rd_pos r"

definition offset :: "reader \<Rightarrow> nat" where
  "offset r = rd_base r + rd_pos r"

definition rd_is_empty :: "reader \<Rightarrow> bool" where
  "rd_is_empty r \<longleftrightarrow> length (rd_buf r) \<le> rd_pos r"

definition checked_add :: "nat \<Rightarrow> nat \<Rightarrow> nat option" where
  "checked_add a b = (if a + b < 2 ^ 64 then Some (a + b) else None)"

definition rd_slice :: "nat \<Rightarrow> string \<Rightarrow> bytes rd" where
  "rd_slice n ctx r =
     (case checked_add (rd_pos r) n of
        None \<Rightarrow> Inl (Truncated ctx (offset r) n (remaining r))
      | Some e \<Rightarrow>
          if length (rd_buf r) < e then Inl (Truncated ctx (offset r) n (remaining r))
          else Inr (take (e - rd_pos r) (drop (rd_pos r) (rd_buf r)), r\<lparr>rd_pos := e\<rparr>))"

definition rd_array :: "nat \<Rightarrow> string \<Rightarrow> bytes rd" where
  "rd_array n ctx = rd_slice n ctx"

definition rd_take :: "nat \<Rightarrow> string \<Rightarrow> reader rd" where
  "rd_take n ctx r = bind_res (rd_slice n ctx r) (\<lambda>(body, r'). Inr (reader_sub body (offset r), r'))"

definition rd_rest :: "reader \<Rightarrow> bytes \<times> reader" where
  "rd_rest r = (case rd_slice (remaining r) ''rest'' r of Inr (b, r') \<Rightarrow> (b, r') | Inl _ \<Rightarrow> ([], r))"

definition rd_u8 :: "string \<Rightarrow> u8 rd" where
  "rd_u8 ctx = rmap from_le_bytes (rd_array 1 ctx)"

definition peek_u8 :: "string \<Rightarrow> reader \<Rightarrow> pdu_error + u8" where
  "peek_u8 ctx r = bind_res (rd_u8 ctx r) (\<lambda>(b, _). Inr b)"

definition rd_u16 :: "string \<Rightarrow> u16 rd" where
  "rd_u16 ctx = rmap from_le_bytes (rd_array 2 ctx)"

definition rd_u32 :: "string \<Rightarrow> u32 rd" where
  "rd_u32 ctx = rmap from_le_bytes (rd_array 4 ctx)"

definition rd_u64 :: "string \<Rightarrow> u64 rd" where
  "rd_u64 ctx = rmap from_le_bytes (rd_array 8 ctx)"

definition rd_be_u16 :: "string \<Rightarrow> u16 rd" where
  "rd_be_u16 ctx = rmap from_be_bytes (rd_array 2 ctx)"

definition rd_be_u32 :: "string \<Rightarrow> u32 rd" where
  "rd_be_u32 ctx = rmap from_be_bytes (rd_array 4 ctx)"

definition rd_skip :: "nat \<Rightarrow> string \<Rightarrow> unit rd" where
  "rd_skip n ctx = rbind (rd_slice n ctx) (\<lambda>_. rret ())"

definition rd_align :: "nat \<Rightarrow> string \<Rightarrow> unit rd" where
  "rd_align n ctx r =
     (if n = 0 then Inr ((), r) else rd_skip ((n - rd_pos r mod n) mod n) ctx r)"

definition expect_empty :: "string \<Rightarrow> unit rd" where
  "expect_empty ctx r =
     (if rd_is_empty r then Inr ((), r)
      else Inl (LengthMismatch ctx (rd_pos r) (length (rd_buf r)) (offset r)))"

definition ensure_cap :: "nat \<Rightarrow> nat \<Rightarrow> string \<Rightarrow> string \<Rightarrow> unit rd" where
  "ensure_cap declared cap limit ctx r =
     (if cap < declared then Inl (CapExceeded ctx declared cap limit (offset r)) else Inr ((), r))"

text \<open>Bytes left to read, and the reader after reading some.\<close>

definition left :: "reader \<Rightarrow> bytes" where
  "left r = drop (rd_pos r) (rd_buf r)"

definition advance :: "nat \<Rightarrow> reader \<Rightarrow> reader" where
  "advance n r = r\<lparr>rd_pos := rd_pos r + n\<rparr>"

text \<open>A reader over a real buffer: the cursor is inside, and a buffer is shorter than \<open>isize::MAX\<close>.\<close>

definition reader_ok :: "reader \<Rightarrow> bool" where
  "reader_ok r \<longleftrightarrow> rd_pos r \<le> length (rd_buf r) \<and> length (rd_buf r) < 2 ^ 63"

text \<open>What a read may do to the reader: move the cursor forward, inside the buffer.\<close>

definition extends :: "reader \<Rightarrow> reader \<Rightarrow> bool" where
  "extends r r' \<longleftrightarrow> rd_buf r' = rd_buf r \<and> rd_base r' = rd_base r \<and>
     rd_pos r \<le> rd_pos r' \<and> rd_pos r' \<le> length (rd_buf r')"

named_theorems rd_simps \<open>reads of a cursor that is inside its buffer\<close>

lemma left_advance [simp]: "left (advance n r) = drop n (left r)"
  by (simp add: left_def advance_def add.commute)

lemma length_left [simp]: "length (left r) = remaining r"
  by (simp add: left_def remaining_def)

lemma left_length: "left r = xs @ post \<Longrightarrow> length xs \<le> remaining r"
  by (metis length_append le_add1 length_left)

lemma advance_simps [simp]:
  "rd_buf (advance n r) = rd_buf r" "rd_base (advance n r) = rd_base r"
  "rd_pos (advance n r) = rd_pos r + n" "advance 0 r = r" "advance m (advance n r) = advance (n + m) r"
  "offset (advance n r) = offset r + n"
  by (simp_all add: advance_def offset_def)

lemma remaining_advance [simp]: "remaining (advance n r) = remaining r - n"
  by (simp add: remaining_def)

lemma reader_ok_advance [simp]: "reader_ok r \<Longrightarrow> n \<le> remaining r \<Longrightarrow> reader_ok (advance n r)"
  by (auto simp: reader_ok_def remaining_def)

lemma reader_ok_new [simp]: "reader_ok (reader_new buf) \<longleftrightarrow> length buf < 2 ^ 63"
  by (simp add: reader_ok_def reader_new_def)

lemma left_new [simp]: "left (reader_new buf) = buf" "left (reader_sub buf base) = buf"
  by (simp_all add: left_def reader_new_def reader_sub_def)

lemma remaining_bound: "reader_ok r \<Longrightarrow> remaining r < 2 ^ 63"
  by (auto simp: reader_ok_def remaining_def)

lemma extends_refl [simp]: "reader_ok r \<Longrightarrow> extends r r"
  by (simp add: extends_def reader_ok_def)

lemma extends_trans: "extends r r1 \<Longrightarrow> extends r1 r2 \<Longrightarrow> extends r r2"
  by (auto simp: extends_def)

lemma extends_ok: "reader_ok r \<Longrightarrow> extends r r' \<Longrightarrow> reader_ok r'"
  by (auto simp: extends_def reader_ok_def)

lemma extends_advance [simp]: "reader_ok r \<Longrightarrow> n \<le> remaining r \<Longrightarrow> extends r (advance n r)"
  by (auto simp: extends_def reader_ok_def remaining_def)

lemma rd_slice_ok [rd_simps]:
  assumes "reader_ok r"
  shows "rd_slice n ctx r =
    (if n \<le> remaining r then Inr (take n (left r), advance n r)
     else Inl (Truncated ctx (offset r) n (remaining r)))"
proof -
  have "rd_pos r \<le> length (rd_buf r)" and "length (rd_buf r) < 2 ^ 63"
    using assms by (simp_all add: reader_ok_def)
  then show ?thesis
    by (auto simp: rd_slice_def checked_add_def remaining_def left_def advance_def)
qed

lemma rret_simp [simp]: "rret a r = Inr (a, r)"
  by (simp add: rret_def)

lemma rfail_simp [simp]: "rfail e r = Inl e"
  by (simp add: rfail_def)

lemma rbind_Inr: "rbind m f r = Inr (b, r') \<longleftrightarrow> (\<exists>a r1. m r = Inr (a, r1) \<and> f a r1 = Inr (b, r'))"
  by (cases "m r") (auto simp: rbind_def)

lemma rbind_step: "m r = Inr (a, r1) \<Longrightarrow> rbind m f r = f a r1"
  by (simp add: rbind_def)

lemma rmap_Inr: "rmap g m r = Inr (b, r') \<longleftrightarrow> (\<exists>a. m r = Inr (a, r') \<and> b = g a)"
  by (auto simp: rmap_def rbind_Inr)

lemma rmap_step: "m r = Inr (a, r1) \<Longrightarrow> rmap g m r = Inr (g a, r1)"
  by (simp add: rmap_def rbind_step)

subsection \<open>The contract between a decoder and an encoder\<close>

text \<open>
  \<open>decoder\<close>: a read only moves the cursor forward inside the buffer. \<open>codec\<close>: it also reads
  back exactly the encoding of a value and stops right behind it, whatever follows. The laws
  are what composing decoders needs; \<open>ok\<close> is the set of values the encoder is for.
\<close>

fun rrepeat :: "nat \<Rightarrow> 'a rd \<Rightarrow> 'a list rd" where
  "rrepeat 0 m = rret []"
| "rrepeat (Suc n) m = rbind m (\<lambda>a. rbind (rrepeat n m) (\<lambda>as. rret (a # as)))"

locale decoder =
  fixes dec :: "'a rd"
  assumes safe: "reader_ok r \<Longrightarrow> dec r = Inr (a, r') \<Longrightarrow> extends r r'"
begin

lemma stays_ok: "reader_ok r \<Longrightarrow> dec r = Inr (a, r') \<Longrightarrow> reader_ok r'"
  by (rule extends_ok [OF _ safe])

lemma repeat_safe: "reader_ok r \<Longrightarrow> rrepeat n dec r = Inr (as, r') \<Longrightarrow> extends r r' \<and> length as = n"
proof (induction n arbitrary: r as)
  case (Suc n)
  then obtain a r1 bs where "dec r = Inr (a, r1)" and "rrepeat n dec r1 = Inr (bs, r')" and "as = a # bs"
    by (auto simp: rbind_Inr)
  moreover have "extends r1 r' \<and> length bs = n"
    using calculation Suc.prems(1) by (intro Suc.IH) (auto dest: stays_ok)
  ultimately show ?case using Suc.prems(1) by (auto intro: extends_trans safe)
qed simp

end

text \<open>Decoders compose as the source composes them, with \<open>?\<close>, branches and early returns.\<close>

lemma decoder_rret: "decoder (rret a)"
  by unfold_locales simp

lemma decoder_rfail: "decoder (rfail e)"
  by unfold_locales simp

lemma decoder_rbind:
  assumes "decoder m" and "\<And>a. decoder (f a)"
  shows "decoder (rbind m f)"
proof
  fix r b r'
  assume r: "reader_ok r" and "rbind m f r = Inr (b, r')"
  then obtain a r1 where "m r = Inr (a, r1)" and f: "f a r1 = Inr (b, r')" by (auto simp: rbind_Inr)
  with r have "extends r r1" and "reader_ok r1"
    using decoder.safe [OF assms(1)] decoder.stays_ok [OF assms(1)] by blast+
  with f show "extends r r'" using decoder.safe [OF assms(2)] extends_trans by blast
qed

lemma decoder_rmap: "decoder m \<Longrightarrow> decoder (rmap g m)"
  by (simp add: rmap_def decoder_rbind decoder_rret)

lemma decoder_if: "(b \<Longrightarrow> decoder m) \<Longrightarrow> (\<not> b \<Longrightarrow> decoder m') \<Longrightarrow> decoder (if b then m else m')"
  by simp

lemma decoder_look: "(\<And>x. decoder (f x)) \<Longrightarrow> decoder (\<lambda>r. f (g r) r)"
  by (auto simp: decoder_def)

lemma decoder_slice: "decoder (rd_slice n ctx)"
  by unfold_locales (auto simp: rd_slice_ok split: if_splits)

lemma decoder_skip: "decoder (rd_skip n ctx)"
  by (simp add: rd_skip_def decoder_rbind decoder_slice decoder_rret)

lemmas decoder_intros = decoder_rret decoder_rfail decoder_rbind decoder_rmap decoder_if decoder_slice decoder_skip

locale codec = decoder dec for dec :: "'a rd" +
  fixes enc :: "'a \<Rightarrow> bytes"
    and ok :: "'a \<Rightarrow> bool"
  assumes round: "reader_ok r \<Longrightarrow> ok a \<Longrightarrow> left r = enc a @ post \<Longrightarrow>
      dec r = Inr (a, advance (length (enc a)) r)"
begin

lemma decode_new:
  "ok a \<Longrightarrow> length (enc a) < 2 ^ 63 \<Longrightarrow>
   dec (reader_new (enc a)) = Inr (a, advance (length (enc a)) (reader_new (enc a)))"
  by (rule round [where post = "[]"]) simp_all

lemma reads_new:
  assumes "ok a" and "length (enc a @ post) < 2 ^ 63"
  shows "\<exists>r'. dec (reader_new (enc a @ post)) = Inr (a, r') \<and> left r' = post"
  using round [of "reader_new (enc a @ post)" a post] assms by simp

lemma prefix_free:
  assumes "ok a" and "ok b" and "enc a @ p = enc b @ q" and "length (enc a @ p) < 2 ^ 63"
  shows "a = b"
  using round [of "reader_new (enc a @ p)" a p] round [of "reader_new (enc a @ p)" b q] assms by simp

lemma repeat_round:
  "reader_ok r \<Longrightarrow> list_all ok as \<Longrightarrow> left r = concat (map enc as) @ post \<Longrightarrow>
   rrepeat (length as) dec r = Inr (as, advance (length (concat (map enc as))) r)"
proof (induction as arbitrary: r)
  case (Cons a as)
  have len: "length (enc a) \<le> remaining r"
    using Cons.prems(3) left_length [of r "enc a"] by simp
  have "dec r = Inr (a, advance (length (enc a)) r)"
    using Cons.prems by (intro round [where post = "concat (map enc as) @ post"]) simp_all
  moreover have "rrepeat (length as) dec (advance (length (enc a)) r) =
      Inr (as, advance (length (concat (map enc as))) (advance (length (enc a)) r))"
    using Cons.prems len by (intro Cons.IH) simp_all
  ultimately show ?case by (simp add: rbind_step)
qed simp

end

text \<open>
  An exact codec has one encoding per value: whatever it reads is the encoding of what it
  returns. Then what was decoded can be encoded again without changing a byte.
\<close>

locale exact_codec = codec +
  assumes canon: "reader_ok r \<Longrightarrow> dec r = Inr (a, r') \<Longrightarrow> ok a \<and> left r = enc a @ left r'"
begin

lemma repeat_canon:
  "reader_ok r \<Longrightarrow> rrepeat n dec r = Inr (as, r') \<Longrightarrow>
   list_all ok as \<and> left r = concat (map enc as) @ left r'"
proof (induction n arbitrary: r as)
  case (Suc n)
  then obtain a r1 bs where a: "dec r = Inr (a, r1)" and b: "rrepeat n dec r1 = Inr (bs, r')" and as: "as = a # bs"
    by (auto simp: rbind_Inr)
  have "list_all ok bs \<and> left r1 = concat (map enc bs) @ left r'"
    using stays_ok [OF Suc.prems(1) a] b by (rule Suc.IH)
  then show ?case using canon [OF Suc.prems(1) a] by (simp add: as)
qed simp

end

text \<open>Two codecs in a row are a codec of pairs.\<close>

definition then_read :: "'a rd \<Rightarrow> 'b rd \<Rightarrow> ('a \<times> 'b) rd" where
  "then_read da db = rbind da (\<lambda>a. rbind db (\<lambda>b. rret (a, b)))"

locale codec_pair = first: codec da ea oka + second: codec db eb okb
  for da :: "'a rd" and ea and oka and db :: "'b rd" and eb and okb
begin

lemma pair_safe: "reader_ok r \<Longrightarrow> then_read da db r = Inr (p, r') \<Longrightarrow> extends r r'"
  by (auto simp: then_read_def rbind_Inr intro: extends_trans first.safe second.safe dest: first.stays_ok)

lemma pair_round:
  assumes "reader_ok r" and "oka (fst p)" and "okb (snd p)"
    and "left r = (ea (fst p) @ eb (snd p)) @ post"
  shows "then_read da db r = Inr (p, advance (length (ea (fst p) @ eb (snd p))) r)"
proof -
  have len: "length (ea (fst p)) \<le> remaining r"
    using assms(4) left_length [of r "ea (fst p)"] by simp
  have "da r = Inr (fst p, advance (length (ea (fst p))) r)"
    using assms by (intro first.round) simp_all
  moreover have "db (advance (length (ea (fst p))) r) =
      Inr (snd p, advance (length (eb (snd p))) (advance (length (ea (fst p))) r))"
    using assms len by (intro second.round [where post = post]) simp_all
  ultimately show ?thesis by (simp add: then_read_def rbind_step)
qed

end

sublocale codec_pair \<subseteq> pair: codec "then_read da db" "\<lambda>p. ea (fst p) @ eb (snd p)"
  "\<lambda>p. oka (fst p) \<and> okb (snd p)"
proof
  show "extends r r'" if "reader_ok r" and "then_read da db r = Inr (p, r')" for r p r'
    using that by (rule pair_safe)
  show "then_read da db r = Inr (p, advance (length (ea (fst p) @ eb (snd p))) r)"
    if "reader_ok r" and "oka (fst p) \<and> okb (snd p)" and "left r = (ea (fst p) @ eb (snd p)) @ post"
    for r p post
    using that by (intro pair_round) simp_all
qed

subsection \<open>The integers of the wire\<close>

lemma le_codec:
  assumes "8 dvd LENGTH('a::len)"
  shows "exact_codec (rmap from_le_bytes (rd_array (LENGTH('a) div 8) ctx)) (to_le_bytes :: 'a word \<Rightarrow> bytes) (\<lambda>_. True)"
proof
  show "extends r r'" if "reader_ok r" and
    "rmap from_le_bytes (rd_array (LENGTH('a) div 8) ctx) r = Inr (a, r')" for r r' and a :: "'a word"
    using that by (auto simp: rmap_Inr rd_array_def rd_slice_ok split: if_splits)
  show "rmap from_le_bytes (rd_array (LENGTH('a) div 8) ctx) r = Inr (a, advance (length (to_le_bytes a)) r)"
    if "reader_ok r" and "left r = to_le_bytes a @ post" for r and a :: "'a word" and post
    using that assms left_length [OF that(2)] by (simp add: rmap_def rbind_def rd_array_def rd_slice_ok)
  show "True \<and> left r = to_le_bytes a @ left r'" if "reader_ok r" and
    "rmap from_le_bytes (rd_array (LENGTH('a) div 8) ctx) r = Inr (a, r')" for r r' and a :: "'a word"
    using that assms by (auto simp: rmap_Inr rd_array_def rd_slice_ok to_from_le_bytes split: if_splits)
qed

lemma be_codec:
  assumes "8 dvd LENGTH('a::len)"
  shows "exact_codec (rmap from_be_bytes (rd_array (LENGTH('a) div 8) ctx)) (to_be_bytes :: 'a word \<Rightarrow> bytes) (\<lambda>_. True)"
proof
  show "extends r r'" if "reader_ok r" and
    "rmap from_be_bytes (rd_array (LENGTH('a) div 8) ctx) r = Inr (a, r')" for r r' and a :: "'a word"
    using that by (auto simp: rmap_Inr rd_array_def rd_slice_ok split: if_splits)
  show "rmap from_be_bytes (rd_array (LENGTH('a) div 8) ctx) r = Inr (a, advance (length (to_be_bytes a)) r)"
    if "reader_ok r" and "left r = to_be_bytes a @ post" for r and a :: "'a word" and post
    using that assms left_length [OF that(2)] by (simp add: rmap_def rbind_def rd_array_def rd_slice_ok)
  show "True \<and> left r = to_be_bytes a @ left r'" if "reader_ok r" and
    "rmap from_be_bytes (rd_array (LENGTH('a) div 8) ctx) r = Inr (a, r')" for r r' and a :: "'a word"
    using that assms by (auto simp: rmap_Inr rd_array_def rd_slice_ok to_be_bytes_def from_be_bytes_def
        to_from_le_bytes split: if_splits)
qed

interpretation byte: exact_codec "rd_u8 ctx" to_le_bytes "\<lambda>_. True" for ctx
  using le_codec [where 'a = 8, of ctx] by (simp add: rd_u8_def)

interpretation le16: exact_codec "rd_u16 ctx" to_le_bytes "\<lambda>_. True" for ctx
  using le_codec [where 'a = 16, of ctx] by (simp add: rd_u16_def)

interpretation le32: exact_codec "rd_u32 ctx" to_le_bytes "\<lambda>_. True" for ctx
  using le_codec [where 'a = 32, of ctx] by (simp add: rd_u32_def)

interpretation le64: exact_codec "rd_u64 ctx" to_le_bytes "\<lambda>_. True" for ctx
  using le_codec [where 'a = 64, of ctx] by (simp add: rd_u64_def)

interpretation be16: exact_codec "rd_be_u16 ctx" to_be_bytes "\<lambda>_. True" for ctx
  using be_codec [where 'a = 16, of ctx] by (simp add: rd_be_u16_def)

interpretation be32: exact_codec "rd_be_u32 ctx" to_be_bytes "\<lambda>_. True" for ctx
  using be_codec [where 'a = 32, of ctx] by (simp add: rd_be_u32_def)

subsection \<open>Fields, one at a time\<close>

text \<open>
  Reading a field off the bytes that are left: what it answers, that the reader stays inside its
  buffer, and what is left behind it. A decoder of a record is a chain of these.
\<close>

lemma u8_round:
  assumes "reader_ok r" and "left r = v # post"
  shows "rd_u8 ctx r = Inr (v, advance 1 r)" and "reader_ok (advance 1 r)" and "left (advance 1 r) = post"
proof -
  have b: "to_le_bytes v = [v]"
    using unsigned_less [where 'a = nat, of v] by (simp add: to_le_bytes_def)
  show "rd_u8 ctx r = Inr (v, advance 1 r)" "reader_ok (advance 1 r)" "left (advance 1 r) = post"
    using byte.round [of r v post ctx] assms left_length [of r "[v]" post] b by simp_all
qed

lemma u16_round:
  assumes "reader_ok r" and "left r = to_le_bytes v @ post"
  shows "rd_u16 ctx r = Inr (v, advance 2 r)" and "reader_ok (advance 2 r)" and "left (advance 2 r) = post"
  using le16.round [OF assms(1) _ assms(2), of ctx] assms left_length [OF assms(2)] by simp_all

lemma u32_round:
  assumes "reader_ok r" and "left r = to_le_bytes v @ post"
  shows "rd_u32 ctx r = Inr (v, advance 4 r)" and "reader_ok (advance 4 r)" and "left (advance 4 r) = post"
  using le32.round [OF assms(1) _ assms(2), of ctx] assms left_length [OF assms(2)] by simp_all

lemma be_u16_round:
  assumes "reader_ok r" and "left r = to_be_bytes v @ post"
  shows "rd_be_u16 ctx r = Inr (v, advance 2 r)" and "reader_ok (advance 2 r)" and "left (advance 2 r) = post"
  using be16.round [OF assms(1) _ assms(2), of ctx] assms left_length [OF assms(2)] by simp_all

lemma slice_round:
  assumes "reader_ok r" and "left r = bs @ post" and "n = length bs"
  shows "rd_slice n ctx r = Inr (bs, advance n r)" and "reader_ok (advance n r)" and "left (advance n r) = post"
  using assms left_length [OF assms(2)] by (simp_all add: rd_slice_ok)

lemma skip_round:
  assumes "reader_ok r" and "left r = bs @ post" and "n = length bs"
  shows "rd_skip n ctx r = Inr ((), advance n r)" and "reader_ok (advance n r)" and "left (advance n r) = post"
  using slice_round [OF assms] by (simp_all add: rd_skip_def rbind_def)

lemma skip_one_round:
  assumes "reader_ok r" and "left r = x # post"
  shows "rd_skip 1 ctx r = Inr ((), advance 1 r)" and "reader_ok (advance 1 r)" and "left (advance 1 r) = post"
  using skip_round(1) [of r "[x]" post 1 ctx] skip_round(2,3) [of r "[x]" post 1] assms by simp_all

lemma take_round:
  assumes "reader_ok r" and "left r = bs @ post" and "n = length bs"
  shows "rd_take n ctx r = Inr (reader_sub bs (offset r), advance n r)" and "reader_ok (advance n r)"
    and "left (advance n r) = post" and "reader_ok (reader_sub bs (offset r))"
proof -
  have "length bs < 2 ^ 63" using left_length [OF assms(2)] remaining_bound [OF assms(1)] by simp
  then show "reader_ok (reader_sub bs (offset r))" by (simp add: reader_ok_def reader_sub_def)
qed (use slice_round [OF assms] in \<open>simp_all add: rd_take_def\<close>)

lemma expect_empty_left: "reader_ok r \<Longrightarrow> left r = [] \<Longrightarrow> expect_empty ctx r = Inr ((), r)"
  by (simp add: expect_empty_def rd_is_empty_def left_def)

lemma is_empty_left: "rd_is_empty r \<longleftrightarrow> left r = []"
  by (simp add: rd_is_empty_def left_def)

section \<open>The writer\<close>

text \<open>
  The appender of the wire layer (\<open>crates/rdp-pdu/src/io/writer.rs\<close>). A writer is the caller's
  buffer and the index where this PDU started; an operation returns the writer with the bytes
  appended. \<open>appends\<close> says that an operation appends fixed bytes whatever was written before,
  which is what turns an encoder on the writer into the encoding function of a codec.
\<close>

record writer =
  wr_out :: bytes
  wr_start :: nat

type_synonym wr = "writer \<Rightarrow> writer"
type_synonym try_wr = "writer \<Rightarrow> pdu_error + writer"

definition writer_new :: "bytes \<Rightarrow> writer" where
  "writer_new out = \<lparr>wr_out = out, wr_start = length out\<rparr>"

definition wr_len :: "writer \<Rightarrow> nat" where
  "wr_len w = length (wr_out w) - wr_start w"

definition wr_is_empty :: "writer \<Rightarrow> bool" where
  "wr_is_empty w \<longleftrightarrow> wr_len w = 0"

definition wr_bytes :: "bytes \<Rightarrow> wr" where
  "wr_bytes b w = w\<lparr>wr_out := wr_out w @ b\<rparr>"

definition wr_zeros :: "nat \<Rightarrow> wr" where
  "wr_zeros n w = w\<lparr>wr_out := wr_out w @ replicate n 0\<rparr>"

definition wr_u8 :: "u8 \<Rightarrow> wr" where
  "wr_u8 v w = w\<lparr>wr_out := wr_out w @ [v]\<rparr>"

definition wr_u16 :: "u16 \<Rightarrow> wr" where
  "wr_u16 v = wr_bytes (to_le_bytes v)"

definition wr_u32 :: "u32 \<Rightarrow> wr" where
  "wr_u32 v = wr_bytes (to_le_bytes v)"

definition wr_u64 :: "u64 \<Rightarrow> wr" where
  "wr_u64 v = wr_bytes (to_le_bytes v)"

definition wr_be_u16 :: "u16 \<Rightarrow> wr" where
  "wr_be_u16 v = wr_bytes (to_be_bytes v)"

definition wr_be_u32 :: "u32 \<Rightarrow> wr" where
  "wr_be_u32 v = wr_bytes (to_be_bytes v)"

definition wr_align :: "nat \<Rightarrow> wr" where
  "wr_align n w = (if n = 0 then w else wr_zeros ((n - wr_len w mod n) mod n) w)"

text \<open>A \<open>&str\<close> is the string of its UTF-8 bytes; \<open>ansi_fixed\<close> takes ASCII only.\<close>

definition str_bytes :: "string \<Rightarrow> bytes" where
  "str_bytes s = map (\<lambda>c. of_nat (of_char c)) s"

definition is_ascii :: "string \<Rightarrow> bool" where
  "is_ascii s \<longleftrightarrow> list_all (\<lambda>c. of_char c < (128 :: nat)) s"

definition wr_ansi_fixed :: "string \<Rightarrow> nat \<Rightarrow> string \<Rightarrow> try_wr" where
  "wr_ansi_fixed s n ctx w =
     (if \<not> is_ascii s then Inl (EncodeErr ctx ''ANSI field is not ASCII'')
      else if n < length s + 1 then Inl (EncodeErr ctx ''string does not fit its fixed width field'')
      else Inr (wr_zeros (n - length s) (wr_bytes (str_bytes s) w)))"

subsection \<open>Back patched lengths\<close>

definition reserved_body :: "nat \<Rightarrow> try_wr \<Rightarrow> writer \<Rightarrow> pdu_error + (nat \<times> nat) \<times> writer" where
  "reserved_body n f w =
     (let at = length (wr_out w);
          w1 = wr_zeros n w;
          body_start = length (wr_out w1)
      in bind_res (f \<lparr>wr_out = wr_out w1, wr_start = body_start\<rparr>)
           (\<lambda>inner. Inr ((at, length (wr_out inner) - body_start), w\<lparr>wr_out := wr_out inner\<rparr>)))"

definition wr_patch :: "nat \<Rightarrow> bytes \<Rightarrow> string \<Rightarrow> try_wr" where
  "wr_patch at v ctx w =
     (let e = at + length v in
      if length (wr_out w) < e then Inl (EncodeErr ctx ''length reservation disappeared'')
      else Inr (w\<lparr>wr_out := take at (wr_out w) @ v @ drop e (wr_out w)\<rparr>))"

definition with_len_u16 :: "bool \<Rightarrow> string \<Rightarrow> try_wr \<Rightarrow> try_wr" where
  "with_len_u16 include_self ctx f w =
     bind_res (reserved_body 2 f w) (\<lambda>((at, body), w').
       let total = (if include_self then body + 2 else body) in
       if total < 2 ^ 16 then wr_patch at (to_le_bytes (of_nat total :: u16)) ctx w'
       else Inl (EncodeErr ctx ''body longer than its u16 length prefix''))"

definition with_len_be_u16 :: "bool \<Rightarrow> string \<Rightarrow> try_wr \<Rightarrow> try_wr" where
  "with_len_be_u16 include_self ctx f w =
     bind_res (reserved_body 2 f w) (\<lambda>((at, body), w').
       let total = (if include_self then body + 2 else body) in
       if total < 2 ^ 16 then wr_patch at (to_be_bytes (of_nat total :: u16)) ctx w'
       else Inl (EncodeErr ctx ''body longer than its u16 length prefix''))"

definition with_len_u32 :: "bool \<Rightarrow> string \<Rightarrow> try_wr \<Rightarrow> try_wr" where
  "with_len_u32 include_self ctx f w =
     bind_res (reserved_body 4 f w) (\<lambda>((at, body), w').
       let total = (if include_self then body + 4 else body) in
       if total < 2 ^ 32 then wr_patch at (to_le_bytes (of_nat total :: u32)) ctx w'
       else Inl (EncodeErr ctx ''body longer than its u32 length prefix''))"

subsection \<open>What is appended\<close>

named_theorems wr_simps \<open>the bytes an operation appends\<close>

definition appends :: "try_wr \<Rightarrow> bytes \<Rightarrow> bool" where
  "appends f bs \<longleftrightarrow> (\<forall>w. f w = Inr (wr_bytes bs w))"

lemma appendsD: "appends f bs \<Longrightarrow> f w = Inr (wr_bytes bs w)"
  by (simp add: appends_def)

lemma wr_bytes_bytes [simp]: "wr_bytes b (wr_bytes a w) = wr_bytes (a @ b) w"
  by (simp add: wr_bytes_def)

lemma wr_bytes_Nil [simp]: "wr_bytes [] w = w"
  by (simp add: wr_bytes_def)

lemma to_le_bytes_byte [simp]: "to_le_bytes (v :: u8) = [v]"
proof -
  have "unat v < 256" using unsigned_less [of v] by simp
  then show ?thesis by (simp add: to_le_bytes_def)
qed

lemma wr_as_bytes [wr_simps]:
  "wr_u8 v = wr_bytes [v]" "wr_zeros n = wr_bytes (replicate n 0)"
  "wr_u16 v16 = wr_bytes (to_le_bytes v16)" "wr_u32 v32 = wr_bytes (to_le_bytes v32)"
  "wr_u64 v64 = wr_bytes (to_le_bytes v64)" "wr_be_u16 v16 = wr_bytes (to_be_bytes v16)"
  "wr_be_u32 v32 = wr_bytes (to_be_bytes v32)"
  by (simp_all add: fun_eq_iff wr_u8_def wr_zeros_def wr_u16_def wr_u32_def wr_u64_def wr_be_u16_def
      wr_be_u32_def wr_bytes_def)

lemma wr_out_bytes [simp]: "wr_out (wr_bytes b w) = wr_out w @ b" "wr_start (wr_bytes b w) = wr_start w"
  by (simp_all add: wr_bytes_def)

lemma wr_len_bytes [simp]: "wr_start w \<le> length (wr_out w) \<Longrightarrow> wr_len (wr_bytes b w) = wr_len w + length b"
  by (simp add: wr_len_def)

text \<open>A body behind a reserved length: the three forms at once, over the width of the length.\<close>

lemma reserved_body_appends:
  "appends f bs \<Longrightarrow> reserved_body n f w = Inr ((length (wr_out w), length bs), wr_bytes (replicate n 0 @ bs) w)"
  by (simp add: reserved_body_def Let_def appendsD wr_zeros_def wr_bytes_def)

lemma wr_patch_reserved:
  "length v = n \<Longrightarrow> wr_patch (length (wr_out w)) v ctx (wr_bytes (replicate n 0 @ bs) w) = Inr (wr_bytes (v @ bs) w)"
  by (simp add: wr_patch_def Let_def wr_bytes_def)

lemma with_len_appends:
  assumes "appends f bs"
  shows "length bs + (if i then 2 else 0) < 2 ^ 16 \<Longrightarrow>
      appends (with_len_u16 i ctx f) (to_le_bytes (of_nat (length bs + (if i then 2 else 0)) :: u16) @ bs)"
    and "length bs + (if i then 2 else 0) < 2 ^ 16 \<Longrightarrow>
      appends (with_len_be_u16 i ctx f) (to_be_bytes (of_nat (length bs + (if i then 2 else 0)) :: u16) @ bs)"
    and "length bs + (if i then 4 else 0) < 2 ^ 32 \<Longrightarrow>
      appends (with_len_u32 i ctx f) (to_le_bytes (of_nat (length bs + (if i then 4 else 0)) :: u32) @ bs)"
  by (auto simp: appends_def with_len_u16_def with_len_be_u16_def with_len_u32_def
      reserved_body_appends [OF assms] wr_patch_reserved Let_def ac_simps)

lemma with_len_refuses:
  assumes "appends f bs"
  shows "2 ^ 16 \<le> length bs + (if i then 2 else 0) \<Longrightarrow>
      with_len_u16 i ctx f w = Inl (EncodeErr ctx ''body longer than its u16 length prefix'')"
    and "2 ^ 16 \<le> length bs + (if i then 2 else 0) \<Longrightarrow>
      with_len_be_u16 i ctx f w = Inl (EncodeErr ctx ''body longer than its u16 length prefix'')"
    and "2 ^ 32 \<le> length bs + (if i then 4 else 0) \<Longrightarrow>
      with_len_u32 i ctx f w = Inl (EncodeErr ctx ''body longer than its u32 length prefix'')"
  by (auto simp: with_len_u16_def with_len_be_u16_def with_len_u32_def
      reserved_body_appends [OF assms] Let_def)

lemma ansi_fixed_appends:
  "is_ascii s \<Longrightarrow> length s < n \<Longrightarrow> appends (wr_ansi_fixed s n ctx) (str_bytes s @ replicate (n - length s) 0)"
  by (simp add: appends_def wr_ansi_fixed_def wr_simps)

subsection \<open>Alignment agrees on both sides\<close>

lemma pad_mod: "0 < (n :: nat) \<Longrightarrow> (k + (n - k mod n) mod n) mod n = 0"
  by (metis add.commute le_add_diff_inverse2 mod_add_left_eq mod_add_right_eq mod_le_divisor mod_self)

lemma wr_align_len:
  "0 < n \<Longrightarrow> wr_start w \<le> length (wr_out w) \<Longrightarrow>
   wr_len (wr_align n w) mod n = 0 \<and> wr_len (wr_align n w) < wr_len w + n \<and>
   wr_align n w = wr_bytes (replicate ((n - wr_len w mod n) mod n) 0) w"
  by (simp add: wr_align_def wr_simps pad_mod)

lemma rd_align_same:
  assumes "reader_ok r" and "0 < n" and "(n - rd_pos r mod n) mod n \<le> remaining r"
  shows "rd_align n ctx r = Inr ((), advance ((n - rd_pos r mod n) mod n) r)"
  using assms by (simp add: rd_align_def rd_skip_def rbind_def rd_slice_ok)

subsection \<open>What a fresh writer ends up with\<close>

definition written :: "wr \<Rightarrow> bytes" where
  "written f = wr_out (f (writer_new []))"

definition try_written :: "try_wr \<Rightarrow> pdu_error + bytes" where
  "try_written f = bind_res (f (writer_new [])) (\<lambda>w. Inr (wr_out w))"

lemma written_bytes [simp]: "written (wr_bytes b) = b"
  by (simp add: written_def writer_new_def)

lemma try_written_appends: "appends f b \<Longrightarrow> try_written f = Inr b"
  by (simp add: try_written_def appendsD writer_new_def)

section \<open>What a reassembler owes\<close>

text \<open>
  The contract of a reassembler: a state fed with pieces that are not trusted, which hands out
  whole messages. Whatever the pieces say, the state never holds more than its limit, and no
  message handed out is longer. The static channel reassembler
  (\<open>crates/rdp-pdu/src/vc/static_vc.rs\<close>) is an instance, in theory Static_Channel.
\<close>

locale assembler =
  fixes step :: "'s \<Rightarrow> 'i \<Rightarrow> 's \<times> ('e + bytes option) list"
    and good :: "'s \<Rightarrow> bool"
    and used :: "'s \<Rightarrow> nat"
    and limit :: "'s \<Rightarrow> nat"
  assumes keeps: "good s \<Longrightarrow> good (fst (step s i))"
    and within: "good s \<Longrightarrow> used s \<le> limit s"
    and fixed: "good s \<Longrightarrow> limit (fst (step s i)) = limit s"
    and small: "good s \<Longrightarrow> Inr (Some m) \<in> set (snd (step s i)) \<Longrightarrow> length m \<le> limit s"
begin

lemma run_keeps: "good s \<Longrightarrow> good (fst (run_steps step s xs)) \<and> limit (fst (run_steps step s xs)) = limit s"
  by (induction xs arbitrary: s) (simp_all add: Let_def case_prod_beta keeps fixed)

lemma run_within: "good s \<Longrightarrow> used (fst (run_steps step s xs)) \<le> limit s"
  using run_keeps [of s xs] within by metis

lemma run_small: "good s \<Longrightarrow> Inr (Some m) \<in> set (snd (run_steps step s xs)) \<Longrightarrow> length m \<le> limit s"
proof (induction xs arbitrary: s)
  case (Cons x xs)
  then have "Inr (Some m) \<in> set (snd (step s x)) \<or>
      Inr (Some m) \<in> set (snd (run_steps step (fst (step s x)) xs))"
    by (auto simp: Let_def case_prod_beta)
  then show ?case using Cons small [of s m x] keeps [of s x] fixed [of s x] by fastforce
qed simp

end

end
