(* ===== verification/Asn1.thy ===== *)
theory Asn1
  imports Wire
begin

text \<open>
  What the ASN.1 subsets of \<open>crates/rdp-pdu\<close> share (\<open>asn1/mod.rs\<close>): universal tags, definite
  lengths in the short and the long form, and the octets of a non negative INTEGER, which
  \<open>ber.rs\<close> and \<open>per.rs\<close> write the same way. A length on the writing side is a \<open>usize\<close>.
\<close>

unbundle bit_operations_syntax

subsection \<open>Bits of an octet\<close>

lemma top_bit: "(b :: u8) AND 0x80 = 0 \<longleftrightarrow> unat b < 128"
proof -
  have b: "unat b < 256" using unsigned_less [of b] by simp
  have "b AND 0x80 = 0 \<longleftrightarrow> \<not> bit b 7"
    using and_exp_eq_0_iff_not_bit [of b 7] by simp
  also have "\<dots> \<longleftrightarrow> \<not> bit (unat b) 7" by (simp add: bit_unsigned_iff)
  also have "\<dots> \<longleftrightarrow> \<not> odd (unat b div 128)" by (simp add: bit_iff_odd)
  also have "\<dots> \<longleftrightarrow> unat b < 128"
  proof (cases "unat b < 128")
    case False
    then have "unat b div 128 = 1" using b by simp
    then show ?thesis using False by simp
  qed simp
  finally show ?thesis .
qed

lemma and_7f: "unat ((b :: u8) AND 0x7f) = unat b mod 128"
proof -
  have "b AND 0x7f = take_bit 7 b" by (simp only: take_bit_eq_mask mask_eq_exp_minus_1) simp
  then have "unat (b AND 0x7f) = take_bit 7 (unat b)" by (simp only: unsigned_take_bit_eq)
  then show ?thesis by (simp add: take_bit_eq_mod)
qed

lemma and_3f: "unat ((b :: u8) AND 0x3f) = unat b mod 64"
proof -
  have "b AND 0x3f = take_bit 6 b" by (simp only: take_bit_eq_mask mask_eq_exp_minus_1) simp
  then have "unat (b AND 0x3f) = take_bit 6 (unat b)" by (simp only: unsigned_take_bit_eq)
  then show ?thesis by (simp add: take_bit_eq_mod)
qed

lemma bit_40: "(b :: u8) AND 0x40 = 0 \<longleftrightarrow> even (unat b div 64)"
proof -
  have "b AND 0x40 = 0 \<longleftrightarrow> \<not> bit b 6"
    using and_exp_eq_0_iff_not_bit [of b 6] by simp
  also have "\<dots> \<longleftrightarrow> \<not> bit (unat b) 6" by (simp add: bit_unsigned_iff)
  finally show ?thesis by (simp add: bit_iff_odd)
qed

lemma or_80: "k < 128 \<Longrightarrow> unat ((0x80 :: u8) OR of_nat k) = 128 + k"
proof -
  assume k: "k < 128"
  have "\<not> bit k 7" using k by (simp add: bit_iff_odd)
  then have "\<not> bit (of_nat k :: u8) 7" by (simp add: bit_of_nat_iff)
  then have "(of_nat k :: u8) AND 0x80 = 0" using and_exp_eq_0_iff_not_bit [of "of_nat k :: u8" 7] by simp
  then have "(0x80 :: u8) OR of_nat k = 0x80 + of_nat k" by (simp add: disjunctive_add_eq_or ac_simps)
  then show ?thesis using k by (simp add: unat_word_ariths unsigned_of_nat take_bit_nat_eq_self)
qed

lemma shift_or: "push_bit 8 (n :: nat) OR unat (b :: u8) = 256 * n + unat b"
proof -
  have "push_bit 8 n AND unat b = 0"
    by (auto simp: bit_eq_iff bit_and_iff bit_push_bit_iff bit_unsigned_iff dest: bit_imp_le_length)
  then have "push_bit 8 n OR unat b = push_bit 8 n + unat b" by (simp add: disjunctive_add_eq_or)
  then show ?thesis by (simp add: push_bit_eq_mult)
qed

lemma unat_of_nat_u8: "n < 256 \<Longrightarrow> unat (of_nat n :: u8) = n"
  by (simp add: unsigned_of_nat take_bit_nat_eq_self)

lemma byte_eq_iff: "(b :: u8) = c \<longleftrightarrow> unat b = unat c"
  by (rule word_unat_eq_iff)

subsection \<open>Tags\<close>

definition BOOLEAN :: u8 where "BOOLEAN = 0x01"
definition INTEGER :: u8 where "INTEGER = 0x02"
definition OCTET_STRING :: u8 where "OCTET_STRING = 0x04"
definition ENUMERATED :: u8 where "ENUMERATED = 0x0a"
definition SEQUENCE :: u8 where "SEQUENCE = 0x30"

definition context_tag :: "u8 \<Rightarrow> u8" where
  "context_tag n = 0xa0 OR (n AND 0x1f)"

subsection \<open>Definite lengths\<close>

definition MAX_LEN_OCTETS :: nat where
  "MAX_LEN_OCTETS = 4"

text \<open>\<open>len = (len << 8) | b\<close> over the octets, most significant first.\<close>

definition be_shift :: "bytes \<Rightarrow> nat" where
  "be_shift bs = foldl (\<lambda>len b. push_bit 8 len OR unat b) 0 bs"

definition read_definite_len :: "string \<Rightarrow> nat rd" where
  "read_definite_len ctx r =
     (let at = offset r in
      rbind (rd_u8 ctx) (\<lambda>first.
        if first AND 0x80 = 0 then rret (unat first)
        else let n = unat (first AND 0x7f) in
          if n = 0 \<or> MAX_LEN_OCTETS < n
          then rfail (InvalidField ctx ''ASN.1 length octets'' (unat first) at)
          else rbind (rd_slice n ctx) (\<lambda>bs. rret (be_shift bs))) r)"

text \<open>The octets from the first that is not zero, or the last one.\<close>

definition significant :: "bytes \<Rightarrow> bytes" where
  "significant bs =
     drop (case position (\<lambda>b. b \<noteq> 0) bs of Some i \<Rightarrow> i | None \<Rightarrow> length bs - 1) bs"

definition write_definite_len :: "nat \<Rightarrow> wr" where
  "write_definite_len len w =
     (if len < 0x80 then wr_u8 (of_nat len) w
      else let sig = significant (to_be_bytes (of_nat len :: u64))
           in wr_bytes sig (wr_u8 (0x80 OR of_nat (length sig)) w))"

definition definite_len_size :: "nat \<Rightarrow> nat" where
  "definite_len_size len =
     (if len < 0x80 then 1 else if len \<le> 0xff then 2 else if len \<le> 0xffff then 3
      else if len \<le> 0x00ffffff then 4 else 5)"

subsection \<open>Big endian values and their significant octets\<close>

definition be_nat :: "bytes \<Rightarrow> nat" where
  "be_nat bs = nat_of_le (rev bs)"

lemma nat_of_le_append: "nat_of_le (xs @ ys) = nat_of_le xs + 256 ^ length xs * nat_of_le ys"
  by (induction xs) (simp_all add: algebra_simps)

lemma be_nat_Cons: "be_nat (b # bs) = unat b * 256 ^ length bs + be_nat bs"
  by (simp add: be_nat_def nat_of_le_append)

lemma be_nat_Nil [simp]: "be_nat [] = 0"
  by (simp add: be_nat_def)

lemma be_shift: "be_shift bs = be_nat bs"
proof -
  have "foldl (\<lambda>len b. push_bit 8 len OR unat b) a bs = a * 256 ^ length bs + be_nat bs" for a
    by (induction bs arbitrary: a) (simp_all add: shift_or be_nat_Cons algebra_simps)
  then show ?thesis by (simp add: be_shift_def)
qed

lemma be_nat_bound: "be_nat bs < 256 ^ length bs"
  using nat_of_le_bound [of "rev bs"] by (simp add: be_nat_def)

lemma significant_simps:
  "significant [] = []"
  "significant (b # bs) = (if b = 0 \<and> bs \<noteq> [] then significant bs else b # bs)"
proof -
  show "significant (b # bs) = (if b = 0 \<and> bs \<noteq> [] then significant bs else b # bs)"
  proof (cases "position (\<lambda>b. b \<noteq> 0) bs")
    case None
    moreover have "drop (length bs) (b # bs) = drop (length bs - 1) bs" if "bs \<noteq> []"
      using that by (cases bs) simp_all
    ultimately show ?thesis by (auto simp: significant_def simp del: position_None)
  next
    case (Some i)
    then have "bs \<noteq> []" by auto
    with Some show ?thesis by (simp add: significant_def)
  qed
qed (simp add: significant_def)

lemma be_nat_significant: "be_nat (significant bs) = be_nat bs"
  by (induction bs) (simp_all add: significant_simps be_nat_Cons)

lemma significant_length: "length (significant bs) \<le> length bs"
  by (simp add: significant_def)

lemma significant_not_Nil: "bs \<noteq> [] \<Longrightarrow> significant bs \<noteq> []"
  by (induction bs) (auto simp: significant_simps)

lemma significant_head: "be_nat bs \<noteq> 0 \<Longrightarrow> hd (significant bs) \<noteq> 0"
  by (induction bs) (auto simp: significant_simps be_nat_Cons)

lemma be_nat_head_bound: "bs \<noteq> [] \<Longrightarrow> hd bs \<noteq> 0 \<Longrightarrow> 256 ^ (length bs - 1) \<le> be_nat bs"
proof (induction bs)
  case (Cons b bs)
  then have "1 \<le> unat b" using unat_eq_zero [of b] by (cases "unat b") auto
  then have "1 * 256 ^ length bs \<le> unat b * 256 ^ length bs" by (rule mult_le_mono1)
  then have "256 ^ length bs \<le> unat b * 256 ^ length bs + be_nat bs" by linarith
  then show ?case by (simp add: be_nat_Cons)
qed simp

text \<open>No leading zero: the octets are as few as the value needs.\<close>

lemma significant_fits:
  assumes "be_nat bs < 256 ^ k" and "0 < k" and "bs \<noteq> []"
  shows "length (significant bs) \<le> k"
proof (cases "be_nat bs = 0")
  case True
  have "be_nat bs = 0 \<Longrightarrow> bs \<noteq> [] \<Longrightarrow> length (significant bs) = 1"
    by (induction bs) (auto simp: significant_simps be_nat_Cons unat_eq_zero)
  with True assms show ?thesis by simp
next
  case False
  have "256 ^ (length (significant bs) - 1) \<le> be_nat bs"
    using be_nat_head_bound [OF significant_not_Nil [OF assms(3)] significant_head [OF False]]
    by (simp add: be_nat_significant)
  then have "(256 :: nat) ^ (length (significant bs) - 1) < 256 ^ k" using assms(1) by linarith
  then have "length (significant bs) - 1 < k" by (rule power_less_imp_less_exp [rotated]) simp
  then show ?thesis by simp
qed

lemma significant_needs:
  assumes "256 ^ k \<le> be_nat bs"
  shows "k < length (significant bs)"
proof (rule ccontr)
  assume "\<not> k < length (significant bs)"
  then have "(256 :: nat) ^ length (significant bs) \<le> 256 ^ k" by (intro power_increasing) simp_all
  then have "be_nat bs < 256 ^ k"
    using be_nat_bound [of "significant bs"] unfolding be_nat_significant by linarith
  then show False using assms by simp
qed

lemma be_nat_to_be: "8 dvd LENGTH('a::len) \<Longrightarrow> be_nat (to_be_bytes (v :: 'a word)) = unat v"
  using unsigned_less [of v] by (simp add: be_nat_def to_be_bytes_def to_le_bytes_def nat_of_to_le word_bytes)

subsection \<open>Definite lengths are a codec\<close>

definition definite_len_bytes :: "nat \<Rightarrow> bytes" where
  "definite_len_bytes len =
     (if len < 0x80 then [of_nat len]
      else let sig = significant (to_be_bytes (of_nat len :: u64))
           in (0x80 OR of_nat (length sig)) # sig)"

lemma write_definite_len [wr_simps]: "write_definite_len len = wr_bytes (definite_len_bytes len)"
  by (simp add: fun_eq_iff write_definite_len_def definite_len_bytes_def wr_simps Let_def)

lemma rd_u8_step: "reader_ok r \<Longrightarrow> left r = b # post \<Longrightarrow> rd_u8 ctx r = Inr (b, advance 1 r)"
  using byte.round [of r b post ctx] by simp

lemma rd_slice_step:
  "reader_ok r \<Longrightarrow> left r = bs @ post \<Longrightarrow> length bs = n \<Longrightarrow> rd_slice n ctx r = Inr (bs, advance n r)"
  using left_length [of r bs post] by (auto simp: rd_slice_ok)

lemma be_nat_u64: "len < 2 ^ 64 \<Longrightarrow> be_nat (to_be_bytes (of_nat len :: u64)) = len"
  by (simp add: be_nat_to_be unsigned_of_nat take_bit_nat_eq_self)

lemma significant_u64:
  assumes "0x80 \<le> len" and "len < 2 ^ 32"
  shows "be_nat (significant (to_be_bytes (of_nat len :: u64))) = len"
    and "length (significant (to_be_bytes (of_nat len :: u64))) \<in> {1..4}"
proof -
  let ?bs = "to_be_bytes (of_nat len :: u64)"
  have v: "be_nat ?bs = len" using assms(2) by (intro be_nat_u64) simp
  have "length ?bs = 8" by simp
  then have ne: "?bs \<noteq> []" by (metis length_0_conv zero_neq_numeral)
  show "be_nat (significant ?bs) = len" by (simp add: be_nat_significant v)
  have "length (significant ?bs) \<le> 4" using assms(2) v ne by (intro significant_fits) simp_all
  moreover have "significant ?bs \<noteq> []" using ne by (rule significant_not_Nil)
  ultimately show "length (significant ?bs) \<in> {1..4}" by (cases "significant ?bs") auto
qed

lemma read_definite_len_round:
  assumes "reader_ok r" and "len < 2 ^ 32" and "left r = definite_len_bytes len @ post"
  shows "read_definite_len ctx r = Inr (len, advance (length (definite_len_bytes len)) r)"
proof (cases "len < 0x80")
  case True
  then have "rd_u8 ctx r = Inr (of_nat len, advance 1 r)"
    using assms by (intro rd_u8_step) (simp_all add: definite_len_bytes_def)
  then show ?thesis
    using True by (simp add: read_definite_len_def Let_def rbind_step top_bit definite_len_bytes_def unat_of_nat_u8)
next
  case False
  let ?sig = "significant (to_be_bytes (of_nat len :: u64))" and ?n = "0x80 OR of_nat (length (significant (to_be_bytes (of_nat len :: u64)))) :: u8"
  have l: "length ?sig \<in> {1..4}" and v: "be_nat ?sig = len" using significant_u64 False assms(2) by simp_all
  then have n: "unat ?n = 128 + length ?sig" by (intro or_80) auto
  have enc: "left r = ?n # ?sig @ post" using assms(3) False by (simp add: definite_len_bytes_def Let_def)
  then have first: "rd_u8 ctx r = Inr (?n, advance 1 r)" by (intro rd_u8_step assms(1))
  have "rd_slice (length ?sig) ctx (advance 1 r) = Inr (?sig, advance (length ?sig) (advance 1 r))"
  proof (rule rd_slice_step)
    show "reader_ok (advance 1 r)" using left_length [of r "[?n]" "?sig @ post"] enc assms(1) by simp
    show "left (advance 1 r) = ?sig @ post" using enc by simp
  qed simp
  moreover have "length (definite_len_bytes len) = Suc (length ?sig)"
    using False by (simp add: definite_len_bytes_def Let_def)
  moreover have "?n AND 0x80 \<noteq> 0" using n l by (simp add: top_bit)
  moreover have "unat (?n AND 0x7f) = length ?sig" unfolding and_7f n using l by auto
  ultimately show ?thesis
    using first l v by (simp add: read_definite_len_def rbind_step MAX_LEN_OCTETS_def be_shift Let_def)
      auto
qed

lemma read_definite_len_safe:
  assumes "reader_ok r" and "read_definite_len ctx r = Inr (n, r')"
  shows "extends r r'"
proof -
  obtain b r1 where b: "rd_u8 ctx r = Inr (b, r1)"
    using assms(2) by (auto simp: read_definite_len_def Let_def rbind_Inr)
  have r1: "extends r r1" and ok: "reader_ok r1"
    using byte.safe [OF assms(1) b] byte.stays_ok [OF assms(1) b] by simp_all
  have "r' = r1 \<or> (\<exists>k bs. rd_slice k ctx r1 = Inr (bs, r'))"
    using assms(2) b by (auto simp: read_definite_len_def Let_def rbind_Inr rbind_step split: if_splits)
  then show ?thesis using r1 ok by (auto simp: rd_slice_ok intro: extends_trans split: if_splits)
qed

interpretation definite_len: codec "read_definite_len ctx" definite_len_bytes "\<lambda>len. len < 2 ^ 32" for ctx
  by unfold_locales (blast intro: read_definite_len_safe read_definite_len_round)+

lemma definite_len_size_exact: "len < 2 ^ 32 \<Longrightarrow> length (definite_len_bytes len) = definite_len_size len"
proof (cases "len < 0x80")
  case False
  assume len: "len < 2 ^ 32"
  let ?bs = "to_be_bytes (of_nat len :: u64)"
  have v: "be_nat ?bs = len" using len by (intro be_nat_u64) simp
  have "length ?bs = 8" by simp
  then have ne: "?bs \<noteq> []" by (metis length_0_conv zero_neq_numeral)
  have fits: "len < 256 ^ k \<Longrightarrow> 0 < k \<Longrightarrow> length (significant ?bs) \<le> k" for k
    using significant_fits [of ?bs k] ne v by simp
  have needs: "256 ^ k \<le> len \<Longrightarrow> k < length (significant ?bs)" for k
    using significant_needs [of k ?bs] v by simp
  show ?thesis
    using False len fits [of 1] fits [of 2] fits [of 3] fits [of 4] needs [of 0] needs [of 1] needs [of 2] needs [of 3]
    by (auto simp: definite_len_bytes_def definite_len_size_def Let_def le_Suc_eq)
qed (simp add: definite_len_bytes_def definite_len_size_def)

subsection \<open>The octets of a non negative INTEGER\<close>

text \<open>
  What \<open>ber::read_integer_content\<close> and \<open>per::read_unconstrained_int\<close> make of the content
  octets: two's complement, not negative, at most 32 bits.
\<close>

definition int_value :: "string \<Rightarrow> nat \<Rightarrow> bytes \<Rightarrow> pdu_error + u32" where
  "int_value ctx at raw =
     (case raw of
        [] \<Rightarrow> Inl (InvalidField ctx ''INTEGER length'' 0 at)
      | first # rest \<Rightarrow>
          (let (sig, negative) = (if first = 0 then (rest, False) else (raw, first AND 0x80 \<noteq> 0))
           in if negative \<or> 4 < length sig
              then Inl (InvalidField ctx ''INTEGER value'' (length raw) at)
              else Inr (foldl (\<lambda>v b. push_bit 8 v OR ucast b) 0 sig)))"

text \<open>The significant octets of the value, with a zero in front where the top bit is set.\<close>

definition int_octets :: "u32 \<Rightarrow> bytes" where
  "int_octets v =
     (let sig = significant (to_be_bytes v)
      in if hd sig AND 0x80 \<noteq> 0 then 0 # sig else sig)"

lemma int_fold: "foldl (\<lambda>v b. push_bit 8 v OR ucast b) 0 sig = (of_nat (be_shift sig) :: u32)"
proof -
  have "foldl (\<lambda>v b. push_bit 8 v OR ucast b) (of_nat a) sig =
      (of_nat (foldl (\<lambda>len b. push_bit 8 len OR unat b) a sig) :: u32)" for a
  proof (induction sig arbitrary: a)
    case (Cons b sig)
    have "push_bit 8 (of_nat a) OR ucast b = (of_nat (push_bit 8 a OR unat b) :: u32)"
      by (simp only: of_nat_or_eq push_bit_of_nat of_nat_unat)
    then show ?case using Cons by simp
  qed simp
  from this [of 0] show ?thesis by (simp add: be_shift_def)
qed

lemma significant_u32:
  "be_nat (significant (to_be_bytes (v :: u32))) = unat v"
  "significant (to_be_bytes v) \<noteq> []" "length (significant (to_be_bytes v)) \<le> 4"
proof -
  have "length (to_be_bytes v) = 4" by simp
  then have "to_be_bytes v \<noteq> []" by (metis length_0_conv zero_neq_numeral)
  then show "significant (to_be_bytes v) \<noteq> []" by (rule significant_not_Nil)
  show "be_nat (significant (to_be_bytes v)) = unat v" by (simp add: be_nat_significant be_nat_to_be)
  show "length (significant (to_be_bytes v)) \<le> 4" using significant_length [of "to_be_bytes v"] by simp
qed

lemma significant_leading_zero: "significant bs = 0 # rest \<Longrightarrow> rest = []"
  by (induction bs) (auto simp: significant_simps split: if_splits)

lemma int_value_octets: "int_value ctx at (int_octets v) = Inr v"
proof -
  obtain b bs where sig: "significant (to_be_bytes v) = b # bs"
    using significant_u32(2) [of v] by (cases "significant (to_be_bytes v)") auto
  have len: "length (b # bs) \<le> 4" and val: "be_nat (b # bs) = unat v"
    using significant_u32 [of v] by (simp_all add: sig)
  have fold: "foldl (\<lambda>v b. push_bit 8 v OR ucast b) 0 (b # bs) = v"
    unfolding int_fold be_shift val by simp
  have oct: "int_octets v = (if b AND 0x80 \<noteq> 0 then 0 # b # bs else b # bs)"
    by (simp add: int_octets_def sig Let_def)
  show ?thesis
  proof (cases "b = 0")
    case True
    then have "bs = []" using significant_leading_zero sig by simp
    then show ?thesis unfolding oct using True fold by (simp add: int_value_def)
  next
    case False
    then show ?thesis unfolding oct using fold len by (auto simp: int_value_def simp del: foldl_Cons)
  qed
qed

lemma int_octets_length: "0 < length (int_octets v) \<and> length (int_octets v) \<le> 5"
  using significant_u32(2,3) [of v] by (auto simp: int_octets_def Let_def)

end
