(* ===== verification/Ber.thy ===== *)
theory Ber
  imports Asn1
begin

text \<open>
  BER with definite lengths, the subset the MCS connect PDUs use
  (\<open>crates/rdp-pdu/src/asn1/ber.rs\<close>): identifiers of one or two octets, elements with their
  content and their full octets, and the integers, booleans and octet strings inside.
\<close>

subsection \<open>Identifiers and elements\<close>

datatype ber_tag = Low u8 | HighApplication u8

definition DOMAIN_PARAMETERS :: ber_tag where
  "DOMAIN_PARAMETERS = Low SEQUENCE"

fun tag_octets :: "ber_tag \<Rightarrow> u8 \<times> u8" where
  "tag_octets (Low t) = (t, 0)"
| "tag_octets (HighApplication n) = (0x7f, n)"

fun tag_size :: "ber_tag \<Rightarrow> nat" where
  "tag_size (Low _) = 1"
| "tag_size (HighApplication _) = 2"

record ber_tlv =
  tlv_tag :: ber_tag
  tlv_content :: bytes
  tlv_full :: bytes

definition read_tag :: "string \<Rightarrow> nat \<Rightarrow> ber_tag rd" where
  "read_tag ctx at =
     rbind (rd_u8 ctx) (\<lambda>first.
       if first AND 0x1f = 0x1f then
         if first \<noteq> 0x7f then rfail (Unsupported ctx ''ASN.1 high tag number class'' (unat first) at)
         else rbind (rd_u8 ctx) (\<lambda>n.
           if n AND 0x80 \<noteq> 0
           then rfail (Unsupported ctx ''ASN.1 tag number wider than one octet'' (unat n) at)
           else rret (HighApplication n))
       else rret (Low first))"

definition read_tlv :: "string \<Rightarrow> ber_tlv rd" where
  "read_tlv ctx r =
     (let at = offset r in
      rbind (read_tag ctx at) (\<lambda>parsed.
        rbind (read_definite_len ctx) (\<lambda>len.
          rbind (rd_slice len ctx) (\<lambda>content r'.
            bind_res (rd_slice (offset r' - at) ctx r) (\<lambda>(full, _).
              Inr (\<lparr>tlv_tag = parsed, tlv_content = content, tlv_full = full\<rparr>, r'))))) r)"

definition expect :: "ber_tag \<Rightarrow> string \<Rightarrow> reader rd" where
  "expect expected ctx r =
     bind_res (read_tlv ctx r) (\<lambda>(tlv, r').
       if tlv_tag tlv \<noteq> expected
       then Inl (Asn1Tag ctx (fst (tag_octets expected)) (fst (tag_octets (tlv_tag tlv))) (offset r))
       else Inr (reader_sub (tlv_content tlv) (offset r' - length (tlv_content tlv)), r'))"

subsection \<open>Values\<close>

definition read_integer_content :: "ber_tag \<Rightarrow> string \<Rightarrow> u32 rd" where
  "read_integer_content expected ctx r =
     (let at = offset r in
      bind_res (expect expected ctx r) (\<lambda>(content, r').
        bind_res (int_value ctx at (fst (rd_rest content))) (\<lambda>v. Inr (v, r'))))"

definition ber_read_u32 :: "string \<Rightarrow> u32 rd" where
  "ber_read_u32 = read_integer_content (Low INTEGER)"

definition ber_read_enumerated :: "string \<Rightarrow> u32 rd" where
  "ber_read_enumerated = read_integer_content (Low ENUMERATED)"

definition ber_read_bool :: "string \<Rightarrow> bool rd" where
  "ber_read_bool ctx r =
     (let at = offset r in
      bind_res (expect (Low BOOLEAN) ctx r) (\<lambda>(content, r').
        if remaining content \<noteq> 1
        then Inl (InvalidField ctx ''BOOLEAN length'' (remaining content) at)
        else bind_res (rd_u8 ctx content) (\<lambda>(b, _). Inr (b \<noteq> 0, r'))))"

definition ber_read_octet_string :: "string \<Rightarrow> bytes rd" where
  "ber_read_octet_string ctx r =
     bind_res (expect (Low OCTET_STRING) ctx r) (\<lambda>(content, r'). Inr (fst (rd_rest content), r'))"

subsection \<open>Writing\<close>

fun write_tag_len :: "ber_tag \<Rightarrow> nat \<Rightarrow> wr" where
  "write_tag_len (Low t) len w = write_definite_len len (wr_u8 t w)"
| "write_tag_len (HighApplication n) len w = write_definite_len len (wr_u8 n (wr_u8 0x7f w))"

definition ber_write_u32 :: "ber_tag \<Rightarrow> u32 \<Rightarrow> wr" where
  "ber_write_u32 tag v w =
     (let sig = significant (to_be_bytes v);
          needs_pad = (case sig of [] \<Rightarrow> False | b # _ \<Rightarrow> b AND 0x80 \<noteq> 0);
          w1 = write_tag_len tag (length sig + (if needs_pad then 1 else 0)) w;
          w2 = (if needs_pad then wr_u8 0 w1 else w1)
      in wr_bytes sig w2)"

definition ber_write_bool :: "bool \<Rightarrow> wr" where
  "ber_write_bool v w = wr_u8 (if v then 0xff else 0x00) (write_tag_len (Low BOOLEAN) 1 w)"

definition ber_write_octet_string :: "bytes \<Rightarrow> wr" where
  "ber_write_octet_string content w =
     wr_bytes content (write_tag_len (Low OCTET_STRING) (length content) w)"

definition write_nested :: "ber_tag \<Rightarrow> try_wr \<Rightarrow> try_wr" where
  "write_nested tag f w =
     bind_res (f (writer_new [])) (\<lambda>inner.
       Inr (wr_bytes (wr_out inner) (write_tag_len tag (length (wr_out inner)) w)))"

subsection \<open>What is written\<close>

fun tag_bytes :: "ber_tag \<Rightarrow> bytes" where
  "tag_bytes (Low t) = [t]"
| "tag_bytes (HighApplication n) = [0x7f, n]"

text \<open>The identifiers that have one of the two forms; every constant of the source has.\<close>

fun tag_ok :: "ber_tag \<Rightarrow> bool" where
  "tag_ok (Low t) \<longleftrightarrow> t AND 0x1f \<noteq> 0x1f"
| "tag_ok (HighApplication n) \<longleftrightarrow> n AND 0x80 = 0"

definition tlv_bytes :: "ber_tag \<Rightarrow> bytes \<Rightarrow> bytes" where
  "tlv_bytes tag content = tag_bytes tag @ definite_len_bytes (length content) @ content"

lemma write_tag_len [wr_simps]: "write_tag_len tag len = wr_bytes (tag_bytes tag @ definite_len_bytes len)"
  by (cases tag) (simp_all add: fun_eq_iff wr_simps)

lemma ber_write_u32 [wr_simps]: "ber_write_u32 tag v = wr_bytes (tlv_bytes tag (int_octets v))"
  using significant_u32(2) [of v]
  by (cases "significant (to_be_bytes v)")
    (simp_all add: fun_eq_iff ber_write_u32_def int_octets_def tlv_bytes_def wr_simps Let_def)

lemma ber_write_bool [wr_simps]:
  "ber_write_bool v = wr_bytes (tlv_bytes (Low BOOLEAN) [if v then 0xff else 0x00])"
  by (simp add: fun_eq_iff ber_write_bool_def tlv_bytes_def wr_simps)

lemma ber_write_octet_string [wr_simps]:
  "ber_write_octet_string content = wr_bytes (tlv_bytes (Low OCTET_STRING) content)"
  by (simp add: fun_eq_iff ber_write_octet_string_def tlv_bytes_def wr_simps)

lemma write_nested_appends: "appends f body \<Longrightarrow> appends (write_nested tag f) (tlv_bytes tag body)"
  by (simp add: appends_def write_nested_def tlv_bytes_def wr_simps writer_new_def)

subsection \<open>Reading back\<close>

lemma read_tag_round:
  assumes "reader_ok r" and "tag_ok tag" and "left r = tag_bytes tag @ post"
  shows "read_tag ctx at r = Inr (tag, advance (length (tag_bytes tag)) r)"
proof (cases tag)
  case (Low t)
  then show ?thesis using assms rd_u8_step [of r t post ctx] by (simp add: read_tag_def rbind_step)
next
  case (HighApplication n)
  then have l: "left r = 0x7f # n # post" using assms(3) by simp
  then have "rd_u8 ctx r = Inr (0x7f, advance 1 r)" by (rule rd_u8_step [OF assms(1)])
  moreover have "rd_u8 ctx (advance 1 r) = Inr (n, advance 1 (advance 1 r))"
    using l left_length [of r "[0x7f]" "n # post"] assms(1) by (intro rd_u8_step) simp_all
  ultimately show ?thesis using HighApplication assms(2) by (simp add: read_tag_def rbind_step)
qed

lemma read_tag_safe: "reader_ok r \<Longrightarrow> read_tag ctx at r = Inr (t, r') \<Longrightarrow> extends r r'"
  by (auto simp: read_tag_def rbind_Inr split: if_splits
      intro: extends_trans [OF byte.safe byte.safe [OF byte.stays_ok]] byte.safe)

interpretation ber_id: codec "read_tag ctx at" tag_bytes tag_ok for ctx at
  by unfold_locales (blast intro: read_tag_safe read_tag_round)+

lemma read_tlv_round:
  assumes "reader_ok r" and "tag_ok tag" and "length content < 2 ^ 32"
    and "left r = tlv_bytes tag content @ post"
  shows "read_tlv ctx r = Inr (\<lparr>tlv_tag = tag, tlv_content = content, tlv_full = tlv_bytes tag content\<rparr>,
      advance (length (tlv_bytes tag content)) r)"
proof -
  let ?a = "length (tag_bytes tag)" and ?b = "length (definite_len_bytes (length content))"
  have len: "?a + ?b + length content \<le> remaining r"
    using left_length [OF assms(4)] by (simp add: tlv_bytes_def)
  have "read_tag ctx (offset r) r = Inr (tag, advance ?a r)"
    using assms by (intro ber_id.round) (simp_all add: tlv_bytes_def)
  moreover have "read_definite_len ctx (advance ?a r) = Inr (length content, advance ?b (advance ?a r))"
    using assms len by (intro definite_len.round [where post = "content @ post"]) (simp_all add: tlv_bytes_def)
  moreover have "rd_slice (length content) ctx (advance (?a + ?b) r) =
      Inr (content, advance (length content) (advance (?a + ?b) r))"
    using assms len by (intro rd_slice_step [where post = post]) (simp_all add: tlv_bytes_def)
  moreover have "rd_slice (?a + ?b + length content) ctx r = Inr (tlv_bytes tag content, advance (?a + ?b + length content) r)"
    using assms by (intro rd_slice_step [where post = post]) (simp_all add: tlv_bytes_def)
  ultimately show ?thesis
    by (simp add: read_tlv_def rbind_step Let_def tlv_bytes_def add.assoc)
qed

text \<open>Whatever was read: the full octets are the header and then the content, and all were there.\<close>

lemma read_tlv_tiles:
  assumes "reader_ok r" and "read_tlv ctx r = Inr (t, r')"
  shows "\<exists>header post. tlv_full t = header @ tlv_content t \<and> header \<noteq> [] \<and> left r = tlv_full t @ post \<and>
    r' = advance (length (tlv_full t)) r"
proof -
  obtain parsed r1 len r2 content full r3 where
    r1: "read_tag ctx (offset r) r = Inr (parsed, r1)" and r2: "read_definite_len ctx r1 = Inr (len, r2)"
    and r3: "rd_slice len ctx r2 = Inr (content, r')" and full: "rd_slice (offset r' - offset r) ctx r = Inr (full, r3)"
    and t: "t = \<lparr>tlv_tag = parsed, tlv_content = content, tlv_full = full\<rparr>"
    using assms(2) by (auto simp: read_tlv_def Let_def rbind_Inr res_simps)
  have e1: "extends r r1" and ok1: "reader_ok r1"
    using ber_id.safe [OF assms(1) r1] ber_id.stays_ok [OF assms(1) r1] by simp_all
  have e2: "extends r1 r2" and ok2: "reader_ok r2"
    using definite_len.safe [OF ok1 r2] definite_len.stays_ok [OF ok1 r2] by simp_all
  have len: "len \<le> remaining r2" and content: "content = take len (left r2)" and r': "r' = advance len r2"
    using r3 by (simp_all add: rd_slice_ok [OF ok2] split: if_splits)
  define k where "k = rd_pos r2 - rd_pos r"
  have e: "extends r r2" by (rule extends_trans [OF e1 e2])
  then have r2': "r2 = advance k r" by (simp add: extends_def advance_def k_def)
  then have "offset r' - offset r = k + len" by (simp add: r')
  then have f: "k + len \<le> remaining r" and full': "full = take (k + len) (left r)"
    using full by (simp_all add: rd_slice_ok [OF assms(1)] split: if_splits)
  have "0 < k"
  proof -
    have "rd_pos r < rd_pos r1"
    proof -
      obtain b q where "rd_u8 ctx r = Inr (b, q)" using r1 by (auto simp: read_tag_def rbind_Inr)
      then have "q = advance 1 r" using assms(1)
        by (auto simp: rd_u8_def rmap_Inr rd_array_def rd_slice_ok split: if_splits)
      moreover have "extends q r1"
        using r1 \<open>rd_u8 ctx r = Inr (b, q)\<close> byte.stays_ok [OF assms(1)]
        by (auto simp: read_tag_def rbind_Inr rbind_step intro: byte.safe split: if_splits)
      ultimately show ?thesis by (simp add: extends_def)
    qed
    then show ?thesis using e2 by (simp add: k_def extends_def)
  qed
  have "full = take k (left r) @ content"
    using content by (simp add: full' r2' take_add)
  moreover have "left r = full @ drop (k + len) (left r)" by (simp add: full')
  moreover have "take k (left r) \<noteq> []" using \<open>0 < k\<close> f
    by (metis add_leD1 length_left length_take less_le_not_le list.size(3) min.absorb2)
  moreover have "r' = advance (length full) r" using f by (simp add: r' r2' full')
  moreover have "tlv_full t = full" and "tlv_content t = content" by (simp_all add: t)
  ultimately show ?thesis by metis
qed

lemma read_tlv_safe: "reader_ok r \<Longrightarrow> read_tlv ctx r = Inr (t, r') \<Longrightarrow> extends r r'"
proof -
  assume ok: "reader_ok r" and "read_tlv ctx r = Inr (t, r')"
  then obtain post where "left r = tlv_full t @ post" and r': "r' = advance (length (tlv_full t)) r"
    using read_tlv_tiles by blast
  from left_length [OF this(1)] show ?thesis using ok by (simp add: r')
qed

lemma expect_safe: "reader_ok r \<Longrightarrow> expect tag ctx r = Inr (c, r') \<Longrightarrow> extends r r'"
  by (auto simp: expect_def res_simps split: if_splits prod.splits dest: read_tlv_safe)

lemma expect_round:
  assumes "reader_ok r" and "tag_ok tag" and "length content < 2 ^ 32"
    and "left r = tlv_bytes tag content @ post"
  shows "expect tag ctx r =
    Inr (reader_sub content (offset r + length (tlv_bytes tag content) - length content),
         advance (length (tlv_bytes tag content)) r)"
  using read_tlv_round [OF assms] by (simp add: expect_def)

lemma rd_rest_sub [simp]: "length buf < 2 ^ 63 \<Longrightarrow> fst (rd_rest (reader_sub buf base)) = buf"
  by (simp add: rd_rest_def rd_slice_ok reader_ok_def reader_sub_def remaining_def left_def)

lemma integer_round:
  assumes "reader_ok r" and "tag_ok tag" and "left r = tlv_bytes tag (int_octets v) @ post"
  shows "read_integer_content tag ctx r = Inr (v, advance (length (tlv_bytes tag (int_octets v))) r)"
  using expect_round [OF assms(1,2) _ assms(3), of ctx] int_octets_length [of v]
  by (simp add: read_integer_content_def int_value_octets Let_def)

lemma integer_safe: "reader_ok r \<Longrightarrow> read_integer_content tag ctx r = Inr (v, r') \<Longrightarrow> extends r r'"
  by (auto simp: read_integer_content_def Let_def res_simps split: prod.splits dest: expect_safe)

lemma octet_string_round:
  assumes "reader_ok r" and "length c < 2 ^ 32" and "left r = tlv_bytes (Low OCTET_STRING) c @ post"
  shows "ber_read_octet_string ctx r = Inr (c, advance (length (tlv_bytes (Low OCTET_STRING) c)) r)"
  using expect_round [OF assms(1) _ assms(2,3), of ctx] assms(2)
  by (simp add: ber_read_octet_string_def OCTET_STRING_def)

lemma octet_string_safe: "reader_ok r \<Longrightarrow> ber_read_octet_string ctx r = Inr (c, r') \<Longrightarrow> extends r r'"
  by (auto simp: ber_read_octet_string_def res_simps split: prod.splits dest: expect_safe)

lemma bool_round:
  assumes "reader_ok r" and "left r = tlv_bytes (Low BOOLEAN) [if v then 0xff else 0x00] @ post"
  shows "ber_read_bool ctx r = Inr (v, advance (length (tlv_bytes (Low BOOLEAN) [if v then 0xff else 0x00])) r)"
proof -
  let ?c = "[if v then 0xff else 0x00] :: bytes" and ?base = "offset r + length (tlv_bytes (Low BOOLEAN) [if v then 0xff else 0x00]) - 1"
  have "rd_u8 ctx (reader_sub ?c ?base) = Inr (if v then 0xff else 0x00, advance 1 (reader_sub ?c ?base))"
  proof (rule rd_u8_step)
    show "reader_ok (reader_sub ?c ?base)" by (simp add: reader_ok_def reader_sub_def)
    show "left (reader_sub ?c ?base) = (if v then 0xff else 0x00) # []" by simp
  qed
  moreover have "remaining (reader_sub ?c ?base) = 1" by (simp add: remaining_def reader_sub_def)
  ultimately show ?thesis
    using expect_round [OF assms(1) _ _ assms(2), of ctx]
    by (simp add: ber_read_bool_def Let_def BOOLEAN_def split: if_splits)
qed

lemma bool_safe: "reader_ok r \<Longrightarrow> ber_read_bool ctx r = Inr (v, r') \<Longrightarrow> extends r r'"
  by (auto simp: ber_read_bool_def Let_def res_simps split: prod.splits if_splits dest: expect_safe)

interpretation ber_int: codec "read_integer_content (Low tag) ctx" "\<lambda>v. tlv_bytes (Low tag) (int_octets v)"
  "\<lambda>v. tag AND 0x1f \<noteq> 0x1f" for tag ctx
  by unfold_locales (auto intro: integer_safe integer_round)

interpretation ber_octets: codec "ber_read_octet_string ctx" "tlv_bytes (Low OCTET_STRING)"
  "\<lambda>c. length c < 2 ^ 32" for ctx
  by unfold_locales (blast intro: octet_string_safe octet_string_round)+

interpretation ber_bool: codec "ber_read_bool ctx" "\<lambda>v. tlv_bytes (Low BOOLEAN) [if v then 0xff else 0x00]"
  "\<lambda>_. True" for ctx
  by unfold_locales (blast intro: bool_safe bool_round)+

end
