(* ===== verification/Per.thy ===== *)
theory Per
  imports Asn1
begin

text \<open>
  Aligned PER, the subset GCC and the MCS domain PDUs use (\<open>crates/rdp-pdu/src/asn1/per.rs\<close>):
  length determinants, CHOICE indices, selections, constrained and unconstrained integers,
  object identifiers, numeric strings and constrained octet strings.
\<close>

subsection \<open>Length determinants\<close>

definition MAX_LENGTH_DETERMINANT :: nat where
  "MAX_LENGTH_DETERMINANT = 16383"

definition read_length_determinant :: "string \<Rightarrow> nat rd" where
  "read_length_determinant ctx r =
     (let at = offset r in
      rbind (rd_u8 ctx) (\<lambda>first.
        if first AND 0x80 = 0 then rret (unat first)
        else if first AND 0x40 \<noteq> 0
          then rfail (Unsupported ctx ''PER fragmented length determinant'' (unat first) at)
        else rbind (rd_u8 ctx) (\<lambda>second.
          rret (push_bit 8 (unat (first AND 0x3f)) OR unat second))) r)"

definition write_length_determinant :: "nat \<Rightarrow> string \<Rightarrow> try_wr" where
  "write_length_determinant len ctx w =
     (if len < 0x80 then Inr (wr_u8 (of_nat len) w)
      else if MAX_LENGTH_DETERMINANT < len
        then Inl (EncodeErr ctx ''length determinant needs the fragmented form'')
      else Inr (wr_u8 (of_nat (len AND 0xff)) (wr_u8 (0x80 OR of_nat (drop_bit 8 len)) w)))"

definition length_determinant_size :: "nat \<Rightarrow> nat" where
  "length_determinant_size len = (if len < 0x80 then 1 else 2)"

subsection \<open>Choices and selections\<close>

definition read_choice_index :: "u8 \<Rightarrow> string \<Rightarrow> u8 rd" where
  "read_choice_index count ctx r =
     (let at = offset r in
      rbind (rd_u8 ctx) (\<lambda>index.
        if count \<le> index then rfail (InvalidField ctx ''CHOICE index'' (unat index) at)
        else rret index) r)"

definition write_choice_index :: "u8 \<Rightarrow> u8 \<Rightarrow> string \<Rightarrow> try_wr" where
  "write_choice_index index count ctx w =
     (if count \<le> index then Inl (EncodeErr ctx ''CHOICE index is past the last alternative'')
      else Inr (wr_u8 index w))"

definition read_selection :: "string \<Rightarrow> u8 rd" where
  "read_selection ctx = rd_u8 ctx"

definition write_selection :: "u8 \<Rightarrow> wr" where
  "write_selection bitmap = wr_u8 bitmap"

subsection \<open>Constrained whole numbers\<close>

definition read_constrained_int :: "u32 \<Rightarrow> u32 \<Rightarrow> string \<Rightarrow> u32 rd" where
  "read_constrained_int lower upper ctx r =
     (let at = offset r in
      if upper < lower then Inl (InvalidField ctx ''constrained integer range'' (unat lower) at)
      else
        let range = upper - lower in
        rbind (if range < 256 then rmap ucast (rd_u8 ctx)
               else if range < 65536 then rmap ucast (rd_be_u16 ctx)
               else rfail (Unsupported ctx ''PER constrained integer range'' (unat range) at))
          (\<lambda>raw. if range < raw then rfail (InvalidField ctx ''constrained integer'' (unat raw) at)
                 else rret (lower + raw)) r)"

definition write_constrained_int :: "u32 \<Rightarrow> u32 \<Rightarrow> u32 \<Rightarrow> string \<Rightarrow> try_wr" where
  "write_constrained_int v lower upper ctx w =
     (if v < lower \<or> upper < v then Inl (EncodeErr ctx ''value is outside the constraint'')
      else
        let range = upper - lower; off = v - lower in
        if range < 256 then Inr (wr_u8 (ucast off) w)
        else if range < 65536 then Inr (wr_be_u16 (ucast off) w)
        else Inl (EncodeErr ctx ''constrained integer range wider than two octets''))"

subsection \<open>Object identifiers\<close>

definition read_object_identifier :: "string \<Rightarrow> bytes rd" where
  "read_object_identifier ctx = rbind (read_length_determinant ctx) (\<lambda>len. rd_slice len ctx)"

definition write_object_identifier :: "bytes \<Rightarrow> string \<Rightarrow> try_wr" where
  "write_object_identifier content ctx w =
     bind_res (write_length_determinant (length content) ctx w) (\<lambda>w'. Inr (wr_bytes content w'))"

definition T124_IDENTIFIER :: bytes where
  "T124_IDENTIFIER = [0x00, 0x14, 0x7c, 0x00, 0x01]"

subsection \<open>Numeric strings\<close>

definition digit_at :: "bytes \<Rightarrow> nat \<Rightarrow> u8" where
  "digit_at packed i =
     (let byte = (if i div 2 < length packed then packed ! (i div 2) else 0)
      in if i mod 2 = 0 then drop_bit 4 byte else byte AND 0x0f)"

fun read_digits :: "string \<Rightarrow> nat \<Rightarrow> bytes \<Rightarrow> nat list \<Rightarrow> pdu_error + string" where
  "read_digits ctx at packed [] = Inr []"
| "read_digits ctx at packed (i # is) =
     (let nibble = digit_at packed i in
      if 9 < nibble then Inl (InvalidField ctx ''NumericString digit'' (unat nibble) at)
      else bind_res (read_digits ctx at packed is) (\<lambda>s. Inr (char_of (0x30 + unat nibble) # s)))"

definition read_numeric_string :: "nat \<Rightarrow> string \<Rightarrow> string rd" where
  "read_numeric_string min_len ctx r =
     (let at = offset r in
      rbind (rd_u8 ctx) (\<lambda>extra.
        let len = min_len + unat extra in
        rbind (rd_slice ((len + 1) div 2) ctx) (\<lambda>packed r'.
          bind_res (read_digits ctx at packed [0..<len]) (\<lambda>s. Inr (s, r')))) r)"

fun pack_digits :: "bytes \<Rightarrow> bytes" where
  "pack_digits [] = []"
| "pack_digits [h] = [push_bit 4 (h - 0x30) OR 0]"
| "pack_digits (h # l # rest) = (push_bit 4 (h - 0x30) OR (l - 0x30)) # pack_digits rest"

definition is_ascii_digit :: "u8 \<Rightarrow> bool" where
  "is_ascii_digit b \<longleftrightarrow> 0x30 \<le> b \<and> b \<le> 0x39"

definition write_numeric_string :: "string \<Rightarrow> nat \<Rightarrow> string \<Rightarrow> try_wr" where
  "write_numeric_string s min_len ctx w =
     (let digits = str_bytes s in
      if length digits < min_len \<or> min_len + 255 < length digits
        then Inl (EncodeErr ctx ''NumericString length is outside the constraint'')
      else if \<not> list_all is_ascii_digit digits
        then Inl (EncodeErr ctx ''NumericString holds a character that is not a digit'')
      else Inr (wr_bytes (pack_digits digits) (wr_u8 (of_nat (length digits - min_len)) w)))"

subsection \<open>Unconstrained whole numbers\<close>

definition read_unconstrained_int :: "string \<Rightarrow> u32 rd" where
  "read_unconstrained_int ctx r =
     (let at = offset r in
      rbind (read_length_determinant ctx) (\<lambda>len.
        rbind (rd_slice len ctx) (\<lambda>raw r'.
          bind_res (int_value ctx at raw) (\<lambda>v. Inr (v, r')))) r)"

definition write_unconstrained_int :: "u32 \<Rightarrow> string \<Rightarrow> try_wr" where
  "write_unconstrained_int v ctx w =
     (let sig = significant (to_be_bytes v);
          pad = (case sig of [] \<Rightarrow> False | b # _ \<Rightarrow> b AND 0x80 \<noteq> 0)
      in bind_res (write_length_determinant (length sig + (if pad then 1 else 0)) ctx w) (\<lambda>w1.
           Inr (wr_bytes sig (if pad then wr_u8 0 w1 else w1))))"

definition unconstrained_int_size :: "u32 \<Rightarrow> nat" where
  "unconstrained_int_size v =
     1 + (if v < 0x80 then 1 else if v < 0x8000 then 2 else if v < 0x00800000 then 3
          else if v < 0x80000000 then 4 else 5)"

subsection \<open>Constrained octet strings\<close>

definition per_read_octet_string :: "nat \<Rightarrow> nat \<Rightarrow> string \<Rightarrow> bytes rd" where
  "per_read_octet_string mn mx ctx r =
     (let at = offset r in
      if mn = mx then
        if mn \<le> 2 then Inl (Unsupported ctx ''PER bit packed fixed OCTET STRING'' mn at)
        else rd_slice mn ctx r
      else rbind (read_length_determinant ctx) (\<lambda>len.
        if len < mn \<or> mx < len then rfail (InvalidField ctx ''OCTET STRING length'' len at)
        else rd_slice len ctx) r)"

definition per_write_octet_string :: "bytes \<Rightarrow> nat \<Rightarrow> nat \<Rightarrow> string \<Rightarrow> try_wr" where
  "per_write_octet_string content mn mx ctx w =
     (if length content < mn \<or> mx < length content
        then Inl (EncodeErr ctx ''OCTET STRING length is outside the constraint'')
      else if mn = mx then
        if mn \<le> 2 then Inl (EncodeErr ctx ''a fixed OCTET STRING of one or two octets is bit packed'')
        else Inr (wr_bytes content w)
      else bind_res (write_length_determinant (length content) ctx w) (\<lambda>w'. Inr (wr_bytes content w')))"

subsection \<open>Length determinants are a codec\<close>

definition len_det_bytes :: "nat \<Rightarrow> bytes" where
  "len_det_bytes len =
     (if len < 0x80 then [of_nat len] else [0x80 OR of_nat (drop_bit 8 len), of_nat (len AND 0xff)])"

lemma len_det_appends: "len \<le> 16383 \<Longrightarrow> appends (write_length_determinant len ctx) (len_det_bytes len)"
  by (simp add: appends_def write_length_determinant_def len_det_bytes_def MAX_LENGTH_DETERMINANT_def wr_simps)

lemma len_det_size: "length (len_det_bytes len) = length_determinant_size len"
  by (simp add: len_det_bytes_def length_determinant_size_def)

lemma mod_64: "q < 64 \<Longrightarrow> (128 + q) mod 64 = (q :: nat)"
  and div_64: "q < 64 \<Longrightarrow> (128 + q) div 64 = (2 :: nat)"
  using mod_mult_self1 [of q 2 64] div_mult_self1 [of 64 q 2] by (simp_all add: add.commute)

lemma len_det_round:
  assumes "reader_ok r" and "len \<le> 16383" and "left r = len_det_bytes len @ post"
  shows "read_length_determinant ctx r = Inr (len, advance (length (len_det_bytes len)) r)"
proof (cases "len < 0x80")
  case True
  then have "rd_u8 ctx r = Inr (of_nat len, advance 1 r)"
    using assms by (intro rd_u8_step) (simp_all add: len_det_bytes_def)
  then show ?thesis
    using True by (simp add: read_length_determinant_def rbind_step top_bit len_det_bytes_def unat_of_nat_u8)
next
  case False
  define hi where "hi = (0x80 OR of_nat (drop_bit 8 len) :: u8)"
  define lo where "lo = (of_nat (len AND 0xff) :: u8)"
  have d: "drop_bit 8 len = len div 256" by (simp add: drop_bit_eq_div)
  have "len AND 0xff = take_bit 8 len" by (simp only: take_bit_eq_mask mask_eq_exp_minus_1) simp
  then have m: "len AND 0xff = len mod 256" by (simp add: take_bit_eq_mod)
  have hi: "unat hi = 128 + len div 256" unfolding hi_def d using assms(2) by (intro or_80) simp
  have lo: "unat lo = len mod 256" by (simp add: lo_def m)
  have enc: "len_det_bytes len = [hi, lo]" using False by (simp add: len_det_bytes_def hi_def lo_def)
  then have l: "left r = hi # lo # post" using assms(3) by simp
  have "rd_u8 ctx r = Inr (hi, advance 1 r)" using l by (rule rd_u8_step [OF assms(1)])
  moreover have "rd_u8 ctx (advance 1 r) = Inr (lo, advance 1 (advance 1 r))"
    using l left_length [of r "[hi]" "lo # post"] assms(1) by (intro rd_u8_step) simp_all
  moreover have "hi AND 0x80 \<noteq> 0" by (simp add: top_bit hi)
  moreover have "hi AND 0x40 = 0"
  proof -
    have "len div 256 < 64" using assms(2) by simp
    then have "(128 + len div 256) div 64 = 2" by (rule div_64)
    then show ?thesis unfolding bit_40 hi by simp
  qed
  moreover have "push_bit 8 (unat (hi AND 0x3f)) OR unat lo = len"
  proof -
    have "len div 256 < 64" using assms(2) by simp
    then have "(128 + len div 256) mod 64 = len div 256" by (rule mod_64)
    then show ?thesis unfolding and_3f hi shift_or by (simp add: lo)
  qed
  ultimately show ?thesis by (simp add: read_length_determinant_def rbind_step Let_def enc)
qed

lemma len_det_safe: "reader_ok r \<Longrightarrow> read_length_determinant ctx r = Inr (n, r') \<Longrightarrow> extends r r'"
  by (auto simp: read_length_determinant_def Let_def rbind_Inr split: if_splits
      intro: extends_trans [OF byte.safe byte.safe [OF byte.stays_ok]] byte.safe)

interpretation per_len: codec "read_length_determinant ctx" len_det_bytes "\<lambda>len. len \<le> 16383" for ctx
  by unfold_locales (blast intro: len_det_safe len_det_round)+

subsection \<open>The other primitives are codecs\<close>

interpretation per_choice: codec "read_choice_index count ctx" "\<lambda>i. [i]" "\<lambda>i. i < count" for count ctx
proof
  show "extends r r'" if "reader_ok r" and "read_choice_index count ctx r = Inr (a, r')" for r r' and a :: u8
    using that by (auto simp: read_choice_index_def Let_def rbind_Inr intro: byte.safe split: if_splits)
  show "read_choice_index count ctx r = Inr (a, advance (length [a]) r)"
    if "reader_ok r" and "a < count" and "left r = [a] @ post" for r a post
    using that rd_u8_step [of r a post ctx] by (simp add: read_choice_index_def rbind_step leD)
qed

lemma choice_appends: "i < count \<Longrightarrow> appends (write_choice_index i count ctx) [i]"
  by (simp add: appends_def write_choice_index_def wr_simps leD)

definition constrained_bytes :: "u32 \<Rightarrow> u32 \<Rightarrow> u32 \<Rightarrow> bytes" where
  "constrained_bytes lower upper v =
     (if upper - lower < 256 then [ucast (v - lower)] else to_be_bytes (ucast (v - lower) :: u16))"

lemma constrained_appends:
  "lower \<le> v \<Longrightarrow> v \<le> upper \<Longrightarrow> upper - lower < 65536 \<Longrightarrow>
   appends (write_constrained_int v lower upper ctx) (constrained_bytes lower upper v)"
  by (simp add: appends_def write_constrained_int_def constrained_bytes_def wr_simps leD Let_def)

lemma ucast_back:
  assumes "unat x < 2 ^ LENGTH('a::len)"
  shows "ucast (ucast (x :: u32) :: 'a word) = x"
proof -
  have "unat (ucast (ucast x :: 'a word) :: u32) = unat x"
    using assms unsigned_less [of x]
    by (simp add: unsigned_ucast_eq unsigned_take_bit_eq take_bit_nat_eq_self)
  then show ?thesis by (simp only: word_unat_eq_iff)
qed

lemma constrained_round:
  assumes "reader_ok r" and "lower \<le> v \<and> v \<le> upper \<and> upper - lower < 65536"
    and "left r = constrained_bytes lower upper v @ post"
  shows "read_constrained_int lower upper ctx r = Inr (v, advance (length (constrained_bytes lower upper v)) r)"
proof -
  have off: "v - lower \<le> upper - lower" and "\<not> upper < lower"
    using assms(2) by (auto simp: word_le_nat_alt word_less_nat_alt unat_sub intro: diff_le_mono)
  show ?thesis
  proof (cases "upper - lower < 256")
    case True
    then have "ucast (ucast (v - lower) :: u8) = v - lower" using off
      by (intro ucast_back) (simp add: word_less_nat_alt word_le_nat_alt)
    moreover have "rd_u8 ctx r = Inr (ucast (v - lower), advance 1 r)"
      using True assms by (intro rd_u8_step) (simp_all add: constrained_bytes_def)
    ultimately show ?thesis
      using True off \<open>\<not> upper < lower\<close>
      by (simp add: read_constrained_int_def constrained_bytes_def rbind_step rmap_step leD Let_def)
  next
    case False
    then have "ucast (ucast (v - lower) :: u16) = v - lower" using off assms(2)
      by (intro ucast_back) (simp add: word_less_nat_alt word_le_nat_alt)
    moreover have "rd_be_u16 ctx r = Inr (ucast (v - lower), advance 2 r)"
      using be16.round [of r "ucast (v - lower)" post ctx] False assms by (simp add: constrained_bytes_def)
    ultimately show ?thesis
      using False off assms(2) \<open>\<not> upper < lower\<close>
      by (simp add: read_constrained_int_def constrained_bytes_def rbind_step rmap_step leD Let_def)
  qed
qed

lemma constrained_safe: "reader_ok r \<Longrightarrow> read_constrained_int lower upper ctx r = Inr (v, r') \<Longrightarrow> extends r r'"
  by (auto simp: read_constrained_int_def Let_def rbind_Inr rmap_Inr split: if_splits intro: byte.safe be16.safe)

interpretation per_constrained: codec "read_constrained_int lower upper ctx" "constrained_bytes lower upper"
  "\<lambda>v. lower \<le> v \<and> v \<le> upper \<and> upper - lower < 65536" for lower upper ctx
  by unfold_locales (blast intro: constrained_safe constrained_round)+

text \<open>A length determinant and then that many octets, checked by \<open>f\<close>: the shape the rest share.\<close>

lemma counted_round:
  assumes "reader_ok r" and "length c \<le> 16383" and "left r = len_det_bytes (length c) @ c @ post"
  shows "rbind (read_length_determinant ctx) (\<lambda>len. rbind (rd_slice len ctx) f) r =
    f c (advance (length (len_det_bytes (length c)) + length c) r)"
    and "rbind (read_length_determinant ctx) (\<lambda>len. rd_slice len ctx) r =
    Inr (c, advance (length (len_det_bytes (length c)) + length c) r)"
proof -
  let ?n = "length (len_det_bytes (length c))"
  have len: "?n \<le> remaining r" using left_length [OF assms(3)] .
  have "read_length_determinant ctx r = Inr (length c, advance ?n r)"
    using assms by (rule len_det_round)
  moreover have "rd_slice (length c) ctx (advance ?n r) = Inr (c, advance (length c) (advance ?n r))"
    using assms len by (intro rd_slice_step [where post = post]) simp_all
  ultimately show "rbind (read_length_determinant ctx) (\<lambda>len. rbind (rd_slice len ctx) f) r =
      f c (advance (?n + length c) r)"
    and "rbind (read_length_determinant ctx) (\<lambda>len. rd_slice len ctx) r = Inr (c, advance (?n + length c) r)"
    by (simp_all add: rbind_step)
qed

lemma counted_safe:
  "reader_ok r \<Longrightarrow> read_length_determinant ctx r = Inr (len, r1) \<Longrightarrow> rd_slice n ctx r1 = Inr (c, r') \<Longrightarrow> extends r r'"
  using len_det_safe [of r ctx len r1] per_len.stays_ok [of r ctx len r1]
  by (auto simp: rd_slice_ok split: if_splits intro: extends_trans)

definition oid_bytes :: "bytes \<Rightarrow> bytes" where
  "oid_bytes c = len_det_bytes (length c) @ c"

lemma oid_appends: "length c \<le> 16383 \<Longrightarrow> appends (write_object_identifier c ctx) (oid_bytes c)"
  using len_det_appends [of "length c" ctx] by (simp add: appends_def write_object_identifier_def oid_bytes_def)

interpretation per_oid: codec "read_object_identifier ctx" oid_bytes "\<lambda>c. length c \<le> 16383" for ctx
proof
  show "extends r r'" if "reader_ok r" and "read_object_identifier ctx r = Inr (c, r')" for r r' c
    using that by (auto simp: read_object_identifier_def rbind_Inr intro: counted_safe)
  show "read_object_identifier ctx r = Inr (c, advance (length (oid_bytes c)) r)"
    if "reader_ok r" and "length c \<le> 16383" and "left r = oid_bytes c @ post" for r c post
    using that counted_round(2) [of r c post ctx] by (simp add: read_object_identifier_def oid_bytes_def)
qed

subsection \<open>Unconstrained integers\<close>

definition unconstrained_bytes :: "u32 \<Rightarrow> bytes" where
  "unconstrained_bytes v = len_det_bytes (length (int_octets v)) @ int_octets v"

lemma unconstrained_appends: "appends (write_unconstrained_int v ctx) (unconstrained_bytes v)"
proof -
  obtain b bs where sig: "significant (to_be_bytes v) = b # bs"
    using significant_u32(2) [of v] by (cases "significant (to_be_bytes v)") auto
  have l: "length (int_octets v) \<le> 16383" using int_octets_length [of v] by simp
  show ?thesis
    using len_det_appends [OF l, of ctx]
    by (cases "b AND 0x80 = 0")
      (simp_all add: appends_def write_unconstrained_int_def unconstrained_bytes_def int_octets_def sig Let_def wr_simps)
qed

lemma unconstrained_round:
  assumes "reader_ok r" and "left r = unconstrained_bytes v @ post"
  shows "read_unconstrained_int ctx r = Inr (v, advance (length (unconstrained_bytes v)) r)"
  using counted_round(1) [of r "int_octets v" post ctx
      "\<lambda>raw r'. bind_res (int_value ctx (offset r) raw) (\<lambda>v. Inr (v, r'))"] assms int_octets_length [of v]
  by (simp add: read_unconstrained_int_def unconstrained_bytes_def Let_def int_value_octets)

interpretation per_int: codec "read_unconstrained_int ctx" unconstrained_bytes "\<lambda>_. True" for ctx
proof
  show "extends r r'" if "reader_ok r" and "read_unconstrained_int ctx r = Inr (c, r')" for r r' c
    using that by (auto simp: read_unconstrained_int_def Let_def rbind_Inr res_simps intro: counted_safe)
qed (rule unconstrained_round)

text \<open>The announced size is exact: it counts the significant octets and the padding zero.\<close>

lemma int_octets_size: "Suc (length (int_octets v)) = unconstrained_int_size v"
proof -
  let ?bs = "to_be_bytes v" and ?sig = "significant (to_be_bytes v)"
  have v: "be_nat ?bs = unat v" by (simp add: be_nat_to_be)
  have ne: "?bs \<noteq> []" using significant_u32(2) [of v] by (auto simp: significant_simps)
  obtain b bs where sig: "?sig = b # bs" using significant_u32(2) [of v] by (cases ?sig) auto
  have val: "unat v = unat b * 256 ^ length bs + be_nat bs"
    using significant_u32(1) [of v] by (simp add: sig be_nat_Cons)
  have bound: "be_nat bs < 256 ^ length bs" by (rule be_nat_bound)
  have pad: "b AND 0x80 = 0 \<longleftrightarrow> unat b < 128" by (rule top_bit)
  have b256: "unat b < 256" using unsigned_less [of b] by simp
  have top: "unat b < 128 \<longleftrightarrow> unat v < 128 * 256 ^ length bs"
  proof
    assume "unat b < 128"
    then have "(unat b + 1) * 256 ^ length bs \<le> 128 * 256 ^ length bs" by (intro mult_le_mono1) simp
    then have "unat b * 256 ^ length bs + 256 ^ length bs \<le> 128 * 256 ^ length bs"
      by (simp only: add_mult_distrib mult_1)
    then show "unat v < 128 * 256 ^ length bs" using val bound by linarith
  next
    assume l: "unat v < 128 * 256 ^ length bs"
    show "unat b < 128"
    proof (rule ccontr)
      assume "\<not> unat b < 128"
      then have "128 * 256 ^ length bs \<le> unat b * 256 ^ length bs" by (intro mult_le_mono1) simp
      then show False using l val by linarith
    qed
  qed
  have fits: "unat v < 256 ^ k \<Longrightarrow> 0 < k \<Longrightarrow> length bs < k" for k
    using significant_fits [of ?bs k] ne v by (simp add: sig)
  have "length bs \<le> 3" using significant_u32(3) [of v] by (simp add: sig)
  then have n: "length bs = 0 \<or> length bs = 1 \<or> length bs = 2 \<or> length bs = 3" by linarith
  have size: "Suc (length (int_octets v)) = 2 + length bs + (if unat b < 128 then 0 else 1)"
    by (simp add: int_octets_def sig Let_def pad)
  have above: "unat v < 256 ^ Suc (length bs)"
    using be_nat_bound [of "b # bs"] significant_u32(1) [of v] by (simp add: sig)
  have below: "0 < length bs \<Longrightarrow> 256 ^ length bs \<le> unat v"
    using fits [of "length bs"] by (metis less_irrefl not_le)
  from n consider "length bs = 0" | "length bs = 1" | "length bs = 2" | "length bs = 3" by blast
  then show ?thesis
    unfolding size top unconstrained_int_size_def word_less_nat_alt
    by cases (use above below in simp_all)
qed

lemma unconstrained_size_exact: "length (unconstrained_bytes v) = unconstrained_int_size v"
proof -
  have "length (int_octets v) < 0x80" using int_octets_length [of v] by simp
  then have "length (unconstrained_bytes v) = Suc (length (int_octets v))"
    by (simp add: unconstrained_bytes_def len_det_bytes_def)
  then show ?thesis by (simp add: int_octets_size)
qed

subsection \<open>Numeric strings\<close>

lemma nibbles: "h < 10 \<Longrightarrow> l < 10 \<Longrightarrow>
    drop_bit 4 (push_bit 4 (of_nat h) OR of_nat l :: u8) = of_nat h \<and>
    (push_bit 4 (of_nat h) OR of_nat l :: u8) AND 0x0f = of_nat l"
proof -
  assume "h < 10" and "l < 10"
  moreover have "list_all (\<lambda>h. list_all (\<lambda>l.
      drop_bit 4 (push_bit 4 (of_nat h) OR of_nat l :: u8) = of_nat h \<and>
      (push_bit 4 (of_nat h) OR of_nat l :: u8) AND 0x0f = of_nat l) [0..<10]) [0..<10]"
    by code_simp
  ultimately show ?thesis by (simp add: list_all_iff)
qed

lemma digit_nat: "is_ascii_digit b \<Longrightarrow> \<exists>d<10. b - 0x30 = of_nat d \<and> b = of_nat (0x30 + d)"
proof -
  assume "is_ascii_digit b"
  then have b: "0x30 \<le> unat b" "unat b \<le> 0x39" by (simp_all add: is_ascii_digit_def word_le_nat_alt)
  let ?d = "unat b - 0x30"
  have "(of_nat (0x30 + ?d) :: u8) = b" using b by simp
  moreover have "b - 0x30 = of_nat ?d" using b by (simp add: of_nat_diff)
  ultimately show ?thesis using b by (intro exI [of _ ?d]) auto
qed

lemma digit_at_Cons: "digit_at (b # packed) (Suc (Suc i)) = digit_at packed i"
  by (simp add: digit_at_def)

lemma length_pack: "length (pack_digits ds) = (length ds + 1) div 2"
  by (induction ds rule: pack_digits.induct) simp_all

lemma digit_at_pack:
  "list_all is_ascii_digit ds \<Longrightarrow> i < length ds \<Longrightarrow> digit_at (pack_digits ds) i = ds ! i - 0x30"
proof (induction ds arbitrary: i rule: pack_digits.induct)
  case (2 h)
  then show ?case using digit_nat [of h] nibbles [of _ 0] by (auto simp: digit_at_def)
next
  case (3 h l rest)
  obtain a b where a: "a < 10" "h - 0x30 = of_nat a" and b: "b < 10" "l - 0x30 = of_nat b"
    using 3(2) digit_nat [of h] digit_nat [of l] by auto
  consider "i = 0" | "i = 1" | j where "i = Suc (Suc j)" by (metis One_nat_def not0_implies_Suc)
  then show ?case
  proof cases
    case 3
    then show ?thesis using "3.prems" "3.IH" [of j] by (simp add: digit_at_Cons)
  qed (use a b nibbles [OF a(1) b(1)] in \<open>simp_all add: digit_at_def\<close>)
qed simp

lemma read_digits_map:
  "(\<forall>i\<in>set is. digit_at packed i \<le> 9) \<Longrightarrow>
   read_digits ctx at packed is = Inr (map (\<lambda>i. char_of (0x30 + unat (digit_at packed i))) is)"
  by (induction "is") (auto simp: leD)

definition numeric_ok :: "nat \<Rightarrow> string \<Rightarrow> bool" where
  "numeric_ok min_len s \<longleftrightarrow> min_len \<le> length s \<and> length s \<le> min_len + 255 \<and>
     list_all is_ascii_digit (str_bytes s)"

definition numeric_bytes :: "nat \<Rightarrow> string \<Rightarrow> bytes" where
  "numeric_bytes min_len s = of_nat (length s - min_len) # pack_digits (str_bytes s)"

lemma length_str_bytes [simp]: "length (str_bytes s) = length s"
  by (simp add: str_bytes_def)

lemma numeric_appends: "numeric_ok min_len s \<Longrightarrow> appends (write_numeric_string s min_len ctx) (numeric_bytes min_len s)"
  by (auto simp: appends_def write_numeric_string_def numeric_ok_def numeric_bytes_def wr_simps Let_def)

lemma numeric_digits:
  assumes "numeric_ok min_len s"
  shows "read_digits ctx at (pack_digits (str_bytes s)) [0..<length s] = Inr s"
proof -
  have d: "digit_at (pack_digits (str_bytes s)) i = of_nat (of_char (s ! i)) - 0x30"
    if "i < length s" for i
    using assms that digit_at_pack [of "str_bytes s" i] by (simp add: numeric_ok_def str_bytes_def)
  have dig: "is_ascii_digit (of_nat (of_char (s ! i)))" if "i < length s" for i
    using assms that by (simp add: numeric_ok_def str_bytes_def list_all_length)
  have one: "digit_at (pack_digits (str_bytes s)) i \<le> 9 \<and>
      char_of (0x30 + unat (digit_at (pack_digits (str_bytes s)) i)) = s ! i" if "i < length s" for i
  proof -
    obtain k where k: "k < 10" and 1: "(of_nat (of_char (s ! i)) :: u8) - 0x30 = of_nat k"
      and 2: "(of_nat (of_char (s ! i)) :: u8) = of_nat (0x30 + k)"
      using digit_nat [OF dig] \<open>i < length s\<close> by blast
    have "of_char (s ! i) < (256 :: nat)" by simp
    then have "of_char (s ! i) = 0x30 + k"
      using arg_cong [OF 2, of unat] k by (simp add: unat_of_nat_u8 del: of_nat_add)
    moreover have "unat (of_nat k :: u8) = k" using k by (simp add: unat_of_nat_u8)
    ultimately have "char_of (0x30 + unat (of_nat k :: u8)) = s ! i" by (metis char_of_char)
    then show ?thesis using k unfolding d [OF \<open>i < length s\<close>] 1 by (simp add: word_le_nat_alt unat_of_nat_u8)
  qed
  have "read_digits ctx at (pack_digits (str_bytes s)) [0..<length s] =
      Inr (map (\<lambda>i. char_of (0x30 + unat (digit_at (pack_digits (str_bytes s)) i))) [0..<length s])"
    using one by (intro read_digits_map) simp
  also have "\<dots> = Inr (map (nth s) [0..<length s])" using one by simp
  finally show ?thesis by (simp add: map_nth)
qed

lemma numeric_round:
  assumes "reader_ok r" and "numeric_ok min_len s" and "left r = numeric_bytes min_len s @ post"
  shows "read_numeric_string min_len ctx r = Inr (s, advance (length (numeric_bytes min_len s)) r)"
proof -
  let ?extra = "of_nat (length s - min_len) :: u8" and ?packed = "pack_digits (str_bytes s)"
  have len: "min_len + unat ?extra = length s" 
    using assms(2) unat_of_nat_u8 [of "length s - min_len"] by (auto simp: numeric_ok_def simp del: of_nat_diff)
  have l: "left r = ?extra # ?packed @ post" using assms(3) by (simp add: numeric_bytes_def)
  have "rd_u8 ctx r = Inr (?extra, advance 1 r)" using l by (rule rd_u8_step [OF assms(1)])
  moreover have "rd_slice ((length s + 1) div 2) ctx (advance 1 r) =
      Inr (?packed, advance ((length s + 1) div 2) (advance 1 r))"
    using l left_length [of r "[?extra]" "?packed @ post"] assms(1)
    by (intro rd_slice_step) (simp_all add: length_pack)
  moreover have "length (numeric_bytes min_len s) = 1 + (length s + 1) div 2"
    by (simp add: numeric_bytes_def length_pack)
  ultimately show ?thesis
    using numeric_digits [OF assms(2)]
    by (simp only: read_numeric_string_def Let_def rbind_step len bind_res.simps advance_simps)
qed

lemma numeric_safe:
  assumes "reader_ok r" and "read_numeric_string min_len ctx r = Inr (s, r')"
  shows "extends r r'"
proof -
  obtain a r1 packed where a: "rd_u8 ctx r = Inr (a, r1)"
    and p: "rd_slice ((min_len + unat a + 1) div 2) ctx r1 = Inr (packed, r')"
    using assms(2) by (auto simp: read_numeric_string_def Let_def rbind_Inr res_simps)
  have "extends r1 r'" using p by (auto simp: rd_slice_ok byte.stays_ok [OF assms(1) a] split: if_splits)
  with byte.safe [OF assms(1) a] show ?thesis by (rule extends_trans)
qed

interpretation per_numeric: codec "read_numeric_string min_len ctx" "numeric_bytes min_len" "numeric_ok min_len"
  for min_len ctx
  by unfold_locales (blast intro: numeric_safe numeric_round)+

subsection \<open>Constrained octet strings\<close>

definition per_octets_ok :: "nat \<Rightarrow> nat \<Rightarrow> bytes \<Rightarrow> bool" where
  "per_octets_ok mn mx c \<longleftrightarrow> mn \<le> length c \<and> length c \<le> mx \<and>
     (if mn = mx then 2 < mn else length c \<le> 16383)"

definition per_octets_bytes :: "nat \<Rightarrow> nat \<Rightarrow> bytes \<Rightarrow> bytes" where
  "per_octets_bytes mn mx c = (if mn = mx then c else len_det_bytes (length c) @ c)"

lemma per_octets_appends:
  "per_octets_ok mn mx c \<Longrightarrow> appends (per_write_octet_string c mn mx ctx) (per_octets_bytes mn mx c)"
  using len_det_appends [of "length c" ctx]
  by (auto simp: appends_def per_octets_ok_def per_octets_bytes_def per_write_octet_string_def split: if_splits)

lemma per_octets_round:
  assumes "reader_ok r" and "per_octets_ok mn mx c" and "left r = per_octets_bytes mn mx c @ post"
  shows "per_read_octet_string mn mx ctx r = Inr (c, advance (length (per_octets_bytes mn mx c)) r)"
proof (cases "mn = mx")
  case True
  then have "rd_slice mn ctx r = Inr (c, advance mn r)" and "length c = mn"
    using assms by (auto simp: per_octets_ok_def per_octets_bytes_def intro!: rd_slice_step)
  then show ?thesis
    using True assms(2) by (simp add: per_read_octet_string_def per_octets_ok_def per_octets_bytes_def)
next
  case False
  let ?n = "length (len_det_bytes (length c))"
  have l: "left r = len_det_bytes (length c) @ c @ post" using assms(3) False by (simp add: per_octets_bytes_def)
  have ok: "\<not> (length c < mn \<or> mx < length c)" "length c \<le> 16383" using assms(2) False by (simp_all add: per_octets_ok_def)
  have "read_length_determinant ctx r = Inr (length c, advance ?n r)" using assms(1) ok(2) l by (rule len_det_round)
  moreover have "rd_slice (length c) ctx (advance ?n r) = Inr (c, advance (length c) (advance ?n r))"
    using assms(1) l left_length [OF l] by (intro rd_slice_step) simp_all
  ultimately show ?thesis
    using False ok by (simp add: per_read_octet_string_def per_octets_bytes_def rbind_step Let_def)
qed

lemma per_octets_safe: "reader_ok r \<Longrightarrow> per_read_octet_string mn mx ctx r = Inr (c, r') \<Longrightarrow> extends r r'"
  by (auto simp: per_read_octet_string_def Let_def rbind_Inr rd_slice_ok split: if_splits intro: counted_safe)

interpretation per_octets: codec "per_read_octet_string mn mx ctx" "per_octets_bytes mn mx" "per_octets_ok mn mx"
  for mn mx ctx
  by unfold_locales (blast intro: per_octets_safe per_octets_round)+

section \<open>Reading what was written\<close>

text \<open>
  Reading back, compositionally: \<open>reads m bs a\<close> says that the decoder \<open>m\<close> turns the bytes \<open>bs\<close>
  into \<open>a\<close> and stops right behind them, whatever follows; \<open>reads_end\<close> is the same for a decoder
  that takes everything that is left. A decoder of a PDU is a chain of reads, and its round trip
  is the chain of the rules below.
\<close>

definition reads :: "'a rd \<Rightarrow> bytes \<Rightarrow> 'a \<Rightarrow> bool" where
  "reads m bs a \<longleftrightarrow> (\<forall>r post. reader_ok r \<longrightarrow> left r = bs @ post \<longrightarrow> m r = Inr (a, advance (length bs) r))"

definition reads_end :: "'a rd \<Rightarrow> bytes \<Rightarrow> 'a \<Rightarrow> bool" where
  "reads_end m bs a \<longleftrightarrow> (\<forall>r. reader_ok r \<longrightarrow> left r = bs \<longrightarrow> m r = Inr (a, advance (length bs) r))"

lemma readsD: "reads m bs a \<Longrightarrow> reader_ok r \<Longrightarrow> left r = bs @ post \<Longrightarrow> m r = Inr (a, advance (length bs) r)"
  by (auto simp: reads_def)

lemma reads_endD: "reads_end m bs a \<Longrightarrow> reader_ok r \<Longrightarrow> left r = bs \<Longrightarrow> m r = Inr (a, advance (length bs) r)"
  by (auto simp: reads_end_def)

lemma reads_fresh: "reads m bs a \<Longrightarrow> length bs < 2 ^ 63 \<Longrightarrow> m (reader_new bs) = Inr (a, advance (length bs) (reader_new bs))"
  by (auto simp: reads_def)

lemma reads_end_fresh:
  "reads_end m bs a \<Longrightarrow> length bs < 2 ^ 63 \<Longrightarrow> m (reader_new bs) = Inr (a, advance (length bs) (reader_new bs))"
  by (auto simp: reads_end_def)

lemma reads_to_end: "reads m bs a \<Longrightarrow> reads_end m bs a"
  by (auto simp: reads_def reads_end_def)

lemma reads_rret: "a = b \<Longrightarrow> reads (rret a) [] b"
  by (simp add: reads_def)

lemma reads_rbind:
  assumes "reads m xs a" and "reads (f a) ys b"
  shows "reads (rbind m f) (xs @ ys) b"
  unfolding reads_def
proof (intro allI impI)
  fix r post
  assume r: "reader_ok r" and l: "left r = (xs @ ys) @ post"
  then have "m r = Inr (a, advance (length xs) r)" by (intro readsD [OF assms(1), of _ "ys @ post"]) simp_all
  moreover have "f a (advance (length xs) r) = Inr (b, advance (length ys) (advance (length xs) r))"
    using r l left_length [of r xs "ys @ post"] by (intro readsD [OF assms(2), of _ post]) simp_all
  ultimately show "rbind m f r = Inr (b, advance (length (xs @ ys)) r)" by (simp add: rbind_step)
qed

lemma reads_rbind_end:
  assumes "reads m xs a" and "reads_end (f a) ys b"
  shows "reads_end (rbind m f) (xs @ ys) b"
  unfolding reads_end_def
proof (intro allI impI)
  fix r
  assume r: "reader_ok r" and l: "left r = xs @ ys"
  then have "m r = Inr (a, advance (length xs) r)" by (intro readsD [OF assms(1)]) simp_all
  moreover have "f a (advance (length xs) r) = Inr (b, advance (length ys) (advance (length xs) r))"
    using r l left_length [of r xs ys] by (intro reads_endD [OF assms(2)]) simp_all
  ultimately show "rbind m f r = Inr (b, advance (length (xs @ ys)) r)" by (simp add: rbind_step)
qed

lemma reads_rmap: "reads m bs a \<Longrightarrow> b = g a \<Longrightarrow> reads (rmap g m) bs b"
  using reads_rbind [of m bs a "\<lambda>a. rret (g a)" "[]" b] by (simp add: rmap_def reads_rret)

lemma reads_rmap_end: "reads_end m bs a \<Longrightarrow> b = g a \<Longrightarrow> reads_end (rmap g m) bs b"
  by (simp add: reads_end_def rmap_step)

text \<open>A decoder that looks at the reader first, for the offset an error would name.\<close>

lemma reads_look: "(\<And>x. reads (f x) bs a) \<Longrightarrow> reads (\<lambda>r. f (g r) r) bs a"
  by (simp add: reads_def)

lemma reads_look_end: "(\<And>x. reads_end (f x) bs a) \<Longrightarrow> reads_end (\<lambda>r. f (g r) r) bs a"
  by (simp add: reads_end_def)

text \<open>Every codec reads its encodings, and the fields in particular.\<close>

lemma reads_codec: "codec dec enc ok \<Longrightarrow> ok a \<Longrightarrow> reads dec (enc a) a"
  by (auto simp: reads_def intro: codec.round)

lemma reads_u8: "reads (rd_u8 ctx) [b] b"
  by (simp add: reads_def u8_round)

lemma reads_u16: "reads (rd_u16 ctx) (to_le_bytes v) v"
  by (rule reads_codec [OF le16.codec_axioms]) simp

lemma reads_u32: "reads (rd_u32 ctx) (to_le_bytes v) v"
  by (rule reads_codec [OF le32.codec_axioms]) simp

lemma reads_u64: "reads (rd_u64 ctx) (to_le_bytes v) v"
  by (rule reads_codec [OF le64.codec_axioms]) simp

lemma reads_be_u16: "reads (rd_be_u16 ctx) (to_be_bytes v) v"
  by (rule reads_codec [OF be16.codec_axioms]) simp

lemma reads_slice: "n = length bs \<Longrightarrow> reads (rd_slice n ctx) bs bs"
  by (simp add: reads_def slice_round)

lemma reads_skip: "n = length bs \<Longrightarrow> reads (rd_skip n ctx) bs ()"
  by (simp add: reads_def skip_round)

lemma reads_expect_empty: "reads_end (expect_empty ctx) [] ()"
  by (simp add: reads_end_def expect_empty_left)

lemma reads_u8_rbind: "reads (f b) ys a \<Longrightarrow> reads (rbind (rd_u8 ctx) f) (b # ys) a"
  using reads_rbind [OF reads_u8] by simp

lemma reads_u8_rbind_end: "reads_end (f b) ys a \<Longrightarrow> reads_end (rbind (rd_u8 ctx) f) (b # ys) a"
  using reads_rbind_end [OF reads_u8] by simp

text \<open>Bit fields packed into a word are told apart by their widths.\<close>

lemma take_bit_below: "x < 2 ^ n \<Longrightarrow> take_bit n x = x" for x :: "'a::len word"
  by (simp add: take_bit_eq_mask less_mask_eq)

lemma bit_below: "x < 2 ^ n \<Longrightarrow> bit x i \<Longrightarrow> i < n" for x :: "'a::len word"
  using take_bit_below [of x n] by (metis bit_take_bit_iff)

lemmas reads_fields = reads_u8 reads_u16 reads_u32 reads_u64 reads_be_u16

end
