(* ===== verification/Segment.thy ===== *)
theory Segment
  imports Wire
begin

text \<open>
  RDP 8.0 segmented bulk data (\<open>crates/rdp-pdu/src/vc/segment.rs\<close>): the SINGLE form, one blob
  to the end of the message, and the MULTIPART form, whose segments must tile the message.
\<close>

unbundle bit_operations_syntax

subsection \<open>Descriptor, flags, segments\<close>

definition SINGLE :: u8 where "SINGLE = 0xE0"
definition MULTIPART :: u8 where "MULTIPART = 0xE1"
definition PACKET_COMPRESSED :: u8 where "PACKET_COMPRESSED = 0x20"
definition MAX_SEGMENT_COUNT :: nat where "MAX_SEGMENT_COUNT = 65535"
definition MAX_UNCOMPRESSED_SIZE :: nat where "MAX_UNCOMPRESSED_SIZE = 64 * 1024 * 1024"

record compressed_segment =
  seg_flags :: u8
  seg_data :: bytes

definition seg_is_compressed :: "compressed_segment \<Rightarrow> bool" where
  "seg_is_compressed s \<longleftrightarrow> seg_flags s AND PACKET_COMPRESSED \<noteq> 0"

datatype segmented =
    Literal u8 bytes
  | Compressed "compressed_segment list" "nat option"

fun segments :: "segmented \<Rightarrow> compressed_segment list" where
  "segments (Literal _ _) = []"
| "segments (Compressed ss _) = ss"

fun uncompressed_size :: "segmented \<Rightarrow> nat option" where
  "uncompressed_size (Literal _ _) = None"
| "uncompressed_size (Compressed _ n) = n"

subsection \<open>Decoding\<close>

definition seg_name :: string where
  "seg_name = ''RDP_SEGMENTED_DATA''"

text \<open>One turn of the loop over the segments of a MULTIPART message.\<close>

definition read_segment :: "compressed_segment rd" where
  "read_segment =
     rbind (rd_u32 ''RDP_DATA_SEGMENT size'') (\<lambda>sz r1.
       if unat sz = 0
       then Inl (InvalidField ''RDP_DATA_SEGMENT'' ''size'' 0 (offset r1))
       else bind_res (rd_take (unat sz) ''RDP_DATA_SEGMENT'' r1) (\<lambda>(body, r2).
         bind_res (rd_u8 ''RDP_DATA_SEGMENT bulkData flags'' body) (\<lambda>(flags, body').
           Inr (\<lparr>seg_flags = flags, seg_data = fst (rd_rest body')\<rparr>, r2))))"

definition decode_segmented :: "segmented rd" where
  "decode_segmented r =
     (let at = offset r in
      rbind (rd_u8 seg_name) (\<lambda>desc.
        if desc = SINGLE then
          rbind (rd_u8 ''RDP_SEGMENTED_DATA bulkData flags'') (\<lambda>flags r1.
            let (data, r2) = rd_rest r1 in
            if flags AND PACKET_COMPRESSED = 0 then Inr (Literal flags data, r2)
            else Inr (Compressed [\<lparr>seg_flags = flags, seg_data = data\<rparr>] None, r2))
        else if desc = MULTIPART then (\<lambda>r0.
          let count_at = offset r0 in
          rbind (rd_u16 ''RDP_SEGMENTED_DATA segmentCount'') (\<lambda>count.
            rbind (ensure_cap (unat count) MAX_SEGMENT_COUNT ''MAX_SEGMENT_COUNT'' seg_name) (\<lambda>_.
              rbind (rd_u32 ''RDP_SEGMENTED_DATA uncompressedSize'') (\<lambda>tot.
                rbind (ensure_cap (unat tot) MAX_UNCOMPRESSED_SIZE ''MAX_UNCOMPRESSED_SIZE'' seg_name) (\<lambda>_.
                  if unat count = 0 then rfail (InvalidField seg_name ''segmentCount'' 0 count_at)
                  else rbind (rrepeat (unat count) read_segment) (\<lambda>ss.
                    rbind (expect_empty seg_name) (\<lambda>_.
                      rret (Compressed ss (Some (unat tot))))))))) r0)
        else rfail (InvalidField seg_name ''descriptor'' (unat desc) at)) r)"

subsection \<open>Encoding\<close>

fun segmented_size :: "segmented \<Rightarrow> nat" where
  "segmented_size (Literal _ data) = 2 + length data"
| "segmented_size (Compressed ss n) =
     (if n = None then 2 + (case ss of [] \<Rightarrow> 0 | s # _ \<Rightarrow> length (seg_data s))
      else 1 + 2 + 4 + sum_list (map (\<lambda>s. 4 + 1 + length (seg_data s)) ss))"

fun write_segments :: "compressed_segment list \<Rightarrow> try_wr" where
  "write_segments [] w = Inr w"
| "write_segments (s # ss) w =
     (if length (seg_data s) + 1 < 2 ^ 32
      then write_segments ss (wr_bytes (seg_data s) (wr_u8 (seg_flags s)
             (wr_u32 (of_nat (length (seg_data s) + 1)) w)))
      else Inl (EncodeErr ''RDP_DATA_SEGMENT'' ''segment longer than its u32 size field''))"

fun encode_segmented :: "segmented \<Rightarrow> try_wr" where
  "encode_segmented (Literal flags data) w =
     Inr (wr_bytes data (wr_u8 (flags AND NOT PACKET_COMPRESSED) (wr_u8 SINGLE w)))"
| "encode_segmented (Compressed ss None) w =
     (case ss of
        [only] \<Rightarrow> Inr (wr_bytes (seg_data only) (wr_u8 (seg_flags only) (wr_u8 SINGLE w)))
      | _ \<Rightarrow> Inl (EncodeErr seg_name ''the SINGLE form carries exactly one segment''))"
| "encode_segmented (Compressed ss (Some tot)) w =
     (if \<not> length ss < 2 ^ 16
        then Inl (EncodeErr seg_name ''more segments than segmentCount can hold'')
      else if \<not> tot < 2 ^ 32
        then Inl (EncodeErr seg_name ''uncompressedSize does not fit its u32 field'')
      else write_segments ss (wr_u32 (of_nat tot) (wr_u16 (of_nat (length ss)) (wr_u8 MULTIPART w))))"

subsection \<open>One segment is an exact codec\<close>

definition segment_bytes :: "compressed_segment \<Rightarrow> bytes" where
  "segment_bytes s = to_le_bytes (of_nat (length (seg_data s) + 1) :: u32) @ seg_flags s # seg_data s"

definition segment_ok :: "compressed_segment \<Rightarrow> bool" where
  "segment_ok s \<longleftrightarrow> length (seg_data s) + 1 < 2 ^ 32"

lemma rd_rest_left: "reader_ok r \<Longrightarrow> rd_rest r = (left r, advance (remaining r) r)"
  by (simp add: rd_rest_def rd_slice_ok)

lemma write_segments_appends:
  "list_all segment_ok ss \<Longrightarrow> appends (write_segments ss) (concat (map segment_bytes ss))"
  by (induction ss) (simp_all add: appends_def segment_ok_def segment_bytes_def wr_simps)

lemma rd_u8_cons: "reader_ok r \<Longrightarrow> left r = b # post \<Longrightarrow> rd_u8 ctx r = Inr (b, advance 1 r)"
  using byte.round [of r b post ctx] by simp

lemma rd_take_ok:
  "reader_ok r \<Longrightarrow> rd_take n ctx r =
    (if n \<le> remaining r then Inr (reader_sub (take n (left r)) (offset r), advance n r)
     else Inl (Truncated ctx (offset r) n (remaining r)))"
  by (simp add: rd_take_def rd_slice_ok)

lemma reader_ok_sub: "reader_ok r \<Longrightarrow> reader_ok (reader_sub (take n (left r)) base)"
  using remaining_bound [of r] unfolding reader_ok_def [of "reader_sub _ _"]
  by (simp add: reader_sub_def)

lemma unat_of_nat_u32: "n < 2 ^ 32 \<Longrightarrow> unat (of_nat n :: u32) = n"
  by (simp add: unsigned_of_nat take_bit_nat_eq_self)

lemma read_segment_round:
  assumes "reader_ok r" and "segment_ok s" and "left r = segment_bytes s @ post"
  shows "read_segment r = Inr (s, advance (length (segment_bytes s)) r)"
proof -
  let ?body = "seg_flags s # seg_data s"
  define sz where "sz = (of_nat (length (seg_data s) + 1) :: u32)"
  have sz: "unat sz = length (seg_data s) + 1"
    using assms(2) unfolding segment_ok_def sz_def by (rule unat_of_nat_u32)
  have l: "left r = to_le_bytes sz @ ?body @ post" using assms(3) by (simp add: segment_bytes_def sz_def)
  have len: "4 + length ?body \<le> remaining r"
    using left_length [of r "to_le_bytes sz @ ?body" post] l by simp
  have 1: "rd_u32 ctx r = Inr (sz, advance 4 r)" for ctx
    using le32.round [OF assms(1) _ l] by simp
  have 2: "rd_take (unat sz) ctx (advance 4 r) = Inr (reader_sub ?body (offset r + 4), advance (length ?body) (advance 4 r))" for ctx
    unfolding sz using len l assms(1) by (simp add: rd_take_ok)
  have ok: "reader_ok (reader_sub ?body (offset r + 4))"
    using remaining_bound [OF assms(1)] len by (simp add: reader_ok_def reader_sub_def)
  have 3: "rd_u8 ctx (reader_sub ?body (offset r + 4)) = Inr (seg_flags s, advance 1 (reader_sub ?body (offset r + 4)))" for ctx
    by (rule rd_u8_cons [OF ok]) simp
  have 4: "fst (rd_rest (advance 1 (reader_sub ?body (offset r + 4)))) = seg_data s"
  proof -
    have "reader_ok (advance 1 (reader_sub ?body (offset r + 4)))"
      using ok by (simp add: reader_ok_def reader_sub_def)
    then show ?thesis by (simp add: rd_rest_left)
  qed
  have "length (segment_bytes s) = 4 + length ?body" by (simp add: segment_bytes_def)
  then show ?thesis by (simp add: read_segment_def rbind_step 1 2 [unfolded sz, simplified] 3 [simplified] 4 [simplified] sz)
qed

lemma read_segment_canon:
  assumes "reader_ok r" and "read_segment r = Inr (s, r')"
  shows "extends r r'" and "segment_ok s" and "left r = segment_bytes s @ left r'"
proof -
  obtain sz r1 body r2 flags body' where sz: "rd_u32 ''RDP_DATA_SEGMENT size'' r = Inr (sz, r1)" and nz: "unat sz \<noteq> 0"
    and take: "rd_take (unat sz) ''RDP_DATA_SEGMENT'' r1 = Inr (body, r')"
    and flags: "rd_u8 ''RDP_DATA_SEGMENT bulkData flags'' body = Inr (flags, body')"
    and s: "s = \<lparr>seg_flags = flags, seg_data = fst (rd_rest body')\<rparr>"
    using assms(2) by (auto simp: read_segment_def rbind_Inr res_simps split: if_splits)
  have ok1: "reader_ok r1" and e1: "extends r r1" and l1: "left r = to_le_bytes sz @ left r1"
    using le32.stays_ok [OF assms(1) sz] le32.safe [OF assms(1) sz] le32.canon [OF assms(1) sz] by simp_all
  have n: "unat sz \<le> remaining r1" and body: "body = reader_sub (take (unat sz) (left r1)) (offset r1)"
    and r': "r' = advance (unat sz) r1"
    using take by (simp_all add: rd_take_ok [OF ok1] split: if_splits)
  have okb: "reader_ok body" unfolding body using ok1 by (rule reader_ok_sub)
  have ok2: "reader_ok body'" and lb: "left body = flags # left body'"
    using byte.stays_ok [OF okb flags] byte.canon [OF okb flags] by simp_all
  then have tk: "take (unat sz) (left r1) = flags # seg_data s" by (simp add: s rd_rest_left body)
  have len: "length (seg_data s) + 1 = unat sz" using arg_cong [OF tk, of length] n by simp
  then have "(of_nat (length (seg_data s) + 1) :: u32) = sz" by simp
  then have "segment_bytes s = to_le_bytes sz @ take (unat sz) (left r1)"
    by (simp add: segment_bytes_def tk s)
  then show "left r = segment_bytes s @ left r'" by (simp add: l1 r')
  show "extends r r'" using e1 ok1 n by (simp add: r' extends_trans)
  show "segment_ok s" using len unsigned_less [of sz] by (simp add: segment_ok_def)
qed

interpretation seg: exact_codec read_segment segment_bytes segment_ok
  by unfold_locales (blast intro: read_segment_round read_segment_canon)+

subsection \<open>Messages\<close>

text \<open>The messages that have a form on the wire, and their bytes.\<close>

fun segmented_ok :: "segmented \<Rightarrow> bool" where
  "segmented_ok (Literal flags data) \<longleftrightarrow> flags AND PACKET_COMPRESSED = 0"
| "segmented_ok (Compressed ss None) \<longleftrightarrow>
     (case ss of [s] \<Rightarrow> seg_is_compressed s | _ \<Rightarrow> False)"
| "segmented_ok (Compressed ss (Some tot)) \<longleftrightarrow>
     ss \<noteq> [] \<and> length ss < 2 ^ 16 \<and> tot \<le> MAX_UNCOMPRESSED_SIZE \<and> list_all segment_ok ss"

fun segmented_bytes :: "segmented \<Rightarrow> bytes" where
  "segmented_bytes (Literal flags data) = SINGLE # flags # data"
| "segmented_bytes (Compressed ss None) = (case ss of s # _ \<Rightarrow> SINGLE # seg_flags s # seg_data s | [] \<Rightarrow> [])"
| "segmented_bytes (Compressed ss (Some tot)) =
     MULTIPART # to_le_bytes (of_nat (length ss) :: u16) @ to_le_bytes (of_nat tot :: u32) @
     concat (map segment_bytes ss)"

lemma and_not_clear: "(f :: u8) AND m = 0 \<Longrightarrow> f AND NOT m = f"
  by (auto simp: bit_eq_iff bit_simps)

lemma encode_segmented_appends: "segmented_ok v \<Longrightarrow> appends (encode_segmented v) (segmented_bytes v)"
proof (induction v rule: segmented_ok.induct)
  case (2 ss)
  then show ?case by (auto simp: appends_def wr_simps split: list.splits)
next
  case (3 ss tot)
  then show ?case
    using appendsD [OF write_segments_appends, of ss]
    by (auto simp: appends_def wr_simps MAX_UNCOMPRESSED_SIZE_def)
qed (simp_all add: appends_def wr_simps and_not_clear)

lemma segmented_size_exact: "segmented_ok v \<Longrightarrow> length (segmented_bytes v) = segmented_size v"
proof (induction v rule: segmented_ok.induct)
  case (2 ss)
  then show ?case by (auto split: list.splits)
next
  case (3 ss tot)
  have "length (concat (map segment_bytes ss)) = sum_list (map (\<lambda>s. 4 + 1 + length (seg_data s)) ss)"
    by (induction ss) (simp_all add: segment_bytes_def)
  then show ?case by simp
qed simp

lemma single_not_multi [simp]: "SINGLE \<noteq> MULTIPART" "MULTIPART \<noteq> SINGLE"
  by (simp_all add: SINGLE_def MULTIPART_def)

lemma decode_single:
  assumes "reader_ok r" and "left r = SINGLE # flags # data"
  shows "decode_segmented r =
    Inr (if flags AND PACKET_COMPRESSED = 0 then Literal flags data
         else Compressed [\<lparr>seg_flags = flags, seg_data = data\<rparr>] None, advance (remaining r) r)"
proof -
  have n: "remaining r = 2 + length data" using arg_cong [OF assms(2), of length] by simp
  have 1: "rd_u8 ctx r = Inr (SINGLE, advance 1 r)" for ctx
    using assms by (rule rd_u8_cons)
  have 2: "rd_u8 ctx (advance 1 r) = Inr (flags, advance 1 (advance 1 r))" for ctx
    using assms n by (intro rd_u8_cons) simp_all
  have 3: "rd_rest (advance 1 (advance 1 r)) = (data, advance (length data) (advance 1 (advance 1 r)))"
    using assms n by (simp add: rd_rest_left)
  show ?thesis
    by (simp add: decode_segmented_def Let_def rbind_step 1 2 [simplified] 3 [simplified] n)
qed

lemma decode_multi:
  assumes "reader_ok r" and "segmented_ok (Compressed ss (Some tot))"
    and "left r = segmented_bytes (Compressed ss (Some tot))"
  shows "decode_segmented r = Inr (Compressed ss (Some tot), advance (remaining r) r)"
proof -
  let ?segs = "concat (map segment_bytes ss)"
  define cnt where "cnt = (of_nat (length ss) :: u16)"
  define n where "n = (of_nat tot :: u32)"
  have cnt: "unat cnt = length ss" and n: "unat n = tot"
    using assms(2) by (simp_all add: cnt_def n_def unsigned_of_nat take_bit_nat_eq_self MAX_UNCOMPRESSED_SIZE_def)
  have l: "left r = MULTIPART # to_le_bytes cnt @ to_le_bytes n @ ?segs"
    using assms(3) by (simp add: cnt_def n_def)
  have rem: "remaining r = 7 + length ?segs" using arg_cong [OF l, of length] by simp
  have 1: "rd_u8 ctx r = Inr (MULTIPART, advance 1 r)" for ctx
    using l by (rule rd_u8_cons [OF assms(1)])
  have 2: "rd_u16 ctx (advance 1 r) = Inr (cnt, advance 2 (advance 1 r))" for ctx
    using le16.round [of "advance 1 r" cnt "to_le_bytes n @ ?segs" ctx] assms(1) l rem by simp
  have 3: "rd_u32 ctx (advance 3 r) = Inr (n, advance 4 (advance 3 r))" for ctx
    using le32.round [of "advance 3 r" n "?segs" ctx] assms(1) l rem by simp
  have 4: "rrepeat (length ss) read_segment (advance 7 r) = Inr (ss, advance (length ?segs) (advance 7 r))"
    using seg.repeat_round [of "advance 7 r" ss "[]"] assms(1,2) l rem by simp
  have 5: "expect_empty ctx (advance (7 + length ?segs) r) = Inr ((), advance (7 + length ?segs) r)" for ctx
  proof -
    have "length (rd_buf r) \<le> rd_pos r + (7 + length ?segs)" using rem by (simp add: remaining_def)
    then show ?thesis by (simp add: expect_empty_def rd_is_empty_def)
  qed
  have 6: "ensure_cap (length ss) MAX_SEGMENT_COUNT a b q = Inr ((), q)"
      "ensure_cap tot MAX_UNCOMPRESSED_SIZE a b q = Inr ((), q)" for a b q
    using assms(2) by (simp_all add: ensure_cap_def MAX_SEGMENT_COUNT_def)
  have "ss \<noteq> []" using assms(2) by simp
  then show ?thesis
    by (simp add: decode_segmented_def Let_def rbind_step 1 2 [simplified] 3 [unfolded numeral_3_eq_3] 4 5 6 cnt n rem)
qed

lemma decode_round:
  "reader_ok r \<Longrightarrow> segmented_ok v \<Longrightarrow> left r = segmented_bytes v \<Longrightarrow>
   decode_segmented r = Inr (v, advance (remaining r) r)"
proof (induction v rule: segmented_ok.induct)
  case (1 flags data)
  then show ?case using decode_single [of r flags data] by simp
next
  case (2 ss)
  then obtain s where "ss = [s]" and "seg_is_compressed s" by (auto split: list.splits)
  then show ?case using 2 decode_single [of r "seg_flags s" "seg_data s"] by (simp add: seg_is_compressed_def)
next
  case (3 ss tot)
  then show ?case by (intro decode_multi) simp_all
qed

text \<open>The other way round: what was decoded is the whole rest of the message, and encodes to it.\<close>

lemma ensure_cap_Inr: "ensure_cap d c a b r = Inr (u, r') \<longleftrightarrow> d \<le> c \<and> r' = r"
  by (auto simp: ensure_cap_def)

lemma decode_canon:
  assumes "reader_ok r" and "decode_segmented r = Inr (v, r')"
  shows "segmented_ok v \<and> left r = segmented_bytes v \<and> left r' = []"
proof -
  obtain desc r1 where d: "rd_u8 seg_name r = Inr (desc, r1)"
    using assms(2) by (auto simp: decode_segmented_def Let_def rbind_Inr)
  have ok1: "reader_ok r1" and l1: "left r = desc # left r1"
    using byte.stays_ok [OF assms(1) d] byte.canon [OF assms(1) d] by simp_all
  have "desc = SINGLE \<or> desc = MULTIPART"
    using assms(2) d by (auto simp: decode_segmented_def Let_def rbind_step split: if_splits)
  then show ?thesis
  proof
    assume desc: "desc = SINGLE"
    obtain flags r2 where f: "rd_u8 ''RDP_SEGMENTED_DATA bulkData flags'' r1 = Inr (flags, r2)"
      using assms(2) d desc by (auto simp: decode_segmented_def Let_def rbind_step rbind_Inr)
    then have l2: "left r = SINGLE # flags # left r2" using byte.canon [OF ok1 f] l1 desc by simp
    have "remaining r = Suc (Suc (remaining r2))" using l2 by (metis length_Cons length_left)
    with decode_single [OF assms(1) l2] show ?thesis
      using assms(2) l2 by (auto simp: seg_is_compressed_def split: if_splits)
  next
    assume desc: "desc = MULTIPART"
    obtain cnt r2 n r3 ss r4 where
      c: "rd_u16 ''RDP_SEGMENTED_DATA segmentCount'' r1 = Inr (cnt, r2)"
      and t: "rd_u32 ''RDP_SEGMENTED_DATA uncompressedSize'' r2 = Inr (n, r3)"
      and cap: "unat n \<le> MAX_UNCOMPRESSED_SIZE" and nz: "unat cnt \<noteq> 0"
      and s: "rrepeat (unat cnt) read_segment r3 = Inr (ss, r4)"
      and e: "expect_empty seg_name r4 = Inr ((), r')" and v: "v = Compressed ss (Some (unat n))"
      using assms(2) d desc
      by (auto simp: decode_segmented_def Let_def rbind_step rbind_Inr ensure_cap_Inr split: if_splits)
    have ok2: "reader_ok r2" and l2: "left r1 = to_le_bytes cnt @ left r2"
      using le16.stays_ok [OF ok1 c] le16.canon [OF ok1 c] by simp_all
    have ok3: "reader_ok r3" and l3: "left r2 = to_le_bytes n @ left r3"
      using le32.stays_ok [OF ok2 t] le32.canon [OF ok2 t] by simp_all
    have oks: "list_all segment_ok ss" and l4: "left r3 = concat (map segment_bytes ss) @ left r4"
      using seg.repeat_canon [OF ok3 s] by simp_all
    have len: "length ss = unat cnt" using seg.repeat_safe [OF ok3 s] by simp
    have empty: "left r' = []" and "r' = r4"
      using e by (auto simp: expect_empty_def rd_is_empty_def left_def split: if_splits)
    have "unat cnt < 2 ^ 16" using unsigned_less [of cnt] by simp
    then have "segmented_ok v" using oks cap nz len by (auto simp: v)
    moreover have "left r = segmented_bytes v"
      using l1 l2 l3 l4 empty len \<open>r' = r4\<close> by (simp add: v desc)
    ultimately show ?thesis using empty by simp
  qed
qed

text \<open>A MULTIPART message without segments is written, but no decoder reads it.\<close>

lemma empty_multipart_not_read:
  "encode_segmented (Compressed [] (Some tot)) (writer_new []) = Inr w \<Longrightarrow>
   \<exists>e. decode_segmented (reader_new (wr_out w)) = Inl e"
proof -
  assume enc: "encode_segmented (Compressed [] (Some tot)) (writer_new []) = Inr w"
  let ?r = "reader_new (wr_out w)"
  have out: "wr_out w = MULTIPART # to_le_bytes (0 :: u16) @ to_le_bytes (of_nat tot :: u32)"
    using enc by (auto simp: wr_simps writer_new_def wr_bytes_def split: if_splits)
  show ?thesis
  proof (cases "decode_segmented ?r")
    case (Inr p)
    then obtain v r' where p: "decode_segmented ?r = Inr (v, r')" by (cases p) auto
    have ok: "reader_ok ?r" by (simp add: out)
    have v: "segmented_ok v" and l: "wr_out w = segmented_bytes v" using decode_canon [OF ok p] by simp_all
    show ?thesis
    proof (cases v)
      case (Literal f d)
      then show ?thesis using l by (simp add: out)
    next
      case (Compressed ss k)
      show ?thesis
      proof (cases k)
        case None
        then show ?thesis using l v Compressed by (auto simp: out split: list.splits)
      next
        case (Some t)
        have "length (wr_out w) = 7" by (simp add: out)
        moreover have "ss \<noteq> []" using v Compressed Some by simp
        ultimately show ?thesis
          using l Compressed Some by (cases ss) (simp_all add: segment_bytes_def)
      qed
    qed
  qed simp
qed

end
