(* ===== verification/Static_Channel.thy ===== *)
theory Static_Channel
  imports Wire
begin

text \<open>
  Static virtual channels (\<open>crates/rdp-pdu/src/vc/static_vc.rs\<close>): the chunk header, the
  iterator that cuts a channel PDU into chunks, and the reassembler with its cap. The contract
  of a reassembler towards the session is the locale \<open>assembler\<close>.
\<close>

unbundle bit_operations_syntax

subsection \<open>Headers and chunks\<close>

definition FIRST :: u32 where "FIRST = 0x00000001"
definition LAST :: u32 where "LAST = 0x00000002"
definition VC_COMPRESSED :: u32 where "VC_COMPRESSED = 0x00200000"

definition MIN_VC_CHUNK_SIZE :: nat where "MIN_VC_CHUNK_SIZE = 1600"
definition MAX_VC_CHUNK_SIZE :: nat where "MAX_VC_CHUNK_SIZE = 16256"
definition MAX_VC_CHUNK :: nat where "MAX_VC_CHUNK = 65535"
definition MAX_VC_REASSEMBLED :: nat where "MAX_VC_REASSEMBLED = 16 * 1024 * 1024"

record channel_header =
  ch_length :: u32
  ch_flags :: u32

definition header_single :: "u32 \<Rightarrow> channel_header" where
  "header_single n = \<lparr>ch_length = n, ch_flags = FIRST OR LAST\<rparr>"

definition is_first :: "channel_header \<Rightarrow> bool" where
  "is_first h \<longleftrightarrow> ch_flags h AND FIRST \<noteq> 0"

definition is_last :: "channel_header \<Rightarrow> bool" where
  "is_last h \<longleftrightarrow> ch_flags h AND LAST \<noteq> 0"

definition is_compressed :: "channel_header \<Rightarrow> bool" where
  "is_compressed h \<longleftrightarrow> ch_flags h AND VC_COMPRESSED \<noteq> 0"

definition decode_header :: "channel_header rd" where
  "decode_header =
     rbind (rd_u32 ''CHANNEL_PDU_HEADER'') (\<lambda>n.
       rbind (rd_u32 ''CHANNEL_PDU_HEADER'') (\<lambda>f. rret \<lparr>ch_length = n, ch_flags = f\<rparr>))"

definition encode_header :: "channel_header \<Rightarrow> wr" where
  "encode_header h w = wr_u32 (ch_flags h) (wr_u32 (ch_length h) w)"

record channel_chunk =
  ck_header :: channel_header
  ck_data :: bytes

definition decode_chunk :: "channel_chunk rd" where
  "decode_chunk =
     rbind decode_header (\<lambda>h r1.
       let (data, r2) = rd_rest r1 in
       rbind (ensure_cap (length data) MAX_VC_CHUNK ''MAX_VC_CHUNK'' ''CHANNEL_PDU'')
         (\<lambda>_. rret \<lparr>ck_header = h, ck_data = data\<rparr>) r2)"

definition encode_chunk :: "channel_chunk \<Rightarrow> wr" where
  "encode_chunk c w = wr_bytes (ck_data c) (encode_header (ck_header c) w)"

definition chunk_size_of :: "channel_chunk \<Rightarrow> nat" where
  "chunk_size_of c = 8 + length (ck_data c)"

subsection \<open>Cutting a channel PDU\<close>

record channel_chunks =
  cc_total :: nat
  cc_rest :: bytes
  cc_chunk_size :: nat
  cc_first :: bool
  cc_done :: bool

definition chunk_channel_pdu :: "bytes \<Rightarrow> nat \<Rightarrow> channel_chunks" where
  "chunk_channel_pdu payload chunk_size =
     \<lparr>cc_total = length payload, cc_rest = payload,
      cc_chunk_size = min (max chunk_size MIN_VC_CHUNK_SIZE) MAX_VC_CHUNK_SIZE,
      cc_first = True, cc_done = False\<rparr>"

definition next_chunk :: "channel_chunks \<Rightarrow> (channel_chunk \<times> channel_chunks) option" where
  "next_chunk c =
     (if cc_done c then None
      else
        let n = min (length (cc_rest c)) (cc_chunk_size c);
            head = take n (cc_rest c); tail = drop n (cc_rest c);
            flags1 = (if cc_first c then 0 OR FIRST else 0);
            flags2 = (if tail = [] then flags1 OR LAST else flags1)
        in Some (\<lparr>ck_header = \<lparr>ch_length = of_nat (min (cc_total c) (2 ^ 32 - 1)), ch_flags = flags2\<rparr>,
                  ck_data = head\<rparr>,
                 c\<lparr>cc_rest := tail, cc_first := False, cc_done := (tail = [])\<rparr>))"

text \<open>Draining the iterator, as \<open>collect\<close> does; \<open>None\<close> is an iterator that never ends.\<close>

partial_function (option) collect_chunks :: "channel_chunks \<Rightarrow> channel_chunk list option" where
  "collect_chunks c =
     (case next_chunk c of
        None \<Rightarrow> Some []
      | Some (k, c') \<Rightarrow> Option.bind (collect_chunks c') (\<lambda>ks. Some (k # ks)))"

subsection \<open>Putting it together again\<close>

record reassembler =
  rs_buf :: bytes
  rs_expected :: "nat option"
  rs_cap :: nat

definition with_cap :: "nat \<Rightarrow> reassembler" where
  "with_cap cap = \<lparr>rs_buf = [], rs_expected = None, rs_cap = min cap MAX_VC_REASSEMBLED\<rparr>"

definition reassembler_new :: reassembler where
  "reassembler_new = with_cap MAX_VC_REASSEMBLED"

definition in_progress :: "reassembler \<Rightarrow> bool" where
  "in_progress s \<longleftrightarrow> rs_expected s \<noteq> None"

definition buffered :: "reassembler \<Rightarrow> nat" where
  "buffered s = length (rs_buf s)"

definition reset :: "reassembler \<Rightarrow> reassembler" where
  "reset s = s\<lparr>rs_buf := [], rs_expected := None\<rparr>"

definition vc_name :: string where
  "vc_name = ''CHANNEL_PDU reassembly''"

definition push :: "reassembler \<Rightarrow> channel_header \<Rightarrow> bytes \<Rightarrow> reassembler \<times> (pdu_error + bytes option)" where
  "push s h chunk =
     (if is_compressed h
        then (s, Inl (Unsupported vc_name ''CHANNEL_PACKET_COMPRESSED'' (unat (ch_flags h)) 0))
      else
        let declared = unat (ch_length h) in
        if is_first h then
          if in_progress s then
            (s, Inl (InvalidField vc_name ''CHANNEL_FLAG_FIRST while a reassembly is in progress''
                       (unat (ch_flags h)) (length (rs_buf s))))
          else if rs_cap s < declared then
            (s, Inl (CapExceeded vc_name declared (rs_cap s) ''MAX_VC_REASSEMBLED'' 0))
          else if declared < length chunk then
            (s, Inl (LengthMismatch vc_name declared (length chunk) 0))
          else if is_last h then
            if length chunk \<noteq> declared then (s, Inl (LengthMismatch vc_name declared (length chunk) 0))
            else (s, Inr (Some chunk))
          else (s\<lparr>rs_buf := chunk, rs_expected := Some declared\<rparr>, Inr None)
        else
          case rs_expected s of
            None \<Rightarrow> (s, Inl (InvalidField vc_name ''chunk without a preceding CHANNEL_FLAG_FIRST''
                              (unat (ch_flags h)) 0))
          | Some expected \<Rightarrow>
              if declared \<noteq> expected then
                (s, Inl (LengthMismatch vc_name declared expected (length (rs_buf s))))
              else if expected < length (rs_buf s) + length chunk then
                (s, Inl (LengthMismatch vc_name expected (length (rs_buf s) + length chunk) (length (rs_buf s))))
              else
                let s1 = s\<lparr>rs_buf := rs_buf s @ chunk\<rparr> in
                if \<not> is_last h then (s1, Inr None)
                else if length (rs_buf s1) \<noteq> expected then
                  (reset s1, Inl (LengthMismatch vc_name expected (length (rs_buf s1)) 0))
                else (s1\<lparr>rs_expected := None\<rparr>, Inr (Some (rs_buf s1))))"

definition push_step :: "reassembler \<Rightarrow> channel_chunk \<Rightarrow> reassembler \<times> (pdu_error + bytes option) list" where
  "push_step s c = (let (s', out) = push s (ck_header c) (ck_data c) in (s', [out]))"

subsection \<open>Chunks on the wire\<close>

interpretation header_pair: codec_pair "rd_u32 ''CHANNEL_PDU_HEADER''" to_le_bytes "\<lambda>_. True"
  "rd_u32 ''CHANNEL_PDU_HEADER''" to_le_bytes "\<lambda>_. True"
  by unfold_locales

definition header_bytes :: "channel_header \<Rightarrow> bytes" where
  "header_bytes h = to_le_bytes (ch_length h) @ to_le_bytes (ch_flags h)"

lemma encode_header [wr_simps]: "encode_header h = wr_bytes (header_bytes h)"
  by (simp add: fun_eq_iff encode_header_def header_bytes_def wr_simps)

lemma decode_header_pair:
  "decode_header = rmap (\<lambda>p. \<lparr>ch_length = fst p, ch_flags = snd p\<rparr>)
     (then_read (rd_u32 ''CHANNEL_PDU_HEADER'') (rd_u32 ''CHANNEL_PDU_HEADER''))"
  by (simp add: fun_eq_iff decode_header_def rmap_def then_read_def rbind_def bind_res_assoc case_prod_unfold)

interpretation vc_header: codec decode_header header_bytes "\<lambda>_. True"
proof
  show "extends r r'" if "reader_ok r" and "decode_header r = Inr (h, r')" for r r' h
    using that by (auto simp: decode_header_pair rmap_Inr intro: header_pair.pair.safe)
  show "decode_header r = Inr (h, advance (length (header_bytes h)) r)"
    if "reader_ok r" and "left r = header_bytes h @ post" for r h post
    using header_pair.pair.round [of r "(ch_length h, ch_flags h)" post] that
    by (simp add: decode_header_pair rmap_step header_bytes_def)
qed

definition chunk_bytes :: "channel_chunk \<Rightarrow> bytes" where
  "chunk_bytes c = header_bytes (ck_header c) @ ck_data c"

lemma encode_chunk [wr_simps]: "encode_chunk c = wr_bytes (chunk_bytes c)"
  by (simp add: fun_eq_iff encode_chunk_def chunk_bytes_def wr_simps)

lemma chunk_size_exact: "length (chunk_bytes c) = chunk_size_of c"
  by (simp add: chunk_bytes_def chunk_size_of_def header_bytes_def)

lemma decode_chunk_round:
  assumes "reader_ok r" and "length (ck_data c) \<le> MAX_VC_CHUNK" and "left r = chunk_bytes c"
  shows "decode_chunk r = Inr (c, advance (remaining r) r)"
proof -
  have l: "left r = header_bytes (ck_header c) @ ck_data c" using assms(3) by (simp add: chunk_bytes_def)
  have n: "remaining r = 8 + length (ck_data c)"
    using l by (metis chunk_size_exact chunk_size_of_def assms(3) length_left)
  have 1: "decode_header r = Inr (ck_header c, advance 8 r)"
    using vc_header.round [OF assms(1) _ l] by (simp add: header_bytes_def)
  have 2: "rd_rest (advance 8 r) = (ck_data c, advance (length (ck_data c)) (advance 8 r))"
    using assms(1) l n by (simp add: rd_rest_def rd_slice_ok header_bytes_def)
  show ?thesis using assms(2) by (simp add: decode_chunk_def rbind_step 1 2 n ensure_cap_def)
qed

subsection \<open>What the cutter makes\<close>

text \<open>The pieces of a payload, and the chunks over them: the specification of the iterator.\<close>

function cut :: "nat \<Rightarrow> bytes \<Rightarrow> bytes list" where
  "cut n xs = (if n = 0 \<or> length xs \<le> n then [xs] else take n xs # cut n (drop n xs))"
  by auto
termination by (relation "measure (\<lambda>(n, xs). length xs)") auto

declare cut.simps [simp del]

fun labelled :: "u32 \<Rightarrow> bool \<Rightarrow> bytes list \<Rightarrow> channel_chunk list" where
  "labelled n first [] = []"
| "labelled n first [d] =
     [\<lparr>ck_header = \<lparr>ch_length = n, ch_flags = (if first then FIRST else 0) OR LAST\<rparr>, ck_data = d\<rparr>]"
| "labelled n first (d # e # ds) =
     \<lparr>ck_header = \<lparr>ch_length = n, ch_flags = (if first then FIRST else 0)\<rparr>, ck_data = d\<rparr> #
     labelled n False (e # ds)"

lemma cut_not_Nil [simp]: "cut n xs \<noteq> []"
  by (subst cut.simps) simp

lemma concat_cut: "concat (cut n xs) = xs"
  by (induction n xs rule: cut.induct) (subst cut.simps, simp)

lemma length_cut: "0 < n \<Longrightarrow> d \<in> set (cut n xs) \<Longrightarrow> length d \<le> n"
proof (induction n xs rule: cut.induct)
  case (1 n xs)
  then show ?case
    by (cases "length xs \<le> n") (auto simp: cut.simps [of n xs] dest: in_set_takeD)
qed

lemma labelled_data: "map ck_data (labelled n first ds) = ds"
  by (induction n first ds rule: labelled.induct) simp_all

lemma collect_labelled:
  assumes "0 < cc_chunk_size c" and "\<not> cc_done c"
  shows "collect_chunks c =
    Some (labelled (of_nat (min (cc_total c) (2 ^ 32 - 1))) (cc_first c) (cut (cc_chunk_size c) (cc_rest c)))"
  using assms
proof (induction "length (cc_rest c)" arbitrary: c rule: less_induct)
  case less
  let ?k = "cc_chunk_size c" and ?xs = "cc_rest c" and ?n = "of_nat (min (cc_total c) (2 ^ 32 - 1)) :: u32"
  show ?case
  proof (cases "length ?xs \<le> ?k")
    case True
    then have "next_chunk c = Some (\<lparr>ck_header = \<lparr>ch_length = ?n,
        ch_flags = (if cc_first c then FIRST else 0) OR LAST\<rparr>, ck_data = ?xs\<rparr>,
        c\<lparr>cc_rest := [], cc_first := False, cc_done := True\<rparr>)"
      using less.prems by (simp add: next_chunk_def Let_def)
    moreover have "collect_chunks (c\<lparr>cc_rest := [], cc_first := False, cc_done := True\<rparr>) = Some []"
      by (subst collect_chunks.simps) (simp add: next_chunk_def)
    ultimately show ?thesis
      using True by (subst collect_chunks.simps) (simp add: cut.simps [of ?k ?xs])
  next
    case False
    let ?c = "c\<lparr>cc_rest := drop ?k ?xs, cc_first := False, cc_done := False\<rparr>"
    have step: "next_chunk c = Some (\<lparr>ck_header = \<lparr>ch_length = ?n,
        ch_flags = (if cc_first c then FIRST else 0)\<rparr>, ck_data = take ?k ?xs\<rparr>, ?c)"
      using less.prems False by (simp add: next_chunk_def Let_def min_def)
    have "collect_chunks ?c = Some (labelled ?n False (cut ?k (drop ?k ?xs)))"
      using less.hyps [of ?c] less.prems False by simp
    moreover obtain e ds where "cut ?k (drop ?k ?xs) = e # ds"
      using cut_not_Nil [of ?k "drop ?k ?xs"] by (cases "cut ?k (drop ?k ?xs)") auto
    ultimately show ?thesis
      using False less.prems(1) step by (subst collect_chunks.simps) (simp add: cut.simps [of ?k ?xs])
  qed
qed

lemma chunk_size_clamped:
  "cc_chunk_size (chunk_channel_pdu p n) \<in> {1600..16256}"
  by (simp add: chunk_channel_pdu_def MIN_VC_CHUNK_SIZE_def MAX_VC_CHUNK_SIZE_def)

lemma collect_pdu:
  "collect_chunks (chunk_channel_pdu p n) =
     Some (labelled (of_nat (min (length p) (2 ^ 32 - 1))) True (cut (cc_chunk_size (chunk_channel_pdu p n)) p))"
  using collect_labelled [of "chunk_channel_pdu p n"] chunk_size_clamped [of p n]
  by (simp add: chunk_channel_pdu_def)

subsection \<open>The reassembler undoes the cutter\<close>

lemma header_flags:
  "is_first \<lparr>ch_length = n, ch_flags = FIRST OR LAST\<rparr>" "is_first \<lparr>ch_length = n, ch_flags = FIRST\<rparr>"
  "\<not> is_first \<lparr>ch_length = n, ch_flags = LAST\<rparr>" "\<not> is_first \<lparr>ch_length = n, ch_flags = 0\<rparr>"
  "is_last \<lparr>ch_length = n, ch_flags = FIRST OR LAST\<rparr>" "\<not> is_last \<lparr>ch_length = n, ch_flags = FIRST\<rparr>"
  "is_last \<lparr>ch_length = n, ch_flags = LAST\<rparr>" "\<not> is_last \<lparr>ch_length = n, ch_flags = 0\<rparr>"
  "\<not> is_compressed \<lparr>ch_length = n, ch_flags = FIRST OR LAST\<rparr>" "\<not> is_compressed \<lparr>ch_length = n, ch_flags = FIRST\<rparr>"
  "\<not> is_compressed \<lparr>ch_length = n, ch_flags = LAST\<rparr>" "\<not> is_compressed \<lparr>ch_length = n, ch_flags = 0\<rparr>"
  by (simp_all add: is_first_def is_last_def is_compressed_def FIRST_def LAST_def VC_COMPRESSED_def)

definition delivered :: "nat \<Rightarrow> bytes \<Rightarrow> (pdu_error + bytes option) list" where
  "delivered k m = replicate (k - 1) (Inr None) @ [Inr (Some m)]"

lemma reassemble_rest:
  assumes "rs_expected s = Some T" and "ds \<noteq> []" and "length (rs_buf s) + length (concat ds) = T"
    and "unat n = T"
  shows "run_steps push_step s (labelled n False ds) =
    (s\<lparr>rs_buf := rs_buf s @ concat ds, rs_expected := None\<rparr>, delivered (length ds) (rs_buf s @ concat ds))"
  using assms
proof (induction n False ds arbitrary: s rule: labelled.induct)
  case (2 n d)
  then show ?case
    by (simp add: push_step_def push_def Let_def delivered_def header_flags)
next
  case (3 n d e ds)
  have "push s \<lparr>ch_length = n, ch_flags = 0\<rparr> d = (s\<lparr>rs_buf := rs_buf s @ d\<rparr>, Inr None)"
    using "3.prems" by (simp add: push_def Let_def header_flags)
  moreover have "run_steps push_step (s\<lparr>rs_buf := rs_buf s @ d\<rparr>) (labelled n False (e # ds)) =
      (s\<lparr>rs_buf := rs_buf s @ concat (d # e # ds), rs_expected := None\<rparr>,
       delivered (length (e # ds)) (rs_buf s @ concat (d # e # ds)))"
    using "3.hyps" [of "s\<lparr>rs_buf := rs_buf s @ d\<rparr>"] "3.prems" by simp
  ultimately show ?case by (simp add: push_step_def delivered_def)
qed simp

lemma reassemble_all:
  assumes "rs_expected s = None" and "ds \<noteq> []" and "length (concat ds) \<le> rs_cap s"
    and "unat n = length (concat ds)"
  shows "\<exists>s'. run_steps push_step s (labelled n True ds) = (s', delivered (length ds) (concat ds)) \<and>
    rs_expected s' = None \<and> rs_cap s' = rs_cap s"
proof (cases ds rule: remdups_adj.cases)
  case (2 d)
  then show ?thesis
    using assms by (simp add: push_step_def push_def Let_def delivered_def in_progress_def
        header_flags)
next
  case (3 d e es)
  let ?s = "s\<lparr>rs_buf := d, rs_expected := Some (length (concat ds))\<rparr>"
  have "push s \<lparr>ch_length = n, ch_flags = FIRST\<rparr> d = (?s, Inr None)"
    using assms 3 by (simp add: push_def Let_def in_progress_def header_flags)
  moreover have "run_steps push_step ?s (labelled n False (e # es)) =
      (?s\<lparr>rs_buf := d @ concat (e # es), rs_expected := None\<rparr>, delivered (length (e # es)) (d @ concat (e # es)))"
    using reassemble_rest [of ?s "length (concat ds)" "e # es" n] assms(4) 3 by simp
  ultimately show ?thesis using 3 by (simp add: push_step_def delivered_def)
qed (use assms(2) in simp)

subsection \<open>The reassembler is bounded\<close>

definition reassembler_ok :: "reassembler \<Rightarrow> bool" where
  "reassembler_ok s \<longleftrightarrow> length (rs_buf s) \<le> rs_cap s \<and> rs_cap s \<le> MAX_VC_REASSEMBLED \<and>
     (case rs_expected s of None \<Rightarrow> True | Some e \<Rightarrow> length (rs_buf s) \<le> e \<and> e \<le> rs_cap s)"

lemma with_cap_ok: "reassembler_ok (with_cap cap)"
  by (simp add: reassembler_ok_def with_cap_def)

lemma push_cap [simp]: "rs_cap (fst (push s h c)) = rs_cap s"
  by (simp add: push_def Let_def reset_def split: option.split)

lemma push_ok: "reassembler_ok s \<Longrightarrow> reassembler_ok (fst (push s h c))"
  by (auto simp: push_def Let_def reset_def reassembler_ok_def in_progress_def split: option.splits)

lemma push_delivers:
  "snd (push s h c) = Inr (Some m) \<Longrightarrow> length m = unat (ch_length h)"
  by (auto simp: push_def Let_def split: if_splits option.splits)

lemma push_small: "reassembler_ok s \<Longrightarrow> snd (push s h c) = Inr (Some m) \<Longrightarrow> length m \<le> rs_cap s"
  by (auto simp: push_def Let_def reassembler_ok_def split: if_splits option.splits)

interpretation channel: assembler push_step reassembler_ok buffered rs_cap
proof
  show "reassembler_ok (fst (push_step s c))" if "reassembler_ok s" for s c
    using push_ok [OF that] by (simp add: push_step_def case_prod_beta)
  show "buffered s \<le> rs_cap s" if "reassembler_ok s" for s
    using that by (simp add: reassembler_ok_def buffered_def)
  show "rs_cap (fst (push_step s c)) = rs_cap s" for s c
    by (simp add: push_step_def case_prod_beta)
  show "length m \<le> rs_cap s" if "reassembler_ok s" and "Inr (Some m) \<in> set (snd (push_step s c))" for s c m
    using that push_small [of s "ck_header c" "ck_data c" m] by (auto simp: push_step_def case_prod_beta)
qed

text \<open>A reassembled message stays in the buffer after it was handed out.\<close>

lemma buffered_after_delivery:
  "buffered (fst (run_steps push_step reassembler_new
     [\<lparr>ck_header = \<lparr>ch_length = 2, ch_flags = FIRST\<rparr>, ck_data = [7]\<rparr>,
      \<lparr>ck_header = \<lparr>ch_length = 2, ch_flags = LAST\<rparr>, ck_data = [8]\<rparr>])) = 2 \<and>
   \<not> in_progress (fst (run_steps push_step reassembler_new
     [\<lparr>ck_header = \<lparr>ch_length = 2, ch_flags = FIRST\<rparr>, ck_data = [7]\<rparr>,
      \<lparr>ck_header = \<lparr>ch_length = 2, ch_flags = LAST\<rparr>, ck_data = [8]\<rparr>]))"
  by (simp add: push_step_def push_def header_flags reassembler_new_def with_cap_def in_progress_def
      MAX_VC_REASSEMBLED_def buffered_def Let_def)

end
