(* ===== verification/Wire_Properties.thy ===== *)
theory Wire_Properties
  imports Ber Per Segment Static_Channel
begin

text \<open>
  The properties of the wire layer, the ASN.1 subsets, the segmented envelope and the static
  channels of \<open>crates/rdp-pdu\<close>, each with the witness that its hypotheses can hold. Round trips
  are stated over the source's own writers and readers: \<open>written\<close> and \<open>try_written\<close> are what a
  writer leaves in an empty buffer.
\<close>

subsection \<open>The cursor, back patched lengths, alignment\<close>

text \<open>
  A read of \<open>n\<close> bytes returns exactly the next \<open>n\<close> bytes of the buffer and moves the
  cursor by \<open>n\<close> when they are there; otherwise it is \<open>Truncated\<close> with the absolute offset, what
  was wanted and what was left, for every \<open>n\<close>, however close to the end of the address range.
\<close>

theorem slice_exact:
  assumes "rd_pos r \<le> length (rd_buf r)" and "length (rd_buf r) < 2 ^ 63"
  shows "rd_slice n ctx r =
    (if rd_pos r + n \<le> length (rd_buf r)
     then Inr (take n (drop (rd_pos r) (rd_buf r)), r\<lparr>rd_pos := rd_pos r + n\<rparr>)
     else Inl (Truncated ctx (rd_base r + rd_pos r) n (length (rd_buf r) - rd_pos r)))"
  using assms rd_slice_ok [of r n ctx]
  by (auto simp: reader_ok_def left_def advance_def remaining_def offset_def)

theorem slice_exact_witness:
  "rd_slice 2 ''hdr'' (reader_new [1, 2, 3]) = Inr ([1, 2], (reader_new [1, 2, 3])\<lparr>rd_pos := 2\<rparr>)"
  using slice_exact [of "reader_new [1, 2, 3]" 2 "''hdr''"] by (simp add: reader_new_def)

text \<open>
  A body written behind a back patched 16 bit length, counting itself or not, is read back
  exactly: the length field counts what its flag says, and the bounded sub reader over the body
  holds the body, under the absolute offset it has in the buffer.
\<close>

theorem length_prefix_roundtrip:
  assumes "appends f body" and "length body + (if i then 2 else 0) < 2 ^ 16" and "length (body @ post) < 2 ^ 62"
  shows "\<exists>bs r1 r2. try_written (with_len_u16 i ctx f) = Inr bs \<and>
    rd_u16 ctx (reader_new (bs @ post)) = Inr (of_nat (length body + (if i then 2 else 0)), r1) \<and>
    rd_take (length body) ctx r1 = Inr (reader_sub body 2, r2) \<and> left r2 = post"
proof -
  let ?n = "of_nat (length body + (if i then 2 else 0)) :: u16"
  let ?r = "reader_new ((to_le_bytes ?n @ body) @ post)"
  have w: "try_written (with_len_u16 i ctx f) = Inr (to_le_bytes ?n @ body)"
    using with_len_appends(1) [OF assms(1,2)] by (rule try_written_appends)
  have ok: "reader_ok ?r" using assms(3) by simp
  have r1: "rd_u16 ctx ?r = Inr (?n, advance 2 ?r)" using le16.round [OF ok, of ?n "body @ post"] by simp
  have "left (advance 2 ?r) = body @ post" by simp
  moreover have ok1: "reader_ok (advance 2 ?r)" using ok left_length [of ?r "to_le_bytes ?n" "body @ post"] by simp
  ultimately have "rd_slice (length body) ctx (advance 2 ?r) = Inr (body, advance (length body) (advance 2 ?r))"
    by (intro rd_slice_step) simp_all
  then have "rd_take (length body) ctx (advance 2 ?r) = Inr (reader_sub body 2, advance (length body) (advance 2 ?r))"
    by (simp add: rd_take_def offset_def reader_new_def numeral_2_eq_2)
  moreover have "left (advance (length body) (advance 2 ?r)) = post" by simp
  ultimately show ?thesis using w r1 by blast
qed

theorem length_prefix_roundtrip_witness:
  "\<exists>bs. try_written (with_len_u16 True ''TPKT'' (\<lambda>w. Inr (wr_bytes [7, 8] w))) = Inr bs"
  using length_prefix_roundtrip [of "\<lambda>w. Inr (wr_bytes [7, 8] w)" "[7, 8]" True "[]" "''TPKT''"]
  by (auto simp: appends_def)

text \<open>
  Alignment agrees on both sides: padding a writer that is \<open>k\<close> bytes into its structure
  appends fewer than \<open>n\<close> zeros and ends on a multiple of \<open>n\<close>, and a reader at \<open>k\<close> skips exactly
  as many bytes.
\<close>

theorem align_agrees:
  assumes "0 < n" and "wr_start w \<le> length (wr_out w)" and "reader_ok r" and "rd_pos r = wr_len w"
    and "n \<le> remaining r"
  shows "\<exists>pad<n. wr_align n w = wr_bytes (replicate pad 0) w \<and> wr_len (wr_align n w) mod n = 0 \<and>
    rd_align n ctx r = Inr ((), advance pad r)"
proof (intro exI conjI)
  let ?pad = "(n - wr_len w mod n) mod n"
  show pad: "?pad < n" using assms(1) by simp
  show "wr_align n w = wr_bytes (replicate ?pad 0) w" using wr_align_len [OF assms(1,2)] by blast
  show "wr_len (wr_align n w) mod n = 0" using wr_align_len [OF assms(1,2)] by blast
  show "rd_align n ctx r = Inr ((), advance ?pad r)"
    using rd_align_same [OF assms(3,1)] pad assms(4,5) by simp
qed

theorem align_agrees_witness:
  "\<exists>pad<4. wr_align 4 \<lparr>wr_out = [9, 9, 9], wr_start = 2\<rparr> = wr_bytes (replicate pad 0) \<lparr>wr_out = [9, 9, 9], wr_start = 2\<rparr>"
  using align_agrees [of 4 "\<lparr>wr_out = [9, 9, 9], wr_start = 2\<rparr>" "advance 1 (reader_new [1, 0, 0, 0, 2, 3])" "''x''"]
  by (auto simp: wr_len_def reader_ok_def reader_new_def advance_def remaining_def)

subsection \<open>ASN.1 lengths and BER\<close>

text \<open>
  Every definite length that fits 32 bits is written in the announced number of octets and
  read back, whatever follows it.
\<close>

theorem definite_len_roundtrip:
  assumes "len < 2 ^ 32" and "length (written (write_definite_len len) @ post) < 2 ^ 63"
  shows "length (written (write_definite_len len)) = definite_len_size len \<and>
    (\<exists>r'. read_definite_len ctx (reader_new (written (write_definite_len len) @ post)) = Inr (len, r') \<and> left r' = post)"
  using assms definite_len.reads_new [of len post ctx] definite_len_size_exact [of len]
  by (simp add: write_definite_len)

theorem definite_len_roundtrip_witness:
  "length (written (write_definite_len 300)) = definite_len_size 300"
  using definite_len_roundtrip [of 300 "[]"] definite_len_size_exact [of 300]
  by (simp add: write_definite_len definite_len_size_def)

text \<open>
  Every 32 bit value written as a BER INTEGER or ENUMERATED is read back as the same
  value, also the values whose top bit is set, and whatever follows is left to the next read.
\<close>

theorem ber_u32_roundtrip:
  assumes "length post < 2 ^ 62"
  shows "(\<exists>r'. ber_read_u32 ctx (reader_new (written (ber_write_u32 (Low INTEGER) v) @ post)) = Inr (v, r') \<and>
      left r' = post) \<and>
    (\<exists>r'. ber_read_enumerated ctx (reader_new (written (ber_write_u32 (Low ENUMERATED) v) @ post)) = Inr (v, r') \<and>
      left r' = post)"
proof (intro conjI)
  have "length (int_octets v) < 128" using int_octets_length [of v] by simp
  then have n: "length (tlv_bytes (Low t) (int_octets v) @ post) < 2 ^ 63" for t
    using assms int_octets_length [of v] by (simp add: tlv_bytes_def definite_len_bytes_def)
  show "\<exists>r'. ber_read_u32 ctx (reader_new (written (ber_write_u32 (Low INTEGER) v) @ post)) = Inr (v, r') \<and> left r' = post"
    using ber_int.reads_new [where tag = INTEGER and ctx = ctx and a = v and post = post] n by (simp add: ber_write_u32 ber_read_u32_def INTEGER_def)
  show "\<exists>r'. ber_read_enumerated ctx (reader_new (written (ber_write_u32 (Low ENUMERATED) v) @ post)) = Inr (v, r') \<and> left r' = post"
    using ber_int.reads_new [where tag = ENUMERATED and ctx = ctx and a = v and post = post] n
    by (simp add: ber_write_u32 ber_read_enumerated_def ENUMERATED_def)
qed

theorem ber_u32_roundtrip_witness:
  "\<exists>r'. ber_read_u32 ''maxMCSPDUsize'' (reader_new (written (ber_write_u32 (Low INTEGER) 0xFFFF) @ [])) = Inr (0xFFFF, r')"
  using ber_u32_roundtrip [where post = "[]" and ctx = "''maxMCSPDUsize''" and v = "0xFFFF"] by auto

text \<open>
  An element that was read is where it says: its full octets are the next octets of the
  buffer, its content is their tail behind a non empty header, and the reader stands right
  behind them. So a nested structure never reaches past its own element.
\<close>

theorem ber_element_tiles:
  assumes "reader_ok r" and "read_tlv ctx r = Inr (t, r')"
  shows "\<exists>header post. header \<noteq> [] \<and> tlv_full t = header @ tlv_content t \<and>
    drop (rd_pos r) (rd_buf r) = tlv_full t @ post \<and> r' = r\<lparr>rd_pos := rd_pos r + length (tlv_full t)\<rparr>"
  using read_tlv_tiles [OF assms] by (auto simp: left_def advance_def)

theorem ber_element_tiles_witness:
  "\<exists>t r' header. read_tlv ''x'' (reader_new [0x04, 1, 9, 9]) = Inr (t, r') \<and> tlv_full t = header @ tlv_content t"
proof -
  have e: "tlv_bytes (Low 0x04) [9] = [0x04, 1, 9]" by (simp add: tlv_bytes_def definite_len_bytes_def)
  have r: "read_tlv ''x'' (reader_new [0x04, 1, 9, 9]) =
      Inr (\<lparr>tlv_tag = Low 0x04, tlv_content = [9], tlv_full = [0x04, 1, 9]\<rparr>, advance 3 (reader_new [0x04, 1, 9, 9]))"
    using read_tlv_round [of "reader_new [0x04, 1, 9, 9]" "Low 0x04" "[9]" "[9]" "''x''"] by (simp add: e)
  show ?thesis using ber_element_tiles [OF _ r] r by auto
qed

subsection \<open>Aligned PER\<close>

text \<open>
  A PER length determinant is written exactly for the lengths below the fragmented form,
  in the announced number of octets, and read back; every longer one is refused.
\<close>

theorem per_length_roundtrip:
  assumes "length post < 2 ^ 62"
  shows "case try_written (write_length_determinant len ctx) of
      Inr bs \<Rightarrow> len \<le> 16383 \<and> length bs = length_determinant_size len \<and>
        (\<exists>r'. read_length_determinant ctx (reader_new (bs @ post)) = Inr (len, r') \<and> left r' = post)
    | Inl e \<Rightarrow> 16383 < len \<and> e = EncodeErr ctx ''length determinant needs the fragmented form''"
proof (cases "len \<le> 16383")
  case True
  have "length (len_det_bytes len) \<le> 2" by (simp add: len_det_bytes_def)
  then show ?thesis
    using True assms per_len.reads_new [of len post ctx] len_det_size [of len]
    by (simp add: try_written_appends [OF len_det_appends])
next
  case False
  then have "try_written (write_length_determinant len ctx) =
      Inl (EncodeErr ctx ''length determinant needs the fragmented form'')"
    by (simp add: try_written_def write_length_determinant_def MAX_LENGTH_DETERMINANT_def)
  then show ?thesis using False by simp
qed

theorem per_length_roundtrip_witness:
  "try_written (write_length_determinant 20000 ''x'') = Inl (EncodeErr ''x'' ''length determinant needs the fragmented form'')"
  using per_length_roundtrip [of "[]" 20000 "''x''"]
  by (auto split: sum.splits)

text \<open>
  Whenever a constrained integer is written at all, it is within its bounds and is read
  back as the same value under the same bounds.
\<close>

theorem per_constrained_roundtrip:
  assumes "try_written (write_constrained_int v lower upper ctx) = Inr bs" and "length (bs @ post) < 2 ^ 63"
  shows "lower \<le> v \<and> v \<le> upper \<and>
    (\<exists>r'. read_constrained_int lower upper ctx (reader_new (bs @ post)) = Inr (v, r') \<and> left r' = post)"
proof -
  have v: "lower \<le> v" "v \<le> upper" and range: "upper - lower < 65536"
    using assms(1) by (auto simp: try_written_def write_constrained_int_def Let_def not_less res_simps
        split: if_splits intro: less_trans [of _ 256])
  have "bs = constrained_bytes lower upper v"
    using try_written_appends [OF constrained_appends [OF v range, of ctx]] assms(1) by simp
  then show ?thesis
    using per_constrained.reads_new [of lower v upper post ctx] v range assms(2) by simp
qed

theorem per_constrained_roundtrip_witness:
  "\<exists>r'. read_constrained_int 1001 65535 ''channel'' (reader_new ([0, 2] @ [])) = Inr (1003, r')"
proof -
  have be: "to_be_bytes (2 :: u16) = [0, 2]"
    by code_simp
  have "try_written (write_constrained_int 1003 1001 65535 ''channel'') = Inr [0, 2]"
    using be by (simp add: try_written_def write_constrained_int_def wr_simps writer_new_def)
  from per_constrained_roundtrip [OF this, of "[]"] show ?thesis by auto
qed

text \<open>
  A numeric string of digits within its size constraint is packed two digits to an octet
  and read back, of odd and of even length; anything the writer accepts is such a string.
\<close>

theorem per_numeric_roundtrip:
  assumes "try_written (write_numeric_string s min_len ctx) = Inr bs" and "length (bs @ post) < 2 ^ 63"
  shows "length bs = 1 + (length s + 1) div 2 \<and>
    (\<exists>r'. read_numeric_string min_len ctx (reader_new (bs @ post)) = Inr (s, r') \<and> left r' = post)"
proof -
  have ok: "numeric_ok min_len s"
    using assms(1) by (auto simp: try_written_def write_numeric_string_def numeric_ok_def Let_def split: if_splits)
  then have bs: "bs = numeric_bytes min_len s"
    using try_written_appends [OF numeric_appends [OF ok, of ctx]] assms(1) by simp
  then show ?thesis
    using per_numeric.reads_new [of min_len s post ctx] ok assms(2)
    by (simp add: numeric_bytes_def length_pack)
qed

theorem per_numeric_roundtrip_witness:
  "\<exists>r'. read_numeric_string 1 ''conferenceName'' (reader_new ([0, 0x10] @ [])) = Inr (''1'', r')"
proof -
  have "try_written (write_numeric_string ''1'' 1 ''conferenceName'') = Inr [0, 0x10]"
    by (simp add: try_written_def write_numeric_string_def str_bytes_def is_ascii_digit_def wr_simps writer_new_def)
  from per_numeric_roundtrip [OF this, of "[]"] show ?thesis by auto
qed

text \<open>
  Every 32 bit value is written as a PER unconstrained integer in the announced number of
  octets, length determinant included, and read back.
\<close>

theorem per_unconstrained_roundtrip:
  assumes "length post < 2 ^ 62"
  shows "\<exists>bs r'. try_written (write_unconstrained_int v ctx) = Inr bs \<and>
    length bs = unconstrained_int_size v \<and>
    read_unconstrained_int ctx (reader_new (bs @ post)) = Inr (v, r') \<and> left r' = post"
proof -
  have "unconstrained_int_size v \<le> 6" by (simp add: unconstrained_int_size_def)
  then show ?thesis
    using per_int.reads_new [of v post ctx] unconstrained_size_exact [of v] assms
    by (simp add: try_written_appends [OF unconstrained_appends])
qed

theorem per_unconstrained_roundtrip_witness:
  "\<exists>bs. try_written (write_unconstrained_int 0x8000 ''subHeight'') = Inr bs \<and> length bs = unconstrained_int_size 0x8000"
  using per_unconstrained_roundtrip [of "[]" "0x8000" "''subHeight''"] by auto

text \<open>
  An octet string that the writer accepts under its size constraint is read back under the
  same constraint, whether it carries a determinant or has a fixed size.
\<close>

theorem per_octet_string_roundtrip:
  assumes "try_written (per_write_octet_string c mn mx ctx) = Inr bs" and "length (bs @ post) < 2 ^ 63"
  shows "mn \<le> length c \<and> length c \<le> mx \<and>
    (\<exists>r'. per_read_octet_string mn mx ctx (reader_new (bs @ post)) = Inr (c, r') \<and> left r' = post)"
proof -
  have ok: "per_octets_ok mn mx c"
    using assms(1) by (auto simp: try_written_def per_write_octet_string_def per_octets_ok_def
        write_length_determinant_def MAX_LENGTH_DETERMINANT_def not_less split: if_splits)
  then have "bs = per_octets_bytes mn mx c"
    using try_written_appends [OF per_octets_appends [OF ok, of ctx]] assms(1) by simp
  then have "\<exists>r'. per_read_octet_string mn mx ctx (reader_new (bs @ post)) = Inr (c, r') \<and> left r' = post"
    using per_octets.reads_new [OF ok, of post ctx] assms(2) by simp
  with ok show ?thesis by (simp add: per_octets_ok_def)
qed

theorem per_octet_string_roundtrip_witness:
  "\<exists>r'. per_read_octet_string 4 4 ''h221Key'' (reader_new ([0x44, 0x75, 0x63, 0x61] @ [])) = Inr ([0x44, 0x75, 0x63, 0x61], r')"
proof -
  have "try_written (per_write_octet_string [0x44, 0x75, 0x63, 0x61] 4 4 ''h221Key'') = Inr [0x44, 0x75, 0x63, 0x61]"
    by (simp add: try_written_def per_write_octet_string_def writer_new_def)
  from per_octet_string_roundtrip [OF this, of "[]"] show ?thesis by auto
qed

subsection \<open>The segmented envelope\<close>

text \<open>
  Every message with a form on the wire, literal, single or of many segments, is encoded
  in exactly the announced size and decoded from it to the same message, to the last byte.
\<close>

theorem segmented_roundtrip:
  assumes "segmented_ok v" and "segmented_size v < 2 ^ 63"
  shows "\<exists>bs r'. try_written (encode_segmented v) = Inr bs \<and> length bs = segmented_size v \<and>
    decode_segmented (reader_new bs) = Inr (v, r') \<and> left r' = []"
proof -
  have "decode_segmented (reader_new (segmented_bytes v)) =
      Inr (v, advance (remaining (reader_new (segmented_bytes v))) (reader_new (segmented_bytes v)))"
    using assms by (intro decode_round) (simp_all add: segmented_size_exact)
  then show ?thesis
    using assms segmented_size_exact [of v]
    by (simp add: try_written_appends [OF encode_segmented_appends] remaining_def reader_new_def left_def)
qed

definition sample_multipart :: segmented where
  "sample_multipart = Compressed [\<lparr>seg_flags = 0x24, seg_data = [1, 2]\<rparr>, \<lparr>seg_flags = 4, seg_data = []\<rparr>] (Some 9)"

lemma sample_multipart_ok: "segmented_ok sample_multipart" "segmented_size sample_multipart = 19"
  by (simp_all add: sample_multipart_def segment_ok_def MAX_UNCOMPRESSED_SIZE_def)

theorem segmented_roundtrip_witness:
  "\<exists>bs r'. try_written (encode_segmented sample_multipart) = Inr bs \<and> length bs = 19 \<and>
    decode_segmented (reader_new bs) = Inr (sample_multipart, r')"
  using segmented_roundtrip [of sample_multipart] sample_multipart_ok by auto

text \<open>
  Decoding is exact: a message that is accepted was read to its last byte, has no
  zero segments and no oversized declared length, and encoding it again gives the same bytes.
\<close>

theorem segmented_canonical:
  assumes "length bs < 2 ^ 63" and "decode_segmented (reader_new bs) = Inr (v, r')"
  shows "segmented_ok v \<and> left r' = [] \<and> try_written (encode_segmented v) = Inr bs"
  using decode_canon [OF _ assms(2)] assms(1) try_written_appends [OF encode_segmented_appends, of v] by simp

theorem segmented_canonical_witness:
  "try_written (encode_segmented (Literal 0x04 [0x68, 0x69])) = Inr [0xE0, 0x04, 0x68, 0x69]"
proof -
  have rem: "remaining (reader_new [0xE0, 0x04, 0x68, 0x69]) = 4" by (simp add: remaining_def reader_new_def)
  have "decode_segmented (reader_new [0xE0, 0x04, 0x68, 0x69]) =
      Inr (Literal 0x04 [0x68, 0x69], advance 4 (reader_new [0xE0, 0x04, 0x68, 0x69]))"
    using decode_single [of "reader_new [0xE0, 0x04, 0x68, 0x69]" "0x04" "[0x68, 0x69]"]
    by (simp add: SINGLE_def PACKET_COMPRESSED_def rem)
  from segmented_canonical [OF _ this] show ?thesis by simp
qed

subsection \<open>Static virtual channels\<close>

text \<open>
  Draining the chunk iterator always ends, for every payload and every requested size: the
  chunks carry the payload in order, each at most as large as the clamped size, which lies
  between 1600 and 16256 bytes.
\<close>

theorem chunks_tile:
  "\<exists>ks. collect_chunks (chunk_channel_pdu payload n) = Some ks \<and> ks \<noteq> [] \<and>
    concat (map ck_data ks) = payload \<and> list_all (\<lambda>k. length (ck_data k) \<le> 16256) ks"
proof -
  let ?k = "cc_chunk_size (chunk_channel_pdu payload n)"
  let ?n = "of_nat (min (length payload) (2 ^ 32 - 1)) :: u32"
  let ?ks = "labelled ?n True (cut ?k payload)"
  have k: "0 < ?k" "?k \<le> 16256" using chunk_size_clamped [of payload n] by simp_all
  have "list_all (\<lambda>k. length (ck_data k) \<le> 16256) ?ks"
    unfolding list_all_iff
  proof
    fix c assume "c \<in> set ?ks"
    then have "ck_data c \<in> set (map ck_data ?ks)" by simp
    then have "length (ck_data c) \<le> ?k" unfolding labelled_data by (rule length_cut [OF k(1)])
    then show "length (ck_data c) \<le> 16256" using k(2) by simp
  qed
  moreover have "?ks \<noteq> []" using labelled_data [of ?n True "cut ?k payload"] by (metis cut_not_Nil list.map_disc_iff)
  ultimately show ?thesis
    using collect_pdu [of payload n] by (simp add: labelled_data concat_cut)
qed

text \<open>
  What the chunker cuts, the reassembler puts together: fed the chunks of a payload within
  its cap, one at a time, an idle reassembler answers "more" to every chunk but the last, and
  the payload itself to the last, and is idle again.
\<close>

theorem chunks_reassemble:
  assumes "rs_expected s = None" and "length payload \<le> rs_cap s" and "reassembler_ok s"
  shows "\<exists>ks s'. collect_chunks (chunk_channel_pdu payload n) = Some ks \<and>
    run_steps push_step s ks = (s', replicate (length ks - 1) (Inr None) @ [Inr (Some payload)]) \<and>
    \<not> in_progress s' \<and> rs_cap s' = rs_cap s"
proof -
  let ?ds = "cut (cc_chunk_size (chunk_channel_pdu payload n)) payload"
  let ?n = "of_nat (min (length payload) (2 ^ 32 - 1)) :: u32"
  have "length payload \<le> 16 * 1024 * 1024"
    using assms(2,3) by (simp add: reassembler_ok_def MAX_VC_REASSEMBLED_def)
  then have "unat ?n = length (concat ?ds)" by (simp add: concat_cut unsigned_of_nat take_bit_nat_eq_self)
  then obtain s' where "run_steps push_step s (labelled ?n True ?ds) = (s', delivered (length ?ds) (concat ?ds))"
    and "rs_expected s' = None" and "rs_cap s' = rs_cap s"
    using reassemble_all [OF assms(1), of ?ds ?n] assms(2) by (auto simp: concat_cut)
  moreover have "length (labelled ?n True ?ds) = length ?ds"
    using labelled_data [of ?n True ?ds] by (metis length_map)
  ultimately show ?thesis
    using collect_pdu [of payload n] by (simp add: delivered_def concat_cut in_progress_def)
qed

theorem chunks_reassemble_witness:
  "\<exists>ks. collect_chunks (chunk_channel_pdu (replicate 4000 7) 1600) = Some ks \<and>
    snd (run_steps push_step reassembler_new ks) = replicate (length ks - 1) (Inr None) @ [Inr (Some (replicate 4000 7))]"
proof -
  have "rs_expected reassembler_new = None" and "rs_cap reassembler_new = MAX_VC_REASSEMBLED"
    by (simp_all add: reassembler_new_def with_cap_def)
  moreover have "reassembler_ok reassembler_new" by (simp add: reassembler_new_def with_cap_ok)
  ultimately show ?thesis
    using chunks_reassemble [of reassembler_new "replicate 4000 7" 1600] by (auto simp: MAX_VC_REASSEMBLED_def)
qed

text \<open>
  Whatever chunks a server sends, in whatever order and with whatever headers, a
  reassembler never holds more than its cap, never hands out a longer message, and its cap
  never exceeds 16 MiB.
\<close>

theorem reassembler_bounded:
  "buffered (fst (run_steps push_step (with_cap cap) ks)) \<le> min cap (16 * 1024 * 1024) \<and>
   list_all (\<lambda>out. case out of Inr (Some m) \<Rightarrow> length m \<le> min cap (16 * 1024 * 1024) | _ \<Rightarrow> True)
     (snd (run_steps push_step (with_cap cap) ks))"
proof -
  have cap: "rs_cap (with_cap cap) = min cap (16 * 1024 * 1024)" by (simp add: with_cap_def MAX_VC_REASSEMBLED_def)
  show ?thesis
    using channel.run_within [OF with_cap_ok, of cap ks] channel.run_small [OF with_cap_ok, of _ cap ks]
    unfolding cap list_all_iff by (auto split: sum.splits option.splits)
qed

end
