(* ===== verification/Rust_Text.thy ===== *)
theory Rust_Text
  imports Byte_Order
begin

text \<open>
  Strings as Rust has them: a \<open>String\<close> is a list of Unicode scalar values, a \<open>&[u8]\<close> that claims to
  be one is read by \<open>String::from_utf8_lossy\<close>, and \<open>char::is_control\<close> is the category Cc. The PDUs
  of \<open>crates/rdp-pdu\<close> that carry names from a server take them through these.
\<close>

type_synonym chars = "nat list"

definition is_scalar :: "nat \<Rightarrow> bool" where
  "is_scalar c \<longleftrightarrow> c < 0xD800 \<or> 0xE000 \<le> c \<and> c < 0x110000"

definition is_control :: "nat \<Rightarrow> bool" where
  "is_control c \<longleftrightarrow> c < 0x20 \<or> 0x7F \<le> c \<and> c < 0xA0"

text \<open>\<open>str::len\<close>: the bytes of the UTF-8 form.\<close>

definition char_len :: "nat \<Rightarrow> nat" where
  "char_len c = (if c < 0x80 then 1 else if c < 0x800 then 2 else if c < 0x10000 then 3 else 4)"

definition text_len :: "chars \<Rightarrow> nat" where
  "text_len s = sum_list (map char_len s)"

definition ascii_chars :: "chars \<Rightarrow> bool" where
  "ascii_chars s \<longleftrightarrow> list_all (\<lambda>c. c < 0x80) s"

definition ascii_bytes :: "chars \<Rightarrow> bytes" where
  "ascii_bytes s = map of_nat s"

text \<open>The characters of a literal.\<close>

definition chars_of :: "string \<Rightarrow> chars" where
  "chars_of s = map of_char s"

text \<open>\<open>char::encode_utf8\<close>.\<close>

definition encode_utf8 :: "nat \<Rightarrow> bytes" where
  "encode_utf8 c = map of_nat
     (if c < 0x80 then [c]
      else if c < 0x800 then [0xC0 + c div 0x40, 0x80 + c mod 0x40]
      else if c < 0x10000 then [0xE0 + c div 0x1000, 0x80 + c div 0x40 mod 0x40, 0x80 + c mod 0x40]
      else [0xF0 + c div 0x40000, 0x80 + c div 0x1000 mod 0x40, 0x80 + c div 0x40 mod 0x40, 0x80 + c mod 0x40])"

lemma length_encode_utf8: "length (encode_utf8 c) = char_len c"
  by (simp add: encode_utf8_def char_len_def)

text \<open>\<open>str::eq_ignore_ascii_case\<close> compares these.\<close>

definition ascii_lower :: "nat \<Rightarrow> nat" where
  "ascii_lower c = (if 0x41 \<le> c \<and> c \<le> 0x5A then c + 32 else c)"

text \<open>\<open>str::trim\<close>: the White\_Space characters of Unicode off both ends.\<close>

definition is_whitespace :: "nat \<Rightarrow> bool" where
  "is_whitespace c \<longleftrightarrow> 9 \<le> c \<and> c \<le> 13 \<or> c \<in> {0x20, 0x85, 0xA0, 0x1680, 0x2028, 0x2029, 0x202F, 0x205F, 0x3000} \<or>
     0x2000 \<le> c \<and> c \<le> 0x200A"

definition trim :: "chars \<Rightarrow> chars" where
  "trim s = rev (dropWhile is_whitespace (rev (dropWhile is_whitespace s)))"

subsection \<open>Lossy UTF-8\<close>

text \<open>
  One character of \<open>from_utf8_lossy\<close>: the scalar and how many bytes follow the first. A byte that
  starts nothing, and the longest prefix of a sequence that could have been continued, become one
  replacement character.
\<close>

definition is_cont :: "nat \<Rightarrow> bool" where
  "is_cont c \<longleftrightarrow> 0x80 \<le> c \<and> c < 0xC0"

definition second_ok :: "nat \<Rightarrow> nat \<Rightarrow> bool" where
  "second_ok b c \<longleftrightarrow> is_cont c \<and>
     (b = 0xE0 \<longrightarrow> 0xA0 \<le> c) \<and> (b = 0xED \<longrightarrow> c < 0xA0) \<and> (b = 0xF0 \<longrightarrow> 0x90 \<le> c) \<and> (b = 0xF4 \<longrightarrow> c < 0x90)"

definition REPLACEMENT :: nat where "REPLACEMENT = 0xFFFD"

fun utf8_char :: "nat \<Rightarrow> nat list \<Rightarrow> nat \<times> nat" where
  "utf8_char b rest =
     (if b < 0x80 then (b, 0)
      else if 0xC2 \<le> b \<and> b < 0xE0 then
        (case rest of
           c # _ \<Rightarrow> if is_cont c then ((b - 0xC0) * 64 + (c - 0x80), 1) else (REPLACEMENT, 0)
         | [] \<Rightarrow> (REPLACEMENT, 0))
      else if 0xE0 \<le> b \<and> b < 0xF0 then
        (case rest of
           c # d # _ \<Rightarrow>
             if \<not> second_ok b c then (REPLACEMENT, 0)
             else if is_cont d then ((b - 0xE0) * 4096 + (c - 0x80) * 64 + (d - 0x80), 2) else (REPLACEMENT, 1)
         | [c] \<Rightarrow> if second_ok b c then (REPLACEMENT, 1) else (REPLACEMENT, 0)
         | [] \<Rightarrow> (REPLACEMENT, 0))
      else if 0xF0 \<le> b \<and> b < 0xF5 then
        (case rest of
           c # d # e # _ \<Rightarrow>
             if \<not> second_ok b c then (REPLACEMENT, 0)
             else if \<not> is_cont d then (REPLACEMENT, 1)
             else if is_cont e
               then ((b - 0xF0) * 262144 + (c - 0x80) * 4096 + (d - 0x80) * 64 + (e - 0x80), 3)
             else (REPLACEMENT, 2)
         | [c, d] \<Rightarrow>
             if \<not> second_ok b c then (REPLACEMENT, 0)
             else if is_cont d then (REPLACEMENT, 2) else (REPLACEMENT, 1)
         | [c] \<Rightarrow> if second_ok b c then (REPLACEMENT, 1) else (REPLACEMENT, 0)
         | [] \<Rightarrow> (REPLACEMENT, 0))
      else (REPLACEMENT, 0))"

declare utf8_char.simps [simp del]

function utf8_nats :: "nat list \<Rightarrow> chars" where
  "utf8_nats [] = []"
| "utf8_nats (b # rest) = (let (c, n) = utf8_char b rest in c # utf8_nats (drop n rest))"
  by pat_completeness auto
termination by (relation "measure length") auto

definition from_utf8_lossy :: "bytes \<Rightarrow> chars" where
  "from_utf8_lossy bs = utf8_nats (map unat bs)"

lemma from_utf8_lossy_ascii:
  assumes "ascii_chars s"
  shows "from_utf8_lossy (ascii_bytes s) = s"
proof -
  have "map unat (ascii_bytes s) = s"
    using assms by (induction s) (auto simp: ascii_bytes_def ascii_chars_def unsigned_of_nat take_bit_nat_eq_self)
  moreover have "utf8_nats s = s"
    using assms by (induction s) (simp_all add: ascii_chars_def utf8_char.simps)
  ultimately show ?thesis by (simp add: from_utf8_lossy_def)
qed

lemma text_len_ascii: "ascii_chars s \<Longrightarrow> text_len s = length s"
  by (induction s) (auto simp: text_len_def ascii_chars_def char_len_def)

lemma replacement_scalar: "is_scalar REPLACEMENT"
  by (simp add: is_scalar_def REPLACEMENT_def)

text \<open>Two, three and four bytes make a scalar, and no surrogate.\<close>

lemma two_scalar: "b < 0xE0 \<Longrightarrow> is_cont c \<Longrightarrow> is_scalar ((b - 0xC0) * 64 + (c - 0x80))"
proof -
  assume "b < 0xE0" and c: "is_cont c"
  then have "(b - 0xC0) * 64 \<le> 31 * 64" by (intro mult_right_mono) simp_all
  then show ?thesis using c unfolding is_scalar_def is_cont_def by linarith
qed

lemma three_scalar:
  "b < 0xF0 \<Longrightarrow> second_ok b c \<Longrightarrow> is_cont d \<Longrightarrow> is_scalar ((b - 0xE0) * 4096 + (c - 0x80) * 64 + (d - 0x80))"
  by (cases "b < 0xED"; cases "b = 0xED") (auto simp: is_scalar_def is_cont_def second_ok_def)

lemma four_scalar:
  "0xF0 \<le> b \<Longrightarrow> b < 0xF5 \<Longrightarrow> second_ok b c \<Longrightarrow> is_cont d \<Longrightarrow> is_cont e \<Longrightarrow>
   is_scalar ((b - 0xF0) * 262144 + (c - 0x80) * 4096 + (d - 0x80) * 64 + (e - 0x80))"
  by (cases "b = 0xF0"; cases "b = 0xF4") (auto simp: is_scalar_def is_cont_def second_ok_def)

lemma utf8_char_scalar: "is_scalar (fst (utf8_char b rest))"
proof -
  have "b < 0x80 \<Longrightarrow> is_scalar b" by (simp add: is_scalar_def)
  then show ?thesis
    by (simp add: utf8_char.simps replacement_scalar two_scalar three_scalar four_scalar split: list.split)
qed

lemma from_utf8_lossy_scalar: "list_all is_scalar (from_utf8_lossy bs)"
proof -
  have "list_all is_scalar (utf8_nats ns)" for ns
  proof (induction ns rule: utf8_nats.induct)
    case (2 b rest)
    from "2.IH" [OF refl surjective_pairing [symmetric]] show ?case
      using utf8_char_scalar [of b rest] by (simp add: case_prod_beta)
  qed simp
  then show ?thesis by (simp add: from_utf8_lossy_def)
qed

lemma length_from_utf8_lossy: "length (from_utf8_lossy bs) \<le> length bs"
proof -
  have "length (utf8_nats ns) \<le> length ns" for ns
  proof (induction ns rule: utf8_nats.induct)
    case (2 b rest)
    then have "length (utf8_nats (drop (snd (utf8_char b rest)) rest)) \<le> length rest"
      by (metis diff_le_self le_trans length_drop prod.collapse)
    then show ?case by (simp add: case_prod_beta)
  qed simp
  from this [of "map unat bs"] show ?thesis by (simp add: from_utf8_lossy_def)
qed

end
