(* ===== verification/Session_Errors.thy ===== *)
theory Session_Errors
  imports Wire Rust_Text
begin

text \<open>
  The stages of an RDP connection and the errors of a session (\<open>crates/rdp-core/src/error.rs\<close>), with
  the classification that decides what may be retried. The states a session reports are those of
  \<open>crates/remote-core/src/state.rs\<close>.
\<close>

section \<open>The errors of RDP\<close>

subsection \<open>Stages\<close>

datatype session_state =
    Idle
  | Resolving
  | Connecting
  | Authenticating string
  | Negotiating
  | Connected
  | Reconnecting u32 u64 string
  | Disconnected string bool "string option"

datatype connect_stage =
    StResolving
  | StDialling
  | StGateway
  | StSendConnectionRequest
  | StAwaitConnectionConfirm
  | StSecurityUpgrade
  | StCredssp
  | StEarlyUserAuthResult
  | StSendMcsConnectInitial
  | StAwaitMcsConnectResponse
  | StChannelConnection
  | StSendClientInfo
  | StConnectTimeAutoDetect
  | StLicensing
  | StMultitransportBootstrap
  | StCapabilitiesExchange
  | StConnectionFinalization
  | StConnected

definition STAGES :: "connect_stage list" where
  "STAGES =
     [StResolving, StDialling, StGateway, StSendConnectionRequest, StAwaitConnectionConfirm, StSecurityUpgrade,
      StCredssp, StEarlyUserAuthResult, StSendMcsConnectInitial, StAwaitMcsConnectResponse, StChannelConnection,
      StSendClientInfo, StConnectTimeAutoDetect, StLicensing, StMultitransportBootstrap, StCapabilitiesExchange,
      StConnectionFinalization, StConnected]"

fun stage_name :: "connect_stage \<Rightarrow> string" where
  "stage_name StResolving = ''resolving''"
| "stage_name StDialling = ''dialling''"
| "stage_name StGateway = ''rd-gateway''"
| "stage_name StSendConnectionRequest = ''x224-connection-request''"
| "stage_name StAwaitConnectionConfirm = ''x224-connection-confirm''"
| "stage_name StSecurityUpgrade = ''security-upgrade''"
| "stage_name StCredssp = ''credssp''"
| "stage_name StEarlyUserAuthResult = ''early-user-auth-result''"
| "stage_name StSendMcsConnectInitial = ''mcs-connect-initial''"
| "stage_name StAwaitMcsConnectResponse = ''mcs-connect-response''"
| "stage_name StChannelConnection = ''channel-connection''"
| "stage_name StSendClientInfo = ''client-info''"
| "stage_name StConnectTimeAutoDetect = ''connect-time-auto-detect''"
| "stage_name StLicensing = ''licensing''"
| "stage_name StMultitransportBootstrap = ''multitransport-bootstrap''"
| "stage_name StCapabilitiesExchange = ''capabilities-exchange''"
| "stage_name StConnectionFinalization = ''connection-finalization''"
| "stage_name StConnected = ''connected''"

fun stage_session_state :: "connect_stage \<Rightarrow> string \<Rightarrow> session_state" where
  "stage_session_state s mthd =
     (if s = StResolving then Resolving
      else if s \<in> {StDialling, StGateway, StSendConnectionRequest, StAwaitConnectionConfirm, StSecurityUpgrade}
        then Connecting
      else if s \<in> {StCredssp, StEarlyUserAuthResult} then Authenticating mthd
      else if s = StConnected then Connected
      else Negotiating)"

text \<open>How far a session has come, by the state it reports.\<close>

fun session_rank :: "session_state \<Rightarrow> nat" where
  "session_rank Resolving = 1"
| "session_rank Connecting = 2"
| "session_rank (Authenticating _) = 3"
| "session_rank Negotiating = 4"
| "session_rank Connected = 5"
| "session_rank _ = 0"

lemma stages_complete: "set STAGES = UNIV"
proof -
  have "s \<in> set STAGES" for s by (cases s) (simp_all add: STAGES_def)
  then show ?thesis by blast
qed

lemma stage_names_distinct: "distinct (map stage_name STAGES)"
  by (simp add: STAGES_def)

text \<open>Along the sequence the reported state only moves forward.\<close>

lemma stages_forward: "sorted (map (\<lambda>s. session_rank (stage_session_state s mthd)) STAGES)"
  by (simp add: STAGES_def)

subsection \<open>Errors\<close>

text \<open>
  A message is the parser's error or a sentence with its numbers (\<open>format!\<close> is not modelled: the
  sentence is kept and the values it prints are listed).
\<close>

datatype message = Parser pdu_error | Said string "nat list"

text \<open>\<open>OptionsError\<close> of \<open>options.rs\<close> and \<open>Redirection\<close> of \<open>session/redirect.rs\<close>.\<close>

datatype options_error = NoHost | NoGatewayHost | OptionNotImplemented string

record redirection =
  re_session_id :: u32
  re_target :: chars
  re_fqdn :: "chars option"
  re_username :: "chars option"
  re_domain :: "chars option"
  re_password :: "chars option"
  re_routing_token :: "bytes option"
  re_dont_store_username :: bool

datatype rdp_error =
    RdpIo string
  | RdpConnectionClosed
  | RdpTimeout connect_stage
  | RdpConnectionRefused string
  | RdpResolveFailed string
  | NegotiationFailed u32 string
  | NegotiationInconsistent
  | RdpTls string
  | LegacyTlsUnavailable string
  | RdpCertificateMismatch string string
  | RdpCertificateUntrusted string
  | RdpAuthFailed string
  | RdpCredentialsRequired string
  | NlaRefused
  | NtlmRefusedByPolicy
  | RdpPdu string message
  | Protocol message
  | ServerError u32 string string
  | ServerDisconnect bool
  | StageNotImplemented connect_stage
  | Redirected redirection
  | GatewayFailed string
  | RdpCancelled
  | RdpOptions options_error

fun rdp_is_transient :: "rdp_error \<Rightarrow> bool" where
  "rdp_is_transient (RdpIo _) = True"
| "rdp_is_transient RdpConnectionClosed = True"
| "rdp_is_transient (RdpTimeout _) = True"
| "rdp_is_transient (RdpConnectionRefused _) = True"
| "rdp_is_transient (RdpResolveFailed _) = True"
| "rdp_is_transient _ = False"

fun rdp_needs_user_action :: "rdp_error \<Rightarrow> bool" where
  "rdp_needs_user_action (RdpAuthFailed _) = True"
| "rdp_needs_user_action (RdpCredentialsRequired _) = True"
| "rdp_needs_user_action (RdpCertificateMismatch _ _) = True"
| "rdp_needs_user_action (RdpCertificateUntrusted _) = True"
| "rdp_needs_user_action NlaRefused = True"
| "rdp_needs_user_action NtlmRefusedByPolicy = True"
| "rdp_needs_user_action (LegacyTlsUnavailable _) = True"
| "rdp_needs_user_action (NegotiationFailed _ _) = True"
| "rdp_needs_user_action NegotiationInconsistent = True"
| "rdp_needs_user_action _ = False"

fun rdp_symbol :: "rdp_error \<Rightarrow> string option" where
  "rdp_symbol NlaRefused = Some ''nla-refused''"
| "rdp_symbol NtlmRefusedByPolicy = Some ''ntlm-refused-by-policy''"
| "rdp_symbol (LegacyTlsUnavailable _) = Some ''legacy-tls-unavailable''"
| "rdp_symbol (RdpCertificateMismatch _ _) = Some ''certificate-changed''"
| "rdp_symbol (StageNotImplemented _) = Some ''not-implemented''"
| "rdp_symbol _ = None"

definition rdp_is_cancelled :: "rdp_error \<Rightarrow> bool" where
  "rdp_is_cancelled e \<longleftrightarrow> e = RdpCancelled"

subsection \<open>What other crates report\<close>

text \<open>\<open>vnc_transport::TransportError\<close>, and what it becomes.\<close>

datatype transport_error =
    TrIo string
  | TrTimeout
  | TrRefused string
  | TrResolve string
  | TrTls string
  | TrCertificateMismatch string string

fun from_transport :: "transport_error \<Rightarrow> rdp_error" where
  "from_transport (TrIo e) = RdpIo e"
| "from_transport TrTimeout = RdpTimeout StDialling"
| "from_transport (TrRefused host) = RdpConnectionRefused host"
| "from_transport (TrResolve host) = RdpResolveFailed host"
| "from_transport (TrTls msg) = RdpTls msg"
| "from_transport (TrCertificateMismatch expected actual) = RdpCertificateMismatch expected actual"

section \<open>The errors of the other sessions\<close>

text \<open>
  What the reconnect supervisor knows of a failure (\<open>RetryClassify\<close> of
  \<open>crates/remote-core/src/reconnect.rs\<close>), as a record of the five methods, and its implementations:
  \<open>RdpError\<close>, \<open>VncError\<close> (\<open>crates/vnc-core/src/error.rs\<close>) and the terminal's error
  (\<open>crates/ssh-core/src/error.rs\<close> over \<open>crates/ssh-transport/src/error.rs\<close>). The sentences are not
  modelled: \<open>user_message\<close> is an argument.
\<close>

record 'e classifier =
  cl_is_cancelled :: "'e \<Rightarrow> bool"
  cl_is_transient :: "'e \<Rightarrow> bool"
  cl_needs_user_action :: "'e \<Rightarrow> bool"
  cl_user_message :: "'e \<Rightarrow> string"
  cl_symbol :: "'e \<Rightarrow> string option"

text \<open>
  What the supervisor relies on: a failure is of one class at most. The tests of the three crates
  check it on examples; here it is the law of the interface.
\<close>

locale retry_classify =
  fixes C :: "'e classifier"
  assumes cancelled_alone: "cl_is_cancelled C e \<Longrightarrow> \<not> cl_is_transient C e \<and> \<not> cl_needs_user_action C e"
    and transient_alone: "cl_is_transient C e \<Longrightarrow> \<not> cl_needs_user_action C e"
begin

lemma transient_not_cancelled: "cl_is_transient C e \<Longrightarrow> \<not> cl_is_cancelled C e"
  using cancelled_alone by blast

end

subsection \<open>RDP\<close>

definition rdp_classifier :: "(rdp_error \<Rightarrow> string) \<Rightarrow> rdp_error classifier" where
  "rdp_classifier msg =
     \<lparr>cl_is_cancelled = rdp_is_cancelled, cl_is_transient = rdp_is_transient,
      cl_needs_user_action = rdp_needs_user_action, cl_user_message = msg, cl_symbol = rdp_symbol\<rparr>"

interpretation rdp: retry_classify "rdp_classifier msg" for msg
proof
  show "cl_is_cancelled (rdp_classifier msg) e \<Longrightarrow>
      \<not> cl_is_transient (rdp_classifier msg) e \<and> \<not> cl_needs_user_action (rdp_classifier msg) e" for e
    by (simp add: rdp_classifier_def rdp_is_cancelled_def)
  show "cl_is_transient (rdp_classifier msg) e \<Longrightarrow> \<not> cl_needs_user_action (rdp_classifier msg) e" for e
    by (cases e) (simp_all add: rdp_classifier_def)
qed

subsection \<open>VNC\<close>

datatype vnc_error =
    VncIo string
  | VncConnectionClosed
  | VncTimeout
  | VncConnectionRefused string
  | VncResolveFailed string
  | UnsupportedVersion string
  | VncProtocol string
  | UnsupportedEncoding u32
  | VncDecode string string
  | NoSupportedSecurityType bytes
  | UnsupportedSecurityType u8
  | VncAuthFailed string
  | VncCredentialsRequired string
  | VncTls string
  | VncCertificateMismatch string string
  | VncCertificateUntrusted string
  | VncCancelled
  | SessionNotFound string
  | VncOther string

fun vnc_is_transient :: "vnc_error \<Rightarrow> bool" where
  "vnc_is_transient (VncIo _) = True"
| "vnc_is_transient VncConnectionClosed = True"
| "vnc_is_transient VncTimeout = True"
| "vnc_is_transient (VncConnectionRefused _) = True"
| "vnc_is_transient (VncResolveFailed _) = True"
| "vnc_is_transient _ = False"

fun vnc_needs_user_action :: "vnc_error \<Rightarrow> bool" where
  "vnc_needs_user_action (VncAuthFailed _) = True"
| "vnc_needs_user_action (VncCredentialsRequired _) = True"
| "vnc_needs_user_action (VncCertificateMismatch _ _) = True"
| "vnc_needs_user_action (VncCertificateUntrusted _) = True"
| "vnc_needs_user_action _ = False"

definition vnc_classifier :: "(vnc_error \<Rightarrow> string) \<Rightarrow> vnc_error classifier" where
  "vnc_classifier msg =
     \<lparr>cl_is_cancelled = (\<lambda>e. e = VncCancelled), cl_is_transient = vnc_is_transient,
      cl_needs_user_action = vnc_needs_user_action, cl_user_message = msg, cl_symbol = (\<lambda>_. None)\<rparr>"

interpretation vnc: retry_classify "vnc_classifier msg" for msg
proof
  show "cl_is_cancelled (vnc_classifier msg) e \<Longrightarrow>
      \<not> cl_is_transient (vnc_classifier msg) e \<and> \<not> cl_needs_user_action (vnc_classifier msg) e" for e
    by (simp add: vnc_classifier_def)
  show "cl_is_transient (vnc_classifier msg) e \<Longrightarrow> \<not> cl_needs_user_action (vnc_classifier msg) e" for e
    by (cases e) (simp_all add: vnc_classifier_def)
qed

subsection \<open>SSH\<close>

datatype ssh_transport_error =
    SshIo string
  | Ssh string
  | SshConnect string u16 string
  | SshTimeout
  | SshAuth string
  | SshKey string string
  | SshAgent string
  | HostKeyUnknown string u16 string string
  | HostKeyChanged string u16 string string
  | HostKeyRejected
  | SshTransportOther string

fun host_key_issue :: "ssh_transport_error \<Rightarrow> bool" where
  "host_key_issue (HostKeyUnknown _ _ _ _) = True"
| "host_key_issue (HostKeyChanged _ _ _ _) = True"
| "host_key_issue _ = False"

fun ssh_transport_transient :: "ssh_transport_error \<Rightarrow> bool" where
  "ssh_transport_transient (SshIo _) = True"
| "ssh_transport_transient (Ssh _) = True"
| "ssh_transport_transient (SshConnect _ _ _) = True"
| "ssh_transport_transient SshTimeout = True"
| "ssh_transport_transient _ = False"

fun ssh_transport_needs_user :: "ssh_transport_error \<Rightarrow> bool" where
  "ssh_transport_needs_user (SshAuth _) = True"
| "ssh_transport_needs_user (SshKey _ _) = True"
| "ssh_transport_needs_user (SshAgent _) = True"
| "ssh_transport_needs_user (HostKeyUnknown _ _ _ _) = True"
| "ssh_transport_needs_user (HostKeyChanged _ _ _ _) = True"
| "ssh_transport_needs_user HostKeyRejected = True"
| "ssh_transport_needs_user _ = False"

fun ssh_transport_symbol :: "ssh_transport_error \<Rightarrow> string option" where
  "ssh_transport_symbol SshTimeout = Some ''ssh-timeout''"
| "ssh_transport_symbol (SshAuth _) = Some ''ssh-auth-failed''"
| "ssh_transport_symbol (SshKey _ _) = Some ''ssh-key-unreadable''"
| "ssh_transport_symbol (SshAgent _) = Some ''ssh-agent-unavailable''"
| "ssh_transport_symbol (HostKeyUnknown _ _ _ _) = Some ''ssh-host-key-unknown''"
| "ssh_transport_symbol (HostKeyChanged _ _ _ _) = Some ''ssh-host-key-changed''"
| "ssh_transport_symbol HostKeyRejected = Some ''ssh-host-key-rejected''"
| "ssh_transport_symbol (SshConnect _ _ _) = Some ''ssh-connect-failed''"
| "ssh_transport_symbol _ = None"

datatype ssh_error =
    SshTransport ssh_transport_error
  | PtyRefused string
  | ShellRefused string
  | ShellExited u32
  | Detached string
  | Unresponsive
  | SshConfig string
  | SshCancelled
  | SshOther string

fun ssh_is_transient :: "ssh_error \<Rightarrow> bool" where
  "ssh_is_transient (SshTransport e) = ssh_transport_transient e"
| "ssh_is_transient Unresponsive = True"
| "ssh_is_transient (ShellRefused _) = True"
| "ssh_is_transient _ = False"

fun ssh_needs_user_action :: "ssh_error \<Rightarrow> bool" where
  "ssh_needs_user_action (SshTransport e) = ssh_transport_needs_user e"
| "ssh_needs_user_action (PtyRefused _) = True"
| "ssh_needs_user_action (SshConfig _) = True"
| "ssh_needs_user_action _ = False"

fun ssh_symbol :: "ssh_error \<Rightarrow> string option" where
  "ssh_symbol (SshTransport e) = ssh_transport_symbol e"
| "ssh_symbol (PtyRefused _) = Some ''ssh-pty-refused''"
| "ssh_symbol (ShellRefused _) = Some ''ssh-shell-refused''"
| "ssh_symbol (ShellExited _) = Some ''ssh-shell-exited''"
| "ssh_symbol (Detached _) = Some ''ssh-detached''"
| "ssh_symbol Unresponsive = Some ''ssh-unresponsive''"
| "ssh_symbol (SshConfig _) = Some ''ssh-bad-config''"
| "ssh_symbol _ = None"

definition ssh_host_key_issue :: "ssh_error \<Rightarrow> bool" where
  "ssh_host_key_issue e \<longleftrightarrow> (case e of SshTransport t \<Rightarrow> host_key_issue t | _ \<Rightarrow> False)"

definition ssh_classifier :: "(ssh_error \<Rightarrow> string) \<Rightarrow> ssh_error classifier" where
  "ssh_classifier msg =
     \<lparr>cl_is_cancelled = (\<lambda>e. e = SshCancelled), cl_is_transient = ssh_is_transient,
      cl_needs_user_action = ssh_needs_user_action, cl_user_message = msg, cl_symbol = ssh_symbol\<rparr>"

lemma ssh_transport_disjoint: "ssh_transport_transient e \<Longrightarrow> \<not> ssh_transport_needs_user e"
  by (cases e) simp_all

interpretation ssh: retry_classify "ssh_classifier msg" for msg
proof
  show "cl_is_cancelled (ssh_classifier msg) e \<Longrightarrow>
      \<not> cl_is_transient (ssh_classifier msg) e \<and> \<not> cl_needs_user_action (ssh_classifier msg) e" for e
    by (simp add: ssh_classifier_def)
  show "cl_is_transient (ssh_classifier msg) e \<Longrightarrow> \<not> cl_needs_user_action (ssh_classifier msg) e" for e
    by (cases e) (simp_all add: ssh_classifier_def ssh_transport_disjoint)
qed

text \<open>A changed or unknown host key is never retried without a person.\<close>

lemma host_key_needs_user: "ssh_host_key_issue e \<Longrightarrow> ssh_needs_user_action e"
proof -
  have "host_key_issue t \<Longrightarrow> ssh_transport_needs_user t" for t by (cases t) simp_all
  then show "ssh_host_key_issue e \<Longrightarrow> ssh_needs_user_action e" by (cases e) (simp_all add: ssh_host_key_issue_def)
qed

end
