(* ===== verification/Channel_Base.thy ===== *)
theory Channel_Base
  imports Session_Errors
begin

text \<open>
  What the channel handlers of \<open>crates/rdp-core\<close> share: the errors of \<open>error.rs\<close> they raise, the
  pooled reply buffers and the outbox of \<open>channels/mod.rs\<close> and \<open>channels/dvc.rs\<close>. A handler that
  changes state answers the new state and a result, so that what an error leaves behind is part
  of the model.
\<close>

fun pdu_context :: "pdu_error \<Rightarrow> string" where
  "pdu_context (Truncated ctx _ _ _) = ctx"
| "pdu_context (InvalidField ctx _ _ _) = ctx"
| "pdu_context (LengthMismatch ctx _ _ _) = ctx"
| "pdu_context (CapExceeded ctx _ _ _ _) = ctx"
| "pdu_context (Asn1Tag ctx _ _ _) = ctx"
| "pdu_context (Unsupported ctx _ _ _) = ctx"
| "pdu_context (EncodeErr ctx _) = ctx"

definition from_pdu :: "pdu_error \<Rightarrow> rdp_error" where
  "from_pdu e = RdpPdu (pdu_context e) (Parser e)"

definition lift_pdu :: "pdu_error + 'a \<Rightarrow> rdp_error + 'a" where
  "lift_pdu m = (case m of Inl e \<Rightarrow> Inl (from_pdu e) | Inr a \<Rightarrow> Inr a)"

lemma lift_pdu_simps [simp]: "lift_pdu (Inl e) = Inl (from_pdu e)" "lift_pdu (Inr a) = Inr a"
  by (simp_all add: lift_pdu_def)

lemma lift_pdu_Inr [res_simps]: "lift_pdu m = Inr a \<longleftrightarrow> m = Inr a"
  by (cases m) simp_all

subsection \<open>State and result together\<close>

text \<open>\<open>?\<close> in a method on \<open>&mut self\<close>: the next step runs in the state this one left, or not at all.\<close>

type_synonym ('s, 'a) op = "'s \<Rightarrow> 's \<times> (rdp_error + 'a)"

definition st_bind :: "('s, 'a) op \<Rightarrow> ('a \<Rightarrow> ('s, 'b) op) \<Rightarrow> ('s, 'b) op" where
  "st_bind m f s = (case m s of (s', Inl e) \<Rightarrow> (s', Inl e) | (s', Inr a) \<Rightarrow> f a s')"

definition st_ok :: "'a \<Rightarrow> ('s, 'a) op" where
  "st_ok a s = (s, Inr a)"

definition st_err :: "rdp_error \<Rightarrow> ('s, 'a) op" where
  "st_err e s = (s, Inl e)"

definition st_set :: "('s \<Rightarrow> 's) \<Rightarrow> ('s, unit) op" where
  "st_set f s = (f s, Inr ())"

lemma st_simps [simp]:
  "st_ok a s = (s, Inr a)" "st_err e s = (s, Inl e)" "st_set g s = (g s, Inr ())"
  by (simp_all add: st_ok_def st_err_def st_set_def)

lemma st_bind_step: "m s = (s', Inr a) \<Longrightarrow> st_bind m f s = f a s'"
  by (simp add: st_bind_def)

lemma st_bind_stop: "m s = (s', Inl e) \<Longrightarrow> st_bind m f s = (s', Inl e)"
  by (simp add: st_bind_def)

lemma st_bind_ok: "st_bind m st_ok s = m s"
  by (simp add: st_bind_def split: prod.split sum.split)

text \<open>
  Reasoning about a chain: \<open>runs P m Q E\<close> says that from a state in \<open>P\<close> the operation ends in \<open>Q\<close>
  when it succeeds and in \<open>E\<close> when it fails; \<open>keeps I\<close> is the case of one invariant.
\<close>

definition runs :: "('s \<Rightarrow> bool) \<Rightarrow> ('s, 'a) op \<Rightarrow> ('a \<Rightarrow> 's \<Rightarrow> bool) \<Rightarrow> ('s \<Rightarrow> bool) \<Rightarrow> bool" where
  "runs P m Q E \<longleftrightarrow>
     (\<forall>s. P s \<longrightarrow> (case snd (m s) of Inl _ \<Rightarrow> E (fst (m s)) | Inr a \<Rightarrow> Q a (fst (m s))))"

definition keeps :: "('s \<Rightarrow> bool) \<Rightarrow> ('s, 'a) op \<Rightarrow> bool" where
  "keeps I m \<longleftrightarrow> (\<forall>s. I s \<longrightarrow> I (fst (m s)))"

lemma keepsD: "keeps I m \<Longrightarrow> I s \<Longrightarrow> I (fst (m s))"
  by (simp add: keeps_def)

lemma keeps_runs: "keeps I m \<longleftrightarrow> runs I m (\<lambda>_. I) I"
  by (auto simp: keeps_def runs_def split: sum.split)

lemma runs_bind:
  assumes "runs P m Q E" and "\<And>a. runs (Q a) (f a) R E"
  shows "runs P (st_bind m f) R E"
  unfolding runs_def
proof (intro allI impI)
  fix s assume "P s"
  obtain s1 res where m: "m s = (s1, res)" by (cases "m s")
  show "case snd (st_bind m f s) of Inl _ \<Rightarrow> E (fst (st_bind m f s)) | Inr a \<Rightarrow> R a (fst (st_bind m f s))"
  proof (cases res)
    case (Inl e)
    then have eq: "st_bind m f s = (s1, Inl e)" by (simp add: st_bind_def m)
    show ?thesis unfolding eq using assms(1) [unfolded runs_def, rule_format, OF \<open>P s\<close>] by (simp add: m Inl)
  next
    case (Inr b)
    then have eq: "st_bind m f s = f b s1" by (simp add: st_bind_def m)
    show ?thesis
      unfolding eq using assms(1) [unfolded runs_def, rule_format, OF \<open>P s\<close>] assms(2) [unfolded runs_def, rule_format, of b s1]
      by (simp add: m Inr)
  qed
qed

lemma runs_pre: "runs P m Q E \<Longrightarrow> (\<And>s. P' s \<Longrightarrow> P s) \<Longrightarrow> runs P' m Q E"
  by (simp add: runs_def)

lemma keeps_bind: "keeps I m \<Longrightarrow> (\<And>a. keeps I (f a)) \<Longrightarrow> keeps I (st_bind m f)"
  unfolding keeps_runs by (rule runs_bind)

lemma keeps_ok [simp]: "keeps I (st_ok a)" "keeps I (st_err e)"
  by (simp_all add: keeps_def)

lemma keeps_if: "keeps I m \<Longrightarrow> keeps I m' \<Longrightarrow> keeps I (\<lambda>s. if b s then m s else m' s)"
  by (auto simp: keeps_def)

lemma keeps_option: "keeps I m \<Longrightarrow> (\<And>a. keeps I (f a)) \<Longrightarrow> keeps I (\<lambda>s. case g s of None \<Rightarrow> m s | Some a \<Rightarrow> f a s)"
  by (simp add: keeps_def split: option.split)

lemma keeps_set: "(\<And>s. I s \<Longrightarrow> I (g s)) \<Longrightarrow> keeps I (st_set g)"
  by (simp add: keeps_def)

subsection \<open>Reply buffers\<close>

text \<open>
  \<open>ReplyBuf\<close>: what the handlers produced, in order, and how many pooled buffers wait to be
  reused. A pooled buffer is cleared before it is written, so only their number is state.
\<close>

record reply_buf =
  rb_ready :: "bytes list"
  rb_spare :: nat

definition reply_new :: reply_buf where
  "reply_new = \<lparr>rb_ready = [], rb_spare = 0\<rparr>"

definition emit :: "(bytes \<Rightarrow> rdp_error + bytes) \<Rightarrow> (reply_buf, unit) op" where
  "emit f rb =
     (let spare = rb_spare rb - 1 in
      case f [] of
        Inr buf \<Rightarrow> (rb\<lparr>rb_ready := rb_ready rb @ [buf], rb_spare := spare\<rparr>, Inr ())
      | Inl e \<Rightarrow> (rb\<lparr>rb_spare := spare + 1\<rparr>, Inl e))"

definition reply_is_empty :: "reply_buf \<Rightarrow> bool" where
  "reply_is_empty rb \<longleftrightarrow> rb_ready rb = []"

text \<open>A refused encode queues nothing; a good one queues exactly what was written.\<close>

lemma emit_ready:
  "rb_ready (fst (emit f rb)) = rb_ready rb @ (case f [] of Inr buf \<Rightarrow> [buf] | Inl _ \<Rightarrow> [])"
  by (simp add: emit_def Let_def split: sum.split)

end
