(* ===== verification/X224.thy ===== *)
theory X224
  imports Wire Segment Rust_Text
begin

text \<open>
  TPKT framing and the X.224 TPDUs of connection initiation (\<open>crates/rdp-pdu/src/x224.rs\<close>): the
  length that frames every slow path PDU, the Data TPDU header in front of it, and the
  Connection Request and Confirm with their cookies and negotiation blocks.
\<close>

unbundle bit_operations_syntax

subsection \<open>TPKT\<close>

definition TPKT_VERSION :: u8 where "TPKT_VERSION = 3"
definition TPKT_HEADER_LEN :: nat where "TPKT_HEADER_LEN = 4"
definition MAX_TPKT_LEN :: nat where "MAX_TPKT_LEN = 65535"
definition X224_DATA_HEADER :: bytes where "X224_DATA_HEADER = [0x02, 0xf0, 0x80]"
definition TPDU_CR :: u8 where "TPDU_CR = 0xe0"
definition TPDU_CC :: u8 where "TPDU_CC = 0xd0"
definition TPDU_FIXED_LEN :: nat where "TPDU_FIXED_LEN = 6"

definition read_tpkt_length :: "nat rd" where
  "read_tpkt_length r =
     (let at = offset r in
      rbind (rd_u8 ''TPKT'') (\<lambda>version.
        if version \<noteq> TPKT_VERSION then rfail (InvalidField ''TPKT'' ''version'' (unat version) at)
        else rbind (rd_skip 1 ''TPKT'') (\<lambda>_ r1.
          let at_len = offset r1 in
          rbind (rd_be_u16 ''TPKT'') (\<lambda>n.
            rbind (ensure_cap (unat n) MAX_TPKT_LEN ''MAX_TPKT_LEN'' ''TPKT'') (\<lambda>_.
              if unat n < TPKT_HEADER_LEN then rfail (InvalidField ''TPKT'' ''length'' (unat n) at_len)
              else rret (unat n))) r1)) r)"

definition peek_tpkt_length :: "bytes \<Rightarrow> pdu_error + nat option" where
  "peek_tpkt_length bs =
     (if length bs < TPKT_HEADER_LEN then Inr None
      else bind_res (read_tpkt_length (reader_new bs)) (\<lambda>(n, _). Inr (Some n)))"

definition read_tpkt :: "reader rd" where
  "read_tpkt = rbind read_tpkt_length (\<lambda>n. rd_take (n - TPKT_HEADER_LEN) ''TPKT'')"

definition write_tpkt_with :: "nat \<Rightarrow> try_wr \<Rightarrow> try_wr" where
  "write_tpkt_with body_len f w =
     (let n = body_len + TPKT_HEADER_LEN in
      if n < 2 ^ 16 then f (wr_be_u16 (of_nat n) (wr_u8 0 (wr_u8 TPKT_VERSION w)))
      else Inl (EncodeErr ''TPKT'' ''PDU longer than the TPKT length field''))"

definition write_data_tpdu_with :: "nat \<Rightarrow> try_wr \<Rightarrow> try_wr" where
  "write_data_tpdu_with body_len f =
     write_tpkt_with (length X224_DATA_HEADER + body_len) (\<lambda>w. f (wr_bytes X224_DATA_HEADER w))"

definition write_data_tpdu :: "bytes \<Rightarrow> try_wr" where
  "write_data_tpdu body = write_data_tpdu_with (length body) (\<lambda>w. Inr (wr_bytes body w))"

definition read_data_tpdu :: "reader rd" where
  "read_data_tpdu r =
     bind_res (read_tpkt r) (\<lambda>(body, r').
       bind_res (rd_array 3 ''X224_DATA'' body) (\<lambda>(h, body').
         if h \<noteq> X224_DATA_HEADER
         then Inl (InvalidField ''X224_DATA'' ''X.224 Data TPDU header''
                (unat (fold (\<lambda>b v. push_bit 8 v OR ucast b) h (0 :: u64))) (offset body))
         else Inr (body', r')))"

subsection \<open>Cookies\<close>

datatype x224_cookie = RoutingToken bytes | MstsHash chars

definition MAX_MSTSHASH_LEN :: nat where "MAX_MSTSHASH_LEN = 9"

definition cookie_name :: string where "cookie_name = ''X224_COOKIE''"
definition ROUTING_PREFIX :: bytes where "ROUTING_PREFIX = str_bytes ''Cookie: msts=''"
definition HASH_PREFIX :: bytes where "HASH_PREFIX = str_bytes ''Cookie: mstshash=''"
definition CRLF :: bytes where "CRLF = [0x0d, 0x0a]"

text \<open>\<open>windows(2).position\<close>: where the first terminator starts.\<close>

fun crlf_at :: "bytes \<Rightarrow> nat option" where
  "crlf_at (a # b # bs) = (if a = 0x0d \<and> b = 0x0a then Some 0 else map_option Suc (crlf_at (b # bs)))"
| "crlf_at _ = None"

fun cookie_size :: "x224_cookie \<Rightarrow> nat" where
  "cookie_size (RoutingToken t) = length ROUTING_PREFIX + length t + 2"
| "cookie_size (MstsHash s) = length HASH_PREFIX + text_len s + 2"

fun cookie_check :: "x224_cookie \<Rightarrow> pdu_error + unit" where
  "cookie_check (RoutingToken t) =
     (if crlf_at t \<noteq> None then Inl (EncodeErr cookie_name ''routing token contains its own terminator'') else Inr ())"
| "cookie_check (MstsHash s) =
     (if \<not> ascii_chars s then Inl (EncodeErr cookie_name ''mstshash identifier is not ASCII'')
      else if MAX_MSTSHASH_LEN < text_len s
        then Inl (EncodeErr cookie_name ''mstshash identifier is longer than nine characters'')
      else Inr ())"

fun cookie_encode :: "x224_cookie \<Rightarrow> wr" where
  "cookie_encode (RoutingToken t) w = wr_bytes CRLF (wr_bytes t (wr_bytes ROUTING_PREFIX w))"
| "cookie_encode (MstsHash s) w = wr_bytes CRLF (wr_bytes (ascii_bytes s) (wr_bytes HASH_PREFIX w))"

definition starts_with :: "bytes \<Rightarrow> bytes \<Rightarrow> bool" where
  "starts_with xs p \<longleftrightarrow> take (length p) xs = p"

definition cookie_decode :: "x224_cookie option rd" where
  "cookie_decode r =
     (let rest = fst (rd_rest r);
          routing = starts_with rest ROUTING_PREFIX;
          hash = starts_with rest HASH_PREFIX
      in if \<not> routing \<and> \<not> hash then Inr (None, r)
         else
           let prefix = (if hash then HASH_PREFIX else ROUTING_PREFIX); at = offset r
           in case crlf_at rest of
                None \<Rightarrow> Inl (InvalidField cookie_name ''cookie terminator'' (length rest) at)
              | Some crlf \<Rightarrow>
                  bind_res (rd_slice (crlf + 2) cookie_name r) (\<lambda>(field, r').
                    if \<not> (length prefix \<le> crlf \<and> crlf \<le> length field)
                    then Inl (InvalidField cookie_name ''cookie value'' crlf at)
                    else
                      let v = take (crlf - length prefix) (drop (length prefix) field)
                      in Inr (Some (if hash then MstsHash (from_utf8_lossy v) else RoutingToken v), r')))"

subsection \<open>Negotiation\<close>

definition TYPE_RDP_NEG_REQ :: u8 where "TYPE_RDP_NEG_REQ = 0x01"
definition TYPE_RDP_NEG_RSP :: u8 where "TYPE_RDP_NEG_RSP = 0x02"
definition TYPE_RDP_NEG_FAILURE :: u8 where "TYPE_RDP_NEG_FAILURE = 0x03"
definition TYPE_RDP_CORRELATION_INFO :: u8 where "TYPE_RDP_CORRELATION_INFO = 0x06"
definition NEG_BLOCK_LEN :: nat where "NEG_BLOCK_LEN = 8"
definition CORRELATION_BLOCK_LEN :: nat where "CORRELATION_BLOCK_LEN = 36"
definition CORRELATION_INFO_PRESENT :: u8 where "CORRELATION_INFO_PRESENT = 0x08"

record negotiation_request =
  nr_flags :: u8
  nr_protocols :: u32

record negotiation_response =
  ns_flags :: u8
  ns_selected :: u32

datatype x224_negotiation = Response negotiation_response | Failure u32

text \<open>\<open>CorrelationInfo\<close> is its sixteen byte id.\<close>

definition correlation_check :: "bytes \<Rightarrow> pdu_error + unit" where
  "correlation_check i =
     (let first = (case i of [] \<Rightarrow> 0 | b # _ \<Rightarrow> b) in
      if first = 0x00 \<or> first = 0xf4
        then Inl (EncodeErr ''RDP_NEG_CORRELATION_INFO'' ''correlationId starts with 0x00 or 0xF4'')
      else if 0x0d \<in> set i then Inl (EncodeErr ''RDP_NEG_CORRELATION_INFO'' ''correlationId contains 0x0D'')
      else Inr ())"

definition read_neg_header :: "u16 \<Rightarrow> string \<Rightarrow> (u8 \<times> u8) rd" where
  "read_neg_header expected_len ctx =
     rbind (rd_u8 ctx) (\<lambda>kind. rbind (rd_u8 ctx) (\<lambda>flags r.
       let at_len = offset r in
       rbind (rd_u16 ctx) (\<lambda>n.
         if n \<noteq> expected_len then rfail (InvalidField ctx ''length'' (unat n) at_len)
         else rret (kind, flags)) r))"

subsection \<open>The Connection Request\<close>

record connection_request =
  cr_cookie :: "x224_cookie option"
  cr_nego :: "negotiation_request option"
  cr_correlation :: "bytes option"

definition cr_name :: string where "cr_name = ''X224_CONNECTION_REQUEST''"

definition connection_request_new :: "u32 \<Rightarrow> connection_request" where
  "connection_request_new protocols =
     \<lparr>cr_cookie = None, cr_nego = Some \<lparr>nr_flags = 0, nr_protocols = protocols\<rparr>, cr_correlation = None\<rparr>"

definition variable_len :: "connection_request \<Rightarrow> nat" where
  "variable_len c =
     (case cr_cookie c of None \<Rightarrow> 0 | Some k \<Rightarrow> cookie_size k) +
     (case cr_nego c of None \<Rightarrow> 0 | Some _ \<Rightarrow> NEG_BLOCK_LEN) +
     (case cr_correlation c of None \<Rightarrow> 0 | Some _ \<Rightarrow> CORRELATION_BLOCK_LEN)"

definition request_size :: "connection_request \<Rightarrow> nat" where
  "request_size c = TPKT_HEADER_LEN + 1 + TPDU_FIXED_LEN + variable_len c"

definition write_nego_request :: "connection_request \<Rightarrow> wr" where
  "write_nego_request c w =
     (case cr_nego c of
        None \<Rightarrow> w
      | Some n \<Rightarrow>
          let flags = (if cr_correlation c \<noteq> None then nr_flags n OR CORRELATION_INFO_PRESENT else nr_flags n)
          in wr_u32 (nr_protocols n) (wr_u16 (of_nat NEG_BLOCK_LEN) (wr_u8 flags (wr_u8 TYPE_RDP_NEG_REQ w))))"

definition write_correlation :: "bytes option \<Rightarrow> wr" where
  "write_correlation i w =
     (case i of
        None \<Rightarrow> w
      | Some b \<Rightarrow> wr_zeros 16 (wr_bytes b (wr_u16 (of_nat CORRELATION_BLOCK_LEN)
                   (wr_u8 0 (wr_u8 TYPE_RDP_CORRELATION_INFO w)))))"

definition encode_request :: "connection_request \<Rightarrow> try_wr" where
  "encode_request c w =
     bind_res (case cr_cookie c of None \<Rightarrow> Inr () | Some k \<Rightarrow> cookie_check k) (\<lambda>_.
       bind_res (case cr_correlation c of None \<Rightarrow> Inr () | Some i \<Rightarrow> correlation_check i) (\<lambda>_.
         let li = TPDU_FIXED_LEN + variable_len c in
         if \<not> li < 2 ^ 8 then Inl (EncodeErr cr_name ''X.224 header longer than its one byte length indicator'')
         else write_tpkt_with (1 + li) (\<lambda>w.
           let w1 = wr_u8 0 (wr_be_u16 0 (wr_be_u16 0 (wr_u8 TPDU_CR (wr_u8 (of_nat li) w))));
               w2 = (case cr_cookie c of None \<Rightarrow> w1 | Some k \<Rightarrow> cookie_encode k w1)
           in Inr (write_correlation (cr_correlation c) (write_nego_request c w2))) w))"

text \<open>The optional blocks of a request, each read when bytes are left.\<close>

definition read_nego_request :: "negotiation_request option rd" where
  "read_nego_request r =
     (if rd_is_empty r then Inr (None, r)
      else
        let at = offset r in
        rbind (read_neg_header (of_nat NEG_BLOCK_LEN) cr_name) (\<lambda>(kind, flags).
          if kind \<noteq> TYPE_RDP_NEG_REQ then rfail (Unsupported cr_name ''negotiation block type'' (unat kind) at)
          else rmap (\<lambda>p. Some \<lparr>nr_flags = flags AND NOT CORRELATION_INFO_PRESENT, nr_protocols = p\<rparr>)
                 (rd_u32 cr_name)) r)"

definition read_correlation :: "bytes option rd" where
  "read_correlation r =
     (if rd_is_empty r then Inr (None, r)
      else
        let at = offset r in
        rbind (read_neg_header (of_nat CORRELATION_BLOCK_LEN) cr_name) (\<lambda>(kind, _).
          if kind \<noteq> TYPE_RDP_CORRELATION_INFO
          then rfail (Unsupported cr_name ''negotiation block type'' (unat kind) at)
          else rbind (rd_array 16 cr_name) (\<lambda>i. rbind (rd_skip 16 cr_name) (\<lambda>_. rret (Some i)))) r)"

definition read_request_body :: "connection_request rd" where
  "read_request_body =
     rbind cookie_decode (\<lambda>cookie. rbind read_nego_request (\<lambda>nego. rbind read_correlation (\<lambda>corr.
       rbind (expect_empty cr_name) (\<lambda>_.
         rret \<lparr>cr_cookie = cookie, cr_nego = nego, cr_correlation = corr\<rparr>))))"

text \<open>
  What both connection PDUs share: a TPKT that holds exactly one TPDU of the expected code,
  whose other fields are read by the continuation.
\<close>

definition read_tpdu :: "u8 \<Rightarrow> string \<Rightarrow> 'a rd \<Rightarrow> 'a rd" where
  "read_tpdu expected ctx f r =
     bind_res (read_tpkt r) (\<lambda>(frame, r').
       bind_res (rd_u8 ctx frame) (\<lambda>(li, frame1).
         bind_res (rd_take (unat li) ctx frame1) (\<lambda>(tpdu, frame2).
           bind_res (expect_empty ctx frame2) (\<lambda>_.
             let at = offset tpdu in
             bind_res (rd_u8 ctx tpdu) (\<lambda>(code, tpdu1).
               if code \<noteq> expected then Inl (InvalidField ctx ''x224Type'' (unat code) at)
               else bind_res (f tpdu1) (\<lambda>(a, _). Inr (a, r')))))))"

definition decode_request :: "connection_request rd" where
  "decode_request = read_tpdu TPDU_CR cr_name (rbind (rd_skip 5 cr_name) (\<lambda>_. read_request_body))"

subsection \<open>The Connection Confirm\<close>

record connection_confirm =
  cc_dst_ref :: u16
  cc_src_ref :: u16
  cc_class_options :: u8
  cc_nego :: "x224_negotiation option"

definition cc_name :: string where "cc_name = ''X224_CONNECTION_CONFIRM''"

definition selected_protocol :: "connection_confirm \<Rightarrow> u32 option" where
  "selected_protocol c = (case cc_nego c of Some (Response r) \<Rightarrow> Some (ns_selected r) | _ \<Rightarrow> None)"

definition confirm_size :: "connection_confirm \<Rightarrow> nat" where
  "confirm_size c = TPKT_HEADER_LEN + 1 + TPDU_FIXED_LEN + (case cc_nego c of None \<Rightarrow> 0 | Some _ \<Rightarrow> NEG_BLOCK_LEN)"

definition write_nego_confirm :: "x224_negotiation option \<Rightarrow> wr" where
  "write_nego_confirm n w =
     (case n of
        None \<Rightarrow> w
      | Some (Response rsp) \<Rightarrow>
          wr_u32 (ns_selected rsp) (wr_u16 (of_nat NEG_BLOCK_LEN) (wr_u8 (ns_flags rsp) (wr_u8 TYPE_RDP_NEG_RSP w)))
      | Some (Failure code) \<Rightarrow>
          wr_u32 code (wr_u16 (of_nat NEG_BLOCK_LEN) (wr_u8 0 (wr_u8 TYPE_RDP_NEG_FAILURE w))))"

definition encode_confirm :: "connection_confirm \<Rightarrow> try_wr" where
  "encode_confirm c w =
     (let li = TPDU_FIXED_LEN + (case cc_nego c of None \<Rightarrow> 0 | Some _ \<Rightarrow> NEG_BLOCK_LEN) in
      if \<not> li < 2 ^ 8 then Inl (EncodeErr cc_name ''X.224 header longer than its one byte length indicator'')
      else write_tpkt_with (1 + li) (\<lambda>w.
        let w1 = wr_u8 (cc_class_options c) (wr_be_u16 (cc_src_ref c) (wr_be_u16 (cc_dst_ref c)
                   (wr_u8 TPDU_CC (wr_u8 (of_nat li) w))))
        in Inr (write_nego_confirm (cc_nego c) w1)) w)"

definition read_nego_confirm :: "x224_negotiation option rd" where
  "read_nego_confirm r =
     (if rd_is_empty r then Inr (None, r)
      else
        let at = offset r in
        rbind (read_neg_header (of_nat NEG_BLOCK_LEN) cc_name) (\<lambda>(kind, flags).
          rbind (rd_u32 cc_name) (\<lambda>v.
            if kind = TYPE_RDP_NEG_RSP then rret (Some (Response \<lparr>ns_flags = flags, ns_selected = v\<rparr>))
            else if kind = TYPE_RDP_NEG_FAILURE then rret (Some (Failure v))
            else rfail (Unsupported cc_name ''negotiation block type'' (unat kind) at))) r)"

definition decode_confirm :: "connection_confirm rd" where
  "decode_confirm = read_tpdu TPDU_CC cc_name
     (rbind (rd_be_u16 cc_name) (\<lambda>dst. rbind (rd_be_u16 cc_name) (\<lambda>src. rbind (rd_u8 cc_name) (\<lambda>cls.
        rbind read_nego_confirm (\<lambda>nego. rbind (expect_empty cc_name) (\<lambda>_.
          rret \<lparr>cc_dst_ref = dst, cc_src_ref = src, cc_class_options = cls, cc_nego = nego\<rparr>))))))"

subsection \<open>A framed body is read back, and what follows is left alone\<close>

definition tpkt_bytes :: "bytes \<Rightarrow> bytes" where
  "tpkt_bytes body = TPKT_VERSION # 0 # to_be_bytes (of_nat (length body + 4) :: u16) @ body"

definition data_tpdu_bytes :: "bytes \<Rightarrow> bytes" where
  "data_tpdu_bytes body = tpkt_bytes (X224_DATA_HEADER @ body)"

lemma unat_of_nat_u16: "n < 2 ^ 16 \<Longrightarrow> unat (of_nat n :: u16) = n"
  by (simp add: unsigned_of_nat take_bit_nat_eq_self)

lemma write_tpkt_appends:
  "appends f body \<Longrightarrow> length body = n \<Longrightarrow> n + 4 < 2 ^ 16 \<Longrightarrow> appends (write_tpkt_with n f) (tpkt_bytes body)"
  by (auto simp: appends_def write_tpkt_with_def tpkt_bytes_def TPKT_HEADER_LEN_def wr_simps)

lemma write_tpkt_refuses:
  "2 ^ 16 \<le> n + 4 \<Longrightarrow> write_tpkt_with n f w = Inl (EncodeErr ''TPKT'' ''PDU longer than the TPKT length field'')"
  by (simp add: write_tpkt_with_def TPKT_HEADER_LEN_def)

lemma write_data_tpdu_appends:
  "appends f body \<Longrightarrow> length body = n \<Longrightarrow> n + 7 < 2 ^ 16 \<Longrightarrow>
   appends (write_data_tpdu_with n f) (data_tpdu_bytes body)"
  unfolding write_data_tpdu_with_def data_tpdu_bytes_def
  by (rule write_tpkt_appends) (simp_all add: appends_def X224_DATA_HEADER_def)

lemma read_tpkt_length_round:
  assumes "reader_ok r" and "n < 2 ^ 16" and "4 \<le> n"
    and "left r = TPKT_VERSION # 0 # to_be_bytes (of_nat n :: u16) @ post"
  shows "read_tpkt_length r = Inr (n, advance 4 r)" and "reader_ok (advance 4 r)" and "left (advance 4 r) = post"
proof -
  note 1 = u8_round [OF assms(1,4)]
  note 2 = skip_one_round [OF 1(2,3)]
  have "advance 2 (advance 1 (advance 1 r)) = advance 4 r" by (simp add: eval_nat_numeral)
  note 3 = be_u16_round [OF 2(2,3), unfolded this]
  from 3 show "reader_ok (advance 4 r)" "left (advance 4 r) = post" by simp_all
  have "ensure_cap n MAX_TPKT_LEN l c s = Inr ((), s)" for l c s
    using assms(2) by (simp add: ensure_cap_def MAX_TPKT_LEN_def)
  then show "read_tpkt_length r = Inr (n, advance 4 r)"
    using assms(2,3) unat_of_nat_u16 [OF assms(2)]
    by (simp add: read_tpkt_length_def Let_def rbind_def 1(1) 2(1) 3(1) TPKT_HEADER_LEN_def
        del: advance_simps One_nat_def)
qed

lemma read_tpkt_round:
  assumes "reader_ok r" and "length body + 4 < 2 ^ 16" and "left r = tpkt_bytes body @ post"
  shows "read_tpkt r = Inr (reader_sub body (offset r + 4), advance (length body + 4) r)"
    and "reader_ok (reader_sub body (offset r + 4))"
    and "reader_ok (advance (length body + 4) r)" and "left (advance (length body + 4) r) = post"
proof -
  have l: "left r = TPKT_VERSION # 0 # to_be_bytes (of_nat (length body + 4) :: u16) @ body @ post"
    using assms(3) by (simp add: tpkt_bytes_def)
  note 1 = read_tpkt_length_round [OF assms(1,2) _ l]
  note 2 = take_round [OF 1(2,3), of "length body"]
  from 1 2 show "read_tpkt r = Inr (reader_sub body (offset r + 4), advance (length body + 4) r)"
    and "reader_ok (reader_sub body (offset r + 4))"
    and "reader_ok (advance (length body + 4) r)" and "left (advance (length body + 4) r) = post"
    by (simp_all add: read_tpkt_def rbind_def TPKT_HEADER_LEN_def add.commute)
qed

lemma read_data_tpdu_round:
  assumes "reader_ok r" and "length body + 7 < 2 ^ 16" and "left r = data_tpdu_bytes body @ post"
  obtains b where "read_data_tpdu r = Inr (b, advance (length body + 7) r)" and "reader_ok b" and "left b = body"
    and "reader_ok (advance (length body + 7) r)" and "left (advance (length body + 7) r) = post"
proof -
  let ?body = "X224_DATA_HEADER @ body"
  have three: "length X224_DATA_HEADER = 3" by (simp add: X224_DATA_HEADER_def)
  have "length ?body + 4 < 2 ^ 16" "left r = tpkt_bytes ?body @ post"
    using assms by (simp_all add: three data_tpdu_bytes_def)
  note 1 = read_tpkt_round [OF assms(1) this]
  note 2 = slice_round [OF 1(2), of X224_DATA_HEADER body 3]
  show thesis
    by (rule that [of "advance 3 (reader_sub ?body (offset r + 4))"])
       (use 1 2 in \<open>simp_all add: read_data_tpdu_def rd_array_def three add.commute [of 7]\<close>)
qed

text \<open>The framer asks for as many bytes as the writer has written.\<close>

lemma peek_round:
  "length body + 4 < 2 ^ 16 \<Longrightarrow> length post < 2 ^ 62 \<Longrightarrow>
   peek_tpkt_length (tpkt_bytes body @ post) = Inr (Some (length (tpkt_bytes body)))"
  using read_tpkt_length_round(1) [of "reader_new (tpkt_bytes body @ post)" "length body + 4" "body @ post"]
  by (simp add: peek_tpkt_length_def tpkt_bytes_def TPKT_HEADER_LEN_def)

lemma read_tpdu_step:
  assumes "reader_ok r" and "length body < 2 ^ 8"
    and "left r = tpkt_bytes (of_nat (length body) # body) @ post" and "body = code # rest"
  obtains t r' where "read_tpdu code ctx f r = bind_res (f t) (\<lambda>(a, _). Inr (a, r'))"
    and "reader_ok t" and "left t = rest" and "left r' = post"
proof -
  let ?li = "of_nat (length body) :: u8"
  have len: "length (?li # body) + 4 < 2 ^ 16" using assms(2) by simp
  have li: "unat ?li = length body" using assms(2) by (simp add: unsigned_of_nat take_bit_nat_eq_self)
  note 1 = read_tpkt_round [OF assms(1) len assms(3)]
  let ?frame = "reader_sub (?li # body) (offset r + 4)"
  have "left ?frame = ?li # body" by simp
  note 2 = u8_round [OF 1(2) this]
  have "left (advance 1 ?frame) = body @ []" using 2(3) by simp
  note 3 = take_round [OF 2(2) this li]
  let ?tpdu = "reader_sub body (offset (advance 1 ?frame))"
  have "left ?tpdu = code # rest" by (simp add: assms(4))
  note 4 = u8_round [OF 3(4) this]
  note 5 = expect_empty_left [OF 3(2,3)]
  show thesis
  proof (rule that)
    show "read_tpdu code ctx f r = bind_res (f (advance 1 ?tpdu)) (\<lambda>(a, _). Inr (a, advance (length (?li # body) + 4) r))"
      by (simp add: read_tpdu_def Let_def 1(1) 2(1) 3(1) 4(1) 5 del: advance_simps One_nat_def list.size)
  qed (use 1(4) 4(2,3) in simp_all)
qed

lemma read_tpdu_round:
  assumes "reader_ok r" and "length body < 2 ^ 8"
    and "left r = tpkt_bytes (of_nat (length body) # body) @ post" and "body = code # rest"
    and "\<And>t. reader_ok t \<Longrightarrow> left t = rest \<Longrightarrow> \<exists>t'. f t = Inr (a, t')"
  shows "\<exists>r'. read_tpdu code ctx f r = Inr (a, r') \<and> left r' = post"
proof -
  obtain t r' where t: "read_tpdu code ctx f r = bind_res (f t) (\<lambda>(a, _). Inr (a, r'))"
    "reader_ok t" "left t = rest" "left r' = post"
    by (rule read_tpdu_step [OF assms(1-4)])
  with assms(5) [OF t(2,3)] show ?thesis by auto
qed

subsection \<open>Connection Request and Confirm are read back\<close>

fun cookie_bytes :: "x224_cookie option \<Rightarrow> bytes" where
  "cookie_bytes None = []"
| "cookie_bytes (Some (RoutingToken t)) = ROUTING_PREFIX @ t @ CRLF"
| "cookie_bytes (Some (MstsHash s)) = HASH_PREFIX @ ascii_bytes s @ CRLF"

fun nego_bytes :: "bool \<Rightarrow> negotiation_request option \<Rightarrow> bytes" where
  "nego_bytes corr None = []"
| "nego_bytes corr (Some n) =
     TYPE_RDP_NEG_REQ # (if corr then nr_flags n OR CORRELATION_INFO_PRESENT else nr_flags n) #
     to_le_bytes (of_nat NEG_BLOCK_LEN :: u16) @ to_le_bytes (nr_protocols n)"

fun correlation_bytes :: "bytes option \<Rightarrow> bytes" where
  "correlation_bytes None = []"
| "correlation_bytes (Some i) =
     TYPE_RDP_CORRELATION_INFO # 0 # to_le_bytes (of_nat CORRELATION_BLOCK_LEN :: u16) @ i @ replicate 16 0"

definition request_body :: "connection_request \<Rightarrow> bytes" where
  "request_body c =
     TPDU_CR # replicate 5 0 @ cookie_bytes (cr_cookie c) @ nego_bytes (cr_correlation c \<noteq> None) (cr_nego c) @
     correlation_bytes (cr_correlation c)"

text \<open>
  The requests that survive the wire. The encoder itself lets two more through: an identifier
  that holds a line end, and a correlation block without a negotiation request.
\<close>

fun cookie_ok :: "x224_cookie \<Rightarrow> bool" where
  "cookie_ok (RoutingToken t) \<longleftrightarrow> crlf_at t = None"
| "cookie_ok (MstsHash s) \<longleftrightarrow> ascii_chars s \<and> length s \<le> MAX_MSTSHASH_LEN \<and> crlf_at (ascii_bytes s) = None"

definition request_ok :: "connection_request \<Rightarrow> bool" where
  "request_ok c \<longleftrightarrow>
     (case cr_cookie c of None \<Rightarrow> True | Some k \<Rightarrow> cookie_ok k) \<and>
     (case cr_nego c of None \<Rightarrow> cr_correlation c = None | Some n \<Rightarrow> nr_flags n AND CORRELATION_INFO_PRESENT = 0) \<and>
     (case cr_correlation c of None \<Rightarrow> True | Some i \<Rightarrow> length i = 16 \<and> correlation_check i = Inr ()) \<and>
     TPDU_FIXED_LEN + variable_len c < 2 ^ 8"

text \<open>What the encoder accepts.\<close>

definition request_sent :: "connection_request \<Rightarrow> bool" where
  "request_sent c \<longleftrightarrow>
     (case cr_cookie c of None \<Rightarrow> True | Some k \<Rightarrow> cookie_check k = Inr ()) \<and>
     (case cr_correlation c of None \<Rightarrow> True | Some i \<Rightarrow> length i = 16 \<and> correlation_check i = Inr ()) \<and>
     TPDU_FIXED_LEN + variable_len c < 2 ^ 8"

lemmas prefix_defs = ROUTING_PREFIX_def HASH_PREFIX_def CRLF_def str_bytes_def

lemma crlf_at_end: "crlf_at xs = None \<Longrightarrow> crlf_at (xs @ CRLF @ post) = Some (length xs)"
  by (induction xs rule: crlf_at.induct) (auto simp: CRLF_def split: if_splits)

lemma crlf_at_prefix:
  "crlf_at xs = None \<Longrightarrow> crlf_at (ROUTING_PREFIX @ xs) = None" "crlf_at xs = None \<Longrightarrow> crlf_at (HASH_PREFIX @ xs) = None"
  by (cases xs; simp add: prefix_defs)+

lemma cookie_check_ok: "cookie_ok k \<Longrightarrow> cookie_check k = Inr ()"
  by (cases k) (auto simp: text_len_ascii)

lemma request_ok_sent: "request_ok c \<Longrightarrow> request_sent c"
  by (auto simp: request_ok_def request_sent_def cookie_check_ok split: option.splits)

lemma length_cookie_bytes:
  "cookie_check k = Inr () \<Longrightarrow> length (cookie_bytes (Some k)) = cookie_size k"
  by (cases k) (auto simp: CRLF_def text_len_ascii ascii_bytes_def split: if_splits)

lemma length_request_body:
  assumes "request_sent c"
  shows "length (request_body c) = TPDU_FIXED_LEN + variable_len c"
  using assms length_cookie_bytes
  by (auto simp: request_sent_def request_body_def variable_len_def TPDU_FIXED_LEN_def NEG_BLOCK_LEN_def
      CORRELATION_BLOCK_LEN_def split: option.splits)

lemma cookie_encode_bytes: "cookie_encode k w = wr_bytes (cookie_bytes (Some k)) w"
  by (cases k) simp_all

lemma encode_request_appends:
  assumes "request_sent c"
  shows "appends (encode_request c) (tpkt_bytes (of_nat (length (request_body c)) # request_body c))"
proof -
  let ?li = "TPDU_FIXED_LEN + variable_len c"
  have len: "length (request_body c) = ?li" and li: "?li < 2 ^ 8"
    using assms by (simp_all add: length_request_body request_sent_def)
  have checks: "(case cr_cookie c of None \<Rightarrow> Inr () | Some k \<Rightarrow> cookie_check k) = (Inr () :: pdu_error + unit)"
    "(case cr_correlation c of None \<Rightarrow> Inr () | Some i \<Rightarrow> correlation_check i) = (Inr () :: pdu_error + unit)"
    using assms by (auto simp: request_sent_def split: option.splits)
  define f where "f = (\<lambda>w. let w1 = wr_u8 0 (wr_be_u16 0 (wr_be_u16 0 (wr_u8 TPDU_CR (wr_u8 (of_nat ?li) w))));
      w2 = (case cr_cookie c of None \<Rightarrow> w1 | Some k \<Rightarrow> cookie_encode k w1)
      in Inr (write_correlation (cr_correlation c) (write_nego_request c w2)) :: pdu_error + writer)"
  have zero: "to_be_bytes (0 :: u16) = [0, 0]" by code_simp
  have "f w = Inr (wr_bytes (of_nat ?li # request_body c) w)" for w
    by (cases "cr_cookie c"; cases "cr_nego c"; cases "cr_correlation c")
       (simp_all add: f_def Let_def cookie_encode_bytes write_correlation_def write_nego_request_def request_body_def
          wr_simps zero eval_nat_numeral)
  then have "appends f (of_nat ?li # request_body c)" by (simp add: appends_def)
  then have "appends (write_tpkt_with (1 + ?li) f) (tpkt_bytes (of_nat ?li # request_body c))"
    by (rule write_tpkt_appends) (use len li in simp_all)
  then show ?thesis
    using li by (simp add: appends_def encode_request_def checks len f_def)
qed

lemma starts_with_append [simp]: "starts_with (p @ xs) p"
  by (simp add: starts_with_def)

lemma routing_not_hash: "\<not> starts_with (ROUTING_PREFIX @ xs) HASH_PREFIX"
  by (simp add: starts_with_def prefix_defs)

lemma cookie_decode_some:
  assumes "reader_ok r" and "cookie_ok k" and "left r = cookie_bytes (Some k) @ post"
  shows "cookie_decode r = Inr (Some k, advance (cookie_size k) r)"
    and "reader_ok (advance (cookie_size k) r)" and "left (advance (cookie_size k) r) = post"
proof -
  obtain p v where k: "cookie_bytes (Some k) = p @ v @ CRLF" and v: "crlf_at v = None"
    and pv: "p = HASH_PREFIX \<and> (\<exists>s. k = MstsHash s \<and> v = ascii_bytes s \<and> ascii_chars s) \<or>
             p = ROUTING_PREFIX \<and> k = RoutingToken v"
    using assms(2) by (cases k) auto
  have l: "left r = p @ v @ CRLF @ post" using assms(3) by (simp add: k)
  have at: "crlf_at (left r) = Some (length p + length v)"
    using crlf_at_end [of "p @ v" post] crlf_at_prefix [OF v] pv by (auto simp: l)
  have size: "cookie_size k = length p + length v + 2"
    using arg_cong [OF k, of length] length_cookie_bytes [OF cookie_check_ok [OF assms(2)]] by (simp add: CRLF_def)
  have "length (p @ v @ CRLF) = length p + length v + 2" by (simp add: CRLF_def)
  note 1 = slice_round [OF assms(1) assms(3) [unfolded k], of "length p + length v + 2", unfolded this, OF refl]
  from 1(2,3) show "reader_ok (advance (cookie_size k) r)" and "left (advance (cookie_size k) r) = post"
    by (simp_all add: size)
  have rest: "fst (rd_rest r) = left r" using assms(1) by (simp add: rd_rest_left)
  show "cookie_decode r = Inr (Some k, advance (cookie_size k) r)"
    using pv
  proof
    assume h: "p = HASH_PREFIX \<and> (\<exists>s. k = MstsHash s \<and> v = ascii_bytes s \<and> ascii_chars s)"
    then have "starts_with (left r) HASH_PREFIX" by (simp add: l)
    with h show ?thesis
      using 1(1) at by (auto simp: cookie_decode_def rest Let_def size from_utf8_lossy_ascii CRLF_def simp del: advance_simps)
  next
    assume h: "p = ROUTING_PREFIX \<and> k = RoutingToken v"
    then have "starts_with (left r) ROUTING_PREFIX" "\<not> starts_with (left r) HASH_PREFIX"
      by (simp_all add: l routing_not_hash)
    with h show ?thesis
      using 1(1) at by (auto simp: cookie_decode_def rest Let_def size CRLF_def simp del: advance_simps)
  qed
qed

lemma cookie_decode_none:
  assumes "reader_ok r" and "left r = [] \<or> hd (left r) \<noteq> 0x43"
  shows "cookie_decode r = Inr (None, r)"
proof -
  have "\<not> starts_with (left r) ROUTING_PREFIX" "\<not> starts_with (left r) HASH_PREFIX"
    using assms(2) by (cases "left r"; simp add: starts_with_def prefix_defs)+
  then show ?thesis using assms(1) by (simp add: cookie_decode_def Let_def rd_rest_left)
qed

lemma read_neg_header_round:
  assumes "reader_ok r" and "left r = kind # flags # to_le_bytes n @ post"
  shows "read_neg_header n ctx r = Inr ((kind, flags), advance 4 r)" and "reader_ok (advance 4 r)"
    and "left (advance 4 r) = post"
proof -
  note 1 = u8_round [OF assms]
  note 2 = u8_round [OF 1(2,3)]
  have "advance 2 (advance 1 (advance 1 r)) = advance 4 r" by (simp add: eval_nat_numeral)
  note 3 = u16_round [OF 2(2,3), unfolded this]
  from 3 show "reader_ok (advance 4 r)" "left (advance 4 r) = post" by simp_all
  show "read_neg_header n ctx r = Inr ((kind, flags), advance 4 r)"
    by (simp add: read_neg_header_def Let_def rbind_def 1(1) 2(1) 3(1) del: advance_simps One_nat_def)
qed

lemma read_nego_request_round:
  assumes "reader_ok r" and "left r = nego_bytes corr n @ post"
    and "case n of None \<Rightarrow> post = [] | Some q \<Rightarrow> nr_flags q AND CORRELATION_INFO_PRESENT = 0"
  shows "\<exists>r'. read_nego_request r = Inr (n, r') \<and> reader_ok r' \<and> left r' = post"
proof (cases n)
  case None
  then show ?thesis using assms by (simp add: read_nego_request_def is_empty_left)
next
  case (Some q)
  let ?flags = "if corr then nr_flags q OR CORRELATION_INFO_PRESENT else nr_flags q"
  have l: "left r = TYPE_RDP_NEG_REQ # ?flags # to_le_bytes (of_nat NEG_BLOCK_LEN :: u16) @ to_le_bytes (nr_protocols q) @ post"
    using assms(2) Some by simp
  note 1 = read_neg_header_round [OF assms(1) l]
  note 2 = u32_round [OF 1(2,3)]
  have "?flags AND NOT CORRELATION_INFO_PRESENT = nr_flags q"
    using assms(3) Some by (auto simp: bit_eq_iff bit_simps)
  then have "read_nego_request r = Inr (Some q, advance 4 (advance 4 r))"
    using l by (simp add: read_nego_request_def is_empty_left Let_def rbind_def rmap_def 1(1) 2(1) del: advance_simps)
  with 2 show ?thesis using Some by blast
qed

lemma read_correlation_round:
  assumes "reader_ok r" and "left r = correlation_bytes i" and "case i of None \<Rightarrow> True | Some b \<Rightarrow> length b = 16"
  shows "\<exists>r'. read_correlation r = Inr (i, r') \<and> reader_ok r' \<and> left r' = []"
proof (cases i)
  case None
  then show ?thesis using assms by (simp add: read_correlation_def is_empty_left)
next
  case (Some b)
  have l: "left r = TYPE_RDP_CORRELATION_INFO # 0 # to_le_bytes (of_nat CORRELATION_BLOCK_LEN :: u16) @ b @ replicate 16 0"
    using assms(2) Some by simp
  have b: "16 = length b" using assms(3) Some by simp
  note 1 = read_neg_header_round [OF assms(1) l]
  note 2 = slice_round [OF 1(2,3) b]
  have "left (advance 16 (advance 4 r)) = replicate 16 0 @ []" using 2(3) by simp
  note 3 = skip_round [OF 2(2) this, of 16]
  have "read_correlation r = Inr (Some b, advance 16 (advance 16 (advance 4 r)))"
    using l 3(1) by (simp add: read_correlation_def is_empty_left Let_def rbind_def rd_array_def 1(1) 2(1) del: advance_simps)
  with 3 show ?thesis using Some by auto
qed

lemma decode_request_round:
  assumes "reader_ok r" and "request_ok c"
    and "left r = tpkt_bytes (of_nat (length (request_body c)) # request_body c) @ post"
  shows "\<exists>r'. decode_request r = Inr (c, r') \<and> left r' = post"
  unfolding decode_request_def
proof (rule read_tpdu_round [OF assms(1) _ assms(3)])
  let ?n = "nego_bytes (cr_correlation c \<noteq> None) (cr_nego c)" and ?i = "correlation_bytes (cr_correlation c)"
  show "length (request_body c) < 2 ^ 8" using length_request_body [OF request_ok_sent [OF assms(2)]] assms(2) by (simp add: request_ok_def)
  show "request_body c = TPDU_CR # replicate 5 0 @ cookie_bytes (cr_cookie c) @ ?n @ ?i"
    by (simp add: request_body_def)
  show "\<exists>t'. rbind (rd_skip 5 cr_name) (\<lambda>_. read_request_body) t = Inr (c, t')"
    if t: "reader_ok t" "left t = replicate 5 0 @ cookie_bytes (cr_cookie c) @ ?n @ ?i" for t
  proof -
    note 1 = skip_round [OF t, of 5]
    have "\<exists>u. cookie_decode (advance 5 t) = Inr (cr_cookie c, u) \<and> reader_ok u \<and> left u = ?n @ ?i"
    proof (cases "cr_cookie c")
      case None
      have "?n @ ?i = [] \<or> hd (?n @ ?i) \<noteq> 0x43"
        using assms(2) by (cases "cr_nego c") (auto simp: request_ok_def TYPE_RDP_NEG_REQ_def split: option.splits)
      then show ?thesis using None 1 cookie_decode_none [of "advance 5 t"] by simp
    next
      case (Some k)
      then show ?thesis using assms(2) 1 cookie_decode_some [of "advance 5 t" k "?n @ ?i"]
        by (fastforce simp: request_ok_def simp del: advance_simps left_advance)
    qed
    then obtain u where u: "cookie_decode (advance 5 t) = Inr (cr_cookie c, u)" "reader_ok u" "left u = ?n @ ?i" by blast
    obtain v where v: "read_nego_request u = Inr (cr_nego c, v)" "reader_ok v" "left v = ?i"
      using read_nego_request_round [OF u(2,3)] assms(2) by (auto simp: request_ok_def split: option.splits)
    obtain x where x: "read_correlation v = Inr (cr_correlation c, x)" "reader_ok x" "left x = []"
      using read_correlation_round [OF v(2,3)] assms(2) by (auto simp: request_ok_def split: option.splits)
    show ?thesis
      using 1(1) by (simp add: read_request_body_def rbind_def u(1) v(1) x(1) expect_empty_left [OF x(2,3)])
  qed
qed

lemma request_size_exact:
  "request_sent c \<Longrightarrow> length (tpkt_bytes (of_nat (length (request_body c)) # request_body c)) = request_size c"
  by (simp add: tpkt_bytes_def length_request_body request_size_def TPKT_HEADER_LEN_def)

text \<open>The confirm has no condition: every value is sent and read back.\<close>

fun confirm_nego_bytes :: "x224_negotiation option \<Rightarrow> bytes" where
  "confirm_nego_bytes None = []"
| "confirm_nego_bytes (Some (Response q)) =
     TYPE_RDP_NEG_RSP # ns_flags q # to_le_bytes (of_nat NEG_BLOCK_LEN :: u16) @ to_le_bytes (ns_selected q)"
| "confirm_nego_bytes (Some (Failure code)) =
     TYPE_RDP_NEG_FAILURE # 0 # to_le_bytes (of_nat NEG_BLOCK_LEN :: u16) @ to_le_bytes code"

definition confirm_body :: "connection_confirm \<Rightarrow> bytes" where
  "confirm_body c =
     TPDU_CC # to_be_bytes (cc_dst_ref c) @ to_be_bytes (cc_src_ref c) @ cc_class_options c #
     confirm_nego_bytes (cc_nego c)"

lemma length_confirm_body:
  "length (confirm_body c) = TPDU_FIXED_LEN + (case cc_nego c of None \<Rightarrow> 0 | Some _ \<Rightarrow> NEG_BLOCK_LEN)"
  by (cases "cc_nego c" rule: confirm_nego_bytes.cases)
     (simp_all add: confirm_body_def TPDU_FIXED_LEN_def NEG_BLOCK_LEN_def)

lemma encode_confirm_appends:
  "appends (encode_confirm c) (tpkt_bytes (of_nat (length (confirm_body c)) # confirm_body c))"
proof -
  let ?li = "length (confirm_body c)"
  have li: "?li < 2 ^ 8" by (simp add: length_confirm_body TPDU_FIXED_LEN_def NEG_BLOCK_LEN_def split: option.split)
  define f where "f = (\<lambda>w. let w1 = wr_u8 (cc_class_options c) (wr_be_u16 (cc_src_ref c) (wr_be_u16 (cc_dst_ref c)
      (wr_u8 TPDU_CC (wr_u8 (of_nat ?li) w)))) in Inr (write_nego_confirm (cc_nego c) w1) :: pdu_error + writer)"
  have "f w = Inr (wr_bytes (of_nat ?li # confirm_body c) w)" for w
    by (cases "cc_nego c" rule: confirm_nego_bytes.cases)
       (simp_all add: f_def Let_def write_nego_confirm_def confirm_body_def wr_simps)
  then have "appends f (of_nat ?li # confirm_body c)" by (simp add: appends_def)
  then have "appends (write_tpkt_with (1 + ?li) f) (tpkt_bytes (of_nat ?li # confirm_body c))"
    by (rule write_tpkt_appends) (use li in simp_all)
  then show ?thesis
    using li by (simp add: appends_def encode_confirm_def f_def length_confirm_body)
qed

lemma read_nego_confirm_round:
  assumes "reader_ok r" and "left r = confirm_nego_bytes n"
  shows "\<exists>r'. read_nego_confirm r = Inr (n, r') \<and> reader_ok r' \<and> left r' = []"
proof (cases n rule: confirm_nego_bytes.cases)
  case 1
  then show ?thesis using assms by (simp add: read_nego_confirm_def is_empty_left)
next
  case (2 q)
  have l: "left r = TYPE_RDP_NEG_RSP # ns_flags q # to_le_bytes (of_nat NEG_BLOCK_LEN :: u16) @ to_le_bytes (ns_selected q) @ []"
    using assms(2) 2 by simp
  note h = read_neg_header_round [OF assms(1) l] and v = u32_round [OF read_neg_header_round(2,3) [OF assms(1) l]]
  have "read_nego_confirm r = Inr (n, advance 4 (advance 4 r))"
    using l 2 by (simp add: read_nego_confirm_def is_empty_left Let_def rbind_def h(1) v(1) del: advance_simps)
  with v show ?thesis by blast
next
  case (3 code)
  have l: "left r = TYPE_RDP_NEG_FAILURE # 0 # to_le_bytes (of_nat NEG_BLOCK_LEN :: u16) @ to_le_bytes code @ []"
    using assms(2) 3 by simp
  note h = read_neg_header_round [OF assms(1) l] and v = u32_round [OF read_neg_header_round(2,3) [OF assms(1) l]]
  have "TYPE_RDP_NEG_FAILURE \<noteq> TYPE_RDP_NEG_RSP" by (simp add: TYPE_RDP_NEG_FAILURE_def TYPE_RDP_NEG_RSP_def)
  then have "read_nego_confirm r = Inr (n, advance 4 (advance 4 r))"
    using l 3 by (simp add: read_nego_confirm_def is_empty_left Let_def rbind_def h(1) v(1) del: advance_simps)
  with v show ?thesis by blast
qed

lemma decode_confirm_round:
  assumes "reader_ok r" and "left r = tpkt_bytes (of_nat (length (confirm_body c)) # confirm_body c) @ post"
  shows "\<exists>r'. decode_confirm r = Inr (c, r') \<and> left r' = post"
  unfolding decode_confirm_def
proof (rule read_tpdu_round [OF assms(1) _ assms(2)])
  show "length (confirm_body c) < 2 ^ 8"
    by (simp add: length_confirm_body TPDU_FIXED_LEN_def NEG_BLOCK_LEN_def split: option.split)
  show "confirm_body c = TPDU_CC # to_be_bytes (cc_dst_ref c) @ to_be_bytes (cc_src_ref c) @ cc_class_options c #
      confirm_nego_bytes (cc_nego c)"
    by (simp add: confirm_body_def)
next
  fix t
  assume t: "reader_ok t" "left t = to_be_bytes (cc_dst_ref c) @ to_be_bytes (cc_src_ref c) @ cc_class_options c #
      confirm_nego_bytes (cc_nego c)"
  note 1 = be_u16_round [OF t]
  note 2 = be_u16_round [OF 1(2,3)]
  note 3 = u8_round [OF 2(2,3)]
  obtain x where x: "read_nego_confirm (advance 1 (advance 2 (advance 2 t))) = Inr (cc_nego c, x)" "reader_ok x" "left x = []"
    using read_nego_confirm_round [OF 3(2,3)] by blast
  show "\<exists>t'. rbind (rd_be_u16 cc_name) (\<lambda>dst. rbind (rd_be_u16 cc_name) (\<lambda>src. rbind (rd_u8 cc_name) (\<lambda>cls.
        rbind read_nego_confirm (\<lambda>nego. rbind (expect_empty cc_name) (\<lambda>_.
          rret \<lparr>cc_dst_ref = dst, cc_src_ref = src, cc_class_options = cls, cc_nego = nego\<rparr>))))) t = Inr (c, t')"
    by (simp add: rbind_def 1(1) 2(1) 3(1) x(1) expect_empty_left [OF x(2,3)] del: advance_simps One_nat_def)
qed

subsection \<open>An identifier with a line end\<close>

text \<open>
  The check of a cookie looks for a line end in a routing token, but not in an identifier: a user
  name that holds one is sent, and the receiver takes what follows for negotiation blocks.
\<close>

definition line_end_request :: connection_request where
  "line_end_request = \<lparr>cr_cookie = Some (MstsHash [0x61, 0x0d, 0x0a, 0x62]), cr_nego = None, cr_correlation = None\<rparr>"

lemma line_end_not_read:
  "case try_written (encode_request line_end_request) of
     Inr bs \<Rightarrow> (\<exists>e. decode_request (reader_new bs) = Inl e)
   | Inl e \<Rightarrow> False"
proof -
  let ?c = line_end_request and ?k = "MstsHash [0x61]"
  define body where "body = TPDU_CR # replicate 5 0 @ cookie_bytes (Some ?k) @ [0x62, 0x0d, 0x0a]"
  have c: "request_sent ?c" "request_body ?c = body"
    by (simp_all add: request_sent_def line_end_request_def ascii_chars_def text_len_ascii MAX_MSTSHASH_LEN_def
        variable_len_def TPDU_FIXED_LEN_def request_body_def body_def HASH_PREFIX_def CRLF_def str_bytes_def ascii_bytes_def)
  have len: "length body = 29" by (simp add: body_def prefix_defs ascii_bytes_def)
  have "try_written (encode_request ?c) = Inr (tpkt_bytes (of_nat (length body) # body))"
    using try_written_appends [OF encode_request_appends [OF c(1)]] by (simp only: c(2))
  moreover have "\<exists>e. decode_request (reader_new (tpkt_bytes (of_nat (length body) # body))) = Inl e"
  proof -
    have "length (tpkt_bytes (of_nat (length body) # body)) < 2 ^ 63" by (simp add: tpkt_bytes_def len)
    then have ok: "reader_ok (reader_new (tpkt_bytes (of_nat (length body) # body)))" by simp
    have "length body < 2 ^ 8" by (simp add: len)
    let ?f = "rbind (rd_skip 5 cr_name) (\<lambda>_. read_request_body)"
    obtain t r' where t: "decode_request (reader_new (tpkt_bytes (of_nat (length body) # body))) =
        bind_res (?f t) (\<lambda>(a, _). Inr (a, r'))"
      "reader_ok t" "left t = replicate 5 0 @ cookie_bytes (Some ?k) @ [0x62, 0x0d, 0x0a]"
      unfolding decode_request_def
      by (rule read_tpdu_step [OF ok \<open>length body < 2 ^ 8\<close> _ body_def, of "[]" cr_name ?f]) simp
    note 1 = skip_round [OF t(2,3), of 5]
    have "cookie_ok ?k" by (simp add: ascii_chars_def MAX_MSTSHASH_LEN_def ascii_bytes_def)
    note 2 = cookie_decode_some [OF 1(2) this 1(3)]
    note 3 = u8_round [OF 2(2,3)] and 4 = u8_round [OF u8_round(2,3) [OF 2(2,3)]]
    define u where "u = advance (cookie_size ?k) (advance 5 t)"
    note 5 = 3[folded u_def] and 6 = 4[folded u_def] and 7 = 2[folded u_def]
    have "remaining (advance 1 (advance 1 u)) = 1" using arg_cong [OF 6(3), of length] by simp
    then have "\<exists>e. rd_u16 cr_name (advance 1 (advance 1 u)) = Inl e"
      using 6(2) by (simp add: rd_u16_def rmap_def rbind_def rd_array_def rd_slice_ok del: advance_simps One_nat_def)
    then obtain e where e: "rd_u16 cr_name (advance 1 (advance 1 u)) = Inl e" ..
    have "left u \<noteq> []" using 7(3) by simp
    then have "(rbind (rd_skip 5 cr_name) (\<lambda>_. read_request_body)) t = Inl e"
      using 1(1) e by (simp add: rbind_def read_request_body_def 7(1) read_nego_request_def is_empty_left Let_def
          read_neg_header_def 5(1) 6(1) del: advance_simps One_nat_def left_advance cookie_size.simps)
    then show ?thesis by (simp add: t(1))
  qed
  ultimately show ?thesis by simp
qed

end
