(* ===== verification/Mcs_Domain.thy ===== *)
theory Mcs_Domain
  imports Per
begin

text \<open>
  The MCS domain PDUs (\<open>crates/rdp-pdu/src/mcs/domain.rs\<close> and the constants of \<open>mcs/mod.rs\<close>):
  the CHOICE index in the top six bits of the first octet, the ENUMERATEDs that straddle an octet
  boundary, user ids as an offset from 1001, and the PDUs with their decoder and encoder.
\<close>

unbundle bit_operations_syntax

subsection \<open>Constants\<close>

definition ERECT_DOMAIN_REQUEST :: u8 where "ERECT_DOMAIN_REQUEST = 1"
definition DISCONNECT_PROVIDER_ULTIMATUM :: u8 where "DISCONNECT_PROVIDER_ULTIMATUM = 8"
definition ATTACH_USER_REQUEST :: u8 where "ATTACH_USER_REQUEST = 10"
definition ATTACH_USER_CONFIRM :: u8 where "ATTACH_USER_CONFIRM = 11"
definition CHANNEL_JOIN_REQUEST :: u8 where "CHANNEL_JOIN_REQUEST = 14"
definition CHANNEL_JOIN_CONFIRM :: u8 where "CHANNEL_JOIN_CONFIRM = 15"
definition SEND_DATA_REQUEST :: u8 where "SEND_DATA_REQUEST = 25"
definition SEND_DATA_INDICATION :: u8 where "SEND_DATA_INDICATION = 26"

lemmas choice_defs = ERECT_DOMAIN_REQUEST_def DISCONNECT_PROVIDER_ULTIMATUM_def ATTACH_USER_REQUEST_def
  ATTACH_USER_CONFIRM_def CHANNEL_JOIN_REQUEST_def CHANNEL_JOIN_CONFIRM_def SEND_DATA_REQUEST_def
  SEND_DATA_INDICATION_def

definition RESULT_COUNT :: u8 where "RESULT_COUNT = 16"
definition REASON_COUNT :: u8 where "REASON_COUNT = 5"
definition USER_REQUESTED :: u8 where "USER_REQUESTED = 3"
definition MCS_USER_ID_BASE :: u32 where "MCS_USER_ID_BASE = 1001"
definition USER_ID_MAX :: u32 where "USER_ID_MAX = 65535"
definition CHANNEL_ID_MAX :: u32 where "CHANNEL_ID_MAX = 65535"
definition SEND_DATA_PRIORITY_SEGMENTATION :: u8 where "SEND_DATA_PRIORITY_SEGMENTATION = 0x70"
definition SEGMENTATION_MASK :: u8 where "SEGMENTATION_MASK = 0x30"
definition SEGMENTATION_BEGIN_END :: u8 where "SEGMENTATION_BEGIN_END = 0x30"

definition mcs_name :: string where "mcs_name = ''DomainMCSPDU''"

subsection \<open>The PDUs\<close>

datatype mcs_pdu =
    ErectDomainRequest u32 u32
  | AttachUserRequest
  | AttachUserConfirm u8 "u16 option"
  | ChannelJoinRequest u16 u16
  | ChannelJoinConfirm u8 u16 u16 "u16 option"
  | SendDataRequest u16 u16 bytes
  | SendDataIndication u16 u16 bytes
  | DisconnectProviderUltimatum u8

fun choice_index :: "mcs_pdu \<Rightarrow> u8" where
  "choice_index (ErectDomainRequest _ _) = ERECT_DOMAIN_REQUEST"
| "choice_index AttachUserRequest = ATTACH_USER_REQUEST"
| "choice_index (AttachUserConfirm _ _) = ATTACH_USER_CONFIRM"
| "choice_index (ChannelJoinRequest _ _) = CHANNEL_JOIN_REQUEST"
| "choice_index (ChannelJoinConfirm _ _ _ _) = CHANNEL_JOIN_CONFIRM"
| "choice_index (SendDataRequest _ _ _) = SEND_DATA_REQUEST"
| "choice_index (SendDataIndication _ _ _) = SEND_DATA_INDICATION"
| "choice_index (DisconnectProviderUltimatum _) = DISCONNECT_PROVIDER_ULTIMATUM"

fun user_data :: "mcs_pdu \<Rightarrow> (u16 \<times> bytes) option" where
  "user_data (SendDataRequest _ channel payload) = Some (channel, payload)"
| "user_data (SendDataIndication _ channel payload) = Some (channel, payload)"
| "user_data _ = None"

subsection \<open>Fields\<close>

definition write_result_prefix :: "u8 \<Rightarrow> bool \<Rightarrow> u8 \<Rightarrow> wr" where
  "write_result_prefix index present result w =
     wr_u8 (push_bit 5 (result AND 0x07))
       (wr_u8 (push_bit 2 index OR push_bit 1 (if present then 1 else 0) OR drop_bit 3 result) w)"

definition read_result_suffix :: "u8 \<Rightarrow> (bool \<times> u8) rd" where
  "read_result_suffix first =
     rbind (rd_u8 mcs_name) (\<lambda>second.
       rret (drop_bit 1 first AND 0x01 = 1, push_bit 3 (first AND 0x01) OR drop_bit 5 second))"

definition write_user_id :: "u16 \<Rightarrow> try_wr" where
  "write_user_id i = write_constrained_int (ucast i) MCS_USER_ID_BASE USER_ID_MAX mcs_name"

definition read_user_id :: "u16 rd" where
  "read_user_id = rmap ucast (read_constrained_int MCS_USER_ID_BASE USER_ID_MAX mcs_name)"

definition write_mcs_channel :: "u16 \<Rightarrow> try_wr" where
  "write_mcs_channel i = write_constrained_int (ucast i) 0 CHANNEL_ID_MAX mcs_name"

definition read_mcs_channel :: "u16 rd" where
  "read_mcs_channel = rmap ucast (read_constrained_int 0 CHANNEL_ID_MAX mcs_name)"

definition check_result :: "u8 \<Rightarrow> pdu_error + unit" where
  "check_result result =
     (if RESULT_COUNT \<le> result then Inl (EncodeErr mcs_name ''MCS result is outside the ENUMERATED'') else Inr ())"

subsection \<open>Encoding\<close>

fun mcs_size :: "mcs_pdu \<Rightarrow> nat" where
  "mcs_size (ErectDomainRequest h i) = 1 + unconstrained_int_size h + unconstrained_int_size i"
| "mcs_size AttachUserRequest = 1"
| "mcs_size (AttachUserConfirm _ initiator) = 2 + (if initiator \<noteq> None then 2 else 0)"
| "mcs_size (ChannelJoinRequest _ _) = 5"
| "mcs_size (ChannelJoinConfirm _ _ _ channel) = 6 + (if channel \<noteq> None then 2 else 0)"
| "mcs_size (SendDataRequest _ _ payload) = 6 + length_determinant_size (length payload) + length payload"
| "mcs_size (SendDataIndication _ _ payload) = 6 + length_determinant_size (length payload) + length payload"
| "mcs_size (DisconnectProviderUltimatum _) = 2"

definition write_optional :: "('a \<Rightarrow> try_wr) \<Rightarrow> 'a option \<Rightarrow> try_wr" where
  "write_optional f x w = (case x of None \<Rightarrow> Inr w | Some a \<Rightarrow> f a w)"

definition write_send_data :: "u8 \<Rightarrow> u16 \<Rightarrow> u16 \<Rightarrow> bytes \<Rightarrow> try_wr" where
  "write_send_data index initiator channel payload w =
     bind_res (write_user_id initiator (wr_u8 (push_bit 2 index) w)) (\<lambda>w1.
       bind_res (write_mcs_channel channel w1) (\<lambda>w2.
         bind_res (write_length_determinant (length payload) mcs_name
             (wr_u8 SEND_DATA_PRIORITY_SEGMENTATION w2)) (\<lambda>w3. Inr (wr_bytes payload w3))))"

fun encode_mcs :: "mcs_pdu \<Rightarrow> try_wr" where
  "encode_mcs (ErectDomainRequest h i) w =
     bind_res (write_unconstrained_int h mcs_name (wr_u8 (push_bit 2 ERECT_DOMAIN_REQUEST) w))
       (write_unconstrained_int i mcs_name)"
| "encode_mcs AttachUserRequest w = Inr (wr_u8 (push_bit 2 ATTACH_USER_REQUEST) w)"
| "encode_mcs (AttachUserConfirm result initiator) w =
     bind_res (check_result result) (\<lambda>_.
       write_optional write_user_id initiator
         (write_result_prefix ATTACH_USER_CONFIRM (initiator \<noteq> None) result w))"
| "encode_mcs (ChannelJoinRequest initiator channel) w =
     bind_res (write_user_id initiator (wr_u8 (push_bit 2 CHANNEL_JOIN_REQUEST) w)) (write_mcs_channel channel)"
| "encode_mcs (ChannelJoinConfirm result initiator requested channel) w =
     bind_res (check_result result) (\<lambda>_.
       bind_res (write_user_id initiator (write_result_prefix CHANNEL_JOIN_CONFIRM (channel \<noteq> None) result w)) (\<lambda>w1.
         bind_res (write_mcs_channel requested w1) (write_optional write_mcs_channel channel)))"
| "encode_mcs (SendDataRequest initiator channel payload) w =
     write_send_data SEND_DATA_REQUEST initiator channel payload w"
| "encode_mcs (SendDataIndication initiator channel payload) w =
     write_send_data SEND_DATA_INDICATION initiator channel payload w"
| "encode_mcs (DisconnectProviderUltimatum reason) w =
     (if REASON_COUNT \<le> reason
      then Inl (EncodeErr mcs_name ''disconnect reason is outside the ENUMERATED'')
      else Inr (wr_u8 (push_bit 7 (reason AND 0x01))
             (wr_u8 (push_bit 2 DISCONNECT_PROVIDER_ULTIMATUM OR drop_bit 1 reason) w)))"

subsection \<open>Decoding\<close>

definition read_optional :: "bool \<Rightarrow> 'a rd \<Rightarrow> 'a option rd" where
  "read_optional present m = (if present then rmap Some m else rret None)"

definition read_send_data :: "u8 \<Rightarrow> mcs_pdu rd" where
  "read_send_data index =
     rbind read_user_id (\<lambda>initiator. rbind read_mcs_channel (\<lambda>channel r.
       let at_seg = offset r in
       rbind (rd_u8 mcs_name) (\<lambda>segmentation.
         if segmentation AND SEGMENTATION_MASK \<noteq> SEGMENTATION_BEGIN_END
         then rfail (Unsupported mcs_name ''dataPriority and segmentation'' (unat segmentation) at_seg)
         else rbind (read_length_determinant mcs_name) (\<lambda>len.
           rbind (rd_slice len mcs_name) (\<lambda>payload.
             rret (if index = SEND_DATA_REQUEST then SendDataRequest initiator channel payload
                   else SendDataIndication initiator channel payload)))) r))"

text \<open>What follows the first octet, which selects the alternative.\<close>

definition mcs_body :: "nat \<Rightarrow> u8 \<Rightarrow> mcs_pdu rd" where
  "mcs_body at first =
     (let index = drop_bit 2 first in
      if index = ERECT_DOMAIN_REQUEST then
        rbind (read_unconstrained_int mcs_name) (\<lambda>h.
          rmap (ErectDomainRequest h) (read_unconstrained_int mcs_name))
      else if index = ATTACH_USER_REQUEST then rret AttachUserRequest
      else if index = ATTACH_USER_CONFIRM then
        rbind (read_result_suffix first) (\<lambda>(present, result).
          rmap (AttachUserConfirm result) (read_optional present read_user_id))
      else if index = CHANNEL_JOIN_REQUEST then
        rbind read_user_id (\<lambda>initiator. rmap (ChannelJoinRequest initiator) read_mcs_channel)
      else if index = CHANNEL_JOIN_CONFIRM then
        rbind (read_result_suffix first) (\<lambda>(present, result).
          rbind read_user_id (\<lambda>initiator. rbind read_mcs_channel (\<lambda>requested.
            rmap (ChannelJoinConfirm result initiator requested) (read_optional present read_mcs_channel))))
      else if index = SEND_DATA_REQUEST \<or> index = SEND_DATA_INDICATION then read_send_data index
      else if index = DISCONNECT_PROVIDER_ULTIMATUM then
        rbind (rd_u8 mcs_name) (\<lambda>second.
          rret (DisconnectProviderUltimatum (push_bit 1 (first AND 0x03) OR drop_bit 7 second)))
      else rfail (Unsupported mcs_name ''DomainMCSPDU choice'' (unat index) at))"

definition decode_mcs :: "mcs_pdu rd" where
  "decode_mcs r = (let at = offset r in rbind (rd_u8 mcs_name) (mcs_body at) r)"

subsection \<open>The packed prefix\<close>

lemma drop_push_2: "(i :: u8) < 64 \<Longrightarrow> drop_bit 2 (push_bit 2 i) = i"
  using bit_below [of i 6] by (intro bit_word_eqI) (auto simp: bit_simps)

lemma result_prefix:
  fixes index result :: u8 and present :: bool
  assumes "index < 64" and "result < 16"
  defines "first \<equiv> push_bit 2 index OR push_bit 1 (if present then 1 else 0) OR drop_bit 3 result"
  shows "drop_bit 2 first = index" and "drop_bit 1 first AND 1 = 1 \<longleftrightarrow> present"
    and "push_bit 3 (first AND 1) OR drop_bit 5 (push_bit 5 (result AND 7)) = result"
proof -
  have lt: "bit index i \<Longrightarrow> i < 6" "bit result i \<Longrightarrow> i < 4" for i
    using bit_below [of index 6 i] bit_below [of result 4 i] assms by simp_all
  show "drop_bit 2 first = index"
    by (rule bit_word_eqI) (auto simp: first_def bit_simps dest: lt)
  have "drop_bit 1 first AND 1 = take_bit 1 (drop_bit 1 first)" by (simp add: take_bit_eq_mask)
  also have "\<dots> = (if present then 1 else 0)"
    by (rule bit_word_eqI) (auto simp: first_def bit_simps even_drop_bit_iff_not_bit dest: lt)
  finally show "drop_bit 1 first AND 1 = 1 \<longleftrightarrow> present" by simp
  have "(7 :: u8) = mask 3" "(1 :: u8) = mask 1" by (simp_all add: mask_eq_exp_minus_1)
  then have "push_bit 3 (first AND 1) OR drop_bit 5 (push_bit 5 (result AND 7)) =
      push_bit 3 (take_bit 1 first) OR drop_bit 5 (push_bit 5 (take_bit 3 result))"
    by (simp add: take_bit_eq_mask)
  also have "\<dots> = result"
  proof (rule bit_word_eqI)
    fix n assume "n < LENGTH(8)"
    show "bit (push_bit 3 (take_bit 1 first) OR drop_bit 5 (push_bit 5 (take_bit 3 result))) n \<longleftrightarrow> bit result n"
    proof (cases "n < 3")
      case False
      then show ?thesis using lt(2) [of n] by (cases "n = 3") (auto simp: first_def bit_simps even_drop_bit_iff_not_bit)
    qed (auto simp: first_def bit_simps)
  qed
  finally show "push_bit 3 (first AND 1) OR drop_bit 5 (push_bit 5 (result AND 7)) = result" .
qed

subsection \<open>What is written\<close>

definition user_id_bytes :: "u16 \<Rightarrow> bytes" where
  "user_id_bytes i = constrained_bytes MCS_USER_ID_BASE USER_ID_MAX (ucast i)"

definition mcs_channel_bytes :: "u16 \<Rightarrow> bytes" where
  "mcs_channel_bytes i = constrained_bytes 0 CHANNEL_ID_MAX (ucast i)"

definition optional_bytes :: "('a \<Rightarrow> bytes) \<Rightarrow> 'a option \<Rightarrow> bytes" where
  "optional_bytes f x = (case x of None \<Rightarrow> [] | Some a \<Rightarrow> f a)"

definition prefix_bytes :: "u8 \<Rightarrow> bool \<Rightarrow> u8 \<Rightarrow> bytes" where
  "prefix_bytes index present result =
     [push_bit 2 index OR push_bit 1 (if present then 1 else 0) OR drop_bit 3 result, push_bit 5 (result AND 7)]"

definition send_data_bytes :: "u8 \<Rightarrow> u16 \<Rightarrow> u16 \<Rightarrow> bytes \<Rightarrow> bytes" where
  "send_data_bytes index initiator channel payload =
     push_bit 2 index # user_id_bytes initiator @ mcs_channel_bytes channel @
     SEND_DATA_PRIORITY_SEGMENTATION # len_det_bytes (length payload) @ payload"

fun mcs_bytes :: "mcs_pdu \<Rightarrow> bytes" where
  "mcs_bytes (ErectDomainRequest h i) = push_bit 2 ERECT_DOMAIN_REQUEST # unconstrained_bytes h @ unconstrained_bytes i"
| "mcs_bytes AttachUserRequest = [push_bit 2 ATTACH_USER_REQUEST]"
| "mcs_bytes (AttachUserConfirm result initiator) =
     prefix_bytes ATTACH_USER_CONFIRM (initiator \<noteq> None) result @ optional_bytes user_id_bytes initiator"
| "mcs_bytes (ChannelJoinRequest initiator channel) =
     push_bit 2 CHANNEL_JOIN_REQUEST # user_id_bytes initiator @ mcs_channel_bytes channel"
| "mcs_bytes (ChannelJoinConfirm result initiator requested channel) =
     prefix_bytes CHANNEL_JOIN_CONFIRM (channel \<noteq> None) result @ user_id_bytes initiator @
     mcs_channel_bytes requested @ optional_bytes mcs_channel_bytes channel"
| "mcs_bytes (SendDataRequest initiator channel payload) = send_data_bytes SEND_DATA_REQUEST initiator channel payload"
| "mcs_bytes (SendDataIndication initiator channel payload) =
     send_data_bytes SEND_DATA_INDICATION initiator channel payload"
| "mcs_bytes (DisconnectProviderUltimatum reason) =
     [push_bit 2 DISCONNECT_PROVIDER_ULTIMATUM OR drop_bit 1 reason, push_bit 7 (reason AND 1)]"

text \<open>The PDUs the encoder is for: ids, results, reasons and lengths inside their constraints.\<close>

definition is_user_id :: "u16 \<Rightarrow> bool" where
  "is_user_id i \<longleftrightarrow> 1001 \<le> i"

fun mcs_ok :: "mcs_pdu \<Rightarrow> bool" where
  "mcs_ok (AttachUserConfirm result initiator) \<longleftrightarrow> result < 16 \<and> pred_option is_user_id initiator"
| "mcs_ok (ChannelJoinRequest initiator _) \<longleftrightarrow> is_user_id initiator"
| "mcs_ok (ChannelJoinConfirm result initiator _ _) \<longleftrightarrow> result < 16 \<and> is_user_id initiator"
| "mcs_ok (SendDataRequest initiator _ payload) \<longleftrightarrow> is_user_id initiator \<and> length payload \<le> MAX_LENGTH_DETERMINANT"
| "mcs_ok (SendDataIndication initiator _ payload) \<longleftrightarrow> is_user_id initiator \<and> length payload \<le> MAX_LENGTH_DETERMINANT"
| "mcs_ok (DisconnectProviderUltimatum reason) \<longleftrightarrow> reason < 5"
| "mcs_ok _ \<longleftrightarrow> True"

lemmas mcs_const_defs = MCS_USER_ID_BASE_def USER_ID_MAX_def CHANNEL_ID_MAX_def

lemma unat_ucast_16_32: "unat (ucast (i :: u16) :: u32) = unat i"
  using unsigned_less [where 'a = nat, of i] by (simp add: unsigned_ucast_eq take_bit_nat_eq_self)

lemma ucast_16_32: "ucast (ucast i :: u32) = i" for i :: u16
  by (rule bit_word_eqI) (auto simp: bit_simps)

lemma user_id_constraint:
  "is_user_id i \<longleftrightarrow> MCS_USER_ID_BASE \<le> ucast i" "ucast i \<le> USER_ID_MAX" "ucast i \<le> CHANNEL_ID_MAX"
  using unsigned_less [where 'a = nat, of i]
  by (simp_all add: is_user_id_def mcs_const_defs word_le_nat_alt unat_ucast_16_32)

lemma id_lengths: "length (user_id_bytes i) = 2" "length (mcs_channel_bytes i) = 2"
  by (simp_all add: user_id_bytes_def mcs_channel_bytes_def constrained_bytes_def mcs_const_defs)

lemma write_user_id_appends: "is_user_id i \<Longrightarrow> appends (write_user_id i) (user_id_bytes i)"
  unfolding write_user_id_def user_id_bytes_def
  by (rule constrained_appends) (simp_all add: user_id_constraint, simp add: mcs_const_defs)

lemma write_mcs_channel_appends: "appends (write_mcs_channel i) (mcs_channel_bytes i)"
  unfolding write_mcs_channel_def mcs_channel_bytes_def
  by (rule constrained_appends) (simp_all add: user_id_constraint, simp add: mcs_const_defs)

lemma write_user_id_refuses:
  "\<not> is_user_id i \<Longrightarrow> write_user_id i w = Inl (EncodeErr mcs_name ''value is outside the constraint'')"
  by (simp add: write_user_id_def write_constrained_int_def user_id_constraint not_le)

lemma write_length_refuses:
  "MAX_LENGTH_DETERMINANT < n \<Longrightarrow> write_length_determinant n ctx w =
     Inl (EncodeErr ctx ''length determinant needs the fragmented form'')"
  by (simp add: write_length_determinant_def MAX_LENGTH_DETERMINANT_def)

lemmas mcs_writes = appendsD [OF write_user_id_appends] appendsD [OF write_mcs_channel_appends]
  appendsD [OF len_det_appends] appendsD [OF unconstrained_appends]

lemma encode_mcs_appends: "mcs_ok p \<Longrightarrow> appends (encode_mcs p) (mcs_bytes p)"
  unfolding appends_def
  by (cases p) (auto simp: mcs_writes write_send_data_def send_data_bytes_def write_optional_def optional_bytes_def
      prefix_bytes_def write_result_prefix_def check_result_def RESULT_COUNT_def REASON_COUNT_def
      MAX_LENGTH_DETERMINANT_def wr_simps not_le split: option.split)

lemma write_send_data_refuses:
  "\<not> (is_user_id i \<and> length payload \<le> MAX_LENGTH_DETERMINANT) \<Longrightarrow>
   \<exists>why. write_send_data index i c payload w = Inl (EncodeErr mcs_name why)"
  by (cases "is_user_id i") (auto simp: write_send_data_def mcs_writes write_user_id_refuses write_length_refuses not_le)

lemma encode_mcs_refuses: "\<not> mcs_ok p \<Longrightarrow> \<exists>why. encode_mcs p w = Inl (EncodeErr mcs_name why)"
  by (cases p) (auto simp: mcs_writes write_user_id_refuses write_send_data_refuses write_optional_def
      check_result_def RESULT_COUNT_def REASON_COUNT_def not_le not_less split: option.split)

lemma mcs_size_exact: "mcs_ok p \<Longrightarrow> length (mcs_bytes p) = mcs_size p"
  by (cases p) (auto simp: send_data_bytes_def prefix_bytes_def optional_bytes_def id_lengths
      unconstrained_size_exact len_det_size split: option.split)

subsection \<open>What is read back\<close>

lemma reads_user_id: "is_user_id i \<Longrightarrow> reads read_user_id (user_id_bytes i) i"
  unfolding read_user_id_def user_id_bytes_def
  by (rule reads_rmap [OF reads_codec [OF per_constrained.codec_axioms]])
    (simp_all add: user_id_constraint ucast_16_32, simp add: mcs_const_defs)

lemma reads_mcs_channel: "reads read_mcs_channel (mcs_channel_bytes i) i"
  unfolding read_mcs_channel_def mcs_channel_bytes_def
  by (rule reads_rmap [OF reads_codec [OF per_constrained.codec_axioms]])
    (simp_all add: user_id_constraint ucast_16_32, simp add: mcs_const_defs)

lemma reads_optional:
  "pred_option (\<lambda>a. reads m (f a) a) x \<Longrightarrow> reads (read_optional (x \<noteq> None) m) (optional_bytes f x) x"
  by (cases x) (auto simp: read_optional_def optional_bytes_def intro!: reads_rret reads_rmap)

lemma reads_int: "reads (read_unconstrained_int ctx) (unconstrained_bytes v) v"
  by (rule reads_codec [OF per_int.codec_axioms]) simp

lemma reads_send_data:
  assumes "is_user_id i" and "length payload \<le> MAX_LENGTH_DETERMINANT"
  shows "reads (read_send_data index)
    (user_id_bytes i @ mcs_channel_bytes c @ SEND_DATA_PRIORITY_SEGMENTATION # len_det_bytes (length payload) @ payload)
    (if index = SEND_DATA_REQUEST then SendDataRequest i c payload else SendDataIndication i c payload)"
proof -
  have 0: "SEND_DATA_PRIORITY_SEGMENTATION AND SEGMENTATION_MASK = SEGMENTATION_BEGIN_END"
    by (simp add: SEND_DATA_PRIORITY_SEGMENTATION_def SEGMENTATION_MASK_def SEGMENTATION_BEGIN_END_def)
  have 1: "reads (read_length_determinant mcs_name) (len_det_bytes (length payload)) (length payload)"
    using assms(2) by (intro reads_codec [OF per_len.codec_axioms]) (simp add: MAX_LENGTH_DETERMINANT_def)
  have 2: "reads (rd_slice (length payload) mcs_name) (payload @ []) payload" by (simp add: reads_slice)
  show ?thesis
    unfolding read_send_data_def Let_def
    by (rule reads_rbind [OF reads_user_id [OF assms(1)]], rule reads_rbind [OF reads_mcs_channel],
        rule reads_look [where g = offset], rule reads_u8_rbind,
        simp only: 0 simp_thms if_False, rule reads_rbind [OF 1],
        rule reads_rbind [OF 2 [unfolded append_Nil2], of _ "[]", unfolded append_Nil2], rule reads_rret, simp)
qed

lemma index_back: "i < 64 \<Longrightarrow> j < 4 \<Longrightarrow> drop_bit 2 (push_bit 2 i OR j) = i" for i j :: u8
  using bit_below [of i 6] bit_below [of j 2] by (intro bit_word_eqI) (auto simp: bit_simps, fastforce)

lemma reason_back:
  assumes "reason < 5"
  shows "drop_bit 2 (push_bit 2 DISCONNECT_PROVIDER_ULTIMATUM OR drop_bit 1 reason) = DISCONNECT_PROVIDER_ULTIMATUM"
    and "push_bit 1 ((push_bit 2 DISCONNECT_PROVIDER_ULTIMATUM OR drop_bit 1 reason) AND 3) OR
      drop_bit 7 (push_bit 7 (reason AND 1)) = reason"
proof -
  have "unat reason < 5" using assms by (simp add: word_less_nat_alt)
  then have "reason \<in> {0, 1, 2, 3, 4}" by (auto simp: byte_eq_iff)
  then show "drop_bit 2 (push_bit 2 DISCONNECT_PROVIDER_ULTIMATUM OR drop_bit 1 reason) = DISCONNECT_PROVIDER_ULTIMATUM"
    and "push_bit 1 ((push_bit 2 DISCONNECT_PROVIDER_ULTIMATUM OR drop_bit 1 reason) AND 3) OR
      drop_bit 7 (push_bit 7 (reason AND 1)) = reason"
    by (auto simp: choice_defs)
qed

lemma reads_suffix:
  assumes "index < 64" and "result < 16"
  shows "reads (read_result_suffix (push_bit 2 index OR push_bit 1 (if present then 1 else 0) OR drop_bit 3 result))
    [push_bit 5 (result AND 7)] (present, result)"
  unfolding read_result_suffix_def
  using result_prefix(2,3) [OF assms, of present] by (intro reads_u8_rbind reads_rret) simp

lemma reads_first: "(\<And>at. reads (mcs_body at first) ys p) \<Longrightarrow> reads decode_mcs (first # ys) p"
  unfolding decode_mcs_def [abs_def] Let_def
  by (rule reads_look [where g = offset], rule reads_u8_rbind)

lemma choice_small:
  "choice_index p < 64" "drop_bit 2 (push_bit 2 (choice_index p)) = choice_index p"
  by (cases p; simp add: choice_defs)+

lemma mcs_body_choice:
  assumes "drop_bit 2 first = index"
  shows "index = ERECT_DOMAIN_REQUEST \<Longrightarrow> mcs_body at first =
      rbind (read_unconstrained_int mcs_name) (\<lambda>h. rmap (ErectDomainRequest h) (read_unconstrained_int mcs_name))"
    and "index = ATTACH_USER_REQUEST \<Longrightarrow> mcs_body at first = rret AttachUserRequest"
    and "index = ATTACH_USER_CONFIRM \<Longrightarrow> mcs_body at first =
      rbind (read_result_suffix first) (\<lambda>(present, result).
        rmap (AttachUserConfirm result) (read_optional present read_user_id))"
    and "index = CHANNEL_JOIN_REQUEST \<Longrightarrow> mcs_body at first =
      rbind read_user_id (\<lambda>initiator. rmap (ChannelJoinRequest initiator) read_mcs_channel)"
    and "index = CHANNEL_JOIN_CONFIRM \<Longrightarrow> mcs_body at first =
      rbind (read_result_suffix first) (\<lambda>(present, result).
        rbind read_user_id (\<lambda>initiator. rbind read_mcs_channel (\<lambda>requested.
          rmap (ChannelJoinConfirm result initiator requested) (read_optional present read_mcs_channel))))"
    and "index = SEND_DATA_REQUEST \<or> index = SEND_DATA_INDICATION \<Longrightarrow> mcs_body at first = read_send_data index"
    and "index = DISCONNECT_PROVIDER_ULTIMATUM \<Longrightarrow> mcs_body at first =
      rbind (rd_u8 mcs_name) (\<lambda>second.
        rret (DisconnectProviderUltimatum (push_bit 1 (first AND 0x03) OR drop_bit 7 second)))"
  using assms by (auto simp: mcs_body_def choice_defs)

lemma reads_confirmed:
  assumes "index < 64" and "result < 16" and "reads (f (x \<noteq> None, result)) ys p"
  shows "reads (rbind (read_result_suffix (hd (prefix_bytes index (x \<noteq> None) result))) f)
    (tl (prefix_bytes index (x \<noteq> None) result) @ ys) p"
  unfolding prefix_bytes_def list.sel
  by (rule reads_rbind, rule reads_suffix [OF assms(1,2)], rule assms(3))

lemma decode_mcs_reads:
  assumes "mcs_ok p"
  shows "reads decode_mcs (mcs_bytes p) p"
proof -
  have first: "reads decode_mcs (b # ys) p" if "drop_bit 2 b = choice_index p" "\<And>at. reads (mcs_body at b) ys p" for b ys
    using that(2) by (rule reads_first)
  note index = mcs_body_choice [OF choice_small(2) [of p]]
  show ?thesis
  proof (cases p)
    case (ErectDomainRequest h i)
    have "reads (rbind (read_unconstrained_int mcs_name) (\<lambda>h. rmap (ErectDomainRequest h) (read_unconstrained_int mcs_name)))
        (unconstrained_bytes h @ unconstrained_bytes i) p"
      by (rule reads_rbind, rule reads_int, rule reads_rmap, rule reads_int, rule ErectDomainRequest)
    then show ?thesis using index(1) by (simp add: ErectDomainRequest) (rule reads_first, simp)
  next
    case AttachUserRequest
    show ?thesis using index(2) by (simp add: AttachUserRequest) (rule reads_first, simp add: reads_rret)
  next
    case (AttachUserConfirm result initiator)
    let ?b = "hd (prefix_bytes ATTACH_USER_CONFIRM (initiator \<noteq> None) result)"
    have ok: "result < 16" "pred_option (\<lambda>i. reads read_user_id (user_id_bytes i) i) initiator"
      using assms by (auto simp: AttachUserConfirm option.pred_set reads_user_id)
    have i: "drop_bit 2 ?b = ATTACH_USER_CONFIRM"
      unfolding prefix_bytes_def list.sel by (rule result_prefix(1) [OF _ ok(1)]) (simp add: choice_defs)
    have "reads (mcs_body at ?b) (tl (prefix_bytes ATTACH_USER_CONFIRM (initiator \<noteq> None) result) @
        optional_bytes user_id_bytes initiator) p" for at
      unfolding mcs_body_choice(3) [OF i refl]
      by (rule reads_confirmed [OF _ ok(1)])
        (simp_all only: prod.case AttachUserConfirm reads_rmap [OF reads_optional [OF ok(2)] refl], simp add: choice_defs)
    from reads_first [OF this] show ?thesis by (simp add: AttachUserConfirm prefix_bytes_def)
  next
    case (ChannelJoinRequest initiator channel)
    have "is_user_id initiator" using assms ChannelJoinRequest by simp
    have "reads (rbind read_user_id (\<lambda>initiator. rmap (ChannelJoinRequest initiator) read_mcs_channel))
        (user_id_bytes initiator @ mcs_channel_bytes channel) p"
      by (rule reads_rbind, rule reads_user_id [OF \<open>is_user_id initiator\<close>], rule reads_rmap,
          rule reads_mcs_channel, rule ChannelJoinRequest)
    then show ?thesis using index(4) by (simp add: ChannelJoinRequest) (rule reads_first, simp)
  next
    case (ChannelJoinConfirm result initiator requested channel)
    let ?b = "hd (prefix_bytes CHANNEL_JOIN_CONFIRM (channel \<noteq> None) result)"
    have ok: "result < 16" "is_user_id initiator" "pred_option (\<lambda>i. reads read_mcs_channel (mcs_channel_bytes i) i) channel"
      using assms by (auto simp: ChannelJoinConfirm option.pred_set reads_mcs_channel)
    have i: "drop_bit 2 ?b = CHANNEL_JOIN_CONFIRM"
      unfolding prefix_bytes_def list.sel by (rule result_prefix(1) [OF _ ok(1)]) (simp add: choice_defs)
    have "reads (mcs_body at ?b) (tl (prefix_bytes CHANNEL_JOIN_CONFIRM (channel \<noteq> None) result) @
        user_id_bytes initiator @ mcs_channel_bytes requested @ optional_bytes mcs_channel_bytes channel) p" for at
      unfolding mcs_body_choice(5) [OF i refl] ChannelJoinConfirm
      by (rule reads_confirmed [OF _ ok(1)], simp add: choice_defs, unfold prod.case,
          rule reads_rbind, rule reads_user_id [OF ok(2)], rule reads_rbind, rule reads_mcs_channel,
          rule reads_rmap [OF reads_optional [OF ok(3)] refl])
    from reads_first [OF this] show ?thesis by (simp add: ChannelJoinConfirm prefix_bytes_def)
  next
    case (SendDataRequest initiator channel payload)
    then show ?thesis
      using assms reads_send_data [of initiator payload SEND_DATA_REQUEST channel] index(6)
      by (simp add: send_data_bytes_def) (rule reads_first, simp add: choice_defs)
  next
    case (SendDataIndication initiator channel payload)
    then show ?thesis
      using assms reads_send_data [of initiator payload SEND_DATA_INDICATION channel] index(6)
      by (simp add: send_data_bytes_def) (rule reads_first, simp add: choice_defs)
  next
    case (DisconnectProviderUltimatum reason)
    then have "reason < 5" using assms by simp
    note r = reason_back [OF this]
    show ?thesis unfolding DisconnectProviderUltimatum mcs_bytes.simps
      by (rule reads_first) (unfold mcs_body_choice(7) [OF r(1) refl], intro reads_u8_rbind reads_rret, simp only: r(2))
  qed
qed

text \<open>The domain PDUs are a codec: the decoder only moves forward and reads back what is written.\<close>

interpretation user_id: decoder read_user_id
  unfolding read_user_id_def by (intro decoder_intros per_constrained.decoder_axioms)

interpretation mcs_channel: decoder read_mcs_channel
  unfolding read_mcs_channel_def by (intro decoder_intros per_constrained.decoder_axioms)

lemma decoder_send_data: "decoder (read_send_data index)"
  unfolding read_send_data_def Let_def
  by (rule decoder_rbind [OF user_id.decoder_axioms], rule decoder_rbind [OF mcs_channel.decoder_axioms],
      rule decoder_look [where g = offset]) (intro decoder_intros byte.decoder_axioms per_len.decoder_axioms)

lemma decoder_mcs_body: "decoder (mcs_body at first)"
proof -
  have "decoder (read_optional present m)" if "decoder m" for present and m :: "'a rd"
    unfolding read_optional_def using that by (intro decoder_intros)
  moreover have "decoder (read_result_suffix first)"
    unfolding read_result_suffix_def by (intro decoder_intros byte.decoder_axioms)
  moreover have "decoder (\<lambda>r. (case p of (present, result) \<Rightarrow> f present result) r)"
    if "\<And>present result. decoder (f present result)" for p and f :: "bool \<Rightarrow> u8 \<Rightarrow> mcs_pdu rd"
    using that by (cases p) simp
  ultimately show ?thesis
    unfolding mcs_body_def Let_def
    by (intro decoder_intros decoder_send_data byte.decoder_axioms per_int.decoder_axioms user_id.decoder_axioms
        mcs_channel.decoder_axioms) (auto intro!: decoder_intros user_id.decoder_axioms mcs_channel.decoder_axioms)
qed

interpretation mcs: codec decode_mcs mcs_bytes mcs_ok
proof
  have "decoder decode_mcs"
    unfolding decode_mcs_def [abs_def] Let_def
    by (rule decoder_look [where g = offset]) (intro decoder_intros byte.decoder_axioms decoder_mcs_body)
  then show "extends r r'" if "reader_ok r" and "decode_mcs r = Inr (p, r')" for r p r'
    using that by (rule decoder.safe)
  show "decode_mcs r = Inr (p, advance (length (mcs_bytes p)) r)"
    if "reader_ok r" and "mcs_ok p" and "left r = mcs_bytes p @ post" for r p post
    using decode_mcs_reads [OF that(2)] that(1,3) by (rule readsD)
qed

end
