(* ===== verification/Send_Data.thy ===== *)
theory Send_Data
  imports Channel_Base X224 Mcs_Domain Static_Channel
begin

text \<open>
  One client PDU on the wire (\<open>send_data_request\<close> and \<open>read_send_data_indication\<close> of
  \<open>crates/rdp-core/src/connection/activate.rs\<close>) and one channel PDU as a sequence of chunks
  (\<open>encode_channel_pdu\<close> of \<open>channels/mod.rs\<close>): a TPKT with an X.224 data TPDU around an MCS Send
  Data PDU around a chunk. The lemmas open the frames again: what was sent is what is read.
\<close>

unbundle bit_operations_syntax

definition CHANNEL_CHUNK_LENGTH :: nat where "CHANNEL_CHUNK_LENGTH = 1600"

subsection \<open>One PDU\<close>

definition send_data_request :: "u16 \<Rightarrow> u16 \<Rightarrow> bytes \<Rightarrow> rdp_error + bytes" where
  "send_data_request user_channel_id channel_id body =
     (let p = SendDataRequest user_channel_id channel_id body in
      lift_pdu (try_written (write_data_tpdu_with (mcs_size p) (encode_mcs p))))"

text \<open>The PDU inside a frame, through the TPKT and the data TPDU.\<close>

definition frame_pdu :: "bytes \<Rightarrow> rdp_error + mcs_pdu" where
  "frame_pdu frame =
     lift_pdu (bind_res (read_data_tpdu (reader_new frame)) (\<lambda>(body, _).
       bind_res (decode_mcs body) (\<lambda>(p, _). Inr p)))"

definition read_send_data_indication :: "bytes \<Rightarrow> rdp_error + u16 \<times> bytes" where
  "read_send_data_indication frame =
     bind_res (frame_pdu frame) (\<lambda>p.
       case p of
         SendDataIndication _ channel_id payload \<Rightarrow> Inr (channel_id, payload)
       | DisconnectProviderUltimatum reason \<Rightarrow> Inl (ServerDisconnect (reason = USER_REQUESTED))
       | other \<Rightarrow> Inl (Protocol (Said ''the server sent MCS choice {} during the connection sequence''
                         [unat (choice_index other)])))"

subsection \<open>One channel PDU\<close>

text \<open>
  The chunk iterator always ends (lemma \<open>collect_pdu\<close>), so the loop runs over the list of chunks
  it yields. The frames queued before an error stay queued.
\<close>

definition chunks_of :: "bytes \<Rightarrow> channel_chunk list" where
  "chunks_of payload =
     (case collect_chunks (chunk_channel_pdu payload CHANNEL_CHUNK_LENGTH) of None \<Rightarrow> [] | Some ks \<Rightarrow> ks)"

definition set_flags :: "u32 \<Rightarrow> channel_chunk \<Rightarrow> channel_chunk" where
  "set_flags extra k = k\<lparr>ck_header := (ck_header k)\<lparr>ch_flags := ch_flags (ck_header k) OR extra\<rparr>\<rparr>"

fun send_chunks :: "u16 \<Rightarrow> u16 \<Rightarrow> u32 \<Rightarrow> channel_chunk list \<Rightarrow> (bytes list, unit) op" where
  "send_chunks user channel extra [] out = st_ok () out"
| "send_chunks user channel extra (k # ks) out =
     (case send_data_request user channel (written (encode_chunk (set_flags extra k))) of
        Inl e \<Rightarrow> (out, Inl e)
      | Inr frame \<Rightarrow> send_chunks user channel extra ks (out @ [frame]))"

definition encode_channel_pdu_with :: "u16 \<Rightarrow> u16 \<Rightarrow> bytes \<Rightarrow> u32 \<Rightarrow> (bytes list, unit) op" where
  "encode_channel_pdu_with user channel payload extra = send_chunks user channel extra (chunks_of payload)"

definition encode_channel_pdu :: "u16 \<Rightarrow> u16 \<Rightarrow> bytes \<Rightarrow> (bytes list, unit) op" where
  "encode_channel_pdu user channel payload = encode_channel_pdu_with user channel payload 0"

subsection \<open>Frames open again\<close>

definition frame_of :: "mcs_pdu \<Rightarrow> bytes" where
  "frame_of p = data_tpdu_bytes (mcs_bytes p)"

lemma len_det_short: "length (len_det_bytes n) \<le> 2"
  by (simp add: len_det_bytes_def)

lemma mcs_short: "mcs_ok p \<Longrightarrow> length (mcs_bytes p) \<le> 16391"
proof (cases p)
  case (ErectDomainRequest h i)
  have "unconstrained_int_size v \<le> 6" for v by (simp add: unconstrained_int_size_def)
  from this [of h] this [of i] show ?thesis by (simp add: ErectDomainRequest unconstrained_size_exact)
next
  case (SendDataRequest i c payload)
  then show "mcs_ok p \<Longrightarrow> ?thesis" using len_det_short [of "length payload"]
    by (simp add: send_data_bytes_def id_lengths MAX_LENGTH_DETERMINANT_def)
next
  case (SendDataIndication i c payload)
  then show "mcs_ok p \<Longrightarrow> ?thesis" using len_det_short [of "length payload"]
    by (simp add: send_data_bytes_def id_lengths MAX_LENGTH_DETERMINANT_def)
qed (auto simp: prefix_bytes_def optional_bytes_def id_lengths split: option.split)

lemma frame_written:
  assumes "mcs_ok p"
  shows "try_written (write_data_tpdu_with (mcs_size p) (encode_mcs p)) = Inr (frame_of p)"
  unfolding frame_of_def
  by (rule try_written_appends, rule write_data_tpdu_appends [OF encode_mcs_appends [OF assms]])
    (use mcs_size_exact [OF assms] mcs_short [OF assms] in simp_all)

lemma send_data_request_frame:
  "is_user_id u \<Longrightarrow> length body \<le> MAX_LENGTH_DETERMINANT \<Longrightarrow>
   send_data_request u c body = Inr (frame_of (SendDataRequest u c body))"
  by (simp add: send_data_request_def Let_def frame_written del: encode_mcs.simps mcs_size.simps)

lemma frame_opens:
  assumes "mcs_ok p"
  shows "frame_pdu (frame_of p) = Inr p"
proof -
  let ?r = "reader_new (frame_of p)"
  have len: "length (mcs_bytes p) + 7 < 2 ^ 16" using mcs_short [OF assms] by simp
  then have ok: "reader_ok ?r" by (simp add: frame_of_def data_tpdu_bytes_def tpkt_bytes_def X224_DATA_HEADER_def)
  obtain body r' where body: "read_data_tpdu ?r = Inr (body, r')" "reader_ok body" "left body = mcs_bytes p"
    by (rule read_data_tpdu_round [OF ok len, of "[]"]) (simp_all add: frame_of_def)
  then have "decode_mcs body = Inr (p, advance (length (mcs_bytes p)) body)"
    using mcs.round [OF body(2) assms, of "[]"] by simp
  then show ?thesis by (simp add: frame_pdu_def body(1))
qed

text \<open>The chunk inside a frame, and the channel it is addressed to: what a receiver reads off it.\<close>

definition unwrap_frame :: "bytes \<Rightarrow> rdp_error + u16 \<times> channel_chunk" where
  "unwrap_frame frame =
     bind_res (frame_pdu frame) (\<lambda>p.
       case user_data p of
         None \<Rightarrow> Inl (Protocol (Said ''not a send data PDU'' []))
       | Some (channel, payload) \<Rightarrow>
           lift_pdu (bind_res (decode_chunk (reader_new payload)) (\<lambda>(k, _). Inr (channel, k))))"

lemma unwrap_request:
  assumes "is_user_id u" and "length (ck_data k) \<le> MAX_LENGTH_DETERMINANT - 8"
  shows "unwrap_frame (frame_of (SendDataRequest u c (chunk_bytes k))) = Inr (c, k)"
    and "unwrap_frame (frame_of (SendDataIndication u c (chunk_bytes k))) = Inr (c, k)"
proof -
  have len: "length (chunk_bytes k) \<le> MAX_LENGTH_DETERMINANT"
    using assms(2) by (simp add: chunk_size_exact chunk_size_of_def MAX_LENGTH_DETERMINANT_def)
  then have "length (chunk_bytes k) < 2 ^ 63" by (simp add: MAX_LENGTH_DETERMINANT_def)
  then have "\<exists>r'. decode_chunk (reader_new (chunk_bytes k)) = Inr (k, r')"
    using decode_chunk_round [of "reader_new (chunk_bytes k)" k] assms(2)
    by (auto simp: MAX_LENGTH_DETERMINANT_def MAX_VC_CHUNK_def)
  moreover have "frame_pdu (frame_of (SendDataRequest u c (chunk_bytes k))) = Inr (SendDataRequest u c (chunk_bytes k))"
    "frame_pdu (frame_of (SendDataIndication u c (chunk_bytes k))) = Inr (SendDataIndication u c (chunk_bytes k))"
    using assms(1) len by (simp_all add: frame_opens)
  ultimately show "unwrap_frame (frame_of (SendDataRequest u c (chunk_bytes k))) = Inr (c, k)"
    and "unwrap_frame (frame_of (SendDataIndication u c (chunk_bytes k))) = Inr (c, k)"
    by (auto simp: unwrap_frame_def)
qed

subsection \<open>A channel PDU as frames\<close>

lemma chunks_labelled:
  "chunks_of payload = labelled (of_nat (min (length payload) (2 ^ 32 - 1))) True (cut 1600 payload)"
  using collect_pdu [of payload CHANNEL_CHUNK_LENGTH]
  by (simp add: chunks_of_def chunk_channel_pdu_def CHANNEL_CHUNK_LENGTH_def MIN_VC_CHUNK_SIZE_def MAX_VC_CHUNK_SIZE_def)

lemma chunks_small: "k \<in> set (chunks_of payload) \<Longrightarrow> length (ck_data k) \<le> 1600"
  using length_cut [of 1600 "ck_data k" payload] labelled_data [of _ True "cut 1600 payload"]
  by (metis chunks_labelled imageI list.set_map zero_less_numeral)

definition frame_of_chunk :: "u16 \<Rightarrow> u16 \<Rightarrow> u32 \<Rightarrow> channel_chunk \<Rightarrow> bytes" where
  "frame_of_chunk u c extra k = frame_of (SendDataRequest u c (chunk_bytes (set_flags extra k)))"

lemma set_flags_data [simp]: "ck_data (set_flags extra k) = ck_data k" and set_flags_0 [simp]: "set_flags 0 k = k"
  by (simp_all add: set_flags_def)

lemma send_chunks_frames:
  "is_user_id u \<Longrightarrow> (\<And>k. k \<in> set ks \<Longrightarrow> length (ck_data k) \<le> 1600) \<Longrightarrow>
   send_chunks u c extra ks out = (out @ map (frame_of_chunk u c extra) ks, Inr ())"
proof (induction ks arbitrary: out)
  case (Cons k ks)
  then have "length (ck_data k) \<le> 1600" by simp
  then have "send_data_request u c (written (encode_chunk (set_flags extra k))) = Inr (frame_of_chunk u c extra k)"
    using Cons.prems(1)
    by (simp add: encode_chunk frame_of_chunk_def send_data_request_frame chunk_size_exact chunk_size_of_def
        MAX_LENGTH_DETERMINANT_def)
  then show ?case using Cons by simp
qed simp

lemma channel_pdu_frames:
  "is_user_id u \<Longrightarrow> encode_channel_pdu_with u c payload extra out =
     (out @ map (frame_of_chunk u c extra) (chunks_of payload), Inr ())"
  unfolding encode_channel_pdu_with_def by (rule send_chunks_frames) (auto dest: chunks_small)

lemma channel_pdu_unwraps:
  "is_user_id u \<Longrightarrow> k \<in> set (chunks_of payload) \<Longrightarrow> unwrap_frame (frame_of_chunk u c extra k) = Inr (c, set_flags extra k)"
  unfolding frame_of_chunk_def
  by (rule unwrap_request) (auto dest: chunks_small simp: MAX_LENGTH_DETERMINANT_def)

text \<open>Reassembling the chunks of a PDU gives the PDU, once, at the last chunk.\<close>

lemma chunks_put_together:
  assumes "length payload \<le> MAX_VC_REASSEMBLED" and "rs_expected s = None" and "length payload \<le> rs_cap s"
  obtains s' where "run_steps push_step s (chunks_of payload) = (s', delivered (length (chunks_of payload)) payload)"
    and "rs_expected s' = None" and "rs_cap s' = rs_cap s"
proof -
  have "unat (of_nat (min (length payload) (2 ^ 32 - 1)) :: u32) = length payload"
    using assms(1) by (simp add: MAX_VC_REASSEMBLED_def unsigned_of_nat take_bit_nat_eq_self)
  moreover have "length (chunks_of payload) = length (cut 1600 payload)"
    unfolding chunks_labelled by (metis labelled_data length_map)
  ultimately show thesis
    using reassemble_all [of s "cut 1600 payload" "of_nat (min (length payload) (2 ^ 32 - 1))"] assms that
    by (auto simp: chunks_labelled concat_cut)
qed

end
