(* ===== verification/Dvc.thy ===== *)
theory Dvc
  imports Per Segment Rust_Text Wire
begin

text \<open>
  Dynamic virtual channels (\<open>crates/rdp-pdu/src/vc/dvc.rs\<close>): the header byte, the channel ids of
  variable width, and the PDUs with their decoder and encoder. The reassembler is in theory
  Dvc.
\<close>

unbundle bit_operations_syntax

subsection \<open>The header byte\<close>

definition CREATE :: u8 where "CREATE = 0x01"
definition DATA_FIRST :: u8 where "DATA_FIRST = 0x02"
definition DATA :: u8 where "DATA = 0x03"
definition CLOSE :: u8 where "CLOSE = 0x04"
definition CAPABILITIES :: u8 where "CAPABILITIES = 0x05"
definition DATA_FIRST_COMPRESSED :: u8 where "DATA_FIRST_COMPRESSED = 0x06"
definition DATA_COMPRESSED :: u8 where "DATA_COMPRESSED = 0x07"
definition SOFT_SYNC_REQUEST :: u8 where "SOFT_SYNC_REQUEST = 0x08"
definition SOFT_SYNC_RESPONSE :: u8 where "SOFT_SYNC_RESPONSE = 0x09"

lemmas cmd_defs = CREATE_def DATA_FIRST_def DATA_def CLOSE_def CAPABILITIES_def
  DATA_FIRST_COMPRESSED_def DATA_COMPRESSED_def SOFT_SYNC_REQUEST_def SOFT_SYNC_RESPONSE_def

definition MAX_DVC_CHANNEL_NAME :: nat where "MAX_DVC_CHANNEL_NAME = 255"

record dvc_header =
  dh_cmd :: u8
  dh_sp :: u8
  dh_cb_id :: u8

definition header_to_u8 :: "dvc_header \<Rightarrow> u8" where
  "header_to_u8 h = push_bit 4 (dh_cmd h) OR push_bit 2 (dh_sp h AND 3) OR (dh_cb_id h AND 3)"

definition header_from_u8 :: "u8 \<Rightarrow> dvc_header" where
  "header_from_u8 b = \<lparr>dh_cmd = drop_bit 4 b, dh_sp = drop_bit 2 b AND 3, dh_cb_id = b AND 3\<rparr>"

subsection \<open>Channel ids and lengths\<close>

definition width_of :: "u8 \<Rightarrow> nat option" where
  "width_of code = (if code = 0 then Some 1 else if code = 1 then Some 2 else if code = 2 then Some 4 else None)"

definition width_code_for :: "u32 \<Rightarrow> u8" where
  "width_code_for v = (if v \<le> 0xff then 0 else if v \<le> 0xffff then 1 else 2)"

definition read_channel_id :: "u8 \<Rightarrow> string \<Rightarrow> u32 rd" where
  "read_channel_id code ctx r =
     (case width_of code of
        Some n \<Rightarrow>
          if n = 1 then rmap ucast (rd_u8 ctx) r
          else if n = 2 then rmap ucast (rd_u16 ctx) r
          else rd_u32 ctx r
      | None \<Rightarrow> Inl (InvalidField ctx ''cbId'' (unat code) (offset r)))"

definition write_channel_id :: "u8 \<Rightarrow> u32 \<Rightarrow> string \<Rightarrow> try_wr" where
  "write_channel_id code v ctx w =
     (if width_of code = Some 1 \<and> v \<le> 0xff then Inr (wr_u8 (ucast v) w)
      else if width_of code = Some 2 \<and> v \<le> 0xffff then Inr (wr_u16 (ucast v) w)
      else if width_of code = Some 4 then Inr (wr_u32 v w)
      else Inl (EncodeErr ctx ''channel id or length does not fit the width cbId selects''))"

subsection \<open>The PDUs\<close>

datatype dvc_pdu =
    Capabilities u16 "(u16 \<times> u16 \<times> u16 \<times> u16) option"
  | CreateRequest u32 chars
  | CreateResponse u32 u32
  | DataFirst u32 u32 bytes bool
  | Data u32 bytes bool
  | Close u32
  | SoftSyncRequest u32 u16 u16 bytes
  | SoftSyncResponse u16 bytes

definition dvc_name :: string where
  "dvc_name = ''DYNVC PDU''"

fun pdu_cmd :: "dvc_pdu \<Rightarrow> u8" where
  "pdu_cmd (Capabilities _ _) = CAPABILITIES"
| "pdu_cmd (CreateRequest _ _) = CREATE"
| "pdu_cmd (CreateResponse _ _) = CREATE"
| "pdu_cmd (DataFirst _ _ _ compressed) = (if compressed then DATA_FIRST_COMPRESSED else DATA_FIRST)"
| "pdu_cmd (Data _ _ compressed) = (if compressed then DATA_COMPRESSED else DATA)"
| "pdu_cmd (Close _) = CLOSE"
| "pdu_cmd (SoftSyncRequest _ _ _ _) = SOFT_SYNC_REQUEST"
| "pdu_cmd (SoftSyncResponse _ _) = SOFT_SYNC_RESPONSE"

fun pdu_channel_id :: "dvc_pdu \<Rightarrow> u32 option" where
  "pdu_channel_id (CreateRequest i _) = Some i"
| "pdu_channel_id (CreateResponse i _) = Some i"
| "pdu_channel_id (DataFirst i _ _ _) = Some i"
| "pdu_channel_id (Data i _ _) = Some i"
| "pdu_channel_id (Close i) = Some i"
| "pdu_channel_id _ = None"

definition capabilities_response :: "u16 \<Rightarrow> dvc_pdu" where
  "capabilities_response version = Capabilities version None"

subsection \<open>Decoding\<close>

definition read_channel_name :: "chars rd" where
  "read_channel_name r =
     (let at = offset r; (raw, r1) = rd_rest r
      in case position (\<lambda>b. b = 0) raw of
           None \<Rightarrow> Inl (InvalidField dvc_name ''ChannelName without a NUL terminator'' (length raw) at)
         | Some n \<Rightarrow>
             if MAX_DVC_CHANNEL_NAME < n
             then Inl (CapExceeded dvc_name n MAX_DVC_CHANNEL_NAME ''MAX_DVC_CHANNEL_NAME'' at)
             else Inr (filter (\<lambda>c. \<not> is_control c) (from_utf8_lossy (take n raw)), r1))"

definition rd_payload :: "bytes rd" where
  "rd_payload r = Inr (rd_rest r)"

definition read_charges :: "(u16 \<times> u16 \<times> u16 \<times> u16) option rd" where
  "read_charges r =
     (if 8 \<le> remaining r then
        rbind (rd_u16 ''PriorityCharge0'') (\<lambda>a.
          rbind (rd_u16 ''PriorityCharge1'') (\<lambda>b.
            rbind (rd_u16 ''PriorityCharge2'') (\<lambda>c.
              rbind (rd_u16 ''PriorityCharge3'') (\<lambda>d. rret (Some (a, b, c, d)))))) r
      else Inr (None, r))"

definition decode_dvc :: "dvc_pdu rd" where
  "decode_dvc r =
     (let at = offset r in
      rbind (rd_u8 dvc_name) (\<lambda>hb.
        let h = header_from_u8 hb; c = dh_cmd h in
        if c = CAPABILITIES then
          rbind (rd_skip 1 ''DYNVC_CAPS Pad'') (\<lambda>_.
            rbind (rd_u16 ''DYNVC_CAPS Version'') (\<lambda>version. rmap (Capabilities version) read_charges))
        else if c = CREATE then
          rbind (read_channel_id (dh_cb_id h) ''DYNVC_CREATE ChannelId'') (\<lambda>i.
            rmap (CreateRequest i) read_channel_name)
        else if c = DATA_FIRST \<or> c = DATA_FIRST_COMPRESSED then
          rbind (read_channel_id (dh_cb_id h) ''DYNVC_DATA_FIRST ChannelId'') (\<lambda>i.
            rbind (read_channel_id (dh_sp h) ''DYNVC_DATA_FIRST Length'') (\<lambda>n.
              rmap (\<lambda>data. DataFirst i n data (c = DATA_FIRST_COMPRESSED)) rd_payload))
        else if c = DATA \<or> c = DATA_COMPRESSED then
          rbind (read_channel_id (dh_cb_id h) ''DYNVC_DATA ChannelId'') (\<lambda>i.
            rmap (\<lambda>data. Data i data (c = DATA_COMPRESSED)) rd_payload)
        else if c = CLOSE then
          rmap Close (read_channel_id (dh_cb_id h) ''DYNVC_CLOSE ChannelId'')
        else if c = SOFT_SYNC_REQUEST then
          rbind (rd_skip 1 ''DYNVC_SOFT_SYNC_REQUEST Pad'') (\<lambda>_.
            rbind (rd_u32 ''DYNVC_SOFT_SYNC_REQUEST Length'') (\<lambda>n.
              rbind (rd_u16 ''DYNVC_SOFT_SYNC_REQUEST Flags'') (\<lambda>f.
                rbind (rd_u16 ''DYNVC_SOFT_SYNC_REQUEST NumberOfTunnels'') (\<lambda>t.
                  rmap (SoftSyncRequest n f t) rd_payload))))
        else if c = SOFT_SYNC_RESPONSE then
          rbind (rd_skip 1 ''DYNVC_SOFT_SYNC_RESPONSE Pad'') (\<lambda>_.
            rbind (rd_u16 ''DYNVC_SOFT_SYNC_RESPONSE NumberOfTunnels'') (\<lambda>t.
              rmap (SoftSyncResponse t) rd_payload))
        else rfail (Unsupported dvc_name ''Cmd'' (unat c) at)) r)"

subsection \<open>Encoding\<close>

definition id_width :: "u32 \<Rightarrow> nat" where
  "id_width v = (case width_of (width_code_for v) of Some n \<Rightarrow> n | None \<Rightarrow> 4)"

fun dvc_size :: "dvc_pdu \<Rightarrow> nat" where
  "dvc_size (Capabilities _ charges) = 1 + 1 + 2 + (if charges \<noteq> None then 8 else 0)"
| "dvc_size (CreateRequest i name) = 1 + id_width i + text_len name + 1"
| "dvc_size (CreateResponse i _) = 1 + id_width i + 4"
| "dvc_size (DataFirst i n data _) = 1 + id_width i + id_width n + length data"
| "dvc_size (Data i data _) = 1 + id_width i + length data"
| "dvc_size (Close i) = 1 + id_width i"
| "dvc_size (SoftSyncRequest _ _ _ chl) = 1 + 1 + 4 + 2 + 2 + length chl"
| "dvc_size (SoftSyncResponse _ tunnels) = 1 + 1 + 2 + length tunnels"

definition pdu_header :: "dvc_pdu \<Rightarrow> dvc_header" where
  "pdu_header p =
     \<lparr>dh_cmd = pdu_cmd p,
      dh_sp = (case p of DataFirst _ n _ _ \<Rightarrow> width_code_for n | _ \<Rightarrow> 0),
      dh_cb_id = (case pdu_channel_id p of None \<Rightarrow> 0 | Some i \<Rightarrow> width_code_for i)\<rparr>"

definition write_charges :: "(u16 \<times> u16 \<times> u16 \<times> u16) option \<Rightarrow> wr" where
  "write_charges charges w =
     (case charges of None \<Rightarrow> w | Some (a, b, c, d) \<Rightarrow> wr_u16 d (wr_u16 c (wr_u16 b (wr_u16 a w))))"

definition write_channel_name :: "chars \<Rightarrow> try_wr" where
  "write_channel_name name w =
     (if \<not> ascii_chars name \<or> 0 \<in> set name
        then Inl (EncodeErr dvc_name ''ChannelName is not NUL free ASCII'')
      else if MAX_DVC_CHANNEL_NAME < text_len name
        then Inl (EncodeErr dvc_name ''ChannelName longer than MAX_DVC_CHANNEL_NAME'')
      else Inr (wr_u8 0 (wr_bytes (ascii_bytes name) w)))"

definition encode_dvc :: "dvc_pdu \<Rightarrow> try_wr" where
  "encode_dvc p w0 =
     (let h = pdu_header p; cb_id = dh_cb_id h; sp = dh_sp h; w = wr_u8 (header_to_u8 h) w0 in
      case p of
        Capabilities version charges \<Rightarrow> Inr (write_charges charges (wr_u16 version (wr_u8 0 w)))
      | CreateRequest i name \<Rightarrow> bind_res (write_channel_id cb_id i dvc_name w) (write_channel_name name)
      | CreateResponse i status \<Rightarrow>
          bind_res (write_channel_id cb_id i dvc_name w) (\<lambda>w. Inr (wr_u32 status w))
      | DataFirst i n data _ \<Rightarrow>
          bind_res (write_channel_id cb_id i dvc_name w) (\<lambda>w.
            bind_res (write_channel_id sp n dvc_name w) (\<lambda>w. Inr (wr_bytes data w)))
      | Data i data _ \<Rightarrow> bind_res (write_channel_id cb_id i dvc_name w) (\<lambda>w. Inr (wr_bytes data w))
      | Close i \<Rightarrow> write_channel_id cb_id i dvc_name w
      | SoftSyncRequest n f t chl \<Rightarrow>
          Inr (wr_bytes chl (wr_u16 t (wr_u16 f (wr_u32 n (wr_u8 0 w)))))
      | SoftSyncResponse t tunnels \<Rightarrow> Inr (wr_bytes tunnels (wr_u16 t (wr_u8 0 w))))"

subsection \<open>The header byte packs and unpacks\<close>

lemma low_two: "x AND 3 = take_bit 2 x" for x :: u8
  by (simp add: take_bit_eq_mask mask_eq_exp_minus_1)

lemma header_unpack_pack:
  assumes "dh_cmd h < 16" and "dh_sp h < 4" and "dh_cb_id h < 4"
  shows "header_from_u8 (header_to_u8 h) = h"
proof -
  have lt: "bit (dh_cmd h) i \<Longrightarrow> i < 4" "bit (dh_sp h) i \<Longrightarrow> i < 2" "bit (dh_cb_id h) i \<Longrightarrow> i < 2" for i
    using take_bit_below [of "dh_cmd h" 4] take_bit_below [of "dh_sp h" 2] take_bit_below [of "dh_cb_id h" 2] assms
    by (auto simp: bit_take_bit_iff dest: arg_cong [where f = "\<lambda>w. bit w i"])
  have "drop_bit 4 (header_to_u8 h) = dh_cmd h" "take_bit 2 (drop_bit 2 (header_to_u8 h)) = dh_sp h"
    "take_bit 2 (header_to_u8 h) = dh_cb_id h"
    by (rule bit_word_eqI, auto simp: header_to_u8_def low_two bit_simps dest: lt)+
  then show ?thesis by (simp add: header_from_u8_def low_two)
qed

lemma header_pack_unpack: "header_to_u8 (header_from_u8 b) = b"
proof (rule bit_word_eqI)
  fix n
  have "2 \<le> n \<Longrightarrow> Suc (Suc (n - 2)) = n" by simp
  then show "bit (header_to_u8 (header_from_u8 b)) n \<longleftrightarrow> bit b n" if "n < LENGTH(8)"
    using that by (cases "n < 2"; cases "n < 4") (auto simp: header_to_u8_def header_from_u8_def low_two bit_simps)
qed

subsection \<open>Channel ids are an exact codec at every width\<close>

definition id_bytes :: "u8 \<Rightarrow> u32 \<Rightarrow> bytes" where
  "id_bytes code v =
     (if code = 0 then [ucast v] else if code = 1 then to_le_bytes (ucast v :: u16) else to_le_bytes v)"

definition id_fits :: "u8 \<Rightarrow> u32 \<Rightarrow> bool" where
  "id_fits code v \<longleftrightarrow> code = 0 \<and> v \<le> 0xff \<or> code = 1 \<and> v \<le> 0xffff \<or> code = 2"

lemma width_code_fits: "id_fits (width_code_for v) v"
  by (simp add: id_fits_def width_code_for_def)

lemma id_width_bytes: "length (id_bytes (width_code_for v) v) = id_width v"
  by (simp add: id_bytes_def id_width_def width_code_for_def width_of_def)

lemma write_channel_id_appends: "id_fits code v \<Longrightarrow> appends (write_channel_id code v ctx) (id_bytes code v)"
  by (auto simp: appends_def write_channel_id_def id_fits_def id_bytes_def width_of_def wr_simps)

lemma write_channel_id_refuses:
  "\<not> id_fits code v \<Longrightarrow> \<exists>why. write_channel_id code v ctx w = Inl (EncodeErr ctx why)"
  by (auto simp: write_channel_id_def id_fits_def width_of_def)

lemma ucast_narrow:
  "v \<le> 0xff \<Longrightarrow> ucast (ucast v :: u8) = v" "v \<le> 0xffff \<Longrightarrow> ucast (ucast v :: u16) = v" for v :: u32
proof -
  have "ucast (ucast v :: u8) = take_bit 8 v" "ucast (ucast v :: u16) = take_bit 16 v"
    by (rule bit_word_eqI, auto simp: bit_simps)+
  moreover have "v \<le> 0xff \<longleftrightarrow> v < 2 ^ 8" "v \<le> 0xffff \<longleftrightarrow> v < 2 ^ 16" by (auto simp: word_le_nat_alt word_less_nat_alt)
  ultimately show "v \<le> 0xff \<Longrightarrow> ucast (ucast v :: u8) = v" "v \<le> 0xffff \<Longrightarrow> ucast (ucast v :: u16) = v"
    by (simp_all add: take_bit_below)
qed

lemma ucast_wide:
  "ucast b \<le> (0xff :: u32)" "ucast h \<le> (0xffff :: u32)" "ucast (ucast b :: u32) = b" "ucast (ucast h :: u32) = h"
  for b :: u8 and h :: u16
proof -
  show "ucast b \<le> (0xff :: u32)" "ucast h \<le> (0xffff :: u32)"
    using unsigned_less [where 'a = nat, of b] unsigned_less [where 'a = nat, of h]
    by (simp_all add: word_le_nat_alt unsigned_ucast_eq take_bit_eq_mod)
qed (rule bit_word_eqI, auto simp: bit_simps)+

interpretation channel_id: exact_codec "read_channel_id code ctx" "id_bytes code" "id_fits code" for code ctx
proof
  show "extends r r'" if "reader_ok r" and "read_channel_id code ctx r = Inr (v, r')" for r r' v
    using that by (auto simp: read_channel_id_def width_of_def rmap_Inr intro: byte.safe le16.safe le32.safe split: if_splits)
  show "read_channel_id code ctx r = Inr (v, advance (length (id_bytes code v)) r)"
    if "reader_ok r" and "id_fits code v" and "left r = id_bytes code v @ post" for r v post
    using that byte.round [of r "ucast v" post ctx] le16.round [of r "ucast v" post ctx] le32.round [of r v post ctx]
    by (auto simp: read_channel_id_def width_of_def id_fits_def id_bytes_def rmap_step ucast_narrow)
  show "id_fits code v \<and> left r = id_bytes code v @ left r'"
    if "reader_ok r" and "read_channel_id code ctx r = Inr (v, r')" for r r' v
    using that byte.canon [OF that(1)] le16.canon [OF that(1)] le32.canon [OF that(1)]
    by (auto simp: read_channel_id_def width_of_def rmap_Inr id_fits_def id_bytes_def ucast_wide split: if_splits)
qed

subsection \<open>What is written\<close>

fun charge_bytes :: "(u16 \<times> u16 \<times> u16 \<times> u16) option \<Rightarrow> bytes" where
  "charge_bytes None = []"
| "charge_bytes (Some (a, b, c, d)) = to_le_bytes a @ to_le_bytes b @ to_le_bytes c @ to_le_bytes d"

fun dvc_body :: "dvc_pdu \<Rightarrow> bytes" where
  "dvc_body (Capabilities version charges) = 0 # to_le_bytes version @ charge_bytes charges"
| "dvc_body (CreateRequest i name) = id_bytes (width_code_for i) i @ ascii_bytes name @ [0]"
| "dvc_body (CreateResponse i status) = id_bytes (width_code_for i) i @ to_le_bytes status"
| "dvc_body (DataFirst i n data _) = id_bytes (width_code_for i) i @ id_bytes (width_code_for n) n @ data"
| "dvc_body (Data i data _) = id_bytes (width_code_for i) i @ data"
| "dvc_body (Close i) = id_bytes (width_code_for i) i"
| "dvc_body (SoftSyncRequest n f t chl) = 0 # to_le_bytes n @ to_le_bytes f @ to_le_bytes t @ chl"
| "dvc_body (SoftSyncResponse t tunnels) = 0 # to_le_bytes t @ tunnels"

definition dvc_bytes :: "dvc_pdu \<Rightarrow> bytes" where
  "dvc_bytes p = header_to_u8 (pdu_header p) # dvc_body p"

text \<open>The PDUs the encoder is for: every PDU but a name that is not plain ASCII or too long.\<close>

fun dvc_sendable :: "dvc_pdu \<Rightarrow> bool" where
  "dvc_sendable (CreateRequest i name) \<longleftrightarrow> ascii_chars name \<and> 0 \<notin> set name \<and> length name \<le> MAX_DVC_CHANNEL_NAME"
| "dvc_sendable _ \<longleftrightarrow> True"

lemma write_charges_bytes: "write_charges c w = wr_bytes (charge_bytes c) w"
  by (cases c rule: charge_bytes.cases) (simp_all add: write_charges_def wr_simps)

lemma write_channel_name_appends:
  "dvc_sendable (CreateRequest i name) \<Longrightarrow> appends (write_channel_name name) (ascii_bytes name @ [0])"
  by (simp add: appends_def write_channel_name_def text_len_ascii wr_simps)

lemmas write_id = appendsD [OF write_channel_id_appends [OF width_code_fits]]

lemma encode_dvc_appends: "dvc_sendable p \<Longrightarrow> appends (encode_dvc p) (dvc_bytes p)"
  by (cases p) (simp_all add: appends_def encode_dvc_def dvc_bytes_def pdu_header_def write_charges_bytes
      write_id appendsD [OF write_channel_name_appends] wr_simps)

lemma encode_dvc_refuses:
  "\<not> dvc_sendable p \<Longrightarrow> \<exists>why. encode_dvc p w = Inl (EncodeErr dvc_name why)"
  by (cases p) (auto simp: encode_dvc_def pdu_header_def write_id write_channel_name_def text_len_ascii)

lemma dvc_size_exact: "dvc_sendable p \<Longrightarrow> length (dvc_bytes p) = dvc_size p"
proof (cases p)
  case (Capabilities version charges)
  then show ?thesis by (cases charges rule: charge_bytes.cases) (simp_all add: dvc_bytes_def)
qed (simp_all add: dvc_bytes_def id_width_bytes text_len_ascii ascii_bytes_def)

subsection \<open>What is read\<close>

text \<open>
  What the wire can hold that the decoder can read back to the same PDU: a name without control
  characters, and no Create Response, which a client never receives.
\<close>

fun dvc_receivable :: "dvc_pdu \<Rightarrow> bool" where
  "dvc_receivable (CreateRequest i name) \<longleftrightarrow>
     ascii_chars name \<and> list_all (\<lambda>c. \<not> is_control c) name \<and> length name \<le> MAX_DVC_CHANNEL_NAME"
| "dvc_receivable (CreateResponse _ _) \<longleftrightarrow> False"
| "dvc_receivable _ \<longleftrightarrow> True"

lemma pdu_header_back: "header_from_u8 (header_to_u8 (pdu_header p)) = pdu_header p"
proof (rule header_unpack_pack)
  show "dh_cmd (pdu_header p) < 16" by (cases p) (simp_all add: pdu_header_def cmd_defs)
qed (simp_all add: pdu_header_def width_code_for_def split: dvc_pdu.split option.split)

lemma rd_payload_all: "reader_ok r \<Longrightarrow> left r = data \<Longrightarrow> \<exists>r'. rd_payload r = Inr (data, r') \<and> left r' = []"
  using length_left [of r] by (simp add: rd_payload_def rd_rest_left)

lemma position_end: "0 \<notin> set xs \<Longrightarrow> position (\<lambda>b. b = 0) (xs @ [0]) = Some (length xs)" for xs :: bytes
  by (induction xs) auto

lemma read_channel_name_round:
  assumes "reader_ok r" and "dvc_receivable (CreateRequest i name)" and "left r = ascii_bytes name @ [0]"
  shows "read_channel_name r = Inr (name, advance (remaining r) r)"
proof -
  have "0 \<notin> set (ascii_bytes name)"
  proof
    assume "0 \<in> set (ascii_bytes name)"
    then obtain c where "c \<in> set name" and c: "of_nat c = (0 :: u8)" by (auto simp: ascii_bytes_def)
    then have "\<not> is_control c" and "c < 0x80" using assms(2) by (auto simp: ascii_chars_def list_all_iff)
    moreover have "256 dvd c" using c by (simp add: word_of_nat_eq_0_iff)
    ultimately show False by (auto simp: is_control_def dest: dvd_imp_le)
  qed
  then show ?thesis
    using assms from_utf8_lossy_ascii [of name]
    by (simp add: read_channel_name_def rd_rest_left position_end ascii_bytes_def list_all_iff)
qed

lemma read_charges_round:
  assumes "reader_ok r" and "left r = charge_bytes charges"
  shows "read_charges r = Inr (charges, advance (remaining r) r)"
proof (cases charges rule: charge_bytes.cases)
  case 1
  then have "remaining r = 0" using arg_cong [OF assms(2), of length] by simp
  then show ?thesis using 1 by (simp add: read_charges_def)
next
  case (2 a b c d)
  then have l: "left r = to_le_bytes a @ to_le_bytes b @ to_le_bytes c @ to_le_bytes d" using assms(2) by simp
  have n: "remaining r = 8" using arg_cong [OF l, of length] by simp
  have "rd_u16 ctx r = Inr (a, advance 2 r)" "rd_u16 ctx (advance 2 r) = Inr (b, advance 4 r)"
    "rd_u16 ctx (advance 4 r) = Inr (c, advance 6 r)" "rd_u16 ctx (advance 6 r) = Inr (d, advance 8 r)" for ctx
    using assms(1) n le16.round [OF assms(1) _ l, of ctx] le16.round [of "advance 2 r" b "to_le_bytes c @ to_le_bytes d" ctx]
      le16.round [of "advance 4 r" c "to_le_bytes d" ctx] le16.round [of "advance 6 r" d "[]" ctx]
    by (simp_all add: l)
  then show ?thesis using n 2 by (simp add: read_charges_def rbind_step)
qed

text \<open>The fields behind the header byte, one at a time.\<close>

lemma id_round:
  assumes "reader_ok r" and "left r = id_bytes (width_code_for i) i @ post"
  shows "read_channel_id (width_code_for i) ctx r = Inr (i, advance (id_width i) r)"
    and "reader_ok (advance (id_width i) r)" and "left (advance (id_width i) r) = post"
  using channel_id.round [OF assms(1) width_code_fits assms(2), of ctx] assms left_length [OF assms(2)]
  by (simp_all add: id_width_bytes [symmetric])

lemma header_fields:
  "dh_cmd (pdu_header p) = pdu_cmd p"
  "dh_cb_id (pdu_header p) = (case pdu_channel_id p of None \<Rightarrow> 0 | Some i \<Rightarrow> width_code_for i)"
  "dh_sp (pdu_header (DataFirst i n data c)) = width_code_for n"
  by (simp_all add: pdu_header_def)

lemma decode_dvc_round:
  assumes "reader_ok r" and "dvc_receivable p" and "left r = dvc_bytes p"
  shows "\<exists>r'. decode_dvc r = Inr (p, r') \<and> left r' = []"
proof -
  have hd: "rd_u8 ctx r = Inr (header_to_u8 (pdu_header p), advance 1 r)" for ctx
    using assms by (intro rd_u8_cons) (simp_all add: dvc_bytes_def)
  have ok: "reader_ok (advance 1 r)" and l: "left (advance 1 r) = dvc_body p"
    using assms left_length [of r "[header_to_u8 (pdu_header p)]" "dvc_body p"] by (simp_all add: dvc_bytes_def)
  note dec = decode_dvc_def Let_def rbind_def rmap_def hd pdu_header_back header_fields cmd_defs
  show ?thesis
  proof (cases p)
    case (Capabilities version charges)
    then have l1: "left (advance 1 r) = 0 # to_le_bytes version @ charge_bytes charges" using l by simp
    note 1 = skip_one_round [OF ok l1]
    note 2 = u16_round [OF 1(2,3)]
    from read_charges_round [OF 2(2,3)] show ?thesis
      by (simp add: dec Capabilities 1(1) 2(1) del: advance_simps One_nat_def)
  next
    case (CreateRequest i name)
    then have l1: "left (advance 1 r) = id_bytes (width_code_for i) i @ ascii_bytes name @ [0]" using l by simp
    note 1 = id_round [OF ok l1]
    from read_channel_name_round [OF 1(2) _ 1(3)] assms(2) show ?thesis
      by (simp add: dec CreateRequest 1(1) del: advance_simps One_nat_def)
  next
    case (DataFirst i n data c)
    then have l1: "left (advance 1 r) = id_bytes (width_code_for i) i @ id_bytes (width_code_for n) n @ data" using l by simp
    note 1 = id_round [OF ok l1] and 2 = id_round [OF id_round(2,3) [OF ok l1]]
    from rd_payload_all [OF 2(2,3)] show ?thesis
      by (cases c) (auto simp: dec DataFirst 1(1) 2(1) simp del: advance_simps One_nat_def)
  next
    case (Data i data c)
    then have l1: "left (advance 1 r) = id_bytes (width_code_for i) i @ data" using l by simp
    note 1 = id_round [OF ok l1]
    from rd_payload_all [OF 1(2,3)] show ?thesis
      by (cases c) (auto simp: dec Data 1(1) simp del: advance_simps One_nat_def)
  next
    case (Close i)
    then have l1: "left (advance 1 r) = id_bytes (width_code_for i) i @ []" using l by simp
    from id_round [OF ok l1] show ?thesis
      by (simp add: dec Close id_round(1) [OF ok l1] del: advance_simps One_nat_def)
  next
    case (SoftSyncRequest n f t chl)
    then have l1: "left (advance 1 r) = 0 # to_le_bytes n @ to_le_bytes f @ to_le_bytes t @ chl" using l by simp
    note 1 = skip_one_round [OF ok l1]
    note 2 = u32_round [OF 1(2,3)]
    note 3 = u16_round [OF 2(2,3)]
    note 4 = u16_round [OF 3(2,3)]
    from rd_payload_all [OF 4(2,3)] show ?thesis
      by (auto simp: dec SoftSyncRequest 1(1) 2(1) 3(1)
          4(1) simp del: advance_simps One_nat_def)
  next
    case (SoftSyncResponse t tunnels)
    then have l1: "left (advance 1 r) = 0 # to_le_bytes t @ tunnels" using l by simp
    note 1 = skip_one_round [OF ok l1]
    note 2 = u16_round [OF 1(2,3)]
    from rd_payload_all [OF 2(2,3)] show ?thesis
      by (auto simp: dec SoftSyncResponse 1(1) 2(1) simp del: advance_simps One_nat_def)
  qed (use assms(2) in simp)
qed

subsection \<open>Every decoded PDU is well formed\<close>

fun dvc_wf :: "dvc_pdu \<Rightarrow> bool" where
  "dvc_wf (CreateRequest i name) \<longleftrightarrow>
     length name \<le> MAX_DVC_CHANNEL_NAME \<and> list_all (\<lambda>c. is_scalar c \<and> \<not> is_control c) name"
| "dvc_wf (CreateResponse _ _) \<longleftrightarrow> False"
| "dvc_wf _ \<longleftrightarrow> True"

lemma read_channel_name_wf:
  "read_channel_name r = Inr (name, r') \<Longrightarrow> dvc_wf (CreateRequest i name)"
proof -
  assume "read_channel_name r = Inr (name, r')"
  then obtain n where n: "n \<le> MAX_DVC_CHANNEL_NAME"
    and name: "name = filter (\<lambda>c. \<not> is_control c) (from_utf8_lossy (take n (fst (rd_rest r))))"
    by (simp add: read_channel_name_def Let_def case_prod_beta not_less split: option.splits if_splits)
  have "length name \<le> length (take n (fst (rd_rest r)))"
    unfolding name by (rule order_trans [OF length_filter_le length_from_utf8_lossy])
  then show ?thesis
    using n from_utf8_lossy_scalar [of "take n (fst (rd_rest r))"] by (auto simp: name list_all_iff)
qed

interpretation channel_name: decoder read_channel_name
  by unfold_locales (auto simp: read_channel_name_def rd_rest_left Let_def split: option.splits if_splits)

interpretation payload: decoder rd_payload
  by unfold_locales (auto simp: rd_payload_def rd_rest_left)

interpretation charges: decoder read_charges
proof -
  have "read_charges = (\<lambda>r. (\<lambda>n. if 8 \<le> n then
      rbind (rd_u16 ''PriorityCharge0'') (\<lambda>a. rbind (rd_u16 ''PriorityCharge1'') (\<lambda>b.
        rbind (rd_u16 ''PriorityCharge2'') (\<lambda>c. rbind (rd_u16 ''PriorityCharge3'') (\<lambda>d. rret (Some (a, b, c, d))))))
      else rret None) (remaining r) r)"
    by (simp add: fun_eq_iff read_charges_def)
  moreover have "decoder \<dots>"
    by (rule decoder_look [where g = remaining]) (intro decoder_intros le16.decoder_axioms)
  ultimately show "decoder read_charges" by simp
qed

interpretation dvc: decoder decode_dvc
  unfolding decode_dvc_def Let_def
  by (rule decoder_look [where g = offset]) (intro decoder_intros byte.decoder_axioms le16.decoder_axioms le32.decoder_axioms
      channel_id.decoder_axioms channel_name.decoder_axioms payload.decoder_axioms charges.decoder_axioms)

lemma decode_dvc_wf:
  assumes "decode_dvc r = Inr (p, r')"
  shows "dvc_wf p"
  using assms
  by (auto simp: decode_dvc_def Let_def rbind_Inr rmap_Inr simp del: dvc_wf.simps(1) split: if_splits
      intro: read_channel_name_wf)

section \<open>Reassembly\<close>

text \<open>
  The reassembler of dynamic channels (\<open>DvcReassembler\<close> of \<open>crates/rdp-pdu/src/vc/dvc.rs\<close>). There is no
  last flag: a message is complete when the bytes reach the length its first fragment declared.
  It is another instance of the locale \<open>assembler\<close>, and it refines an abstract reassembler that
  only knows what is still missing.
\<close>

definition MAX_DVC_PDU :: nat where "MAX_DVC_PDU = 4 * 1024 * 1024"
definition MAX_EGFX_PDU :: nat where "MAX_EGFX_PDU = 64 * 1024 * 1024"

record dvc_reassembler =
  dr_buf :: bytes
  dr_expected :: "nat option"
  dr_cap :: nat

definition dvc_with_cap :: "nat \<Rightarrow> dvc_reassembler" where
  "dvc_with_cap cap = \<lparr>dr_buf = [], dr_expected = None, dr_cap = min cap MAX_EGFX_PDU\<rparr>"

definition dvc_new :: dvc_reassembler where
  "dvc_new = dvc_with_cap MAX_DVC_PDU"

definition dvc_in_progress :: "dvc_reassembler \<Rightarrow> bool" where
  "dvc_in_progress s \<longleftrightarrow> dr_expected s \<noteq> None"

definition dvc_buffered :: "dvc_reassembler \<Rightarrow> nat" where
  "dvc_buffered s = length (dr_buf s)"

definition dvc_reset :: "dvc_reassembler \<Rightarrow> dvc_reassembler" where
  "dvc_reset s = s\<lparr>dr_buf := [], dr_expected := None\<rparr>"

definition dr_name :: string where
  "dr_name = ''DYNVC message reassembly''"

definition dvc_push :: "u32 option \<Rightarrow> bytes \<Rightarrow> dvc_reassembler \<Rightarrow> dvc_reassembler \<times> (pdu_error + bytes option)" where
  "dvc_push total_length data s =
     (case total_length of
        Some n \<Rightarrow>
          let declared = unat n in
          if dvc_in_progress s then
            (s, Inl (InvalidField dr_name ''DYNVC_DATA_FIRST while a message is in progress'' declared (length (dr_buf s))))
          else if dr_cap s < declared then (s, Inl (CapExceeded dr_name declared (dr_cap s) ''MAX_DVC_PDU'' 0))
          else if declared < length data then (s, Inl (LengthMismatch dr_name declared (length data) 0))
          else if length data = declared then (s, Inr (Some data))
          else (s\<lparr>dr_buf := data, dr_expected := Some declared\<rparr>, Inr None)
      | None \<Rightarrow>
          (case dr_expected s of
             None \<Rightarrow>
               (s, Inl (InvalidField dr_name ''DYNVC_DATA without a preceding DYNVC_DATA_FIRST'' (length data) 0))
           | Some expected \<Rightarrow>
               let t = min (length (dr_buf s) + length data) (2 ^ 64 - 1) in
               if expected < t then (s, Inl (LengthMismatch dr_name expected t (length (dr_buf s))))
               else
                 let s1 = s\<lparr>dr_buf := dr_buf s @ data\<rparr> in
                 if t < expected then (s1, Inr None)
                 else (s1\<lparr>dr_expected := None\<rparr>, Inr (Some (dr_buf s1)))))"

definition dvc_step :: "dvc_reassembler \<Rightarrow> u32 option \<times> bytes \<Rightarrow> dvc_reassembler \<times> (pdu_error + bytes option) list" where
  "dvc_step s f = (let (s', out) = dvc_push (fst f) (snd f) s in (s', [out]))"

subsection \<open>The reassembler is bounded\<close>

definition dvc_reassembler_ok :: "dvc_reassembler \<Rightarrow> bool" where
  "dvc_reassembler_ok s \<longleftrightarrow> length (dr_buf s) \<le> dr_cap s \<and> dr_cap s \<le> MAX_EGFX_PDU \<and>
     (case dr_expected s of None \<Rightarrow> True | Some e \<Rightarrow> length (dr_buf s) < e \<and> e \<le> dr_cap s)"

lemma dvc_with_cap_ok: "dvc_reassembler_ok (dvc_with_cap cap)"
  by (simp add: dvc_reassembler_ok_def dvc_with_cap_def)

lemma dvc_push_cap [simp]: "dr_cap (fst (dvc_push t d s)) = dr_cap s"
  by (simp add: dvc_push_def Let_def split: option.split)

lemma dvc_push_ok: "dvc_reassembler_ok s \<Longrightarrow> dvc_reassembler_ok (fst (dvc_push t d s))"
  by (auto simp: dvc_push_def Let_def dvc_reassembler_ok_def dvc_in_progress_def MAX_EGFX_PDU_def min_def
      split: option.splits if_splits)

lemma dvc_push_small:
  "dvc_reassembler_ok s \<Longrightarrow> snd (dvc_push t d s) = Inr (Some m) \<Longrightarrow> length m \<le> dr_cap s"
  by (auto simp: dvc_push_def Let_def dvc_reassembler_ok_def MAX_EGFX_PDU_def min_def split: if_splits option.splits)

interpretation dynamic: assembler dvc_step dvc_reassembler_ok dvc_buffered dr_cap
proof
  show "dvc_reassembler_ok (fst (dvc_step s f))" if "dvc_reassembler_ok s" for s f
    using dvc_push_ok [OF that] by (simp add: dvc_step_def case_prod_beta)
  show "dvc_buffered s \<le> dr_cap s" if "dvc_reassembler_ok s" for s
    using that by (simp add: dvc_reassembler_ok_def dvc_buffered_def)
  show "dr_cap (fst (dvc_step s f)) = dr_cap s" for s f
    by (simp add: dvc_step_def case_prod_beta)
  show "length m \<le> dr_cap s" if "dvc_reassembler_ok s" and "Inr (Some m) \<in> set (snd (dvc_step s f))" for s f m
    using that dvc_push_small [of s "fst f" "snd f" m] by (auto simp: dvc_step_def case_prod_beta)
qed

end
