(* ===== verification/Pdu_Properties.thy ===== *)
theory Pdu_Properties
  imports Send_Data Dvc
begin

text \<open>
  The properties of the PDUs under a session of \<open>crates/rdp-pdu\<close>: dynamic channel PDUs
  (\<open>vc/dvc.rs\<close>), the TPKT and X.224 frames (\<open>x224.rs\<close>), the MCS domain PDUs (\<open>mcs/domain.rs\<close>), and of
  the stack of them that carries a channel PDU (\<open>channels/mod.rs\<close> of \<open>crates/rdp-core\<close>).
\<close>

subsection \<open>Dynamic channel PDUs\<close>

text \<open>
  C16. A dynamic channel PDU is refused by the encoder exactly when it holds a name that is not
  plain ASCII or is too long. Otherwise it is encoded in the announced size, and every PDU a
  client can receive (a Create Request with a clean name, any other PDU but the Create Response
  that only clients send) is decoded back from those bytes, to the last one.
\<close>

theorem dvc_roundtrip:
  assumes "dvc_size p < 2 ^ 63"
  shows "case try_written (encode_dvc p) of
      Inl e \<Rightarrow> \<not> dvc_sendable p
    | Inr bs \<Rightarrow> dvc_sendable p \<and> length bs = dvc_size p \<and>
        (\<not> dvc_receivable p \<or> (\<exists>r'. decode_dvc (reader_new bs) = Inr (p, r') \<and> left r' = []))"
proof (cases "dvc_sendable p")
  case True
  then have "length (dvc_bytes p) = dvc_size p" by (rule dvc_size_exact)
  then show ?thesis
    using assms True decode_dvc_round [of "reader_new (dvc_bytes p)" p]
    by (auto simp: try_written_appends [OF encode_dvc_appends])
next
  case False
  then obtain why where "encode_dvc p (writer_new []) = Inl (EncodeErr dvc_name why)" using encode_dvc_refuses by blast
  then show ?thesis using False by (simp add: try_written_def)
qed

theorem dvc_roundtrip_witness:
  "\<exists>bs r'. try_written (encode_dvc (DataFirst 300 70000 [1, 2, 3] False)) = Inr bs \<and> length bs = 10 \<and>
     decode_dvc (reader_new bs) = Inr (DataFirst 300 70000 [1, 2, 3] False, r')"
proof -
  let ?p = "DataFirst 300 70000 [1, 2, 3] False"
  have "dvc_size ?p = 10" by (simp add: id_width_def width_code_for_def width_of_def)
  then show ?thesis using dvc_roundtrip [of ?p] by (auto simp del: dvc_size.simps split: sum.splits)
qed

text \<open>
  C17. Whatever bytes the server sends, a dynamic channel PDU that is accepted is well formed: a
  channel name has at most the bounded number of characters, each a Unicode scalar value and none
  a control character, and no Create Response comes out of the decoder.
\<close>

theorem dvc_decoded_wf:
  "case decode_dvc r of Inl e \<Rightarrow> True | Inr (p, r') \<Rightarrow> dvc_wf p"
  by (auto split: sum.split intro: decode_dvc_wf)

subsection \<open>The X.224 connection request\<close>

text \<open>
  Every X.224 Connection Request with a well formed cookie, whose negotiation flags agree with
  the correlation block, is encoded in exactly the announced size and decoded from it to the same
  request, whatever follows on the stream.
\<close>

theorem x224_request_roundtrip:
  assumes "request_ok c" and "request_size c + length rest < 2 ^ 63"
  shows "\<exists>bs r'. try_written (encode_request c) = Inr bs \<and> length bs = request_size c \<and>
    decode_request (reader_new (bs @ rest)) = Inr (c, r') \<and> left r' = rest"
proof -
  let ?bs = "tpkt_bytes (of_nat (length (request_body c)) # request_body c)"
  have sent: "request_sent c" using assms(1) by (rule request_ok_sent)
  have size: "length ?bs = request_size c" by (rule request_size_exact [OF sent])
  have "reader_ok (reader_new (?bs @ rest))" using assms(2) size by simp
  from decode_request_round [OF this assms(1), of rest] size show ?thesis
    by (intro exI [of _ ?bs]) (simp add: try_written_appends [OF encode_request_appends [OF sent]])
qed

definition sample_request :: connection_request where
  "sample_request = \<lparr>cr_cookie = Some (MstsHash [0x65, 0x6c, 0x74, 0x6f]), cr_nego = Some \<lparr>nr_flags = 0, nr_protocols = 3\<rparr>,
     cr_correlation = None\<rparr>"

lemma sample_request:
  "request_ok sample_request" "request_size sample_request = 42"
  by (simp_all add: request_ok_def sample_request_def ascii_chars_def MAX_MSTSHASH_LEN_def ascii_bytes_def
      TPDU_FIXED_LEN_def variable_len_def NEG_BLOCK_LEN_def request_size_def TPKT_HEADER_LEN_def text_len_ascii
      HASH_PREFIX_def CRLF_def str_bytes_def)

theorem x224_request_roundtrip_witness:
  "\<exists>bs r'. try_written (encode_request sample_request) = Inr bs \<and> length bs = 42 \<and>
     decode_request (reader_new (bs @ [1, 2])) = Inr (sample_request, r') \<and> left r' = [1, 2]"
  using x224_request_roundtrip [of sample_request "[1, 2]"] by (simp add: sample_request)

subsection \<open>The MCS domain PDUs\<close>

text \<open>
  C18. An MCS domain PDU is refused by the encoder exactly when a field is out of its range (a
  result of 16 or more, a user id below 1001, a payload over 16383 bytes, an unknown reason);
  otherwise it is encoded in exactly the announced size and decoded back to the same PDU.
\<close>

theorem mcs_roundtrip:
  "case try_written (encode_mcs p) of
     Inl e \<Rightarrow> \<not> mcs_ok p \<and> (\<exists>why. e = EncodeErr mcs_name why)
   | Inr bs \<Rightarrow> mcs_ok p \<and> length bs = mcs_size p \<and> (\<exists>r'. decode_mcs (reader_new bs) = Inr (p, r') \<and> left r' = [])"
proof (cases "mcs_ok p")
  case True
  let ?r = "reader_new (mcs_bytes p)"
  have "reader_ok ?r" using mcs_short [OF True] by simp
  from mcs.round [OF this True, of "[]"]
  have "decode_mcs ?r = Inr (p, advance (length (mcs_bytes p)) ?r)" by simp
  then show ?thesis
    using True by (simp add: try_written_appends [OF encode_mcs_appends] mcs_size_exact)
next
  case False
  obtain why where "encode_mcs p (writer_new []) = Inl (EncodeErr mcs_name why)" using encode_mcs_refuses [OF False] by blast
  then show ?thesis using False by (simp add: try_written_def del: encode_mcs.simps mcs_ok.simps)
qed

subsection \<open>A channel PDU through every layer\<close>

definition unwrap_all :: "bytes list \<Rightarrow> (u16 \<times> channel_chunk) option list" where
  "unwrap_all frames = map (\<lambda>f. case unwrap_frame f of Inl _ \<Rightarrow> None | Inr x \<Rightarrow> Some x) frames"

text \<open>
  A channel PDU goes out whole: the frames queued for it (chunk, MCS Send Data, X.224 Data,
  TPKT) all open to the channel it was sent on, the chunks inside carry the flags the caller
  asked for, and without extra flags a reassembler on the other side puts them together to the
  same bytes, exactly at the last frame.
\<close>

theorem channel_pdu_carried:
  assumes "is_user_id user" and "length payload \<le> MAX_VC_REASSEMBLED"
  shows "\<exists>frames ks s'. encode_channel_pdu_with user channel payload extra out = (out @ frames, Inr ()) \<and>
      unwrap_all frames = map (\<lambda>k. Some (channel, set_flags extra k)) ks \<and>
      run_steps push_step (with_cap MAX_VC_REASSEMBLED) ks = (s', delivered (length ks) payload)"
proof -
  let ?ks = "chunks_of payload"
  have "rs_expected (with_cap MAX_VC_REASSEMBLED) = None" "length payload \<le> rs_cap (with_cap MAX_VC_REASSEMBLED)"
    using assms(2) by (simp_all add: with_cap_def)
  from chunks_put_together [OF assms(2) this] obtain s'
    where run: "run_steps push_step (with_cap MAX_VC_REASSEMBLED) ?ks = (s', delivered (length ?ks) payload)" .
  have "unwrap_all (map (frame_of_chunk user channel extra) ?ks) = map (\<lambda>k. Some (channel, set_flags extra k)) ?ks"
    by (simp add: unwrap_all_def channel_pdu_unwraps [OF assms(1)])
  with run show ?thesis using channel_pdu_frames [OF assms(1)] by blast
qed

theorem channel_pdu_carried_witness:
  "\<exists>frames. encode_channel_pdu_with 1007 1004 [1, 2, 3] 0 [] = (frames, Inr ())"
proof -
  have "is_user_id 1007" "length [1, 2, 3 :: u8] \<le> MAX_VC_REASSEMBLED"
    by (simp_all add: is_user_id_def MAX_VC_REASSEMBLED_def)
  from channel_pdu_carried [OF this] show ?thesis by blast
qed

end
