(* ===== verification/Display_Control.thy ===== *)
theory Display_Control
  imports Channel_Base Wire
begin

text \<open>
  The display control channel (\<open>crates/rdp-core/src/channels/display.rs\<close>): the server's capabilities
  and its pixel budget, the layout a window size is turned into, the encoding of a layout, and the
  state that debounces resizes. A clock reading is a natural number of nanoseconds; each operation
  reads the clock once.
\<close>

unbundle bit_operations_syntax

subsection \<open>Constants\<close>

definition DC_HEADER_LEN :: u32 where "DC_HEADER_LEN = 8"
definition PDU_TYPE_MONITOR_LAYOUT :: u32 where "PDU_TYPE_MONITOR_LAYOUT = 0x00000002"
definition PDU_TYPE_CAPS :: u32 where "PDU_TYPE_CAPS = 0x00000005"
definition MONITOR_LAYOUT_SIZE :: u32 where "MONITOR_LAYOUT_SIZE = 40"
definition MONITOR_PRIMARY :: u32 where "MONITOR_PRIMARY = 0x00000001"
definition MAX_MONITORS :: u32 where "MAX_MONITORS = 16"
definition MIN_EDGE :: u32 where "MIN_EDGE = 200"
definition MAX_EDGE :: u32 where "MAX_EDGE = 8192"
definition WIDTH_ALIGN :: u32 where "WIDTH_ALIGN = 8"
definition RESIZE_DEBOUNCE :: nat where "RESIZE_DEBOUNCE = 250 * 1000000"
definition MIN_DESKTOP_SCALE :: u32 where "MIN_DESKTOP_SCALE = 100"
definition MAX_DESKTOP_SCALE :: u32 where "MAX_DESKTOP_SCALE = 500"
definition DEVICE_SCALES :: "u32 list" where "DEVICE_SCALES = [100, 140, 180]"

lemmas display_consts = DC_HEADER_LEN_def PDU_TYPE_MONITOR_LAYOUT_def PDU_TYPE_CAPS_def MONITOR_LAYOUT_SIZE_def
  MONITOR_PRIMARY_def MAX_MONITORS_def MIN_EDGE_def MAX_EDGE_def WIDTH_ALIGN_def RESIZE_DEBOUNCE_def
  MIN_DESKTOP_SCALE_def MAX_DESKTOP_SCALE_def DEVICE_SCALES_def

definition DC_HEADER_NAME :: string where "DC_HEADER_NAME = ''DISPLAYCONTROL_HEADER''"
definition DC_CAPS_NAME :: string where "DC_CAPS_NAME = ''DISPLAYCONTROL_CAPS_PDU''"
definition DC_LAYOUT_NAME :: string where "DC_LAYOUT_NAME = ''DISPLAYCONTROL_MONITOR_LAYOUT_PDU''"

subsection \<open>Capabilities and layouts\<close>

record display_caps =
  max_monitors :: u32
  area_factor_a :: u32
  area_factor_b :: u32

definition pixel_budget :: "display_caps \<Rightarrow> u64" where
  "pixel_budget c = ucast (max_monitors c) * ucast (area_factor_a c) * ucast (area_factor_b c)"

definition accepts_nothing :: "display_caps \<Rightarrow> bool" where
  "accepts_nothing c \<longleftrightarrow> max_monitors c = 0 \<or> area_factor_a c = 0 \<or> area_factor_b c = 0"

record monitor_layout =
  ml_flags :: u32
  ml_left :: u32
  ml_top :: u32
  ml_width :: u32
  ml_height :: u32
  ml_desktop_scale :: u32
  ml_device_scale :: u32

definition abs_diff :: "u32 \<Rightarrow> u32 \<Rightarrow> u32" where
  "abs_diff a b = (if a < b then b - a else a - b)"

definition clamp :: "u32 \<Rightarrow> u32 \<Rightarrow> u32 \<Rightarrow> u32" where
  "clamp lo hi x = (if x < lo then lo else if hi < x then hi else x)"

definition nearer :: "u32 \<Rightarrow> u32 \<Rightarrow> u32 \<times> u32 \<Rightarrow> u32 \<times> u32" where
  "nearer percent candidate b =
     (let gap = abs_diff candidate percent in if gap < snd b then (candidate, gap) else b)"

definition device_scale_for :: "u32 \<Rightarrow> u32" where
  "device_scale_for percent = fst (fold (nearer percent) DEVICE_SCALES (hd DEVICE_SCALES, - 1))"

definition primary :: "u32 \<Rightarrow> u32 \<Rightarrow> u32 \<Rightarrow> monitor_layout option" where
  "primary width0 height scale_percent =
     (let width = (width0 div WIDTH_ALIGN) * WIDTH_ALIGN in
      if width < MIN_EDGE \<or> height < MIN_EDGE then None
      else Some \<lparr>ml_flags = MONITOR_PRIMARY, ml_left = 0, ml_top = 0,
                 ml_width = min width MAX_EDGE, ml_height = min height MAX_EDGE,
                 ml_desktop_scale = clamp MIN_DESKTOP_SCALE MAX_DESKTOP_SCALE scale_percent,
                 ml_device_scale = device_scale_for scale_percent\<rparr>)"

definition layout_area :: "monitor_layout \<Rightarrow> u64" where
  "layout_area m = ucast (ml_width m) * ucast (ml_height m)"

subsection \<open>Encoding\<close>

definition write_monitor :: "monitor_layout \<Rightarrow> wr" where
  "write_monitor m w =
     wr_u32 (ml_device_scale m) (wr_u32 (ml_desktop_scale m) (wr_u32 0 (wr_u32 0 (wr_u32 0
       (wr_u32 (ml_height m) (wr_u32 (ml_width m) (wr_u32 (ml_top m) (wr_u32 (ml_left m)
         (wr_u32 (ml_flags m) w)))))))))"

definition encode_layout :: "monitor_layout list \<Rightarrow> bytes \<Rightarrow> rdp_error + bytes" where
  "encode_layout ms buf =
     (let count = of_nat (min (length ms) (2 ^ 32 - 1)) :: u32 in
      if count = 0 \<or> MAX_MONITORS < count
        then Inl (RdpPdu DC_LAYOUT_NAME (Said ''NumMonitors is {count}, and 1 to 16 is the range'' [unat count]))
      else if length (filter (\<lambda>m. ml_flags m AND MONITOR_PRIMARY \<noteq> 0) ms) \<noteq> 1
        then Inl (RdpPdu DC_LAYOUT_NAME (Said ''exactly one monitor carries DISPLAYCONTROL_MONITOR_PRIMARY'' []))
      else
        let len = DC_HEADER_LEN + 8 + count * MONITOR_LAYOUT_SIZE;
            w = wr_u32 count (wr_u32 MONITOR_LAYOUT_SIZE (wr_u32 len (wr_u32 PDU_TYPE_MONITOR_LAYOUT
                  (writer_new buf))))
        in Inr (wr_out (fold write_monitor ms w)))"

subsection \<open>The channel's state\<close>

record display_control =
  ds_caps :: "display_caps option"
  ds_last_sent :: "monitor_layout option"
  ds_pending :: "(u32 \<times> u32 \<times> u32) option"
  ds_last_sent_at :: "nat option"

definition display_new :: display_control where
  "display_new = \<lparr>ds_caps = None, ds_last_sent = None, ds_pending = None, ds_last_sent_at = None\<rparr>"

text \<open>\<open>last_sent_at.is_some_and(|at| at.elapsed() < RESIZE_DEBOUNCE)\<close>\<close>

definition too_soon :: "nat \<Rightarrow> display_control \<Rightarrow> bool" where
  "too_soon now d = (case ds_last_sent_at d of None \<Rightarrow> False | Some at \<Rightarrow> now - at < RESIZE_DEBOUNCE)"

text \<open>An operation works on the channel and the reply buffers it is lent.\<close>

type_synonym 'a display_op = "(display_control \<times> reply_buf, 'a) op"

definition display_emit :: "(bytes \<Rightarrow> rdp_error + bytes) \<Rightarrow> unit display_op" where
  "display_emit f s = (let (rb, res) = emit f (snd s) in ((fst s, rb), res))"

definition display_set :: "(display_control \<Rightarrow> display_control) \<Rightarrow> unit display_op" where
  "display_set g = st_set (\<lambda>(d, rb). (g d, rb))"

definition display_resize :: "nat \<Rightarrow> u32 \<Rightarrow> u32 \<Rightarrow> u32 \<Rightarrow> unit display_op" where
  "display_resize now width height scale s =
     (let d = fst s in
      case ds_caps d of
        None \<Rightarrow> display_set (\<lambda>d. d\<lparr>ds_pending := Some (width, height, scale)\<rparr>) s
      | Some caps \<Rightarrow>
          if accepts_nothing caps then st_ok () s
          else
            (case primary width height scale of
               None \<Rightarrow> st_ok () s
             | Some layout \<Rightarrow>
                 if too_soon now d
                   then display_set (\<lambda>d. d\<lparr>ds_pending := Some (width, height, scale)\<rparr>) s
                 else if ds_last_sent d = Some layout then st_ok () s
                 else if max_monitors caps < 1 \<or> MAX_MONITORS < 1 then st_ok () s
                 else if pixel_budget caps < layout_area layout then st_ok () s
                 else st_bind (display_emit (encode_layout [layout])) (\<lambda>_.
                        display_set (\<lambda>d. d\<lparr>ds_last_sent := Some layout, ds_last_sent_at := Some now\<rparr>)) s))"

definition flush_pending :: "nat \<Rightarrow> unit display_op" where
  "flush_pending now s =
     (case ds_pending (fst s) of
        None \<Rightarrow> st_ok () s
      | Some (width, height, scale) \<Rightarrow>
          if too_soon now (fst s) then st_ok () s
          else st_bind (display_set (\<lambda>d. d\<lparr>ds_pending := None\<rparr>)) (\<lambda>_. display_resize now width height scale) s)"

definition read_caps :: "display_caps rd" where
  "read_caps =
     rbind (rd_u32 DC_CAPS_NAME) (\<lambda>m. rbind (rd_u32 DC_CAPS_NAME) (\<lambda>a. rbind (rd_u32 DC_CAPS_NAME) (\<lambda>b.
       rret \<lparr>max_monitors = m, area_factor_a = a, area_factor_b = b\<rparr>)))"

definition display_message :: "nat \<Rightarrow> bytes \<Rightarrow> unit display_op" where
  "display_message now msg s =
     (case rbind (rd_u32 DC_HEADER_NAME) (\<lambda>t. rbind (rd_u32 DC_HEADER_NAME) (\<lambda>n. rret (t, n))) (reader_new msg) of
        Inl e \<Rightarrow> (s, Inl (from_pdu e))
      | Inr ((pdu_type, n), r) \<Rightarrow>
          if n < DC_HEADER_LEN \<or> length msg < unat n
            then (s, Inl (RdpPdu DC_HEADER_NAME (Said ''Length is {length} for a {len} byte message'' [unat n, length msg])))
          else if pdu_type = PDU_TYPE_CAPS then
            (case read_caps r of
               Inl e \<Rightarrow> (s, Inl (from_pdu e))
             | Inr (caps, _) \<Rightarrow>
                 st_bind (display_set (\<lambda>d. d\<lparr>ds_caps := Some caps\<rparr>)) (\<lambda>_ s.
                   case ds_pending (fst s) of
                     None \<Rightarrow> st_ok () s
                   | Some (width, height, scale) \<Rightarrow>
                       st_bind (display_set (\<lambda>d. d\<lparr>ds_pending := None\<rparr>)) (\<lambda>_. display_resize now width height scale) s) s)
          else (s, Inr ()))"

text \<open>One operation, with the clock it reads, and the buffers it queues.\<close>

datatype display_event = Resize nat u32 u32 u32 | Tick nat | Incoming nat bytes

fun event_time :: "display_event \<Rightarrow> nat" where
  "event_time (Resize now _ _ _) = now"
| "event_time (Tick now) = now"
| "event_time (Incoming now _) = now"

fun display_op_of :: "display_event \<Rightarrow> unit display_op" where
  "display_op_of (Resize now w h s) = display_resize now w h s"
| "display_op_of (Tick now) = flush_pending now"
| "display_op_of (Incoming now msg) = display_message now msg"

definition display_step :: "display_control \<Rightarrow> display_event \<Rightarrow> display_control \<times> (nat \<times> bytes) list" where
  "display_step d e =
     (let ((d', rb), _) = display_op_of e (d, reply_new)
      in (d', map (\<lambda>b. (event_time e, b)) (rb_ready rb)))"

subsection \<open>A layout is legal\<close>

definition legal_layout :: "monitor_layout \<Rightarrow> bool" where
  "legal_layout l \<longleftrightarrow> ml_flags l = MONITOR_PRIMARY \<and> ml_left l = 0 \<and> ml_top l = 0 \<and>
     8 dvd unat (ml_width l) \<and> unat (ml_width l) \<in> {200..8192} \<and> unat (ml_height l) \<in> {200..8192} \<and>
     unat (ml_desktop_scale l) \<in> {100..500} \<and> ml_device_scale l \<in> {100, 140, 180}"

lemma device_scale_legal: "device_scale_for p \<in> {100, 140, 180}"
  by (auto simp: device_scale_for_def DEVICE_SCALES_def nearer_def Let_def)

lemma clamp_between: "lo \<le> hi \<Longrightarrow> lo \<le> clamp lo hi x \<and> clamp lo hi x \<le> hi"
  by (simp add: clamp_def not_less)

lemma primary_legal:
  assumes "primary w h s = Some l"
  shows "legal_layout l"
proof -
  let ?w = "w div 8 * 8"
  have 8: "unat ?w = 8 * (unat w div 8)"
    using unsigned_less [where 'a = nat, of w] by (simp add: unat_word_ariths unat_div)
  have m: "unat (min a b) = min (unat a) (unat b)" for a b :: u32 by (simp add: min_def word_le_nat_alt)
  have big: "\<not> ?w < 200" "\<not> h < 200" and
    l: "l = \<lparr>ml_flags = MONITOR_PRIMARY, ml_left = 0, ml_top = 0, ml_width = min ?w 8192, ml_height = min h 8192,
      ml_desktop_scale = clamp 100 500 s, ml_device_scale = device_scale_for s\<rparr>"
    using assms by (simp_all add: primary_def Let_def WIDTH_ALIGN_def MIN_EDGE_def MAX_EDGE_def
        MIN_DESKTOP_SCALE_def MAX_DESKTOP_SCALE_def split: if_splits)
  have "200 \<le> unat ?w" "200 \<le> unat h" using big by (simp_all add: word_less_nat_alt del: unat_div)
  moreover have "8 dvd min (unat ?w) 8192" unfolding 8 min_def by auto
  moreover have "100 \<le> unat (clamp 100 500 s) \<and> unat (clamp 100 500 s) \<le> 500"
    using clamp_between [of 100 500 s] by (simp add: word_le_nat_alt)
  ultimately show ?thesis
    using device_scale_legal [of s] unfolding l legal_layout_def by (simp add: m)
qed

definition layout_bytes :: "monitor_layout \<Rightarrow> bytes" where
  "layout_bytes l = to_le_bytes PDU_TYPE_MONITOR_LAYOUT @ to_le_bytes (56 :: u32) @ to_le_bytes MONITOR_LAYOUT_SIZE @
     to_le_bytes (1 :: u32) @ to_le_bytes (ml_flags l) @ to_le_bytes (ml_left l) @ to_le_bytes (ml_top l) @
     to_le_bytes (ml_width l) @ to_le_bytes (ml_height l) @ to_le_bytes (0 :: u32) @ to_le_bytes (0 :: u32) @
     to_le_bytes (0 :: u32) @ to_le_bytes (ml_desktop_scale l) @ to_le_bytes (ml_device_scale l)"

lemma encode_one: "ml_flags l = MONITOR_PRIMARY \<Longrightarrow> encode_layout [l] [] = Inr (layout_bytes l)"
  by (simp add: encode_layout_def display_consts write_monitor_def layout_bytes_def wr_simps writer_new_def Let_def)

lemma to_le_bytes_inj: "8 dvd LENGTH('a) \<Longrightarrow> to_le_bytes v = to_le_bytes u \<longleftrightarrow> v = u" for v u :: "'a::len word"
  using from_to_le_bytes by metis

lemma layout_bytes_inj: "legal_layout l \<Longrightarrow> legal_layout k \<Longrightarrow> layout_bytes l = layout_bytes k \<Longrightarrow> l = k"
  by (auto simp: layout_bytes_def legal_layout_def to_le_bytes_inj intro: monitor_layout.equality)

subsection \<open>What one operation sends\<close>

text \<open>
  Nothing, with the record of the last layout untouched; or one layout, which is legal, inside the
  budget, late enough after the last one and different from it, and is then the last one.
\<close>

definition sends_nothing :: "display_control \<Rightarrow> display_control \<Rightarrow> bytes list \<Rightarrow> bool" where
  "sends_nothing d d' out \<longleftrightarrow> out = [] \<and> ds_last_sent d' = ds_last_sent d \<and> ds_last_sent_at d' = ds_last_sent_at d"

definition sends_layout :: "nat \<Rightarrow> display_control \<Rightarrow> display_control \<Rightarrow> bytes list \<Rightarrow> bool" where
  "sends_layout now d d' out \<longleftrightarrow>
     (\<exists>l c. out = [layout_bytes l] \<and> legal_layout l \<and> ds_caps d' = Some c \<and> layout_area l \<le> pixel_budget c \<and>
        \<not> too_soon now d \<and> ds_last_sent d \<noteq> Some l \<and> ds_last_sent d' = Some l \<and> ds_last_sent_at d' = Some now)"

lemma display_emit_layout:
  "primary w h s = Some l \<Longrightarrow> display_emit (encode_layout [l]) (d, rb) =
    ((d, rb\<lparr>rb_ready := rb_ready rb @ [layout_bytes l], rb_spare := rb_spare rb - 1\<rparr>), Inr ())"
  using primary_legal [of w h s l] by (simp add: display_emit_def emit_def legal_layout_def encode_one)

lemma display_resize_sends:
  assumes "display_resize now w h s (d, rb) = ((d', rb'), res)"
  shows "\<exists>out. rb_ready rb' = rb_ready rb @ out \<and> (sends_nothing d d' out \<or> sends_layout now d d' out) \<and> res = Inr ()"
proof (cases "ds_caps d")
  case None
  then show ?thesis using assms by (auto simp: display_resize_def display_set_def sends_nothing_def)
next
  case (Some c)
  show ?thesis
  proof (cases "primary w h s")
    case None
    then show ?thesis using assms Some by (auto simp: display_resize_def sends_nothing_def split: if_splits)
  next
    case l: (Some l)
    then show ?thesis
      using assms Some primary_legal [OF l]
      by (auto simp: display_resize_def display_set_def sends_nothing_def sends_layout_def st_bind_def Let_def not_less
          display_emit_layout [OF l] split: if_splits)
  qed
qed

lemma sends_later:
  assumes "ds_last_sent d1 = ds_last_sent d" and "ds_last_sent_at d1 = ds_last_sent_at d"
  shows "sends_nothing d1 d' out \<longleftrightarrow> sends_nothing d d' out" and "sends_layout now d1 d' out \<longleftrightarrow> sends_layout now d d' out"
  using assms by (simp_all add: sends_nothing_def sends_layout_def too_soon_def)

lemma display_op_sends:
  assumes "display_op_of e (d, rb) = ((d', rb'), res)"
  shows "\<exists>out. rb_ready rb' = rb_ready rb @ out \<and> (sends_nothing d d' out \<or> sends_layout (event_time e) d d' out)"
proof -
  have resized: ?thesis
    if "display_resize (event_time e) w h s (d1, rb) = ((d', rb'), res)" and "ds_last_sent d1 = ds_last_sent d"
      and "ds_last_sent_at d1 = ds_last_sent_at d" for w h s d1
    using display_resize_sends [OF that(1)] sends_later [OF that(2,3)] by blast
  have same: ?thesis if "ds_last_sent d' = ds_last_sent d" "ds_last_sent_at d' = ds_last_sent_at d" "rb' = rb"
    using that by (auto simp: sends_nothing_def)
  have "(ds_last_sent d' = ds_last_sent d \<and> ds_last_sent_at d' = ds_last_sent_at d \<and> rb' = rb) \<or>
      (\<exists>w h s d1. display_resize (event_time e) w h s (d1, rb) = ((d', rb'), res) \<and>
        ds_last_sent d1 = ds_last_sent d \<and> ds_last_sent_at d1 = ds_last_sent_at d)"
  proof (cases e)
    case (Resize now w h s)
    then show ?thesis using assms by auto
  next
    case (Tick now)
    show ?thesis
    proof (cases "ds_pending d = None \<or> too_soon now d")
      case True
      then show ?thesis using assms Tick by (auto simp: flush_pending_def split: option.splits)
    next
      case False
      then obtain w h s where "ds_pending d = Some (w, h, s)" by auto
      then have "display_resize now w h s (d\<lparr>ds_pending := None\<rparr>, rb) = ((d', rb'), res)"
        using assms Tick False by (simp add: flush_pending_def display_set_def st_bind_def)
      then show ?thesis using Tick by (intro disjI2 exI [of _ w] exI [of _ h] exI [of _ s]) force
    qed
  next
    case (Incoming now msg)
    show ?thesis
    proof (cases "\<exists>w h s c. display_resize now w h s (d\<lparr>ds_caps := c, ds_pending := None\<rparr>, rb) = ((d', rb'), res)")
      case True
      then obtain w h s c
        where "display_resize now w h s (d\<lparr>ds_caps := c, ds_pending := None\<rparr>, rb) = ((d', rb'), res)" by blast
      then show ?thesis
        using Incoming by (intro disjI2 exI [of _ w] exI [of _ h] exI [of _ s]) force
    next
      case False
      then show ?thesis
        using assms Incoming
        by (auto simp: display_message_def display_set_def st_bind_def split: option.splits if_splits sum.splits)
    qed
  qed
  then show ?thesis using resized same by blast
qed

lemma display_step_sends:
  assumes "display_step d e = (d', out)"
  obtains "out = []" "ds_last_sent d' = ds_last_sent d" "ds_last_sent_at d' = ds_last_sent_at d"
  | l c where "out = [(event_time e, layout_bytes l)]" "legal_layout l" "ds_caps d' = Some c"
      "layout_area l \<le> pixel_budget c" "\<not> too_soon (event_time e) d" "ds_last_sent d \<noteq> Some l"
      "ds_last_sent d' = Some l" "ds_last_sent_at d' = Some (event_time e)"
proof -
  obtain rb' res where op: "display_op_of e (d, reply_new) = ((d', rb'), res)"
    and out: "out = map (\<lambda>b. (event_time e, b)) (rb_ready rb')"
    using assms by (auto simp: display_step_def Let_def split: prod.splits)
  show thesis
    using display_op_sends [OF op] that out
    by (auto simp: reply_new_def sends_nothing_def sends_layout_def)
qed

subsection \<open>A run of operations\<close>

definition display_run :: "display_control \<Rightarrow> display_event list \<Rightarrow> display_control \<times> (nat \<times> bytes) list" where
  "display_run = run_steps display_step"

text \<open>The state remembers the last layout that went out, and when.\<close>

definition remembers :: "display_control \<Rightarrow> (nat \<times> bytes) list \<Rightarrow> bool" where
  "remembers d out \<longleftrightarrow>
     (if out = [] then ds_last_sent d = None \<and> ds_last_sent_at d = None
      else \<exists>l. legal_layout l \<and> last out = (the (ds_last_sent_at d), layout_bytes l) \<and>
             ds_last_sent d = Some l \<and> ds_last_sent_at d \<noteq> None)"

fun spaced :: "(nat \<times> bytes) list \<Rightarrow> bool" where
  "spaced ((t, b) # (u, c) # out) \<longleftrightarrow> RESIZE_DEBOUNCE \<le> u - t \<and> b \<noteq> c \<and> spaced ((u, c) # out)"
| "spaced _ \<longleftrightarrow> True"

lemma spaced_snoc: "out \<noteq> [] \<Longrightarrow> spaced (out @ [(u, c)]) \<longleftrightarrow>
    spaced out \<and> RESIZE_DEBOUNCE \<le> u - fst (last out) \<and> snd (last out) \<noteq> c"
  by (induction out rule: spaced.induct) auto

lemma run_spaced:
  assumes "remembers d out" and "spaced out" and "display_run d es = (d', out')"
  shows "remembers d' (out @ out') \<and> spaced (out @ out')"
  using assms
proof (induction es arbitrary: d out out')
  case (Cons e es)
  obtain d1 o1 o2 where 1: "display_step d e = (d1, o1)" and 2: "display_run d1 es = (d', o2)" and o: "out' = o1 @ o2"
    using Cons.prems(3) by (auto simp: display_run_def Let_def split: prod.splits)
  from 1 have "remembers d1 (out @ o1) \<and> spaced (out @ o1)"
  proof (cases rule: display_step_sends)
    case (2 l c)
    then show ?thesis
      using Cons.prems(1,2) layout_bytes_inj [of _ l]
      by (cases "out = []") (auto simp: remembers_def spaced_snoc too_soon_def not_less)
  qed (use Cons.prems in \<open>auto simp: remembers_def split: if_splits\<close>)
  then show ?case using Cons.IH [OF _ _ 2, of "out @ o1"] by (simp add: o)
qed (simp add: display_run_def)

lemma run_spaced_new: "spaced (snd (display_run display_new es))"
  using run_spaced [of display_new "[]" es] by (cases "display_run display_new es") (simp add: remembers_def display_new_def)

text \<open>Every layout on the wire is legal and inside the budget the server last announced.\<close>

definition within_caps :: "display_caps option \<Rightarrow> bytes \<Rightarrow> bool" where
  "within_caps caps b \<longleftrightarrow> (\<exists>l c. b = layout_bytes l \<and> legal_layout l \<and> caps = Some c \<and> layout_area l \<le> pixel_budget c)"

lemma step_within_caps:
  "list_all (\<lambda>(t, b). within_caps (ds_caps (fst (display_step d e))) b) (snd (display_step d e))"
proof -
  obtain d' out where step: "display_step d e = (d', out)" by (cases "display_step d e")
  then have "list_all (\<lambda>(t, b). within_caps (ds_caps d') b) out"
    by (rule display_step_sends) (auto simp: within_caps_def)
  then show ?thesis by (simp add: step)
qed

subsection \<open>The budget\<close>

lemma unat_ucast_32_64: "unat (ucast (v :: u32) :: u64) = unat v"
  using unsigned_less [where 'a = nat, of v] by (simp add: unsigned_ucast_eq take_bit_nat_eq_self)

lemma pixel_budget_exact:
  "unat (pixel_budget c) = unat (max_monitors c) * unat (area_factor_a c) * unat (area_factor_b c) mod 2 ^ 64"
  by (simp add: pixel_budget_def unat_word_ariths unat_ucast_32_64 mod_mult_left_eq)

lemma layout_area_exact: "legal_layout l \<Longrightarrow> unat (layout_area l) = unat (ml_width l) * unat (ml_height l)"
proof -
  assume "legal_layout l"
  then have "unat (ml_width l) \<le> 8192" "unat (ml_height l) \<le> 8192" by (simp_all add: legal_layout_def)
  then have "unat (ml_width l) * unat (ml_height l) \<le> 8192 * 8192" by (intro mult_le_mono)
  then show ?thesis by (simp add: layout_area_def unat_word_ariths unat_ucast_32_64)
qed

subsection \<open>What becomes of a resize\<close>

text \<open>
  A size that is asked for is sent, or held, or refused for one of the reasons the code gives:
  the server accepts nothing, the window is too small, the size is already in effect, or it is past
  the budget.
\<close>

definition resize_refused :: "display_control \<Rightarrow> u32 \<Rightarrow> u32 \<Rightarrow> u32 \<Rightarrow> bool" where
  "resize_refused d w h s \<longleftrightarrow>
     (case ds_caps d of
        None \<Rightarrow> False
      | Some c \<Rightarrow> accepts_nothing c \<or>
          (case primary w h s of
             None \<Rightarrow> True
           | Some l \<Rightarrow> ds_last_sent d = Some l \<or> pixel_budget c < layout_area l))"

lemma resize_outcome:
  "let ((d', rb'), res) = display_resize now w h s (d, rb) in
     res = Inr () \<and>
     (if ds_caps d = None \<or> too_soon now d \<and> \<not> accepts_nothing (the (ds_caps d)) \<and> primary w h s \<noteq> None
        then d' = d\<lparr>ds_pending := Some (w, h, s)\<rparr> \<and> rb' = rb
      else if resize_refused d w h s then d' = d \<and> rb' = rb
      else (\<exists>l. primary w h s = Some l \<and> rb_ready rb' = rb_ready rb @ [layout_bytes l] \<and>
              d' = d\<lparr>ds_last_sent := Some l, ds_last_sent_at := Some now\<rparr>))"
proof (cases "ds_caps d")
  case None
  then show ?thesis by (simp add: display_resize_def display_set_def)
next
  case (Some c)
  show ?thesis
  proof (cases "primary w h s")
    case None
    then show ?thesis using Some by (simp add: display_resize_def resize_refused_def)
  next
    case l: (Some l)
    have "\<not> accepts_nothing c \<Longrightarrow> \<not> (max_monitors c < 1 \<or> MAX_MONITORS < 1)"
      by (simp add: accepts_nothing_def MAX_MONITORS_def word_less_1)
    then show ?thesis using Some l
      by (auto simp: display_resize_def display_set_def resize_refused_def st_bind_def display_emit_layout [OF l] Let_def)
  qed
qed

text \<open>
  A size held back by the debounce is not forgotten when a newer one goes out directly: the next
  tick sends the older size over the newer one.
\<close>

lemma tick_sends:
  assumes "ds_caps d = Some c" and "\<not> accepts_nothing c" and "ds_pending d = Some (w, h, s)" and "\<not> too_soon now d"
    and "primary w h s = Some l" and "ds_last_sent d \<noteq> Some l" and "layout_area l \<le> pixel_budget c"
  shows "display_step d (Tick now) =
    (d\<lparr>ds_pending := None, ds_last_sent := Some l, ds_last_sent_at := Some now\<rparr>, [(now, layout_bytes l)])"
proof -
  have "\<not> (max_monitors c < 1 \<or> MAX_MONITORS < 1)" "\<not> too_soon now (d\<lparr>ds_pending := None\<rparr>)"
    using assms(2,4) by (simp_all add: accepts_nothing_def MAX_MONITORS_def word_less_1 too_soon_def)
  then show ?thesis
    using assms display_emit_layout [OF assms(5)]
    by (simp add: display_step_def flush_pending_def display_set_def st_bind_def display_resize_def reply_new_def not_less
        Let_def)
qed

lemma resize_sends:
  assumes "ds_caps d = Some c" and "\<not> accepts_nothing c" and "\<not> too_soon now d"
    and "primary w h s = Some l" and "ds_last_sent d \<noteq> Some l" and "layout_area l \<le> pixel_budget c"
  shows "display_step d (Resize now w h s) =
    (d\<lparr>ds_last_sent := Some l, ds_last_sent_at := Some now\<rparr>, [(now, layout_bytes l)])"
proof -
  have "\<not> (max_monitors c < 1 \<or> MAX_MONITORS < 1)"
    using assms(2) by (simp_all add: accepts_nothing_def MAX_MONITORS_def word_less_1)
  then show ?thesis
    using assms display_emit_layout [OF assms(4)]
    by (simp add: display_step_def display_set_def st_bind_def display_resize_def reply_new_def not_less Let_def)
qed

text \<open>A capabilities PDU, and a drag of the window: one size sent, one held back.\<close>

definition four_k :: display_caps where
  "four_k = \<lparr>max_monitors = 1, area_factor_a = 3840, area_factor_b = 2400\<rparr>"

definition mid_drag :: display_control where
  "mid_drag = fst (display_run (display_new\<lparr>ds_caps := Some four_k\<rparr>)
     [Resize 0 1600 900 100, Resize 100000000 1280 720 100])"

definition plain_layout :: "u32 \<Rightarrow> u32 \<Rightarrow> monitor_layout" where
  "plain_layout w h = \<lparr>ml_flags = MONITOR_PRIMARY, ml_left = 0, ml_top = 0, ml_width = w, ml_height = h,
     ml_desktop_scale = 100, ml_device_scale = 100\<rparr>"

lemma primary_plain:
  "primary 1600 900 100 = Some (plain_layout 1600 900)" "primary 1280 720 100 = Some (plain_layout 1280 720)"
  "primary 1920 1080 100 = Some (plain_layout 1920 1080)"
  by (simp_all add: primary_def plain_layout_def display_consts clamp_def device_scale_for_def nearer_def abs_diff_def min_def
      word_gt_0)

lemma four_k_budget:
  "\<not> accepts_nothing four_k" "layout_area (plain_layout 1600 900) \<le> pixel_budget four_k"
  "layout_area (plain_layout 1280 720) \<le> pixel_budget four_k" "layout_area (plain_layout 1920 1080) \<le> pixel_budget four_k"
  by (simp_all add: accepts_nothing_def four_k_def layout_area_def plain_layout_def pixel_budget_def)

lemma mid_drag: "mid_drag = \<lparr>ds_caps = Some four_k, ds_last_sent = Some (plain_layout 1600 900),
    ds_pending = Some (1280, 720, 100), ds_last_sent_at = Some 0\<rparr>"
proof -
  let ?d = "display_new\<lparr>ds_caps := Some four_k\<rparr>"
  have 1: "display_step ?d (Resize 0 1600 900 100) =
      (?d\<lparr>ds_last_sent := Some (plain_layout 1600 900), ds_last_sent_at := Some 0\<rparr>, [(0, layout_bytes (plain_layout 1600 900))])"
    by (rule resize_sends [OF _ four_k_budget(1) _ primary_plain(1) _ four_k_budget(2)])
      (simp_all add: display_new_def too_soon_def)
  have 2: "display_step (?d\<lparr>ds_last_sent := Some (plain_layout 1600 900), ds_last_sent_at := Some 0\<rparr>)
      (Resize 100000000 1280 720 100) = (?d\<lparr>ds_last_sent := Some (plain_layout 1600 900), ds_last_sent_at := Some 0,
        ds_pending := Some (1280, 720, 100)\<rparr>, [])"
    by (simp add: display_step_def display_resize_def four_k_budget primary_plain too_soon_def RESIZE_DEBOUNCE_def
        display_set_def reply_new_def)
  show ?thesis unfolding mid_drag_def display_run_def by (simp only: run_steps.simps 1 2 Let_def prod.case fst_conv, simp add: display_new_def)
qed

end
