(* ===== verification/Dvc_Mux.thy ===== *)
theory Dvc_Mux
  imports Send_Data Dvc Display_Control
begin

text \<open>
  The dynamic channel multiplexer (\<open>crates/rdp-core/src/channels/dvc.rs\<close>): the version handshake, the
  table of open channels with a reassembler each, and the way replies go out. The display control
  handler is the model of theory Display_Control; the graphics and audio handlers are parameters,
  functions on their own state, the events and the reply buffers they are lent. The scratch buffers
  \<open>wire\<close>, \<open>dvc\<close> and \<open>chunk\<close> are cleared before every use and are values here.
\<close>

subsection \<open>Constants and names\<close>

definition EGFX_CHANNEL_NAME :: chars where "EGFX_CHANNEL_NAME = chars_of ''Microsoft::Windows::RDS::Graphics''"
definition DISPLAY_CHANNEL_NAME :: chars where "DISPLAY_CHANNEL_NAME = chars_of ''Microsoft::Windows::RDS::DisplayControl''"
definition AUDIO_CHANNEL_NAME :: chars where "AUDIO_CHANNEL_NAME = chars_of ''AUDIO_PLAYBACK_DVC''"
definition MAX_DVC_FRAGMENT :: nat where "MAX_DVC_FRAGMENT = CHANNEL_CHUNK_LENGTH - 9"
definition EGFX_REASSEMBLY_CAP :: nat where "EGFX_REASSEMBLY_CAP = 32 * 1024 * 1024"
definition DISPLAY_REASSEMBLY_CAP :: nat where "DISPLAY_REASSEMBLY_CAP = 64 * 1024"
definition AUDIO_REASSEMBLY_CAP :: nat where "AUDIO_REASSEMBLY_CAP = 1024 * 1024"
definition MAX_DVC_VERSION :: u16 where "MAX_DVC_VERSION = 3"
definition STATUS_SUCCESS :: u32 where "STATUS_SUCCESS = 0"
definition STATUS_NOT_FOUND :: u32 where "STATUS_NOT_FOUND = 0xC0000225"

subsection \<open>State\<close>

record channel_ctx =
  cx_user_channel_id :: u16
  cx_desktop :: "u16 \<times> u16"
  cx_event_backlog :: u32
  cx_avc420 :: bool

record 'ev outbox =
  ob_events :: "'ev list"
  ob_frames :: "bytes list"

definition outbox_new :: "'ev outbox" where
  "outbox_new = \<lparr>ob_events = [], ob_frames = []\<rparr>"

text \<open>The handlers that are parameters: how they start, and what they do with a message.\<close>

record ('g, 'a, 'ev) handlers =
  hd_egfx_new :: 'g
  hd_egfx_opened :: "bool \<Rightarrow> ('g \<times> reply_buf, unit) op"
  hd_egfx_message :: "bytes \<Rightarrow> channel_ctx \<Rightarrow> ('g \<times> 'ev list \<times> reply_buf, unit) op"
  hd_audio_new :: 'a
  hd_audio_message :: "bytes \<Rightarrow> ('a \<times> 'ev list \<times> reply_buf, unit) op"

datatype ('g, 'a) dyn_kind = Egfx 'g | Display display_control | Audio 'a

fun is_display :: "('g, 'a) dyn_kind \<Rightarrow> bool" where
  "is_display (Display _) \<longleftrightarrow> True"
| "is_display _ \<longleftrightarrow> False"

record ('g, 'a) dyn_channel =
  dy_id :: u32
  dy_kind :: "('g, 'a) dyn_kind"
  dy_reassembler :: dvc_reassembler

record ('g, 'a) dvc_mux =
  mx_version :: "u16 option"
  mx_open :: "('g, 'a) dyn_channel list"
  mx_replies :: reply_buf
  mx_deferred :: "(u32 \<times> u32 \<times> u32) option"

definition mux_new :: "('g, 'a) dvc_mux" where
  "mux_new = \<lparr>mx_version = None, mx_open = [], mx_replies = reply_new, mx_deferred = None\<rparr>"

type_synonym ('g, 'a, 'ev) mux_op = "(('g, 'a) dvc_mux \<times> 'ev outbox, unit) op"

subsection \<open>Sending\<close>

definition write_dvc :: "dvc_pdu \<Rightarrow> u16 \<Rightarrow> channel_ctx \<Rightarrow> ('g, 'a, 'ev) mux_op" where
  "write_dvc pdu static_id ctx s =
     (let (x, out) = s in
      case lift_pdu (try_written (encode_dvc pdu)) of
        Inl e \<Rightarrow> (s, Inl e)
      | Inr bytes \<Rightarrow>
          let (frames, res) = encode_channel_pdu (cx_user_channel_id ctx) static_id bytes (ob_frames out)
          in ((x, out\<lparr>ob_frames := frames\<rparr>), res))"

text \<open>
  The loop of \<open>fragment\<close> as the list of the PDUs it sends: each carries the bytes from \<open>offset\<close> on,
  at most \<open>MAX_DVC_FRAGMENT\<close> of them.
\<close>

function fragments_from :: "u32 \<Rightarrow> bytes \<Rightarrow> nat \<Rightarrow> dvc_pdu list" where
  "fragments_from channel_id wire off =
     (let total = length wire in
      if off < total \<or> off = 0 then
        let e = min (off + MAX_DVC_FRAGMENT) total;
            slice = take (e - off) (drop off wire);
            pdu = (if off = 0 \<and> e = total then Data channel_id slice False
                   else if off = 0 then DataFirst channel_id (of_nat total) slice False
                   else Data channel_id slice False)
        in pdu # (if e = total then [] else fragments_from channel_id wire e)
      else [])"
  by auto
termination by (relation "measure (\<lambda>(_, wire, off). length wire - off)")
    (auto simp: MAX_DVC_FRAGMENT_def CHANNEL_CHUNK_LENGTH_def)

declare fragments_from.simps [simp del]

fun write_all :: "dvc_pdu list \<Rightarrow> u16 \<Rightarrow> channel_ctx \<Rightarrow> ('g, 'a, 'ev) mux_op" where
  "write_all [] static_id ctx = st_ok ()"
| "write_all (p # ps) static_id ctx = st_bind (write_dvc p static_id ctx) (\<lambda>_. write_all ps static_id ctx)"

definition fragment :: "u32 \<Rightarrow> bytes \<Rightarrow> u16 \<Rightarrow> channel_ctx \<Rightarrow> ('g, 'a, 'ev) mux_op" where
  "fragment channel_id wire static_id ctx = write_all (fragments_from channel_id wire 0) static_id ctx"

fun fragment_each :: "bytes list \<Rightarrow> u32 \<Rightarrow> u16 \<Rightarrow> channel_ctx \<Rightarrow> ('g, 'a, 'ev) mux_op" where
  "fragment_each [] channel_id static_id ctx = st_ok ()"
| "fragment_each (b # bs) channel_id static_id ctx =
     st_bind (fragment channel_id b static_id ctx) (\<lambda>_. fragment_each bs channel_id static_id ctx)"

definition mux_flush :: "u32 \<Rightarrow> u16 \<Rightarrow> channel_ctx \<Rightarrow> ('g, 'a, 'ev) mux_op" where
  "mux_flush channel_id static_id ctx s =
     (let ready = rb_ready (mx_replies (fst s)) in
      if ready = [] then st_ok () s
      else
        let ((x, out), res) = fragment_each ready channel_id static_id ctx s in
        ((x\<lparr>mx_replies := \<lparr>rb_ready = [], rb_spare = rb_spare (mx_replies x) + length ready\<rparr>\<rparr>, out), res))"

subsection \<open>Resizing\<close>

text \<open>An operation of the display channel at an index, on its state and the mux's reply buffers.\<close>

definition on_display :: "nat \<Rightarrow> unit display_op \<Rightarrow> ('g, 'a, 'ev) mux_op" where
  "on_display i m s =
     (let (x, out) = s; ch = mx_open x ! i in
      case dy_kind ch of
        Display d \<Rightarrow>
          let ((d', rb), res) = m (d, mx_replies x)
          in ((x\<lparr>mx_open := (mx_open x)[i := ch\<lparr>dy_kind := Display d'\<rparr>], mx_replies := rb\<rparr>, out), res)
      | _ \<Rightarrow> (s, Inr ()))"

definition display_index :: "('g, 'a) dvc_mux \<Rightarrow> nat option" where
  "display_index x = position (\<lambda>c. is_display (dy_kind c)) (mx_open x)"

definition mux_flush_pending_resize :: "nat \<Rightarrow> u16 \<Rightarrow> channel_ctx \<Rightarrow> ('g, 'a, 'ev) mux_op" where
  "mux_flush_pending_resize now static_id ctx s =
     (case display_index (fst s) of
        None \<Rightarrow> st_ok () s
      | Some i \<Rightarrow>
          let channel_id = dy_id (mx_open (fst s) ! i) in
          st_bind (on_display i (flush_pending now)) (\<lambda>_ s.
            if reply_is_empty (mx_replies (fst s)) then st_ok () s
            else mux_flush channel_id static_id ctx s) s)"

definition mux_resize :: "nat \<Rightarrow> u32 \<Rightarrow> u32 \<Rightarrow> u32 \<Rightarrow> u16 \<Rightarrow> channel_ctx \<Rightarrow> ('g, 'a, 'ev) mux_op" where
  "mux_resize now width height scale static_id ctx s =
     (case display_index (fst s) of
        None \<Rightarrow> st_set (\<lambda>(x, out). (x\<lparr>mx_deferred := Some (width, height, scale)\<rparr>, out)) s
      | Some i \<Rightarrow>
          let channel_id = dy_id (mx_open (fst s) ! i) in
          st_bind (on_display i (display_resize now width height scale)) (\<lambda>_.
            mux_flush channel_id static_id ctx) s)"

subsection \<open>Messages from the server\<close>

definition mux_capabilities :: "u16 \<Rightarrow> u16 \<Rightarrow> channel_ctx \<Rightarrow> ('g, 'a, 'ev) mux_op" where
  "mux_capabilities version static_id ctx =
     (let agreed = min version MAX_DVC_VERSION in
      st_bind (st_set (\<lambda>(x, out). (x\<lparr>mx_version := Some agreed\<rparr>, out))) (\<lambda>_.
        write_dvc (capabilities_response agreed) static_id ctx))"

definition mux_push :: "('g, 'a) dyn_channel \<Rightarrow> ('g, 'a, 'ev) mux_op" where
  "mux_push ch = st_set (\<lambda>(x, out). (x\<lparr>mx_open := mx_open x @ [ch]\<rparr>, out))"

definition egfx_opened :: "('g, 'a, 'ev) handlers \<Rightarrow> channel_ctx \<Rightarrow> (('g, 'a) dvc_mux \<times> 'ev outbox, 'g) op" where
  "egfx_opened hs ctx s =
     (let (x, out) = s; ((g, rb), res) = hd_egfx_opened hs (cx_avc420 ctx) (hd_egfx_new hs, mx_replies x)
      in ((x\<lparr>mx_replies := rb\<rparr>, out), bind_res res (\<lambda>_. Inr g)))"

definition mux_create ::
  "('g, 'a, 'ev) handlers \<Rightarrow> nat \<Rightarrow> u32 \<Rightarrow> chars \<Rightarrow> u16 \<Rightarrow> channel_ctx \<Rightarrow> ('g, 'a, 'ev) mux_op" where
  "mux_create hs now channel_id name static_id ctx s =
     (let x = fst s; accept = write_dvc (CreateResponse channel_id STATUS_SUCCESS) static_id ctx in
      if mx_version x = None then
        st_err (Protocol (Said ''the server opened a dynamic channel before the drdynvc capability exchange'' [])) s
      else if list_ex (\<lambda>c. dy_id c = channel_id) (mx_open x) then
        st_err (Protocol (Said ''the server opened dynamic channel {channel_id} twice'' [unat channel_id])) s
      else if name = AUDIO_CHANNEL_NAME then
        st_bind accept (\<lambda>_. mux_push
          \<lparr>dy_id = channel_id, dy_kind = Audio (hd_audio_new hs), dy_reassembler = dvc_with_cap AUDIO_REASSEMBLY_CAP\<rparr>) s
      else if name = DISPLAY_CHANNEL_NAME then
        st_bind accept (\<lambda>_. st_bind (mux_push
          \<lparr>dy_id = channel_id, dy_kind = Display display_new, dy_reassembler = dvc_with_cap DISPLAY_REASSEMBLY_CAP\<rparr>) (\<lambda>_ s.
            case mx_deferred (fst s) of
              None \<Rightarrow> st_ok () s
            | Some (width, height, scale) \<Rightarrow>
                st_bind (st_set (\<lambda>(x, out). (x\<lparr>mx_deferred := None\<rparr>, out))) (\<lambda>_.
                  mux_resize now width height scale static_id ctx) s)) s
      else if name \<noteq> EGFX_CHANNEL_NAME then
        write_dvc (CreateResponse channel_id STATUS_NOT_FOUND) static_id ctx s
      else
        st_bind accept (\<lambda>_. st_bind (egfx_opened hs ctx) (\<lambda>g. st_bind (mux_push
          \<lparr>dy_id = channel_id, dy_kind = Egfx g, dy_reassembler = dvc_with_cap EGFX_REASSEMBLY_CAP\<rparr>) (\<lambda>_.
            mux_flush channel_id static_id ctx))) s)"

text \<open>
  A fragment for one channel: a Data First goes to the reassembler, a Data too while a message is
  in progress, and is a whole message otherwise.
\<close>

definition feed :: "u32 option \<Rightarrow> bytes \<Rightarrow> dvc_reassembler \<Rightarrow> dvc_reassembler \<times> (pdu_error + bytes option)" where
  "feed total_length data r =
     (case total_length of
        Some n \<Rightarrow> dvc_push total_length data r
      | None \<Rightarrow> if \<not> dvc_in_progress r then (r, Inr (Some data)) else dvc_push None data r)"

text \<open>A whole message goes to the handler of its channel.\<close>

definition handle ::
  "('g, 'a, 'ev) handlers \<Rightarrow> nat \<Rightarrow> bytes \<Rightarrow> channel_ctx \<Rightarrow> nat \<Rightarrow> ('g, 'a, 'ev) mux_op" where
  "handle hs now msg ctx i s =
     (let (x, out) = s; ch = mx_open x ! i;
          back = (\<lambda>kind events rb res.
            ((x\<lparr>mx_open := (mx_open x)[i := ch\<lparr>dy_kind := kind\<rparr>], mx_replies := rb\<rparr>, out\<lparr>ob_events := events\<rparr>), res)) in
      case dy_kind ch of
        Egfx g \<Rightarrow>
          let ((g', events, rb), res) = hd_egfx_message hs msg ctx (g, ob_events out, mx_replies x)
          in back (Egfx g') events rb res
      | Display d \<Rightarrow>
          let ((d', rb), res) = display_message now msg (d, mx_replies x)
          in back (Display d') (ob_events out) rb res
      | Audio a \<Rightarrow>
          let ((a', events, rb), res) = hd_audio_message hs msg (a, ob_events out, mx_replies x)
          in back (Audio a') events rb res)"

definition mux_data ::
  "('g, 'a, 'ev) handlers \<Rightarrow> nat \<Rightarrow> u32 \<Rightarrow> u32 option \<Rightarrow> bytes \<Rightarrow> bool \<Rightarrow> u16 \<Rightarrow> channel_ctx \<Rightarrow> ('g, 'a, 'ev) mux_op" where
  "mux_data hs now channel_id total_length data compressed static_id ctx s =
     (if compressed then
        st_err (Protocol (Said ''the server sent RDP 8.0 compressed data on dynamic channel {channel_id}'' [unat channel_id])) s
      else
        case position (\<lambda>c. dy_id c = channel_id) (mx_open (fst s)) of
          None \<Rightarrow> st_ok () s
        | Some i \<Rightarrow>
            let (x, out) = s; ch = mx_open x ! i;
                (r, complete) = feed total_length data (dy_reassembler ch);
                s1 = (x\<lparr>mx_open := (mx_open x)[i := ch\<lparr>dy_reassembler := r\<rparr>]\<rparr>, out) in
            case complete of
              Inl e \<Rightarrow> (s1, Inl (from_pdu e))
            | Inr None \<Rightarrow> st_ok () s1
            | Inr (Some msg) \<Rightarrow>
                st_bind (handle hs now msg ctx i) (\<lambda>_. mux_flush channel_id static_id ctx) s1)"

definition mux_message ::
  "('g, 'a, 'ev) handlers \<Rightarrow> nat \<Rightarrow> bytes \<Rightarrow> u16 \<Rightarrow> channel_ctx \<Rightarrow> ('g, 'a, 'ev) mux_op" where
  "mux_message hs now msg static_id ctx s =
     (case decode_dvc (reader_new msg) of
        Inl e \<Rightarrow> st_err (from_pdu e) s
      | Inr (pdu, _) \<Rightarrow>
          (case pdu of
             Capabilities version _ \<Rightarrow> mux_capabilities version static_id ctx s
           | CreateRequest channel_id name \<Rightarrow> mux_create hs now channel_id name static_id ctx s
           | DataFirst channel_id n data compressed \<Rightarrow>
               mux_data hs now channel_id (Some n) data compressed static_id ctx s
           | Data channel_id data compressed \<Rightarrow> mux_data hs now channel_id None data compressed static_id ctx s
           | Close channel_id \<Rightarrow>
               st_set (\<lambda>(x, out). (x\<lparr>mx_open := filter (\<lambda>c. dy_id c \<noteq> channel_id) (mx_open x)\<rparr>, out)) s
           | SoftSyncRequest _ _ _ _ \<Rightarrow> write_dvc (SoftSyncResponse 0 []) static_id ctx s
           | CreateResponse _ _ \<Rightarrow> st_ok () s
           | SoftSyncResponse _ _ \<Rightarrow> st_ok () s))"

end
