(* ===== verification/Dvc_Mux_Invariant.thy ===== *)
theory Dvc_Mux_Invariant
  imports Dvc_Mux
begin

text \<open>
  The invariant of the multiplexer, kept by every operation whatever the graphics and audio handlers
  do: the open channels have distinct ids, none is open before a version was agreed, no agreed
  version is above 3, and every channel's reassembler is bounded by the cap of its kind.
\<close>

fun kind_cap :: "('g, 'a) dyn_kind \<Rightarrow> nat" where
  "kind_cap (Egfx _) = EGFX_REASSEMBLY_CAP"
| "kind_cap (Display _) = DISPLAY_REASSEMBLY_CAP"
| "kind_cap (Audio _) = AUDIO_REASSEMBLY_CAP"

definition channel_ok :: "('g, 'a) dyn_channel \<Rightarrow> bool" where
  "channel_ok c \<longleftrightarrow> dvc_reassembler_ok (dy_reassembler c) \<and> dr_cap (dy_reassembler c) = kind_cap (dy_kind c)"

definition mux_ok :: "('g, 'a) dvc_mux \<Rightarrow> bool" where
  "mux_ok x \<longleftrightarrow> distinct (map dy_id (mx_open x)) \<and> (mx_open x \<noteq> [] \<longrightarrow> mx_version x \<noteq> None) \<and>
     pred_option (\<lambda>v. v \<le> MAX_DVC_VERSION) (mx_version x) \<and> list_all channel_ok (mx_open x)"

abbreviation keeps_mux :: "('g, 'a, 'ev) mux_op \<Rightarrow> bool" where
  "keeps_mux m \<equiv> keeps (\<lambda>s. mux_ok (fst s)) m"

lemma mux_new_ok: "mux_ok mux_new"
  by (simp add: mux_ok_def mux_new_def)

subsection \<open>Sending leaves the table alone\<close>

definition leaves :: "('g, 'a, 'ev) mux_op \<Rightarrow> bool" where
  "leaves m \<longleftrightarrow> (\<forall>s. fst (fst (m s)) = fst s)"

lemma leavesD: "leaves m \<Longrightarrow> m s = (s', res) \<Longrightarrow> fst s' = fst s"
  by (metis fst_conv leaves_def)

lemma leavesE: "leaves m \<Longrightarrow> fst (fst (m s)) = fst s"
  by (metis leaves_def)

lemma leaves_bind:
  assumes "leaves m" and "\<And>a. leaves (f a)"
  shows "leaves (st_bind m f)"
  unfolding leaves_def
proof
  fix s
  obtain s1 res where m: "m s = (s1, res)" by (cases "m s")
  then have "fst s1 = fst s" by (rule leavesD [OF assms(1)])
  then show "fst (fst (st_bind m f s)) = fst s"
    using assms(2) [unfolded leaves_def, THEN spec, of _ s1] by (cases res) (simp_all add: st_bind_def m)
qed

lemma leaves_write: "leaves (write_dvc p static_id ctx)"
  by (simp add: leaves_def write_dvc_def Let_def split: prod.split sum.split)

lemma leaves_write_all: "leaves (write_all ps static_id ctx)"
  by (induction ps) (simp_all add: leaves_bind leaves_write, simp add: leaves_def)

lemma leaves_fragment_each: "leaves (fragment_each bs channel_id static_id ctx)"
  by (induction bs) (simp_all add: leaves_bind leaves_write_all fragment_def, simp add: leaves_def)

lemma leaves_keeps: "leaves m \<Longrightarrow> keeps_mux m"
  by (simp add: leaves_def keeps_def)

lemma keeps_write: "keeps_mux (write_dvc p static_id ctx)"
  by (rule leaves_keeps [OF leaves_write])

lemma mux_ok_cong: "mx_version x = mx_version y \<Longrightarrow> mx_open x = mx_open y \<Longrightarrow> mux_ok x = mux_ok y"
  by (simp add: mux_ok_def)

lemma flush_table: "mx_open (fst (fst (mux_flush i st ctx s))) = mx_open (fst s) \<and>
    mx_version (fst (fst (mux_flush i st ctx s))) = mx_version (fst s)"
proof (cases "rb_ready (mx_replies (fst s)) = []")
  case False
  obtain x out res where f: "fragment_each (rb_ready (mx_replies (fst s))) i st ctx s = ((x, out), res)"
    by (cases "fragment_each (rb_ready (mx_replies (fst s))) i st ctx s") auto
  show ?thesis using False leavesD [OF leaves_fragment_each f] by (simp add: mux_flush_def f Let_def)
qed (simp add: mux_flush_def)

lemma keeps_flush: "keeps_mux (mux_flush i st ctx)"
  unfolding keeps_def using flush_table mux_ok_cong by blast

subsection \<open>A channel's state changes, its id and its cap do not\<close>

lemma mux_ok_update:
  assumes "mux_ok x" and "i < length (mx_open x)" and "dy_id c = dy_id (mx_open x ! i)"
    and "channel_ok (mx_open x ! i) \<Longrightarrow> channel_ok c"
  shows "mux_ok (x\<lparr>mx_open := (mx_open x)[i := c]\<rparr>)"
proof -
  have "map dy_id ((mx_open x)[i := c]) = map dy_id (mx_open x)"
    using assms(2,3) by (simp add: map_update list_update_same_conv)
  moreover have "list_all channel_ok ((mx_open x)[i := c])"
    using assms by (auto simp: mux_ok_def list_all_length nth_list_update)
  ultimately show ?thesis using assms(1,2) by (auto simp: mux_ok_def)
qed

lemma mux_ok_replies [simp]: "mux_ok (x\<lparr>mx_replies := r\<rparr>) = mux_ok x" "mux_ok (x\<lparr>mx_deferred := d\<rparr>) = mux_ok x"
  by (simp_all add: mux_ok_def)

lemma mux_ok_update_replies:
  "mux_ok (x\<lparr>mx_open := cs\<rparr>) \<Longrightarrow> mux_ok (x\<lparr>mx_open := cs, mx_replies := r\<rparr>)"
  by (simp add: mux_ok_def)

lemma channel_ok_kind: "channel_ok c \<Longrightarrow> kind_cap k = kind_cap (dy_kind c) \<Longrightarrow> channel_ok (c\<lparr>dy_kind := k\<rparr>)"
  by (simp add: channel_ok_def)

lemma on_display_ok: "mux_ok (fst s) \<Longrightarrow> i < length (mx_open (fst s)) \<Longrightarrow> mux_ok (fst (fst (on_display i m s)))"
  by (cases s) (auto simp: on_display_def Let_def split: dyn_kind.split prod.split
      intro!: mux_ok_update_replies mux_ok_update channel_ok_kind)

lemma display_index_bound: "display_index x = Some i \<Longrightarrow> i < length (mx_open x)"
  by (auto simp: display_index_def dest: position_Some)

lemma keeps_at:
  assumes "mux_ok (fst s)" and "i < length (mx_open (fst s))" and "keeps_mux (f ())"
  shows "mux_ok (fst (fst (st_bind (on_display i m) f s)))"
proof -
  obtain s1 res where m: "on_display i m s = (s1, res)" by (cases "on_display i m s")
  then have "mux_ok (fst s1)" using on_display_ok [OF assms(1,2), of m] by simp
  then show ?thesis using keepsD [OF assms(3)] by (cases res) (simp_all add: st_bind_def m)
qed

lemma keeps_resize: "keeps_mux (mux_resize now w h scale st ctx)"
  unfolding keeps_def
  by (auto simp: mux_resize_def Let_def split: prod.split option.split intro!: keeps_at keeps_flush dest: display_index_bound)

lemma keeps_flush_pending: "keeps_mux (mux_flush_pending_resize now st ctx)"
proof -
  have "keeps_mux (\<lambda>s. if reply_is_empty (mx_replies (fst s)) then st_ok () s else mux_flush i st ctx s)" for i
    by (rule keeps_if [OF keeps_ok(1) keeps_flush])
  then show ?thesis
    unfolding keeps_def [of _ "mux_flush_pending_resize now st ctx"]
    by (auto simp: mux_flush_pending_resize_def Let_def split: option.split intro!: keeps_at dest: display_index_bound)
qed

subsection \<open>Messages from the server\<close>

lemma keeps_capabilities: "keeps_mux (mux_capabilities v st ctx)"
  unfolding mux_capabilities_def Let_def
  by (intro keeps_bind keeps_set keeps_write) (auto simp: mux_ok_def split: prod.split)

text \<open>Opening a channel needs a version and a fresh id, which \<open>mux_create\<close> has checked.\<close>

definition room_for :: "u32 \<Rightarrow> ('g, 'a) dvc_mux \<Rightarrow> bool" where
  "room_for i x \<longleftrightarrow> mux_ok x \<and> mx_version x \<noteq> None \<and> i \<notin> dy_id ` set (mx_open x)"

lemma runs_push:
  "channel_ok c \<Longrightarrow> dy_id c = i \<Longrightarrow> runs (\<lambda>s. room_for i (fst s)) (mux_push c) (\<lambda>_ s. mux_ok (fst s)) E"
  by (auto simp: runs_def room_for_def mux_ok_def mux_push_def)

lemma runs_accept:
  "runs (\<lambda>s. room_for i (fst s)) (write_dvc p st ctx) (\<lambda>_ s. room_for i (fst s)) (\<lambda>s. mux_ok (fst s))"
  by (simp add: runs_def leavesE [OF leaves_write] room_for_def del: split_paired_All split: sum.split)

lemma runs_opened:
  "runs (\<lambda>s. room_for i (fst s)) (egfx_opened hs ctx) (\<lambda>_ s. room_for i (fst s)) (\<lambda>s. mux_ok (fst s))"
  by (auto simp: runs_def egfx_opened_def room_for_def Let_def split: sum.split prod.split)

lemma fresh_channel_ok:
  "dy_reassembler c = dvc_with_cap (kind_cap (dy_kind c)) \<Longrightarrow> channel_ok c"
  by (cases "dy_kind c") (simp_all add: channel_ok_def dvc_with_cap_ok, simp_all add: dvc_with_cap_def MAX_EGFX_PDU_def
      EGFX_REASSEMBLY_CAP_def DISPLAY_REASSEMBLY_CAP_def AUDIO_REASSEMBLY_CAP_def)

lemma keeps_take_deferred:
  "keeps_mux (\<lambda>s. case mx_deferred (fst s) of
      None \<Rightarrow> st_ok () s
    | Some (w, h, scale) \<Rightarrow>
        st_bind (st_set (\<lambda>(x, out). (x\<lparr>mx_deferred := None\<rparr>, out))) (\<lambda>_. mux_resize now w h scale st ctx) s)"
proof (rule keeps_option [OF keeps_ok(1)])
  show "keeps_mux (\<lambda>s. case d of (w, h, scale) \<Rightarrow>
      st_bind (st_set (\<lambda>(x, out). (x\<lparr>mx_deferred := None\<rparr>, out))) (\<lambda>_. mux_resize now w h scale st ctx) s)" for d
    by (cases d) (simp, intro keeps_bind keeps_set keeps_resize, auto)
qed

text \<open>The three ways a channel is opened.\<close>

lemma runsD: "runs P m (\<lambda>_. I) I \<Longrightarrow> P s \<Longrightarrow> I (fst (m s))"
  by (auto simp: runs_def split: sum.splits)

lemma opens:
  assumes "kind_cap k = cap" and "keeps_mux f"
  shows "runs (\<lambda>s. room_for i (fst s))
    (st_bind (mux_push \<lparr>dy_id = i, dy_kind = k, dy_reassembler = dvc_with_cap cap\<rparr>) (\<lambda>_. f))
    (\<lambda>_ s. mux_ok (fst s)) (\<lambda>s. mux_ok (fst s))"
proof (rule runs_bind)
  show "runs (\<lambda>s. room_for i (fst s)) (mux_push \<lparr>dy_id = i, dy_kind = k, dy_reassembler = dvc_with_cap cap\<rparr>)
      (\<lambda>_ s. mux_ok (fst s)) (\<lambda>s. mux_ok (fst s))"
    by (rule runs_push, rule fresh_channel_ok) (simp_all add: assms(1))
qed (use assms(2) in \<open>simp add: keeps_runs\<close>)

lemma keeps_create: "keeps_mux (mux_create hs now i name st ctx)"
  unfolding keeps_def
proof (intro allI impI)
  fix s :: "('a, 'b) dvc_mux \<times> 'c outbox" assume ok: "mux_ok (fst s)"
  note accepted = runsD [OF runs_bind [OF runs_accept]]
  show "mux_ok (fst (fst (mux_create hs now i name st ctx s)))"
  proof (cases "mx_version (fst s) = None \<or> list_ex (\<lambda>c. dy_id c = i) (mx_open (fst s))")
    case False
    then have room: "room_for i (fst s)" using ok by (auto simp: room_for_def list_ex_iff)
    have audio: "runs (\<lambda>s. room_for i (fst s)) (mux_push \<lparr>dy_id = i, dy_kind = Audio (hd_audio_new hs),
        dy_reassembler = dvc_with_cap AUDIO_REASSEMBLY_CAP\<rparr> :: ('a, 'b, 'c) mux_op) (\<lambda>_ s. mux_ok (fst s)) (\<lambda>s. mux_ok (fst s))"
      by (rule runs_push, rule fresh_channel_ok) simp_all
    show ?thesis
      using False keepsD [OF keeps_write, of s] ok
      by (auto simp: mux_create_def Let_def intro!: accepted [OF _ room] audio opens [OF _ keeps_take_deferred]
          runs_bind [OF runs_opened] opens [OF _ keeps_flush])
  qed (use ok in \<open>auto simp: mux_create_def Let_def\<close>)
qed

lemma feed_ok:
  "dvc_reassembler_ok r \<Longrightarrow> dvc_reassembler_ok (fst (feed t d r)) \<and> dr_cap (fst (feed t d r)) = dr_cap r"
  by (simp add: feed_def dvc_push_ok split: option.split)

text \<open>The table after a message was handled: one entry's state may have changed, to one of its own kind.\<close>

lemma handle_table:
  "\<exists>k. mx_open (fst (fst (handle hs now msg ctx i s))) =
        (mx_open (fst s))[i := (mx_open (fst s) ! i)\<lparr>dy_kind := k\<rparr>] \<and>
     kind_cap k = kind_cap (dy_kind (mx_open (fst s) ! i)) \<and>
     mx_version (fst (fst (handle hs now msg ctx i s))) = mx_version (fst s)"
proof -
  obtain x out where s: "s = (x, out)" by (cases s)
  show ?thesis
  proof (cases "dy_kind (mx_open x ! i)")
    case (Egfx g)
    obtain g' events rb res where "hd_egfx_message hs msg ctx (g, ob_events out, mx_replies x) = ((g', events, rb), res)"
      by (metis prod.exhaust)
    then show ?thesis by (intro exI [of _ "Egfx g'"]) (simp add: handle_def s Egfx)
  next
    case (Display d)
    obtain d' rb res where "display_message now msg (d, mx_replies x) = ((d', rb), res)" by (metis prod.exhaust)
    then show ?thesis by (intro exI [of _ "Display d'"]) (simp add: handle_def s Display)
  next
    case (Audio a)
    obtain a' events rb res where "hd_audio_message hs msg (a, ob_events out, mx_replies x) = ((a', events, rb), res)"
      by (metis prod.exhaust)
    then show ?thesis by (intro exI [of _ "Audio a'"]) (simp add: handle_def s Audio)
  qed
qed

lemma handle_ok: "mux_ok (fst s) \<Longrightarrow> i < length (mx_open (fst s)) \<Longrightarrow> mux_ok (fst (fst (handle hs now msg ctx i s)))"
proof -
  assume ok: "mux_ok (fst s)" and i: "i < length (mx_open (fst s))"
  obtain k where t: "mx_open (fst (fst (handle hs now msg ctx i s))) =
      (mx_open (fst s))[i := (mx_open (fst s) ! i)\<lparr>dy_kind := k\<rparr>]"
    "kind_cap k = kind_cap (dy_kind (mx_open (fst s) ! i))"
    "mx_version (fst (fst (handle hs now msg ctx i s))) = mx_version (fst s)"
    using handle_table by blast
  have "mux_ok ((fst s)\<lparr>mx_open := (mx_open (fst s))[i := (mx_open (fst s) ! i)\<lparr>dy_kind := k\<rparr>]\<rparr>)"
    using ok i t(2) by (intro mux_ok_update channel_ok_kind) simp_all
  then show ?thesis using t by (simp add: mux_ok_def)
qed

lemma keeps_data: "keeps_mux (mux_data hs now channel_id tot data compressed st ctx)"
  unfolding keeps_def
proof (intro allI impI)
  fix s :: "('a, 'b) dvc_mux \<times> 'c outbox" assume ok: "mux_ok (fst s)"
  obtain x out where s: "s = (x, out)" by (cases s)
  show "mux_ok (fst (fst (mux_data hs now channel_id tot data compressed st ctx s)))"
  proof (cases "compressed \<or> position (\<lambda>c. dy_id c = channel_id) (mx_open x) = None")
    case False
    then obtain i where i: "position (\<lambda>c. dy_id c = channel_id) (mx_open x) = Some i"
      by (cases "position (\<lambda>c. dy_id c = channel_id) (mx_open x)") simp_all
    then have lt: "i < length (mx_open x)" using position_Some by blast
    let ?ch = "mx_open x ! i"
    obtain r complete where f: "feed tot data (dy_reassembler ?ch) = (r, complete)"
      by (cases "feed tot data (dy_reassembler ?ch)")
    let ?s = "(x\<lparr>mx_open := (mx_open x)[i := ?ch\<lparr>dy_reassembler := r\<rparr>]\<rparr>, out)"
    have ok1: "mux_ok (fst ?s)"
      using ok lt feed_ok [of "dy_reassembler ?ch" tot data] f s by (auto simp: channel_ok_def intro!: mux_ok_update)
    have "mux_ok (fst (fst (st_bind (handle hs now msg ctx i) (\<lambda>_. mux_flush channel_id st ctx) ?s)))" for msg
    proof (cases "handle hs now msg ctx i ?s")
      case (Pair s1 res)
      have "mux_ok (fst s1)" using handle_ok [OF ok1, of i hs now msg ctx] lt Pair by simp
      then show ?thesis using keepsD [OF keeps_flush] by (cases res) (simp_all add: st_bind_def Pair)
    qed
    then show ?thesis
      using False i ok1 by (auto simp: mux_data_def s f Let_def split: sum.split option.split)
  qed (use ok in \<open>auto simp: mux_data_def s simp del: position_None\<close>)
qed

lemma keeps_message: "keeps_mux (mux_message hs now msg st ctx)"
  unfolding keeps_def
proof (intro allI impI)
  fix s :: "('a, 'b) dvc_mux \<times> 'c outbox" assume ok: "mux_ok (fst s)"
  have "mux_ok (x\<lparr>mx_open := filter P (mx_open x)\<rparr>)" if "mux_ok x" for x :: "('a, 'b) dvc_mux" and P
    using that by (auto simp: mux_ok_def distinct_map_filter list_all_iff)
  then show "mux_ok (fst (fst (mux_message hs now msg st ctx s)))"
    using ok keepsD [OF keeps_capabilities ok] keepsD [OF keeps_create ok] keepsD [OF keeps_data ok] keepsD [OF keeps_write ok]
    by (cases s) (auto simp: mux_message_def split: sum.split dvc_pdu.split prod.split)
qed

text \<open>Every state a session reaches from a new multiplexer satisfies the invariant.\<close>

datatype mux_event =
    FromServer nat bytes
  | Window nat u32 u32 u32
  | StatsTick nat

fun mux_event_op :: "('g, 'a, 'ev) handlers \<Rightarrow> u16 \<Rightarrow> channel_ctx \<Rightarrow> mux_event \<Rightarrow> ('g, 'a, 'ev) mux_op" where
  "mux_event_op hs st ctx (FromServer now msg) = mux_message hs now msg st ctx"
| "mux_event_op hs st ctx (Window now w h scale) = mux_resize now w h scale st ctx"
| "mux_event_op hs st ctx (StatsTick now) = mux_flush_pending_resize now st ctx"

fun mux_run :: "('g, 'a, 'ev) handlers \<Rightarrow> u16 \<Rightarrow> (channel_ctx \<times> mux_event) list \<Rightarrow>
    ('g, 'a) dvc_mux \<times> 'ev outbox \<Rightarrow> ('g, 'a) dvc_mux \<times> 'ev outbox" where
  "mux_run hs st [] s = s"
| "mux_run hs st ((ctx, e) # es) s = mux_run hs st es (fst (mux_event_op hs st ctx e s))"

lemma mux_event_ok: "mux_ok (fst s) \<Longrightarrow> mux_ok (fst (fst (mux_event_op hs st ctx e s)))"
  by (cases e) (simp_all add: keepsD [OF keeps_message] keepsD [OF keeps_resize] keepsD [OF keeps_flush_pending])

lemma mux_run_ok: "mux_ok (fst s) \<Longrightarrow> mux_ok (fst (mux_run hs st es s))"
  by (induction hs st es s rule: mux_run.induct) (simp_all add: mux_event_ok)

end
