(* ===== verification/Dvc_Mux_Delivery.thy ===== *)
theory Dvc_Mux_Delivery
  imports Dvc_Mux_Invariant
begin

text \<open>
  What is delivered. A payload cut into fragments is one chunk per fragment, is read back from the
  frames and put together again; and fragments of several channels, interleaved in any order, never
  mix: seen from one channel, the multiplexer is that channel's own reassembler fed with that
  channel's own fragments.
\<close>

subsection \<open>Fragments and how they are put together\<close>

definition feed_step :: "dvc_reassembler \<Rightarrow> u32 option \<times> bytes \<Rightarrow> dvc_reassembler \<times> (pdu_error + bytes option) list" where
  "feed_step r p = (let (r', out) = feed (fst p) (snd p) r in (r', [out]))"

fun piece_of :: "dvc_pdu \<Rightarrow> (u32 \<times> u32 option \<times> bytes) option" where
  "piece_of (DataFirst i n d False) = Some (i, Some n, d)"
| "piece_of (Data i d False) = Some (i, None, d)"
| "piece_of _ = None"

definition completed :: "nat \<Rightarrow> bytes \<Rightarrow> (pdu_error + bytes option) list" where
  "completed n m = replicate (n - 1) (Inr None) @ [Inr (Some m)]"

lemma completed_Suc: "ds \<noteq> [] \<Longrightarrow> completed (Suc (length ds)) m = Inr None # completed (length ds) m"
  by (cases ds) (simp_all add: completed_def)

lemma fragment_size: "MAX_DVC_FRAGMENT = 1591"
  by (simp add: MAX_DVC_FRAGMENT_def CHANNEL_CHUNK_LENGTH_def)

lemma fragments_rest:
  "0 < off \<Longrightarrow> off < length w \<Longrightarrow> fragments_from i w off = map (\<lambda>d. Data i d False) (cut 1591 (drop off w))"
proof (induction i w off rule: fragments_from.induct)
  case (1 i w off)
  show ?case
  proof (cases "length w \<le> off + 1591")
    case True
    then show ?thesis using "1.prems"
      by (simp add: fragments_from.simps [of i w off] cut.simps [of 1591 "drop off w"] fragment_size Let_def min_def)
  next
    case False
    have "fragments_from i w (off + 1591) = map (\<lambda>d. Data i d False) (cut 1591 (drop (off + 1591) w))"
      using "1.IH" [of "length w" "off + 1591"] "1.prems" False by (simp add: fragment_size min_def)
    then show ?thesis using "1.prems" False
      by (simp add: fragments_from.simps [of i w off] cut.simps [of 1591 "drop off w"] fragment_size Let_def min_def add.commute)
  qed
qed

lemma fragments_all:
  "fragments_from i w 0 =
     (if length w \<le> 1591 then [Data i w False]
      else DataFirst i (of_nat (length w)) (take 1591 w) False # map (\<lambda>d. Data i d False) (cut 1591 (drop 1591 w)))"
  using fragments_rest [of 1591 w i]
  by (simp add: fragments_from.simps [of i w 0] fragment_size Let_def min_def)

lemma cut_pieces: "xs \<noteq> [] \<Longrightarrow> 0 < n \<Longrightarrow> d \<in> set (cut n xs) \<Longrightarrow> d \<noteq> []"
  by (induction n xs rule: cut.induct) (subst (asm) (2) cut.simps, auto split: if_splits)

lemma push_rest:
  assumes "dr_expected r = Some E" and "ds \<noteq> []" and "list_all (\<lambda>d. d \<noteq> []) ds"
    and "length (dr_buf r) + length (concat ds) = E" and "E < 2 ^ 64"
  shows "run_steps feed_step r (map (Pair None) ds) =
    (r\<lparr>dr_buf := dr_buf r @ concat ds, dr_expected := None\<rparr>, completed (length ds) (dr_buf r @ concat ds))"
  using assms
proof (induction ds arbitrary: r)
  case (Cons d ds)
  have prog: "dvc_in_progress r" using Cons.prems(1) by (simp add: dvc_in_progress_def)
  show ?case
  proof (cases "ds = []")
    case True
    then show ?thesis using Cons.prems prog
      by (simp add: feed_step_def feed_def dvc_push_def completed_def Let_def)
  next
    case False
    then have "0 < length (concat ds)" using Cons.prems(3) by (cases ds) auto
    then have "length (dr_buf r) + length d < E"
      using Cons.prems(4) unfolding concat.simps length_append by linarith
    then have "feed_step r (None, d) = (r\<lparr>dr_buf := dr_buf r @ d\<rparr>, [Inr None])"
      using Cons.prems prog by (simp add: feed_step_def feed_def dvc_push_def Let_def)
    moreover have "run_steps feed_step (r\<lparr>dr_buf := dr_buf r @ d\<rparr>) (map (Pair None) ds) =
        (r\<lparr>dr_buf := dr_buf r @ concat (d # ds), dr_expected := None\<rparr>, completed (length ds) (dr_buf r @ concat (d # ds)))"
      using Cons.IH [of "r\<lparr>dr_buf := dr_buf r @ d\<rparr>"] Cons.prems False by simp
    ultimately show ?thesis using completed_Suc [OF False] by simp
  qed
qed simp

definition pieces :: "dvc_pdu list \<Rightarrow> (u32 option \<times> bytes) list" where
  "pieces ps = map (\<lambda>p. snd (the (piece_of p))) ps"

lemma fragments_reassemble:
  assumes "dvc_reassembler_ok r" and "\<not> dvc_in_progress r" and "length w \<le> dr_cap r"
  shows "\<exists>r'. run_steps feed_step r (pieces (fragments_from i w 0)) = (r', completed (length (fragments_from i w 0)) w) \<and>
    \<not> dvc_in_progress r' \<and> dr_cap r' = dr_cap r"
proof (cases "length w \<le> 1591")
  case True
  then show ?thesis using assms(2)
    by (simp add: fragments_all pieces_def feed_step_def feed_def completed_def)
next
  case False
  have E: "length w < 2 ^ 26 + 1" using assms by (simp add: dvc_reassembler_ok_def MAX_EGFX_PDU_def)
  then have n: "unat (of_nat (length w) :: u32) = length w" by (simp add: unsigned_of_nat take_bit_nat_eq_self)
  let ?ds = "cut 1591 (drop 1591 w)" and ?r = "r\<lparr>dr_buf := take 1591 w, dr_expected := Some (length w)\<rparr>"
  have "feed (Some (of_nat (length w))) (take 1591 w) r = (?r, Inr None)"
    using assms False n by (simp add: feed_def dvc_push_def Let_def)
  moreover have "run_steps feed_step ?r (map (Pair None) ?ds) =
      (?r\<lparr>dr_buf := w, dr_expected := None\<rparr>, completed (length ?ds) w)"
    using push_rest [of ?r "length w" ?ds] cut_pieces [of "drop 1591 w" 1591] False E
    by (simp add: concat_cut list_all_iff)
  ultimately show ?thesis using False completed_Suc [OF cut_not_Nil, of 1591 "drop 1591 w" w]
    by (simp add: fragments_all pieces_def feed_step_def comp_def dvc_in_progress_def)
qed

subsection \<open>What a payload becomes on the wire\<close>

definition is_fragment :: "u32 \<Rightarrow> dvc_pdu \<Rightarrow> bool" where
  "is_fragment i p \<longleftrightarrow> (\<exists>d. p = Data i d False \<and> length d \<le> 1591) \<or> (\<exists>n d. p = DataFirst i n d False \<and> length d \<le> 1591)"

lemma fragments_are: "p \<in> set (fragments_from i w 0) \<Longrightarrow> is_fragment i p"
  by (auto simp: fragments_all is_fragment_def dest: length_cut [rotated] split: if_splits)

lemma id_bytes_short: "length (id_bytes (width_code_for v) v) \<le> 4"
  by (simp add: id_bytes_def)

lemma fragment_one_chunk:
  assumes "is_fragment i p"
  shows "length (dvc_bytes p) \<le> 1600"
proof -
  consider d where "p = Data i d False" "length d \<le> 1591" | n d where "p = DataFirst i n d False" "length d \<le> 1591"
    using assms by (auto simp: is_fragment_def)
  then show ?thesis
  proof cases
    case (2 n d)
    then show ?thesis using id_bytes_short [of i] id_bytes_short [of n] by (simp add: dvc_bytes_def)
  qed (use id_bytes_short [of i] in \<open>simp add: dvc_bytes_def\<close>)
qed

lemma fragment_sendable: "is_fragment i p \<Longrightarrow> dvc_sendable p" "is_fragment i p \<Longrightarrow> dvc_receivable p"
  by (auto simp: is_fragment_def)

lemma one_chunk: "length b \<le> 1600 \<Longrightarrow> chunks_of b = [\<lparr>ck_header = header_single (of_nat (length b)), ck_data = b\<rparr>]"
  by (simp add: chunks_labelled cut.simps [of 1600 b] header_single_def)

definition frame_of_fragment :: "u16 \<Rightarrow> u16 \<Rightarrow> dvc_pdu \<Rightarrow> bytes" where
  "frame_of_fragment user st p =
     frame_of_chunk user st 0 \<lparr>ck_header = header_single (of_nat (length (dvc_bytes p))), ck_data = dvc_bytes p\<rparr>"

lemma write_dvc_frame:
  assumes "is_user_id (cx_user_channel_id ctx)" and "dvc_sendable p" and "length (dvc_bytes p) \<le> 1600"
  shows "write_dvc p st ctx (x, out) =
    ((x, out\<lparr>ob_frames := ob_frames out @ [frame_of_fragment (cx_user_channel_id ctx) st p]\<rparr>), Inr ())"
  using try_written_appends [OF encode_dvc_appends [OF assms(2)]] channel_pdu_frames [OF assms(1), of st "dvc_bytes p" 0]
  by (simp add: write_dvc_def Let_def encode_channel_pdu_def one_chunk [OF assms(3)] frame_of_fragment_def)

lemma write_all_frames:
  "is_user_id (cx_user_channel_id ctx) \<Longrightarrow> list_all (is_fragment i) ps \<Longrightarrow>
   write_all ps st ctx (x, out) =
    ((x, out\<lparr>ob_frames := ob_frames out @ map (frame_of_fragment (cx_user_channel_id ctx) st) ps\<rparr>), Inr ())"
proof (induction ps arbitrary: out)
  case (Cons p ps)
  then show ?case
    using write_dvc_frame [of ctx p st x out] fragment_sendable [of i p] fragment_one_chunk [of i p]
    by (simp add: st_bind_def)
qed simp

lemma fragment_frames:
  "is_user_id (cx_user_channel_id ctx) \<Longrightarrow>
   fragment i w st ctx (x, out) =
    ((x, out\<lparr>ob_frames := ob_frames out @ map (frame_of_fragment (cx_user_channel_id ctx) st) (fragments_from i w 0)\<rparr>), Inr ())"
  unfolding fragment_def by (rule write_all_frames [where i = i]) (auto simp: list_all_iff fragments_are)

text \<open>The dynamic channel PDU inside a frame, as the other side reads it off the static channel.\<close>

definition receive_dvc :: "bytes \<Rightarrow> rdp_error + u16 \<times> dvc_pdu" where
  "receive_dvc frame =
     bind_res (unwrap_frame frame) (\<lambda>(channel, k).
       if ck_header k = header_single (of_nat (length (ck_data k)))
       then lift_pdu (bind_res (decode_dvc (reader_new (ck_data k))) (\<lambda>(p, _). Inr (channel, p)))
       else Inl (Protocol (Said ''more than one chunk'' [])))"

lemma receive_fragment:
  assumes "is_user_id user" and "is_fragment i p"
  shows "receive_dvc (frame_of_fragment user st p) = Inr (st, p)"
proof -
  let ?k = "\<lparr>ck_header = header_single (of_nat (length (dvc_bytes p))), ck_data = dvc_bytes p\<rparr>"
  have len: "length (dvc_bytes p) \<le> 1600" by (rule fragment_one_chunk [OF assms(2)])
  have "unwrap_frame (frame_of_fragment user st p) = Inr (st, ?k)"
    unfolding frame_of_fragment_def frame_of_chunk_def set_flags_0
    by (rule unwrap_request [OF assms(1)]) (use len in \<open>simp add: MAX_LENGTH_DETERMINANT_def\<close>)
  moreover have "\<exists>r'. decode_dvc (reader_new (dvc_bytes p)) = Inr (p, r')"
    using decode_dvc_round [of "reader_new (dvc_bytes p)" p] fragment_sendable(2) [OF assms(2)] len by auto
  ultimately show ?thesis by (auto simp: receive_dvc_def)
qed

subsection \<open>Seen from one channel\<close>

text \<open>
  Handlers that only record what they are given: they stand for any handler, and make the deliveries
  part of the state.
\<close>

definition recording :: "(bytes list, bytes list, unit) handlers" where
  "recording =
     \<lparr>hd_egfx_new = [], hd_egfx_opened = (\<lambda>_ s. (s, Inr ())),
      hd_egfx_message = (\<lambda>msg _ (g, ev, rb). ((g @ [msg], ev, rb), Inr ())),
      hd_audio_new = [], hd_audio_message = (\<lambda>msg (a, ev, rb). ((a @ [msg], ev, rb), Inr ()))\<rparr>"

fun log_of :: "(bytes list, bytes list) dyn_kind \<Rightarrow> bytes list option" where
  "log_of (Egfx g) = Some g"
| "log_of (Audio a) = Some a"
| "log_of (Display _) = None"

text \<open>What a channel is: the messages delivered so far, and the reassembler.\<close>

definition channel_view :: "(bytes list, bytes list) dyn_channel \<Rightarrow> bytes list option \<times> dvc_reassembler" where
  "channel_view c = (log_of (dy_kind c), dy_reassembler c)"

definition view :: "(bytes list, bytes list) dvc_mux \<Rightarrow> u32 \<Rightarrow> (bytes list option \<times> dvc_reassembler) option" where
  "view x = map_of (map (\<lambda>c. (dy_id c, channel_view c)) (mx_open x))"

definition deliver_to :: "bytes list option \<times> dvc_reassembler \<Rightarrow> u32 option \<times> bytes \<Rightarrow> bytes list option \<times> dvc_reassembler" where
  "deliver_to v p =
     (let (r', out) = feed (fst p) (snd p) (snd v)
      in (case out of Inr (Some m) \<Rightarrow> map_option (\<lambda>g. g @ [m]) (fst v) | _ \<Rightarrow> fst v, r'))"

lemma view_update:
  assumes "distinct (map dy_id cs)" and "i < length cs" and "dy_id c = dy_id (cs ! i)"
  shows "map_of (map (\<lambda>c. (dy_id c, channel_view c)) (cs[i := c])) =
    (map_of (map (\<lambda>c. (dy_id c, channel_view c)) cs))(dy_id c \<mapsto> channel_view c)"
  using assms
proof (induction cs arbitrary: i)
  case (Cons a cs)
  show ?case
  proof (cases i)
    case (Suc j)
    then have "dy_id a \<noteq> dy_id c" using Cons.prems by (auto simp: image_iff)
    then show ?thesis using Cons Suc by (auto simp: fun_eq_iff)
  qed (use Cons.prems in \<open>auto simp: fun_eq_iff\<close>)
qed simp

lemma handle_recording:
  assumes "i < length (mx_open x)"
  obtains k where "mx_open (fst (fst (handle recording now msg ctx i (x, out)))) =
      (mx_open x)[i := (mx_open x ! i)\<lparr>dy_kind := k\<rparr>]"
    and "log_of k = map_option (\<lambda>g. g @ [msg]) (log_of (dy_kind (mx_open x ! i)))"
proof (cases "dy_kind (mx_open x ! i)")
  case (Display d)
  obtain d' rb res where "display_message now msg (d, mx_replies x) = ((d', rb), res)" by (metis prod.exhaust)
  then show thesis using Display by (intro that [of "Display d'"]) (simp_all add: handle_def)
qed (use that in \<open>auto simp: handle_def recording_def\<close>)

lemma data_view:
  assumes "mux_ok x"
  shows "view (fst (fst (mux_data recording now i t d False st ctx (x, out)))) =
    (case view x i of None \<Rightarrow> view x | Some v \<Rightarrow> (view x)(i \<mapsto> deliver_to v (t, d)))"
proof (cases "position (\<lambda>c. dy_id c = i) (mx_open x)")
  case None
  then have "view x i = None" by (auto simp: view_def map_of_eq_None_iff)
  then show ?thesis using None by (simp add: mux_data_def del: position_None)
next
  case (Some k)
  let ?ch = "mx_open x ! k" and ?cs = "mx_open x"
  have k: "k < length ?cs" and id: "dy_id ?ch = i" using position_Some [OF Some] by auto
  have dis: "distinct (map dy_id ?cs)" using assms by (simp add: mux_ok_def)
  have v: "view x i = Some (channel_view ?ch)"
    unfolding view_def using dis k id by (intro map_of_is_SomeI) (auto simp: comp_def)
  obtain r o' where f: "feed t d (dy_reassembler ?ch) = (r, o')" by (cases "feed t d (dy_reassembler ?ch)")
  let ?x = "x\<lparr>mx_open := ?cs[k := ?ch\<lparr>dy_reassembler := r\<rparr>]\<rparr>"
  have open_view: "view y = (view x)(i \<mapsto> channel_view c)" if "mx_open y = ?cs[k := c]" "dy_id c = i"
    for y :: "(bytes list, bytes list) dvc_mux" and c
    using view_update [OF dis k, of c] that id by (simp add: view_def)
  show ?thesis
  proof (cases "\<exists>m. o' = Inr (Some m)")
    case False
    have "fst (fst (mux_data recording now i t d False st ctx (x, out))) = ?x"
      using False Some f by (auto simp: mux_data_def Let_def split: sum.split option.split)
    then have "view (fst (fst (mux_data recording now i t d False st ctx (x, out)))) =
        (view x)(i \<mapsto> channel_view (?ch\<lparr>dy_reassembler := r\<rparr>))"
      by (intro open_view) (simp_all add: id)
    moreover have "channel_view (?ch\<lparr>dy_reassembler := r\<rparr>) = deliver_to (channel_view ?ch) (t, d)"
      using False f by (auto simp: channel_view_def deliver_to_def split: sum.split option.split)
    ultimately show ?thesis by (simp add: v)
  next
    case True
    then obtain m where m: "o' = Inr (Some m)" by blast
    obtain kind where h: "mx_open (fst (fst (handle recording now m ctx k (?x, out)))) =
        (mx_open ?x)[k := (mx_open ?x ! k)\<lparr>dy_kind := kind\<rparr>]"
      and log: "log_of kind = map_option (\<lambda>g. g @ [m]) (log_of (dy_kind (mx_open ?x ! k)))"
      using handle_recording [of k ?x now m ctx out] k by auto
    obtain s1 res where hs: "handle recording now m ctx k (?x, out) = (s1, res)" by (cases "handle recording now m ctx k (?x, out)")
    have "mx_open (fst (fst (mux_data recording now i t d False st ctx (x, out)))) = mx_open (fst s1)"
      using Some f m flush_table [of i st ctx s1] by (cases res) (simp_all add: mux_data_def Let_def st_bind_def hs)
    also have "\<dots> = ?cs[k := ?ch\<lparr>dy_reassembler := r, dy_kind := kind\<rparr>]" using h k by (simp add: hs)
    finally have "view (fst (fst (mux_data recording now i t d False st ctx (x, out)))) =
        (view x)(i \<mapsto> channel_view (?ch\<lparr>dy_reassembler := r, dy_kind := kind\<rparr>))"
      by (rule open_view) (simp add: id)
    moreover have "channel_view (?ch\<lparr>dy_reassembler := r, dy_kind := kind\<rparr>) = deliver_to (channel_view ?ch) (t, d)"
      using f m log k by (simp add: channel_view_def deliver_to_def)
    ultimately show ?thesis by (simp add: v)
  qed
qed

text \<open>The fragment a message from the server is, for the channel it names.\<close>

definition data_of :: "bytes \<Rightarrow> (u32 \<times> u32 option \<times> bytes) option" where
  "data_of msg = (case decode_dvc (reader_new msg) of Inr (p, _) \<Rightarrow> piece_of p | Inl _ \<Rightarrow> None)"

lemma message_view:
  assumes "mux_ok x" and "data_of msg = Some (i, p)"
  shows "view (fst (fst (mux_message recording now msg st ctx (x, out)))) =
    (case view x i of None \<Rightarrow> view x | Some v \<Rightarrow> (view x)(i \<mapsto> deliver_to v p))"
proof -
  obtain pdu r where d: "decode_dvc (reader_new msg) = Inr (pdu, r)" and p: "piece_of pdu = Some (i, p)"
    using assms(2) by (auto simp: data_of_def split: sum.splits)
  from p show ?thesis
    by (cases pdu rule: piece_of.cases) (use data_view [OF assms(1), of now i _ _ st ctx out] in \<open>auto simp: mux_message_def d\<close>)
qed

text \<open>
  A run over fragments of any channels in any order. Each message comes with the context it was
  delivered in and the time it arrived.
\<close>

definition fragments_of :: "u32 \<Rightarrow> bytes list \<Rightarrow> (u32 option \<times> bytes) list" where
  "fragments_of j msgs = map snd (filter (\<lambda>d. fst d = j) (map (the \<circ> data_of) msgs))"

lemma run_view:
  "mux_ok x \<Longrightarrow> list_all (\<lambda>(_, e). case e of FromServer _ msg \<Rightarrow> data_of msg \<noteq> None | _ \<Rightarrow> False) es \<Longrightarrow>
   view (fst (mux_run recording st es (x, out))) j =
     map_option (\<lambda>v. fold (\<lambda>p v. deliver_to v p)
       (fragments_of j (map (\<lambda>(_, e). case e of FromServer _ msg \<Rightarrow> msg | _ \<Rightarrow> []) es)) v) (view x j)"
proof (induction es arbitrary: x out)
  case (Cons a es)
  obtain ctx now msg where a: "a = (ctx, FromServer now msg)"
    using Cons.prems(2) by (cases a) (auto split: mux_event.splits)
  then obtain i p where d: "data_of msg = Some (i, p)" using Cons.prems(2) by auto
  obtain y out' res where y: "mux_message recording now msg st ctx (x, out) = ((y, out'), res)" by (metis prod.exhaust)
  have "mux_ok y" using keepsD [OF keeps_message, of "(x, out)" recording now msg st ctx] Cons.prems(1) y by simp
  note IH = Cons.IH [OF this, of out']
  have v: "view y = (case view x i of None \<Rightarrow> view x | Some v \<Rightarrow> (view x)(i \<mapsto> deliver_to v p))"
    using message_view [OF Cons.prems(1) d, of now st ctx out] y by simp
  show ?case
  proof (cases "i = j")
    case True
    then show ?thesis using IH Cons.prems(2) v by (cases "view x j") (simp_all add: a y d fragments_of_def)
  next
    case False
    then have "view y j = view x j" using v by (simp split: option.split)
    then show ?thesis using IH Cons.prems(2) False by (simp add: a y d fragments_of_def)
  qed
next
  case Nil
  show ?case by (cases "view x j") (simp_all add: fragments_of_def)
qed

text \<open>The deliveries of one channel are those of its reassembler alone.\<close>

definition messages_in :: "(pdu_error + bytes option) list \<Rightarrow> bytes list" where
  "messages_in outs = concat (map (\<lambda>out. case out of Inr (Some m) \<Rightarrow> [m] | _ \<Rightarrow> []) outs)"

lemma messages_in_simps [simp]:
  "messages_in [] = []"
  "messages_in (out # outs) = (case out of Inr (Some m) \<Rightarrow> [m] | _ \<Rightarrow> []) @ messages_in outs"
  by (simp_all add: messages_in_def)

lemma deliver_run:
  "fold (\<lambda>p v. deliver_to v p) ps (log, r) =
     (map_option (\<lambda>g. g @ messages_in (snd (run_steps feed_step r ps))) log, fst (run_steps feed_step r ps))"
proof (induction ps arbitrary: log r)
  case (Cons p ps)
  obtain r' out where f: "feed (fst p) (snd p) r = (r', out)" by (cases "feed (fst p) (snd p) r")
  have 1: "deliver_to (log, r) p = (map_option (\<lambda>g. g @ messages_in [out]) log, r')"
    by (cases log) (simp_all add: deliver_to_def f split: sum.split option.split)
  have 2: "feed_step r p = (r', [out])" by (simp add: feed_step_def f)
  show ?case
    by (simp add: 1 2 Cons.IH option.map_comp comp_def Let_def case_prod_beta)
next
  case Nil
  show ?case by (cases log) simp_all
qed

section \<open>Creating a channel\<close>

text \<open>
  What a Create Request does: refused without touching anything when it comes before the capability
  exchange or reuses an id, answered with a status otherwise, and the status is on the wire before
  anything the new channel has to say.
\<close>

definition create_frame :: "u16 \<Rightarrow> u16 \<Rightarrow> u32 \<Rightarrow> u32 \<Rightarrow> bytes" where
  "create_frame user st channel_id status = frame_of_fragment user st (CreateResponse channel_id status)"

lemma create_short: "length (dvc_bytes (CreateResponse i status)) \<le> 1600"
  using id_bytes_short [of i] by (simp add: dvc_bytes_def)

lemma write_response:
  "is_user_id (cx_user_channel_id ctx) \<Longrightarrow> write_dvc (CreateResponse i status) st ctx (x, out) =
    ((x, out\<lparr>ob_frames := ob_frames out @ [create_frame (cx_user_channel_id ctx) st i status]\<rparr>), Inr ())"
  unfolding create_frame_def by (rule write_dvc_frame) (simp_all add: create_short)

lemma fragment_each_frames:
  "is_user_id (cx_user_channel_id ctx) \<Longrightarrow>
   \<exists>fs. fragment_each bs i st ctx (x, out) = ((x, out\<lparr>ob_frames := ob_frames out @ fs\<rparr>), Inr ())"
proof (induction bs arbitrary: out)
  case Nil
  show ?case by (intro exI [of _ "[]"]) simp
next
  case (Cons b bs)
  let ?fs = "map (frame_of_fragment (cx_user_channel_id ctx) st) (fragments_from i b 0)"
  obtain fs where "fragment_each bs i st ctx (x, out\<lparr>ob_frames := ob_frames out @ ?fs\<rparr>) =
      ((x, out\<lparr>ob_frames := (ob_frames out @ ?fs) @ fs\<rparr>), Inr ())"
    using Cons.IH [OF Cons.prems, of "out\<lparr>ob_frames := ob_frames out @ ?fs\<rparr>"] by auto
  then show ?case using fragment_frames [OF Cons.prems, of i b st x out]
    by (intro exI [of _ "?fs @ fs"]) (simp add: st_bind_step)
qed

lemma flush_frames:
  "is_user_id (cx_user_channel_id ctx) \<Longrightarrow>
   \<exists>fs rb. mux_flush i st ctx (x, out) = ((x\<lparr>mx_replies := rb\<rparr>, out\<lparr>ob_frames := ob_frames out @ fs\<rparr>), Inr ())"
proof (cases "rb_ready (mx_replies x) = []")
  case True
  then show ?thesis by (intro exI [of _ "[]"] exI [of _ "mx_replies x"]) (simp add: mux_flush_def)
next
  case False
  assume user: "is_user_id (cx_user_channel_id ctx)"
  obtain fs where "fragment_each (rb_ready (mx_replies x)) i st ctx (x, out) =
      ((x, out\<lparr>ob_frames := ob_frames out @ fs\<rparr>), Inr ())"
    using fragment_each_frames [OF user] by blast
  with False show ?thesis
    by (intro exI [of _ fs] exI [of _ "\<lparr>rb_ready = [], rb_spare = rb_spare (mx_replies x) + length (rb_ready (mx_replies x))\<rparr>"])
      (simp add: mux_flush_def Let_def)
qed

text \<open>The names the client speaks.\<close>

definition spoken :: "chars \<Rightarrow> bool" where
  "spoken name \<longleftrightarrow> name = AUDIO_CHANNEL_NAME \<or> name = DISPLAY_CHANNEL_NAME \<or> name = EGFX_CHANNEL_NAME"

definition may_create :: "('g, 'a) dvc_mux \<Rightarrow> u32 \<Rightarrow> bool" where
  "may_create x i \<longleftrightarrow> mx_version x \<noteq> None \<and> \<not> list_ex (\<lambda>c. dy_id c = i) (mx_open x)"

lemma create_refused:
  "\<not> may_create x i \<Longrightarrow> \<exists>why. mux_create hs now i name st ctx (x, out) = ((x, out), Inl (Protocol why))"
  unfolding may_create_def by (cases "mx_version x = None") (auto simp: mux_create_def Let_def simp del: not_None_eq)

lemma create_unknown:
  "may_create x i \<Longrightarrow> \<not> spoken name \<Longrightarrow> is_user_id (cx_user_channel_id ctx) \<Longrightarrow>
   mux_create hs now i name st ctx (x, out) =
     ((x, out\<lparr>ob_frames := ob_frames out @ [create_frame (cx_user_channel_id ctx) st i STATUS_NOT_FOUND]\<rparr>), Inr ())"
  unfolding may_create_def spoken_def by (simp add: mux_create_def write_response Let_def)

lemma create_audio:
  "may_create x i \<Longrightarrow> is_user_id (cx_user_channel_id ctx) \<Longrightarrow> name = AUDIO_CHANNEL_NAME \<Longrightarrow>
   mux_create hs now i name st ctx (x, out) =
     ((x\<lparr>mx_open := mx_open x @ [\<lparr>dy_id = i, dy_kind = Audio (hd_audio_new hs),
           dy_reassembler = dvc_with_cap AUDIO_REASSEMBLY_CAP\<rparr>]\<rparr>,
       out\<lparr>ob_frames := ob_frames out @ [create_frame (cx_user_channel_id ctx) st i STATUS_SUCCESS]\<rparr>), Inr ())"
  unfolding may_create_def by (simp add: mux_create_def Let_def st_bind_def write_response mux_push_def)

end
