(* ===== verification/Static_Registry.thy ===== *)
theory Static_Registry
  imports Dvc_Mux_Delivery
begin

text \<open>
  The registry of static virtual channels (\<open>StaticChannels\<close> of \<open>crates/rdp-core/src/channels/mod.rs\<close>)
  over the channels a session joined (\<open>ChannelMap\<close> of \<open>connection/mcs.rs\<close>): one reassembler per
  channel, delivery of a chunk, and what a reset drops. The clipboard handler is a parameter.
\<close>

subsection \<open>Joined channels\<close>

record channel_map =
  cm_io_channel_id :: u16
  cm_user_channel_id :: u16
  cm_message_channel_id :: "u16 option"
  cm_statics :: "(string \<times> u16) list"

definition by_name :: "channel_map \<Rightarrow> string \<Rightarrow> u16 option" where
  "by_name m name = map_of (cm_statics m) name"

definition knows :: "channel_map \<Rightarrow> u16 \<Rightarrow> bool" where
  "knows m i \<longleftrightarrow> i = cm_io_channel_id m \<or> i = cm_user_channel_id m \<or> cm_message_channel_id m = Some i \<or>
     list_ex (\<lambda>(_, c). c = i) (cm_statics m)"

definition join_order :: "channel_map \<Rightarrow> u16 list" where
  "join_order m =
     [cm_user_channel_id m, cm_io_channel_id m] @
     (case cm_message_channel_id m of None \<Rightarrow> [] | Some i \<Rightarrow> [i]) @ map snd (cm_statics m)"

definition CHANNEL_DRDYNVC :: string where "CHANNEL_DRDYNVC = ''drdynvc''"
definition CHANNEL_CLIPRDR :: string where "CHANNEL_CLIPRDR = ''cliprdr''"
definition DRDYNVC_REASSEMBLY_CAP :: nat where "DRDYNVC_REASSEMBLY_CAP = 4 * 1024 * 1024"
definition CLIPRDR_REASSEMBLY_CAP :: nat where "CLIPRDR_REASSEMBLY_CAP = 16 * 1024 * 1024"

subsection \<open>The registry\<close>

datatype ('g, 'a, 'c) handler = DvcHandler "('g, 'a) dvc_mux" | CliprdrHandler 'c

record ('g, 'a, 'c) entry =
  en_id :: u16
  en_name :: string
  en_reassembler :: reassembler
  en_handler :: "('g, 'a, 'c) handler"

text \<open>The clipboard: how it starts, its messages, and the two commands of the shell.\<close>

record ('c, 'ev) clipboard =
  cb_new :: 'c
  cb_message :: "bytes \<Rightarrow> u16 \<Rightarrow> channel_ctx \<Rightarrow> ('c \<times> 'ev outbox, unit) op"
  cb_offer_text :: "chars \<Rightarrow> u16 \<Rightarrow> channel_ctx \<Rightarrow> ('c \<times> 'ev outbox, unit) op"
  cb_request_text :: "u16 \<Rightarrow> channel_ctx \<Rightarrow> ('c \<times> 'ev outbox, unit) op"

type_synonym ('g, 'a, 'c, 'ev) registry_op = "(('g, 'a, 'c) entry list \<times> 'ev outbox, unit) op"

fun entry_for :: "('c, 'ev) clipboard \<Rightarrow> string \<times> u16 \<Rightarrow> ('g, 'a, 'c) entry list" where
  "entry_for cb (name, i) =
     (if name = CHANNEL_DRDYNVC then
        [\<lparr>en_id = i, en_name = name, en_reassembler = with_cap DRDYNVC_REASSEMBLY_CAP, en_handler = DvcHandler mux_new\<rparr>]
      else if name = CHANNEL_CLIPRDR then
        [\<lparr>en_id = i, en_name = name, en_reassembler = with_cap CLIPRDR_REASSEMBLY_CAP, en_handler = CliprdrHandler (cb_new cb)\<rparr>]
      else [])"

definition registry_new :: "('c, 'ev) clipboard \<Rightarrow> channel_map \<Rightarrow> ('g, 'a, 'c) entry list" where
  "registry_new cb m = concat (map (entry_for cb) (cm_statics m))"

definition registry_handles :: "('g, 'a, 'c) entry list \<Rightarrow> u16 \<Rightarrow> bool" where
  "registry_handles es i \<longleftrightarrow> list_ex (\<lambda>e. en_id e = i) es"

definition name_of :: "('g, 'a, 'c) entry list \<Rightarrow> u16 \<Rightarrow> string option" where
  "name_of es i = map_option en_name (List.find (\<lambda>e. en_id e = i) es)"

definition reset_entry :: "('g, 'a, 'c) entry \<Rightarrow> ('g, 'a, 'c) entry" where
  "reset_entry e =
     (case en_handler e of
        DvcHandler _ \<Rightarrow> e\<lparr>en_reassembler := reset (en_reassembler e)\<rparr>
      | CliprdrHandler _ \<Rightarrow> e)"

definition registry_reset :: "('g, 'a, 'c) entry list \<Rightarrow> ('g, 'a, 'c) entry list" where
  "registry_reset es = map reset_entry es"

text \<open>A handler at work on its state and the outbox.\<close>

definition on_handler :: "nat \<Rightarrow> (u16 \<Rightarrow> ('g, 'a, 'ev) mux_op) \<Rightarrow> (u16 \<Rightarrow> ('c \<times> 'ev outbox, unit) op) \<Rightarrow> ('g, 'a, 'c, 'ev) registry_op" where
  "on_handler i f g s =
     (let (es, out) = s; e = es ! i in
      case en_handler e of
        DvcHandler x \<Rightarrow> let ((x', out'), res) = f (en_id e) (x, out) in ((es[i := e\<lparr>en_handler := DvcHandler x'\<rparr>], out'), res)
      | CliprdrHandler c \<Rightarrow> let ((c', out'), res) = g (en_id e) (c, out) in ((es[i := e\<lparr>en_handler := CliprdrHandler c'\<rparr>], out'), res))"

definition deliver ::
  "('g, 'a, 'ev) handlers \<Rightarrow> ('c, 'ev) clipboard \<Rightarrow> nat \<Rightarrow> u16 \<Rightarrow> bytes \<Rightarrow> channel_ctx \<Rightarrow> ('g, 'a, 'c, 'ev) registry_op" where
  "deliver hs cb now channel_id payload ctx s =
     (case position (\<lambda>e. en_id e = channel_id) (fst s) of
        None \<Rightarrow> st_ok () s
      | Some i \<Rightarrow>
          (case decode_header (reader_new payload) of
             Inl e \<Rightarrow> st_err (from_pdu e) s
           | Inr (header, r) \<Rightarrow>
               let (es, out) = s; e = es ! i; chunk = fst (rd_rest r);
                   (reass, res) = push (en_reassembler e) header chunk;
                   s1 = (es[i := e\<lparr>en_reassembler := reass\<rparr>], out) in
               case res of
                 Inl err \<Rightarrow> st_err (from_pdu err) s1
               | Inr None \<Rightarrow> st_ok () s1
               | Inr (Some msg) \<Rightarrow>
                   on_handler i (\<lambda>static_id. mux_message hs now msg static_id ctx)
                     (\<lambda>static_id. cb_message cb msg static_id ctx) s1))"

definition is_dvc :: "('g, 'a, 'c) entry \<Rightarrow> bool" where
  "is_dvc e \<longleftrightarrow> (case en_handler e of DvcHandler _ \<Rightarrow> True | CliprdrHandler _ \<Rightarrow> False)"

definition registry_resize :: "nat \<Rightarrow> u32 \<Rightarrow> u32 \<Rightarrow> u32 \<Rightarrow> channel_ctx \<Rightarrow> ('g, 'a, 'c, 'ev) registry_op" where
  "registry_resize now width height scale ctx s =
     (case position is_dvc (fst s) of
        None \<Rightarrow> st_ok () s
      | Some i \<Rightarrow> on_handler i (\<lambda>static_id. mux_resize now width height scale static_id ctx) (\<lambda>_. st_ok ()) s)"

definition registry_flush_pending :: "nat \<Rightarrow> channel_ctx \<Rightarrow> ('g, 'a, 'c, 'ev) registry_op" where
  "registry_flush_pending now ctx s =
     (case position is_dvc (fst s) of
        None \<Rightarrow> st_ok () s
      | Some i \<Rightarrow> on_handler i (\<lambda>static_id. mux_flush_pending_resize now static_id ctx) (\<lambda>_. st_ok ()) s)"

definition clipboard_text :: "('c, 'ev) clipboard \<Rightarrow> chars \<Rightarrow> channel_ctx \<Rightarrow> ('g, 'a, 'c, 'ev) registry_op" where
  "clipboard_text cb txt ctx s =
     (case position (\<lambda>e. \<not> is_dvc e) (fst s) of
        None \<Rightarrow> st_ok () s
      | Some i \<Rightarrow> on_handler i (\<lambda>_. st_ok ()) (\<lambda>static_id. cb_offer_text cb txt static_id ctx) s)"

definition clipboard_request :: "('c, 'ev) clipboard \<Rightarrow> channel_ctx \<Rightarrow> ('g, 'a, 'c, 'ev) registry_op" where
  "clipboard_request cb ctx s =
     (case position (\<lambda>e. \<not> is_dvc e) (fst s) of
        None \<Rightarrow> st_ok () s
      | Some i \<Rightarrow> on_handler i (\<lambda>_. st_ok ()) (\<lambda>static_id. cb_request_text cb static_id ctx) s)"

subsection \<open>The invariant\<close>

fun handler_cap :: "('g, 'a, 'c) handler \<Rightarrow> nat" where
  "handler_cap (DvcHandler _) = DRDYNVC_REASSEMBLY_CAP"
| "handler_cap (CliprdrHandler _) = CLIPRDR_REASSEMBLY_CAP"

definition entry_ok :: "('g, 'a, 'c) entry \<Rightarrow> bool" where
  "entry_ok e \<longleftrightarrow> reassembler_ok (en_reassembler e) \<and> rs_cap (en_reassembler e) = handler_cap (en_handler e) \<and>
     (case en_handler e of DvcHandler x \<Rightarrow> mux_ok x | CliprdrHandler _ \<Rightarrow> True)"

definition registry_ok :: "('g, 'a, 'c) entry list \<Rightarrow> bool" where
  "registry_ok es \<longleftrightarrow> list_all entry_ok es"

lemma registry_new_ok: "registry_ok (registry_new cb m)"
proof -
  have "list_all entry_ok (entry_for cb p)" for p
    by (cases p) (simp add: entry_ok_def with_cap_ok mux_new_ok,
        simp add: with_cap_def MAX_VC_REASSEMBLED_def DRDYNVC_REASSEMBLY_CAP_def CLIPRDR_REASSEMBLY_CAP_def)
  then show ?thesis by (auto simp: registry_ok_def registry_new_def list_all_iff)
qed

lemma on_handler_ok:
  assumes "registry_ok (fst s)" and "i < length (fst s)" and "\<And>j. keeps_mux (f j)"
  shows "registry_ok (fst (fst (on_handler i f g s))) \<and> map en_id (fst (fst (on_handler i f g s))) = map en_id (fst s)"
proof -
  obtain es out where s: "s = (es, out)" by (cases s)
  have e: "entry_ok (es ! i)" using assms(1,2) by (simp add: s registry_ok_def list_all_length)
  have upd: "registry_ok (es[i := e'])" "map en_id (es[i := e']) = map en_id es"
    if "entry_ok e'" "en_id e' = en_id (es ! i)" for e'
    using that assms(1,2) by (auto simp: s registry_ok_def list_all_length nth_list_update map_update list_update_same_conv)
  show ?thesis
  proof (cases "en_handler (es ! i)")
    case (DvcHandler x)
    obtain x' out' res where f: "f (en_id (es ! i)) (x, out) = ((x', out'), res)" by (metis prod.exhaust)
    have "mux_ok x'" using keepsD [OF assms(3), of "(x, out)" "en_id (es ! i)"] e f by (simp add: entry_ok_def DvcHandler)
    then show ?thesis using e by (simp add: on_handler_def s DvcHandler f entry_ok_def upd)
  next
    case (CliprdrHandler c)
    obtain c' out' res where "g (en_id (es ! i)) (c, out) = ((c', out'), res)" by (metis prod.exhaust)
    then show ?thesis using e by (simp add: on_handler_def s CliprdrHandler entry_ok_def upd)
  qed
qed

lemma registry_update:
  assumes "registry_ok es" and "i < length es" and "entry_ok e" and "en_id e = en_id (es ! i)"
  shows "registry_ok (es[i := e])" and "map en_id (es[i := e]) = map en_id es"
  using assms by (auto simp: registry_ok_def list_all_length nth_list_update map_update list_update_same_conv)

definition registry_inv :: "u16 list \<Rightarrow> ('g, 'a, 'c) entry list \<times> 'ev outbox \<Rightarrow> bool" where
  "registry_inv ids s \<longleftrightarrow> registry_ok (fst s) \<and> map en_id (fst s) = ids"

lemma keeps_deliver: "keeps (registry_inv ids) (deliver hs cb now channel_id payload ctx)"
  unfolding keeps_def
proof (intro allI impI)
  fix s :: "('a, 'b, 'c) entry list \<times> 'd outbox" assume inv: "registry_inv ids s"
  obtain es out where s: "s = (es, out)" by (cases s)
  show "registry_inv ids (fst (deliver hs cb now channel_id payload ctx s))"
  proof (cases "position (\<lambda>e. en_id e = channel_id) es")
    case None
    then show ?thesis using inv by (simp add: deliver_def s del: position_None)
  next
    case (Some i)
    then have i: "i < length es" using position_Some by blast
    have ok: "entry_ok (es ! i)" using inv i by (simp add: registry_inv_def s registry_ok_def list_all_length)
    show ?thesis
    proof (cases "decode_header (reader_new payload)")
      case (Inr hr)
      obtain h r where hr: "hr = (h, r)" by (cases hr)
      obtain reass res where p: "push (en_reassembler (es ! i)) h (fst (rd_rest r)) = (reass, res)"
        by (cases "push (en_reassembler (es ! i)) h (fst (rd_rest r))")
      let ?s = "(es[i := (es ! i)\<lparr>en_reassembler := reass\<rparr>], out)"
      have "entry_ok ((es ! i)\<lparr>en_reassembler := reass\<rparr>)"
        using ok push_ok [of "en_reassembler (es ! i)" h "fst (rd_rest r)"] push_cap [of "en_reassembler (es ! i)" h "fst (rd_rest r)"]
        by (simp add: entry_ok_def p)
      then have 1: "registry_inv ids ?s"
        using inv registry_update [of es i "(es ! i)\<lparr>en_reassembler := reass\<rparr>"] i by (simp add: registry_inv_def s)
      have "registry_inv ids (fst (on_handler i (\<lambda>st. mux_message hs now msg st ctx) (\<lambda>st. cb_message cb msg st ctx) ?s))" for msg
      proof -
        have km: "keeps_mux (mux_message hs now msg st ctx)" for st by (rule keeps_message)
        show ?thesis
          using on_handler_ok [where s = ?s and i = i and g = "\<lambda>st. cb_message cb msg st ctx", OF _ _ km] 1 i
          by (simp add: registry_inv_def)
      qed
      then show ?thesis
        using 1 Some by (simp add: deliver_def s Inr hr p Let_def split: sum.split option.split)
    qed (use inv Some in \<open>simp add: deliver_def s\<close>)
  qed
qed

lemma keeps_registry_resize: "keeps (registry_inv ids) (registry_resize now w h scale ctx)"
  and keeps_registry_flush: "keeps (registry_inv ids) (registry_flush_pending now ctx)"
  unfolding keeps_def registry_inv_def registry_resize_def registry_flush_pending_def
  by (auto split: option.split dest: position_Some simp del: position_None
      intro!: on_handler_ok [THEN conjunct1] on_handler_ok [THEN conjunct2, THEN trans] keeps_resize keeps_flush_pending)

lemma reset_ok: "entry_ok e \<Longrightarrow> entry_ok (reset_entry e)"
  by (simp add: entry_ok_def reset_entry_def reset_def reassembler_ok_def split: handler.splits)

lemma registry_reset_inv: "registry_inv ids (es, out) \<Longrightarrow> registry_inv ids (registry_reset es, out)"
  by (auto simp: registry_inv_def registry_ok_def registry_reset_def list_all_iff reset_ok)
    (simp add: reset_entry_def split: handler.split)

subsection \<open>The chunks of a message are one message\<close>

lemma position_first: "i < length es \<Longrightarrow> distinct (map f es) \<Longrightarrow> position (\<lambda>e. f e = f (es ! i)) es = Some i"
proof (induction es arbitrary: i)
  case (Cons e es)
  show ?case
  proof (cases i)
    case (Suc j)
    then have "f e \<noteq> f (es ! j)" using Cons.prems by (auto simp: image_iff)
    then show ?thesis using Suc Cons by simp
  qed simp
qed simp

fun deliver_all ::
  "('g, 'a, 'ev) handlers \<Rightarrow> ('c, 'ev) clipboard \<Rightarrow> nat \<Rightarrow> u16 \<Rightarrow> channel_ctx \<Rightarrow> bytes list \<Rightarrow> ('g, 'a, 'c, 'ev) registry_op" where
  "deliver_all hs cb now channel_id ctx [] = st_ok ()"
| "deliver_all hs cb now channel_id ctx (p # ps) =
     st_bind (deliver hs cb now channel_id p ctx) (\<lambda>_. deliver_all hs cb now channel_id ctx ps)"

lemma deliver_chunk:
  assumes "position (\<lambda>e. en_id e = channel_id) es = Some i" and "length (ck_data k) \<le> 1600"
  shows "deliver hs cb now channel_id (chunk_bytes k) ctx (es, out) =
    (let (reass, res) = push (en_reassembler (es ! i)) (ck_header k) (ck_data k);
         s1 = (es[i := (es ! i)\<lparr>en_reassembler := reass\<rparr>], out) in
     case res of
       Inl err \<Rightarrow> (s1, Inl (from_pdu err))
     | Inr None \<Rightarrow> (s1, Inr ())
     | Inr (Some msg) \<Rightarrow> on_handler i (\<lambda>st. mux_message hs now msg st ctx) (\<lambda>st. cb_message cb msg st ctx) s1)"
proof -
  let ?r = "reader_new (chunk_bytes k)"
  have l: "left ?r = header_bytes (ck_header k) @ ck_data k" by (simp add: chunk_bytes_def)
  have n: "length (header_bytes (ck_header k)) = 8" by (simp add: header_bytes_def)
  have ok: "reader_ok ?r" using assms(2) by (simp add: chunk_size_exact chunk_size_of_def)
  have "decode_header ?r = Inr (ck_header k, advance 8 ?r)" using vc_header.round [OF ok _ l] n by simp
  moreover have "fst (rd_rest (advance 8 ?r)) = ck_data k"
    using rd_rest_left [of "advance 8 ?r"] ok l n left_length [OF l] by simp
  ultimately show ?thesis using assms(1) by (simp add: deliver_def Let_def)
qed

text \<open>
  Feeding the chunks of a message to the channel it is addressed to: nothing happens until the last
  one, and then the handler sees the message, once.
\<close>

lemma update_reassembler: "i < length es \<Longrightarrow> es[i := (es ! i)\<lparr>en_reassembler := s\<rparr>] ! i = (es ! i)\<lparr>en_reassembler := s\<rparr>"
  by simp

lemma position_update:
  "position (\<lambda>e. en_id e = c) es = Some i \<Longrightarrow> position (\<lambda>e. en_id e = c) (es[i := (es ! i)\<lparr>en_reassembler := s\<rparr>]) = Some i"
proof (induction es arbitrary: i)
  case (Cons e es)
  then show ?case by (cases i) (auto split: if_splits)
qed simp

lemma deliver_silent:
  assumes "position (\<lambda>e. en_id e = c) es = Some i" and "\<forall>k\<in>set ks. length (ck_data k) \<le> 1600"
    and "run_steps push_step (en_reassembler (es ! i)) ks = (s', replicate (length ks) (Inr None))"
  shows "deliver_all hs cb now c ctx (map chunk_bytes ks) (es, out) = ((es[i := (es ! i)\<lparr>en_reassembler := s'\<rparr>], out), Inr ())"
  using assms
proof (induction ks arbitrary: es)
  case Nil
  then have "(es ! i)\<lparr>en_reassembler := s'\<rparr> = es ! i" by simp
  then have "es[i := (es ! i)\<lparr>en_reassembler := s'\<rparr>] = es" by (simp only: list_update_id)
  then show ?case by (simp only: deliver_all.simps list.map st_simps)
next
  case (Cons k ks)
  have i: "i < length es" using Cons.prems(1) position_Some by blast
  obtain s1 o1 where p1: "push (en_reassembler (es ! i)) (ck_header k) (ck_data k) = (s1, o1)"
    by (cases "push (en_reassembler (es ! i)) (ck_header k) (ck_data k)")
  then have "push_step (en_reassembler (es ! i)) k = (s1, [o1])" by (simp add: push_step_def)
  then have rest: "run_steps push_step s1 ks = (s', replicate (length ks) (Inr None))"
    and p: "push (en_reassembler (es ! i)) (ck_header k) (ck_data k) = (s1, Inr None)"
    using Cons.prems(3) p1 by (auto simp: Let_def split: prod.splits)
  let ?es = "es[i := (es ! i)\<lparr>en_reassembler := s1\<rparr>]"
  have "deliver hs cb now c (chunk_bytes k) ctx (es, out) = ((?es, out), Inr ())"
    using deliver_chunk [OF Cons.prems(1), of k hs cb now ctx out] Cons.prems(2) by (simp add: p)
  moreover have "deliver_all hs cb now c ctx (map chunk_bytes ks) (?es, out) =
      ((?es[i := (?es ! i)\<lparr>en_reassembler := s'\<rparr>], out), Inr ())"
    using Cons.prems rest i by (intro Cons.IH position_update) simp_all
  ultimately show ?case using i by (simp add: st_bind_def)
qed

lemma deliver_message:
  assumes "position (\<lambda>e. en_id e = c) es = Some i" and "rs_expected (en_reassembler (es ! i)) = None"
    and "length msg \<le> rs_cap (en_reassembler (es ! i))" and "length msg \<le> MAX_VC_REASSEMBLED"
  shows "\<exists>s'. rs_expected s' = None \<and>
    deliver_all hs cb now c ctx (map chunk_bytes (chunks_of msg)) (es, out) =
      on_handler i (\<lambda>st. mux_message hs now msg st ctx) (\<lambda>st. cb_message cb msg st ctx)
        (es[i := (es ! i)\<lparr>en_reassembler := s'\<rparr>], out)"
proof -
  let ?ks = "chunks_of msg"
  obtain s' where run: "run_steps push_step (en_reassembler (es ! i)) ?ks = (s', delivered (length ?ks) msg)"
    and s': "rs_expected s' = None"
    using chunks_put_together [OF assms(4,2,3)] by blast
  have small: "\<forall>k\<in>set ?ks. length (ck_data k) \<le> 1600" by (auto dest: chunks_small)
  have "?ks \<noteq> []" using run by (cases ?ks) (auto simp: delivered_def)
  then obtain ks k where ks: "?ks = ks @ [k]" by (metis append_butlast_last_id)
  obtain s1 os where 1: "run_steps push_step (en_reassembler (es ! i)) ks = (s1, os)"
    by (cases "run_steps push_step (en_reassembler (es ! i)) ks")
  obtain res where 2: "push s1 (ck_header k) (ck_data k) = (s', res)" and os: "os @ [res] = delivered (length ?ks) msg"
    using run by (auto simp: ks run_steps_append 1 push_step_def Let_def split: prod.splits)
  then have os: "os = replicate (length ks) (Inr None)" "res = Inr (Some msg)" by (simp_all add: delivered_def ks)
  let ?es = "es[i := (es ! i)\<lparr>en_reassembler := s1\<rparr>]"
  have i: "i < length es" using assms(1) position_Some by blast
  have "deliver_all hs cb now c ctx (map chunk_bytes ks) (es, out) = ((?es, out), Inr ())"
    using deliver_silent [OF assms(1), of ks s1 hs cb now ctx out] small 1 os by (simp add: ks)
  moreover have "deliver hs cb now c (chunk_bytes k) ctx (?es, out) =
      on_handler i (\<lambda>st. mux_message hs now msg st ctx) (\<lambda>st. cb_message cb msg st ctx) (es[i := (es ! i)\<lparr>en_reassembler := s'\<rparr>], out)"
    using deliver_chunk [OF position_update [OF assms(1)], of k hs cb now ctx s1 out] small i by (simp add: ks 2 os)
  moreover have "deliver_all hs cb now c ctx (xs @ ys) s =
      st_bind (deliver_all hs cb now c ctx xs) (\<lambda>_. deliver_all hs cb now c ctx ys) s" for xs ys s
    by (induction xs arbitrary: s) (auto simp: st_bind_def split: prod.split sum.split)
  ultimately show ?thesis using s' by (intro exI [of _ s']) (simp add: ks st_bind_step st_bind_ok)
qed

section \<open>Runs of the registry\<close>

text \<open>
  A registry at work: what the run loop does with it (\<open>deliver\<close>, \<open>resize\<close>, \<open>flush_pending_resize\<close>,
  the two clipboard commands and \<open>reset\<close>), in any order, whatever each call returns.
\<close>

datatype registry_event =
    Deliver nat u16 bytes channel_ctx
  | ResizeTo nat u32 u32 u32 channel_ctx
  | FlushPending nat channel_ctx
  | OfferText chars channel_ctx
  | RequestText channel_ctx
  | ResetAll

fun registry_event_op ::
  "('g, 'a, 'ev) handlers \<Rightarrow> ('c, 'ev) clipboard \<Rightarrow> registry_event \<Rightarrow> ('g, 'a, 'c, 'ev) registry_op" where
  "registry_event_op hs cb (Deliver now channel payload ctx) = deliver hs cb now channel payload ctx"
| "registry_event_op hs cb (ResizeTo now w h scale ctx) = registry_resize now w h scale ctx"
| "registry_event_op hs cb (FlushPending now ctx) = registry_flush_pending now ctx"
| "registry_event_op hs cb (OfferText txt ctx) = clipboard_text cb txt ctx"
| "registry_event_op hs cb (RequestText ctx) = clipboard_request cb ctx"
| "registry_event_op hs cb ResetAll = st_set (\<lambda>(es, out). (registry_reset es, out))"

definition registry_run ::
  "('g, 'a, 'ev) handlers \<Rightarrow> ('c, 'ev) clipboard \<Rightarrow> registry_event list \<Rightarrow>
    ('g, 'a, 'c) entry list \<times> 'ev outbox \<Rightarrow> ('g, 'a, 'c) entry list \<times> 'ev outbox" where
  "registry_run hs cb = fold (\<lambda>e s. fst (registry_event_op hs cb e s))"

lemma keeps_nothing: "keeps_mux (st_ok ())"
  by (simp add: keeps_def)

lemma keeps_clipboard_text: "keeps (registry_inv ids) (clipboard_text cb txt ctx)"
  and keeps_clipboard_request: "keeps (registry_inv ids) (clipboard_request cb ctx)"
  unfolding keeps_def registry_inv_def clipboard_text_def clipboard_request_def
  by (auto split: option.split dest: position_Some simp del: position_None
      intro!: on_handler_ok [THEN conjunct1] on_handler_ok [THEN conjunct2, THEN trans] keeps_nothing)

lemma keeps_registry_reset: "keeps (registry_inv ids) (st_set (\<lambda>(es, out). (registry_reset es, out)))"
  by (auto simp: keeps_def registry_reset_inv)

lemma keeps_registry_event: "keeps (registry_inv ids) (registry_event_op hs cb e)"
  by (cases e) (simp_all add: keeps_deliver keeps_registry_resize keeps_registry_flush keeps_clipboard_text
      keeps_clipboard_request keeps_registry_reset)

lemma registry_run_inv: "registry_inv ids s \<Longrightarrow> registry_inv ids (registry_run hs cb es s)"
  by (induction es arbitrary: s) (simp_all add: registry_run_def keepsD [OF keeps_registry_event])

text \<open>A message handed to the registry chunk by chunk reaches the handler of its channel.\<close>

definition idle :: "u16 \<Rightarrow> ('g, 'a, 'c) entry list \<Rightarrow> bool" where
  "idle c es \<longleftrightarrow> list_all (\<lambda>e. en_id e = c \<longrightarrow> rs_expected (en_reassembler e) = None) es"

lemma entry_cap: "entry_ok e \<Longrightarrow> DRDYNVC_REASSEMBLY_CAP \<le> rs_cap (en_reassembler e)"
  by (cases "en_handler e") (simp_all add: entry_ok_def DRDYNVC_REASSEMBLY_CAP_def CLIPRDR_REASSEMBLY_CAP_def)

lemma registry_message:
  assumes "registry_inv ids (es, out)" and "idle c es" and "length msg \<le> DRDYNVC_REASSEMBLY_CAP"
  shows "case position (\<lambda>e. en_id e = c) es of
      None \<Rightarrow> deliver_all hs cb now c ctx (map chunk_bytes (chunks_of msg)) (es, out) = ((es, out), Inr ())
    | Some i \<Rightarrow> \<exists>s'. rs_expected s' = None \<and>
        deliver_all hs cb now c ctx (map chunk_bytes (chunks_of msg)) (es, out) =
          on_handler i (\<lambda>st. mux_message hs now msg st ctx) (\<lambda>st. cb_message cb msg st ctx)
            (es[i := (es ! i)\<lparr>en_reassembler := s'\<rparr>], out)"
proof (cases "position (\<lambda>e. en_id e = c) es")
  case None
  have "deliver_all hs cb now c ctx ps (es, out) = ((es, out), Inr ())" for ps
    by (induction ps) (simp_all add: deliver_def None st_bind_def del: position_None)
  then show ?thesis by (simp add: None del: position_None)
next
  case (Some i)
  then have i: "i < length es" "en_id (es ! i) = c" using position_Some by blast+
  have "rs_expected (en_reassembler (es ! i)) = None" using assms(2) i by (auto simp: idle_def list_all_length)
  moreover have "DRDYNVC_REASSEMBLY_CAP \<le> rs_cap (en_reassembler (es ! i))"
    using assms(1) i by (intro entry_cap) (simp add: registry_inv_def registry_ok_def list_all_length)
  ultimately show ?thesis
    using deliver_message [OF Some, of msg hs cb now ctx out] assms(3)
    by (simp add: Some DRDYNVC_REASSEMBLY_CAP_def MAX_VC_REASSEMBLED_def)
qed

end
