(* ===== verification/Channel_Properties.thy ===== *)
theory Channel_Properties
  imports Display_Control Dvc_Mux_Delivery Static_Registry
begin

text \<open>
  The properties of the virtual channels of \<open>crates/rdp-core/src/channels\<close>: the display control
  channel (\<open>display.rs\<close>), the dynamic channel multiplexer (\<open>dvc.rs\<close>) and the registry of static
  channels (\<open>mod.rs\<close>).
\<close>

definition sample_ctx :: channel_ctx where
  "sample_ctx = \<lparr>cx_user_channel_id = 1007, cx_desktop = (1280, 720), cx_event_backlog = 0, cx_avc420 = False\<rparr>"

subsection \<open>Display control\<close>

text \<open>
  C19. Whatever the user resizes, the server sends and the clock ticks, from the opening of the
  channel on: two layouts that follow each other on the wire are at least the debounce apart and
  differ.
\<close>

theorem display_spaced: "spaced (snd (display_run display_new es))"
  by (rule run_spaced_new)

text \<open>
  Every layout that goes out on any event, in any state, is one the specification allows
  (one primary monitor at the origin, edges between 200 and 8192, a width that is a multiple of
  eight, scales from their ranges) and fits the pixel budget of capabilities the server announced.
\<close>

theorem display_legal:
  "list_all (\<lambda>(t, b). within_caps (ds_caps (fst (display_step d e))) b) (snd (display_step d e))"
  by (rule step_within_caps)

text \<open>
  What becomes of the size the user asked for last: when an older size is still held back by
  the debounce, the new one goes out at once, but the held one is not forgotten, and the next
  tick after the debounce sends it over the new one. The comment on \<open>resize\<close> says that the last
  size of a drag is the one that lands.
\<close>

theorem display_stale_resize_wins:
  assumes "ds_caps d = Some c" and "\<not> accepts_nothing c"
    and "ds_pending d = Some (w, h, s)" and "primary w h s = Some held" and "layout_area held \<le> pixel_budget c"
    and "\<not> too_soon now d" and "primary w' h' s' = Some newer" and "layout_area newer \<le> pixel_budget c"
    and "ds_last_sent d \<noteq> Some newer" and "newer \<noteq> held" and "now + RESIZE_DEBOUNCE \<le> tick"
  shows "snd (display_run d [Resize now w' h' s', Tick tick]) = [(now, layout_bytes newer), (tick, layout_bytes held)] \<and>
    ds_last_sent (fst (display_run d [Resize now w' h' s', Tick tick])) = Some held"
proof -
  let ?d = "d\<lparr>ds_last_sent := Some newer, ds_last_sent_at := Some now\<rparr>"
  have 1: "display_step d (Resize now w' h' s') = (?d, [(now, layout_bytes newer)])"
    by (rule resize_sends [OF assms(1,2,6,7,9,8)])
  have 2: "display_step ?d (Tick tick) =
      (?d\<lparr>ds_pending := None, ds_last_sent := Some held, ds_last_sent_at := Some tick\<rparr>, [(tick, layout_bytes held)])"
    by (rule tick_sends [where c = c and w = w and h = h and s = s]) (use assms in \<open>simp_all add: too_soon_def\<close>)
  show ?thesis by (simp add: display_run_def 1 2)
qed

lemma plain_layout_eq: "plain_layout a b = plain_layout c d \<longleftrightarrow> a = c \<and> b = d"
  by (simp add: plain_layout_def)

theorem display_stale_resize_wins_witness:
  "snd (display_run mid_drag [Resize 600000000 1920 1080 100, Tick 1000000000]) =
     [(600000000, layout_bytes (plain_layout 1920 1080)), (1000000000, layout_bytes (plain_layout 1280 720))]"
  using display_stale_resize_wins [of mid_drag four_k 1280 720 100 "plain_layout 1280 720" 600000000 1920 1080 100
      "plain_layout 1920 1080" 1000000000]
  by (simp add: mid_drag four_k_budget primary_plain too_soon_def RESIZE_DEBOUNCE_def plain_layout_eq)

text \<open>
  The pixel budget is a product of three 32 bit fields in 64 bits, and it wraps: capabilities
  with a product that is a positive multiple of \<open>2 ^ 64\<close> do not count as accepting nothing, but
  have the budget zero, and every size the user asks for is dropped. The comment on
  \<open>pixel_budget\<close> says that the type is wide enough for that not to happen.
\<close>

theorem pixel_budget_wraps:
  assumes "ds_caps d = Some c" and "ds_last_sent_at d = None"
    and "2 ^ 64 dvd unat (max_monitors c) * unat (area_factor_a c) * unat (area_factor_b c)" and "primary w h s \<noteq> None"
  shows "pixel_budget c = 0 \<and> display_step d (Resize now w h s) = (d, [])"
proof -
  obtain l where l: "primary w h s = Some l" using assms(4) by blast
  have zero: "pixel_budget c = 0" using assms(3) pixel_budget_exact [of c] by (simp add: mod_eq_0_iff_dvd flip: unat_eq_0)
  have "unat (layout_area l) \<noteq> 0"
    using primary_legal [OF l] by (auto simp: layout_area_exact legal_layout_def)
  then have "0 < layout_area l" by (auto simp: word_gt_0)
  then show ?thesis
    using assms(1,2) l zero by (simp add: display_step_def display_resize_def too_soon_def reply_new_def)
qed

theorem pixel_budget_wraps_witness:
  "\<not> accepts_nothing \<lparr>max_monitors = 4194304, area_factor_a = 2097152, area_factor_b = 2097152\<rparr> \<and>
   display_step (display_new\<lparr>ds_caps := Some \<lparr>max_monitors = 4194304, area_factor_a = 2097152, area_factor_b = 2097152\<rparr>\<rparr>)
     (Resize 0 1600 900 100) =
   (display_new\<lparr>ds_caps := Some \<lparr>max_monitors = 4194304, area_factor_a = 2097152, area_factor_b = 2097152\<rparr>\<rparr>, [])"
  using pixel_budget_wraps [of "display_new\<lparr>ds_caps := Some \<lparr>max_monitors = 4194304, area_factor_a = 2097152,
      area_factor_b = 2097152\<rparr>\<rparr>" _ 1600 900 100 0]
  by (simp add: accepts_nothing_def primary_plain display_new_def)

subsection \<open>The multiplexer\<close>

text \<open>
  Creating a dynamic channel: before the capability exchange, or under an id that is open, the
  request is an error that changes nothing; a name the client does not speak is answered
  NOT FOUND and opens nothing; an audio channel is answered SUCCESS and opened under its id with
  an empty reassembler of the audio cap.
\<close>

theorem create_guarded:
  assumes "is_user_id (cx_user_channel_id ctx)"
  shows "if \<not> may_create x i then \<exists>why. mux_create hs now i name st ctx (x, out) = ((x, out), Inl (Protocol why))
    else if \<not> spoken name then mux_create hs now i name st ctx (x, out) =
      ((x, out\<lparr>ob_frames := ob_frames out @ [create_frame (cx_user_channel_id ctx) st i STATUS_NOT_FOUND]\<rparr>), Inr ())
    else name \<noteq> AUDIO_CHANNEL_NAME \<or> mux_create hs now i name st ctx (x, out) =
      ((x\<lparr>mx_open := mx_open x @ [\<lparr>dy_id = i, dy_kind = Audio (hd_audio_new hs),
            dy_reassembler = dvc_with_cap AUDIO_REASSEMBLY_CAP\<rparr>]\<rparr>,
        out\<lparr>ob_frames := ob_frames out @ [create_frame (cx_user_channel_id ctx) st i STATUS_SUCCESS]\<rparr>), Inr ())"
proof (cases "may_create x i")
  case True
  then show ?thesis
    by (cases "spoken name"; cases "name = AUDIO_CHANNEL_NAME")
      (simp_all add: create_unknown [OF _ _ assms] create_audio [OF _ assms])
qed (simp add: create_refused)

theorem create_guarded_witness:
  "mux_create recording 0 7 [0x78] 1004 sample_ctx (mux_new\<lparr>mx_version := Some 3\<rparr>, (outbox_new :: unit outbox)) =
     ((mux_new\<lparr>mx_version := Some 3\<rparr>, outbox_new\<lparr>ob_frames := ob_frames (outbox_new :: unit outbox) @ [create_frame 1007 1004 7 STATUS_NOT_FOUND]\<rparr>), Inr ())"
proof -
  let ?x = "mux_new\<lparr>mx_version := Some 3\<rparr> :: (bytes list, bytes list) dvc_mux"
  have 1: "may_create ?x 7" "\<not> spoken [0x78]"
    by (simp_all add: may_create_def mux_new_def spoken_def chars_of_def EGFX_CHANNEL_NAME_def DISPLAY_CHANNEL_NAME_def
        AUDIO_CHANNEL_NAME_def)
  have 2: "cx_user_channel_id sample_ctx = 1007" "is_user_id (cx_user_channel_id sample_ctx)"
    by (simp_all add: sample_ctx_def is_user_id_def)
  show ?thesis using create_guarded [OF 2(2), of ?x 7 recording 0 "[0x78]" 1004 outbox_new] 1 by (simp add: 2(1))
qed

definition server_messages :: "(channel_ctx \<times> mux_event) list \<Rightarrow> bytes list" where
  "server_messages es = map (\<lambda>(_, e). case e of FromServer _ msg \<Rightarrow> msg | _ \<Rightarrow> []) es"

text \<open>
  C20. Messages of different dynamic channels never mix: however the server interleaves the fragments
  of its channels, what the handler of one channel has been given, and what its reassembler
  holds, is what the fragments of that channel alone produce, in their order.
\<close>

theorem mux_no_splicing:
  assumes "mux_ok x" and "list_all (\<lambda>(_, e). case e of FromServer _ msg \<Rightarrow> data_of msg \<noteq> None | _ \<Rightarrow> False) es"
  shows "view (fst (mux_run recording st es (x, out))) j =
    map_option (\<lambda>(log, r). let (r', outs) = run_steps feed_step r (fragments_of j (server_messages es))
      in (map_option (\<lambda>g. g @ messages_in outs) log, r')) (view x j)"
  unfolding run_view [OF assms] server_messages_def
  by (cases "view x j") (auto simp: deliver_run split_def Let_def)

definition two_open :: "(bytes list, bytes list) dvc_mux" where
  "two_open = mux_new\<lparr>mx_version := Some 3,
     mx_open := [\<lparr>dy_id = 7, dy_kind = Egfx [], dy_reassembler = dvc_with_cap EGFX_REASSEMBLY_CAP\<rparr>,
                 \<lparr>dy_id = 9, dy_kind = Audio [], dy_reassembler = dvc_with_cap AUDIO_REASSEMBLY_CAP\<rparr>]\<rparr>"

lemma data_of_bytes:
  "dvc_receivable p \<Longrightarrow> length (dvc_bytes p) < 2 ^ 63 \<Longrightarrow> data_of (dvc_bytes p) = piece_of p"
  using decode_dvc_round [of "reader_new (dvc_bytes p)" p] by (auto simp: data_of_def)

definition interleaved :: "(channel_ctx \<times> mux_event) list" where
  "interleaved = map (\<lambda>p. (sample_ctx, FromServer 0 (dvc_bytes p)))
     [DataFirst 7 2 [1] False, DataFirst 9 2 [5] False, Data 7 [2] False, Data 9 [6] False]"

lemma interleaved_data:
  "map (\<lambda>(_, e). case e of FromServer _ msg \<Rightarrow> data_of msg | _ \<Rightarrow> None) interleaved =
    [Some (7, Some 2, [1]), Some (9, Some 2, [5]), Some (7, None, [2]), Some (9, None, [6])]"
  by (simp add: interleaved_def data_of_bytes dvc_size_exact id_width_def width_code_for_def width_of_def)

theorem mux_no_splicing_witness:
  "map_option fst (view (fst (mux_run recording 1004 interleaved (two_open, (outbox_new :: unit outbox)))) 7) = Some (Some [[1, 2]]) \<and>
   map_option fst (view (fst (mux_run recording 1004 interleaved (two_open, (outbox_new :: unit outbox)))) 9) = Some (Some [[5, 6]])"
proof -
  have ok: "mux_ok two_open"
    by (simp add: two_open_def mux_ok_def mux_new_def channel_ok_def dvc_with_cap_ok MAX_DVC_VERSION_def)
      (simp add: dvc_with_cap_def EGFX_REASSEMBLY_CAP_def AUDIO_REASSEMBLY_CAP_def MAX_EGFX_PDU_def)
  have all: "list_all (\<lambda>(_, e). case e of FromServer _ msg \<Rightarrow> data_of msg \<noteq> None | _ \<Rightarrow> False) interleaved"
    using interleaved_data by (simp add: interleaved_def)
  have "fragments_of 7 (server_messages interleaved) = [(Some 2, [1]), (None, [2])]"
    "fragments_of 9 (server_messages interleaved) = [(Some 2, [5]), (None, [6])]"
    using interleaved_data by (simp_all add: interleaved_def fragments_of_def server_messages_def)
  moreover have "view two_open 7 = Some (Some [], dvc_with_cap EGFX_REASSEMBLY_CAP)"
    "view two_open 9 = Some (Some [], dvc_with_cap AUDIO_REASSEMBLY_CAP)"
    by (simp_all add: view_def two_open_def channel_view_def)
  ultimately show ?thesis
    unfolding mux_no_splicing [OF ok all]
    by (simp add: feed_step_def feed_def dvc_push_def dvc_with_cap_def EGFX_REASSEMBLY_CAP_def AUDIO_REASSEMBLY_CAP_def
        dvc_in_progress_def MAX_EGFX_PDU_def messages_in_def Let_def)
qed

text \<open>
  A payload the multiplexer sends on a dynamic channel arrives: its fragments go out as frames on
  the static channel, each frame opens to one fragment for that dynamic channel, and the same
  reassembler on the other side puts them together to the payload, exactly at the last one.
\<close>

theorem mux_payload_arrives:
  assumes "is_user_id (cx_user_channel_id ctx)"
    and "dvc_reassembler_ok r" and "\<not> dvc_in_progress r" and "length payload \<le> dr_cap r"
  shows "\<exists>frames ps r'. fragment i payload st ctx (x, out) = ((x, out\<lparr>ob_frames := ob_frames out @ frames\<rparr>), Inr ()) \<and>
    map receive_dvc frames = map (\<lambda>p. Inr (st, p)) ps \<and> list_all (is_fragment i) ps \<and>
    run_steps feed_step r (pieces ps) = (r', completed (length ps) payload)"
proof -
  let ?ps = "fragments_from i payload 0"
  have "map receive_dvc (map (frame_of_fragment (cx_user_channel_id ctx) st) ?ps) = map (\<lambda>p. Inr (st, p)) ?ps"
    by (auto intro!: receive_fragment [OF assms(1)] fragments_are)
  moreover have "list_all (is_fragment i) ?ps" using fragments_are by (auto simp: list_all_iff)
  ultimately show ?thesis using fragment_frames [OF assms(1)] fragments_reassemble [OF assms(2-4), of i] by blast
qed

theorem mux_payload_arrives_witness:
  "\<exists>frames ps r'. fragment 7 [1, 2, 3] 1004 sample_ctx (mux_new :: (unit, unit) dvc_mux, (outbox_new :: unit outbox)) =
     ((mux_new, outbox_new\<lparr>ob_frames := ob_frames (outbox_new :: unit outbox) @ frames\<rparr>), Inr ()) \<and>
     run_steps feed_step (dvc_with_cap 100) (pieces ps) = (r', completed (length ps) [1, 2, 3])"
proof -
  have "is_user_id (cx_user_channel_id sample_ctx)"
    "dvc_reassembler_ok (dvc_with_cap 100)" "\<not> dvc_in_progress (dvc_with_cap 100)"
    "length [1, 2, 3 :: u8] \<le> dr_cap (dvc_with_cap 100)"
    by (simp_all add: is_user_id_def dvc_with_cap_ok sample_ctx_def, simp_all add: dvc_with_cap_def dvc_in_progress_def MAX_EGFX_PDU_def)
  from mux_payload_arrives [OF this] show ?thesis by blast
qed

subsection \<open>The registry\<close>

text \<open>
  C21. Whatever the server sends and the shell asks for, with any channel handlers and from the opening of
  the session on: the registry keeps the channels it joined, every static reassembler stays within
  its cap, and the multiplexer on the dynamic channel keeps its invariant (no two open channels
  share an id, none is open before the versions were negotiated, the negotiated version is one the
  client speaks, every reassembler stays within the cap of its kind).
\<close>

theorem registry_invariant:
  "let start = registry_new cb m in registry_inv (map en_id start) (registry_run hs cb es (start, out))"
  unfolding Let_def by (rule registry_run_inv) (simp add: registry_inv_def registry_new_ok)

text \<open>
  A message that reaches the registry in chunks, at a channel with no message in progress, is
  handed to the handler of that channel whole and once, after the last chunk; for a channel the
  session did not join nothing happens.
\<close>

theorem registry_delivers:
  assumes "registry_inv ids (es, out)" and "idle c es" and "length msg \<le> DRDYNVC_REASSEMBLY_CAP"
  shows "case position (\<lambda>e. en_id e = c) es of
      None \<Rightarrow> deliver_all hs cb now c ctx (map chunk_bytes (chunks_of msg)) (es, out) = ((es, out), Inr ())
    | Some i \<Rightarrow> \<exists>s'. rs_expected s' = None \<and>
        deliver_all hs cb now c ctx (map chunk_bytes (chunks_of msg)) (es, out) =
          on_handler i (\<lambda>st. mux_message hs now msg st ctx) (\<lambda>st. cb_message cb msg st ctx)
            (es[i := (es ! i)\<lparr>en_reassembler := s'\<rparr>], out)"
  by (rule registry_message [OF assms])

definition note_clipboard :: "(bytes list, unit) clipboard" where
  "note_clipboard = \<lparr>cb_new = [], cb_message = (\<lambda>msg _ _ (c, out). ((c @ [msg], out), Inr ())),
     cb_offer_text = (\<lambda>_ _ _. st_ok ()), cb_request_text = (\<lambda>_ _. st_ok ())\<rparr>"

definition clip_map :: channel_map where
  "clip_map = \<lparr>cm_io_channel_id = 1003, cm_user_channel_id = 1007, cm_message_channel_id = None,
     cm_statics = [(''cliprdr'', 1004)]\<rparr>"

theorem registry_delivers_witness:
  "let es = registry_new note_clipboard clip_map :: (bytes list, bytes list, bytes list) entry list in
   \<exists>r. deliver_all recording note_clipboard 0 1004 sample_ctx (map chunk_bytes (chunks_of [1, 2])) (es, outbox_new) =
     (([\<lparr>en_id = 1004, en_name = ''cliprdr'', en_reassembler = r, en_handler = CliprdrHandler [[1, 2]]\<rparr>], outbox_new), Inr ())"
proof -
  let ?es = "registry_new note_clipboard clip_map :: (bytes list, bytes list, bytes list) entry list"
  have es: "?es = [\<lparr>en_id = 1004, en_name = ''cliprdr'', en_reassembler = with_cap CLIPRDR_REASSEMBLY_CAP,
      en_handler = CliprdrHandler []\<rparr>]"
    by (simp add: registry_new_def clip_map_def CHANNEL_DRDYNVC_def CHANNEL_CLIPRDR_def note_clipboard_def)
  have inv: "registry_inv [1004] (?es, outbox_new)"
  proof -
    have "registry_ok ?es" by (rule registry_new_ok)
    then show ?thesis by (simp add: registry_inv_def es)
  qed
  have idle: "idle 1004 ?es" by (simp add: idle_def es with_cap_def)
  have short: "length [1, 2 :: u8] \<le> DRDYNVC_REASSEMBLY_CAP" by (simp add: DRDYNVC_REASSEMBLY_CAP_def)
  have first: "position (\<lambda>e. en_id e = 1004) ?es = Some 0" by (simp add: es)
  have heard: "cb_message note_clipboard msg st ctx (c, out) = ((c @ [msg], out), Inr ())" for msg st ctx c and out :: "unit outbox"
    by (simp add: note_clipboard_def)
  from registry_delivers [OF inv idle short, of recording note_clipboard 0 sample_ctx]
  obtain s' where "deliver_all recording note_clipboard 0 1004 sample_ctx (map chunk_bytes (chunks_of [1, 2])) (?es, outbox_new) =
      on_handler 0 (\<lambda>st. mux_message recording 0 [1, 2] st sample_ctx) (\<lambda>st. cb_message note_clipboard [1, 2] st sample_ctx)
        (?es[0 := (?es ! 0)\<lparr>en_reassembler := s'\<rparr>], outbox_new)"
    unfolding first by auto
  then show ?thesis unfolding Let_def es by (simp add: on_handler_def heard Let_def)
qed

end
