(* ===== verification/Supervisor.thy ===== *)
theory Supervisor
  imports Session_Errors
begin

text \<open>
  The reconnect supervisor every protocol shares (\<open>crates/remote-core/src/reconnect.rs\<close>): one round of
  its loop is an attempt, the classification of how it ended, and the wait before the next one. What
  the network, the clock and the user do in a round is its input; the supervisor's decisions are the
  code's. The delay of the ladder is a floating point computation (\<open>ReconnectPolicy::delay_for\<close>) and
  an argument of the model.
\<close>

subsection \<open>Commands and policy\<close>

datatype quality_preset = QAuto | QHigh | QMedium | QLow | QBlackAndWhite

datatype pin_scheme = PinTls | Ra2 | RdpTlsPin | RdgTlsPin

datatype 'i client_command =
    Pointer u16 u16 u16
  | Key u32 "u32 option" bool
  | ReleaseAllKeys
  | ClipboardText chars
  | ClipboardRequest u32
  | SetQuality quality_preset
  | RequestResize u16 u16
  | Refresh
  | SetAlwaysRefresh bool
  | SetViewOnly bool
  | SetPreferScancodes bool
  | TrustCertificate string bool pin_scheme
  | ProvideCredentials "string option" string bool
  | CancelCredentials
  | ReconnectNow
  | Disconnect
  | TerminalInput bytes
  | ResizeTerminal u16 u16
  | Agent 'i

record 'f reconnect_policy =
  rp_enabled :: bool
  rp_max_attempts :: "u32 option"
  rp_initial_delay_ms :: u64
  rp_max_delay_ms :: u64
  rp_multiplier :: 'f
  rp_jitter :: 'f

definition STABLE_UPTIME :: nat where "STABLE_UPTIME = 5000"
definition MAX_CHAINED_REATTEMPTS :: u32 where "MAX_CHAINED_REATTEMPTS = 8"

subsection \<open>Classification\<close>

datatype decision = Retry | Stop bool

datatype run_outcome = UserDisconnect | Reattempt string

definition classify :: "'e classifier \<Rightarrow> 'e \<Rightarrow> 'f reconnect_policy \<Rightarrow> u32 \<Rightarrow> decision" where
  "classify C err policy attempts_made =
     (if cl_is_cancelled C err then Stop False
      else if cl_needs_user_action C err then Stop False
      else if \<not> cl_is_transient C err then Stop True
      else if \<not> rp_enabled policy then Stop True
      else
        case rp_max_attempts policy of
          Some most \<Rightarrow> if most \<le> attempts_made then Stop True else Retry
        | None \<Rightarrow> Retry)"

subsection \<open>The wait\<close>

text \<open>
  \<open>ConnectOnce\<close> as a record of its methods. An attempt (\<open>run_once\<close>) is given what the world does
  during it, and answers how long the connection had been up when it ended, if it came up at all.
\<close>

record ('c, 'w, 'i, 'e, 'f) connect_once =
  co_policy :: "'c \<Rightarrow> 'f reconnect_policy"
  co_run_once :: "'w \<Rightarrow> 'c \<Rightarrow> 'c \<times> nat option \<times> ('e + run_outcome)"
  co_absorb :: "'i client_command \<Rightarrow> 'c \<Rightarrow> 'c"

text \<open>What \<open>select!\<close> picks, in the order it picks it. The sleep ends by itself, so a wait with no further event ends with it.\<close>

datatype 'i wait_event = WaitCancelled | SleepElapsed | CommandsClosed | Received "'i client_command"

datatype wait_outcome = Elapsed | RetryNow | WaitStop

fun wait_backoff :: "('c, 'w, 'i, 'e, 'f) connect_once \<Rightarrow> 'i wait_event list \<Rightarrow> 'c \<Rightarrow> wait_outcome \<times> 'c" where
  "wait_backoff T [] conn = (Elapsed, conn)"
| "wait_backoff T (WaitCancelled # _) conn = (WaitStop, conn)"
| "wait_backoff T (SleepElapsed # _) conn = (Elapsed, conn)"
| "wait_backoff T (CommandsClosed # _) conn = (WaitStop, conn)"
| "wait_backoff T (Received cmd # es) conn =
     (case cmd of
        ReconnectNow \<Rightarrow> (RetryNow, conn)
      | Disconnect \<Rightarrow> (WaitStop, conn)
      | other \<Rightarrow> wait_backoff T es (co_absorb T other conn))"

subsection \<open>The loop\<close>

datatype sup_event = StateChanged session_state | SessionError string

record 'c supervisor =
  sv_conn :: 'c
  sv_attempts_made :: u32
  sv_chained :: u32

definition supervisor_new :: "'c \<Rightarrow> 'c supervisor" where
  "supervisor_new conn = \<lparr>sv_conn = conn, sv_attempts_made = 0, sv_chained = 0\<rparr>"

text \<open>The input of a round. The sink is open when the shell still takes the reconnecting state.\<close>

record ('w, 'i, 'f) round =
  rd_world :: 'w
  rd_rand :: 'f
  rd_sink_open :: bool
  rd_wait :: "'i wait_event list"

definition stayed_up :: "nat option \<Rightarrow> bool" where
  "stayed_up up = (case up of None \<Rightarrow> False | Some t \<Rightarrow> STABLE_UPTIME \<le> t)"

definition ended :: "string \<Rightarrow> sup_event" where
  "ended reason = StateChanged (Disconnected reason True None)"

text \<open>One round: whether the loop goes on, the state it goes on in, and what it emitted.\<close>

definition supervise_round ::
  "'e classifier \<Rightarrow> ('c, 'w, 'i, 'e, 'f) connect_once \<Rightarrow> ('f reconnect_policy \<Rightarrow> u32 \<Rightarrow> 'f \<Rightarrow> u64) \<Rightarrow>
   ('w, 'i, 'f) round \<Rightarrow> 'c supervisor \<Rightarrow> bool \<times> 'c supervisor \<times> sup_event list" where
  "supervise_round C T delay_for rd s =
     (let (conn, connected, res) = co_run_once T (rd_world rd) (sv_conn s);
          attempts_made = (if stayed_up connected then 0 else sv_attempts_made s);
          s1 = s\<lparr>sv_conn := conn, sv_attempts_made := attempts_made\<rparr> in
      case res of
        Inr UserDisconnect \<Rightarrow> (False, s1, [ended ''Disconnected''])
      | Inr (Reattempt why) \<Rightarrow>
          let chained = sv_chained s + 1; s2 = s1\<lparr>sv_chained := chained\<rparr> in
          if MAX_CHAINED_REATTEMPTS < chained
          then (False, s2, [ended ''The server kept redirecting this session''])
          else (True, s2, [])
      | Inl err \<Rightarrow>
          let s2 = s1\<lparr>sv_chained := 0\<rparr> in
          (case classify C err (co_policy T conn) attempts_made of
             Stop can_retry \<Rightarrow>
               (False, s2,
                (if cl_is_cancelled C err then [] else [SessionError (cl_user_message C err)]) @
                [StateChanged (Disconnected (cl_user_message C err) can_retry (cl_symbol C err))])
           | Retry \<Rightarrow>
               let attempt = attempts_made + 1;
                   delay = delay_for (co_policy T conn) attempt (rd_rand rd);
                   s3 = s2\<lparr>sv_attempts_made := attempt\<rparr>;
                   out = [StateChanged (Reconnecting attempt delay (cl_user_message C err))] in
               if \<not> rd_sink_open rd then (False, s3, out)
               else
                 (case wait_backoff T (rd_wait rd) conn of
                    (Elapsed, conn') \<Rightarrow> (True, s3\<lparr>sv_conn := conn'\<rparr>, out)
                  | (RetryNow, conn') \<Rightarrow> (True, s3\<lparr>sv_conn := conn', sv_attempts_made := 0\<rparr>, out)
                  | (WaitStop, conn') \<Rightarrow> (False, s3\<lparr>sv_conn := conn'\<rparr>, out @ [ended ''Disconnected'']))))"

fun supervise ::
  "'e classifier \<Rightarrow> ('c, 'w, 'i, 'e, 'f) connect_once \<Rightarrow> ('f reconnect_policy \<Rightarrow> u32 \<Rightarrow> 'f \<Rightarrow> u64) \<Rightarrow>
   ('w, 'i, 'f) round list \<Rightarrow> 'c supervisor \<Rightarrow> bool \<times> 'c supervisor \<times> sup_event list" where
  "supervise C T delay_for [] s = (True, s, [])"
| "supervise C T delay_for (rd # rds) s =
     (let (go, s1, out) = supervise_round C T delay_for rd s in
      if go then let (go', s2, out') = supervise C T delay_for rds s1 in (go', s2, out @ out')
      else (False, s1, out))"

section \<open>What the supervisor keeps\<close>

text \<open>
  What the supervisor promises: when it retries, that it ends and how, that the ladder climbs one
  step at a time within its bound, and that it keeps the settings changed during a wait.
\<close>

subsection \<open>When another attempt is made\<close>

definition may_retry :: "'f reconnect_policy \<Rightarrow> u32 \<Rightarrow> bool" where
  "may_retry policy n \<longleftrightarrow> rp_enabled policy \<and> (case rp_max_attempts policy of None \<Rightarrow> True | Some most \<Rightarrow> n < most)"

context retry_classify begin

lemma retry_iff: "classify C e policy n = Retry \<longleftrightarrow> cl_is_transient C e \<and> may_retry policy n"
  using cancelled_alone [of e] transient_alone [of e]
  by (auto simp: classify_def may_retry_def not_le split: option.splits)

lemma stop_offers: "classify C e policy n = Stop b \<Longrightarrow> b \<longleftrightarrow> \<not> cl_is_cancelled C e \<and> \<not> cl_needs_user_action C e"
  using cancelled_alone [of e] transient_alone [of e]
  by (auto simp: classify_def split: option.splits if_splits)

lemma classify_eq:
  "classify C e policy n =
     (if cl_is_transient C e \<and> may_retry policy n then Retry else Stop (\<not> cl_is_cancelled C e \<and> \<not> cl_needs_user_action C e))"
  using retry_iff [of e policy n] stop_offers [of e policy n] by (cases "classify C e policy n") auto

end

subsection \<open>The wait keeps what is worth keeping\<close>

text \<open>The commands that reach the protocol: everything before the wait ends.\<close>

fun waiting :: "'i wait_event list \<Rightarrow> 'i client_command list" where
  "waiting (Received cmd # es) = (if cmd = ReconnectNow \<or> cmd = Disconnect then [] else cmd # waiting es)"
| "waiting _ = []"

fun wait_result :: "'i wait_event list \<Rightarrow> wait_outcome" where
  "wait_result (Received cmd # es) =
     (if cmd = ReconnectNow then RetryNow else if cmd = Disconnect then WaitStop else wait_result es)"
| "wait_result (WaitCancelled # _) = WaitStop"
| "wait_result (CommandsClosed # _) = WaitStop"
| "wait_result _ = Elapsed"

lemma wait_backoff_exact: "wait_backoff T es conn = (wait_result es, fold (co_absorb T) (waiting es) conn)"
proof (induction T es conn rule: wait_backoff.induct)
  case (5 T cmd es conn)
  then show ?case by (cases cmd) simp_all
qed simp_all

subsection \<open>One round\<close>

fun is_end :: "sup_event \<Rightarrow> bool" where
  "is_end (StateChanged (Disconnected _ _ _)) \<longleftrightarrow> True"
| "is_end _ \<longleftrightarrow> False"

fun attempt_of :: "sup_event \<Rightarrow> u32 list" where
  "attempt_of (StateChanged (Reconnecting n _ _)) = [n]"
| "attempt_of _ = []"

definition attempts :: "sup_event list \<Rightarrow> u32 list" where
  "attempts out = concat (map attempt_of out)"

lemma attempts_simps [simp]: "attempts [] = []" "attempts (e # out) = attempt_of e @ attempts out"
    "attempts (out @ out') = attempts out @ attempts out'"
  by (simp_all add: attempts_def)

text \<open>The five ways a round ends, each with what it leaves.\<close>

lemma round_cases:
  assumes "supervise_round C T delay_for rd s = (go, s', out)"
    and "co_run_once T (rd_world rd) (sv_conn s) = (conn, up, res)"
  defines "n \<equiv> if stayed_up up then 0 else sv_attempts_made s"
  obtains (user) "res = Inr UserDisconnect" "\<not> go" "out = [ended ''Disconnected'']"
  | (loop) why where "res = Inr (Reattempt why)" "MAX_CHAINED_REATTEMPTS < sv_chained s + 1" "\<not> go"
      "out = [ended ''The server kept redirecting this session'']"
  | (again) why where "res = Inr (Reattempt why)" "sv_chained s + 1 \<le> MAX_CHAINED_REATTEMPTS" "go" "out = []"
      "s' = \<lparr>sv_conn = conn, sv_attempts_made = n, sv_chained = sv_chained s + 1\<rparr>"
  | (stop) err b where "res = Inl err" "classify C err (co_policy T conn) n = Stop b" "\<not> go"
      "out = (if cl_is_cancelled C err then [] else [SessionError (cl_user_message C err)]) @
         [StateChanged (Disconnected (cl_user_message C err) b (cl_symbol C err))]"
  | (gone) err d where "res = Inl err" "classify C err (co_policy T conn) n = Retry" "\<not> rd_sink_open rd" "\<not> go"
      "out = [StateChanged (Reconnecting (n + 1) d (cl_user_message C err))]"
  | (quit) err d where "res = Inl err" "classify C err (co_policy T conn) n = Retry" "wait_result (rd_wait rd) = WaitStop"
      "\<not> go" "out = [StateChanged (Reconnecting (n + 1) d (cl_user_message C err)), ended ''Disconnected'']"
  | (retry) err d where "res = Inl err" "classify C err (co_policy T conn) n = Retry" "go"
      "wait_result (rd_wait rd) \<noteq> WaitStop" "out = [StateChanged (Reconnecting (n + 1) d (cl_user_message C err))]"
      "s' = \<lparr>sv_conn = fold (co_absorb T) (waiting (rd_wait rd)) conn,
         sv_attempts_made = (if wait_result (rd_wait rd) = RetryNow then 0 else n + 1), sv_chained = 0\<rparr>"
proof (cases res)
  case (Inr outcome)
  show thesis
  proof (cases outcome)
    case UserDisconnect
    then show thesis using user assms(1,2) Inr by (simp add: supervise_round_def)
  next
    case (Reattempt why)
    then show thesis
      using loop [of why] again [of why] assms(1,2) Inr
      by (auto simp: supervise_round_def Let_def n_def not_less split: if_splits)
  qed
next
  case (Inl err)
  note round = assms(1) [unfolded supervise_round_def assms(2)] 
  show thesis
  proof (cases "classify C err (co_policy T conn) n")
    case (Stop b)
    then show thesis using stop [OF Inl Stop] round Inl by (simp add: Let_def n_def)
  next
    case Retry
    let ?d = "delay_for (co_policy T conn) (n + 1) (rd_rand rd)"
    show thesis
    proof (cases "rd_sink_open rd")
      case False
      then show thesis using gone [OF Inl Retry, of ?d] round Inl Retry by (simp add: Let_def n_def)
    next
      case True
      then show thesis
        using quit [OF Inl Retry, of ?d] retry [OF Inl Retry, of ?d] round Inl Retry
        by (cases "wait_result (rd_wait rd)"; cases s) (simp_all add: Let_def n_def wait_backoff_exact)
    qed
  qed
qed

subsection \<open>A run\<close>

text \<open>
  The end is told once and last: while the loop goes on nothing ends, and when it stops the last event
  is the end, unless the shell had already gone.
\<close>

definition told_once :: "bool \<Rightarrow> ('w, 'i, 'f) round list \<Rightarrow> sup_event list \<Rightarrow> bool" where
  "told_once go rds out \<longleftrightarrow>
     list_all (\<lambda>e. \<not> is_end e) (if go then out else butlast out) \<and>
     (go \<or> out \<noteq> [] \<and> (is_end (last out) \<or> list_ex (\<lambda>rd. \<not> rd_sink_open rd) rds))"

lemma round_told_once:
  assumes "supervise_round C T delay_for rd s = (go, s', out)"
  shows "told_once go [rd] out"
proof -
  obtain conn up res where r: "co_run_once T (rd_world rd) (sv_conn s) = (conn, up, res)" by (metis prod_cases3)
  show ?thesis using assms r by (cases rule: round_cases) (simp_all add: told_once_def ended_def)
qed

lemma run_told_once: "supervise C T delay_for rds s = (go, s', out) \<Longrightarrow> told_once go rds out"
proof (induction rds arbitrary: s go s' out)
  case (Cons rd rds)
  obtain g s1 o1 where 1: "supervise_round C T delay_for rd s = (g, s1, o1)" by (metis prod_cases3)
  obtain g2 s2 o2 where 2: "supervise C T delay_for rds s1 = (g2, s2, o2)" by (metis prod_cases3)
  show ?case
    using Cons.prems 1 2 round_told_once [OF 1] Cons.IH [OF 2]
    by (cases g) (auto simp: told_once_def butlast_append list_all_iff)
qed (simp add: told_once_def)

text \<open>
  The ladder: each attempt number is one more than the last, or one again after a connection that
  stayed up or a retry the user asked for; and no number exceeds the policy's bound.
\<close>

fun climbs :: "u32 \<Rightarrow> u32 list \<Rightarrow> bool" where
  "climbs n [] \<longleftrightarrow> True"
| "climbs n (m # ms) \<longleftrightarrow> (m = n + 1 \<or> m = 1) \<and> climbs m ms"

lemma climbs_zero: "climbs 0 ms \<Longrightarrow> climbs n ms"
  by (cases ms) auto

lemma climbs_append: "ms \<noteq> [] \<Longrightarrow> climbs n (ms @ ms') \<longleftrightarrow> climbs n ms \<and> climbs (last ms) ms'"
  by (induction n ms rule: climbs.induct) auto

lemma run_climbs: "supervise C T delay_for rds s = (go, s', out) \<Longrightarrow> climbs (sv_attempts_made s) (attempts out)"
proof (induction rds arbitrary: s go s' out)
  case (Cons rd rds)
  obtain g s1 o1 where 1: "supervise_round C T delay_for rd s = (g, s1, o1)" by (metis prod_cases3)
  obtain g2 s2 o2 where 2: "supervise C T delay_for rds s1 = (g2, s2, o2)" by (metis prod_cases3)
  obtain conn up res where r: "co_run_once T (rd_world rd) (sv_conn s) = (conn, up, res)" by (metis prod_cases3)
  note later = Cons.IH [OF 2]
  show ?case using 1 r
  proof (cases rule: round_cases)
    case (again why)
    then show ?thesis using Cons.prems 1 2 later by (auto simp: climbs_zero split: if_splits)
  next
    case (retry err d)
    then show ?thesis using Cons.prems 1 2 later by (auto simp: climbs_zero split: if_splits)
  qed (use Cons.prems 1 in \<open>auto simp: ended_def\<close>)
qed simp

text \<open>The policy is the session's: neither an attempt nor a command changes it.\<close>

definition keeps_policy :: "('c, 'w, 'i, 'e, 'f) connect_once \<Rightarrow> bool" where
  "keeps_policy T \<longleftrightarrow>
     (\<forall>w c. co_policy T (fst (co_run_once T w c)) = co_policy T c) \<and> (\<forall>cmd c. co_policy T (co_absorb T cmd c) = co_policy T c)"

lemma fold_policy: "keeps_policy T \<Longrightarrow> co_policy T (fold (co_absorb T) cmds c) = co_policy T c"
  by (induction cmds arbitrary: c) (simp_all add: keeps_policy_def)

lemma round_policy:
  assumes "keeps_policy T" and "co_run_once T (rd_world rd) (sv_conn s) = (conn, up, res)"
  shows "co_policy T conn = co_policy T (sv_conn s)"
  using assms by (metis fst_conv keeps_policy_def)

lemma next_below: "(n :: u32) < most \<Longrightarrow> unat (n + 1) = unat n + 1"
  using unsigned_less [where 'a = nat, of most] by (simp add: word_less_nat_alt unat_word_ariths)

text \<open>
  It ends: with a bound in the policy, when no connection stays up and the user does not ask for a
  retry, every round uses up one of the attempts or one of the redirections between two of them.
\<close>

definition hopeless :: "('c, 'w, 'i, 'e, 'f) connect_once \<Rightarrow> ('w, 'i, 'f) round \<Rightarrow> bool" where
  "hopeless T rd \<longleftrightarrow> (\<forall>c. \<not> stayed_up (fst (snd (co_run_once T (rd_world rd) c)))) \<and> wait_result (rd_wait rd) \<noteq> RetryNow"

definition rounds_left :: "u32 \<Rightarrow> 'c supervisor \<Rightarrow> nat" where
  "rounds_left most s = 9 * (unat most - unat (sv_attempts_made s)) + (8 - unat (sv_chained s))"

context retry_classify begin

lemma run_bounded:
  "supervise C T delay_for rds s = (go, s', out) \<Longrightarrow> keeps_policy T \<Longrightarrow>
   rp_max_attempts (co_policy T (sv_conn s)) = Some most \<Longrightarrow> list_all (\<lambda>n. 0 < n \<and> n \<le> most) (attempts out)"
proof (induction rds arbitrary: s go s' out)
  case (Cons rd rds)
  obtain g s1 o1 where 1: "supervise_round C T delay_for rd s = (g, s1, o1)" by (metis prod_cases3)
  obtain g2 s2 o2 where 2: "supervise C T delay_for rds s1 = (g2, s2, o2)" by (metis prod_cases3)
  obtain conn up res where r: "co_run_once T (rd_world rd) (sv_conn s) = (conn, up, res)" by (metis prod_cases3)
  have pol: "co_policy T conn = co_policy T (sv_conn s)" by (rule round_policy [OF Cons.prems(2) r])
  have step: "n < most \<Longrightarrow> 0 < n + 1 \<and> n + 1 \<le> most" for n :: u32
    using next_below [of n most] by (simp add: word_less_nat_alt word_le_nat_alt)
  have retry: "n < most" if "classify C e (co_policy T conn) n = Retry" for e n
    using that Cons.prems(3) by (simp add: retry_iff may_retry_def pol)
  note later = Cons.IH [OF 2 Cons.prems(2)]
  show ?case using 1 r
  proof (cases rule: round_cases)
    case (again why)
    then show ?thesis using Cons.prems 1 2 later pol by auto
  next
    case (gone err d)
    then show ?thesis using Cons.prems(1) 1 step [OF retry] by auto
  next
    case (quit err d)
    then show ?thesis using Cons.prems(1) 1 step [OF retry] by (auto simp: ended_def)
  next
    case (retry err d)
    moreover have "list_all (\<lambda>n. 0 < n \<and> n \<le> most) (attempts o2)"
      using later retry(6) Cons.prems(2,3) pol by (simp add: fold_policy)
    ultimately show ?thesis using Cons.prems(1) 1 2 step [OF \<open>\<And>n e. classify C e (co_policy T conn) n = Retry \<Longrightarrow> n < most\<close>] by auto
  qed (use Cons.prems(1) 1 in \<open>auto simp: ended_def\<close>)
qed simp

lemma run_ends:
  "supervise C T delay_for rds s = (go, s', out) \<Longrightarrow> keeps_policy T \<Longrightarrow>
   rp_max_attempts (co_policy T (sv_conn s)) = Some most \<Longrightarrow> list_all (hopeless T) rds \<Longrightarrow>
   sv_chained s \<le> MAX_CHAINED_REATTEMPTS \<Longrightarrow> rounds_left most s < length rds \<Longrightarrow> \<not> go"
proof (induction rds arbitrary: s go s' out)
  case (Cons rd rds)
  obtain g s1 o1 where 1: "supervise_round C T delay_for rd s = (g, s1, o1)" by (metis prod_cases3)
  obtain g2 s2 o2 where 2: "supervise C T delay_for rds s1 = (g2, s2, o2)" by (metis prod_cases3)
  obtain conn up res where r: "co_run_once T (rd_world rd) (sv_conn s) = (conn, up, res)" by (metis prod_cases3)
  have pol: "co_policy T conn = co_policy T (sv_conn s)" by (rule round_policy [OF Cons.prems(2) r])
  have up: "\<not> stayed_up up" and wait: "wait_result (rd_wait rd) \<noteq> RetryNow"
    using Cons.prems(4) r by (auto simp: hopeless_def dest: spec [of _ "sv_conn s"])
  note later = Cons.IH [OF 2 Cons.prems(2)]
  show ?case using 1 r
  proof (cases rule: round_cases)
    case (again why)
    have c: "unat (sv_chained s + 1) = unat (sv_chained s) + 1" "unat (sv_chained s) < 8"
      using again(2) Cons.prems(5) next_below [of "sv_chained s" 9]
      by (auto simp: MAX_CHAINED_REATTEMPTS_def word_less_nat_alt word_le_nat_alt)
    have "rounds_left most s1 < length rds"
      using Cons.prems(6) up again(5) c by (simp add: rounds_left_def)
    then show ?thesis using Cons.prems 1 2 later again(2,3,5) pol by auto
  next
    case (retry err d)
    then have n: "sv_attempts_made s < most" using Cons.prems(3) up by (simp add: retry_iff may_retry_def pol)
    then have "rounds_left most s1 < length rds"
      using Cons.prems(6) up wait retry(6) next_below [OF n] by (simp add: rounds_left_def word_less_nat_alt)
    moreover have "rp_max_attempts (co_policy T (sv_conn s1)) = Some most"
      using retry(6) Cons.prems(2,3) pol by (simp add: fold_policy)
    moreover have "sv_chained s1 \<le> MAX_CHAINED_REATTEMPTS" using retry(6) by simp
    ultimately show ?thesis using Cons.prems 1 2 later retry(3) by auto
  qed (use Cons.prems(1) 1 in \<open>auto\<close>)
qed simp

end

end
