(* ===== verification/Session_Carry.thy ===== *)
theory Session_Carry
  imports Supervisor
begin

text \<open>
  What a session carries from one attempt to the next: the settings a user may change while it is
  disconnected (\<open>crates/vnc-core/src/session/reconnect.rs\<close>, \<open>crates/rdp-core/src/session/settings.rs\<close>),
  and where an RDP Server Redirection sends the next attempt (\<open>session/redirect.rs\<close>, \<open>session/mod.rs\<close>).
\<close>

unbundle bit_operations_syntax

subsection \<open>Settings\<close>

record vnc_settings =
  vs_quality :: quality_preset
  vs_view_only :: bool
  vs_lossless_refresh :: bool
  vs_requested_size :: "(u16 \<times> u16) option"
  vs_always_refresh :: bool
  vs_prefer_scancodes :: bool

fun vnc_absorb :: "'i client_command \<Rightarrow> vnc_settings \<Rightarrow> vnc_settings" where
  "vnc_absorb (SetQuality q) s = s\<lparr>vs_quality := q\<rparr>"
| "vnc_absorb (SetViewOnly v) s = s\<lparr>vs_view_only := v\<rparr>"
| "vnc_absorb (RequestResize w h) s = s\<lparr>vs_requested_size := Some (w, h)\<rparr>"
| "vnc_absorb _ s = s"

record rdp_settings =
  st_quality :: quality_preset
  st_view_only :: bool
  st_prefer_scancodes :: bool
  st_requested_size :: "(u16 \<times> u16) option"
  st_audio_enabled :: bool

fun rdp_absorb :: "'i client_command \<Rightarrow> rdp_settings \<Rightarrow> rdp_settings" where
  "rdp_absorb (SetQuality q) s = s\<lparr>st_quality := q\<rparr>"
| "rdp_absorb (SetViewOnly v) s = s\<lparr>st_view_only := v\<rparr>"
| "rdp_absorb (SetPreferScancodes p) s = s\<lparr>st_prefer_scancodes := p\<rparr>"
| "rdp_absorb (RequestResize w h) s = s\<lparr>st_requested_size := Some (w, h)\<rparr>"
| "rdp_absorb _ s = s"

text \<open>The last command of a kind decides: what a fold of commands leaves in one field.\<close>

definition last_of :: "('i client_command \<Rightarrow> 'a option) \<Rightarrow> 'i client_command list \<Rightarrow> 'a \<Rightarrow> 'a" where
  "last_of f cmds a = fold (\<lambda>cmd a. case f cmd of Some b \<Rightarrow> b | None \<Rightarrow> a) cmds a"

fun quality_of :: "'i client_command \<Rightarrow> quality_preset option" where
  "quality_of (SetQuality q) = Some q" | "quality_of _ = None"

fun view_only_of :: "'i client_command \<Rightarrow> bool option" where
  "view_only_of (SetViewOnly v) = Some v" | "view_only_of _ = None"

fun scancodes_of :: "'i client_command \<Rightarrow> bool option" where
  "scancodes_of (SetPreferScancodes v) = Some v" | "scancodes_of _ = None"

fun size_of :: "'i client_command \<Rightarrow> (u16 \<times> u16) option option" where
  "size_of (RequestResize w h) = Some (Some (w, h))" | "size_of _ = None"

lemma vnc_absorbed:
  "fold vnc_absorb cmds s =
     s\<lparr>vs_quality := last_of quality_of cmds (vs_quality s), vs_view_only := last_of view_only_of cmds (vs_view_only s),
       vs_requested_size := last_of size_of cmds (vs_requested_size s)\<rparr>"
proof (induction cmds arbitrary: s)
  case (Cons cmd cmds)
  then show ?case by (cases cmd) (simp_all add: last_of_def)
qed (simp add: last_of_def)

lemma rdp_absorbed:
  "fold rdp_absorb cmds s =
     s\<lparr>st_quality := last_of quality_of cmds (st_quality s), st_view_only := last_of view_only_of cmds (st_view_only s),
       st_prefer_scancodes := last_of scancodes_of cmds (st_prefer_scancodes s),
       st_requested_size := last_of size_of cmds (st_requested_size s)\<rparr>"
proof (induction cmds arbitrary: s)
  case (Cons cmd cmds)
  then show ?case by (cases cmd) (simp_all add: last_of_def)
qed (simp add: last_of_def)

subsection \<open>Redirections\<close>

definition MAX_TARGET_LEN :: nat where "MAX_TARGET_LEN = 255"
definition DONTSTOREUSERNAME :: u32 where "DONTSTOREUSERNAME = 0x20"
definition NOREDIRECT :: u32 where "NOREDIRECT = 0x80"
definition PASSWORD_IS_PK_ENCRYPTED :: u32 where "PASSWORD_IS_PK_ENCRYPTED = 0x4000"

record redirection_packet =
  rk_flags :: u16
  rk_session_id :: u32
  rk_redir_options :: u32
  rk_target_net_address :: "chars option"
  rk_load_balance_info :: "bytes option"
  rk_username :: "chars option"
  rk_domain :: "chars option"
  rk_password :: "bytes option"
  rk_target_fqdn :: "chars option"
  rk_target_netbios_name :: "chars option"
  rk_tsv_url :: "bytes option"
  rk_target_net_addresses :: "chars list"
  rk_redirection_guid :: "bytes option"
  rk_target_certificate :: "bytes option"

definition is_no_redirect :: "redirection_packet \<Rightarrow> bool" where
  "is_no_redirect p \<longleftrightarrow> rk_redir_options p AND NOREDIRECT \<noteq> 0"

definition password_is_encrypted :: "redirection_packet \<Rightarrow> bool" where
  "password_is_encrypted p \<longleftrightarrow> rk_redir_options p AND PASSWORD_IS_PK_ENCRYPTED \<noteq> 0"

definition is_alphanumeric :: "nat \<Rightarrow> bool" where
  "is_alphanumeric c \<longleftrightarrow> 0x30 \<le> c \<and> c \<le> 0x39 \<or> 0x41 \<le> c \<and> c \<le> 0x5A \<or> 0x61 \<le> c \<and> c \<le> 0x7A"

text \<open>The letters of a host name and \<open>. - : _ [ ]\<close>.\<close>

definition plausible_char :: "nat \<Rightarrow> bool" where
  "plausible_char c \<longleftrightarrow> is_alphanumeric c \<or> c \<in> {0x2E, 0x2D, 0x3A, 0x5F, 0x5B, 0x5D}"

definition is_plausible_target :: "chars \<Rightarrow> bool" where
  "is_plausible_target t \<longleftrightarrow> t \<noteq> [] \<and> text_len t \<le> MAX_TARGET_LEN \<and> list_all plausible_char t"

text \<open>\<open>String::from_utf16_lossy\<close> on the units before the first zero.\<close>

fun utf16_lossy :: "nat list \<Rightarrow> chars" where
  "utf16_lossy [] = []"
| "utf16_lossy (u # us) =
     (if u < 0xD800 \<or> 0xE000 \<le> u then u # utf16_lossy us
      else if 0xDC00 \<le> u then REPLACEMENT # utf16_lossy us
      else
        case us of
          [] \<Rightarrow> [REPLACEMENT]
        | v # vs \<Rightarrow>
            if 0xDC00 \<le> v \<and> v < 0xE000 then (0x10000 + (u - 0xD800) * 0x400 + (v - 0xDC00)) # utf16_lossy vs
            else REPLACEMENT # utf16_lossy us)"

fun le_units :: "bytes \<Rightarrow> nat list" where
  "le_units (a # b # bs) = (unat a + 256 * unat b) # le_units bs"
| "le_units _ = []"

definition utf16_secret :: "bytes \<Rightarrow> chars" where
  "utf16_secret bs = utf16_lossy (takeWhile (\<lambda>u. u \<noteq> 0) (le_units bs))"

text \<open>\<open>or_else\<close>, \<open>map\<close> and \<open>filter\<close> of an option.\<close>

definition or_else :: "'a option \<Rightarrow> 'a option \<Rightarrow> 'a option" where
  "or_else x y = (case x of None \<Rightarrow> y | Some _ \<Rightarrow> x)"

definition filter_option :: "('a \<Rightarrow> bool) \<Rightarrow> 'a option \<Rightarrow> 'a option" where
  "filter_option P x = (case x of None \<Rightarrow> None | Some a \<Rightarrow> if P a then Some a else None)"

definition first_of :: "'a list \<Rightarrow> 'a option" where
  "first_of xs = (case xs of [] \<Rightarrow> None | x # _ \<Rightarrow> Some x)"

definition from_packet :: "redirection_packet \<Rightarrow> redirection option" where
  "from_packet p =
     (if is_no_redirect p then None
      else
        case filter_option is_plausible_target (map_option trim
               (or_else (or_else (or_else (rk_target_net_address p) (first_of (rk_target_net_addresses p)))
                  (rk_target_fqdn p)) (rk_target_netbios_name p))) of
          None \<Rightarrow> None
        | Some target \<Rightarrow>
            Some \<lparr>re_session_id = rk_session_id p,
                  re_target = target,
                  re_fqdn = filter_option is_plausible_target (map_option trim (rk_target_fqdn p)),
                  re_username = filter_option (\<lambda>u. u \<noteq> []) (rk_username p),
                  re_domain = filter_option (\<lambda>d. d \<noteq> []) (rk_domain p),
                  re_password = (if password_is_encrypted p then None else map_option utf16_secret (rk_password p)),
                  re_routing_token = rk_load_balance_info p,
                  re_dont_store_username = (rk_redir_options p AND DONTSTOREUSERNAME \<noteq> 0)\<rparr>)"

text \<open>The part of \<open>ConnectOptions\<close> a redirection rewrites: where to dial and as whom.\<close>

record dial_options =
  do_host :: chars
  do_port :: u16
  do_server_name :: "chars option"
  do_rdp_domain :: "chars option"
  do_username :: "chars option"
  do_domain :: "chars option"
  do_password :: "chars option"

definition set_some :: "('a option \<Rightarrow> 'r \<Rightarrow> 'r) \<Rightarrow> 'a option \<Rightarrow> 'r \<Rightarrow> 'r" where
  "set_some upd x r = (case x of None \<Rightarrow> r | Some _ \<Rightarrow> upd x r)"

definition apply_redirection :: "redirection \<Rightarrow> dial_options \<Rightarrow> dial_options \<times> bytes option" where
  "apply_redirection re opts =
     (let o1 = opts\<lparr>do_host := re_target re\<rparr>;
          o2 = set_some (\<lambda>x r. r\<lparr>do_server_name := x\<rparr>) (re_fqdn re) o1;
          o3 = set_some (\<lambda>x r. r\<lparr>do_username := x\<rparr>) (re_username re) o2;
          o4 = set_some (\<lambda>x r. r\<lparr>do_domain := x, do_rdp_domain := x\<rparr>) (re_domain re) o3;
          o5 = set_some (\<lambda>x r. r\<lparr>do_password := x\<rparr>) (re_password re) o4
      in (o5, re_routing_token re))"

text \<open>\<open>Continuity\<close>, with the auto reconnect cookie as a parameter, and what a finished attempt makes of it.\<close>

record 'k continuity =
  ct_cookie :: "'k option"
  ct_routing_token :: "bytes option"
  ct_redirect :: "redirection option"

definition absorb_attempt ::
  "(redirection \<Rightarrow> string) \<Rightarrow> dial_options \<times> 'k continuity \<Rightarrow> (dial_options \<times> 'k continuity) \<times> run_outcome" where
  "absorb_attempt describe s =
     (let (opts, carry) = s in
      case ct_redirect carry of
        Some re \<Rightarrow>
          let (opts', token) = apply_redirection re opts
          in ((opts', \<lparr>ct_cookie = None, ct_routing_token = token, ct_redirect = None\<rparr>), Reattempt (describe re))
      | None \<Rightarrow> ((opts, carry), UserDisconnect))"

text \<open>What a followed redirection is allowed to do.\<close>

lemma from_packet_target:
  "from_packet p = Some re \<Longrightarrow> \<not> is_no_redirect p \<and> is_plausible_target (re_target re) \<and>
     (\<forall>f. re_fqdn re = Some f \<longrightarrow> is_plausible_target f) \<and> (password_is_encrypted p \<longrightarrow> re_password re = None) \<and>
     re_routing_token re = rk_load_balance_info p"
  by (auto simp: from_packet_def filter_option_def split: option.splits if_splits)

lemma apply_redirection_dials:
  "apply_redirection re opts = (opts', token) \<Longrightarrow>
     do_host opts' = re_target re \<and> do_port opts' = do_port opts \<and> token = re_routing_token re \<and>
     do_server_name opts' = or_else (re_fqdn re) (do_server_name opts) \<and>
     do_username opts' = or_else (re_username re) (do_username opts) \<and>
     do_password opts' = or_else (re_password re) (do_password opts)"
  by (auto simp: apply_redirection_def set_some_def or_else_def Let_def split: option.splits)

end
