(* ===== verification/Session_Properties.thy ===== *)
theory Session_Properties
  imports Session_Carry
begin

text \<open>
  The properties of the reconnect supervisor (\<open>crates/remote-core/src/reconnect.rs\<close>), of the errors
  it decides on and of what it carries from one attempt to the next, each with its witness.
\<close>

subsection \<open>Samples\<close>

text \<open>A policy of two attempts, and sessions whose attempts end as the round says.\<close>

definition sample_policy :: "nat reconnect_policy" where
  "sample_policy = \<lparr>rp_enabled = True, rp_max_attempts = Some 2, rp_initial_delay_ms = 500, rp_max_delay_ms = 8000,
     rp_multiplier = 2, rp_jitter = 0\<rparr>"

definition sample_rdp :: "(rdp_settings, rdp_error + run_outcome, unit, rdp_error, nat) connect_once" where
  "sample_rdp = \<lparr>co_policy = (\<lambda>_. sample_policy), co_run_once = (\<lambda>res conn. (conn, None, res)), co_absorb = rdp_absorb\<rparr>"

definition sample_vnc :: "(vnc_settings, vnc_error + run_outcome, unit, vnc_error, nat) connect_once" where
  "sample_vnc = \<lparr>co_policy = (\<lambda>_. sample_policy), co_run_once = (\<lambda>res conn. (conn, None, res)), co_absorb = vnc_absorb\<rparr>"

definition sample_rdp_settings :: rdp_settings where
  "sample_rdp_settings = \<lparr>st_quality = QAuto, st_view_only = False, st_prefer_scancodes = False,
     st_requested_size = None, st_audio_enabled = True\<rparr>"

definition sample_vnc_settings :: vnc_settings where
  "sample_vnc_settings = \<lparr>vs_quality = QAuto, vs_view_only = False, vs_lossless_refresh = False,
     vs_requested_size = None, vs_always_refresh = False, vs_prefer_scancodes = False\<rparr>"

definition sample_delay :: "nat reconnect_policy \<Rightarrow> u32 \<Rightarrow> nat \<Rightarrow> u64" where
  "sample_delay policy attempt rand = rp_initial_delay_ms policy"

definition sample_round :: "(rdp_error + run_outcome, unit, nat) round" where
  "sample_round = \<lparr>rd_world = Inl (RdpTimeout StDialling), rd_rand = 0, rd_sink_open = True,
     rd_wait = [Received (SetViewOnly True), SleepElapsed]\<rparr>"

lemmas session_samples = sample_policy_def sample_rdp_def sample_vnc_def sample_rdp_settings_def sample_vnc_settings_def
  sample_delay_def sample_round_def

lemma sample_keeps: "keeps_policy sample_rdp"
  by (simp add: keeps_policy_def sample_rdp_def)

subsection \<open>Decisions\<close>

text \<open>
  C22. The decision after a failed attempt is, for RDP, VNC and SSH alike, exactly: another attempt if
  the failure is transient, retrying is enabled and the policy's attempts are not used up; otherwise a
  stop, which offers the user a retry unless the user cancelled or has to act first.
\<close>

theorem retry_exact:
  "(classify (rdp_classifier m1) e1 policy n =
      (if rdp_is_transient e1 \<and> may_retry policy n then Retry
       else Stop (\<not> rdp_is_cancelled e1 \<and> \<not> rdp_needs_user_action e1))) \<and>
   (classify (vnc_classifier m2) e2 policy n =
      (if vnc_is_transient e2 \<and> may_retry policy n then Retry else Stop (e2 \<noteq> VncCancelled \<and> \<not> vnc_needs_user_action e2))) \<and>
   (classify (ssh_classifier m3) e3 policy n =
      (if ssh_is_transient e3 \<and> may_retry policy n then Retry else Stop (e3 \<noteq> SshCancelled \<and> \<not> ssh_needs_user_action e3)))"
  by (simp add: rdp.classify_eq vnc.classify_eq ssh.classify_eq)
    (simp add: rdp_classifier_def vnc_classifier_def ssh_classifier_def)

subsection \<open>The loop\<close>

text \<open>
  C23. Whatever the network, the clock and the user do, a session tells its end exactly once and last:
  while the loop runs no disconnected state is reported, and when it stops the last report is that
  state, unless the shell had closed its end of the channel.
\<close>

theorem supervise_told_once:
  "case supervise C T delay_for rds s of (go, s', out) \<Rightarrow> told_once go rds out"
  by (auto intro: run_told_once)

text \<open>
  The attempt numbers a session reports climb one at a time, starting over only after a connection
  that stayed up or a retry the user asked for, and never pass the bound of the policy.
\<close>

theorem ladder_climbs_within_bound:
  assumes "retry_classify C" and "keeps_policy T"
    and "rp_max_attempts (co_policy T (sv_conn s)) = Some most"
    and "supervise C T delay_for rds s = (go, s', out)"
  shows "climbs (sv_attempts_made s) (attempts out) \<and> list_all (\<lambda>n. 0 < n \<and> n \<le> most) (attempts out)"
  using retry_classify.run_bounded [OF assms(1,4,2,3)] run_climbs [OF assms(4)] by blast

lemma sample_run:
  "supervise (rdp_classifier msg) sample_rdp sample_delay [sample_round, sample_round, sample_round]
     (supervisor_new sample_rdp_settings) =
   (False, \<lparr>sv_conn = sample_rdp_settings\<lparr>st_view_only := True\<rparr>, sv_attempts_made = 2, sv_chained = 0\<rparr>,
    [StateChanged (Reconnecting 1 500 (msg (RdpTimeout StDialling))),
     StateChanged (Reconnecting 2 500 (msg (RdpTimeout StDialling))),
     SessionError (msg (RdpTimeout StDialling)),
     StateChanged (Disconnected (msg (RdpTimeout StDialling)) True None)])"
  by (simp add: session_samples supervisor_new_def supervise_round_def stayed_up_def classify_def rdp_classifier_def
      rdp_is_cancelled_def Let_def word_le_nat_alt)

theorem ladder_climbs_within_bound_witness:
  "climbs 0 [1, 2] \<and> list_all (\<lambda>n. 0 < n \<and> n \<le> (2 :: u32)) [1, 2]"
  using ladder_climbs_within_bound
    [OF rdp.retry_classify_axioms sample_keeps _ sample_run [of "\<lambda>_. []"], of 2]
  by (simp add: supervisor_new_def session_samples)

text \<open>
  C24. A bounded policy ends the session: when no connection stays up for the stable time and the user
  does not ask for a retry, a loop that starts fresh stops within nine times the policy's attempts and
  nine more rounds, the eight redirections allowed between two failures included.
\<close>

theorem supervise_ends:
  assumes "retry_classify C" and "keeps_policy T"
    and "rp_max_attempts (co_policy T conn) = Some most"
    and "list_all (hopeless T) rds" and "9 * unat most + 8 < length rds"
  shows "\<not> fst (supervise C T delay_for rds (supervisor_new conn))"
proof -
  obtain go s' out where "supervise C T delay_for rds (supervisor_new conn) = (go, s', out)" by (metis prod_cases3)
  then show ?thesis
    using retry_classify.run_ends [OF assms(1) _ assms(2), of delay_for rds "supervisor_new conn" go s' out most] assms(3-)
    by (simp add: supervisor_new_def rounds_left_def)
qed

theorem supervise_ends_witness:
  "\<not> fst (supervise (rdp_classifier (\<lambda>_. [])) sample_rdp sample_delay (replicate 27 sample_round)
      (supervisor_new sample_rdp_settings))"
proof (rule supervise_ends [OF rdp.retry_classify_axioms sample_keeps])
  show "rp_max_attempts (co_policy sample_rdp sample_rdp_settings) = Some 2" by (simp add: session_samples)
  show "list_all (hopeless sample_rdp) (replicate 27 sample_round)"
    by (simp add: list_all_iff hopeless_def session_samples stayed_up_def)
  show "9 * unat (2 :: u32) + 8 < length (replicate 27 sample_round)" by simp
qed

subsection \<open>What an attempt inherits\<close>

text \<open>
  What the user changed while a session waited for its next attempt is what that attempt starts
  with: of each kind of setting, the last command before the wait ended. RDP takes the quality, the
  view only switch, the keyboard preference and the size; VNC keeps only three of its settings, so
  the keyboard preference and the refresh switch set during a wait are lost there.
\<close>

theorem wait_keeps_settings:
  assumes "co_absorb T = rdp_absorb" and "co_absorb V = vnc_absorb"
  shows "snd (wait_backoff T es s) =
      s\<lparr>st_quality := last_of quality_of (waiting es) (st_quality s),
        st_view_only := last_of view_only_of (waiting es) (st_view_only s),
        st_prefer_scancodes := last_of scancodes_of (waiting es) (st_prefer_scancodes s),
        st_requested_size := last_of size_of (waiting es) (st_requested_size s)\<rparr> \<and>
    snd (wait_backoff V es v) =
      v\<lparr>vs_quality := last_of quality_of (waiting es) (vs_quality v),
        vs_view_only := last_of view_only_of (waiting es) (vs_view_only v),
        vs_requested_size := last_of size_of (waiting es) (vs_requested_size v)\<rparr>"
  by (simp add: wait_backoff_exact assms rdp_absorbed vnc_absorbed)

theorem wait_keeps_settings_witness:
  "st_prefer_scancodes (snd (wait_backoff sample_rdp [Received (SetPreferScancodes True), SleepElapsed] sample_rdp_settings)) \<and>
   \<not> vs_prefer_scancodes (snd (wait_backoff sample_vnc [Received (SetPreferScancodes True), SleepElapsed] sample_vnc_settings))"
  using wait_keeps_settings [of sample_rdp sample_vnc "[Received (SetPreferScancodes True), SleepElapsed]"
      sample_rdp_settings sample_vnc_settings]
  by (simp add: session_samples last_of_def)

definition sample_packet :: redirection_packet where
  "sample_packet = \<lparr>rk_flags = 0, rk_session_id = 7, rk_redir_options = 0x4000, rk_target_net_address = Some [0x61, 0x2E, 0x62],
     rk_load_balance_info = Some [1, 2], rk_username = None, rk_domain = None, rk_password = Some [9, 9],
     rk_target_fqdn = None, rk_target_netbios_name = None, rk_tsv_url = None, rk_target_net_addresses = [],
     rk_redirection_guid = None, rk_target_certificate = None\<rparr>"

definition sample_dial :: dial_options where
  "sample_dial = \<lparr>do_host = [0x68], do_port = 3389, do_server_name = None, do_rdp_domain = None, do_username = None,
     do_domain = None, do_password = Some [0x78]\<rparr>"

definition sample_redirect :: redirection where
  "sample_redirect = \<lparr>re_session_id = 7, re_target = [0x61, 0x2E, 0x62], re_fqdn = None, re_username = None,
     re_domain = None, re_password = None, re_routing_token = Some [1, 2], re_dont_store_username = False\<rparr>"

lemma sample_redirected:
  "from_packet sample_packet = Some sample_redirect"
  "absorb_attempt (\<lambda>_. ''redirected'')
     (sample_dial, \<lparr>ct_cookie = Some (0 :: nat), ct_routing_token = None, ct_redirect = None\<rparr>\<lparr>ct_redirect := Some sample_redirect\<rparr>) =
   ((sample_dial\<lparr>do_host := [0x61, 0x2E, 0x62]\<rparr>, \<lparr>ct_cookie = None, ct_routing_token = Some [1, 2], ct_redirect = None\<rparr>),
    Reattempt ''redirected'')"
  by (simp_all add: sample_packet_def sample_redirect_def sample_dial_def from_packet_def is_no_redirect_def
      NOREDIRECT_def or_else_def filter_option_def trim_def is_whitespace_def is_plausible_target_def plausible_char_def
      is_alphanumeric_def MAX_TARGET_LEN_def password_is_encrypted_def PASSWORD_IS_PK_ENCRYPTED_def DONTSTOREUSERNAME_def
      text_len_def char_len_def absorb_attempt_def apply_redirection_def set_some_def)

text \<open>
  C25. A redirection is followed within bounds: only one the packet does not forbid, to a target that
  looks like a host name or address, on the port the user gave, with the load balancer's token and
  without the auto reconnect cookie, once; and a password the packet encrypts is never taken from it.
\<close>

theorem redirect_confined:
  assumes "from_packet p = Some re"
    and "absorb_attempt describe (opts, carry\<lparr>ct_redirect := Some re\<rparr>) = ((opts', carry'), outcome)"
  shows "\<not> is_no_redirect p \<and> do_host opts' = re_target re \<and> is_plausible_target (do_host opts') \<and>
    do_port opts' = do_port opts \<and> carry' = \<lparr>ct_cookie = None, ct_routing_token = rk_load_balance_info p, ct_redirect = None\<rparr> \<and>
    outcome = Reattempt (describe re) \<and> (if password_is_encrypted p then do_password opts' = do_password opts else True)"
proof -
  obtain o2 token where a: "apply_redirection re opts = (o2, token)" by fastforce
  show ?thesis
    using assms from_packet_target [OF assms(1)] apply_redirection_dials [OF a] a
    by (auto simp: absorb_attempt_def or_else_def)
qed

theorem redirect_confined_witness:
  "is_plausible_target (do_host (sample_dial\<lparr>do_host := [0x61, 0x2E, 0x62]\<rparr>))"
  using redirect_confined [OF sample_redirected] by blast

end
