(* ===== verification/Geometry.thy ===== *)
theory Geometry
  imports Prelude
begin

text \<open>
  Rectangles of a framebuffer (\<open>crates/remote-core/src/geometry.rs\<close>), with the 16 bit arithmetic of the
  source, which wraps in a release build.
\<close>

record rect =
  rt_x :: u16
  rt_y :: u16
  rt_width :: u16
  rt_height :: u16

definition rect_new :: "u16 \<Rightarrow> u16 \<Rightarrow> u16 \<Rightarrow> u16 \<Rightarrow> rect" where
  "rect_new x y w h = \<lparr>rt_x = x, rt_y = y, rt_width = w, rt_height = h\<rparr>"

definition rect_area :: "rect \<Rightarrow> nat" where
  "rect_area r = unat (rt_width r) * unat (rt_height r)"

definition rect_is_empty :: "rect \<Rightarrow> bool" where
  "rect_is_empty r \<longleftrightarrow> rt_width r = 0 \<or> rt_height r = 0"

definition rect_union :: "rect \<Rightarrow> rect \<Rightarrow> rect" where
  "rect_union a b =
     (if rect_is_empty a then b
      else if rect_is_empty b then a
      else
        let x0 = min (rt_x a) (rt_x b); y0 = min (rt_y a) (rt_y b);
            x1 = max (rt_x a + rt_width a) (rt_x b + rt_width b);
            y1 = max (rt_y a + rt_height a) (rt_y b + rt_height b)
        in rect_new x0 y0 (x1 - x0) (y1 - y0))"

definition rect_intersect :: "rect \<Rightarrow> rect \<Rightarrow> rect" where
  "rect_intersect a b =
     (let x0 = max (rt_x a) (rt_x b); y0 = max (rt_y a) (rt_y b);
          x1 = min (rt_x a + rt_width a) (rt_x b + rt_width b);
          y1 = min (rt_y a + rt_height a) (rt_y b + rt_height b)
      in if x1 \<le> x0 \<or> y1 \<le> y0 then rect_new 0 0 0 0 else rect_new x0 y0 (x1 - x0) (y1 - y0))"

subsection \<open>Rectangles as sets of points\<close>

definition covers :: "rect \<Rightarrow> nat \<Rightarrow> nat \<Rightarrow> bool" where
  "covers r x y \<longleftrightarrow>
     unat (rt_x r) \<le> x \<and> x < unat (rt_x r) + unat (rt_width r) \<and> unat (rt_y r) \<le> y \<and> y < unat (rt_y r) + unat (rt_height r)"

definition within :: "nat \<Rightarrow> nat \<Rightarrow> rect \<Rightarrow> bool" where
  "within w h r \<longleftrightarrow> unat (rt_x r) + unat (rt_width r) \<le> w \<and> unat (rt_y r) + unat (rt_height r) \<le> h"

lemma rect_new_simps [simp]:
  "rt_x (rect_new x y w h) = x" "rt_y (rect_new x y w h) = y"
  "rt_width (rect_new x y w h) = w" "rt_height (rect_new x y w h) = h"
  by (simp_all add: rect_new_def)

lemma unat_edge: "unat x + unat w < 65536 \<Longrightarrow> unat (x + w) = unat x + unat w" for x w :: u16
  by (simp add: unat_word_ariths)

lemma unat_min: "unat (min a b) = min (unat a) (unat b)" for a b :: "'a::len word"
  by (simp add: min_def word_le_nat_alt)

lemma unat_max: "unat (max a b) = max (unat a) (unat b)" for a b :: "'a::len word"
  by (simp add: max_def word_le_nat_alt)

lemma unat_diff: "b \<le> a \<Longrightarrow> unat (a - b) = unat a - unat b" for a b :: "'a::len word"
  by (simp add: unat_sub word_le_nat_alt)

text \<open>No wrap for rectangles inside one framebuffer: the union is inside it, and covers what both cover.\<close>

lemma union_within:
  assumes "within w h a" and "within w h b" and "w < 65536" and "h < 65536"
  shows "within w h (rect_union a b)" and "covers a x y \<or> covers b x y \<Longrightarrow> covers (rect_union a b) x y"
proof -
  have edges: "unat (rt_x a + rt_width a) = unat (rt_x a) + unat (rt_width a)" "unat (rt_y a + rt_height a) = unat (rt_y a) + unat (rt_height a)"
      "unat (rt_x b + rt_width b) = unat (rt_x b) + unat (rt_width b)" "unat (rt_y b + rt_height b) = unat (rt_y b) + unat (rt_height b)"
    using assms by (auto simp: within_def intro!: unat_edge)
  have "min (rt_x a) (rt_x b) \<le> max (rt_x a + rt_width a) (rt_x b + rt_width b)"
      "min (rt_y a) (rt_y b) \<le> max (rt_y a + rt_height a) (rt_y b + rt_height b)"
    by (simp_all add: word_le_nat_alt unat_min unat_max edges)
  then have size: "unat (max (rt_x a + rt_width a) (rt_x b + rt_width b) - min (rt_x a) (rt_x b)) =
        max (unat (rt_x a) + unat (rt_width a)) (unat (rt_x b) + unat (rt_width b)) - min (unat (rt_x a)) (unat (rt_x b))"
      "unat (max (rt_y a + rt_height a) (rt_y b + rt_height b) - min (rt_y a) (rt_y b)) =
        max (unat (rt_y a) + unat (rt_height a)) (unat (rt_y b) + unat (rt_height b)) - min (unat (rt_y a)) (unat (rt_y b))"
    by (simp_all add: unat_diff unat_min unat_max edges)
  show "within w h (rect_union a b)"
    using assms by (auto simp: rect_union_def Let_def within_def size unat_min)
  show "covers a x y \<or> covers b x y \<Longrightarrow> covers (rect_union a b) x y"
    by (auto simp: rect_union_def Let_def covers_def size unat_min rect_is_empty_def)
qed

text \<open>An intersection is inside what the first of the two is inside.\<close>

lemma intersect_within:
  assumes "within w h a" and "w < 65536" and "h < 65536"
  shows "within w h (rect_intersect a b)"
proof -
  have edges: "unat (rt_x a + rt_width a) = unat (rt_x a) + unat (rt_width a)" "unat (rt_y a + rt_height a) = unat (rt_y a) + unat (rt_height a)"
    using assms by (auto simp: within_def intro!: unat_edge)
  then show ?thesis
    using assms
    by (auto simp: rect_intersect_def Let_def within_def unat_diff unat_min unat_max word_less_nat_alt word_le_nat_alt not_le)
qed

lemma covered_point: "\<not> rect_is_empty r \<Longrightarrow> \<exists>x y. covers r x y"
  by (rule exI [of _ "unat (rt_x r)"], rule exI [of _ "unat (rt_y r)"])
    (simp add: covers_def rect_is_empty_def unat_gt_0)

lemma covers_nonempty: "covers r x y \<Longrightarrow> \<not> rect_is_empty r"
  by (auto simp: covers_def rect_is_empty_def)

lemma covers_outside: "\<not> rect_is_empty r \<Longrightarrow> within w h r' \<Longrightarrow> (\<And>x y. covers r x y \<Longrightarrow> covers r' x y) \<Longrightarrow> within w h r"
proof -
  assume r: "\<not> rect_is_empty r" "within w h r'" and sub: "\<And>x y. covers r x y \<Longrightarrow> covers r' x y"
  have "0 < unat (rt_width r)" "0 < unat (rt_height r)" using r(1) by (simp_all add: rect_is_empty_def unat_gt_0)
  then have "covers r (unat (rt_x r) + unat (rt_width r) - 1) (unat (rt_y r) + unat (rt_height r) - 1)" by (auto simp: covers_def)
  from sub [OF this] show ?thesis using r(2) by (auto simp: covers_def within_def)
qed

end
