(* ===== verification/Agent_Intent.thy ===== *)
theory Agent_Intent
  imports Supervisor Lease_Types Geometry
begin

text \<open>
  What an agent asks of a machine (\<open>crates/remote-core/src/intent.rs\<close>), the generation counter its
  coordinates carry (\<open>crates/remote-core/src/geometry.rs\<close>) and the type of a named key
  (\<open>crates/remote-core/src/keys.rs\<close>). A \<open>Duration\<close> is a number of nanoseconds; the scale of a
  capture is the bit pattern of its \<open>f32\<close>, which nothing here computes with.
\<close>

type_synonym duration = nat

definition from_millis :: "nat \<Rightarrow> duration" where
  "from_millis ms = ms * 1000000"

subsection \<open>Generations\<close>

datatype geometry_generation = Generation u32

fun generation_get :: "geometry_generation \<Rightarrow> u32" where
  "generation_get (Generation n) = n"

definition GENERATION_FIRST :: geometry_generation where
  "GENERATION_FIRST = Generation 1"

fun generation_next :: "geometry_generation \<Rightarrow> geometry_generation" where
  "generation_next (Generation n) = Generation (sat_add n 1)"

subsection \<open>Places, buttons and keys\<close>

record point =
  pt_x :: u16
  pt_y :: u16

definition point_at :: "u16 \<Rightarrow> u16 \<Rightarrow> point" where
  "point_at x y = \<lparr>pt_x = x, pt_y = y\<rparr>"

datatype button = BtnLeft | BtnMiddle | BtnRight

fun button_mask :: "button \<Rightarrow> u16" where
  "button_mask BtnLeft = push_bit 0 1"
| "button_mask BtnMiddle = push_bit 1 1"
| "button_mask BtnRight = push_bit 2 1"

datatype scroll_direction = ScrollUp | ScrollDown | ScrollLeft | ScrollRight

fun scroll_mask :: "scroll_direction \<Rightarrow> u16" where
  "scroll_mask ScrollUp = push_bit 3 1"
| "scroll_mask ScrollDown = push_bit 4 1"
| "scroll_mask ScrollLeft = push_bit 5 1"
| "scroll_mask ScrollRight = push_bit 6 1"

record named_key =
  nk_name :: string
  nk_keysym :: u32
  nk_scancode :: u32

subsection \<open>Intents\<close>

datatype intent_id = IntentId u64

text \<open>\<open>IntentSequence\<close>: the last id handed out.\<close>

datatype intent_sequence = Sequence u64

definition sequence_new :: intent_sequence where
  "sequence_new = Sequence 0"

fun mint :: "intent_sequence \<Rightarrow> intent_id \<times> intent_sequence" where
  "mint (Sequence n) = (let n' = sat_add n 1 in (IntentId n', Sequence n'))"

datatype wait_until =
    UntilConnected
  | ScreenStable
  | ScreenChanged
  | UntilText chars
  | TextGone chars
  | UntilIdle
  | UntilExit

fun reads_text :: "wait_until \<Rightarrow> bool" where
  "reads_text (UntilText _) = True"
| "reads_text (TextGone _) = True"
| "reads_text _ = False"

datatype read_form = FormText | FormCells | FormPixels

datatype capture_form = FullCapture | RegionCapture | DamageCrop

record command_spec =
  cs_command :: chars
  cs_cwd :: "chars option"
  cs_env :: "(chars \<times> chars) list"
  cs_timeout :: duration
  cs_stdin :: "bytes option"
  cs_max_output_bytes :: "u64 option"

record tuning =
  tu_quality :: "quality_preset option"
  tu_view_only :: "bool option"
  tu_size :: "(u16 \<times> u16) option"

datatype intent_kind =
    Type chars "u16 option"
  | Press "named_key list"
  | Scancode u32 bool
  | Move point
  | Click point button u8 "named_key list"
  | Drag point point button
  | Scroll point scroll_direction u8
  | Wait wait_until "duration option" "duration option"
  | ReadScreen read_form "rect option"
  | Capture capture_form "rect option" "u32 option"
  | Exec command_spec
  | PtyRun command_spec
  | Declare "chars option" "(chars \<times> chars) list"
  | SendBytes bytes
  | ClipboardGet
  | ClipboardSet chars
  | Tune tuning
  | Cancel intent_id

datatype intent_name =
    NType | NPress | NScancode | NMove | NClick | NDrag | NScroll | NWait | NReadScreen | NCapture
  | NExec | NPtyRun | NDeclare | NSendBytes | NClipboardGet | NClipboardSet | NTune | NCancel

definition INTENT_NAMES :: "intent_name list" where
  "INTENT_NAMES =
     [NType, NPress, NScancode, NMove, NClick, NDrag, NScroll, NWait, NReadScreen, NCapture,
      NExec, NPtyRun, NDeclare, NSendBytes, NClipboardGet, NClipboardSet, NTune, NCancel]"

fun intent_as_str :: "intent_name \<Rightarrow> string" where
  "intent_as_str NType = ''type''"
| "intent_as_str NPress = ''press''"
| "intent_as_str NScancode = ''scancode''"
| "intent_as_str NMove = ''move''"
| "intent_as_str NClick = ''click''"
| "intent_as_str NDrag = ''drag''"
| "intent_as_str NScroll = ''scroll''"
| "intent_as_str NWait = ''wait''"
| "intent_as_str NReadScreen = ''read_screen''"
| "intent_as_str NCapture = ''capture''"
| "intent_as_str NExec = ''exec''"
| "intent_as_str NPtyRun = ''pty_run''"
| "intent_as_str NDeclare = ''declare''"
| "intent_as_str NSendBytes = ''send_bytes''"
| "intent_as_str NClipboardGet = ''clipboard_get''"
| "intent_as_str NClipboardSet = ''clipboard_set''"
| "intent_as_str NTune = ''tune''"
| "intent_as_str NCancel = ''cancel''"

fun kind_name :: "intent_kind \<Rightarrow> intent_name" where
  "kind_name (Type _ _) = NType"
| "kind_name (Press _) = NPress"
| "kind_name (Scancode _ _) = NScancode"
| "kind_name (Move _) = NMove"
| "kind_name (Click _ _ _ _) = NClick"
| "kind_name (Drag _ _ _) = NDrag"
| "kind_name (Scroll _ _ _) = NScroll"
| "kind_name (Wait _ _ _) = NWait"
| "kind_name (ReadScreen _ _) = NReadScreen"
| "kind_name (Capture _ _ _) = NCapture"
| "kind_name (Exec _) = NExec"
| "kind_name (PtyRun _) = NPtyRun"
| "kind_name (Declare _ _) = NDeclare"
| "kind_name (SendBytes _) = NSendBytes"
| "kind_name ClipboardGet = NClipboardGet"
| "kind_name (ClipboardSet _) = NClipboardSet"
| "kind_name (Tune _) = NTune"
| "kind_name (Cancel _) = NCancel"

fun is_grounded :: "intent_kind \<Rightarrow> bool" where
  "is_grounded (Move _) = True"
| "is_grounded (Click _ _ _ _) = True"
| "is_grounded (Drag _ _ _) = True"
| "is_grounded (Scroll _ _ _) = True"
| "is_grounded _ = False"

fun is_text_bearing :: "intent_kind \<Rightarrow> bool" where
  "is_text_bearing (Type _ _) = True"
| "is_text_bearing (Press _) = True"
| "is_text_bearing (Scancode _ _) = True"
| "is_text_bearing _ = False"

fun needs_control_lease :: "intent_kind \<Rightarrow> bool" where
  "needs_control_lease (Type _ _) = True"
| "needs_control_lease (Press _) = True"
| "needs_control_lease (Scancode _ _) = True"
| "needs_control_lease (Move _) = True"
| "needs_control_lease (Click _ _ _ _) = True"
| "needs_control_lease (Drag _ _ _) = True"
| "needs_control_lease (Scroll _ _ _) = True"
| "needs_control_lease (Exec _) = True"
| "needs_control_lease (PtyRun _) = True"
| "needs_control_lease (SendBytes _) = True"
| "needs_control_lease (Tune _) = True"
| "needs_control_lease _ = False"

record agent_intent =
  ai_id :: intent_id
  ai_grant :: party_id
  ai_deadline :: "duration option"
  ai_fence :: "geometry_generation option"
  ai_kind :: intent_kind

text \<open>The commands a session takes, with whole intents among them.\<close>

type_synonym command = "agent_intent client_command"

lemma intent_names_complete: "set INTENT_NAMES = UNIV"
proof -
  have "n \<in> set INTENT_NAMES" for n by (cases n) (simp_all add: INTENT_NAMES_def)
  then show ?thesis by blast
qed

lemma intent_as_str_inj: "inj intent_as_str"
proof (rule injI)
  show "intent_as_str a = intent_as_str b \<Longrightarrow> a = b" for a b by (cases a; cases b) simp_all
qed

lemma grounded_needs_lease: "is_grounded k \<or> is_text_bearing k \<Longrightarrow> needs_control_lease k"
  by (cases k) simp_all

section \<open>The fences\<close>

text \<open>
  The two counters a stale action is refused by (\<open>crates/limb-core/src/fence.rs\<close>): the geometry of the
  screen and its content. The sentences of the refusals are not modelled. Whether a repaint is
  material is a comparison of floating point shares (\<open>MATERIAL_REPAINT\<close>) and an argument of the
  model.
\<close>

subsection \<open>Geometry\<close>

record screen_info =
  si_id :: u32
  si_x :: u16
  si_y :: u16
  si_width :: u16
  si_height :: u16
  si_flags :: u32
  si_primary :: bool

datatype geometry_change =
    GeoDesktopResize u16 u16
  | GeoScreenLayout "screen_info list"
  | GeoTerminalResize u16 u16
  | GeoReconnected

datatype geometry_rejected =
    GeoStale geometry_generation geometry_generation
  | GeoUnfenced geometry_generation

record geometry_fence =
  gf_current :: geometry_generation

definition geometry_fence_new :: geometry_fence where
  "geometry_fence_new = \<lparr>gf_current = GENERATION_FIRST\<rparr>"

definition geometry_changed :: "geometry_fence \<Rightarrow> geometry_change \<Rightarrow> geometry_fence \<times> geometry_generation \<times> geometry_change" where
  "geometry_changed f why = (let f' = f\<lparr>gf_current := generation_next (gf_current f)\<rparr> in (f', gf_current f', why))"

definition geometry_admit :: "geometry_fence \<Rightarrow> agent_intent \<Rightarrow> geometry_rejected + unit" where
  "geometry_admit f intent =
     (case ai_fence intent of
        Some fenced_at \<Rightarrow> if fenced_at \<noteq> gf_current f then Inl (GeoStale fenced_at (gf_current f)) else Inr ()
      | None \<Rightarrow> if is_grounded (ai_kind intent) then Inl (GeoUnfenced (gf_current f)) else Inr ())"

lemma geometry_admit_iff:
  "geometry_admit f intent = Inr () \<longleftrightarrow>
     ai_fence intent = Some (gf_current f) \<or> ai_fence intent = None \<and> \<not> is_grounded (ai_kind intent)"
  by (auto simp: geometry_admit_def split: option.splits)

subsection \<open>Content\<close>

datatype content_generation = ContentGen u32

definition CONTENT_FIRST :: content_generation where
  "CONTENT_FIRST = ContentGen 1"

fun content_next :: "content_generation \<Rightarrow> content_generation" where
  "content_next (ContentGen n) = ContentGen (sat_add n 1)"

datatype content_rejected =
    ContentStale content_generation content_generation
  | ContentUnobserved content_generation

record content_fence =
  cf_current :: content_generation

definition content_fence_new :: content_fence where
  "content_fence_new = \<lparr>cf_current = CONTENT_FIRST\<rparr>"

definition painted ::
  "(u64 \<Rightarrow> u64 \<Rightarrow> bool) \<Rightarrow> content_fence \<Rightarrow> u64 \<Rightarrow> u64 \<Rightarrow> content_fence \<times> content_generation option" where
  "painted material f covered area =
     (if area = 0 then (f, None)
      else if \<not> material covered area then (f, None)
      else let f' = f\<lparr>cf_current := content_next (cf_current f)\<rparr> in (f', Some (cf_current f')))"

definition content_admit :: "content_fence \<Rightarrow> content_generation option \<Rightarrow> content_rejected + unit" where
  "content_admit f observed =
     (case observed of
        Some seen \<Rightarrow> if seen = cf_current f then Inr () else Inl (ContentStale seen (cf_current f))
      | None \<Rightarrow> Inl (ContentUnobserved (cf_current f)))"

subsection \<open>Counters\<close>

text \<open>
  Both counters stand on the same contract: a generation that was current stays behind once the
  counter has moved, because it saturates and never wraps. It is stated once, of the number behind
  the counter and the call that moves it.
\<close>

locale generation_counter =
  fixes count :: "'f \<Rightarrow> u32" and move :: "'c \<Rightarrow> 'f \<Rightarrow> 'f"
  assumes count_move: "count (move c f) = sat_add (count f) 1"
begin

lemma moves_unat: "unat (count (fold move cs f)) = min (unat (count f) + length cs) (2 ^ 32 - 1)"
proof (induction cs arbitrary: f)
  case Nil
  have "unat (count f) < 2 ^ 32" using unsigned_less [of "count f", where 'a = nat] by simp
  then show ?case by simp
next
  case (Cons c cs)
  then show ?case by (simp add: count_move unat_sat_add)
qed

lemma moves_forward: "count f \<le> count (fold move cs f)"
proof -
  have "unat (count f) < 2 ^ 32" using unsigned_less [of "count f", where 'a = nat] by simp
  then show ?thesis by (simp add: word_le_nat_alt moves_unat)
qed

lemma stale_for_ever: "cs \<noteq> [] \<Longrightarrow> count f < - 1 \<Longrightarrow> count (fold move cs f) \<noteq> count f"
proof -
  assume "cs \<noteq> []" and "count f < - 1"
  then have "0 < length cs" and "unat (count f) < 2 ^ 32 - 1"
    by (simp_all add: word_less_nat_alt unsigned_minus_1_eq_mask mask_eq_exp_minus_1)
  then have "unat (count f) < unat (count (fold move cs f))" by (simp add: moves_unat)
  then show ?thesis by auto
qed

end

interpretation geometry: generation_counter "\<lambda>f. generation_get (gf_current f)" "\<lambda>why f. fst (geometry_changed f why)"
proof
  show "generation_get (gf_current (fst (geometry_changed f why))) = sat_add (generation_get (gf_current f)) 1" for why f
    by (cases "gf_current f") (simp add: geometry_changed_def Let_def)
qed

fun content_get :: "content_generation \<Rightarrow> u32" where
  "content_get (ContentGen n) = n"

text \<open>A repaint that counts, whatever its size was.\<close>

interpretation content: generation_counter "\<lambda>f. content_get (cf_current f)" "\<lambda>c f. fst (painted (\<lambda>_ _. True) f c 1)"
proof
  show "content_get (cf_current (fst (painted (\<lambda>_ _. True) f c 1))) = sat_add (content_get (cf_current f)) 1" for c f
    by (cases "cf_current f") (simp add: painted_def Let_def)
qed

end
