(* ===== verification/Agent_Keys.thy ===== *)
theory Agent_Keys
  imports Agent_Intent
begin

text \<open>
  The table of keys an agent may name (\<open>crates/remote-core/src/keys.rs\<close>) and how text and chords
  become key events (\<open>crates/limb-core/src/keys.rs\<close>). Text is a list of code points.
\<close>

definition key :: "string \<Rightarrow> u32 \<Rightarrow> u32 \<Rightarrow> named_key" where
  "key n keysym code = \<lparr>nk_name = n, nk_keysym = keysym, nk_scancode = code\<rparr>"

text \<open>The table, in the groups its comments mark, the letters apart from the digits and punctuation.\<close>

definition EDITING_KEYS :: "named_key list" where
  "EDITING_KEYS =
    [
     key ''Backspace'' 0xFF08 0xE,
     key ''Tab'' 0xFF09 0xF,
     key ''Clear'' 0xFF0B 0x0,
     key ''Enter'' 0xFF0D 0x1C,
     key ''Pause'' 0xFF13 0xC6,
     key ''ScrollLock'' 0xFF14 0x46,
     key ''Escape'' 0xFF1B 0x1,
     key ''Space'' 0x20 0x39,
     key ''Delete'' 0xFFFF 0xD3,
     key ''Home'' 0xFF50 0xC7,
     key ''ArrowLeft'' 0xFF51 0xCB,
     key ''ArrowUp'' 0xFF52 0xC8,
     key ''ArrowRight'' 0xFF53 0xCD,
     key ''ArrowDown'' 0xFF54 0xD0,
     key ''PageUp'' 0xFF55 0xC9,
     key ''PageDown'' 0xFF56 0xD1,
     key ''End'' 0xFF57 0xCF,
     key ''Insert'' 0xFF63 0xD2,
     key ''ContextMenu'' 0xFF67 0xDD,
     key ''PrintScreen'' 0xFF61 0x54,
     key ''NumLock'' 0xFF7F 0x45,
     key ''CapsLock'' 0xFFE5 0x3A
    ]"

definition FUNCTION_KEYS :: "named_key list" where
  "FUNCTION_KEYS =
    [
     key ''F1'' 0xFFBE 0x3B,
     key ''F2'' 0xFFBF 0x3C,
     key ''F3'' 0xFFC0 0x3D,
     key ''F4'' 0xFFC1 0x3E,
     key ''F5'' 0xFFC2 0x3F,
     key ''F6'' 0xFFC3 0x40,
     key ''F7'' 0xFFC4 0x41,
     key ''F8'' 0xFFC5 0x42,
     key ''F9'' 0xFFC6 0x43,
     key ''F10'' 0xFFC7 0x44,
     key ''F11'' 0xFFC8 0x57,
     key ''F12'' 0xFFC9 0x58,
     key ''F13'' 0xFFCA 0x0,
     key ''F14'' 0xFFCB 0x0,
     key ''F15'' 0xFFCC 0x0,
     key ''F16'' 0xFFCD 0x0,
     key ''F17'' 0xFFCE 0x0,
     key ''F18'' 0xFFCF 0x0,
     key ''F19'' 0xFFD0 0x0,
     key ''F20'' 0xFFD1 0x0
    ]"

definition MODIFIER_KEYS :: "named_key list" where
  "MODIFIER_KEYS =
    [
     key ''ShiftLeft'' 0xFFE1 0x2A,
     key ''ShiftRight'' 0xFFE2 0x36,
     key ''ControlLeft'' 0xFFE3 0x1D,
     key ''ControlRight'' 0xFFE4 0x9D,
     key ''AltLeft'' 0xFFE9 0x38,
     key ''AltRight'' 0xFFEA 0xB8,
     key ''MetaLeft'' 0xFFEB 0xDB,
     key ''MetaRight'' 0xFFEC 0xDC
    ]"

definition LETTER_KEYS :: "named_key list" where
  "LETTER_KEYS =
    [
     key ''KeyA'' 0x61 0x1E,
     key ''KeyB'' 0x62 0x30,
     key ''KeyC'' 0x63 0x2E,
     key ''KeyD'' 0x64 0x20,
     key ''KeyE'' 0x65 0x12,
     key ''KeyF'' 0x66 0x21,
     key ''KeyG'' 0x67 0x22,
     key ''KeyH'' 0x68 0x23,
     key ''KeyI'' 0x69 0x17,
     key ''KeyJ'' 0x6A 0x24,
     key ''KeyK'' 0x6B 0x25,
     key ''KeyL'' 0x6C 0x26,
     key ''KeyM'' 0x6D 0x32,
     key ''KeyN'' 0x6E 0x31,
     key ''KeyO'' 0x6F 0x18,
     key ''KeyP'' 0x70 0x19,
     key ''KeyQ'' 0x71 0x10,
     key ''KeyR'' 0x72 0x13,
     key ''KeyS'' 0x73 0x1F,
     key ''KeyT'' 0x74 0x14,
     key ''KeyU'' 0x75 0x16,
     key ''KeyV'' 0x76 0x2F,
     key ''KeyW'' 0x77 0x11,
     key ''KeyX'' 0x78 0x2D,
     key ''KeyY'' 0x79 0x15,
     key ''KeyZ'' 0x7A 0x2C
    ]"

definition DIGIT_KEYS :: "named_key list" where
  "DIGIT_KEYS =
    [
     key ''Digit0'' 0x30 0xB,
     key ''Digit1'' 0x31 0x2,
     key ''Digit2'' 0x32 0x3,
     key ''Digit3'' 0x33 0x4,
     key ''Digit4'' 0x34 0x5,
     key ''Digit5'' 0x35 0x6,
     key ''Digit6'' 0x36 0x7,
     key ''Digit7'' 0x37 0x8,
     key ''Digit8'' 0x38 0x9,
     key ''Digit9'' 0x39 0xA,
     key ''Minus'' 0x2D 0xC,
     key ''Equal'' 0x3D 0xD,
     key ''BracketLeft'' 0x5B 0x1A,
     key ''BracketRight'' 0x5D 0x1B,
     key ''Semicolon'' 0x3B 0x27,
     key ''Quote'' 0x27 0x28,
     key ''Backquote'' 0x60 0x29,
     key ''Backslash'' 0x5C 0x2B,
     key ''Comma'' 0x2C 0x33,
     key ''Period'' 0x2E 0x34,
     key ''Slash'' 0x2F 0x35
    ]"

definition NUMPAD_KEYS :: "named_key list" where
  "NUMPAD_KEYS =
    [
     key ''NumpadEnter'' 0xFF8D 0x9C,
     key ''NumpadMultiply'' 0xFFAA 0x37,
     key ''NumpadAdd'' 0xFFAB 0x4E,
     key ''NumpadSubtract'' 0xFFAD 0x4A,
     key ''NumpadDecimal'' 0xFFAE 0x53,
     key ''NumpadDivide'' 0xFFAF 0xB5,
     key ''Numpad0'' 0xFFB0 0x52,
     key ''Numpad1'' 0xFFB1 0x4F,
     key ''Numpad2'' 0xFFB2 0x50,
     key ''Numpad3'' 0xFFB3 0x51,
     key ''Numpad4'' 0xFFB4 0x4B,
     key ''Numpad5'' 0xFFB5 0x4C,
     key ''Numpad6'' 0xFFB6 0x4D,
     key ''Numpad7'' 0xFFB7 0x47,
     key ''Numpad8'' 0xFFB8 0x48,
     key ''Numpad9'' 0xFFB9 0x49
    ]"

definition NAMED_KEYS :: "named_key list" where
  "NAMED_KEYS = EDITING_KEYS @ FUNCTION_KEYS @ MODIFIER_KEYS @ LETTER_KEYS @ DIGIT_KEYS @ NUMPAD_KEYS"

lemmas key_tables = NAMED_KEYS_def EDITING_KEYS_def FUNCTION_KEYS_def MODIFIER_KEYS_def LETTER_KEYS_def DIGIT_KEYS_def NUMPAD_KEYS_def

definition key_lookup :: "chars \<Rightarrow> named_key option" where
  "key_lookup name = List.find (\<lambda>k. map ascii_lower (chars_of (nk_name k)) = map ascii_lower (trim name)) NAMED_KEYS"

subsection \<open>Typing\<close>

definition keysym_for_char :: "nat \<Rightarrow> u32" where
  "keysym_for_char c =
     (if c = 0x0A \<or> c = 0x0D then 0xFF0D
      else if c = 0x09 then 0xFF09
      else if c = 0x08 then 0xFF08
      else if c = 0x1B then 0xFF1B
      else if c < 0x100 then of_nat c
      else 0x01000000 + of_nat c)"

definition type_keysyms :: "chars \<Rightarrow> (nat \<times> u32) list" where
  "type_keysyms text = map (\<lambda>c. (c, keysym_for_char c)) text"

definition limb_lower_type :: "chars \<Rightarrow> command list" where
  "limb_lower_type text = concat (map (\<lambda>(_, keysym). [Key keysym None True, Key keysym None False]) (type_keysyms text))"

definition key_event :: "bool \<Rightarrow> named_key \<Rightarrow> command" where
  "key_event down k = Key (nk_keysym k) (if nk_scancode k \<noteq> 0 then Some (nk_scancode k) else None) down"

definition lower_press :: "named_key list \<Rightarrow> command list" where
  "lower_press keys = map (key_event True) keys @ map (key_event False) (rev keys)"

subsection \<open>The table\<close>

lemma names_distinct: "distinct (map (\<lambda>k. map ascii_lower (chars_of (nk_name k))) NAMED_KEYS)"
  by (simp add: key_tables key_def chars_of_def ascii_lower_def)

lemma names_trimmed: "list_all (\<lambda>k. trim (chars_of (nk_name k)) = chars_of (nk_name k)) NAMED_KEYS"
  by (simp add: key_tables key_def chars_of_def trim_def is_whitespace_def)

lemma keysyms_nonzero: "list_all (\<lambda>k. nk_keysym k \<noteq> 0) NAMED_KEYS"
  by (simp add: key_tables key_def)

lemma find_distinct: "distinct (map f xs) \<Longrightarrow> x \<in> set xs \<Longrightarrow> List.find (\<lambda>y. f y = f x) xs = Some x"
  by (induction xs) (auto simp: image_iff)

lemma lookup_named: "k \<in> set NAMED_KEYS \<Longrightarrow> key_lookup (chars_of (nk_name k)) = Some k"
  using find_distinct [OF names_distinct, of k] names_trimmed
  by (simp add: key_lookup_def list_all_iff)

text \<open>Every code point types a key of its own, but for the two line endings.\<close>

lemma keysym_for_char_inj:
  "is_scalar c \<Longrightarrow> is_scalar d \<Longrightarrow> keysym_for_char c = keysym_for_char d \<longleftrightarrow> c = d \<or> c \<in> {0x0A, 0x0D} \<and> d \<in> {0x0A, 0x0D}"
proof -
  have wide: "unat (0x01000000 + of_nat e :: u32) = 0x01000000 + e" if "e < 0x110000" for e
    using that by (simp add: unat_word_ariths take_bit_nat_eq_self unat_of_nat)
  have narrow: "unat (of_nat e :: u32) = e" if "e < 0x100" for e
    using that by (simp add: unat_of_nat take_bit_nat_eq_self)
  have un: "unat (keysym_for_char e) =
      (if e = 0x0A \<or> e = 0x0D then 0xFF0D else if e = 0x09 then 0xFF09 else if e = 0x08 then 0xFF08
       else if e = 0x1B then 0xFF1B else if e < 0x100 then e else 0x01000000 + e)" if "is_scalar e" for e
    using that by (auto simp: keysym_for_char_def wide narrow is_scalar_def)
  show "is_scalar c \<Longrightarrow> is_scalar d \<Longrightarrow> ?thesis"
    by (subst word_unat_eq_iff) (auto simp: un is_scalar_def split: if_splits)
qed

end
