(* ===== verification/Agent_Capability.thy ===== *)
theory Agent_Capability
  imports Agent_Intent
begin

text \<open>
  What a grant may authorise (\<open>crates/limb-core/src/capability.rs\<close>): the capabilities, the set of them
  as the bits of a word, the role bundles and the price of every intent. The laws read the word as a
  set.
\<close>

unbundle bit_operations_syntax

subsection \<open>Capabilities\<close>

datatype capability =
    CapView | CapCapture | CapControl | CapOpen | CapClose | CapAdmin | CapHostsRead | CapClipboardRead
  | CapClipboardWrite | CapTerminalRead | CapTerminalWrite | CapFilesRead | CapFilesWrite
  | CapBrowserNavigate | CapBrowserTabs | CapExec | CapScancode

definition ALL_CAPABILITIES :: "capability list" where
  "ALL_CAPABILITIES =
     [CapView, CapCapture, CapControl, CapOpen, CapClose, CapAdmin, CapHostsRead, CapClipboardRead,
      CapClipboardWrite, CapTerminalRead, CapTerminalWrite, CapFilesRead, CapFilesWrite,
      CapBrowserNavigate, CapBrowserTabs, CapExec, CapScancode]"

definition NEVER_BUNDLED :: "capability list" where
  "NEVER_BUNDLED = [CapExec, CapScancode]"

fun cap_as_str :: "capability \<Rightarrow> string" where
  "cap_as_str CapView = ''view''"
| "cap_as_str CapCapture = ''capture''"
| "cap_as_str CapControl = ''control''"
| "cap_as_str CapOpen = ''open''"
| "cap_as_str CapClose = ''close''"
| "cap_as_str CapAdmin = ''admin''"
| "cap_as_str CapHostsRead = ''hosts.read''"
| "cap_as_str CapClipboardRead = ''clipboard.read''"
| "cap_as_str CapClipboardWrite = ''clipboard.write''"
| "cap_as_str CapTerminalRead = ''terminal.read''"
| "cap_as_str CapTerminalWrite = ''terminal.write''"
| "cap_as_str CapFilesRead = ''files.read''"
| "cap_as_str CapFilesWrite = ''files.write''"
| "cap_as_str CapBrowserNavigate = ''browser.navigate''"
| "cap_as_str CapBrowserTabs = ''browser.tabs''"
| "cap_as_str CapExec = ''exec''"
| "cap_as_str CapScancode = ''scancode''"

definition cap_parse :: "chars \<Rightarrow> capability option" where
  "cap_parse s = List.find (\<lambda>c. chars_of (cap_as_str c) = trim s) ALL_CAPABILITIES"

definition is_never_bundled :: "capability \<Rightarrow> bool" where
  "is_never_bundled c \<longleftrightarrow> c \<in> set NEVER_BUNDLED"

text \<open>The discriminant, and the bit it names.\<close>

fun cap_index :: "capability \<Rightarrow> nat" where
  "cap_index CapView = 0"
| "cap_index CapCapture = 1"
| "cap_index CapControl = 2"
| "cap_index CapOpen = 3"
| "cap_index CapClose = 4"
| "cap_index CapAdmin = 5"
| "cap_index CapHostsRead = 6"
| "cap_index CapClipboardRead = 7"
| "cap_index CapClipboardWrite = 8"
| "cap_index CapTerminalRead = 9"
| "cap_index CapTerminalWrite = 10"
| "cap_index CapFilesRead = 11"
| "cap_index CapFilesWrite = 12"
| "cap_index CapBrowserNavigate = 13"
| "cap_index CapBrowserTabs = 14"
| "cap_index CapExec = 15"
| "cap_index CapScancode = 16"

definition cap_bit :: "capability \<Rightarrow> u32" where
  "cap_bit c = push_bit (cap_index c) 1"

subsection \<open>Sets of them\<close>

datatype capability_set = Caps u32

fun caps_bits :: "capability_set \<Rightarrow> u32" where
  "caps_bits (Caps w) = w"

definition DENY_ALL :: capability_set where
  "DENY_ALL = Caps 0"

fun caps_with :: "capability_set \<Rightarrow> capability \<Rightarrow> capability_set" where
  "caps_with (Caps w) c = Caps (w OR cap_bit c)"

fun caps_without :: "capability_set \<Rightarrow> capability \<Rightarrow> capability_set" where
  "caps_without (Caps w) c = Caps (w AND NOT (cap_bit c))"

fun allows :: "capability_set \<Rightarrow> capability \<Rightarrow> bool" where
  "allows (Caps w) c \<longleftrightarrow> w AND cap_bit c \<noteq> 0"

fun allows_all :: "capability_set \<Rightarrow> capability_set \<Rightarrow> bool" where
  "allows_all (Caps w) (Caps v) \<longleftrightarrow> w AND v = v"

fun caps_intersect :: "capability_set \<Rightarrow> capability_set \<Rightarrow> capability_set" where
  "caps_intersect (Caps w) (Caps v) = Caps (w AND v)"

fun caps_is_empty :: "capability_set \<Rightarrow> bool" where
  "caps_is_empty (Caps w) \<longleftrightarrow> w = 0"

definition caps_of :: "capability list \<Rightarrow> capability_set" where
  "caps_of cs = fold (\<lambda>c s. caps_with s c) cs DENY_ALL"

definition caps_iter :: "capability_set \<Rightarrow> capability list" where
  "caps_iter s = filter (allows s) ALL_CAPABILITIES"

definition caps_missing :: "capability_set \<Rightarrow> capability_set \<Rightarrow> capability list" where
  "caps_missing s needed = filter (\<lambda>c. \<not> allows s c) (caps_iter needed)"

subsection \<open>Bundles\<close>

datatype role_bundle = RoleObserver | RoleDriver | RoleOperator | RoleAgent | RoleOwner

definition ROLE_BUNDLES :: "role_bundle list" where
  "ROLE_BUNDLES = [RoleObserver, RoleDriver, RoleOperator, RoleAgent, RoleOwner]"

fun bundle_as_str :: "role_bundle \<Rightarrow> string" where
  "bundle_as_str RoleObserver = ''observer''"
| "bundle_as_str RoleDriver = ''driver''"
| "bundle_as_str RoleOperator = ''operator''"
| "bundle_as_str RoleAgent = ''agent''"
| "bundle_as_str RoleOwner = ''owner''"

fun bundle_expand :: "role_bundle \<Rightarrow> capability_set" where
  "bundle_expand RoleObserver = caps_of [CapView]"
| "bundle_expand RoleDriver =
     caps_of [CapView, CapControl, CapClipboardWrite, CapTerminalRead, CapTerminalWrite, CapBrowserNavigate, CapBrowserTabs]"
| "bundle_expand RoleOperator =
     caps_of [CapView, CapControl, CapClipboardWrite, CapTerminalRead, CapTerminalWrite, CapBrowserNavigate, CapBrowserTabs,
              CapOpen, CapClose, CapCapture, CapClipboardRead, CapHostsRead, CapFilesRead, CapFilesWrite]"
| "bundle_expand RoleAgent =
     caps_of [CapView, CapControl, CapCapture, CapTerminalRead, CapTerminalWrite, CapBrowserNavigate, CapBrowserTabs]"
| "bundle_expand RoleOwner = caps_of (filter (\<lambda>c. \<not> is_never_bundled c) ALL_CAPABILITIES)"

subsection \<open>What an intent costs\<close>

record perception_set =
  pc_frames :: bool
  pc_cells :: bool
  pc_structure :: bool

record param_rule =
  pm_intent :: intent_name
  pm_base :: capability
  pm_additional :: capability

definition PARAM_RULES :: "param_rule list" where
  "PARAM_RULES =
     [\<lparr>pm_intent = NReadScreen, pm_base = CapView, pm_additional = CapCapture\<rparr>,
      \<lparr>pm_intent = NWait, pm_base = CapView, pm_additional = CapCapture\<rparr>]"

fun capabilities_for :: "intent_kind \<Rightarrow> perception_set \<Rightarrow> capability_set" where
  "capabilities_for (Type _ _) _ = caps_of [CapControl]"
| "capabilities_for (Press _) _ = caps_of [CapControl]"
| "capabilities_for (Scancode _ _) _ = caps_of [CapScancode]"
| "capabilities_for (Move _) _ = caps_of [CapControl]"
| "capabilities_for (Click _ _ _ _) _ = caps_of [CapControl]"
| "capabilities_for (Drag _ _ _) _ = caps_of [CapControl]"
| "capabilities_for (Scroll _ _ _) _ = caps_of [CapControl]"
| "capabilities_for (Tune _) _ = caps_of [CapControl]"
| "capabilities_for (Wait until _ _) perception =
     (if reads_text until \<and> \<not> pc_cells perception then caps_of [CapView, CapCapture] else caps_of [CapView])"
| "capabilities_for (ReadScreen form _) _ =
     (if form = FormPixels then caps_of [CapView, CapCapture] else caps_of [CapView])"
| "capabilities_for (Capture _ _ _) _ = caps_of [CapCapture]"
| "capabilities_for (Exec _) _ = caps_of [CapExec]"
| "capabilities_for (PtyRun _) _ = caps_of [CapExec]"
| "capabilities_for (Declare _ _) _ = caps_of [CapTerminalWrite]"
| "capabilities_for (SendBytes _) _ = caps_of [CapTerminalWrite]"
| "capabilities_for ClipboardGet _ = caps_of [CapClipboardRead]"
| "capabilities_for (ClipboardSet _) _ = caps_of [CapClipboardWrite]"
| "capabilities_for (Cancel _) _ = DENY_ALL"

subsection \<open>The word is a set\<close>

lemma capabilities_complete: "c \<in> set ALL_CAPABILITIES"
  by (cases c) (simp_all add: ALL_CAPABILITIES_def)

lemma cap_index_inj: "cap_index a = cap_index b \<longleftrightarrow> a = b"
  by (cases a; cases b) simp_all

lemma cap_index_less: "cap_index c < 32"
  by (cases c) simp_all

lemma allows_bit: "allows (Caps w) c \<longleftrightarrow> bit w (cap_index c)"
proof -
  have "w AND cap_bit c \<noteq> 0 \<longleftrightarrow> (\<exists>n < 32. bit w n \<and> n = cap_index c)"
    using cap_index_less [of c]
    by (auto simp: cap_bit_def bit_eq_iff bit_simps)
  then show ?thesis using cap_index_less [of c] by simp
qed

lemma allows_deny [simp]: "\<not> allows DENY_ALL c"
  by (simp add: DENY_ALL_def allows_bit del: allows.simps)

lemma allows_with [simp]: "allows (caps_with s c) d \<longleftrightarrow> d = c \<or> allows s d"
  using cap_index_less [of d] cap_index_inj [of d c]
  by (cases s) (auto simp: allows_bit cap_bit_def bit_simps simp del: allows.simps)

lemma allows_without [simp]: "allows (caps_without s c) d \<longleftrightarrow> d \<noteq> c \<and> allows s d"
  using cap_index_less [of d] cap_index_inj [of d c]
  by (cases s) (auto simp: allows_bit cap_bit_def bit_simps simp del: allows.simps)

lemma allows_intersect [simp]: "allows (caps_intersect s t) c \<longleftrightarrow> allows s c \<and> allows t c"
  by (cases s; cases t) (simp add: allows_bit bit_simps del: allows.simps)

lemma allows_of [simp]: "allows (caps_of cs) c \<longleftrightarrow> c \<in> set cs"
proof -
  have "allows (fold (\<lambda>c s. caps_with s c) cs s) c \<longleftrightarrow> c \<in> set cs \<or> allows s c" for s
    by (induction cs arbitrary: s) auto
  then show ?thesis by (simp add: caps_of_def)
qed

lemma set_caps_iter [simp]: "set (caps_iter s) = {c. allows s c}"
  using capabilities_complete by (auto simp: caps_iter_def)

lemma missing_none: "caps_missing s needed = [] \<longleftrightarrow> (\<forall>c. allows needed c \<longrightarrow> allows s c)"
  by (auto simp: caps_missing_def filter_empty_conv)

lemma allows_all_mono: "allows_all s t \<Longrightarrow> allows t c \<Longrightarrow> allows s c"
proof (cases s; cases t)
  fix w v
  assume "allows_all s t" "allows t c" and st: "s = Caps w" "t = Caps v"
  then have "w AND v = v" "bit v (cap_index c)" by (simp_all add: allows_bit del: allows.simps)
  then have "bit w (cap_index c)" by (metis bit_and_iff)
  then show "allows s c" by (simp add: st allows_bit del: allows.simps)
qed

text \<open>Every bit of a built set is one of the seventeen, so there the two questions agree.\<close>

definition caps_wf :: "capability_set \<Rightarrow> bool" where
  "caps_wf s \<longleftrightarrow> (\<forall>n. bit (caps_bits s) n \<longrightarrow> n < 17)"

lemma caps_wf_of: "caps_wf (caps_of cs)"
proof -
  have step: "caps_wf s \<Longrightarrow> caps_wf (caps_with s c)" for s c
  proof (cases s)
    fix w
    assume wf: "caps_wf s" and s: "s = Caps w"
    have "cap_index c < 17" by (cases c) simp_all
    then show ?thesis using wf by (auto simp: s caps_wf_def cap_bit_def bit_simps)
  qed
  have "caps_wf s \<Longrightarrow> caps_wf (fold (\<lambda>c s. caps_with s c) cs s)" for s
    by (induction cs arbitrary: s) (simp_all add: step)
  then show ?thesis unfolding caps_of_def by (metis DENY_ALL_def bit_0_eq bot_apply bot_bool_def caps_bits.simps caps_wf_def)
qed

lemma index_surj: "n < 17 \<Longrightarrow> \<exists>c. cap_index c = n"
proof -
  assume "n < 17"
  then have "n \<in> set (map cap_index ALL_CAPABILITIES)" by (auto simp: ALL_CAPABILITIES_def less_Suc_eq numeral_eq_Suc)
  then show ?thesis by auto
qed

lemma allows_all_missing:
  assumes "caps_wf t"
  shows "allows_all s t \<longleftrightarrow> caps_missing s t = []"
proof -
  obtain w v where st: "s = Caps w" "t = Caps v" by (cases s; cases t)
  have v: "n < 17" if "bit v n" for n
    using assms that by (auto simp: caps_wf_def st)
  have "w AND v = v \<longleftrightarrow> (\<forall>n. bit v n \<longrightarrow> bit w n)"
  proof
    assume "w AND v = v"
    then have "bit v n \<longleftrightarrow> bit w n \<and> bit v n" for n by (metis bit_and_iff)
    then show "\<forall>n. bit v n \<longrightarrow> bit w n" by blast
  next
    assume h: "\<forall>n. bit v n \<longrightarrow> bit w n"
    show "w AND v = v" by (rule bit_eqI) (use h in \<open>auto simp: bit_and_iff\<close>)
  qed
  also have "\<dots> \<longleftrightarrow> (\<forall>c. bit v (cap_index c) \<longrightarrow> bit w (cap_index c))"
    using v index_surj by metis
  finally show ?thesis by (simp add: st missing_none allows_bit del: allows.simps)
qed

lemma cap_parse_str: "cap_parse (chars_of (cap_as_str c)) = Some c"
  by (cases c) (simp_all add: cap_parse_def ALL_CAPABILITIES_def chars_of_def trim_def is_whitespace_def)

subsection \<open>What no bundle carries\<close>

lemma bundle_never: "is_never_bundled c \<Longrightarrow> \<not> allows (bundle_expand b) c"
  by (cases b) (auto simp: is_never_bundled_def NEVER_BUNDLED_def)

end
