(* ===== verification/Agent_Lowering.thy ===== *)
theory Agent_Lowering
  imports Agent_Keys Agent_Intent Agent_Capability
begin

text \<open>
  How an intent becomes commands (\<open>crates/agent-plane/src/lowering.rs\<close>), with the settings of the
  plane (\<open>config.rs\<close>), the send policies (\<open>backpressure.rs\<close>) and the refusals
  (\<open>error.rs\<close>, \<open>limb-core/src/observation.rs\<close>). The sentences of the refusals are not modelled: a
  refusal is its reason.
\<close>

unbundle bit_operations_syntax

subsection \<open>Refusals\<close>

datatype refusal_code =
    NotSupported | MissingCapability | LeaseNotHeld | NotReady | GeometryHasChanged | Unfenced | OutOfBounds
  | UnknownKey | SlotRefused | RateLimited | NotExpressible

datatype refusal_reason =
    LimbReason refusal_code
  | HostNotInGrant
  | IntentInFlight
  | IntentBlocked
  | NoNativeVariant
  | LimbGone

fun refusal_code_of :: "refusal_reason \<Rightarrow> refusal_code" where
  "refusal_code_of (LimbReason code) = code"
| "refusal_code_of HostNotInGrant = MissingCapability"
| "refusal_code_of IntentInFlight = RateLimited"
| "refusal_code_of IntentBlocked = RateLimited"
| "refusal_code_of NoNativeVariant = NotSupported"
| "refusal_code_of LimbGone = NotReady"

subsection \<open>Steps\<close>

datatype send_policy = Shed | Coalesce | Await | Jump

datatype step_mark = Plain | CodePoint | DragPress | DragPoint point | DragRelease

record plan_step =
  sp_command :: command
  sp_policy :: send_policy
  sp_pause :: duration
  sp_mark :: step_mark

definition plain :: "command \<Rightarrow> send_policy \<Rightarrow> plan_step" where
  "plain command policy = \<lparr>sp_command = command, sp_policy = policy, sp_pause = 0, sp_mark = Plain\<rparr>"

definition marked :: "command \<Rightarrow> send_policy \<Rightarrow> step_mark \<Rightarrow> plan_step" where
  "marked command policy mark = \<lparr>sp_command = command, sp_policy = policy, sp_pause = 0, sp_mark = mark\<rparr>"

definition after :: "plan_step \<Rightarrow> duration \<Rightarrow> plan_step" where
  "after s pause = s\<lparr>sp_pause := pause\<rparr>"

definition payload_bytes :: "plan_step \<Rightarrow> nat" where
  "payload_bytes s =
     (case sp_command s of
        TerminalInput bytes \<Rightarrow> length bytes
      | ClipboardText text \<Rightarrow> text_len text
      | _ \<Rightarrow> 0)"

datatype lowered = Commands "plan_step list" | Observed | Native plan_step

datatype grounding = GroundPixels | GroundCells | GroundNone

record plane_config =
  pg_max_driven_limbs :: nat
  pg_intent_block_ms :: u64
  pg_session_reservation_divisor :: nat
  pg_drag_points :: u8
  pg_drag_settle_ms :: u64
  pg_double_click_gap_ms :: u64
  pg_lease :: lease_config

definition reserved_slots :: "plane_config \<Rightarrow> nat \<Rightarrow> nat" where
  "reserved_slots config channel_capacity = channel_capacity div max (pg_session_reservation_divisor config) 1"

record lower_context =
  lc_grounding :: grounding
  lc_size :: "u16 \<times> u16"
  lc_resting_mask :: u16
  lc_last_point :: point
  lc_drag_points :: u8
  lc_drag_settle :: duration
  lc_double_click_gap :: duration

definition lower_context_new :: "grounding \<Rightarrow> u16 \<times> u16 \<Rightarrow> plane_config \<Rightarrow> lower_context" where
  "lower_context_new g wh config =
     \<lparr>lc_grounding = g, lc_size = wh, lc_resting_mask = 0, lc_last_point = point_at 0 0,
      lc_drag_points = pg_drag_points config, lc_drag_settle = from_millis (unat (pg_drag_settle_ms config)),
      lc_double_click_gap = from_millis (unat (pg_double_click_gap_ms config))\<rparr>"

definition ctx_admits :: "lower_context \<Rightarrow> point \<Rightarrow> refusal_reason + unit" where
  "ctx_admits ctx at =
     (if pt_x at < fst (lc_size ctx) \<and> pt_y at < snd (lc_size ctx) then Inr () else Inl (LimbReason OutOfBounds))"

definition pointer_limb :: "lower_context \<Rightarrow> refusal_reason + unit" where
  "pointer_limb ctx = (if lc_grounding ctx = GroundPixels then Inr () else Inl (LimbReason NotSupported))"

definition pointer_to :: "point \<Rightarrow> u16 \<Rightarrow> command" where
  "pointer_to at m = Pointer (pt_x at) (pt_y at) m"

definition release_sequence :: "point \<Rightarrow> plan_step list" where
  "release_sequence at = [plain (pointer_to at 0) Jump, plain ReleaseAllKeys Jump]"

subsection \<open>Keyboard\<close>

definition UNPACED_KEYSTROKE :: duration where
  "UNPACED_KEYSTROKE = from_millis 4"

definition per_code_point :: "u16 option \<Rightarrow> duration" where
  "per_code_point wpm =
     (case wpm of None \<Rightarrow> 0 | Some w \<Rightarrow> from_millis (unat ((60000 :: u64) div (ucast (max w 1) * 5))))"

definition type_steps :: "grounding \<Rightarrow> duration \<Rightarrow> nat \<times> u32 \<Rightarrow> plan_step list" where
  "type_steps g pause = (\<lambda>(c, keysym).
     if g = GroundPixels
     then [plain (Key keysym None True) Await, after (marked (Key keysym None False) Await CodePoint) pause]
     else [after (marked (TerminalInput (encode_utf8 c)) Await CodePoint) pause])"

definition lower_type :: "chars \<Rightarrow> u16 option \<Rightarrow> lower_context \<Rightarrow> refusal_reason + lowered" where
  "lower_type text wpm ctx =
     (if text = [] then Inl (LimbReason NotExpressible)
      else
        let pause = (if wpm = None \<and> lc_grounding ctx = GroundPixels then UNPACED_KEYSTROKE else per_code_point wpm)
        in Inr (Commands (concat (map (type_steps (lc_grounding ctx) pause) (type_keysyms text)))))"

definition lower_press_intent :: "named_key list \<Rightarrow> lower_context \<Rightarrow> refusal_reason + lowered" where
  "lower_press_intent keys ctx =
     (if keys = [] then Inl (LimbReason UnknownKey)
      else if lc_grounding ctx \<noteq> GroundPixels then Inl (LimbReason NotExpressible)
      else Inr (Commands (map (\<lambda>c. plain c Await) (lower_press keys))))"

subsection \<open>Pointer\<close>

definition lower_move :: "point \<Rightarrow> lower_context \<Rightarrow> refusal_reason + lowered" where
  "lower_move to ctx =
     bind_res (pointer_limb ctx) (\<lambda>_.
     bind_res (ctx_admits ctx to) (\<lambda>_.
     Inr (Commands [plain (pointer_to to (lc_resting_mask ctx)) Shed])))"

definition click_edges :: "point \<Rightarrow> u16 \<Rightarrow> u8 \<Rightarrow> lower_context \<Rightarrow> nat \<Rightarrow> plan_step list" where
  "click_edges at held count ctx edge =
     (let release = plain (pointer_to at (lc_resting_mask ctx)) Await
      in [plain (pointer_to at held) Await,
          if edge + 1 < unat count then after release (lc_double_click_gap ctx) else release])"

definition lower_click :: "point \<Rightarrow> button \<Rightarrow> u8 \<Rightarrow> named_key list \<Rightarrow> lower_context \<Rightarrow> refusal_reason + lowered" where
  "lower_click at button count modifiers ctx =
     bind_res (pointer_limb ctx) (\<lambda>_.
     bind_res (ctx_admits ctx at) (\<lambda>_.
     if count = 0 then Inl (LimbReason NotExpressible)
     else if 2 < count then Inl (LimbReason NotExpressible)
     else
       let held = lc_resting_mask ctx OR button_mask button in
       Inr (Commands
         (map (\<lambda>k. plain (key_event True k) Await) modifiers @
          [plain (pointer_to at (lc_resting_mask ctx)) Await] @
          concat (map (click_edges at held count ctx) [0..<unat count]) @
          map (\<lambda>k. plain (key_event False k) Await) (rev modifiers)))))"

text \<open>Linear interpolation in 32 bits, rounded to the nearest point.\<close>

definition lerp :: "u32 \<Rightarrow> u32 \<Rightarrow> u16 \<Rightarrow> u16 \<Rightarrow> u16" where
  "lerp i divisions a16 b16 =
     (let a = ucast a16; b = ucast b16;
          val = (if a \<le> b then a + ((b - a) * i + divisions div 2) div divisions
                 else a - ((a - b) * i + divisions div 2) div divisions)
      in ucast val)"

definition interpolate :: "point \<Rightarrow> point \<Rightarrow> u32 \<Rightarrow> u32 \<Rightarrow> point" where
  "interpolate from to i divisions =
     point_at (lerp i divisions (pt_x from) (pt_x to)) (lerp i divisions (pt_y from) (pt_y to))"

definition lower_drag :: "point \<Rightarrow> point \<Rightarrow> button \<Rightarrow> lower_context \<Rightarrow> refusal_reason + lowered" where
  "lower_drag from to button ctx =
     bind_res (pointer_limb ctx) (\<lambda>_.
     bind_res (ctx_admits ctx from) (\<lambda>_.
     bind_res (ctx_admits ctx to) (\<lambda>_.
     let held = lc_resting_mask ctx OR button_mask button;
         points = unat (lc_drag_points ctx) in
     Inr (Commands
       ([after (plain (pointer_to from (lc_resting_mask ctx)) Await) (lc_drag_settle ctx),
         after (marked (pointer_to from held) Await DragPress) (lc_drag_settle ctx)] @
        map (\<lambda>i. let at = interpolate from to (of_nat i) (of_nat points + 1)
                 in marked (pointer_to at held) Await (DragPoint at)) [1..<points + 1] @
        [after (marked (pointer_to to held) Await (DragPoint to)) (lc_drag_settle ctx),
         marked (pointer_to to (lc_resting_mask ctx)) Await DragRelease])))))"

definition lower_scroll :: "point \<Rightarrow> scroll_direction \<Rightarrow> u8 \<Rightarrow> lower_context \<Rightarrow> refusal_reason + lowered" where
  "lower_scroll at direction clicks ctx =
     bind_res (pointer_limb ctx) (\<lambda>_.
     bind_res (ctx_admits ctx at) (\<lambda>_.
     if clicks = 0 then Inl (LimbReason NotExpressible)
     else
       let wheel = lc_resting_mask ctx OR scroll_mask direction in
       Inr (Commands
         (plain (pointer_to at (lc_resting_mask ctx)) Await #
          concat (map (\<lambda>_. [plain (pointer_to at wheel) Await, plain (pointer_to at (lc_resting_mask ctx)) Await])
            [0..<unat clicks])))))"

subsection \<open>The rest\<close>

definition lower_send_bytes :: "bytes \<Rightarrow> lower_context \<Rightarrow> refusal_reason + lowered" where
  "lower_send_bytes bytes ctx =
     (if lc_grounding ctx = GroundPixels then Inl (LimbReason NotSupported)
      else Inr (Commands [plain (TerminalInput bytes) Await]))"

definition tune_size :: "u16 \<times> u16 \<Rightarrow> lower_context \<Rightarrow> refusal_reason + plan_step list" where
  "tune_size wh ctx =
     (case lc_grounding ctx of
        GroundPixels \<Rightarrow> Inr [plain (RequestResize (fst wh) (snd wh)) Coalesce]
      | GroundCells \<Rightarrow> Inr [plain (ResizeTerminal (fst wh) (snd wh)) Coalesce]
      | GroundNone \<Rightarrow> Inl (LimbReason NotSupported))"

definition lower_tune :: "tuning \<Rightarrow> lower_context \<Rightarrow> refusal_reason + lowered" where
  "lower_tune t ctx =
     bind_res (case tu_size t of None \<Rightarrow> Inr [] | Some wh \<Rightarrow> tune_size wh ctx) (\<lambda>size_steps.
     let steps =
       (case tu_quality t of None \<Rightarrow> [] | Some q \<Rightarrow> [plain (SetQuality q) Coalesce]) @
       (case tu_view_only t of None \<Rightarrow> [] | Some v \<Rightarrow> [plain (SetViewOnly v) Coalesce]) @ size_steps
     in if steps = [] then Inl (LimbReason NotExpressible) else Inr (Commands steps))"

definition lower :: "agent_intent \<Rightarrow> lower_context \<Rightarrow> refusal_reason + lowered" where
  "lower intent ctx =
     (case ai_kind intent of
        Type text wpm \<Rightarrow> lower_type text wpm ctx
      | Press keys \<Rightarrow> lower_press_intent keys ctx
      | Scancode code down \<Rightarrow> Inr (Commands [plain (Key 0 (Some code) down) Await])
      | Move to \<Rightarrow> lower_move to ctx
      | Click at button count modifiers \<Rightarrow> lower_click at button count modifiers ctx
      | Drag from to button \<Rightarrow> lower_drag from to button ctx
      | Scroll at direction clicks \<Rightarrow> lower_scroll at direction clicks ctx
      | SendBytes bytes \<Rightarrow> lower_send_bytes bytes ctx
      | ClipboardSet text \<Rightarrow> Inr (Commands [plain (ClipboardText text) Await])
      | ClipboardGet \<Rightarrow> Inr (Commands [plain (ClipboardRequest 1) Await])
      | Tune t \<Rightarrow> lower_tune t ctx
      | Wait _ _ _ \<Rightarrow> Inr Observed
      | ReadScreen _ _ \<Rightarrow> Inr Observed
      | Capture _ _ _ \<Rightarrow> Inr Observed
      | Cancel _ \<Rightarrow> Inr Observed
      | Exec _ \<Rightarrow> Inr (Native (plain (client_command.Agent intent) Await))
      | PtyRun _ \<Rightarrow> Inr (Native (plain (client_command.Agent intent) Await))
      | Declare _ _ \<Rightarrow> Inr (Native (plain (client_command.Agent intent) Await)))"

subsection \<open>Settings that fold\<close>

fun setting_kind :: "command \<Rightarrow> u8" where
  "setting_kind (SetQuality _) = 0"
| "setting_kind (SetViewOnly _) = 1"
| "setting_kind (RequestResize _ _) = 2"
| "setting_kind (ResizeTerminal _ _) = 3"
| "setting_kind (SetAlwaysRefresh _) = 4"
| "setting_kind (SetPreferScancodes _) = 5"
| "setting_kind Refresh = 6"
| "setting_kind _ = 255"

text \<open>The walk is backwards, so the last of each kind is the one kept.\<close>

fun keep_last :: "plan_step list \<Rightarrow> u8 list \<Rightarrow> plan_step list" where
  "keep_last [] seen = []"
| "keep_last (s # ss) seen =
     (if sp_policy s \<noteq> Coalesce then s # keep_last ss seen
      else
        let kind = setting_kind (sp_command s)
        in if kind \<in> set seen then keep_last ss seen else s # keep_last ss (kind # seen))"

definition coalesce_settings :: "plan_step list \<Rightarrow> plan_step list \<times> u32" where
  "coalesce_settings steps =
     (let kept = rev (keep_last (rev steps) []) in (kept, of_nat (length steps - length kept)))"

section \<open>What a plan may hold\<close>

text \<open>
  What a lowered plan does to the machine it is sent to: it stays inside the screen, and it lets go
  of everything it pressed. The machine is modelled by what a server remembers of its input: the keys
  that are down and the last button mask.
\<close>

subsection \<open>What the far side holds\<close>

record held =
  hl_keys :: "(u32 \<times> u32 option) set"
  hl_mask :: u16

fun replay_one :: "command \<Rightarrow> held \<Rightarrow> held" where
  "replay_one (Key keysym code True) h = h\<lparr>hl_keys := insert (keysym, code) (hl_keys h)\<rparr>"
| "replay_one (Key keysym code False) h = h\<lparr>hl_keys := hl_keys h - {(keysym, code)}\<rparr>"
| "replay_one (Pointer _ _ m) h = h\<lparr>hl_mask := m\<rparr>"
| "replay_one ReleaseAllKeys h = h\<lparr>hl_keys := {}\<rparr>"
| "replay_one _ h = h"

definition replay_steps :: "plan_step list \<Rightarrow> held \<Rightarrow> held" where
  "replay_steps steps h = fold (\<lambda>s. replay_one (sp_command s)) steps h"

definition nothing_held :: "u16 \<Rightarrow> held" where
  "nothing_held m = \<lparr>hl_keys = {}, hl_mask = m\<rparr>"

lemma replay_steps_simps [simp]:
  "replay_steps [] h = h" "replay_steps (s # ss) h = replay_steps ss (replay_one (sp_command s) h)"
  "replay_steps (ss @ ss') h = replay_steps ss' (replay_steps ss h)"
  by (simp_all add: replay_steps_def)

lemma step_command [simp]:
  "sp_command (plain c p) = c" "sp_command (marked c p m) = c" "sp_command (after s d) = sp_command s"
  by (simp_all add: plain_def marked_def after_def)

lemma step_mark [simp]:
  "sp_mark (plain c p) = Plain" "sp_mark (marked c p m) = m" "sp_mark (after s d) = sp_mark s"
  by (simp_all add: plain_def marked_def after_def)

lemma step_policy [simp]:
  "sp_policy (plain c p) = p" "sp_policy (marked c p m) = p" "sp_policy (after s d) = sp_policy s"
  by (simp_all add: plain_def marked_def after_def)

lemma replay_concat: "(\<And>x. x \<in> set xs \<Longrightarrow> replay_steps (f x) h = h) \<Longrightarrow> replay_steps (concat (map f xs)) h = h"
  by (induction xs) simp_all

lemma replay_pointer [simp]: "replay_one (pointer_to at m) h = h\<lparr>hl_mask := m\<rparr>"
  by (simp add: pointer_to_def)

definition event_of :: "named_key \<Rightarrow> u32 \<times> u32 option" where
  "event_of k = (nk_keysym k, if nk_scancode k \<noteq> 0 then Some (nk_scancode k) else None)"

lemma replay_key_event [simp]:
  "replay_one (key_event True k) h = h\<lparr>hl_keys := insert (event_of k) (hl_keys h)\<rparr>"
  "replay_one (key_event False k) h = h\<lparr>hl_keys := hl_keys h - {event_of k}\<rparr>"
  by (simp_all add: key_event_def event_of_def)

lemma replay_downs:
  "replay_steps (map (\<lambda>k. plain (key_event True k) p) ks) h = h\<lparr>hl_keys := event_of ` set ks \<union> hl_keys h\<rparr>"
  by (induction ks arbitrary: h) (simp_all add: insert_commute)

lemma replay_ups:
  "replay_steps (map (\<lambda>k. plain (key_event False k) p) ks) h = h\<lparr>hl_keys := hl_keys h - event_of ` set ks\<rparr>"
  by (induction ks arbitrary: h) (simp_all, metis Diff_insert2)

text \<open>The release a lease change owes clears the machine, whatever was held.\<close>

lemma release_sequence_clears: "replay_steps (release_sequence at) h = h\<lparr>hl_keys := {}, hl_mask := 0\<rparr>"
  by (simp add: release_sequence_def)

subsection \<open>Plans let go\<close>

lemma type_lets_go: "replay_steps (type_steps g pause ck) (nothing_held m) = nothing_held m"
  by (cases ck) (simp add: type_steps_def nothing_held_def)

lemma press_lets_go: "replay_steps (map (\<lambda>c. plain c Await) (lower_press keys)) (nothing_held m) = nothing_held m"
  using replay_downs [of Await keys] replay_ups [of Await "rev keys"]
  by (simp add: lower_press_def comp_def nothing_held_def)

lemma click_edge_lets_go:
  "replay_steps (click_edges at held count ctx edge) h = h\<lparr>hl_mask := lc_resting_mask ctx\<rparr>"
  by (simp add: click_edges_def Let_def)

lemma click_edges_let_go:
  "hl_mask h = lc_resting_mask ctx \<Longrightarrow> replay_steps (concat (map (click_edges at held count ctx) edges)) h = h"
  by (rule replay_concat) (simp add: click_edge_lets_go)

lemma drag_middle:
  "hl_mask h = held \<Longrightarrow> replay_steps (map (\<lambda>i. marked (pointer_to (f i) held) Await (g i)) is) h = h"
  by (induction "is" arbitrary: h) simp_all

lemma lower_lets_go:
  assumes "lower intent ctx = Inr (Commands steps)" and "kind_name (ai_kind intent) \<noteq> NScancode"
  shows "replay_steps steps (nothing_held (lc_resting_mask ctx)) = nothing_held (lc_resting_mask ctx)"
proof (cases "ai_kind intent")
  case (Type cs wpm)
  then show ?thesis
    using assms by (auto simp: lower_def lower_type_def Let_def type_lets_go intro!: replay_concat split: if_splits)
next
  case (Press keys)
  then show ?thesis using assms by (auto simp: lower_def lower_press_intent_def press_lets_go split: if_splits)
next
  case (Click at button count modifiers)
  let ?held = "lc_resting_mask ctx OR button_mask button"
  have "steps = map (\<lambda>k. plain (key_event True k) Await) modifiers @
          [plain (pointer_to at (lc_resting_mask ctx)) Await] @
          concat (map (click_edges at ?held count ctx) [0..<unat count]) @
          map (\<lambda>k. plain (key_event False k) Await) (rev modifiers)"
    using assms Click by (auto simp: lower_def lower_click_def res_simps Let_def split: if_splits)
  then show ?thesis
    by (simp add: replay_downs replay_ups click_edges_let_go nothing_held_def)
next
  case (Drag p q button)
  then show ?thesis
    using assms by (auto simp: lower_def lower_drag_def res_simps Let_def drag_middle nothing_held_def simp del: upt_Suc)
next
  case (Scroll at direction clicks)
  then show ?thesis
    using assms
    by (auto simp: lower_def lower_scroll_def res_simps Let_def nothing_held_def intro!: replay_concat split: if_splits)
next
  case (Tune t)
  then show ?thesis
    using assms
    by (auto simp: lower_def lower_tune_def tune_size_def res_simps Let_def split: if_splits option.splits grounding.splits)
qed (use assms in \<open>auto simp: lower_def lower_move_def lower_send_bytes_def res_simps nothing_held_def split: if_splits\<close>)

subsection \<open>Plans stay on the screen\<close>

fun pointer_of :: "command \<Rightarrow> point option" where
  "pointer_of (Pointer x y _) = Some (point_at x y)"
| "pointer_of _ = None"

definition on_screen :: "u16 \<times> u16 \<Rightarrow> plan_step \<Rightarrow> bool" where
  "on_screen wh s = (case pointer_of (sp_command s) of None \<Rightarrow> True | Some p \<Rightarrow> pt_x p < fst wh \<and> pt_y p < snd wh)"

lemma pointer_of_simps [simp]:
  "pointer_of (pointer_to at m) = Some at" "pointer_of (key_event d k) = None"
  by (simp_all add: pointer_to_def key_event_def point_at_def)

lemma ctx_admits_iff [simp]:
  "ctx_admits ctx at = Inr u \<longleftrightarrow> pt_x at < fst (lc_size ctx) \<and> pt_y at < snd (lc_size ctx)"
  by (simp add: ctx_admits_def)

lemma pointer_limb_iff [simp]: "pointer_limb ctx = Inr u \<longleftrightarrow> lc_grounding ctx = GroundPixels"
  by (simp add: pointer_limb_def)

text \<open>The interpolation, in unbounded numbers: it never leaves the interval of its ends.\<close>

lemma quotient_within: "i \<le> d \<Longrightarrow> 0 < d \<Longrightarrow> (n * i + d div 2) div d \<le> (n :: nat)"
proof -
  assume i: "i \<le> d" and d: "0 < d"
  have "n * i + d div 2 < n * d + d" using i d by (metis add_le_less_mono div_less_dividend mult_le_mono2 one_less_numeral_iff semiring_norm(76))
  then have "n * i + d div 2 < Suc n * d" by simp
  then show ?thesis using d by (metis less_Suc_eq_le less_mult_imp_div_less)
qed

lemma unat_lerp:
  assumes "unat i \<le> unat d" and "0 < unat d" and "unat d \<le> 256"
  shows "unat (lerp i d a b) =
    (if a \<le> b then unat a + ((unat b - unat a) * unat i + unat d div 2) div unat d
     else unat a - ((unat a - unat b) * unat i + unat d div 2) div unat d)"
proof -
  have wide: "unat (ucast x :: u32) = unat x" "unat x < 65536" for x :: u16
    using unsigned_less [of x, where 'a = nat] by (simp_all add: unsigned_ucast_eq take_bit_nat_eq_self)
  have step: "unat (((ucast y - ucast x) * i + d div 2) div d :: u32) = ((unat y - unat x) * unat i + unat d div 2) div unat d"
    if "x \<le> y" for x y :: u16
  proof -
    have le: "(ucast x :: u32) \<le> ucast y" using that by (simp add: word_le_nat_alt wide)
    have "(unat y - unat x) * unat i \<le> 65535 * 256"
      using wide(2) [of y] assms by (intro mult_le_mono) auto
    then show ?thesis using le assms
      by (simp add: unat_div unat_word_ariths unat_sub wide)
  qed
  have bound: "((unat y - unat x) * unat i + unat d div 2) div unat d \<le> unat y - unat x" for x y :: u16
    using assms quotient_within by blast
  show ?thesis
  proof (cases "a \<le> b")
    case True
    then have "(ucast a :: u32) \<le> ucast b" by (simp add: word_le_nat_alt wide)
    moreover have "unat a + ((unat b - unat a) * unat i + unat d div 2) div unat d \<le> unat b"
      using bound [of b a] True by (simp add: word_le_nat_alt)
    moreover have "unat (lerp i d a b) = take_bit 16 (unat (ucast a + ((ucast b - ucast a) * i + d div 2) div d :: u32))"
      using \<open>(ucast a :: u32) \<le> ucast b\<close> unfolding lerp_def Let_def unsigned_ucast_eq by simp
    ultimately show ?thesis
      using True wide(2) [of b]
      by (simp add: unat_word_ariths(1) step [OF True] wide(1) take_bit_nat_eq_self)
  next
    case False
    then have ba: "b \<le> a" by simp
    have nle: "\<not> (ucast a :: u32) \<le> ucast b" using False by (simp add: word_le_nat_alt wide)
    have "((unat a - unat b) * unat i + unat d div 2) div unat d \<le> unat a"
      using bound [of a b] by (meson diff_le_self le_trans)
    moreover have "unat (lerp i d a b) = take_bit 16 (unat (ucast a - ((ucast a - ucast b) * i + d div 2) div d :: u32))"
      using nle unfolding lerp_def Let_def unsigned_ucast_eq by simp
    ultimately show ?thesis
      using False wide(2) [of a]
      by (simp add: unat_sub word_le_nat_alt step [OF ba] wide(1) take_bit_nat_eq_self)
  qed
qed

lemma lerp_below:
  assumes "unat i \<le> unat d" and "0 < unat d" and "unat d \<le> 256" and "a < c" and "b < c"
  shows "lerp i d a b < c"
proof -
  have "((unat b - unat a) * unat i + unat d div 2) div unat d \<le> unat b - unat a"
    using assms quotient_within by blast
  then show ?thesis
    using assms(4,5) by (auto simp: word_less_nat_alt unat_lerp [OF assms(1-3)] word_le_nat_alt)
qed

lemma interpolate_below:
  fixes dp :: u8
  assumes "i \<le> unat dp" and "pt_x p < w" "pt_x q < w" "pt_y p < h" "pt_y q < h"
  shows "pt_x (interpolate p q (of_nat i) (ucast dp + 1)) < w \<and> pt_y (interpolate p q (of_nat i) (ucast dp + 1)) < h"
proof -
  have dp: "unat dp < 256" "unat (ucast dp :: u32) = unat dp"
    using unsigned_less [of dp, where 'a = nat] by (simp_all add: unsigned_ucast_eq take_bit_nat_eq_self)
  then have "unat (of_nat i :: u32) = i" "unat (ucast dp + 1 :: u32) = unat dp + 1"
    using assms(1) by (simp_all add: unat_of_nat unat_word_ariths(1) take_bit_nat_eq_self)
  then show ?thesis
    using assms dp(1) lerp_below by (simp add: interpolate_def point_at_def)
qed

lemma lower_on_screen:
  assumes "lower intent ctx = Inr (Commands steps)"
  shows "list_all (on_screen (lc_size ctx)) steps"
proof (cases "ai_kind intent")
  case (Type cs wpm)
  then show ?thesis
    using assms by (auto simp: lower_def lower_type_def Let_def list_all_iff on_screen_def type_steps_def split: if_splits)
next
  case (Press keys)
  then show ?thesis
    using assms
    by (auto simp: lower_def lower_press_intent_def lower_press_def list_all_iff on_screen_def split: if_splits)
next
  case (Click at button count modifiers)
  then show ?thesis
    using assms
    by (auto simp: lower_def lower_click_def res_simps Let_def list_all_iff on_screen_def click_edges_def split: if_splits)
next
  case (Drag p q button)
  then show ?thesis
    using assms
    by (auto simp: lower_def lower_drag_def res_simps Let_def list_all_iff on_screen_def
        simp del: upt_Suc One_nat_def intro!: conjunct1 [OF interpolate_below] conjunct2 [OF interpolate_below])
next
  case (Scroll at direction clicks)
  then show ?thesis
    using assms
    by (auto simp: lower_def lower_scroll_def res_simps Let_def list_all_iff on_screen_def split: if_splits)
next
  case (Tune t)
  then show ?thesis
    using assms
    by (auto simp: lower_def lower_tune_def tune_size_def res_simps Let_def list_all_iff on_screen_def
        split: if_splits option.splits grounding.splits)
qed (use assms in \<open>auto simp: lower_def lower_move_def lower_send_bytes_def res_simps on_screen_def split: if_splits\<close>)

subsection \<open>Typed text\<close>

lemma lower_type_counts:
  "lower_type text wpm ctx = Inr (Commands steps) \<Longrightarrow> length (filter (\<lambda>s. sp_mark s = CodePoint) steps) = length text"
proof -
  have "length (filter (\<lambda>s. sp_mark s = CodePoint) (type_steps g pause ck)) = 1" for g pause ck
    by (cases ck) (simp add: type_steps_def)
  then have "length (filter (\<lambda>s. sp_mark s = CodePoint) (concat (map (type_steps g pause) cks))) = length cks" for g pause cks
    by (induction cks) simp_all
  then show "lower_type text wpm ctx = Inr (Commands steps) \<Longrightarrow> ?thesis"
    by (auto simp: lower_type_def Let_def type_keysyms_def simp del: map_map split: if_splits)
qed

end
