(* ===== verification/Dispatch.thy ===== *)
theory Dispatch
  imports Agent_Lowering Agent_Capability Lease_Safety
begin

text \<open>
  The dispatcher of the agent plane: what a person approved, the walk over the steps of a plan, and the gates before it.
  What a person approved (\<open>crates/agent-plane/src/grant.rs\<close>) is capabilities and the hosts they apply to,
  named literally. Text is a list of code points; a \<open>BTreeSet\<close> of names is a set.
\<close>

section \<open>Grants\<close>

datatype grant_error = GrantWildcard chars | EmptyHost | NoHosts

record grant_card =
  gr_id :: party_id
  gr_capabilities :: capability_set
  gr_hosts :: "chars set"

definition trim_end_dots :: "chars \<Rightarrow> chars" where
  "trim_end_dots s = rev (dropWhile (\<lambda>c. c = 0x2E) (rev s))"

definition normalise_host :: "chars \<Rightarrow> chars" where
  "normalise_host host = map ascii_lower (trim_end_dots (trim host))"

fun grant_hosts :: "chars list \<Rightarrow> grant_error + chars set" where
  "grant_hosts [] = Inr {}"
| "grant_hosts (host # hosts) =
     (let name = normalise_host host in
      if name = [] then Inl EmptyHost
      else if 0x2A \<in> set name \<or> 0x3F \<in> set name then Inl (GrantWildcard host)
      else bind_res (grant_hosts hosts) (\<lambda>names. Inr (insert name names)))"

definition grant_issue :: "party_id \<Rightarrow> capability_set \<Rightarrow> chars list \<Rightarrow> grant_error + grant_card" where
  "grant_issue i caps hosts =
     bind_res (grant_hosts hosts) (\<lambda>names.
     if names = {} then Inl NoHosts else Inr \<lparr>gr_id = i, gr_capabilities = caps, gr_hosts = names\<rparr>)"

definition grant_from_bundle :: "party_id \<Rightarrow> role_bundle \<Rightarrow> chars list \<Rightarrow> grant_error + grant_card" where
  "grant_from_bundle i bundle hosts = grant_issue i (bundle_expand bundle) hosts"

definition allows_host :: "grant_card \<Rightarrow> chars \<Rightarrow> bool" where
  "allows_host g host \<longleftrightarrow> normalise_host host \<in> gr_hosts g"

definition grant_missing :: "grant_card \<Rightarrow> capability_set \<Rightarrow> capability list" where
  "grant_missing g needed = caps_missing (gr_capabilities g) needed"

lemma grant_hosts_names:
  "grant_hosts hosts = Inr names \<Longrightarrow>
     names = set (map normalise_host hosts) \<and> list_all (\<lambda>h. normalise_host h \<noteq> [] \<and> 0x2A \<notin> set (normalise_host h)) hosts"
  by (induction hosts arbitrary: names) (auto simp: Let_def res_simps split: if_splits)

text \<open>A grant reaches the hosts it names, whatever their case and trailing dots, and no others.\<close>

lemma issued_allows:
  "grant_issue i caps hosts = Inr g \<Longrightarrow> allows_host g host \<longleftrightarrow> normalise_host host \<in> set (map normalise_host hosts)"
  by (auto simp: grant_issue_def allows_host_def res_simps dest: grant_hosts_names split: if_splits)

section \<open>The dispatcher\<close>

text \<open>
  The path of an agent's intent onto a session's command channel (\<open>crates/agent-plane/src/dispatch.rs\<close>
  over the limb state of \<open>registry.rs\<close>): the gates in their order, the walk of a lowered plan that
  checks the lease before every command, the wait for room in the channel, the release a broken drag
  owes and the settlement.

  The limb's locks are taken one call at a time, so other callers run between two steps of a plan and
  while a step waits for room. What they do there is an input: a list of the calls that change the
  limb. The channel is an input too: what each look at it finds. \<open>ls_wire\<close> is what has been put into
  the channel so far, with who put it there.
\<close>

subsection \<open>The limb\<close>

text \<open>The driver as the plane uses it, and the settings.\<close>

record limb_card =
  ld_host :: chars
  ld_supports :: "intent_name \<Rightarrow> bool"
  ld_capabilities :: "capability list"
  ld_perception :: perception_set
  ld_config :: plane_config
  ld_max_capacity :: nat

definition offered :: "limb_card \<Rightarrow> capability_set" where
  "offered L = caps_of (ld_capabilities L)"

record gaps =
  gp_pointer_moves_shed :: u32
  gp_settings_coalesced :: u32
  gp_commands_dropped :: u32
  gp_bytes_dropped :: u64
  gp_blocked_ms :: u64

definition no_gaps :: gaps where
  "no_gaps = \<lparr>gp_pointer_moves_shed = 0, gp_settings_coalesced = 0, gp_commands_dropped = 0, gp_bytes_dropped = 0,
     gp_blocked_ms = 0\<rparr>"

definition lost_state :: "gaps \<Rightarrow> bool" where
  "lost_state g \<longleftrightarrow> 0 < gp_commands_dropped g"

definition gaps_absorb :: "gaps \<Rightarrow> gaps \<Rightarrow> gaps" where
  "gaps_absorb g other =
     \<lparr>gp_pointer_moves_shed = sat_add (gp_pointer_moves_shed g) (gp_pointer_moves_shed other),
      gp_settings_coalesced = sat_add (gp_settings_coalesced g) (gp_settings_coalesced other),
      gp_commands_dropped = sat_add (gp_commands_dropped g) (gp_commands_dropped other),
      gp_bytes_dropped = sat_add (gp_bytes_dropped g) (gp_bytes_dropped other),
      gp_blocked_ms = sat_add (gp_blocked_ms g) (gp_blocked_ms other)\<rparr>"

datatype on_wire = ByIntent command | ByPlane command

fun wire_command :: "on_wire \<Rightarrow> command" where
  "wire_command (ByIntent c) = c"
| "wire_command (ByPlane c) = c"

record limb_state =
  ls_lease :: lease
  ls_fence :: geometry_fence
  ls_ctx :: lower_context
  ls_gaps :: gaps
  ls_last_mask :: u16
  ls_state :: session_state
  ls_running :: "(intent_id \<times> party_id) list"
  ls_wire :: "on_wire list"

subsection \<open>One command into the channel\<close>

datatype step_result = Sent | WasShed | Blocked | Gone

datatype try_sent = TryOk | TryClosed | TryFull

datatype sent_in_time = SendOk | SendClosed | SendTimeout

text \<open>What one look at the channel finds.\<close>

record poll =
  po_capacity :: nat
  po_try :: try_sent
  po_closed :: bool
  po_late :: bool

record channel_world =
  cw_polls :: "poll list"
  cw_jump :: try_sent
  cw_timed :: sent_in_time
  cw_spent :: duration

text \<open>The deadline ends the polling, so a list of looks that is used up has reached it.\<close>

fun send_polled :: "nat \<Rightarrow> send_policy \<Rightarrow> poll list \<Rightarrow> step_result" where
  "send_polled reserved policy [] = Blocked"
| "send_polled reserved policy (p # ps) =
     (if reserved < po_capacity p \<and> po_try p = TryOk then Sent
      else if reserved < po_capacity p \<and> po_try p = TryClosed then Gone
      else if policy = Shed then WasShed
      else if po_closed p then Gone
      else if po_late p then Blocked
      else send_polled reserved policy ps)"

definition send_step :: "limb_card \<Rightarrow> plan_step \<Rightarrow> channel_world \<Rightarrow> step_result" where
  "send_step L s world =
     (if sp_policy s = Jump
      then (case cw_jump world of
              TryOk \<Rightarrow> Sent
            | TryClosed \<Rightarrow> Gone
            | TryFull \<Rightarrow> (case cw_timed world of SendOk \<Rightarrow> Sent | SendClosed \<Rightarrow> Gone | SendTimeout \<Rightarrow> Blocked))
      else send_polled (reserved_slots (ld_config L) (ld_max_capacity L)) (sp_policy s) (cw_polls world))"

text \<open>\<open>remember\<close>, with the command put on the wire.\<close>

definition remember :: "plan_step \<Rightarrow> limb_state \<Rightarrow> limb_state" where
  "remember s l =
     (case sp_command s of
        Pointer x y m \<Rightarrow> l\<lparr>ls_ctx := (ls_ctx l)\<lparr>lc_last_point := point_at x y\<rparr>, ls_last_mask := m\<rparr>
      | _ \<Rightarrow> l)"

definition put :: "(command \<Rightarrow> on_wire) \<Rightarrow> plan_step \<Rightarrow> limb_state \<Rightarrow> limb_state" where
  "put who s l = (remember s l)\<lparr>ls_wire := ls_wire l @ [who (sp_command s)]\<rparr>"

definition put_if :: "step_result \<Rightarrow> (command \<Rightarrow> on_wire) \<Rightarrow> plan_step \<Rightarrow> limb_state \<Rightarrow> limb_state" where
  "put_if res who s l = (if res = Sent then put who s l else l)"

subsection \<open>What other callers do\<close>

text \<open>\<open>honour\<close>: the release a lease change owes, and the confirmation that ends a handover.\<close>

definition honour :: "limb_card \<Rightarrow> lease_transition \<Rightarrow> lease_instant \<Rightarrow> channel_world \<Rightarrow> channel_world \<Rightarrow> limb_state \<Rightarrow> limb_state" where
  "honour L t now w1 w2 l =
     (if \<not> must_release t then l
      else
        let at = lc_last_point (ls_ctx l);
            s1 = plain (pointer_to at 0) Jump; s2 = plain ReleaseAllKeys Jump;
            l1 = put_if (send_step L s1 w1) ByPlane s1 l;
            l2 = put_if (send_step L s2 w2) ByPlane s2 l1
        in if l_phase (ls_lease l2) = HandingOver
           then l2\<lparr>ls_lease := fst (confirm_release (ls_lease l2) now)\<rparr> else l2)"

text \<open>
  The calls on a limb that may come between the steps of a walk or of an observation: any call on its lease, a transition the
  plane honours, a change of the geometry, a change of the session's state. Another grant's dispatch
  on the same limb, which would send steps of its own, is left out: what is proved of one dispatch is for a limb on
  which no other one sends meanwhile.
\<close>

datatype limb_op =
    LeaseCall lease_op lease_instant
  | Honoured lease_transition lease_instant channel_world channel_world
  | GeometryCall geometry_change "u16 \<times> u16"
  | StateCall session_state

fun limb_op_apply :: "limb_card \<Rightarrow> limb_op \<Rightarrow> limb_state \<Rightarrow> limb_state" where
  "limb_op_apply L (LeaseCall opn now) l = l\<lparr>ls_lease := fst (lease_step (ls_lease l) opn now)\<rparr>"
| "limb_op_apply L (Honoured t now w1 w2) l = honour L t now w1 w2 l"
| "limb_op_apply L (GeometryCall why wh) l =
     l\<lparr>ls_fence := fst (geometry_changed (ls_fence l) why), ls_ctx := (ls_ctx l)\<lparr>lc_size := wh\<rparr>\<rparr>"
| "limb_op_apply L (StateCall st) l = l\<lparr>ls_state := st\<rparr>"

definition limb_ops :: "limb_card \<Rightarrow> limb_op list \<Rightarrow> limb_state \<Rightarrow> limb_state" where
  "limb_ops L ops l = fold (limb_op_apply L) ops l"

subsection \<open>Settlements\<close>

datatype progress =
    NoProgress
  | CodePoints u32
  | DragProgress point u16 bool
  | Delivered u32

datatype intent_outcome =
    Done bool
  | TimedOut
  | Superseded holder_kind progress
  | Cancelled
  | Refused refusal_code
  | LinkLost geometry_generation

record settlement =
  se_id :: intent_id
  se_outcome :: intent_outcome
  se_progress :: progress
  se_gaps :: gaps
  se_reason :: "refusal_reason option"

definition refuse_with :: "intent_id \<Rightarrow> refusal_reason \<Rightarrow> gaps \<Rightarrow> settlement" where
  "refuse_with i reason g =
     \<lparr>se_id = i, se_outcome = Refused (refusal_code_of reason), se_progress = NoProgress, se_gaps = g, se_reason = Some reason\<rparr>"

definition refuse :: "intent_id \<Rightarrow> refusal_reason \<Rightarrow> settlement" where
  "refuse i reason = refuse_with i reason no_gaps"

subsection \<open>The walk of a plan\<close>

record walk =
  wk_delivered :: u32
  wk_code_points :: u32
  wk_drag_held :: bool
  wk_drag_points :: u16
  wk_drag_at :: "point option"
  wk_release_synthesised :: bool
  wk_shed :: u32
  wk_waited :: duration

definition walk_new :: walk where
  "walk_new = \<lparr>wk_delivered = 0, wk_code_points = 0, wk_drag_held = False, wk_drag_points = 0, wk_drag_at = None,
     wk_release_synthesised = False, wk_shed = 0, wk_waited = 0\<rparr>"

definition walk_record :: "plan_step \<Rightarrow> walk \<Rightarrow> walk" where
  "walk_record s w0 =
     (let w = w0\<lparr>wk_delivered := sat_add (wk_delivered w0) 1\<rparr> in
      case sp_mark s of
        Plain \<Rightarrow> w
      | CodePoint \<Rightarrow> w\<lparr>wk_code_points := sat_add (wk_code_points w) 1\<rparr>
      | DragPress \<Rightarrow> w\<lparr>wk_drag_held := True\<rparr>
      | DragPoint at \<Rightarrow> w\<lparr>wk_drag_points := sat_add (wk_drag_points w) 1, wk_drag_at := Some at\<rparr>
      | DragRelease \<Rightarrow> w\<lparr>wk_drag_held := False, wk_drag_at := None\<rparr>)"

definition walk_progress :: "bool \<Rightarrow> walk \<Rightarrow> progress" where
  "walk_progress was_drag w =
     (if was_drag
      then DragProgress (case wk_drag_at w of Some at \<Rightarrow> at | None \<Rightarrow> point_at 0 0) (wk_drag_points w) (wk_release_synthesised w)
      else if 0 < wk_code_points w then CodePoints (wk_code_points w)
      else if wk_delivered w = 0 then NoProgress
      else Delivered (wk_delivered w))"

text \<open>The input of one step: the calls before its checks, the cancellation, the calls during its wait for room, the channel.\<close>

record step_world =
  sw_before :: "limb_op list"
  sw_cancelled :: bool
  sw_during :: "limb_op list"
  sw_channel :: channel_world
  sw_cancel_in_pause :: bool

datatype walk_end =
    Finished
  | EndCancelled
  | EndSuperseded holder_kind
  | EndBlocked "plan_step list"
  | EndGone "plan_step list"

definition superseder :: "lease \<Rightarrow> party_id \<Rightarrow> holder_kind" where
  "superseder l i = (case l_holder l of Some h \<Rightarrow> if p_id (h_party h) \<noteq> i then p_kind (h_party h) else Human | None \<Rightarrow> Human)"

fun walk_steps ::
  "limb_card \<Rightarrow> party_id \<Rightarrow> bool \<Rightarrow> (nat \<Rightarrow> step_world) \<Rightarrow> nat \<Rightarrow> plan_step list \<Rightarrow> limb_state \<Rightarrow> walk \<Rightarrow>
   limb_state \<times> walk \<times> walk_end" where
  "walk_steps L i needs_lease world k [] l w = (l, w, Finished)"
| "walk_steps L i needs_lease world k (s # ss) l w =
     (let sw = world k; l1 = limb_ops L (sw_before sw) l in
      if sw_cancelled sw then (l1, w, EndCancelled)
      else if needs_lease \<and> fence (ls_lease l1) i \<noteq> Allowed then (l1, w, EndSuperseded (superseder (ls_lease l1) i))
      else
        let res = send_step L s (sw_channel sw);
            l2 = put_if res ByIntent s (limb_ops L (sw_during sw) l1);
            w1 = w\<lparr>wk_waited := wk_waited w + cw_spent (sw_channel sw)\<rparr>;
            next_step = (\<lambda>w2. if sp_pause s \<noteq> 0 \<and> sw_cancel_in_pause sw then (l2, w2, EndCancelled)
                              else walk_steps L i needs_lease world (k + 1) ss l2 w2)
        in case res of
             Sent \<Rightarrow> next_step (walk_record s w1)
           | WasShed \<Rightarrow> next_step (w1\<lparr>wk_shed := sat_add (wk_shed w1) 1\<rparr>)
           | Blocked \<Rightarrow> (l2, w1, EndBlocked (s # ss))
           | Gone \<Rightarrow> (l2, w1, EndGone (s # ss)))"

text \<open>The release a drag owes when its press went and its own release did not.\<close>

definition drag_repair :: "limb_card \<Rightarrow> channel_world \<Rightarrow> limb_state \<times> walk \<Rightarrow> limb_state \<times> walk" where
  "drag_repair L world lw =
     (let (l, w) = lw in
      if \<not> wk_drag_held w then (l, w)
      else
        let at = (case wk_drag_at w of Some at \<Rightarrow> at | None \<Rightarrow> lc_last_point (ls_ctx l));
            release = marked (pointer_to at (lc_resting_mask (ls_ctx l))) Jump DragRelease
        in (put_if (send_step L release world) ByPlane release l,
            w\<lparr>wk_waited := wk_waited w + cw_spent world, wk_drag_at := Some at, wk_release_synthesised := True\<rparr>))"

subsection \<open>Actuation\<close>

definition start_running :: "party_id \<Rightarrow> intent_id \<Rightarrow> limb_state \<Rightarrow> limb_state option" where
  "start_running i intent l =
     (if list_ex (\<lambda>(_, g). g = i) (ls_running l) then None else Some (l\<lparr>ls_running := (intent, i) # ls_running l\<rparr>))"

definition stop_running :: "intent_id \<Rightarrow> limb_state \<Rightarrow> limb_state" where
  "stop_running intent l = l\<lparr>ls_running := filter (\<lambda>(n, _). n \<noteq> intent) (ls_running l)\<rparr>"

definition is_drag :: "intent_kind \<Rightarrow> bool" where
  "is_drag k \<longleftrightarrow> kind_name k = NDrag"

definition settle_walk :: "intent_id \<Rightarrow> bool \<Rightarrow> walk_end \<Rightarrow> walk \<Rightarrow> gaps \<Rightarrow> geometry_generation \<Rightarrow> settlement" where
  "settle_walk intent was_drag stopped w g generation =
     (let p = walk_progress was_drag w;
          (outcome, reason) =
            (case stopped of
               EndCancelled \<Rightarrow> (Cancelled, None)
             | EndGone _ \<Rightarrow> (LinkLost generation, Some LimbGone)
             | EndSuperseded by_kind \<Rightarrow> (Superseded by_kind p, None)
             | EndBlocked _ \<Rightarrow>
                 if wk_delivered w = 0 then (Refused (refusal_code_of IntentBlocked), Some IntentBlocked)
                 else (Done False, Some IntentBlocked)
             | Finished \<Rightarrow> (Done True, None))
      in \<lparr>se_id = intent, se_outcome = outcome, se_progress = p, se_gaps = g, se_reason = reason\<rparr>)"

definition left_over :: "walk_end \<Rightarrow> plan_step list" where
  "left_over stopped = (case stopped of EndBlocked ss \<Rightarrow> ss | EndGone ss \<Rightarrow> ss | _ \<Rightarrow> [])"

definition walk_gaps :: "u32 \<Rightarrow> walk_end \<Rightarrow> walk \<Rightarrow> gaps" where
  "walk_gaps coalesced stopped w =
     \<lparr>gp_pointer_moves_shed = wk_shed w, gp_settings_coalesced = coalesced,
      gp_commands_dropped = of_nat (length (left_over stopped)),
      gp_bytes_dropped = of_nat (sum_list (map payload_bytes (left_over stopped))),
      gp_blocked_ms = of_nat (min (wk_waited w div 1000000) (2 ^ 64 - 1))\<rparr>"

definition actuate ::
  "limb_card \<Rightarrow> agent_intent \<Rightarrow> plan_step list \<Rightarrow> bool \<Rightarrow> lease_instant \<Rightarrow> (nat \<Rightarrow> step_world) \<Rightarrow> channel_world \<Rightarrow>
   limb_state \<Rightarrow> settlement \<times> limb_state" where
  "actuate L intent plan needs_lease now world repair l =
     (let i = ai_grant intent; n = ai_id intent; was_drag = is_drag (ai_kind intent) in
      case start_running i n l of
        None \<Rightarrow> (refuse n IntentInFlight, l)
      | Some l0 \<Rightarrow>
          let (steps, coalesced) = coalesce_settings plan;
              (l1, w1, stopped) = walk_steps L i needs_lease world 0 steps l0 walk_new;
              (l2, w2) = drag_repair L repair (l1, w1);
              g = walk_gaps coalesced stopped w2;
              l3 = l2\<lparr>ls_gaps := gaps_absorb (ls_gaps l2) g\<rparr>;
              l4 = (if needs_lease \<and> 0 < wk_delivered w2 then l3\<lparr>ls_lease := note_intent (ls_lease l3) i now\<rparr> else l3)
          in (settle_walk n was_drag stopped w2 g (gf_current (ls_fence l3)), stop_running n l4))"

section \<open>The gates\<close>

text \<open>
  The front of \<open>crates/agent-plane/src/dispatch.rs\<close>: the gates an intent passes, in their order, and
  what answers the intents that are not plans of commands: the plane itself (a wait, a cancellation)
  or the driver (a command run natively). Pixels come from the observatory of
  \<open>crates/agent-plane/src/perception.rs\<close>, which is an argument. Payloads are not modelled.
\<close>

subsection \<open>Waiting\<close>

definition BLINK_AREA :: nat where
  "BLINK_AREA = 64 * 64"

text \<open>What one look at the mirror finds: the time since the wait began, and the areas of the damaged rectangles.\<close>

record wait_poll =
  wp_elapsed :: duration
  wp_connected :: bool
  wp_damage :: "nat list option"

definition is_blink :: "nat list \<Rightarrow> bool" where
  "is_blink areas \<longleftrightarrow> sum_list areas \<le> BLINK_AREA"

definition moved :: "wait_poll \<Rightarrow> bool" where
  "moved p = (case wp_damage p of None \<Rightarrow> False | Some areas \<Rightarrow> \<not> is_blink areas)"

definition count_rects :: "wait_poll \<Rightarrow> u32 \<Rightarrow> u32" where
  "count_rects p n = (case wp_damage p of None \<Rightarrow> n | Some areas \<Rightarrow> sat_add n (of_nat (length areas)))"

text \<open>
  The loop: whether the condition was met, the last change and the rectangles seen; nothing for a
  condition this build cannot evaluate. A list of looks that is used up has reached the timeout.
\<close>

fun wait_loop ::
  "wait_until \<Rightarrow> duration \<Rightarrow> duration \<Rightarrow> wait_poll list \<Rightarrow> duration \<Rightarrow> u32 \<Rightarrow> (bool \<times> duration \<times> u32) option" where
  "wait_loop until quiet limit [] last_change rects = Some (False, last_change, rects)"
| "wait_loop until quiet limit (p # ps) last_change rects =
     (if limit \<le> wp_elapsed p then Some (False, last_change, rects)
      else
        case until of
          UntilConnected \<Rightarrow>
            if wp_connected p then Some (True, last_change, rects) else wait_loop until quiet limit ps last_change rects
        | ScreenChanged \<Rightarrow>
            if moved p then Some (True, last_change, count_rects p rects)
            else wait_loop until quiet limit ps last_change (count_rects p rects)
        | UntilText _ \<Rightarrow> None
        | TextGone _ \<Rightarrow> None
        | UntilExit \<Rightarrow> None
        | _ \<Rightarrow>
            if moved p then wait_loop until quiet limit ps (wp_elapsed p) (count_rects p rects)
            else if quiet \<le> wp_elapsed p - last_change then Some (True, last_change, count_rects p rects)
            else wait_loop until quiet limit ps last_change (count_rects p rects))"

definition done_settlement :: "intent_id \<Rightarrow> bool \<Rightarrow> settlement" where
  "done_settlement n found =
     \<lparr>se_id = n, se_outcome = Done found, se_progress = (if found then Delivered 1 else NoProgress), se_gaps = no_gaps,
      se_reason = None\<rparr>"

definition wait_for ::
  "intent_id \<Rightarrow> wait_until \<Rightarrow> duration \<Rightarrow> duration \<Rightarrow> wait_poll list \<Rightarrow> settlement" where
  "wait_for n until quiet limit polls =
     (case wait_loop until quiet limit polls 0 0 of
        None \<Rightarrow> refuse n (LimbReason NotSupported)
      | Some (met, _) \<Rightarrow>
          if met then done_settlement n True
          else \<lparr>se_id = n, se_outcome = TimedOut, se_progress = NoProgress, se_gaps = no_gaps, se_reason = None\<rparr>)"

subsection \<open>Answered by the plane\<close>

definition cancel_running :: "intent_id \<Rightarrow> limb_state \<Rightarrow> bool" where
  "cancel_running target l \<longleftrightarrow> list_ex (\<lambda>(n, _). n = target) (ls_running l)"

text \<open>The observatory answers a request for pixels with a frame or a refusal.\<close>

record observe_world =
  ow_frame :: "refusal_reason option"
  ow_polls :: "wait_poll list"
  ow_quiet :: duration

definition pixels :: "intent_id \<Rightarrow> observe_world \<Rightarrow> settlement" where
  "pixels n ow = (case ow_frame ow of None \<Rightarrow> done_settlement n True | Some reason \<Rightarrow> refuse n reason)"

definition observe :: "agent_intent \<Rightarrow> observe_world \<Rightarrow> limb_state \<Rightarrow> settlement" where
  "observe intent ow l =
     (let n = ai_id intent in
      case ai_kind intent of
        Capture _ _ _ \<Rightarrow> pixels n ow
      | ReadScreen FormPixels _ \<Rightarrow> pixels n ow
      | ReadScreen _ _ \<Rightarrow> refuse n (LimbReason NotSupported)
      | Wait until quiet limit \<Rightarrow>
          wait_for n until (case quiet of Some q \<Rightarrow> q | None \<Rightarrow> ow_quiet ow)
            (case limit of Some t \<Rightarrow> t | None \<Rightarrow> from_millis 30000) (ow_polls ow)
      | intent_kind.Cancel target \<Rightarrow> done_settlement n (cancel_running target l)
      | _ \<Rightarrow> refuse n (LimbReason NotSupported))"

subsection \<open>Answered by the driver\<close>

datatype unanswered = NoTier | DeadlinePassed | LinkLostRunning

datatype native_answer =
    AnswerRefused
  | AnswerRan "unanswered option"
  | NoAnswer
  | AnswerCancelled

record native_world =
  nw_during :: "limb_op list"
  nw_channel :: channel_world
  nw_waiting :: "limb_op list"
  nw_answer :: native_answer

definition settle_served :: "intent_id \<Rightarrow> unanswered option \<Rightarrow> gaps \<Rightarrow> geometry_generation \<Rightarrow> settlement" where
  "settle_served n un g generation =
     \<lparr>se_id = n,
      se_outcome =
        (case un of
           None \<Rightarrow> Done True
         | Some NoTier \<Rightarrow> Done True
         | Some DeadlinePassed \<Rightarrow> TimedOut
         | Some LinkLostRunning \<Rightarrow> LinkLost generation),
      se_progress = Delivered 1, se_gaps = g, se_reason = None\<rparr>"

definition serve_natively ::
  "limb_card \<Rightarrow> agent_intent \<Rightarrow> plan_step \<Rightarrow> bool \<Rightarrow> lease_instant \<Rightarrow> native_world \<Rightarrow> limb_state \<Rightarrow> settlement \<times> limb_state" where
  "serve_natively L intent s needs_lease now nw l =
     (let i = ai_grant intent; n = ai_id intent in
      case start_running i n l of
        None \<Rightarrow> (refuse n IntentInFlight, l)
      | Some l0 \<Rightarrow>
          let res = send_step L s (nw_channel nw);
              l1 = put_if res ByIntent s (limb_ops L (nw_during nw) l0);
              blocked_ms = of_nat (min (cw_spent (nw_channel nw) div 1000000) (2 ^ 64 - 1));
              g = no_gaps\<lparr>gp_blocked_ms := blocked_ms\<rparr>;
              lost = g\<lparr>gp_commands_dropped := 1, gp_bytes_dropped := of_nat (payload_bytes s)\<rparr>
          in case res of
               Gone \<Rightarrow>
                 let l2 = l1\<lparr>ls_gaps := gaps_absorb (ls_gaps l1) lost\<rparr>
                 in (\<lparr>se_id = n, se_outcome = LinkLost (gf_current (ls_fence l2)), se_progress = NoProgress, se_gaps = lost,
                      se_reason = Some LimbGone\<rparr>, stop_running n l2)
             | Sent \<Rightarrow>
                 let l2 = l1\<lparr>ls_gaps := gaps_absorb (ls_gaps l1) g\<rparr>;
                     l3 = (if needs_lease then l2\<lparr>ls_lease := note_intent (ls_lease l2) i now\<rparr> else l2);
                     l4 = limb_ops L (nw_waiting nw) l3;
                     st = (case nw_answer nw of
                       AnswerRefused \<Rightarrow> refuse_with n (LimbReason NotSupported) g
                     | AnswerRan un \<Rightarrow> settle_served n un g (gf_current (ls_fence l4))
                     | NoAnswer \<Rightarrow>
                         \<lparr>se_id = n, se_outcome = TimedOut, se_progress = Delivered 1, se_gaps = g, se_reason = None\<rparr>
                     | AnswerCancelled \<Rightarrow>
                         \<lparr>se_id = n, se_outcome = Cancelled, se_progress = Delivered 1, se_gaps = g, se_reason = None\<rparr>)
                 in (st, stop_running n l4)
             | _ \<Rightarrow>
                 let l2 = l1\<lparr>ls_gaps := gaps_absorb (ls_gaps l1) lost\<rparr>
                 in (refuse_with n IntentBlocked lost, stop_running n l2))"

subsection \<open>The gates\<close>

definition readiness :: "session_state \<Rightarrow> refusal_reason option" where
  "readiness st =
     (case st of
        Connected \<Rightarrow> None
      | Reconnecting _ _ _ \<Rightarrow> Some (LimbReason NotReady)
      | Disconnected _ _ _ \<Rightarrow> Some LimbGone
      | _ \<Rightarrow> Some (LimbReason NotReady))"

fun waits_to_connect :: "intent_kind \<Rightarrow> bool" where
  "waits_to_connect (Wait UntilConnected _ _) \<longleftrightarrow> True"
| "waits_to_connect _ \<longleftrightarrow> False"

fun rejected_code :: "geometry_rejected \<Rightarrow> refusal_code" where
  "rejected_code (GeoStale _ _) = GeometryHasChanged"
| "rejected_code (GeoUnfenced _) = Unfenced"

text \<open>The refusal of the first gate that refuses.\<close>

definition gates :: "limb_card \<Rightarrow> grant_card \<Rightarrow> agent_intent \<Rightarrow> limb_state \<Rightarrow> refusal_reason option" where
  "gates L g intent l =
     (let kind = ai_kind intent; needed = capabilities_for kind (ld_perception L) in
      if ai_grant intent \<noteq> gr_id g then Some HostNotInGrant
      else if \<not> allows_host g (ld_host L) then Some HostNotInGrant
      else if \<not> ld_supports L (kind_name kind) then Some (LimbReason NotSupported)
      else if grant_missing g needed \<noteq> [] then Some (LimbReason MissingCapability)
      else if caps_missing (offered L) needed \<noteq> [] then Some (LimbReason NotSupported)
      else if \<not> waits_to_connect kind \<and> readiness (ls_state l) \<noteq> None then readiness (ls_state l)
      else if needs_control_lease kind \<and> fence (ls_lease l) (gr_id g) \<noteq> Allowed then Some (LimbReason LeaseNotHeld)
      else
        case geometry_admit (ls_fence l) intent of
          Inl rejected \<Rightarrow> Some (LimbReason (rejected_code rejected))
        | Inr _ \<Rightarrow> None)"

record dispatch_world =
  dw_walk :: "nat \<Rightarrow> step_world"
  dw_repair :: channel_world
  dw_native :: native_world
  dw_observe :: observe_world

definition dispatch ::
  "limb_card \<Rightarrow> grant_card \<Rightarrow> agent_intent \<Rightarrow> lease_instant \<Rightarrow> dispatch_world \<Rightarrow> limb_state \<Rightarrow> settlement \<times> limb_state" where
  "dispatch L g intent now dw l =
     (case gates L g intent l of
        Some reason \<Rightarrow> (refuse (ai_id intent) reason, l)
      | None \<Rightarrow>
          let needs_lease = needs_control_lease (ai_kind intent) in
          (case lower intent (ls_ctx l) of
             Inl reason \<Rightarrow> (refuse (ai_id intent) reason, l)
           | Inr Observed \<Rightarrow> (observe intent (dw_observe dw) l, l)
           | Inr (Native s) \<Rightarrow> serve_natively L intent s needs_lease now (dw_native dw) l
           | Inr (Commands plan) \<Rightarrow> actuate L intent plan needs_lease now (dw_walk dw) (dw_repair dw) l))"

end
