(* ===== verification/Dispatch_Laws.thy ===== *)
theory Dispatch_Laws
  imports Dispatch "HOL-Library.Sublist"
begin

text \<open>
  What the dispatcher puts on the wire: only what the gates let through, in the order of the plan, a
  drag always followed by its release, and a count of typed characters that is true.
\<close>

subsection \<open>The wire\<close>

fun by_intent :: "on_wire \<Rightarrow> command option" where
  "by_intent (ByIntent c) = Some c"
| "by_intent (ByPlane c) = None"

definition intents_of :: "on_wire list \<Rightarrow> command list" where
  "intents_of ws = List.map_filter by_intent ws"

definition sent_by_intents :: "limb_state \<Rightarrow> command list" where
  "sent_by_intents l = intents_of (ls_wire l)"

lemma intents_of_simps [simp]:
  "intents_of [] = []" "intents_of (ByIntent c # ws) = c # intents_of ws" "intents_of (ByPlane c # ws) = intents_of ws"
  "intents_of (ws @ ws') = intents_of ws @ intents_of ws'"
  by (simp_all add: intents_of_def map_filter_simps map_filter_def)

text \<open>What the server remembers of all of it.\<close>

definition wire_held :: "u16 \<Rightarrow> limb_state \<Rightarrow> held" where
  "wire_held m l = fold (\<lambda>x. replay_one (wire_command x)) (ls_wire l) (nothing_held m)"

lemma remember_wire [simp]: "ls_wire (remember s l) = ls_wire l"
  by (simp add: remember_def split: client_command.splits)

lemma remember_lease [simp]: "ls_lease (remember s l) = ls_lease l"
  by (simp add: remember_def split: client_command.splits)

lemma remember_resting [simp]: "lc_resting_mask (ls_ctx (remember s l)) = lc_resting_mask (ls_ctx l)"
  by (simp add: remember_def split: client_command.splits)

lemma put_wire [simp]: "ls_wire (put who s l) = ls_wire l @ [who (sp_command s)]"
  by (simp add: put_def)

lemma put_lease [simp]: "ls_lease (put who s l) = ls_lease l"
  by (simp add: put_def)

lemma put_resting [simp]: "lc_resting_mask (ls_ctx (put who s l)) = lc_resting_mask (ls_ctx l)"
  by (simp add: put_def)

lemma put_if_simps [simp]:
  "put_if Sent who s l = put who s l" "res \<noteq> Sent \<Longrightarrow> put_if res who s l = l"
  by (simp_all add: put_if_def)

lemma wire_held_put [simp]: "wire_held m (put ByIntent s l) = replay_one (sp_command s) (wire_held m l)"
    "wire_held m (put ByPlane s l) = replay_one (sp_command s) (wire_held m l)"
  by (simp_all add: wire_held_def)

subsection \<open>What other callers leave alone\<close>

lemma honour_intents: "intents_of (ls_wire (honour L t now w1 w2 l)) = intents_of (ls_wire l)"
  by (simp add: honour_def Let_def put_if_def)

lemma honour_resting: "lc_resting_mask (ls_ctx (honour L t now w1 w2 l)) = lc_resting_mask (ls_ctx l)"
  by (simp add: honour_def Let_def put_if_def)

lemma op_intents: "intents_of (ls_wire (limb_op_apply L opn l)) = intents_of (ls_wire l)"
  by (cases opn) (simp_all add: honour_intents)

lemma op_resting: "lc_resting_mask (ls_ctx (limb_op_apply L opn l)) = lc_resting_mask (ls_ctx l)"
  by (cases opn) (simp_all add: honour_resting)

lemma ops_intents [simp]: "intents_of (ls_wire (limb_ops L ops l)) = intents_of (ls_wire l)"
  unfolding limb_ops_def by (induction ops arbitrary: l) (simp_all add: op_intents)

lemma ops_resting [simp]: "lc_resting_mask (ls_ctx (limb_ops L ops l)) = lc_resting_mask (ls_ctx l)"
  unfolding limb_ops_def by (induction ops arbitrary: l) (simp_all add: op_resting)

text \<open>A release owed by a lease change only ever lets go.\<close>

lemma honour_mask: "hl_mask (wire_held m (honour L t now w1 w2 l)) \<in> {hl_mask (wire_held m l), 0}"
proof -
  have conf: "wire_held m (l\<lparr>ls_lease := x\<rparr>) = wire_held m l" for l x by (simp add: wire_held_def)
  show ?thesis by (simp add: honour_def Let_def put_if_def conf)
qed

lemma op_mask: "hl_mask (wire_held m (limb_op_apply L opn l)) \<in> {hl_mask (wire_held m l), 0}"
  using honour_mask by (cases opn) (simp_all add: wire_held_def)

lemma ops_mask: "hl_mask (wire_held m (limb_ops L ops l)) \<in> {hl_mask (wire_held m l), 0}"
  unfolding limb_ops_def
proof (induction ops arbitrary: l)
  case (Cons opn ops)
  show ?case using op_mask [of m L opn l] Cons.IH [of "limb_op_apply L opn l"] by auto
qed simp

subsection \<open>The walk sends the plan in order\<close>

text \<open>The cases of one step, each with what it leaves.\<close>

lemma walk_step_cases:
  assumes "walk_steps L i needs world k (s # ss) l w = (l', w', stopped)"
  defines "l1 \<equiv> limb_ops L (sw_before (world k)) l"
    and "res \<equiv> send_step L s (sw_channel (world k))"
    and "w1 \<equiv> w\<lparr>wk_waited := wk_waited w + cw_spent (sw_channel (world k))\<rparr>"
  defines "l2 \<equiv> limb_ops L (sw_during (world k)) l1"
  obtains (stop) "l' = l1" "w' = w" "stopped = EndCancelled \<or> (\<exists>h. stopped = EndSuperseded h)"
  | (lost) "res = Blocked \<and> stopped = EndBlocked (s # ss) \<or> res = Gone \<and> stopped = EndGone (s # ss)" "l' = l2" "w' = w1"
  | (sent_stop) "res = Sent" "sp_pause s \<noteq> 0" "l' = put ByIntent s l2" "w' = walk_record s w1" "stopped = EndCancelled"
      "needs \<longrightarrow> fence (ls_lease l1) i = Allowed"
  | (sent) "res = Sent" "walk_steps L i needs world (k + 1) ss (put ByIntent s l2) (walk_record s w1) = (l', w', stopped)"
      "needs \<longrightarrow> fence (ls_lease l1) i = Allowed"
  | (shed_stop) "res = WasShed" "l' = l2" "w' = w1\<lparr>wk_shed := sat_add (wk_shed w1) 1\<rparr>" "stopped = EndCancelled"
  | (shed) "res = WasShed" "walk_steps L i needs world (k + 1) ss l2 (w1\<lparr>wk_shed := sat_add (wk_shed w1) 1\<rparr>) = (l', w', stopped)"
proof -
  note step = assms(1) [unfolded walk_steps.simps Let_def, folded l1_def, folded res_def, folded l2_def, folded w1_def]
  show thesis
  proof (cases "sw_cancelled (world k) \<or> needs \<and> fence (ls_lease l1) i \<noteq> Allowed")
    case True
    then show thesis using step stop by (auto split: if_splits)
  next
    case False
    then show thesis
      using step lost sent_stop sent shed_stop shed by (cases res) (auto split: if_splits)
  qed
qed

lemma walk_subseq:
  "walk_steps L i needs world k ss l w = (l', w', stopped) \<Longrightarrow>
   \<exists>sub. subseq sub ss \<and> sent_by_intents l' = sent_by_intents l @ map sp_command sub"
proof (induction ss arbitrary: k l w)
  case Nil
  then show ?case by (auto simp: sent_by_intents_def)
next
  case (Cons s ss)
  from Cons.prems show ?case
  proof (cases rule: walk_step_cases)
    case sent
    from Cons.IH [OF sent(2)] obtain sub where "subseq sub ss"
      and "sent_by_intents l' = sent_by_intents (put ByIntent s (limb_ops L (sw_during (world k)) (limb_ops L (sw_before (world k)) l))) @ map sp_command sub"
      by blast
    then show ?thesis by (intro exI [of _ "s # sub"]) (simp add: sent_by_intents_def)
  next
    case shed
    from Cons.IH [OF shed(2)] show ?thesis by (auto simp: sent_by_intents_def)
  next
    case sent_stop
    then show ?thesis by (intro exI [of _ "[s]"]) (simp add: sent_by_intents_def)
  qed (auto simp: sent_by_intents_def intro: exI [of _ "[]"])
qed

text \<open>Without motion to shed, what is sent is a prefix of the plan, and the walk's record is of that prefix.\<close>

lemma send_not_shed: "sp_policy s \<noteq> Shed \<Longrightarrow> send_step L s world \<noteq> WasShed"
proof -
  have "policy \<noteq> Shed \<Longrightarrow> send_polled reserved policy ps \<noteq> WasShed" for reserved policy ps
    by (induction ps) simp_all
  then show "sp_policy s \<noteq> Shed \<Longrightarrow> ?thesis"
    by (simp add: send_step_def split: try_sent.splits sent_in_time.splits)
qed

definition same_record :: "walk \<Rightarrow> walk \<Rightarrow> bool" where
  "same_record w v \<longleftrightarrow> w\<lparr>wk_waited := 0\<rparr> = v\<lparr>wk_waited := 0\<rparr>"

lemma same_record_simps [simp]:
  "same_record w w" "same_record (w\<lparr>wk_waited := n\<rparr>) v \<longleftrightarrow> same_record w v"
  by (simp_all add: same_record_def)

lemma same_record_step: "same_record w v \<Longrightarrow> same_record (walk_record s w) (walk_record s v)"
  by (cases w; cases v) (simp add: same_record_def walk_record_def Let_def split: step_mark.splits)

lemma same_record_steps: "same_record w v \<Longrightarrow> same_record (fold walk_record ss w) (fold walk_record ss v)"
  by (induction ss arbitrary: w v) (simp_all add: same_record_step)

lemma same_record_trans: "same_record u v \<Longrightarrow> same_record v w \<Longrightarrow> same_record u w"
  by (simp add: same_record_def)

lemma walk_prefix:
  "walk_steps L i needs world k ss l w = (l', w', stopped) \<Longrightarrow> list_all (\<lambda>s. sp_policy s \<noteq> Shed) ss \<Longrightarrow>
   \<exists>n \<le> length ss. sent_by_intents l' = sent_by_intents l @ map sp_command (take n ss) \<and>
     same_record w' (fold walk_record (take n ss) w) \<and> (stopped = Finished \<longrightarrow> n = length ss)"
proof (induction ss arbitrary: k l w)
  case (Cons s ss)
  let ?w1 = "w\<lparr>wk_waited := wk_waited w + cw_spent (sw_channel (world k))\<rparr>"
  have shed: "send_step L s (sw_channel (world k)) \<noteq> WasShed" using Cons.prems(2) send_not_shed by simp
  have one: "same_record (walk_record s ?w1) (walk_record s w)" by (rule same_record_step) simp
  from Cons.prems(1) show ?case
  proof (cases rule: walk_step_cases)
    case sent
    have "list_all (\<lambda>s. sp_policy s \<noteq> Shed) ss" using Cons.prems(2) by simp
    from Cons.IH [OF sent(2) this] obtain n where n: "n \<le> length ss"
      and s: "sent_by_intents l' = sent_by_intents (put ByIntent s (limb_ops L (sw_during (world k)) (limb_ops L (sw_before (world k)) l))) @ map sp_command (take n ss)"
      and r: "same_record w' (fold walk_record (take n ss) (walk_record s ?w1))" and f: "stopped = Finished \<longrightarrow> n = length ss"
      by blast
    have "same_record w' (fold walk_record (take n ss) (walk_record s w))"
      using r one same_record_steps same_record_trans by blast
    then show ?thesis using n s f by (intro exI [of _ "Suc n"]) (simp add: sent_by_intents_def)
  next
    case sent_stop
    then show ?thesis using one by (intro exI [of _ 1]) (simp add: sent_by_intents_def)
  next
    case stop
    then show ?thesis by (intro exI [of _ 0]) (auto simp: sent_by_intents_def)
  next
    case lost
    then show ?thesis by (intro exI [of _ 0]) (auto simp: sent_by_intents_def)
  qed (use shed in simp_all)
qed simp

lemma keep_last_id: "list_all (\<lambda>s. sp_policy s \<noteq> Coalesce) ss \<Longrightarrow> keep_last ss seen = ss"
  by (induction ss) simp_all

lemma coalesce_id: "list_all (\<lambda>s. sp_policy s \<noteq> Coalesce) ss \<Longrightarrow> coalesce_settings ss = (ss, 0)"
  by (simp add: coalesce_settings_def keep_last_id)

lemma subseq_keep_last: "subseq (keep_last ss seen) ss"
  by (induction ss arbitrary: seen) (auto simp: Let_def)

lemma rev_subseq: "subseq xs ys \<Longrightarrow> subseq (rev xs) (rev ys)"
proof (induction rule: list_emb.induct)
  case (list_emb_Cons xs ys y)
  then show ?case by (simp add: subseq_rev_drop_many)
next
  case (list_emb_Cons2 x y xs ys)
  then show ?case by (simp add: list_emb_append_mono)
qed simp

lemma subseq_coalesce: "subseq (fst (coalesce_settings ss)) ss"
  using rev_subseq [OF subseq_keep_last [of "rev ss" "[]"]] by (simp add: coalesce_settings_def Let_def)

subsection \<open>A drag is always released\<close>

text \<open>The button state while a drag is walked: at rest, or known to be held.\<close>

definition drag_safe :: "u16 \<Rightarrow> limb_state \<Rightarrow> walk \<Rightarrow> bool" where
  "drag_safe m l w \<longleftrightarrow> hl_mask (wire_held m l) \<in> {lc_resting_mask (ls_ctx l), 0} \<or> wk_drag_held w"

text \<open>What the steps of a drag may be, by whether the press has been sent.\<close>

fun mask_of :: "command \<Rightarrow> u16 option" where
  "mask_of (Pointer _ _ b) = Some b"
| "mask_of _ = None"

lemma mask_of_pointer [simp]: "mask_of (pointer_to at b) = Some b"
  by (simp add: pointer_to_def)

lemma replay_mask: "mask_of c = Some b \<Longrightarrow> hl_mask (replay_one c h) = b"
  by (cases c) simp_all

fun drag_plan :: "u16 \<Rightarrow> bool \<Rightarrow> plan_step list \<Rightarrow> bool" where
  "drag_plan rest pressed [] \<longleftrightarrow> True"
| "drag_plan rest pressed (s # ss) \<longleftrightarrow>
     sp_policy s = Await \<and>
     (case sp_mark s of
        Plain \<Rightarrow> mask_of (sp_command s) = Some rest \<and> \<not> pressed \<and> drag_plan rest False ss
      | DragPress \<Rightarrow> \<not> pressed \<and> drag_plan rest True ss
      | DragPoint _ \<Rightarrow> pressed \<and> drag_plan rest True ss
      | DragRelease \<Rightarrow> mask_of (sp_command s) = Some rest \<and> pressed \<and> ss = []
      | CodePoint \<Rightarrow> False)"

lemma drag_plan_middle:
  "drag_plan rest True (map (\<lambda>i. marked (pointer_to (f i) b) Await (DragPoint (g i))) is @ ss) \<longleftrightarrow> drag_plan rest True ss"
  by (induction "is") auto

lemma lower_drag_plan:
  "lower_drag p q button ctx = Inr (Commands steps) \<Longrightarrow> drag_plan (lc_resting_mask ctx) False steps"
  by (auto simp: lower_drag_def res_simps Let_def drag_plan_middle simp del: upt_Suc)

lemma drag_plan_await: "drag_plan rest pressed ss \<Longrightarrow> list_all (\<lambda>s. sp_policy s \<noteq> Coalesce) ss"
  by (induction rest pressed ss rule: drag_plan.induct) (auto split: step_mark.splits)

lemma drag_plan_uncoalesced:
  "drag_plan rest pressed ss \<Longrightarrow> coalesce_settings ss = (steps, n) \<Longrightarrow> drag_plan rest pressed steps"
  using coalesce_id [OF drag_plan_await] by auto

lemma drag_safe_ops: "drag_safe m l w \<Longrightarrow> drag_safe m (limb_ops L ops l) w"
  using ops_mask [of m L ops l] by (auto simp: drag_safe_def)

lemma walk_drag_safe:
  "walk_steps L i needs world k ss l w = (l', w', stopped) \<Longrightarrow> drag_plan (lc_resting_mask (ls_ctx l)) (wk_drag_held w) ss \<Longrightarrow>
   drag_safe m l w \<Longrightarrow> drag_safe m l' w' \<and> lc_resting_mask (ls_ctx l') = lc_resting_mask (ls_ctx l)"
proof (induction ss arbitrary: k l w)
  case (Cons s ss)
  let ?l2 = "limb_ops L (sw_during (world k)) (limb_ops L (sw_before (world k)) l)"
  let ?w1 = "w\<lparr>wk_waited := wk_waited w + cw_spent (sw_channel (world k))\<rparr>"
  have safe: "drag_safe m (limb_ops L (sw_before (world k)) l) w" "drag_safe m ?l2 w"
    using Cons.prems(3) by (simp_all add: drag_safe_ops)
  have shed: "send_step L s (sw_channel (world k)) \<noteq> WasShed" using Cons.prems(2) send_not_shed by simp
  have stepped: "drag_safe m (put ByIntent s ?l2) (walk_record s ?w1)"
    and later: "drag_plan (lc_resting_mask (ls_ctx l)) (wk_drag_held (walk_record s ?w1)) ss"
    using Cons.prems(2) safe(2)
    by (cases "sp_mark s"; simp add: drag_safe_def walk_record_def Let_def replay_mask)+
  from Cons.prems(1) show ?case
  proof (cases rule: walk_step_cases)
    case sent
    then show ?thesis using Cons.IH [OF sent(2)] stepped later by simp
  qed (use safe stepped shed in \<open>auto simp: drag_safe_def\<close>)
qed simp

lemma drag_repair_releases:
  assumes "drag_repair L world (l, w) = (l', w')" and "drag_safe m l w"
    and "send_step L (marked c Jump DragRelease) world = Sent"
  shows "hl_mask (wire_held m l') \<in> {lc_resting_mask (ls_ctx l), 0}"
proof -
  have "send_step L (marked c' Jump DragRelease) world = Sent" for c'
    using assms(3) by (simp add: send_step_def)
  then show ?thesis using assms(1,2) by (auto simp: drag_repair_def drag_safe_def Let_def split: if_splits)
qed

text \<open>A drag that reached its own release reports the origin as the place of the drop.\<close>

lemma released_drag_reports_origin:
  "sp_mark s = DragRelease \<Longrightarrow>
     walk_progress True (walk_record s w) = DragProgress (point_at 0 0) (wk_drag_points w) (wk_release_synthesised w)"
  by (simp add: walk_progress_def walk_record_def Let_def)

subsection \<open>The gates\<close>

lemma gates_passed:
  assumes "gates L g intent l = None"
  shows "ai_grant intent = gr_id g \<and> allows_host g (ld_host L) \<and>
    (\<forall>c. allows (capabilities_for (ai_kind intent) (ld_perception L)) c \<longrightarrow>
       allows (gr_capabilities g) c \<and> c \<in> set (ld_capabilities L)) \<and>
    (\<not> waits_to_connect (ai_kind intent) \<longrightarrow> ls_state l = Connected) \<and>
    (needs_control_lease (ai_kind intent) \<longrightarrow> fence (ls_lease l) (gr_id g) = Allowed) \<and>
    (is_grounded (ai_kind intent) \<longrightarrow> ai_fence intent = Some (gf_current (ls_fence l)))"
proof -
  note g = assms [unfolded gates_def Let_def]
  have "geometry_admit (ls_fence l) intent = Inr ()"
    using g by (cases "geometry_admit (ls_fence l) intent") (auto split: if_splits)
  then have "is_grounded (ai_kind intent) \<Longrightarrow> ai_fence intent = Some (gf_current (ls_fence l))"
    by (auto simp: geometry_admit_iff)
  moreover have "readiness (ls_state l) = None \<Longrightarrow> ls_state l = Connected"
    by (cases "ls_state l") (simp_all add: readiness_def)
  moreover have "grant_missing g (capabilities_for (ai_kind intent) (ld_perception L)) = []"
    and "caps_missing (offered L) (capabilities_for (ai_kind intent) (ld_perception L)) = []"
    using g by (auto split: if_splits)
  ultimately show ?thesis
    using g by (auto simp: grant_missing_def missing_none offered_def split: if_splits)
qed

lemma stop_running_wire [simp]: "ls_wire (stop_running n l) = ls_wire l"
  by (simp add: stop_running_def)

lemma start_running_wire: "start_running i n l = Some l0 \<Longrightarrow> l0 = l\<lparr>ls_running := (n, i) # ls_running l\<rparr>"
  by (simp add: start_running_def split: if_splits)

lemma drag_repair_intents: "drag_repair L world (l, w) = (l', w') \<Longrightarrow> sent_by_intents l' = sent_by_intents l"
  by (auto simp: drag_repair_def Let_def sent_by_intents_def put_if_def split: if_splits)

lemma actuate_parts:
  assumes "actuate L intent plan needs now world repair l = (st, l')"
  obtains (busy) "st = refuse (ai_id intent) IntentInFlight" "l' = l" "start_running (ai_grant intent) (ai_id intent) l = None"
  | (walked) steps coalesced l1 w1 stopped l2 w2 where
      "coalesce_settings plan = (steps, coalesced)"
      "walk_steps L (ai_grant intent) needs world 0 steps (l\<lparr>ls_running := (ai_id intent, ai_grant intent) # ls_running l\<rparr>) walk_new =
         (l1, w1, stopped)"
      "drag_repair L repair (l1, w1) = (l2, w2)" "ls_wire l' = ls_wire l2" "ls_ctx l' = ls_ctx l2"
      "se_progress st = walk_progress (is_drag (ai_kind intent)) w2"
      "st = settle_walk (ai_id intent) (is_drag (ai_kind intent)) stopped w2 (walk_gaps coalesced stopped w2) (gf_current (ls_fence l2))"
proof (cases "start_running (ai_grant intent) (ai_id intent) l")
  case None
  then show thesis using busy assms by (simp add: actuate_def)
next
  case (Some l0)
  obtain steps coalesced where c: "coalesce_settings plan = (steps, coalesced)" by fastforce
  obtain l1 w1 stopped where w: "walk_steps L (ai_grant intent) needs world 0 steps l0 walk_new = (l1, w1, stopped)"
    by (metis prod_cases3)
  obtain l2 w2 where d: "drag_repair L repair (l1, w1) = (l2, w2)" by fastforce
  have out: "st = settle_walk (ai_id intent) (is_drag (ai_kind intent)) stopped w2 (walk_gaps coalesced stopped w2)
      (gf_current (ls_fence l2))" "ls_wire l' = ls_wire l2" "ls_ctx l' = ls_ctx l2"
    using assms Some c w d by (auto simp: actuate_def Let_def stop_running_def)
  have "se_progress st = walk_progress (is_drag (ai_kind intent)) w2"
    by (simp add: out(1) settle_walk_def Let_def split: walk_end.splits)
  then show thesis using walked [OF c _ d out(2,3) _ out(1)] w start_running_wire [OF Some] by simp
qed

lemma actuate_sends:
  assumes "actuate L intent plan needs now world repair l = (st, l')"
  shows "\<exists>sent. subseq sent plan \<and> sent_by_intents l' = sent_by_intents l @ map sp_command sent"
  using assms
proof (cases rule: actuate_parts)
  case busy
  then show ?thesis by (intro exI [of _ "[]"]) simp
next
  case (walked steps coalesced l1 w1 stopped l2 w2)
  from walk_subseq [OF walked(2)] obtain sub where "subseq sub steps"
    and "sent_by_intents l1 = sent_by_intents l @ map sp_command sub" by (auto simp: sent_by_intents_def)
  moreover have "sent_by_intents l' = sent_by_intents l1"
    using drag_repair_intents [OF walked(3)] walked(4) by (simp add: sent_by_intents_def)
  ultimately show ?thesis using subseq_coalesce [of plan] walked(1) by (metis fst_conv subseq_order.trans)
qed

lemma native_sends:
  "serve_natively L intent s needs now nw l = (st, l') \<Longrightarrow>
     sent_by_intents l' \<in> {sent_by_intents l, sent_by_intents l @ [sp_command s]}"
  by (cases "send_step L s (nw_channel nw)")
    (auto simp: serve_natively_def Let_def sent_by_intents_def split: option.splits if_splits dest!: start_running_wire)

lemma lower_native: "lower intent ctx = Inr (Native s) \<Longrightarrow> sp_command s = client_command.Agent intent"
  by (auto simp: lower_def lower_type_def lower_press_intent_def lower_move_def lower_click_def lower_drag_def
      lower_scroll_def lower_send_bytes_def lower_tune_def Let_def res_simps split: intent_kind.splits if_splits)

lemma sent_is_plan:
  assumes "dispatch L g intent now dw l = (st, l')" and "sent_by_intents l' \<noteq> sent_by_intents l"
  shows "(\<exists>plan sent. lower intent (ls_ctx l) = Inr (Commands plan) \<and> subseq sent plan \<and>
        sent_by_intents l' = sent_by_intents l @ map sp_command sent) \<or>
     sent_by_intents l' = sent_by_intents l @ [client_command.Agent intent]"
proof (cases "gates L g intent l")
  case None
  show ?thesis
  proof (cases "lower intent (ls_ctx l)")
    case (Inr low)
    note d = assms(1) [unfolded dispatch_def None Inr Let_def]
    show ?thesis
    proof (cases low)
      case (Commands plan)
      then show ?thesis using d Inr actuate_sends by fastforce
    next
      case (Native s)
      then have "sp_command s = client_command.Agent intent" using Inr lower_native by blast
      then show ?thesis using d Native assms(2) native_sends by fastforce
    qed (use d assms(2) in simp)
  qed (use assms None in \<open>auto simp: dispatch_def\<close>)
qed (use assms in \<open>auto simp: dispatch_def\<close>)

subsection \<open>Typing\<close>

text \<open>What the walk's record counts.\<close>

lemma walk_record_counts:
  "unat (wk_delivered (walk_record s w)) = min (unat (wk_delivered w) + 1) (2 ^ 32 - 1)"
  "unat (wk_code_points (walk_record s w)) =
     min (unat (wk_code_points w) + (if sp_mark s = CodePoint then 1 else 0)) (2 ^ 32 - 1)"
  using unsigned_less [of "wk_code_points w", where 'a = nat]
  by (simp_all add: walk_record_def Let_def unat_sat_add split: step_mark.splits)

lemma walk_records_delivered:
  "unat (wk_delivered (fold walk_record ss w)) = min (unat (wk_delivered w) + length ss) (2 ^ 32 - 1)"
proof (induction ss arbitrary: w)
  case Nil
  have "unat (wk_delivered w) < 2 ^ 32" using unsigned_less [of "wk_delivered w", where 'a = nat] by simp
  then show ?case by simp
qed (simp add: walk_record_counts)

lemma walk_records_code_points:
  "unat (wk_code_points (fold walk_record ss w)) =
     min (unat (wk_code_points w) + length (filter (\<lambda>s. sp_mark s = CodePoint) ss)) (2 ^ 32 - 1)"
proof (induction ss arbitrary: w)
  case Nil
  have "unat (wk_code_points w) < 2 ^ 32" using unsigned_less [of "wk_code_points w", where 'a = nat] by simp
  then show ?case by simp
next
  case (Cons s ss)
  then show ?case by (simp add: walk_record_counts min_def)
qed

lemma walk_records_not_dragging:
  "list_all (\<lambda>s. sp_mark s \<in> {Plain, CodePoint}) ss \<Longrightarrow> wk_drag_held (fold walk_record ss w) = wk_drag_held w"
proof (induction ss arbitrary: w)
  case (Cons s ss)
  have "sp_mark s \<in> {Plain, CodePoint}" using Cons.prems by simp
  then have "wk_drag_held (walk_record s w) = wk_drag_held w"
    by (cases "sp_mark s") (simp_all add: walk_record_def Let_def)
  then show ?case using Cons by simp
qed simp

text \<open>The plan of a text: two key events, or one run of bytes, for every character.\<close>

lemma take_pairs:
  "take n (concat (map (\<lambda>x. [a x, b x]) xs)) =
     concat (map (\<lambda>x. [a x, b x]) (take (n div 2) xs)) @ (if odd n \<and> n div 2 < length xs then [a (xs ! (n div 2))] else [])"
proof (induction xs arbitrary: n)
  case (Cons x xs)
  consider "n = 0" | "n = 1" | m where "n = m + 2" by (metis One_nat_def Suc_1 add_2_eq_Suc' not0_implies_Suc)
  then show ?case
  proof cases
    case (3 m)
    then show ?thesis using Cons.IH [of m] by simp
  qed simp_all
qed simp

lemma take_singles: "take n (concat (map (\<lambda>x. [a x]) xs)) = concat (map (\<lambda>x. [a x]) (take n xs))"
  by (induction xs arbitrary: n) (simp_all add: take_Cons')

definition typed_commands :: "grounding \<Rightarrow> nat \<Rightarrow> command list" where
  "typed_commands g c =
     (if g = GroundPixels then [Key (keysym_for_char c) None True, Key (keysym_for_char c) None False]
      else [TerminalInput (encode_utf8 c)])"

text \<open>A cut through the plan: whole characters, and at most the press of one more.\<close>

lemma take_typed:
  fixes tx :: chars
  assumes "n \<le> length plan" and "plan = concat (map (type_steps g pause) (type_keysyms tx))"
  obtains j rest where "j \<le> length tx"
    and "map sp_command (take n plan) = concat (map (typed_commands g) (take j tx)) @ rest"
    and "length (filter (\<lambda>s. sp_mark s = CodePoint) (take n plan)) = j"
    and "rest = [] \<or> g = GroundPixels \<and> j < length tx \<and> rest = [Key (keysym_for_char (tx ! j)) None True]"
    and "length (take n plan) = 0 \<longleftrightarrow> j = 0 \<and> rest = []" and "length (take n plan) = length rest + (if g = GroundPixels then 2 else 1) * j"
    and "list_all (\<lambda>s. sp_mark s \<in> {Plain, CodePoint}) (take n plan)"
proof (cases "g = GroundPixels")
  case True
  let ?a = "\<lambda>c. plain (Key (keysym_for_char c) None True) Await"
  let ?b = "\<lambda>c. after (marked (Key (keysym_for_char c) None False) Await CodePoint) pause"
  let ?rest = "if odd n \<and> n div 2 < length tx then [Key (keysym_for_char (tx ! (n div 2))) None True] else []"
  have plan: "plan = concat (map (\<lambda>c. [?a c, ?b c]) tx)"
    by (simp add: assms(2) True type_keysyms_def type_steps_def comp_def)
  have t: "take n plan = concat (map (\<lambda>c. [?a c, ?b c]) (take (n div 2) tx)) @
      (if odd n \<and> n div 2 < length tx then [?a (tx ! (n div 2))] else [])"
    unfolding plan by (rule take_pairs)
  have len: "length plan = 2 * length tx" unfolding plan by (induction tx) simp_all
  have "length (filter (\<lambda>s. sp_mark s = CodePoint) (concat (map (\<lambda>c. [?a c, ?b c]) cs))) = length cs" for cs
    by (induction cs) simp_all
  moreover have "length (concat (map (\<lambda>c. [?a c, ?b c]) cs)) = 2 * length cs" for cs
    by (induction cs) simp_all
  moreover have "map sp_command (concat (map (\<lambda>c. [?a c, ?b c]) cs)) = concat (map (typed_commands g) cs)" for cs
    by (induction cs) (simp_all add: typed_commands_def True)
  moreover have "list_all (\<lambda>s. sp_mark s \<in> {Plain, CodePoint}) (concat (map (\<lambda>c. [?a c, ?b c]) cs))" for cs
    by (induction cs) simp_all
  ultimately show thesis
    using that [of "n div 2" ?rest] assms(1) len True unfolding t by (auto simp: min_def split: if_splits)
next
  case False
  let ?a = "\<lambda>c. after (marked (TerminalInput (encode_utf8 c)) Await CodePoint) pause"
  have plan: "plan = concat (map (\<lambda>c. [?a c]) tx)"
    by (simp add: assms(2) False type_keysyms_def type_steps_def comp_def)
  have t: "take n plan = concat (map (\<lambda>c. [?a c]) (take n tx))"
    unfolding plan by (rule take_singles)
  have len: "length plan = length tx" unfolding plan by (induction tx) simp_all
  have "length (filter (\<lambda>s. sp_mark s = CodePoint) (concat (map (\<lambda>c. [?a c]) cs))) = length cs" for cs
    by (induction cs) simp_all
  moreover have "length (concat (map (\<lambda>c. [?a c]) cs)) = length cs" for cs
    by (induction cs) simp_all
  moreover have "map sp_command (concat (map (\<lambda>c. [?a c]) cs)) = concat (map (typed_commands g) cs)" for cs
    by (induction cs) (simp_all add: typed_commands_def False)
  moreover have "list_all (\<lambda>s. sp_mark s \<in> {Plain, CodePoint}) (concat (map (\<lambda>c. [?a c]) cs))" for cs
    by (induction cs) simp_all
  ultimately show thesis
    using that [of n "[]"] assms(1) len False unfolding t by (auto simp: min_def)
qed

end
