(* ===== verification/Agent_Properties.thy ===== *)
theory Agent_Properties
  imports Dispatch_Laws
begin

text \<open>
  The properties of an agent's way onto a machine (\<open>crates/agent-plane\<close>, \<open>crates/limb-core\<close>): what
  an intent is lowered to, the gates, the walk of a plan and what its settlement says, each with its
  witness.
\<close>

unbundle bit_operations_syntax

subsection \<open>Samples\<close>

definition sample_plane :: plane_config where
  "sample_plane = \<lparr>pg_max_driven_limbs = 4, pg_intent_block_ms = 2000, pg_session_reservation_divisor = 2, pg_drag_points = 2,
     pg_drag_settle_ms = 30, pg_double_click_gap_ms = 250, pg_lease = \<lparr>cfg_mode = Exclusive, cfg_policy = default_policy\<rparr>\<rparr>"

definition sample_limb :: limb_card where
  "sample_limb = \<lparr>ld_host = chars_of ''desk'', ld_supports = (\<lambda>_. True), ld_capabilities = ALL_CAPABILITIES,
     ld_perception = \<lparr>pc_frames = True, pc_cells = False, pc_structure = False\<rparr>, ld_config = sample_plane, ld_max_capacity = 8\<rparr>"

definition sample_grant :: grant_card where
  "sample_grant = \<lparr>gr_id = ''grant-1'', gr_capabilities = bundle_expand RoleAgent, gr_hosts = {chars_of ''desk''}\<rparr>"

definition sample_driver :: party where
  "sample_driver = party_new ''grant-1'' holder_kind.Agent ''nightly run''"

definition sample_driven :: limb_state where
  "sample_driven = \<lparr>ls_lease = (exclusive ''desk'')\<lparr>l_phase := Held, l_next_lease_id := 2,
       l_holder := Some \<lparr>h_lease_id = 1, h_party = sample_driver, h_granted_at = 0, h_last_intent_at = 0,
         h_last_renew_at = 0, h_connected = True, h_grace_until = None\<rparr>\<rparr>,
     ls_fence = geometry_fence_new, ls_ctx = lower_context_new GroundPixels (1920, 1080) sample_plane, ls_gaps = no_gaps,
     ls_last_mask = 0, ls_state = Connected, ls_running = [], ls_wire = []\<rparr>"

definition sample_intent :: "intent_kind \<Rightarrow> agent_intent" where
  "sample_intent k = \<lparr>ai_id = IntentId 1, ai_grant = ''grant-1'', ai_deadline = None, ai_fence = Some GENERATION_FIRST, ai_kind = k\<rparr>"

lemma sat_add_first [simp]: "sat_add 0 1 = (1 :: u32)"
  by (simp add: sat_add_def)

text \<open>A channel with room, a channel that has room only at the second look, and a step nobody disturbs.\<close>

definition roomy :: "limb_card \<Rightarrow> channel_world" where
  "roomy L = \<lparr>cw_polls = [\<lparr>po_capacity = Suc (reserved_slots (ld_config L) (ld_max_capacity L)), po_try = TryOk, po_closed = False,
       po_late = False\<rparr>], cw_jump = TryOk, cw_timed = SendOk, cw_spent = 0\<rparr>"

definition roomy_later :: "limb_card \<Rightarrow> channel_world" where
  "roomy_later L = (roomy L)\<lparr>cw_polls := \<lparr>po_capacity = 0, po_try = TryOk, po_closed = False, po_late = False\<rparr> # cw_polls (roomy L)\<rparr>"

definition calm :: "limb_card \<Rightarrow> step_world" where
  "calm L = \<lparr>sw_before = [], sw_cancelled = False, sw_during = [], sw_channel = roomy L, sw_cancel_in_pause = False\<rparr>"

definition quiet_native :: "limb_card \<Rightarrow> native_world" where
  "quiet_native L = \<lparr>nw_during = [], nw_channel = roomy L, nw_waiting = [], nw_answer = NoAnswer\<rparr>"

definition quiet_world :: "limb_card \<Rightarrow> (nat \<Rightarrow> step_world) \<Rightarrow> dispatch_world" where
  "quiet_world L steps = \<lparr>dw_walk = steps, dw_repair = roomy L, dw_native = quiet_native L,
     dw_observe = \<lparr>ow_frame = None, ow_polls = [], ow_quiet = 0\<rparr>\<rparr>"

lemma send_roomy [simp]:
  "sp_policy s \<noteq> Jump \<Longrightarrow> send_step L s (roomy L) = Sent" "sp_policy s \<noteq> Jump \<Longrightarrow> sp_policy s \<noteq> Shed \<Longrightarrow> send_step L s (roomy_later L) = Sent"
  "sp_policy s = Jump \<Longrightarrow> send_step L s (roomy L) = Sent"
  by (simp_all add: send_step_def roomy_def roomy_later_def)

lemma limb_ops_simps [simp]: "limb_ops L [] l = l" "limb_ops L (opn # ops) l = limb_ops L ops (limb_op_apply L opn l)"
  by (simp_all add: limb_ops_def)

lemmas agent_samples = sample_plane_def sample_limb_def sample_grant_def sample_driver_def sample_driven_def sample_intent_def
  party_new_def exclusive_def geometry_fence_new_def lower_context_new_def GENERATION_FIRST_def from_millis_def

lemma sample_gates:
  "kind_name k \<in> {NType, NMove, NClick, NDrag} \<Longrightarrow> gates sample_limb sample_grant (sample_intent k) sample_driven = None"
proof -
  have control: "caps_missing (bundle_expand RoleAgent) (caps_of [CapControl]) = []"
      "caps_missing (caps_of ALL_CAPABILITIES) (caps_of [CapControl]) = []"
    by (auto simp: missing_none ALL_CAPABILITIES_def)
  have host: "allows_host sample_grant (ld_host sample_limb)"
    by (simp add: allows_host_def agent_samples normalise_host_def trim_end_dots_def trim_def is_whitespace_def chars_of_def
        ascii_lower_def)
  assume "kind_name k \<in> {NType, NMove, NClick, NDrag}"
  then show ?thesis
    using control host
    by (cases k) (simp_all add: gates_def agent_samples grant_missing_def offered_def readiness_def geometry_admit_def
        fence_def holder_is_def)
qed

text \<open>Undisturbed, a plan is sent whole.\<close>

lemma calm_walk:
  "list_all (\<lambda>s. sp_policy s = Await) ss \<Longrightarrow> (needs \<longrightarrow> fence (ls_lease l) i = Allowed) \<Longrightarrow>
   walk_steps L i needs (\<lambda>_. calm L) k ss l w = (l', w', stopped) \<Longrightarrow>
   ls_wire l' = ls_wire l @ map (\<lambda>s. ByIntent (sp_command s)) ss"
proof (induction ss arbitrary: k l w)
  case (Cons s ss)
  let ?w = "walk_record s (w\<lparr>wk_waited := wk_waited w + cw_spent (roomy L)\<rparr>)"
  have "walk_steps L i needs (\<lambda>_. calm L) (Suc k) ss (put ByIntent s l) ?w = (l', w', stopped)"
    using Cons.prems by (auto simp: calm_def Let_def)
  from Cons.IH [OF _ _ this] Cons.prems(1,2) show ?case by simp
qed simp

lemma calm_actuate:
  assumes "actuate L intent plan needs now (\<lambda>_. calm L) repair l = (st, l')"
    and "list_all (\<lambda>s. sp_policy s = Await) plan" and "needs \<longrightarrow> fence (ls_lease l) (ai_grant intent) = Allowed"
    and "ls_running l = []"
  shows "sent_by_intents l' = sent_by_intents l @ map sp_command plan"
  using assms(1)
proof (cases rule: actuate_parts)
  case busy
  then show ?thesis using assms(4) by (simp add: start_running_def)
next
  case (walked steps coalesced l1 w1 stopped l2 w2)
  have "steps = plan" using walked(1) coalesce_id [of plan] assms(2) by (simp add: list_all_iff)
  then have "ls_wire l1 = ls_wire l @ map (\<lambda>s. ByIntent (sp_command s)) plan"
    using calm_walk [OF _ _ walked(2)] assms(2,3) by simp
  moreover have "intents_of (map (\<lambda>s. ByIntent (sp_command s)) ss) = map sp_command ss" for ss
    by (induction ss) simp_all
  ultimately show ?thesis
    using drag_repair_intents [OF walked(3)] walked(4) by (simp add: sent_by_intents_def)
qed

subsection \<open>Plans\<close>

text \<open>
  C11. Whatever an intent is lowered to stays on the screen and lets go: every pointer command of the
  plan is inside the limb's space, the interpolated points of a drag included, and a machine that
  holds nothing when the plan starts holds nothing when all of it has arrived, each key released and
  the buttons back at rest. The raw scancode, which is one edge of a key by intention, is left out.
\<close>

theorem plans_safe:
  assumes "lower intent ctx = Inr (Commands plan)" and "kind_name (ai_kind intent) \<noteq> NScancode"
  shows "list_all (on_screen (lc_size ctx)) plan \<and>
    replay_steps plan (nothing_held (lc_resting_mask ctx)) = nothing_held (lc_resting_mask ctx)"
  using lower_on_screen [OF assms(1)] lower_lets_go [OF assms] by blast

definition sample_drag :: intent_kind where
  "sample_drag = Drag (point_at 10 10) (point_at 100 40) BtnLeft"

lemma sample_drag_lowered: "\<exists>plan. lower (sample_intent sample_drag) (ls_ctx sample_driven) = Inr (Commands plan)"
  by (simp add: lower_def lower_drag_def sample_drag_def agent_samples pointer_limb_def ctx_admits_def point_at_def Let_def)

theorem plans_safe_witness:
  "\<exists>plan. lower (sample_intent sample_drag) (ls_ctx sample_driven) = Inr (Commands plan) \<and>
     list_all (on_screen (1920, 1080)) plan \<and> replay_steps plan (nothing_held 0) = nothing_held 0"
proof -
  obtain plan where p: "lower (sample_intent sample_drag) (ls_ctx sample_driven) = Inr (Commands plan)"
    using sample_drag_lowered by blast
  show ?thesis
    using p plans_safe [OF p] by (simp add: agent_samples sample_drag_def)
qed

subsection \<open>Gates\<close>

text \<open>
  A coordinate goes stale for good: an intent computed against the current geometry is refused
  after any further geometry change, however many there are, as long as the counter was not at its
  top; and an intent with a coordinate and no generation is refused always.
\<close>

theorem stale_refused:
  assumes "changes \<noteq> []" and "generation_get (gf_current f) < - 1"
  shows "(if ai_fence intent = Some (gf_current f) \<or> ai_fence intent = None \<and> is_grounded (ai_kind intent)
     then geometry_admit (fold (\<lambda>why f. fst (geometry_changed f why)) changes f) intent \<noteq> Inr () else True)"
proof -
  have "gf_current (fold (\<lambda>why f. fst (geometry_changed f why)) changes f) \<noteq> gf_current f"
    using geometry.stale_for_ever [OF assms(1), of f] assms(2) by auto
  then show ?thesis by (auto simp: geometry_admit_iff)
qed

theorem stale_refused_witness:
  "geometry_admit (fst (geometry_changed geometry_fence_new GeoReconnected)) (sample_intent sample_drag) \<noteq> Inr ()"
  using stale_refused [of "[GeoReconnected]" geometry_fence_new "sample_intent sample_drag"]
  by (simp add: agent_samples word_less_nat_alt unsigned_minus_1_eq_mask mask_eq_exp_minus_1)

text \<open>
  C10. Complete mediation: when a dispatch puts a command of the agent on the wire, the grant names this
  host, the envelope is the grant's, every capability the intent costs is in the grant and offered by
  the limb, the session is connected, the party held the lease if the intent drives, and a
  coordinate was computed against the current geometry. What went is the driver's whole intent, or
  commands of the lowered plan in their order.
\<close>

theorem dispatch_mediated:
  assumes "dispatch L g intent now dw l = (st, l')" and "sent_by_intents l' \<noteq> sent_by_intents l"
  shows "ai_grant intent = gr_id g \<and> allows_host g (ld_host L) \<and> ls_state l = Connected \<and>
    (\<forall>c. allows (capabilities_for (ai_kind intent) (ld_perception L)) c \<longrightarrow>
       allows (gr_capabilities g) c \<and> c \<in> set (ld_capabilities L)) \<and>
    (needs_control_lease (ai_kind intent) \<longrightarrow> fence (ls_lease l) (gr_id g) = Allowed) \<and>
    (is_grounded (ai_kind intent) \<longrightarrow> ai_fence intent = Some (gf_current (ls_fence l))) \<and>
    ((\<exists>plan sent. lower intent (ls_ctx l) = Inr (Commands plan) \<and> subseq sent plan \<and>
        sent_by_intents l' = sent_by_intents l @ map sp_command sent) \<or>
     sent_by_intents l' = sent_by_intents l @ [client_command.Agent intent])"
proof -
  have passed: "gates L g intent l = None" using assms by (auto simp: dispatch_def split: option.splits)
  have sent: "\<exists>low. lower intent (ls_ctx l) = Inr low \<and> low \<noteq> Observed"
    using assms passed by (auto simp: dispatch_def Let_def split: sum.splits lowered.splits)
  then have kind: "\<not> waits_to_connect (ai_kind intent)"
    by (cases "ai_kind intent" rule: waits_to_connect.cases) (auto simp: lower_def)
  show ?thesis
    using passed kind sent_is_plan [OF assms] gates_passed [OF passed] by blast
qed

theorem dispatch_mediated_witness:
  "allows_host sample_grant (ld_host sample_limb) \<and> fence (ls_lease sample_driven) (gr_id sample_grant) = Allowed"
proof -
  let ?i = "sample_intent (Type [0x61] None)"
  let ?w = "quiet_world sample_limb (\<lambda>_. calm sample_limb)"
  obtain st l' where d: "dispatch sample_limb sample_grant ?i 5 ?w sample_driven = (st, l')" by fastforce
  have "gates sample_limb sample_grant ?i sample_driven = None" by (simp add: sample_gates)
  moreover have "lower ?i (ls_ctx sample_driven) = Inr (Commands
      [plain (Key 0x61 None True) Await, after (marked (Key 0x61 None False) Await CodePoint) UNPACED_KEYSTROKE])"
    by (simp add: lower_def lower_type_def agent_samples type_keysyms_def type_steps_def keysym_for_char_def)
  ultimately have "actuate sample_limb ?i
      [plain (Key 0x61 None True) Await, after (marked (Key 0x61 None False) Await CodePoint) UNPACED_KEYSTROKE] True 5
      (\<lambda>_. calm sample_limb) (roomy sample_limb) sample_driven = (st, l')"
    using d by (simp add: dispatch_def quiet_world_def sample_intent_def)
  from calm_actuate [OF this] have "sent_by_intents l' = [Key 0x61 None True, Key 0x61 None False]"
    by (simp add: sent_by_intents_def agent_samples fence_def holder_is_def)
  then have "sent_by_intents l' \<noteq> sent_by_intents sample_driven" by (simp add: sent_by_intents_def agent_samples)
  then show ?thesis using dispatch_mediated [OF d] by (auto simp: sample_intent_def)
qed

text \<open>
  C15. No role bundle can run a command or forge a scancode: with a grant issued from any bundle, on any
  limb and in any state, such an intent is refused and changes nothing.
\<close>

theorem bundles_cannot_run:
  assumes "grant_from_bundle i b hosts = Inr g" and "kind_name (ai_kind intent) \<in> {NExec, NPtyRun, NScancode}"
  shows "snd (dispatch L g intent now dw l) = l \<and> se_reason (fst (dispatch L g intent now dw l)) \<noteq> None"
proof -
  have caps: "gr_capabilities g = bundle_expand b"
    using assms(1) by (auto simp: grant_from_bundle_def grant_issue_def res_simps split: if_splits)
  obtain c where c: "allows (capabilities_for (ai_kind intent) (ld_perception L)) c" "is_never_bundled c"
    using assms(2) by (cases "ai_kind intent") (auto simp: is_never_bundled_def NEVER_BUNDLED_def)
  then have "gates L g intent l \<noteq> None"
    using gates_passed [of L g intent l] bundle_never [of c b] caps by auto
  then show ?thesis by (auto simp: dispatch_def refuse_def refuse_with_def)
qed

theorem bundles_cannot_run_witness:
  "se_reason (fst (dispatch sample_limb
     \<lparr>gr_id = ''grant-1'', gr_capabilities = bundle_expand RoleOwner, gr_hosts = {chars_of ''desk''}\<rparr>
     (sample_intent (Scancode 0x1E True)) 5 (quiet_world sample_limb (\<lambda>_. calm sample_limb)) sample_driven)) \<noteq> None"
proof -
  have "grant_from_bundle ''grant-1'' RoleOwner [chars_of ''desk''] =
      Inr \<lparr>gr_id = ''grant-1'', gr_capabilities = bundle_expand RoleOwner, gr_hosts = {chars_of ''desk''}\<rparr>"
    by (simp add: grant_from_bundle_def grant_issue_def normalise_host_def trim_end_dots_def trim_def is_whitespace_def
        chars_of_def ascii_lower_def)
  from bundles_cannot_run [OF this, of "sample_intent (Scancode 0x1E True)"] show ?thesis
    by (simp add: sample_intent_def)
qed

subsection \<open>Walks\<close>

text \<open>
  C12. A drag never leaves the button down. When the last mask the server was told before the drag is the resting one or
  none, then once the drag has settled the last mask it was told is again the resting one or none,
  unless the channel refused the release itself: whatever the channel does at each step, wherever the walk is
  cancelled, and whatever calls come between its steps (any call on the lease, transitions honoured by the plane, changes of the
  geometry or of the session's state). Another grant's dispatch on the same limb, which could send masks of its own
  in between, is not among those calls.
\<close>

theorem drag_released:
  assumes "ai_kind intent = Drag p q button" and "lower intent (ls_ctx l) = Inr (Commands plan)"
    and "actuate L intent plan needs now world repair l = (st, l')"
    and "hl_mask (wire_held m l) \<in> {lc_resting_mask (ls_ctx l), 0}"
    and "send_step L (plain ReleaseAllKeys Jump) repair = Sent"
  shows "hl_mask (wire_held m l') \<in> {lc_resting_mask (ls_ctx l), 0}"
  using assms(3)
proof (cases rule: actuate_parts)
  case (walked steps coalesced l1 w1 stopped l2 w2)
  let ?l0 = "l\<lparr>ls_running := (ai_id intent, ai_grant intent) # ls_running l\<rparr>"
  have plan: "lower_drag p q button (ls_ctx l) = Inr (Commands plan)" using assms(1,2) by (simp add: lower_def)
  then have "drag_plan (lc_resting_mask (ls_ctx l)) False steps"
    using walked(1) lower_drag_plan drag_plan_uncoalesced by fastforce
  then have dp: "drag_plan (lc_resting_mask (ls_ctx ?l0)) (wk_drag_held walk_new) steps" by (simp add: walk_new_def)
  have "drag_safe m ?l0 walk_new" using assms(4) by (simp add: drag_safe_def wire_held_def)
  from walk_drag_safe [OF walked(2) dp this]
  have safe: "drag_safe m l1 w1" and rest: "lc_resting_mask (ls_ctx l1) = lc_resting_mask (ls_ctx l)" by simp_all
  have "send_step L (marked ReleaseAllKeys Jump DragRelease) repair = Sent" using assms(5) by (simp add: send_step_def)
  from drag_repair_releases [OF walked(3) safe this] rest walked(4)
  show ?thesis by (simp add: wire_held_def)
qed (use assms(4) in simp)

theorem drag_released_witness:
  "\<exists>plan st l'. actuate sample_limb (sample_intent sample_drag) plan True 5 (\<lambda>_. calm sample_limb) (roomy sample_limb) sample_driven = (st, l') \<and>
     hl_mask (wire_held 0 l') = 0"
proof -
  obtain plan where p: "lower (sample_intent sample_drag) (ls_ctx sample_driven) = Inr (Commands plan)"
    using sample_drag_lowered by blast
  obtain st l' where a: "actuate sample_limb (sample_intent sample_drag) plan True 5 (\<lambda>_. calm sample_limb) (roomy sample_limb) sample_driven = (st, l')"
    by fastforce
  have "ai_kind (sample_intent sample_drag) = Drag (point_at 10 10) (point_at 100 40) BtnLeft"
    by (simp add: sample_intent_def sample_drag_def)
  from drag_released [OF this p a, of 0] a show ?thesis
    by (auto simp: agent_samples wire_held_def nothing_held_def)
qed

text \<open>
  The count of a typed text is true: what a \<open>type\<close> put on the wire is its first characters, whole
  and in order, and at most the press of one more; and the settlement reports exactly how many were
  whole, whether the plan finished, was cancelled, was superseded or ran into a full or closed channel.
\<close>

theorem typed_count_true:
  assumes "ai_kind intent = Type tx wpm" and "lower intent (ls_ctx l) = Inr (Commands plan)"
    and "actuate L intent plan needs now world repair l = (st, l')" and "se_reason st \<noteq> Some IntentInFlight"
    and "length tx < 2 ^ 32"
  shows "\<exists>j rest. sent_by_intents l' = sent_by_intents l @ concat (map (typed_commands (lc_grounding (ls_ctx l))) (take j tx)) @ rest \<and>
     j \<le> length tx \<and> (rest = [] \<or> j < length tx \<and> rest = [Key (keysym_for_char (tx ! j)) None True]) \<and>
     se_progress st = (if 0 < j then CodePoints (of_nat j) else if rest = [] then NoProgress else Delivered 1)"
  using assms(3)
proof (cases rule: actuate_parts)
  case busy
  then show ?thesis using assms(4) by (simp add: refuse_def refuse_with_def)
next
  case (walked steps coalesced l1 w1 stopped l2 w2)
  let ?g = "lc_grounding (ls_ctx l)"
  obtain pause where plan: "plan = concat (map (type_steps ?g pause) (type_keysyms tx))"
    using assms(1,2) by (auto simp: lower_def lower_type_def Let_def split: if_splits)
  have await: "list_all (\<lambda>s. sp_policy s = Await) plan"
    unfolding plan by (auto simp: list_all_iff type_keysyms_def type_steps_def)
  have steps: "steps = plan"
    using walked(1) coalesce_id [of plan] await by (simp add: list_all_iff)
  have "list_all (\<lambda>s. sp_policy s \<noteq> Shed) steps" using await steps by (simp add: list_all_iff)
  from walk_prefix [OF walked(2) this] obtain n where n: "n \<le> length plan"
    and s: "sent_by_intents l1 = sent_by_intents l @ map sp_command (take n plan)"
    and r: "same_record w1 (fold walk_record (take n plan) walk_new)"
    by (auto simp: steps sent_by_intents_def)
  from n plan obtain j rest where j: "j \<le> length tx"
    and c: "map sp_command (take n plan) = concat (map (typed_commands ?g) (take j tx)) @ rest"
    and count: "length (filter (\<lambda>s. sp_mark s = CodePoint) (take n plan)) = j"
    and rest: "rest = [] \<or> ?g = GroundPixels \<and> j < length tx \<and> rest = [Key (keysym_for_char (tx ! j)) None True]"
    and zero: "length (take n plan) = 0 \<longleftrightarrow> j = 0 \<and> rest = []"
    and len: "length (take n plan) = length rest + (if ?g = GroundPixels then 2 else 1) * j"
    and marks: "list_all (\<lambda>s. sp_mark s \<in> {Plain, CodePoint}) (take n plan)"
    by (rule take_typed)
  have w1: "wk_code_points w1 = wk_code_points (fold walk_record (take n plan) walk_new)"
    "wk_delivered w1 = wk_delivered (fold walk_record (take n plan) walk_new)"
    "wk_drag_held w1 = wk_drag_held (fold walk_record (take n plan) walk_new)"
    using r by (cases w1; cases "fold walk_record (take n plan) walk_new"; simp add: same_record_def)+
  have "\<not> wk_drag_held w1" using w1(3) walk_records_not_dragging [OF marks, of walk_new] by (simp add: walk_new_def)
  then have same: "l2 = l1" "w2 = w1" using walked(3) by (auto simp: drag_repair_def)
  have cp: "unat (wk_code_points w1) = j"
    using walk_records_code_points [of "take n plan" walk_new] count j assms(5) w1(1) by (simp add: walk_new_def)
  have dl: "unat (wk_delivered w1) = min (length (take n plan)) (2 ^ 32 - 1)"
    using walk_records_delivered [of "take n plan" walk_new] w1(2) by (simp add: walk_new_def)
  have progress: "walk_progress False w1 = (if 0 < j then CodePoints (of_nat j) else if rest = [] then NoProgress else Delivered 1)"
  proof (cases "j = 0")
    case False
    then have "0 < wk_code_points w1" using cp by (metis unat_eq_zero word_gt_0)
    moreover have "wk_code_points w1 = of_nat j" by (simp flip: cp)
    ultimately show ?thesis using False by (simp add: walk_progress_def)
  next
    case True
    then have "wk_code_points w1 = 0" using cp by (simp add: unat_eq_zero)
    moreover have "unat (wk_delivered w1) = length rest" using dl len rest True by auto
    then have "wk_delivered w1 = of_nat (length rest)" by (simp flip: \<open>unat (wk_delivered w1) = length rest\<close>)
    ultimately show ?thesis using True rest by (auto simp: walk_progress_def)
  qed
  have "\<not> is_drag (ai_kind intent)" by (simp add: is_drag_def assms(1))
  then have "se_progress st = walk_progress False w1" using walked(6) same by simp
  moreover have "sent_by_intents l' = sent_by_intents l @ concat (map (typed_commands ?g) (take j tx)) @ rest"
    using walked(4) same s c by (simp add: sent_by_intents_def)
  ultimately show ?thesis using progress j rest by (intro exI [of _ j] exI [of _ rest]) auto
qed

theorem typed_count_true_witness:
  "\<exists>st l'. actuate sample_limb (sample_intent (Type [0x61, 0x62] None)) (concat (map (type_steps GroundPixels UNPACED_KEYSTROKE)
       (type_keysyms [0x61, 0x62]))) True 5 (\<lambda>_. calm sample_limb) (roomy sample_limb) sample_driven = (st, l') \<and>
     sent_by_intents l' \<noteq> [] \<and> se_progress st = CodePoints 2"
proof -
  let ?i = "sample_intent (Type [0x61, 0x62] None)"
  let ?p = "concat (map (type_steps GroundPixels UNPACED_KEYSTROKE) (type_keysyms [0x61, 0x62]))"
  obtain st l' where a: "actuate sample_limb ?i ?p True 5 (\<lambda>_. calm sample_limb) (roomy sample_limb) sample_driven = (st, l')"
    by fastforce
  have low: "lower ?i (ls_ctx sample_driven) = Inr (Commands ?p)" by (simp add: lower_def lower_type_def agent_samples)
  have sent: "sent_by_intents l' = map sp_command ?p"
    using calm_actuate [OF a]
    by (simp add: sent_by_intents_def agent_samples fence_def holder_is_def type_keysyms_def type_steps_def)
  have free: "se_reason st \<noteq> Some IntentInFlight"
    using a by (cases rule: actuate_parts)
      (simp add: start_running_def agent_samples, simp add: settle_walk_def Let_def split: walk_end.splits)
  have k: "ai_kind ?i = Type [0x61, 0x62] None" by (simp add: sample_intent_def)
  have start: "sent_by_intents sample_driven = []" "lc_grounding (ls_ctx sample_driven) = GroundPixels"
    by (simp_all add: sent_by_intents_def agent_samples)
  have short: "length [0x61 :: nat, 0x62] < 2 ^ 32" by simp
  from typed_count_true [OF k low a free short, unfolded start append_Nil] obtain j rest where
    w: "sent_by_intents l' = concat (map (typed_commands GroundPixels) (take j [0x61, 0x62])) @ rest"
       "j \<le> length [0x61 :: nat, 0x62]"
    and r: "rest = [] \<or> j < length [0x61 :: nat, 0x62] \<and> rest = [Key (keysym_for_char ([0x61, 0x62] ! j)) None True]"
    and p: "se_progress st = (if 0 < j then CodePoints (of_nat j) else if rest = [] then NoProgress else Delivered 1)"
    by blast
  have "length (sent_by_intents l') = 4" using sent by (simp add: type_keysyms_def type_steps_def)
  moreover have "j = 0 \<or> j = 1 \<or> j = 2" using w(2) by auto
  ultimately have "j = 2" using w(1) r by (auto simp: typed_commands_def)
  then show ?thesis using a p sent by (auto simp: type_keysyms_def type_steps_def)
qed

subsection \<open>Where the walk falls short\<close>

text \<open>The calls that run while a step waits for room: the panic chord, and the release it owes.\<close>

definition raced :: "limb_card \<Rightarrow> lease_instant \<Rightarrow> limb_state \<Rightarrow> step_world" where
  "raced L t l = (calm L)\<lparr>sw_channel := roomy_later L,
     sw_during := [LeaseCall OpForceRelease t, Honoured (snd (force_release (ls_lease l) t)) t (roomy L) (roomy L)]\<rparr>"

text \<open>
  C13. The lease is checked before a command and not again while the command waits for room in the
  channel. When the panic chord takes the machine during that wait, the release it owes overtakes the
  waiting key press, and the press then goes out after it: the settlement says superseded, nobody
  holds the lease, and the key is down on the far side.
\<close>

theorem stale_press_after_release:
  assumes "gates L g intent l = None" and "ai_kind intent = Type [c] wpm" and "lc_grounding (ls_ctx l) = GroundPixels"
    and "ls_running l = []"
    and "dispatch L g intent now (quiet_world L (\<lambda>_. raced L t l)) l = (st, l')"
  shows "ls_wire l' = ls_wire l @ [ByPlane (pointer_to (lc_last_point (ls_ctx l)) 0), ByPlane ReleaseAllKeys,
       ByIntent (Key (keysym_for_char c) None True)] \<and>
    se_outcome st = Superseded Human (Delivered 1) \<and> l_holder (ls_lease l') = None \<and>
    (keysym_for_char c, None) \<in> hl_keys (wire_held m l')"
proof -
  obtain pause where low: "lower intent (ls_ctx l) = Inr (Commands
      [plain (Key (keysym_for_char c) None True) Await, after (marked (Key (keysym_for_char c) None False) Await CodePoint) pause])"
    using assms(2,3) by (auto simp: lower_def lower_type_def Let_def type_keysyms_def type_steps_def)
  have held: "fence (ls_lease l) (ai_grant intent) = Allowed"
    using gates_passed [OF assms(1)] assms(2) by simp
  have act: "actuate L intent [plain (Key (keysym_for_char c) None True) Await,
      after (marked (Key (keysym_for_char c) None False) Await CodePoint) pause] True now (\<lambda>_. raced L t l) (roomy L) l = (st, l')"
    using assms(1,2,5) low by (simp add: dispatch_def quiet_world_def)
  have owed: "must_release (snd (force_release (ls_lease l) t))" "l_phase (fst (force_release (ls_lease l) t)) = Unheld"
      "l_holder (fst (force_release (ls_lease l) t)) = None"
    by (simp_all add: force_release_def take_holder_def must_release_def draft_def Let_def split: option.splits)
  have gone: "fence (fst (force_release (ls_lease l) t)) i \<noteq> Allowed" for i
    using owed by (simp add: fence_def holder_is_def)
  show ?thesis
    using act held assms(2,4) owed gone
    by (auto simp: actuate_def start_running_def coalesce_settings_def raced_def calm_def Let_def honour_def
        drag_repair_def stop_running_def settle_walk_def walk_progress_def walk_record_def walk_new_def is_drag_def
        superseder_def note_intent_def wire_held_def put_def remember_def pointer_to_def)
qed

theorem stale_press_after_release_witness:
  "\<exists>st l'. dispatch sample_limb sample_grant (sample_intent (Type [0x61] None)) 5
       (quiet_world sample_limb (\<lambda>_. raced sample_limb 6 sample_driven)) sample_driven = (st, l') \<and>
     l_holder (ls_lease l') = None \<and> (0x61, None) \<in> hl_keys (wire_held 0 l')"
proof -
  let ?i = "sample_intent (Type [0x61] None)"
  obtain st l' where d: "dispatch sample_limb sample_grant ?i 5
       (quiet_world sample_limb (\<lambda>_. raced sample_limb 6 sample_driven)) sample_driven = (st, l')" by fastforce
  have g: "gates sample_limb sample_grant ?i sample_driven = None" by (simp add: sample_gates)
  have k: "ai_kind ?i = Type [0x61] None" by (simp add: sample_intent_def)
  have p: "lc_grounding (ls_ctx sample_driven) = GroundPixels" "ls_running sample_driven = []" by (simp_all add: agent_samples)
  show ?thesis using stale_press_after_release [OF g k p d, of 0] d by (auto simp: keysym_for_char_def)
qed

text \<open>The cancellation that reaches a double click between its two clicks.\<close>

definition cancelled_between :: "limb_card \<Rightarrow> nat \<Rightarrow> step_world" where
  "cancelled_between L k = (if k = 3 then (calm L)\<lparr>sw_cancel_in_pause := True\<rparr> else calm L)"

text \<open>
  C14. Only a drag is repaired when a plan breaks off. A double click with a modifier that is cancelled
  between its clicks settles as cancelled with no loss reported, and the modifier stays down on the
  far side: no release was sent for it and no lease change owes one.
\<close>

theorem cancelled_click_holds_modifier:
  assumes "ai_kind intent = Click at button 2 [k]" and "lower intent (ls_ctx l) = Inr (Commands plan)"
    and "fence (ls_lease l) (ai_grant intent) = Allowed" and "ls_running l = []" and "lc_double_click_gap (ls_ctx l) \<noteq> 0"
    and "actuate L intent plan True now (cancelled_between L) repair l = (st, l')"
  shows "se_outcome st = Cancelled \<and> \<not> lost_state (se_gaps st) \<and> event_of k \<in> hl_keys (wire_held m l') \<and>
    ls_wire l' = ls_wire l @ map ByIntent [key_event True k, pointer_to at (lc_resting_mask (ls_ctx l)),
      pointer_to at (lc_resting_mask (ls_ctx l) OR button_mask button), pointer_to at (lc_resting_mask (ls_ctx l))]"
proof -
  let ?rest = "lc_resting_mask (ls_ctx l)" and ?held = "lc_resting_mask (ls_ctx l) OR button_mask button"
  have "[0..<unat (2 :: u8)] = [0, 1]" by (simp add: upt_rec)
  then have plan: "plan = [plain (key_event True k) Await, plain (pointer_to at ?rest) Await, plain (pointer_to at ?held) Await,
      after (plain (pointer_to at ?rest) Await) (lc_double_click_gap (ls_ctx l)), plain (pointer_to at ?held) Await,
      plain (pointer_to at ?rest) Await, plain (key_event False k) Await]"
    using assms(1,2) by (auto simp: lower_def lower_click_def res_simps Let_def click_edges_def split: if_splits)
  have c: "coalesce_settings plan = (plan, 0)" by (rule coalesce_id) (simp add: plan)
  have pause: "sp_pause (after s d) = d" "sp_pause (plain x p) = 0" for s d x p
    by (simp_all add: after_def plain_def)
  obtain l1 w1 stopped where w: "walk_steps L (ai_grant intent) True (cancelled_between L) 0 plan
      (l\<lparr>ls_running := (ai_id intent, ai_grant intent) # ls_running l\<rparr>) walk_new = (l1, w1, stopped)"
    by (metis prod_cases3)
  then have "stopped = EndCancelled" and "wk_drag_held w1 = False"
    and wire: "ls_wire l1 = ls_wire l @ map ByIntent [key_event True k, pointer_to at ?rest, pointer_to at ?held, pointer_to at ?rest]"
    using assms(3,5) by (auto simp: plan cancelled_between_def calm_def Let_def pause walk_record_def walk_new_def)
  show ?thesis
    using assms(6)
  proof (cases rule: actuate_parts)
    case busy
    then show ?thesis using assms(4) by (simp add: start_running_def)
  next
    case (walked steps coalesced l1' w1' stopped' l2 w2)
    then have same: "l1' = l1" "w1' = w1" "stopped' = stopped" using w c by simp_all
    then have "l2 = l1" "w2 = w1" using walked(3) \<open>wk_drag_held w1 = False\<close> by (auto simp: drag_repair_def)
    then show ?thesis
      using walked(4,7) same \<open>stopped = EndCancelled\<close> wire
      by (simp add: settle_walk_def lost_state_def walk_gaps_def left_over_def wire_held_def nothing_held_def)
  qed
qed

theorem cancelled_click_holds_modifier_witness:
  "\<exists>plan st l'. actuate sample_limb (sample_intent (Click (point_at 10 10) BtnLeft 2 [key ''ControlLeft'' 0xFFE3 0x1D])) plan True 5
       (cancelled_between sample_limb) (roomy sample_limb) sample_driven = (st, l') \<and>
     (0xFFE3, Some 0x1D) \<in> hl_keys (wire_held 0 l')"
proof -
  let ?k = "key ''ControlLeft'' 0xFFE3 0x1D"
  let ?i = "sample_intent (Click (point_at 10 10) BtnLeft 2 [?k])"
  obtain plan where p: "lower ?i (ls_ctx sample_driven) = Inr (Commands plan)"
    by (simp add: lower_def lower_click_def agent_samples pointer_limb_def ctx_admits_def point_at_def Let_def)
  obtain st l' where a: "actuate sample_limb ?i plan True 5 (cancelled_between sample_limb) (roomy sample_limb) sample_driven = (st, l')"
    by fastforce
  have k: "ai_kind ?i = Click (point_at 10 10) BtnLeft 2 [?k]" by (simp add: sample_intent_def)
  have l: "fence (ls_lease sample_driven) (ai_grant ?i) = Allowed" "ls_running sample_driven = []"
      "lc_double_click_gap (ls_ctx sample_driven) \<noteq> 0"
    by (simp_all add: agent_samples fence_def holder_is_def)
  have "event_of ?k \<in> hl_keys (wire_held 0 l')" using cancelled_click_holds_modifier [OF k p l a, of 0] by blast
  then show ?thesis using a by (auto simp: event_of_def key_def)
qed

end
