(* ===== verification/Codec_Base.thy ===== *)
theory Codec_Base
  imports Byte_Order
begin

text \<open>
  What the bitmap codecs of \<open>crates/rdp-codecs\<close> share: the one error type (\<open>lib.rs\<close>) and the
  forward cursor over a payload (\<open>reader.rs\<close>), which the crate has of its own. A read returns the
  advanced cursor with its value, and the cursor stays where it was when the read fails.
\<close>

datatype decode_error =
    Truncated string
  | Range string u32
  | Dst nat nat
  | Budget string
  | StateLost string

record codec_reader =
  cr_buf :: bytes
  cr_pos :: nat
  cr_what :: string

type_synonym 'a cr = "codec_reader \<Rightarrow> decode_error + 'a \<times> codec_reader"

definition cr_new :: "bytes \<Rightarrow> string \<Rightarrow> codec_reader" where
  "cr_new buf what = \<lparr>cr_buf = buf, cr_pos = 0, cr_what = what\<rparr>"

definition cr_remaining :: "codec_reader \<Rightarrow> nat" where
  "cr_remaining r = length (cr_buf r) - cr_pos r"

definition cr_is_empty :: "codec_reader \<Rightarrow> bool" where
  "cr_is_empty r \<longleftrightarrow> cr_remaining r = 0"

definition cr_u8 :: "u8 cr" where
  "cr_u8 r =
     (if cr_pos r < length (cr_buf r) then Inr (cr_buf r ! cr_pos r, r\<lparr>cr_pos := cr_pos r + 1\<rparr>)
      else Inl (Truncated (cr_what r)))"

text \<open>The end of the slice is a \<open>checked_add\<close>, so a count near the top of the address range fails too.\<close>

definition cr_take :: "nat \<Rightarrow> bytes cr" where
  "cr_take n r =
     (let e = cr_pos r + n in
      if 2 ^ 64 \<le> e then Inl (Truncated (cr_what r))
      else if length (cr_buf r) < e then Inl (Truncated (cr_what r))
      else Inr (take (e - cr_pos r) (drop (cr_pos r) (cr_buf r)), r\<lparr>cr_pos := e\<rparr>))"

definition cr_u16_le :: "u16 cr" where
  "cr_u16_le r = bind_res (cr_take 2 r) (\<lambda>(s, r'). Inr (from_le_bytes s, r'))"

definition cr_u32_le :: "u32 cr" where
  "cr_u32_le r = bind_res (cr_take 4 r) (\<lambda>(s, r'). Inr (from_le_bytes s, r'))"

subsection \<open>What a read returns\<close>

definition cr_left :: "codec_reader \<Rightarrow> bytes" where
  "cr_left r = drop (cr_pos r) (cr_buf r)"

definition cr_ok :: "codec_reader \<Rightarrow> bool" where
  "cr_ok r \<longleftrightarrow> cr_pos r \<le> length (cr_buf r) \<and> length (cr_buf r) < 2 ^ 63"

definition cr_advance :: "nat \<Rightarrow> codec_reader \<Rightarrow> codec_reader" where
  "cr_advance n r = r\<lparr>cr_pos := cr_pos r + n\<rparr>"

lemma cr_new_simps [simp]:
  "cr_left (cr_new buf what) = buf" "cr_ok (cr_new buf what) \<longleftrightarrow> length buf < 2 ^ 63"
  "cr_what (cr_new buf what) = what"
  by (simp_all add: cr_left_def cr_new_def cr_ok_def)

lemma length_cr_left [simp]: "length (cr_left r) = cr_remaining r"
  by (simp add: cr_left_def cr_remaining_def)

lemma cr_advance_simps [simp]:
  "cr_left (cr_advance n r) = drop n (cr_left r)"
  "cr_what (cr_advance n r) = cr_what r"
  "cr_remaining (cr_advance n r) = cr_remaining r - n"
  "cr_ok r \<Longrightarrow> n \<le> cr_remaining r \<Longrightarrow> cr_ok (cr_advance n r)"
  by (auto simp: cr_advance_def cr_left_def cr_ok_def cr_remaining_def add.commute)

lemma cr_take_spec:
  assumes "cr_ok r"
  shows "cr_take n r = (if n \<le> cr_remaining r then Inr (take n (cr_left r), cr_advance n r)
     else Inl (Truncated (cr_what r)))"
  using assms by (auto simp: cr_take_def cr_ok_def cr_left_def cr_remaining_def cr_advance_def Let_def)

lemma cr_u8_spec:
  assumes "cr_ok r"
  shows "cr_u8 r = (case cr_left r of b # _ \<Rightarrow> Inr (b, cr_advance 1 r) | [] \<Rightarrow> Inl (Truncated (cr_what r)))"
  using assms by (auto simp: cr_u8_def cr_ok_def cr_left_def cr_advance_def hd_drop_conv_nth [symmetric] split: list.split
      dest: arg_cong [of _ _ hd])

lemma cr_read_le:
  assumes "cr_ok r" and "cr_left r = to_le_bytes (v :: 'a::len word) @ post" and "8 dvd LENGTH('a)"
  shows "bind_res (cr_take (LENGTH('a) div 8) r) (\<lambda>(s, r'). Inr (from_le_bytes s :: 'a word, r')) =
    Inr (v, cr_advance (LENGTH('a) div 8) r)"
proof -
  have "cr_remaining r = LENGTH('a) div 8 + length post"
    using assms(2) by (metis length_append length_cr_left length_to_bytes(1))
  then show ?thesis using assms by (simp add: cr_take_spec)
qed

lemma cr_u16_read: "cr_ok r \<Longrightarrow> cr_left r = to_le_bytes v @ post \<Longrightarrow> cr_u16_le r = Inr (v, cr_advance 2 r)"
  using cr_read_le [of r v post] by (simp add: cr_u16_le_def)

lemma cr_u32_read: "cr_ok r \<Longrightarrow> cr_left r = to_le_bytes v @ post \<Longrightarrow> cr_u32_le r = Inr (v, cr_advance 4 r)"
  using cr_read_le [of r v post] by (simp add: cr_u32_le_def)

section \<open>Bits\<close>

text \<open>
  Bit strings, most significant bit first, and the numbers they spell: what the bit readers of
  the codecs read and their encoders write. A byte string is the bit string of its bytes.
\<close>

unbundle bit_operations_syntax

definition to_bits :: "nat \<Rightarrow> 'a::semiring_bit_operations \<Rightarrow> bool list" where
  "to_bits k v = map (\<lambda>i. bit v (k - Suc i)) [0..<k]"

definition of_bits :: "bool list \<Rightarrow> 'a::semiring_bit_operations" where
  "of_bits bs = horner_sum of_bool 2 (rev bs)"

definition bits_of_bytes :: "bytes \<Rightarrow> bool list" where
  "bits_of_bytes bs = concat (map (to_bits 8) bs)"

lemma length_to_bits [simp]: "length (to_bits k v) = k"
  by (simp add: to_bits_def)

lemma nth_to_bits: "i < k \<Longrightarrow> to_bits k v ! i = bit v (k - Suc i)"
  by (simp add: to_bits_def)

lemma to_bits_0 [simp]: "to_bits 0 v = []"
  by (simp add: to_bits_def)

lemma bit_of_bits_word [bit_simps]:
  "bit (of_bits bs :: 'a::len word) i \<longleftrightarrow> i < LENGTH('a) \<and> i < length bs \<and> bs ! (length bs - Suc i)"
  by (auto simp: of_bits_def bit_horner_sum_bit_iff rev_nth bit_imp_le_length)

lemma bit_of_bits_nat [bit_simps]:
  "bit (of_bits bs :: nat) i \<longleftrightarrow> i < length bs \<and> bs ! (length bs - Suc i)"
  by (auto simp: of_bits_def bit_horner_sum_bit_iff rev_nth)

lemma of_to_bits_word: "of_bits (to_bits k v) = (take_bit k v :: 'a::len word)"
  by (rule bit_word_eqI) (auto simp: bit_simps nth_to_bits)

lemma of_to_bits_nat: "of_bits (to_bits k v) = (take_bit k v :: nat)"
  by (rule bit_eqI) (auto simp: bit_simps nth_to_bits)

lemma of_bits_less: "of_bits bs < (2 :: nat) ^ length bs"
proof -
  have "take_bit (length bs) (of_bits bs :: nat) = of_bits bs"
    by (rule bit_eqI) (auto simp: bit_simps)
  then show ?thesis by (simp add: take_bit_nat_eq_self_iff)
qed

lemma unat_of_bits: "length bs \<le> LENGTH('a::len) \<Longrightarrow> unat (of_bits bs :: 'a word) = of_bits bs"
  by (rule bit_eqI) (auto simp: bit_simps bit_unsigned_iff)

lemma to_bits_Suc: "to_bits (Suc k) v = bit v k # to_bits k v"
  by (rule nth_equalityI) (auto simp: nth_to_bits nth_Cons split: nat.split)

lemma to_of_bits_nat: "to_bits (length bs) (of_bits bs :: nat) = bs"
  by (rule nth_equalityI) (auto simp: nth_to_bits bit_simps)

lemma to_of_bits_word: "length bs \<le> LENGTH('a::len) \<Longrightarrow> to_bits (length bs) (of_bits bs :: 'a word) = bs"
  by (rule nth_equalityI) (auto simp: nth_to_bits bit_simps)

lemma of_bits_Nil [simp]: "of_bits [] = 0"
  by (simp add: of_bits_def)

lemma length_bits_of_bytes [simp]: "length (bits_of_bytes bs) = 8 * length bs"
  by (induction bs) (simp_all add: bits_of_bytes_def)

lemma bits_of_bytes_simps [simp]:
  "bits_of_bytes [] = []"
  "bits_of_bytes (b # bs) = to_bits 8 b @ bits_of_bytes bs"
  "bits_of_bytes (bs @ cs) = bits_of_bytes bs @ bits_of_bytes cs"
  by (simp_all add: bits_of_bytes_def)

lemma nth_bits_of_bytes:
  "i < 8 * length bs \<Longrightarrow> bits_of_bytes bs ! i = bit (bs ! (i div 8)) (7 - i mod 8)"
proof (induction bs arbitrary: i)
  case (Cons b bs)
  show ?case
  proof (cases "i < 8")
    case True
    then show ?thesis by (simp add: nth_append nth_to_bits)
  next
    case False
    then have "(i - 8) div 8 = i div 8 - 1" and "(i - 8) mod 8 = i mod 8" and "i div 8 \<noteq> 0"
      by (simp_all add: le_div_geq le_mod_geq)
    with False Cons show ?thesis by (simp add: nth_append nth_Cons split: nat.split)
  qed
qed simp

lemma drop_bits_of_bytes: "drop (8 * n) (bits_of_bytes bs) = bits_of_bytes (drop n bs)"
proof (induction n arbitrary: bs)
  case (Suc n)
  then show ?case by (cases bs) simp_all
qed simp

lemma take_bits_of_bytes: "take (8 * n) (bits_of_bytes bs) = bits_of_bytes (take n bs)"
proof (induction n arbitrary: bs)
  case (Suc n)
  then show ?case by (cases bs) simp_all
qed simp

lemma bits_of_bytes_inj: "bits_of_bytes bs = bits_of_bytes cs \<Longrightarrow> bs = cs"
proof (induction bs arbitrary: cs)
  case Nil
  then show ?case by (cases cs) (auto dest: arg_cong [of _ _ length])
next
  case (Cons b bs)
  then obtain c cs' where cs: "cs = c # cs'"
    by (cases cs) (auto dest: arg_cong [of _ _ length])
  with Cons.prems have "to_bits 8 b = to_bits 8 c" and "bits_of_bytes bs = bits_of_bytes cs'"
    by simp_all
  moreover from this(1) have "(of_bits (to_bits 8 b) :: u8) = of_bits (to_bits 8 c)" by simp
  then have "b = c" by (simp add: of_to_bits_word take_bit_length_eq [where 'a = 8, simplified])
  ultimately show ?case using Cons.IH cs by simp
qed

end
