(* ===== verification/Zgfx.thy ===== *)
theory Zgfx
  imports Codec_Base
begin

text \<open>
  The RDP 8.0 bulk decompressor (\<open>crates/rdp-codecs/src/zgfx.rs\<close>): the token table and its
  flat lookup table, the bit reader with its budget, and the decompressor with its history ring.
  A \<open>&mut self\<close> method that also fills a \<open>&mut Vec\<close> takes and returns the pair of both, and the
  pair is returned next to an error too, because the source keeps what was written before it.
  Additions of \<open>u32\<close> wrap, as they do in the release profile of the workspace.
\<close>

unbundle bit_operations_syntax

subsection \<open>The token table\<close>

definition SINGLE :: u8 where "SINGLE = 0xE0"
definition MULTIPART :: u8 where "MULTIPART = 0xE1"
definition COMPR_TYPE_RDP8 :: u8 where "COMPR_TYPE_RDP8 = 0x04"
definition PACKET_COMPRESSED :: u8 where "PACKET_COMPRESSED = 0x20"
definition HISTORY :: nat where "HISTORY = 2500000"
definition MAX_EGFX_MESSAGE :: nat where "MAX_EGFX_MESSAGE = 64 * 1024 * 1024"

record token =
  tk_len :: nat
  tk_code :: nat
  tk_value_bits :: nat
  tk_is_match :: bool
  tk_value_base :: u32

definition lit :: "nat \<Rightarrow> nat \<Rightarrow> nat \<Rightarrow> u32 \<Rightarrow> token" where
  "lit len code value_bits value_base =
     \<lparr>tk_len = len, tk_code = code, tk_value_bits = value_bits, tk_is_match = False,
      tk_value_base = value_base\<rparr>"

definition mat :: "nat \<Rightarrow> nat \<Rightarrow> nat \<Rightarrow> u32 \<Rightarrow> token" where
  "mat len code value_bits value_base =
     \<lparr>tk_len = len, tk_code = code, tk_value_bits = value_bits, tk_is_match = True,
      tk_value_base = value_base\<rparr>"

definition TOKENS :: "token list" where
  "TOKENS = [
    lit 1 0b0 8 0,
    mat 5 0b10001 5 0,
    mat 5 0b10010 7 32,
    mat 5 0b10011 9 160,
    mat 5 0b10100 10 672,
    mat 5 0b10101 12 1696,
    lit 5 0b11000 0 0x00,
    lit 5 0b11001 0 0x01,
    mat 6 0b101100 14 5792,
    mat 6 0b101101 15 22176,
    lit 6 0b110100 0 0x02,
    lit 6 0b110101 0 0x03,
    lit 6 0b110110 0 0xFF,
    mat 7 0b1011100 18 54944,
    mat 7 0b1011101 20 317088,
    lit 7 0b1101110 0 0x04,
    lit 7 0b1101111 0 0x05,
    lit 7 0b1110000 0 0x06,
    lit 7 0b1110001 0 0x07,
    lit 7 0b1110010 0 0x08,
    lit 7 0b1110011 0 0x09,
    lit 7 0b1110100 0 0x0A,
    lit 7 0b1110101 0 0x0B,
    lit 7 0b1110110 0 0x3A,
    lit 7 0b1110111 0 0x3B,
    lit 7 0b1111000 0 0x3C,
    lit 7 0b1111001 0 0x3D,
    lit 7 0b1111010 0 0x3E,
    lit 7 0b1111011 0 0x3F,
    lit 7 0b1111100 0 0x40,
    lit 7 0b1111101 0 0x80,
    mat 8 0b10111100 24 1365664,
    mat 8 0b10111101 32 18142880,
    lit 8 0b11111100 0 0x0C,
    lit 8 0b11111101 0 0x38,
    lit 8 0b11111110 0 0x39,
    lit 8 0b11111111 0 0x66]"

definition LUT_BITS :: nat where "LUT_BITS = 9"
definition NO_TOKEN :: u8 where "NO_TOKEN = 0xFF"

text \<open>The two counting loops of the \<open>const fn\<close>: over the tokens, and over the indices of one prefix.\<close>

definition claim :: "nat \<times> token \<Rightarrow> u8 list \<Rightarrow> u8 list" where
  "claim x lut =
     (let t = snd x; shift = LUT_BITS - tk_len t; start = push_bit shift (tk_code t);
          e = start + push_bit shift 1
      in fold (\<lambda>v lut. lut[v := of_nat (fst x)]) [start..<e] lut)"

definition build_lut :: "u8 list" where
  "build_lut = fold claim (zip [0..<length TOKENS] TOKENS) (replicate (2 ^ LUT_BITS) NO_TOKEN)"

definition LUT :: "u8 list" where "LUT = build_lut"

subsection \<open>The bit reader\<close>

record zbits =
  zb_src :: bytes
  zb_next :: nat
  zb_acc :: u64
  zb_n :: nat
  zb_consumed :: nat
  zb_total :: nat

definition zbits_new :: "bytes \<Rightarrow> nat \<Rightarrow> zbits" where
  "zbits_new src tot =
     \<lparr>zb_src = src, zb_next = 0, zb_acc = 0, zb_n = 0, zb_consumed = 0, zb_total = tot\<rparr>"

definition zb_left :: "zbits \<Rightarrow> nat" where
  "zb_left b = zb_total b - zb_consumed b"

text \<open>One round of the \<open>while\<close> of \<open>refill\<close>: the next byte, or a zero past the end.\<close>

definition refill_byte :: "zbits \<Rightarrow> zbits" where
  "refill_byte b =
     (let (x, next') = (if zb_next b < length (zb_src b)
                        then (zb_src b ! zb_next b, zb_next b + 1) else (0, zb_next b))
      in b\<lparr>zb_next := next', zb_acc := push_bit 8 (zb_acc b) OR ucast x, zb_n := zb_n b + 8\<rparr>)"

lemma refill_byte_n [simp]: "zb_n (refill_byte b) = zb_n b + 8"
  by (simp add: refill_byte_def)

function refill :: "zbits \<Rightarrow> zbits" where
  "refill b = (if zb_n b \<le> 32 then refill (refill_byte b) else b)"
  by pat_completeness auto
termination by (relation "measure (\<lambda>b. 33 - zb_n b)") auto

declare refill.simps [simp del]

definition zb_bits :: "nat \<Rightarrow> zbits \<Rightarrow> decode_error + u32 \<times> zbits" where
  "zb_bits k b =
     (if k = 0 then Inr (0, b)
      else if zb_left b < k then Inl (Truncated ''zgfx bitstream'')
      else
        let b1 = refill b;
            v = drop_bit (zb_n b1 - k) (zb_acc b1) AND (push_bit k 1 - 1)
        in Inr (ucast v, b1\<lparr>zb_n := zb_n b1 - k, zb_consumed := zb_consumed b1 + k\<rparr>))"

definition zb_bit :: "zbits \<Rightarrow> decode_error + u32 \<times> zbits" where
  "zb_bit b = zb_bits 1 b"

text \<open>
  The source narrows \<open>left()\<close> to 32 bits before the minimum, which differs from this only with \<open>2 ^ 32\<close> bits left, a
  segment of 512 MiB.
\<close>

definition peek9 :: "zbits \<Rightarrow> u32 \<times> zbits" where
  "peek9 b =
     (let b1 = refill b; have = min (zb_left b1) LUT_BITS;
          v = drop_bit (zb_n b1 - have) (zb_acc b1) AND (push_bit have 1 - 1)
      in (push_bit (LUT_BITS - have) (ucast v), b1))"

definition zb_align :: "zbits \<Rightarrow> decode_error + zbits" where
  "zb_align b =
     (let r = zb_consumed b mod 8
      in if r \<noteq> 0 then bind_res (zb_bits (8 - r) b) (\<lambda>(_, b'). Inr b') else Inr b)"

definition zb_bytes :: "nat \<Rightarrow> zbits \<Rightarrow> decode_error + bytes \<times> zbits" where
  "zb_bytes count b =
     (if zb_left b < count * 8 then Inl (Truncated ''zgfx unencoded run'')
      else
        let at = zb_consumed b div 8
        in if length (zb_src b) < at + count then Inl (Truncated ''zgfx unencoded run'')
           else Inr (take count (drop at (zb_src b)),
             b\<lparr>zb_consumed := zb_consumed b + count * 8, zb_next := at + count, zb_acc := 0, zb_n := 0\<rparr>))"

subsection \<open>The decompressor\<close>

record rdp8 =
  history :: bytes
  rdp8_pos :: nat

type_synonym rdp8_out = "rdp8 \<times> bytes"

definition rdp8_new :: rdp8 where
  "rdp8_new = \<lparr>history = replicate HISTORY 0, rdp8_pos = 0\<rparr>"

definition rdp8_reset :: "rdp8 \<Rightarrow> rdp8" where
  "rdp8_reset d = d\<lparr>history := replicate (length (history d)) 0, rdp8_pos := 0\<rparr>"

definition rdp8_bytes :: "rdp8 \<Rightarrow> nat" where
  "rdp8_bytes d = length (history d)"

definition rdp8_push :: "u8 \<Rightarrow> rdp8_out \<Rightarrow> rdp8_out" where
  "rdp8_push x s =
     (let d = fst s; p = rdp8_pos d + 1
      in (d\<lparr>history := (history d)[rdp8_pos d := x], rdp8_pos := (if p = HISTORY then 0 else p)\<rparr>,
          snd s @ [x]))"

text \<open>The longest prefix match: the token's index, with its prefix consumed.\<close>

definition next_token :: "zbits \<Rightarrow> decode_error + nat \<times> zbits" where
  "next_token b =
     (let (v, b1) = peek9 b; idx = LUT ! unat v
      in if idx = NO_TOKEN then Inl (Range ''zgfx token prefix'' (fst (peek9 b1)))
         else bind_res (zb_bits (tk_len (TOKENS ! unat idx)) b1) (\<lambda>(_, b2). Inr (unat idx, b2)))"

text \<open>The unary part of the length code.\<close>

function length_width :: "nat \<Rightarrow> zbits \<Rightarrow> decode_error + nat \<times> zbits" where
  "length_width extra b =
     bind_res (zb_bit b) (\<lambda>(x, b1).
       if x = 1 then
         (if 30 < extra + 1 then Inl (Range ''zgfx match length'' (of_nat (extra + 1)))
          else length_width (extra + 1) b1)
       else Inr (extra, b1))"
  by pat_completeness auto
termination by (relation "measure (\<lambda>(extra, b). 31 - extra)") auto

declare length_width.simps [simp del]

definition match_length :: "zbits \<Rightarrow> decode_error + nat \<times> zbits" where
  "match_length b =
     bind_res (zb_bit b) (\<lambda>(x, b1).
       if x = 0 then Inr (3, b1)
       else bind_res (length_width 2 b1) (\<lambda>(extra, b2).
         bind_res (zb_bits extra b2) (\<lambda>(v, b3). Inr (unat v + 2 ^ extra, b3))))"

text \<open>The byte at a time copy out of the ring.\<close>

fun copy_match :: "nat \<Rightarrow> nat \<Rightarrow> rdp8_out \<Rightarrow> rdp8_out" where
  "copy_match 0 at s = s"
| "copy_match (Suc n) at s =
     copy_match n (if at + 1 = HISTORY then 0 else at + 1) (rdp8_push (history (fst s) ! at) s)"

text \<open>One round of the \<open>while\<close> of \<open>segment\<close>, in the three cases of the source.\<close>

definition seg_literal :: "token \<Rightarrow> zbits \<Rightarrow> rdp8_out \<Rightarrow> rdp8_out \<times> (decode_error + zbits)" where
  "seg_literal t b s =
     (case (if tk_value_bits t = 0 then Inr (ucast (tk_value_base t), b)
            else bind_res (zb_bits (tk_value_bits t) b) (\<lambda>(v, b1). Inr (ucast v, b1))) of
        Inl e \<Rightarrow> (s, Inl e)
      | Inr (x, b1) \<Rightarrow>
          if MAX_EGFX_MESSAGE \<le> length (snd s) then (s, Inl (Budget ''zgfx output''))
          else (rdp8_push x s, Inr b1))"

definition seg_run :: "zbits \<Rightarrow> rdp8_out \<Rightarrow> rdp8_out \<times> (decode_error + zbits)" where
  "seg_run b s =
     (case bind_res (zb_bits 15 b) (\<lambda>(count, b1).
             bind_res (zb_align b1) (\<lambda>b2. zb_bytes (unat count) b2)) of
        Inl e \<Rightarrow> (s, Inl e)
      | Inr (run, b3) \<Rightarrow>
          if MAX_EGFX_MESSAGE < length (snd s) + length run then (s, Inl (Budget ''zgfx output''))
          else (fold rdp8_push run s, Inr b3))"

definition seg_copy :: "nat \<Rightarrow> zbits \<Rightarrow> rdp8_out \<Rightarrow> rdp8_out \<times> (decode_error + zbits)" where
  "seg_copy distance b s =
     (case match_length b of
        Inl e \<Rightarrow> (s, Inl e)
      | Inr (len, b1) \<Rightarrow>
          if HISTORY < distance then (s, Inl (Range ''zgfx match distance'' (of_nat distance)))
          else if MAX_EGFX_MESSAGE < length (snd s) + len then (s, Inl (Budget ''zgfx output''))
          else (copy_match len ((rdp8_pos (fst s) + HISTORY - distance) mod HISTORY) s, Inr b1))"

definition seg_step :: "zbits \<Rightarrow> rdp8_out \<Rightarrow> rdp8_out \<times> (decode_error + zbits)" where
  "seg_step b s =
     (case next_token b of
        Inl e \<Rightarrow> (s, Inl e)
      | Inr (i, b1) \<Rightarrow>
          let t = TOKENS ! i in
          if \<not> tk_is_match t then seg_literal t b1 s
          else
            (case zb_bits (tk_value_bits t) b1 of
               Inl e \<Rightarrow> (s, Inl e)
             | Inr (v, b2) \<Rightarrow>
                 let distance = tk_value_base t + v in
                 if distance = 0 then seg_run b2 s else seg_copy (unat distance) b2 s))"

subsection \<open>Every round consumes\<close>

lemma refill_frame:
  "zb_src (refill b) = zb_src b \<and> zb_consumed (refill b) = zb_consumed b \<and> zb_total (refill b) = zb_total b"
proof (induction b rule: refill.induct)
  case (1 b)
  have "zb_src (refill_byte b) = zb_src b" "zb_consumed (refill_byte b) = zb_consumed b"
    "zb_total (refill_byte b) = zb_total b" by (simp_all add: refill_byte_def Let_def)
  with 1 show ?case by (cases "zb_n b \<le> 32") (simp_all add: refill.simps [of b])
qed

lemma refill_fields [simp]:
  "zb_src (refill b) = zb_src b" "zb_consumed (refill b) = zb_consumed b" "zb_total (refill b) = zb_total b"
  using refill_frame by simp_all

lemma zb_left_refill [simp]: "zb_left (refill b) = zb_left b"
  by (simp add: zb_left_def)

lemma zb_bits_left: "zb_bits k b = Inr (v, b') \<Longrightarrow> k \<le> zb_left b \<and> zb_left b' = zb_left b - k"
  by (auto simp: zb_bits_def zb_left_def Let_def split: if_splits)

lemma zb_align_left: "zb_align b = Inr b' \<Longrightarrow> zb_left b' \<le> zb_left b"
  by (auto simp: zb_align_def Let_def res_simps dest: zb_bits_left split: if_splits)

lemma zb_bytes_left: "zb_bytes n b = Inr (run, b') \<Longrightarrow> zb_left b' \<le> zb_left b"
  by (auto simp: zb_bytes_def zb_left_def Let_def split: if_splits)

lemma length_width_left: "length_width extra b = Inr (w, b') \<Longrightarrow> zb_left b' \<le> zb_left b"
proof (induction extra b rule: length_width.induct)
  case (1 extra b)
  from 1(2) obtain x b1 where b: "zb_bit b = Inr (x, b1)" by (auto simp: length_width.simps [of extra] res_simps)
  then have le: "zb_left b1 \<le> zb_left b" by (auto simp: zb_bit_def dest: zb_bits_left)
  show ?case
  proof (cases "x = 1")
    case True
    with 1(2) b have "\<not> 30 < extra + 1" and "length_width (extra + 1) b1 = Inr (w, b')"
      by (auto simp: length_width.simps [of extra] split: if_splits)
    with 1(1) [OF b _ True] le show ?thesis by fastforce
  next
    case False
    with 1(2) b le show ?thesis by (auto simp: length_width.simps [of extra])
  qed
qed

lemma match_length_left: "match_length b = Inr (n, b') \<Longrightarrow> zb_left b' \<le> zb_left b"
  by (fastforce simp: match_length_def zb_bit_def res_simps split: if_splits
      dest: zb_bits_left length_width_left)

end
