(* ===== verification/Zgfx_Bits.thy ===== *)
theory Zgfx_Bits
  imports Zgfx "HOL-Library.Sublist"
begin

text \<open>
  The bit reader of \<open>zgfx.rs\<close> refines a list of bits: a well formed reader stands for the bits
  of its source from the cursor to the end of its budget, and every read takes a prefix of them.
  The lookup table finds the one token whose code is a prefix of what is left.
\<close>

unbundle bit_operations_syntax

subsection \<open>The bits a reader stands for\<close>

definition src_bit :: "bytes \<Rightarrow> nat \<Rightarrow> bool" where
  "src_bit src i \<longleftrightarrow> i < 8 * length src \<and> bits_of_bytes src ! i"

definition zb_stream :: "zbits \<Rightarrow> bool list" where
  "zb_stream b = take (zb_left b) (drop (zb_consumed b) (bits_of_bytes (zb_src b)))"

text \<open>
  The window \<open>acc\<close> holds the \<open>n\<close> bits after the cursor; it ends on a byte, at the next byte to
  load unless the source is used up.
\<close>

definition zb_ok :: "zbits \<Rightarrow> bool" where
  "zb_ok b \<longleftrightarrow> zb_n b \<le> 40 \<and> zb_consumed b \<le> zb_total b \<and> zb_total b \<le> 8 * length (zb_src b) \<and>
     zb_next b \<le> length (zb_src b) \<and>
     (if zb_next b < length (zb_src b) then zb_consumed b + zb_n b = 8 * zb_next b
      else 8 * length (zb_src b) \<le> zb_consumed b + zb_n b) \<and>
     (\<forall>j<zb_n b. bit (zb_acc b) (zb_n b - Suc j) = src_bit (zb_src b) (zb_consumed b + j))"

lemma zb_ok_bit:
  "zb_ok b \<Longrightarrow> j < zb_n b \<Longrightarrow> bit (zb_acc b) (zb_n b - Suc j) = src_bit (zb_src b) (zb_consumed b + j)"
  by (simp add: zb_ok_def)

lemma length_zb_stream: "zb_ok b \<Longrightarrow> length (zb_stream b) = zb_left b"
  by (auto simp: zb_stream_def zb_left_def zb_ok_def)

lemma nth_zb_stream: "zb_ok b \<Longrightarrow> i < zb_left b \<Longrightarrow> zb_stream b ! i = src_bit (zb_src b) (zb_consumed b + i)"
  by (auto simp: zb_stream_def zb_left_def zb_ok_def src_bit_def)

lemma zbits_new_ok: "tot \<le> 8 * length src \<Longrightarrow> zb_ok (zbits_new src tot)"
  by (auto simp: zbits_new_def zb_ok_def)

lemma zbits_new_stream: "zb_stream (zbits_new src tot) = take tot (bits_of_bytes src)"
  by (simp add: zbits_new_def zb_stream_def zb_left_def)

lemma src_bit_byte:
  "j < 8 \<Longrightarrow> src_bit src (8 * i + j) \<longleftrightarrow> i < length src \<and> bit (src ! i) (7 - j)"
  by (auto simp: src_bit_def nth_bits_of_bytes)

lemma refill_byte_ok:
  assumes "zb_ok b" and "zb_n b \<le> 32"
  shows "zb_ok (refill_byte b)"
proof -
  define x where "x = (if zb_next b < length (zb_src b) then zb_src b ! zb_next b else 0)"
  define acc where "acc = push_bit 8 (zb_acc b) OR (ucast x :: u64)"
  have r: "refill_byte b = b\<lparr>zb_next := (if zb_next b < length (zb_src b) then zb_next b + 1 else zb_next b),
      zb_acc := acc, zb_n := zb_n b + 8\<rparr>"
    by (simp add: refill_byte_def x_def acc_def)
  have "bit acc (zb_n b + 8 - Suc j) = src_bit (zb_src b) (zb_consumed b + j)" if j: "j < zb_n b + 8" for j
  proof (cases "j < zb_n b")
    case True
    then have "bit acc (zb_n b + 8 - Suc j) = bit (zb_acc b) (zb_n b - Suc j)"
      using assms(2) by (auto simp: acc_def bit_simps bit_unsigned_iff dest: bit_imp_le_length)
    with True assms(1) show ?thesis by (simp add: zb_ok_def)
  next
    case False
    define m where "m = j - zb_n b"
    have m: "m < 8" "j = zb_n b + m" using False j by (simp_all add: m_def)
    have "bit acc (zb_n b + 8 - Suc j) = bit x (7 - m)"
      using m by (auto simp: acc_def bit_simps bit_unsigned_iff)
    also have "\<dots> = src_bit (zb_src b) (zb_consumed b + j)"
    proof (cases "zb_next b < length (zb_src b)")
      case True
      then have "zb_consumed b + j = 8 * zb_next b + m" using assms(1) m by (simp add: zb_ok_def)
      with True m(1) show ?thesis by (simp only: src_bit_byte x_def if_True simp_thms)
    next
      case False
      then have "8 * length (zb_src b) \<le> zb_consumed b + j" using assms(1) m by (simp add: zb_ok_def)
      with False show ?thesis by (simp add: src_bit_def x_def)
    qed
    finally show ?thesis .
  qed
  then show ?thesis using assms by (auto simp: zb_ok_def r)
qed

lemma refill_full: "32 < zb_n (refill b)"
proof (induction b rule: refill.induct)
  case (1 b)
  then show ?case by (cases "zb_n b \<le> 32") (simp_all add: refill.simps [of b])
qed

lemma refill_ok: "zb_ok b \<Longrightarrow> zb_ok (refill b)"
proof (induction b rule: refill.induct)
  case (1 b)
  then show ?case by (cases "zb_n b \<le> 32") (simp_all add: refill.simps [of b] refill_byte_ok)
qed

lemma zb_stream_refill [simp]: "zb_stream (refill b) = zb_stream b"
  by (simp add: zb_stream_def)

text \<open>The top \<open>k\<close> bits of a full window are the next bits of the source.\<close>

lemma window_bits:
  assumes "zb_ok b" and "k \<le> zb_n b" and "k \<le> zb_left b"
  shows "drop_bit (zb_n b - k) (zb_acc b) AND (push_bit k 1 - 1) = of_bits (take k (zb_stream b))"
proof (rule bit_word_eqI)
  fix i assume i: "i < LENGTH(64)"
  have len: "length (take k (zb_stream b)) = k" using assms(1,3) by (simp add: length_zb_stream)
  have mask: "push_bit k 1 - 1 = (mask k :: u64)" by (simp add: mask_eq_exp_minus_1 push_bit_eq_mult)
  show "bit (drop_bit (zb_n b - k) (zb_acc b) AND (push_bit k 1 - 1)) i =
      bit (of_bits (take k (zb_stream b)) :: u64) i"
  proof (cases "i < k")
    case True
    have "bit (zb_acc b) (zb_n b - Suc (k - Suc i)) = src_bit (zb_src b) (zb_consumed b + (k - Suc i))"
      using zb_ok_bit [OF assms(1), of "k - Suc i"] assms(2) True by simp
    moreover have "zb_n b - Suc (k - Suc i) = zb_n b - k + i" using True assms(2) by simp
    moreover have "zb_stream b ! (k - Suc i) = src_bit (zb_src b) (zb_consumed b + (k - Suc i))"
      using True assms(1,3) by (simp add: nth_zb_stream)
    ultimately show ?thesis using True i len unfolding mask by (simp add: bit_simps)
  next
    case False
    then show ?thesis using len unfolding mask by (simp add: bit_simps)
  qed
qed

lemma advance_ok:
  assumes "zb_ok b" and "k \<le> zb_n b" and "k \<le> zb_left b"
  shows "zb_ok (b\<lparr>zb_n := zb_n b - k, zb_consumed := zb_consumed b + k\<rparr>)"
proof -
  have "bit (zb_acc b) (zb_n b - k - Suc j) = src_bit (zb_src b) (zb_consumed b + k + j)"
    if "j < zb_n b - k" for j
  proof -
    have "bit (zb_acc b) (zb_n b - Suc (k + j)) = src_bit (zb_src b) (zb_consumed b + (k + j))"
      using assms(1) that by (auto simp: zb_ok_def)
    then show ?thesis by (simp add: add.assoc diff_diff_eq)
  qed
  then show ?thesis using assms by (auto simp: zb_ok_def zb_left_def)
qed

subsection \<open>Every read takes a prefix\<close>

definition takes :: "nat \<Rightarrow> zbits \<Rightarrow> zbits \<Rightarrow> bool" where
  "takes k b b' \<longleftrightarrow> zb_ok b' \<and> k \<le> length (zb_stream b) \<and> zb_stream b' = drop k (zb_stream b) \<and>
     zb_consumed b' = zb_consumed b + k \<and> zb_src b' = zb_src b \<and> zb_total b' = zb_total b"

lemma takes_trans: "takes k b b1 \<Longrightarrow> takes m b1 b2 \<Longrightarrow> takes (k + m) b b2"
  by (auto simp: takes_def add.commute)

lemma takes_refl: "zb_ok b \<Longrightarrow> takes 0 b b"
  by (simp add: takes_def)

lemma takes_refill: "zb_ok b \<Longrightarrow> takes 0 b (refill b)"
  by (simp add: takes_def refill_ok)

lemma takes_ok: "takes k b b' \<Longrightarrow> zb_ok b'"
  by (simp add: takes_def)

lemma zb_bits_spec:
  assumes "zb_ok b" and "k \<le> 32"
  shows "if length (zb_stream b) < k then zb_bits k b = Inl (Truncated ''zgfx bitstream'')
    else \<exists>b'. zb_bits k b = Inr (of_bits (take k (zb_stream b)), b') \<and> takes k b b'"
proof -
  let ?r = "refill b"
  have ok: "zb_ok ?r" and n: "k \<le> zb_n ?r"
    using refill_ok [OF assms(1)] refill_full [of b] assms(2) by simp_all
  show ?thesis
  proof (cases "k = 0 \<or> zb_left b < k")
    case True
    then show ?thesis using assms(1) by (auto simp: zb_bits_def length_zb_stream takes_refl)
  next
    case False
    let ?b = "?r\<lparr>zb_n := zb_n ?r - k, zb_consumed := zb_consumed ?r + k\<rparr>"
    have "zb_ok ?b" using advance_ok [OF ok n] False by simp
    moreover have "zb_stream ?b = drop k (zb_stream b)"
      using False by (simp add: zb_stream_def zb_left_def drop_take add.commute)
    moreover have "(ucast (of_bits (take k (zb_stream b)) :: u64) :: u32) = of_bits (take k (zb_stream b))"
      using assms(2) by (intro bit_word_eqI) (auto simp: bit_simps bit_unsigned_iff)
    ultimately show ?thesis using False window_bits [OF ok n] assms(1)
      by (auto simp: zb_bits_def takes_def length_zb_stream Let_def)
  qed
qed

lemma zb_bits_step:
  assumes "zb_ok b" and "zb_stream b = xs @ ys" and "length xs \<le> 32" and "k = length xs"
  obtains b' where "zb_bits k b = Inr (of_bits xs, b')" and "takes k b b'" and "zb_stream b' = ys"
  using zb_bits_spec [of b k] assms by (auto simp: takes_def)

lemma zb_bits_Inr:
  assumes "zb_ok b" and "k \<le> 32" and "zb_bits k b = Inr (v, b')"
  shows "takes k b b' \<and> v = of_bits (take k (zb_stream b))"
  using zb_bits_spec [OF assms(1,2)] assms(3) by (auto split: if_splits)

lemma zb_align_step:
  assumes "zb_ok b" and "zb_stream b = pad @ ys" and "length pad = (8 - zb_consumed b mod 8) mod 8"
  obtains b' where "zb_align b = Inr b'" and "takes (length pad) b b'" and "zb_consumed b' mod 8 = 0"
    and "zb_stream b' = ys"
proof (cases "zb_consumed b mod 8 = 0")
  case True
  with assms show ?thesis by (intro that [of b]) (simp_all add: zb_align_def takes_refl)
next
  case False
  define k where "k = 8 - zb_consumed b mod 8"
  have lt: "zb_consumed b mod 8 < 8" by simp
  have k: "k = length pad" "k \<le> 32" using assms(3) False by (simp_all add: k_def)
  from zb_bits_step [OF assms(1,2) _ k(1)] k obtain b' where
    b: "zb_bits k b = Inr (of_bits pad, b')" "takes k b b'" "zb_stream b' = ys" by auto
  have "(zb_consumed b + k) mod 8 = (zb_consumed b mod 8 + k) mod 8" by presburger
  also have "\<dots> = 0" using lt by (simp add: k_def)
  finally show ?thesis using that [of b'] b k False
    by (simp add: zb_align_def k_def [symmetric] takes_def)
qed

lemma zb_bytes_step:
  assumes "zb_ok b" and "zb_consumed b mod 8 = 0" and "zb_stream b = bits_of_bytes run @ ys"
  obtains b' where "zb_bytes (length run) b = Inr (run, b')" and "takes (8 * length run) b b'"
    and "zb_stream b' = ys"
proof -
  define at where "at = zb_consumed b div 8"
  have c: "zb_consumed b = 8 * at" using assms(2) unfolding at_def by presburger
  define b' where "b' = b\<lparr>zb_consumed := zb_consumed b + length run * 8, zb_next := at + length run,
      zb_acc := 0, zb_n := 0\<rparr>"
  have len: "zb_left b = 8 * length run + length ys"
    using assms(3) length_zb_stream [OF assms(1)] by simp
  then have fits: "at + length run \<le> length (zb_src b)"
    using assms(1) by (auto simp: zb_ok_def zb_left_def c)
  have "bits_of_bytes run = take (8 * length run) (zb_stream b)" using assms(3) by simp
  also have "\<dots> = take (8 * length run) (drop (8 * at) (bits_of_bytes (zb_src b)))"
    using len by (simp add: zb_stream_def c take_take min_def)
  also have "\<dots> = bits_of_bytes (take (length run) (drop at (zb_src b)))"
    by (simp add: drop_bits_of_bytes take_bits_of_bytes)
  finally have run: "take (length run) (drop at (zb_src b)) = run"
    using bits_of_bytes_inj by metis
  have "zb_bytes (length run) b = Inr (run, b')"
    using len fits run by (simp add: zb_bytes_def at_def [symmetric] b'_def)
  moreover have "zb_stream b' = drop (8 * length run) (zb_stream b)"
    by (simp add: zb_stream_def zb_left_def b'_def drop_take add.commute mult.commute)
  moreover have "zb_ok b'" using assms(1) len fits by (auto simp: b'_def zb_ok_def zb_left_def c)
  ultimately have "zb_bytes (length run) b = Inr (run, b')" and "takes (8 * length run) b b'"
    using assms(3) by (simp_all add: takes_def) (simp_all add: b'_def)
  then show ?thesis using that assms(3) by (simp add: takes_def)
qed

section \<open>The prefix code\<close>

text \<open>
  The token table of \<open>zgfx.rs\<close> is a prefix code, and the flat lookup table decodes it: the
  index found by nine peeked bits is the one token whose code is a prefix of the stream.
\<close>

subsection \<open>Codes as bit strings\<close>

definition code_bits :: "token \<Rightarrow> bool list" where
  "code_bits t = to_bits (tk_len t) (tk_code t)"

lemma length_code_bits [simp]: "length (code_bits t) = tk_len t"
  by (simp add: code_bits_def)

lemma length_TOKENS [simp]: "length TOKENS = 37"
  by (simp add: TOKENS_def)

definition token_ok :: "token \<Rightarrow> bool" where
  "token_ok t \<longleftrightarrow> 1 \<le> tk_len t \<and> tk_len t \<le> 8 \<and> tk_code t < 2 ^ tk_len t \<and> tk_value_bits t \<le> 32"

lemma TOKENS_ok: "list_all token_ok TOKENS"
  by (simp add: TOKENS_def token_ok_def lit_def mat_def)

text \<open>Two codes conflict when the shorter one is a prefix of the other.\<close>

definition conflict :: "token \<Rightarrow> token \<Rightarrow> bool" where
  "conflict t u \<longleftrightarrow> tk_code t div 2 ^ (tk_len t - tk_len u) = tk_code u div 2 ^ (tk_len u - tk_len t)"

lemma TOKENS_prefix_free: "sorted_wrt (\<lambda>t u. \<not> conflict t u) TOKENS"
  unfolding TOKENS_def conflict_def lit_def mat_def by simp

subsection \<open>The lookup table\<close>

text \<open>A token claims the nine bit indices that begin with its code.\<close>

definition claims :: "token \<Rightarrow> nat \<Rightarrow> bool" where
  "claims t v \<longleftrightarrow> v div 2 ^ (LUT_BITS - tk_len t) = tk_code t"

lemma fold_update:
  "length (fold (\<lambda>v l. l[v := x]) is l) = length l"
  "j < length l \<Longrightarrow> fold (\<lambda>v l. l[v := x]) is l ! j = (if j \<in> set is then x else l ! j)"
  by (induction "is" arbitrary: l) auto

lemma div_range: "0 < (n :: nat) \<Longrightarrow> v div n = c \<longleftrightarrow> c * n \<le> v \<and> v < c * n + n"
  using less_eq_div_iff_mult_less_eq [of n c v] div_less_iff_less_mult [of n v "Suc c"]
  by (auto simp: le_antisym less_Suc_eq_le)

lemma claim_claims:
  "length (claim x l) = length l"
  "j < length l \<Longrightarrow> claim x l ! j = (if claims (snd x) j then of_nat (fst x) else l ! j)"
  by (simp_all add: claim_def fold_update Let_def claims_def div_range push_bit_eq_mult)

lemma find_append: "find P (xs @ ys) = (case find P xs of Some x \<Rightarrow> Some x | None \<Rightarrow> find P ys)"
  by (induction xs) simp_all

lemma fold_claim:
  "length (fold claim xs l) = length l"
  "j < length l \<Longrightarrow> fold claim xs l ! j =
     (case find (\<lambda>x. claims (snd x) j) (rev xs) of Some x \<Rightarrow> of_nat (fst x) | None \<Rightarrow> l ! j)"
proof (induction xs arbitrary: l)
  case (Cons x xs)
  { case 1 then show ?case using Cons(1) by (simp add: claim_claims) }
  { case 2 then show ?case using Cons(2) [of "claim x l"]
      by (auto simp: claim_claims find_append split: option.split) }
qed simp_all

lemma claims_conflict:
  assumes "claims t v" and "claims u v" and "tk_len t \<le> 8" and "tk_len u \<le> 8"
  shows "conflict t u"
proof -
  have "v div 2 ^ (9 - n) div 2 ^ (n - m) = v div 2 ^ (9 - m)" if "m \<le> n" "n \<le> 8" for m n :: nat
    using that by (simp add: div_mult2_eq [symmetric] power_add [symmetric])
  from this [of "tk_len t" "tk_len u"] this [of "tk_len u" "tk_len t"] show ?thesis
    using assms by (cases "tk_len t \<le> tk_len u") (auto simp: claims_def conflict_def LUT_BITS_def)
qed

lemma claims_unique:
  assumes "claims (TOKENS ! i) v" and "claims (TOKENS ! k) v" and "i < 37" and "k < 37"
  shows "i = k"
proof -
  have no: "\<not> conflict (TOKENS ! m) (TOKENS ! n)" if "m < n" "n < 37" for m n
    using TOKENS_prefix_free that by (simp add: sorted_wrt_iff_nth_less)
  have len: "tk_len (TOKENS ! n) \<le> 8" if "n < 37" for n
    using TOKENS_ok that by (simp add: list_all_length token_ok_def)
  from claims_conflict [OF assms(1,2)] claims_conflict [OF assms(2,1)] len no assms(3,4) show ?thesis
    by (metis linorder_neqE_nat)
qed

lemma LUT_nth:
  assumes "v < 512"
  shows "if \<exists>i<37. claims (TOKENS ! i) v
    then \<exists>i<37. claims (TOKENS ! i) v \<and> LUT ! v = of_nat i
    else LUT ! v = NO_TOKEN"
proof -
  let ?xs = "zip [0..<37] TOKENS"
  have xs: "set ?xs = {(i, TOKENS ! i) |i. i < 37}"
    by (force simp: set_zip)
  have lut: "LUT ! v = (case find (\<lambda>x. claims (snd x) v) (rev ?xs) of
      Some x \<Rightarrow> of_nat (fst x) | None \<Rightarrow> NO_TOKEN)"
    using assms by (simp add: LUT_def build_lut_def fold_claim LUT_BITS_def split: option.split)
  show ?thesis
  proof (cases "find (\<lambda>x. claims (snd x) v) (rev ?xs)")
    case None
    then have "\<not> (\<exists>i<37. claims (TOKENS ! i) v)" by (auto simp: find_None_iff xs)
    with None lut show ?thesis by auto
  next
    case (Some x)
    then have "x \<in> set (rev ?xs)" and "claims (snd x) v" by (metis find_Some_iff nth_mem)+
    then obtain i where "i < 37" "claims (TOKENS ! i) v" "x = (i, TOKENS ! i)" using xs by auto
    with Some lut show ?thesis by auto
  qed
qed

lemma LUT_hit:
  assumes "v < 512" and "i < 37" and "claims (TOKENS ! i) v"
  shows "LUT ! v \<noteq> NO_TOKEN \<and> unat (LUT ! v) = i"
proof -
  have "\<exists>i<37. claims (TOKENS ! i) v" using assms by blast
  with LUT_nth [OF assms(1)] obtain k where k: "k < 37" "claims (TOKENS ! k) v" "LUT ! v = of_nat k"
    by auto
  with claims_unique [OF k(2) assms(3)] assms(2) have "LUT ! v = of_nat i" by simp
  moreover have u: "unat (of_nat i :: u8) = i" using assms(2) by (simp add: unsigned_of_nat take_bit_nat_eq_self)
  moreover have "(of_nat i :: u8) \<noteq> NO_TOKEN" using u assms(2) by (auto simp: NO_TOKEN_def)
  ultimately show ?thesis by simp
qed

lemma LUT_entry:
  assumes "v < 512" and "LUT ! v \<noteq> NO_TOKEN"
  shows "unat (LUT ! v) < 37 \<and> claims (TOKENS ! unat (LUT ! v)) v"
proof -
  from LUT_nth [OF assms(1)] assms(2) obtain i where i: "i < 37" "claims (TOKENS ! i) v"
    by (auto split: if_splits)
  from LUT_hit [OF assms(1) this] i show ?thesis by simp
qed

subsection \<open>Nine bits, peeked\<close>

definition nine :: "bool list \<Rightarrow> bool list" where
  "nine s = take 9 (s @ replicate 9 False)"

lemma length_nine [simp]: "length (nine s) = 9"
  by (simp add: nine_def)

lemma claims_prefix:
  assumes "length s = 9" and "tk_len t \<le> 8" and "tk_code t < 2 ^ tk_len t"
  shows "claims t (of_bits s) \<longleftrightarrow> prefix (code_bits t) s"
proof -
  let ?n = "tk_len t"
  have "(of_bits s :: nat) div 2 ^ (9 - ?n) = of_bits (take ?n s)"
    unfolding drop_bit_eq_div [symmetric] using assms(1,2)
    by (intro bit_eqI) (auto simp: bit_simps)
  moreover have "of_bits (take ?n s) = tk_code t \<longleftrightarrow> take ?n s = code_bits t"
  proof
    assume "of_bits (take ?n s) = tk_code t"
    then have "to_bits ?n (of_bits (take ?n s) :: nat) = code_bits t" by (simp add: code_bits_def)
    then show "take ?n s = code_bits t" using to_of_bits_nat [of "take ?n s"] assms(1,2) by simp
  next
    assume "take ?n s = code_bits t"
    then show "of_bits (take ?n s) = tk_code t"
      using assms(3) by (simp add: code_bits_def of_to_bits_nat take_bit_nat_eq_self)
  qed
  moreover have "take ?n s = code_bits t \<longleftrightarrow> prefix (code_bits t) s"
    by (metis append_eq_conv_conj length_code_bits prefix_def take_is_prefix)
  ultimately show ?thesis by (simp add: claims_def LUT_BITS_def)
qed

lemma peek9_spec:
  assumes "zb_ok b"
  shows "peek9 b = (of_bits (nine (zb_stream b)), refill b)"
proof -
  let ?h = "min (zb_left b) 9"
  have len: "length (zb_stream b) = zb_left b" using length_zb_stream [OF assms] .
  have "of_bits (take ?h (zb_stream b)) = drop_bit (zb_n (refill b) - ?h) (zb_acc (refill b)) AND (push_bit ?h 1 - 1)"
    using window_bits [OF refill_ok [OF assms], of ?h] refill_full [of b] by simp
  moreover have "push_bit (9 - ?h) (ucast (of_bits (take ?h (zb_stream b)) :: u64) :: u32) = of_bits (nine (zb_stream b))"
    using len by (intro bit_word_eqI)
      (auto simp: bit_simps bit_unsigned_iff nine_def nth_append min_def not_le)
  ultimately show ?thesis by (simp add: peek9_def LUT_BITS_def Let_def)
qed

subsection \<open>The next token\<close>

lemma prefix_nine:
  assumes "prefix c (nine s)" and "length c \<le> length s"
  shows "prefix c s"
proof -
  have "c = take (length c) (nine s)" using assms(1) by (auto simp: prefix_def)
  also have "\<dots> = take (length c) s"
  proof -
    have "length c \<le> 9" using assms(1) by (auto dest: prefix_length_le)
    then show ?thesis using assms(2) by (simp add: nine_def min_def)
  qed
  finally show ?thesis by (metis take_is_prefix)
qed

lemma nine_prefix: "prefix c s \<Longrightarrow> length c \<le> 9 \<Longrightarrow> prefix c (nine s)"
  by (auto simp: nine_def prefix_def)

lemma TOKEN_facts:
  assumes "i < 37"
  shows "1 \<le> tk_len (TOKENS ! i)" "tk_len (TOKENS ! i) \<le> 8"
    "tk_code (TOKENS ! i) < 2 ^ tk_len (TOKENS ! i)" "tk_value_bits (TOKENS ! i) \<le> 32"
  using TOKENS_ok assms by (simp_all add: list_all_length token_ok_def)

lemma nine_less: "unat (of_bits (nine s) :: u32) < 512"
  using of_bits_less [of "nine s"] by (simp add: unat_of_bits)

lemma next_token_hit:
  assumes "zb_ok b" and "i < 37" and "zb_stream b = code_bits (TOKENS ! i) @ ys"
  obtains b' where "next_token b = Inr (i, b')" and "takes (tk_len (TOKENS ! i)) b b'" and "zb_stream b' = ys"
proof -
  let ?t = "TOKENS ! i" and ?v = "unat (of_bits (nine (zb_stream b)) :: u32)"
  have "prefix (code_bits ?t) (nine (zb_stream b))"
    using assms TOKEN_facts [OF assms(2)] by (intro nine_prefix) auto
  then have "claims ?t ?v"
    using claims_prefix [of "nine (zb_stream b)" ?t] TOKEN_facts [OF assms(2)] by (simp add: unat_of_bits)
  from LUT_hit [OF nine_less assms(2) this] have hit: "LUT ! ?v \<noteq> NO_TOKEN" "unat (LUT ! ?v) = i" by simp_all
  have "length (code_bits ?t) \<le> 32" using TOKEN_facts(2) [OF assms(2)] by simp
  then obtain b' where b: "zb_bits (tk_len ?t) (refill b) = Inr (of_bits (code_bits ?t), b')"
    and t: "takes (tk_len ?t) (refill b) b'" and ys: "zb_stream b' = ys"
    by (rule zb_bits_step [OF refill_ok [OF assms(1)], of "code_bits ?t" ys "tk_len ?t", rotated])
      (simp_all only: zb_stream_refill assms(3) length_code_bits)
  have "next_token b = Inr (i, b')"
    using hit b by (simp add: next_token_def peek9_spec [OF assms(1)] Let_def)
  with t ys show ?thesis by (intro that) (simp_all add: takes_def)
qed

lemma next_token_Inr:
  assumes "zb_ok b" and "next_token b = Inr (i, b')"
  shows "i < 37 \<and> prefix (code_bits (TOKENS ! i)) (zb_stream b) \<and> takes (tk_len (TOKENS ! i)) b b'"
proof -
  let ?v = "unat (of_bits (nine (zb_stream b)) :: u32)"
  define idx where "idx = LUT ! ?v"
  have "next_token b = (if idx = NO_TOKEN then Inl (Range ''zgfx token prefix'' (fst (peek9 (refill b))))
      else bind_res (zb_bits (tk_len (TOKENS ! unat idx)) (refill b)) (\<lambda>(_, b2). Inr (unat idx, b2)))"
    by (simp add: next_token_def peek9_spec [OF assms(1)] idx_def Let_def)
  with assms(2) have n: "idx \<noteq> NO_TOKEN" and i: "unat idx = i"
    and b: "\<exists>x. zb_bits (tk_len (TOKENS ! unat idx)) (refill b) = Inr (x, b')"
    by (simp_all add: res_simps split: if_splits) auto
  from LUT_entry [OF nine_less n [unfolded idx_def]] have lt: "i < 37" and c: "claims (TOKENS ! i) ?v"
    unfolding idx_def [symmetric] i by (rule conjunct1, rule conjunct2)
  note f = TOKEN_facts [OF lt]
  obtain x where x: "zb_bits (tk_len (TOKENS ! i)) (refill b) = Inr (x, b')" using b unfolding i by (rule exE)
  have "tk_len (TOKENS ! i) \<le> 32" using f(2) by (rule le_trans) simp
  from zb_bits_Inr [OF refill_ok [OF assms(1)] this x]
  have t: "takes (tk_len (TOKENS ! i)) (refill b) b'" by (rule conjunct1)
  then have t': "takes (tk_len (TOKENS ! i)) b b'" by (simp add: takes_def)
  have "prefix (code_bits (TOKENS ! i)) (nine (zb_stream b))"
    using claims_prefix [of "nine (zb_stream b)" "TOKENS ! i"] c f by (simp add: unat_of_bits)
  then have "prefix (code_bits (TOKENS ! i)) (zb_stream b)"
    by (rule prefix_nine) (use t' in \<open>simp add: takes_def\<close>)
  with lt t' show ?thesis by simp
qed

text \<open>Without any assumption on the reader: a token that was found has been consumed.\<close>

lemma peek9_less: "unat (fst (peek9 b)) < 512"
proof -
  define h v where "h = min (zb_left b) 9"
    and "v = (ucast (drop_bit (zb_n (refill b) - h) (zb_acc (refill b)) AND (push_bit h 1 - 1)) :: u32)"
  have h: "h \<le> 9" by (simp add: h_def)
  have mask: "push_bit h 1 - 1 = (mask h :: u64)" by (simp add: mask_eq_exp_minus_1 push_bit_eq_mult)
  have "fst (peek9 b) = push_bit (9 - h) v" by (simp add: peek9_def LUT_BITS_def Let_def h_def v_def)
  moreover have "bit v i \<Longrightarrow> i < h" for i
    unfolding v_def mask by (simp add: bit_simps bit_unsigned_iff)
  ultimately have "take_bit 9 (fst (peek9 b)) = fst (peek9 b)"
    using h by (intro bit_word_eqI) (auto simp: bit_simps, fastforce)
  then have "take_bit 9 (unat (fst (peek9 b))) = unat (fst (peek9 b))"
    by (metis unsigned_take_bit_eq)
  then show ?thesis by (simp add: take_bit_nat_eq_self_iff)
qed

lemma next_token_left: "next_token b = Inr (i, b') \<Longrightarrow> zb_left b' < zb_left b"
proof -
  assume a: "next_token b = Inr (i, b')"
  let ?v = "unat (fst (peek9 b))"
  have p: "zb_left (snd (peek9 b)) = zb_left b" by (simp add: peek9_def Let_def)
  from a have n: "LUT ! ?v \<noteq> NO_TOKEN" and i: "i = unat (LUT ! ?v)"
    and b: "\<exists>x. zb_bits (tk_len (TOKENS ! i)) (snd (peek9 b)) = Inr (x, b')"
    by (auto simp: next_token_def res_simps case_prod_beta Let_def split: if_splits)
  have "i < 37" using LUT_entry [OF peek9_less n] i by simp
  from TOKEN_facts [OF this] b p show ?thesis by (auto dest!: zb_bits_left)
qed

end
