(* ===== verification/Lz_History.thy ===== *)
theory Lz_History
  imports Byte_Order "HOL-Library.Sublist"
begin

text \<open>
  What a copy out of a decompressor's history means, whatever the history is stored in. The
  contract of a history is the locale \<open>lz_history\<close>: it stands for a window of past bytes, a byte
  pushed comes last, the window never shrinks, and a byte is found by its distance from the end.
  A copy may overlap the bytes it produces, so it is one byte at a time. The ring of the RDP 8.0
  decompressor (\<open>crates/rdp-codecs/src/zgfx.rs\<close>) is an instance, in theory Zgfx_History.
\<close>

subsection \<open>Copies over a list\<close>

fun lz_bytes :: "nat \<Rightarrow> nat \<Rightarrow> bytes \<Rightarrow> bytes" where
  "lz_bytes d 0 w = []"
| "lz_bytes d (Suc n) w = (let x = w ! (length w - d) in x # lz_bytes d n (w @ [x]))"

lemma length_lz_bytes [simp]: "length (lz_bytes d n w) = n"
  by (induction n arbitrary: w) (simp_all add: Let_def)

lemma lz_bytes_suffix:
  assumes "d \<le> length w" and "1 \<le> d"
  shows "lz_bytes d n (xs @ w) = lz_bytes d n w"
  using assms
proof (induction n arbitrary: w)
  case (Suc n)
  have "(xs @ w) ! (length (xs @ w) - d) = w ! (length w - d)"
    using Suc.prems by (auto simp: nth_append)
  moreover have "lz_bytes d n ((xs @ w) @ [y]) = lz_bytes d n (w @ [y])" for y
    using Suc.IH [of "w @ [y]"] Suc.prems by simp
  ultimately show ?case by (simp add: Let_def)
qed simp

text \<open>The copy is periodic: it repeats the last \<open>d\<close> bytes.\<close>

lemma nth_lz_bytes:
  assumes "1 \<le> d" and "d \<le> length w" and "m < n"
  shows "lz_bytes d n w ! m = w ! (length w - d + m mod d)"
  using assms
proof (induction n arbitrary: w m)
  case (Suc n)
  define x where "x = w ! (length w - d)"
  have step: "lz_bytes d (Suc n) w = x # lz_bytes d n (w @ [x])" by (simp add: x_def Let_def)
  show ?case
  proof (cases m)
    case 0
    then show ?thesis unfolding step by (simp add: x_def)
  next
    case (Suc k)
    have "lz_bytes d n (w @ [x]) ! k = (w @ [x]) ! (length (w @ [x]) - d + k mod d)"
      using Suc.prems Suc by (intro Suc.IH) simp_all
    also have "\<dots> = w ! (length w - d + Suc k mod d)"
    proof (cases "Suc k mod d = 0")
      case True
      then have "k mod d = d - 1" using Suc.prems(1)
        by (metis diff_Suc_1 mod_Suc nat.simps(3))
      then show ?thesis using True Suc.prems by (simp add: nth_append x_def)
    next
      case False
      then have "Suc k mod d = Suc (k mod d)" by (metis mod_Suc)
      moreover have "Suc (k mod d) < d" using False Suc.prems(1)
        by (metis calculation mod_less_divisor less_le_trans zero_less_one)
      ultimately show ?thesis using Suc.prems by (auto simp: nth_append Suc_diff_le)
    qed
    finally show ?thesis unfolding step Suc by simp
  qed
qed simp

subsection \<open>The contract of a history\<close>

fun replay :: "('s \<Rightarrow> nat \<Rightarrow> u8) \<Rightarrow> (u8 \<Rightarrow> 's \<Rightarrow> 's) \<Rightarrow> nat \<Rightarrow> nat \<Rightarrow> 's \<Rightarrow> 's" where
  "replay look put d 0 s = s"
| "replay look put d (Suc n) s = replay look put d n (put (look s d) s)"

locale lz_history =
  fixes put :: "u8 \<Rightarrow> 's \<Rightarrow> 's"
    and at :: "'s \<Rightarrow> nat \<Rightarrow> u8"
    and window :: "'s \<Rightarrow> bytes"
    and inv :: "'s \<Rightarrow> bool"
  assumes inv_put: "inv s \<Longrightarrow> inv (put x s)"
    and put_last: "inv s \<Longrightarrow> suffix (window (put x s)) (window s @ [x]) \<and> length (window s) \<le> length (window (put x s))"
    and at_window: "inv s \<Longrightarrow> 1 \<le> d \<Longrightarrow> d \<le> length (window s) \<Longrightarrow> at s d = window s ! (length (window s) - d)"
begin

lemma inv_puts: "inv s \<Longrightarrow> inv (fold put xs s)"
  by (induction xs arbitrary: s) (simp_all add: inv_put)

lemma puts_last:
  assumes "inv s"
  shows "suffix (window (fold put xs s)) (window s @ xs) \<and> length (window s) \<le> length (window (fold put xs s))"
  using assms
proof (induction xs arbitrary: s)
  case (Cons x xs)
  note one = put_last [OF Cons.prems, of x] and rest = Cons.IH [OF inv_put [OF Cons.prems], of x]
  have "suffix (window (put x s) @ xs) ((window s @ [x]) @ xs)"
    using one by (metis append.assoc suffix_def)
  with rest have "suffix (window (fold put xs (put x s))) ((window s @ [x]) @ xs)"
    by (meson suffix_order.trans)
  with one rest show ?case by simp
qed simp

text \<open>A copy out of the history pushes the bytes that a copy over the window's list spells.\<close>

lemma replay_pushes:
  assumes "inv s" and "1 \<le> d" and "d \<le> length (window s)"
  shows "replay at put d n s = fold put (lz_bytes d n (window s)) s"
  using assms
proof (induction n arbitrary: s)
  case (Suc n)
  define x where "x = window s ! (length (window s) - d)"
  have x: "at s d = x" using at_window [OF Suc.prems] by (simp add: x_def)
  from put_last [OF Suc.prems(1), of x] obtain pre where k: "window s @ [x] = pre @ window (put x s)"
    and le: "length (window s) \<le> length (window (put x s))" by (auto simp: suffix_def)
  have d: "d \<le> length (window (put x s))" using Suc.prems(3) le by simp
  have "lz_bytes d n (window s @ [x]) = lz_bytes d n (window (put x s))"
    unfolding k by (rule lz_bytes_suffix [OF d Suc.prems(2)])
  with Suc.IH [OF inv_put [OF Suc.prems(1)] Suc.prems(2) d] x show ?case
    by (simp add: x_def Let_def)
qed simp

end

end
