(* ===== verification/Zgfx_History.thy ===== *)
theory Zgfx_History
  imports Zgfx_Bits Lz_History
begin

text \<open>
  The decompressor, and what its history owes it. First the loops of the RDP 8.0 decompressor (\<open>zgfx.rs\<close>: \<open>segment\<close> and \<open>decompress\<close>). Every
  round of the token loop consumes at least one bit, so the loop is total: no stream makes it
  spin. The second half bounds what any input at all can do to the state.
\<close>

section \<open>The decompressor\<close>

unbundle bit_operations_syntax

subsection \<open>Every round consumes\<close>

lemma seg_literal_left: "seg_literal t b s = (s', Inr b') \<Longrightarrow> zb_left b' \<le> zb_left b"
  by (auto simp: seg_literal_def res_simps dest: zb_bits_left split: sum.splits if_splits)

lemma seg_run_left: "seg_run b s = (s', Inr b') \<Longrightarrow> zb_left b' \<le> zb_left b"
  by (fastforce simp: seg_run_def res_simps dest: zb_bits_left zb_align_left zb_bytes_left
      split: sum.splits if_splits)

lemma seg_copy_left: "seg_copy distance b s = (s', Inr b') \<Longrightarrow> zb_left b' \<le> zb_left b"
  by (auto simp: seg_copy_def dest: match_length_left split: sum.splits if_splits)

lemma seg_step_left:
  assumes "seg_step b s = (s', Inr b')"
  shows "zb_left b' < zb_left b"
proof -
  from assms obtain i b1 where t: "next_token b = Inr (i, b1)"
    by (auto simp: seg_step_def split: sum.splits)
  have "zb_left b' \<le> zb_left b1"
  proof (cases "tk_is_match (TOKENS ! i)")
    case False
    with assms t show ?thesis by (auto simp: seg_step_def dest: seg_literal_left)
  next
    case True
    with assms t obtain v b2 where b: "zb_bits (tk_value_bits (TOKENS ! i)) b1 = Inr (v, b2)"
      by (auto simp: seg_step_def Let_def split: sum.splits)
    have "zb_left b' \<le> zb_left b2"
      using assms t True b by (auto simp: seg_step_def Let_def dest: seg_run_left seg_copy_left split: if_splits)
    with zb_bits_left [OF b] show ?thesis by simp
  qed
  with next_token_left [OF t] show ?thesis by simp
qed

subsection \<open>Segments and messages\<close>

function seg_loop :: "zbits \<Rightarrow> rdp8_out \<Rightarrow> rdp8_out \<times> (decode_error + unit)" where
  "seg_loop b s =
     (if zb_left b = 0 then (s, Inr ())
      else (case seg_step b s of (s', Inl e) \<Rightarrow> (s', Inl e) | (s', Inr b') \<Rightarrow> seg_loop b' s'))"
  by pat_completeness auto
termination by (relation "measure (\<lambda>(b, s). zb_left b)") (auto dest: seg_step_left [OF sym])

declare seg_loop.simps [simp del]

definition segment :: "bytes \<Rightarrow> rdp8_out \<Rightarrow> rdp8_out \<times> (decode_error + unit)" where
  "segment seg s =
     (case seg of
        [] \<Rightarrow> (s, Inl (Truncated ''zgfx data segment''))
      | flags # data \<Rightarrow>
          if flags AND 0x0F \<noteq> COMPR_TYPE_RDP8
            then (s, Inl (Range ''zgfx compression type'' (ucast (flags AND 0x0F))))
          else if flags AND PACKET_COMPRESSED = 0 then
            (if MAX_EGFX_MESSAGE < length (snd s) + length data then (s, Inl (Budget ''zgfx output''))
             else (fold rdp8_push data s, Inr ()))
          else if data = [] then (s, Inl (Truncated ''zgfx compressed segment''))
          else
            let pad = last data; body = butlast data
            in if 2 ^ 64 \<le> length body * 8 \<or> length body * 8 < unat pad
                 then (s, Inl (Range ''zgfx padding bit count'' (ucast pad)))
               else seg_loop (zbits_new body (length body * 8 - unat pad)) s)"

fun segments_each :: "nat \<Rightarrow> codec_reader \<Rightarrow> rdp8_out \<Rightarrow> rdp8_out \<times> (decode_error + unit)" where
  "segments_each 0 r s = (s, Inr ())"
| "segments_each (Suc count) r s =
     (case bind_res (cr_u32_le r) (\<lambda>(n, r1). cr_take (unat n) r1) of
        Inl e \<Rightarrow> (s, Inl e)
      | Inr (seg, r2) \<Rightarrow>
          (case segment seg s of
             (s', Inl e) \<Rightarrow> (s', Inl e)
           | (s', Inr u) \<Rightarrow> segments_each count r2 s'))"

definition decompress :: "rdp8 \<Rightarrow> bytes \<Rightarrow> rdp8_out \<times> (decode_error + unit)" where
  "decompress d src =
     (let r = cr_new src ''zgfx segmented data''; s = (d, [])
      in case cr_u8 r of
           Inl e \<Rightarrow> (s, Inl e)
         | Inr (descriptor, r1) \<Rightarrow>
             if descriptor = SINGLE then
               (case cr_take (cr_remaining r1) r1 of
                  Inl e \<Rightarrow> (s, Inl e) | Inr (seg, _) \<Rightarrow> segment seg s)
             else if descriptor = MULTIPART then
               (case bind_res (cr_u16_le r1) (\<lambda>(count, r2). bind_res (cr_u32_le r2) (\<lambda>(n, r3). Inr (count, n, r3))) of
                  Inl e \<Rightarrow> (s, Inl e)
                | Inr (count, n, r3) \<Rightarrow>
                    if MAX_EGFX_MESSAGE < unat n then (s, Inl (Budget ''zgfx uncompressedSize''))
                    else segments_each (unat count) r3 s)
             else (s, Inl (Range ''RDP_SEGMENTED_DATA descriptor'' (ucast descriptor))))"

section \<open>The history\<close>

text \<open>
  The 2.5 MB ring of the RDP 8.0 decompressor (\<open>zgfx.rs\<close>) as a history: the window it stands
  for is the last bytes pushed, in order, and a match token copies out of that window. Over any
  message, well formed or not, the window moves exactly by the output.
\<close>

subsection \<open>The ring is a history\<close>

definition ring_ok :: "rdp8 \<Rightarrow> bool" where
  "ring_ok d \<longleftrightarrow> length (history d) = HISTORY \<and> rdp8_pos d < HISTORY"

definition ring_window :: "rdp8 \<Rightarrow> bytes" where
  "ring_window d = rotate (rdp8_pos d) (history d)"

definition ring_at :: "rdp8_out \<Rightarrow> nat \<Rightarrow> u8" where
  "ring_at s d = history (fst s) ! ((rdp8_pos (fst s) + HISTORY - d) mod HISTORY)"

lemma HISTORY_pos: "0 < HISTORY"
  by (simp add: HISTORY_def)

lemma ring_new: "ring_ok rdp8_new" "ring_window rdp8_new = replicate HISTORY 0"
  by (simp_all add: ring_ok_def rdp8_new_def ring_window_def HISTORY_pos)

lemma length_ring_window: "ring_ok d \<Longrightarrow> length (ring_window d) = HISTORY"
  by (simp add: ring_ok_def ring_window_def)

lemma ring_push_ok: "ring_ok (fst s) \<Longrightarrow> ring_ok (fst (rdp8_push x s))"
  by (auto simp: ring_ok_def rdp8_push_def Let_def)

lemma push_out [simp]: "snd (rdp8_push x s) = snd s @ [x]"
  by (simp add: rdp8_push_def Let_def)

lemma push_window:
  assumes "ring_ok (fst s)"
  shows "ring_window (fst (rdp8_push x s)) = tl (ring_window (fst s)) @ [x]"
proof -
  obtain h p out where s: "s = (\<lparr>history = h, rdp8_pos = p\<rparr>, out)"
    by (metis rdp8.surjective old.unit.exhaust surj_pair)
  have p: "p < length h" "length h = HISTORY" using assms by (simp_all add: ring_ok_def s)
  then have h: "drop p h = h ! p # drop (Suc p) h" by (simp add: Cons_nth_drop_Suc)
  have upd: "h[p := x] = take p h @ x # drop (Suc p) h" using p by (simp add: upd_conv_take_nth_drop)
  show ?thesis
  proof (cases "Suc p = HISTORY")
    case True
    then show ?thesis using p h upd by (simp add: s ring_window_def rdp8_push_def rotate_drop_take)
  next
    case False
    then have "Suc p < length h" using p by simp
    then show ?thesis using p h upd False by (simp add: s ring_window_def rdp8_push_def rotate_drop_take)
  qed
qed

interpretation ring: lz_history rdp8_push ring_at "\<lambda>s. ring_window (fst s)" "\<lambda>s. ring_ok (fst s)"
proof
  fix s :: rdp8_out and x :: u8 and d :: nat
  assume ok: "ring_ok (fst s)"
  show "ring_ok (fst (rdp8_push x s))" using ring_push_ok [OF ok] .
  have "ring_window (fst s) \<noteq> []" using length_ring_window [OF ok] HISTORY_pos by auto
  then show "suffix (ring_window (fst (rdp8_push x s))) (ring_window (fst s) @ [x]) \<and>
      length (ring_window (fst s)) \<le> length (ring_window (fst (rdp8_push x s)))"
    by (cases "ring_window (fst s)") (simp_all add: push_window [OF ok] suffix_ConsI)
  assume d: "1 \<le> d" "d \<le> length (ring_window (fst s))"
  have "rdp8_pos (fst s) + HISTORY - d = rdp8_pos (fst s) + (HISTORY - d)"
    using d length_ring_window [OF ok] by simp
  then show "ring_at s d = ring_window (fst s) ! (length (ring_window (fst s)) - d)"
    using ok d length_ring_window [OF ok]
    by (simp add: ring_at_def ring_window_def nth_rotate ring_ok_def)
qed

lemma copy_replay:
  assumes "ring_ok (fst s)" and "1 \<le> d" and "d \<le> HISTORY"
  shows "copy_match n ((rdp8_pos (fst s) + HISTORY - d) mod HISTORY) s = replay ring_at rdp8_push d n s"
  using assms
proof (induction n arbitrary: s)
  case (Suc n)
  define f where "f = (rdp8_pos (fst s) + HISTORY - d) mod HISTORY"
  let ?s = "rdp8_push (history (fst s) ! f) s"
  have p: "rdp8_pos (fst ?s) = Suc (rdp8_pos (fst s)) mod HISTORY"
    using Suc.prems(1) by (auto simp: rdp8_push_def Let_def ring_ok_def)
  have "(if f + 1 = HISTORY then 0 else f + 1) = Suc f mod HISTORY"
    using mod_less_divisor [OF HISTORY_pos, of "rdp8_pos (fst s) + HISTORY - d"] by (auto simp: f_def mod_Suc)
  also have "\<dots> = Suc (rdp8_pos (fst s) + (HISTORY - d)) mod HISTORY"
    using Suc.prems(3) by (simp add: f_def mod_Suc_eq)
  also have "\<dots> = (Suc (rdp8_pos (fst s)) mod HISTORY + (HISTORY - d)) mod HISTORY"
    by (simp add: mod_add_left_eq)
  also have "\<dots> = (rdp8_pos (fst ?s) + HISTORY - d) mod HISTORY"
    unfolding p using Suc.prems(3) by (simp only: Nat.add_diff_assoc)
  finally have step: "(if f + 1 = HISTORY then 0 else f + 1) = (rdp8_pos (fst ?s) + HISTORY - d) mod HISTORY" .
  have "copy_match (Suc n) f s = copy_match n (if f + 1 = HISTORY then 0 else f + 1) ?s" by simp
  also have "\<dots> = replay ring_at rdp8_push d n ?s"
    unfolding step using Suc.IH [of ?s] Suc.prems ring_push_ok [OF Suc.prems(1)] by simp
  finally show ?case unfolding f_def [symmetric] by (simp only: replay.simps ring_at_def [of s d] f_def [symmetric])
qed simp

lemma copy_pushes:
  assumes "ring_ok (fst s)" and "1 \<le> d" and "d \<le> HISTORY"
  shows "copy_match n ((rdp8_pos (fst s) + HISTORY - d) mod HISTORY) s =
    fold rdp8_push (lz_bytes d n (ring_window (fst s))) s"
  using copy_replay [OF assms] ring.replay_pushes [of s d n] assms length_ring_window [OF assms(1)] by simp

subsection \<open>Whatever arrives, the history is the output\<close>

lemma pushes_out [simp]: "snd (fold rdp8_push xs s) = snd s @ xs"
  by (induction xs arbitrary: s) simp_all

lemma pushes_window:
  assumes "ring_ok (fst s)"
  shows "ring_window (fst (fold rdp8_push xs s)) = drop (length xs) (ring_window (fst s) @ xs)"
proof -
  have ok: "ring_ok (fst (fold rdp8_push xs s))" using ring.inv_puts [OF assms] .
  from ring.puts_last [OF assms] obtain pre where
    pre: "ring_window (fst s) @ xs = pre @ ring_window (fst (fold rdp8_push xs s))" by (auto simp: suffix_def)
  with length_ring_window [OF ok] length_ring_window [OF assms] have "length pre = length xs"
    by (auto dest: arg_cong [of _ _ length])
  then show ?thesis unfolding pre by simp
qed

text \<open>\<open>grows s s'\<close>: the state moved from \<open>s\<close> to \<open>s'\<close> by pushing bytes, within the message limit.\<close>

definition grows :: "rdp8_out \<Rightarrow> rdp8_out \<Rightarrow> bool" where
  "grows s s' \<longleftrightarrow> (\<exists>xs. s' = fold rdp8_push xs s) \<and>
     (length (snd s) \<le> MAX_EGFX_MESSAGE \<longrightarrow> length (snd s') \<le> MAX_EGFX_MESSAGE)"

lemma grows_refl: "grows s s"
  by (auto simp: grows_def intro: exI [of _ "[]"])

lemma grows_trans: "grows s s1 \<Longrightarrow> grows s1 s2 \<Longrightarrow> grows s s2"
  unfolding grows_def by (metis fold_append comp_apply)

lemma grows_pushes: "length (snd s) + length xs \<le> MAX_EGFX_MESSAGE \<Longrightarrow> grows s (fold rdp8_push xs s)"
  by (auto simp: grows_def)

lemma grows_push: "length (snd s) < MAX_EGFX_MESSAGE \<Longrightarrow> grows s (rdp8_push x s)"
  using grows_pushes [of s "[x]"] by simp

lemma grows_ok: "grows s s' \<Longrightarrow> ring_ok (fst s) \<Longrightarrow> ring_ok (fst s')"
  by (auto simp: grows_def ring.inv_puts)

lemma seg_step_grows:
  assumes "ring_ok (fst s)"
  shows "grows s (fst (seg_step b s))"
proof -
  have lit: "grows s (fst (seg_literal t b s))" for t b
    by (auto simp: seg_literal_def grows_refl not_le intro: grows_push split: sum.split)
  have run: "grows s (fst (seg_run b s))" for b
    by (auto simp: seg_run_def grows_refl intro: grows_pushes split: sum.split)
  have copy: "grows s (fst (seg_copy d b s))" if "d \<noteq> 0" for d b
  proof -
    have "1 \<le> d" using that by simp
    from copy_pushes [OF assms this] show ?thesis
      by (auto simp: seg_copy_def grows_refl not_less intro: grows_pushes split: sum.split)
  qed
  have "grows s (fst (seg_copy (unat v) b s))" if "v \<noteq> 0" for v :: u32 and b
    using copy [of "unat v"] that by (simp add: unat_eq_zero)
  then show ?thesis
    by (auto simp: seg_step_def Let_def grows_refl lit run split: sum.split)
qed

lemma seg_loop_grows: "ring_ok (fst s) \<Longrightarrow> grows s (fst (seg_loop b s))"
proof (induction b s rule: seg_loop.induct)
  case (1 b s)
  note step = seg_step_grows [OF "1.prems", of b]
  show ?case
  proof (cases "zb_left b = 0")
    case False
    obtain s' r where r: "seg_step b s = (s', r)" by fastforce
    with step have g: "grows s s'" by simp
    show ?thesis
    proof (cases r)
      case (Inr b')
      from "1.IH" [OF False r [symmetric] Inr] grows_ok [OF g "1.prems"]
      have "grows s' (fst (seg_loop b' s'))" by simp
      with grows_trans [OF g] show ?thesis using False r Inr by (simp add: seg_loop.simps [of b])
    qed (use False r g in \<open>simp add: seg_loop.simps [of b]\<close>)
  qed (simp add: seg_loop.simps [of b] grows_refl)
qed

lemma segment_grows: "ring_ok (fst s) \<Longrightarrow> grows s (fst (segment seg s))"
proof (cases seg)
  case (Cons flags data)
  assume "ring_ok (fst s)"
  then show ?thesis unfolding segment_def Let_def Cons list.case
    by (simp only: fst_conv grows_refl seg_loop_grows if_split [of "\<lambda>x. grows s (fst x)"] simp_thms not_less)
      (simp add: grows_pushes)
qed (simp add: segment_def grows_refl)

lemma segments_grow: "ring_ok (fst s) \<Longrightarrow> grows s (fst (segments_each n r s))"
proof (induction n arbitrary: r s)
  case (Suc n)
  have "grows s (fst (case segment seg s of (s', Inl e) \<Rightarrow> (s', Inl e) | (s', Inr u) \<Rightarrow> segments_each n r2 s'))"
    for seg r2
  proof -
    obtain s' x where x: "segment seg s = (s', x)" by fastforce
    then have g: "grows s s'" using segment_grows [OF Suc.prems, of seg] by simp
    then have "grows s (fst (segments_each n r2 s'))"
      using Suc.IH grows_ok [OF g Suc.prems] grows_trans by blast
    then show ?thesis using x g by (cases x) simp_all
  qed
  then show ?case by (auto simp: grows_refl split: sum.split)
qed (simp add: grows_refl)

lemma decompress_grows:
  assumes "ring_ok d"
  shows "grows (d, []) (fst (decompress d src))"
proof -
  have seg: "grows (d, []) (fst (segment seg (d, [])))" for seg using segment_grows [of "(d, [])"] assms by simp
  have segs: "grows (d, []) (fst (segments_each n r (d, [])))" for n r
    using segments_grow [of "(d, [])"] assms by simp
  have single: "grows (d, []) (fst (case x of Inl e \<Rightarrow> ((d, []), Inl e) | Inr (seg, u) \<Rightarrow> segment seg (d, [])))"
    for x :: "decode_error + bytes \<times> codec_reader"
    by (simp add: seg grows_refl split: sum.split)
  have multi: "grows (d, []) (fst (case x of Inl e \<Rightarrow> ((d, []), Inl e)
      | Inr (count, n, r) \<Rightarrow> if MAX_EGFX_MESSAGE < unat n then ((d, []), Inl (Budget z))
          else segments_each (unat count) r (d, [])))"
    for x :: "decode_error + u16 \<times> u32 \<times> codec_reader" and z
    by (simp add: segs grows_refl split: sum.split)
  show ?thesis
  proof (cases "cr_u8 (cr_new src ''zgfx segmented data'')")
    case (Inr p)
    obtain descriptor r1 where p: "p = (descriptor, r1)" by (cases p)
    show ?thesis
      unfolding decompress_def Let_def Inr p sum.case prod.case
      by (cases "descriptor = SINGLE"; cases "descriptor = MULTIPART")
        (simp_all only: if_True if_False simp_thms single multi grows_refl fst_conv)
  qed (simp add: decompress_def grows_refl)
qed

end
