(* ===== verification/Zgfx_Encode.thy ===== *)
theory Zgfx_Encode
  imports Zgfx_History
begin

text \<open>
  The reference encoder, and what it rests on: what one round of the token loop (\<open>zgfx.rs\<close>, \<open>segment\<close>) does with each form of token that
  is on the stream: a literal, a match, the unencoded run.
\<close>

section \<open>Operations\<close>

unbundle bit_operations_syntax

subsection \<open>Single bits and the length code\<close>

lemma of_bits_single [simp]: "of_bits [x] = (of_bool x :: 'a::len word)"
  by (simp add: of_bits_def)

lemma zb_bit_step:
  assumes "zb_ok b" and "zb_stream b = x # ys"
  obtains b' where "zb_bit b = Inr (of_bool x, b')" and "takes 1 b b'" and "zb_stream b' = ys"
  using zb_bits_step [OF assms(1), of "[x]" ys 1] assms(2) by (auto simp: zb_bit_def)

lemma length_width_step:
  assumes "zb_ok b" and "zb_stream b = replicate m True @ False # ys" and "extra + m \<le> 30"
  obtains b' where "length_width extra b = Inr (extra + m, b')" and "zb_ok b'" and "zb_stream b' = ys"
  using assms
proof (induction m arbitrary: extra b thesis)
  case 0
  from zb_bit_step [OF 0(2), of False ys] 0(3) obtain b' where
    "zb_bit b = Inr (0, b')" and "takes 1 b b'" and "zb_stream b' = ys" by auto
  then show ?case using 0(1) by (simp add: length_width.simps [of extra] takes_def)
next
  case (Suc m)
  from zb_bit_step [OF Suc.prems(2), of True "replicate m True @ False # ys"] Suc.prems(3) obtain b1 where
    b1: "zb_bit b = Inr (1, b1)" "takes 1 b b1" "zb_stream b1 = replicate m True @ False # ys" by auto
  have "extra + 1 + m \<le> 30" using Suc.prems(4) by simp
  from Suc.IH [OF _ takes_ok [OF b1(2)] b1(3) this] obtain b' where
    "length_width (extra + 1) b1 = Inr (extra + 1 + m, b')" "zb_ok b'" "zb_stream b' = ys" by blast
  then show ?case using b1 Suc.prems(1,4) by (simp add: length_width.simps [of extra])
qed

text \<open>The length code of the specification: three is one zero bit, and \<open>2 ^ e + v\<close> is unary \<open>e\<close>, then \<open>v\<close>.\<close>

definition length_code :: "nat \<Rightarrow> nat \<Rightarrow> bool list" where
  "length_code e v = True # replicate (e - 2) True @ False # to_bits e v"

lemma match_length_three:
  assumes "zb_ok b" and "zb_stream b = False # ys"
  obtains b' where "match_length b = Inr (3, b')" and "zb_ok b'" and "zb_stream b' = ys"
proof -
  from zb_bit_step [OF assms] obtain b' where "zb_bit b = Inr (0, b')" "takes 1 b b'" "zb_stream b' = ys"
    by auto
  then show ?thesis using that by (simp add: match_length_def takes_def)
qed

lemma match_length_step:
  assumes "zb_ok b" and "zb_stream b = length_code e v @ ys" and "2 \<le> e" and "e \<le> 30" and "v < 2 ^ e"
  obtains b' where "match_length b = Inr (v + 2 ^ e, b')" and "zb_ok b'" and "zb_stream b' = ys"
proof -
  let ?rest = "replicate (e - 2) True @ False # to_bits e v @ ys"
  from zb_bit_step [OF assms(1), of True ?rest] assms(2) obtain b1 where
    b1: "zb_bit b = Inr (1, b1)" "takes 1 b b1" "zb_stream b1 = ?rest" by (auto simp: length_code_def)
  have e: "2 + (e - 2) = e" using assms(3) by simp
  with assms(4) have "2 + (e - 2) \<le> 30" by simp
  from length_width_step [OF takes_ok [OF b1(2)] b1(3) this] obtain b2 where
    b2: "length_width 2 b1 = Inr (e, b2)" "zb_ok b2" "zb_stream b2 = to_bits e v @ ys" unfolding e by blast
  from zb_bits_step [OF b2(2,3), of e] assms(4) obtain b3 where
    b3: "zb_bits e b2 = Inr (of_bits (to_bits e v), b3)" "takes e b2 b3" "zb_stream b3 = ys" by auto
  have "unat (of_bits (to_bits e v) :: u32) = v"
    using assms(4,5) by (simp add: unat_of_bits of_to_bits_nat take_bit_nat_eq_self)
  then show ?thesis using that b1 b2 b3 by (simp add: match_length_def takes_def)
qed

subsection \<open>One token, one effect\<close>

lemma literal_step:
  assumes "zb_ok b" and "i < 37" and "\<not> tk_is_match (TOKENS ! i)"
    and "zb_stream b = code_bits (TOKENS ! i) @ vs @ ys" and "length vs = tk_value_bits (TOKENS ! i)"
    and "length (snd s) < MAX_EGFX_MESSAGE"
    and "x = (if vs = [] then ucast (tk_value_base (TOKENS ! i)) else ucast (of_bits vs :: u32))"
  obtains b' where "seg_step b s = (rdp8_push x s, Inr b')" and "zb_ok b'" and "zb_stream b' = ys"
proof -
  from next_token_hit [OF assms(1,2,4)] obtain b1 where
    b1: "next_token b = Inr (i, b1)" "takes (tk_len (TOKENS ! i)) b b1" "zb_stream b1 = vs @ ys" by blast
  have "length vs \<le> 32" using TOKEN_facts(4) [OF assms(2)] assms(5) by simp
  from zb_bits_step [OF takes_ok [OF b1(2)] b1(3) this assms(5) [symmetric]] obtain b2 where
    b2: "zb_bits (tk_value_bits (TOKENS ! i)) b1 = Inr (of_bits vs, b2)" "takes (length vs) b1 b2" "zb_stream b2 = ys"
    using assms(5) by metis
  show ?thesis
  proof (cases "vs = []")
    case True
    then have "tk_value_bits (TOKENS ! i) = 0" using assms(5) by simp
    then show ?thesis using that b1 assms(3,6,7) True takes_ok [OF b1(2)]
      by (simp add: seg_step_def seg_literal_def Let_def)
  next
    case False
    then have "tk_value_bits (TOKENS ! i) \<noteq> 0" using assms(5) by (metis length_0_conv)
    then show ?thesis using that b1 b2 assms(3,6,7) False takes_ok [OF b2(2)]
      by (simp add: seg_step_def seg_literal_def Let_def)
  qed
qed

lemma match_step:
  assumes "zb_ok b" and "i < 37" and "tk_is_match (TOKENS ! i)"
    and "zb_stream b = code_bits (TOKENS ! i) @ vs @ ys" and "length vs = tk_value_bits (TOKENS ! i)"
    and "distance = tk_value_base (TOKENS ! i) + of_bits vs"
  obtains b' where "seg_step b s = (if distance = 0 then seg_run b' s else seg_copy (unat distance) b' s)"
    and "takes (tk_len (TOKENS ! i) + length vs) b b'" and "zb_stream b' = ys"
proof -
  from next_token_hit [OF assms(1,2,4)] obtain b1 where
    b1: "next_token b = Inr (i, b1)" "takes (tk_len (TOKENS ! i)) b b1" "zb_stream b1 = vs @ ys" by blast
  have "length vs \<le> 32" using TOKEN_facts(4) [OF assms(2)] assms(5) by simp
  from zb_bits_step [OF takes_ok [OF b1(2)] b1(3) this assms(5) [symmetric]] obtain b2 where
    b2: "zb_bits (tk_value_bits (TOKENS ! i)) b1 = Inr (of_bits vs, b2)" "takes (length vs) b1 b2" "zb_stream b2 = ys"
    using assms(5) by metis
  show ?thesis using that [of b2] b1 b2 assms(3,6) takes_trans [OF b1(2) b2(2)]
    by (simp add: seg_step_def Let_def)
qed

lemma copy_effect:
  assumes "zb_ok b" and "ring_ok (fst s)" and "match_length b = Inr (n, b')"
    and "1 \<le> d" and "d \<le> HISTORY" and "length (snd s) + n \<le> MAX_EGFX_MESSAGE"
  shows "seg_copy d b s = (fold rdp8_push (lz_bytes d n (ring_window (fst s))) s, Inr b')"
  using assms copy_pushes [OF assms(2,4,5)] by (simp add: seg_copy_def)

lemma run_effect:
  assumes "zb_ok b" and "length run < 2 ^ 15" and "length (snd s) + length run \<le> MAX_EGFX_MESSAGE"
    and "length pad = (8 - (zb_consumed b + 15) mod 8) mod 8"
    and "zb_stream b = to_bits 15 (length run) @ pad @ bits_of_bytes run @ ys"
  obtains b' where "seg_run b s = (fold rdp8_push run s, Inr b')" and "zb_ok b'" and "zb_stream b' = ys"
proof -
  from zb_bits_step [OF assms(1,5), of 15] obtain b1 where
    b1: "zb_bits 15 b = Inr (of_bits (to_bits 15 (length run)), b1)" "takes 15 b b1"
      "zb_stream b1 = pad @ bits_of_bytes run @ ys" by auto
  have c: "zb_consumed b1 = zb_consumed b + 15" using b1(2) by (simp add: takes_def)
  from zb_align_step [OF takes_ok [OF b1(2)] b1(3)] assms(4) c obtain b2 where
    b2: "zb_align b1 = Inr b2" "takes (length pad) b1 b2" "zb_consumed b2 mod 8 = 0"
      "zb_stream b2 = bits_of_bytes run @ ys" by metis
  from zb_bytes_step [OF takes_ok [OF b2(2)] b2(3,4)] obtain b3 where
    b3: "zb_bytes (length run) b2 = Inr (run, b3)" "takes (8 * length run) b2 b3" "zb_stream b3 = ys" by blast
  have "unat (of_bits (to_bits 15 (length run)) :: u32) = length run"
    using assms(2) by (simp add: unat_of_bits of_to_bits_nat take_bit_nat_eq_self)
  then have "seg_run b s = (fold rdp8_push run s, Inr b3)"
    using b1(1) b2(1) b3(1) assms(3) by (simp add: seg_run_def)
  then show ?thesis using that b3 by (simp add: takes_def)
qed

section \<open>The encoder\<close>

text \<open>
  The reference encoder for the RDP 8.0 compressor (\<open>crates/rdp-codecs/src/encode.rs\<close>: the
  \<open>BitWriter\<close> and module \<open>zgfx\<close>), and the round trip: the decompressor, whatever it has in its
  history, turns every message of the encoder back into the data.
\<close>

subsection \<open>The bit writer\<close>

record bit_writer =
  bw_out :: bytes
  bw_acc :: u32
  bw_n :: nat

definition bw_new :: bit_writer where
  "bw_new = \<lparr>bw_out = [], bw_acc = 0, bw_n = 0\<rparr>"

definition bw_put_bit :: "u32 \<Rightarrow> nat \<Rightarrow> bit_writer \<Rightarrow> bit_writer" where
  "bw_put_bit v i w =
     (let acc = push_bit 1 (bw_acc w) OR (drop_bit i v AND 1); n = bw_n w + 1
      in if n = 8 then \<lparr>bw_out = bw_out w @ [ucast acc], bw_acc = 0, bw_n = 0\<rparr>
         else w\<lparr>bw_acc := acc, bw_n := n\<rparr>)"

definition bw_put :: "u32 \<Rightarrow> nat \<Rightarrow> bit_writer \<Rightarrow> bit_writer" where
  "bw_put v k w = fold (bw_put_bit v) (rev [0..<k]) w"

definition bw_padding :: "bit_writer \<Rightarrow> u8" where
  "bw_padding w = of_nat ((8 - bw_n w) mod 8)"

definition bw_align :: "bit_writer \<Rightarrow> bit_writer" where
  "bw_align w = (if 0 < bw_n w then bw_put 0 (8 - bw_n w) w else w)"

text \<open>\<open>None\<close> where the \<open>assert_eq!\<close> on the byte boundary panics.\<close>

definition bw_raw :: "bytes \<Rightarrow> bit_writer \<Rightarrow> bit_writer option" where
  "bw_raw bs w = (if bw_n w = 0 then Some (w\<lparr>bw_out := bw_out w @ bs\<rparr>) else None)"

definition bw_finish :: "bit_writer \<Rightarrow> bytes" where
  "bw_finish w = (if 0 < bw_n w then bw_out w @ [ucast (push_bit (8 - bw_n w) (bw_acc w))] else bw_out w)"

text \<open>What a writer has written.\<close>

definition bw_bits :: "bit_writer \<Rightarrow> bool list" where
  "bw_bits w = bits_of_bytes (bw_out w) @ to_bits (bw_n w) (bw_acc w)"

definition bw_ok :: "bit_writer \<Rightarrow> bool" where
  "bw_ok w \<longleftrightarrow> bw_n w < 8"

lemma bw_new_simps [simp]: "bw_ok bw_new" "bw_bits bw_new = []"
  by (simp_all add: bw_new_def bw_ok_def bw_bits_def)

lemma bit_double: "bit (a * 2) i \<longleftrightarrow> i < LENGTH('a) \<and> 0 < i \<and> bit a (i - 1)" for a :: "'a::len word"
proof -
  have "a * 2 = push_bit 1 a" by (simp add: push_bit_eq_mult)
  then show ?thesis by (simp only: bit_simps) auto
qed

lemma to_bits_shift_in:
  "k < LENGTH('a) \<Longrightarrow> to_bits (Suc k) (push_bit 1 a OR (x AND 1)) = to_bits k a @ [bit x 0]" for a x :: "'a::len word"
  by (rule nth_equalityI) (auto simp: nth_to_bits nth_append bit_simps bit_double bit_1_iff less_Suc_eq)

lemma to_bits_ucast: "k \<le> LENGTH('b::len) \<Longrightarrow> k \<le> LENGTH('a::len) \<Longrightarrow> to_bits k (ucast (a :: 'a word) :: 'b word) = to_bits k a"
  by (rule nth_equalityI) (auto simp: nth_to_bits bit_unsigned_iff)

lemma bw_put_bit:
  assumes "bw_ok w"
  shows "bw_ok (bw_put_bit v i w) \<and> bw_bits (bw_put_bit v i w) = bw_bits w @ [bit v i]"
proof -
  have "to_bits (Suc (bw_n w)) (push_bit 1 (bw_acc w) OR (drop_bit i v AND 1)) = to_bits (bw_n w) (bw_acc w) @ [bit v i]"
    using assms by (subst to_bits_shift_in) (simp_all add: bw_ok_def bit_drop_bit_eq)
  then show ?thesis using assms
    by (auto simp: bw_put_bit_def Let_def bw_ok_def bw_bits_def to_bits_ucast)
qed

lemma bw_put_spec: "bw_ok w \<Longrightarrow> bw_ok (bw_put v k w) \<and> bw_bits (bw_put v k w) = bw_bits w @ to_bits k v"
proof (induction k arbitrary: w)
  case (Suc k)
  have "bw_put v (Suc k) w = bw_put v k (bw_put_bit v k w)" by (simp add: bw_put_def)
  with Suc bw_put_bit [OF Suc.prems, of v k] show ?case by (simp add: to_bits_Suc)
qed (simp add: bw_put_def)

lemma bw_align_spec:
  assumes "bw_ok w"
  shows "bw_n (bw_align w) = 0 \<and> bw_bits (bw_align w) = bw_bits w @ replicate ((8 - length (bw_bits w) mod 8) mod 8) False"
proof -
  have len: "length (bw_bits w) mod 8 = bw_n w" using assms by (simp add: bw_bits_def bw_ok_def)
  show ?thesis
  proof (cases "bw_n w = 0")
    case True
    then show ?thesis using len by (simp add: bw_align_def)
  next
    case False
    let ?w = "bw_put 0 (8 - bw_n w) w"
    from bw_put_spec [OF assms] have b: "bw_ok ?w" "bw_bits ?w = bw_bits w @ to_bits (8 - bw_n w) (0 :: u32)"
      by simp_all
    have "to_bits (8 - bw_n w) (0 :: u32) = replicate (8 - bw_n w) False"
      by (rule nth_equalityI) (simp_all add: nth_to_bits)
    moreover have "length (bw_bits ?w) mod 8 = 0"
    proof -
      have "length (bw_bits ?w) = 8 * (length (bw_out w) + 1)" using b(2) False assms by (simp add: bw_bits_def bw_ok_def)
      then show ?thesis by simp
    qed
    then have "bw_n ?w = 0" using b(1) by (simp add: bw_bits_def bw_ok_def)
    ultimately show ?thesis using b len False by (simp add: bw_align_def)
  qed
qed

lemma bw_raw_spec:
  "bw_n w = 0 \<Longrightarrow> \<exists>w'. bw_raw bs w = Some w' \<and> bw_n w' = 0 \<and> bw_bits w' = bw_bits w @ bits_of_bytes bs"
  by (simp add: bw_raw_def bw_bits_def)

lemma bw_finish_spec:
  assumes "bw_ok w"
  shows "bits_of_bytes (bw_finish w) = bw_bits w @ replicate (unat (bw_padding w)) False"
proof -
  have "to_bits 8 (ucast (push_bit (8 - bw_n w) (bw_acc w)) :: u8) =
      to_bits (bw_n w) (bw_acc w) @ replicate (8 - bw_n w) False"
    using assms by (intro nth_equalityI) (auto simp: nth_to_bits nth_append bit_simps bit_unsigned_iff bw_ok_def)
  moreover have "unat (bw_padding w) = (8 - bw_n w) mod 8"
    by (simp add: bw_padding_def unsigned_of_nat take_bit_nat_eq_self)
  ultimately show ?thesis using assms by (simp add: bw_finish_def bw_bits_def bw_ok_def)
qed

subsection \<open>The encoder\<close>

definition COMPRESSED :: u8 where "COMPRESSED = 0x24"
definition UNCOMPRESSED :: u8 where "UNCOMPRESSED = 0x04"

definition put_literal :: "u8 \<Rightarrow> bit_writer \<Rightarrow> bit_writer" where
  "put_literal b w =
     (case find (\<lambda>t. \<not> tk_is_match t \<and> tk_value_bits t = 0 \<and> tk_value_base t = ucast b) TOKENS of
        Some t \<Rightarrow> bw_put (of_nat (tk_code t)) (tk_len t) w
      | None \<Rightarrow>
          (let t = TOKENS ! 0
           in bw_put (ucast b) 8 (bw_put (of_nat (tk_code t)) (tk_len t) w)))"

definition put_match_token :: "u32 \<Rightarrow> bit_writer \<Rightarrow> bit_writer" where
  "put_match_token distance w =
     (let t = TOKENS ! 1 in bw_put distance (tk_value_bits t) (bw_put (of_nat (tk_code t)) (tk_len t) w))"

text \<open>The \<open>while\<close> that finds the width of a length.\<close>

function length_extra :: "nat \<Rightarrow> nat \<Rightarrow> nat" where
  "length_extra extra len = (if 2 ^ (extra + 1) \<le> len then length_extra (extra + 1) len else extra)"
  by pat_completeness auto
termination
proof (relation "measure (\<lambda>(extra, len). len - extra)", simp)
  fix extra len :: nat
  assume "2 ^ (extra + 1) \<le> len"
  moreover have "extra + 1 < 2 ^ (extra + 1)" by (rule less_exp)
  ultimately show "((extra + 1, len), extra, len) \<in> measure (\<lambda>(extra, len). len - extra)" by simp
qed

declare length_extra.simps [simp del]

definition put_length :: "nat \<Rightarrow> bit_writer \<Rightarrow> bit_writer" where
  "put_length len w =
     (if len = 3 then bw_put 0 1 w
      else
        let extra = length_extra 2 len;
            w1 = (bw_put 1 1 ^^ (extra - 2)) (bw_put 1 1 w)
        in bw_put (of_nat (len - 2 ^ extra)) extra (bw_put 0 1 w1))"

definition seg_bytes :: "u8 \<Rightarrow> bytes \<Rightarrow> u8 \<Rightarrow> bytes" where
  "seg_bytes flags body pad = (flags # body) @ (if flags AND 0x20 \<noteq> 0 then [pad] else [])"

definition single :: "bytes \<Rightarrow> bytes" where
  "single seg = 0xE0 # seg"

definition single_uncompressed :: "bytes \<Rightarrow> bytes" where
  "single_uncompressed data = single (seg_bytes UNCOMPRESSED data 0)"

text \<open>How far the data repeats itself at a distance, the \<open>while\<close> of the search.\<close>

function run_at :: "bytes \<Rightarrow> nat \<Rightarrow> nat \<Rightarrow> nat \<Rightarrow> nat" where
  "run_at data i d n =
     (if i + n < length data \<and> n < 255 \<and> data ! (i + n) = data ! (i - d + n mod d)
      then run_at data i d (n + 1) else n)"
  by pat_completeness auto
termination by (relation "measure (\<lambda>(data, i, d, n). 255 - n)") auto

declare run_at.simps [simp del]

definition better :: "bytes \<Rightarrow> nat \<Rightarrow> nat \<Rightarrow> nat \<times> nat \<Rightarrow> nat \<times> nat" where
  "better data i d best = (let n = run_at data i d 0 in if 3 \<le> n \<and> fst best < n then (n, d) else best)"

definition best_match :: "bytes \<Rightarrow> nat \<Rightarrow> nat \<times> nat" where
  "best_match data i = fold (better data i) [1..<min i 31 + 1] (0, 0)"

function compress_from :: "bytes \<Rightarrow> nat \<Rightarrow> bit_writer \<Rightarrow> bit_writer" where
  "compress_from data i w =
     (if i < length data then
        (let best = best_match data i
         in if 3 \<le> fst best
            then compress_from data (i + fst best) (put_length (fst best) (put_match_token (of_nat (snd best)) w))
            else compress_from data (i + 1) (put_literal (data ! i) w))
      else w)"
  by pat_completeness auto
termination by (relation "measure (\<lambda>(data, i, w). length data - i)") (auto simp: Let_def)

declare compress_from.simps [simp del]

definition single_compressed :: "bytes \<Rightarrow> bytes" where
  "single_compressed data =
     (let w = compress_from data 0 bw_new in single (seg_bytes COMPRESSED (bw_finish w) (bw_padding w)))"

text \<open>\<open>None\<close> where the source panics: an \<open>assert!\<close>, or the underflow of a length below three.\<close>

definition single_compressed_match :: "u32 \<Rightarrow> nat \<Rightarrow> bytes option" where
  "single_compressed_match distance len =
     (if 1 \<le> distance \<and> distance < 32 \<and> 3 \<le> len then
        (let w = put_length len (put_match_token distance bw_new)
         in Some (single (seg_bytes COMPRESSED (bw_finish w) (bw_padding w))))
      else None)"

definition single_unencoded_run :: "bytes \<Rightarrow> bytes option" where
  "single_unencoded_run data =
     (if length data < 2 ^ 15 then
        map_option (\<lambda>w. single (seg_bytes COMPRESSED (bw_finish w) (bw_padding w)))
          (bw_raw data (bw_align (bw_put (of_nat (length data)) 15 (put_match_token 0 bw_new))))
      else None)"

definition multipart :: "bytes list \<Rightarrow> bytes" where
  "multipart parts =
     0xE1 # to_le_bytes (of_nat (length parts) :: u16) @
     to_le_bytes (of_nat (sum_list (map length parts)) :: u32) @
     concat (map (\<lambda>p. let seg = seg_bytes UNCOMPRESSED p 0 in to_le_bytes (of_nat (length seg) :: u32) @ seg) parts)"

end
