(* ===== verification/Zgfx_Roundtrip.thy ===== *)
theory Zgfx_Roundtrip
  imports Zgfx_Encode
begin

text \<open>
  Why the RDP 8.0 decompressor (\<open>zgfx.rs\<close>) reads what the reference encoder (\<open>encode.rs\<close>) wrote:
  each token the encoder emits is decoded to the bytes it stands for, given that the history
  ends with the data before it, and the greedy search only emits copies that repeat the data.
\<close>

unbundle bit_operations_syntax

subsection \<open>The bits of one token\<close>

lemma to_bits_of_nat: "k \<le> LENGTH('a::len) \<Longrightarrow> to_bits k (of_nat n :: 'a word) = to_bits k n"
  by (rule nth_equalityI) (auto simp: nth_to_bits bit_simps)

lemma TOKEN_0: "code_bits (TOKENS ! 0) = [False]" "tk_is_match (TOKENS ! 0) = False" "tk_value_bits (TOKENS ! 0) = 8"
  by (simp_all add: TOKENS_def lit_def code_bits_def to_bits_Suc eval_nat_numeral)

lemma TOKEN_1: "tk_is_match (TOKENS ! 1)" "tk_value_bits (TOKENS ! 1) = 5" "tk_value_base (TOKENS ! 1) = 0"
    "tk_len (TOKENS ! 1) = 5"
  by (simp_all add: TOKENS_def lit_def mat_def)

lemmas TOKEN_1' = TOKEN_1 [unfolded One_nat_def]

definition literal_bits :: "u8 \<Rightarrow> bool list" where
  "literal_bits b =
     (case find (\<lambda>t. \<not> tk_is_match t \<and> tk_value_bits t = 0 \<and> tk_value_base t = ucast b) TOKENS of
        Some t \<Rightarrow> code_bits t
      | None \<Rightarrow> code_bits (TOKENS ! 0) @ to_bits 8 b)"

definition width_bits :: "nat \<Rightarrow> bool list" where
  "width_bits len =
     (if len = 3 then [False]
      else (let e = length_extra 2 len in length_code e (len - 2 ^ e)))"

definition copy_bits :: "nat \<Rightarrow> nat \<Rightarrow> bool list" where
  "copy_bits d len = code_bits (TOKENS ! 1) @ to_bits 5 d @ width_bits len"

lemma find_token:
  assumes "find P TOKENS = Some t"
  shows "\<exists>i<37. t = TOKENS ! i \<and> P t"
  using assms by (auto simp: find_Some_iff)

lemma put_code: "i < 37 \<Longrightarrow> bw_ok w \<Longrightarrow> bw_ok (bw_put (of_nat (tk_code (TOKENS ! i))) (tk_len (TOKENS ! i)) w) \<and>
    bw_bits (bw_put (of_nat (tk_code (TOKENS ! i))) (tk_len (TOKENS ! i)) w) = bw_bits w @ code_bits (TOKENS ! i)"
  using TOKEN_facts(2) [of i] by (simp add: bw_put_spec code_bits_def to_bits_of_nat)

lemma put_literal_spec:
  assumes "bw_ok w"
  shows "bw_ok (put_literal b w) \<and> bw_bits (put_literal b w) = bw_bits w @ literal_bits b"
proof -
  have b8: "to_bits 8 (ucast b :: u32) = to_bits 8 b" by (rule to_bits_ucast) simp_all
  show ?thesis
  proof (cases "find (\<lambda>t. \<not> tk_is_match t \<and> tk_value_bits t = 0 \<and> tk_value_base t = ucast b) TOKENS")
    case None
    then show ?thesis using put_code [of 0, OF _ assms]
      by (simp add: put_literal_def literal_bits_def Let_def bw_put_spec b8)
  next
    case (Some t)
    from find_token [OF Some] put_code [OF _ assms] show ?thesis
      using Some by (auto simp: put_literal_def literal_bits_def)
  qed
qed

lemma put_match_spec:
  "bw_ok w \<Longrightarrow> bw_ok (put_match_token (of_nat d) w) \<and>
     bw_bits (put_match_token (of_nat d) w) = bw_bits w @ code_bits (TOKENS ! 1) @ to_bits 5 d"
  using put_code [of 1 w] by (simp add: put_match_token_def Let_def bw_put_spec TOKEN_1' to_bits_of_nat)

lemma put_ones: "bw_ok w \<Longrightarrow> bw_ok ((bw_put 1 1 ^^ m) w) \<and> bw_bits ((bw_put 1 1 ^^ m) w) = bw_bits w @ replicate m True"
proof (induction m)
  case (Suc m)
  then show ?case by (simp add: bw_put_spec to_bits_def replicate_append_same)
qed simp

lemma length_extra_spec:
  "2 ^ x \<le> len \<Longrightarrow> x \<le> length_extra x len \<and> 2 ^ length_extra x len \<le> len \<and> len < 2 ^ (length_extra x len + 1)"
proof (induction x len rule: length_extra.induct)
  case (1 x len)
  then show ?case by (cases "2 ^ (x + 1) \<le> len") (simp_all add: length_extra.simps [of x])
qed

lemma put_length_spec:
  assumes "bw_ok w" and "len < 2 ^ 31"
  shows "bw_ok (put_length len w) \<and> bw_bits (put_length len w) = bw_bits w @ width_bits len"
proof (cases "len = 3")
  case True
  then show ?thesis using assms by (simp add: put_length_def width_bits_def bw_put_spec to_bits_def)
next
  case False
  define e where "e = length_extra 2 len"
  have "e \<le> 32"
  proof (cases "4 \<le> len")
    case True
    then have "2 ^ e < (2 :: nat) ^ 31" using length_extra_spec [of 2 len] assms(2) by (simp add: e_def)
    then have "e < 31" by (rule power_less_imp_less_exp [rotated]) simp
    then show ?thesis by simp
  next
    case False
    then have "e = 2" by (simp add: e_def length_extra.simps)
    then show ?thesis by simp
  qed
  moreover have "bw_ok (bw_put 1 1 w)" "bw_bits (bw_put 1 1 w) = bw_bits w @ [True]"
    using bw_put_spec [OF assms(1), of 1 1] by (simp_all add: to_bits_def)
  ultimately show ?thesis using False put_ones [of "bw_put 1 1 w" "e - 2"]
    by (simp add: put_length_def width_bits_def e_def [symmetric] Let_def bw_put_spec length_code_def
        to_bits_of_nat) (simp add: to_bits_def)
qed

subsection \<open>Each token is decoded\<close>

lemma literal_decodes:
  assumes "zb_ok b" and "zb_stream b = literal_bits x @ ys" and "length (snd s) < MAX_EGFX_MESSAGE"
  obtains b' where "seg_step b s = (rdp8_push x s, Inr b')" and "zb_ok b'" and "zb_stream b' = ys"
proof (cases "find (\<lambda>t. \<not> tk_is_match t \<and> tk_value_bits t = 0 \<and> tk_value_base t = ucast x) TOKENS")
  case None
  then have s: "zb_stream b = code_bits (TOKENS ! 0) @ to_bits 8 x @ ys" using assms(2) by (simp add: literal_bits_def)
  have "ucast (of_bits (to_bits 8 x) :: u32) = x"
    by (rule bit_word_eqI) (auto simp: bit_simps bit_unsigned_iff nth_to_bits)
  moreover have "to_bits 8 x \<noteq> []" by (metis length_to_bits list.size(3) zero_neq_numeral)
  ultimately have x: "(if to_bits 8 x = [] then ucast (tk_value_base (TOKENS ! 0)) else ucast (of_bits (to_bits 8 x) :: u32)) = x"
    by (simp only: if_False)
  show ?thesis
    by (rule literal_step [OF assms(1) _ _ s _ assms(3) x [symmetric]]) (simp_all add: TOKEN_0 that)
next
  case (Some t)
  from find_token [OF Some] obtain i where i: "i < 37" "t = TOKENS ! i" "\<not> tk_is_match (TOKENS ! i)"
    "tk_value_bits (TOKENS ! i) = 0" "tk_value_base (TOKENS ! i) = ucast x"
    by blast
  then have s: "zb_stream b = code_bits (TOKENS ! i) @ [] @ ys" using assms(2) Some by (simp add: literal_bits_def)
  have "ucast (ucast x :: u32) = x" by (rule bit_word_eqI) (auto simp: bit_simps bit_unsigned_iff)
  then have x: "(if [] = ([] :: bool list) then ucast (tk_value_base (TOKENS ! i)) else ucast (of_bits [] :: u32)) = x"
    unfolding i(5) by (simp only: if_True simp_thms)
  show ?thesis by (rule literal_step [OF assms(1) i(1,3) s _ assms(3) x [symmetric]]) (simp_all add: i(4) that)
qed

lemma width_decodes:
  assumes "zb_ok b" and "zb_stream b = width_bits n @ ys" and "3 \<le> n" and "n < 2 ^ 31"
  obtains b' where "match_length b = Inr (n, b')" and "zb_ok b'" and "zb_stream b' = ys"
proof (cases "n = 3")
  case True
  then show ?thesis using match_length_three [OF assms(1)] assms(2) that by (auto simp: width_bits_def)
next
  case False
  define e where "e = length_extra 2 n"
  have e: "2 \<le> e" "2 ^ e \<le> n" "n < 2 ^ (e + 1)" using length_extra_spec [of 2 n] assms(3) False by (simp_all add: e_def)
  have "2 ^ e < (2 :: nat) ^ 31" using e(2) assms(4) by simp
  then have "e < 31" by (rule power_less_imp_less_exp [rotated]) simp
  then have "e \<le> 30" by simp
  moreover have "n - 2 ^ e < 2 ^ e" using e by simp
  ultimately show ?thesis
    using match_length_step [OF assms(1), of e "n - 2 ^ e" ys] assms(2) False e that
    by (auto simp: width_bits_def e_def [symmetric] Let_def)
qed

lemma copy_decodes:
  assumes "zb_ok b" and "zb_stream b = copy_bits d n @ ys" and "ring_ok (fst s)"
    and "1 \<le> d" and "d < 32" and "3 \<le> n" and "n < 2 ^ 31" and "length (snd s) + n \<le> MAX_EGFX_MESSAGE"
  obtains b' where "seg_step b s = (fold rdp8_push (lz_bytes d n (ring_window (fst s))) s, Inr b')"
    and "zb_ok b'" and "zb_stream b' = ys"
proof -
  have s: "zb_stream b = code_bits (TOKENS ! 1) @ to_bits 5 d @ width_bits n @ ys"
    using assms(2) by (simp add: copy_bits_def)
  have u: "unat (of_bits (to_bits 5 d) :: u32) = d"
    using assms(5) by (simp add: unat_of_bits of_to_bits_nat take_bit_nat_eq_self)
  obtain b1 where
    b1: "seg_step b s = (if (of_bits (to_bits 5 d) :: u32) = 0 then seg_run b1 s
        else seg_copy (unat (of_bits (to_bits 5 d) :: u32)) b1 s)"
      "takes (tk_len (TOKENS ! 1) + length (to_bits 5 d)) b b1" "zb_stream b1 = width_bits n @ ys"
    by (rule match_step [OF assms(1) _ TOKEN_1(1) s, of "of_bits (to_bits 5 d)" s])
      (simp_all add: TOKEN_1')
  moreover have "(of_bits (to_bits 5 d) :: u32) \<noteq> 0" using u assms(4) by (metis unsigned_0 not_one_le_zero)
  ultimately have step: "seg_step b s = seg_copy d b1 s" using u by simp
  note ok = takes_ok [OF b1(2)]
  from width_decodes [OF ok b1(3) assms(6,7)] obtain b2 where
    b2: "match_length b1 = Inr (n, b2)" "zb_ok b2" "zb_stream b2 = ys" by blast
  have "d \<le> HISTORY" using assms(5) by (simp add: HISTORY_def)
  from copy_effect [OF ok assms(3) b2(1) assms(4) this assms(8)] step b2 that show ?thesis by simp
qed

subsection \<open>The greedy search\<close>

definition repeats :: "bytes \<Rightarrow> nat \<Rightarrow> nat \<Rightarrow> nat \<Rightarrow> bool" where
  "repeats data i d n \<longleftrightarrow> i + n \<le> length data \<and> (\<forall>m<n. data ! (i + m) = data ! (i - d + m mod d))"

lemma run_at_repeats:
  "repeats data i d n \<Longrightarrow> n \<le> 255 \<Longrightarrow> repeats data i d (run_at data i d n) \<and> run_at data i d n \<le> 255"
proof (induction data i d n rule: run_at.induct)
  case (1 data i d n)
  show ?case
  proof (cases "i + n < length data \<and> n < 255 \<and> data ! (i + n) = data ! (i - d + n mod d)")
    case True
    then have "repeats data i d (n + 1)" using "1.prems"(1) by (auto simp: repeats_def less_Suc_eq)
    with "1.IH" [OF True] True show ?thesis by (simp add: run_at.simps [of data i d n])
  next
    case False
    then have "run_at data i d n = n" by (subst run_at.simps) (simp only: if_False)
    with "1.prems" show ?thesis by simp
  qed
qed

definition found :: "bytes \<Rightarrow> nat \<Rightarrow> nat \<times> nat \<Rightarrow> bool" where
  "found data i best \<longleftrightarrow> fst best = 0 \<or>
     (repeats data i (snd best) (fst best) \<and> 1 \<le> snd best \<and> snd best \<le> i \<and> snd best < 32 \<and> fst best \<le> 255)"

lemma better_found:
  assumes "found data i best" and "i < length data" and "1 \<le> d" "d \<le> i" "d < 32"
  shows "found data i (better data i d best)"
proof -
  have "repeats data i d 0" using assms(2) by (simp add: repeats_def)
  from run_at_repeats [OF this] have "repeats data i d (run_at data i d 0) \<and> run_at data i d 0 \<le> 255" by simp
  with assms show ?thesis unfolding better_def Let_def by (auto simp: found_def)
qed

lemma best_match_repeats:
  assumes "best_match data i = (n, d)" and "3 \<le> n" and "i < length data"
  shows "repeats data i d n \<and> 1 \<le> d \<and> d \<le> i \<and> d < 32 \<and> n \<le> 255"
proof -
  have "found data i (fold (better data i) ds best)"
    if "\<And>d. d \<in> set ds \<Longrightarrow> 1 \<le> d \<and> d \<le> i \<and> d < 32" and "found data i best" for ds best
    using that
  proof (induction ds arbitrary: best)
    case (Cons d ds)
    from Cons.prems(1) [of d] have "1 \<le> d" "d \<le> i" "d < 32" by simp_all
    from better_found [OF Cons.prems(2) assms(3) this] Cons.IH Cons.prems(1) show ?case by simp
  qed simp
  then have "found data i (best_match data i)"
    unfolding best_match_def by this (auto simp only: set_upt atLeastLessThan_iff, simp_all add: found_def)
  with assms(1,2) show ?thesis by (simp add: found_def)
qed

text \<open>The history ends with the data before position \<open>i\<close>, as far back as a match can reach.\<close>

definition tracks :: "bytes \<Rightarrow> nat \<Rightarrow> rdp8_out \<Rightarrow> bool" where
  "tracks data i s \<longleftrightarrow> ring_ok (fst s) \<and>
     (\<forall>d. 1 \<le> d \<and> d \<le> i \<and> d < 32 \<longrightarrow> ring_window (fst s) ! (HISTORY - d) = data ! (i - d))"

lemma tracks_pushes:
  assumes "tracks data i s" and "i + n \<le> length data"
  shows "tracks data (i + n) (fold rdp8_push (take n (drop i data)) s)"
proof -
  let ?xs = "take n (drop i data)" and ?w = "ring_window (fst s)"
  have ok: "ring_ok (fst s)" and len: "length ?xs = n" and w: "length ?w = HISTORY"
    using assms length_ring_window by (auto simp: tracks_def)
  have H: "32 \<le> HISTORY" by (simp add: HISTORY_def)
  have "drop n (?w @ ?xs) ! (HISTORY - d) = data ! (i + n - d)" if d: "1 \<le> d" "d \<le> i + n" "d < 32" for d
  proof -
    have "drop n (?w @ ?xs) ! (HISTORY - d) = (?w @ ?xs) ! (n + (HISTORY - d))"
      by (rule nth_drop) (use w assms(2) in auto)
    also have "\<dots> = data ! (i + n - d)"
    proof (cases "d \<le> n")
      case True
      then have "n + (HISTORY - d) - HISTORY = n - d" and "\<not> n + (HISTORY - d) < HISTORY" using H d by simp_all
      then show ?thesis using True w assms(2) d by (simp add: nth_append)
    next
      case False
      then have "n + (HISTORY - d) = HISTORY - (d - n)" and "HISTORY - (d - n) < HISTORY" using H d by simp_all
      moreover have "1 \<le> d - n \<and> d - n \<le> i \<and> d - n < 32" using False d by auto
      then have "?w ! (HISTORY - (d - n)) = data ! (i - (d - n))"
        using assms(1) unfolding tracks_def by blast
      ultimately show ?thesis using False w d by (simp add: nth_append)
    qed
    finally show ?thesis .
  qed
  moreover have "ring_ok (fst (fold rdp8_push ?xs s))" using ring.inv_puts [OF ok] .
  ultimately show ?thesis using pushes_window [OF ok, of ?xs] len by (simp add: tracks_def)
qed

lemma tracks_copy:
  assumes "tracks data i s" and "repeats data i d n" and "1 \<le> d" and "d \<le> i" and "d < 32"
  shows "lz_bytes d n (ring_window (fst s)) = take n (drop i data)"
proof (rule nth_equalityI)
  show "length (lz_bytes d n (ring_window (fst s))) = length (take n (drop i data))"
    using assms(2) by (auto simp: repeats_def)
next
  fix m assume "m < length (lz_bytes d n (ring_window (fst s)))"
  then have m: "m < n" by simp
  have w: "length (ring_window (fst s)) = HISTORY" using assms(1) length_ring_window by (simp add: tracks_def)
  have H: "32 \<le> HISTORY" by (simp add: HISTORY_def)
  define k where "k = d - m mod d"
  have "m mod d < d" using assms(3) by simp
  then have k: "1 \<le> k" "k \<le> d" "HISTORY - d + m mod d = HISTORY - k" "i - d + m mod d = i - k"
    using assms(4,5) H by (auto simp: k_def)
  have "lz_bytes d n (ring_window (fst s)) ! m = ring_window (fst s) ! (HISTORY - k)"
    using nth_lz_bytes [OF assms(3) _ m] w H assms(5) k(3) by simp
  also have "\<dots> = data ! (i - k)" using assms(1,4,5) k(1,2) by (simp add: tracks_def)
  also have "\<dots> = data ! (i + m)" using assms(2) m k(4) by (simp add: repeats_def)
  also have "\<dots> = take n (drop i data) ! m" using m assms(2) by (simp add: repeats_def)
  finally show "lz_bytes d n (ring_window (fst s)) ! m = take n (drop i data) ! m" .
qed

subsection \<open>The whole segment\<close>

lemma width_bits_short: "3 \<le> n \<Longrightarrow> n \<le> 255 \<Longrightarrow> length (width_bits n) \<le> 14"
proof -
  assume n: "3 \<le> n" "n \<le> 255"
  show ?thesis
  proof (cases "n = 3")
    case False
    define e where "e = length_extra 2 n"
    have "2 ^ e \<le> n" using length_extra_spec [of 2 n] n False by (simp add: e_def)
    with n have "2 ^ e < (2 :: nat) ^ 8" by simp
    then have "e < 8" by (rule power_less_imp_less_exp [rotated]) simp
    then show ?thesis using False by (simp add: width_bits_def Let_def length_code_def e_def [symmetric])
  qed (simp add: width_bits_def)
qed

lemma literal_bits_short: "1 \<le> length (literal_bits x) \<and> length (literal_bits x) \<le> 9"
proof (cases "find (\<lambda>t. \<not> tk_is_match t \<and> tk_value_bits t = 0 \<and> tk_value_base t = ucast x) TOKENS")
  case (Some t)
  then obtain i where "i < 37" "t = TOKENS ! i" using find_token by blast
  with Some TOKEN_facts [of i] show ?thesis by (auto simp: literal_bits_def)
qed (simp add: literal_bits_def TOKEN_0)

lemma copy_bits_short: "3 \<le> n \<Longrightarrow> n \<le> 255 \<Longrightarrow> 1 \<le> length (copy_bits d n) \<and> length (copy_bits d n) \<le> 9 * n"
  using width_bits_short [of n] by (simp add: copy_bits_def TOKEN_1')

text \<open>
  A bit string spells the rest of the data: read by the token loop behind the data up to \<open>i\<close>,
  it pushes exactly the rest.
\<close>

definition spells :: "bytes \<Rightarrow> nat \<Rightarrow> bool list \<Rightarrow> bool" where
  "spells data i bits \<longleftrightarrow> length bits \<le> 9 * (length data - i) \<and>
     (\<forall>b s. zb_ok b \<and> zb_stream b = bits \<and> tracks data i s \<and>
        length (snd s) + (length data - i) \<le> MAX_EGFX_MESSAGE \<longrightarrow>
      seg_loop b s = (fold rdp8_push (drop i data) s, Inr ()))"

lemma spells_end: "length data \<le> i \<Longrightarrow> spells data i []"
  by (auto simp: spells_def seg_loop.simps dest: length_zb_stream)

lemma spells_step:
  assumes "spells data (i + n) bits" and "i + n \<le> length data" and "1 \<le> n"
    and "1 \<le> length op" and "length op \<le> 9 * n"
    and step: "\<And>b s. zb_ok b \<Longrightarrow> zb_stream b = op @ bits \<Longrightarrow> tracks data i s \<Longrightarrow>
      length (snd s) + n \<le> MAX_EGFX_MESSAGE \<Longrightarrow>
      \<exists>b'. seg_step b s = (fold rdp8_push (take n (drop i data)) s, Inr b') \<and> zb_ok b' \<and> zb_stream b' = bits"
  shows "spells data i (op @ bits)"
  unfolding spells_def
proof (intro conjI allI impI)
  have "length bits \<le> 9 * (length data - (i + n))" using assms(1) by (simp add: spells_def)
  then show "length (op @ bits) \<le> 9 * (length data - i)" using assms(2,5) by simp
  fix b s
  assume a: "zb_ok b \<and> zb_stream b = op @ bits \<and> tracks data i s \<and>
    length (snd s) + (length data - i) \<le> MAX_EGFX_MESSAGE"
  let ?xs = "take n (drop i data)"
  have "length (snd s) + n \<le> MAX_EGFX_MESSAGE" using a assms(2) by linarith
  with a step [of b s] obtain b' where
    b': "seg_step b s = (fold rdp8_push ?xs s, Inr b')" "zb_ok b'" "zb_stream b' = bits" by auto
  have t: "tracks data (i + n) (fold rdp8_push ?xs s)" using tracks_pushes a assms(2) by blast
  have out: "length (snd (fold rdp8_push ?xs s)) + (length data - (i + n)) \<le> MAX_EGFX_MESSAGE"
    using a assms(2) by simp
  have "zb_left b \<noteq> 0" using a assms(4) length_zb_stream [of b] by auto
  then have "seg_loop b s = seg_loop b' (fold rdp8_push ?xs s)" using b'(1) by (simp add: seg_loop.simps [of b])
  also have "\<dots> = (fold rdp8_push (drop (i + n) data) (fold rdp8_push ?xs s), Inr ())"
    using assms(1) [unfolded spells_def] b' t out by blast
  also have "\<dots> = (fold rdp8_push (?xs @ drop (i + n) data) s, Inr ())"
    by (simp only: fold_append comp_apply)
  also have "?xs @ drop (i + n) data = drop i data"
    by (metis append_take_drop_id drop_drop add.commute)
  finally show "seg_loop b s = (fold rdp8_push (drop i data) s, Inr ())" .
qed

lemma spells_literal:
  assumes "spells data (i + 1) bits" and "i < length data"
  shows "spells data i (literal_bits (data ! i) @ bits)"
proof (rule spells_step [OF assms(1)])
  have d: "take 1 (drop i data) = [data ! i]" using assms(2) by (simp add: take_Suc_conv_app_nth)
  fix b and s :: rdp8_out assume "zb_ok b" "zb_stream b = literal_bits (data ! i) @ bits" "length (snd s) + 1 \<le> MAX_EGFX_MESSAGE"
  then show "\<exists>b'. seg_step b s = (fold rdp8_push (take 1 (drop i data)) s, Inr b') \<and> zb_ok b' \<and> zb_stream b' = bits"
    unfolding d using literal_decodes [of b "data ! i" bits s] by (metis Suc_eq_plus1 Suc_le_lessD fold_simps)
qed (use assms literal_bits_short [of "data ! i"] in auto)

lemma spells_copy:
  assumes "spells data (i + n) bits" and "repeats data i d n" and "1 \<le> d" "d \<le> i" "d < 32" "3 \<le> n" "n \<le> 255"
  shows "spells data i (copy_bits d n @ bits)"
proof (rule spells_step [OF assms(1)])
  fix b and s :: rdp8_out assume a: "zb_ok b" "zb_stream b = copy_bits d n @ bits" "tracks data i s" "length (snd s) + n \<le> MAX_EGFX_MESSAGE"
  have "ring_ok (fst s)" "n < 2 ^ 31" using a(3) assms(7) by (simp_all add: tracks_def)
  from copy_decodes [OF a(1,2) this(1) assms(3,5,6) this(2) a(4)] tracks_copy [OF a(3) assms(2-5)]
  show "\<exists>b'. seg_step b s = (fold rdp8_push (take n (drop i data)) s, Inr b') \<and> zb_ok b' \<and> zb_stream b' = bits"
    by metis
qed (use assms copy_bits_short [of n d] in \<open>auto simp: repeats_def\<close>)

lemma compress_spells:
  "bw_ok w \<Longrightarrow> \<exists>bits. bw_ok (compress_from data i w) \<and> bw_bits (compress_from data i w) = bw_bits w @ bits \<and> spells data i bits"
proof (induction data i w rule: compress_from.induct)
  case (1 data i w)
  show ?case
  proof (cases "i < length data")
    case False
    then have "compress_from data i w = w" by (simp add: compress_from.simps [of data i w])
    with spells_end [of data i] "1.prems" False show ?thesis by (intro exI [of _ "[]"]) simp
  next
    case True
    obtain n d where best: "best_match data i = (n, d)" by fastforce
    show ?thesis
    proof (cases "3 \<le> n")
      case copy: True
      from best_match_repeats [OF best copy True] have r: "repeats data i d n" "1 \<le> d" "d \<le> i" "d < 32" "n \<le> 255"
        by simp_all
      let ?w = "put_length n (put_match_token (of_nat d) w)"
      have c: "compress_from data i w = compress_from data (i + n) ?w"
        using True best copy by (simp add: compress_from.simps [of data i w])
      have w: "bw_ok ?w" "bw_bits ?w = bw_bits w @ copy_bits d n"
        using put_match_spec [OF "1.prems", of d] put_length_spec [of "put_match_token (of_nat d) w" n] r(5)
        by (simp_all add: copy_bits_def)
      from "1.IH"(1) [OF True refl] best copy w(1) obtain bits where
        "bw_ok (compress_from data (i + n) ?w)" "bw_bits (compress_from data (i + n) ?w) = bw_bits ?w @ bits"
        "spells data (i + n) bits" by auto
      with spells_copy [OF _ r(1-4) copy r(5)] w(2) c show ?thesis
        by (intro exI [of _ "copy_bits d n @ bits"]) simp
    next
      case lit: False
      let ?w = "put_literal (data ! i) w"
      have c: "compress_from data i w = compress_from data (i + 1) ?w"
        using True best lit by (simp add: compress_from.simps [of data i w])
      have w: "bw_ok ?w" "bw_bits ?w = bw_bits w @ literal_bits (data ! i)"
        using put_literal_spec [OF "1.prems"] by simp_all
      from "1.IH"(2) [OF True refl] best lit w(1) obtain bits where
        "bw_ok (compress_from data (i + 1) ?w)" "bw_bits (compress_from data (i + 1) ?w) = bw_bits ?w @ bits"
        "spells data (i + 1) bits" by auto
      with spells_literal [OF _ True] w(2) c show ?thesis
        by (intro exI [of _ "literal_bits (data ! i) @ bits"]) simp
    qed
  qed
qed

subsection \<open>Containers\<close>

lemma decompress_single:
  assumes "length seg < 2 ^ 62"
  shows "decompress d (single seg) = segment seg (d, [])"
proof -
  let ?r = "cr_new (single seg) ''zgfx segmented data''"
  have ok: "cr_ok ?r" and left: "cr_left ?r = 0xE0 # seg" using assms by (simp_all add: single_def)
  have "cr_remaining ?r = Suc (length seg)" by (simp add: length_cr_left [symmetric] left del: length_cr_left cr_new_simps)
  then have ok1: "cr_ok (cr_advance 1 ?r)" and n: "cr_remaining (cr_advance 1 ?r) = length seg" using ok by simp_all
  have "cr_u8 ?r = Inr (0xE0, cr_advance 1 ?r)" using cr_u8_spec [OF ok] by (simp add: single_def)
  then show ?thesis using cr_take_spec [OF ok1, of "length seg"] n
    by (simp add: decompress_def SINGLE_def single_def)
qed

lemma segment_compressed:
  assumes "bits_of_bytes body = bits @ replicate (unat pad) False" and "length body < 2 ^ 60"
  shows "segment (seg_bytes COMPRESSED body pad) s = seg_loop (zbits_new body (length bits)) s"
proof -
  have "length body * 8 = length bits + unat pad" using assms(1) by (auto dest: arg_cong [of _ _ length])
  moreover have "COMPRESSED AND 0x0F = COMPR_TYPE_RDP8" "COMPRESSED AND PACKET_COMPRESSED \<noteq> 0" "COMPRESSED AND 0x20 \<noteq> 0"
    by (simp_all add: COMPRESSED_def COMPR_TYPE_RDP8_def PACKET_COMPRESSED_def)
  ultimately show ?thesis using assms(2) by (simp add: segment_def seg_bytes_def Let_def)
qed

lemma new_reader:
  assumes "bits_of_bytes body = bits @ tail"
  shows "zb_ok (zbits_new body (length bits)) \<and> zb_stream (zbits_new body (length bits)) = bits"
proof -
  have "length bits \<le> 8 * length body" using assms by (auto dest: arg_cong [of _ _ length])
  then show ?thesis using assms by (simp add: zbits_new_ok zbits_new_stream)
qed

lemma single_compressed_decodes:
  assumes "ring_ok d" and "length data \<le> MAX_EGFX_MESSAGE"
  shows "decompress d (single_compressed data) = (fold rdp8_push data (d, []), Inr ())"
proof -
  define w where "w = compress_from data 0 bw_new"
  from compress_spells [of bw_new data 0] obtain bits where
    w: "bw_ok w" "bw_bits w = bits" "spells data 0 bits" by (auto simp: w_def)
  have body: "bits_of_bytes (bw_finish w) = bits @ replicate (unat (bw_padding w)) False"
    using bw_finish_spec [OF w(1)] w(2) by simp
  have "unat (bw_padding w) < 256" using unsigned_less [of "bw_padding w"] by simp
  then have "8 * length (bw_finish w) < 9 * MAX_EGFX_MESSAGE + 256"
    using arg_cong [OF body, of length] w(3) assms(2) by (simp add: spells_def)
  then have len: "length (bw_finish w) < 2 ^ 60" by (simp add: MAX_EGFX_MESSAGE_def)
  then have "length (seg_bytes COMPRESSED (bw_finish w) (bw_padding w)) < 2 ^ 62" by (simp add: seg_bytes_def)
  from decompress_single [OF this] segment_compressed [OF body len]
  have "decompress d (single_compressed data) = seg_loop (zbits_new (bw_finish w) (length bits)) (d, [])"
    by (simp add: single_compressed_def w_def [symmetric] Let_def)
  also have "\<dots> = (fold rdp8_push data (d, []), Inr ())"
    using w(3) new_reader [OF body] assms by (simp add: spells_def tracks_def)
  finally show ?thesis .
qed

text \<open>One match and nothing else, against whatever the history holds.\<close>

lemma width_bits_long:
  assumes "3 \<le> n" and "n < 2 ^ 31"
  shows "length (width_bits n) \<le> 64"
proof (cases "n = 3")
  case False
  define e where "e = length_extra 2 n"
  have e: "2 \<le> e" "2 ^ e \<le> n" using length_extra_spec [of 2 n] assms(1) False by (simp_all add: e_def)
  have "2 ^ e < (2 :: nat) ^ 31" using e(2) assms(2) by simp
  then have "e < 31" by (rule power_less_imp_less_exp [rotated]) simp
  then show ?thesis using False by (simp add: width_bits_def e_def [symmetric] Let_def length_code_def)
qed (simp add: width_bits_def)

lemma single_match_decodes:
  assumes "ring_ok d" and "n \<le> MAX_EGFX_MESSAGE" and "single_compressed_match distance n = Some src"
  shows "decompress d src = (fold rdp8_push (lz_bytes (unat distance) n (ring_window d)) (d, []), Inr ())"
proof -
  define w where "w = put_length n (put_match_token distance bw_new)"
  have m: "1 \<le> unat distance" "unat distance < 32" "3 \<le> n" and src: "src = single (seg_bytes COMPRESSED (bw_finish w) (bw_padding w))"
    using assms(3) by (auto simp: single_compressed_match_def w_def Let_def word_le_nat_alt word_less_nat_alt split: if_splits)
  have n: "n < 2 ^ 31" using assms(2) by (simp add: MAX_EGFX_MESSAGE_def)
  define bits where "bits = copy_bits (unat distance) n"
  have w: "bw_ok w" "bw_bits w = bits"
    using put_match_spec [of bw_new "unat distance"] put_length_spec [OF _ n, of "put_match_token distance bw_new"]
    by (simp_all add: w_def bits_def copy_bits_def)
  have body: "bits_of_bytes (bw_finish w) = bits @ replicate (unat (bw_padding w)) False"
    using bw_finish_spec [OF w(1)] w(2) by simp
  have "length bits \<le> 74" using width_bits_long [OF m(3) n] by (simp add: bits_def copy_bits_def TOKEN_1')
  moreover have "unat (bw_padding w) < 256" using unsigned_less [of "bw_padding w"] by simp
  ultimately have len: "length (bw_finish w) < 2 ^ 60"
    using arg_cong [OF body, of length] by simp
  then have "length (seg_bytes COMPRESSED (bw_finish w) (bw_padding w)) < 2 ^ 62" by (simp add: seg_bytes_def)
  from decompress_single [OF this] segment_compressed [OF body len]
  have dec: "decompress d src = seg_loop (zbits_new (bw_finish w) (length bits)) (d, [])" by (simp add: src)
  define b where "b = zbits_new (bw_finish w) (length bits)"
  have b: "zb_ok b" "zb_stream b = copy_bits (unat distance) n @ []" using new_reader [OF body] by (simp_all add: b_def bits_def)
  obtain b' where b': "seg_step b (d, []) = (fold rdp8_push (lz_bytes (unat distance) n (ring_window d)) (d, []), Inr b')"
    "zb_ok b'" "zb_stream b' = []"
    using copy_decodes [OF b, of "(d, [])"] assms(1,2) m n by auto
  have "zb_left b \<noteq> 0" "zb_left b' = 0"
    using length_zb_stream [OF b(1)] length_zb_stream [OF b'(2)] b(2) b'(3) by (auto simp: copy_bits_def TOKEN_1')
  then have "seg_loop b (d, []) = (fold rdp8_push (lz_bytes (unat distance) n (ring_window d)) (d, []), Inr ())"
    using b'(1) by (simp add: seg_loop.simps [of b] seg_loop.simps [of b'])
  then show ?thesis using dec by (simp add: b_def)
qed

text \<open>Several uncompressed segments.\<close>

lemma segment_uncompressed:
  "length (snd s) + length p \<le> MAX_EGFX_MESSAGE \<Longrightarrow> segment (seg_bytes UNCOMPRESSED p 0) s = (fold rdp8_push p s, Inr ())"
  by (simp add: segment_def seg_bytes_def UNCOMPRESSED_def COMPR_TYPE_RDP8_def PACKET_COMPRESSED_def)

definition part_bytes :: "bytes \<Rightarrow> bytes" where
  "part_bytes p = to_le_bytes (of_nat (length (seg_bytes UNCOMPRESSED p 0)) :: u32) @ seg_bytes UNCOMPRESSED p 0"

lemma segments_parts:
  assumes "cr_ok r" and "cr_left r = concat (map part_bytes parts)" and "length (snd s) + length (concat parts) \<le> MAX_EGFX_MESSAGE"
  shows "segments_each (length parts) r s = (fold rdp8_push (concat parts) s, Inr ())"
  using assms
proof (induction parts arbitrary: r s)
  case (Cons p parts)
  let ?seg = "seg_bytes UNCOMPRESSED p 0" and ?rest = "concat (map part_bytes parts)"
  have seg: "length ?seg < 2 ^ 32" using Cons.prems(3) by (simp add: seg_bytes_def UNCOMPRESSED_def MAX_EGFX_MESSAGE_def)
  then have num: "unat (of_nat (length ?seg) :: u32) = length ?seg" by (simp only: unat_of_nat) simp
  have left: "cr_left r = to_le_bytes (of_nat (length ?seg) :: u32) @ ?seg @ ?rest"
    using Cons.prems(2) by (simp add: part_bytes_def [of p])
  let ?r1 = "cr_advance 4 r" let ?r2 = "cr_advance (length ?seg) ?r1"
  have n: "cr_remaining r = 4 + length ?seg + length ?rest"
    using arg_cong [OF left, of length] by simp
  then have r1: "cr_ok ?r1" "cr_left ?r1 = ?seg @ ?rest" using Cons.prems(1) by (simp_all add: left)
  then have n1: "cr_remaining ?r1 = length ?seg + length ?rest" using length_cr_left [of ?r1] by simp
  then have r2: "cr_ok ?r2" "cr_left ?r2 = ?rest" using r1 by simp_all
  have "cr_u32_le r = Inr (of_nat (length ?seg), ?r1)" by (rule cr_u32_read [OF Cons.prems(1) left])
  moreover have "cr_take (length ?seg) ?r1 = Inr (?seg, ?r2)" using cr_take_spec [OF r1(1), of "length ?seg"] n1 r1(2) by simp
  moreover have "segment ?seg s = (fold rdp8_push p s, Inr ())" using Cons.prems(3) by (intro segment_uncompressed) simp
  ultimately have "segments_each (length (p # parts)) r s = segments_each (length parts) ?r2 (fold rdp8_push p s)"
    using num by simp
  also have "\<dots> = (fold rdp8_push (concat parts) (fold rdp8_push p s), Inr ())"
    using Cons.prems(3) by (intro Cons.IH [OF r2]) simp
  finally show ?case by simp
qed simp

lemma parts_length: "length (concat (map part_bytes parts)) = length (concat parts) + 5 * length parts"
  by (induction parts) (simp_all add: part_bytes_def seg_bytes_def UNCOMPRESSED_def)

lemma multipart_decodes:
  assumes "length (concat parts) \<le> MAX_EGFX_MESSAGE" and "length parts < 2 ^ 16"
  shows "decompress d (multipart parts) = (fold rdp8_push (concat parts) (d, []), Inr ())"
proof -
  let ?count = "of_nat (length parts) :: u16" and ?n = "of_nat (length (concat parts)) :: u32"
  let ?body = "concat (map part_bytes parts)" and ?r = "cr_new (multipart parts) ''zgfx segmented data''"
  have wire: "multipart parts = 0xE1 # to_le_bytes ?count @ to_le_bytes ?n @ ?body"
    by (simp add: multipart_def part_bytes_def [abs_def] Let_def length_concat)
  have nums: "unat ?count = length parts" "unat ?n = length (concat parts)"
    using assms by (simp_all add: unat_of_nat MAX_EGFX_MESSAGE_def)
  have total: "length (multipart parts) = 7 + length ?body" by (simp add: wire)
  then have ok: "cr_ok ?r" using assms by (simp add: parts_length MAX_EGFX_MESSAGE_def)
  have left: "cr_left ?r = 0xE1 # to_le_bytes ?count @ to_le_bytes ?n @ ?body" by (simp add: wire)
  have "cr_remaining ?r = length (cr_left ?r)" by (rule length_cr_left [symmetric])
  then have rem: "cr_remaining ?r = 7 + length ?body" by (simp add: total del: length_cr_left)
  have rest: "drop (Suc 0) (multipart parts) = to_le_bytes ?count @ to_le_bytes ?n @ ?body" by (simp add: wire)
  let ?r1 = "cr_advance 1 ?r" let ?r2 = "cr_advance 2 ?r1" let ?r3 = "cr_advance 4 ?r2"
  have r1: "cr_ok ?r1" "cr_left ?r1 = to_le_bytes ?count @ to_le_bytes ?n @ ?body" using ok rem by (simp_all add: rest)
  then have rem1: "cr_remaining ?r1 = 6 + length ?body" using length_cr_left [of ?r1] by simp
  have r2: "cr_ok ?r2" "cr_left ?r2 = to_le_bytes ?n @ ?body" using r1 rem1 by simp_all
  then have rem2: "cr_remaining ?r2 = 4 + length ?body" using length_cr_left [of ?r2] by simp
  have r3: "cr_ok ?r3" "cr_left ?r3 = ?body" using r2 rem2 by simp_all
  have "cr_u8 ?r = Inr (0xE1, ?r1)" using cr_u8_spec [OF ok] left by simp
  then have "decompress d (multipart parts) = segments_each (length parts) ?r3 (d, [])"
    using cr_u16_read [OF r1] cr_u32_read [OF r2] nums assms(1) by (simp add: decompress_def SINGLE_def MULTIPART_def)
  also have "\<dots> = (fold rdp8_push (concat parts) (d, []), Inr ())" by (rule segments_parts [OF r3]) (simp add: assms(1))
  finally show ?thesis .
qed

end
