(* ===== verification/Zgfx_Properties.thy ===== *)
theory Zgfx_Properties
  imports Zgfx_Roundtrip
begin

text \<open>
  The properties of the RDP 8.0 bulk decompressor (\<open>crates/rdp-codecs/src/zgfx.rs\<close>), each with
  the witness that its hypotheses can hold.
\<close>

unbundle bit_operations_syntax

subsection \<open>Tokens\<close>

text \<open>
  The lookup table decodes the token table: the next token is the \<open>i\<close>-th exactly when the
  code of the \<open>i\<close>-th row is a prefix of the bits that are left, and then the code and nothing
  else has been consumed. So no two rows compete and no row is unreachable.
\<close>

theorem zgfx_token_exact:
  assumes "zb_ok b"
  shows "(\<exists>b'. next_token b = Inr (i, b') \<and> zb_stream b' = drop (tk_len (TOKENS ! i)) (zb_stream b)) \<longleftrightarrow>
    i < 37 \<and> prefix (code_bits (TOKENS ! i)) (zb_stream b)"
proof
  assume "\<exists>b'. next_token b = Inr (i, b') \<and> zb_stream b' = drop (tk_len (TOKENS ! i)) (zb_stream b)"
  then show "i < 37 \<and> prefix (code_bits (TOKENS ! i)) (zb_stream b)"
    using next_token_Inr [OF assms] by blast
next
  assume a: "i < 37 \<and> prefix (code_bits (TOKENS ! i)) (zb_stream b)"
  then obtain ys where ys: "zb_stream b = code_bits (TOKENS ! i) @ ys" by (auto simp: prefix_def)
  from next_token_hit [OF assms _ ys] a obtain b' where "next_token b = Inr (i, b')" "zb_stream b' = ys"
    by blast
  then show "\<exists>b'. next_token b = Inr (i, b') \<and> zb_stream b' = drop (tk_len (TOKENS ! i)) (zb_stream b)"
    using ys by auto
qed

theorem zgfx_token_exact_witness:
  "\<exists>b'. next_token (zbits_new [0x2A] 8) = Inr (0, b')"
proof -
  have s: "zb_stream (zbits_new [0x2A] 8) = to_bits 8 (0x2A :: u8)" by (simp add: zbits_new_stream)
  have "prefix (code_bits (TOKENS ! 0)) (to_bits 8 (0x2A :: u8))"
    by (simp add: TOKEN_0 to_bits_Suc eval_nat_numeral)
  then show ?thesis using zgfx_token_exact [OF zbits_new_ok, of 8 "[0x2A]" 0] unfolding s by auto
qed

subsection \<open>The history\<close>

text \<open>One message into a decompressor: what the caller gets, whether the message was well formed or not.\<close>

definition zgfx_feed :: "rdp8 \<Rightarrow> bytes \<Rightarrow> rdp8 \<times> bytes list" where
  "zgfx_feed d src = (let ((d', out), r) = decompress d src in (d', [out]))"

lemma feed_grows:
  assumes "ring_ok d" and "zgfx_feed d src = (d', outs)"
  shows "ring_ok d' \<and> ring_window d' = drop (length (concat outs)) (ring_window d @ concat outs) \<and>
    list_all (\<lambda>out. length out \<le> MAX_EGFX_MESSAGE) outs"
proof -
  obtain out r where dc: "decompress d src = ((d', out), r)" and outs: "outs = [out]"
    using assms(2) by (auto simp: zgfx_feed_def split: prod.splits)
  then obtain xs where "(d', out) = fold rdp8_push xs (d, [])" and "length out \<le> MAX_EGFX_MESSAGE"
    using decompress_grows [OF assms(1), of src] by (auto simp: grows_def)
  moreover from this(1) have "out = xs" using pushes_out [of xs "(d, [])"] by (metis append_Nil snd_conv)
  moreover have "ring_ok (fst (fold rdp8_push xs (d, [])))" using ring.inv_puts [of "(d, [])" xs] assms(1) by simp
  moreover have "ring_window (fst (fold rdp8_push xs (d, []))) = drop (length xs) (ring_window d @ xs)"
    using pushes_window [of "(d, [])" xs] assms(1) by simp
  ultimately show ?thesis using outs by (metis append_Nil2 concat.simps fst_conv list.pred_inject)
qed

lemma last_bytes_twice:
  "drop (length b) (drop (length a) (w @ a) @ b) = drop (length (a @ b)) (w @ a @ b)"
proof -
  have "drop (length a) (w @ a) @ b = drop (length a) ((w @ a) @ b)"
    unfolding drop_append [of _ "w @ a" b] by simp
  then show ?thesis by (metis append_assoc drop_drop length_append add.commute)
qed

lemma feeds_grow:
  "ring_ok d \<Longrightarrow> run_steps zgfx_feed d srcs = (d', outs) \<Longrightarrow>
   ring_window d' = drop (length (concat outs)) (ring_window d @ concat outs) \<and>
   list_all (\<lambda>out. length out \<le> MAX_EGFX_MESSAGE) outs"
proof (induction srcs arbitrary: d outs)
  case (Cons src srcs)
  obtain d1 outs1 where one: "zgfx_feed d src = (d1, outs1)" by fastforce
  obtain d2 outs2 where two: "run_steps zgfx_feed d1 srcs = (d2, outs2)" by fastforce
  then have rest: "run_steps zgfx_feed d1 srcs = (d', outs2)" and outs: "outs = outs1 @ outs2"
    using Cons.prems(2) one by simp_all
  note first = feed_grows [OF Cons.prems(1) one]
  with Cons.IH [OF _ rest] have "ring_window d' = drop (length (concat outs2)) (ring_window d1 @ concat outs2)"
    and all: "list_all (\<lambda>out. length out \<le> MAX_EGFX_MESSAGE) outs" by (simp_all add: outs)
  with first have "ring_window d' = drop (length (concat outs1 @ concat outs2)) (ring_window d @ concat outs1 @ concat outs2)"
    using last_bytes_twice by metis
  with all show ?case by (simp only: outs concat_append)
qed simp

text \<open>
  C26. The history of a decompressor is its output: after any sequence of messages, well formed,
  malformed or hostile, the ring stands for the last 2,500,000 bytes of everything it has handed
  out, in order and behind the zeros it started with, and no message's output exceeds 64 MiB.
  In particular the uncompressed segments and the part of a message before an error are in it.
\<close>

theorem zgfx_history_is_output:
  "ring_window (fst (run_steps zgfx_feed rdp8_new srcs)) =
     drop (length (concat (snd (run_steps zgfx_feed rdp8_new srcs))))
       (replicate HISTORY 0 @ concat (snd (run_steps zgfx_feed rdp8_new srcs))) \<and>
   list_all (\<lambda>out. length out \<le> 64 * 1024 * 1024) (snd (run_steps zgfx_feed rdp8_new srcs))"
  using feeds_grow [OF ring_new(1) prod.collapse [symmetric], of srcs] by (simp add: ring_new MAX_EGFX_MESSAGE_def)

subsection \<open>The round trip\<close>

lemma single_uncompressed_decodes:
  assumes "length data \<le> MAX_EGFX_MESSAGE"
  shows "decompress d (single_uncompressed data) = (fold rdp8_push data (d, []), Inr ())"
proof -
  have "seg_bytes UNCOMPRESSED data 0 = 0x04 # data" by (simp add: seg_bytes_def UNCOMPRESSED_def)
  moreover have "length (0x04 # data :: bytes) < 2 ^ 62" using assms by (simp add: MAX_EGFX_MESSAGE_def)
  ultimately show ?thesis using assms decompress_single [of "0x04 # data" d]
    by (simp add: single_uncompressed_def segment_def COMPR_TYPE_RDP8_def PACKET_COMPRESSED_def)
qed

lemma run_writer:
  assumes "length data < 2 ^ 15"
  obtains w where "single_unencoded_run data = Some (single (seg_bytes COMPRESSED (bw_finish w) (bw_padding w)))"
    and "bw_n w = 0"
    and "bw_bits w = (code_bits (TOKENS ! 1) @ to_bits 5 (0 :: nat) @ to_bits 15 (length data)) @
           replicate 7 False @ bits_of_bytes data"
proof -
  define head where "head = bw_put (of_nat (length data)) 15 (put_match_token 0 bw_new)"
  let ?t = "code_bits (TOKENS ! 1)"
  have h: "bw_ok head" "bw_bits head = ?t @ to_bits 5 (0 :: nat) @ to_bits 15 (length data)"
    using put_match_spec [of bw_new 0] bw_put_spec [of "put_match_token 0 bw_new" "of_nat (length data)" 15]
    by (simp_all add: head_def to_bits_of_nat)
  then have "length (bw_bits head) = 25" by (simp add: TOKEN_1')
  with bw_align_spec [OF h(1)] have "bw_n (bw_align head) = 0" "bw_bits (bw_align head) = bw_bits head @ replicate 7 False"
    by simp_all
  with bw_raw_spec [of "bw_align head" data] obtain w where w: "bw_raw data (bw_align head) = Some w" "bw_n w = 0"
    "bw_bits w = (bw_bits head @ replicate 7 False) @ bits_of_bytes data"
    by auto
  show thesis
  proof (rule that [OF _ w(2)])
    show "single_unencoded_run data = Some (single (seg_bytes COMPRESSED (bw_finish w) (bw_padding w)))"
      using assms w(1) by (simp add: single_unencoded_run_def head_def)
  qed (simp add: w(3) h(2))
qed

lemma single_run_decodes:
  assumes "ring_ok d" and "length data \<le> MAX_EGFX_MESSAGE" and "single_unencoded_run data = Some src"
  shows "decompress d src = (fold rdp8_push data (d, []), Inr ())"
proof -
  have small: "length data < 2 ^ 15" using assms(3) by (simp add: single_unencoded_run_def split: if_splits)
  let ?t = "code_bits (TOKENS ! 1)"
  obtain w where src: "src = single (seg_bytes COMPRESSED (bw_finish w) (bw_padding w))"
    and w: "bw_n w = 0" "bw_bits w =
      (?t @ to_bits 5 (0 :: nat) @ to_bits 15 (length data)) @ replicate 7 False @ bits_of_bytes data"
    using run_writer [OF small] assms(3) by auto
  define bits where "bits = bw_bits w"
  have body: "bits_of_bytes (bw_finish w) = bits @ replicate (unat (bw_padding w)) False"
    using bw_finish_spec [of w] w(1) by (simp add: bw_ok_def bits_def)
  have "bw_finish w = bw_out w" "length (bw_out w) * 8 = length bits" using w(1) by (simp_all add: bw_finish_def bits_def bw_bits_def)
  then have len: "length (bw_finish w) < 2 ^ 60" using small by (simp add: bits_def w(2) TOKEN_1')
  then have "length (seg_bytes COMPRESSED (bw_finish w) (bw_padding w)) < 2 ^ 62" by (simp add: seg_bytes_def)
  then have dec: "decompress d src = seg_loop (zbits_new (bw_finish w) (length bits)) (d, [])"
    using decompress_single segment_compressed [OF body len] by (simp add: src)
  define b where "b = zbits_new (bw_finish w) (length bits)"
  have b: "zb_ok b" "zb_stream b = ?t @ to_bits 5 (0 :: nat) @ to_bits 15 (length data) @ replicate 7 False @ bits_of_bytes data"
    using new_reader [OF body] by (simp_all add: b_def bits_def w(2))
  have z: "(of_bits (to_bits 5 (0 :: nat)) :: u32) = 0"
    by (rule bit_word_eqI) (auto simp: bit_simps nth_to_bits)
  obtain b1 where b1: "seg_step b (d, []) = seg_run b1 (d, [])" "takes 10 b b1"
    "zb_stream b1 = to_bits 15 (length data) @ replicate 7 False @ bits_of_bytes data @ []"
    by (rule match_step [OF b(1) _ TOKEN_1(1) b(2), of 0 "(d, [])"]) (simp_all add: TOKEN_1' z)
  have "zb_consumed b1 = 10" using b1(2) by (simp add: takes_def b_def zbits_new_def)
  then obtain b2 where b2: "seg_run b1 (d, []) = (fold rdp8_push data (d, []), Inr b2)" "zb_ok b2" "zb_stream b2 = []"
    using run_effect [OF takes_ok [OF b1(2)] small _ _ b1(3), of "(d, [])"] assms(2) by auto
  have "zb_left b \<noteq> 0" "zb_left b2 = 0" using length_zb_stream [OF b(1)] length_zb_stream [OF b2(2)] b(2) b2(3)
    by auto
  then have "seg_loop b (d, []) = (fold rdp8_push data (d, []), Inr ())"
    using b1(1) b2(1) by (simp add: seg_loop.simps [of b] seg_loop.simps [of b2])
  then show ?thesis using dec by (simp add: b_def)
qed

text \<open>
  C27. Every form of the reference encoder decodes to the data it stands for, whatever the decompressor had in its history, as long
  as the data is at most \<open>MAX_EGFX_MESSAGE\<close> (64 MiB; beyond that the decompressor refuses it). The greedy compression into literals
  and overlapping matches, the uncompressed segment, the unencoded run (below 32768 bytes), any cut into fewer than 65536
  uncompressed segments, and a lone match whose bytes, repeated out of the history, are the data: all five leave the same
  output and the same history.
\<close>

theorem zgfx_roundtrip:
  assumes "ring_ok d" and "length data \<le> MAX_EGFX_MESSAGE"
  shows "\<exists>d'. decompress d (single_compressed data) = ((d', data), Inr ()) \<and>
    decompress d (single_uncompressed data) = ((d', data), Inr ()) \<and>
    (case single_unencoded_run data of Some src \<Rightarrow> decompress d src = ((d', data), Inr ()) | None \<Rightarrow> 2 ^ 15 \<le> length data) \<and>
    (\<forall>parts. concat parts = data \<and> length parts < 2 ^ 16 \<longrightarrow> decompress d (multipart parts) = ((d', data), Inr ())) \<and>
    (\<forall>distance n src. single_compressed_match distance n = Some src \<and> lz_bytes (unat distance) n (ring_window d) = data \<longrightarrow>
      decompress d src = ((d', data), Inr ())) \<and>
    ring_window d' = drop (length data) (ring_window d @ data)"
proof -
  have s: "fold rdp8_push data (d, []) = (fst (fold rdp8_push data (d, [])), data)"
    using pushes_out [of data "(d, [])"] by (metis append_Nil prod.collapse snd_conv)
  have "single_unencoded_run data = None \<Longrightarrow> 2 ^ 15 \<le> length data"
    using run_writer [of data] by fastforce
  moreover have "concat parts = data \<and> length parts < 2 ^ 16 \<longrightarrow> decompress d (multipart parts) = (fold rdp8_push data (d, []), Inr ())" for parts
    using multipart_decodes [of parts d] assms(2) by blast
  moreover have "single_compressed_match distance n = Some src \<and> lz_bytes (unat distance) n (ring_window d) = data \<longrightarrow>
      decompress d src = (fold rdp8_push data (d, []), Inr ())" for distance n src
    using single_match_decodes [OF assms(1), of n distance src] assms(2) length_lz_bytes by metis
  moreover note single_compressed_decodes [OF assms] single_uncompressed_decodes [OF assms(2)]
    single_run_decodes [OF assms] pushes_window [of "(d, [])" data]
  ultimately show ?thesis using s assms(1)
    by (intro exI [of _ "fst (fold rdp8_push data (d, []))"]) (auto split: option.split)
qed

theorem zgfx_roundtrip_witness:
  "\<exists>d'. decompress rdp8_new (single_compressed [7, 7, 7, 7, 7]) = ((d', [7, 7, 7, 7, 7]), Inr ()) \<and>
     decompress rdp8_new (multipart [[7, 7], [7, 7, 7]]) = ((d', [7, 7, 7, 7, 7]), Inr ())"
  using zgfx_roundtrip [OF ring_new(1), of "[7, 7, 7, 7, 7]"] by (auto simp: MAX_EGFX_MESSAGE_def)

subsection \<open>A distance past the history\<close>

text \<open>One compressed message with one match of length three, its distance in the longest form.\<close>

definition far_match :: "u32 \<Rightarrow> bytes" where
  "far_match v =
     (let w = put_length 3 (bw_put v 32 (bw_put (of_nat (tk_code (TOKENS ! 32))) (tk_len (TOKENS ! 32)) bw_new))
      in single (seg_bytes COMPRESSED (bw_finish w) (bw_padding w)))"

lemma TOKEN_32: "tk_is_match (TOKENS ! 32)" "tk_value_bits (TOKENS ! 32) = 32" "tk_value_base (TOKENS ! 32) = 18142880"
    "tk_len (TOKENS ! 32) = 8"
  by (simp_all add: TOKENS_def lit_def mat_def)

text \<open>
  What the code does with a distance that exceeds 32 bits: a match in the longest form whose
  base and value add up to \<open>2 ^ 32 + k\<close>, a distance no history has, is not refused. The sum wraps
  (in a build with overflow checks it panics), the test against the history size sees only \<open>k\<close>,
  and three bytes are copied from distance \<open>k\<close>.
\<close>

theorem zgfx_far_match_wraps:
  assumes "ring_ok d" and "18142880 + unat v = 2 ^ 32 + k" and "1 \<le> k" and "k \<le> HISTORY"
  shows "decompress d (far_match v) = (fold rdp8_push (lz_bytes k 3 (ring_window d)) (d, []), Inr ())"
proof -
  let ?t = "code_bits (TOKENS ! 32)"
  define w where "w = put_length 3 (bw_put v 32 (bw_put (of_nat (tk_code (TOKENS ! 32))) (tk_len (TOKENS ! 32)) bw_new))"
  define w1 where "w1 = bw_put v 32 (bw_put (of_nat (tk_code (TOKENS ! 32))) (tk_len (TOKENS ! 32)) bw_new)"
  have w1: "bw_ok w1" "bw_bits w1 = ?t @ to_bits 32 v"
    using put_code [of 32 bw_new] by (simp_all add: w1_def bw_put_spec)
  then have w: "bw_ok w" "bw_bits w = (?t @ to_bits 32 v) @ width_bits 3"
    using put_length_spec [OF w1(1), of 3] by (simp_all add: w_def w1_def [symmetric])
  define bits where "bits = bw_bits w"
  have body: "bits_of_bytes (bw_finish w) = bits @ replicate (unat (bw_padding w)) False"
    using bw_finish_spec [OF w(1)] by (simp add: bits_def)
  have "length bits = 41" by (simp add: bits_def w(2) TOKEN_32 width_bits_def)
  moreover have "unat (bw_padding w) < 256" using unsigned_less [of "bw_padding w"] by simp
  ultimately have len: "length (bw_finish w) < 2 ^ 60" using arg_cong [OF body, of length] by simp
  then have "length (seg_bytes COMPRESSED (bw_finish w) (bw_padding w)) < 2 ^ 62" by (simp add: seg_bytes_def)
  then have dec: "decompress d (far_match v) = seg_loop (zbits_new (bw_finish w) (length bits)) (d, [])"
    using decompress_single segment_compressed [OF body len] by (simp add: far_match_def w_def [symmetric] Let_def)
  define b where "b = zbits_new (bw_finish w) (length bits)"
  have b: "zb_ok b" "zb_stream b = ?t @ to_bits 32 v @ width_bits 3 @ []"
    using new_reader [OF body] by (simp_all add: b_def bits_def w(2))
  have "unat (tk_value_base (TOKENS ! 32) + of_bits (to_bits 32 v)) = k"
    using assms(2,4) unsigned_less [of v]
    by (simp add: TOKEN_32 of_to_bits_word take_bit_length_eq [where 'a = 32, simplified] unat_word_ariths HISTORY_def)
  moreover have "tk_value_base (TOKENS ! 32) + of_bits (to_bits 32 v) \<noteq> (0 :: u32)"
    using calculation assms(3) by (metis unsigned_0 not_one_le_zero)
  ultimately obtain b1 where b1: "seg_step b (d, []) = seg_copy k b1 (d, [])" "zb_ok b1" "zb_stream b1 = width_bits 3 @ []"
    using match_step [OF b(1) _ TOKEN_32(1) b(2) _ refl, of "(d, [])"] takes_ok by (simp add: TOKEN_32) metis
  from width_decodes [OF b1(2,3)] obtain b2 where b2: "match_length b1 = Inr (3, b2)" "zb_ok b2" "zb_stream b2 = []"
    by auto
  have "seg_copy k b1 (d, []) = (fold rdp8_push (lz_bytes k 3 (ring_window d)) (d, []), Inr b2)"
    using copy_effect [OF b1(2) _ b2(1) assms(3,4), of "(d, [])"] assms(1) by (simp add: MAX_EGFX_MESSAGE_def)
  moreover have "zb_left b \<noteq> 0" "zb_left b2 = 0"
    using length_zb_stream [OF b(1)] length_zb_stream [OF b2(2)] b(2) b2(3) by auto
  ultimately have "seg_loop b (d, []) = (fold rdp8_push (lz_bytes k 3 (ring_window d)) (d, []), Inr ())"
    using b1(1) by (simp add: seg_loop.simps [of b] seg_loop.simps [of b2])
  then show ?thesis using dec by (simp add: b_def)
qed

theorem zgfx_far_match_wraps_witness:
  "snd (decompress rdp8_new (far_match 4276824421)) = Inr ()"
  using zgfx_far_match_wraps [OF ring_new(1), of 4276824421 5] by (simp add: HISTORY_def)

end
