(* ===== verification/Vnc_Stream.thy ===== *)
theory Vnc_Stream
  imports Session_Errors Byte_Order
begin

text \<open>
  How the RFB decoders of \<open>crates/vnc-core\<close> read: from a stream of bytes that the server may end
  anywhere (\<open>encodings/mod.rs\<close>, \<open>proto/messages.rs\<close>), through persistent zlib streams. A decoder is a
  function from the bytes that are still to come to an outcome. A Rust panic (a slice out of range, a
  division by zero) is an outcome of its own, and so is a loop that does not end, so that their absence can be proved.

  The zlib library is an argument: a record of what it is asked to do. The second string of a
  decode error is its constant text, without the numbers.
\<close>

subsection \<open>Outcomes\<close>

datatype 'a outcome = Stuck | Panicked | Failed vnc_error | Decoded 'a bytes

type_synonym 'a decoder = "bytes \<Rightarrow> 'a outcome"

definition dret :: "'a \<Rightarrow> 'a decoder" where
  "dret a bs = Decoded a bs"

definition dfail :: "vnc_error \<Rightarrow> 'a decoder" where
  "dfail e bs = Failed e"

definition dpanic :: "'a decoder" where
  "dpanic bs = Panicked"

fun obind :: "'a outcome \<Rightarrow> ('a \<Rightarrow> bytes \<Rightarrow> 'b outcome) \<Rightarrow> 'b outcome" where
  "obind Stuck f = Stuck"
| "obind Panicked f = Panicked"
| "obind (Failed e) f = Failed e"
| "obind (Decoded a rest) f = f a rest"

definition dbind :: "'a decoder \<Rightarrow> ('a \<Rightarrow> 'b decoder) \<Rightarrow> 'b decoder" where
  "dbind m f bs = obind (m bs) f"

text \<open>An access that panics when it is out of range.\<close>

definition dchecked :: "'a option \<Rightarrow> 'a decoder" where
  "dchecked v = (case v of None \<Rightarrow> dpanic | Some a \<Rightarrow> dret a)"

lemma obind_cong [fundef_cong]:
  "m = m' \<Longrightarrow> (\<And>a rest. m' = Decoded a rest \<Longrightarrow> f a rest = f' a rest) \<Longrightarrow> obind m f = obind m' f'"
  by (cases m') simp_all

lemma dbind_cong [fundef_cong]:
  "m bs = m' bs' \<Longrightarrow> (\<And>a rest. m' bs' = Decoded a rest \<Longrightarrow> f a rest = f' a rest) \<Longrightarrow> dbind m f bs = dbind m' f' bs'"
  unfolding dbind_def by (rule obind_cong)

lemma dbind_simps [simp]:
  "dbind (dret a) f = f a" "dbind (dfail e) f = dfail e" "dbind dpanic f = dpanic"
  by (auto simp: dbind_def dret_def dfail_def dpanic_def fun_eq_iff)

lemma dbind_assoc: "dbind (dbind m f) g = dbind m (\<lambda>a. dbind (f a) g)"
proof
  show "dbind (dbind m f) g bs = dbind m (\<lambda>a. dbind (f a) g) bs" for bs
    by (cases "m bs") (simp_all add: dbind_def)
qed

lemma dbind_Decoded: "dbind m f bs = Decoded b rest \<longleftrightarrow> (\<exists>a mid. m bs = Decoded a mid \<and> f a mid = Decoded b rest)"
  by (cases "m bs") (simp_all add: dbind_def)

text \<open>A loop over a list.\<close>

fun dfold :: "('x \<Rightarrow> 's \<Rightarrow> 's decoder) \<Rightarrow> 'x list \<Rightarrow> 's \<Rightarrow> 's decoder" where
  "dfold f [] s = dret s"
| "dfold f (x # xs) s = dbind (f x s) (dfold f xs)"

subsection \<open>What a decoder guarantees\<close>

text \<open>
  Whatever bytes come, the decoder neither panics nor loops; what it returns satisfies the
  postcondition, and it has read a front part of the stream.
\<close>

definition safely :: "('a \<Rightarrow> bool) \<Rightarrow> 'a decoder \<Rightarrow> bool" where
  "safely Q m \<longleftrightarrow>
     (\<forall>bs. case m bs of
        Stuck \<Rightarrow> False
      | Panicked \<Rightarrow> False
      | Failed _ \<Rightarrow> True
      | Decoded a rest \<Rightarrow> Q a \<and> (\<exists>used. bs = used @ rest))"

named_theorems safe_intros \<open>decoders that neither panic nor loop\<close>

lemma safelyD: "safely Q m \<Longrightarrow> m bs = Decoded a rest \<Longrightarrow> Q a \<and> (\<exists>used. bs = used @ rest)"
  by (auto simp: safely_def dest: spec [of _ bs])

lemma safely_no_panic: "safely Q m \<Longrightarrow> m bs \<noteq> Panicked \<and> m bs \<noteq> Stuck"
  by (auto simp: safely_def dest: spec [of _ bs])

lemma safely_mono: "safely Q m \<Longrightarrow> (\<And>a. Q a \<Longrightarrow> R a) \<Longrightarrow> safely R m"
  by (fastforce simp: safely_def split: outcome.splits)

lemma safely_ret [safe_intros]: "Q a \<Longrightarrow> safely Q (dret a)"
  by (simp add: safely_def dret_def)

lemma safely_fail [safe_intros]: "safely Q (dfail e)"
  by (simp add: safely_def dfail_def)

lemma safely_bind:
  assumes "safely P m" and "\<And>a. P a \<Longrightarrow> safely Q (f a)"
  shows "safely Q (dbind m f)"
  unfolding safely_def
proof
  fix bs
  show "case dbind m f bs of Stuck \<Rightarrow> False | Panicked \<Rightarrow> False | Failed _ \<Rightarrow> True
      | Decoded a rest \<Rightarrow> Q a \<and> (\<exists>used. bs = used @ rest)"
  proof (cases "m bs")
    case (Decoded a mid)
    then obtain used where a: "P a" "bs = used @ mid" using safelyD [OF assms(1)] by blast
    have "case f a mid of Stuck \<Rightarrow> False | Panicked \<Rightarrow> False | Failed _ \<Rightarrow> True
      | Decoded b rest \<Rightarrow> Q b \<and> (\<exists>used. mid = used @ rest)"
      using assms(2) [OF a(1)] by (simp add: safely_def)
    then show ?thesis using Decoded a by (auto simp: dbind_def split: outcome.splits)
  qed (use safely_no_panic [OF assms(1), of bs] in \<open>simp_all add: dbind_def\<close>)
qed

lemma safely_checked [safe_intros]: "v = Some a \<Longrightarrow> Q a \<Longrightarrow> safely Q (dchecked v)"
  by (simp add: dchecked_def safely_ret)

lemma safely_checked_bind: "v = Some a \<Longrightarrow> safely Q (f a) \<Longrightarrow> safely Q (dbind (dchecked v) f)"
  by (simp add: dchecked_def)

lemma safely_fold:
  assumes "\<And>x s. x \<in> set xs \<Longrightarrow> I s \<Longrightarrow> safely I (f x s)" and "I s"
  shows "safely I (dfold f xs s)"
  using assms
proof (induction xs arbitrary: s)
  case (Cons x xs)
  then show ?case by (auto intro!: safely_bind [of I])
qed (simp add: safely_ret)

lemma safely_if [safe_intros]: "(c \<Longrightarrow> safely Q m) \<Longrightarrow> (\<not> c \<Longrightarrow> safely Q m') \<Longrightarrow> safely Q (if c then m else m')"
  by simp

subsection \<open>Per of the stream\<close>

text \<open>\<open>read_exact\<close>: the stream ends in an \<open>UnexpectedEof\<close>.\<close>

definition read_n :: "nat \<Rightarrow> bytes decoder" where
  "read_n n bs = (if length bs < n then Failed (VncIo ''UnexpectedEof'') else Decoded (take n bs) (drop n bs))"

definition read_u8 :: "u8 decoder" where
  "read_u8 = dbind (read_n 1) (\<lambda>b. dret (from_be_bytes b))"

definition read_u16 :: "u16 decoder" where
  "read_u16 = dbind (read_n 2) (\<lambda>b. dret (from_be_bytes b))"

definition read_u32 :: "u32 decoder" where
  "read_u32 = dbind (read_n 4) (\<lambda>b. dret (from_be_bytes b))"

definition MAX_RECT_AREA :: nat where "MAX_RECT_AREA = 64 * 1024 * 1024"
definition MAX_WIRE_LEN :: nat where "MAX_WIRE_LEN = MAX_RECT_AREA * 4 + 64 * 1024"
definition MAX_INFLATED_LEN :: nat where "MAX_INFLATED_LEN = 256 * 1024 * 1024"
definition READ_CHUNK :: nat where "READ_CHUNK = 64 * 1024"

text \<open>The payload is read in pieces, so that a length alone never reserves much.\<close>

function read_pieces :: "nat \<Rightarrow> bytes \<Rightarrow> bytes decoder" where
  "read_pieces remaining_len buf =
     (if remaining_len = 0 then dret buf
      else
        let piece = min remaining_len READ_CHUNK
        in dbind (read_n piece) (\<lambda>b. read_pieces (remaining_len - piece) (buf @ b)))"
  by auto

termination by (relation "measure fst") (simp_all add: READ_CHUNK_def)

declare read_pieces.simps [simp del]

definition read_exact_vec :: "nat \<Rightarrow> string \<Rightarrow> bytes decoder" where
  "read_exact_vec n enc =
     (if MAX_WIRE_LEN < n then dfail (VncDecode enc ''payload length exceeds cap'') else read_pieces n [])"

lemma safely_read_n [safe_intros]: "safely (\<lambda>b. length b = n) (read_n n)"
  by (auto simp: safely_def read_n_def intro: append_take_drop_id [symmetric])

lemma safely_read_u8 [safe_intros]: "safely (\<lambda>_. True) read_u8"
  unfolding read_u8_def by (rule safely_bind [OF safely_read_n]) (simp add: safely_ret)

lemma safely_read_u16 [safe_intros]: "safely (\<lambda>_. True) read_u16"
  unfolding read_u16_def by (rule safely_bind [OF safely_read_n]) (simp add: safely_ret)

lemma safely_read_u32 [safe_intros]: "safely (\<lambda>_. True) read_u32"
  unfolding read_u32_def by (rule safely_bind [OF safely_read_n]) (simp add: safely_ret)

lemma read_n_append: "length b = n \<Longrightarrow> read_n n (b @ rest) = Decoded b rest"
  by (simp add: read_n_def)

lemma read_pieces_eq: "read_pieces n buf = dbind (read_n n) (\<lambda>b. dret (buf @ b))"
proof (induction n buf rule: read_pieces.induct)
  case (1 n buf)
  let ?p = "min n READ_CHUNK"
  show ?case
  proof (cases "n = 0")
    case False
    have "dbind (read_n ?p) (\<lambda>b. dbind (read_n (n - ?p)) (\<lambda>c. dret ((buf @ b) @ c))) = dbind (read_n n) (\<lambda>b. dret (buf @ b))"
    proof
      fix bs :: bytes
      have "take ?p bs @ take (n - ?p) (drop ?p bs) = take n bs"
        by (metis le_add_diff_inverse min.cobounded1 take_add)
      then show "dbind (read_n ?p) (\<lambda>b. dbind (read_n (n - ?p)) (\<lambda>c. dret ((buf @ b) @ c))) bs = dbind (read_n n) (\<lambda>b. dret (buf @ b)) bs"
        by (auto simp: dbind_def read_n_def dret_def)
    qed
    then show ?thesis
      using 1 [OF False refl] False by (subst read_pieces.simps) (simp add: Let_def)
  qed (subst read_pieces.simps, simp add: fun_eq_iff dbind_def read_n_def dret_def)
qed

lemma read_exact_vec_eq: "n \<le> MAX_WIRE_LEN \<Longrightarrow> read_exact_vec n enc = read_n n"
  by (simp add: read_exact_vec_def read_pieces_eq fun_eq_iff dbind_def read_n_def dret_def)

lemma safely_read_exact_vec [safe_intros]: "safely (\<lambda>b. length b = n) (read_exact_vec n enc)"
  by (cases "n \<le> MAX_WIRE_LEN") (simp_all add: read_exact_vec_eq safely_read_n, simp add: read_exact_vec_def safely_fail)

section \<open>The persistent zlib stream\<close>

text \<open>
  The persistent zlib stream of \<open>crates/vnc-core/src/encodings/mod.rs\<close>: the loop around the library's
  \<open>decompress_vec\<close>, which grows the output, bounds it and stops. The library and the growth of a \<open>Vec\<close>
  are an argument, with what their documentation promises as the predicate \<open>zlib_ok\<close>.
\<close>

datatype zlib_status = StatusOk | BufError | StreamEnd

text \<open>
  \<open>zl_call z input room\<close> is one call with \<open>room\<close> bytes free in the output: an error, or the status, the
  number of bytes consumed, the bytes produced and the new state.
\<close>

record 'z zlib =
  zl_new :: 'z
  zl_reset :: "'z \<Rightarrow> 'z"
  zl_call :: "'z \<Rightarrow> bytes \<Rightarrow> nat \<Rightarrow> string + zlib_status \<times> nat \<times> bytes \<times> 'z"
  zl_reserved :: "nat \<Rightarrow> nat \<Rightarrow> nat"

definition zlib_ok :: "'z zlib \<Rightarrow> bool" where
  "zlib_ok Z \<longleftrightarrow>
     (\<forall>z input room st n produced z'. zl_call Z z input room = Inr (st, n, produced, z') \<longrightarrow>
        n \<le> length input \<and> length produced \<le> room \<and> (st = StatusOk \<longrightarrow> 0 < n \<or> produced \<noteq> [])) \<and>
     (\<forall>len grow. len + grow \<le> zl_reserved Z len grow)"

definition clamp_len :: "nat \<Rightarrow> nat \<Rightarrow> nat \<Rightarrow> nat" where
  "clamp_len v lo hi = min (max v lo) hi"

partial_function (option) zlib_loop ::
  "'z zlib \<Rightarrow> bytes \<Rightarrow> nat \<Rightarrow> string \<Rightarrow> 'z \<Rightarrow> nat \<Rightarrow> bytes \<Rightarrow> nat \<Rightarrow> (vnc_error + bytes \<times> 'z) option" where
  "zlib_loop Z input cap enc z consumed out capacity =
     (let capacity' =
        (if length out = capacity then zl_reserved Z (length out) (clamp_len (capacity div 2) 4096 (1024 * 1024)) else capacity)
      in case zl_call Z z (drop consumed input) (capacity' - length out) of
           Inl _ \<Rightarrow> Some (Inl (VncDecode enc ''zlib inflate failed''))
         | Inr (st, n, produced, z') \<Rightarrow>
             let consumed' = consumed + n; out' = out @ produced in
             if cap < length out' then Some (Inl (VncDecode enc ''decompressed data exceeds cap''))
             else if st = StreamEnd then Some (Inr (out', z'))
             else if length input \<le> consumed' \<and> length out' < capacity' then Some (Inr (out', z'))
             else if n = 0 \<and> produced = [] \<and> length input \<le> consumed' then Some (Inr (out', z'))
             else if n = 0 \<and> produced = [] \<and> st = BufError then Some (Inl (VncDecode enc ''zlib made no progress (corrupt stream?)''))
             else zlib_loop Z input cap enc z' consumed' out' capacity')"

definition zlib_decompress :: "'z zlib \<Rightarrow> 'z \<Rightarrow> bytes \<Rightarrow> nat \<Rightarrow> nat \<Rightarrow> string \<Rightarrow> (vnc_error + bytes \<times> 'z) option" where
  "zlib_decompress Z z input size_hint cap0 enc =
     (let cap = min cap0 MAX_INFLATED_LEN
      in zlib_loop Z input cap enc z 0 [] (zl_reserved Z 0 (min (min size_hint cap) (4 * 1024 * 1024))))"

text \<open>The call from a decoder, which reads nothing of the stream.\<close>

definition inflate :: "'z zlib \<Rightarrow> 'z \<Rightarrow> bytes \<Rightarrow> nat \<Rightarrow> nat \<Rightarrow> string \<Rightarrow> (bytes \<times> 'z) decoder" where
  "inflate Z z input size_hint cap enc bs =
     (case zlib_decompress Z z input size_hint cap enc of
        None \<Rightarrow> Stuck
      | Some (Inl e) \<Rightarrow> Failed e
      | Some (Inr r) \<Rightarrow> Decoded r bs)"

lemma zlib_okD:
  "zlib_ok Z \<Longrightarrow> zl_call Z z input room = Inr (st, n, produced, z') \<Longrightarrow>
   n \<le> length input \<and> length produced \<le> room \<and> (st = StatusOk \<longrightarrow> 0 < n \<or> produced \<noteq> [])"
  unfolding zlib_ok_def by blast

text \<open>The loop ends, because each turn consumes or produces, and stays below its bound.\<close>

lemma zlib_loop_ends:
  assumes "zlib_ok Z"
  shows "length out \<le> cap \<Longrightarrow> consumed \<le> length input \<Longrightarrow>
    \<exists>r. zlib_loop Z input cap enc z consumed out capacity = Some r \<and> (\<forall>d z'. r = Inr (d, z') \<longrightarrow> length d \<le> cap)"
proof (induction "length input - consumed + (cap - length out)" arbitrary: z consumed out capacity rule: less_induct)
  case less
  define capacity' where
    "capacity' = (if length out = capacity then zl_reserved Z (length out) (clamp_len (capacity div 2) 4096 (1024 * 1024)) else capacity)"
  show ?case
  proof (cases "zl_call Z z (drop consumed input) (capacity' - length out)")
    case (Inl e)
    then show ?thesis by (subst zlib_loop.simps) (simp add: capacity'_def Let_def)
  next
    case (Inr r)
    obtain st n produced z' where r: "r = (st, n, produced, z')" by (cases r)
    note facts = zlib_okD [OF assms Inr [unfolded r]]
    show ?thesis
    proof (cases "cap < length (out @ produced) \<or> st = StreamEnd \<or> n = 0 \<and> produced = []")
      case True
      moreover have "n = 0 \<and> produced = [] \<Longrightarrow> st \<noteq> StatusOk" using facts by auto
      moreover have "st = StatusOk \<or> st = BufError \<or> st = StreamEnd" by (cases st) auto
      ultimately show ?thesis
        using Inr less.prems by (subst zlib_loop.simps) (auto simp: capacity'_def [symmetric] r Let_def)
    next
      case False
      then have "length input - (consumed + n) + (cap - length (out @ produced)) < length input - consumed + (cap - length out)"
        using facts less.prems by (auto simp: length_greater_0_conv [symmetric] simp del: length_greater_0_conv)
      note again = less.hyps [OF this, of z' capacity']
      then show ?thesis
        using Inr less.prems False facts by (subst zlib_loop.simps) (auto simp: capacity'_def [symmetric] r Let_def)
    qed
  qed
qed

lemma zlib_decompress_ends:
  assumes "zlib_ok Z"
  shows "\<exists>r. zlib_decompress Z z input size_hint cap enc = Some r \<and> (\<forall>d z'. r = Inr (d, z') \<longrightarrow> length d \<le> min cap MAX_INFLATED_LEN)"
  using zlib_loop_ends [OF assms, of "[]" "min cap MAX_INFLATED_LEN" 0 input]
  by (simp add: zlib_decompress_def Let_def)

lemma safely_inflate [safe_intros]:
  "zlib_ok Z \<Longrightarrow> safely (\<lambda>(d, _). length d \<le> min cap MAX_INFLATED_LEN) (inflate Z z input size_hint cap enc)"
  using zlib_decompress_ends [of Z z input size_hint cap enc]
  by (auto simp: safely_def inflate_def split: sum.splits option.splits)

end
