(* ===== verification/Pixel_Format.thy ===== *)
theory Pixel_Format
  imports Byte_Order
begin

text \<open>
  Wire pixels of RFB and their conversion to RGBA (\<open>crates/remote-pixel/src/format.rs\<close> and the RFB half
  of \<open>convert.rs\<close>): the pixel format, the colour map, one pixel, and the bulk conversion with its fast
  paths. A buffer of RGBA bytes is a list of pixels, since the source only ever reads and writes
  whole ones. Shifts are those of a release build, where \<open>v >> s\<close> masks the amount.
\<close>

unbundle bit_operations_syntax

named_theorems pixel_simps \<open>the value of one wire pixel\<close>

type_synonym rgb = "u8 \<times> u8 \<times> u8"
type_synonym rgba = "u8 \<times> u8 \<times> u8 \<times> u8"

subsection \<open>The pixel format\<close>

record pixel_format =
  pf_bits_per_pixel :: u8
  pf_depth :: u8
  pf_big_endian :: bool
  pf_true_colour :: bool
  pf_red_max :: u16
  pf_green_max :: u16
  pf_blue_max :: u16
  pf_red_shift :: u8
  pf_green_shift :: u8
  pf_blue_shift :: u8

definition bgra8888 :: pixel_format where
  "bgra8888 = \<lparr>pf_bits_per_pixel = 32, pf_depth = 24, pf_big_endian = False, pf_true_colour = True,
     pf_red_max = 255, pf_green_max = 255, pf_blue_max = 255,
     pf_red_shift = 16, pf_green_shift = 8, pf_blue_shift = 0\<rparr>"

definition palette8 :: pixel_format where
  "palette8 = \<lparr>pf_bits_per_pixel = 8, pf_depth = 8, pf_big_endian = False, pf_true_colour = False,
     pf_red_max = 0, pf_green_max = 0, pf_blue_max = 0,
     pf_red_shift = 0, pf_green_shift = 0, pf_blue_shift = 0\<rparr>"

definition rgb565 :: pixel_format where
  "rgb565 = \<lparr>pf_bits_per_pixel = 16, pf_depth = 16, pf_big_endian = False, pf_true_colour = True,
     pf_red_max = 31, pf_green_max = 63, pf_blue_max = 31,
     pf_red_shift = 11, pf_green_shift = 5, pf_blue_shift = 0\<rparr>"

definition rgb222 :: pixel_format where
  "rgb222 = \<lparr>pf_bits_per_pixel = 8, pf_depth = 6, pf_big_endian = False, pf_true_colour = True,
     pf_red_max = 3, pf_green_max = 3, pf_blue_max = 3,
     pf_red_shift = 4, pf_green_shift = 2, pf_blue_shift = 0\<rparr>"

definition bytes_per_pixel :: "pixel_format \<Rightarrow> nat" where
  "bytes_per_pixel pf = unat (pf_bits_per_pixel pf) div 8"

definition is_compact_3byte :: "pixel_format \<Rightarrow> bool" where
  "is_compact_3byte pf \<longleftrightarrow>
     pf_bits_per_pixel pf = 32 \<and> pf_depth pf = 24 \<and> pf_red_max pf = 255 \<and> pf_green_max pf = 255 \<and> pf_blue_max pf = 255"

subsection \<open>The colour map\<close>

record colour_map =
  cm_entries :: "rgb list"

definition colour_map_new :: colour_map where
  "colour_map_new = \<lparr>cm_entries = map (\<lambda>i. (of_nat i, of_nat i, of_nat i)) [0..<256]\<rparr>"

fun set_slots :: "nat \<Rightarrow> rgb list \<Rightarrow> rgb list \<Rightarrow> rgb list" where
  "set_slots first [] entries = entries"
| "set_slots first (e # es) entries = set_slots (first + 1) es (if first < length entries then entries[first := e] else entries)"

definition set_entries :: "nat \<Rightarrow> rgb list \<Rightarrow> colour_map \<Rightarrow> colour_map" where
  "set_entries first new_entries m = m\<lparr>cm_entries := set_slots first new_entries (cm_entries m)\<rparr>"

definition cm_lookup :: "colour_map \<Rightarrow> u8 \<Rightarrow> rgb" where
  "cm_lookup m index = cm_entries m ! unat index"

definition colour_map_wf :: "colour_map \<Rightarrow> bool" where
  "colour_map_wf m \<longleftrightarrow> length (cm_entries m) = 256"

lemma length_set_slots [simp]: "length (set_slots first new_entries entries) = length entries"
  by (induction new_entries arbitrary: first entries) simp_all

lemma colour_map_wf [intro]: "colour_map_wf colour_map_new" "colour_map_wf m \<Longrightarrow> colour_map_wf (set_entries first es m)"
  by (simp_all add: colour_map_wf_def colour_map_new_def set_entries_def)

subsection \<open>One pixel\<close>

definition raw_pixel_value :: "bytes \<Rightarrow> bool \<Rightarrow> u32" where
  "raw_pixel_value bs big_endian =
     (if big_endian then fold (\<lambda>b v. push_bit 8 v OR ucast b) bs 0
      else fold (\<lambda>b v. push_bit 8 v OR ucast b) (rev bs) 0)"

definition scale_channel :: "u32 \<Rightarrow> u16 \<Rightarrow> u8" where
  "scale_channel c mx = (if mx = 0 then 0 else ucast ((c * 255 + ucast mx div 2) div ucast mx))"

text \<open>\<open>v >> shift\<close>.\<close>

definition shr :: "u32 \<Rightarrow> u8 \<Rightarrow> u32" where
  "shr v shift = drop_bit (unat shift mod 32) v"

definition value_to_rgba :: "u32 \<Rightarrow> pixel_format \<Rightarrow> colour_map option \<Rightarrow> rgba" where
  "value_to_rgba v pf m =
     (if pf_true_colour pf
      then (scale_channel (shr v (pf_red_shift pf) AND ucast (pf_red_max pf)) (pf_red_max pf),
            scale_channel (shr v (pf_green_shift pf) AND ucast (pf_green_max pf)) (pf_green_max pf),
            scale_channel (shr v (pf_blue_shift pf) AND ucast (pf_blue_max pf)) (pf_blue_max pf), 255)
      else
        let idx = ucast (v AND 0xFF);
            (r, g, b) = (case m of Some m' \<Rightarrow> cm_lookup m' idx | None \<Rightarrow> (idx, idx, idx))
        in (r, g, b, 255))"

definition pixel_to_rgba :: "bytes \<Rightarrow> pixel_format \<Rightarrow> colour_map option \<Rightarrow> rgba" where
  "pixel_to_rgba bs pf m = value_to_rgba (raw_pixel_value bs (pf_big_endian pf)) pf m"

definition cpixel_to_rgba :: "u8 \<times> u8 \<times> u8 \<Rightarrow> pixel_format \<Rightarrow> rgba" where
  "cpixel_to_rgba = (\<lambda>(c0, c1, c2) pf.
     let fits_low = pf_red_shift pf \<le> 16 \<and> pf_green_shift pf \<le> 16 \<and> pf_blue_shift pf \<le> 16;
         b0 = ucast c0; b1 = ucast c1; b2 = ucast c2;
         v = (if pf_big_endian pf
              then if fits_low then push_bit 16 b0 OR push_bit 8 b1 OR b2
                   else push_bit 24 b0 OR push_bit 16 b1 OR push_bit 8 b2
              else if fits_low then b0 OR push_bit 8 b1 OR push_bit 16 b2
              else push_bit 8 b0 OR push_bit 16 b1 OR push_bit 24 b2)
     in value_to_rgba v pf None)"

subsection \<open>The bulk conversion\<close>

text \<open>\<open>chunks_exact\<close> of a length that is not zero.\<close>

function chunks_exact :: "nat \<Rightarrow> 'a list \<Rightarrow> 'a list list" where
  "chunks_exact n xs = (if n = 0 \<or> length xs < n then [] else take n xs # chunks_exact n (drop n xs))"
  by auto

termination by (relation "measure (\<lambda>(n, xs). length xs)") auto

declare chunks_exact.simps [simp del]

definition LUT_LEN :: nat where "LUT_LEN = 1024"
definition LUT_MIN_PIXELS :: nat where "LUT_MIN_PIXELS = 512"

record channel_luts =
  lut_r :: "u8 list"
  lut_g :: "u8 list"
  lut_b :: "u8 list"

definition channel_lut :: "u16 \<Rightarrow> u8 list" where
  "channel_lut mx = map (\<lambda>c. if c \<le> unat mx then scale_channel (of_nat c) mx else 0) [0..<LUT_LEN]"

definition luts_build :: "pixel_format \<Rightarrow> channel_luts option" where
  "luts_build pf =
     (if LUT_LEN \<le> unat (pf_red_max pf) \<or> LUT_LEN \<le> unat (pf_green_max pf) \<or> LUT_LEN \<le> unat (pf_blue_max pf) then None
      else Some \<lparr>lut_r = channel_lut (pf_red_max pf), lut_g = channel_lut (pf_green_max pf), lut_b = channel_lut (pf_blue_max pf)\<rparr>)"

definition assemble :: "nat \<Rightarrow> bool \<Rightarrow> bytes \<Rightarrow> u32" where
  "assemble bpp be s =
     (if bpp = 1 then ucast (s ! 0)
      else if bpp = 2 then ucast ((if be then from_be_bytes [s ! 0, s ! 1] else from_le_bytes [s ! 0, s ! 1]) :: u16)
      else if bpp = 3 then (if be then from_be_bytes [0, s ! 0, s ! 1, s ! 2] else from_le_bytes [s ! 0, s ! 1, s ! 2, 0])
      else (if be then from_be_bytes [s ! 0, s ! 1, s ! 2, s ! 3] else from_le_bytes [s ! 0, s ! 1, s ! 2, s ! 3]))"

text \<open>The pixels written over the front of the destination, as far as both reach (a \<open>zip\<close>).\<close>

definition overlay :: "'a list \<Rightarrow> 'a list \<Rightarrow> 'a list" where
  "overlay new_front dst = take (length dst) new_front @ drop (length new_front) dst"

definition map_pixels :: "bytes \<Rightarrow> rgba list \<Rightarrow> nat \<Rightarrow> bool \<Rightarrow> (u32 \<Rightarrow> rgba) \<Rightarrow> rgba list" where
  "map_pixels src dst bpp be f =
     (if bpp \<in> {1, 2, 3, 4} then overlay (map (\<lambda>s. f (assemble bpp be s)) (chunks_exact bpp src)) dst else dst)"

definition is_canonical_bgra :: "pixel_format \<Rightarrow> bool" where
  "is_canonical_bgra pf \<longleftrightarrow>
     pf_true_colour pf \<and> pf_bits_per_pixel pf = 32 \<and> \<not> pf_big_endian pf \<and>
     pf_red_max pf = 255 \<and> pf_green_max pf = 255 \<and> pf_blue_max pf = 255 \<and>
     pf_red_shift pf = 16 \<and> pf_green_shift pf = 8 \<and> pf_blue_shift pf = 0"

definition swizzle :: "bytes \<Rightarrow> rgba" where
  "swizzle s = (s ! 2, s ! 1, s ! 0, 255)"

definition palette_table :: "colour_map option \<Rightarrow> rgba list" where
  "palette_table m = map (\<lambda>i. case (case m of Some m' \<Rightarrow> cm_lookup m' (of_nat i) | None \<Rightarrow> (of_nat i, of_nat i, of_nat i))
     of (r, g, b) \<Rightarrow> (r, g, b, 255)) [0..<256]"

text \<open>The pixels that the source covers, by the first path that applies.\<close>

definition convert_covered :: "bytes \<Rightarrow> pixel_format \<Rightarrow> colour_map option \<Rightarrow> nat \<Rightarrow> nat \<Rightarrow> rgba list \<Rightarrow> rgba list" where
  "convert_covered src pf m bpp n dst =
     (let rs = pf_red_shift pf; gs = pf_green_shift pf; bs = pf_blue_shift pf;
          rm = ucast (pf_red_max pf); gm = ucast (pf_green_max pf); bm = ucast (pf_blue_max pf);
          scaled = (\<lambda>v. (scale_channel (shr v rs AND rm) (pf_red_max pf), scale_channel (shr v gs AND gm) (pf_green_max pf),
                         scale_channel (shr v bs AND bm) (pf_blue_max pf), 255))
      in if is_canonical_bgra pf then overlay (map swizzle (chunks_exact 4 src)) dst
         else if \<not> pf_true_colour pf
         then map_pixels src dst bpp (pf_big_endian pf) (\<lambda>v. palette_table m ! unat (v AND 0xFF))
         else if rm = 255 \<and> gm = 255 \<and> bm = 255
         then map_pixels src dst bpp (pf_big_endian pf)
                (\<lambda>v. (ucast (shr v rs AND 255), ucast (shr v gs AND 255), ucast (shr v bs AND 255), 255))
         else
           case (if LUT_MIN_PIXELS \<le> n then luts_build pf else None) of
             Some luts \<Rightarrow>
               map_pixels src dst bpp (pf_big_endian pf)
                 (\<lambda>v. (lut_r luts ! unat (shr v rs AND rm AND 1023), lut_g luts ! unat (shr v gs AND gm AND 1023),
                       lut_b luts ! unat (shr v bs AND bm AND 1023), 255))
           | None \<Rightarrow> map_pixels src dst bpp (pf_big_endian pf) scaled)"

definition convert_to_rgba_mapped :: "bytes \<Rightarrow> pixel_format \<Rightarrow> nat \<Rightarrow> colour_map option \<Rightarrow> rgba list" where
  "convert_to_rgba_mapped src pf count m =
     (let bpp = bytes_per_pixel pf in
      if bpp = 0 \<or> 4 < bpp then replicate count (0, 0, 0, 0)
      else
        let n = min count (length src div bpp);
            tail = replicate (count - n) (0, 0, 0, 255)
        in if n = 0 then replicate n (0, 0, 0, 0) @ tail
           else convert_covered (take (n * bpp) src) pf m bpp n (replicate n (0, 0, 0, 0)) @ tail)"

definition convert_to_rgba :: "bytes \<Rightarrow> pixel_format \<Rightarrow> nat \<Rightarrow> rgba list" where
  "convert_to_rgba src pf count = convert_to_rgba_mapped src pf count None"

section \<open>The fast paths\<close>

text \<open>
  The bulk conversion of wire pixels agrees with the conversion of one pixel, whatever path it takes:
  the byte swizzle, the palette table, the channels that need no scaling, the scaling tables and the
  general case (\<open>crates/remote-pixel/src/convert.rs\<close>).
\<close>

subsection \<open>Pixels as numbers\<close>

lemma shift_or_byte: "push_bit 8 v OR ucast b = (of_nat (unat b) + 256 * v :: u32)" for b :: u8
proof -
  have "push_bit 8 v OR ucast b = push_bit 8 v + (ucast b :: u32)"
    by (rule disjunctive_add [symmetric]) (auto simp: bit_push_bit_iff bit_ucast_iff dest: bit_imp_le_length)
  then show ?thesis by (simp add: push_bit_eq_mult add.commute mult.commute)
qed

lemma raw_little: "fold (\<lambda>b v. push_bit 8 v OR ucast b) (rev bs) 0 = (of_nat (nat_of_le bs) :: u32)"
  by (induction bs) (simp_all add: shift_or_byte)

lemma raw_pixel_value_le: "raw_pixel_value bs False = from_le_bytes bs"
  by (simp add: raw_pixel_value_def raw_little from_le_bytes_def)

lemma raw_pixel_value_be: "raw_pixel_value bs True = from_be_bytes bs"
  using raw_little [of "rev bs"] by (simp add: raw_pixel_value_def from_le_bytes_def from_be_bytes_def)

lemma byte_small: "unat b \<le> 255" for b :: u8
  using unsigned_less [where 'a = nat, of b] by simp

lemma unat_widen: "LENGTH('a) \<le> 32 \<Longrightarrow> unat (ucast x :: u32) = unat x" for x :: "'a::len word"
proof -
  assume "LENGTH('a) \<le> 32"
  then have "(2 :: nat) ^ LENGTH('a) \<le> 2 ^ 32" by (rule power_increasing) simp
  with unsigned_less [where 'a = nat, of x] have "unat x < 2 ^ 32" by (rule less_le_trans)
  then show ?thesis by (simp add: unsigned_ucast_eq take_bit_nat_eq_self)
qed

lemma unat_from_le: "8 * length bs \<le> LENGTH('a) \<Longrightarrow> unat (from_le_bytes bs :: 'a::len word) = nat_of_le bs"
proof -
  assume len: "8 * length bs \<le> LENGTH('a)"
  have "nat_of_le bs < 2 ^ (8 * length bs)" using nat_of_le_bound [of bs] by (simp add: power_mult)
  also have "\<dots> \<le> 2 ^ LENGTH('a)" by (rule power_increasing [OF len]) simp
  finally show ?thesis by (simp add: from_le_bytes_def unsigned_of_nat take_bit_nat_eq_self)
qed

lemma narrow_widen: "ucast (ucast x :: u32) = x" for x :: u8
  using byte_small [of x] unat_widen [of x]
  by (simp add: word_unat_eq_iff [of "ucast (ucast x)"] unsigned_ucast_eq [of "ucast x :: u32"] take_bit_nat_eq_self del: unsigned_ucast_eq)

lemma ucast_u16_of_nat: "k < 65536 \<Longrightarrow> ucast (of_nat k :: u16) = (of_nat k :: u32)"
  by (simp add: word_unat_eq_iff unat_widen unsigned_of_nat take_bit_nat_eq_self)

lemma assemble_exact:
  assumes "bpp \<in> {1, 2, 3, 4}" and "length s = bpp"
  shows "assemble bpp be s = raw_pixel_value s be"
proof -
  consider "bpp = 1" | "bpp = 2" | "bpp = 3" | "bpp = 4" using assms(1) by auto
  then show ?thesis
  proof cases
    case 1
    with assms(2) obtain a where "s = [a]" by (auto simp: length_Suc_conv)
    then show ?thesis using 1
      by (cases be) (simp_all add: assemble_def raw_pixel_value_le raw_pixel_value_be from_le_bytes_def from_be_bytes_def)
  next
    case 2
    with assms(2) obtain a b where "s = [a, b]" by (auto simp: length_Suc_conv numeral_eq_Suc)
    then show ?thesis using 2 byte_small [of a] byte_small [of b] ucast_u16_of_nat [of "nat_of_le [a, b]"] ucast_u16_of_nat [of "nat_of_le [b, a]"]
      by (cases be) (simp_all add: assemble_def raw_pixel_value_le raw_pixel_value_be from_le_bytes_def from_be_bytes_def)
  next
    case 3
    with assms(2) obtain a b c where "s = [a, b, c]" by (auto simp: length_Suc_conv numeral_eq_Suc)
    then show ?thesis using 3
      by (cases be) (simp_all add: assemble_def raw_pixel_value_le raw_pixel_value_be from_le_bytes_def from_be_bytes_def)
  next
    case 4
    with assms(2) obtain a b c d where "s = [a, b, c, d]" by (auto simp: length_Suc_conv numeral_eq_Suc)
    then show ?thesis using 4
      by (cases be) (simp_all add: assemble_def raw_pixel_value_le raw_pixel_value_be from_le_bytes_def from_be_bytes_def)
  qed
qed

lemma scale_identity: "c \<le> 255 \<Longrightarrow> scale_channel c 255 = ucast c"
proof -
  assume "c \<le> 255"
  then have c: "unat c \<le> 255" by (simp add: word_le_nat_alt)
  then have "unat (c * 255 + 127 :: u32) = unat c * 255 + 127"
    by (simp add: unat_word_ariths)
  then have "unat ((c * 255 + 127) div 255 :: u32) = unat c"
    using c by (simp add: unat_div)
  then have "(c * 255 + 127) div 255 = c" by (simp add: word_unat_eq_iff)
  then show ?thesis by (simp add: scale_channel_def)
qed

lemma and_below: "x AND m \<le> m" for x m :: u32
  by (simp add: word_and_le1)

lemma lut_exact:
  assumes "unat mx < LUT_LEN"
  shows "channel_lut mx ! unat (x AND ucast mx AND 1023) = scale_channel (x AND ucast mx) mx"
proof -
  let ?i = "x AND ucast mx"
  have le: "unat ?i \<le> unat mx"
    using and_below [of x "ucast mx"] by (simp add: word_le_nat_alt unat_widen)
  then have "unat ?i < 1024" using assms by (simp add: LUT_LEN_def)
  then have "take_bit 10 ?i = ?i" by (simp add: word_unat_eq_iff unsigned_take_bit_eq take_bit_nat_eq_self del: take_bit_and)
  then have "?i AND 1023 = ?i" by (simp add: take_bit_eq_mask mask_eq_exp_minus_1)
  then show ?thesis
    using le assms by (simp add: channel_lut_def and.assoc)
qed

text \<open>The bytes of a value, by shifting and masking.\<close>

lemma masked_bytes:
  assumes v: "unat (v :: u32) = unat a + 256 * (unat b + 256 * (unat c + 256 * k))"
  shows "drop_bit 16 v AND 255 = ucast (c :: u8)" and "drop_bit 8 v AND 255 = ucast (b :: u8)" and "v AND 255 = ucast (a :: u8)"
proof -
  have masked: "drop_bit n v AND 255 = ucast x" if "unat v div 2 ^ n mod 256 = unat x" for n and x :: u8
  proof -
    have "drop_bit n v AND 255 = take_bit 8 (drop_bit n v)" by (simp add: take_bit_eq_mask mask_eq_exp_minus_1)
    moreover have "unat (take_bit 8 (drop_bit n v)) = unat v div 2 ^ n mod 256"
      unfolding unsigned_take_bit_eq unat_drop_bit_eq by (simp add: drop_bit_nat_def take_bit_eq_mod)
    ultimately have "unat (drop_bit n v AND 255) = unat x" using that by simp
    then show ?thesis by (simp add: word_unat_eq_iff unat_widen)
  qed
  have digit: "(unat x + 256 * y) div 256 = y" "(unat x + 256 * y) mod 256 = unat x" for x :: u8 and y
    using byte_small [of x] by simp_all
  have "unat v div 2 ^ 16 = unat v div 256 div 256" by (simp flip: div_mult2_eq)
  then have "unat v div 2 ^ 16 mod 256 = unat c" by (simp only: v digit)
  then show "drop_bit 16 v AND 255 = ucast c" by (rule masked)
  have "unat v div 2 ^ 8 = unat v div 256" by simp
  then have "unat v div 2 ^ 8 mod 256 = unat b" by (simp only: v digit)
  then show "drop_bit 8 v AND 255 = ucast b" by (rule masked)
  have "unat v div 2 ^ 0 = unat v" by simp
  then have "unat v div 2 ^ 0 mod 256 = unat a" by (simp only: v digit)
  then have "drop_bit 0 v AND 255 = ucast a" by (rule masked)
  then show "v AND 255 = ucast a" by simp
qed

lemma scale_byte [simp]: "scale_channel (ucast x) 255 = x" for x :: u8
  using byte_small [of x] by (simp add: scale_identity word_le_nat_alt unat_widen narrow_widen)

lemma swizzle_exact:
  assumes "is_canonical_bgra pf" and "length s = 4"
  shows "swizzle s = pixel_to_rgba s pf m"
proof -
  obtain a b c d where s: "s = [a, b, c, d]" using assms(2) by (auto simp: length_Suc_conv numeral_eq_Suc)
  have v: "unat (from_le_bytes s :: u32) = unat a + 256 * (unat b + 256 * (unat c + 256 * unat d))"
    by (simp add: unat_from_le s)
  show ?thesis
    using assms(1) masked_bytes [OF v]
    by (simp add: is_canonical_bgra_def pixel_to_rgba_def raw_pixel_value_le value_to_rgba_def shr_def swizzle_def s)
qed

subsection \<open>Chunks\<close>

lemma chunks_exact_Nil [simp]: "length xs < n \<Longrightarrow> chunks_exact n xs = []" "chunks_exact n [] = []"
  by (subst chunks_exact.simps, auto)+

lemma length_chunks_exact [simp]: "0 < n \<Longrightarrow> length (chunks_exact n xs) = length xs div n"
proof (induction n xs rule: chunks_exact.induct)
  case (1 n xs)
  then show ?case by (cases "length xs < n") (simp_all add: chunks_exact.simps [of n xs] le_div_geq not_less)
qed

lemma chunk_length: "s \<in> set (chunks_exact n xs) \<Longrightarrow> length s = n"
proof (induction n xs rule: chunks_exact.induct)
  case (1 n xs)
  then show ?case by (subst (asm) (2) chunks_exact.simps) (auto split: if_splits)
qed

lemma chunks_exact_take: "0 < n \<Longrightarrow> chunks_exact n (take (k * n) xs) = take k (chunks_exact n xs)"
proof (induction k arbitrary: xs)
  case (Suc k)
  have "chunks_exact n (take (Suc k * n) xs) = take (Suc k) (chunks_exact n xs)" if "n \<le> length xs"
  proof -
    have "take (Suc k * n) xs = take n xs @ take (k * n) (drop n xs)" by (simp add: take_add add.commute)
    then have "chunks_exact n (take (Suc k * n) xs) = take n xs # chunks_exact n (take (k * n) (drop n xs))"
      using that Suc.prems by (subst chunks_exact.simps) (simp add: min_def)
    then show ?thesis using Suc that by (simp add: chunks_exact.simps [of n xs])
  qed
  then show ?case by (cases "n \<le> length xs") (simp_all add: not_le min_def)
qed simp

subsection \<open>Every path is the pixel by pixel conversion\<close>

definition convert_reference :: "bytes \<Rightarrow> pixel_format \<Rightarrow> nat \<Rightarrow> colour_map option \<Rightarrow> rgba list" where
  "convert_reference src pf count m =
     (let n = min count (length src div bytes_per_pixel pf)
      in map (\<lambda>s. pixel_to_rgba s pf m) (take n (chunks_exact (bytes_per_pixel pf) src)) @ replicate (count - n) (0, 0, 0, 255))"

lemma overlay_all [simp]: "length xs = length ys \<Longrightarrow> overlay xs ys = xs"
  by (simp add: overlay_def)

lemma map_pixels_exact:
  assumes "bpp \<in> {1, 2, 3, 4}" and "length src = length dst * bpp"
  shows "map_pixels src dst bpp be f = map (\<lambda>s. f (raw_pixel_value s be)) (chunks_exact bpp src)"
proof -
  have "map (\<lambda>s. f (assemble bpp be s)) (chunks_exact bpp src) = map (\<lambda>s. f (raw_pixel_value s be)) (chunks_exact bpp src)"
    by (rule map_cong [OF refl]) (simp add: assemble_exact [OF assms(1) chunk_length])
  then show ?thesis using assms by (auto simp: map_pixels_def)
qed

lemma palette_exact: "\<not> pf_true_colour pf \<Longrightarrow> palette_table m ! unat (v AND 0xFF) = value_to_rgba v pf m"
proof -
  assume indexed: "\<not> pf_true_colour pf"
  have "v AND 0xFF = take_bit 8 v" by (simp add: take_bit_eq_mask mask_eq_exp_minus_1)
  then have small: "unat (v AND 0xFF) < 256"
    using take_bit_nat_less_exp [of 8 "unat v"] by (simp add: unsigned_take_bit_eq del: take_bit_nat_less_exp)
  have "(of_nat (unat (v AND 0xFF)) :: u8) = ucast (v AND 0xFF)" by (simp add: word_unat_eq_iff unsigned_of_nat unsigned_ucast_eq)
  then show ?thesis using small indexed by (simp add: palette_table_def value_to_rgba_def Let_def split: option.split)
qed

lemma covered_exact:
  assumes "bpp = bytes_per_pixel pf" and "bpp \<in> {1, 2, 3, 4}" and "length src = length dst * bpp"
  shows "convert_covered src pf m bpp n dst = map (\<lambda>s. pixel_to_rgba s pf m) (chunks_exact bpp src)"
proof -
  note exact = map_pixels_exact [OF assms(2,3)]
  show ?thesis
  proof (cases "is_canonical_bgra pf")
    case True
    then have "bpp = 4" using assms(1) by (simp add: is_canonical_bgra_def bytes_per_pixel_def)
    moreover have "map swizzle (chunks_exact 4 src) = map (\<lambda>s. pixel_to_rgba s pf m) (chunks_exact 4 src)"
      by (rule map_cong [OF refl]) (simp add: swizzle_exact [OF True chunk_length])
    ultimately show ?thesis using True assms(3) by (simp add: convert_covered_def)
  next
    case general: False
    show ?thesis
    proof (cases "pf_true_colour pf")
      case False
      then show ?thesis
        using general by (simp add: convert_covered_def exact palette_exact pixel_to_rgba_def)
    next
      case True
      let ?r = "\<lambda>v. shr v (pf_red_shift pf)" and ?g = "\<lambda>v. shr v (pf_green_shift pf)" and ?b = "\<lambda>v. shr v (pf_blue_shift pf)"
      let ?rm = "ucast (pf_red_max pf) :: u32" and ?gm = "ucast (pf_green_max pf) :: u32" and ?bm = "ucast (pf_blue_max pf) :: u32"
      show ?thesis
      proof (cases "?rm = 255 \<and> ?gm = 255 \<and> ?bm = 255")
        case full: True
        then have "pf_red_max pf = 255" "pf_green_max pf = 255" "pf_blue_max pf = 255"
          by (simp_all add: word_unat_eq_iff unat_widen)
        moreover have "scale_channel (x AND 255) 255 = ucast (x AND 255)" for x
          using and_below [of x 255] by (rule scale_identity)
        ultimately show ?thesis
          using general True full by (simp add: convert_covered_def exact pixel_to_rgba_def value_to_rgba_def)
      next
        case scaled: False
        show ?thesis
        proof (cases "LUT_MIN_PIXELS \<le> n \<and> luts_build pf \<noteq> None")
          case True
          then have "unat (pf_red_max pf) < LUT_LEN" "unat (pf_green_max pf) < LUT_LEN" "unat (pf_blue_max pf) < LUT_LEN"
            by (auto simp: luts_build_def split: if_splits)
          then show ?thesis
            using general \<open>pf_true_colour pf\<close> scaled True
            by (auto simp: convert_covered_def exact pixel_to_rgba_def value_to_rgba_def luts_build_def lut_exact)
        next
          case False
          then have "(if LUT_MIN_PIXELS \<le> n then luts_build pf else None) = None" by auto
          moreover have "(?rm = 255 \<and> ?gm = 255 \<and> ?bm = 255) = False" using scaled by blast
          ultimately show ?thesis
            using general \<open>pf_true_colour pf\<close>
            by (simp only: convert_covered_def Let_def if_False if_True option.case) (simp add: convert_covered_def exact pixel_to_rgba_def value_to_rgba_def Let_def)
        qed
      qed
    qed
  qed
qed

lemma convert_eq_reference:
  assumes "bytes_per_pixel pf \<in> {1, 2, 3, 4}"
  shows "convert_to_rgba_mapped src pf count m = convert_reference src pf count m"
proof -
  let ?bpp = "bytes_per_pixel pf" and ?n = "min count (length src div bytes_per_pixel pf)"
  have bpp: "0 < ?bpp" "\<not> 4 < ?bpp" using assms by auto
  have "?n * ?bpp \<le> length src"
    by (metis div_times_less_eq_dividend le_trans min.cobounded2 mult_le_mono1)
  then have "length (take (?n * ?bpp) src) = length (replicate ?n (0, 0, 0, 0) :: rgba list) * ?bpp" by simp
  from covered_exact [OF refl assms this, of m ?n] show ?thesis
    using bpp by (auto simp: convert_to_rgba_mapped_def convert_reference_def Let_def chunks_exact_take min_def)
qed

end
