(* ===== verification/Pixel_Buffer.thy ===== *)
theory Pixel_Buffer
  imports Main
begin

text \<open>
  Buffers of pixels addressed by row and column, as every decoder of the workspace keeps them: a list of
  \<open>stride * height\<close> pixels, row after row. Slice reads and writes answer nothing when they are out of
  range, where Rust panics. \<open>fill\<close> and \<open>blit\<close> are the helpers of \<open>crates/vnc-core/src/encodings/hextile.rs\<close>,
  whose loops the other decoders repeat.
\<close>

subsection \<open>Slices\<close>

definition load :: "nat \<Rightarrow> nat \<Rightarrow> 'a list \<Rightarrow> 'a list option" where
  "load i n xs = (if i + n \<le> length xs then Some (take n (drop i xs)) else None)"

definition store :: "nat \<Rightarrow> 'a list \<Rightarrow> 'a list \<Rightarrow> 'a list option" where
  "store i xs ys = (if i + length xs \<le> length ys then Some (take i ys @ xs @ drop (i + length xs) ys) else None)"

text \<open>\<open>copy_within\<close>, which is a \<open>memmove\<close>.\<close>

definition copy_within :: "nat \<Rightarrow> nat \<Rightarrow> nat \<Rightarrow> 'a list \<Rightarrow> 'a list option" where
  "copy_within src n dst xs = Option.bind (load src n xs) (\<lambda>part. store dst part xs)"

fun ofold :: "('x \<Rightarrow> 's \<Rightarrow> 's option) \<Rightarrow> 'x list \<Rightarrow> 's \<Rightarrow> 's option" where
  "ofold f [] s = Some s"
| "ofold f (x # xs) s = Option.bind (f x s) (ofold f xs)"

lemma ofold_append [simp]: "ofold f (xs @ ys) s = Option.bind (ofold f xs s) (ofold f ys)"
  by (induction xs arbitrary: s) (simp_all split: Option.bind_split)

lemma ofold_cong:
  "(\<And>x. x \<in> set xs \<Longrightarrow> f x = g x) \<Longrightarrow> ofold f xs s = ofold g xs s"
  by (induction xs arbitrary: s) (simp_all split: Option.bind_split)

lemma length_load: "load i n xs = Some ys \<Longrightarrow> length ys = n"
  by (auto simp: load_def split: if_splits)

lemma nth_load: "load i n xs = Some ys \<Longrightarrow> k < n \<Longrightarrow> ys ! k = xs ! (i + k)"
  by (auto simp: load_def split: if_splits)

lemma length_store: "store i xs ys = Some zs \<Longrightarrow> length zs = length ys"
  by (auto simp: store_def split: if_splits)

lemma nth_store:
  "store i xs ys = Some zs \<Longrightarrow> k < length ys \<Longrightarrow>
   zs ! k = (if i \<le> k \<and> k < i + length xs then xs ! (k - i) else ys ! k)"
  by (auto simp: store_def nth_append split: if_splits)

subsection \<open>Rows and columns\<close>

definition at :: "nat \<Rightarrow> 'a list \<Rightarrow> nat \<Rightarrow> nat \<Rightarrow> 'a" where
  "at stride xs x y = xs ! (y * stride + x)"

definition fill :: "'a list \<Rightarrow> nat \<Rightarrow> nat \<Rightarrow> nat \<Rightarrow> nat \<Rightarrow> nat \<Rightarrow> 'a \<Rightarrow> 'a list option" where
  "fill out stride x y w h colour = ofold (\<lambda>row. store (row * stride + x) (replicate w colour)) [y..<y + h] out"

definition blit :: "'a list \<Rightarrow> nat \<Rightarrow> nat \<Rightarrow> nat \<Rightarrow> nat \<Rightarrow> nat \<Rightarrow> 'a list \<Rightarrow> 'a list option" where
  "blit out stride x y w h pixels =
     ofold (\<lambda>row out. Option.bind (load (row * w) w pixels) (\<lambda>part. store ((y + row) * stride + x) part out)) [0..<h] out"

lemma cell_below: "px < stride \<Longrightarrow> py < height \<Longrightarrow> py * stride + px < stride * height" for px :: nat
proof -
  assume px: "px < stride" and py: "py < height"
  have "py * stride + px < Suc py * stride" using px by simp
  also have "\<dots> \<le> height * stride" using py by (intro mult_le_mono1) simp
  finally show ?thesis by (simp add: mult.commute)
qed

text \<open>A cell is in a stretch of one row exactly when it is in that row and those columns.\<close>

lemma in_row:
  fixes px :: nat
  assumes "px < stride" and "x + w \<le> stride"
  shows "row * stride + x \<le> py * stride + px \<and> py * stride + px < row * stride + x + w \<longleftrightarrow>
    py = row \<and> x \<le> px \<and> px < x + w"
proof (cases py row rule: linorder_cases)
  case less
  have "py * stride + px < Suc py * stride" using assms by simp
  also have "\<dots> \<le> row * stride" using less by (intro mult_le_mono1) simp
  finally show ?thesis using less by simp
next
  case greater
  have "row * stride + x + w \<le> Suc row * stride" using assms by simp
  also have "\<dots> \<le> py * stride" using greater by (intro mult_le_mono1) simp
  finally show ?thesis using greater by simp
qed auto

lemma row_fits: "x + w \<le> stride \<Longrightarrow> row < height \<Longrightarrow> row * stride + x + w \<le> stride * height" for row :: nat
proof -
  assume fits: "x + w \<le> stride" and row: "row < height"
  have "row * stride + x + w \<le> Suc row * stride" using fits by simp
  also have "\<dots> \<le> height * stride" using row by (intro mult_le_mono1) simp
  finally show ?thesis by (simp add: mult.commute)
qed

lemma store_row:
  assumes "length out = stride * height" and "x + length part \<le> stride" and "row < height"
  obtains out' where "store (row * stride + x) part out = Some out'" and "length out' = stride * height"
    and "\<And>px py. px < stride \<Longrightarrow> py < height \<Longrightarrow>
      at stride out' px py = (if py = row \<and> x \<le> px \<and> px < x + length part then part ! (px - x) else at stride out px py)"
proof -
  have "row * stride + x + length part \<le> length out"
    using row_fits [OF assms(2,3)] assms(1) by simp
  then obtain out' where out': "store (row * stride + x) part out = Some out'" by (simp add: store_def)
  have "at stride out' px py = (if py = row \<and> x \<le> px \<and> px < x + length part then part ! (px - x) else at stride out px py)"
    if "px < stride" "py < height" for px py
    using nth_store [OF out', of "py * stride + px"] cell_below [OF that] in_row [OF that(1) assms(2), of row py] assms(1)
    by (auto simp: at_def)
  then show thesis using that out' length_store [OF out'] assms(1) by simp
qed

text \<open>Rows painted one after the other, in any order that visits each once.\<close>

lemma paint_rows:
  assumes "length out = stride * height" and "x + w \<le> stride" and "distinct rows"
    and "\<And>r. r \<in> set rows \<Longrightarrow> r < height \<and> length (part r) = w"
  shows "\<exists>out'. ofold (\<lambda>r. store (r * stride + x) (part r)) rows out = Some out' \<and> length out' = stride * height \<and>
    (\<forall>px<stride. \<forall>py<height. at stride out' px py =
      (if py \<in> set rows \<and> x \<le> px \<and> px < x + w then part py ! (px - x) else at stride out px py))"
  using assms
proof (induction rows arbitrary: out)
  case (Cons r rows)
  obtain out1 where step: "store (r * stride + x) (part r) out = Some out1" "length out1 = stride * height"
      "\<And>px py. px < stride \<Longrightarrow> py < height \<Longrightarrow>
        at stride out1 px py = (if py = r \<and> x \<le> px \<and> px < x + length (part r) then part r ! (px - x) else at stride out px py)"
    using Cons.prems by (auto intro: store_row [of out stride height x "part r" r])
  obtain out2 where rest: "ofold (\<lambda>r. store (r * stride + x) (part r)) rows out1 = Some out2" "length out2 = stride * height"
      "\<forall>px<stride. \<forall>py<height. at stride out2 px py =
        (if py \<in> set rows \<and> x \<le> px \<and> px < x + w then part py ! (px - x) else at stride out1 px py)"
    using Cons.IH [OF step(2)] Cons.prems by auto
  have "r \<notin> set rows" "length (part r) = w" using Cons.prems by auto
  then show ?case using step rest by auto
qed simp

lemma fill_exact:
  assumes "length out = stride * height" and "x + w \<le> stride" and "y + h \<le> height"
  obtains out' where "fill out stride x y w h colour = Some out'" and "length out' = stride * height"
    and "\<And>px py. px < stride \<Longrightarrow> py < height \<Longrightarrow>
      at stride out' px py = (if x \<le> px \<and> px < x + w \<and> y \<le> py \<and> py < y + h then colour else at stride out px py)"
proof -
  obtain out' where out': "fill out stride x y w h colour = Some out'" "length out' = stride * height"
      "\<forall>px<stride. \<forall>py<height. at stride out' px py =
        (if py \<in> set [y..<y + h] \<and> x \<le> px \<and> px < x + w then replicate w colour ! (px - x) else at stride out px py)"
    using paint_rows [OF assms(1,2), of "[y..<y + h]" "\<lambda>_. replicate w colour"] assms(3) by (auto simp: fill_def)
  show thesis by (rule that [OF out'(1,2)]) (use out'(3) in auto)
qed

lemma blit_exact:
  assumes "length out = stride * height" and "x + w \<le> stride" and "y + h \<le> height" and "length pixels = w * h"
  obtains out' where "blit out stride x y w h pixels = Some out'" and "length out' = stride * height"
    and "\<And>px py. px < stride \<Longrightarrow> py < height \<Longrightarrow>
      at stride out' px py = (if x \<le> px \<and> px < x + w \<and> y \<le> py \<and> py < y + h then at w pixels (px - x) (py - y) else at stride out px py)"
proof -
  let ?part = "\<lambda>r. take w (drop ((r - y) * w) pixels)"
  have fits: "row * w + w \<le> length pixels" if "row < h" for row
    using row_fits [of 0 w w row h] that assms(4) by simp
  have same: "blit out stride x y w h pixels = ofold (\<lambda>r. store (r * stride + x) (?part r)) (map ((+) y) [0..<h]) out"
  proof -
    have "ofold (\<lambda>row out. Option.bind (load (row * w) w pixels) (\<lambda>part. store ((y + row) * stride + x) part out)) rows out =
        ofold (\<lambda>r. store (r * stride + x) (?part r)) (map ((+) y) rows) out" if "set rows \<subseteq> {..<h}" for rows and out :: "'a list"
      using that
    proof (induction rows arbitrary: out)
      case (Cons r rows)
      then have "ofold (\<lambda>row out. Option.bind (load (row * w) w pixels) (\<lambda>part. store ((y + row) * stride + x) part out)) rows =
          ofold (\<lambda>r. store (r * stride + x) (?part r)) (map ((+) y) rows)" by (simp add: fun_eq_iff)
      moreover have "load (r * w) w pixels = Some (?part (y + r))" using Cons.prems fits [of r] by (simp add: load_def)
      ultimately show ?case by simp
    qed simp
    then show ?thesis by (simp add: blit_def lessThan_atLeast0)
  qed
  have "set (map ((+) y) [0..<h]) = {y..<y + h}" by (auto simp: image_def) (metis le_add_diff_inverse atLeastLessThan_iff le0 less_diff_conv2 add.commute)
  moreover have "distinct (map ((+) y) [0..<h])" by (simp add: distinct_map)
  moreover have "length (?part r) = w" if "y \<le> r" "r < y + h" for r
  proof -
    have "r - y < h" using that by simp
    from fits [OF this] show ?thesis by simp
  qed
  ultimately obtain out' where out': "blit out stride x y w h pixels = Some out'" "length out' = stride * height"
      "\<forall>px<stride. \<forall>py<height. at stride out' px py =
        (if py \<in> {y..<y + h} \<and> x \<le> px \<and> px < x + w then ?part py ! (px - x) else at stride out px py)"
    using paint_rows [OF assms(1,2), of "map ((+) y) [0..<h]" ?part] assms(3) unfolding same by auto
  have "?part py ! (px - x) = at w pixels (px - x) (py - y)" if "x \<le> px" "px < x + w" "y \<le> py" "py < y + h" for px py
  proof -
    have "py - y < h" using that by simp
    from fits [OF this] have "(py - y) * w + (px - x) < length pixels" using that by simp
    then show ?thesis using that by (simp add: at_def)
  qed
  note part_at = this
  show thesis
  proof (rule that [OF out'(1,2)])
    fix px py assume "px < stride" "py < height"
    then show "at stride out' px py =
        (if x \<le> px \<and> px < x + w \<and> y \<le> py \<and> py < y + h then at w pixels (px - x) (py - y) else at stride out px py)"
      using out'(3) part_at [of px py] by (auto simp del: nth_take)
  qed
qed

end
