(* ===== verification/Vnc_Rects.thy ===== *)
theory Vnc_Rects
  imports Vnc_Stream Pixel_Format Pixel_Buffer Geometry
begin

text \<open>
  The plain RFB encodings of \<open>crates/vnc-core/src/encodings\<close>: raw (\<open>raw.rs\<close>), copy rectangle
  (\<open>copy_rect.rs\<close>), RRE and CoRRE (\<open>rre.rs\<close>), hextile (\<open>hextile.rs\<close>) and zlib (\<open>zlib.rs\<close>), with the payloads of
  \<open>crates/remote-core/src/events.rs\<close>.
\<close>

unbundle bit_operations_syntax

datatype rect_payload =
    Rgba "rgba list"
  | Jpeg bytes
  | CopyRect u16 u16
  | H264 bytes u32 u32 bool bool

record decoded_rect =
  dr_rect :: rect
  dr_payload :: rect_payload

text \<open>What a decoder owes the framebuffer: as many pixels as the rectangle has.\<close>

fun payload_fits :: "rect \<Rightarrow> rect_payload \<Rightarrow> bool" where
  "payload_fits r (Rgba pixels) \<longleftrightarrow> length pixels = rect_area r"
| "payload_fits r _ \<longleftrightarrow> True"

text \<open>A pixel format with whole bytes, at most four of them.\<close>

definition whole_bytes :: "pixel_format \<Rightarrow> bool" where
  "whole_bytes pf \<longleftrightarrow> bytes_per_pixel pf \<in> {1, 2, 3, 4}"

text \<open>One wire pixel, read into a buffer of four bytes.\<close>

definition read_px :: "nat \<Rightarrow> bytes decoder" where
  "read_px n = (if 4 < n then dpanic else read_n n)"

definition blank :: "nat \<Rightarrow> rgba list" where
  "blank n = replicate n (0, 0, 0, 0)"

lemma length_blank [simp]: "length (blank n) = n"
  by (simp add: blank_def)

lemma length_convert_reference: "length (convert_reference src pf count m) = count" if "whole_bytes pf"
  using that by (auto simp: convert_reference_def whole_bytes_def Let_def min_def)

lemma length_convert [simp]: "whole_bytes pf \<Longrightarrow> length (convert_to_rgba_mapped src pf count m) = count"
  using length_convert_reference [of pf] by (simp add: convert_eq_reference whole_bytes_def)

lemma safely_read_px [safe_intros]: "n \<le> 4 \<Longrightarrow> safely (\<lambda>b. length b = n) (read_px n)"
  by (simp add: read_px_def safely_read_n)

subsection \<open>Raw, copy rectangle and zlib\<close>

definition raw_decode :: "rect \<Rightarrow> pixel_format \<Rightarrow> colour_map option \<Rightarrow> rect_payload decoder" where
  "raw_decode r pf m =
     dbind (read_exact_vec (rect_area r * bytes_per_pixel pf) ''raw'')
       (\<lambda>data. dret (Rgba (convert_to_rgba_mapped data pf (rect_area r) m)))"

definition copy_rect_decode :: "rect_payload decoder" where
  "copy_rect_decode = dbind read_u16 (\<lambda>src_x. dbind read_u16 (\<lambda>src_y. dret (CopyRect src_x src_y)))"

definition zlib_decode ::
  "'z zlib \<Rightarrow> rect \<Rightarrow> pixel_format \<Rightarrow> colour_map option \<Rightarrow> 'z \<Rightarrow> (rect_payload \<times> 'z) decoder" where
  "zlib_decode Z r pf m stream =
     dbind read_u32 (\<lambda>compressed_len.
     dbind (read_exact_vec (unat compressed_len) ''zlib'') (\<lambda>compressed.
     let expected = rect_area r * bytes_per_pixel pf in
     dbind (inflate Z stream compressed expected (expected + 1024) ''zlib'') (\<lambda>(data, stream').
     if length data < expected then dfail (VncDecode ''zlib'' ''short inflate'')
     else dret (Rgba (convert_to_rgba_mapped (take expected data) pf (rect_area r) m), stream'))))"

lemma safely_raw [safe_intros]: "whole_bytes pf \<Longrightarrow> safely (payload_fits r) (raw_decode r pf m)"
  unfolding raw_decode_def by (rule safely_bind [OF safely_read_exact_vec]) (simp add: safely_ret)

lemma safely_copy_rect [safe_intros]: "safely (payload_fits r) copy_rect_decode"
  unfolding copy_rect_decode_def
  by (rule safely_bind [OF safely_read_u16], rule safely_bind [OF safely_read_u16]) (simp add: safely_ret)

lemma safely_zlib [safe_intros]:
  "zlib_ok Z \<Longrightarrow> whole_bytes pf \<Longrightarrow> safely (\<lambda>(p, _). payload_fits r p) (zlib_decode Z r pf m stream)"
  unfolding zlib_decode_def Let_def
  by (rule safely_bind [OF safely_read_u32], rule safely_bind [OF safely_read_exact_vec], rule safely_bind [OF safely_inflate])
    (auto intro!: safely_ret safely_fail)

subsection \<open>RRE and CoRRE\<close>

type_synonym subrect = "nat \<times> nat \<times> nat \<times> nat"

definition rre_geometry :: "bool \<Rightarrow> bytes \<Rightarrow> subrect" where
  "rre_geometry compact g =
     (if compact then (unat (g ! 0), unat (g ! 1), unat (g ! 2), unat (g ! 3))
      else (unat (from_be_bytes [g ! 0, g ! 1] :: u16), unat (from_be_bytes [g ! 2, g ! 3] :: u16),
            unat (from_be_bytes [g ! 4, g ! 5] :: u16), unat (from_be_bytes [g ! 6, g ! 7] :: u16)))"

definition rre_subrect ::
  "pixel_format \<Rightarrow> colour_map option \<Rightarrow> bool \<Rightarrow> string \<Rightarrow> nat \<Rightarrow> nat \<Rightarrow> bytes \<Rightarrow> nat \<Rightarrow> rgba list \<Rightarrow> rgba list decoder" where
  "rre_subrect pf m compact enc w h data i out =
     (let bpp = bytes_per_pixel pf; per_subrect = bpp + (if compact then 4 else 8) in
      dbind (dchecked (load (i * per_subrect) per_subrect data)) (\<lambda>s.
      let colour = pixel_to_rgba (take bpp s) pf m;
          (sx, sy, sw, sh) = rre_geometry compact (drop bpp s)
      in if w < sx + sw \<or> h < sy + sh then dfail (VncDecode enc ''subrect outside rect'')
         else dchecked (fill out w sx sy sw sh colour)))"

definition rre_decode :: "rect \<Rightarrow> pixel_format \<Rightarrow> colour_map option \<Rightarrow> bool \<Rightarrow> rect_payload decoder" where
  "rre_decode r pf m compact =
     (let enc = (if compact then ''corre'' else ''rre'');
          bpp = bytes_per_pixel pf; w = unat (rt_width r); h = unat (rt_height r);
          per_subrect = bpp + (if compact then 4 else 8)
      in dbind read_u32 (\<lambda>num_subrects.
         dbind (read_px bpp) (\<lambda>bg_raw.
         let bg = pixel_to_rgba bg_raw pf m; total = unat num_subrects * per_subrect in
         if 2 ^ 64 \<le> total then dfail (VncDecode enc ''subrect count overflow'')
         else
           dbind (read_exact_vec total enc) (\<lambda>data.
           dbind (dfold (rre_subrect pf m compact enc w h data) [0..<unat num_subrects] (replicate (w * h) bg)) (\<lambda>out.
           dret (Rgba out))))))"

lemma safely_fill [safe_intros]:
  assumes "length out = w * h" and "sx + sw \<le> w" and "sy + sh \<le> h"
  shows "safely (\<lambda>out. length out = w * h) (dchecked (fill out w sx sy sw sh colour))"
  by (rule fill_exact [OF assms]) (auto intro: safely_checked)

lemma load_within: "i < n \<Longrightarrow> length xs = n * k \<Longrightarrow> load (i * k) k xs = Some (take k (drop (i * k) xs))"
  using row_fits [of 0 k k i n] by (simp add: load_def mult.commute)

lemma safely_rre_subrect:
  assumes "i < n" and "length data = n * (bytes_per_pixel pf + (if compact then 4 else 8))" and "length out = w * h"
  shows "safely (\<lambda>out. length out = w * h) (rre_subrect pf m compact enc w h data i out)"
proof -
  let ?per = "bytes_per_pixel pf + (if compact then 4 else 8)"
  have "load (i * ?per) ?per data = Some (take ?per (drop (i * ?per) data))" by (rule load_within [OF assms(1,2)])
  then show ?thesis
    unfolding rre_subrect_def Let_def
    by (auto simp: dchecked_def split: prod.split intro!: safely_if safely_fail safely_fill [unfolded dchecked_def] assms(3))
qed

lemma safely_rre [safe_intros]: "whole_bytes pf \<Longrightarrow> safely (payload_fits r) (rre_decode r pf m compact)"
proof -
  assume "whole_bytes pf"
  then have bpp: "bytes_per_pixel pf \<le> 4" by (auto simp: whole_bytes_def)
  show ?thesis
    unfolding rre_decode_def Let_def
  proof (intro safely_bind [OF safely_read_u32] safely_bind [OF safely_read_px [OF bpp]] safely_if safely_fail)
    fix n :: u32 and bg_raw :: bytes
    let ?w = "unat (rt_width r)" and ?h = "unat (rt_height r)" and ?enc = "if compact then ''corre'' else ''rre''"
    let ?per = "bytes_per_pixel pf + (if compact then 4 else 8)"
    show "safely (payload_fits r)
        (dbind (read_exact_vec (unat n * ?per) ?enc) (\<lambda>data.
         dbind (dfold (rre_subrect pf m compact ?enc ?w ?h data) [0..<unat n] (replicate (?w * ?h) (pixel_to_rgba bg_raw pf m))) (\<lambda>out.
         dret (Rgba out))))"
    proof (rule safely_bind [OF safely_read_exact_vec])
      fix data :: bytes assume data: "length data = unat n * ?per"
      have "safely (\<lambda>out. length out = ?w * ?h)
          (dfold (rre_subrect pf m compact ?enc ?w ?h data) [0..<unat n] (replicate (?w * ?h) (pixel_to_rgba bg_raw pf m)))"
      proof (rule safely_fold)
        fix i and out :: "rgba list" assume "i \<in> set [0..<unat n]" and "length out = ?w * ?h"
        then show "safely (\<lambda>out. length out = ?w * ?h) (rre_subrect pf m compact ?enc ?w ?h data i out)"
          by (intro safely_rre_subrect [OF _ data]) simp_all
      qed simp
      then show "safely (payload_fits r)
          (dbind (dfold (rre_subrect pf m compact ?enc ?w ?h data) [0..<unat n] (replicate (?w * ?h) (pixel_to_rgba bg_raw pf m)))
            (\<lambda>out. dret (Rgba out)))"
        by (rule safely_bind) (simp add: safely_ret rect_area_def)
    qed
  qed
qed

subsection \<open>Hextile\<close>

definition RAW :: u8 where "RAW = 1"
definition BACKGROUND_SPECIFIED :: u8 where "BACKGROUND_SPECIFIED = 2"
definition FOREGROUND_SPECIFIED :: u8 where "FOREGROUND_SPECIFIED = 4"
definition ANY_SUBRECTS :: u8 where "ANY_SUBRECTS = 8"
definition SUBRECTS_COLOURED :: u8 where "SUBRECTS_COLOURED = 16"

text \<open>The tiles along one axis: where each starts and how long it is.\<close>

function spans :: "nat \<Rightarrow> nat \<Rightarrow> nat \<Rightarrow> (nat \<times> nat) list" where
  "spans tile pos n =
     (if pos < n \<and> 0 < tile then let len = min (n - pos) tile in (pos, len) # spans tile (pos + len) n else [])"
  by auto

termination by (relation "measure (\<lambda>(tile, pos, n). n - pos)") auto

declare spans.simps [simp del]

definition tiles :: "nat \<Rightarrow> nat \<Rightarrow> nat \<Rightarrow> subrect list" where
  "tiles tile w h = concat (map (\<lambda>(ty, th). map (\<lambda>(tx, tw). (tx, ty, tw, th)) (spans tile 0 w)) (spans tile 0 h))"

record hextile_state =
  ht_out :: "rgba list"
  ht_bg :: rgba
  ht_fg :: rgba

definition hextile_subrect ::
  "pixel_format \<Rightarrow> colour_map option \<Rightarrow> nat \<Rightarrow> subrect \<Rightarrow> bool \<Rightarrow> rgba \<Rightarrow> nat \<Rightarrow> rgba list \<Rightarrow> rgba list decoder" where
  "hextile_subrect pf m w t coloured fg i out =
     (case t of (tx, ty, tw, th) \<Rightarrow>
      dbind (if coloured then dbind (read_px (bytes_per_pixel pf)) (\<lambda>b. dret (pixel_to_rgba b pf m)) else dret fg) (\<lambda>colour.
      dbind read_u8 (\<lambda>xy.
      dbind read_u8 (\<lambda>wh.
      let sx = unat (drop_bit 4 xy); sy = unat (xy AND 0x0F);
          sw = unat (drop_bit 4 wh) + 1; sh = unat (wh AND 0x0F) + 1
      in if tw < sx + sw \<or> th < sy + sh then dfail (VncDecode ''hextile'' ''subrect outside tile'')
         else dchecked (fill out w (tx + sx) (ty + sy) sw sh colour)))))"

definition hextile_tile ::
  "pixel_format \<Rightarrow> colour_map option \<Rightarrow> nat \<Rightarrow> subrect \<Rightarrow> hextile_state \<Rightarrow> hextile_state decoder" where
  "hextile_tile pf m w t s =
     (case t of (tx, ty, tw, th) \<Rightarrow>
      let bpp = bytes_per_pixel pf; colour = dbind (read_px bpp) (\<lambda>b. dret (pixel_to_rgba b pf m)) in
      dbind read_u8 (\<lambda>sub.
      if sub AND RAW \<noteq> 0
      then dbind (read_exact_vec (tw * th * bpp) ''hextile'') (\<lambda>data.
           dbind (dchecked (blit (ht_out s) w tx ty tw th (convert_to_rgba_mapped data pf (tw * th) m))) (\<lambda>out.
           dret (s\<lparr>ht_out := out\<rparr>)))
      else
        dbind (if sub AND BACKGROUND_SPECIFIED \<noteq> 0 then colour else dret (ht_bg s)) (\<lambda>bg.
        dbind (if sub AND FOREGROUND_SPECIFIED \<noteq> 0 then colour else dret (ht_fg s)) (\<lambda>fg.
        dbind (dchecked (fill (ht_out s) w tx ty tw th bg)) (\<lambda>out.
        dbind (if sub AND ANY_SUBRECTS \<noteq> 0
               then dbind read_u8 (\<lambda>count.
                    dfold (hextile_subrect pf m w t (sub AND SUBRECTS_COLOURED \<noteq> 0) fg) [0..<unat count] out)
               else dret out) (\<lambda>out'.
        dret \<lparr>ht_out = out', ht_bg = bg, ht_fg = fg\<rparr>))))))"

definition hextile_decode :: "rect \<Rightarrow> pixel_format \<Rightarrow> colour_map option \<Rightarrow> rect_payload decoder" where
  "hextile_decode r pf m =
     (let w = unat (rt_width r); h = unat (rt_height r) in
      dbind (dfold (hextile_tile pf m w) (tiles 16 w h)
               \<lparr>ht_out = blank (w * h), ht_bg = (0, 0, 0, 0), ht_fg = (0, 0, 0, 0)\<rparr>) (\<lambda>s.
      dret (Rgba (ht_out s))))"

lemma spans_within: "(p, len) \<in> set (spans tile pos n) \<Longrightarrow> pos \<le> p \<and> p + len \<le> n \<and> 0 < len \<and> len \<le> tile"
proof (induction tile pos n rule: spans.induct)
  case (1 tile pos n)
  show ?case
  proof (cases "pos < n \<and> 0 < tile")
    case True
    then show ?thesis
      using "1.prems" "1.IH" [OF True refl] by (auto simp: spans.simps [of tile pos n] Let_def)
  qed (use "1.prems" in \<open>simp add: spans.simps [of tile pos n]\<close>)
qed

lemma tiles_within:
  "(tx, ty, tw, th) \<in> set (tiles tile w h) \<Longrightarrow> tx + tw \<le> w \<and> ty + th \<le> h \<and> 0 < tw \<and> 0 < th \<and> tw \<le> tile \<and> th \<le> tile"
  by (auto simp: tiles_def dest!: spans_within)

lemma safely_hextile_subrect:
  assumes "whole_bytes pf" and "length out = w * h" and "tx + tw \<le> w" and "ty + th \<le> h"
  shows "safely (\<lambda>out. length out = w * h) (hextile_subrect pf m w (tx, ty, tw, th) coloured fg i out)"
proof -
  have bpp: "bytes_per_pixel pf \<le> 4" using assms(1) by (auto simp: whole_bytes_def)
  have "safely (\<lambda>_. True) (if coloured then dbind (read_px (bytes_per_pixel pf)) (\<lambda>b. dret (pixel_to_rgba b pf m)) else dret fg)"
    by (auto intro!: safely_bind [OF safely_read_px [OF bpp]] safely_ret)
  then show ?thesis
    unfolding hextile_subrect_def Let_def prod.case
    by (rule safely_bind, intro safely_bind [OF safely_read_u8] safely_if safely_fail safely_fill) (use assms in auto)
qed

lemma safely_hextile_tile:
  assumes "whole_bytes pf" and "length (ht_out s) = w * h" and "tx + tw \<le> w" and "ty + th \<le> h"
  shows "safely (\<lambda>s. length (ht_out s) = w * h) (hextile_tile pf m w (tx, ty, tw, th) s)"
proof -
  let ?colour = "dbind (read_px (bytes_per_pixel pf)) (\<lambda>b. dret (pixel_to_rgba b pf m))"
  have bpp: "bytes_per_pixel pf \<le> 4" using assms(1) by (auto simp: whole_bytes_def)
  have colour: "safely (\<lambda>_. True) (if c then ?colour else dret v)" for c v
    by (auto intro!: safely_bind [OF safely_read_px [OF bpp]] safely_ret)
  have raw: "safely (\<lambda>out. length out = w * h) (dchecked (blit (ht_out s) w tx ty tw th (convert_to_rgba_mapped data pf (tw * th) m)))" for data
    by (rule blit_exact [OF assms(2,3,4) length_convert [OF assms(1)]]) (auto intro: safely_checked)
  have subs: "safely (\<lambda>out. length out = w * h)
      (if any then dbind read_u8 (\<lambda>count. dfold (hextile_subrect pf m w (tx, ty, tw, th) coloured fg) [0..<unat count] out) else dret out)"
    if "length out = w * h" for any coloured fg out
    using that assms
    by (auto intro!: safely_if safely_ret safely_bind [OF safely_read_u8] safely_fold safely_hextile_subrect)
  show ?thesis
    unfolding hextile_tile_def Let_def prod.case
    by (intro safely_bind [OF safely_read_u8] safely_if safely_bind [OF safely_read_exact_vec] safely_bind [OF raw] safely_ret
        safely_bind [OF colour] safely_bind [OF safely_fill [OF assms(2,3,4)]] safely_bind [OF subs]) simp_all
qed

lemma safely_hextile [safe_intros]: "whole_bytes pf \<Longrightarrow> safely (payload_fits r) (hextile_decode r pf m)"
  unfolding hextile_decode_def Let_def
  by (rule safely_bind [where P = "\<lambda>s. length (ht_out s) = rect_area r"], rule safely_fold)
    (auto simp: rect_area_def intro!: safely_ret safely_hextile_tile dest: tiles_within)

end
