(* ===== verification/Vnc_Zrle.thy ===== *)
theory Vnc_Zrle
  imports Vnc_Rects
begin

text \<open>
  ZRLE and TRLE (\<open>crates/vnc-core/src/encodings/zrle.rs\<close>): tiles of palettes and runs. The buffer of a
  tile is kept from one tile to the next, as the source does, so that what a tile leaves behind is
  part of the model.
\<close>

unbundle bit_operations_syntax

subsection \<open>Compact pixels\<close>

definition cpixel_size :: "pixel_format \<Rightarrow> nat" where
  "cpixel_size pf = (if is_compact_3byte pf then 3 else bytes_per_pixel pf)"

definition read_cpixel_slice :: "pixel_format \<Rightarrow> colour_map option \<Rightarrow> bytes \<Rightarrow> rgba" where
  "read_cpixel_slice pf m bs =
     (if is_compact_3byte pf then cpixel_to_rgba (bs ! 0, bs ! 1, bs ! 2) pf else pixel_to_rgba bs pf m)"

definition read_cpixel :: "pixel_format \<Rightarrow> colour_map option \<Rightarrow> rgba decoder" where
  "read_cpixel pf m = dbind (read_px (cpixel_size pf)) (\<lambda>b. dret (read_cpixel_slice pf m b))"

text \<open>\<open>chunks_exact\<close> panics on a chunk of no bytes.\<close>

definition chunks_checked :: "nat \<Rightarrow> bytes \<Rightarrow> bytes list option" where
  "chunks_checked n bs = (if n = 0 then None else Some (chunks_exact n bs))"

definition read_palette :: "pixel_format \<Rightarrow> colour_map option \<Rightarrow> nat \<Rightarrow> string \<Rightarrow> rgba list decoder" where
  "read_palette pf m n enc =
     (let cps = cpixel_size pf in
      dbind (read_exact_vec (n * cps) enc) (\<lambda>wire.
      dbind (dchecked (chunks_checked cps wire)) (\<lambda>cs. dret (map (read_cpixel_slice pf m) cs))))"

fun run_length :: "nat \<Rightarrow> nat decoder" where
  "run_length acc [] = Failed (VncIo ''UnexpectedEof'')"
| "run_length acc (b # bs) = (if b \<noteq> 255 then Decoded (acc + unat b) bs else run_length (acc + unat b) bs)"

definition read_run_length :: "nat decoder" where
  "read_run_length = run_length 1"

lemma run_length_Decoded: "run_length acc bs = Decoded n rest \<Longrightarrow> acc \<le> n \<and> (\<exists>used. bs = used @ rest)"
proof (induction acc bs rule: run_length.induct)
  case (2 acc b bs)
  show ?case
  proof (cases "b = 255")
    case True
    then have "acc \<le> n" "\<exists>used. bs = used @ rest" using 2 by auto
    then show ?thesis by (metis append_Cons)
  next
    case False
    then have "b # bs = [b] @ rest" "acc \<le> n" using 2 by auto
    then show ?thesis by blast
  qed
qed simp

lemma safely_run_length [safe_intros]: "safely (\<lambda>n. 0 < n) read_run_length"
proof -
  have "run_length acc bs \<noteq> Panicked \<and> run_length acc bs \<noteq> Stuck" for acc bs
    by (induction acc bs rule: run_length.induct) auto
  then show ?thesis
    by (auto simp: safely_def read_run_length_def split: outcome.splits dest!: run_length_Decoded)
qed

subsection \<open>The tile buffer\<close>

text \<open>\<open>tile_mut\<close>: it only ever grows.\<close>

definition tile_grown :: "nat \<Rightarrow> rgba list \<Rightarrow> rgba list" where
  "tile_grown n tile = (if length tile < n then tile @ blank (n - length tile) else tile)"

text \<open>Pixels written over the first \<open>n\<close> of the buffer, as far as they reach.\<close>

definition write_front :: "nat \<Rightarrow> rgba list \<Rightarrow> rgba list \<Rightarrow> rgba list" where
  "write_front n pixels tile = (let grown = tile_grown n tile in overlay pixels (take n grown) @ drop n grown)"

text \<open>A run of one colour in the buffer.\<close>

definition put_run :: "nat \<Rightarrow> nat \<Rightarrow> nat \<Rightarrow> rgba \<Rightarrow> rgba list \<Rightarrow> rgba list decoder" where
  "put_run n filled len colour tile = dchecked (store filled (replicate len colour) (tile_grown n tile))"

function plain_runs :: "pixel_format \<Rightarrow> colour_map option \<Rightarrow> string \<Rightarrow> nat \<Rightarrow> nat \<Rightarrow> rgba list \<Rightarrow> rgba list decoder" where
  "plain_runs pf m enc n filled tile bs =
     (if filled < n
      then obind (read_cpixel pf m bs) (\<lambda>colour bs1.
           obind (read_run_length bs1) (\<lambda>len bs2.
           if n < filled + len then Failed (VncDecode enc ''RLE run overflows tile'')
           else obind (put_run n filled len colour tile bs2) (\<lambda>tile' bs3.
                plain_runs pf m enc n (filled + len) tile' bs3)))
      else Decoded tile bs)"
  by auto

termination
  by (relation "measure (\<lambda>(pf, m, enc, n, filled, tile, bs). n - filled)")
    (auto dest: safelyD [OF safely_run_length])

declare plain_runs.simps [simp del]

function palette_runs :: "rgba list \<Rightarrow> string \<Rightarrow> nat \<Rightarrow> nat \<Rightarrow> rgba list \<Rightarrow> rgba list decoder" where
  "palette_runs palette enc n filled tile bs =
     (if filled < n
      then obind (read_u8 bs) (\<lambda>b bs1.
           obind ((if b AND 0x80 \<noteq> 0 then read_run_length else dret 1) bs1) (\<lambda>len bs2.
           let idx = unat (b AND 0x7F) in
           if length palette \<le> idx then Failed (VncDecode enc ''palette RLE index out of range'')
           else if n < filled + len then Failed (VncDecode enc ''palette RLE run overflows tile'')
           else obind (put_run n filled len (palette ! idx) tile bs2) (\<lambda>tile' bs3.
                palette_runs palette enc n (filled + len) tile' bs3)))
      else Decoded tile bs)"
  by auto

termination
  by (relation "measure (\<lambda>(palette, enc, n, filled, tile, bs). n - filled)")
    (auto simp: dret_def dest: safelyD [OF safely_run_length] split: if_splits)

declare palette_runs.simps [simp del]

subsection \<open>Tiles\<close>

text \<open>One packed index: the pixel \<open>x\<close> of row \<open>y\<close>.\<close>

definition packed_pixel ::
  "string \<Rightarrow> nat \<Rightarrow> nat \<Rightarrow> rgba list \<Rightarrow> bytes list \<Rightarrow> nat \<Rightarrow> nat \<times> nat \<Rightarrow> rgba list \<Rightarrow> rgba list decoder" where
  "packed_pixel enc n bits palette rows tw yx tile =
     (case yx of (y, x) \<Rightarrow>
      let bit_off = x * bits; shift = 8 - bits - bit_off mod 8 in
      dbind (dchecked (load (bit_off div 8) 1 (rows ! y))) (\<lambda>byte.
      let idx = unat (drop_bit shift (hd byte) AND (push_bit bits 1 - 1)) in
      if length palette \<le> idx then dfail (VncDecode enc ''packed palette index out of range'')
      else dchecked (store (y * tw + x) [palette ! idx] tile)))"

definition zrle_tile ::
  "pixel_format \<Rightarrow> colour_map option \<Rightarrow> string \<Rightarrow> nat \<Rightarrow> nat \<Rightarrow> rgba list \<Rightarrow> rgba list decoder" where
  "zrle_tile pf m enc tw th tile =
     (let n = tw * th; cps = cpixel_size pf in
      dbind read_u8 (\<lambda>sub.
      if sub = 0
      then dbind (read_exact_vec (n * cps) enc) (\<lambda>wire.
           dbind (dchecked (chunks_checked cps wire)) (\<lambda>cs.
           dret (write_front n (map (read_cpixel_slice pf m) cs) tile)))
      else if sub = 1
      then dbind (read_cpixel pf m) (\<lambda>colour. dret (write_front n (replicate n colour) tile))
      else if sub \<le> 16
      then dbind (read_palette pf m (unat sub) enc) (\<lambda>palette.
           let bits = (if sub = 2 then 1 else if sub \<le> 4 then 2 else 4);
               row_bytes = (tw * bits + 7) div 8
           in dbind (read_exact_vec (row_bytes * th) enc) (\<lambda>wire.
              if length palette \<noteq> unat sub then dpanic
              else dbind (dchecked (chunks_checked row_bytes wire)) (\<lambda>rows.
                   dfold (packed_pixel enc n bits palette rows tw) (List.product [0..<th] [0..<tw]) (tile_grown n tile))))
      else if sub \<le> 127 then dfail (VncDecode enc ''unused subencoding'')
      else if sub = 128 then plain_runs pf m enc n 0 tile
      else if sub = 129 then dfail (VncDecode enc ''unused subencoding 129'')
      else dbind (read_palette pf m (unat (sub - 128)) enc) (\<lambda>palette. palette_runs palette enc n 0 tile)))"

text \<open>The buffers that one rectangle carries from tile to tile.\<close>

record zrle_state =
  zs_out :: "rgba list"
  zs_tile :: "rgba list"

definition zrle_step :: "pixel_format \<Rightarrow> colour_map option \<Rightarrow> string \<Rightarrow> nat \<Rightarrow> subrect \<Rightarrow> zrle_state \<Rightarrow> zrle_state decoder" where
  "zrle_step pf m enc w t s =
     (case t of (tx, ty, tw, th) \<Rightarrow>
      dbind (zrle_tile pf m enc tw th (zs_tile s)) (\<lambda>tile.
      dbind (dchecked (load 0 (tw * th) tile)) (\<lambda>pixels.
      dbind (dchecked (blit (zs_out s) w tx ty tw th pixels)) (\<lambda>out.
      dret \<lparr>zs_out = out, zs_tile = tile\<rparr>))))"

definition zrle_tiles :: "rect \<Rightarrow> pixel_format \<Rightarrow> colour_map option \<Rightarrow> string \<Rightarrow> rect_payload decoder" where
  "zrle_tiles r pf m enc =
     (let w = unat (rt_width r); h = unat (rt_height r) in
      dbind (dfold (zrle_step pf m enc w) (tiles 64 w h) \<lparr>zs_out = blank (w * h), zs_tile = []\<rparr>) (\<lambda>s.
      dret (Rgba (zs_out s))))"

text \<open>Decoding a buffer instead of the stream.\<close>

definition on_buffer :: "bytes \<Rightarrow> 'a decoder \<Rightarrow> 'a decoder" where
  "on_buffer data m bs = obind (m data) (\<lambda>a _. Decoded a bs)"

definition trle_decode :: "rect \<Rightarrow> pixel_format \<Rightarrow> colour_map option \<Rightarrow> rect_payload decoder" where
  "trle_decode r pf m = zrle_tiles r pf m ''trle''"

definition zrle_decode ::
  "'z zlib \<Rightarrow> rect \<Rightarrow> pixel_format \<Rightarrow> colour_map option \<Rightarrow> 'z \<Rightarrow> (rect_payload \<times> 'z) decoder" where
  "zrle_decode Z r pf m stream =
     dbind read_u32 (\<lambda>clen.
     dbind (read_exact_vec (unat clen) ''zrle'') (\<lambda>compressed.
     let hint = rect_area r * cpixel_size pf; cap = hint + rect_area r div 1024 + 4096 in
     dbind (inflate Z stream compressed hint cap ''zrle'') (\<lambda>(data, stream').
     dbind (on_buffer data (zrle_tiles r pf m ''zrle'')) (\<lambda>payload. dret (payload, stream')))))"

section \<open>What ZRLE guarantees\<close>

text \<open>
  ZRLE and TRLE never panic, loop or return a picture of the wrong size; and what a tile left in the
  buffer never shows in a later tile, since every pixel of a tile is written before it is read.
\<close>

subsection \<open>Safety\<close>

lemma length_tile_grown: "n \<le> length (tile_grown n tile)"
  by (simp add: tile_grown_def)

lemma tile_grown_id [simp]: "n \<le> length tile \<Longrightarrow> tile_grown n tile = tile"
  by (simp add: tile_grown_def)

lemma length_write_front: "n \<le> length (write_front n pixels tile)"
  using length_tile_grown [of n tile] by (simp add: write_front_def overlay_def Let_def)

lemma put_run_exact:
  assumes "filled + len \<le> n"
  shows "put_run n filled len colour tile bs =
    Decoded (take filled (tile_grown n tile) @ replicate len colour @ drop (filled + len) (tile_grown n tile)) bs"
  using assms length_tile_grown [of n tile]
  by (simp add: put_run_def store_def dchecked_def dret_def)

lemma cpixel_size_pos: "whole_bytes pf \<Longrightarrow> 0 < cpixel_size pf \<and> cpixel_size pf \<le> 4"
  by (auto simp: cpixel_size_def whole_bytes_def)

lemma safely_read_cpixel: "whole_bytes pf \<Longrightarrow> safely (\<lambda>_. True) (read_cpixel pf m)"
  unfolding read_cpixel_def using cpixel_size_pos [of pf]
  by (auto intro!: safely_bind [OF safely_read_px] safely_ret)

lemma safely_read_palette: "whole_bytes pf \<Longrightarrow> safely (\<lambda>p. length p = n) (read_palette pf m n enc)"
  unfolding read_palette_def Let_def using cpixel_size_pos [of pf]
  by (auto simp: chunks_checked_def dchecked_def intro!: safely_bind [OF safely_read_exact_vec] safely_ret)

lemma plain_runs_eq:
  "plain_runs pf m enc n filled tile =
     (if filled < n
      then dbind (read_cpixel pf m) (\<lambda>colour. dbind read_run_length (\<lambda>len.
           if n < filled + len then dfail (VncDecode enc ''RLE run overflows tile'')
           else dbind (put_run n filled len colour tile) (plain_runs pf m enc n (filled + len))))
      else dret tile)"
  by (rule ext, subst plain_runs.simps)
    (auto simp: dbind_def dret_def dfail_def Let_def intro!: arg_cong2 [where f = obind] ext)

lemma palette_runs_eq:
  "palette_runs palette enc n filled tile =
     (if filled < n
      then dbind read_u8 (\<lambda>b. dbind (if b AND 0x80 \<noteq> 0 then read_run_length else dret 1) (\<lambda>len.
           if length palette \<le> unat (b AND 0x7F) then dfail (VncDecode enc ''palette RLE index out of range'')
           else if n < filled + len then dfail (VncDecode enc ''palette RLE run overflows tile'')
           else dbind (put_run n filled len (palette ! unat (b AND 0x7F)) tile) (palette_runs palette enc n (filled + len))))
      else dret tile)"
  by (rule ext, subst palette_runs.simps)
    (auto simp: dbind_def dret_def dfail_def Let_def intro!: arg_cong2 [where f = obind] ext)

lemma safely_put_run: "filled + len \<le> n \<Longrightarrow> safely (\<lambda>t. n \<le> length t) (put_run n filled len colour tile)"
  using length_tile_grown [of n tile] by (simp add: safely_def put_run_exact)

lemma safely_plain_runs:
  assumes "whole_bytes pf"
  shows "filled < n \<or> n \<le> length tile \<Longrightarrow> safely (\<lambda>t. n \<le> length t) (plain_runs pf m enc n filled tile)"
proof (induction "n - filled" arbitrary: filled tile rule: less_induct)
  case less
  show ?case
    by (subst plain_runs_eq)
      (use less in \<open>auto intro!: safely_ret safely_bind [OF safely_read_cpixel [OF assms]] safely_bind [OF safely_run_length]
        safely_if safely_fail safely_bind [OF safely_put_run]\<close>)
qed

lemma safely_palette_runs:
  "filled < n \<or> n \<le> length tile \<Longrightarrow> safely (\<lambda>t. n \<le> length t) (palette_runs palette enc n filled tile)"
proof (induction "n - filled" arbitrary: filled tile rule: less_induct)
  case less
  have len: "safely (\<lambda>k. 0 < k) (if c then read_run_length else dret 1)" for c
    by (auto intro: safely_run_length safely_ret)
  show ?case
    by (subst palette_runs_eq)
      (use less in \<open>auto intro!: safely_ret safely_bind [OF safely_read_u8] safely_bind [OF len] safely_if safely_fail
        safely_bind [OF safely_put_run]\<close>)
qed

lemma safely_packed_pixel:
  assumes "y < th" and "x < tw" and "length rows = th" and "list_all (\<lambda>r. length r = (tw * bits + 7) div 8) rows"
    and "0 < bits" and "bits \<le> 8" and "tw * th \<le> length tile"
  shows "safely (\<lambda>t. length t = length tile) (packed_pixel enc n bits palette rows tw (y, x) tile)"
proof -
  have "length (rows ! y) = (tw * bits + 7) div 8" using assms by (simp add: list_all_length)
  moreover have "x * bits div 8 < (tw * bits + 7) div 8"
  proof -
    have "x * bits + bits \<le> tw * bits" using assms(2) by (metis Suc_leI add.commute mult_Suc mult_le_mono1)
    then have "x * bits + 8 \<le> tw * bits + 7 \<or> bits = 0" using assms(5) by auto
    then have "(x * bits + 8) div 8 \<le> (tw * bits + 7) div 8" using assms(5) by (intro div_le_mono) simp
    then show ?thesis by simp
  qed
  ultimately obtain b where byte: "load (x * bits div 8) 1 (rows ! y) = Some b" by (simp add: load_def)
  have "y * tw + x < length tile" using cell_below [OF assms(2,1)] assms(7) by simp
  then have put: "safely (\<lambda>t. length t = length tile) (dchecked (store (y * tw + x) [c] tile))" for c
    by (simp add: store_def dchecked_def safely_ret)
  show ?thesis
    unfolding packed_pixel_def prod.case Let_def byte dchecked_def option.case dbind_simps
    by (intro safely_if safely_fail put [unfolded dchecked_def])
qed

lemma safely_packed:
  assumes "length rows = th" and "list_all (\<lambda>r. length r = (tw * bits + 7) div 8) rows"
    and "0 < bits" and "bits \<le> 8" and "tw * th \<le> length tile"
  shows "safely (\<lambda>t. tw * th \<le> length t)
    (dfold (packed_pixel enc n bits palette rows tw) (List.product [0..<th] [0..<tw]) tile)"
proof (rule safely_fold)
  fix yx :: "nat \<times> nat" and t :: "rgba list" assume "yx \<in> set (List.product [0..<th] [0..<tw])" and t: "tw * th \<le> length t"
  then obtain y x where "yx = (y, x)" "y < th" "x < tw" by auto
  then show "safely (\<lambda>t. tw * th \<le> length t) (packed_pixel enc n bits palette rows tw yx t)"
    using safely_mono [OF safely_packed_pixel [OF \<open>y < th\<close> \<open>x < tw\<close> assms(1-4) t]] t by simp
qed (rule assms(5))

lemma rows_of_wire:
  assumes "0 < row_bytes" and "length wire = row_bytes * th"
  shows "length (chunks_exact row_bytes wire) = th" and "list_all (\<lambda>r. length r = row_bytes) (chunks_exact row_bytes wire)"
  using assms chunk_length [of _ row_bytes wire] by (auto simp: list_all_iff)

lemma safely_zrle_tile:
  assumes "whole_bytes pf" and "0 < tw" and "0 < th"
  shows "safely (\<lambda>t. tw * th \<le> length t) (zrle_tile pf m enc tw th tile)"
proof -
  let ?n = "tw * th"
  have raw: "safely (\<lambda>t. ?n \<le> length t)
      (dbind (dchecked (chunks_checked (cpixel_size pf) wire)) (\<lambda>cs. dret (write_front ?n (map (read_cpixel_slice pf m) cs) tile)))" for wire
    using cpixel_size_pos [OF assms(1)] by (simp add: chunks_checked_def dchecked_def safely_ret length_write_front)
  have packed: "safely (\<lambda>t. ?n \<le> length t)
      (dbind (read_exact_vec ((tw * bits + 7) div 8 * th) enc) (\<lambda>wire.
         if length palette \<noteq> k then dpanic
         else dbind (dchecked (chunks_checked ((tw * bits + 7) div 8) wire)) (\<lambda>rows.
              dfold (packed_pixel enc ?n bits palette rows tw) (List.product [0..<th] [0..<tw]) (tile_grown ?n tile))))"
    if "length palette = k" "0 < bits" "bits \<le> 8" for palette k bits
  proof (rule safely_bind [OF safely_read_exact_vec])
    fix wire :: bytes assume wire: "length wire = (tw * bits + 7) div 8 * th"
    have "0 < tw * bits" using assms(2) that(2) by simp
    then have pos: "0 < (tw * bits + 7) div 8" by (simp add: div_greater_zero_iff)
    show "safely (\<lambda>t. ?n \<le> length t)
        (if length palette \<noteq> k then dpanic
         else dbind (dchecked (chunks_checked ((tw * bits + 7) div 8) wire)) (\<lambda>rows.
              dfold (packed_pixel enc ?n bits palette rows tw) (List.product [0..<th] [0..<tw]) (tile_grown ?n tile)))"
      using pos that safely_packed [OF rows_of_wire [OF pos wire] that(2,3) length_tile_grown]
      by (simp add: chunks_checked_def dchecked_def)
  qed
  show ?thesis
    unfolding zrle_tile_def Let_def
    by (intro safely_bind [OF safely_read_u8] safely_if safely_bind [OF safely_read_exact_vec] raw safely_bind [OF safely_read_cpixel]
        safely_ret length_write_front safely_bind [OF safely_read_palette] packed safely_fail safely_plain_runs safely_palette_runs
        assms(1)) (use assms(2,3) in auto)
qed

lemma safely_zrle_step:
  assumes "whole_bytes pf" and "length (zs_out s) = w * h" and "(tx, ty, tw, th) \<in> set (tiles 64 w h)"
  shows "safely (\<lambda>s. length (zs_out s) = w * h) (zrle_step pf m enc w (tx, ty, tw, th) s)"
proof -
  note t = tiles_within [OF assms(3)]
  show ?thesis
    unfolding zrle_step_def prod.case
  proof (rule safely_bind [OF safely_zrle_tile [OF assms(1)]])
    fix tile assume "tw * th \<le> length (tile :: rgba list)"
    then have front: "load 0 (tw * th) tile = Some (take (tw * th) tile)" "length (take (tw * th) tile) = tw * th"
      by (simp_all add: load_def)
    have "safely (\<lambda>out. length out = w * h) (dchecked (blit (zs_out s) w tx ty tw th (take (tw * th) tile)))"
      by (rule blit_exact [OF assms(2) _ _ front(2)]) (use t in \<open>auto intro: safely_checked\<close>)
    then show "safely (\<lambda>s. length (zs_out s) = w * h)
        (dbind (dchecked (load 0 (tw * th) tile)) (\<lambda>pixels.
         dbind (dchecked (blit (zs_out s) w tx ty tw th pixels)) (\<lambda>out. dret \<lparr>zs_out = out, zs_tile = tile\<rparr>)))"
      unfolding front dchecked_def option.case dbind_simps by (rule safely_bind) (simp add: safely_ret)
  qed (use t in auto)
qed

lemma safely_zrle_tiles: "whole_bytes pf \<Longrightarrow> safely (payload_fits r) (zrle_tiles r pf m enc)"
  unfolding zrle_tiles_def Let_def
  by (rule safely_bind [where P = "\<lambda>s. length (zs_out s) = rect_area r"], rule safely_fold)
    (auto simp: rect_area_def intro!: safely_ret safely_zrle_step)

lemma safely_trle [safe_intros]: "whole_bytes pf \<Longrightarrow> safely (payload_fits r) (trle_decode r pf m)"
  unfolding trle_decode_def by (rule safely_zrle_tiles)

lemma safely_on_buffer:
  assumes "safely Q m"
  shows "safely Q (on_buffer data m)"
proof (cases "m data")
  case (Decoded a rest)
  then show ?thesis using safelyD [OF assms Decoded] by (simp add: safely_def on_buffer_def)
qed (use safely_no_panic [OF assms, of data] in \<open>simp_all add: safely_def on_buffer_def\<close>)

lemma safely_zrle [safe_intros]:
  "zlib_ok Z \<Longrightarrow> whole_bytes pf \<Longrightarrow> safely (\<lambda>(p, _). payload_fits r p) (zrle_decode Z r pf m stream)"
  unfolding zrle_decode_def Let_def
  by (rule safely_bind [OF safely_read_u32], rule safely_bind [OF safely_read_exact_vec], rule safely_bind [OF safely_inflate])
    (auto intro!: safely_bind [OF safely_on_buffer [OF safely_zrle_tiles]] safely_ret)

subsection \<open>Nothing of an earlier tile\<close>

text \<open>Two decoders that read the same and return related values.\<close>

definition alike :: "('a \<Rightarrow> 'b \<Rightarrow> bool) \<Rightarrow> 'a decoder \<Rightarrow> 'b decoder \<Rightarrow> bool" where
  "alike R m m' \<longleftrightarrow> (\<forall>bs. rel_outcome R (m bs) (m' bs))"

lemma alike_ret: "R a b \<Longrightarrow> alike R (dret a) (dret b)"
  by (simp add: alike_def dret_def)

lemma alike_same: "alike (=) m m"
  by (simp add: alike_def outcome.rel_eq)

lemma alike_safely: "safely Q m \<Longrightarrow> alike (\<lambda>a b. a = b \<and> Q a) m m"
proof -
  assume q: "safely Q m"
  have "rel_outcome (\<lambda>a b. a = b \<and> Q a) (m bs) (m bs)" for bs
    using safelyD [OF q, of bs] by (cases "m bs") auto
  then show ?thesis by (simp add: alike_def)
qed

lemma alike_bind:
  assumes "alike P m m'" and "\<And>a b. P a b \<Longrightarrow> alike R (f a) (g b)"
  shows "alike R (dbind m f) (dbind m' g)"
proof -
  have "rel_outcome R (dbind m f bs) (dbind m' g bs)" for bs
  proof -
    have "rel_outcome P (m bs) (m' bs)" using assms(1) by (simp add: alike_def)
    then show ?thesis
      using assms(2) by (cases "m bs"; cases "m' bs") (auto simp: dbind_def alike_def)
  qed
  then show ?thesis by (simp add: alike_def)
qed

lemma alike_if: "(c \<Longrightarrow> alike R m m') \<Longrightarrow> (\<not> c \<Longrightarrow> alike R d d') \<Longrightarrow> alike R (if c then m else d) (if c then m' else d')"
  by simp

lemma alike_fail: "alike R (dfail e) (dfail e)" "alike R dpanic dpanic"
  by (simp_all add: alike_def dfail_def dpanic_def)

lemma alike_next: "(\<And>a. alike R (f a) (g a)) \<Longrightarrow> alike R (dbind m f) (dbind m g)"
  by (rule alike_bind [OF alike_same]) simp

lemma alike_after: "safely Q m \<Longrightarrow> (\<And>a. Q a \<Longrightarrow> alike R (f a) (g a)) \<Longrightarrow> alike R (dbind m f) (dbind m g)"
  by (rule alike_bind [OF alike_safely, of Q]) auto

text \<open>Tile buffers that agree on their first pixels.\<close>

definition agree :: "nat \<Rightarrow> nat \<Rightarrow> rgba list \<Rightarrow> rgba list \<Rightarrow> bool" where
  "agree n k t t' \<longleftrightarrow> take k (tile_grown n t) = take k (tile_grown n t')"

lemma agree_run:
  assumes "filled + len \<le> n" and "agree n filled t t'"
  shows "alike (agree n (filled + len)) (put_run n filled len c t) (put_run n filled len c t')"
  using assms length_tile_grown [of n t] length_tile_grown [of n t']
  by (simp add: alike_def put_run_exact agree_def)

lemma plain_runs_alike:
  "filled \<le> n \<Longrightarrow> agree n filled t t' \<Longrightarrow>
   alike (agree n n) (plain_runs pf m enc n filled t) (plain_runs pf m enc n filled t')"
proof (induction "n - filled" arbitrary: filled t t' rule: less_induct)
  case less
  show ?case
    by (subst (1 2) plain_runs_eq)
      (use less in \<open>auto intro!: alike_ret alike_bind [OF alike_same] alike_bind [OF alike_safely [OF safely_run_length]]
        alike_if alike_fail alike_bind [OF agree_run]\<close>)
qed

lemma palette_runs_alike:
  "filled \<le> n \<Longrightarrow> agree n filled t t' \<Longrightarrow>
   alike (agree n n) (palette_runs palette enc n filled t) (palette_runs palette enc n filled t')"
proof (induction "n - filled" arbitrary: filled t t' rule: less_induct)
  case less
  have len: "safely (\<lambda>k. 0 < k) (if c then read_run_length else dret 1)" for c
    by (auto intro: safely_run_length safely_ret)
  show ?case
    by (subst (1 2) palette_runs_eq)
      (use less in \<open>auto intro!: alike_ret alike_bind [OF alike_same] alike_bind [OF alike_safely [OF len]]
        alike_if alike_fail alike_bind [OF agree_run]\<close>)
qed

lemma packed_alike:
  assumes "\<And>i. i < length cells \<Longrightarrow> fst (cells ! i) * tw + snd (cells ! i) = k + i"
    and "k + length cells \<le> n" and "n \<le> length t" and "n \<le> length t'" and "take k t = take k t'"
  shows "alike (agree n (k + length cells)) (dfold (packed_pixel enc n bits palette rows tw) cells t)
    (dfold (packed_pixel enc n bits palette rows tw) cells t')"
  using assms
proof (induction cells arbitrary: k t t')
  case (Cons cell cells)
  obtain y x where cell: "cell = (y, x)" by (cases cell)
  have pos: "y * tw + x = k" using Cons.prems(1) [of 0] cell by simp
  let ?same = "\<lambda>u u'. n \<le> length u \<and> n \<le> length u' \<and> take (Suc k) u = take (Suc k) u'"
  have "alike ?same (dchecked (store k [c] t)) (dchecked (store k [c] t'))" for c
    using Cons.prems by (auto simp: store_def dchecked_def take_Suc intro!: alike_ret)
  then have "alike ?same (packed_pixel enc n bits palette rows tw cell t) (packed_pixel enc n bits palette rows tw cell t')"
    unfolding packed_pixel_def cell prod.case Let_def pos
    by (intro alike_bind [OF alike_same] alike_if) (auto intro: alike_fail)
  moreover have "alike (agree n (Suc k + length cells)) (dfold (packed_pixel enc n bits palette rows tw) cells u)
      (dfold (packed_pixel enc n bits palette rows tw) cells u')" if "?same u u'" for u u'
    by (rule Cons.IH) (use Cons.prems(1) [of "Suc i" for i] Cons.prems(2) that in auto)
  ultimately show ?case by (auto intro: alike_bind)
qed (auto simp: agree_def intro!: alike_ret)

lemma product_cell:
  "i < th * tw \<Longrightarrow> fst (List.product [0..<th] [0..<tw] ! i) * tw + snd (List.product [0..<th] [0..<tw] ! i) = i"
proof -
  assume i: "i < th * tw"
  then have "0 < tw" by (cases tw) auto
  then have "i div tw < th" "i mod tw < tw" using i by (simp_all add: less_mult_imp_div_less)
  then show ?thesis using i by (simp add: product_nth)
qed

lemma agree_front: "length pixels = n \<Longrightarrow> agree n n (write_front n pixels t) (write_front n pixels t')"
  using length_write_front [of n pixels t] length_write_front [of n pixels t'] length_tile_grown [of n t] length_tile_grown [of n t']
  by (simp add: agree_def write_front_def Let_def overlay_def)

lemma agree_start: "agree n 0 t t'"
  by (simp add: agree_def)

lemma zrle_tile_alike:
  assumes "whole_bytes pf" and "0 < tw" and "0 < th"
  shows "alike (agree (tw * th) (tw * th)) (zrle_tile pf m enc tw th t) (zrle_tile pf m enc tw th t')"
proof -
  let ?n = "tw * th"
  have raw: "alike (agree ?n ?n)
      (dbind (dchecked (chunks_checked (cpixel_size pf) wire)) (\<lambda>cs. dret (write_front ?n (map (read_cpixel_slice pf m) cs) t)))
      (dbind (dchecked (chunks_checked (cpixel_size pf) wire)) (\<lambda>cs. dret (write_front ?n (map (read_cpixel_slice pf m) cs) t')))"
    if "length wire = ?n * cpixel_size pf" for wire
    using cpixel_size_pos [OF assms(1)] that by (auto simp: chunks_checked_def dchecked_def intro!: alike_ret agree_front)
  have packed: "alike (agree ?n ?n)
      (dfold (packed_pixel enc ?n bits palette rows tw) (List.product [0..<th] [0..<tw]) (tile_grown ?n t))
      (dfold (packed_pixel enc ?n bits palette rows tw) (List.product [0..<th] [0..<tw]) (tile_grown ?n t'))" for bits palette rows
    using packed_alike [of "List.product [0..<th] [0..<tw]" tw 0 ?n "tile_grown ?n t" "tile_grown ?n t'" enc bits palette rows]
      product_cell [of _ th tw]
    by (simp add: length_tile_grown mult.commute)
  show ?thesis
    unfolding zrle_tile_def Let_def
    by (intro raw alike_after [OF safely_read_exact_vec] alike_if alike_next)
      (auto simp del: length_product intro!: packed alike_ret agree_front plain_runs_alike palette_runs_alike agree_start alike_fail)
qed

text \<open>The same picture, with a fresh buffer for every tile.\<close>

definition zrle_fresh_step :: "pixel_format \<Rightarrow> colour_map option \<Rightarrow> string \<Rightarrow> nat \<Rightarrow> subrect \<Rightarrow> rgba list \<Rightarrow> rgba list decoder" where
  "zrle_fresh_step pf m enc w t out =
     (case t of (tx, ty, tw, th) \<Rightarrow>
      dbind (zrle_tile pf m enc tw th []) (\<lambda>tile.
      dbind (dchecked (load 0 (tw * th) tile)) (\<lambda>pixels. dchecked (blit out w tx ty tw th pixels))))"

definition zrle_fresh :: "rect \<Rightarrow> pixel_format \<Rightarrow> colour_map option \<Rightarrow> string \<Rightarrow> rect_payload decoder" where
  "zrle_fresh r pf m enc =
     (let w = unat (rt_width r); h = unat (rt_height r) in
      dbind (dfold (zrle_fresh_step pf m enc w) (tiles 64 w h) (blank (w * h))) (\<lambda>out. dret (Rgba out)))"

lemma dbind_dret: "dbind m dret = m"
proof
  show "dbind m dret bs = m bs" for bs by (cases "m bs") (simp_all add: dbind_def dret_def)
qed

lemma zrle_step_alike:
  assumes "whole_bytes pf" and "0 < tw" and "0 < th" and "zs_out s = out"
  shows "alike (\<lambda>s out. zs_out s = out) (zrle_step pf m enc w (tx, ty, tw, th) s) (zrle_fresh_step pf m enc w (tx, ty, tw, th) out)"
proof -
  have load: "load 0 (tw * th) u = load 0 (tw * th) u'"
    if "agree (tw * th) (tw * th) u u'" "tw * th \<le> length u" "tw * th \<le> length u'" for u u' :: "rgba list"
    using that by (simp add: load_def agree_def)
  have tile: "alike (\<lambda>u u'. load 0 (tw * th) u = load 0 (tw * th) u')
      (zrle_tile pf m enc tw th (zs_tile s)) (zrle_tile pf m enc tw th [])"
  proof -
    have "rel_outcome (\<lambda>u u'. load 0 (tw * th) u = load 0 (tw * th) u')
        (zrle_tile pf m enc tw th (zs_tile s) bs) (zrle_tile pf m enc tw th [] bs)" for bs
      using zrle_tile_alike [OF assms(1-3), of m enc "zs_tile s" "[]", unfolded alike_def, rule_format, of bs]
        safelyD [OF safely_zrle_tile [OF assms(1-3), of m enc "zs_tile s"], of bs]
        safelyD [OF safely_zrle_tile [OF assms(1-3), of m enc "[]"], of bs] load
      by (cases "zrle_tile pf m enc tw th (zs_tile s) bs"; cases "zrle_tile pf m enc tw th [] bs") auto
    then show ?thesis by (simp add: alike_def)
  qed
  have "alike (\<lambda>s out. zs_out s = out)
      (dbind (dchecked (blit out w tx ty tw th pixels)) (\<lambda>out. dret \<lparr>zs_out = out, zs_tile = tile\<rparr>))
      (dbind (dchecked (blit out w tx ty tw th pixels)) dret)" for pixels tile
    by (rule alike_bind [OF alike_same]) (auto intro: alike_ret)
  then show ?thesis
    unfolding zrle_step_def zrle_fresh_step_def prod.case assms(4) dbind_dret
    by (intro alike_bind [OF tile]) (auto intro: alike_bind [OF alike_same])
qed

lemma alike_fold:
  assumes "\<And>x a b. x \<in> set xs \<Longrightarrow> R a b \<Longrightarrow> alike R (f x a) (g x b)" and "R a b"
  shows "alike R (dfold f xs a) (dfold g xs b)"
  using assms
proof (induction xs arbitrary: a b)
  case (Cons x xs)
  then show ?case by (auto intro!: alike_bind [of R])
qed (simp add: alike_ret)

lemma zrle_tiles_fresh: "whole_bytes pf \<Longrightarrow> zrle_tiles r pf m enc = zrle_fresh r pf m enc"
proof -
  assume pf: "whole_bytes pf"
  let ?w = "unat (rt_width r)" and ?h = "unat (rt_height r)"
  have "alike (\<lambda>s out. zs_out s = out)
      (dfold (zrle_step pf m enc ?w) (tiles 64 ?w ?h) \<lparr>zs_out = blank (?w * ?h), zs_tile = []\<rparr>)
      (dfold (zrle_fresh_step pf m enc ?w) (tiles 64 ?w ?h) (blank (?w * ?h)))"
    by (rule alike_fold) (auto dest!: tiles_within intro!: zrle_step_alike [OF pf])
  then have "alike (=) (zrle_tiles r pf m enc) (zrle_fresh r pf m enc)"
    unfolding zrle_tiles_def zrle_fresh_def Let_def by (rule alike_bind) (simp add: alike_ret)
  then show ?thesis by (auto simp: alike_def outcome.rel_eq)
qed

end
