(* ===== verification/Vnc_Tight.thy ===== *)
theory Vnc_Tight
  imports Vnc_Rects
begin

text \<open>
  Tight (\<open>crates/vnc-core/src/encodings/tight.rs\<close>): the control byte with its stream resets, the basic
  compression with its three filters, fills and JPEG payloads. The gradient filter has two kernels, one
  for compact pixels and one for any true colour format. JPEG data is passed on, not decoded.
\<close>

unbundle bit_operations_syntax

definition FILTER_COPY :: u8 where "FILTER_COPY = 0"
definition FILTER_PALETTE :: u8 where "FILTER_PALETTE = 1"
definition FILTER_GRADIENT :: u8 where "FILTER_GRADIENT = 2"
definition MIN_BYTES_TO_COMPRESS :: nat where "MIN_BYTES_TO_COMPRESS = 12"

subsection \<open>Pixels and lengths\<close>

definition tpixel_size :: "pixel_format \<Rightarrow> nat" where
  "tpixel_size pf = (if is_compact_3byte pf then 3 else bytes_per_pixel pf)"

definition tpixel_to_rgba :: "pixel_format \<Rightarrow> colour_map option \<Rightarrow> bytes \<Rightarrow> rgba" where
  "tpixel_to_rgba pf m bs = (if is_compact_3byte pf then (bs ! 0, bs ! 1, bs ! 2, 255) else pixel_to_rgba bs pf m)"

definition read_tpixel :: "pixel_format \<Rightarrow> colour_map option \<Rightarrow> rgba decoder" where
  "read_tpixel pf m = dbind (read_px (tpixel_size pf)) (\<lambda>b. dret (tpixel_to_rgba pf m b))"

definition compact_len_value :: "u8 \<Rightarrow> u8 option \<Rightarrow> u8 option \<Rightarrow> nat" where
  "compact_len_value b0 b1 b2 =
     unat (b0 AND 0x7F) OR (case b1 of None \<Rightarrow> 0 | Some b \<Rightarrow> push_bit 7 (unat (b AND 0x7F))) OR
     (case b2 of None \<Rightarrow> 0 | Some b \<Rightarrow> push_bit 14 (unat b))"

definition read_compact_len :: "nat decoder" where
  "read_compact_len =
     dbind read_u8 (\<lambda>b0.
     dbind (if b0 AND 0x80 = 0 then dret (compact_len_value b0 None None)
            else dbind read_u8 (\<lambda>b1.
                 if b1 AND 0x80 = 0 then dret (compact_len_value b0 (Some b1) None)
                 else dbind read_u8 (\<lambda>b2. dret (compact_len_value b0 (Some b1) (Some b2))))) (\<lambda>len.
     if MAX_WIRE_LEN < len then dfail (VncDecode ''tight'' ''compact length exceeds cap'') else dret len))"

subsection \<open>The palette filter\<close>

definition unpack_bit :: "bytes \<Rightarrow> rgba list \<Rightarrow> nat \<Rightarrow> nat \<Rightarrow> nat \<times> nat \<Rightarrow> rgba list \<Rightarrow> rgba list decoder" where
  "unpack_bit data palette w row_bytes yx out =
     (case yx of (y, x) \<Rightarrow>
      dbind (dchecked (load (y * row_bytes) row_bytes data)) (\<lambda>row.
      dbind (dchecked (load (x div 8) 1 row)) (\<lambda>byte.
      let b = drop_bit (7 - x mod 8) (hd byte) AND 1 in
      dbind (dchecked (load (unat b) 1 palette)) (\<lambda>colour.
      dchecked (store (y * w + x) colour out)))))"

definition unpack_index :: "bytes \<Rightarrow> rgba list \<Rightarrow> nat \<Rightarrow> nat \<Rightarrow> nat \<times> nat \<Rightarrow> rgba list \<Rightarrow> rgba list decoder" where
  "unpack_index data palette w row_bytes yx out =
     (case yx of (y, x) \<Rightarrow>
      dbind (dchecked (load (y * row_bytes) row_bytes data)) (\<lambda>row.
      let idx = unat (row ! x) in
      if length palette \<le> idx then dfail (VncDecode ''tight'' ''palette index out of range'')
      else dchecked (store (y * w + x) [palette ! idx] out)))"

definition unpack_palette :: "bytes \<Rightarrow> rgba list \<Rightarrow> nat \<Rightarrow> nat \<Rightarrow> nat \<Rightarrow> rgba list decoder" where
  "unpack_palette data palette w h row_bytes =
     (if length palette = 2
      then dfold (unpack_bit data palette w row_bytes) (List.product [0..<h] [0..<w]) (blank (w * h))
      else dfold (unpack_index data palette w row_bytes) (List.product [0..<h] [0..<min row_bytes w]) (blank (w * h)))"

subsection \<open>The gradient filter\<close>

definition int_clamp :: "int \<Rightarrow> int \<Rightarrow> int \<Rightarrow> int" where
  "int_clamp v lo hi = min (max v lo) hi"

definition compact_channel :: "u8 \<Rightarrow> u8 \<Rightarrow> u8 \<Rightarrow> u8 \<Rightarrow> u8" where
  "compact_channel s lf up upleft = s + of_int (int_clamp (uint lf + uint up - uint upleft) 0 255)"

fun compact_pixel :: "rgb \<Rightarrow> rgb \<Rightarrow> rgb \<Rightarrow> rgb \<Rightarrow> rgb" where
  "compact_pixel (s0, s1, s2) (l0, l1, l2) (u0, u1, u2) (d0, d1, d2) =
     (compact_channel s0 l0 u0 d0, compact_channel s1 l1 u1 d1, compact_channel s2 l2 u2 d2)"

fun compact_row :: "rgb list \<Rightarrow> rgb list \<Rightarrow> rgb \<Rightarrow> rgb \<Rightarrow> rgb list" where
  "compact_row (s # ss) (u # us) lf upleft = (let px = compact_pixel s lf u upleft in px # compact_row ss us px u)"
| "compact_row ss us lf upleft = []"

fun compact_rows :: "rgb list list \<Rightarrow> rgb list \<Rightarrow> rgb list list" where
  "compact_rows [] prev = []"
| "compact_rows (r # rs) prev = (let row = compact_row r prev (0, 0, 0) (0, 0, 0) in row # compact_rows rs row)"

definition triple :: "bytes \<Rightarrow> rgb" where
  "triple s = (s ! 0, s ! 1, s ! 2)"

definition opaque :: "rgb \<Rightarrow> rgba" where
  "opaque = (\<lambda>(r, g, b). (r, g, b, 255))"

definition undo_gradient_compact :: "bytes \<Rightarrow> nat \<Rightarrow> nat \<Rightarrow> rgba list" where
  "undo_gradient_compact data w h =
     overlay
       (map opaque (concat (compact_rows
          (take h (map (\<lambda>row. map triple (chunks_exact 3 row)) (chunks_exact (w * 3) data))) (replicate w (0, 0, 0)))))
       (blank (w * h))"

type_synonym irgb = "int \<times> int \<times> int"

definition generic_channel :: "int \<Rightarrow> int \<Rightarrow> int \<Rightarrow> int \<Rightarrow> int \<Rightarrow> int" where
  "generic_channel mx raw lf up upleft = (raw + int_clamp (lf + up - upleft) 0 mx) mod (mx + 1)"

definition raw_channels :: "pixel_format \<Rightarrow> bytes \<Rightarrow> irgb" where
  "raw_channels pf p =
     (let v = raw_pixel_value p (pf_big_endian pf) in
      (uint (shr v (pf_red_shift pf) AND ucast (pf_red_max pf)), uint (shr v (pf_green_shift pf) AND ucast (pf_green_max pf)),
       uint (shr v (pf_blue_shift pf) AND ucast (pf_blue_max pf))))"

fun generic_pixel :: "pixel_format \<Rightarrow> irgb \<Rightarrow> irgb \<Rightarrow> irgb \<Rightarrow> irgb \<Rightarrow> irgb" where
  "generic_pixel pf (s0, s1, s2) (l0, l1, l2) (u0, u1, u2) (d0, d1, d2) =
     (generic_channel (uint (pf_red_max pf)) s0 l0 u0 d0, generic_channel (uint (pf_green_max pf)) s1 l1 u1 d1,
      generic_channel (uint (pf_blue_max pf)) s2 l2 u2 d2)"

text \<open>The pixels of a row; \<open>upleft\<close> is the pixel before the one above, and zero in the first column.\<close>

fun generic_row :: "pixel_format \<Rightarrow> bytes list \<Rightarrow> irgb list \<Rightarrow> irgb \<Rightarrow> irgb \<Rightarrow> irgb list" where
  "generic_row pf (p # ps) (u # us) lf upleft =
     (let px = generic_pixel pf (raw_channels pf p) lf u upleft in px # generic_row pf ps us px u)"
| "generic_row pf ps us lf upleft = []"

definition scaled_pixel :: "pixel_format \<Rightarrow> irgb \<Rightarrow> rgba" where
  "scaled_pixel pf = (\<lambda>(r, g, b).
     (scale_channel (of_int r) (pf_red_max pf), scale_channel (of_int g) (pf_green_max pf),
      scale_channel (of_int b) (pf_blue_max pf), 255))"

fun generic_rows :: "pixel_format \<Rightarrow> bytes \<Rightarrow> nat \<Rightarrow> nat \<Rightarrow> nat list \<Rightarrow> irgb list \<Rightarrow> rgba list option" where
  "generic_rows pf data w tpx [] prev = Some []"
| "generic_rows pf data w tpx (y # ys) prev =
     (case those (map (\<lambda>x. load ((y * w + x) * tpx) tpx data) [0..<w]) of
        None \<Rightarrow> None
      | Some ps \<Rightarrow>
          let row = generic_row pf ps prev (0, 0, 0) (0, 0, 0)
          in map_option (\<lambda>more. map (scaled_pixel pf) row @ more) (generic_rows pf data w tpx ys row))"

definition undo_gradient_generic :: "bytes \<Rightarrow> pixel_format \<Rightarrow> nat \<Rightarrow> nat \<Rightarrow> nat \<Rightarrow> rgba list option" where
  "undo_gradient_generic data pf w h tpx = generic_rows pf data w tpx [0..<h] (replicate w (0, 0, 0))"

definition undo_gradient :: "bytes \<Rightarrow> pixel_format \<Rightarrow> nat \<Rightarrow> nat \<Rightarrow> nat \<Rightarrow> rgba list option" where
  "undo_gradient data pf w h tpx =
     (if w = 0 \<or> h = 0 then Some []
      else if is_compact_3byte pf then Some (undo_gradient_compact data w h)
      else undo_gradient_generic data pf w h tpx)"

subsection \<open>Basic compression\<close>

text \<open>The filter with its palette and the bytes of a row.\<close>

definition read_filter :: "pixel_format \<Rightarrow> colour_map option \<Rightarrow> nat \<Rightarrow> bool \<Rightarrow> (u8 \<times> rgba list \<times> nat) decoder" where
  "read_filter pf m w has_filter =
     (let tpx = tpixel_size pf in
      dbind (if has_filter then read_u8 else dret FILTER_COPY) (\<lambda>filter_id.
      if filter_id = FILTER_COPY then dret (filter_id, [], w * tpx)
      else if filter_id = FILTER_PALETTE
      then dbind read_u8 (\<lambda>n.
           let num_colours = unat n + 1 in
           dbind (read_exact_vec (num_colours * tpx) ''tight'') (\<lambda>raw.
           if tpx = 0 then dpanic
           else dret (filter_id, map (tpixel_to_rgba pf m) (chunks_exact tpx raw),
                      if num_colours = 2 then (w + 7) div 8 else w)))
      else if filter_id = FILTER_GRADIENT
      then if pf_true_colour pf then dret (filter_id, [], w * tpx)
           else dfail (VncDecode ''tight'' ''gradient filter requires true colour'')
      else dfail (VncDecode ''tight'' ''unknown filter id'')))"

definition read_body :: "'z zlib \<Rightarrow> 'z option \<Rightarrow> nat \<Rightarrow> (bytes \<times> 'z option) decoder" where
  "read_body Z stream want =
     (case stream of
        Some z \<Rightarrow>
          if MIN_BYTES_TO_COMPRESS \<le> want
          then dbind read_compact_len (\<lambda>clen.
               dbind (read_exact_vec clen ''tight'') (\<lambda>compressed.
               dbind (inflate Z z compressed want (want + 1024) ''tight'') (\<lambda>(out, z').
               if length out < want then dfail (VncDecode ''tight'' ''short inflate'') else dret (out, Some z'))))
          else dbind (read_exact_vec want ''tight'') (\<lambda>data. dret (data, Some z))
      | None \<Rightarrow> dbind (read_exact_vec want ''tight'') (\<lambda>data. dret (data, None)))"

definition unfilter ::
  "pixel_format \<Rightarrow> colour_map option \<Rightarrow> u8 \<Rightarrow> rgba list \<Rightarrow> nat \<Rightarrow> nat \<Rightarrow> nat \<Rightarrow> bytes \<Rightarrow> rgba list decoder" where
  "unfilter pf m filter_id palette row_bytes w h data =
     (if filter_id = FILTER_COPY \<and> is_compact_3byte pf
      then dret (overlay (map (\<lambda>s. opaque (triple s)) (chunks_exact 3 data)) (blank (w * h)))
      else if filter_id = FILTER_COPY then dret (convert_to_rgba_mapped data pf (w * h) m)
      else if filter_id = FILTER_PALETTE then unpack_palette data palette w h row_bytes
      else if filter_id = FILTER_GRADIENT then dchecked (undo_gradient data pf w h (tpixel_size pf))
      else dpanic)"

definition decode_basic ::
  "'z zlib \<Rightarrow> rect \<Rightarrow> pixel_format \<Rightarrow> colour_map option \<Rightarrow> 'z option \<Rightarrow> bool \<Rightarrow> (rect_payload \<times> 'z option) decoder" where
  "decode_basic Z r pf m stream has_filter =
     (let w = unat (rt_width r); h = unat (rt_height r) in
      dbind (read_filter pf m w has_filter) (\<lambda>(filter_id, palette, row_bytes).
      let want = row_bytes * h in
      dbind (read_body Z stream want) (\<lambda>(body, stream').
      dbind (dchecked (load 0 want body)) (\<lambda>data.
      dbind (unfilter pf m filter_id palette row_bytes w h data) (\<lambda>pixels.
      dret (Rgba pixels, stream'))))))"

subsection \<open>The control byte\<close>

definition reset_streams :: "'z zlib \<Rightarrow> u8 \<Rightarrow> 'z list \<Rightarrow> 'z list" where
  "reset_streams Z ctrl streams = map (\<lambda>(i, z). if ctrl AND push_bit i 1 \<noteq> 0 then zl_reset Z z else z) (List.enumerate 0 streams)"

definition tight_decode ::
  "'z zlib \<Rightarrow> rect \<Rightarrow> pixel_format \<Rightarrow> colour_map option \<Rightarrow> 'z list \<Rightarrow> (rect_payload \<times> 'z list) decoder" where
  "tight_decode Z r pf m streams0 =
     dbind read_u8 (\<lambda>ctrl.
     let streams = reset_streams Z ctrl streams0; cc = drop_bit 4 ctrl in
     if cc \<le> 7
     then let i = unat (cc AND 3) in
          dbind (dchecked (load i 1 streams)) (\<lambda>z.
          dbind (decode_basic Z r pf m (Some (hd z)) (cc AND 4 \<noteq> 0)) (\<lambda>(payload, z').
          dret (payload, case z' of Some s \<Rightarrow> streams[i := s] | None \<Rightarrow> streams)))
     else if cc = 8 then dbind (read_tpixel pf m) (\<lambda>colour. dret (Rgba (replicate (rect_area r) colour), streams))
     else if cc = 9
     then dbind read_compact_len (\<lambda>len. dbind (read_exact_vec len ''tight'') (\<lambda>data. dret (Jpeg data, streams)))
     else if cc = 0xA then dbind (decode_basic Z r pf m None False) (\<lambda>(payload, _). dret (payload, streams))
     else if cc = 0xE then dbind (decode_basic Z r pf m None True) (\<lambda>(payload, _). dret (payload, streams))
     else dfail (VncDecode ''tight'' ''invalid compression control''))"

section \<open>What Tight guarantees\<close>

text \<open>
  Tight never panics, loops or returns a picture of the wrong size; and its compact gradient kernel is
  the generic one at the format where both read the same bytes.
\<close>

subsection \<open>Safety\<close>

lemma tpixel_size_pos: "whole_bytes pf \<Longrightarrow> 0 < tpixel_size pf \<and> tpixel_size pf \<le> 4"
  by (auto simp: tpixel_size_def whole_bytes_def)

lemma safely_read_tpixel: "whole_bytes pf \<Longrightarrow> safely (\<lambda>_. True) (read_tpixel pf m)"
  unfolding read_tpixel_def using tpixel_size_pos [of pf] by (auto intro!: safely_bind [OF safely_read_px] safely_ret)

lemma safely_compact_len: "safely (\<lambda>n. n \<le> MAX_WIRE_LEN) read_compact_len"
proof -
  have "safely (\<lambda>_. True) (if b0 AND 0x80 = 0 then dret (compact_len_value b0 None None)
            else dbind read_u8 (\<lambda>b1.
                 if b1 AND 0x80 = 0 then dret (compact_len_value b0 (Some b1) None)
                 else dbind read_u8 (\<lambda>b2. dret (compact_len_value b0 (Some b1) (Some b2)))))" for b0
    by (intro safely_if safely_ret safely_bind [OF safely_read_u8]) simp_all
  then show ?thesis
    unfolding read_compact_len_def
    by (intro safely_bind [OF safely_read_u8]) (rule safely_bind, assumption, intro safely_if safely_fail safely_ret, simp)
qed

lemma safely_store: "k < length out \<Longrightarrow> length out = n \<Longrightarrow> length c = 1 \<Longrightarrow> safely (\<lambda>out. length out = n) (dchecked (store k c out))"
  by (simp add: store_def dchecked_def safely_ret)

lemma load_row: "y < h \<Longrightarrow> length data = row_bytes * h \<Longrightarrow> load (y * row_bytes) row_bytes data = Some (take row_bytes (drop (y * row_bytes) data))"
  using load_within [of y h data row_bytes] by (simp add: mult.commute)

lemma row_length: "y < h \<Longrightarrow> length data = row_bytes * h \<Longrightarrow> length (take row_bytes (drop (y * row_bytes) data)) = row_bytes"
  by (rule length_load [OF load_row])

lemma safely_unpack_bit:
  assumes "y < h" and "x < w" and "length data = (w + 7) div 8 * h" and "length palette = 2" and "length out = w * h"
  shows "safely (\<lambda>out. length out = w * h) (unpack_bit data palette w ((w + 7) div 8) (y, x) out)"
proof -
  note row = load_row [OF assms(1,3)] row_length [OF assms(1,3)]
  let ?row = "take ((w + 7) div 8) (drop (y * ((w + 7) div 8)) data)"
  have "x div 8 < (w + 7) div 8"
  proof -
    have "(x + 8) div 8 \<le> (w + 7) div 8" using assms(2) by (intro div_le_mono) simp
    then show ?thesis by simp
  qed
  then have byte: "\<exists>b. load (x div 8) 1 ?row = Some b" using row(2) by (simp add: load_def)
  have "unat (v AND 1) < length palette" for v :: u8
    using assms(4) word_and_le1 [of v 1] by (simp add: word_le_nat_alt)
  then have colour: "load (unat (v AND 1)) 1 palette = Some [palette ! unat (v AND 1)]" for v :: u8
    by (simp add: load_def Suc_leI take_Suc_conv_app_nth nth_drop less_imp_le)
  have "y * w + x < length out" using cell_below [OF assms(2,1)] assms(5) by simp
  then show ?thesis
    using byte unfolding unpack_bit_def prod.case Let_def
    by (auto simp del: One_nat_def intro!: safely_checked_bind [OF row(1)] safely_checked_bind safely_checked_bind [OF colour] safely_store assms(5))
qed

lemma safely_unpack_index:
  assumes "y < h" and "x < w" and "length data = w * h" and "length out = w * h"
  shows "safely (\<lambda>out. length out = w * h) (unpack_index data palette w w (y, x) out)"
proof -
  have "y * w + x < length out" using cell_below [OF assms(2,1)] assms(4) by simp
  then show ?thesis
    unfolding unpack_index_def prod.case Let_def
    by (intro safely_checked_bind [OF load_row [OF assms(1,3)]] safely_if safely_fail safely_store assms(4)) simp_all
qed

lemma safely_unpack:
  assumes "row_bytes = (if length palette = 2 then (w + 7) div 8 else w)" and "length data = row_bytes * h"
  shows "safely (\<lambda>out. length out = w * h) (unpack_palette data palette w h row_bytes)"
  using assms unfolding unpack_palette_def
  by (auto intro!: safely_if safely_fold safely_unpack_bit safely_unpack_index split: if_splits)

lemma length_compact_row: "length (compact_row ss us l d) = min (length ss) (length us)"
  by (induction ss us l d rule: compact_row.induct) (simp_all add: Let_def)

lemma length_generic_row: "length (generic_row pf ps us l d) = min (length ps) (length us)"
  by (induction pf ps us l d rule: generic_row.induct) (simp_all add: Let_def)

lemma those_Some: "those (map Some xs) = Some xs"
  by (induction xs) simp_all

lemma generic_rows_total:
  assumes "length data = w * h * tpx" and "set ys \<subseteq> {..<h}" and "length prev = w"
  shows "\<exists>out. generic_rows pf data w tpx ys prev = Some out \<and> length out = w * length ys"
  using assms(2,3)
proof (induction ys arbitrary: prev)
  case (Cons y ys)
  have "y < h" using Cons.prems by simp
  have loads: "load ((y * w + x) * tpx) tpx data = Some (take tpx (drop ((y * w + x) * tpx) data))" if "x < w" for x
    using load_within [OF cell_below [OF that \<open>y < h\<close>] assms(1)] by simp
  let ?ps = "map (\<lambda>x. take tpx (drop ((y * w + x) * tpx) data)) [0..<w]"
  have "those (map (\<lambda>x. load ((y * w + x) * tpx) tpx data) [0..<w]) = those (map Some ?ps)"
    by (rule arg_cong [of _ _ those]) (simp add: loads)
  also have "\<dots> = Some ?ps" by (rule those_Some)
  finally have ps: "those (map (\<lambda>x. load ((y * w + x) * tpx) tpx data) [0..<w]) = Some ?ps" .
  have "length (generic_row pf ?ps prev (0, 0, 0) (0, 0, 0)) = w" using Cons.prems by (simp add: length_generic_row)
  moreover from Cons.IH [OF _ this] Cons.prems obtain more where
      "generic_rows pf data w tpx ys (generic_row pf ?ps prev (0, 0, 0) (0, 0, 0)) = Some more" "length more = w * length ys"
    by auto
  ultimately show ?case by (simp add: ps Let_def)
qed simp

lemma length_opaque_compact: "length (undo_gradient_compact data w h) = w * h"
  by (simp add: undo_gradient_compact_def overlay_def min_def)

lemma safely_undo_gradient:
  assumes "length data = w * tpixel_size pf * h"
  shows "safely (\<lambda>out. length out = w * h) (dchecked (undo_gradient data pf w h (tpixel_size pf)))"
proof -
  obtain out where "generic_rows pf data w (tpixel_size pf) [0..<h] (replicate w (0, 0, 0)) = Some out" "length out = w * h"
    using generic_rows_total [of data w h "tpixel_size pf" "[0..<h]" "replicate w (0, 0, 0)" pf] assms by (auto simp: ac_simps lessThan_atLeast0)
  then show ?thesis
    by (auto simp: undo_gradient_def undo_gradient_generic_def length_opaque_compact intro: safely_checked)
qed

lemma safely_read_filter:
  assumes "whole_bytes pf"
  shows "safely (\<lambda>(f, palette, row_bytes).
      f = FILTER_COPY \<and> row_bytes = w * tpixel_size pf \<or>
      f = FILTER_PALETTE \<and> row_bytes = (if length palette = 2 then (w + 7) div 8 else w) \<or>
      f = FILTER_GRADIENT \<and> row_bytes = w * tpixel_size pf) (read_filter pf m w has_filter)"
proof -
  have first: "safely (\<lambda>_. True) (if has_filter then read_u8 else dret FILTER_COPY)"
    by (auto intro: safely_read_u8 safely_ret)
  show ?thesis
    unfolding read_filter_def Let_def using tpixel_size_pos [OF assms]
    by (intro safely_bind [OF first] safely_if safely_ret safely_bind [OF safely_read_u8] safely_bind [OF safely_read_exact_vec] safely_fail)
      (auto simp: FILTER_COPY_def FILTER_PALETTE_def FILTER_GRADIENT_def)
qed

lemma safely_read_body: "zlib_ok Z \<Longrightarrow> safely (\<lambda>(body, _). n \<le> length body) (read_body Z stream n)"
  unfolding read_body_def
  by (cases stream) (auto intro!: safely_if safely_bind [OF safely_compact_len] safely_bind [OF safely_read_exact_vec]
      safely_bind [OF safely_inflate] safely_fail safely_ret)

lemma safely_unfilter:
  assumes "whole_bytes pf" and "length data = row_bytes * h"
    and "f = FILTER_COPY \<and> row_bytes = w * tpixel_size pf \<or>
      f = FILTER_PALETTE \<and> row_bytes = (if length palette = 2 then (w + 7) div 8 else w) \<or>
      f = FILTER_GRADIENT \<and> row_bytes = w * tpixel_size pf"
  shows "safely (\<lambda>out. length out = w * h) (unfilter pf m f palette row_bytes w h data)"
proof -
  have "f \<in> {FILTER_COPY, FILTER_PALETTE, FILTER_GRADIENT}" using assms(3) by auto
  then show ?thesis
    unfolding unfilter_def using assms
    by (auto simp: FILTER_COPY_def FILTER_PALETTE_def FILTER_GRADIENT_def overlay_def min_def
        intro!: safely_ret safely_unpack safely_undo_gradient)
qed

lemma safely_basic:
  assumes "zlib_ok Z" and "whole_bytes pf"
  shows "safely (\<lambda>(p, _). payload_fits r p) (decode_basic Z r pf m stream has_filter)"
proof -
  have load: "load 0 n body = Some (take n body)" if "n \<le> length body" for n and body :: bytes
    using that by (simp add: load_def)
  show ?thesis
    unfolding decode_basic_def Let_def
    by (rule safely_bind [OF safely_read_filter [OF assms(2)]], unfold case_prod_unfold,
        rule safely_bind [OF safely_read_body [OF assms(1)]], unfold case_prod_unfold,
        rule safely_checked_bind [OF load], assumption, rule safely_bind [OF safely_unfilter [OF assms(2)]])
      (auto simp: rect_area_def intro: safely_ret)
qed

lemma length_reset_streams [simp]: "length (reset_streams Z ctrl streams) = length streams"
  by (simp add: reset_streams_def)

lemma safely_tight [safe_intros]:
  assumes "zlib_ok Z" and "whole_bytes pf" and "length streams = 4"
  shows "safely (\<lambda>(p, streams). payload_fits r p \<and> length streams = 4) (tight_decode Z r pf m streams)"
proof -
  have index: "unat (v AND 3) < 4" for v :: u8
    using word_and_le1 [of v 3] by (simp add: word_le_nat_alt)
  have load: "load (unat (v AND 3)) 1 (reset_streams Z ctrl streams) = Some [reset_streams Z ctrl streams ! unat (v AND 3)]" for v :: u8 and ctrl
    using index [of v] assms(3) by (simp add: load_def Suc_leI take_Suc_conv_app_nth nth_drop less_imp_le)
  note basic = safely_basic [OF assms(1,2)]
  show ?thesis
    unfolding tight_decode_def Let_def
    by (intro safely_bind [OF safely_read_u8] safely_if safely_checked_bind [OF load] safely_bind [OF basic] safely_bind [OF safely_read_tpixel]
        safely_bind [OF safely_compact_len] safely_bind [OF safely_read_exact_vec] safely_ret safely_fail assms)
      (auto simp: assms(3) intro!: safely_ret split: option.splits)
qed

subsection \<open>The two gradient kernels\<close>

text \<open>The format whose pixels are literally red, green and blue.\<close>

definition rgb_in_order :: "pixel_format \<Rightarrow> bool" where
  "rgb_in_order pf \<longleftrightarrow> is_compact_3byte pf \<and> pf_big_endian pf \<and>
     pf_red_shift pf = 16 \<and> pf_green_shift pf = 8 \<and> pf_blue_shift pf = 0"

definition widen :: "rgb \<Rightarrow> irgb" where
  "widen = (\<lambda>(r, g, b). (uint r, uint g, uint b))"

lemma channel_widen: "generic_channel 255 (uint s) (uint l) (uint u) (uint d) = uint (compact_channel s l u d)"
proof -
  let ?p = "int_clamp (uint l + uint u - uint d) 0 255"
  have p: "0 \<le> ?p" "?p < 256" by (simp_all add: int_clamp_def)
  have "uint (compact_channel s l u d) = (uint s + uint (of_int ?p :: u8)) mod 256"
    by (simp add: compact_channel_def uint_word_ariths)
  also have "uint (of_int ?p :: u8) = ?p" using p by (simp add: uint_word_of_int_eq take_bit_eq_mod)
  finally show ?thesis by (simp add: generic_channel_def)
qed

lemma pixel_widen:
  "mxs = (255 :: u16) \<Longrightarrow> pf_red_max pf = mxs \<Longrightarrow> pf_green_max pf = mxs \<Longrightarrow> pf_blue_max pf = mxs \<Longrightarrow>
   generic_pixel pf (widen s) (widen l) (widen u) (widen d) = widen (compact_pixel s l u d)"
  by (cases s; cases l; cases u; cases d) (simp add: widen_def channel_widen)

lemma raw_in_order:
  assumes "rgb_in_order pf" and "length p = 3"
  shows "raw_channels pf p = widen (triple p)"
proof -
  obtain a b c where p: "p = [a, b, c]" using assms(2) by (auto simp: length_Suc_conv numeral_eq_Suc)
  have v: "unat (from_be_bytes p :: u32) = unat c + 256 * (unat b + 256 * (unat a + 256 * 0))"
    using unat_from_le [where 'a = 32, of "rev p"] by (simp add: from_be_bytes_def p)
  have "uint (ucast x :: u32) = uint x" for x :: u8
    by (simp only: uint_nat unat_widen len_num1 len_num0 len_bit0 len_bit1)
  then show ?thesis
    using assms(1) masked_bytes [OF v]
    by (simp add: rgb_in_order_def is_compact_3byte_def raw_channels_def raw_pixel_value_be shr_def widen_def triple_def p Let_def)
qed

lemma row_in_order:
  assumes "rgb_in_order pf" and "list_all (\<lambda>p. length p = 3) ps"
  shows "generic_row pf ps (map widen us) (widen l) (widen d) = map widen (compact_row (map triple ps) us l d)"
  using assms(2)
proof (induction ps arbitrary: us l d)
  case (Cons p ps)
  have mx: "pf_red_max pf = 255" "pf_green_max pf = 255" "pf_blue_max pf = 255"
    using assms(1) by (simp_all add: rgb_in_order_def is_compact_3byte_def)
  show ?case
    using Cons raw_in_order [OF assms(1), of p] pixel_widen [OF refl mx]
    by (cases us) (simp_all add: Let_def)
qed simp

lemma scaled_widen: "rgb_in_order pf \<Longrightarrow> scaled_pixel pf (widen px) = opaque px"
proof -
  assume pf: "rgb_in_order pf"
  have "(of_int (uint x) :: u32) = ucast x" for x :: u8 by simp
  then show ?thesis
    using pf by (cases px) (simp add: scaled_pixel_def widen_def opaque_def rgb_in_order_def is_compact_3byte_def)
qed

lemma widen_zero: "widen (0, 0, 0) = (0, 0, 0)"
  by (simp add: widen_def)

lemma rows_in_order:
  assumes "rgb_in_order pf" and "length data = w * h * 3" and "set ys \<subseteq> {..<h}"
  shows "generic_rows pf data w 3 ys (map widen prev) =
    Some (map opaque (concat (compact_rows (map (\<lambda>y. map (\<lambda>x. triple (take 3 (drop ((y * w + x) * 3) data))) [0..<w]) ys) prev)))"
  using assms(3)
proof (induction ys arbitrary: prev)
  case (Cons y ys)
  have "y < h" using Cons.prems by simp
  let ?ps = "map (\<lambda>x. take 3 (drop ((y * w + x) * 3) data)) [0..<w]"
  have loads: "load ((y * w + x) * 3) 3 data = Some (take 3 (drop ((y * w + x) * 3) data))" if "x < w" for x
    using load_within [OF cell_below [OF that \<open>y < h\<close>] assms(2)] by simp
  have "map (\<lambda>x. load ((y * w + x) * 3) 3 data) [0..<w] = map Some ?ps"
    unfolding map_map comp_def by (rule map_cong [OF refl]) (simp only: set_upt atLeastLessThan_iff loads)
  then have ps: "those (map (\<lambda>x. load ((y * w + x) * 3) 3 data) [0..<w]) = Some ?ps"
    by (simp only: those_Some)
  have "list_all (\<lambda>p. length p = 3) ?ps" using length_load [OF loads] by (simp add: list_all_length)
  from row_in_order [OF assms(1) this, of prev "(0, 0, 0)" "(0, 0, 0)"]
  have row: "generic_row pf ?ps (map widen prev) (0, 0, 0) (0, 0, 0) = map widen (compact_row (map triple ?ps) prev (0, 0, 0) (0, 0, 0))"
    by (simp add: widen_zero)
  show ?case
    using Cons.IH [of "compact_row (map triple ?ps) prev (0, 0, 0) (0, 0, 0)"] Cons.prems
    by (simp add: ps row Let_def scaled_widen [OF assms(1)] comp_def del: distrib_right_numeral)
qed simp

lemma chunk_nth: "0 < n \<Longrightarrow> i < length xs div n \<Longrightarrow> chunks_exact n xs ! i = take n (drop (i * n) xs)"
proof (induction i arbitrary: xs)
  case 0
  then have "n \<le> length xs" by (simp add: div_greater_zero_iff)
  then show ?case using 0 by (subst chunks_exact.simps) simp
next
  case (Suc i)
  then have "n \<le> length xs" by (metis div_less gr_implies_not0 not_le_imp_less)
  then show ?case
    using Suc by (subst chunks_exact.simps) (simp add: le_div_geq add.commute)
qed

lemma gradient_compact_generic:
  assumes "rgb_in_order pf" and "length data = w * h * 3"
  shows "undo_gradient_generic data pf w h 3 = Some (undo_gradient_compact data w h)"
proof (cases "w = 0")
  case True
  have "generic_rows pf data 0 3 ys [] = Some []" for ys
    by (induction ys) simp_all
  then show ?thesis using True by (simp add: undo_gradient_generic_def undo_gradient_compact_def overlay_def blank_def)
next
  case False
  have len: "length data div (w * 3) = h" using False assms(2) by (simp add: mult.commute mult.left_commute)
  have rows: "map (\<lambda>row. map triple (chunks_exact 3 row)) (chunks_exact (w * 3) data) =
      map (\<lambda>y. map (\<lambda>x. triple (take 3 (drop ((y * w + x) * 3) data))) [0..<w]) [0..<h]"
  proof (rule nth_equalityI)
    fix y assume "y < length (map (\<lambda>row. map triple (chunks_exact 3 row)) (chunks_exact (w * 3) data))"
    then have y: "y < h" using False len by simp
    have "chunks_exact 3 (take (w * 3) (drop (y * (w * 3)) data)) = map (\<lambda>x. take 3 (drop ((y * w + x) * 3) data)) [0..<w]"
    proof (rule nth_equalityI)
      have row: "length (take (w * 3) (drop (y * (w * 3)) data)) = w * 3"
        using row_length [of y h data "w * 3"] y assms(2) by (simp add: ac_simps)
      then show "length (chunks_exact 3 (take (w * 3) (drop (y * (w * 3)) data))) = length (map (\<lambda>x. take 3 (drop ((y * w + x) * 3) data)) [0..<w])"
        by simp
      fix x assume "x < length (chunks_exact 3 (take (w * 3) (drop (y * (w * 3)) data)))"
      then have x: "x < w" using row by simp
      then have "take 3 (drop (x * 3) (take (w * 3) (drop (y * (w * 3)) data))) = take 3 (drop ((y * w + x) * 3) data)"
        by (simp add: drop_take min_def algebra_simps)
      then show "chunks_exact 3 (take (w * 3) (drop (y * (w * 3)) data)) ! x = map (\<lambda>x. take 3 (drop ((y * w + x) * 3) data)) [0..<w] ! x"
        using chunk_nth [of 3 x "take (w * 3) (drop (y * (w * 3)) data)"] row x by simp
    qed
    then show "map (\<lambda>row. map triple (chunks_exact 3 row)) (chunks_exact (w * 3) data) ! y =
        map (\<lambda>y. map (\<lambda>x. triple (take 3 (drop ((y * w + x) * 3) data))) [0..<w]) [0..<h] ! y"
      using chunk_nth [of "w * 3" y data] False y len by simp
  qed (use False len in simp)
  let ?rows = "map (\<lambda>y. map (\<lambda>x. triple (take 3 (drop ((y * w + x) * 3) data))) [0..<w]) [0..<h]"
  have "length (concat (compact_rows (map (\<lambda>y. map (f y) [0..<w]) ys) prev)) = length ys * w"
    if "length prev = w" for f ys and prev :: "rgb list"
    using that by (induction ys arbitrary: prev) (simp_all add: Let_def length_compact_row)
  from this [of "replicate w (0, 0, 0)" "\<lambda>y x. triple (take 3 (drop ((y * w + x) * 3) data))" "[0..<h]"]
  have "length (map opaque (concat (compact_rows ?rows (replicate w (0, 0, 0))))) = length (blank (w * h))"
    by (simp add: mult.commute del: length_concat)
  then have "undo_gradient_compact data w h = map opaque (concat (compact_rows ?rows (replicate w (0, 0, 0))))"
    unfolding undo_gradient_compact_def rows by (simp del: map_map)
  moreover have "undo_gradient_generic data pf w h 3 = Some (map opaque (concat (compact_rows ?rows (replicate w (0, 0, 0)))))"
    using rows_in_order [OF assms, of "[0..<h]" "replicate w (0, 0, 0)"]
    by (simp add: undo_gradient_generic_def widen_zero lessThan_atLeast0)
  ultimately show ?thesis by simp
qed

end
