(* ===== verification/Vnc_H264.thy ===== *)
theory Vnc_H264
  imports Vnc_Rects
begin

text \<open>
  Open H.264 (\<open>crates/vnc-core/src/encodings/h264.rs\<close>): the table that gives each rectangle one of 64
  decoder contexts, with its resets and evictions, and the scan for a frame a decoder can start on. The
  video itself is decoded elsewhere.
\<close>

unbundle bit_operations_syntax

definition FLAG_RESET_CONTEXT :: u32 where "FLAG_RESET_CONTEXT = 1"
definition FLAG_RESET_ALL_CONTEXTS :: u32 where "FLAG_RESET_ALL_CONTEXTS = 2"
definition MAX_CONTEXTS :: nat where "MAX_CONTEXTS = 64"
definition NAL_IDR_SLICE :: u8 where "NAL_IDR_SLICE = 5"

subsection \<open>The table\<close>

text \<open>The key is the geometry of the rectangle. The clock counts frames and stays far below 64 bits.\<close>

record h264_context =
  hc_key :: rect
  hc_last_used :: nat
  hc_needs_reset :: bool

record h264_meta =
  hm_context_id :: u32
  hm_reset :: bool
  hm_keyframe :: bool

record h264_contexts =
  hx_slots :: "h264_context option list"
  hx_clock :: nat

definition h264_new :: h264_contexts where
  "h264_new = \<lparr>hx_slots = [], hx_clock = 0\<rparr>"

definition h264_clear :: "h264_contexts \<Rightarrow> h264_contexts" where
  "h264_clear c = c\<lparr>hx_slots := [], hx_clock := 0\<rparr>"

definition h264_live :: "h264_contexts \<Rightarrow> nat" where
  "h264_live c = length (filter (\<lambda>s. s \<noteq> None) (hx_slots c))"

definition h264_find :: "rect \<Rightarrow> h264_context option list \<Rightarrow> nat option" where
  "h264_find key slots = position (\<lambda>s. case s of Some c \<Rightarrow> hc_key c = key | None \<Rightarrow> False) slots"

definition slot_age :: "h264_context option \<Rightarrow> nat" where
  "slot_age s = (case s of Some c \<Rightarrow> hc_last_used c | None \<Rightarrow> 0)"

text \<open>The position of the first smallest, or zero.\<close>

fun first_min :: "nat list \<Rightarrow> nat" where
  "first_min [] = 0"
| "first_min [a] = 0"
| "first_min (a # b # bs) = (let i = first_min (b # bs) in if a \<le> (b # bs) ! i then 0 else Suc i)"

definition h264_allocate :: "rect \<Rightarrow> h264_contexts \<Rightarrow> nat \<times> h264_contexts" where
  "h264_allocate key c =
     (let fresh = Some \<lparr>hc_key = key, hc_last_used = hx_clock c, hc_needs_reset = True\<rparr>; slots = hx_slots c in
      case position (\<lambda>s. s = None) slots of
        Some i \<Rightarrow> (i, c\<lparr>hx_slots := slots[i := fresh]\<rparr>)
      | None \<Rightarrow>
          if length slots < MAX_CONTEXTS then (length slots, c\<lparr>hx_slots := slots @ [fresh]\<rparr>)
          else let victim = first_min (map slot_age slots) in (victim, c\<lparr>hx_slots := slots[victim := fresh]\<rparr>))"

subsection \<open>Annex-B\<close>

lemma drop_shorter: "drop n bs = b # rest \<Longrightarrow> length rest < length bs"
proof -
  assume "drop n bs = b # rest"
  then have "length (drop n bs) = Suc (length rest)" by simp
  then show ?thesis by simp
qed

text \<open>
  One turn of the scan per byte skipped: a start code is four bytes or three, and the byte after it, when
  there is one, is a header.
\<close>

function nal_types :: "bytes \<Rightarrow> u8 list" where
  "nal_types bs =
     (if length bs < 3 then []
      else
        let three = take 3 bs = [0, 0, 1]; four = take 4 bs = [0, 0, 0, 1] in
        if \<not> four \<and> \<not> three then nal_types (drop 1 bs)
        else
          case drop (if four then 4 else 3) bs of
            [] \<Rightarrow> []
          | header # rest \<Rightarrow>
              if header AND 0x80 = 0 then (header AND 0x1F) # nal_types rest else nal_types rest)"
  by auto

termination by (relation "measure length") (auto dest: drop_shorter)

declare nal_types.simps [simp del]

definition contains_idr :: "bytes \<Rightarrow> bool" where
  "contains_idr data \<longleftrightarrow> NAL_IDR_SLICE \<in> set (nal_types data)"

subsection \<open>Frames\<close>

definition h264_resets :: "rect \<Rightarrow> u32 \<Rightarrow> h264_context option list \<Rightarrow> h264_context option list" where
  "h264_resets key flags slots0 =
     (let slots = (if flags AND FLAG_RESET_ALL_CONTEXTS \<noteq> 0 then replicate (length slots0) None else slots0) in
      if flags AND FLAG_RESET_CONTEXT \<noteq> 0
      then (case h264_find key slots of Some i \<Rightarrow> slots[i := None] | None \<Rightarrow> slots)
      else slots)"

definition h264_track :: "rect \<Rightarrow> u32 \<Rightarrow> bytes \<Rightarrow> h264_contexts \<Rightarrow> h264_meta \<times> h264_contexts" where
  "h264_track key flags data c0 =
     (let c = c0\<lparr>hx_slots := h264_resets key flags (hx_slots c0)\<rparr>;
          keyframe = contains_idr data;
          (idx, c1) = (case h264_find key (hx_slots c) of Some i \<Rightarrow> (i, c) | None \<Rightarrow> h264_allocate key c);
          clock = hx_clock c1 + 1;
          ctx = (the (hx_slots c1 ! idx))\<lparr>hc_last_used := clock\<rparr>;
          reset = hc_needs_reset ctx;
          ctx' = (if data \<noteq> [] \<and> keyframe then ctx\<lparr>hc_needs_reset := False\<rparr> else ctx)
      in (\<lparr>hm_context_id = of_nat idx, hm_reset = reset, hm_keyframe = keyframe\<rparr>,
          c1\<lparr>hx_slots := (hx_slots c1)[idx := Some ctx'], hx_clock := clock\<rparr>))"

definition h264_decode :: "rect \<Rightarrow> h264_contexts \<Rightarrow> (rect_payload \<times> h264_contexts) decoder" where
  "h264_decode r contexts =
     dbind read_u32 (\<lambda>len.
     dbind read_u32 (\<lambda>flags.
     dbind (read_exact_vec (unat len) ''h264'') (\<lambda>data.
     let (meta, contexts') = h264_track r flags data contexts
     in dret (H264 data flags (hm_context_id meta) (hm_reset meta) (hm_keyframe meta), contexts'))))"

lemma safely_h264 [safe_intros]: "safely (\<lambda>(p, _). payload_fits r p) (h264_decode r contexts)"
  unfolding h264_decode_def
  by (intro safely_bind [OF safely_read_u32] safely_bind [OF safely_read_exact_vec])
    (auto intro!: safely_ret split: prod.split)

subsection \<open>At most 64 contexts, one for each rectangle\<close>

definition h264_wf :: "h264_context option list \<Rightarrow> bool" where
  "h264_wf slots \<longleftrightarrow> length slots \<le> MAX_CONTEXTS \<and>
     (\<forall>i < length slots. \<forall>j < length slots. \<forall>c d. slots ! i = Some c \<and> slots ! j = Some d \<and> hc_key c = hc_key d \<longrightarrow> i = j)"

lemma find_Some:
  "h264_find key slots = Some i \<Longrightarrow> i < length slots \<and> (\<exists>c. slots ! i = Some c \<and> hc_key c = key)"
  by (auto simp: h264_find_def dest!: position_Some split: option.splits)

lemma find_None: "h264_find key slots = None \<Longrightarrow> i < length slots \<Longrightarrow> slots ! i = Some c \<Longrightarrow> hc_key c \<noteq> key"
  by (fastforce simp: h264_find_def in_set_conv_nth split: option.splits)

lemma wf_clear: "h264_wf slots \<Longrightarrow> h264_wf (slots[i := None])"
proof -
  assume wf: "h264_wf slots"
  have kept: "j \<noteq> i \<and> slots ! j = Some c" if "slots[i := None] ! j = Some c" "j < length slots" for j c
    using that by (cases "j = i") auto
  show ?thesis using wf kept unfolding h264_wf_def length_list_update by blast
qed

lemma resets_wf: "h264_wf slots \<Longrightarrow> h264_wf (h264_resets key flags slots)"
proof -
  assume wf: "h264_wf slots"
  have "h264_wf (replicate (length slots) None)" using wf by (auto simp: h264_wf_def)
  with wf show ?thesis by (auto simp: h264_resets_def Let_def wf_clear split: option.split)
qed

lemma first_min_below: "xs \<noteq> [] \<Longrightarrow> first_min xs < length xs"
  by (induction xs rule: first_min.induct) (auto simp: Let_def)

text \<open>What allocation does: one slot becomes fresh, and that slot is not another rectangle's any more.\<close>

lemma allocate_exact:
  assumes "h264_wf (hx_slots c)" and "h264_find key (hx_slots c) = None" and "h264_allocate key c = (idx, c1)"
  shows "h264_wf (hx_slots c1) \<and> hx_clock c1 = hx_clock c \<and> idx < length (hx_slots c1) \<and> length (hx_slots c) \<le> length (hx_slots c1) \<and>
    hx_slots c1 ! idx = Some \<lparr>hc_key = key, hc_last_used = hx_clock c, hc_needs_reset = True\<rparr> \<and>
    (\<forall>j < length (hx_slots c1). j \<noteq> idx \<longrightarrow> j < length (hx_slots c) \<and> hx_slots c1 ! j = hx_slots c ! j)"
proof -
  let ?slots = "hx_slots c" and ?fresh = "Some \<lparr>hc_key = key, hc_last_used = hx_clock c, hc_needs_reset = True\<rparr>"
  have put: "h264_wf (?slots[i := ?fresh])" if "i < length ?slots" for i
    using assms(1) find_None [OF assms(2)] that by (auto simp: h264_wf_def nth_list_update split: if_splits)
  have grow: "h264_wf (?slots @ [?fresh])" if "length ?slots < MAX_CONTEXTS"
    using assms(1) find_None [OF assms(2)] that by (auto simp: h264_wf_def nth_append less_Suc_eq split: if_splits)
  have victim: "first_min (map slot_age ?slots) < length ?slots" if "\<not> length ?slots < MAX_CONTEXTS"
    using first_min_below [of "map slot_age ?slots"] that by (cases ?slots) (auto simp: MAX_CONTEXTS_def)
  show ?thesis
  proof (cases "position (\<lambda>s. s = None) ?slots")
    case (Some i)
    then have "i < length ?slots" by (auto dest: position_Some)
    then show ?thesis using assms(3) Some put by (auto simp: h264_allocate_def Let_def)
  next
    case None
    show ?thesis
    proof (cases "length ?slots < MAX_CONTEXTS")
      case True
      then show ?thesis using assms(3) None grow by (auto simp: h264_allocate_def Let_def nth_append)
    next
      case False
      then show ?thesis using assms(3) None put [OF victim] victim by (auto simp: h264_allocate_def Let_def)
    qed
  qed
qed

text \<open>A context that has had its first picture.\<close>

definition ready :: "h264_context option list \<Rightarrow> nat \<Rightarrow> rect \<Rightarrow> bool" where
  "ready slots i key \<longleftrightarrow> i < length slots \<and> (\<exists>c. slots ! i = Some c \<and> hc_key c = key \<and> \<not> hc_needs_reset c)"

lemma resets_ready:
  assumes "h264_wf slots"
  shows "ready (h264_resets key flags slots) i k \<longleftrightarrow>
    ready slots i k \<and> flags AND FLAG_RESET_ALL_CONTEXTS = 0 \<and> \<not> (k = key \<and> flags AND FLAG_RESET_CONTEXT \<noteq> 0)"
proof (cases "flags AND FLAG_RESET_ALL_CONTEXTS = 0")
  case True
  show ?thesis
  proof (cases "h264_find key slots")
    case None
    then have "h264_resets key flags slots = slots" using True by (simp add: h264_resets_def)
    moreover have "\<not> ready slots i key" unfolding ready_def using find_None [OF None] by blast
    ultimately show ?thesis using True by auto
  next
    case (Some j)
    then obtain d where d: "j < length slots" "slots ! j = Some d" "hc_key d = key" using find_Some by blast
    have only: "\<not> ready slots i key" if "i \<noteq> j"
      using assms that d unfolding h264_wf_def ready_def by blast
    have other: "\<not> ready slots j k" if "k \<noteq> key" using d that by (simp add: ready_def)
    have cleared: "ready (slots[j := None]) i k \<longleftrightarrow> i \<noteq> j \<and> ready slots i k" by (cases "i = j") (auto simp: ready_def)
    have "h264_resets key flags slots = (if flags AND FLAG_RESET_CONTEXT \<noteq> 0 then slots[j := None] else slots)"
      using True Some by (simp add: h264_resets_def)
    then show ?thesis using True cleared only other by (cases "k = key"; cases "i = j") simp_all
  qed
next
  case False
  have "h264_find key (replicate n None) = None" for n
    using find_Some [of key "replicate n None"] by (cases "h264_find key (replicate n None)") auto
  then show ?thesis using False by (auto simp: h264_resets_def ready_def Let_def)
qed

text \<open>What routing does: the slot of the rectangle, found or fresh, and nothing else changes.\<close>

lemma route_exact:
  assumes "h264_wf (hx_slots c)"
    and "(case h264_find key (hx_slots c) of Some i \<Rightarrow> (i, c) | None \<Rightarrow> h264_allocate key c) = (idx, c1)"
  shows "h264_wf (hx_slots c1) \<and> idx < length (hx_slots c1) \<and>
    (\<exists>ctx. hx_slots c1 ! idx = Some ctx \<and> hc_key ctx = key \<and> hc_needs_reset ctx = (\<not> ready (hx_slots c) idx key)) \<and>
    (\<forall>j k. j \<noteq> idx \<longrightarrow> ready (hx_slots c1) j k = ready (hx_slots c) j k) \<and> hx_clock c1 = hx_clock c"
proof (cases "h264_find key (hx_slots c)")
  case None
  have no: "\<not> ready (hx_slots c) idx key" using find_None [OF None] by (auto simp: ready_def)
  have "h264_allocate key c = (idx, c1)" using assms(2) None by simp
  note facts = allocate_exact [OF assms(1) None this]
  have "ready (hx_slots c1) j k = ready (hx_slots c) j k" if "j \<noteq> idx" for j k
    using facts that by (auto simp: ready_def)
  with facts no show ?thesis by auto
next
  case (Some i)
  with assms find_Some [OF Some] show ?thesis by (auto simp: ready_def)
qed

text \<open>One frame, in full.\<close>

lemma track_exact:
  assumes "h264_wf (hx_slots c)" and "h264_track key flags data c = (meta, c')"
  obtains idx where "hm_context_id meta = of_nat idx" and "idx < MAX_CONTEXTS" and "h264_wf (hx_slots c')"
    and "hm_keyframe meta = contains_idr data"
    and "hm_reset meta \<longleftrightarrow> \<not> ready (h264_resets key flags (hx_slots c)) idx key"
    and "\<And>i k. ready (hx_slots c') i k \<longleftrightarrow>
      (if i = idx then k = key \<and> (contains_idr data \<or> ready (h264_resets key flags (hx_slots c)) idx key)
       else ready (h264_resets key flags (hx_slots c)) i k)"
proof -
  let ?slots = "h264_resets key flags (hx_slots c)" and ?c = "c\<lparr>hx_slots := h264_resets key flags (hx_slots c)\<rparr>"
  have wf: "h264_wf (hx_slots ?c)" using resets_wf [OF assms(1)] by simp
  obtain idx c1 where route: "(case h264_find key (hx_slots ?c) of Some i \<Rightarrow> (i, ?c) | None \<Rightarrow> h264_allocate key ?c) = (idx, c1)"
    by fastforce
  note facts = route_exact [OF wf route]
  obtain ctx where ctx: "hx_slots c1 ! idx = Some ctx" "hc_key ctx = key" "hc_needs_reset ctx = (\<not> ready ?slots idx key)"
    using facts by auto
  have empty: "\<not> contains_idr []" by (simp add: contains_idr_def nal_types.simps)
  define ctx' where "ctx' = (if data \<noteq> [] \<and> contains_idr data then ctx\<lparr>hc_last_used := hx_clock c1 + 1, hc_needs_reset := False\<rparr>
      else ctx\<lparr>hc_last_used := hx_clock c1 + 1\<rparr>)"
  have meta: "meta = \<lparr>hm_context_id = of_nat idx, hm_reset = hc_needs_reset ctx, hm_keyframe = contains_idr data\<rparr>"
    and c': "hx_slots c' = (hx_slots c1)[idx := Some ctx']"
    using assms(2) route ctx(1) by (auto simp: h264_track_def Let_def ctx'_def split: if_splits)
  have key': "hc_key ctx' = key" using ctx(2) by (simp add: ctx'_def)
  have reset': "hc_needs_reset ctx' \<longleftrightarrow> \<not> (contains_idr data \<or> ready ?slots idx key)"
    using ctx(3) empty by (cases "data = []") (auto simp: ctx'_def)
  have slot: "(\<exists>d. hx_slots c' ! i = Some d \<and> hc_key d = k) \<longleftrightarrow> (\<exists>d. hx_slots c1 ! i = Some d \<and> hc_key d = k)"
    if "i < length (hx_slots c1)" for i k
    using that ctx key' c' by (cases "i = idx") auto
  have "h264_wf (hx_slots c')"
  proof -
    have len: "length (hx_slots c') = length (hx_slots c1)" using c' by simp
    show ?thesis using facts slot unfolding h264_wf_def len by metis
  qed
  moreover have "idx < MAX_CONTEXTS" using facts by (auto simp: h264_wf_def)
  moreover have "ready (hx_slots c') i k \<longleftrightarrow>
      (if i = idx then k = key \<and> (contains_idr data \<or> ready ?slots idx key) else ready ?slots i k)" for i k
    using facts c' key' reset' by (auto simp: ready_def)
  ultimately show thesis using that [of idx] meta ctx(3) by simp
qed

subsection \<open>What a reset answer means\<close>

text \<open>
  The frames seen, newest first, with the context each was routed to. A rectangle's context has started
  when a frame of that rectangle with an IDR went to it, and since then nothing reset it and no
  other rectangle took it.
\<close>

type_synonym h264_frame = "rect \<times> u32 \<times> bytes"

fun started :: "(h264_frame \<times> nat) list \<Rightarrow> nat \<Rightarrow> rect \<Rightarrow> bool" where
  "started [] i key \<longleftrightarrow> False"
| "started (((r, flags, data), j) # older) i key \<longleftrightarrow>
     (if r = key \<and> j = i \<and> contains_idr data then True
      else flags AND FLAG_RESET_ALL_CONTEXTS = 0 \<and> \<not> (r = key \<and> flags AND FLAG_RESET_CONTEXT \<noteq> 0) \<and>
        (j = i \<longrightarrow> r = key) \<and> started older i key)"

fun h264_step :: "h264_frame \<Rightarrow> (h264_frame \<times> nat) list \<times> h264_contexts \<Rightarrow> (h264_frame \<times> nat) list \<times> h264_contexts" where
  "h264_step (r, flags, data) (history, c) =
     (let (meta, c') = h264_track r flags data c in (((r, flags, data), unat (hm_context_id meta)) # history, c'))"

definition h264_run :: "h264_frame list \<Rightarrow> (h264_frame \<times> nat) list \<times> h264_contexts" where
  "h264_run frames = fold h264_step frames ([], h264_new)"

definition h264_true :: "(h264_frame \<times> nat) list \<times> h264_contexts \<Rightarrow> bool" where
  "h264_true s \<longleftrightarrow> h264_wf (hx_slots (snd s)) \<and> (\<forall>i k. started (fst s) i k \<longleftrightarrow> ready (hx_slots (snd s)) i k)"

lemma id_small: "idx < MAX_CONTEXTS \<Longrightarrow> unat (of_nat idx :: u32) = idx"
  by (simp add: MAX_CONTEXTS_def unat_of_nat)

lemma step_true: "h264_true s \<Longrightarrow> h264_true (h264_step f s)"
proof -
  assume inv: "h264_true s"
  obtain history c where s: "s = (history, c)" by (cases s)
  obtain r flags data where f: "f = (r, flags, data)" by (cases f)
  obtain meta c' where t: "h264_track r flags data c = (meta, c')" by fastforce
  have wf: "h264_wf (hx_slots c)" using inv s by (simp add: h264_true_def)
  obtain idx where idx: "hm_context_id meta = of_nat idx" "idx < MAX_CONTEXTS" "h264_wf (hx_slots c')"
    "\<And>i k. ready (hx_slots c') i k \<longleftrightarrow>
      (if i = idx then k = r \<and> (contains_idr data \<or> ready (h264_resets r flags (hx_slots c)) idx r)
       else ready (h264_resets r flags (hx_slots c)) i k)"
    by (rule track_exact [OF wf t]) (rule that)
  have "started (((r, flags, data), idx) # history) i k \<longleftrightarrow> ready (hx_slots c') i k" for i k
    using inv s idx(4) resets_ready [OF wf] by (auto simp: h264_true_def)
  then show ?thesis using idx by (simp add: h264_true_def s f t id_small)
qed

lemma run_true: "h264_true (h264_run frames)"
proof -
  have "h264_true s \<Longrightarrow> h264_true (fold h264_step frames s)" for s
    by (induction frames arbitrary: s) (simp_all add: step_true)
  moreover have "h264_true ([], h264_new)" by (simp add: h264_true_def h264_new_def h264_wf_def ready_def)
  ultimately show ?thesis by (simp add: h264_run_def)
qed

text \<open>A decoder is asked to start anew exactly when its context has not started, or this frame resets it.\<close>

lemma reset_answer:
  assumes "h264_run frames = (history, c)" and "h264_track r flags data c = (meta, c')"
  shows "unat (hm_context_id meta) < MAX_CONTEXTS \<and>
    (hm_reset meta \<longleftrightarrow> \<not> (flags AND FLAG_RESET_ALL_CONTEXTS = 0 \<and> flags AND FLAG_RESET_CONTEXT = 0 \<and>
      started history (unat (hm_context_id meta)) r))"
proof -
  have inv: "h264_true (history, c)" using run_true [of frames] assms(1) by simp
  then have wf: "h264_wf (hx_slots c)" by (simp add: h264_true_def)
  obtain idx where idx: "hm_context_id meta = of_nat idx" "idx < MAX_CONTEXTS"
    "hm_reset meta \<longleftrightarrow> \<not> ready (h264_resets r flags (hx_slots c)) idx r"
    by (rule track_exact [OF wf assms(2)])
  then show ?thesis using inv resets_ready [OF wf] by (auto simp: h264_true_def id_small)
qed

end
