(* ===== verification/Vnc_Decoder.thy ===== *)
theory Vnc_Decoder
  imports Vnc_Zrle Vnc_Tight Vnc_H264
begin

text \<open>
  The decoder of one connection (\<open>crates/vnc-core/src/encodings/mod.rs\<close>): its persistent state and the
  dispatch of a rectangle to the decoder of its encoding. An error ends the connection, so the
  state after one is not kept.
\<close>

record 'z decoder_state =
  ds_pf :: pixel_format
  ds_tight_streams :: "'z list"
  ds_zrle_stream :: 'z
  ds_zlib_stream :: 'z
  ds_colour_map :: "colour_map option"
  ds_h264 :: h264_contexts

definition decoder_new :: "'z zlib \<Rightarrow> pixel_format \<Rightarrow> 'z decoder_state" where
  "decoder_new Z pf =
     \<lparr>ds_pf = pf, ds_tight_streams = [zl_new Z, zl_new Z, zl_new Z, zl_new Z], ds_zrle_stream = zl_new Z,
      ds_zlib_stream = zl_new Z, ds_colour_map = None, ds_h264 = h264_new\<rparr>"

definition set_pixel_format :: "pixel_format \<Rightarrow> 'z decoder_state \<Rightarrow> 'z decoder_state" where
  "set_pixel_format pf d = d\<lparr>ds_pf := pf\<rparr>"

definition clear_colour_map :: "'z decoder_state \<Rightarrow> 'z decoder_state" where
  "clear_colour_map d = d\<lparr>ds_colour_map := None\<rparr>"

definition decoder_reset :: "'z zlib \<Rightarrow> 'z decoder_state \<Rightarrow> 'z decoder_state" where
  "decoder_reset Z d =
     d\<lparr>ds_tight_streams := map (zl_reset Z) (ds_tight_streams d), ds_zrle_stream := zl_reset Z (ds_zrle_stream d),
       ds_zlib_stream := zl_reset Z (ds_zlib_stream d), ds_colour_map := None, ds_h264 := h264_clear (ds_h264 d)\<rparr>"

text \<open>An entry's channels are 16 bits wide on the wire; the high bytes are kept.\<close>

definition high_bytes :: "u16 \<times> u16 \<times> u16 \<Rightarrow> rgb" where
  "high_bytes = (\<lambda>(r, g, b). (ucast (drop_bit 8 r), ucast (drop_bit 8 g), ucast (drop_bit 8 b)))"

definition set_colour_map :: "u16 \<Rightarrow> (u16 \<times> u16 \<times> u16) list \<Rightarrow> 'z decoder_state \<Rightarrow> 'z decoder_state" where
  "set_colour_map first_colour entries d =
     (let map0 = (case ds_colour_map d of Some m \<Rightarrow> m | None \<Rightarrow> colour_map_new)
      in d\<lparr>ds_colour_map := Some (set_entries (unat first_colour) (map high_bytes entries) map0)\<rparr>)"

subsection \<open>Dispatch\<close>

text \<open>The encodings a decoder exists for; every other number is an error. A number is its 32 bits, which the source reads as signed.\<close>

datatype data_encoding = ERaw | ECopyRect | ERre | ECorre | EHextile | EZlib | ETight | ETrle | EZrle | EOpenH264

definition data_encoding_of :: "u32 \<Rightarrow> data_encoding option" where
  "data_encoding_of n =
     (if n = 0 then Some ERaw else if n = 1 then Some ECopyRect else if n = 2 then Some ERre
      else if n = 4 then Some ECorre else if n = 5 then Some EHextile else if n = 6 then Some EZlib
      else if n = 7 then Some ETight else if n = 15 then Some ETrle else if n = 16 then Some EZrle
      else if n = 50 then Some EOpenH264 else None)"

definition check_pf :: "bool \<Rightarrow> string \<Rightarrow> 'a decoder \<Rightarrow> 'a decoder" where
  "check_pf ok enc m =
     (if ok then m else dfail (VncDecode enc ''unsupported bits-per-pixel in negotiated pixel format''))"

definition pf_ok :: "pixel_format \<Rightarrow> bool" where
  "pf_ok pf \<longleftrightarrow> pf_bits_per_pixel pf \<in> {8, 16, 24, 32}"

definition decode_payload ::
  "'z zlib \<Rightarrow> 'z decoder_state \<Rightarrow> rect \<Rightarrow> u32 \<Rightarrow> pixel_format \<Rightarrow> (rect_payload \<times> 'z decoder_state) decoder" where
  "decode_payload Z d r encoding pf =
     (let ok = pf_ok pf; m = ds_colour_map d; keep = (\<lambda>p. dret (p, d)) in
      case data_encoding_of encoding of
        None \<Rightarrow> dfail (UnsupportedEncoding encoding)
      | Some ERaw \<Rightarrow> check_pf ok ''raw'' (dbind (raw_decode r pf m) keep)
      | Some ECopyRect \<Rightarrow> dbind copy_rect_decode keep
      | Some ERre \<Rightarrow> check_pf ok ''rre'' (dbind (rre_decode r pf m False) keep)
      | Some ECorre \<Rightarrow> check_pf ok ''corre'' (dbind (rre_decode r pf m True) keep)
      | Some EHextile \<Rightarrow> check_pf ok ''hextile'' (dbind (hextile_decode r pf m) keep)
      | Some EZlib \<Rightarrow> check_pf ok ''zlib''
          (dbind (zlib_decode Z r pf m (ds_zlib_stream d)) (\<lambda>(p, z). dret (p, d\<lparr>ds_zlib_stream := z\<rparr>)))
      | Some ETight \<Rightarrow> check_pf ok ''tight''
          (dbind (tight_decode Z r pf m (ds_tight_streams d)) (\<lambda>(p, zs). dret (p, d\<lparr>ds_tight_streams := zs\<rparr>)))
      | Some ETrle \<Rightarrow> check_pf ok ''trle'' (dbind (trle_decode r pf m) keep)
      | Some EZrle \<Rightarrow> check_pf ok ''zrle''
          (dbind (zrle_decode Z r pf m (ds_zrle_stream d)) (\<lambda>(p, z). dret (p, d\<lparr>ds_zrle_stream := z\<rparr>)))
      | Some EOpenH264 \<Rightarrow>
          dbind (h264_decode r (ds_h264 d)) (\<lambda>(p, h). dret (p, d\<lparr>ds_h264 := h\<rparr>)))"

definition decode_rect_as ::
  "'z zlib \<Rightarrow> 'z decoder_state \<Rightarrow> rect \<Rightarrow> u32 \<Rightarrow> pixel_format \<Rightarrow> (decoded_rect \<times> 'z decoder_state) decoder" where
  "decode_rect_as Z d r encoding pf =
     (if MAX_RECT_AREA < rect_area r then dfail (VncDecode ''dispatch'' ''rect exceeds max area'')
      else dbind (decode_payload Z d r encoding pf) (\<lambda>(p, d'). dret (\<lparr>dr_rect = r, dr_payload = p\<rparr>, d')))"

definition decode_rect ::
  "'z zlib \<Rightarrow> 'z decoder_state \<Rightarrow> rect \<Rightarrow> u32 \<Rightarrow> (decoded_rect \<times> 'z decoder_state) decoder" where
  "decode_rect Z d r encoding = decode_rect_as Z d r encoding (ds_pf d)"

subsection \<open>The invariant\<close>

definition decoder_wf :: "'z decoder_state \<Rightarrow> bool" where
  "decoder_wf d \<longleftrightarrow> length (ds_tight_streams d) = 4 \<and> h264_wf (hx_slots (ds_h264 d)) \<and>
     (case ds_colour_map d of None \<Rightarrow> True | Some m \<Rightarrow> colour_map_wf m)"

lemma h264_keeps_wf: "h264_wf (hx_slots c) \<Longrightarrow> h264_wf (hx_slots (snd (h264_track r flags data c)))"
proof -
  assume wf: "h264_wf (hx_slots c)"
  obtain meta c' where t: "h264_track r flags data c = (meta, c')" by fastforce
  then show ?thesis by (auto intro: track_exact [OF wf t])
qed

lemma safely_h264_wf:
  "h264_wf (hx_slots contexts) \<Longrightarrow>
   safely (\<lambda>(p, c). payload_fits r p \<and> h264_wf (hx_slots c)) (h264_decode r contexts)"
proof -
  assume wf: "h264_wf (hx_slots contexts)"
  have "h264_wf (hx_slots c)" if "h264_track r flags data contexts = (meta, c)" for flags data meta c
    using h264_keeps_wf [OF wf, of r flags data] that by simp
  then show ?thesis
    unfolding h264_decode_def
    by (intro safely_bind [OF safely_read_u32] safely_bind [OF safely_read_exact_vec])
      (auto intro!: safely_ret split: prod.split)
qed

lemma whole_bytes_ok: "pf_ok pf \<Longrightarrow> whole_bytes pf"
  by (auto simp: pf_ok_def whole_bytes_def bytes_per_pixel_def)

lemma safely_check_pf: "(pf_ok pf \<Longrightarrow> safely Q m) \<Longrightarrow> safely Q (check_pf (pf_ok pf) enc m)"
  by (simp add: check_pf_def safely_fail)

lemma safely_keep:
  "safely (payload_fits r) m \<Longrightarrow> decoder_wf d \<Longrightarrow> safely (\<lambda>(p, d). payload_fits r p \<and> decoder_wf d) (dbind m (\<lambda>p. dret (p, d)))"
  by (rule safely_bind [of "payload_fits r"]) (auto intro: safely_ret)

lemma safely_payload:
  assumes "zlib_ok Z" and "decoder_wf d"
  shows "safely (\<lambda>(p, d). payload_fits r p \<and> decoder_wf d) (decode_payload Z d r encoding pf)"
proof (cases "data_encoding_of encoding")
  case None
  then show ?thesis by (simp add: decode_payload_def safely_fail)
next
  case (Some e)
  have streams: "length (ds_tight_streams d) = 4" "h264_wf (hx_slots (ds_h264 d))" using assms(2) by (simp_all add: decoder_wf_def)
  note bases = safely_raw safely_copy_rect safely_rre safely_hextile safely_trle
  show ?thesis
  proof (cases e)
    case EZlib
    show ?thesis unfolding decode_payload_def Some EZlib Let_def option.case data_encoding.case
      by (rule safely_check_pf, rule safely_bind [OF safely_zlib [OF assms(1) whole_bytes_ok]])
        (use assms(2) in \<open>auto simp: decoder_wf_def intro!: safely_ret\<close>)
  next
    case EZrle
    show ?thesis unfolding decode_payload_def Some EZrle Let_def option.case data_encoding.case
      by (rule safely_check_pf, rule safely_bind [OF safely_zrle [OF assms(1) whole_bytes_ok]])
        (use assms(2) in \<open>auto simp: decoder_wf_def intro!: safely_ret\<close>)
  next
    case ETight
    show ?thesis unfolding decode_payload_def Some ETight Let_def option.case data_encoding.case
      by (rule safely_check_pf, rule safely_bind [OF safely_tight [OF assms(1) whole_bytes_ok streams(1)]])
        (use assms(2) in \<open>auto simp: decoder_wf_def intro!: safely_ret\<close>)
  next
    case EOpenH264
    show ?thesis unfolding decode_payload_def Some EOpenH264 Let_def option.case data_encoding.case
      by (rule safely_bind [OF safely_h264_wf [OF streams(2)]])
        (use assms(2) in \<open>auto simp: decoder_wf_def intro!: safely_ret\<close>)
  qed (simp_all add: decode_payload_def Some Let_def safely_check_pf safely_keep [OF _ assms(2)] bases whole_bytes_ok)
qed

lemma safely_decode_rect_as:
  assumes "zlib_ok Z" and "decoder_wf d"
  shows "safely (\<lambda>(p, d'). dr_rect p = r \<and> payload_fits r (dr_payload p) \<and> decoder_wf d') (decode_rect_as Z d r encoding pf)"
  unfolding decode_rect_as_def
  by (rule safely_if [OF safely_fail], rule safely_bind [OF safely_payload [OF assms]]) (auto intro: safely_ret)

lemma decoder_new_wf: "decoder_wf (decoder_new Z pf)"
  by (simp add: decoder_wf_def decoder_new_def h264_new_def h264_wf_def)

lemma decoder_keeps_wf:
  "decoder_wf d \<Longrightarrow> decoder_wf (set_pixel_format pf d)"
  "decoder_wf d \<Longrightarrow> decoder_wf (clear_colour_map d)"
  "decoder_wf d \<Longrightarrow> decoder_wf (decoder_reset Z d)"
  "decoder_wf d \<Longrightarrow> decoder_wf (set_colour_map first_colour entries d)"
  by (auto simp: decoder_wf_def set_pixel_format_def clear_colour_map_def decoder_reset_def set_colour_map_def h264_clear_def
      h264_wf_def Let_def split: option.splits)

end
