(* ===== verification/Vnc_Messages.thy ===== *)
theory Vnc_Messages
  imports Vnc_Decoder Rust_Text
begin

text \<open>
  The messages of RFB (\<open>crates/vnc-core/src/proto/messages.rs\<close>): what the client writes, and what it reads from the
  server after the type byte, with \<open>proto/version.rs\<close> and \<open>proto/handshake.rs\<close>. A signed word is its 32 bits.
\<close>

unbundle bit_operations_syntax

subsection \<open>Numbers and limits\<close>

definition SET_PIXEL_FORMAT :: u8 where "SET_PIXEL_FORMAT = 0"
definition SET_ENCODINGS :: u8 where "SET_ENCODINGS = 2"
definition FRAMEBUFFER_UPDATE_REQUEST :: u8 where "FRAMEBUFFER_UPDATE_REQUEST = 3"
definition KEY_EVENT :: u8 where "KEY_EVENT = 4"
definition POINTER_EVENT :: u8 where "POINTER_EVENT = 5"
definition CLIENT_CUT_TEXT :: u8 where "CLIENT_CUT_TEXT = 6"
definition ENABLE_CONTINUOUS_UPDATES :: u8 where "ENABLE_CONTINUOUS_UPDATES = 150"
definition CLIENT_FENCE :: u8 where "CLIENT_FENCE = 248"
definition SET_DESKTOP_SIZE :: u8 where "SET_DESKTOP_SIZE = 251"
definition QEMU :: u8 where "QEMU = 255"
definition QEMU_SUB_EXTENDED_KEY_EVENT :: u8 where "QEMU_SUB_EXTENDED_KEY_EVENT = 0"

definition FENCE_REQUEST :: u32 where "FENCE_REQUEST = push_bit 31 1"
definition KNOWN_RESPONSE_MASK :: u32 where "KNOWN_RESPONSE_MASK = 1 OR 2 OR 4"
definition FENCE_MAX_PAYLOAD :: nat where "FENCE_MAX_PAYLOAD = 64"
definition ACTION_REQUEST :: u32 where "ACTION_REQUEST = push_bit 25 1"
definition FORMAT_MASK :: u32 where "FORMAT_MASK = 0x0000FFFF"
definition MAX_CUT_TEXT :: nat where "MAX_CUT_TEXT = 16 * 1024 * 1024"

record desktop_screen =
  sc_id :: u32
  sc_x :: u16
  sc_y :: u16
  sc_width :: u16
  sc_height :: u16
  sc_flags :: u32
  sc_primary :: bool

definition encode_screen :: "desktop_screen \<Rightarrow> bytes" where
  "encode_screen s =
     to_be_bytes (sc_id s) @ to_be_bytes (sc_x s) @ to_be_bytes (sc_y s) @ to_be_bytes (sc_width s) @
     to_be_bytes (sc_height s) @ to_be_bytes (sc_flags s)"

definition flag_byte :: "bool \<Rightarrow> u8" where
  "flag_byte b = (if b then 1 else 0)"

subsection \<open>The pixel format on the wire\<close>

definition encode_pixel_format :: "pixel_format \<Rightarrow> bytes" where
  "encode_pixel_format pf =
     [pf_bits_per_pixel pf, pf_depth pf, flag_byte (pf_big_endian pf), flag_byte (pf_true_colour pf)] @
     to_be_bytes (pf_red_max pf) @ to_be_bytes (pf_green_max pf) @ to_be_bytes (pf_blue_max pf) @
     [pf_red_shift pf, pf_green_shift pf, pf_blue_shift pf, 0, 0, 0]"

definition parse_pixel_format :: "bytes \<Rightarrow> vnc_error + pixel_format" where
  "parse_pixel_format b =
     (let pf = \<lparr>pf_bits_per_pixel = b ! 0, pf_depth = b ! 1, pf_big_endian = b ! 2 \<noteq> 0, pf_true_colour = b ! 3 \<noteq> 0,
            pf_red_max = from_be_bytes [b ! 4, b ! 5], pf_green_max = from_be_bytes [b ! 6, b ! 7],
            pf_blue_max = from_be_bytes [b ! 8, b ! 9],
            pf_red_shift = b ! 10, pf_green_shift = b ! 11, pf_blue_shift = b ! 12\<rparr>
      in if pf_bits_per_pixel pf \<notin> {8, 16, 32} then Inl (VncProtocol ''invalid bits-per-pixel in pixel format'')
         else if pf_depth pf = 0 \<or> pf_bits_per_pixel pf < pf_depth pf then Inl (VncProtocol ''invalid depth for bpp'')
         else Inr pf)"

subsection \<open>What the client writes\<close>

definition set_pixel_format_msg :: "pixel_format \<Rightarrow> bytes" where
  "set_pixel_format_msg pf = [SET_PIXEL_FORMAT, 0, 0, 0] @ encode_pixel_format pf"

definition set_encodings :: "u32 list \<Rightarrow> bytes" where
  "set_encodings encodings =
     (let n = min (length encodings) 65535
      in [SET_ENCODINGS, 0] @ to_be_bytes (of_nat n :: u16) @ concat (map to_be_bytes (take n encodings)))"

definition rect_bytes :: "rect \<Rightarrow> bytes" where
  "rect_bytes r = to_be_bytes (rt_x r) @ to_be_bytes (rt_y r) @ to_be_bytes (rt_width r) @ to_be_bytes (rt_height r)"

definition framebuffer_update_request :: "bool \<Rightarrow> rect \<Rightarrow> bytes" where
  "framebuffer_update_request incremental r = [FRAMEBUFFER_UPDATE_REQUEST, flag_byte incremental] @ rect_bytes r"

definition key_event_msg :: "u32 \<Rightarrow> bool \<Rightarrow> bytes" where
  "key_event_msg keysym down = [KEY_EVENT, flag_byte down, 0, 0] @ to_be_bytes keysym"

definition pointer_event :: "u16 \<Rightarrow> u16 \<Rightarrow> u8 \<Rightarrow> bytes" where
  "pointer_event x y button_mask = [POINTER_EVENT, button_mask] @ to_be_bytes x @ to_be_bytes y"

definition client_cut_text :: "bytes \<Rightarrow> bytes" where
  "client_cut_text data =
     (let n = min (length data) MAX_CUT_TEXT
      in [CLIENT_CUT_TEXT, 0, 0, 0] @ to_be_bytes (of_nat n :: u32) @ take n data)"

definition extended_clipboard_request :: "u32 \<Rightarrow> bytes" where
  "extended_clipboard_request formats =
     [CLIENT_CUT_TEXT, 0, 0, 0] @ to_be_bytes (- 4 :: u32) @ to_be_bytes (ACTION_REQUEST OR (formats AND FORMAT_MASK))"

definition enable_continuous_updates :: "bool \<Rightarrow> rect \<Rightarrow> bytes" where
  "enable_continuous_updates enable r = [ENABLE_CONTINUOUS_UPDATES, flag_byte enable] @ rect_bytes r"

definition client_fence :: "u32 \<Rightarrow> bytes \<Rightarrow> bytes" where
  "client_fence flags payload =
     (let n = min (length payload) FENCE_MAX_PAYLOAD
      in [CLIENT_FENCE, 0, 0, 0] @ to_be_bytes flags @ [of_nat n] @ take n payload)"

definition set_desktop_size :: "u16 \<Rightarrow> u16 \<Rightarrow> desktop_screen list \<Rightarrow> bytes" where
  "set_desktop_size width height screens =
     (let n = min (length screens) 255
      in [SET_DESKTOP_SIZE, 0] @ to_be_bytes width @ to_be_bytes height @ [of_nat n, 0] @ concat (map encode_screen (take n screens)))"

definition qemu_extended_key_event :: "u32 \<Rightarrow> u32 \<Rightarrow> bool \<Rightarrow> bytes" where
  "qemu_extended_key_event keysym keycode down =
     [QEMU, QEMU_SUB_EXTENDED_KEY_EVENT] @ to_be_bytes (if down then 1 else 0 :: u16) @ to_be_bytes keysym @ to_be_bytes keycode"

subsection \<open>What the client reads\<close>

text \<open>An end of the stream is the server's close.\<close>

definition map_eof :: "'a decoder \<Rightarrow> 'a decoder" where
  "map_eof m bs = (case m bs of Failed e \<Rightarrow> Failed (if e = VncIo ''UnexpectedEof'' then VncConnectionClosed else e) | r \<Rightarrow> r)"

definition msg_n :: "nat \<Rightarrow> bytes decoder" where "msg_n n = map_eof (read_n n)"
definition msg_u8 :: "u8 decoder" where "msg_u8 = map_eof read_u8"
definition msg_u16 :: "u16 decoder" where "msg_u16 = map_eof read_u16"
definition msg_u32 :: "u32 decoder" where "msg_u32 = map_eof read_u32"

text \<open>\<open>for _ in 0..n\<close>, collecting.\<close>

fun read_times :: "nat \<Rightarrow> 'a decoder \<Rightarrow> 'a list decoder" where
  "read_times 0 m = dret []"
| "read_times (Suc n) m = dbind m (\<lambda>a. dbind (read_times n m) (\<lambda>as. dret (a # as)))"

definition read_framebuffer_update_header :: "u16 decoder" where
  "read_framebuffer_update_header = dbind msg_u8 (\<lambda>_. msg_u16)"

definition read_rect_header :: "(rect \<times> u32) decoder" where
  "read_rect_header =
     dbind msg_u16 (\<lambda>x. dbind msg_u16 (\<lambda>y. dbind msg_u16 (\<lambda>width. dbind msg_u16 (\<lambda>height.
     dbind msg_u32 (\<lambda>encoding. dret (rect_new x y width height, encoding))))))"

definition read_colour :: "(u16 \<times> u16 \<times> u16) decoder" where
  "read_colour = dbind msg_u16 (\<lambda>r. dbind msg_u16 (\<lambda>g. dbind msg_u16 (\<lambda>b. dret (r, g, b))))"

definition read_set_colour_map_entries :: "(u16 \<times> (u16 \<times> u16 \<times> u16) list) decoder" where
  "read_set_colour_map_entries =
     dbind msg_u8 (\<lambda>_. dbind msg_u16 (\<lambda>first. dbind msg_u16 (\<lambda>n.
     dbind (read_times (unat n) read_colour) (\<lambda>entries. dret (first, entries)))))"

datatype cut_text_payload = Legacy bytes | Extended bytes

definition is_negative :: "u32 \<Rightarrow> bool" where
  "is_negative v \<longleftrightarrow> 0x80000000 \<le> v"

definition unsigned_abs :: "u32 \<Rightarrow> nat" where
  "unsigned_abs v = (if is_negative v then 4294967296 - unat v else unat v)"

definition read_server_cut_text :: "cut_text_payload decoder" where
  "read_server_cut_text =
     dbind (msg_n 3) (\<lambda>_. dbind msg_u32 (\<lambda>len.
     if MAX_CUT_TEXT < unsigned_abs len then dfail (VncProtocol ''server cut text length exceeds limit'')
     else dbind (msg_n (unsigned_abs len)) (\<lambda>data.
       if is_negative len
       then if length data < 4 then dfail (VncProtocol ''extended clipboard message shorter than flags word'')
            else dret (Extended data)
       else dret (Legacy data))))"

definition read_server_fence :: "(u32 \<times> bytes) decoder" where
  "read_server_fence =
     dbind (msg_n 3) (\<lambda>_. dbind msg_u32 (\<lambda>flags. dbind msg_u8 (\<lambda>len.
     if FENCE_MAX_PAYLOAD < unat len then dfail (VncProtocol ''fence payload length exceeds 64'')
     else dbind (msg_n (unat len)) (\<lambda>payload. dret (flags, payload)))))"

subsection \<open>Version and ServerInit\<close>

datatype protocol_version = V3_3 | V3_7 | V3_8

record negotiated_version =
  nv_version :: protocol_version
  nv_is_apple_screen_sharing :: bool
  nv_server_major :: u16
  nv_server_minor :: u16

fun version_banner :: "protocol_version \<Rightarrow> bytes" where
  "version_banner V3_3 = ascii_bytes (chars_of ''RFB 003.003'') @ [10]"
| "version_banner V3_7 = ascii_bytes (chars_of ''RFB 003.007'') @ [10]"
| "version_banner V3_8 = ascii_bytes (chars_of ''RFB 003.008'') @ [10]"

definition client_reply :: "negotiated_version \<Rightarrow> bytes" where
  "client_reply v = version_banner (nv_version v)"

fun parse_digits :: "nat \<Rightarrow> bytes \<Rightarrow> nat option" where
  "parse_digits v [] = Some v"
| "parse_digits v (b # bs) =
     (if b < 0x30 \<or> 0x39 < b then None
      else if 65535 < v * 10 then None
      else if 65535 < v * 10 + unat (b - 0x30) then None
      else parse_digits (v * 10 + unat (b - 0x30)) bs)"

definition parse_u16_field :: "bytes \<Rightarrow> u16 option" where
  "parse_u16_field digits = map_option of_nat (parse_digits 0 digits)"

text \<open>The text of the error, the banner itself, is not kept.\<close>

definition bad_banner :: vnc_error where
  "bad_banner = UnsupportedVersion ''''"

definition parse_server_banner :: "bytes \<Rightarrow> vnc_error + negotiated_version" where
  "parse_server_banner banner =
     (if take 4 banner \<noteq> ascii_bytes (chars_of ''RFB '') \<or> banner ! 7 \<noteq> 0x2E \<or> banner ! 11 \<noteq> 10 then Inl (bad_banner)
      else
        case (parse_u16_field (take 3 (drop 4 banner)), parse_u16_field (take 3 (drop 8 banner))) of
          (Some major, Some minor) \<Rightarrow>
            let chosen =
              (if major = 3 \<and> minor = 889 then Some (V3_8, True)
               else if major = 3 \<and> 8 \<le> minor then Some (V3_8, False)
               else if major = 3 \<and> minor = 7 then Some (V3_7, False)
               else if major = 3 \<and> 3 \<le> minor then Some (V3_3, False)
               else if 3 < major then Some (V3_8, False)
               else None)
            in (case chosen of
                  None \<Rightarrow> Inl (bad_banner)
                | Some (version, apple) \<Rightarrow>
                    Inr \<lparr>nv_version = version, nv_is_apple_screen_sharing = apple, nv_server_major = major, nv_server_minor = minor\<rparr>)
        | _ \<Rightarrow> Inl (bad_banner))"

record server_init =
  si_width :: u16
  si_height :: u16
  si_pixel_format :: pixel_format
  si_name :: chars

definition MAX_NAME_LEN :: nat where "MAX_NAME_LEN = 64 * 1024"
definition MAX_FRAMEBUFFER_PIXELS :: nat where "MAX_FRAMEBUFFER_PIXELS = 64 * 1024 * 1024"
definition MAX_TIGHT_CAPS :: nat where "MAX_TIGHT_CAPS = 1024"

definition check_framebuffer_size :: "u16 \<Rightarrow> u16 \<Rightarrow> vnc_error option" where
  "check_framebuffer_size width height =
     (if MAX_FRAMEBUFFER_PIXELS < unat width * unat height
      then Some (VncProtocol ''server reported a framebuffer too large to display'') else None)"

definition read_server_init :: "server_init decoder" where
  "read_server_init =
     dbind msg_u16 (\<lambda>width. dbind msg_u16 (\<lambda>height. dbind (msg_n 16) (\<lambda>pf_bytes.
     case parse_pixel_format pf_bytes of
       Inl e \<Rightarrow> dfail e
     | Inr pf \<Rightarrow>
         dbind msg_u32 (\<lambda>name_len.
         if MAX_NAME_LEN < unat name_len then dfail (VncProtocol ''desktop name length exceeds limit'')
         else dbind (msg_n (unat name_len)) (\<lambda>name_bytes.
           if width = 0 \<or> height = 0 then dfail (VncProtocol ''server reported empty framebuffer'')
           else (case check_framebuffer_size width height of
                   Some e \<Rightarrow> dfail e
                 | None \<Rightarrow> dret \<lparr>si_width = width, si_height = height, si_pixel_format = pf, si_name = from_utf8_lossy name_bytes\<rparr>))))))"

record tight_capability =
  tc_code :: u32
  tc_vendor :: bytes
  tc_signature :: bytes

definition read_tight_capability :: "tight_capability decoder" where
  "read_tight_capability =
     dbind (msg_n 16) (\<lambda>buf. dret \<lparr>tc_code = from_be_bytes (take 4 buf), tc_vendor = take 4 (drop 4 buf), tc_signature = drop 8 buf\<rparr>)"

definition read_tight_server_capabilities ::
  "(tight_capability list \<times> tight_capability list \<times> tight_capability list) decoder" where
  "read_tight_server_capabilities =
     dbind msg_u16 (\<lambda>n_server. dbind msg_u16 (\<lambda>n_client. dbind msg_u16 (\<lambda>n_encodings. dbind msg_u16 (\<lambda>_.
     if MAX_TIGHT_CAPS < unat n_server + unat n_client + unat n_encodings
     then dfail (VncProtocol ''server advertised too many Tight capabilities'')
     else
       dbind (read_times (unat n_server) read_tight_capability) (\<lambda>server_messages.
       dbind (read_times (unat n_client) read_tight_capability) (\<lambda>client_messages.
       dbind (read_times (unat n_encodings) read_tight_capability) (\<lambda>encodings.
       dret (server_messages, client_messages, encodings))))))))"

subsection \<open>Reading is safe\<close>

lemma safely_map_eof: "safely Q m \<Longrightarrow> safely Q (map_eof m)"
  by (simp add: safely_def map_eof_def split: outcome.splits)

lemma safely_msg [safe_intros]:
  "safely (\<lambda>b. length b = n) (msg_n n)" "safely (\<lambda>_. True) msg_u8" "safely (\<lambda>_. True) msg_u16" "safely (\<lambda>_. True) msg_u32"
  unfolding msg_n_def msg_u8_def msg_u16_def msg_u32_def
  by (rule safely_map_eof, rule safe_intros)+

lemma safely_read_times: "safely Q m \<Longrightarrow> safely (\<lambda>as. length as = n \<and> list_all Q as) (read_times n m)"
proof (induction n)
  case (Suc n)
  then show ?case by (auto intro!: safely_bind [OF Suc.prems] safely_bind [OF Suc.IH [OF Suc.prems]] safely_ret)
qed (simp add: safely_ret)

lemma safely_rect_header [safe_intros]: "safely (\<lambda>_. True) read_rect_header"
  unfolding read_rect_header_def by (intro safely_bind [OF safely_msg(3)] safely_bind [OF safely_msg(4)] safely_ret) simp

lemma safely_update_header [safe_intros]: "safely (\<lambda>_. True) read_framebuffer_update_header"
  unfolding read_framebuffer_update_header_def by (intro safely_bind [OF safely_msg(2)] safe_intros)

lemma safely_colour_map [safe_intros]: "safely (\<lambda>_. True) read_set_colour_map_entries"
proof -
  have "safely (\<lambda>_. True) read_colour"
    unfolding read_colour_def by (intro safely_bind [OF safely_msg(3)] safely_ret) simp
  then show ?thesis
    unfolding read_set_colour_map_entries_def
    by (intro safely_bind [OF safely_msg(2)] safely_bind [OF safely_msg(3)] safely_bind [OF safely_read_times] safely_ret) simp_all
qed

lemma safely_cut_text [safe_intros]:
  "safely (\<lambda>p. case p of Legacy d \<Rightarrow> length d \<le> MAX_CUT_TEXT | Extended d \<Rightarrow> 4 \<le> length d \<and> length d \<le> MAX_CUT_TEXT) read_server_cut_text"
  unfolding read_server_cut_text_def
  by (intro safely_bind [OF safely_msg(1)] safely_bind [OF safely_msg(4)] safely_if safely_fail safely_ret) simp_all

lemma safely_server_fence [safe_intros]: "safely (\<lambda>(_, p). length p \<le> FENCE_MAX_PAYLOAD) read_server_fence"
  unfolding read_server_fence_def
  by (intro safely_bind [OF safely_msg(1)] safely_bind [OF safely_msg(4)] safely_bind [OF safely_msg(2)] safely_if safely_fail safely_ret) simp_all

lemma parse_pixel_format_ok:
  "parse_pixel_format b = Inr pf \<Longrightarrow> pf_bits_per_pixel pf \<in> {8, 16, 32} \<and> 0 < pf_depth pf \<and> pf_depth pf \<le> pf_bits_per_pixel pf"
  by (auto simp: parse_pixel_format_def Let_def word_neq_0_conv split: if_splits)

text \<open>A session starts with a framebuffer that has pixels, and at most 64 million of them.\<close>

lemma safely_server_init [safe_intros]:
  "safely (\<lambda>si. 0 < si_width si \<and> 0 < si_height si \<and> unat (si_width si) * unat (si_height si) \<le> MAX_FRAMEBUFFER_PIXELS \<and>
     pf_bits_per_pixel (si_pixel_format si) \<in> {8, 16, 32}) read_server_init"
  unfolding read_server_init_def
  by (intro safely_bind [OF safely_msg(3)] safely_bind [OF safely_msg(1)])
    (auto split: sum.split option.split simp: check_framebuffer_size_def word_neq_0_conv dest!: parse_pixel_format_ok
      intro!: safely_fail safely_ret safely_bind [OF safely_msg(4)] safely_bind [OF safely_msg(1)])

lemma safely_tight_capabilities [safe_intros]:
  "safely (\<lambda>(s, c, e). length s + length c + length e \<le> MAX_TIGHT_CAPS) read_tight_server_capabilities"
proof -
  have one: "safely (\<lambda>_. True) read_tight_capability"
    unfolding read_tight_capability_def by (intro safely_bind [OF safely_msg(1)] safely_ret) simp
  show ?thesis
    unfolding read_tight_server_capabilities_def
    by (intro safely_bind [OF safely_msg(3)] safely_if safely_fail safely_bind [OF safely_read_times [OF one]] safely_ret) simp
qed

subsection \<open>Reading back what was written\<close>

lemma msg_append [simp]:
  "msg_u16 (to_be_bytes (v :: u16) @ rest) = Decoded v rest"
  "msg_u32 (to_be_bytes (w :: u32) @ rest) = Decoded w rest"
  "msg_u8 (b # rest) = Decoded b rest"
proof -
  have same: "from_be_bytes (to_be_bytes v) = v" "from_be_bytes (to_be_bytes w) = w" by (rule from_to_be_bytes, simp)+
  then show "msg_u16 (to_be_bytes v @ rest) = Decoded v rest" "msg_u32 (to_be_bytes w @ rest) = Decoded w rest"
    by (simp_all add: msg_u16_def msg_u32_def map_eof_def read_u16_def read_u32_def dbind_def dret_def read_n_def)
  show "msg_u8 (b # rest) = Decoded b rest"
    by (simp add: msg_u8_def map_eof_def read_u8_def dbind_def dret_def read_n_def from_be_bytes_def from_le_bytes_def)
qed

lemma msg_n_append: "length b = n \<Longrightarrow> msg_n n (b @ rest) = Decoded b rest"
  by (simp add: msg_n_def map_eof_def read_n_append)

lemma pixel_format_back:
  assumes "pf_bits_per_pixel pf \<in> {8, 16, 32}" and "0 < pf_depth pf" and "pf_depth pf \<le> pf_bits_per_pixel pf"
  shows "parse_pixel_format (encode_pixel_format pf) = Inr pf"
proof -
  have two: "\<exists>a b. to_be_bytes v = [a, b]" for v :: u16
  proof -
    have "length (to_be_bytes v) = Suc (Suc 0)" by simp
    then show ?thesis unfolding length_Suc_conv by auto
  qed
  obtain r0 r1 g0 g1 b0 b1 where rgb: "to_be_bytes (pf_red_max pf) = [r0, r1]" "to_be_bytes (pf_green_max pf) = [g0, g1]"
    "to_be_bytes (pf_blue_max pf) = [b0, b1]" using two by metis
  have same: "from_be_bytes (to_be_bytes v) = v" for v :: u16 by (rule from_to_be_bytes) simp
  have "from_be_bytes [r0, r1] = pf_red_max pf" "from_be_bytes [g0, g1] = pf_green_max pf" "from_be_bytes [b0, b1] = pf_blue_max pf"
    using same [of "pf_red_max pf"] same [of "pf_green_max pf"] same [of "pf_blue_max pf"] unfolding rgb .
  then show ?thesis
    using assms by (simp add: parse_pixel_format_def encode_pixel_format_def rgb flag_byte_def Let_def) (cases pf, auto)
qed

lemma three_zeros: "msg_n 3 ([0, 0, 0] @ bs) = Decoded [0, 0, 0] bs"
  by (rule msg_n_append) simp

lemma fence_back:
  "read_server_fence (drop 1 (client_fence flags payload) @ rest) = Decoded (flags, take FENCE_MAX_PAYLOAD payload) rest"
proof -
  define n where "n = min (length payload) FENCE_MAX_PAYLOAD"
  have n: "unat (of_nat n :: u8) = n" "(FENCE_MAX_PAYLOAD < n) = False" by (simp_all add: n_def FENCE_MAX_PAYLOAD_def unat_of_nat)
  have taken: "msg_n n (take n payload @ rest) = Decoded (take n payload) rest" by (rule msg_n_append) (simp add: n_def)
  have wire: "drop 1 (client_fence flags payload) @ rest = [0, 0, 0] @ (to_be_bytes flags @ (of_nat n # (take n payload @ rest)))"
    by (simp add: client_fence_def Let_def n_def)
  have same: "take n payload = take FENCE_MAX_PAYLOAD payload" by (auto simp: n_def min_def)
  show ?thesis
    by (simp only: read_server_fence_def wire dbind_def obind.simps three_zeros msg_append n if_False taken dret_def) (simp only: same)
qed

lemma cut_text_back:
  "read_server_cut_text (drop 1 (client_cut_text data) @ rest) = Decoded (Legacy (take MAX_CUT_TEXT data)) rest"
proof -
  define n where "n = min (length data) MAX_CUT_TEXT"
  have n: "unsigned_abs (of_nat n) = n" "(MAX_CUT_TEXT < n) = False" "is_negative (of_nat n) = False"
    by (simp_all add: n_def MAX_CUT_TEXT_def unat_of_nat is_negative_def unsigned_abs_def word_le_nat_alt)
  have taken: "msg_n n (take n data @ rest) = Decoded (take n data) rest" by (rule msg_n_append) (simp add: n_def)
  have wire: "drop 1 (client_cut_text data) @ rest = [0, 0, 0] @ (to_be_bytes (of_nat n :: u32) @ (take n data @ rest))"
    by (simp add: client_cut_text_def Let_def n_def)
  have same: "take n data = take MAX_CUT_TEXT data" by (auto simp: n_def min_def)
  show ?thesis
    by (simp only: read_server_cut_text_def wire dbind_def obind.simps three_zeros msg_append n if_False taken dret_def) (simp only: same)
qed

end
