(* ===== verification/Framebuffer.thy ===== *)
theory Framebuffer
  imports Vnc_Decoder
begin

text \<open>
  The client's picture (\<open>crates/vnc-core/src/pixel/framebuffer.rs\<close>) and the JPEG helper of
  \<open>encodings/tight.rs\<close>: rectangles are clipped and applied to a list of RGBA pixels, row after row. The JPEG
  library is an argument. Nothing answered stands for a panic.
\<close>

record framebuffer =
  fb_width :: u16
  fb_height :: u16
  fb_data :: "rgba list"

definition opaque_black :: "nat \<Rightarrow> rgba list" where
  "opaque_black len_px = replicate len_px (0, 0, 0, 255)"

definition framebuffer_new :: "u16 \<Rightarrow> u16 \<Rightarrow> framebuffer" where
  "framebuffer_new width height =
     \<lparr>fb_width = width, fb_height = height, fb_data = opaque_black (unat width * unat height)\<rparr>"

definition framebuffer_resize :: "u16 \<Rightarrow> u16 \<Rightarrow> framebuffer \<Rightarrow> framebuffer option" where
  "framebuffer_resize width height fb =
     (if width = fb_width fb \<and> height = fb_height fb then Some fb
      else
        let w0 = unat (fb_width fb); copy_w = min w0 (unat width); copy_h = min (unat (fb_height fb)) (unat height) in
        Option.bind
          (ofold (\<lambda>y out. Option.bind (load (y * w0) copy_w (fb_data fb)) (\<lambda>part. store (y * unat width) part out)) [0..<copy_h]
             (opaque_black (unat width * unat height)))
          (\<lambda>new_data. Some \<lparr>fb_width = width, fb_height = height, fb_data = new_data\<rparr>))"

text \<open>Rows of the payload that are short end the loop: the rows after them would be short too.\<close>

fun blit_rows :: "nat \<Rightarrow> nat \<Rightarrow> nat \<Rightarrow> nat \<Rightarrow> nat \<Rightarrow> rgba list \<Rightarrow> nat list \<Rightarrow> rgba list \<Rightarrow> rgba list option" where
  "blit_rows fb_w x y width copy_w pixels [] data = Some data"
| "blit_rows fb_w x y width copy_w pixels (row # rows) data =
     (let src = row * width in
      if length pixels < src + copy_w then Some data
      else
        Option.bind (load src copy_w pixels) (\<lambda>part.
        Option.bind (store ((y + row) * fb_w + x) part data) (blit_rows fb_w x y width copy_w pixels rows)))"

definition blit_rgba :: "u16 \<Rightarrow> u16 \<Rightarrow> u16 \<Rightarrow> u16 \<Rightarrow> rgba list \<Rightarrow> framebuffer \<Rightarrow> framebuffer option" where
  "blit_rgba x0 y0 width height pixels fb =
     (let fb_w = unat (fb_width fb); fb_h = unat (fb_height fb); x = unat x0; y = unat y0 in
      if fb_w \<le> x \<or> fb_h \<le> y then Some fb
      else
        let copy_w = min (unat width) (fb_w - x); copy_h = min (unat height) (fb_h - y) in
        map_option (\<lambda>data. fb\<lparr>fb_data := data\<rparr>) (blit_rows fb_w x y (unat width) copy_w pixels [0..<copy_h] (fb_data fb)))"

definition copy_rect :: "u16 \<Rightarrow> u16 \<Rightarrow> u16 \<Rightarrow> u16 \<Rightarrow> u16 \<Rightarrow> u16 \<Rightarrow> framebuffer \<Rightarrow> framebuffer option" where
  "copy_rect src_x src_y dst_x dst_y width height fb =
     (let fb_w = unat (fb_width fb); fb_h = unat (fb_height fb);
          sx = unat src_x; sy = unat src_y; dx = unat dst_x; dy = unat dst_y in
      if fb_w \<le> sx \<or> fb_h \<le> sy \<or> fb_w \<le> dx \<or> fb_h \<le> dy then Some fb
      else
        let w = min (min (unat width) (fb_w - sx)) (fb_w - dx); h = min (min (unat height) (fb_h - sy)) (fb_h - dy) in
        if w = 0 \<or> h = 0 then Some fb
        else
          let copy_row = (\<lambda>row. copy_within ((sy + row) * fb_w + sx) w ((dy + row) * fb_w + dx)) in
          map_option (\<lambda>data. fb\<lparr>fb_data := data\<rparr>)
            (ofold copy_row (if sy < dy then rev [0..<h] else [0..<h]) (fb_data fb)))"

subsection \<open>JPEG\<close>

text \<open>
  The library's answer for a picture that must fit a width and a height: an error, or the bytes it
  decoded and the size in the header, when there is one.
\<close>

type_synonym jpeg_library = "bytes \<Rightarrow> nat \<Rightarrow> nat \<Rightarrow> string + bytes \<times> (nat \<times> nat) option"

definition quad :: "bytes \<Rightarrow> rgba" where
  "quad s = (s ! 0, s ! 1, s ! 2, s ! 3)"

definition decode_jpeg_to_rgba_within ::
  "jpeg_library \<Rightarrow> bytes \<Rightarrow> nat \<Rightarrow> nat \<Rightarrow> vnc_error + nat \<times> nat \<times> rgba list" where
  "decode_jpeg_to_rgba_within J data max_width max_height =
     (case J data max_width max_height of
        Inl _ \<Rightarrow> Inl (VncDecode ''tight-jpeg'' ''jpeg decode failed'')
      | Inr (_, None) \<Rightarrow> Inl (VncDecode ''tight-jpeg'' ''jpeg missing image info'')
      | Inr (pixels, Some (w, h)) \<Rightarrow>
          let n = w * h in
          if n = 0 then Inr (0, 0, [])
          else
            let comps = length pixels div n in
            if comps = 4 then Inr (w, h, map quad (chunks_exact 4 pixels))
            else if comps = 3 then Inr (w, h, map (\<lambda>i. opaque (triple (take 3 (drop (i * 3) pixels)))) [0..<n])
            else if comps = 1 then Inr (w, h, map (\<lambda>i. opaque (pixels ! i, pixels ! i, pixels ! i)) [0..<n])
            else Inl (VncDecode ''tight-jpeg'' ''unexpected component count''))"

definition decode_jpeg_to_rgba :: "jpeg_library \<Rightarrow> bytes \<Rightarrow> vnc_error + nat \<times> nat \<times> rgba list" where
  "decode_jpeg_to_rgba J data = decode_jpeg_to_rgba_within J data 65535 65535"

subsection \<open>Applying a rectangle\<close>

definition saturating_add16 :: "u16 \<Rightarrow> u16 \<Rightarrow> u16" where
  "saturating_add16 a b = (if 65535 < unat a + unat b then 65535 else a + b)"

definition apply_jpeg :: "jpeg_library \<Rightarrow> rect \<Rightarrow> bytes \<Rightarrow> framebuffer \<Rightarrow> framebuffer option" where
  "apply_jpeg J r data fb =
     (case decode_jpeg_to_rgba_within J data (unat (rt_width r)) (unat (rt_height r)) of
        Inl _ \<Rightarrow> Some fb
      | Inr (jw, jh, pixels) \<Rightarrow>
          let w = min (unat (rt_width r)) jw; h = min (unat (rt_height r)) jh in
          if jw = w \<and> w = unat (rt_width r) then blit_rgba (rt_x r) (rt_y r) (of_nat w) (of_nat h) pixels fb
          else
            ofold (\<lambda>y fb. Option.bind (load (y * jw) w pixels)
                (\<lambda>row. blit_rgba (rt_x r) (saturating_add16 (rt_y r) (of_nat y)) (of_nat w) 1 row fb)) [0..<h] fb)"

fun framebuffer_apply :: "jpeg_library \<Rightarrow> decoded_rect \<Rightarrow> framebuffer \<Rightarrow> framebuffer option" where
  "framebuffer_apply J d fb =
     (let r = dr_rect d in
      case dr_payload d of
        Rgba pixels \<Rightarrow> blit_rgba (rt_x r) (rt_y r) (rt_width r) (rt_height r) pixels fb
      | Jpeg data \<Rightarrow> apply_jpeg J r data fb
      | CopyRect src_x src_y \<Rightarrow> copy_rect src_x src_y (rt_x r) (rt_y r) (rt_width r) (rt_height r) fb
      | H264 _ _ _ _ _ \<Rightarrow> Some fb)"

subsection \<open>The picture, pixel by pixel\<close>

definition fb_wf :: "framebuffer \<Rightarrow> bool" where
  "fb_wf fb \<longleftrightarrow> length (fb_data fb) = unat (fb_width fb) * unat (fb_height fb)"

definition fb_at :: "framebuffer \<Rightarrow> nat \<Rightarrow> nat \<Rightarrow> rgba" where
  "fb_at fb = at (unat (fb_width fb)) (fb_data fb)"

definition in_picture :: "framebuffer \<Rightarrow> nat \<Rightarrow> nat \<Rightarrow> bool" where
  "in_picture fb px py \<longleftrightarrow> px < unat (fb_width fb) \<and> py < unat (fb_height fb)"

text \<open>
  The new framebuffer has the old size, and shows \<open>new\<close> where \<open>inside\<close> holds and the old pixel elsewhere.
\<close>

definition repainted :: "framebuffer \<Rightarrow> (nat \<Rightarrow> nat \<Rightarrow> bool) \<Rightarrow> (nat \<Rightarrow> nat \<Rightarrow> rgba) \<Rightarrow> framebuffer \<Rightarrow> bool" where
  "repainted fb inside new fb' \<longleftrightarrow> fb_wf fb' \<and> fb_width fb' = fb_width fb \<and> fb_height fb' = fb_height fb \<and>
     (\<forall>px py. in_picture fb px py \<longrightarrow> fb_at fb' px py = (if inside px py then new px py else fb_at fb px py))"

lemma repainted_same: "fb_wf fb \<Longrightarrow> (\<And>px py. in_picture fb px py \<Longrightarrow> \<not> inside px py) \<Longrightarrow> repainted fb inside new fb"
  by (auto simp: repainted_def)

lemma repainted_cong:
  "repainted fb inside new fb' \<Longrightarrow> (\<And>px py. in_picture fb px py \<Longrightarrow> inside px py = inside' px py) \<Longrightarrow>
   (\<And>px py. in_picture fb px py \<Longrightarrow> inside px py \<Longrightarrow> new px py = new' px py) \<Longrightarrow> repainted fb inside' new' fb'"
  by (simp add: repainted_def)

lemma repainted_data:
  assumes "length data = unat (fb_width fb) * unat (fb_height fb)"
    and "\<And>px py. in_picture fb px py \<Longrightarrow> at (unat (fb_width fb)) data px py = (if inside px py then new px py else fb_at fb px py)"
  shows "repainted fb inside new (fb\<lparr>fb_data := data\<rparr>)"
  using assms by (simp add: repainted_def fb_wf_def fb_at_def)

subsection \<open>Copies within the picture\<close>

text \<open>The rows may be visited in any order in which no row is read after it was written.\<close>

lemma copy_rows:
  assumes "length out = stride * height" and "sx + w \<le> stride" and "dx + w \<le> stride"
    and "\<And>r. r \<in> set rows \<Longrightarrow> sy + r < height \<and> dy + r < height"
    and "sorted_wrt (\<lambda>earlier later. dy + earlier \<noteq> sy + later \<and> earlier \<noteq> later) rows"
  shows "\<exists>out'. ofold (\<lambda>row. copy_within ((sy + row) * stride + sx) w ((dy + row) * stride + dx)) rows out = Some out' \<and>
    length out' = stride * height \<and>
    (\<forall>px < stride. \<forall>py < height. at stride out' px py =
      (if dy \<le> py \<and> py - dy \<in> set rows \<and> dx \<le> px \<and> px < dx + w then at stride out (sx + (px - dx)) (sy + (py - dy)) else at stride out px py))"
  using assms
proof (induction rows arbitrary: out)
  case (Cons r rows)
  let ?copy = "\<lambda>row. copy_within ((sy + row) * stride + sx) w ((dy + row) * stride + dx)"
  have r: "sy + r < height" "dy + r < height" using Cons.prems(4) by auto
  have "(sy + r) * stride + sx + w \<le> length out" using row_fits [OF Cons.prems(2) r(1)] Cons.prems(1) by simp
  then obtain part where part: "load ((sy + r) * stride + sx) w out = Some part" by (simp add: load_def)
  note len = length_load [OF part]
  have part_at: "part ! k = at stride out (sx + k) (sy + r)" if "k < w" for k
    using nth_load [OF part that] by (simp add: at_def add.assoc)
  obtain out1 where out1: "store ((dy + r) * stride + dx) part out = Some out1" "length out1 = stride * height"
      "\<And>px py. px < stride \<Longrightarrow> py < height \<Longrightarrow>
        at stride out1 px py = (if py = dy + r \<and> dx \<le> px \<and> px < dx + length part then part ! (px - dx) else at stride out px py)"
    using store_row [OF Cons.prems(1), of dx part "dy + r"] Cons.prems(3) r(2) len by metis
  have step: "?copy r out = Some out1" using part out1(1) by (simp add: copy_within_def)
  obtain out2 where out2: "ofold ?copy rows out1 = Some out2" "length out2 = stride * height"
      "\<forall>px < stride. \<forall>py < height. at stride out2 px py =
        (if dy \<le> py \<and> py - dy \<in> set rows \<and> dx \<le> px \<and> px < dx + w then at stride out1 (sx + (px - dx)) (sy + (py - dy)) else at stride out1 px py)"
    using Cons.IH [OF out1(2) Cons.prems(2,3)] Cons.prems(4,5) by auto
  have "at stride out2 px py =
      (if dy \<le> py \<and> py - dy \<in> set (r # rows) \<and> dx \<le> px \<and> px < dx + w then at stride out (sx + (px - dx)) (sy + (py - dy)) else at stride out px py)"
    if px: "px < stride" and py: "py < height" for px py
  proof (cases "dy \<le> py \<and> py - dy \<in> set rows \<and> dx \<le> px \<and> px < dx + w")
    case True
    have "sy + (py - dy) < height" using True Cons.prems(4) [of "py - dy"] by simp
    moreover have "dy + r \<noteq> sy + (py - dy)" using True Cons.prems(5) by auto
    ultimately have later: "sy + (py - dy) \<noteq> dy + r" "sy + (py - dy) < height" "sx + (px - dx) < stride"
      using True Cons.prems(2) by auto
    then show ?thesis using True out2(3) px py out1(3) [OF later(3,2)] by simp
  next
    case False
    then have "at stride out2 px py = at stride out1 px py" using out2(3) px py by auto
    also have "\<dots> = (if py = dy + r \<and> dx \<le> px \<and> px < dx + w then part ! (px - dx) else at stride out px py)"
      using out1(3) [OF px py] len by simp
    finally show ?thesis using False part_at [of "px - dx"] by auto
  qed
  then show ?case using step out2(1,2) by auto
qed simp

lemma clipped_copy:
  fixes px py W H sx sy dx dy ww hh :: nat
  assumes "px < W" and "py < H"
  shows "(dy \<le> py \<and> py - dy < min (min hh (H - sy)) (H - dy) \<and> dx \<le> px \<and> px < dx + min (min ww (W - sx)) (W - dx)) \<longleftrightarrow>
    (dx \<le> px \<and> px < dx + ww \<and> dy \<le> py \<and> py < dy + hh \<and> sx + (px - dx) < W \<and> sy + (py - dy) < H)"
  using assms by (auto simp: less_diff_conv less_diff_conv2 min_less_iff_conj min_def)

text \<open>The copy shows what the source showed before it, overlaps included.\<close>

lemma copy_rect_exact:
  assumes "fb_wf fb"
  shows "\<exists>fb'. copy_rect src_x src_y dst_x dst_y width height fb = Some fb' \<and>
    repainted fb
      (\<lambda>px py. unat dst_x \<le> px \<and> px < unat dst_x + unat width \<and> unat dst_y \<le> py \<and> py < unat dst_y + unat height \<and>
        in_picture fb (unat src_x + (px - unat dst_x)) (unat src_y + (py - unat dst_y)))
      (\<lambda>px py. fb_at fb (unat src_x + (px - unat dst_x)) (unat src_y + (py - unat dst_y))) fb'"
proof -
  let ?W = "unat (fb_width fb)" and ?H = "unat (fb_height fb)"
  let ?sx = "unat src_x" and ?sy = "unat src_y" and ?dx = "unat dst_x" and ?dy = "unat dst_y"
  let ?w = "min (min (unat width) (?W - ?sx)) (?W - ?dx)" and ?h = "min (min (unat height) (?H - ?sy)) (?H - ?dy)"
  show ?thesis
  proof (cases "?W \<le> ?sx \<or> ?H \<le> ?sy \<or> ?W \<le> ?dx \<or> ?H \<le> ?dy \<or> ?w = 0 \<or> ?h = 0")
    case True
    then have "copy_rect src_x src_y dst_x dst_y width height fb = Some fb"
      unfolding copy_rect_def Let_def by (metis (no_types))
    moreover have "repainted fb
      (\<lambda>px py. ?dx \<le> px \<and> px < ?dx + unat width \<and> ?dy \<le> py \<and> py < ?dy + unat height \<and> in_picture fb (?sx + (px - ?dx)) (?sy + (py - ?dy))) new fb" for new
      by (rule repainted_same [OF assms]) (use True in \<open>auto simp: in_picture_def\<close>)
    ultimately show ?thesis by blast
  next
    case False
    let ?rows = "if ?sy < ?dy then rev [0..<?h] else [0..<?h]"
    have len: "length (fb_data fb) = ?W * ?H" using assms by (simp add: fb_wf_def)
    have up: "sorted_wrt (\<lambda>earlier later. ?dy + earlier \<noteq> ?sy + later \<and> earlier \<noteq> later) [0..<?h]" if "\<not> ?sy < ?dy"
      by (rule sorted_wrt_mono_rel [OF _ sorted_wrt_upt]) (use that in auto)
    have down: "sorted_wrt (\<lambda>earlier later. ?dy + earlier \<noteq> ?sy + later \<and> earlier \<noteq> later) (rev [0..<?h])" if "?sy < ?dy"
      unfolding sorted_wrt_rev by (rule sorted_wrt_mono_rel [OF _ sorted_wrt_upt]) (use that in auto)
    have order: "sorted_wrt (\<lambda>earlier later. ?dy + earlier \<noteq> ?sy + later \<and> earlier \<noteq> later) ?rows"
      using up down by simp
    have rows: "set ?rows = {..<?h}" by (auto simp: lessThan_atLeast0)
    have fits: "?sx + ?w \<le> ?W" "?dx + ?w \<le> ?W" using False by auto
    have inside: "r \<in> set ?rows \<Longrightarrow> ?sy + r < ?H \<and> ?dy + r < ?H" for r unfolding rows by auto
    obtain out where out: "ofold (\<lambda>row. copy_within ((?sy + row) * ?W + ?sx) ?w ((?dy + row) * ?W + ?dx)) ?rows (fb_data fb) = Some out"
        "length out = ?W * ?H"
        "\<forall>px < ?W. \<forall>py < ?H. at ?W out px py =
          (if ?dy \<le> py \<and> py - ?dy \<in> set ?rows \<and> ?dx \<le> px \<and> px < ?dx + ?w then at ?W (fb_data fb) (?sx + (px - ?dx)) (?sy + (py - ?dy)) else at ?W (fb_data fb) px py)"
      using copy_rows [OF len fits inside order] by blast
    have "copy_rect src_x src_y dst_x dst_y width height fb = Some (fb\<lparr>fb_data := out\<rparr>)"
    proof -
      have on: "\<not> (?W \<le> ?sx \<or> ?H \<le> ?sy \<or> ?W \<le> ?dx \<or> ?H \<le> ?dy)" and some: "\<not> (?w = 0 \<or> ?h = 0)" using False by blast+
      show ?thesis unfolding copy_rect_def Let_def if_not_P [OF on] if_not_P [OF some] out(1) by simp
    qed
    moreover have "repainted fb
      (\<lambda>px py. ?dx \<le> px \<and> px < ?dx + unat width \<and> ?dy \<le> py \<and> py < ?dy + unat height \<and> in_picture fb (?sx + (px - ?dx)) (?sy + (py - ?dy)))
      (\<lambda>px py. fb_at fb (?sx + (px - ?dx)) (?sy + (py - ?dy))) (fb\<lparr>fb_data := out\<rparr>)"
    proof (rule repainted_data [OF out(2)])
      fix px py assume on: "in_picture fb px py"
      have iff: "(?dy \<le> py \<and> py - ?dy \<in> set ?rows \<and> ?dx \<le> px \<and> px < ?dx + ?w) \<longleftrightarrow>
          (?dx \<le> px \<and> px < ?dx + unat width \<and> ?dy \<le> py \<and> py < ?dy + unat height \<and> in_picture fb (?sx + (px - ?dx)) (?sy + (py - ?dy)))"
        using on clipped_copy [of px ?W py ?H ?dy "unat height" ?sy ?dx "unat width" ?sx]
        unfolding rows in_picture_def by (simp add: lessThan_iff)
      have "at ?W out px py = (if ?dy \<le> py \<and> py - ?dy \<in> set ?rows \<and> ?dx \<le> px \<and> px < ?dx + ?w
          then at ?W (fb_data fb) (?sx + (px - ?dx)) (?sy + (py - ?dy)) else at ?W (fb_data fb) px py)"
        using out(3) on unfolding in_picture_def by blast
      then show "at ?W out px py =
        (if ?dx \<le> px \<and> px < ?dx + unat width \<and> ?dy \<le> py \<and> py < ?dy + unat height \<and> in_picture fb (?sx + (px - ?dx)) (?sy + (py - ?dy))
         then fb_at fb (?sx + (px - ?dx)) (?sy + (py - ?dy)) else fb_at fb px py)"
        unfolding fb_at_def iff .
    qed
    ultimately show ?thesis by blast
  qed
qed

subsection \<open>Payloads of pixels\<close>

lemma blit_rows_all:
  assumes "\<And>r. r \<in> set rows \<Longrightarrow> r * width + copy_w \<le> length pixels"
  shows "blit_rows fb_w x y width copy_w pixels rows data =
    ofold (\<lambda>r. store (r * fb_w + x) (take copy_w (drop ((r - y) * width) pixels))) (map ((+) y) rows) data"
  using assms
proof (induction rows arbitrary: data)
  case (Cons r rows)
  have "r * width + copy_w \<le> length pixels" using Cons.prems by simp
  moreover have "blit_rows fb_w x y width copy_w pixels rows =
      ofold (\<lambda>r. store (r * fb_w + x) (take copy_w (drop ((r - y) * width) pixels))) (map ((+) y) rows)"
    using Cons by (simp add: fun_eq_iff)
  ultimately show ?case by (simp add: Let_def load_def)
qed simp

lemma blit_rgba_exact:
  assumes "fb_wf fb" and "unat width * unat height \<le> length pixels"
  shows "\<exists>fb'. blit_rgba x y width height pixels fb = Some fb' \<and>
    repainted fb (\<lambda>px py. unat x \<le> px \<and> px < unat x + unat width \<and> unat y \<le> py \<and> py < unat y + unat height)
      (\<lambda>px py. at (unat width) pixels (px - unat x) (py - unat y)) fb'"
proof -
  let ?W = "unat (fb_width fb)" and ?H = "unat (fb_height fb)" and ?x = "unat x" and ?y = "unat y" and ?w = "unat width"
  let ?cw = "min ?w (?W - ?x)" and ?ch = "min (unat height) (?H - ?y)"
  show ?thesis
  proof (cases "?W \<le> ?x \<or> ?H \<le> ?y")
    case True
    then have "blit_rgba x y width height pixels fb = Some fb" by (simp add: blit_rgba_def Let_def)
    moreover have "repainted fb (\<lambda>px py. ?x \<le> px \<and> px < ?x + ?w \<and> ?y \<le> py \<and> py < ?y + unat height) new fb" for new
      by (rule repainted_same [OF assms(1)]) (use True in \<open>auto simp: in_picture_def\<close>)
    ultimately show ?thesis by blast
  next
    case False
    have len: "length (fb_data fb) = ?W * ?H" using assms(1) by (simp add: fb_wf_def)
    have row: "r * ?w + ?w \<le> length pixels" if "r < ?ch" for r
      using row_fits [of 0 ?w ?w r "unat height"] that assms(2) by simp
    let ?part = "\<lambda>r. take ?cw (drop ((r - ?y) * ?w) pixels)"
    have all: "blit_rows ?W ?x ?y ?w ?cw pixels [0..<?ch] (fb_data fb) = ofold (\<lambda>r. store (r * ?W + ?x) (?part r)) (map ((+) ?y) [0..<?ch]) (fb_data fb)"
      by (rule blit_rows_all) (use row in fastforce)
    have rows: "set (map ((+) ?y) [0..<?ch]) = {?y..<?y + ?ch}" by (simp add: image_add_atLeastLessThan [of ?y 0 ?ch, simplified] add.commute)
    have part: "r \<in> {?y..<?y + ?ch} \<Longrightarrow> r < ?H \<and> length (?part r) = ?cw" for r
    proof -
      assume r: "r \<in> {?y..<?y + ?ch}"
      then have "r - ?y < ?ch" by auto
      from row [OF this] have "?cw \<le> length pixels - (r - ?y) * ?w" by simp
      then have "length (?part r) = ?cw" by simp
      then show ?thesis using r False by auto
    qed
    obtain out where out: "ofold (\<lambda>r. store (r * ?W + ?x) (?part r)) (map ((+) ?y) [0..<?ch]) (fb_data fb) = Some out" "length out = ?W * ?H"
        "\<forall>px < ?W. \<forall>py < ?H. at ?W out px py =
          (if py \<in> set (map ((+) ?y) [0..<?ch]) \<and> ?x \<le> px \<and> px < ?x + ?cw then ?part py ! (px - ?x) else at ?W (fb_data fb) px py)"
    proof -
      have fits: "?x + ?cw \<le> ?W" using False by (auto simp: min_def)
      have once: "distinct (map ((+) ?y) [0..<?ch])" by (simp add: distinct_map)
      from paint_rows [OF len fits once, of ?part] part that show thesis unfolding rows by blast
    qed
    have "blit_rgba x y width height pixels fb = Some (fb\<lparr>fb_data := out\<rparr>)"
      using False all out(1) by (simp add: blit_rgba_def Let_def)
    moreover have "repainted fb (\<lambda>px py. ?x \<le> px \<and> px < ?x + ?w \<and> ?y \<le> py \<and> py < ?y + unat height)
        (\<lambda>px py. at ?w pixels (px - ?x) (py - ?y)) (fb\<lparr>fb_data := out\<rparr>)"
    proof (rule repainted_data [OF out(2)])
      fix px py assume on: "in_picture fb px py"
      have "?part py ! (px - ?x) = at ?w pixels (px - ?x) (py - ?y)" if "py \<in> {?y..<?y + ?ch}" "?x \<le> px" "px < ?x + ?cw"
      proof -
        have "py - ?y < ?ch" using that(1) by auto
        from row [OF this] have "(py - ?y) * ?w \<le> length pixels" by simp
        moreover have "px - ?x < ?cw" using that(2,3) by linarith
        ultimately show ?thesis unfolding at_def by (simp only: nth_take nth_drop)
      qed
      then show "at ?W out px py = (if ?x \<le> px \<and> px < ?x + ?w \<and> ?y \<le> py \<and> py < ?y + unat height
          then at ?w pixels (px - ?x) (py - ?y) else fb_at fb px py)"
        using out(3) on unfolding rows by (auto simp: in_picture_def fb_at_def)
    qed
    ultimately show ?thesis by blast
  qed
qed

subsection \<open>JPEG payloads\<close>

lemma jpeg_pixels:
  "decode_jpeg_to_rgba_within J data mw mh = Inr (jw, jh, pixels) \<Longrightarrow> jw * jh \<le> length pixels"
proof -
  assume d: "decode_jpeg_to_rgba_within J data mw mh = Inr (jw, jh, pixels)"
  show ?thesis
  proof (cases "J data mw mh")
    case (Inr a)
    obtain raw info where a: "a = (raw, info)" by (cases a)
    show ?thesis
    proof (cases info)
      case (Some wh)
      have "w * h \<le> length raw div 4" if four: "length raw div (w * h) = 4" for w h
      proof -
        have "4 * (w * h) \<le> length raw" using div_times_less_eq_dividend [of "length raw" "w * h"] unfolding four .
        then show ?thesis by simp
      qed
      then show ?thesis using d Inr a Some
        by (cases wh) (auto simp: decode_jpeg_to_rgba_within_def Let_def split: if_splits)
    qed (use d Inr a in \<open>simp add: decode_jpeg_to_rgba_within_def\<close>)
  qed (use d in \<open>simp add: decode_jpeg_to_rgba_within_def\<close>)
qed

lemma repainted_step:
  assumes "repainted fb inside new fb1" and "repainted fb1 inside' new fb2"
  shows "repainted fb (\<lambda>px py. inside px py \<or> inside' px py) new fb2"
  using assms by (auto simp: repainted_def in_picture_def)

text \<open>Rows of a picture that is narrower than the rectangle, one at a time.\<close>

lemma jpeg_rows:
  assumes "fb_wf fb" and "w \<le> jw" and "n \<le> jh" and "jw * jh \<le> length pixels" and "n < 65536" and "w < 65536"
  shows "\<exists>fb'. ofold (\<lambda>y fb. Option.bind (load (y * jw) w pixels)
        (\<lambda>row. blit_rgba x (saturating_add16 y0 (of_nat y)) (of_nat w) 1 row fb)) [0..<n] fb = Some fb' \<and>
    repainted fb (\<lambda>px py. unat x \<le> px \<and> px < unat x + w \<and> unat y0 \<le> py \<and> py < unat y0 + n)
      (\<lambda>px py. at jw pixels (px - unat x) (py - unat y0)) fb'"
  using assms(3,5)
proof (induction n)
  case 0
  then show ?case using assms(1) by (auto intro: repainted_same)
next
  case (Suc n)
  let ?new = "\<lambda>px py. at jw pixels (px - unat x) (py - unat y0)"
  let ?inside = "\<lambda>n px py. unat x \<le> px \<and> px < unat x + w \<and> unat y0 \<le> py \<and> py < unat y0 + n"
  obtain fb1 where fb1: "ofold (\<lambda>y fb. Option.bind (load (y * jw) w pixels)
        (\<lambda>row. blit_rgba x (saturating_add16 y0 (of_nat y)) (of_nat w) 1 row fb)) [0..<n] fb = Some fb1"
      "repainted fb (?inside n) ?new fb1" using Suc by auto
  have wf1: "fb_wf fb1" using fb1(2) by (simp add: repainted_def)
  have "n * jw + w \<le> length pixels" using row_fits [of 0 w jw n jh] assms(2,4) Suc.prems by simp
  then obtain row where row: "load (n * jw) w pixels = Some row" by (simp add: load_def)
  have len: "unat (of_nat w :: u16) * unat (1 :: u16) \<le> length row" using length_load [OF row] assms(6) by (simp add: unat_of_nat)
  obtain fb2 where fb2: "blit_rgba x (saturating_add16 y0 (of_nat n)) (of_nat w) 1 row fb1 = Some fb2"
      "repainted fb1 (\<lambda>px py. unat x \<le> px \<and> px < unat x + unat (of_nat w :: u16) \<and>
          unat (saturating_add16 y0 (of_nat n)) \<le> py \<and> py < unat (saturating_add16 y0 (of_nat n)) + unat (1 :: u16))
        (\<lambda>px py. at (unat (of_nat w :: u16)) row (px - unat x) (py - unat (saturating_add16 y0 (of_nat n)))) fb2"
    using blit_rgba_exact [OF wf1 len] by blast
  have w: "unat (of_nat w :: u16) = w" using assms(6) by (simp add: unat_of_nat)
  have "unat (fb_height fb1) < 65536" using unsigned_less [of "fb_height fb1"] by simp
  then have y: "in_picture fb1 px py \<Longrightarrow> unat (saturating_add16 y0 (of_nat n)) \<le> py \<and> py < unat (saturating_add16 y0 (of_nat n)) + 1 \<longleftrightarrow> py = unat y0 + n" for px py
    using Suc.prems by (auto simp: saturating_add16_def in_picture_def unat_of_nat unat_word_ariths)
  have "repainted fb1 (\<lambda>px py. unat x \<le> px \<and> px < unat x + w \<and> py = unat y0 + n) ?new fb2"
  proof -
    have sat: "unat (saturating_add16 y0 (of_nat n)) = unat y0 + n" if "in_picture fb1 px (unat y0 + n)" for px
      using y [OF that] by linarith
    have cell: "row ! (px - unat x) = pixels ! (n * jw + px - unat x)" if "unat x \<le> px" "px < unat x + w" for px
      using nth_load [OF row, of "px - unat x"] that by simp
    show ?thesis
    proof (rule repainted_cong [OF fb2(2)])
      fix px py assume on: "in_picture fb1 px py"
      show "(unat x \<le> px \<and> px < unat x + unat (of_nat w :: u16) \<and>
          unat (saturating_add16 y0 (of_nat n)) \<le> py \<and> py < unat (saturating_add16 y0 (of_nat n)) + unat (1 :: u16)) =
          (unat x \<le> px \<and> px < unat x + w \<and> py = unat y0 + n)"
        unfolding w unsigned_1 y [OF on] ..
      assume "unat x \<le> px \<and> px < unat x + unat (of_nat w :: u16) \<and>
          unat (saturating_add16 y0 (of_nat n)) \<le> py \<and> py < unat (saturating_add16 y0 (of_nat n)) + unat (1 :: u16)"
      then have px: "unat x \<le> px" "px < unat x + w" and py: "py = unat y0 + n" unfolding w unsigned_1 y [OF on] by blast+
      show "at (unat (of_nat w :: u16)) row (px - unat x) (py - unat (saturating_add16 y0 (of_nat n))) = ?new px py"
        using cell [OF px] sat on px(1) unfolding py w by (simp add: at_def)
    qed
  qed
  from repainted_step [OF fb1(2) this]
  have "repainted fb (?inside (Suc n)) ?new fb2" by (rule repainted_cong) auto
  moreover have "ofold (\<lambda>y fb. Option.bind (load (y * jw) w pixels)
        (\<lambda>row. blit_rgba x (saturating_add16 y0 (of_nat y)) (of_nat w) 1 row fb)) [0..<Suc n] fb = Some fb2"
    unfolding upt_Suc_append [OF le0] ofold_append fb1(1) using row fb2(1) by simp
  ultimately show ?case by blast
qed

subsection \<open>What the picture shows after a rectangle\<close>

definition picture_after :: "jpeg_library \<Rightarrow> decoded_rect \<Rightarrow> framebuffer \<Rightarrow> nat \<Rightarrow> nat \<Rightarrow> rgba" where
  "picture_after J d fb px py =
     (let r = dr_rect d; cx = px - unat (rt_x r); cy = py - unat (rt_y r) in
      if \<not> covers r px py then fb_at fb px py
      else
        case dr_payload d of
          Rgba pixels \<Rightarrow> at (unat (rt_width r)) pixels cx cy
        | CopyRect src_x src_y \<Rightarrow>
            (if in_picture fb (unat src_x + cx) (unat src_y + cy) then fb_at fb (unat src_x + cx) (unat src_y + cy) else fb_at fb px py)
        | Jpeg data \<Rightarrow>
            (case decode_jpeg_to_rgba_within J data (unat (rt_width r)) (unat (rt_height r)) of
               Inl _ \<Rightarrow> fb_at fb px py
             | Inr (jw, jh, pixels) \<Rightarrow> if cx < jw \<and> cy < jh then at jw pixels cx cy else fb_at fb px py)
        | H264 _ _ _ _ _ \<Rightarrow> fb_at fb px py)"

definition displays :: "framebuffer \<Rightarrow> (nat \<Rightarrow> nat \<Rightarrow> rgba) \<Rightarrow> framebuffer \<Rightarrow> bool" where
  "displays fb picture fb' \<longleftrightarrow> fb_wf fb' \<and> fb_width fb' = fb_width fb \<and> fb_height fb' = fb_height fb \<and>
     (\<forall>px py. in_picture fb px py \<longrightarrow> fb_at fb' px py = picture px py)"

lemma repainted_displays:
  "repainted fb inside new fb' \<Longrightarrow> (\<And>px py. in_picture fb px py \<Longrightarrow> picture px py = (if inside px py then new px py else fb_at fb px py)) \<Longrightarrow>
   displays fb picture fb'"
  by (simp add: repainted_def displays_def)

lemma apply_jpeg_exact:
  assumes "fb_wf fb"
  shows "\<exists>fb'. apply_jpeg J r data fb = Some fb' \<and> displays fb (picture_after J \<lparr>dr_rect = r, dr_payload = Jpeg data\<rparr> fb) fb'"
proof (cases "decode_jpeg_to_rgba_within J data (unat (rt_width r)) (unat (rt_height r))")
  case (Inl e)
  then show ?thesis using assms by (auto simp: apply_jpeg_def displays_def picture_after_def Let_def)
next
  case (Inr a)
  obtain jw jh pixels where a: "a = (jw, jh, pixels)" by (cases a)
  note len = jpeg_pixels [OF Inr [unfolded a]]
  let ?w = "min (unat (rt_width r)) jw" and ?h = "min (unat (rt_height r)) jh"
  have "unat (rt_width r) < 65536" "unat (rt_height r) < 65536"
    using unsigned_less [of "rt_width r"] unsigned_less [of "rt_height r"] by simp_all
  then have small: "?w < 65536" "?h < 65536" by linarith+
  have u: "unat (of_nat ?w :: u16) = ?w" "unat (of_nat ?h :: u16) = ?h" using small by (simp_all add: unat_of_nat)
  have "\<exists>fb'. apply_jpeg J r data fb = Some fb' \<and>
      repainted fb (\<lambda>px py. unat (rt_x r) \<le> px \<and> px < unat (rt_x r) + ?w \<and> unat (rt_y r) \<le> py \<and> py < unat (rt_y r) + ?h)
        (\<lambda>px py. at jw pixels (px - unat (rt_x r)) (py - unat (rt_y r))) fb'"
  proof (cases "jw = ?w \<and> ?w = unat (rt_width r)")
    case True
    have "?w * ?h \<le> length pixels" using len True by (metis le_trans min.cobounded2 mult_le_mono2)
    then show ?thesis
      using blit_rgba_exact [OF assms, of "of_nat ?w" "of_nat ?h" pixels "rt_x r" "rt_y r"] True Inr a
      unfolding u by (auto simp: apply_jpeg_def Let_def)
  next
    case False
    then have no: "(jw = ?w \<and> ?w = unat (rt_width r)) = False" by blast
    show ?thesis
      using jpeg_rows [OF assms _ _ len small(2,1), of "rt_x r" "rt_y r"]
      unfolding apply_jpeg_def Inr a sum.case prod.case Let_def no if_False by simp
  qed
  then show ?thesis using Inr a
    by (fastforce elim!: repainted_displays simp: picture_after_def covers_def Let_def)
qed

lemma apply_exact:
  assumes "fb_wf fb" and "payload_fits (dr_rect d) (dr_payload d)"
  shows "\<exists>fb'. framebuffer_apply J d fb = Some fb' \<and> displays fb (picture_after J d fb) fb'"
proof -
  obtain r p where d: "d = \<lparr>dr_rect = r, dr_payload = p\<rparr>" by (cases d)
  show ?thesis
  proof (cases p)
    case (Rgba pixels)
    have "unat (rt_width r) * unat (rt_height r) \<le> length pixels" using assms(2) d Rgba by (simp add: rect_area_def)
    from blit_rgba_exact [OF assms(1) this, of "rt_x r" "rt_y r"]
    show ?thesis using d Rgba by (fastforce elim!: repainted_displays simp: picture_after_def covers_def Let_def)
  next
    case (Jpeg data)
    then show ?thesis using apply_jpeg_exact [OF assms(1), of J r data] d by simp
  next
    case (CopyRect src_x src_y)
    from copy_rect_exact [OF assms(1), of src_x src_y "rt_x r" "rt_y r" "rt_width r" "rt_height r"]
    show ?thesis using d CopyRect by (fastforce elim!: repainted_displays simp: picture_after_def covers_def Let_def)
  next
    case H264
    then show ?thesis using d assms(1) by (auto simp: displays_def picture_after_def Let_def)
  qed
qed

subsection \<open>A new size\<close>

lemma framebuffer_new_wf: "fb_wf (framebuffer_new width height)"
  by (simp add: fb_wf_def framebuffer_new_def opaque_black_def)

lemma resize_exact:
  assumes "fb_wf fb"
  shows "\<exists>fb'. framebuffer_resize width height fb = Some fb' \<and> fb_wf fb' \<and> fb_width fb' = width \<and> fb_height fb' = height \<and>
    (\<forall>px py. in_picture fb' px py \<longrightarrow> fb_at fb' px py = (if in_picture fb px py then fb_at fb px py else (0, 0, 0, 255)))"
proof (cases "width = fb_width fb \<and> height = fb_height fb")
  case True
  then show ?thesis using assms by (auto simp: framebuffer_resize_def)
next
  case False
  let ?wide = "unat (fb_width fb)" and ?high = "unat (fb_height fb)" and ?W = "unat width" and ?H = "unat height"
  let ?cw = "min ?wide ?W" and ?ch = "min ?high ?H"
  let ?part = "\<lambda>y. take ?cw (drop (y * ?wide) (fb_data fb))"
  have len: "length (fb_data fb) = ?wide * ?high" using assms by (simp add: fb_wf_def)
  have fits: "y * ?wide + ?cw \<le> length (fb_data fb)" if "y < ?high" for y
    using row_fits [of 0 ?cw ?wide y ?high] that len by simp
  have same: "ofold (\<lambda>y out. Option.bind (load (y * ?wide) ?cw (fb_data fb)) (\<lambda>part. store (y * ?W) part out)) [0..<?ch] =
      ofold (\<lambda>y. store (y * ?W + 0) (?part y)) [0..<?ch]"
    by (rule ext, rule ofold_cong) (simp add: fun_eq_iff load_def fits)
  have blank: "length (opaque_black (?W * ?H)) = ?W * ?H" by (simp add: opaque_black_def)
  have part: "y \<in> set [0..<?ch] \<Longrightarrow> y < ?H \<and> length (?part y) = ?cw" for y using fits [of y] by auto
  obtain out where out: "ofold (\<lambda>y. store (y * ?W + 0) (?part y)) [0..<?ch] (opaque_black (?W * ?H)) = Some out" "length out = ?W * ?H"
      "\<forall>px < ?W. \<forall>py < ?H. at ?W out px py =
        (if py \<in> set [0..<?ch] \<and> 0 \<le> px \<and> px < 0 + ?cw then ?part py ! (px - 0) else at ?W (opaque_black (?W * ?H)) px py)"
  proof -
    have cols: "0 + ?cw \<le> ?W" by simp
    from paint_rows [OF blank cols distinct_upt, where part = ?part] part that show thesis by blast
  qed
  let ?fb = "\<lparr>fb_width = width, fb_height = height, fb_data = out\<rparr>"
  have "framebuffer_resize width height fb = Some ?fb"
    using out(1) same unfolding framebuffer_resize_def if_not_P [OF False] Let_def by simp
  moreover have "fb_at ?fb px py = (if in_picture fb px py then fb_at fb px py else (0, 0, 0, 255))" if on: "in_picture ?fb px py" for px py
  proof -
    have black: "at ?W (opaque_black (?W * ?H)) px py = (0, 0, 0, 255)"
      using on cell_below [of px ?W py ?H] by (simp add: opaque_black_def at_def in_picture_def)
    have old: "?part py ! px = fb_at fb px py" if "px < ?cw" "py < ?high"
      using fits [OF that(2)] that(1) by (simp add: fb_at_def at_def)
    have "fb_at ?fb px py = (if py < ?ch \<and> px < ?cw then ?part py ! px else (0, 0, 0, 255))"
      using out(3) on black by (simp add: in_picture_def fb_at_def)
    then show ?thesis using old on by (auto simp: in_picture_def)
  qed
  ultimately show ?thesis using out(2) by (auto simp: fb_wf_def)
qed

end
