(* ===== verification/Vnc_Pseudo.thy ===== *)
theory Vnc_Pseudo
  imports Vnc_Messages Framebuffer
begin

text \<open>
  Pseudo-encodings (\<open>crates/vnc-core/src/proto/pseudo.rs\<close>): rectangles of an update that carry no pixels of the
  picture but a size, a name, a cursor or a capability.
\<close>

unbundle bit_operations_syntax

definition MAX_CURSOR_AREA :: nat where "MAX_CURSOR_AREA = 1048576"
definition MAX_DESKTOP_NAME_LEN :: nat where "MAX_DESKTOP_NAME_LEN = 64 * 1024"

record cursor_shape =
  cs_width :: u16
  cs_height :: u16
  cs_hotspot_x :: u16
  cs_hotspot_y :: u16
  cs_pixels :: "rgba list"

datatype pseudo_rect =
    DesktopSize u16 u16
  | ExtendedDesktopSize u16 u16 u16 u16 "desktop_screen list"
  | DesktopName chars
  | LastRect
  | Cursor cursor_shape
  | LedState u8
  | FenceCapable
  | ContinuousUpdatesCapable
  | QemuExtKeyCapable
  | ExtendedMouseButtonsCapable

definition PSEUDO_LAST_RECT :: u32 where "PSEUDO_LAST_RECT = - 224"

datatype pseudo_encoding =
    PDesktopSize | PExtendedDesktopSize | PDesktopName | PLastRect | PCursor | PXCursor | PCursorWithAlpha
  | PFence | PContinuousUpdates | PQemuLedState | PQemuExtKeyEvent | PExtendedMouseButtons

definition pseudo_encoding_of :: "u32 \<Rightarrow> pseudo_encoding option" where
  "pseudo_encoding_of n =
     (if n = - 223 then Some PDesktopSize else if n = - 308 then Some PExtendedDesktopSize
      else if n = - 307 then Some PDesktopName else if n = PSEUDO_LAST_RECT then Some PLastRect
      else if n = - 239 then Some PCursor else if n = - 240 then Some PXCursor
      else if n = - 314 then Some PCursorWithAlpha else if n = - 312 then Some PFence
      else if n = - 313 then Some PContinuousUpdates else if n = - 261 then Some PQemuLedState
      else if n = - 258 then Some PQemuExtKeyEvent else if n = - 316 then Some PExtendedMouseButtons
      else None)"

definition is_pseudo :: "u32 \<Rightarrow> bool" where
  "is_pseudo encoding \<longleftrightarrow> pseudo_encoding_of encoding \<noteq> None"

subsection \<open>Cursors\<close>

definition check_cursor_bounds :: "rect \<Rightarrow> 'a decoder \<Rightarrow> 'a decoder" where
  "check_cursor_bounds r m = (if MAX_CURSOR_AREA < rect_area r then dfail (VncProtocol ''cursor exceeds sanity limit'') else m)"

definition clamp_hotspot :: "u16 \<Rightarrow> u16 \<Rightarrow> u16" where
  "clamp_hotspot hotspot dim = (if dim = 0 then 0 else min hotspot (dim - 1))"

definition cursor_of :: "rect \<Rightarrow> rgba list \<Rightarrow> pseudo_rect" where
  "cursor_of r pixels = Cursor
     \<lparr>cs_width = rt_width r, cs_height = rt_height r, cs_hotspot_x = clamp_hotspot (rt_x r) (rt_width r),
      cs_hotspot_y = clamp_hotspot (rt_y r) (rt_height r), cs_pixels = pixels\<rparr>"

text \<open>A bit of a mask whose rows are whole bytes.\<close>

definition mask_bit :: "bytes \<Rightarrow> nat \<Rightarrow> nat \<Rightarrow> nat \<Rightarrow> bool option" where
  "mask_bit buf row x y =
     map_option (\<lambda>b. drop_bit (7 - x mod 8) (b ! 0) AND 1 = 1) (load (y * row + x div 8) 1 buf)"

definition div_ceil8 :: "nat \<Rightarrow> nat" where
  "div_ceil8 n = (if n mod 8 = 0 then n div 8 else n div 8 + 1)"

definition cells :: "nat \<Rightarrow> nat \<Rightarrow> (nat \<times> nat) list" where
  "cells w h = List.product [0..<h] [0..<w]"

definition rich_pixel ::
  "pixel_format \<Rightarrow> colour_map option \<Rightarrow> nat \<Rightarrow> nat \<Rightarrow> nat \<Rightarrow> bytes \<Rightarrow> bytes \<Rightarrow> nat \<times> nat \<Rightarrow> rgba option" where
  "rich_pixel pf m bpp w mask_row pixels bits = (\<lambda>(y, x).
     Option.bind (load ((y * w + x) * bpp) bpp pixels) (\<lambda>p.
     Option.bind (mask_bit bits mask_row x y) (\<lambda>visible.
     case pixel_to_rgba p pf m of (r, g, b, _) \<Rightarrow> Some (r, g, b, if visible then 255 else 0))))"

definition read_rich_cursor :: "rect \<Rightarrow> pixel_format \<Rightarrow> colour_map option \<Rightarrow> pseudo_rect decoder" where
  "read_rich_cursor r pf m = check_cursor_bounds r
     (let w = unat (rt_width r); h = unat (rt_height r); bpp = max (bytes_per_pixel pf) 1; mask_row = div_ceil8 w in
      dbind (msg_n (w * h * bpp)) (\<lambda>pixels. dbind (msg_n (mask_row * h)) (\<lambda>bits.
      dbind (dchecked (those (map (rich_pixel pf m bpp w mask_row pixels bits) (cells w h)))) (\<lambda>rgba.
      dret (cursor_of r rgba)))))"

definition x_pixel :: "rgb \<Rightarrow> rgb \<Rightarrow> nat \<Rightarrow> bytes \<Rightarrow> bytes \<Rightarrow> nat \<times> nat \<Rightarrow> rgba option" where
  "x_pixel fg bg row bitmap bits = (\<lambda>(y, x).
     Option.bind (mask_bit bitmap row x y) (\<lambda>ink. Option.bind (mask_bit bits row x y) (\<lambda>visible.
     case (if ink then fg else bg) of (r, g, b) \<Rightarrow> Some (r, g, b, if visible then 255 else 0))))"

definition read_x_cursor :: "rect \<Rightarrow> pseudo_rect decoder" where
  "read_x_cursor r = check_cursor_bounds r
     (let w = unat (rt_width r); h = unat (rt_height r); row = div_ceil8 w in
      if w * h = 0
      then dret (Cursor \<lparr>cs_width = 0, cs_height = 0, cs_hotspot_x = clamp_hotspot (rt_x r) (rt_width r),
             cs_hotspot_y = clamp_hotspot (rt_y r) (rt_height r), cs_pixels = []\<rparr>)
      else
        dbind (msg_n 6) (\<lambda>colours. dbind (msg_n (row * h)) (\<lambda>bitmap. dbind (msg_n (row * h)) (\<lambda>bits.
        dbind (dchecked (those (map (x_pixel (triple (take 3 colours)) (triple (drop 3 colours)) row bitmap bits) (cells w h)))) (\<lambda>rgba.
        dret (cursor_of r rgba))))))"

definition cursor_alpha_pixel_format :: pixel_format where
  "cursor_alpha_pixel_format = bgra8888\<lparr>pf_depth := 32\<rparr>"

definition straight :: "u8 \<Rightarrow> u8 \<Rightarrow> u8" where
  "straight a c = (if a = 0 then c else of_nat (min (unat c * 255 div unat a) 255))"

definition unpremultiply :: "rgba list \<Rightarrow> rgba list" where
  "unpremultiply = map (\<lambda>(r, g, b, a). (straight a r, straight a g, straight a b, a))"

definition read_cursor_with_alpha :: "'z zlib \<Rightarrow> rect \<Rightarrow> 'z decoder_state \<Rightarrow> (pseudo_rect \<times> 'z decoder_state) decoder" where
  "read_cursor_with_alpha Z r d = check_cursor_bounds r
     (dbind msg_u32 (\<lambda>inner.
      let w = unat (rt_width r); h = unat (rt_height r) in
      dbind
        (if inner = 0 then dbind (msg_n (w * h * 4)) (\<lambda>b. dret (map quad (chunks_exact 4 b), d))
         else dbind (decode_rect_as Z d r inner cursor_alpha_pixel_format) (\<lambda>(p, d'). case dr_payload p of
             Rgba px \<Rightarrow> dret (px, d')
           | _ \<Rightarrow> dfail (VncProtocol ''cursor-with-alpha inner encoding did not yield RGBA pixels'')))
        (\<lambda>(rgba, d').
      if length rgba \<noteq> w * h then dfail (VncProtocol ''cursor-with-alpha pixel payload has wrong size'')
      else dret (cursor_of r (unpremultiply rgba), d'))))"

subsection \<open>The dispatch\<close>

definition read_screen :: "desktop_screen decoder" where
  "read_screen =
     dbind msg_u32 (\<lambda>i. dbind msg_u16 (\<lambda>x. dbind msg_u16 (\<lambda>y. dbind msg_u16 (\<lambda>width. dbind msg_u16 (\<lambda>height. dbind msg_u32 (\<lambda>flags.
     dret \<lparr>sc_id = i, sc_x = x, sc_y = y, sc_width = width, sc_height = height, sc_flags = flags, sc_primary = False\<rparr>))))))"

definition read_pseudo_rect ::
  "'z zlib \<Rightarrow> rect \<Rightarrow> u32 \<Rightarrow> pixel_format \<Rightarrow> 'z decoder_state \<Rightarrow> (pseudo_rect \<times> 'z decoder_state) decoder" where
  "read_pseudo_rect Z r encoding pf d =
     (let keep = (\<lambda>p. dret (p, d)) in
      case pseudo_encoding_of encoding of
        None \<Rightarrow> dfail (UnsupportedEncoding encoding)
      | Some PDesktopSize \<Rightarrow> keep (DesktopSize (rt_width r) (rt_height r))
      | Some PExtendedDesktopSize \<Rightarrow>
          dbind msg_u8 (\<lambda>n. dbind (msg_n 3) (\<lambda>_. dbind (read_times (unat n) read_screen) (\<lambda>screens.
          keep (ExtendedDesktopSize (rt_x r) (rt_y r) (rt_width r) (rt_height r) screens))))
      | Some PDesktopName \<Rightarrow>
          dbind msg_u32 (\<lambda>len.
          if MAX_DESKTOP_NAME_LEN < unat len then dfail (VncProtocol ''desktop name length exceeds limit'')
          else dbind (msg_n (unat len)) (\<lambda>b. keep (DesktopName (from_utf8_lossy b))))
      | Some PLastRect \<Rightarrow> keep LastRect
      | Some PCursor \<Rightarrow> dbind (read_rich_cursor r pf (ds_colour_map d)) keep
      | Some PXCursor \<Rightarrow> dbind (read_x_cursor r) keep
      | Some PCursorWithAlpha \<Rightarrow> read_cursor_with_alpha Z r d
      | Some PFence \<Rightarrow> keep FenceCapable
      | Some PContinuousUpdates \<Rightarrow> keep ContinuousUpdatesCapable
      | Some PQemuLedState \<Rightarrow> dbind msg_u8 (\<lambda>s. keep (LedState s))
      | Some PQemuExtKeyEvent \<Rightarrow> keep QemuExtKeyCapable
      | Some PExtendedMouseButtons \<Rightarrow> keep ExtendedMouseButtonsCapable)"

subsection \<open>Safety\<close>

text \<open>A cursor has as many pixels as its size says, and its hotspot is in it.\<close>

definition cursor_ok :: "cursor_shape \<Rightarrow> bool" where
  "cursor_ok c \<longleftrightarrow> length (cs_pixels c) = unat (cs_width c) * unat (cs_height c) \<and> length (cs_pixels c) \<le> MAX_CURSOR_AREA \<and>
     (cs_width c \<noteq> 0 \<longrightarrow> cs_hotspot_x c < cs_width c) \<and> (cs_height c \<noteq> 0 \<longrightarrow> cs_hotspot_y c < cs_height c)"

fun pseudo_ok :: "pseudo_rect \<Rightarrow> bool" where
  "pseudo_ok (Cursor c) \<longleftrightarrow> cursor_ok c"
| "pseudo_ok _ \<longleftrightarrow> True"

lemma hotspot_in: "dim \<noteq> 0 \<Longrightarrow> clamp_hotspot h dim < dim"
proof -
  assume "dim \<noteq> 0"
  then have "dim - 1 < dim" using unat_gt_0 [of dim] by (simp add: word_less_nat_alt unat_minus_one)
  then show ?thesis using \<open>dim \<noteq> 0\<close> by (auto simp: clamp_hotspot_def min_less_iff_disj)
qed

lemma cursor_of_ok:
  "length pixels = rect_area r \<Longrightarrow> rect_area r \<le> MAX_CURSOR_AREA \<Longrightarrow> pseudo_ok (cursor_of r pixels)"
  by (simp add: cursor_of_def cursor_ok_def rect_area_def hotspot_in)

lemma cell_in: "(y, x) \<in> set (cells w h) \<longleftrightarrow> x < w \<and> y < h"
  by (auto simp: cells_def)

lemma length_cells [simp]: "length (cells w h) = w * h"
  by (simp add: cells_def length_product mult.commute)

lemma mask_bit_in: "x < w \<Longrightarrow> y < h \<Longrightarrow> length buf = div_ceil8 w * h \<Longrightarrow> \<exists>b. mask_bit buf (div_ceil8 w) x y = Some b"
proof -
  assume in_cell: "x < w" "y < h" "length buf = div_ceil8 w * h"
  have "x div 8 < div_ceil8 w"
  proof (cases "w mod 8 = 0")
    case True
    then have "w = 8 * (w div 8)" by (metis add.right_neutral mult_div_mod_eq)
    then have "x < 8 * (w div 8)" using in_cell(1) by linarith
    then show ?thesis using True by (simp add: div_ceil8_def less_mult_imp_div_less mult.commute)
  next
    case False
    have "x div 8 \<le> w div 8" using in_cell(1) by (intro div_le_mono) simp
    then show ?thesis using False by (simp add: div_ceil8_def)
  qed
  from cell_below [OF this in_cell(2)] show ?thesis
    using in_cell(3) by (simp add: mask_bit_def load_def)
qed

lemma those_all: "(\<And>x. x \<in> set xs \<Longrightarrow> \<exists>y. f x = Some y) \<Longrightarrow> \<exists>ys. those (map f xs) = Some ys \<and> length ys = length xs"
proof (induction xs)
  case (Cons x xs)
  then obtain y ys where "f x = Some y" "those (map f xs) = Some ys" "length ys = length xs" by fastforce
  then show ?case by simp
qed simp

lemma safely_all:
  "(\<And>x. x \<in> set xs \<Longrightarrow> \<exists>y. f x = Some y) \<Longrightarrow> safely (\<lambda>ys. length ys = length xs) (dchecked (those (map f xs)))"
  using those_all [of xs f] by (auto intro: safely_checked)

lemma safely_bounds: "(rect_area r \<le> MAX_CURSOR_AREA \<Longrightarrow> safely Q m) \<Longrightarrow> safely Q (check_cursor_bounds r m)"
  by (simp add: check_cursor_bounds_def safely_fail)

lemma safely_rich_cursor: "safely pseudo_ok (read_rich_cursor r pf m)"
proof -
  let ?w = "unat (rt_width r)" and ?h = "unat (rt_height r)"
  define bpp where "bpp = max (bytes_per_pixel pf) 1"
  have pixel: "\<exists>p. rich_pixel pf m bpp ?w (div_ceil8 ?w) pixels bits c = Some p"
    if "length pixels = ?w * ?h * bpp" "length bits = div_ceil8 ?w * ?h" "c \<in> set (cells ?w ?h)" for pixels bits c
  proof -
    note bits_len = that(2) and cell = that(3)
    obtain y x where c: "c = (y, x)" "x < ?w" "y < ?h" using cell by (metis cell_in surj_pair)
    have "load ((y * ?w + x) * bpp) bpp pixels = Some (take bpp (drop ((y * ?w + x) * bpp) pixels))"
      by (rule load_within [OF cell_below [OF c(2,3)] that(1)])
    moreover obtain v where "mask_bit bits (div_ceil8 ?w) x y = Some v" using mask_bit_in [OF c(2,3) bits_len] by blast
    ultimately show ?thesis by (simp add: rich_pixel_def c(1) split: prod.split)
  qed
  show ?thesis
    unfolding read_rich_cursor_def Let_def bpp_def [symmetric]
    by (rule safely_bounds, rule safely_bind [OF safely_msg(1)], rule safely_bind [OF safely_msg(1)], rule safely_bind [OF safely_all])
      (auto intro!: safely_ret cursor_of_ok simp: rect_area_def simp del: split_paired_Ex intro: pixel)
qed

lemma safely_x_cursor: "safely pseudo_ok (read_x_cursor r)"
proof -
  let ?w = "unat (rt_width r)" and ?h = "unat (rt_height r)"
  have pixel: "\<exists>p. x_pixel fg bg (div_ceil8 ?w) bitmap bits c = Some p"
    if "length bitmap = div_ceil8 ?w * ?h" "length bits = div_ceil8 ?w * ?h" "c \<in> set (cells ?w ?h)" for bitmap bits c fg bg
  proof -
    note bits_len = that(2) and cell = that(3)
    obtain y x where c: "c = (y, x)" "x < ?w" "y < ?h" using cell by (metis cell_in surj_pair)
    from mask_bit_in [OF c(2,3) that(1)] mask_bit_in [OF c(2,3) that(2)]
    show ?thesis by (auto simp: x_pixel_def c(1) split: prod.split)
  qed
  have none: "safely pseudo_ok (dret (Cursor \<lparr>cs_width = 0, cs_height = 0, cs_hotspot_x = a, cs_hotspot_y = b, cs_pixels = []\<rparr>))" for a b
    by (simp add: safely_ret cursor_ok_def)
  show ?thesis
    unfolding read_x_cursor_def Let_def
    by (rule safely_bounds, rule safely_if [OF none], rule safely_bind [OF safely_msg(1)], rule safely_bind [OF safely_msg(1)],
        rule safely_bind [OF safely_msg(1)], rule safely_bind [OF safely_all])
      (auto intro!: safely_ret cursor_of_ok simp: rect_area_def simp del: split_paired_Ex intro: pixel)
qed

lemma length_unpremultiply [simp]: "length (unpremultiply px) = length px"
  by (simp add: unpremultiply_def)

lemma safely_alpha_cursor:
  assumes "zlib_ok Z" and "decoder_wf d"
  shows "safely (\<lambda>(p, d). pseudo_ok p \<and> decoder_wf d) (read_cursor_with_alpha Z r d)"
proof -
  have inner: "safely (\<lambda>(_, d). decoder_wf d)
      (if enc = 0 then dbind (msg_n n) (\<lambda>b. dret (map quad (chunks_exact 4 b), d))
       else dbind (decode_rect_as Z d r enc cursor_alpha_pixel_format) (\<lambda>(p, d'). case dr_payload p of
           Rgba px \<Rightarrow> dret (px, d')
         | _ \<Rightarrow> dfail (VncProtocol ''cursor-with-alpha inner encoding did not yield RGBA pixels'')))" for enc n
    by (rule safely_if, rule safely_bind [OF safely_msg(1)], simp add: safely_ret assms(2), rule safely_bind [OF safely_decode_rect_as [OF assms]])
      (auto intro!: safely_ret safely_fail split: rect_payload.split)
  show ?thesis
    unfolding read_cursor_with_alpha_def Let_def
    by (rule safely_bounds, rule safely_bind [OF safely_msg(4)], rule safely_bind [OF inner])
      (auto intro!: safely_ret safely_fail cursor_of_ok simp: rect_area_def)
qed

lemma safely_pseudo:
  assumes "zlib_ok Z" and "decoder_wf d"
  shows "safely (\<lambda>(p, d). pseudo_ok p \<and> decoder_wf d) (read_pseudo_rect Z r encoding pf d)"
proof (cases "pseudo_encoding_of encoding")
  case None
  then show ?thesis by (simp add: read_pseudo_rect_def safely_fail)
next
  case (Some e)
  have screen: "safely (\<lambda>_. True) read_screen"
    unfolding read_screen_def by (intro safely_bind [OF safely_msg(4)] safely_bind [OF safely_msg(3)] safely_ret) simp
  have keep: "safely pseudo_ok m \<Longrightarrow> safely (\<lambda>(p, d). pseudo_ok p \<and> decoder_wf d) (dbind m (\<lambda>p. dret (p, d)))" for m
    by (rule safely_bind [of pseudo_ok]) (auto intro: safely_ret assms(2))
  have simple: "pseudo_ok p \<Longrightarrow> safely (\<lambda>(p, d). pseudo_ok p \<and> decoder_wf d) (dret (p, d))" for p
    by (simp add: safely_ret assms(2))
  show ?thesis
  proof (cases e)
    case PExtendedDesktopSize
    then show ?thesis unfolding read_pseudo_rect_def Some Let_def option.case PExtendedDesktopSize pseudo_encoding.case
      by (intro safely_bind [OF safely_msg(2)] safely_bind [OF safely_msg(1)] safely_bind [OF safely_read_times [OF screen]] simple) simp
  next
    case PDesktopName
    then show ?thesis unfolding read_pseudo_rect_def Some Let_def option.case PDesktopName pseudo_encoding.case
      by (intro safely_bind [OF safely_msg(4)] safely_bind [OF safely_msg(1)] safely_if safely_fail simple) simp
  next
    case PQemuLedState
    then show ?thesis unfolding read_pseudo_rect_def Some Let_def option.case PQemuLedState pseudo_encoding.case
      by (intro safely_bind [OF safely_msg(2)] simple) simp
  qed (simp_all add: read_pseudo_rect_def Some simple keep safely_rich_cursor safely_x_cursor safely_alpha_cursor assms)
qed

text \<open>The list of screens a client writes is the one the other side reads, apart from the mark of the primary.\<close>

lemma screen_back: "read_screen (encode_screen s @ rest) = Decoded (s\<lparr>sc_primary := False\<rparr>) rest"
  unfolding encode_screen_def append_assoc
  by (simp only: read_screen_def dbind_def obind.simps msg_append dret_def) simp

lemma screens_back:
  "read_times (length screens) read_screen (concat (map encode_screen screens) @ rest) =
   Decoded (map (\<lambda>s. s\<lparr>sc_primary := False\<rparr>) screens) rest"
  by (induction screens) (simp_all add: screen_back dbind_def dret_def)

end
