(* ===== verification/Vnc_Clipboard.thy ===== *)
theory Vnc_Clipboard
  imports Vnc_Messages
begin

text \<open>
  The clipboard of RFB (\<open>crates/vnc-core/src/clipboard/mod.rs\<close>): legacy Latin-1 text, and the extended form with its
  announcements and compressed text. The zlib library is an argument: \<open>cz_call\<close> is one call of \<open>compress_vec\<close> with
  a sync flush and some room (consumed, produced, state), and \<open>cz_inflated\<close> is what the reader yields of a
  stream before it ends or fails.
\<close>

unbundle bit_operations_syntax

record 'c clip_zlib =
  cz_new :: 'c
  cz_call :: "'c \<Rightarrow> bytes \<Rightarrow> nat \<Rightarrow> nat \<times> bytes \<times> 'c"
  cz_reserved :: "nat \<Rightarrow> nat \<Rightarrow> nat"
  cz_inflated :: "bytes \<Rightarrow> bytes"

definition FORMAT_TEXT :: u32 where "FORMAT_TEXT = 1"
definition FORMAT_RTF :: u32 where "FORMAT_RTF = 2"
definition FORMAT_HTML :: u32 where "FORMAT_HTML = 4"
definition CLIP_FORMAT_MASK :: u32 where "CLIP_FORMAT_MASK = 0x1F"
definition ACTION_CAPS :: u32 where "ACTION_CAPS = push_bit 24 1"
definition ACTION_PEEK :: u32 where "ACTION_PEEK = push_bit 26 1"
definition ACTION_NOTIFY :: u32 where "ACTION_NOTIFY = push_bit 27 1"
definition ACTION_PROVIDE :: u32 where "ACTION_PROVIDE = push_bit 28 1"
definition MAX_INBOUND_TEXT :: nat where "MAX_INBOUND_TEXT = 10 * 1024 * 1024"

record clipboard_state =
  cl_extended :: bool
  cl_peer_caps :: u32
  cl_last_send_lossy :: bool

definition clipboard_new :: clipboard_state where
  "clipboard_new = \<lparr>cl_extended = False, cl_peer_caps = 0, cl_last_send_lossy = False\<rparr>"

definition peer_takes_notify :: "clipboard_state \<Rightarrow> bool" where
  "peer_takes_notify c \<longleftrightarrow> cl_peer_caps c AND ACTION_NOTIFY \<noteq> 0"

definition wants_legacy_copy :: "clipboard_state \<Rightarrow> bool" where
  "wants_legacy_copy c \<longleftrightarrow> cl_extended c \<and>
     (cl_peer_caps c AND ACTION_NOTIFY = 0 \<or> cl_peer_caps c AND ACTION_PROVIDE = 0 \<or> cl_peer_caps c AND FORMAT_TEXT = 0)"

subsection \<open>Line ends\<close>

fun lf_to_crlf_from :: "bool \<Rightarrow> chars \<Rightarrow> chars" where
  "lf_to_crlf_from prev_cr [] = []"
| "lf_to_crlf_from prev_cr (c # cs) =
     (if c = 10 \<and> \<not> prev_cr then 13 # c # lf_to_crlf_from False cs else c # lf_to_crlf_from (c = 13) cs)"

definition lf_to_crlf :: "chars \<Rightarrow> chars" where "lf_to_crlf = lf_to_crlf_from False"

fun crlf_to_lf :: "chars \<Rightarrow> chars" where
  "crlf_to_lf (a # b # cs) = (if a = 13 \<and> b = 10 then 10 # crlf_to_lf cs else a # crlf_to_lf (b # cs))"
| "crlf_to_lf cs = cs"

subsection \<open>Inbound\<close>

definition without_nuls :: "bytes \<Rightarrow> bytes" where
  "without_nuls b = rev (dropWhile (\<lambda>x. x = 0) (rev b))"

definition decode_provide_text :: "'c clip_zlib \<Rightarrow> u32 \<Rightarrow> bytes \<Rightarrow> chars option" where
  "decode_provide_text C flags compressed =
     (if flags AND FORMAT_TEXT = 0 then None
      else
        let plain = cz_inflated C compressed in
        if length plain < 4 then None
        else
          let n = unat (from_be_bytes (take 4 plain) :: u32) in
          if MAX_INBOUND_TEXT < n then None
          else if length (drop 4 plain) < n then None
          else Some (crlf_to_lf (from_utf8_lossy (without_nuls (take n (drop 4 plain))))))"

definition handle_cut_text :: "'c clip_zlib \<Rightarrow> bytes \<Rightarrow> clipboard_state \<Rightarrow> chars option \<times> clipboard_state" where
  "handle_cut_text C data c =
     (if length data < 7 then (None, c)
      else
        let len = (from_be_bytes (take 4 (drop 3 data)) :: u32); body = drop 7 data in
        if \<not> is_negative len
        then let n = unat len in
          if MAX_INBOUND_TEXT < n \<or> length body < n then (None, c)
          else (Some (crlf_to_lf (map unat (without_nuls (take n body)))), c)
        else
          let n = unsigned_abs len in
          if n < 4 \<or> length body < n then (None, c)
          else
            let ext = take n body; flags = (from_be_bytes (take 4 ext) :: u32); rest = drop 4 ext in
            if flags AND ACTION_CAPS \<noteq> 0 then (None, c\<lparr>cl_extended := True, cl_peer_caps := flags\<rparr>)
            else if flags AND ACTION_PROVIDE \<noteq> 0 then (decode_provide_text C flags rest, c\<lparr>cl_extended := True\<rparr>)
            else (None, c))"

subsection \<open>Outbound\<close>

definition frame_legacy :: "bytes \<Rightarrow> bytes" where
  "frame_legacy payload = [0, 0, 0] @ to_be_bytes (of_nat (length payload) :: u32) @ payload"

definition frame_extended :: "u32 \<Rightarrow> bytes \<Rightarrow> bytes" where
  "frame_extended flags payload =
     [0, 0, 0] @ to_be_bytes (- of_nat (4 + length payload) :: u32) @ to_be_bytes flags @ payload"

definition latin1_char :: "nat \<Rightarrow> bytes" where
  "latin1_char c =
     (if c \<le> 0xFF then [of_nat c]
      else if c \<in> {0x2018, 0x2019, 0x201A, 0x2032} then [0x27]
      else if c \<in> {0x201C, 0x201D, 0x201E, 0x2033} then [0x22]
      else if c \<in> {0x2010, 0x2011, 0x2012, 0x2013, 0x2014, 0x2212} then [0x2D]
      else if c = 0x2026 then [0x2E, 0x2E, 0x2E]
      else if c = 0x2022 then [0x2A]
      else if c = 0x2039 then [0x3C]
      else if c = 0x203A then [0x3E]
      else [0x3F])"

definition to_latin1 :: "chars \<Rightarrow> bytes \<times> bool" where
  "to_latin1 s = (concat (map latin1_char s), list_ex (\<lambda>c. 0xFF < c) s)"

definition encode_legacy_text :: "chars \<Rightarrow> clipboard_state \<Rightarrow> bytes \<times> clipboard_state" where
  "encode_legacy_text text_chars c =
     (let (latin1, lossy) = to_latin1 (crlf_to_lf text_chars) in (frame_legacy latin1, c\<lparr>cl_last_send_lossy := lossy\<rparr>))"

definition encode_notify :: "u32 \<Rightarrow> bytes" where
  "encode_notify formats = frame_extended (ACTION_NOTIFY OR (formats AND CLIP_FORMAT_MASK)) []"

definition encode_clip_request :: "u32 \<Rightarrow> bytes" where
  "encode_clip_request formats = frame_extended (ACTION_REQUEST OR (formats AND CLIP_FORMAT_MASK)) []"

partial_function (option) sync_loop ::
  "'c clip_zlib \<Rightarrow> bytes \<Rightarrow> 'c \<Rightarrow> nat \<Rightarrow> bytes \<Rightarrow> nat \<Rightarrow> bytes option" where
  "sync_loop C raw z consumed out capacity =
     (case cz_call C z (drop consumed raw) (capacity - length out) of (n, produced, z') \<Rightarrow>
        let consumed' = consumed + n; out' = out @ produced in
        if consumed' = length raw \<and> length out' < capacity then Some out'
        else sync_loop C raw z' consumed' out' (cz_reserved C (length out') (max capacity 64)))"

definition zlib_sync_flushed :: "'c clip_zlib \<Rightarrow> bytes \<Rightarrow> bytes option" where
  "zlib_sync_flushed C raw = sync_loop C raw (cz_new C) 0 [] (cz_reserved C 0 (length raw + 64))"

definition provided_text :: "chars \<Rightarrow> bytes" where
  "provided_text text_chars = concat (map encode_utf8 (lf_to_crlf (crlf_to_lf text_chars))) @ [0]"

definition encode_provide_text :: "'c clip_zlib \<Rightarrow> chars \<Rightarrow> bytes option" where
  "encode_provide_text C text_chars =
     (let data = provided_text text_chars
      in map_option (frame_extended (ACTION_PROVIDE OR FORMAT_TEXT))
           (zlib_sync_flushed C (to_be_bytes (of_nat (length data) :: u32) @ data)))"

definition encode_client_cut_text :: "'c clip_zlib \<Rightarrow> chars \<Rightarrow> clipboard_state \<Rightarrow> (bytes \<times> clipboard_state) option" where
  "encode_client_cut_text C text_chars c =
     (if cl_extended c then map_option (\<lambda>b. (b, c\<lparr>cl_last_send_lossy := False\<rparr>)) (encode_provide_text C text_chars)
      else Some (encode_legacy_text text_chars c))"

definition encode_caps :: bytes where
  "encode_caps = frame_extended
     (ACTION_CAPS OR ACTION_REQUEST OR ACTION_PEEK OR ACTION_NOTIFY OR ACTION_PROVIDE OR FORMAT_TEXT OR FORMAT_RTF OR FORMAT_HTML)
     (replicate 12 0)"

subsection \<open>The library\<close>

text \<open>
  A compressor has some bytes left to produce for what it was given; a call writes as many of them as there is room
  for, and consumes what it writes of. It has consumed everything when a call leaves room free. What is read back
  is the input, data that does not compress grows by little, and a \<open>Vec\<close> grows at least as asked.
\<close>

definition compressed_by :: "'c clip_zlib \<Rightarrow> bytes \<Rightarrow> bytes \<Rightarrow> bool" where
  "compressed_by C raw whole \<longleftrightarrow>
     (\<exists>at_point :: nat \<Rightarrow> nat \<Rightarrow> 'c \<Rightarrow> bool.
        at_point 0 0 (cz_new C) \<and>
        (\<forall>consumed done z room. at_point consumed done z \<longrightarrow> consumed \<le> length raw \<and> done \<le> length whole \<and>
           (case cz_call C z (drop consumed raw) room of (n, produced, z') \<Rightarrow>
              produced = take room (drop done whole) \<and> at_point (consumed + n) (done + length produced) z' \<and>
              (length produced < room \<longrightarrow> consumed + n = length raw))))"

definition clip_zlib_ok :: "'c clip_zlib \<Rightarrow> bool" where
  "clip_zlib_ok C \<longleftrightarrow>
     (\<forall>len grow. len + grow \<le> cz_reserved C len grow) \<and>
     (\<forall>raw. \<exists>whole. compressed_by C raw whole \<and> cz_inflated C whole = raw \<and> length whole \<le> 2 * length raw + 64)"

lemma sync_loop_whole:
  assumes reserved: "\<And>len grow. len + grow \<le> cz_reserved C len grow"
    and run: "\<And>consumed done z room. at_point consumed done z \<Longrightarrow> consumed \<le> length raw \<and> done \<le> length whole \<and>
           (case cz_call C z (drop consumed raw) room of (n, produced, z') \<Rightarrow>
              produced = take room (drop done whole) \<and> at_point (consumed + n) (done + length produced) z' \<and>
              (length produced < room \<longrightarrow> consumed + n = length raw))"
  shows "at_point consumed (length out) z \<Longrightarrow> out = take (length out) whole \<Longrightarrow> length out < capacity \<Longrightarrow>
    sync_loop C raw z consumed out capacity = Some whole"
proof (induction "length whole - length out" arbitrary: consumed out z capacity rule: less_induct)
  case less
  obtain n produced z' where call: "cz_call C z (drop consumed raw) (capacity - length out) = (n, produced, z')"
    by (cases "cz_call C z (drop consumed raw) (capacity - length out)")
  have step: "length out \<le> length whole" "produced = take (capacity - length out) (drop (length out) whole)"
      "at_point (consumed + n) (length out + length produced) z'"
      "length produced < capacity - length out \<longrightarrow> consumed + n = length raw"
    using run [OF less.prems(1), of "capacity - length out"] unfolding call prod.case by blast+
  have out': "out @ produced = take (length out + (capacity - length out)) whole"
    using less.prems(2) step(2) by (metis take_add)
  show ?case
  proof (cases "length produced < capacity - length out")
    case True
    then have "length whole \<le> capacity" using step(1,2) by simp
    then have whole: "out @ produced = whole" using out' less.prems(3) by simp
    have room: "length (out @ produced) < capacity" using True by simp
    have all: "consumed + n = length raw" using step(4) True by blast
    show ?thesis
      using room by (subst sync_loop.simps) (simp only: call prod.case Let_def whole all simp_thms if_True)
  next
    case False
    then have full: "length (out @ produced) = capacity" using step(2) less.prems(3) by simp
    have grown: "length (out @ produced) < cz_reserved C (length (out @ produced)) (max capacity 64)"
      using reserved [of "length (out @ produced)" "max capacity 64"] by simp
    have "length whole - length (out @ produced) < length whole - length out"
      using full less.prems(3) out' False step(2) by (auto simp: min_def split: if_splits)
    then have "sync_loop C raw z' (consumed + n) (out @ produced) (cz_reserved C (length (out @ produced)) (max capacity 64)) = Some whole"
    proof (rule less.hyps)
      show "at_point (consumed + n) (length (out @ produced)) z'" using step(3) by simp
      show "out @ produced = take (length (out @ produced)) whole" using out' full less.prems(3) by simp
    qed (rule grown)
    then show ?thesis using full by (subst sync_loop.simps) (simp add: call)
  qed
qed

text \<open>The loop ends, with a stream that reads back.\<close>

lemma sync_flushed_reads_back:
  assumes "clip_zlib_ok C"
  shows "\<exists>stream. zlib_sync_flushed C raw = Some stream \<and> cz_inflated C stream = raw \<and> length stream \<le> 2 * length raw + 64"
proof -
  have reserved: "len + grow \<le> cz_reserved C len grow" for len grow using assms by (simp add: clip_zlib_ok_def)
  obtain whole where whole: "compressed_by C raw whole" "cz_inflated C whole = raw" "length whole \<le> 2 * length raw + 64"
    using assms unfolding clip_zlib_ok_def by blast
  obtain at_point where run: "at_point 0 0 (cz_new C)" "\<And>consumed done z room. at_point consumed done z \<Longrightarrow> consumed \<le> length raw \<and> done \<le> length whole \<and>
           (case cz_call C z (drop consumed raw) room of (n, produced, z') \<Rightarrow>
              produced = take room (drop done whole) \<and> at_point (consumed + n) (done + length produced) z' \<and>
              (length produced < room \<longrightarrow> consumed + n = length raw))"
    using whole(1) unfolding compressed_by_def by blast
  have "0 < cz_reserved C 0 (length raw + 64)" using reserved [of 0 "length raw + 64"] by simp
  then have "sync_loop C raw (cz_new C) 0 [] (cz_reserved C 0 (length raw + 64)) = Some whole"
    using sync_loop_whole [of C at_point raw whole 0 "[]" "cz_new C", OF reserved run(2)] run(1) by simp
  then show ?thesis using whole(2,3) by (simp add: zlib_sync_flushed_def)
qed

subsection \<open>Text arrives\<close>

lemma encode_utf8_nats:
  assumes "is_scalar c"
  shows "map unat (encode_utf8 c) =
    (if c < 0x80 then [c]
     else if c < 0x800 then [0xC0 + c div 0x40, 0x80 + c mod 0x40]
     else if c < 0x10000 then [0xE0 + c div 0x1000, 0x80 + c div 0x40 mod 0x40, 0x80 + c mod 0x40]
     else [0xF0 + c div 0x40000, 0x80 + c div 0x1000 mod 0x40, 0x80 + c div 0x40 mod 0x40, 0x80 + c mod 0x40])"
proof -
  have same: "map unat (map of_nat ns :: bytes) = ns" if "list_all (\<lambda>v. v < 256) ns" for ns
    using that by (induction ns) (simp_all add: unat_of_nat)
  have "c div 0x40 < 0x20" if "c < 0x800" using that by simp
  moreover have "c div 0x1000 < 0x10" if "c < 0x10000" using that by simp
  moreover have "c div 0x40000 < 5" using assms by (auto simp: is_scalar_def)
  moreover have "c mod 0x40 < 0x40" "c div 0x40 mod 0x40 < 0x40" "c div 0x1000 mod 0x40 < 0x40" by simp_all
  ultimately show ?thesis unfolding encode_utf8_def by (subst same) (auto simp del: div_less_dividend)
qed

lemma utf8_three:
  "q < 16 \<Longrightarrow> second_ok (224 + q) (128 + m) \<Longrightarrow> n < 64 \<Longrightarrow>
   utf8_char (224 + q) ((128 + m) # (128 + n) # rest) = (q * 4096 + m * 64 + n, 2)"
  by (simp add: utf8_char.simps is_cont_def)

lemma utf8_four:
  "q < 5 \<Longrightarrow> second_ok (240 + q) (128 + m) \<Longrightarrow> n < 64 \<Longrightarrow> k < 64 \<Longrightarrow>
   utf8_char (240 + q) ((128 + m) # (128 + n) # (128 + k) # rest) = (q * 262144 + m * 4096 + n * 64 + k, 3)"
  by (simp add: utf8_char.simps is_cont_def)

lemma second_of_three: "q < 16 \<Longrightarrow> m < 64 \<Longrightarrow> (q = 0 \<Longrightarrow> 32 \<le> m) \<Longrightarrow> (q = 13 \<Longrightarrow> m < 32) \<Longrightarrow> second_ok (224 + q) (128 + m)"
  unfolding second_ok_def is_cont_def by auto

lemma second_of_four: "m < 64 \<Longrightarrow> (q = 0 \<Longrightarrow> 16 \<le> m) \<Longrightarrow> (q = 4 \<Longrightarrow> m < 16) \<Longrightarrow> second_ok (240 + q) (128 + m)"
  unfolding second_ok_def is_cont_def by auto

lemma utf8_char_back:
  assumes "is_scalar c"
  shows "\<exists>b more. map unat (encode_utf8 c) = b # more \<and> utf8_char b (more @ rest) = (c, length more)"
proof -
  note nats = encode_utf8_nats [OF assms]
  have quot: "c div 64 div 64 = c div 4096" "c div 4096 div 64 = c div 262144" by (simp_all add: div_mult2_eq [symmetric])
  consider "c < 0x80" | "0x80 \<le> c" "c < 0x800" | "0x800 \<le> c" "c < 0x10000" | "0x10000 \<le> c" "c < 0x110000"
    using assms unfolding is_scalar_def by linarith
  then show ?thesis
  proof cases
    case 1
    then show ?thesis unfolding nats by (simp add: utf8_char.simps)
  next
    case 2
    have "c div 64 < 32" "2 \<le> c div 64" using 2 by simp_all
    then show ?thesis using 2 unfolding nats by (simp add: utf8_char.simps is_cont_def)
  next
    case 3
    have d: "c div 4096 < 16" using 3 by simp
    have parts: "c div 4096 * 4096 + c div 64 mod 64 * 64 + c mod 64 = c"
      using mult_div_mod_eq [of 64 c] mult_div_mod_eq [of 64 "c div 64"] quot by linarith
    have second: "second_ok (224 + c div 4096) (128 + c div 64 mod 64)"
    proof (rule second_of_three [OF d])
      show "32 \<le> c div 64 mod 64" if "c div 4096 = 0" using that parts 3 by linarith
      show "c div 64 mod 64 < 32" if "c div 4096 = 13" using that parts assms unfolding is_scalar_def by linarith
    qed simp
    have "map unat (encode_utf8 c) = [224 + c div 4096, 128 + c div 64 mod 64, 128 + c mod 64]" using nats 3 by simp
    then show ?thesis using utf8_three [OF d second, of "c mod 64" rest] unfolding parts by simp
  next
    case 4
    have d: "c div 262144 < 5" using 4 by simp
    have parts: "c div 262144 * 262144 + c div 4096 mod 64 * 4096 + c div 64 mod 64 * 64 + c mod 64 = c"
      using mult_div_mod_eq [of 64 c] mult_div_mod_eq [of 64 "c div 64"] mult_div_mod_eq [of 64 "c div 4096"] quot by linarith
    have second: "second_ok (240 + c div 262144) (128 + c div 4096 mod 64)"
    proof (rule second_of_four)
      have low: "c div 64 mod 64 < 64" "c mod 64 < 64" by simp_all
      show "16 \<le> c div 4096 mod 64" if "c div 262144 = 0" using that parts 4 low by linarith
      show "c div 4096 mod 64 < 16" if "c div 262144 = 4" using that parts 4 by linarith
    qed simp
    have "map unat (encode_utf8 c) = [240 + c div 262144, 128 + c div 4096 mod 64, 128 + c div 64 mod 64, 128 + c mod 64]"
      using nats 4 by simp
    then show ?thesis using utf8_four [OF d second, of "c div 64 mod 64" "c mod 64" rest] unfolding parts by simp
  qed
qed

lemma utf8_back: "list_all is_scalar s \<Longrightarrow> from_utf8_lossy (concat (map encode_utf8 s)) = s"
proof (induction s)
  case (Cons c s)
  obtain b more where c: "map unat (encode_utf8 c) = b # more"
      "utf8_char b (more @ map unat (concat (map encode_utf8 s))) = (c, length more)"
    using utf8_char_back [of c] Cons.prems by fastforce
  have "from_utf8_lossy (concat (map encode_utf8 (c # s))) = c # utf8_nats (map unat (concat (map encode_utf8 s)))"
    using c by (simp add: from_utf8_lossy_def)
  then show ?case using Cons by (simp add: from_utf8_lossy_def)
qed (simp add: from_utf8_lossy_def)

lemma scalar_lines:
  "list_all is_scalar s \<Longrightarrow> list_all is_scalar (crlf_to_lf s)"
  "list_all is_scalar s \<Longrightarrow> list_all is_scalar (lf_to_crlf_from p s)"
proof -
  have n: "is_scalar 10" "is_scalar 13" by (simp_all add: is_scalar_def)
  show "list_all is_scalar s \<Longrightarrow> list_all is_scalar (crlf_to_lf s)" by (induction s rule: crlf_to_lf.induct) (auto simp: n)
  show "list_all is_scalar s \<Longrightarrow> list_all is_scalar (lf_to_crlf_from p s)" by (induction p s rule: lf_to_crlf_from.induct) (auto simp: n)
qed

text \<open>Lines that do not mix the two ends come back with the line feeds alone.\<close>

definition no_returns :: "chars \<Rightarrow> bool" where
  "no_returns s \<longleftrightarrow> 13 \<notin> set s"

lemma crlf_to_lf_id: "no_returns s \<Longrightarrow> crlf_to_lf s = s"
  by (induction s rule: crlf_to_lf.induct) (auto simp: no_returns_def)

lemma crlf_to_lf_cons: "c \<noteq> 13 \<Longrightarrow> crlf_to_lf (c # s) = c # crlf_to_lf s"
  by (cases s) simp_all

lemma lines_back: "no_returns s \<Longrightarrow> crlf_to_lf (lf_to_crlf_from False s) = s"
  by (induction s) (auto simp: no_returns_def crlf_to_lf_cons)

lemma without_nuls_last: "bs = [] \<or> last bs \<noteq> 0 \<Longrightarrow> without_nuls (bs @ replicate n 0) = bs"
proof -
  assume "bs = [] \<or> last bs \<noteq> 0"
  moreover have "dropWhile (\<lambda>x. x = 0) (replicate n 0 @ rev bs) = dropWhile (\<lambda>x. x = 0) (rev bs)"
    by (induction n) simp_all
  ultimately show ?thesis
    by (cases bs rule: rev_cases) (simp_all add: without_nuls_def)
qed

lemma utf8_last:
  "s \<noteq> [] \<Longrightarrow> list_all is_scalar s \<Longrightarrow> last s \<noteq> 0 \<Longrightarrow>
   concat (map encode_utf8 s) \<noteq> [] \<and> last (concat (map encode_utf8 s)) \<noteq> 0"
proof -
  assume s: "s \<noteq> []" "list_all is_scalar s" "last s \<noteq> 0"
  then obtain t c where t: "s = t @ [c]" "is_scalar c" "c \<noteq> 0" by (cases s rule: rev_cases) auto
  have some: "encode_utf8 c \<noteq> []" by (simp add: encode_utf8_def)
  have "unat (last (encode_utf8 c)) = last (map unat (encode_utf8 c))" using some by (simp add: last_map)
  then have "unat (last (encode_utf8 c)) \<noteq> 0" using t(3) unfolding encode_utf8_nats [OF t(2)] by (simp split: if_splits)
  then have "last (encode_utf8 c) \<noteq> 0" by auto
  then show ?thesis using some by (simp add: t(1))
qed

lemma negative_length:
  assumes "0 < n" and "n \<le> 2147483648"
  shows "is_negative (- of_nat n :: u32)" and "unsigned_abs (- of_nat n :: u32) = n"
proof -
  have "(of_nat (4294967296 - n) :: u32) = - of_nat n" using assms by (simp add: of_nat_diff)
  moreover have "unat (of_nat m :: u32) = m" if "m < 4294967296" for m using that by (simp add: unat_of_nat)
  from this [of "4294967296 - n"] have "unat (of_nat (4294967296 - n) :: u32) = 4294967296 - n" using assms by linarith
  ultimately have "unat (- of_nat n :: u32) = 4294967296 - n" by simp
  then show "is_negative (- of_nat n :: u32)" "unsigned_abs (- of_nat n :: u32) = n"
    using assms by (simp_all add: is_negative_def unsigned_abs_def word_le_nat_alt)
qed

lemma handle_extended:
  assumes "length payload + 4 \<le> 2147483648"
  shows "handle_cut_text C (frame_extended flags payload) c =
    (if flags AND ACTION_CAPS \<noteq> 0 then (None, c\<lparr>cl_extended := True, cl_peer_caps := flags\<rparr>)
     else if flags AND ACTION_PROVIDE \<noteq> 0 then (decode_provide_text C flags payload, c\<lparr>cl_extended := True\<rparr>)
     else (None, c))"
proof -
  define len :: u32 where "len = - of_nat (4 + length payload)"
  have neg: "is_negative len" "unsigned_abs len = 4 + length payload"
    unfolding len_def using negative_length [of "4 + length payload"] assms by simp_all
  have wire: "length (frame_extended flags payload) = 11 + length payload"
      "take 4 (drop 3 (frame_extended flags payload)) = to_be_bytes len"
      "drop 7 (frame_extended flags payload) = to_be_bytes flags @ payload"
    by (simp_all add: frame_extended_def len_def)
  have same: "from_be_bytes (to_be_bytes v) = v" for v :: u32 by (rule from_to_be_bytes) simp
  show ?thesis
    unfolding handle_cut_text_def Let_def wire same neg by (simp add: neg same)
qed

text \<open>Text given to the extended clipboard is the text the other side reads.\<close>

lemma provide_back:
  assumes "clip_zlib_ok C" and "list_all is_scalar s" and "no_returns s" and "s \<noteq> [] \<Longrightarrow> last s \<noteq> 0"
    and "length (provided_text s) \<le> MAX_INBOUND_TEXT"
  shows "\<exists>body. encode_provide_text C s = Some body \<and> handle_cut_text C body c = (Some s, c\<lparr>cl_extended := True\<rparr>)"
proof -
  let ?data = "provided_text s" and ?lines = "lf_to_crlf_from False s"
  obtain stream where stream: "zlib_sync_flushed C (to_be_bytes (of_nat (length ?data) :: u32) @ ?data) = Some stream"
      "cz_inflated C stream = to_be_bytes (of_nat (length ?data) :: u32) @ ?data"
      "length stream \<le> 2 * length (to_be_bytes (of_nat (length ?data) :: u32) @ ?data) + 64"
    using sync_flushed_reads_back [OF assms(1)] by blast
  have small: "length stream + 4 \<le> 2147483648" using stream(3) assms(5) by (simp add: MAX_INBOUND_TEXT_def)
  have same: "from_be_bytes (to_be_bytes v) = v" for v :: u32 by (rule from_to_be_bytes) simp
  have len: "unat (of_nat (length ?data) :: u32) = length ?data" using assms(5) by (simp add: MAX_INBOUND_TEXT_def unat_of_nat)
  have scalar: "list_all is_scalar ?lines" by (rule scalar_lines(2) [OF assms(2)])
  have last_line: "?lines \<noteq> [] \<and> last ?lines = last s" if "s \<noteq> []" for p
  proof -
    have "lf_to_crlf_from p s \<noteq> [] \<and> last (lf_to_crlf_from p s) = last s" if "s \<noteq> []" for p and s :: chars
      using that by (induction p s rule: lf_to_crlf_from.induct) (auto split: if_splits)
    then show ?thesis using that by blast
  qed
  have plain: "from_utf8_lossy (without_nuls ?data) = ?lines"
  proof -
    have data: "?data = concat (map encode_utf8 ?lines) @ replicate 1 0"
      by (simp add: provided_text_def lf_to_crlf_def crlf_to_lf_id [OF assms(3)])
    have "concat (map encode_utf8 ?lines) = [] \<or> last (concat (map encode_utf8 ?lines)) \<noteq> 0"
      using utf8_last [OF _ scalar] last_line assms(4) by (cases "s = []") auto
    then show ?thesis unfolding data by (simp only: without_nuls_last utf8_back [OF scalar])
  qed
  have "decode_provide_text C (ACTION_PROVIDE OR FORMAT_TEXT) stream = Some s"
    unfolding decode_provide_text_def stream(2) Let_def
    using assms(5) by (simp add: same len plain lines_back [OF assms(3)] FORMAT_TEXT_def ACTION_PROVIDE_def not_less)
  moreover have "(ACTION_PROVIDE OR FORMAT_TEXT) AND ACTION_CAPS = 0" "(ACTION_PROVIDE OR FORMAT_TEXT) AND ACTION_PROVIDE \<noteq> 0"
    by (simp_all add: ACTION_PROVIDE_def FORMAT_TEXT_def ACTION_CAPS_def)
  ultimately have "handle_cut_text C (frame_extended (ACTION_PROVIDE OR FORMAT_TEXT) stream) c = (Some s, c\<lparr>cl_extended := True\<rparr>)"
    unfolding handle_extended [OF small] by (simp only: simp_thms if_True if_False)
  moreover have "encode_provide_text C s = Some (frame_extended (ACTION_PROVIDE OR FORMAT_TEXT) stream)"
    unfolding encode_provide_text_def Let_def stream(1) by simp
  ultimately show ?thesis by blast
qed

text \<open>So is Latin-1 text given to the legacy one.\<close>

lemma latin1_back: "list_all (\<lambda>c. c \<le> 0xFF) s \<Longrightarrow> map unat (concat (map latin1_char s)) = s \<and> length (concat (map latin1_char s)) = length s"
  by (induction s) (auto simp: latin1_char_def unat_of_nat)

lemma latin1_last: "s \<noteq> [] \<Longrightarrow> list_all (\<lambda>c. c \<le> 0xFF) s \<Longrightarrow> last s \<noteq> 0 \<Longrightarrow> last (concat (map latin1_char s)) \<noteq> 0"
proof -
  assume s: "s \<noteq> []" "list_all (\<lambda>c. c \<le> 0xFF) s" "last s \<noteq> 0"
  then have "concat (map latin1_char s) \<noteq> []" using latin1_back [OF s(2)] by (metis list.size(3) length_0_conv)
  then have "unat (last (concat (map latin1_char s))) = last s" using latin1_back [OF s(2)] by (metis last_map)
  then show ?thesis using s(3) by auto
qed

lemma legacy_back:
  assumes "list_all (\<lambda>c. c \<le> 0xFF) s" and "no_returns s" and "s \<noteq> [] \<Longrightarrow> last s \<noteq> 0" and "length s \<le> MAX_INBOUND_TEXT"
  shows "handle_cut_text C (fst (encode_legacy_text s c)) c' = (Some s, c') \<and> \<not> cl_last_send_lossy (snd (encode_legacy_text s c))"
proof -
  let ?bytes = "concat (map latin1_char s)"
  note bytes = latin1_back [OF assms(1)]
  have len: "unat (of_nat (length ?bytes) :: u32) = length s" "\<not> is_negative (of_nat (length ?bytes))"
    using assms(4) bytes by (simp_all add: MAX_INBOUND_TEXT_def unat_of_nat is_negative_def word_le_nat_alt)
  have body: "fst (encode_legacy_text s c) = frame_legacy ?bytes"
    by (simp add: encode_legacy_text_def to_latin1_def crlf_to_lf_id [OF assms(2)])
  have wire: "length (frame_legacy ?bytes) = 7 + length s"
      "take 4 (drop 3 (frame_legacy ?bytes)) = to_be_bytes (of_nat (length ?bytes) :: u32)" "drop 7 (frame_legacy ?bytes) = ?bytes"
    using bytes by (simp_all add: frame_legacy_def)
  have same: "from_be_bytes (to_be_bytes v) = v" for v :: u32 by (rule from_to_be_bytes) simp
  have nuls: "without_nuls ?bytes = ?bytes"
    using without_nuls_last [of ?bytes 0] latin1_last [OF _ assms(1)] assms(3) by (cases "s = []") auto
  have "handle_cut_text C (frame_legacy ?bytes) c' = (Some (crlf_to_lf (map unat (without_nuls (take (length s) ?bytes)))), c')"
    unfolding handle_cut_text_def Let_def wire same using len bytes assms(4) by (simp add: not_less)
  also have "take (length s) ?bytes = ?bytes" using bytes by simp
  finally have "handle_cut_text C (frame_legacy ?bytes) c' = (Some s, c')"
    using bytes crlf_to_lf_id [OF assms(2)] nuls by simp
  moreover have "\<not> list_ex (\<lambda>c. 0xFF < c) s" using assms(1) by (auto simp: list_all_iff list_ex_iff)
  ultimately show ?thesis unfolding body by (simp add: encode_legacy_text_def to_latin1_def crlf_to_lf_id [OF assms(2)])
qed

end
