(* ===== verification/Vnc_Session.thy ===== *)
theory Vnc_Session
  imports Vnc_Pseudo Vnc_Clipboard
begin

text \<open>
  The running RFB session (\<open>crates/vnc-core/src/session/run_loop.rs\<close>): what it does with an update of the framebuffer, with the
  end of continuous updates, with a fence and with a change of quality, and the list of encodings it asks for
  (\<open>quality/mod.rs\<close>, \<open>session/connection.rs\<close>). Messages sent and events emitted are lists, newest last. Writes
  and the event channel are taken to succeed. Commands served in the middle of an update are seen only through
  whether one of them ended the session; measuring and statistics are left out.
\<close>

unbundle bit_operations_syntax

subsection \<open>Quality and formats\<close>

datatype color_depth = Full | Palette256 | Rgb222 | Rgb111 | Grayscale

record quality_settings =
  qs_jpeg_quality :: u8
  qs_compression :: u8
  qs_pixel_format :: color_depth
  qs_allow_jpeg :: bool
  qs_allow_h264 :: bool
  qs_grayscale_levels :: "u8 option"

record vnc_caps =
  vc_desktop_name :: chars
  vc_width :: u16
  vc_height :: u16
  vc_pixel_format :: "pixel_format option"
  vc_continuous_updates :: bool
  vc_fence :: bool
  vc_extended_desktop_size :: bool
  vc_extended_clipboard :: bool
  vc_qemu_ext_key :: bool
  vc_extended_mouse_buttons :: bool
  vc_h264 :: bool
  vc_is_apple_screen_sharing :: bool

definition jpeg_quality :: "u8 \<Rightarrow> u32" where "jpeg_quality level = - 32 + ucast level"
definition compression_level :: "u8 \<Rightarrow> u32" where "compression_level level = - 256 + ucast level"

definition encodings_for :: "quality_settings \<Rightarrow> vnc_caps \<Rightarrow> u32 list" where
  "encodings_for s caps =
     [7] @ (if qs_allow_h264 s \<and> vc_h264 caps then [50] else []) @ [16, 1, 5, 6, 0] @
     [PSEUDO_LAST_RECT, - 307, - 308, - 239, - 240, - 314, - 312, - 313, - 316, - 258, - 261, 0xC0A1E5CE] @
     (if qs_allow_jpeg s then [jpeg_quality (min (qs_jpeg_quality s) 9)] else []) @
     [compression_level (min (qs_compression s) 9)]"

fun pixel_format_for :: "color_depth \<Rightarrow> pixel_format" where
  "pixel_format_for Full = bgra8888"
| "pixel_format_for Palette256 = palette8"
| "pixel_format_for Grayscale = palette8"
| "pixel_format_for color_depth.Rgb222 = rgb222"
| "pixel_format_for Rgb111 = rgb222"

definition APPLE_LARGE_SCREEN :: nat where "APPLE_LARGE_SCREEN = 3840 * 2160"

definition wire_format :: "color_depth \<Rightarrow> bool \<Rightarrow> vnc_caps \<Rightarrow> pixel_format" where
  "wire_format depth auto_preset caps =
     (if \<not> vc_is_apple_screen_sharing caps then pixel_format_for depth
      else
        let large = APPLE_LARGE_SCREEN < unat (vc_width caps) * unat (vc_height caps)
        in if depth = Full \<and> \<not> (large \<and> auto_preset) then bgra8888 else rgb565)"

subsection \<open>The session\<close>

datatype vnc_event =
    FramebufferUpdate "decoded_rect list" rect
  | DesktopResize u16 u16
  | NameChanged chars
  | ScreenLayout "desktop_screen list"
  | CursorUpdate cursor_shape
  | ErrorShown string
  | BellRung
  | ClipboardNotify u32
  | ClipboardText chars

record 'z vnc_session =
  vs_decoder :: "'z decoder_state"
  vs_pf :: pixel_format
  vs_pending_pf :: "pixel_format list"
  vs_colour_map_since_pf :: bool
  vs_width :: u16
  vs_height :: u16
  vs_caps :: vnc_caps
  vs_screens :: "desktop_screen list"
  vs_resize_reapplied :: bool
  vs_requested_size :: "(u16 \<times> u16) option"
  vs_lossy_damage :: rect
  vs_alr_restore_pending :: bool
  vs_applied_quality :: quality_settings
  vs_priming_update_pending :: bool
  vs_pipelined_request :: bool
  vs_cu_active :: bool
  vs_cu_disable_pending :: bool
  vs_cu_off_for_pacing :: bool
  vs_clipboard :: clipboard_state
  vs_clipboard_caps_sent :: bool
  vs_clipboard_offered :: "chars option"
  vs_sent :: "bytes list"
  vs_events :: "vnc_event list"

definition full_rect :: "'z vnc_session \<Rightarrow> rect" where
  "full_rect s = rect_new 0 0 (vs_width s) (vs_height s)"

definition send :: "bytes \<Rightarrow> 'z vnc_session \<Rightarrow> 'z vnc_session" where
  "send msg s = s\<lparr>vs_sent := vs_sent s @ [msg]\<rparr>"

definition emit_event :: "vnc_event \<Rightarrow> 'z vnc_session \<Rightarrow> 'z vnc_session" where
  "emit_event e s = s\<lparr>vs_events := vs_events s @ [e]\<rparr>"

definition pacing_requests :: "'z vnc_session \<Rightarrow> bool" where
  "pacing_requests s \<longleftrightarrow> \<not> vs_cu_active s \<and> \<not> vs_cu_disable_pending s"

definition arm_pipelined_request :: "'z vnc_session \<Rightarrow> 'z vnc_session" where
  "arm_pipelined_request s = s\<lparr>vs_pipelined_request := True\<rparr>"

definition request_next :: "'z vnc_session \<Rightarrow> 'z vnc_session" where
  "request_next s = arm_pipelined_request (send (framebuffer_update_request True (full_rect s)) s)"

definition resume_request_pipeline :: "'z vnc_session \<Rightarrow> 'z vnc_session" where
  "resume_request_pipeline s =
     (if vs_priming_update_pending s then s else if vs_pipelined_request s then s else request_next s)"

definition set_paced_updates :: "bool \<Rightarrow> 'z vnc_session \<Rightarrow> 'z vnc_session" where
  "set_paced_updates paced s =
     (if paced
      then if \<not> vs_cu_active s \<or> vs_cu_disable_pending s then s
           else (send (enable_continuous_updates False (full_rect s)) s)
             \<lparr>vs_cu_active := False, vs_cu_disable_pending := True, vs_cu_off_for_pacing := True\<rparr>
      else if \<not> vs_cu_off_for_pacing s \<or> vs_cu_active s \<or> vs_cu_disable_pending s \<or> \<not> vc_continuous_updates (vs_caps s) then s
      else (send (enable_continuous_updates True (full_rect s)) s)\<lparr>vs_cu_active := True, vs_cu_off_for_pacing := False\<rparr>)"

text \<open>The tick, when a stop of continuous updates was not acknowledged in time.\<close>

definition abandon_disable :: "'z vnc_session \<Rightarrow> 'z vnc_session" where
  "abandon_disable s =
     (if vs_cu_disable_pending s then resume_request_pipeline (s\<lparr>vs_cu_disable_pending := False\<rparr>) else s)"

definition end_of_continuous_updates :: "bool \<Rightarrow> 'z vnc_session \<Rightarrow> 'z vnc_session" where
  "end_of_continuous_updates wants_paced s0 =
     (let s = s0\<lparr>vs_caps := (vs_caps s0)\<lparr>vc_continuous_updates := True\<rparr>\<rparr> in
      if vs_cu_disable_pending s then resume_request_pipeline (s\<lparr>vs_cu_disable_pending := False\<rparr>)
      else if \<not> vs_cu_active s
      then if wants_paced then s\<lparr>vs_cu_off_for_pacing := True\<rparr>
           else (send (enable_continuous_updates True (full_rect s)) s)\<lparr>vs_cu_active := True\<rparr>
      else resume_request_pipeline (s\<lparr>vs_cu_active := False\<rparr>))"

subsection \<open>Fences and the pixel format\<close>

definition PF_FENCE_PAYLOAD :: bytes where "PF_FENCE_PAYLOAD = ascii_bytes (chars_of ''pf-switch'')"

text \<open>A fence from the server: a request is echoed, and the answer to ours is where the format changes.\<close>

definition handle_fence :: "u32 \<Rightarrow> bytes \<Rightarrow> 'z vnc_session \<Rightarrow> 'z vnc_session" where
  "handle_fence flags payload s0 =
     (let s = s0\<lparr>vs_caps := (vs_caps s0)\<lparr>vc_fence := True\<rparr>\<rparr> in
      if flags AND FENCE_REQUEST \<noteq> 0 then send (client_fence (flags AND KNOWN_RESPONSE_MASK) payload) s
      else if payload = PF_FENCE_PAYLOAD
      then (case vs_pending_pf s of
              [] \<Rightarrow> s
            | new_pf # later \<Rightarrow>
                let s1 = s\<lparr>vs_pending_pf := later, vs_pf := new_pf,
                      vs_caps := (vs_caps s)\<lparr>vc_pixel_format := Some new_pf\<rparr>,
                      vs_decoder := set_pixel_format new_pf (vs_decoder s)\<rparr>
                in if \<not> vs_colour_map_since_pf s1
                   then s1\<lparr>vs_colour_map_since_pf := False, vs_decoder := clear_colour_map (vs_decoder s1)\<rparr>
                   else s1\<lparr>vs_colour_map_since_pf := False\<rparr>)
      else s)"

definition handle_colour_map :: "u16 \<Rightarrow> (u16 \<times> u16 \<times> u16) list \<Rightarrow> 'z vnc_session \<Rightarrow> 'z vnc_session" where
  "handle_colour_map first entries s =
     s\<lparr>vs_decoder := set_colour_map first entries (vs_decoder s), vs_colour_map_since_pf := True\<rparr>"

definition effective_pf :: "'z vnc_session \<Rightarrow> pixel_format" where
  "effective_pf s = (if vs_pending_pf s = [] then vs_pf s else last (vs_pending_pf s))"

definition switch_guard :: bytes where
  "switch_guard = client_fence (FENCE_REQUEST OR 1 OR 4) PF_FENCE_PAYLOAD"

definition apply_quality :: "quality_settings \<Rightarrow> 'z vnc_session \<Rightarrow> 'z vnc_session" where
  "apply_quality qs s0 =
     (if qs = vs_applied_quality s0 then s0
      else
        let s = send (set_encodings (encodings_for qs (vs_caps s0))) (s0\<lparr>vs_applied_quality := qs\<rparr>);
            new_pf = wire_format (qs_pixel_format qs) True (vs_caps s)
        in if new_pf = effective_pf s then s
           else if \<not> vc_fence (vs_caps s) then s
           else
             let s1 = send (set_pixel_format_msg new_pf) (send switch_guard s);
                 s2 = s1\<lparr>vs_pending_pf := vs_pending_pf s1 @ [new_pf], vs_colour_map_since_pf := False\<rparr>
             in send (framebuffer_update_request False (full_rect s2)) s2)"

subsection \<open>Pseudo rectangles\<close>

definition apply_resize :: "u16 \<Rightarrow> u16 \<Rightarrow> 'z vnc_session \<Rightarrow> vnc_error + 'z vnc_session" where
  "apply_resize width height s =
     (if width = 0 \<or> height = 0 then Inl (VncProtocol ''server resized framebuffer to zero'')
      else
        case check_framebuffer_size width height of
          Some e \<Rightarrow> Inl e
        | None \<Rightarrow>
            if width = vs_width s \<and> height = vs_height s then Inr s
            else
              let s1 = s\<lparr>vs_width := width, vs_height := height, vs_caps := (vs_caps s)\<lparr>vc_width := width, vc_height := height\<rparr>\<rparr>;
                  s2 = emit_event (DesktopResize width height) (s1\<lparr>vs_lossy_damage := rect_intersect (vs_lossy_damage s1) (full_rect s1)\<rparr>)
              in Inr (if vs_cu_active s2 then send (enable_continuous_updates True (full_rect s2)) s2 else s2))"

definition send_set_desktop_size :: "u16 \<Rightarrow> u16 \<Rightarrow> 'z vnc_session \<Rightarrow> 'z vnc_session" where
  "send_set_desktop_size width height s =
     (let screen = (case vs_screens s of
          sc # _ \<Rightarrow> sc\<lparr>sc_x := 0, sc_y := 0, sc_width := width, sc_height := height\<rparr>
        | [] \<Rightarrow> \<lparr>sc_id = 0, sc_x = 0, sc_y = 0, sc_width = width, sc_height = height, sc_flags = 0, sc_primary = False\<rparr>)
      in send (set_desktop_size width height [screen]) s)"

definition resize_refusal :: "u16 \<Rightarrow> string" where
  "resize_refusal status =
     (if status = 1 then ''the server prohibits resizing'' else if status = 2 then ''the server is out of resources''
      else if status = 3 then ''the requested layout was invalid'' else if status = 4 then ''the request was forwarded (pending)''
      else ''unknown error'')"

definition set_caps :: "(vnc_caps \<Rightarrow> vnc_caps) \<Rightarrow> 'z vnc_session \<Rightarrow> 'z vnc_session" where
  "set_caps f s = s\<lparr>vs_caps := f (vs_caps s)\<rparr>"

definition reapply_size :: "bool \<Rightarrow> 'z vnc_session \<Rightarrow> 'z vnc_session" where
  "reapply_size first s =
     (if first \<and> \<not> vs_resize_reapplied s
      then let s1 = s\<lparr>vs_resize_reapplied := True\<rparr> in
        (case vs_requested_size s1 of
           Some (w, h) \<Rightarrow> if w \<noteq> vs_width s1 \<or> h \<noteq> vs_height s1 then send_set_desktop_size w h s1 else s1
         | None \<Rightarrow> s1)
      else s)"

text \<open>The size in an extended rectangle, unless it refuses a request of this client.\<close>

definition answer_resize :: "u16 \<Rightarrow> u16 \<Rightarrow> u16 \<Rightarrow> u16 \<Rightarrow> 'z vnc_session \<Rightarrow> vnc_error + 'z vnc_session" where
  "answer_resize reason status width height s =
     (if reason = 1 \<and> status \<noteq> 0 then Inr (emit_event (ErrorShown (''Resize failed: '' @ resize_refusal status)) s)
      else
        let changed = (width \<noteq> vs_width s \<or> height \<noteq> vs_height s) in
        case apply_resize width height s of
          Inl e \<Rightarrow> Inl e
        | Inr s2 \<Rightarrow> Inr (if changed \<and> \<not> vs_cu_active s2 then send (framebuffer_update_request True (full_rect s2)) s2 else s2))"

text \<open>The answer says whether the update ends here.\<close>

fun handle_pseudo :: "pseudo_rect \<Rightarrow> 'z vnc_session \<Rightarrow> vnc_error + bool \<times> 'z vnc_session" where
  "handle_pseudo LastRect s = Inr (True, s)"
| "handle_pseudo (DesktopSize width height) s =
     (let changed = (width \<noteq> vs_width s \<or> height \<noteq> vs_height s) in
      case apply_resize width height s of
        Inl e \<Rightarrow> Inl e
      | Inr s1 \<Rightarrow> Inr (False, if changed then send (framebuffer_update_request False (full_rect s1)) s1 else s1))"
| "handle_pseudo (ExtendedDesktopSize reason status width height screens) s =
     (let first = (\<not> vc_extended_desktop_size (vs_caps s));
          layout_changed = (vs_screens s \<noteq> screens);
          s1 = (set_caps (\<lambda>c. c\<lparr>vc_extended_desktop_size := True\<rparr>) s)\<lparr>vs_screens := screens\<rparr>
      in case answer_resize reason status width height s1 of
           Inl e \<Rightarrow> Inl e
         | Inr s2 \<Rightarrow>
             let s3 = (if layout_changed then emit_event (ScreenLayout (vs_screens s2)) s2 else s2)
             in Inr (False, reapply_size first s3))"
| "handle_pseudo (DesktopName name) s = Inr (False, emit_event (NameChanged name) (set_caps (\<lambda>c. c\<lparr>vc_desktop_name := name\<rparr>) s))"
| "handle_pseudo (Cursor shape) s = Inr (False, emit_event (CursorUpdate shape) s)"
| "handle_pseudo (LedState _) s = Inr (False, s)"
| "handle_pseudo FenceCapable s = Inr (False, set_caps (\<lambda>c. c\<lparr>vc_fence := True\<rparr>) s)"
| "handle_pseudo ContinuousUpdatesCapable s = Inr (False, set_caps (\<lambda>c. c\<lparr>vc_continuous_updates := True\<rparr>) s)"
| "handle_pseudo QemuExtKeyCapable s = Inr (False, set_caps (\<lambda>c. c\<lparr>vc_qemu_ext_key := True\<rparr>) s)"
| "handle_pseudo ExtendedMouseButtonsCapable s = Inr (False, set_caps (\<lambda>c. c\<lparr>vc_extended_mouse_buttons := True\<rparr>) s)"

subsection \<open>One update of the framebuffer\<close>

definition decoded_payload_len :: "decoded_rect \<Rightarrow> nat" where
  "decoded_payload_len d =
     (case dr_payload d of
        Rgba px \<Rightarrow> 4 * length px
      | Jpeg b \<Rightarrow> length b
      | H264 data _ _ _ _ \<Rightarrow> length data
      | CopyRect _ _ \<Rightarrow> rect_area (dr_rect d) * 4)"

definition update_budget :: "'z vnc_session \<Rightarrow> nat" where
  "update_budget s = max (unat (vs_width s) * unat (vs_height s) * 4 * 4) (64 * 1024 * 1024)"

record 'z update_state =
  us_session :: "'z vnc_session"
  us_rects :: "decoded_rect list"
  us_damage :: rect
  us_accumulated :: nat
  us_interrupted :: bool

text \<open>One header and what follows it. The answer says whether the update ends here.\<close>

definition update_step :: "'z zlib \<Rightarrow> nat \<Rightarrow> bool \<Rightarrow> 'z update_state \<Rightarrow> (bool \<times> 'z update_state) decoder" where
  "update_step Z budget stop u =
     dbind read_rect_header (\<lambda>(r, encoding).
     let s = us_session u in
     if encoding = PSEUDO_LAST_RECT then dret (True, u)
     else if is_pseudo encoding
     then
       dbind (read_pseudo_rect Z r encoding (vs_pf s) (vs_decoder s)) (\<lambda>(parsed, d).
       case handle_pseudo parsed (s\<lparr>vs_decoder := d\<rparr>) of
         Inl e \<Rightarrow> dfail e
       | Inr (last_rect, s') \<Rightarrow> dret (stop \<or> last_rect, u\<lparr>us_session := s', us_interrupted := stop\<rparr>))
     else if \<not> within (unat (vs_width s)) (unat (vs_height s)) r then dfail (VncProtocol ''rect exceeds framebuffer'')
     else
       dbind (decode_rect Z (vs_decoder s) r encoding) (\<lambda>(p, d).
       let accumulated = us_accumulated u + decoded_payload_len p in
       if budget < accumulated then dfail (VncProtocol ''framebuffer update exceeded its budget of decoded bytes'')
       else dret (stop, u\<lparr>us_session := s\<lparr>vs_decoder := d\<rparr>, us_rects := us_rects u @ [p],
              us_damage := rect_union (us_damage u) (dr_rect p), us_accumulated := accumulated, us_interrupted := stop\<rparr>)))"

text \<open>
  The loop over headers: \<open>left\<close> of 65535 may still be read, and \<open>remaining_rects\<close> is nothing when the count was the
  sentinel. \<open>stops n\<close> says whether the session was ended while the rectangle with \<open>n\<close> headers left was served, and \<open>stops 65535\<close> whether it was while
  the event of the whole update was handed over.
\<close>

fun update_loop ::
  "'z zlib \<Rightarrow> nat \<Rightarrow> (nat \<Rightarrow> bool) \<Rightarrow> nat \<Rightarrow> nat option \<Rightarrow> 'z update_state \<Rightarrow> 'z update_state decoder" where
  "update_loop Z budget stops left_headers (Some 0) u = dret u"
| "update_loop Z budget stops 0 remaining_rects u = dfail (VncProtocol ''framebuffer update exceeded 65535 rects without LastRect'')"
| "update_loop Z budget stops (Suc n) remaining_rects u =
     dbind (update_step Z budget (stops n) u) (\<lambda>(ended, u').
     if ended then dret u' else update_loop Z budget stops n (map_option (\<lambda>k. k - 1) remaining_rects) u')"

definition ALR_QUALITY_FLOOR :: u8 where "ALR_QUALITY_FLOOR = 9"

fun is_lossy :: "rect_payload \<Rightarrow> bool" where
  "is_lossy (Jpeg _) = True"
| "is_lossy (H264 _ _ _ _ _) = True"
| "is_lossy _ = False"

definition note_lossy :: "decoded_rect list \<Rightarrow> rect \<Rightarrow> 'z vnc_session \<Rightarrow> 'z vnc_session" where
  "note_lossy rects damage s =
     (let q = vs_applied_quality s in
      if rects \<noteq> [] \<and> \<not> vs_alr_restore_pending s \<and> (qs_allow_jpeg q \<or> qs_allow_h264 q) \<and>
         qs_jpeg_quality q < ALR_QUALITY_FLOOR \<and> list_ex (\<lambda>d. is_lossy (dr_payload d)) rects
      then s\<lparr>vs_lossy_damage := rect_union (vs_lossy_damage s) damage\<rparr>
      else s)"

definition restore_encodings :: "'z vnc_session \<Rightarrow> 'z vnc_session" where
  "restore_encodings s =
     (if vs_alr_restore_pending s
      then send (set_encodings (encodings_for (vs_applied_quality s) (vs_caps s))) (s\<lparr>vs_alr_restore_pending := False\<rparr>)
      else s)"

text \<open>
  The refresh of what was painted lossily, once the screen is quiet: \<open>due\<close> stands for the settings and the clocks.
\<close>

definition maybe_lossless_refresh :: "bool \<Rightarrow> 'z vnc_session \<Rightarrow> 'z vnc_session" where
  "maybe_lossless_refresh due s =
     (if \<not> due \<or> rect_is_empty (vs_lossy_damage s) \<or> vs_alr_restore_pending s then s
      else
        let region = vs_lossy_damage s;
            sharp = (vs_applied_quality s)\<lparr>qs_allow_jpeg := False, qs_allow_h264 := False\<rparr>;
            s1 = send (set_encodings (encodings_for sharp (vs_caps s))) (s\<lparr>vs_lossy_damage := rect_new 0 0 0 0\<rparr>)
        in (send (framebuffer_update_request False region) s1)\<lparr>vs_alr_restore_pending := True\<rparr>)"

text \<open>What happens at the header, before a rectangle is read, and after the last.\<close>

definition update_started :: "'z vnc_session \<Rightarrow> 'z vnc_session" where
  "update_started s0 =
     (let s = s0\<lparr>vs_pipelined_request := False\<rparr> in
      if vs_priming_update_pending s then s\<lparr>vs_priming_update_pending := False\<rparr>
      else if pacing_requests s then request_next s
      else s)"

definition update_finished :: "bool \<Rightarrow> bool \<Rightarrow> 'z update_state \<Rightarrow> 'z vnc_session" where
  "update_finished stop primed_before u =
     (let s = us_session u; rects = us_rects u; damage = us_damage u;
          s1 = (if pacing_requests s \<and> \<not> primed_before then request_next s else s);
          s2 = note_lossy rects damage s1;
          s3 = (if rects \<noteq> [] then emit_event (FramebufferUpdate rects damage) s2 else s2)
      in if rects \<noteq> [] \<and> stop then s3 else restore_encodings s3)"

text \<open>The whole of it, from the message's second byte on, with the damage it answers.\<close>

definition read_framebuffer_update ::
  "'z zlib \<Rightarrow> (nat \<Rightarrow> bool) \<Rightarrow> 'z vnc_session \<Rightarrow> (rect \<times> 'z vnc_session) decoder" where
  "read_framebuffer_update Z stops s =
     dbind read_framebuffer_update_header (\<lambda>count.
     let primed_before = (\<not> vs_priming_update_pending s);
         s1 = update_started s;
         u = \<lparr>us_session = s1, us_rects = [], us_damage = rect_new 0 0 0 0, us_accumulated = 0, us_interrupted = False\<rparr>
     in dbind (update_loop Z (update_budget s1) stops 65535 (if count = 0xFFFF then None else Some (unat count)) u) (\<lambda>u'.
        if us_interrupted u' then dret (us_damage u', us_session u')
        else dret (us_damage u', update_finished (stops 65535) primed_before u')))"

subsection \<open>The clipboard of the server\<close>

definition dstuck :: "'a decoder" where
  "dstuck bs = Stuck"

definition answer_clipboard :: "'c clip_zlib \<Rightarrow> u32 \<Rightarrow> 'z vnc_session \<Rightarrow> 'z vnc_session decoder" where
  "answer_clipboard C flags s0 =
     (let s = set_caps (\<lambda>c. c\<lparr>vc_extended_clipboard := True\<rparr>) s0 in
      if flags AND ACTION_CAPS \<noteq> 0
      then dret (if \<not> vs_clipboard_caps_sent s then send (CLIENT_CUT_TEXT # encode_caps) (s\<lparr>vs_clipboard_caps_sent := True\<rparr>) else s)
      else if flags AND ACTION_REQUEST \<noteq> 0
      then
        if flags AND FORMAT_TEXT \<noteq> 0
        then (case vs_clipboard_offered s of
                None \<Rightarrow> dret s
              | Some offered \<Rightarrow>
                  (case encode_provide_text C offered of
                     None \<Rightarrow> dstuck
                   | Some body \<Rightarrow> dret (send (CLIENT_CUT_TEXT # body) s)))
        else dret s
      else if flags AND ACTION_NOTIFY \<noteq> 0
      then let s1 = emit_event (ClipboardNotify (flags AND FORMAT_MASK)) s in
        dret (if flags AND FORMAT_TEXT \<noteq> 0 then send (extended_clipboard_request FORMAT_TEXT) s1 else s1)
      else dret s)"

definition handle_server_cut_text :: "'c clip_zlib \<Rightarrow> 'z vnc_session \<Rightarrow> 'z vnc_session decoder" where
  "handle_server_cut_text C s0 =
     dbind read_server_cut_text (\<lambda>payload.
     dbind (case payload of Legacy _ \<Rightarrow> dret s0 | Extended d \<Rightarrow> answer_clipboard C (from_be_bytes (take 4 d)) s0) (\<lambda>s.
     let framed = (case payload of
           Legacy d \<Rightarrow> [0, 0, 0] @ to_be_bytes (of_nat (length d) :: u32) @ d
         | Extended d \<Rightarrow> [0, 0, 0] @ to_be_bytes (- of_nat (length d) :: u32) @ d);
         (got, clipboard) = handle_cut_text C framed (vs_clipboard s);
         s1 = s\<lparr>vs_clipboard := clipboard\<rparr>
     in dret (case got of Some c \<Rightarrow> emit_event (ClipboardText c) s1 | None \<Rightarrow> s1)))"

subsection \<open>A message of the server\<close>

text \<open>Whether the tuner wants paced updates is its own affair.\<close>

definition handle_server_message ::
  "'z zlib \<Rightarrow> 'c clip_zlib \<Rightarrow> (nat \<Rightarrow> bool) \<Rightarrow> bool \<Rightarrow> u8 \<Rightarrow> 'z vnc_session \<Rightarrow> 'z vnc_session decoder" where
  "handle_server_message Z C stops wants_paced msg_type s =
     (if msg_type = 0 then dbind (read_framebuffer_update Z stops s) (\<lambda>(_, s'). dret s')
      else if msg_type = 1
      then dbind read_set_colour_map_entries (\<lambda>(first, entries). dret (handle_colour_map first entries s))
      else if msg_type = 2 then dret (emit_event BellRung s)
      else if msg_type = 3 then handle_server_cut_text C s
      else if msg_type = 150 then dret (end_of_continuous_updates wants_paced s)
      else if msg_type = 248 then dbind read_server_fence (\<lambda>(flags, payload). dret (handle_fence flags payload s))
      else dfail (VncProtocol ''unknown server message type''))"

section \<open>What a server can do\<close>

text \<open>
  What a server can do to a session with its bytes: neither a panic nor an endless loop, and every event it causes is one the
  application can take. And the pipeline of requests: when the client paces the updates, a request is outstanding.
\<close>

subsection \<open>The invariant\<close>

definition size_ok :: "u16 \<Rightarrow> u16 \<Rightarrow> bool" where
  "size_ok width height \<longleftrightarrow> 0 < width \<and> 0 < height \<and> unat width * unat height \<le> MAX_FRAMEBUFFER_PIXELS"

definition session_wf :: "'z vnc_session \<Rightarrow> bool" where
  "session_wf s \<longleftrightarrow> decoder_wf (vs_decoder s) \<and> size_ok (vs_width s) (vs_height s)"

text \<open>The most bytes one update may hold: four framebuffers, or the floor.\<close>

definition UPDATE_LIMIT :: nat where "UPDATE_LIMIT = MAX_FRAMEBUFFER_PIXELS * 16"

definition rects_ok :: "decoded_rect list \<Rightarrow> rect \<Rightarrow> bool" where
  "rects_ok rects damage \<longleftrightarrow>
     sum_list (map decoded_payload_len rects) \<le> UPDATE_LIMIT \<and> length rects \<le> 65535 \<and>
     list_all (\<lambda>d. payload_fits (dr_rect d) (dr_payload d)) rects \<and>
     (\<forall>d x y. d \<in> set rects \<and> covers (dr_rect d) x y \<longrightarrow> covers damage x y)"

fun event_ok :: "vnc_event \<Rightarrow> bool" where
  "event_ok (FramebufferUpdate rects damage) \<longleftrightarrow> rects_ok rects damage"
| "event_ok (DesktopResize width height) \<longleftrightarrow> size_ok width height"
| "event_ok (CursorUpdate c) \<longleftrightarrow> cursor_ok c"
| "event_ok _ \<longleftrightarrow> True"

text \<open>What a step on the session may do: keep the invariant, and add good events.\<close>

definition advances :: "'z vnc_session \<Rightarrow> 'z vnc_session \<Rightarrow> bool" where
  "advances s s' \<longleftrightarrow> session_wf s' \<and> (\<exists>new. vs_events s' = vs_events s @ new \<and> list_all event_ok new)"

lemma advances_refl: "session_wf s \<Longrightarrow> advances s s"
  by (simp add: advances_def)

lemma advances_wf: "advances s s' \<Longrightarrow> session_wf s'"
  by (simp add: advances_def)

lemma advances_trans: "advances s s1 \<Longrightarrow> advances s1 s2 \<Longrightarrow> advances s s2"
  by (auto simp: advances_def)

lemma advances_same:
  "session_wf s \<Longrightarrow> decoder_wf (vs_decoder s') \<Longrightarrow> vs_width s' = vs_width s \<Longrightarrow> vs_height s' = vs_height s \<Longrightarrow>
   vs_events s' = vs_events s \<Longrightarrow> advances s s'"
  by (auto simp: advances_def session_wf_def)

lemma advances_emit: "session_wf s \<Longrightarrow> event_ok e \<Longrightarrow> advances s (emit_event e s)"
  by (auto simp: advances_def session_wf_def emit_event_def)

lemma advances_send [simp]: "advances s (send m s') = advances s s'"
  by (simp add: advances_def session_wf_def send_def)

lemma session_wf_send [simp]: "session_wf (send m s) = session_wf s"
  by (simp add: session_wf_def send_def)

lemma session_wf_emit [simp]: "session_wf (emit_event e s) = session_wf s"
  by (simp add: session_wf_def emit_event_def)

lemma advances_caps: "session_wf s \<Longrightarrow> advances s (set_caps f s)"
  by (rule advances_same) (auto simp: set_caps_def session_wf_def)

lemmas session_simps = send_def emit_event_def set_caps_def arm_pipelined_request_def request_next_def full_rect_def

subsection \<open>Every pseudo rectangle\<close>

lemma resize_advances:
  assumes "session_wf s" and "apply_resize width height s = Inr s'"
  shows "advances s s'"
  using assms
  by (auto simp: apply_resize_def check_framebuffer_size_def advances_def session_wf_def size_ok_def session_simps Let_def word_neq_0_conv
      split: if_splits)

lemma reapply_advances: "session_wf s \<Longrightarrow> advances s (reapply_size first s)"
  by (rule advances_same) (auto simp: reapply_size_def send_set_desktop_size_def session_simps Let_def session_wf_def split: option.splits prod.splits)

lemma answer_resize_advances:
  assumes "session_wf s" and "answer_resize reason status width height s = Inr s'"
  shows "advances s s'"
proof (cases "reason = 1 \<and> status \<noteq> 0")
  case True
  have "advances s (emit_event (ErrorShown e) s)" for e by (rule advances_emit [OF assms(1)]) simp
  then show ?thesis using assms(2) unfolding answer_resize_def if_P [OF True] by blast
next
  case False
  then show ?thesis
    using assms(2) resize_advances [OF assms(1), of width height] unfolding answer_resize_def if_not_P [OF False] Let_def
    by (cases "apply_resize width height s") auto
qed

lemma extended_advances:
  assumes "session_wf s" and "handle_pseudo (ExtendedDesktopSize reason status width height screens) s = Inr (stop, s')"
  shows "advances s s'"
proof -
  let ?s1 = "(set_caps (\<lambda>c. c\<lparr>vc_extended_desktop_size := True\<rparr>) s)\<lparr>vs_screens := screens\<rparr>"
  have s1: "advances s ?s1" using assms(1) by (intro advances_same) (auto simp: set_caps_def session_wf_def)
  obtain s2 where answer: "answer_resize reason status width height ?s1 = Inr s2"
      and s': "s' = reapply_size (\<not> vc_extended_desktop_size (vs_caps s))
        (if vs_screens s \<noteq> screens then emit_event (ScreenLayout (vs_screens s2)) s2 else s2)"
    using assms(2) by (cases "answer_resize reason status width height ?s1") (auto simp: Let_def)
  note s2 = answer_resize_advances [OF advances_wf [OF s1] answer]
  let ?s3 = "if vs_screens s \<noteq> screens then emit_event (ScreenLayout (vs_screens s2)) s2 else s2"
  have s3: "advances s2 ?s3" using advances_wf [OF s2] by (simp add: advances_emit advances_refl)
  show ?thesis
    unfolding s' by (rule advances_trans [OF advances_trans [OF advances_trans [OF s1 s2] s3] reapply_advances [OF advances_wf [OF s3]]])
qed

lemma pseudo_advances:
  assumes "session_wf s" and "pseudo_ok p" and "handle_pseudo p s = Inr (stop, s')"
  shows "advances s s'"
proof (cases p)
  case (DesktopSize w h)
  then show ?thesis
    using assms resize_advances [OF assms(1), of w h] by (auto simp: Let_def split: sum.splits)
next
  case (ExtendedDesktopSize a b c d e)
  then show ?thesis using extended_advances [OF assms(1)] assms(3) by simp
next
  case (DesktopName name)
  have "advances s (emit_event (NameChanged name) (set_caps (\<lambda>c. c\<lparr>vc_desktop_name := name\<rparr>) s))"
    by (rule advances_trans [OF advances_caps [OF assms(1)] advances_emit]) (simp_all add: advances_wf [OF advances_caps [OF assms(1)]])
  then show ?thesis using DesktopName assms(3) by simp
qed (use assms in \<open>auto simp: advances_refl advances_emit advances_caps\<close>)

subsection \<open>One update\<close>

definition update_inv :: "nat \<Rightarrow> 'z vnc_session \<Rightarrow> nat \<Rightarrow> 'z update_state \<Rightarrow> bool" where
  "update_inv budget s0 left_headers u \<longleftrightarrow> advances s0 (us_session u) \<and>
     us_accumulated u = sum_list (map decoded_payload_len (us_rects u)) \<and> us_accumulated u \<le> budget \<and>
     length (us_rects u) + left_headers \<le> 65535 \<and>
     list_all (\<lambda>d. payload_fits (dr_rect d) (dr_payload d)) (us_rects u) \<and>
     within 65535 65535 (us_damage u) \<and>
     (\<forall>d x y. d \<in> set (us_rects u) \<and> covers (dr_rect d) x y \<longrightarrow> covers (us_damage u) x y)"

lemma update_step_safe:
  assumes "zlib_ok Z" and inv: "update_inv budget s0 (Suc n) u"
  shows "safely (\<lambda>(_, u'). update_inv budget s0 n u') (update_step Z budget stop u)"
proof -
  let ?s = "us_session u"
  have adv: "advances s0 ?s" using inv by (simp add: update_inv_def)
  note wf = advances_wf [OF adv]
  have dwf: "decoder_wf (vs_decoder ?s)" using wf by (simp add: session_wf_def)
  have keep: "update_inv budget s0 n u" using inv by (simp add: update_inv_def)
  have pseudo: "update_inv budget s0 n (u\<lparr>us_session := s', us_interrupted := stop\<rparr>)"
    if "pseudo_ok p" "decoder_wf d" "handle_pseudo p (?s\<lparr>vs_decoder := d\<rparr>) = Inr (last_rect, s')" for p d last_rect s'
  proof -
    have "advances ?s (?s\<lparr>vs_decoder := d\<rparr>)" using that(2) wf by (intro advances_same) auto
    then have "advances ?s s'" using pseudo_advances [OF _ that(1,3)] advances_wf advances_trans by blast
    then show ?thesis using keep advances_trans [OF adv] by (simp add: update_inv_def)
  qed
  have data: "update_inv budget s0 n (u\<lparr>us_session := ?s\<lparr>vs_decoder := d\<rparr>, us_rects := us_rects u @ [p],
      us_damage := rect_union (us_damage u) r, us_accumulated := us_accumulated u + decoded_payload_len p, us_interrupted := stop\<rparr>)"
    if "dr_rect p = r" "payload_fits r (dr_payload p)" "decoder_wf d" "us_accumulated u + decoded_payload_len p \<le> budget"
      "within (unat (vs_width ?s)) (unat (vs_height ?s)) r" for p d r
  proof -
    have adv': "advances s0 (?s\<lparr>vs_decoder := d\<rparr>)"
      by (rule advances_trans [OF adv], rule advances_same [OF wf]) (use that(3) in auto)
    have edge: "unat (vs_width ?s) \<le> 65535" "unat (vs_height ?s) \<le> 65535"
    proof -
      have "unat w < 65536" for w :: u16 using unsigned_less [of w] by simp
      from this [of "vs_width ?s"] this [of "vs_height ?s"]
      show "unat (vs_width ?s) \<le> 65535" "unat (vs_height ?s) \<le> 65535" by linarith+
    qed
    have r: "within 65535 65535 r" using that(5) edge unfolding within_def by simp
    have old: "within 65535 65535 (us_damage u)" using inv by (simp add: update_inv_def)
    note union = union_within [OF old r]
    show ?thesis
      using inv adv' that(1,2,4) union by (auto simp: update_inv_def)
  qed
  show ?thesis
    unfolding update_step_def Let_def
  proof (rule safely_bind [OF safely_rect_header], unfold case_prod_unfold, intro safely_if)
    show "safely (\<lambda>p. update_inv budget s0 n (snd p)) (dret (True, u))" using keep by (simp add: safely_ret)
  next
    fix a :: "rect \<times> u32"
    show "safely (\<lambda>p. update_inv budget s0 n (snd p))
      (dbind (read_pseudo_rect Z (fst a) (snd a) (vs_pf ?s) (vs_decoder ?s)) (\<lambda>p. case handle_pseudo (fst p) (?s\<lparr>vs_decoder := snd p\<rparr>) of
         Inl e \<Rightarrow> dfail e
       | Inr q \<Rightarrow> dret (stop \<or> fst q, u\<lparr>us_session := snd q, us_interrupted := stop\<rparr>)))"
      by (rule safely_bind [OF safely_pseudo [OF assms(1) dwf]])
        (auto split: sum.split intro!: safely_fail safely_ret pseudo)
  next
    fix a :: "rect \<times> u32"
    assume "\<not> \<not> within (unat (vs_width ?s)) (unat (vs_height ?s)) (fst a)"
    then show "safely (\<lambda>p. update_inv budget s0 n (snd p))
      (dbind (decode_rect Z (vs_decoder ?s) (fst a) (snd a)) (\<lambda>p.
         if budget < us_accumulated u + decoded_payload_len (fst p)
         then dfail (VncProtocol ''framebuffer update exceeded its budget of decoded bytes'')
         else dret (stop, u\<lparr>us_session := ?s\<lparr>vs_decoder := snd p\<rparr>, us_rects := us_rects u @ [fst p],
           us_damage := rect_union (us_damage u) (dr_rect (fst p)),
           us_accumulated := us_accumulated u + decoded_payload_len (fst p), us_interrupted := stop\<rparr>)))"
      unfolding decode_rect_def
      by (intro safely_bind [OF safely_decode_rect_as [OF assms(1) dwf]] safely_if safely_fail) (auto intro!: safely_ret data)
  qed (rule safely_fail)
qed

lemma update_loop_safe:
  assumes "zlib_ok Z"
  shows "update_inv budget s0 n u \<Longrightarrow> safely (update_inv budget s0 0) (update_loop Z budget stops n remaining_rects u)"
proof (induction n arbitrary: remaining_rects u)
  case 0
  then show ?case by (cases remaining_rects; cases "the remaining_rects") (auto intro: safely_ret safely_fail)
next
  case (Suc n)
  have enough: "update_inv budget s0 k u \<Longrightarrow> update_inv budget s0 0 u" for k and u :: "'a update_state" by (simp add: update_inv_def)
  show ?case
  proof (cases "remaining_rects = Some 0")
    case True
    then show ?thesis using enough [OF Suc.prems] by (simp add: safely_ret)
  next
    case False
    then have loop: "update_loop Z budget stops (Suc n) remaining_rects u =
        dbind (update_step Z budget (stops n) u) (\<lambda>(ended, u').
          if ended then dret u' else update_loop Z budget stops n (map_option (\<lambda>k. k - 1) remaining_rects) u')"
      by (cases remaining_rects; cases "the remaining_rects") auto
    show ?thesis
      unfolding loop
    proof (rule safely_bind [OF update_step_safe [OF assms Suc.prems]], unfold case_prod_unfold, rule safely_if)
      fix p assume inv: "update_inv budget s0 n (snd p)"
      show "safely (update_inv budget s0 0) (dret (snd p))" using safely_ret [of "update_inv budget s0 0" "snd p"] enough [OF inv] by blast
      show "safely (update_inv budget s0 0) (update_loop Z budget stops n (map_option (\<lambda>k. k - 1) remaining_rects) (snd p))"
        by (rule Suc.IH [OF inv])
    qed
  qed
qed

lemma started_advances: "session_wf s \<Longrightarrow> advances s (update_started s)"
  by (rule advances_same) (auto simp: update_started_def session_simps Let_def session_wf_def)

lemma budget_limit: "session_wf s \<Longrightarrow> update_budget s \<le> UPDATE_LIMIT"
  by (auto simp: session_wf_def size_ok_def update_budget_def UPDATE_LIMIT_def MAX_FRAMEBUFFER_PIXELS_def mult.commute)

lemma finished_advances:
  assumes "update_inv budget s0 0 u" and "budget \<le> UPDATE_LIMIT"
  shows "advances s0 (update_finished stop primed u)"
proof -
  let ?s = "us_session u" and ?rects = "us_rects u" and ?damage = "us_damage u"
  have adv: "advances s0 ?s" using assms(1) by (simp add: update_inv_def)
  have good: "event_ok (FramebufferUpdate ?rects ?damage)" using assms by (auto simp: update_inv_def rects_ok_def)
  define s2 where "s2 = note_lossy ?rects ?damage (if pacing_requests ?s \<and> \<not> primed then request_next ?s else ?s)"
  have s2: "advances ?s s2"
    unfolding s2_def using advances_wf [OF adv]
    by (intro advances_same) (auto simp: note_lossy_def session_simps Let_def session_wf_def)
  define s3 where "s3 = (if ?rects \<noteq> [] then emit_event (FramebufferUpdate ?rects ?damage) s2 else s2)"
  have s3: "advances s2 s3" unfolding s3_def using advances_wf [OF s2] good by (simp add: advances_emit advances_refl)
  have "advances s3 (if ?rects \<noteq> [] \<and> stop then s3 else restore_encodings s3)"
    using advances_wf [OF s3] by (intro advances_same) (auto simp: restore_encodings_def session_simps session_wf_def)
  from advances_trans [OF advances_trans [OF advances_trans [OF adv s2] s3] this]
  show ?thesis unfolding update_finished_def Let_def s2_def [symmetric] s3_def [symmetric] .
qed

lemma update_safe:
  assumes "zlib_ok Z" and "session_wf s"
  shows "safely (\<lambda>(_, s'). advances s s') (read_framebuffer_update Z stops s)"
proof -
  let ?s1 = "update_started s"
  have adv: "advances s ?s1" by (rule started_advances [OF assms(2)])
  note wf = advances_wf [OF adv]
  let ?u = "\<lparr>us_session = ?s1, us_rects = [], us_damage = rect_new 0 0 0 0, us_accumulated = 0, us_interrupted = False\<rparr>"
  have start: "update_inv (update_budget ?s1) s 65535 ?u" using adv by (simp add: update_inv_def within_def)
  have done_well: "update_inv (update_budget ?s1) s 0 u \<Longrightarrow> advances s (us_session u)" for u by (simp add: update_inv_def)
  show ?thesis
    unfolding read_framebuffer_update_def Let_def
    by (rule safely_bind [OF safely_update_header], rule safely_bind [OF update_loop_safe [OF assms(1) start]], intro safely_if safely_ret)
      (auto intro: done_well finished_advances [OF _ budget_limit [OF wf]])
qed

subsection \<open>Every message\<close>

lemma fence_advances: "session_wf s \<Longrightarrow> advances s (handle_fence flags payload s)"
  by (rule advances_same)
    (auto simp: handle_fence_def session_simps Let_def session_wf_def set_pixel_format_def clear_colour_map_def decoder_wf_def split: list.splits)

lemma continuous_advances: "session_wf s \<Longrightarrow> advances s (end_of_continuous_updates paced s)"
  by (rule advances_same) (auto simp: end_of_continuous_updates_def resume_request_pipeline_def session_simps Let_def session_wf_def)

lemma clip_stream_ends: "clip_zlib_ok C \<Longrightarrow> encode_provide_text C t = Some (the (encode_provide_text C t))"
  using sync_flushed_reads_back [of C] by (fastforce simp: encode_provide_text_def Let_def)

lemma answer_safe:
  assumes "clip_zlib_ok C" and "session_wf s"
  shows "safely (advances s) (answer_clipboard C flags s)"
proof -
  let ?s = "set_caps (\<lambda>c. c\<lparr>vc_extended_clipboard := True\<rparr>) s"
  have adv: "advances s ?s" by (rule advances_caps [OF assms(2)])
  have caps: "advances s (?s\<lparr>vs_clipboard_caps_sent := True\<rparr>)"
    by (rule advances_trans [OF adv], rule advances_same [OF advances_wf [OF adv]]) (use advances_wf [OF adv] in \<open>auto simp: session_wf_def\<close>)
  have notify: "advances s (emit_event (ClipboardNotify formats) ?s)" for formats
    by (rule advances_trans [OF adv], rule advances_emit [OF advances_wf [OF adv]]) simp
  show ?thesis
    unfolding answer_clipboard_def Let_def
    by (subst clip_stream_ends [OF assms(1)]) (use adv caps notify in \<open>auto intro!: safely_ret split: option.split\<close>)
qed

lemma cut_text_safe:
  assumes "clip_zlib_ok C" and "session_wf s"
  shows "safely (advances s) (handle_server_cut_text C s)"
proof -
  have first: "safely (advances s) (case p of Legacy _ \<Rightarrow> dret s | Extended d \<Rightarrow> answer_clipboard C (from_be_bytes (take 4 d)) s)" for p
    by (cases p) (auto intro: safely_ret advances_refl assms answer_safe)
  have kept: "advances s (s1\<lparr>vs_clipboard := c\<rparr>)" if "advances s s1" for s1 c
    by (rule advances_trans [OF that], rule advances_same [OF advances_wf [OF that]]) (use advances_wf [OF that] in \<open>auto simp: session_wf_def\<close>)
  have told: "advances s (emit_event (ClipboardText t) (s1\<lparr>vs_clipboard := c\<rparr>))" if "advances s s1" for s1 c t
    by (rule advances_trans [OF kept [OF that, of c]], rule advances_emit [OF advances_wf [OF kept [OF that]]]) simp
  show ?thesis
    unfolding handle_server_cut_text_def Let_def
    by (rule safely_bind [OF safely_cut_text], rule safely_bind [OF first])
      (auto intro!: safely_ret kept told split: option.split prod.split)
qed

lemma colour_map_advances: "session_wf s \<Longrightarrow> advances s (handle_colour_map first_colour entries s)"
  using decoder_keeps_wf(4) [of "vs_decoder s"] by (intro advances_same) (auto simp: handle_colour_map_def session_wf_def)

lemma message_safe:
  assumes "zlib_ok Z" and "clip_zlib_ok C" and "session_wf s"
  shows "safely (advances s) (handle_server_message Z C stops wants_paced msg_type s)"
  unfolding handle_server_message_def
  by (intro safely_if safely_bind [OF update_safe [OF assms(1,3)]] safely_bind [OF safely_colour_map] cut_text_safe
      safely_bind [OF safely_server_fence] safely_fail assms safely_ret continuous_advances advances_emit)
    (auto intro!: safely_ret fence_advances colour_map_advances assms)

end
