(* ===== verification/Vnc_Link.thy ===== *)
theory Vnc_Link
  imports Vnc_Session
begin

text \<open>
  Two protocols inside the session of \<open>run_loop.rs\<close>: the pipeline of update requests, which must never run dry, and the
  change of the pixel format, where the client has to switch at the very rectangle where the server did.
\<close>

unbundle bit_operations_syntax

subsection \<open>Facts about results\<close>

definition gives :: "('a \<Rightarrow> bool) \<Rightarrow> 'a decoder \<Rightarrow> bool" where
  "gives Q m \<longleftrightarrow> (\<forall>bs a rest. m bs = Decoded a rest \<longrightarrow> Q a)"

lemma givesD: "gives Q m \<Longrightarrow> m bs = Decoded a rest \<Longrightarrow> Q a"
  unfolding gives_def by blast

lemma gives_true: "gives (\<lambda>_. True) m"
  by (simp add: gives_def)

lemma gives_ret: "Q a \<Longrightarrow> gives Q (dret a)"
  by (simp add: gives_def dret_def)

lemma gives_fail: "gives Q (dfail e)"
  by (simp add: gives_def dfail_def)

lemma gives_bind: "gives P m \<Longrightarrow> (\<And>a. P a \<Longrightarrow> gives Q (f a)) \<Longrightarrow> gives Q (dbind m f)"
  unfolding gives_def dbind_Decoded by blast

lemma gives_if: "(c \<Longrightarrow> gives Q m) \<Longrightarrow> (\<not> c \<Longrightarrow> gives Q m') \<Longrightarrow> gives Q (if c then m else m')"
  by simp

lemmas gives_any = gives_bind [OF gives_true]

subsection \<open>A request is always outstanding\<close>

definition requested :: "'z vnc_session \<Rightarrow> bool" where
  "requested s \<longleftrightarrow> (pacing_requests s \<longrightarrow> vs_priming_update_pending s \<or> vs_pipelined_request s)"

definition same_pipeline :: "'z vnc_session \<Rightarrow> 'z vnc_session \<Rightarrow> bool" where
  "same_pipeline s s' \<longleftrightarrow> vs_cu_active s' = vs_cu_active s \<and> vs_cu_disable_pending s' = vs_cu_disable_pending s \<and>
     vs_priming_update_pending s' = vs_priming_update_pending s \<and> vs_pipelined_request s' = vs_pipelined_request s"

lemma same_requested: "same_pipeline s s' \<Longrightarrow> requested s \<Longrightarrow> requested s'"
  by (simp add: same_pipeline_def requested_def pacing_requests_def)

lemma same_trans: "same_pipeline s s1 \<Longrightarrow> same_pipeline s1 s2 \<Longrightarrow> same_pipeline s s2"
  by (simp add: same_pipeline_def)

lemma same_refl: "same_pipeline s s"
  by (simp add: same_pipeline_def)

lemma same_send: "same_pipeline s (send m s)" and same_emit: "same_pipeline s (emit_event e s)" and same_caps: "same_pipeline s (set_caps f s)"
  by (simp_all add: same_pipeline_def session_simps)

lemma same_resize: "apply_resize width height s = Inr s' \<Longrightarrow> same_pipeline s s'"
  by (auto simp: apply_resize_def same_pipeline_def session_simps Let_def split: option.splits if_splits)

lemma same_answer: "answer_resize reason status width height s = Inr s' \<Longrightarrow> same_pipeline s s'"
proof (cases "reason = 1 \<and> status \<noteq> 0")
  case True
  assume "answer_resize reason status width height s = Inr s'"
  then show ?thesis unfolding answer_resize_def if_P [OF True] using same_emit by blast
next
  case False
  assume "answer_resize reason status width height s = Inr s'"
  then show ?thesis
    using same_resize [of width height s] same_trans [OF _ same_send] unfolding answer_resize_def if_not_P [OF False] Let_def
    by (cases "apply_resize width height s") (auto split: if_splits)
qed

lemma same_reapply: "same_pipeline s (reapply_size first s)"
  by (auto simp: reapply_size_def send_set_desktop_size_def same_pipeline_def session_simps Let_def split: option.split prod.split)

lemma same_pseudo: "handle_pseudo p s = Inr (stop, s') \<Longrightarrow> same_pipeline s s'"
proof (cases p)
  case (DesktopSize w h)
  assume "handle_pseudo p s = Inr (stop, s')"
  then show ?thesis
    using DesktopSize same_resize [of w h s] same_trans [OF _ same_send] by (auto simp: Let_def split: sum.splits if_splits)
next
  case (ExtendedDesktopSize reason status w h screens)
  assume r: "handle_pseudo p s = Inr (stop, s')"
  let ?s1 = "(set_caps (\<lambda>c. c\<lparr>vc_extended_desktop_size := True\<rparr>) s)\<lparr>vs_screens := screens\<rparr>"
  obtain s2 where s2: "answer_resize reason status w h ?s1 = Inr s2"
      "s' = reapply_size (\<not> vc_extended_desktop_size (vs_caps s)) (if vs_screens s \<noteq> screens then emit_event (ScreenLayout (vs_screens s2)) s2 else s2)"
    using r ExtendedDesktopSize by (cases "answer_resize reason status w h ?s1") (auto simp: Let_def)
  have "same_pipeline s ?s1" by (simp add: same_pipeline_def set_caps_def)
  from same_trans [OF this same_answer [OF s2(1)]]
  have "same_pipeline s (if vs_screens s \<noteq> screens then emit_event (ScreenLayout (vs_screens s2)) s2 else s2)"
    using same_trans [OF _ same_emit] by auto
  then show ?thesis unfolding s2(2) by (rule same_trans [OF _ same_reapply])
qed (auto simp: same_refl same_emit same_caps intro: same_trans [OF same_caps same_emit])

lemma same_pseudo_after: "handle_pseudo p (s\<lparr>vs_decoder := d\<rparr>) = Inr (stop, s') \<Longrightarrow> same_pipeline s s'"
  by (drule same_pseudo) (simp add: same_pipeline_def)

lemma gives_step:
  "gives (\<lambda>(_, u'). same_pipeline (us_session u) (us_session u') \<and> (us_interrupted u' \<longrightarrow> stop \<or> us_interrupted u)) (update_step Z budget stop u)"
proof -
  have kept: "same_pipeline s (s\<lparr>vs_decoder := d\<rparr>)" for s :: "'a vnc_session" and d by (simp add: same_pipeline_def)
  show ?thesis
    unfolding update_step_def Let_def case_prod_unfold
    by (intro gives_any gives_if gives_fail)
      (auto intro!: gives_ret gives_fail simp: same_refl kept dest: same_pseudo_after split: sum.split)
qed

lemma gives_loop:
  "gives (\<lambda>u'. same_pipeline (us_session u) (us_session u') \<and> (us_interrupted u' \<longrightarrow> us_interrupted u)) (update_loop Z budget (\<lambda>_. False) n remaining_rects u)"
proof (induction n arbitrary: remaining_rects u)
  case 0
  then show ?case by (cases remaining_rects; cases "the remaining_rects") (auto intro: gives_ret gives_fail same_refl)
next
  case (Suc n)
  show ?case
  proof (cases "remaining_rects = Some 0")
    case True
    then show ?thesis by (auto intro: gives_ret same_refl)
  next
    case False
    then have loop: "update_loop Z budget (\<lambda>_. False) (Suc n) remaining_rects u =
        dbind (update_step Z budget False u) (\<lambda>(ended, u').
          if ended then dret u' else update_loop Z budget (\<lambda>_. False) n (map_option (\<lambda>k. k - 1) remaining_rects) u')"
      by (cases remaining_rects; cases "the remaining_rects") auto
    show ?thesis
      unfolding loop
    proof (rule gives_bind [OF gives_step], unfold case_prod_unfold, rule gives_if)
      fix p :: "bool \<times> 'a update_state"
      assume step: "same_pipeline (us_session u) (us_session (snd p)) \<and> (us_interrupted (snd p) \<longrightarrow> False \<or> us_interrupted u)"
      then show "gives (\<lambda>u'. same_pipeline (us_session u) (us_session u') \<and> (us_interrupted u' \<longrightarrow> us_interrupted u)) (dret (snd p))"
        by (intro gives_ret) simp
      show "gives (\<lambda>u'. same_pipeline (us_session u) (us_session u') \<and> (us_interrupted u' \<longrightarrow> us_interrupted u))
          (update_loop Z budget (\<lambda>_. False) n (map_option (\<lambda>k. k - 1) remaining_rects) (snd p))"
        using Suc.IH [of "snd p" "map_option (\<lambda>k. k - 1) remaining_rects"] step same_trans
        unfolding gives_def by blast
    qed
  qed
qed

lemma finished_same:
  "same_pipeline (if pacing_requests (us_session u) \<and> \<not> primed then request_next (us_session u) else us_session u) (update_finished stop primed u)"
  by (auto simp: update_finished_def same_pipeline_def restore_encodings_def note_lossy_def session_simps Let_def)

lemma update_requested: "gives requested (dbind (read_framebuffer_update Z (\<lambda>_. False) s) (\<lambda>(_, s'). dret s'))"
proof -
  have finished: "requested (update_finished stop (\<not> vs_priming_update_pending s) u)"
    if same: "same_pipeline (update_started s) (us_session u)" for u stop
  proof (rule same_requested [OF finished_same])
    show "requested (if pacing_requests (us_session u) \<and> \<not> \<not> vs_priming_update_pending s then request_next (us_session u) else us_session u)"
      using same
      by (cases "vs_priming_update_pending s")
        (auto simp: requested_def same_pipeline_def update_started_def pacing_requests_def session_simps Let_def split: if_splits)
  qed
  show ?thesis
    unfolding read_framebuffer_update_def Let_def dbind_assoc
    by (rule gives_any, rule gives_bind [OF gives_loop]) (auto intro: gives_ret finished)
qed

lemma fence_same: "same_pipeline s (handle_fence flags payload s)"
  by (auto simp: handle_fence_def same_pipeline_def session_simps Let_def split: list.split)

lemma answer_clipboard_same: "gives (same_pipeline s) (answer_clipboard C flags s)"
  by (auto simp: answer_clipboard_def same_pipeline_def session_simps Let_def gives_def dstuck_def dret_def split: option.splits)

lemma cut_text_same: "gives (same_pipeline s) (handle_server_cut_text C s)"
proof -
  have first: "gives (same_pipeline s) (case p of Legacy _ \<Rightarrow> dret s | Extended d \<Rightarrow> answer_clipboard C (from_be_bytes (take 4 d)) s)" for p
    by (cases p) (auto intro: gives_ret same_refl answer_clipboard_same)
  show ?thesis
    unfolding handle_server_cut_text_def Let_def
    by (rule gives_any, rule gives_bind [OF first]) (auto intro!: gives_ret simp: same_pipeline_def emit_event_def split: option.split prod.split)
qed

lemma resume_requested: "requested (resume_request_pipeline s)"
  by (auto simp: requested_def resume_request_pipeline_def pacing_requests_def session_simps)

lemma continuous_requested: "requested s \<Longrightarrow> requested (end_of_continuous_updates paced s)"
  using resume_requested
  by (auto simp: end_of_continuous_updates_def Let_def) (auto simp: requested_def pacing_requests_def session_simps)

lemma message_requested:
  "requested s \<Longrightarrow> gives requested (handle_server_message Z C (\<lambda>_. False) paced msg_type s)"
proof -
  assume req: "requested s"
  have same: "gives (same_pipeline s) m \<Longrightarrow> gives requested m" for m
    using same_requested [OF _ req] by (auto simp: gives_def)
  have map: "same_pipeline s (handle_colour_map first_colour entries s)" for first_colour entries
    by (simp add: same_pipeline_def handle_colour_map_def)
  show ?thesis
    unfolding handle_server_message_def
    by (intro gives_if update_requested gives_fail same [OF cut_text_same] gives_ret continuous_requested req
        same_requested [OF same_emit req])
      (auto intro!: gives_any gives_ret same_requested [OF fence_same req] same_requested [OF map req])
qed

text \<open>The steps of a session between its messages.\<close>

inductive vnc_step :: "'z zlib \<Rightarrow> 'c clip_zlib \<Rightarrow> 'z vnc_session \<Rightarrow> 'z vnc_session \<Rightarrow> bool" for Z C where
  message: "handle_server_message Z C (\<lambda>_. False) wants_paced msg_type s bs = Decoded s' rest \<Longrightarrow> vnc_step Z C s s'"
| quality: "vnc_step Z C s (apply_quality q s)"
| pacing: "vnc_step Z C s (set_paced_updates paced s)"
| unanswered: "vnc_step Z C s (abandon_disable s)"
| quiet: "vnc_step Z C s (maybe_lossless_refresh due s)"

lemma quality_same: "same_pipeline s (apply_quality q s)"
  unfolding apply_quality_def Let_def by (simp add: same_pipeline_def session_simps)

lemma quiet_same: "same_pipeline s (maybe_lossless_refresh due s)"
  unfolding maybe_lossless_refresh_def Let_def by (simp add: same_pipeline_def session_simps)

lemma paced_requested: "requested s \<Longrightarrow> requested (set_paced_updates paced s)"
  unfolding set_paced_updates_def by (simp add: requested_def pacing_requests_def session_simps)

lemma step_requested: "vnc_step Z C s s' \<Longrightarrow> requested s \<Longrightarrow> requested s'"
proof -
  assume step: "vnc_step Z C s s'" and req: "requested s"
  from step show ?thesis
  proof cases
    case message
    then show ?thesis by (rule givesD [OF message_requested [OF req]])
  next
    case quality
    then show ?thesis using same_requested [OF quality_same req] by simp
  next
    case pacing
    then show ?thesis using paced_requested [OF req] by simp
  next
    case unanswered
    then show ?thesis using req by (simp add: abandon_disable_def resume_requested)
  next
    case quiet
    then show ?thesis using same_requested [OF quiet_same req] by simp
  qed
qed

lemma steps_requested: "(vnc_step Z C)\<^sup>*\<^sup>* s s' \<Longrightarrow> requested s \<Longrightarrow> requested s'"
  by (induction rule: rtranclp_induct) (auto intro: step_requested)

subsection \<open>The change of the pixel format\<close>

text \<open>
  The two ends and what is between them. What the client sends is what the operations of the session add to \<open>vs_sent\<close>, as bytes; the
  server knows a message by its type and reads fences and formats. It behaves as the fence extension
  documents: a request to synchronise with the next message is answered when that message has been carried out,
  any other request at once, and an answer not at all. It may draw, send colours and ask for fences of its own at any time.
\<close>

datatype client_msg = FenceMsg u32 bytes | FormatMsg pixel_format | OtherMsg

definition client_message :: "bytes \<Rightarrow> client_msg" where
  "client_message m =
     (if m = [] then OtherMsg
      else if hd m = CLIENT_FENCE
      then (case read_server_fence (drop 1 m) of Decoded (flags, payload) _ \<Rightarrow> FenceMsg flags payload | _ \<Rightarrow> OtherMsg)
      else if hd m = SET_PIXEL_FORMAT
      then (case parse_pixel_format (drop 4 m) of Inr pf \<Rightarrow> FormatMsg pf | Inl _ \<Rightarrow> OtherMsg)
      else OtherMsg)"

text \<open>The server on one message: its format, the fence that waits for the next message, and the payloads it answers.\<close>

definition option_list :: "'a option \<Rightarrow> 'a list" where
  "option_list m = (case m of None \<Rightarrow> [] | Some a \<Rightarrow> [a])"

fun server_reads :: "client_msg \<Rightarrow> pixel_format \<Rightarrow> bytes option \<Rightarrow> pixel_format \<times> bytes option \<times> bytes list" where
  "server_reads OtherMsg pf waiting = (pf, None, option_list waiting)"
| "server_reads (FormatMsg new_pf) pf waiting = (new_pf, None, option_list waiting)"
| "server_reads (FenceMsg flags payload) pf waiting =
     (if flags AND FENCE_REQUEST = 0 then (pf, None, option_list waiting)
      else if flags AND 4 \<noteq> 0 then (pf, Some payload, option_list waiting)
      else (pf, None, option_list waiting @ [payload]))"

datatype to_client = RectIn pixel_format | Colours u16 "(u16 \<times> u16 \<times> u16) list" | FenceIn u32 bytes

record 'z format_link =
  fl_session :: "'z vnc_session"
  fl_to_server :: "bytes list"
  fl_server_pf :: pixel_format
  fl_waiting :: "bytes option"
  fl_to_client :: "to_client list"

text \<open>What the client does without a message: another quality, a turn of the tick, a request.\<close>

inductive client_act :: "'z vnc_session \<Rightarrow> 'z vnc_session \<Rightarrow> bool" where
  act_quality: "client_act s (apply_quality q s)"
| act_pacing: "client_act s (set_paced_updates paced s)"
| act_unanswered: "client_act s (abandon_disable s)"
| act_quiet: "client_act s (maybe_lossless_refresh due s)"
| act_request: "client_act s (request_next s)"

text \<open>The session goes on to another state, and what it has sent on the way is on the wire.\<close>

definition client_moves :: "'z vnc_session \<Rightarrow> 'z format_link \<Rightarrow> 'z format_link" where
  "client_moves s' l =
     l\<lparr>fl_session := s', fl_to_server := fl_to_server l @ drop (length (vs_sent (fl_session l))) (vs_sent s')\<rparr>"

inductive format_step :: "'z format_link \<Rightarrow> 'z format_link \<Rightarrow> bool" where
  client_acts: "client_act (fl_session l) s' \<Longrightarrow> format_step l (client_moves s' l)"
| server_takes:
    "fl_to_server l = m # later \<Longrightarrow> server_reads (client_message m) (fl_server_pf l) (fl_waiting l) = (pf, waiting, answers) \<Longrightarrow>
     \<forall>p. flags p AND FENCE_REQUEST = 0 \<Longrightarrow>
     format_step l (l\<lparr>fl_to_server := later, fl_server_pf := pf, fl_waiting := waiting,
       fl_to_client := fl_to_client l @ map (\<lambda>p. FenceIn (flags p) p) answers\<rparr>)"
| server_rect: "format_step l (l\<lparr>fl_to_client := fl_to_client l @ [RectIn (fl_server_pf l)]\<rparr>)"
| server_colours: "format_step l (l\<lparr>fl_to_client := fl_to_client l @ [Colours first entries]\<rparr>)"
| server_asks: "flags AND FENCE_REQUEST \<noteq> 0 \<Longrightarrow> format_step l (l\<lparr>fl_to_client := fl_to_client l @ [FenceIn flags payload]\<rparr>)"
| client_rect: "fl_to_client l = RectIn pf # later \<Longrightarrow> format_step l (l\<lparr>fl_to_client := later\<rparr>)"
| client_colours:
    "fl_to_client l = Colours first entries # later \<Longrightarrow>
     format_step l (client_moves (handle_colour_map first entries (fl_session l)) (l\<lparr>fl_to_client := later\<rparr>))"
| client_fences:
    "fl_to_client l = FenceIn flags payload # later \<Longrightarrow>
     format_step l (client_moves (handle_fence flags payload (fl_session l)) (l\<lparr>fl_to_client := later\<rparr>))"

text \<open>
  What is on its way to the client, read from a format on: the format at its end and the switches left then. And what is on its
  way to the server: it makes these switches, each behind its guard, and no other.
\<close>

fun follow :: "pixel_format \<Rightarrow> pixel_format list \<Rightarrow> to_client list \<Rightarrow> (pixel_format \<times> pixel_format list) option" where
  "follow cur pending [] = Some (cur, pending)"
| "follow cur pending (RectIn pf # items) = (if pf = cur then follow cur pending items else None)"
| "follow cur pending (Colours first entries # items) = follow cur pending items"
| "follow cur pending (FenceIn flags payload # items) =
     (if flags AND FENCE_REQUEST \<noteq> 0 \<or> payload \<noteq> PF_FENCE_PAYLOAD then follow cur pending items
      else case pending of [] \<Rightarrow> None | pf # later \<Rightarrow> follow pf later items)"

fun ahead :: "bytes option \<Rightarrow> pixel_format list \<Rightarrow> client_msg list \<Rightarrow> bool" where
  "ahead waiting pending [] \<longleftrightarrow> waiting = None \<and> pending = []"
| "ahead waiting pending (OtherMsg # ms) \<longleftrightarrow> waiting = None \<and> ahead None pending ms"
| "ahead waiting pending (FormatMsg pf # ms) \<longleftrightarrow>
     waiting = Some PF_FENCE_PAYLOAD \<and> pending \<noteq> [] \<and> hd pending = pf \<and> ahead None (tl pending) ms"
| "ahead waiting pending (FenceMsg flags payload # ms) \<longleftrightarrow> waiting = None \<and>
     (if flags AND FENCE_REQUEST = 0 then ahead None pending ms
      else flags AND 4 \<noteq> 0 \<and> ahead (Some payload) pending ms)"

definition in_step :: "'z format_link \<Rightarrow> bool" where
  "in_step l \<longleftrightarrow> ds_pf (vs_decoder (fl_session l)) = vs_pf (fl_session l) \<and>
     (\<exists>pending. follow (vs_pf (fl_session l)) (vs_pending_pf (fl_session l)) (fl_to_client l) = Some (fl_server_pf l, pending) \<and>
        ahead (fl_waiting l) pending (map client_message (fl_to_server l)))"

lemma follow_more: "follow cur pending items = Some (pf, rest) \<Longrightarrow> follow cur (pending @ added) items = Some (pf, rest @ added)"
  by (induction cur pending items rule: follow.induct) (auto split: if_splits list.splits)

lemma follow_append:
  "follow cur pending items = Some (pf, rest) \<Longrightarrow> follow cur pending (items @ items') = follow pf rest items'"
  by (induction cur pending items rule: follow.induct) (auto split: if_splits list.splits)

lemma ahead_append: "ahead waiting pending ms \<Longrightarrow> ahead None added ms' \<Longrightarrow> ahead waiting (pending @ added) (ms @ ms')"
  by (induction waiting pending ms rule: ahead.induct) (auto split: if_splits)

subsubsection \<open>What the client puts on the wire\<close>

lemma wire_format_parses: "parse_pixel_format (encode_pixel_format (wire_format depth auto_preset caps)) = Inr (wire_format depth auto_preset caps)"
  by (rule pixel_format_back; cases depth)
    (auto simp: wire_format_def bgra8888_def palette8_def rgb222_def rgb565_def Let_def)

lemma message_kinds:
  "client_message (set_encodings es) = OtherMsg"
  "client_message (framebuffer_update_request incremental r) = OtherMsg"
  "client_message (enable_continuous_updates enable r) = OtherMsg"
  by (simp_all add: client_message_def set_encodings_def framebuffer_update_request_def enable_continuous_updates_def Let_def
      SET_ENCODINGS_def FRAMEBUFFER_UPDATE_REQUEST_def ENABLE_CONTINUOUS_UPDATES_def CLIENT_FENCE_def SET_PIXEL_FORMAT_def)

lemma message_fence: "client_message (client_fence flags payload) = FenceMsg flags (take FENCE_MAX_PAYLOAD payload)"
proof -
  have "client_fence flags payload \<noteq> []" "hd (client_fence flags payload) = CLIENT_FENCE" by (simp_all add: client_fence_def Let_def)
  then show ?thesis using fence_back [of flags payload "[]"] by (simp add: client_message_def)
qed

lemma message_guard: "client_message switch_guard = FenceMsg (FENCE_REQUEST OR 1 OR 4) PF_FENCE_PAYLOAD"
proof -
  have "length PF_FENCE_PAYLOAD \<le> FENCE_MAX_PAYLOAD" by code_simp
  then show ?thesis by (simp add: switch_guard_def message_fence)
qed

lemma message_format: "client_message (set_pixel_format_msg (wire_format depth auto_preset caps)) = FormatMsg (wire_format depth auto_preset caps)"
  by (simp add: client_message_def set_pixel_format_msg_def SET_PIXEL_FORMAT_def CLIENT_FENCE_def wire_format_parses)

lemma answer_flags: "(flags AND KNOWN_RESPONSE_MASK) AND FENCE_REQUEST = 0"
  by (simp add: and.assoc KNOWN_RESPONSE_MASK_def FENCE_REQUEST_def)

text \<open>What an operation of the client may do to the link: keep the format, and send each new switch behind its guard.\<close>

definition announces :: "'z vnc_session \<Rightarrow> 'z vnc_session \<Rightarrow> bool" where
  "announces s s' \<longleftrightarrow> vs_pf s' = vs_pf s \<and> ds_pf (vs_decoder s') = ds_pf (vs_decoder s) \<and>
     (\<exists>msgs added. vs_sent s' = vs_sent s @ msgs \<and> vs_pending_pf s' = vs_pending_pf s @ added \<and>
        ahead None added (map client_message msgs))"

lemma announces_sends:
  assumes "vs_pf s' = vs_pf s" and "ds_pf (vs_decoder s') = ds_pf (vs_decoder s)" and "vs_pending_pf s' = vs_pending_pf s @ added"
    and "vs_sent s' = vs_sent s @ msgs" and "ahead None added (map client_message msgs)"
  shows "announces s s'"
  using assms unfolding announces_def by blast

lemma quality_announces: "announces s (apply_quality q s)"
proof -
  let ?pf = "wire_format (qs_pixel_format q) True (vs_caps s)" and ?s' = "apply_quality q s"
  let ?enc = "set_encodings (encodings_for q (vs_caps s))"
  have kept: "vs_pf ?s' = vs_pf s" "ds_pf (vs_decoder ?s') = ds_pf (vs_decoder s)"
    by (auto simp: apply_quality_def session_simps Let_def)
  have "(vs_sent ?s' = vs_sent s \<and> vs_pending_pf ?s' = vs_pending_pf s) \<or>
      (vs_sent ?s' = vs_sent s @ [?enc] \<and> vs_pending_pf ?s' = vs_pending_pf s) \<or>
      (vs_sent ?s' = vs_sent s @ [?enc, switch_guard, set_pixel_format_msg ?pf, framebuffer_update_request False (full_rect s)] \<and>
       vs_pending_pf ?s' = vs_pending_pf s @ [?pf])"
    unfolding apply_quality_def Let_def by (simp add: session_simps)
  then consider (same) "vs_sent ?s' = vs_sent s" "vs_pending_pf ?s' = vs_pending_pf s"
    | (tuned) "vs_sent ?s' = vs_sent s @ [?enc]" "vs_pending_pf ?s' = vs_pending_pf s"
    | (switch) "vs_sent ?s' = vs_sent s @ [?enc, switch_guard, set_pixel_format_msg ?pf, framebuffer_update_request False (full_rect s)]"
        "vs_pending_pf ?s' = vs_pending_pf s @ [?pf]"
    by blast
  then show ?thesis
  proof cases
    case same
    then show ?thesis by (intro announces_sends [OF kept, where added = "[]" and msgs = "[]"]) simp_all
  next
    case tuned
    then show ?thesis by (intro announces_sends [OF kept _ tuned(1), where added = "[]"]) (simp_all add: message_kinds)
  next
    case switch
    then show ?thesis
      by (intro announces_sends [OF kept switch(2,1)]) (simp add: message_kinds message_guard message_format FENCE_REQUEST_def)
  qed
qed

lemma act_announces: "client_act s s' \<Longrightarrow> announces s s'"
proof (induction rule: client_act.induct)
  case (act_quality s q)
  then show ?case by (rule quality_announces)
next
  case (act_pacing s paced)
  then show ?case
    by (auto simp: announces_def set_paced_updates_def session_simps message_kinds)
next
  case (act_unanswered s)
  then show ?case
    by (auto simp: announces_def abandon_disable_def resume_request_pipeline_def session_simps message_kinds)
next
  case (act_quiet due s)
  then show ?case
    by (auto simp: announces_def maybe_lossless_refresh_def session_simps Let_def message_kinds)
next
  case (act_request s)
  then show ?case
    by (auto simp: announces_def session_simps message_kinds)
qed

lemma moves_in:
  assumes "in_step l" and "announces (fl_session l) s'"
  shows "in_step (client_moves s' l)"
proof -
  obtain pending where pending: "follow (vs_pf (fl_session l)) (vs_pending_pf (fl_session l)) (fl_to_client l) = Some (fl_server_pf l, pending)"
      "ahead (fl_waiting l) pending (map client_message (fl_to_server l))"
    using assms(1) by (auto simp: in_step_def)
  obtain msgs added where sent: "vs_sent s' = vs_sent (fl_session l) @ msgs" "vs_pending_pf s' = vs_pending_pf (fl_session l) @ added"
      "ahead None added (map client_message msgs)"
    using assms(2) by (auto simp: announces_def)
  show ?thesis
    using follow_more [OF pending(1)] ahead_append [OF pending(2) sent(3)] sent assms
    by (auto simp: in_step_def client_moves_def announces_def)
qed

lemma fence_kept: "flags AND FENCE_REQUEST \<noteq> 0 \<or> payload \<noteq> PF_FENCE_PAYLOAD \<Longrightarrow> announces s (handle_fence flags payload s)"
  by (auto simp: announces_def handle_fence_def session_simps Let_def message_fence answer_flags)

lemma fence_switch:
  assumes "flags AND FENCE_REQUEST = 0" and "vs_pending_pf s = pf # later"
  shows "vs_pf (handle_fence flags PF_FENCE_PAYLOAD s) = pf \<and> ds_pf (vs_decoder (handle_fence flags PF_FENCE_PAYLOAD s)) = pf \<and>
    vs_pending_pf (handle_fence flags PF_FENCE_PAYLOAD s) = later \<and> vs_sent (handle_fence flags PF_FENCE_PAYLOAD s) = vs_sent s"
  using assms by (simp add: handle_fence_def session_simps Let_def set_pixel_format_def clear_colour_map_def)

lemma colours_announce: "announces s (handle_colour_map first_colour entries s)"
  by (auto simp: announces_def handle_colour_map_def set_colour_map_def Let_def)

subsubsection \<open>The invariant\<close>

lemma take_in:
  assumes "in_step l" and "fl_to_server l = m # later" and "\<forall>p. flags p AND FENCE_REQUEST = 0"
    and "server_reads (client_message m) (fl_server_pf l) (fl_waiting l) = (pf, waiting, answers)"
  shows "in_step (l\<lparr>fl_to_server := later, fl_server_pf := pf, fl_waiting := waiting,
    fl_to_client := fl_to_client l @ map (\<lambda>p. FenceIn (flags p) p) answers\<rparr>)"
proof -
  obtain pending where pending: "follow (vs_pf (fl_session l)) (vs_pending_pf (fl_session l)) (fl_to_client l) = Some (fl_server_pf l, pending)"
      "ahead (fl_waiting l) pending (client_message m # map client_message later)"
    using assms(1,2) by (auto simp: in_step_def)
  show ?thesis
    using pending assms(1,3,4) follow_append [OF pending(1)]
    by (cases "client_message m"; cases pending) (auto simp: in_step_def option_list_def split: if_splits)
qed

lemma format_step_in: "format_step l l' \<Longrightarrow> in_step l \<Longrightarrow> in_step l'"
proof (induction rule: format_step.induct)
  case (client_acts l s')
  then show ?case by (intro moves_in act_announces)
next
  case (server_takes l m later pf waiting answers flags)
  then show ?case by (intro take_in)
next
  case (server_rect l)
  then show ?case by (auto simp: in_step_def follow_append)
next
  case (server_colours l first entries)
  then show ?case by (auto simp: in_step_def follow_append)
next
  case (server_asks flags l payload)
  then show ?case by (auto simp: in_step_def follow_append)
next
  case (client_rect l pf later)
  then show ?case by (auto simp: in_step_def split: if_splits)
next
  case (client_colours l first entries later)
  then have "in_step (l\<lparr>fl_to_client := later\<rparr>)" by (auto simp: in_step_def)
  then show ?case using colours_announce by (intro moves_in) auto
next
  case (client_fences l flags payload later)
  show ?case
  proof (cases "flags AND FENCE_REQUEST \<noteq> 0 \<or> payload \<noteq> PF_FENCE_PAYLOAD")
    case True
    then have "in_step (l\<lparr>fl_to_client := later\<rparr>)" using client_fences by (auto simp: in_step_def)
    then show ?thesis using fence_kept [OF True] by (intro moves_in) auto
  next
    case False
    then obtain pf rest where rest: "vs_pending_pf (fl_session l) = pf # rest"
      using client_fences by (auto simp: in_step_def split: list.splits)
    show ?thesis
      using False fence_switch [OF _ rest, of flags] client_fences rest by (auto simp: in_step_def client_moves_def)
  qed
qed

lemma link_in_step: "format_step\<^sup>*\<^sup>* l l' \<Longrightarrow> in_step l \<Longrightarrow> in_step l'"
  by (induction rule: rtranclp_induct) (auto intro: format_step_in)

end
