(* ===== verification/Vnc_Properties.thy ===== *)
theory Vnc_Properties
  imports Vnc_Link
begin

text \<open>
  The properties of the RFB client, after two groups of lemmas of their own. What the plain encodings paint: an RRE or CoRRE rectangle shows, at each point, the last subrectangle that covers it. Also what the
  session asks a server for, and the two places where its bookkeeping does not keep up with the server.
\<close>

section \<open>Pictures and settings\<close>

unbundle bit_operations_syntax

subsection \<open>RRE, point by point\<close>

definition rre_entry :: "pixel_format \<Rightarrow> colour_map option \<Rightarrow> bool \<Rightarrow> bytes \<Rightarrow> nat \<Rightarrow> rgba \<times> subrect" where
  "rre_entry pf m compact data i =
     (let bpp = bytes_per_pixel pf; per = bpp + (if compact then 4 else 8); s = take per (drop (i * per) data)
      in (pixel_to_rgba (take bpp s) pf m, rre_geometry compact (drop bpp s)))"

fun inside_subrect :: "nat \<Rightarrow> nat \<Rightarrow> subrect \<Rightarrow> bool" where
  "inside_subrect x y (sx, sy, sw, sh) \<longleftrightarrow> sx \<le> x \<and> x < sx + sw \<and> sy \<le> y \<and> y < sy + sh"

fun fits_subrect :: "nat \<Rightarrow> nat \<Rightarrow> subrect \<Rightarrow> bool" where
  "fits_subrect w h (sx, sy, sw, sh) \<longleftrightarrow> sx + sw \<le> w \<and> sy + sh \<le> h"

text \<open>The colour of a point: the background, painted over in order.\<close>

definition painted_over :: "rgba \<Rightarrow> (rgba \<times> subrect) list \<Rightarrow> nat \<Rightarrow> nat \<Rightarrow> rgba" where
  "painted_over background entries x y = fold (\<lambda>(c, s) old. if inside_subrect x y s then c else old) entries background"

lemma rre_subrect_eq:
  assumes "i < n" and "length data = n * (bytes_per_pixel pf + (if compact then 4 else 8))"
  shows "rre_subrect pf m compact enc w h data i out =
    (case rre_entry pf m compact data i of (c, (sx, sy, sw, sh)) \<Rightarrow>
       if fits_subrect w h (sx, sy, sw, sh) then dchecked (fill out w sx sy sw sh c)
       else dfail (VncDecode enc ''subrect outside rect''))"
proof -
  let ?per = "bytes_per_pixel pf + (if compact then 4 else 8)"
  have "load (i * ?per) ?per data = Some (take ?per (drop (i * ?per) data))" by (rule load_within [OF assms])
  then have "rre_subrect pf m compact enc w h data i out =
      (case rre_geometry compact (drop (bytes_per_pixel pf) (take ?per (drop (i * ?per) data))) of (sx, sy, sw, sh) \<Rightarrow>
         if w < sx + sw \<or> h < sy + sh then dfail (VncDecode enc ''subrect outside rect'')
         else dchecked (fill out w sx sy sw sh (pixel_to_rgba (take (bytes_per_pixel pf) (take ?per (drop (i * ?per) data))) pf m)))"
    unfolding rre_subrect_def Let_def by (simp only: dchecked_def option.case dbind_simps)
  then show ?thesis by (simp add: rre_entry_def Let_def not_less split: prod.split)
qed

lemma rre_fold:
  assumes "length data = n * (bytes_per_pixel pf + (if compact then 4 else 8))" and "length out = w * h" and "\<forall>i \<in> set is. i < n"
  shows "if list_all (\<lambda>i. fits_subrect w h (snd (rre_entry pf m compact data i))) is
    then \<exists>out'. dfold (rre_subrect pf m compact enc w h data) is out bs = Decoded out' bs \<and> length out' = w * h \<and>
      (\<forall>x < w. \<forall>y < h. at w out' x y = painted_over (at w out x y) (map (rre_entry pf m compact data) is) x y)
    else dfold (rre_subrect pf m compact enc w h data) is out bs = Failed (VncDecode enc ''subrect outside rect'')"
  using assms(2,3)
proof (induction "is" arbitrary: out)
  case Nil
  then show ?case by (simp add: dret_def painted_over_def)
next
  case (Cons i "is")
  obtain c sx sy sw sh where e: "rre_entry pf m compact data i = (c, (sx, sy, sw, sh))" by (metis surj_pair)
  have "i < n" using Cons.prems by simp
  note step = rre_subrect_eq [OF this assms(1), of m enc w h out, unfolded e prod.case]
  show ?case
  proof (cases "fits_subrect w h (sx, sy, sw, sh)")
    case False
    have "rre_subrect pf m compact enc w h data i out = dfail (VncDecode enc ''subrect outside rect'')"
      using step unfolding if_not_P [OF False] .
    then have failed: "dfold (rre_subrect pf m compact enc w h data) (i # is) out bs = Failed (VncDecode enc ''subrect outside rect'')"
      by (simp add: dfail_def)
    have "\<not> list_all (\<lambda>i. fits_subrect w h (snd (rre_entry pf m compact data i))) (i # is)" using False e by auto
    then show ?thesis using failed by (simp only: if_False)
  next
    case True
    then have fit: "sx + sw \<le> w" "sy + sh \<le> h" by simp_all
    obtain out1 where out1: "fill out w sx sy sw sh c = Some out1" "length out1 = w * h"
        "\<And>x y. x < w \<Longrightarrow> y < h \<Longrightarrow> at w out1 x y = (if sx \<le> x \<and> x < sx + sw \<and> sy \<le> y \<and> y < sy + sh then c else at w out x y)"
      using fill_exact [OF Cons.prems(1) fit, of c] by metis
    have head: "dfold (rre_subrect pf m compact enc w h data) (i # is) out = dfold (rre_subrect pf m compact enc w h data) is out1"
      using step True out1(1) by (simp add: dchecked_def dbind_simps)
    have same: "painted_over (at w out1 x y) (map (rre_entry pf m compact data) is) x y =
        painted_over (at w out x y) (map (rre_entry pf m compact data) (i # is)) x y" if "x < w" "y < h" for x y
      using out1(3) [OF that] e by (simp add: painted_over_def)
    have all: "list_all (\<lambda>i. fits_subrect w h (snd (rre_entry pf m compact data i))) (i # is) =
        list_all (\<lambda>i. fits_subrect w h (snd (rre_entry pf m compact data i))) is" using True e by simp
    show ?thesis
      using Cons.IH [OF out1(2)] Cons.prems(2) same unfolding head all by (auto split: if_splits)
  qed
qed

text \<open>More subrectangles than the cap on a payload allows.\<close>

lemma rre_too_long:
  assumes "whole_bytes pf" and "length background = bytes_per_pixel pf"
    and "MAX_WIRE_LEN < unat (count :: u32) * (bytes_per_pixel pf + (if compact then 4 else 8))"
  shows "rre_decode r pf m compact (to_be_bytes count @ background @ bs) =
    Failed (VncDecode (if compact then ''corre'' else ''rre'') ''payload length exceeds cap'')"
proof -
  let ?total = "unat count * (bytes_per_pixel pf + (if compact then 4 else 8))"
  have small: "bytes_per_pixel pf \<le> 4" using assms(1) by (auto simp: whole_bytes_def)
  have same: "from_be_bytes (to_be_bytes count) = count" by (rule from_to_be_bytes) simp
  have count: "read_u32 (to_be_bytes count @ bs) = Decoded count bs" for bs
    by (simp add: read_u32_def dbind_def dret_def read_n_append same)
  have bg: "read_px (bytes_per_pixel pf) (background @ bs) = Decoded background bs" for bs
    using small by (simp add: read_px_def read_n_append assms(2))
  have "unat count < 2 ^ 32" using unsigned_less [where 'a = nat, of count] by simp
  then have "?total \<le> 2 ^ 32 * 12" using small by (intro mult_le_mono) auto
  then have "(2 ^ 64 \<le> ?total) = False" by simp
  then show ?thesis
    using assms(3) unfolding rre_decode_def Let_def by (simp only: dbind_def count bg obind.simps if_False read_exact_vec_def if_True dfail_def)
qed

text \<open>The whole rectangle. The entries are where the stream has them, after the count and the background.\<close>

lemma rre_exact:
  assumes "whole_bytes pf" and "w = unat (rt_width r)" and "h = unat (rt_height r)"
    and "length background = bytes_per_pixel pf" and "length data = unat count * (bytes_per_pixel pf + (if compact then 4 else 8))"
    and "length data \<le> MAX_WIRE_LEN"
  shows "if list_all (\<lambda>i. fits_subrect w h (snd (rre_entry pf m compact data i))) [0..<unat count]
    then \<exists>out. rre_decode r pf m compact (to_be_bytes (count :: u32) @ background @ data @ rest) = Decoded (Rgba out) rest \<and>
      length out = w * h \<and> (\<forall>x < w. \<forall>y < h. at w out x y =
        painted_over (pixel_to_rgba background pf m) (map (rre_entry pf m compact data) [0..<unat count]) x y)
    else rre_decode r pf m compact (to_be_bytes count @ background @ data @ rest) =
      Failed (VncDecode (if compact then ''corre'' else ''rre'') ''subrect outside rect'')"
proof -
  let ?enc = "if compact then ''corre'' else ''rre''" and ?bg = "pixel_to_rgba background pf m"
  let ?loop = "dfold (rre_subrect pf m compact ?enc w h data) [0..<unat count] (replicate (w * h) ?bg)"
  have small: "\<not> 4 < bytes_per_pixel pf" using assms(1) by (auto simp: whole_bytes_def)
  have same: "from_be_bytes (to_be_bytes count) = count" by (rule from_to_be_bytes) simp
  have count: "read_u32 (to_be_bytes count @ bs) = Decoded count bs" for bs
    by (simp add: read_u32_def dbind_def dret_def read_n_append same)
  have bg: "read_px (bytes_per_pixel pf) (background @ bs) = Decoded background bs" for bs
    using small by (simp add: read_px_def read_n_append assms(4))
  let ?total = "unat count * (bytes_per_pixel pf + (if compact then 4 else 8))"
  have body: "read_exact_vec ?total ?enc (data @ rest) = Decoded data rest"
    unfolding assms(5) [symmetric] by (simp add: read_exact_vec_eq [OF assms(6)] read_n_append)
  have total: "(2 ^ 64 \<le> ?total) = False" using assms(6) unfolding assms(5) [symmetric] by (simp add: MAX_WIRE_LEN_def MAX_RECT_AREA_def)
  have run: "rre_decode r pf m compact (to_be_bytes count @ background @ data @ rest) = obind (?loop rest) (\<lambda>out. dret (Rgba out))"
    unfolding rre_decode_def Let_def assms(2,3) [symmetric]
    by (simp only: dbind_def count bg obind.simps total if_False body)
  have at_bg: "x < w \<Longrightarrow> y < h \<Longrightarrow> at w (replicate (w * h) ?bg) x y = ?bg" for x y
    using cell_below [of x w y h] by (simp add: at_def)
  show ?thesis
    using rre_fold [OF assms(5), of "replicate (w * h) ?bg" w h "[0..<unat count]" m ?enc rest] at_bg
    unfolding run by (auto simp: dret_def split: if_splits)
qed

subsection \<open>What the client asks for\<close>

text \<open>Every encoding that a server may answer with has a decoder; the rest of the list only sets something.\<close>

definition is_setting :: "u32 \<Rightarrow> bool" where
  "is_setting n \<longleftrightarrow> n = 0xC0A1E5CE \<or> (\<exists>level \<in> set [0..<10]. n = - 32 + of_nat level \<or> n = - 256 + of_nat level)"

lemma level_setting: "is_setting (jpeg_quality (min level 9)) \<and> is_setting (compression_level (min level 9))"
proof -
  have "unat (min level 9) < 10" by (simp add: min_def word_le_nat_alt)
  then have "unat (min level 9) \<in> set [0..<10]" by simp
  moreover have "ucast (min level 9) = (of_nat (unat (min level 9)) :: u32)" by simp
  ultimately show ?thesis unfolding is_setting_def jpeg_quality_def compression_level_def by metis
qed

lemma data_known: "list_all (\<lambda>e. data_encoding_of e \<noteq> None) [7, 50, 16, 1, 5, 6, 0]"
  by code_simp

lemma pseudo_known:
  "list_all is_pseudo [PSEUDO_LAST_RECT, - 307, - 308, - 239, - 240, - 314, - 312, - 313, - 316, - 258, - 261]"
  by code_simp

lemma encodings_known:
  "list_all (\<lambda>e. data_encoding_of e \<noteq> None \<or> is_pseudo e \<or> is_setting e) (encodings_for q caps)"
proof -
  have "is_setting 0xC0A1E5CE" by (simp add: is_setting_def)
  then show ?thesis
    using data_known pseudo_known level_setting unfolding encodings_for_def list_all_append by simp
qed

lemma wire_format_ok: "pf_ok (wire_format depth auto_preset caps)"
  by (cases depth) (auto simp: wire_format_def pf_ok_def bgra8888_def palette8_def rgb222_def rgb565_def Let_def)

subsection \<open>Where the bookkeeping falls behind\<close>

text \<open>
  The flag that says a colour map came in since the last switch was asked for is one for all the switches on their way: a second
  switch asked for between the map and the answer to the first drops the map of the first.
\<close>

lemma map_lost_between_switches:
  assumes "vs_pending_pf s = [palette8]" and "flags AND FENCE_REQUEST = 0"
    and "vs_pending_pf (apply_quality q (handle_colour_map first_colour entries s)) = [palette8, next_pf]"
  shows "let s' = handle_fence flags PF_FENCE_PAYLOAD (apply_quality q (handle_colour_map first_colour entries s))
    in vs_pf s' = palette8 \<and> ds_colour_map (vs_decoder s') = None"
proof -
  let ?s = "apply_quality q (handle_colour_map first_colour entries s)"
  have "vs_pending_pf (handle_colour_map first_colour entries s) = [palette8]" using assms(1) by (simp add: handle_colour_map_def)
  then have "\<not> vs_colour_map_since_pf ?s"
    using assms(3) unfolding apply_quality_def Let_def by (simp add: session_simps split: if_splits)
  then show ?thesis
    using assms by (simp add: handle_fence_def Let_def set_pixel_format_def clear_colour_map_def)
qed

section \<open>Properties\<close>

text \<open>
  What the RFB client promises: what a server's bytes can do to a session, what the picture shows, what the decoders
  compute, and the protocols inside the session. The libraries a witness needs are the simplest that keep their promises: a
  decompressor and a compressor that copy.
\<close>

subsection \<open>The simplest libraries\<close>

definition copying :: "unit zlib" where
  "copying =
     \<lparr>zl_new = (), zl_reset = (\<lambda>z. z),
      zl_call = (\<lambda>z input room. let n = min (length input) room in Inr (if n = 0 then BufError else StatusOk, n, take n input, z)),
      zl_reserved = (+)\<rparr>"

lemma copying_ok: "zlib_ok copying"
  by (auto simp: zlib_ok_def copying_def Let_def split: if_splits)

definition clip_copying :: "unit clip_zlib" where
  "clip_copying =
     \<lparr>cz_new = (), cz_call = (\<lambda>z input room. (min (length input) room, take room input, z)), cz_reserved = (+), cz_inflated = (\<lambda>b. b)\<rparr>"

lemma clip_copying_ok: "clip_zlib_ok clip_copying"
proof -
  have "compressed_by clip_copying raw raw" for raw
    unfolding compressed_by_def
    by (rule exI [of _ "\<lambda>consumed done z. consumed = done \<and> done \<le> length raw"]) (auto simp: clip_copying_def)
  then show ?thesis by (auto simp: clip_zlib_ok_def clip_copying_def)
qed

definition quality0 :: quality_settings where
  "quality0 = \<lparr>qs_jpeg_quality = 6, qs_compression = 2, qs_pixel_format = Full, qs_allow_jpeg = True, qs_allow_h264 = False,
     qs_grayscale_levels = None\<rparr>"

definition caps0 :: vnc_caps where
  "caps0 = \<lparr>vc_desktop_name = [], vc_width = 100, vc_height = 100, vc_pixel_format = None, vc_continuous_updates = False, vc_fence = True,
     vc_extended_desktop_size = False, vc_extended_clipboard = False, vc_qemu_ext_key = False, vc_extended_mouse_buttons = False,
     vc_h264 = False, vc_is_apple_screen_sharing = False\<rparr>"

text \<open>A session as it starts: one hundred pixels square, with its first request on the way.\<close>

definition session0 :: "unit vnc_session" where
  "session0 =
     \<lparr>vs_decoder = decoder_new copying bgra8888, vs_pf = bgra8888, vs_pending_pf = [], vs_colour_map_since_pf = False,
      vs_width = 100, vs_height = 100, vs_caps = caps0, vs_screens = [], vs_resize_reapplied = False, vs_requested_size = None,
      vs_lossy_damage = rect_new 0 0 0 0, vs_alr_restore_pending = False, vs_applied_quality = quality0,
      vs_priming_update_pending = True, vs_pipelined_request = False, vs_cu_active = False, vs_cu_disable_pending = False,
      vs_cu_off_for_pacing = False, vs_clipboard = clipboard_new, vs_clipboard_caps_sent = False, vs_clipboard_offered = None,
      vs_sent = [], vs_events = []\<rparr>"

lemma session0_wf: "session_wf session0"
  by (simp add: session_wf_def session0_def decoder_new_wf size_ok_def MAX_FRAMEBUFFER_PIXELS_def)

subsection \<open>The session\<close>

text \<open>
  C28. Whatever bytes a server sends after the type of a message, serving it neither panics nor runs for ever. It fails, or reads
  a prefix of the bytes and leaves a session whose decoder and size are well formed, and adds only events the application can
  take: updates of at most 65535 rectangles within the budget of decoded bytes, each with all its pixels and all inside
  the damage reported, sizes that are not zero and not too large, cursors with all their pixels.
\<close>

theorem vnc_message_safe:
  assumes "zlib_ok Z" and "clip_zlib_ok C" and "session_wf s"
  shows "case handle_server_message Z C stops wants_paced msg_type s bs of
      Stuck \<Rightarrow> False
    | Panicked \<Rightarrow> False
    | Failed e \<Rightarrow> True
    | Decoded s' rest \<Rightarrow> session_wf s' \<and> (\<exists>new. vs_events s' = vs_events s @ new \<and> list_all event_ok new) \<and> (\<exists>used. bs = used @ rest)"
  using message_safe [OF assms, of stops wants_paced msg_type] by (auto simp: safely_def advances_def split: outcome.splits dest: spec [of _ bs])

theorem vnc_message_safe_witness:
  "case handle_server_message copying clip_copying (\<lambda>_. False) False 2 session0 [7] of
      Stuck \<Rightarrow> False
    | Panicked \<Rightarrow> False
    | Failed e \<Rightarrow> True
    | Decoded s' rest \<Rightarrow> session_wf s' \<and> (\<exists>new. vs_events s' = vs_events session0 @ new \<and> list_all event_ok new) \<and> (\<exists>used. [7] = used @ rest)"
  by (rule vnc_message_safe [OF copying_ok clip_copying_ok session0_wf])

text \<open>
  C31. The pipeline of update requests does not run dry. Along any mix of server messages, changes of quality, starts and stops of
  paced updates, unanswered stops and lossless refreshes, a session that paces the updates itself has a request on its way, its
  first or the next, so that the server always owes it an update.
\<close>

theorem request_outstanding:
  assumes "(vnc_step Z C)\<^sup>*\<^sup>* s s'" and "vs_priming_update_pending s" and "pacing_requests s'"
  shows "vs_priming_update_pending s' \<or> vs_pipelined_request s'"
  using steps_requested [OF assms(1)] assms(2,3) by (simp add: requested_def)

theorem request_outstanding_witness:
  "vs_priming_update_pending (apply_quality (quality0\<lparr>qs_compression := 9\<rparr>) session0) \<or>
   vs_pipelined_request (apply_quality (quality0\<lparr>qs_compression := 9\<rparr>) session0)"
proof (rule request_outstanding)
  show "(vnc_step copying clip_copying)\<^sup>*\<^sup>* session0 (apply_quality (quality0\<lparr>qs_compression := 9\<rparr>) session0)"
    by (rule r_into_rtranclp, rule vnc_step.quality)
qed (simp_all add: session0_def quality0_def apply_quality_def pacing_requests_def session_simps Let_def)

text \<open>
  C30. The pixel format changes at the same rectangle on both sides. The client sends what its operations put into \<open>vs_sent\<close>; the
  server takes these bytes one message at a time, and draws, sends colours and asks for fences of its own whenever it likes. Whatever
  the order of quality changes, requests, switches, rectangles, colour maps and fences in flight, a rectangle that reaches the client is
  decoded in the format the server drew it in, and when nothing is in flight the two ends have the same format and no switch is
  left open.
\<close>

theorem switch_in_step:
  assumes "format_step\<^sup>*\<^sup>* \<lparr>fl_session = s, fl_to_server = [], fl_server_pf = vs_pf s, fl_waiting = None, fl_to_client = []\<rparr> l"
    and "vs_pending_pf s = []" and "ds_pf (vs_decoder s) = vs_pf s"
  shows "(\<forall>pf later. fl_to_client l = RectIn pf # later \<longrightarrow> ds_pf (vs_decoder (fl_session l)) = pf) \<and>
    (fl_to_server l = [] \<and> fl_to_client l = [] \<longrightarrow>
      vs_pending_pf (fl_session l) = [] \<and> ds_pf (vs_decoder (fl_session l)) = fl_server_pf l)"
proof -
  have "in_step l" by (rule link_in_step [OF assms(1)]) (simp add: in_step_def assms(2,3))
  then show ?thesis by (auto simp: in_step_def split: if_splits)
qed

text \<open>A change to a palette: the server draws once before it takes the switch and once after.\<close>

abbreviation flink :: "'z vnc_session \<Rightarrow> bytes list \<Rightarrow> pixel_format \<Rightarrow> bytes option \<Rightarrow> to_client list \<Rightarrow> 'z format_link" where
  "flink s out pf waiting items \<equiv>
     \<lparr>fl_session = s, fl_to_server = out, fl_server_pf = pf, fl_waiting = waiting, fl_to_client = items\<rparr>"

lemma flink_takes:
  "server_reads (client_message m) pf waiting = (pf', waiting', answers) \<Longrightarrow>
   format_step (flink s (m # later) pf waiting items) (flink s later pf' waiting' (items @ map (FenceIn 0) answers))"
  using format_step.server_takes [of "flink s (m # later) pf waiting items" m later pf' waiting' answers "\<lambda>_. 0"] by simp

lemma flink_draws: "format_step (flink s out pf waiting items) (flink s out pf waiting (items @ [RectIn pf]))"
  using format_step.server_rect [of "flink s out pf waiting items"] by simp

lemma flink_shows: "format_step (flink s out pf waiting (RectIn pf' # items)) (flink s out pf waiting items)"
  using format_step.client_rect [of "flink s out pf waiting (RectIn pf' # items)"] by simp

lemma flink_run: "format_step l l1 \<Longrightarrow> format_step\<^sup>*\<^sup>* l1 l2 \<Longrightarrow> format_step\<^sup>*\<^sup>* l l2"
  by (rule converse_rtranclp_into_rtranclp)

definition palette_quality :: quality_settings where
  "palette_quality = quality0\<lparr>qs_pixel_format := Palette256\<rparr>"

definition asked :: "unit vnc_session" where
  "asked = apply_quality palette_quality session0"

definition switched :: "unit vnc_session" where
  "switched = handle_fence 0 PF_FENCE_PAYLOAD asked"

lemma asked_sent:
  "vs_sent asked = [set_encodings (encodings_for palette_quality caps0), switch_guard, set_pixel_format_msg palette8,
      framebuffer_update_request False (full_rect session0)]" and asked_pending: "vs_pending_pf asked = [palette8]"
  by (simp_all add: asked_def apply_quality_def palette_quality_def session0_def quality0_def caps0_def session_simps wire_format_def
      effective_pf_def bgra8888_def palette8_def Let_def)

lemma switch_run:
  "\<exists>out. format_step\<^sup>*\<^sup>* (flink session0 [] bgra8888 None []) (flink switched out palette8 None [RectIn palette8])"
proof -
  let ?es = "set_encodings (encodings_for palette_quality caps0)" and ?set = "set_pixel_format_msg palette8"
  let ?out = "[framebuffer_update_request False (full_rect session0)]"
  have fmt: "client_message ?set = FormatMsg palette8"
    using message_format [of Palette256 True caps0] by (simp add: wire_format_def caps0_def)
  have reads: "server_reads (client_message ?es) pf None = (pf, None, [])"
    "server_reads (client_message switch_guard) pf None = (pf, Some PF_FENCE_PAYLOAD, [])"
    "server_reads (client_message ?set) pf (Some p) = (palette8, None, [p])" for pf p
    by (simp_all add: message_kinds message_guard fmt option_list_def FENCE_REQUEST_def)
  have ask: "format_step (flink session0 [] bgra8888 None []) (flink asked (?es # switch_guard # ?set # ?out) bgra8888 None [])"
    using format_step.client_acts [OF client_act.act_quality, of "flink session0 [] bgra8888 None []" palette_quality]
    by (simp add: client_moves_def asked_def [symmetric] asked_sent) (simp add: session0_def)
  have "vs_sent switched = vs_sent asked" using fence_switch [of 0 asked palette8 "[]"] asked_pending by (simp add: switched_def)
  then have reply: "format_step (flink asked ?out palette8 None (FenceIn 0 PF_FENCE_PAYLOAD # items)) (flink switched ?out palette8 None items)" for items
    using format_step.client_fences [of "flink asked ?out palette8 None (FenceIn 0 PF_FENCE_PAYLOAD # items)" 0 PF_FENCE_PAYLOAD items]
    by (simp add: client_moves_def switched_def)
  have "format_step\<^sup>*\<^sup>* (flink session0 [] bgra8888 None []) (flink switched ?out palette8 None [RectIn palette8])"
    by (rule flink_run [OF ask], rule flink_run [OF flink_takes [OF reads(1)]],
        rule flink_run [OF flink_draws], rule flink_run [OF flink_takes [OF reads(2)]],
        rule flink_run [OF flink_takes [OF reads(3)]], rule flink_run [OF flink_draws],
        simp, rule flink_run [OF flink_shows], rule r_into_rtranclp, rule reply)
  then show ?thesis ..
qed

theorem switch_in_step_witness:
  "\<exists>out. format_step\<^sup>*\<^sup>* (flink session0 [] bgra8888 None []) (flink switched out palette8 None [RectIn palette8]) \<and>
     ds_pf (vs_decoder switched) = palette8"
proof -
  obtain out where run: "format_step\<^sup>*\<^sup>* (flink session0 [] bgra8888 None []) (flink switched out palette8 None [RectIn palette8])"
    using switch_run by blast
  have start: "vs_pf session0 = bgra8888" "vs_pending_pf session0 = []" "ds_pf (vs_decoder session0) = vs_pf session0"
    by (simp_all add: session0_def decoder_new_def)
  from switch_in_step [OF run [folded start(1)] start(2,3)] run show ?thesis by auto
qed

subsection \<open>The picture\<close>

text \<open>
  C29. A decoded rectangle applied to the picture shows, at every point of it, what the rectangle says: inside, its own pixel, or
  the pixel of the JPEG picture it holds, or the old pixel at the source of a copy, where overlapping copies read what was there
  before; outside, and where the picture or the source ends, the old one. The size stays, and no row is read or written out of
  bounds.
\<close>

theorem rect_shown:
  assumes "fb_wf fb" and "payload_fits (dr_rect d) (dr_payload d)"
  shows "\<exists>fb'. framebuffer_apply J d fb = Some fb' \<and> fb_wf fb' \<and> fb_width fb' = fb_width fb \<and> fb_height fb' = fb_height fb \<and>
    (\<forall>px py. in_picture fb px py \<longrightarrow> fb_at fb' px py = picture_after J d fb px py)"
  using apply_exact [OF assms] by (simp add: displays_def)

definition copy_down :: decoded_rect where
  "copy_down = \<lparr>dr_rect = rect_new 0 1 2 3, dr_payload = CopyRect 0 0\<rparr>"

theorem rect_shown_witness:
  "\<exists>fb'. framebuffer_apply (\<lambda>_ _ _. Inl []) copy_down (framebuffer_new 2 4) = Some fb' \<and> fb_wf fb' \<and> fb_width fb' = 2 \<and>
    fb_height fb' = 4 \<and> (\<forall>px py. in_picture (framebuffer_new 2 4) px py \<longrightarrow>
      fb_at fb' px py = picture_after (\<lambda>_ _ _. Inl []) copy_down (framebuffer_new 2 4) px py)"
proof -
  have "payload_fits (dr_rect copy_down) (dr_payload copy_down)" by (simp add: copy_down_def)
  moreover have "fb_width (framebuffer_new 2 4) = 2" "fb_height (framebuffer_new 2 4) = 4" by (simp_all add: framebuffer_new_def)
  ultimately show ?thesis using rect_shown [OF framebuffer_new_wf, where d = copy_down and J = "\<lambda>_ _ _. Inl []", of 2 4] by (simp only:)
qed

text \<open>
  C35. Every fast path of the bulk conversion of pixels computes what one pixel at a time gives: for every format of one to four
  bytes, either byte order, a palette or not, and any number of pixels, the tables, the swizzle and the loops unrolled by size
  agree with the definition, and what the source does not cover is opaque black.
\<close>

theorem conversion_exact:
  assumes "bytes_per_pixel pf \<in> {1, 2, 3, 4}"
  shows "convert_to_rgba_mapped src pf count m =
    map (\<lambda>p. pixel_to_rgba p pf m) (take count (chunks_exact (bytes_per_pixel pf) src)) @
    replicate (count - length src div bytes_per_pixel pf) (0, 0, 0, 255)"
proof -
  have "count - min count n = count - n" for n by simp
  moreover have "take (min count (length src div bytes_per_pixel pf)) (chunks_exact (bytes_per_pixel pf) src) =
      take count (chunks_exact (bytes_per_pixel pf) src)"
    using assms by (auto simp: length_chunks_exact min_def)
  ultimately show ?thesis unfolding convert_eq_reference [OF assms] convert_reference_def Let_def by simp
qed

theorem conversion_exact_witness:
  "convert_to_rgba_mapped [1, 2, 3] palette8 2 None =
    map (\<lambda>p. pixel_to_rgba p palette8 None) (take 2 (chunks_exact (bytes_per_pixel palette8) [1, 2, 3])) @
    replicate (2 - length [1::u8, 2, 3] div bytes_per_pixel palette8) (0, 0, 0, 255)"
  by (rule conversion_exact) (simp add: palette8_def bytes_per_pixel_def)

text \<open>
  C36. The Tight gradient filter of the compact form undoes what the generic one undoes: on a format whose bytes are red, green and
  blue in order the two kernels give the same pixels.
\<close>

theorem gradient_kernels_agree:
  assumes "rgb_in_order pf" and "length data = w * h * 3"
  shows "undo_gradient_generic data pf w h 3 = Some (undo_gradient_compact data w h)"
  by (rule gradient_compact_generic [OF assms])

definition rgb24 :: pixel_format where
  "rgb24 = bgra8888\<lparr>pf_big_endian := True\<rparr>"

theorem gradient_kernels_agree_witness:
  "undo_gradient_generic [1, 2, 3, 250, 4, 5] rgb24 2 1 3 = Some (undo_gradient_compact [1, 2, 3, 250, 4, 5] 2 1)"
  by (rule gradient_kernels_agree) (simp_all add: rgb_in_order_def is_compact_3byte_def rgb24_def bgra8888_def)

text \<open>
  C33. No pixel of one tile of a ZRLE rectangle shows in another: the decoder, which keeps one buffer for all tiles and does not clear
  it, answers exactly what a decoder with a fresh buffer for each tile answers, errors and end of the stream included.
\<close>

theorem zrle_no_stale_pixels:
  assumes "bytes_per_pixel pf \<in> {1, 2, 3, 4}"
  shows "zrle_tiles r pf m enc = zrle_fresh r pf m enc"
  by (rule zrle_tiles_fresh) (use assms in \<open>auto simp: whole_bytes_def\<close>)

theorem zrle_no_stale_pixels_witness:
  "zrle_tiles (rect_new 0 0 70 70) bgra8888 None ''zrle'' = zrle_fresh (rect_new 0 0 70 70) bgra8888 None ''zrle''"
  by (rule zrle_no_stale_pixels) (simp add: bgra8888_def bytes_per_pixel_def)

text \<open>
  C34. A rectangle in RRE or CoRRE, in a format of whole bytes, whose subrectangles are all in the stream, decodes to the picture it
  describes: each point has the colour of the last of its subrectangles that covers it, or the background. It is refused exactly
  when the subrectangles take more than \<open>MAX_WIRE_LEN\<close> bytes, before any of them is looked at, or when a subrectangle leaves the
  rectangle. What follows in the stream is left alone.
\<close>

theorem rre_painted:
  assumes "whole_bytes pf" and "w = unat (rt_width r)" and "h = unat (rt_height r)"
    and "length background = bytes_per_pixel pf" and "length data = unat count * (bytes_per_pixel pf + (if compact then 4 else 8))"
  shows "if MAX_WIRE_LEN < length data
    then rre_decode r pf m compact (to_be_bytes (count :: u32) @ background @ data @ rest) =
      Failed (VncDecode (if compact then ''corre'' else ''rre'') ''payload length exceeds cap'')
    else if list_all (\<lambda>i. fits_subrect w h (snd (rre_entry pf m compact data i))) [0..<unat count]
    then \<exists>out. rre_decode r pf m compact (to_be_bytes count @ background @ data @ rest) = Decoded (Rgba out) rest \<and>
      length out = w * h \<and> (\<forall>x < w. \<forall>y < h. at w out x y =
        painted_over (pixel_to_rgba background pf m) (map (rre_entry pf m compact data) [0..<unat count]) x y)
    else rre_decode r pf m compact (to_be_bytes count @ background @ data @ rest) =
      Failed (VncDecode (if compact then ''corre'' else ''rre'') ''subrect outside rect'')"
proof (cases "MAX_WIRE_LEN < length data")
  case True
  then show ?thesis using rre_too_long [OF assms(1,4), where count = count and compact = compact and m = m and r = r and bs = "data @ rest"] assms(5)
    by (simp only: if_True)
next
  case False
  then have "length data \<le> MAX_WIRE_LEN" by simp
  from rre_exact [OF assms this, of m rest] show ?thesis unfolding if_not_P [OF False] .
qed

theorem rre_painted_witness:
  "if list_all (\<lambda>i. fits_subrect 2 2 (snd (rre_entry palette8 None True [7, 1, 0, 1, 2] i))) [0..<unat (1 :: u32)]
    then \<exists>out. rre_decode (rect_new 0 0 2 2) palette8 None True (to_be_bytes (1 :: u32) @ [3] @ [7, 1, 0, 1, 2] @ [9]) =
        Decoded (Rgba out) [9] \<and>
      length out = 2 * 2 \<and> (\<forall>x < 2. \<forall>y < 2. at 2 out x y =
        painted_over (pixel_to_rgba [3] palette8 None) (map (rre_entry palette8 None True [7, 1, 0, 1, 2]) [0..<unat (1 :: u32)]) x y)
    else rre_decode (rect_new 0 0 2 2) palette8 None True (to_be_bytes (1 :: u32) @ [3] @ [7, 1, 0, 1, 2] @ [9]) =
      Failed (VncDecode (if True then ''corre'' else ''rre'') ''subrect outside rect'')"
proof -
  have small: "(MAX_WIRE_LEN < length ([7, 1, 0, 1, 2] :: bytes)) = False" by (simp add: MAX_WIRE_LEN_def MAX_RECT_AREA_def)
  have two: "(2 :: nat) = unat (2 :: u16)" by simp
  have "whole_bytes palette8" "length ([3] :: bytes) = bytes_per_pixel palette8"
      "length ([7, 1, 0, 1, 2] :: bytes) = unat (1 :: u32) * (bytes_per_pixel palette8 + (if True then 4 else 8))"
    by (simp_all add: whole_bytes_def palette8_def bytes_per_pixel_def)
  note rre_painted [OF this(1) _ _ this(2,3), where w = 2 and h = 2 and r = "rect_new 0 0 2 2" and m = None and rest = "[9]",
      unfolded small if_False rect_new_simps, OF two two]
  then show ?thesis .
qed

text \<open>
  C39. A new size keeps what both sizes show and is opaque black elsewhere, whatever the two sizes.
\<close>

theorem resize_keeps_picture:
  assumes "fb_wf fb"
  shows "\<exists>fb'. framebuffer_resize width height fb = Some fb' \<and> fb_wf fb' \<and> fb_width fb' = width \<and> fb_height fb' = height \<and>
    (\<forall>px py. in_picture fb' px py \<longrightarrow> fb_at fb' px py = (if in_picture fb px py then fb_at fb px py else (0, 0, 0, 255)))"
  by (rule resize_exact [OF assms])

theorem resize_keeps_picture_witness:
  "\<exists>fb'. framebuffer_resize 3 1 (framebuffer_new 2 4) = Some fb' \<and> fb_wf fb' \<and> fb_width fb' = 3 \<and> fb_height fb' = 1 \<and>
    (\<forall>px py. in_picture fb' px py \<longrightarrow>
      fb_at fb' px py = (if in_picture (framebuffer_new 2 4) px py then fb_at (framebuffer_new 2 4) px py else (0, 0, 0, 255)))"
  by (rule resize_keeps_picture [OF framebuffer_new_wf])

subsection \<open>The decoders and the clipboard\<close>

text \<open>
  C32. An H.264 rectangle is given a context number below 64, and its decoder is told to start anew exactly when it must: when this
  frame asks for a reset, or the context has not started on a frame of this rectangle with an IDR since it was last reset or
  given to another rectangle. So a decoder never continues on another rectangle's pictures and is never reset needlessly.
\<close>

theorem h264_reset_exact:
  assumes "h264_run frames = (history, c)" and "h264_track r flags data c = (meta, c')"
  shows "unat (hm_context_id meta) < MAX_CONTEXTS \<and>
    (hm_reset meta \<longleftrightarrow> \<not> (flags AND FLAG_RESET_ALL_CONTEXTS = 0 \<and> flags AND FLAG_RESET_CONTEXT = 0 \<and>
      started history (unat (hm_context_id meta)) r))"
  by (rule reset_answer [OF assms])

theorem h264_reset_exact_witness:
  "unat (hm_context_id (fst (h264_track (rect_new 0 0 8 8) 0 [0, 0, 1, 5] h264_new))) < MAX_CONTEXTS \<and>
    (hm_reset (fst (h264_track (rect_new 0 0 8 8) 0 [0, 0, 1, 5] h264_new)) \<longleftrightarrow>
      \<not> ((0 :: u32) AND FLAG_RESET_ALL_CONTEXTS = 0 \<and> (0 :: u32) AND FLAG_RESET_CONTEXT = 0 \<and>
      started [] (unat (hm_context_id (fst (h264_track (rect_new 0 0 8 8) 0 [0, 0, 1, 5] h264_new)))) (rect_new 0 0 8 8)))"
  by (rule h264_reset_exact [where frames = "[]" and c = h264_new and data = "[0, 0, 1, 5]" and c' = "snd (h264_track (rect_new 0 0 8 8) 0 [0, 0, 1, 5] h264_new)"]) (simp_all add: h264_run_def)

text \<open>
  C37. Inflating ends, for every stream and every state of a library that keeps its documented contract, and answers at most the
  smaller of the caller's bound and the decoder's own, even when the data is compressed to nothing.
\<close>

theorem inflate_ends_within_cap:
  assumes "zlib_ok Z"
  shows "\<exists>r. zlib_decompress Z z input size_hint cap enc = Some r \<and> (\<forall>d z'. r = Inr (d, z') \<longrightarrow> length d \<le> min cap MAX_INFLATED_LEN)"
  by (rule zlib_decompress_ends [OF assms])

theorem inflate_ends_within_cap_witness:
  "\<exists>r. zlib_decompress copying () [1, 2, 3] 2 2 ''zlib'' = Some r \<and>
     (\<forall>d z'. r = Inr (d, z') \<longrightarrow> length d \<le> min 2 MAX_INFLATED_LEN)"
  by (rule inflate_ends_within_cap [OF copying_ok])

text \<open>
  C38. Text copied here arrives there: a message of the extended clipboard with a text of Unicode scalar values without carriage
  returns and with no NUL at its end is read by the receiving code as that text, through the line ends, the UTF-8, the
  length, the compression and the negative length of the frame, up to 10 MiB of wire text.
\<close>

theorem clipboard_text_arrives:
  assumes "clip_zlib_ok C" and "list_all is_scalar s" and "no_returns s" and "s \<noteq> [] \<Longrightarrow> last s \<noteq> 0"
    and "length (provided_text s) \<le> MAX_INBOUND_TEXT"
  shows "\<exists>body. encode_provide_text C s = Some body \<and> handle_cut_text C body c = (Some s, c\<lparr>cl_extended := True\<rparr>)"
  by (rule provide_back [OF assms])

theorem clipboard_text_arrives_witness:
  "\<exists>body. encode_provide_text clip_copying [104, 10, 0x20AC] = Some body \<and>
     handle_cut_text clip_copying body clipboard_new = (Some [104, 10, 0x20AC], clipboard_new\<lparr>cl_extended := True\<rparr>)"
  by (rule clipboard_text_arrives [OF clip_copying_ok])
    (simp_all add: is_scalar_def no_returns_def provided_text_def lf_to_crlf_def encode_utf8_def MAX_INBOUND_TEXT_def)

subsection \<open>Where the code falls short\<close>

lemma header_reads: "read_rect_header (rect_bytes r @ to_be_bytes encoding @ bs) = Decoded (r, encoding) bs"
  by (cases r) (simp only: read_rect_header_def rect_bytes_def append_assoc dbind_def obind.simps msg_append dret_def rect_new_def rect.simps)

lemma loop_some:
  "update_loop Z budget stops (Suc n) (Some (Suc k)) u =
     dbind (update_step Z budget (stops n) u) (\<lambda>(ended, u'). if ended then dret u' else update_loop Z budget stops n (Some k) u')"
  unfolding update_loop.simps option.map diff_Suc_1 ..

text \<open>A rectangle painted with JPEG, and in the same update the news of another size.\<close>

definition paint_and_shrink :: "rect \<Rightarrow> bytes \<Rightarrow> u16 \<Rightarrow> u16 \<Rightarrow> bytes" where
  "paint_and_shrink r data width height =
     [0] @ to_be_bytes (2 :: u16) @
     rect_bytes r @ to_be_bytes (7 :: u32) @ [0x90, of_nat (length data)] @ data @
     rect_bytes (rect_new 0 0 width height) @ to_be_bytes (- 308 :: u32) @ [0, 0, 0, 0]"

text \<open>The rectangle is read.\<close>

lemma short_length:
  assumes "n < 128"
  shows "read_compact_len (of_nat n # bs) = Decoded n bs"
proof -
  have low: "(of_nat n :: u8) AND 0x7F = of_nat n"
  proof -
    have "(of_nat n :: u8) AND mask 7 = of_nat (take_bit 7 n)" by (simp only: take_bit_eq_mask [symmetric] take_bit_of_nat)
    then show ?thesis using assms by (simp add: take_bit_nat_eq_self mask_eq_exp_minus_1)
  qed
  have "(of_nat n :: u8) AND 0x80 = (of_nat n AND 0x7F) AND 0x80" unfolding low ..
  also have "\<dots> = 0" by (simp add: and.assoc)
  finally have high: "(of_nat n :: u8) AND 0x80 = 0" .
  have one: "read_u8 (b # rest) = Decoded b rest" for b rest
    by (simp add: read_u8_def dbind_def dret_def read_n_def from_be_bytes_def from_le_bytes_def)
  have "compact_len_value (of_nat n) None None = n" using assms by (simp add: compact_len_value_def low unat_of_nat)
  then show ?thesis using assms
    by (simp add: read_compact_len_def dbind_def one high dret_def MAX_WIRE_LEN_def MAX_RECT_AREA_def)
qed

lemma streams_kept: "length streams = 4 \<Longrightarrow> reset_streams Z 0x90 streams = streams"
  by (auto simp: reset_streams_def length_Suc_conv eval_nat_numeral)

lemma jpeg_decoded:
  assumes "decoder_wf d" and "pf_ok (ds_pf d)" and "length data < 128" and "rect_area r \<le> MAX_RECT_AREA"
  shows "decode_rect Z d r 7 ([0x90, of_nat (length data)] @ data @ bs) = Decoded (\<lparr>dr_rect = r, dr_payload = Jpeg data\<rparr>, d) bs"
proof -
  have one: "read_u8 (b # rest) = Decoded b rest" for b rest
    by (simp add: read_u8_def dbind_def dret_def read_n_def from_be_bytes_def from_le_bytes_def)
  have body: "read_exact_vec (length data) ''tight'' (data @ bs) = Decoded data bs"
    using assms(3) by (simp add: read_exact_vec_eq MAX_WIRE_LEN_def MAX_RECT_AREA_def read_n_append)
  have streams: "reset_streams Z 0x90 (ds_tight_streams d) = ds_tight_streams d"
    by (rule streams_kept) (use assms(1) in \<open>simp add: decoder_wf_def\<close>)
  have "tight_decode Z r pf m (ds_tight_streams d) ([0x90, of_nat (length data)] @ data @ bs) =
      Decoded (Jpeg data, ds_tight_streams d) bs" for pf m
    by (simp add: tight_decode_def dbind_def one short_length [OF assms(3)] body dret_def streams Let_def)
  then show ?thesis
    using assms(2,4) by (simp add: decode_rect_def decode_rect_as_def decode_payload_def data_encoding_of_def check_pf_def dbind_def dret_def Let_def)
qed

lemma tight_not_pseudo: "\<not> is_pseudo 7" "(7 :: u32) \<noteq> PSEUDO_LAST_RECT"
  by code_simp+

lemma painted_step:
  assumes "session_wf s" and "pf_ok (ds_pf (vs_decoder s))" and "within (unat (vs_width s)) (unat (vs_height s)) r"
    and "length data < 128" and "length data \<le> budget"
  shows "update_step Z budget False
      \<lparr>us_session = s, us_rects = [], us_damage = rect_new 0 0 0 0, us_accumulated = 0, us_interrupted = False\<rparr>
      (rect_bytes r @ to_be_bytes (7 :: u32) @ [0x90, of_nat (length data)] @ data @ bs) =
    Decoded (False, \<lparr>us_session = s, us_rects = [\<lparr>dr_rect = r, dr_payload = Jpeg data\<rparr>],
      us_damage = r, us_accumulated = length data, us_interrupted = False\<rparr>) bs"
proof -
  have "rect_area r \<le> unat (vs_width s) * unat (vs_height s)"
    using assms(3) unfolding rect_area_def within_def by (intro mult_mono) auto
  also have "\<dots> \<le> MAX_RECT_AREA" using assms(1) by (simp add: session_wf_def size_ok_def MAX_FRAMEBUFFER_PIXELS_def MAX_RECT_AREA_def)
  finally have "decode_rect Z (vs_decoder s) r 7 ([0x90, of_nat (length data)] @ data @ bs) =
      Decoded (\<lparr>dr_rect = r, dr_payload = Jpeg data\<rparr>, vs_decoder s) bs"
    using assms(1) by (intro jpeg_decoded [OF _ assms(2,4)]) (simp_all add: session_wf_def)
  then show ?thesis
    using assms(3,5) unfolding update_step_def dbind_def header_reads
    by (simp add: tight_not_pseudo dret_def decoded_payload_len_def rect_union_def rect_is_empty_def Let_def dbind_def)
qed

text \<open>The new size is read, and taken.\<close>

lemma size_read:
  "read_pseudo_rect Z (rect_new 0 0 width height) (- 308) pf d ([0, 0, 0, 0] @ bs) = Decoded (ExtendedDesktopSize 0 0 width height [], d) bs"
proof -
  have kind: "pseudo_encoding_of (- 308) = Some PExtendedDesktopSize" by code_simp
  have pad: "msg_n 3 (0 # 0 # 0 # bs) = Decoded [0, 0, 0] bs" using msg_n_append [of "[0, 0, 0]" 3 bs] by simp
  show ?thesis
    unfolding read_pseudo_rect_def Let_def kind option.case pseudo_encoding.case dbind_def msg_append append_Cons append_Nil obind.simps pad
    by (simp add: dret_def)
qed

lemma size_taken:
  assumes "size_ok width height" and "width \<noteq> vs_width s \<or> height \<noteq> vs_height s"
  shows "\<exists>s'. handle_pseudo (ExtendedDesktopSize 0 0 width height []) s = Inr (False, s') \<and> vs_width s' = width \<and> vs_height s' = height \<and>
    vs_lossy_damage s' = rect_intersect (vs_lossy_damage s) (rect_new 0 0 width height) \<and>
    vs_alr_restore_pending s' = vs_alr_restore_pending s \<and> vs_applied_quality s' = vs_applied_quality s"
proof -
  let ?news = "\<lambda>s. (set_caps (\<lambda>c. c\<lparr>vc_extended_desktop_size := True\<rparr>) s)\<lparr>vs_screens := []\<rparr>"
  have keeps: "vs_width (reapply_size first s) = vs_width s \<and> vs_height (reapply_size first s) = vs_height s \<and>
      vs_lossy_damage (reapply_size first s) = vs_lossy_damage s \<and> vs_alr_restore_pending (reapply_size first s) = vs_alr_restore_pending s \<and>
      vs_applied_quality (reapply_size first s) = vs_applied_quality s" for first and s :: "'a vnc_session"
    by (auto simp: reapply_size_def send_set_desktop_size_def session_simps Let_def split: option.split)
  have "width \<noteq> 0" "height \<noteq> 0" "check_framebuffer_size width height = None"
    using assms(1) by (auto simp: size_ok_def check_framebuffer_size_def)
  with assms(2) have "\<exists>s2. answer_resize 0 0 width height (?news s) = Inr s2 \<and> vs_width s2 = width \<and> vs_height s2 = height \<and>
      vs_lossy_damage s2 = rect_intersect (vs_lossy_damage s) (rect_new 0 0 width height) \<and>
      vs_alr_restore_pending s2 = vs_alr_restore_pending s \<and> vs_applied_quality s2 = vs_applied_quality s"
    by (auto simp: answer_resize_def apply_resize_def session_simps Let_def)
  then obtain s2 where "answer_resize 0 0 width height (?news s) = Inr s2" "vs_width s2 = width" "vs_height s2 = height"
      "vs_lossy_damage s2 = rect_intersect (vs_lossy_damage s) (rect_new 0 0 width height)"
      "vs_alr_restore_pending s2 = vs_alr_restore_pending s" "vs_applied_quality s2 = vs_applied_quality s" by blast
  then show ?thesis by (simp add: keeps Let_def emit_event_def)
qed

lemma shrink_step:
  assumes "handle_pseudo (ExtendedDesktopSize 0 0 width height []) (us_session u) = Inr (False, s')"
  shows "update_step Z budget False u (rect_bytes (rect_new 0 0 width height) @ to_be_bytes (- 308 :: u32) @ [0, 0, 0, 0] @ bs) =
    Decoded (False, u\<lparr>us_session := s', us_interrupted := False\<rparr>) bs"
proof -
  have kind: "is_pseudo (- 308)" "(- 308 :: u32) \<noteq> PSEUDO_LAST_RECT" by code_simp+
  have same: "(us_session u)\<lparr>vs_decoder := vs_decoder (us_session u)\<rparr> = us_session u" by simp
  show ?thesis
    unfolding update_step_def dbind_def header_reads obind.simps prod.case Let_def if_not_P [OF kind(2)] if_P [OF kind(1)] size_read same assms
    by (simp add: dret_def)
qed

text \<open>The whole update, with what it leaves.\<close>

lemma started_keeps:
  "vs_width (update_started s) = vs_width s \<and> vs_height (update_started s) = vs_height s \<and> vs_decoder (update_started s) = vs_decoder s \<and>
   vs_lossy_damage (update_started s) = vs_lossy_damage s \<and> vs_alr_restore_pending (update_started s) = vs_alr_restore_pending s \<and>
   vs_applied_quality (update_started s) = vs_applied_quality s"
  by (auto simp: update_started_def session_simps Let_def)

definition paints_lossily :: "'z vnc_session \<Rightarrow> bool" where
  "paints_lossily s \<longleftrightarrow> \<not> vs_alr_restore_pending s \<and> (qs_allow_jpeg (vs_applied_quality s) \<or> qs_allow_h264 (vs_applied_quality s)) \<and>
     qs_jpeg_quality (vs_applied_quality s) < ALR_QUALITY_FLOOR"

lemma shrunk_update:
  assumes wf: "session_wf s" and pf: "pf_ok (ds_pf (vs_decoder s))" and r: "within (unat (vs_width s)) (unat (vs_height s)) r"
    and data: "length data < 128" and size: "size_ok width height" "width \<noteq> vs_width s \<or> height \<noteq> vs_height s"
    and lossy: "paints_lossily s"
  shows "\<exists>s'. handle_server_message Z C (\<lambda>_. False) paced 0 s (paint_and_shrink r data width height @ rest) = Decoded s' rest \<and>
    vs_width s' = width \<and> vs_height s' = height \<and> \<not> vs_alr_restore_pending s' \<and>
    vs_lossy_damage s' = rect_union (rect_intersect (vs_lossy_damage s) (rect_new 0 0 width height)) r"
proof -
  let ?s = "update_started s"
  let ?tail = "rect_bytes (rect_new 0 0 width height) @ to_be_bytes (- 308 :: u32) @ [0, 0, 0, 0] @ rest"
  note kept = started_keeps [of s]
  define u1 where "u1 = \<lparr>us_session = ?s, us_rects = [\<lparr>dr_rect = r, dr_payload = Jpeg data\<rparr>], us_damage = r,
    us_accumulated = length data, us_interrupted = False\<rparr>"
  have wf1: "session_wf ?s" using wf kept by (simp add: session_wf_def)
  have budget: "length data \<le> update_budget ?s" using data by (simp add: update_budget_def)
  have step1: "update_step Z (update_budget ?s) False
      \<lparr>us_session = ?s, us_rects = [], us_damage = rect_new 0 0 0 0, us_accumulated = 0, us_interrupted = False\<rparr>
      (rect_bytes r @ to_be_bytes (7 :: u32) @ [0x90, of_nat (length data)] @ data @ ?tail) = Decoded (False, u1) ?tail"
    unfolding u1_def by (rule painted_step [OF wf1 _ _ data budget]) (use pf r kept in simp_all)
  obtain s2 where s2: "handle_pseudo (ExtendedDesktopSize 0 0 width height []) ?s = Inr (False, s2)"
      "vs_width s2 = width" "vs_height s2 = height" "vs_lossy_damage s2 = rect_intersect (vs_lossy_damage s) (rect_new 0 0 width height)"
      "vs_alr_restore_pending s2 = vs_alr_restore_pending s" "vs_applied_quality s2 = vs_applied_quality s"
    using size_taken [OF size(1), of ?s] size(2) kept by auto
  define u2 where "u2 = u1\<lparr>us_session := s2, us_interrupted := False\<rparr>"
  have step2: "update_step Z (update_budget ?s) False u1 ?tail = Decoded (False, u2) rest"
    unfolding u2_def by (rule shrink_step) (use s2(1) in \<open>simp only: u1_def update_state.simps\<close>)
  have count: "65535 = Suc (Suc 65533)" "unat (2 :: u16) = Suc (Suc 0)" "(2 :: u16) \<noteq> 0xFFFF" by simp_all
  have loop: "update_loop Z (update_budget ?s) (\<lambda>_. False) 65535 (Some (unat (2 :: u16)))
      \<lparr>us_session = ?s, us_rects = [], us_damage = rect_new 0 0 0 0, us_accumulated = 0, us_interrupted = False\<rparr>
      (rect_bytes r @ to_be_bytes (7 :: u32) @ [0x90, of_nat (length data)] @ data @ ?tail) = Decoded u2 rest"
    unfolding count loop_some dbind_def step1 obind.simps prod.case if_False step2 by (simp add: dret_def)
  have header: "read_framebuffer_update_header ([0] @ to_be_bytes (2 :: u16) @ bs) = Decoded 2 bs" for bs
    by (simp add: read_framebuffer_update_header_def dbind_def)
  let ?final = "update_finished False (\<not> vs_priming_update_pending s) u2"
  have whole: "us_interrupted u2 = False" by (simp add: u2_def)
  have "read_framebuffer_update Z (\<lambda>_. False) s (paint_and_shrink r data width height @ rest) = Decoded (us_damage u2, ?final) rest"
    unfolding read_framebuffer_update_def paint_and_shrink_def append_assoc dbind_def header obind.simps Let_def if_not_P [OF count(3)] loop whole
    by (simp add: dret_def)
  then have "handle_server_message Z C (\<lambda>_. False) paced 0 s (paint_and_shrink r data width height @ rest) = Decoded ?final rest"
    by (simp add: handle_server_message_def dbind_def dret_def)
  moreover have "us_session u2 = s2" "us_rects u2 = [\<lparr>dr_rect = r, dr_payload = Jpeg data\<rparr>]" "us_damage u2 = r"
    by (simp_all add: u2_def u1_def)
  then have "vs_width ?final = width \<and> vs_height ?final = height \<and> \<not> vs_alr_restore_pending ?final \<and>
      vs_lossy_damage ?final = rect_union (rect_intersect (vs_lossy_damage s) (rect_new 0 0 width height)) r"
    using s2 lossy by (auto simp: update_finished_def note_lossy_def restore_encodings_def paints_lossily_def session_simps Let_def)
  ultimately show ?thesis by blast
qed

text \<open>
  C40. Lossy damage outlives a smaller screen. A size change inside an update clips the lossy damage there was before, but
  the update's own damage is united with it only after the last rectangle, and is not clipped. So in every session that paints lossily,
  whatever lossy damage inside the screen it has, when the server paints a rectangle with JPEG (here of less than 128 bytes) and in the
  same update announces a size that the rectangle does not fit in: the lossy damage is then the old one clipped to the new
  screen, united with the whole rectangle; it leaves the new screen, and the lossless refresh asks for just that.
\<close>

theorem lossy_damage_outlives_shrink:
  assumes "session_wf s" and "pf_ok (ds_pf (vs_decoder s))" and "paints_lossily s"
    and "within (unat (vs_width s)) (unat (vs_height s)) (vs_lossy_damage s)"
    and "within (unat (vs_width s)) (unat (vs_height s)) r" and "\<not> rect_is_empty r" and "length data < 128"
    and "size_ok width height" and "\<not> within (unat width) (unat height) r"
  shows "\<exists>s'. handle_server_message Z C (\<lambda>_. False) paced 0 s (paint_and_shrink r data width height @ rest) = Decoded s' rest \<and>
    vs_width s' = width \<and> vs_height s' = height \<and>
    vs_lossy_damage s' = rect_union (rect_intersect (vs_lossy_damage s) (rect_new 0 0 width height)) r \<and>
    \<not> within (unat width) (unat height) (vs_lossy_damage s') \<and>
    last (vs_sent (maybe_lossless_refresh True s')) = framebuffer_update_request False (vs_lossy_damage s')"
proof -
  let ?damage = "rect_union (rect_intersect (vs_lossy_damage s) (rect_new 0 0 width height)) r"
  have "width \<noteq> vs_width s \<or> height \<noteq> vs_height s" using assms(5,9) by auto
  from shrunk_update [OF assms(1,2,5,7,8) this assms(3)] obtain s' where s':
    "handle_server_message Z C (\<lambda>_. False) paced 0 s (paint_and_shrink r data width height @ rest) = Decoded s' rest"
    "vs_width s' = width" "vs_height s' = height" "\<not> vs_alr_restore_pending s'" "vs_lossy_damage s' = ?damage" by blast
  have small: "unat (vs_width s) < 65536" "unat (vs_height s) < 65536"
    using unsigned_less [where 'a = nat, of "vs_width s"] unsigned_less [where 'a = nat, of "vs_height s"] by simp_all
  note grown = union_within(2) [OF intersect_within [OF assms(4) small] assms(5) small]
  have outside: "\<not> within (unat width) (unat height) ?damage"
    using covers_outside [OF assms(6)] grown assms(9) by blast
  have "\<not> rect_is_empty ?damage"
    using covered_point [OF assms(6)] grown covers_nonempty by blast
  then have "last (vs_sent (maybe_lossless_refresh True s')) = framebuffer_update_request False (vs_lossy_damage s')"
    using s'(4,5) by (simp add: maybe_lossless_refresh_def session_simps Let_def)
  with s' outside show ?thesis by auto
qed

text \<open>A corner that was painted lossily before, a rectangle beyond it, and a screen half as wide and high.\<close>

theorem lossy_damage_outlives_shrink_witness:
  "\<exists>s'. handle_server_message copying clip_copying (\<lambda>_. False) False 0 (session0\<lparr>vs_lossy_damage := rect_new 0 0 80 30\<rparr>)
      (paint_and_shrink (rect_new 10 10 60 20) [1, 2, 3] 50 50 @ [9]) = Decoded s' [9] \<and>
    vs_lossy_damage s' = rect_new 0 0 70 30 \<and>
    last (vs_sent (maybe_lossless_refresh True s')) = framebuffer_update_request False (rect_new 0 0 70 30)"
proof -
  let ?s = "session0\<lparr>vs_lossy_damage := rect_new 0 0 80 30\<rparr>"
  have "session_wf ?s" using session0_wf by (simp add: session_wf_def)
  moreover have "pf_ok (ds_pf (vs_decoder ?s))" by (simp add: session0_def decoder_new_def pf_ok_def bgra8888_def)
  moreover have "paints_lossily ?s" by (simp add: paints_lossily_def session0_def quality0_def ALR_QUALITY_FLOOR_def)
  moreover have "rect_union (rect_intersect (rect_new 0 0 80 30) (rect_new 0 0 50 50)) (rect_new 10 10 60 20) = rect_new 0 0 70 30"
    by (simp add: rect_union_def rect_intersect_def rect_is_empty_def Let_def)
  ultimately show ?thesis
    using lossy_damage_outlives_shrink [of ?s "rect_new 10 10 60 20" "[1, 2, 3]" 50 50 copying clip_copying False "[9]"]
    by (auto simp: session0_def within_def rect_is_empty_def size_ok_def MAX_FRAMEBUFFER_PIXELS_def)
qed

end
