(* ===== verification/Spec2Isabelle.thy ===== *)
theory Spec2Isabelle
  imports Lease_Properties Board_Properties Wire_Properties Pdu_Properties Channel_Properties Session_Properties Agent_Properties Zgfx_Properties Vnc_Properties
begin

text \<open>
  DeskVNC is a remote desktop client whose sessions can be driven by people and by software
  agents. This development models the parts of its Rust workspace that decide something and
  have no input or output of their own, and proves what makes them correct.

  \<^bold>\<open>The parts and how they meet.\<close> A session is opened by a transport (RDP, VNC or SSH). Bytes
  from a server go through the decoders of \<open>crates/rdp-pdu\<close>, which must reject anything
  malformed and never hold more memory than a bound. Input towards a machine goes through the
  lease of that machine in \<open>crates/agent-lease\<close>: only the party that holds the lease has its
  intents dispatched, and when the wheel changes hands the caller is told to release every key
  and button that is still down. The lease knows nothing of the transports and the decoders
  nothing of the lease; both are pure code driven by the session tasks, which pass in the clock
  and the bytes.

  \<^bold>\<open>The lease (\<open>crates/agent-lease\<close>).\<close>
  Theory Lease_Types holds the data of \<open>clock.rs\<close>, \<open>party.rs\<close>, \<open>policy.rs\<close>, \<open>transition.rs\<close> and
  \<open>error.rs\<close>. Theory Lease models \<open>lease.rs\<close>: the record \<open>lease\<close> has the fields of the struct, and
  each method is a function from the lease, its arguments and the time to the new lease and the
  result, with the same early returns in the same order (\<open>acquire\<close> is cut into \<open>acquire_open\<close>,
  \<open>acquire_pending\<close> and \<open>acquire_queued\<close> at its returns; \<open>tick\<close> into \<open>sweep\<close> and \<open>tick_holder\<close>).
  Time is a 64 bit count of milliseconds with the saturating arithmetic of \<open>clock.rs\<close>; lease ids
  are 64 bit words: \<open>next_lease_id += 1\<close> wraps in a build without overflow checks, as in the model, and
  panics in one with them, which takes \<open>2 ^ 64\<close> grants. \<open>lease_op\<close> and \<open>lease_step\<close> gather the methods into
  one step and \<open>lease_run\<close> runs a list of calls, whatever their order and times.
  Lease_Invariant proves that each method keeps \<open>lease_wf\<close>; Lease_Safety states the contract that
  nobody comes to dispatch without a release as the locale \<open>arbiter\<close> and interprets it on the
  lease; Lease_Arbitration has the lemmas on preemption, minimum hold, the panic chord, fresh
  ids, deadlines and the order of the queue; Lease_Properties states its properties.

  \<^bold>\<open>The board (\<open>agent-lease/src/board.rs\<close>).\<close>
  Ordered_Map models \<open>BTreeMap\<close> as an association list with rising keys, behind the locale
  \<open>keyed_store\<close>. Theory Board models the board: one lease per session, ticked before every
  answer and handed over in one step, the person's mute and the "not now" answers. Board_Invariant
  proves \<open>board_wf\<close>, Board_Moves interprets \<open>arbiter\<close> once more for each session of a board, and
  Board_Properties states its properties. The board is what the desktop application calls;
  it rests on the lemmas of the lease, never on its definitions alone.

  \<^bold>\<open>The wire (\<open>crates/rdp-pdu\<close>).\<close>
  Theory Wire models the reader of \<open>io/reader.rs\<close> and the writer of \<open>io/writer.rs\<close>. A
  decoder is a function from the reader to a \<open>pdu_error\<close> or to a value with the advanced
  reader; the source's \<open>?\<close> is \<open>rbind\<close>. The locales \<open>decoder\<close>, \<open>codec\<close>, \<open>exact_codec\<close> and \<open>codec_pair\<close>
  state what the two sides of a format owe each other (whatever is written is read back and
  what follows is left alone; what is read was written that way), and each format is an
  interpretation: the integers in Wire, definite lengths in Asn1, BER in Ber, aligned PER
  in Per, segmented graphics messages in Segment, static channel headers in Static_Channel, and on
  the same locales the PDUs of dynamic channels in Dvc, TPKT and X.224 in X224 and the MCS domain PDUs
  in Mcs_Domain. The locale \<open>assembler\<close> (theory Wire) is the contract of a reassembler fed by a server
  that is not trusted; the reassemblers of static and of dynamic channels are instances.
  Wire_Properties and Pdu_Properties state the properties.

  \<^bold>\<open>The channels (\<open>crates/rdp-core/src/channels\<close>).\<close>
  Channel_Base holds the errors and the outbox, Send_Data the wrapping of one PDU, Display_Control
  the resizing of the remote desktop with its debounce, Dvc_Mux the multiplexer of dynamic channels
  (Dvc_Mux_Invariant and Dvc_Mux_Delivery prove what it keeps and delivers), Static_Registry the
  registry that hands a server's PDU to its channel. The handlers of graphics, audio and the clipboard are
  arguments of the model. Channel_Properties states the properties.

  \<^bold>\<open>The session supervisor (\<open>crates/remote-core/src/reconnect.rs\<close>).\<close>
  Session_Errors has every error of the transports with its class. Supervisor models the classification
  of an error, the wait for the next attempt and the loop around the attempts; the locale
  \<open>retry_classify\<close> is what the loop asks of a transport's classification, interpreted for RDP, VNC and
  SSH. Session_Carry models what one attempt leaves to the next: settings changed while waiting, and the redirection of an
  RDP broker. What the network, the clock and the user do is the input of each round, and the delay
  of the ladder (floating point) is an argument. Session_Properties states the properties.

  \<^bold>\<open>The agent plane (\<open>crates/remote-core\<close>, \<open>crates/limb-core\<close>, \<open>crates/agent-plane\<close>).\<close>
  Agent_Intent has the intents and the two fences that refuse what was computed against an
  old picture (locale \<open>generation_counter\<close>), Agent_Keys the named keys, Agent_Capability the capabilities and
  roles, Agent_Lowering the plan an intent is lowered to and what a plan may hold, Dispatch grants, the gates and
  the walk over a plan with the lease asked before every command, Dispatch_Laws what a walk leaves behind. Calls of other
  tasks between two steps are an input of the walk. Agent_Properties states the properties.

  \<^bold>\<open>The bulk decompressor (\<open>crates/rdp-codecs\<close>).\<close>
  Codec_Base models \<open>reader.rs\<close> and the errors of the crate, and relates bytes, words and
  lists of bits. Theory Zgfx models the token table, its lookup table, the bit reader and the
  steps of the RDP 8.0 decompressor of \<open>zgfx.rs\<close>. Zgfx_Bits shows what the 64 bit accumulator of the
  reader stands for (the bits that are left) and that the table is a prefix code. Lz_History states what a history owes a
  decompressor as the locale \<open>lz_history\<close> (a byte pushed is the newest of its window, a match
  reads the window at its distance); Zgfx_History has the loops and interprets it on the ring. Zgfx_Encode models
  the reference encoder of \<open>encode.rs\<close>, Zgfx_Roundtrip carries the round trip, and
  Zgfx_Properties states the properties.

  \<^bold>\<open>The RFB client (\<open>crates/vnc-core\<close>, \<open>crates/remote-pixel\<close>).\<close>
  A decoder of Vnc_Stream is a function from the bytes of the stream to an \<open>outcome\<close>: a value with the bytes left, an error, a
  panic, or no end; \<open>safely\<close> says that the last two do not happen. Pixel_Format has the wire formats and the conversion of
  pixels with its fast paths, Pixel_Buffer the writes into a picture, Geometry the rectangles. Vnc_Rects (raw, copy, RRE,
  CoRRE, hextile, zlib), Vnc_Zrle, Vnc_Tight and Vnc_H264 are the decoders of \<open>encodings/\<close>, Vnc_Decoder their dispatch and
  persistent state. Framebuffer is the picture (\<open>pixel/framebuffer.rs\<close>) with the specification \<open>picture_after\<close>, point by
  point. Vnc_Messages and Vnc_Pseudo are the messages of \<open>proto/\<close>, Vnc_Clipboard the clipboard, Vnc_Session the run loop's
  handling of a server's messages with the invariant \<open>session_wf\<close>. Vnc_Link has two protocols inside the session: the
  pipeline of update requests as the step relation \<open>vnc_step\<close>, and the change of the pixel format as a link of two ends,
  \<open>format_step\<close>, in which the client's end is the session with the bytes it sends and the server's end reads these bytes and behaves as
  the fence extension documents. Vnc_Properties states the properties. The zlib and JPEG libraries are arguments with the documented
  contract as a predicate (\<open>zlib_ok\<close>, \<open>clip_zlib_ok\<close>); a buffer of RGBA bytes is a list of pixels; shifts are those of
  a release build; the state after an error, which ends the connection, is not kept; writes and the event channel
  are taken to succeed; commands served in the middle of an update are seen through whether one of them ended the session; the
  clocks and the tuner are arguments.

  \<^bold>\<open>Bounds and termination.\<close> A \<open>usize\<close> is a natural number; where the source checks an addition
  (\<open>checked_add\<close>) the 64 bit bound is written out, and lemmas that need it assume a
  buffer below \<open>2 ^ 62\<close> or \<open>2 ^ 63\<close> bytes, which every Rust allocation satisfies. Loops over a list are structural
  recursion, and the others have a measure or are a \<open>partial_function (option)\<close> with a theorem that they end: the chunk
  iterator, the loops around zlib. The only count that runs down is the source's own, the 65535 headers of one
  update. The supervisor ends within a bound on its rounds that follows from the policy.

  \<^bold>\<open>What the development found.\<close> The theorem
  \<open>disconnect_in_handover_dispatches\<close> shows that a transport that drops between the choice of a
  new holder and the confirmation of the handover leaves a disconnected party dispatching, without
  the disconnect grace the comments promise. \<open>stale_press_after_release\<close> shows a key press that goes out after a
  force release, \<open>cancelled_click_holds_modifier\<close> a cancelled click that leaves a modifier down,
  \<open>lossy_damage_outlives_shrink\<close> a lossless refresh beyond the screen. Without being among the properties,
  \<open>zgfx_far_match_wraps\<close>, \<open>display_stale_resize_wins\<close>, \<open>pixel_budget_wraps\<close> and
  \<open>map_lost_between_switches\<close> show a match distance that wraps, an older size that
  wins over a newer one, a pixel budget that wraps, and a colour map that is dropped between two format switches;
  \<open>wait_keeps_settings\<close> shows which settings the VNC session loses while it waits. The lemmas
  \<open>buffered_after_delivery\<close>, \<open>empty_multipart_not_read\<close>, \<open>line_end_not_read\<close> and \<open>released_drag_reports_origin\<close>
  record smaller differences between a comment and the code.

  \<^bold>\<open>Not modelled.\<close> \<open>Display\<close>, serialisation and the sentences of errors everywhere. In \<open>rdp-pdu\<close>: the text
  reads of the reader (UTF-16, fixed ANSI), DER, the PDUs of the connection sequence, of updates and of graphics. In
  \<open>rdp-core\<close>: the asynchronous session and the handlers. In \<open>rdp-codecs\<close>: everything but ZGFX. In \<open>agent-plane\<close>: the answers to requests for pixels. In
  \<open>vnc-core\<close>: authentication, measuring and tuning. The remaining crates are drivers around sockets, files, the window system and
  cryptographic primitives, or codecs that are still to come.
\<close>

end
